(* ===== verification/Prelude.thy ===== *)
theory Prelude
  imports Main "HOL-Library.Word" "HOL-Library.Sublist" "HOL-Library.Multiset"
begin

unbundle bit_operations_syntax

text \<open>
  Shared vocabulary of the development: exceptions as values, the state-and-exception
  actions in which the bus-driven code is written, 32-bit masking of Python integers, and the
  generic lemmas the component theories use. A Python \<open>int\<close> is an \<open>int\<close>; a byte of a
  \<open>bytes\<close> object is an \<open>8 word\<close>; an exception is the value \<open>Exn kind template args\<close>, where the
  template is the leading text of the message and the arguments are the values formatted into it.
\<close>

named_theorems act_simps \<open>unfolding of actions on a given state\<close>
named_theorems bit_facts \<open>masks, fields and their ranges\<close>

section \<open>Exceptions\<close>

datatype fmt_arg = AI int | AS string

datatype exn_kind =
    ValueError | KeyError | IndexError | AssertionError | RuntimeError
  | OSError | StructError | SystemExit | TypeError | ZeroDivisionError | AttributeError | NameError

datatype exn = Exn exn_kind string "fmt_arg list"

type_synonym byte = "8 word"

section \<open>Actions: a state, a result or an exception, and the state after it\<close>

text \<open>
  The state is kept when an exception is raised: what a Python statement has already written
  stays written.
\<close>

type_synonym ('s, 'a) act = "'s \<Rightarrow> (exn + 'a) \<times> 's"

definition ret :: "'a \<Rightarrow> ('s, 'a) act" where
  "ret x s = (Inr x, s)"

definition raise :: "exn \<Rightarrow> ('s, 'a) act" where
  "raise e s = (Inl e, s)"

definition bnd :: "('s, 'a) act \<Rightarrow> ('a \<Rightarrow> ('s, 'b) act) \<Rightarrow> ('s, 'b) act" where
  "bnd m f s = (case m s of (Inl e, t) \<Rightarrow> (Inl e, t) | (Inr x, t) \<Rightarrow> f x t)"

definition andthen :: "('s, 'a) act \<Rightarrow> ('s, 'b) act \<Rightarrow> ('s, 'b) act" where
  "andthen m n = bnd m (\<lambda>_. n)"

definition handle :: "('s, 'a) act \<Rightarrow> (exn \<Rightarrow> ('s, 'a) act) \<Rightarrow> ('s, 'a) act" where
  "handle m h s = (case m s of (Inl e, t) \<Rightarrow> h e t | (Inr x, t) \<Rightarrow> (Inr x, t))"

definition act_when :: "bool \<Rightarrow> ('s, unit) act \<Rightarrow> ('s, unit) act" where
  "act_when b m = (if b then m else ret ())"

fun for_each :: "'a list \<Rightarrow> ('a \<Rightarrow> ('s, unit) act) \<Rightarrow> ('s, unit) act" where
  "for_each [] f = ret ()"
| "for_each (x # xs) f = andthen (f x) (for_each xs f)"

fun map_act :: "('a \<Rightarrow> ('s, 'b) act) \<Rightarrow> 'a list \<Rightarrow> ('s, 'b list) act" where
  "map_act f [] = ret []"
| "map_act f (x # xs) = bnd (f x) (\<lambda>y. bnd (map_act f xs) (\<lambda>ys. ret (y # ys)))"

definition get_state :: "('s, 's) act" where
  "get_state s = (Inr s, s)"

definition modify :: "('s \<Rightarrow> 's) \<Rightarrow> ('s, unit) act" where
  "modify f s = (Inr (), f s)"

text \<open>An action on the second part of a state.\<close>

definition on_snd :: "('b, 'a) act \<Rightarrow> ('w \<times> 'b, 'a) act" where
  "on_snd m s = (case m (snd s) of (r, b) \<Rightarrow> (r, (fst s, b)))"

lemma ret_apply [simp, act_simps]: "ret x s = (Inr x, s)"
  by (simp add: ret_def)

lemma raise_apply [simp, act_simps]: "raise e s = (Inl e, s)"
  by (simp add: raise_def)

lemma get_state_apply [simp, act_simps]: "get_state s = (Inr s, s)"
  by (simp add: get_state_def)

lemma modify_apply [simp, act_simps]: "modify f s = (Inr (), f s)"
  by (simp add: modify_def)

lemma bnd_ok [act_simps]: "m s = (Inr x, t) \<Longrightarrow> bnd m f s = f x t"
  by (simp add: bnd_def)

lemma bnd_exn [act_simps]: "m s = (Inl e, t) \<Longrightarrow> bnd m f s = (Inl e, t)"
  by (simp add: bnd_def)

lemma andthen_ok [act_simps]: "m s = (Inr x, t) \<Longrightarrow> andthen m n s = n t"
  by (simp add: andthen_def bnd_def)

lemma andthen_exn [act_simps]: "m s = (Inl e, t) \<Longrightarrow> andthen m n s = (Inl e, t)"
  by (simp add: andthen_def bnd_def)

lemma act_when_simps [simp]: "act_when True m = m" "act_when False m = ret ()"
  by (simp_all add: act_when_def)

lemma bnd_InrE:
  assumes "bnd m f s = (Inr y, u)"
  obtains x t where "m s = (Inr x, t)" "f x t = (Inr y, u)"
  using assms by (auto simp: bnd_def split: prod.splits sum.splits)

lemma andthen_InrE:
  assumes "andthen m n s = (Inr y, u)"
  obtains x t where "m s = (Inr x, t)" "n t = (Inr y, u)"
  using assms by (auto simp: andthen_def elim: bnd_InrE)

lemma for_each_append:
  "for_each (xs @ ys) f s = andthen (for_each xs f) (for_each ys f) s"
  by (induction xs arbitrary: s)
     (auto simp: andthen_def bnd_def split: prod.splits sum.splits)

text \<open>A loop of actions keeps what every round keeps.\<close>

lemma for_each_invariant:
  assumes "\<And>x s r t. x \<in> set xs \<Longrightarrow> f x s = (r, t) \<Longrightarrow> P s \<Longrightarrow> P t"
    and "for_each xs f s = (r, t)" and "P s"
  shows "P t"
  using assms
proof (induction xs arbitrary: s)
  case (Cons x xs)
  show ?case
  proof (cases "f x s")
    case (Pair q u)
    with Cons.prems have "P u" by auto
    with Pair Cons show ?thesis
      by (cases q) (fastforce simp: andthen_def bnd_def)+
  qed
qed simp

section \<open>32-bit masking of Python integers\<close>

definition u32 :: "int \<Rightarrow> int" where
  "u32 x = x AND 0xFFFFFFFF"

lemma u32_take_bit [bit_facts]: "u32 x = take_bit 32 x"
  by (simp add: u32_def take_bit_eq_mask mask_eq_exp_minus_1)

lemma u32_mod [bit_facts]: "u32 x = x mod 2 ^ 32"
  by (simp add: u32_take_bit take_bit_eq_mod)

lemma u32_range [simp, intro]: "0 \<le> u32 x" "u32 x < 4294967296"
  by (simp_all add: u32_mod)

lemma u32_id [simp]: "0 \<le> x \<Longrightarrow> x < 4294967296 \<Longrightarrow> u32 x = x"
  by (simp add: u32_mod)

lemma u32_u32 [simp]: "u32 (u32 x) = u32 x"
  by simp

definition is_u32 :: "int \<Rightarrow> bool" where
  "is_u32 x \<longleftrightarrow> 0 \<le> x \<and> x < 4294967296"

lemma is_u32_u32 [simp, intro]: "is_u32 (u32 x)"
  by (simp add: is_u32_def)

lemma and_ones [bit_facts]: "(x :: int) AND (2 ^ n - 1) = x mod 2 ^ n"
  by (metis mask_eq_exp_minus_1 take_bit_eq_mask take_bit_eq_mod)

text \<open>The bits \<open>lsb .. lsb+n-1\<close> of a word: \<open>(w >> lsb) & ((1 << n) - 1)\<close>.\<close>

definition bits_of :: "int \<Rightarrow> nat \<Rightarrow> nat \<Rightarrow> int" where
  "bits_of w lsb n = drop_bit lsb w AND (push_bit n 1 - 1)"

lemma bits_of_div [bit_facts]: "bits_of w lsb n = (w div 2 ^ lsb) mod 2 ^ n"
  by (simp add: bits_of_def drop_bit_eq_div and_ones push_bit_eq_mult)

lemma bits_of_range [simp, intro]: "0 \<le> bits_of w lsb n" "bits_of w lsb n < 2 ^ n"
  by (simp_all add: bits_of_div)

lemma bits_of_take [bit_facts]: "bits_of w lsb n = take_bit n (drop_bit lsb w)"
  by (simp add: bits_of_div take_bit_eq_mod drop_bit_eq_div)

lemma bit_bits_of: "bit (bits_of w lsb n) i \<longleftrightarrow> i < n \<and> bit w (lsb + i)"
  by (simp add: bits_of_take bit_take_bit_iff bit_drop_bit_eq)

lemma and_field_mask:
  "(t :: int) AND push_bit k (mask n) = push_bit k (bits_of t k n)"
  by (rule bit_eqI)
     (auto simp: bit_and_iff bit_push_bit_iff bit_mask_iff bit_bits_of)

section \<open>Lists and strings\<close>

lemma filter_Nil_iff: "filter P xs = [] \<longleftrightarrow> (\<forall>x\<in>set xs. \<not> P x)"
  by (simp add: filter_empty_conv)

text \<open>\<open>xs[-n:]\<close> for a positive \<open>n\<close>: the last \<open>n\<close> elements.\<close>

definition last_n :: "nat \<Rightarrow> 'a list \<Rightarrow> 'a list" where
  "last_n n xs = drop (length xs - n) xs"

lemma length_last_n [simp]: "length (last_n n xs) = min n (length xs)"
  by (simp add: last_n_def)

lemma last_n_all [simp]: "length xs \<le> n \<Longrightarrow> last_n n xs = xs"
  by (simp add: last_n_def)

lemma last_n_suffix: "suffix (last_n n xs) xs"
  unfolding last_n_def by (rule suffix_drop)

text \<open>A dictionary that keeps insertion order: an association list with distinct keys.\<close>

type_synonym ('k, 'v) dict = "('k \<times> 'v) list"

fun dict_set :: "'k \<Rightarrow> 'v \<Rightarrow> ('k, 'v) dict \<Rightarrow> ('k, 'v) dict" where
  "dict_set k v [] = [(k, v)]"
| "dict_set k v ((k', v') # d) = (if k = k' then (k, v) # d else (k', v') # dict_set k v d)"

definition dict_get :: "('k, 'v) dict \<Rightarrow> 'k \<Rightarrow> 'v option" where
  "dict_get d k = map_of d k"

definition dict_get_or :: "('k, 'v) dict \<Rightarrow> 'k \<Rightarrow> 'v \<Rightarrow> 'v" where
  "dict_get_or d k v = (case map_of d k of Some x \<Rightarrow> x | None \<Rightarrow> v)"

lemma map_of_dict_set [simp]: "map_of (dict_set k v d) = (map_of d)(k \<mapsto> v)"
  by (induction d) auto

lemma dict_get_set: "dict_get (dict_set k v d) k' = (if k' = k then Some v else dict_get d k')"
  by (simp add: dict_get_def)

lemma keys_dict_set:
  "map fst (dict_set k v d) = (if k \<in> fst ` set d then map fst d else map fst d @ [k])"
  by (induction d) (force split: if_splits)+

lemma distinct_dict_set: "distinct (map fst d) \<Longrightarrow> distinct (map fst (dict_set k v d))"
  by (auto simp: keys_dict_set)

lemma sum_dict_bump:
  "sum_list (map snd (dict_set k (dict_get_or d k 0 + n) d)) = sum_list (map snd d) + (n :: nat)"
  by (induction d) (auto simp: dict_get_or_def)

end
