(* ===== verification/Py_Bytes.thy ===== *)
theory Py_Bytes
  imports Prelude
begin

unbundle bit_operations_syntax

text \<open>
  The part of Python's \<open>struct\<close> and \<open>int.from_bytes\<close> that the sources use: little-endian and
  big-endian integers over byte lists, and sequences of little-endian 32-bit words
  (\<open>struct.pack("<nI")\<close> and \<open>struct.unpack("<nI")\<close>).
\<close>

fun le_int :: "byte list \<Rightarrow> int" where
  "le_int [] = 0"
| "le_int (b # bs) = uint b + 256 * le_int bs"

definition be_int :: "byte list \<Rightarrow> int" where
  "be_int bs = le_int (rev bs)"

fun unpack_words :: "byte list \<Rightarrow> int list" where
  "unpack_words (a # b # c # d # bs) = le_int [a, b, c, d] # unpack_words bs"
| "unpack_words _ = []"

definition pack_word :: "int \<Rightarrow> byte list" where
  "pack_word x = [word_of_int x, word_of_int (x div 256), word_of_int (x div 65536),
                  word_of_int (x div 16777216)]"

definition pack_words :: "int list \<Rightarrow> byte list" where
  "pack_words ws = concat (map pack_word ws)"

lemma length_pack_word [simp]: "length (pack_word x) = 4"
  by (simp add: pack_word_def)

lemma pack_words_simps [simp]:
  "pack_words [] = []"
  "pack_words (w # ws) = pack_word w @ pack_words ws"
  "pack_words (ws @ vs) = pack_words ws @ pack_words vs"
  by (simp_all add: pack_words_def)

lemma length_pack_words [simp]: "length (pack_words ws) = 4 * length ws"
  by (induction ws) auto

lemma length_unpack_words [simp]: "length (unpack_words bs) = length bs div 4"
  by (induction bs rule: unpack_words.induct) auto

lemma le_int_bounds: "0 \<le> le_int bs \<and> le_int bs < 256 ^ length bs"
proof (induction bs)
  case (Cons b bs)
  have "0 \<le> uint b" "uint b < 256"
    using uint_lt2p [of b] by simp_all
  with Cons show ?case by auto
qed simp

lemma le_int_nonneg [simp]: "0 \<le> le_int bs"
  using le_int_bounds by blast

lemma unpack_words_u32: "w \<in> set (unpack_words bs) \<Longrightarrow> is_u32 w"
proof (induction bs rule: unpack_words.induct)
  case (1 a b c d bs)
  show ?case
  proof (cases "w \<in> set (unpack_words bs)")
    case False
    with 1 have "w = le_int [a, b, c, d]" by simp
    then show ?thesis
      using le_int_bounds [of "[a, b, c, d]"] by (simp add: is_u32_def)
  qed (use 1 in auto)
qed auto

lemma div_powers_256:
  "(x :: int) div 65536 = x div 256 div 256"
  "x div 16777216 = x div 256 div 256 div 256"
  by (simp_all flip: zdiv_zmult2_eq)

lemma digits_256:
  assumes "0 \<le> (x :: int)" "x < 4294967296"
  shows "x mod 256 + 256 * (x div 256 mod 256 + 256 * (x div 256 div 256 mod 256
           + 256 * (x div 256 div 256 div 256 mod 256))) = x"
proof -
  define y z w where "y = x div 256" and "z = y div 256" and "w = z div 256"
  have "w = x div 16777216"
    by (simp add: w_def z_def y_def flip: zdiv_zmult2_eq)
  with assms have "0 \<le> w" "w < 256" by (simp_all add: pos_imp_zdiv_nonneg_iff)
  then have "w mod 256 = w" by simp
  moreover have "z mod 256 + 256 * w = z" "y mod 256 + 256 * z = y" "x mod 256 + 256 * y = x"
    by (simp_all add: w_def z_def y_def)
  ultimately show ?thesis
    by (simp only: w_def z_def y_def)
qed

lemma le_int_pack_word: "is_u32 x \<Longrightarrow> le_int (pack_word x) = x"
  using digits_256 [of x]
  by (simp add: pack_word_def uint_word_of_int is_u32_def div_powers_256)

lemma unpack_words_append4:
  "length xs = 4 \<Longrightarrow> unpack_words (xs @ ys) = le_int xs # unpack_words ys"
  by (auto simp: numeral_eq_Suc length_Suc_conv)

theorem unpack_pack_words: "\<forall>w\<in>set ws. is_u32 w \<Longrightarrow> unpack_words (pack_words ws) = ws"
  by (induction ws) (auto simp: unpack_words_append4 le_int_pack_word)

lemma byte_256: "(256 :: byte) = 0"
  by simp

lemma le_int_head: "(word_of_int (le_int (a # bs)) :: byte) = a"
  by (simp add: byte_256)

lemma le_int_tail: "le_int (a # bs) div 256 = le_int bs"
  using uint_lt2p [of a] by simp

lemma pack_word_le_int: "pack_word (le_int [a, b, c, d]) = [a, b, c, d]"
  by (simp add: pack_word_def div_powers_256 le_int_head le_int_tail del: le_int.simps)

theorem pack_unpack_words: "4 dvd length bs \<Longrightarrow> pack_words (unpack_words bs) = bs"
proof (induction bs rule: unpack_words.induct)
  case (1 a b c d bs)
  then have "4 dvd length bs" by simp presburger
  with 1 show ?case by (simp add: pack_word_le_int del: le_int.simps)
qed (auto dest: dvd_imp_le)

end
