(* ===== verification/Wp_Records.thy ===== *)
theory Wp_Records
  imports Py_Bytes
begin

unbundle bit_operations_syntax

text \<open>
  The watchpoint record parser of \<open>tools/axis_wp_host/wp_records.py\<close>: the four-word record with
  its validation (findings are collected, never raised), the splitting of a word or byte stream
  into records with a counted remainder, and the grouping by core.
\<close>

section \<open>Records\<close>

definition W3_RESERVED_MASK :: int where "W3_RESERVED_MASK = 0xFF000000"
definition TSTRB_ELEM0 :: int where "TSTRB_ELEM0 = 0x00F"
definition TSTRB_ELEM1 :: int where "TSTRB_ELEM1 = 0x0F0"
definition TSTRB_ELEM2 :: int where "TSTRB_ELEM2 = 0xF00"

text \<open>The findings of a record: the text of each is its constructor, the formatted values its
  arguments.\<close>

datatype rec_error =
    Reserved_Bits int
  | Tstrb_Partial string int
  | Pc_Absent int

record wp_record =
  r_index :: nat
  r_pc :: int
  r_direct :: int
  r_ts :: int
  r_tid :: int
  r_tstrb :: int
  r_core_id :: int
  r_errors :: "rec_error list"

definition tstrb_errors :: "int \<Rightarrow> rec_error list" where
  "tstrb_errors tstrb =
     concat (map (\<lambda>(name, msk). let part = tstrb AND msk
                                in if part \<noteq> 0 \<and> part \<noteq> msk then [Tstrb_Partial name tstrb] else [])
       [(''elem0/PC'', TSTRB_ELEM0), (''elem1/DirectData'', TSTRB_ELEM1), (''elem2/TS'', TSTRB_ELEM2)])
     @ (if tstrb AND TSTRB_ELEM0 = 0 then [Pc_Absent tstrb] else [])"

definition mk_record :: "nat \<Rightarrow> int \<Rightarrow> int \<Rightarrow> int \<Rightarrow> int \<Rightarrow> wp_record" where
  "mk_record i w0 w1 w2 w3 =
     (let tstrb = drop_bit 8 w3 AND 0xFFF in
      \<lparr> r_index = i, r_pc = w0 AND 0xFFFFFFFF, r_direct = w1 AND 0xFFFFFFFF,
        r_ts = w2 AND 0xFFFFFFFF, r_tid = w3 AND 0xFF, r_tstrb = tstrb,
        r_core_id = drop_bit 20 w3 AND 0xF,
        r_errors = (if w3 AND W3_RESERVED_MASK \<noteq> 0
                    then [Reserved_Bits (drop_bit 24 w3 AND 0xFF)] else [])
                   @ tstrb_errors tstrb \<rparr>)"

definition r_valid :: "wp_record \<Rightarrow> bool" where
  "r_valid r \<longleftrightarrow> r_errors r = []"

section \<open>Stream splitting\<close>

record stream_result =
  sr_records :: "wp_record list"
  sr_tail_words :: "int list"
  sr_n_malformed_words :: nat
  sr_n_malformed_bytes :: nat

definition mk_stream_result :: "wp_record list \<Rightarrow> int list \<Rightarrow> nat \<Rightarrow> stream_result" where
  "mk_stream_result rs tws n = \<lparr> sr_records = rs, sr_tail_words = tws,
     sr_n_malformed_words = length tws, sr_n_malformed_bytes = n \<rparr>"

definition n_records :: "stream_result \<Rightarrow> nat" where
  "n_records s = length (sr_records s)"

definition n_valid :: "stream_result \<Rightarrow> nat" where
  "n_valid s = length (filter r_valid (sr_records s))"

definition n_invalid :: "stream_result \<Rightarrow> nat" where
  "n_invalid s = n_records s - n_valid s"

definition parse_words :: "int list \<Rightarrow> stream_result" where
  "parse_words ws0 =
     (let ws = map (\<lambda>w. w AND 0xFFFFFFFF) ws0; n_full = length ws div 4 in
      mk_stream_result
        (map (\<lambda>i. mk_record i (ws ! (4 * i)) (ws ! (4 * i + 1)) (ws ! (4 * i + 2)) (ws ! (4 * i + 3)))
             [0..<n_full])
        (drop (4 * n_full) ws) 0)"

definition parse_bytes :: "byte list \<Rightarrow> stream_result" where
  "parse_bytes data =
     (let n_bytes_tail = length data mod 4; usable = length data - n_bytes_tail;
          words = unpack_words (take usable data); res = parse_words words in
      mk_stream_result (sr_records res) (sr_tail_words res) n_bytes_tail)"

text \<open>\<open>out.setdefault(r.core_id, []).append(r)\<close> for every valid record, in order.\<close>

definition split_by_core :: "wp_record list \<Rightarrow> (int, wp_record list) dict" where
  "split_by_core rs =
     fold (\<lambda>r out. if r_valid r
                   then dict_set (r_core_id r) (dict_get_or out (r_core_id r) [] @ [r]) out
                   else out) rs []"

section \<open>The record layout\<close>

text \<open>The meta word of the layout comment: \<open>{8'h00, core_id[3:0], tstrb[11:0], tid[7:0]}\<close>.\<close>

definition w3_of :: "int \<Rightarrow> int \<Rightarrow> int \<Rightarrow> int" where
  "w3_of core tstrb tid = (push_bit 20 core OR push_bit 8 tstrb) OR tid"

definition full_strobes :: "int set" where
  "full_strobes = {0x00F, 0x0FF, 0xF0F, 0xFFF}"

lemma reserved_iff: "w3 AND W3_RESERVED_MASK = 0 \<longleftrightarrow> bits_of w3 24 8 = 0"
  using and_field_mask [of w3 24 8]
  by (simp add: W3_RESERVED_MASK_def mask_eq_exp_minus_1 push_bit_eq_mult)

lemma strobe_nibbles:
  "t AND TSTRB_ELEM0 = t mod 16"
  "t AND TSTRB_ELEM1 = 16 * (t div 16 mod 16)"
  "t AND TSTRB_ELEM2 = 256 * (t div 256 mod 16)"
  using and_field_mask [of t 0 4] and_field_mask [of t 4 4] and_field_mask [of t 8 4]
  by (simp_all add: TSTRB_ELEM0_def TSTRB_ELEM1_def TSTRB_ELEM2_def mask_eq_exp_minus_1
      push_bit_eq_mult bits_of_div)

lemma tstrb_errors_Nil_iff:
  assumes "0 \<le> t" "t < 4096"
  shows "tstrb_errors t = [] \<longleftrightarrow> t \<in> full_strobes"
proof -
  define a b c where abc: "a = t mod 16" "b = t div 16 mod 16" "c = t div 256 mod 16"
  have nib: "t AND 15 = a" "t AND 240 = 16 * b" "t AND 3840 = 256 * c"
    using strobe_nibbles [of t]
    by (simp_all add: TSTRB_ELEM0_def TSTRB_ELEM1_def TSTRB_ELEM2_def abc)
  have "t div 16 mod 16 + 16 * (t div 16 div 16) = t div 16" by simp
  moreover have "t div 16 div 16 = t div 256" by (simp flip: zdiv_zmult2_eq)
  moreover have "t div 256 mod 16 = t div 256"
    using assms by (simp add: pos_imp_zdiv_nonneg_iff)
  ultimately have t: "t = a + 16 * (b + 16 * c)"
    by (simp add: abc)
  have "tstrb_errors t = [] \<longleftrightarrow> a = 15 \<and> (b = 0 \<or> b = 15) \<and> (c = 0 \<or> c = 15)"
    by (auto simp: tstrb_errors_def Let_def nib TSTRB_ELEM0_def TSTRB_ELEM1_def TSTRB_ELEM2_def)
  also have "\<dots> \<longleftrightarrow> t \<in> full_strobes"
  proof
    assume "a = 15 \<and> (b = 0 \<or> b = 15) \<and> (c = 0 \<or> c = 15)"
    with t show "t \<in> full_strobes" by (auto simp: full_strobes_def)
  next
    assume "t \<in> full_strobes"
    then show "a = 15 \<and> (b = 0 \<or> b = 15) \<and> (c = 0 \<or> c = 15)"
      by (auto simp: full_strobes_def abc)
  qed
  finally show ?thesis .
qed

lemma and_FFF: "(w :: int) AND 0xFFF = w mod 4096"
  using and_ones [of w 12] by simp

lemma and_FF: "(w :: int) AND 0xFF = w mod 256"
  using and_ones [of w 8] by simp

lemma and_F: "(w :: int) AND 0xF = w mod 16"
  using and_ones [of w 4] by simp

lemma r_tstrb_mk_record: "r_tstrb (mk_record i w0 w1 w2 w3) = bits_of w3 8 12"
  by (simp add: mk_record_def Let_def bits_of_div and_FFF drop_bit_eq_div)

lemma r_core_mk_record: "r_core_id (mk_record i w0 w1 w2 w3) = bits_of w3 20 4"
  by (simp add: mk_record_def Let_def bits_of_div and_F drop_bit_eq_div)

lemma r_tid_mk_record: "r_tid (mk_record i w0 w1 w2 w3) = bits_of w3 0 8"
  by (simp add: mk_record_def Let_def bits_of_div and_FF)

lemma r_words_mk_record [simp]:
  "r_index (mk_record i w0 w1 w2 w3) = i"
  "r_pc (mk_record i w0 w1 w2 w3) = u32 w0"
  "r_direct (mk_record i w0 w1 w2 w3) = u32 w1"
  "r_ts (mk_record i w0 w1 w2 w3) = u32 w2"
  by (simp_all add: mk_record_def Let_def u32_def)

lemmas record_fields = r_tstrb_mk_record r_core_mk_record r_tid_mk_record

lemma record_valid_char:
  "r_valid (mk_record i w0 w1 w2 w3) \<longleftrightarrow>
     bits_of w3 24 8 = 0 \<and> bits_of w3 8 12 \<in> full_strobes"
proof -
  have t: "drop_bit 8 w3 AND 0xFFF = bits_of w3 8 12"
    by (simp add: bits_of_div and_FFF drop_bit_eq_div)
  have "0 \<le> bits_of w3 8 12" "bits_of w3 8 12 < 4096"
    using bits_of_range [of w3 8 12] by simp_all
  from tstrb_errors_Nil_iff [OF this] show ?thesis
    by (simp add: r_valid_def mk_record_def Let_def t reserved_iff)
qed

text \<open>A record is valid exactly when the reserved byte of its meta word is zero and its strobe
  is one of the four patterns in which every present element is strobed completely and the PC
  element is present.\<close>

lemma record_valid_iff:
  "r_valid (mk_record i w0 w1 w2 w3) \<longleftrightarrow>
     bits_of w3 24 8 = 0 \<and> bits_of w3 8 12 \<in> full_strobes"
  by (fact record_valid_char)

section \<open>Round trip of well-formed records\<close>

definition wf_record :: "wp_record \<Rightarrow> bool" where
  "wf_record r \<longleftrightarrow> is_u32 (r_pc r) \<and> is_u32 (r_direct r) \<and> is_u32 (r_ts r)
     \<and> 0 \<le> r_tid r \<and> r_tid r < 256 \<and> r_tstrb r \<in> full_strobes
     \<and> 0 \<le> r_core_id r \<and> r_core_id r < 16 \<and> r_errors r = []"

definition record_words :: "wp_record \<Rightarrow> int list" where
  "record_words r = [r_pc r, r_direct r, r_ts r, w3_of (r_core_id r) (r_tstrb r) (r_tid r)]"

lemma length_record_words [simp]: "length (record_words r) = 4"
  by (simp add: record_words_def)

lemma w3_of_bits:
  "bits_of (w3_of (take_bit 4 c) (take_bit 12 s) (take_bit 8 d)) 0 8 = take_bit 8 d"
  "bits_of (w3_of (take_bit 4 c) (take_bit 12 s) (take_bit 8 d)) 8 12 = take_bit 12 s"
  "bits_of (w3_of (take_bit 4 c) (take_bit 12 s) (take_bit 8 d)) 20 4 = take_bit 4 c"
  "bits_of (w3_of (take_bit 4 c) (take_bit 12 s) (take_bit 8 d)) 24 8 = 0"
  "take_bit 32 (w3_of (take_bit 4 c) (take_bit 12 s) (take_bit 8 d))
     = w3_of (take_bit 4 c) (take_bit 12 s) (take_bit 8 d)"
  by ((rule bit_eqI; auto simp: w3_of_def bit_or_iff bit_push_bit_iff bit_take_bit_iff bit_bits_of))+

lemma w3_of_fields:
  assumes "0 \<le> c" "c < 16" "0 \<le> s" "s < 4096" "0 \<le> d" "d < 256"
  shows "bits_of (w3_of c s d) 0 8 = d" "bits_of (w3_of c s d) 8 12 = s"
    "bits_of (w3_of c s d) 20 4 = c" "bits_of (w3_of c s d) 24 8 = 0" "is_u32 (w3_of c s d)"
proof -
  have t: "take_bit 4 c = c" "take_bit 12 s = s" "take_bit 8 d = d"
    using assms by (simp_all add: take_bit_int_eq_self_iff)
  show "bits_of (w3_of c s d) 0 8 = d" "bits_of (w3_of c s d) 8 12 = s"
    "bits_of (w3_of c s d) 20 4 = c" "bits_of (w3_of c s d) 24 8 = 0"
    using w3_of_bits [of c s d] unfolding t by blast+
  have "u32 (w3_of c s d) = w3_of c s d"
    using w3_of_bits(5) [of c s d] unfolding t u32_take_bit .
  then show "is_u32 (w3_of c s d)"
    by (metis is_u32_u32)
qed

lemma full_strobes_range: "s \<in> full_strobes \<Longrightarrow> 0 \<le> s \<and> s < 4096"
  by (auto simp: full_strobes_def)

lemma wf_record_words_u32: "wf_record r \<Longrightarrow> w \<in> set (record_words r) \<Longrightarrow> is_u32 w"
  using full_strobes_range [of "r_tstrb r"]
  by (auto simp: wf_record_def record_words_def intro: w3_of_fields(5))

lemma mk_record_words:
  assumes "wf_record r"
  shows "mk_record (r_index r) (r_pc r) (r_direct r) (r_ts r) (w3_of (r_core_id r) (r_tstrb r) (r_tid r)) = r"
    (is "?m = r")
proof -
  note s = full_strobes_range [of "r_tstrb r"]
  have f: "r_tstrb ?m = r_tstrb r" "r_core_id ?m = r_core_id r" "r_tid ?m = r_tid r"
    using assms s by (simp_all add: record_fields w3_of_fields wf_record_def)
  have "r_valid ?m"
    using assms s by (simp add: record_valid_char w3_of_fields wf_record_def)
  then have "r_errors ?m = r_errors r"
    using assms by (simp add: r_valid_def wf_record_def)
  with f show ?thesis
    using assms by (intro wp_record.equality) (simp_all add: wf_record_def is_u32_def)
qed

lemma nth_concat_const:
  assumes "\<And>x. length (f x) = k" "i < length xs" "j < k"
  shows "concat (map f xs) ! (k * i + j) = f (xs ! i) ! j"
  using assms(2)
proof (induction xs arbitrary: i)
  case (Cons x xs)
  then show ?case
    using assms(1,3) by (cases i) (auto simp: nth_append algebra_simps)
qed simp

lemma length_concat_words [simp]: "length (concat (map record_words rs)) = 4 * length rs"
  by (induction rs) auto

lemma parse_words_records:
  assumes wf: "\<forall>r\<in>set rs. wf_record r" and idx: "\<forall>i<length rs. r_index (rs ! i) = i"
    and tw: "\<forall>w\<in>set tws. is_u32 w" and len: "length tws < 4"
  shows "parse_words (concat (map record_words rs) @ tws) = mk_stream_result rs tws 0"
proof -
  let ?ws = "concat (map record_words rs) @ tws"
  have "\<forall>w\<in>set ?ws. is_u32 w"
    using wf tw wf_record_words_u32 by auto
  then have m: "map (\<lambda>w. w AND 0xFFFFFFFF) ?ws = ?ws"
    by (intro map_idI) (simp add: is_u32_def flip: u32_def)
  have "length tws div 4 = 0" using len by simp
  then have n: "length ?ws div 4 = length rs" by simp
  have "map (\<lambda>i. mk_record i (?ws ! (4 * i)) (?ws ! (4 * i + 1)) (?ws ! (4 * i + 2)) (?ws ! (4 * i + 3)))
          [0..<length rs] = rs"
  proof (intro nth_equalityI)
    fix i assume "i < length (map (\<lambda>i. mk_record i (?ws ! (4 * i)) (?ws ! (4 * i + 1))
        (?ws ! (4 * i + 2)) (?ws ! (4 * i + 3))) [0..<length rs])"
    then have i: "i < length rs" by simp
    have nth: "?ws ! (4 * i + j) = record_words (rs ! i) ! j" if "j < 4" for j
      using nth_concat_const [of record_words 4 i rs j] i that by (simp add: nth_append)
    have "mk_record i (?ws ! (4 * i)) (?ws ! (4 * i + 1)) (?ws ! (4 * i + 2)) (?ws ! (4 * i + 3)) = rs ! i"
      using nth [of 0] nth [of 1] nth [of 2] nth [of 3] mk_record_words [of "rs ! i"] wf idx i
      by (simp add: record_words_def)
    with i show "map (\<lambda>i. mk_record i (?ws ! (4 * i)) (?ws ! (4 * i + 1))
        (?ws ! (4 * i + 2)) (?ws ! (4 * i + 3))) [0..<length rs] ! i = rs ! i" by simp
  qed simp
  then show ?thesis
    by (simp only: parse_words_def Let_def m n) simp
qed

text \<open>Parsing the little-endian bytes of well-formed records, followed by up to three words
  and up to three bytes, gives back exactly these records, the words as tail and the bytes as
  counted remainder: nothing is lost, reordered or reported invalid.\<close>

lemma parse_bytes_roundtrip:
  assumes "\<forall>r\<in>set rs. wf_record r" and "\<forall>i<length rs. r_index (rs ! i) = i"
    and "\<forall>w\<in>set tws. is_u32 w" and "length tws < 4" and "length tbs < 4"
  shows "parse_bytes (pack_words (concat (map record_words rs) @ tws) @ tbs)
           = mk_stream_result rs tws (length tbs)"
proof -
  let ?ws = "concat (map record_words rs) @ tws"
  have "\<forall>w\<in>set ?ws. is_u32 w"
    using assms(1,3) wf_record_words_u32 by auto
  then have u: "unpack_words (pack_words ?ws) = ?ws"
    by (rule unpack_pack_words)
  have l: "length (pack_words ?ws @ tbs) mod 4 = length tbs"
    using assms(5) by (simp only: length_append length_pack_words mod_mult_self4 mod_less)
  have t: "take (length (pack_words ?ws @ tbs) - length tbs) (pack_words ?ws @ tbs) = pack_words ?ws"
    by (simp del: pack_words_simps)
  show ?thesis
    using parse_words_records [OF assms(1-4)]
    by (simp only: parse_bytes_def Let_def l t u) (simp add: mk_stream_result_def)
qed

lemma parse_bytes_roundtrip_witness:
  "parse_bytes (pack_words (concat (map record_words [mk_record 0 0x80000124 7 0x42 0x3FFF11])
       @ [1, 2]) @ [9])
     = mk_stream_result [mk_record 0 0x80000124 7 0x42 0x3FFF11] [1, 2] 1"
proof -
  have "wf_record (mk_record 0 0x80000124 7 0x42 0x3FFF11)"
    by code_simp
  then show ?thesis
    using parse_bytes_roundtrip [of "[mk_record 0 0x80000124 7 0x42 0x3FFF11]" "[1, 2]" "[9]"]
    by (simp add: is_u32_def)
qed

section \<open>Grouping by core\<close>

lemma split_by_core_snoc:
  "split_by_core (rs @ [r]) = (if r_valid r
     then dict_set (r_core_id r) (dict_get_or (split_by_core rs) (r_core_id r) [] @ [r]) (split_by_core rs)
     else split_by_core rs)"
  by (simp add: split_by_core_def)

lemma split_by_core_lookup:
  "dict_get (split_by_core rs) c =
     (if filter (\<lambda>r. r_valid r \<and> r_core_id r = c) rs = [] then None
      else Some (filter (\<lambda>r. r_valid r \<and> r_core_id r = c) rs))"
proof (induction rs arbitrary: c rule: rev_induct)
  case Nil
  then show ?case by (simp add: split_by_core_def dict_get_def)
next
  case (snoc r rs)
  note IH = snoc.IH [of "r_core_id r"] snoc.IH [of c]
  show ?case
    using IH by (auto simp: split_by_core_snoc dict_get_set dict_get_or_def dict_get_def
        split: if_splits option.splits)
qed

text \<open>Grouping by core keeps, for every core, exactly the valid records of that core in stream
  order, and has no entry for a core without one.\<close>

lemma split_by_core_get:
  "dict_get (split_by_core rs) c =
     (if filter (\<lambda>r. r_valid r \<and> r_core_id r = c) rs = [] then None
      else Some (filter (\<lambda>r. r_valid r \<and> r_core_id r = c) rs))"
  by (fact split_by_core_lookup)

lemma split_by_core_distinct: "distinct (map fst (split_by_core rs))"
  by (induction rs rule: rev_induct)
     (simp_all add: split_by_core_snoc distinct_dict_set split_by_core_def [of "[]"])

end
