(* ===== verification/Py_Strings.thy ===== *)
theory Py_Strings
  imports Prelude "HOL-Library.Char_ord"
begin

text \<open>
  The string operations of Python the sources use, on \<open>string\<close> (a list of characters with codes
  below 256): whitespace, \<open>strip\<close>, \<open>split\<close>, \<open>startswith\<close>, ASCII lower case and \<open>int(s, base)\<close>
  with its prefixes and underscores (non-ASCII digits are not modelled).
\<close>

definition code_of :: "char \<Rightarrow> nat" where
  "code_of c = of_char c"

definition is_space :: "char \<Rightarrow> bool" where
  "is_space c \<longleftrightarrow> (let n = code_of c in
     9 \<le> n \<and> n \<le> 13 \<or> 28 \<le> n \<and> n \<le> 32 \<or> n = 133 \<or> n = 160)"

definition lstrip :: "string \<Rightarrow> string" where
  "lstrip s = dropWhile is_space s"

definition rstrip :: "string \<Rightarrow> string" where
  "rstrip s = rev (dropWhile is_space (rev s))"

definition strip :: "string \<Rightarrow> string" where
  "strip s = rstrip (lstrip s)"

definition startswith :: "string \<Rightarrow> string \<Rightarrow> bool" where
  "startswith s p \<longleftrightarrow> take (length p) s = p"

definition endswith :: "string \<Rightarrow> string \<Rightarrow> bool" where
  "endswith s p \<longleftrightarrow> length p \<le> length s \<and> drop (length s - length p) s = p"

text \<open>\<open>s.split()\<close>: the maximal runs without whitespace.\<close>

fun words_acc :: "string \<Rightarrow> string \<Rightarrow> string list" where
  "words_acc cur [] = (if cur = [] then [] else [rev cur])"
| "words_acc cur (c # cs) =
     (if is_space c then (if cur = [] then [] else [rev cur]) @ words_acc [] cs
      else words_acc (c # cur) cs)"

definition split_ws :: "string \<Rightarrow> string list" where
  "split_ws s = words_acc [] s"

text \<open>\<open>s.split(sep)\<close> for a separator of one character.\<close>

fun split_on :: "char \<Rightarrow> string \<Rightarrow> string list" where
  "split_on d [] = [[]]"
| "split_on d (c # cs) =
     (if c = d then [] # split_on d cs
      else case split_on d cs of w # ws \<Rightarrow> (c # w) # ws | [] \<Rightarrow> [[c]])"

definition lower_char :: "char \<Rightarrow> char" where
  "lower_char c = (let n = code_of c in
     if 65 \<le> n \<and> n \<le> 90 then char_of (n + 32)
     else if 192 \<le> n \<and> n \<le> 222 \<and> n \<noteq> 215 then char_of (n + 32) else c)"

definition lower :: "string \<Rightarrow> string" where
  "lower s = map lower_char s"

section \<open>Integers\<close>

definition digit_of :: "nat \<Rightarrow> char \<Rightarrow> int option" where
  "digit_of base c =
     (let n = code_of c;
          v = (if 48 \<le> n \<and> n \<le> 57 then n - 48
               else if 97 \<le> n \<and> n \<le> 122 then n - 87
               else if 65 \<le> n \<and> n \<le> 90 then n - 55 else 99)
      in if v < base then Some (int v) else None)"

fun digits_after :: "nat \<Rightarrow> int \<Rightarrow> string \<Rightarrow> int option" where
  "digits_after base acc [] = Some acc"
| "digits_after base acc (c # cs) =
     (if c = CHR ''_'' then
        (case cs of [] \<Rightarrow> None
         | d # ds \<Rightarrow> (case digit_of base d of None \<Rightarrow> None
             | Some v \<Rightarrow> digits_after base (acc * int base + v) ds))
      else case digit_of base c of None \<Rightarrow> None
         | Some v \<Rightarrow> digits_after base (acc * int base + v) cs)"

definition digits :: "nat \<Rightarrow> string \<Rightarrow> int option" where
  "digits base s = (case s of [] \<Rightarrow> None
     | c # cs \<Rightarrow> (case digit_of base c of None \<Rightarrow> None | Some v \<Rightarrow> digits_after base v cs))"

text \<open>The digits after a base prefix, where one underscore may come first.\<close>

definition digits_prefixed :: "nat \<Rightarrow> string \<Rightarrow> int option" where
  "digits_prefixed base s = (case s of c # cs \<Rightarrow> digits base (if c = CHR ''_'' then cs else s)
     | [] \<Rightarrow> None)"

definition base_prefix :: "string \<Rightarrow> nat option" where
  "base_prefix s =
     (case s of CHR ''0'' # c # _ \<Rightarrow>
        (let l = lower_char c in
         if l = CHR ''x'' then Some 16 else if l = CHR ''o'' then Some 8
         else if l = CHR ''b'' then Some 2 else None)
      | _ \<Rightarrow> None)"

definition unsigned_int :: "nat \<Rightarrow> string \<Rightarrow> int option" where
  "unsigned_int base s =
     (case base_prefix s of
        Some b \<Rightarrow> (if base = 0 \<or> base = b then digits_prefixed b (drop 2 s) else digits base s)
      | None \<Rightarrow>
          (if base = 0 then
             (case digits 10 s of None \<Rightarrow> None
              | Some v \<Rightarrow> (if hd s = CHR ''0'' \<and> v \<noteq> 0 then None else Some v))
           else digits base s))"

text \<open>\<open>int(s, base)\<close>; \<open>None\<close> is the \<open>ValueError\<close>.\<close>

definition py_int :: "nat \<Rightarrow> string \<Rightarrow> int option" where
  "py_int base s0 =
     (let s = strip s0 in
      case s of [] \<Rightarrow> None
      | c # cs \<Rightarrow> (if c = CHR ''-'' then map_option uminus (unsigned_int base cs)
                   else if c = CHR ''+'' then unsigned_int base cs
                   else unsigned_int base s))"

lemma digit_of_range: "digit_of b c = Some v \<Longrightarrow> 0 \<le> v \<and> v < int b"
  by (auto simp: digit_of_def Let_def split: if_splits)

lemma digits_after_nonneg: "0 \<le> acc \<Longrightarrow> digits_after b acc s = Some v \<Longrightarrow> 0 \<le> v"
  by (induction b acc s rule: digits_after.induct)
     (auto split: if_splits list.splits option.splits dest: digit_of_range,
      metis add_nonneg_nonneg mult_nonneg_nonneg of_nat_0_le_iff digit_of_range)

lemma unsigned_int_nonneg: "unsigned_int b s = Some v \<Longrightarrow> 0 \<le> v"
  by (auto simp: unsigned_int_def digits_prefixed_def digits_def split: if_splits list.splits option.splits
      dest!: digit_of_range dest: digits_after_nonneg)

section \<open>Lines and hexadecimal tokens\<close>

lemma split_on_nonempty [simp]: "split_on d s \<noteq> []"
  by (induction s) (auto split: list.splits)

lemma split_on_no_sep: "d \<notin> set s \<Longrightarrow> split_on d s = [s]"
  by (induction s) auto

lemma split_on_append: "d \<notin> set s \<Longrightarrow> split_on d (s @ d # t) = s # split_on d t"
  by (induction s) auto

lemma words_acc_word:
  "\<forall>c\<in>set w. \<not> is_space c \<Longrightarrow> words_acc cur (w @ cs) = words_acc (rev w @ cur) cs"
  by (induction w arbitrary: cur) auto

lemma words_acc_nonspace: "w \<in> set (words_acc cur s) \<Longrightarrow> \<forall>c\<in>set cur. \<not> is_space c \<Longrightarrow>
    w \<noteq> [] \<and> (\<forall>c\<in>set w. \<not> is_space c)"
  by (induction cur s rule: words_acc.induct) (auto split: if_splits)

lemma split_ws_words: "w \<in> set (split_ws s) \<Longrightarrow> w \<noteq> [] \<and> (\<forall>c\<in>set w. \<not> is_space c)"
  using words_acc_nonspace [of w "[]" s] by (simp add: split_ws_def)

end
