(* ===== verification/Wp_Checks.thy ===== *)
theory Wp_Checks
  imports Wp_Records Py_Strings "HOL-Library.Product_Lexorder"
begin

unbundle bit_operations_syntax

text \<open>
  The stream checks of \<open>tools/axis_wp_host/checks.py\<close>: (a) monotonic time stamps per core and
  their unrolling to 64 bit, (b) membership of the PCs in the watchpoint set, (c) the greedy
  subsequence test against the expected PC sequence, (d) the merge of the core streams.
  The violation texts are constructors whose arguments are the formatted values.
\<close>

definition TS_MOD :: int where "TS_MOD = 4294967296"
definition TS_FWD_WINDOW :: int where "TS_FWD_WINDOW = 2147483648"

lemmas ts_consts = TS_MOD_def TS_FWD_WINDOW_def

section \<open>(a) Time stamps\<close>

text \<open>\<open>Ts_Equal core ts index previous_index\<close>,
  \<open>Ts_Backwards core ts index previous_ts previous_index\<close>.\<close>

datatype ts_violation = Ts_Equal int int nat nat | Ts_Backwards int int nat int nat

record ts_result =
  tr_ok :: bool
  tr_violations :: "ts_violation list"
  tr_wraps_per_core :: "(int, nat) dict"
  tr_n_checked :: nat

definition ts_result0 :: ts_result where
  "ts_result0 = \<lparr> tr_ok = True, tr_violations = [], tr_wraps_per_core = [], tr_n_checked = 0 \<rparr>"

definition wraps :: "ts_result \<Rightarrow> nat" where
  "wraps res = sum_list (map snd (tr_wraps_per_core res))"

definition TS_MODES :: "string list" where "TS_MODES = [''strict'', ''wrap'', ''off'']"

definition ts_judge :: "string \<Rightarrow> wp_record \<Rightarrow> int \<times> nat \<Rightarrow> ts_result \<Rightarrow> ts_result" where
  "ts_judge mode r prev res0 =
     (let res = res0\<lparr>tr_n_checked := tr_n_checked res0 + 1\<rparr>;
          d = (r_ts r - fst prev) mod TS_MOD;
          backwards = (if mode = ''strict'' then r_ts r < fst prev else d \<noteq> 0 \<and> TS_FWD_WINDOW \<le> d) in
      if d = 0 then
        res\<lparr>tr_ok := False,
            tr_violations := tr_violations res @ [Ts_Equal (r_core_id r) (r_ts r) (r_index r) (snd prev)]\<rparr>
      else if backwards then
        res\<lparr>tr_ok := False,
            tr_violations := tr_violations res @
              [Ts_Backwards (r_core_id r) (r_ts r) (r_index r) (fst prev) (snd prev)]\<rparr>
      else if mode = ''wrap'' \<and> r_ts r < fst prev then
        res\<lparr>tr_wraps_per_core := dict_set (r_core_id r)
              (dict_get_or (tr_wraps_per_core res) (r_core_id r) 0 + 1) (tr_wraps_per_core res)\<rparr>
      else res)"

definition ts_step :: "string \<Rightarrow> wp_record \<Rightarrow> ts_result \<times> (int, int \<times> nat) dict \<Rightarrow>
    ts_result \<times> (int, int \<times> nat) dict" where
  "ts_step mode r = (\<lambda>(res, last).
     if \<not> r_valid r then (res, last)
     else ((case dict_get last (r_core_id r) of None \<Rightarrow> res | Some prev \<Rightarrow> ts_judge mode r prev res),
           dict_set (r_core_id r) (r_ts r, r_index r) last))"

definition check_ts_monotonic :: "wp_record list \<Rightarrow> string \<Rightarrow> exn + ts_result" where
  "check_ts_monotonic rs mode =
     (if mode \<notin> set TS_MODES then Inl (Exn ValueError ''unknown ts mode'' [AS mode])
      else if mode = ''off'' then Inr ts_result0
      else Inr (fst (fold (ts_step mode) rs (ts_result0, []))))"

text \<open>The loop state of \<open>unwrap_ts\<close>: output, epoch, previous time stamp.\<close>

definition unwrap_step :: "wp_record \<Rightarrow> (wp_record \<times> int) list \<times> int \<times> int option \<Rightarrow>
    (wp_record \<times> int) list \<times> int \<times> int option" where
  "unwrap_step r = (\<lambda>(out, epoch, prev_ts).
     if \<not> r_valid r then (out, epoch, prev_ts)
     else let epoch' = (case prev_ts of None \<Rightarrow> epoch
            | Some p \<Rightarrow> let d = (r_ts r - p) mod TS_MOD in
                if 0 < d \<and> d < TS_FWD_WINDOW \<and> r_ts r < p then epoch + TS_MOD else epoch)
          in (out @ [(r, epoch' + r_ts r)], epoch', Some (r_ts r)))"

definition unwrap_ts :: "wp_record list \<Rightarrow> (wp_record \<times> int) list" where
  "unwrap_ts rs = fst (fold unwrap_step rs ([], 0, None))"

section \<open>(b) PC membership\<close>

text \<open>The address list of \<open>load_addr_file\<close>, on the lines of the file. A line number is 1-based.\<close>

definition hex_tokens :: "string \<Rightarrow> string list" where
  "hex_tokens s = filter (\<lambda>t. lower (take 2 t) = ''0x'') (split_ws s)"

fun load_addr_lines :: "string \<Rightarrow> nat \<Rightarrow> string list \<Rightarrow> int list \<Rightarrow> exn + int list" where
  "load_addr_lines path lineno [] addrs = Inr addrs"
| "load_addr_lines path lineno (line # ls) addrs =
     (let s = strip line in
      if s = [] \<or> startswith s ''#'' then load_addr_lines path (lineno + 1) ls addrs
      else case hex_tokens s of
        [] \<Rightarrow> Inl (Exn ValueError ''no 0x address token'' [AS path, AI (int lineno), AS (hd (split_ws s))])
      | t # _ \<Rightarrow> (case py_int 16 t of
            Some v \<Rightarrow> load_addr_lines path (lineno + 1) ls (addrs @ [v AND 0xFFFFFFFF])
          | None \<Rightarrow> Inl (Exn ValueError ''not an address'' [AS path, AI (int lineno), AS t])))"

definition load_addr_file :: "string \<Rightarrow> string list \<Rightarrow> exn + int list" where
  "load_addr_file path lines = load_addr_lines path 1 lines []"

record membership_result =
  mr_ok :: bool
  mr_misses :: "wp_record list"
  mr_n_checked :: nat

definition member_step :: "int set \<Rightarrow> wp_record \<Rightarrow> membership_result \<Rightarrow> membership_result" where
  "member_step wp_set r res0 =
     (if \<not> r_valid r then res0
      else let res = res0\<lparr>mr_n_checked := mr_n_checked res0 + 1\<rparr> in
        if r_pc r \<notin> wp_set then res\<lparr>mr_ok := False, mr_misses := mr_misses res @ [r]\<rparr> else res)"

definition check_pc_membership :: "wp_record list \<Rightarrow> int list \<Rightarrow> membership_result" where
  "check_pc_membership rs wp_set =
     fold (member_step (set wp_set)) rs \<lparr> mr_ok = True, mr_misses = [], mr_n_checked = 0 \<rparr>"

section \<open>(c) Sequence check\<close>

record sequence_result =
  sq_ok :: bool
  sq_matched :: nat
  sq_unmatched :: "(wp_record \<times> nat) list"
  sq_expected_consumed :: nat
  sq_n_expected :: nat
  sq_cycles :: nat

text \<open>\<open>while j < stop and expected[j] != pc: j += 1\<close>.\<close>

function seek :: "int list \<Rightarrow> int \<Rightarrow> nat \<Rightarrow> nat \<Rightarrow> nat" where
  "seek expected pc stop j =
     (if j < stop \<and> expected ! j \<noteq> pc then seek expected pc stop (j + 1) else j)"
  by pat_completeness auto
termination by (relation "measure (\<lambda>(_, _, stop, j). stop - j)") auto

declare seek.simps [simp del]

definition seq_step :: "int list \<Rightarrow> bool \<Rightarrow> wp_record \<Rightarrow> sequence_result \<times> nat \<Rightarrow> sequence_result \<times> nat"
where
  "seq_step expected cycle r = (\<lambda>(res, cur).
     let n = length expected in
     if \<not> r_valid r then (res, cur)
     else let j = seek expected (r_pc r) n cur in
       if n \<le> j \<and> cycle \<and> expected \<noteq> [] then
         let k = seek expected (r_pc r) cur 0 in
         if k < cur then
           (res\<lparr>sq_cycles := sq_cycles res + 1, sq_matched := sq_matched res + 1\<rparr>, k + 1)
         else (res\<lparr>sq_ok := False, sq_unmatched := sq_unmatched res @ [(r, cur)]\<rparr>, cur)
       else if j < n then (res\<lparr>sq_matched := sq_matched res + 1\<rparr>, j + 1)
       else (res\<lparr>sq_ok := False, sq_unmatched := sq_unmatched res @ [(r, cur)]\<rparr>, cur))"

definition sequence_result0 :: "nat \<Rightarrow> sequence_result" where
  "sequence_result0 n = \<lparr> sq_ok = True, sq_matched = 0, sq_unmatched = [],
     sq_expected_consumed = 0, sq_n_expected = n, sq_cycles = 0 \<rparr>"

definition check_sequence :: "wp_record list \<Rightarrow> int list \<Rightarrow> bool \<Rightarrow> sequence_result" where
  "check_sequence rs expected cycle =
     (case fold (seq_step expected cycle) rs (sequence_result0 (length expected), 0) of
        (res, cur) \<Rightarrow> res\<lparr>sq_expected_consumed := cur\<rparr>)"

section \<open>(d) Merge\<close>

definition merge_streams :: "(int, wp_record list) dict \<Rightarrow> wp_record list" where
  "merge_streams streams_by_core =
     (let tagged = concat (map (\<lambda>core. map (\<lambda>(r, ts64). (ts64, core, r))
                                  (unwrap_ts (dict_get_or streams_by_core core [])))
                               (sort (map fst streams_by_core)))
      in map (\<lambda>t. snd (snd t)) (sort_key (\<lambda>t. (fst t, fst (snd t))) tagged))"

section \<open>Facts on folds over the valid records\<close>

definition core_stream :: "int \<Rightarrow> wp_record list \<Rightarrow> wp_record list" where
  "core_stream c rs = filter (\<lambda>r. r_valid r \<and> r_core_id r = c) rs"

lemma core_stream_simps [simp]:
  "core_stream c [] = []"
  "core_stream c (r # rs) = (if r_valid r \<and> r_core_id r = c then r # core_stream c rs
                             else core_stream c rs)"
  "core_stream c (rs @ qs) = core_stream c rs @ core_stream c qs"
  by (simp_all add: core_stream_def)

lemma ts_step_pair:
  "ts_step mode r (res, lst) =
     (if \<not> r_valid r then (res, lst)
      else ((case dict_get lst (r_core_id r) of None \<Rightarrow> res | Some prev \<Rightarrow> ts_judge mode r prev res),
            dict_set (r_core_id r) (r_ts r, r_index r) lst))"
  by (simp add: ts_step_def)

lemma successively_snoc:
  "successively P (xs @ [x]) \<longleftrightarrow> successively P xs \<and> (xs = [] \<or> P (last xs) x)"
  by (auto simp: successively_append_iff)

section \<open>Time stamps\<close>

text \<open>What \<open>mode\<close> accepts as a step from one time stamp to the next of the same core.\<close>

definition ts_forward :: "string \<Rightarrow> int \<Rightarrow> int \<Rightarrow> bool" where
  "ts_forward mode a b \<longleftrightarrow> (b - a) mod TS_MOD \<noteq> 0 \<and>
     (if mode = ''strict'' then a \<le> b else (b - a) mod TS_MOD < TS_FWD_WINDOW)"

lemma ts_judge_ok:
  "tr_ok (ts_judge mode r prev res) \<longleftrightarrow> tr_ok res \<and> ts_forward mode (fst prev) (r_ts r)"
  by (auto simp: ts_judge_def ts_forward_def Let_def)

lemma ts_judge_violations:
  "tr_violations (ts_judge mode r prev res) = [] \<longleftrightarrow>
     tr_violations res = [] \<and> ts_forward mode (fst prev) (r_ts r)"
  by (auto simp: ts_judge_def ts_forward_def Let_def)

lemma ts_fold_last:
  "dict_get (snd (fold (ts_step mode) rs (res, []))) c =
     (if core_stream c rs = [] then None
      else Some (r_ts (last (core_stream c rs)), r_index (last (core_stream c rs))))"
proof (induction rs rule: rev_induct)
  case (snoc r rs)
  then show ?case
    by (cases "fold (ts_step mode) rs (res, [])") (auto simp: ts_step_pair dict_get_set)
qed (simp add: dict_get_def)

lemma ts_fold_ok:
  "tr_ok (fst (fold (ts_step mode) rs (ts_result0, []))) \<longleftrightarrow>
     (\<forall>c. successively (\<lambda>r s. ts_forward mode (r_ts r) (r_ts s)) (core_stream c rs))"
proof (induction rs rule: rev_induct)
  case (snoc r rs)
  show ?case
    using snoc ts_fold_last [of mode rs ts_result0 "r_core_id r"]
    by (cases "fold (ts_step mode) rs (ts_result0, [])")
       (auto simp: ts_step_pair ts_judge_ok successively_snoc split: option.splits if_splits)
qed (simp add: ts_result0_def)

lemma ts_fold_violations:
  "tr_violations (fst (fold (ts_step mode) rs (ts_result0, []))) = [] \<longleftrightarrow>
     tr_ok (fst (fold (ts_step mode) rs (ts_result0, [])))"
proof (induction rs rule: rev_induct)
  case (snoc r rs)
  then show ?case
    by (cases "fold (ts_step mode) rs (ts_result0, [])")
       (auto simp: ts_step_pair ts_judge_ok ts_judge_violations split: option.splits)
qed (simp add: ts_result0_def)

text \<open>C18: The time stamp check accepts a stream exactly when, for every core, each valid record is
  a forward step of the mode from the previous valid record of that core, and it reports a
  violation exactly when it does not accept.\<close>

theorem check_ts_monotonic_exact:
  assumes "mode = ''strict'' \<or> mode = ''wrap''"
  obtains res where "check_ts_monotonic rs mode = Inr res"
    "tr_ok res \<longleftrightarrow>
       (\<forall>c. successively (\<lambda>r s. ts_forward mode (r_ts r) (r_ts s)) (core_stream c rs))"
    "tr_ok res \<longleftrightarrow> tr_violations res = []"
  using assms ts_fold_ok [of mode rs] ts_fold_violations [of mode rs]
  by (fastforce simp: check_ts_monotonic_def TS_MODES_def)

subsection \<open>Unrolling\<close>

lemma unwrap_fold_valid: "fold unwrap_step rs s = fold unwrap_step (filter r_valid rs) s"
  by (induction rs arbitrary: s) (auto simp: unwrap_step_def)

text \<open>One step of the unrolling, in the true time: a gap below half the counter range is
  recognised, and the epoch advances exactly when the 32-bit counter wraps.\<close>

lemma epoch_step:
  fixes t u :: int
  assumes "t < u" "u - t < TS_FWD_WINDOW"
  shows "(u mod TS_MOD - t mod TS_MOD) mod TS_MOD = u - t"
    and "(if u mod TS_MOD < t mod TS_MOD then t - t mod TS_MOD + TS_MOD else t - t mod TS_MOD)
           + u mod TS_MOD = u"
proof -
  show "(u mod TS_MOD - t mod TS_MOD) mod TS_MOD = u - t"
    using assms by (simp add: mod_diff_eq ts_consts)
  define p q v w where d: "p = t mod TS_MOD" "q = t div TS_MOD" "v = u mod TS_MOD" "w = u div TS_MOD"
  have e: "t = TS_MOD * q + p" "u = TS_MOD * w + v" "0 \<le> p" "p < TS_MOD" "0 \<le> v" "v < TS_MOD"
    by (simp_all add: d ts_consts)
  define k where "k = w - q"
  have g: "TS_MOD * k = (u - t) + (p - v)"
    using e by (simp add: k_def algebra_simps)
  have "-1 < k" "k < 2"
    using assms e(3-6) g by (simp_all add: ts_consts)
  then consider "k = 0" | "k = 1" by linarith
  then have "(if v < p then t - p + TS_MOD else t - p) + v = u"
    using g assms(1,2) e(3-6) by cases (auto simp: ts_consts)
  then show "(if u mod TS_MOD < t mod TS_MOD then t - t mod TS_MOD + TS_MOD else t - t mod TS_MOD)
           + u mod TS_MOD = u"
    by (simp only: d)
qed

definition fwd_gap :: "int \<Rightarrow> int \<Rightarrow> bool" where
  "fwd_gap t u \<longleftrightarrow> t < u \<and> u - t < TS_FWD_WINDOW"

lemma unwrap_fold_true_time:
  assumes "\<forall>r\<in>set rs. r_valid r" and "map r_ts rs = map (\<lambda>t. t mod TS_MOD) ts"
    and "successively fwd_gap (t # ts)"
  shows "fst (fold unwrap_step rs (out, t - t mod TS_MOD, Some (t mod TS_MOD))) = out @ zip rs ts"
  using assms
proof (induction rs arbitrary: t ts out)
  case (Cons r rs)
  from Cons.prems(2) obtain u us where ts: "ts = u # us" "r_ts r = u mod TS_MOD"
      "map r_ts rs = map (\<lambda>t. t mod TS_MOD) us"
    by (cases ts) auto
  with Cons.prems have g: "fwd_gap t u" "successively fwd_gap (u # us)" by simp_all
  define e where "e = (if u mod TS_MOD < t mod TS_MOD then t - t mod TS_MOD + TS_MOD
                       else t - t mod TS_MOD)"
  have e: "e + u mod TS_MOD = u" and d: "(u mod TS_MOD - t mod TS_MOD) mod TS_MOD = u - t"
    using epoch_step [of t u] g by (simp_all add: fwd_gap_def e_def)
  have "unwrap_step r (out, t - t mod TS_MOD, Some (t mod TS_MOD))
      = (out @ [(r, u)], u - u mod TS_MOD, Some (u mod TS_MOD))"
    using Cons.prems(1) g(1) e
    by (simp add: unwrap_step_def ts d fwd_gap_def Let_def flip: e_def)
  with Cons.IH [of us u "out @ [(r, u)]"] Cons.prems(1) ts g(2) show ?case by simp
qed simp

text \<open>C13: Unrolling recovers the true time: if the records of a core carry the low 32 bits of a
  strictly increasing time with gaps below \<open>2^31\<close> that starts below \<open>2^32\<close>, then
  \<open>unwrap_ts\<close> gives every valid record its true time, whatever invalid records are interspersed.\<close>

theorem unwrap_ts_true_time:
  assumes "map r_ts (filter r_valid rs) = map (\<lambda>t. t mod TS_MOD) ts"
    and "successively fwd_gap ts" and "ts \<noteq> [] \<Longrightarrow> 0 \<le> hd ts \<and> hd ts < TS_MOD"
  shows "unwrap_ts rs = zip (filter r_valid rs) ts"
proof (cases ts)
  case Nil
  with assms(1) have "filter r_valid rs = []" by simp
  then show ?thesis unfolding unwrap_ts_def by (subst unwrap_fold_valid) simp
next
  case (Cons t us)
  with assms(1) obtain r qs where f: "filter r_valid rs = r # qs" "r_ts r = t mod TS_MOD"
      "map r_ts qs = map (\<lambda>t. t mod TS_MOD) us" by auto
  have v: "\<forall>q\<in>set (r # qs). r_valid q" unfolding f(1)[symmetric] by simp
  have t: "t mod TS_MOD = t" using assms(3) Cons by simp
  have "fold unwrap_step rs ([], 0, None) = fold unwrap_step qs ([(r, t)], 0, Some t)"
    using v by (subst unwrap_fold_valid) (simp add: f t unwrap_step_def)
  with unwrap_fold_true_time [of qs us t "[(r, t)]"] assms(2) v f(3) Cons t
  show ?thesis by (simp add: unwrap_ts_def f(1))
qed

theorem check_ts_monotonic_exact_witness:
  "\<exists>res. check_ts_monotonic [mk_record 0 4 0 9 0xF00, mk_record 1 8 0 5 0xF00] ''wrap'' = Inr res
     \<and> \<not> tr_ok res"
proof -
  obtain res where "check_ts_monotonic [mk_record 0 4 0 9 0xF00, mk_record 1 8 0 5 0xF00] ''wrap'' = Inr res"
    "tr_ok res \<longleftrightarrow> tr_violations res = []"
    by (rule check_ts_monotonic_exact [of "''wrap''"
          "[mk_record 0 4 0 9 0xF00, mk_record 1 8 0 5 0xF00]"]) simp_all
  moreover have "tr_violations (projr (check_ts_monotonic
      [mk_record 0 4 0 9 0xF00, mk_record 1 8 0 5 0xF00] ''wrap'')) \<noteq> []"
    by code_simp
  ultimately show ?thesis by auto
qed

theorem unwrap_ts_true_time_witness:
  "unwrap_ts [mk_record 0 4 0 0xFFFFFFF0 0xF00, mk_record 1 8 0 0x10 0xF00]
     = zip (filter r_valid [mk_record 0 4 0 0xFFFFFFF0 0xF00, mk_record 1 8 0 0x10 0xF00])
           [0xFFFFFFF0, 0x100000010]"
proof (rule unwrap_ts_true_time)
  show "map r_ts (filter r_valid [mk_record 0 4 0 0xFFFFFFF0 0xF00, mk_record 1 8 0 0x10 0xF00])
      = map (\<lambda>t. t mod TS_MOD) [0xFFFFFFF0, 0x100000010]"
    by code_simp
qed (simp_all add: fwd_gap_def ts_consts)

section \<open>PC membership\<close>

lemma check_pc_membership_fold:
  "check_pc_membership rs wp_set =
     \<lparr> mr_ok = (\<forall>r\<in>set rs. \<not> (r_valid r \<and> r_pc r \<notin> set wp_set)),
       mr_misses = filter (\<lambda>r. r_valid r \<and> r_pc r \<notin> set wp_set) rs,
       mr_n_checked = length (filter r_valid rs) \<rparr>"
proof -
  have "fold (member_step W) rs m =
     \<lparr> mr_ok = (mr_ok m \<and> (\<forall>r\<in>set rs. \<not> (r_valid r \<and> r_pc r \<notin> W))),
       mr_misses = mr_misses m @ filter (\<lambda>r. r_valid r \<and> r_pc r \<notin> W) rs,
       mr_n_checked = mr_n_checked m + length (filter r_valid rs) \<rparr>" for W m
    by (induction rs arbitrary: m) (auto simp: member_step_def Let_def)
  then show ?thesis by (simp add: check_pc_membership_def)
qed

text \<open>The membership check visits every valid record once and reports exactly the valid records
  whose PC lies outside the set, in stream order; it accepts exactly when there is none.\<close>

lemma check_pc_membership_exact:
  "(mr_ok (check_pc_membership rs wp_set) \<longleftrightarrow> mr_misses (check_pc_membership rs wp_set) = [])
   \<and> mr_misses (check_pc_membership rs wp_set) = filter (\<lambda>r. r_valid r \<and> r_pc r \<notin> set wp_set) rs
   \<and> mr_n_checked (check_pc_membership rs wp_set) = length (filter r_valid rs)"
  by (auto simp: check_pc_membership_fold filter_empty_conv)

section \<open>The sequence check\<close>

lemma seek_le: "j \<le> stop \<Longrightarrow> seek es pc stop j \<le> stop"
  by (induction es pc stop j rule: seek.induct) (subst seek.simps, auto)

lemma seek_ge: "j \<le> seek es pc stop j"
  by (induction es pc stop j rule: seek.induct) (subst seek.simps, auto)

lemma seek_hit: "seek es pc stop j < stop \<Longrightarrow> es ! seek es pc stop j = pc"
  by (induction es pc stop j rule: seek.induct) (subst seek.simps, subst (asm) seek.simps, auto split: if_splits)

lemma seek_before: "j \<le> i \<Longrightarrow> i < seek es pc stop j \<Longrightarrow> es ! i \<noteq> pc"
proof (induction es pc stop j rule: seek.induct)
  case (1 es pc stop j)
  show ?case
  proof (cases "j < stop \<and> es ! j \<noteq> pc")
    case True
    then have "seek es pc stop j = seek es pc stop (j + 1)" by (subst seek.simps) simp
    with 1 True show ?thesis by (cases "i = j") auto
  next
    case False
    then have "seek es pc stop j = j" by (subst seek.simps) auto
    with 1 show ?thesis by simp
  qed
qed

text \<open>The first occurrence is the best one to take.\<close>

lemma subseq_first_hit:
  assumes "cur \<le> length es"
  shows "subseq (pc # ps) (drop cur es) \<longleftrightarrow>
     seek es pc (length es) cur < length es \<and> subseq ps (drop (seek es pc (length es) cur + 1) es)"
  using assms
proof (induction "length es - cur" arbitrary: cur)
  case 0
  then show ?case by (subst seek.simps) (simp add: drop_all)
next
  case (Suc n)
  then have c: "cur < length es" by simp
  then have d: "drop cur es = es ! cur # drop (cur + 1) es" by (simp add: Cons_nth_drop_Suc)
  show ?case
  proof (cases "es ! cur = pc")
    case True
    with c have "seek es pc (length es) cur = cur" by (subst seek.simps) simp
    with True c d show ?thesis by simp
  next
    case False
    with c have "seek es pc (length es) cur = seek es pc (length es) (cur + 1)"
      by (subst seek.simps) simp
    with False c d Suc show ?thesis by simp
  qed
qed

lemma seq_step_pair:
  "seq_step es False r (res, cur) =
     (if \<not> r_valid r then (res, cur)
      else if seek es (r_pc r) (length es) cur < length es
        then (res\<lparr>sq_matched := sq_matched res + 1\<rparr>, seek es (r_pc r) (length es) cur + 1)
        else (res\<lparr>sq_ok := False, sq_unmatched := sq_unmatched res @ [(r, cur)]\<rparr>, cur))"
  by (simp add: seq_step_def Let_def)

lemma seq_fold_unmatched_mono:
  "sq_unmatched res \<noteq> [] \<Longrightarrow> sq_unmatched (fst (fold (seq_step es cycle) rs (res, cur))) \<noteq> []"
proof (induction rs arbitrary: res cur)
  case (Cons r rs)
  obtain res' cur' where s: "seq_step es cycle r (res, cur) = (res', cur')" by fastforce
  then have "sq_unmatched res' \<noteq> []"
    using Cons.prems by (auto simp: seq_step_def Let_def split: if_splits)
  with s Cons.IH show ?case by simp
qed simp

lemma seq_fold_subseq:
  assumes "cur \<le> length es" "sq_unmatched res = []"
  shows "sq_unmatched (fst (fold (seq_step es False) rs (res, cur))) = [] \<longleftrightarrow>
     subseq (map r_pc (filter r_valid rs)) (drop cur es)"
  using assms
proof (induction rs arbitrary: res cur)
  case (Cons r rs)
  let ?j = "seek es (r_pc r) (length es) cur"
  show ?case
  proof (cases "r_valid r")
    case True
    show ?thesis
    proof (cases "?j < length es")
      case True
      with \<open>r_valid r\<close> Cons.prems show ?thesis
        by (simp add: seq_step_pair subseq_first_hit Cons.IH)
    next
      case False
      with \<open>r_valid r\<close> Cons.prems show ?thesis
        by (simp add: seq_step_pair subseq_first_hit seq_fold_unmatched_mono)
    qed
  qed (use Cons in \<open>simp add: seq_step_pair\<close>)
qed simp

lemma seq_fold_ok:
  "sq_ok res = (sq_unmatched res = []) \<Longrightarrow>
   sq_ok (fst (fold (seq_step es cycle) rs (res, cur)))
     = (sq_unmatched (fst (fold (seq_step es cycle) rs (res, cur))) = [])"
proof (induction rs arbitrary: res cur)
  case (Cons r rs)
  obtain res' cur' where s: "seq_step es cycle r (res, cur) = (res', cur')" by fastforce
  then have "sq_ok res' = (sq_unmatched res' = [])"
    using Cons.prems by (auto simp: seq_step_def Let_def split: if_splits)
  with s Cons.IH show ?case by simp
qed simp

lemma check_sequence_ok:
  "sq_ok (check_sequence rs expected False) \<longleftrightarrow> subseq (map r_pc (filter r_valid rs)) expected"
  "sq_unmatched (check_sequence rs expected False) = [] \<longleftrightarrow>
     subseq (map r_pc (filter r_valid rs)) expected"
proof -
  obtain res cur where f:
    "fold (seq_step expected False) rs (sequence_result0 (length expected), 0) = (res, cur)"
    by fastforce
  have "sq_unmatched (sequence_result0 (length expected)) = []"
    "sq_ok (sequence_result0 (length expected))"
    by (simp_all add: sequence_result0_def)
  then show "sq_ok (check_sequence rs expected False) \<longleftrightarrow>
       subseq (map r_pc (filter r_valid rs)) expected"
    "sq_unmatched (check_sequence rs expected False) = [] \<longleftrightarrow>
       subseq (map r_pc (filter r_valid rs)) expected"
    using seq_fold_subseq [of 0 expected "sequence_result0 (length expected)" rs]
      seq_fold_ok [of "sequence_result0 (length expected)" expected False rs 0]
    by (simp_all add: check_sequence_def f)
qed

text \<open>The greedy cursor is an exact subsequence test: without \<open>cycle\<close>, the stream is accepted,
  with nothing reported, exactly when the PCs of the valid records form a subsequence of the
  expected list, so entries lost to drops never cause a report and any other deviation does.\<close>

lemma check_sequence_exact:
  "(sq_ok (check_sequence rs expected False) \<longleftrightarrow> subseq (map r_pc (filter r_valid rs)) expected)
   \<and> (sq_unmatched (check_sequence rs expected False) = [] \<longleftrightarrow>
        subseq (map r_pc (filter r_valid rs)) expected)"
  by (simp add: check_sequence_ok)

subsection \<open>The periodic oracle\<close>

lemma seek_less_iff:
  assumes "j \<le> stop"
  shows "seek es pc stop j < stop \<longleftrightarrow> (\<exists>i. j \<le> i \<and> i < stop \<and> es ! i = pc)"
  using seek_ge [of j es pc stop] seek_hit [of es pc stop j] seek_before [of j _ es pc stop]
    seek_le [OF assms, of es pc]
  by (metis le_neq_implies_less)

lemma seek_cyclic:
  assumes "cur \<le> length es"
  shows "seek es pc (length es) cur < length es \<or> seek es pc cur 0 < cur \<longleftrightarrow> pc \<in> set es"
proof -
  have "(\<exists>i. cur \<le> i \<and> i < length es \<and> es ! i = pc) \<or> (\<exists>i. 0 \<le> i \<and> i < cur \<and> es ! i = pc)
          \<longleftrightarrow> (\<exists>i<length es. es ! i = pc)"
  proof
    assume "\<exists>i<length es. es ! i = pc"
    then obtain i where "i < length es" "es ! i = pc" by blast
    then show "(\<exists>i. cur \<le> i \<and> i < length es \<and> es ! i = pc) \<or> (\<exists>i. 0 \<le> i \<and> i < cur \<and> es ! i = pc)"
      using not_le_imp_less by (cases "cur \<le> i") blast+
  qed (use assms order_less_le_trans in blast)
  with assms show ?thesis by (simp add: seek_less_iff in_set_conv_nth)
qed

definition known_pcs :: "int list \<Rightarrow> wp_record list \<Rightarrow> int list" where
  "known_pcs es rs = map r_pc (filter (\<lambda>r. r_valid r \<and> r_pc r \<in> set es) rs)"

text \<open>The position reached: whole laps, then a part of the current lap.\<close>

definition laps :: "int list \<Rightarrow> nat \<Rightarrow> nat \<Rightarrow> int list" where
  "laps es n cur = concat (replicate n es) @ take cur es"

lemma subseq_advance:
  assumes "subseq m (laps es n cur)" "cur \<le> j" "j < length es"
  shows "subseq (m @ [es ! j]) (laps es n (j + 1))"
proof -
  have "take j es = take cur es @ drop cur (take j es)"
    using assms(2) by (metis append_take_drop_id min.absorb1 take_take)
  then have "subseq m (laps es n j)"
    using assms(1) unfolding laps_def by (metis append.assoc subseq_rev_drop_many)
  then have "subseq (m @ [es ! j]) (laps es n j @ [es ! j])"
    by (intro list_emb_append_mono) simp_all
  moreover have "laps es n (j + 1) = laps es n j @ [es ! j]"
    using assms(3) by (simp add: laps_def take_Suc_conv_app_nth)
  ultimately show ?thesis by simp
qed

lemma subseq_next_lap:
  assumes "subseq m (laps es n cur)"
  shows "subseq m (laps es (n + 1) 0)"
proof -
  have "laps es (n + 1) 0 = laps es n cur @ drop cur es"
    by (simp add: laps_def replicate_append_same [symmetric] del: replicate_append_same)
  with assms show ?thesis by (metis subseq_rev_drop_many)
qed

definition cyc_inv :: "int list \<Rightarrow> wp_record list \<Rightarrow> sequence_result \<times> nat \<Rightarrow> bool" where
  "cyc_inv es rs st \<longleftrightarrow> snd st \<le> length es
     \<and> map fst (sq_unmatched (fst st)) = filter (\<lambda>r. r_valid r \<and> r_pc r \<notin> set es) rs
     \<and> subseq (known_pcs es rs) (laps es (sq_cycles (fst st)) (snd st))"

lemma cyc_inv_step:
  assumes "cyc_inv es rs (res, cur)"
  shows "cyc_inv es (rs @ [r]) (seq_step es True r (res, cur))"
proof -
  let ?j = "seek es (r_pc r) (length es) cur" and ?k = "seek es (r_pc r) cur 0"
  have c: "cur \<le> length es" using assms by (simp add: cyc_inv_def)
  note m = seek_cyclic [OF c, of "r_pc r"]
  consider "\<not> r_valid r" | "r_valid r" "?j < length es"
    | "r_valid r" "\<not> ?j < length es" "?k < cur"
    | "r_valid r" "\<not> ?j < length es" "\<not> ?k < cur" by blast
  then show ?thesis
  proof cases
    case 1
    then show ?thesis using assms by (simp add: cyc_inv_def seq_step_def known_pcs_def)
  next
    case 2
    then have "subseq (known_pcs es rs @ [es ! ?j]) (laps es (sq_cycles res) (?j + 1))"
      using assms seek_ge by (intro subseq_advance) (auto simp: cyc_inv_def)
    with 2 m assms seek_hit [OF 2(2)] show ?thesis
      by (auto simp: cyc_inv_def seq_step_def known_pcs_def Let_def)
  next
    case 3
    have "subseq (known_pcs es rs) (laps es (sq_cycles res + 1) 0)"
      using subseq_next_lap [of "known_pcs es rs" es "sq_cycles res" cur] assms
      by (simp add: cyc_inv_def)
    then have "subseq (known_pcs es rs @ [es ! ?k]) (laps es (sq_cycles res + 1) (?k + 1))"
      using 3 c by (intro subseq_advance) auto
    with 3 m c assms seek_hit [OF 3(3)] show ?thesis
      by (auto simp: cyc_inv_def seq_step_def known_pcs_def Let_def)
  next
    case 4
    with m assms show ?thesis
      by (auto simp: cyc_inv_def seq_step_def known_pcs_def Let_def)
  qed
qed

lemma cyc_inv_fold: "cyc_inv es rs (fold (seq_step es True) rs (sequence_result0 (length es), 0))"
proof (induction rs rule: rev_induct)
  case (snoc r rs)
  then show ?case using cyc_inv_step by (cases "fold (seq_step es True) rs (sequence_result0 (length es), 0)") simp
qed (simp add: cyc_inv_def sequence_result0_def known_pcs_def)

text \<open>With a periodic oracle the reported records are exactly the valid ones whose PC is not in
  the oracle at all, and the PCs of the others are a subsequence of the counted whole laps of the
  oracle followed by its consumed part.\<close>

lemma check_sequence_cyclic:
  "let res = check_sequence rs expected True in
     map fst (sq_unmatched res) = filter (\<lambda>r. r_valid r \<and> r_pc r \<notin> set expected) rs
     \<and> subseq (known_pcs expected rs) (laps expected (sq_cycles res) (sq_expected_consumed res))
     \<and> sq_expected_consumed res \<le> length expected"
  using cyc_inv_fold [of expected rs]
  by (auto simp: check_sequence_def cyc_inv_def Let_def split: prod.splits)

section \<open>The merge\<close>

definition merge_key :: "int \<times> int \<times> wp_record \<Rightarrow> int \<times> int" where
  "merge_key t = (fst t, fst (snd t))"

definition merge_tagged :: "(int, wp_record list) dict \<Rightarrow> (int \<times> int \<times> wp_record) list" where
  "merge_tagged d = concat (map (\<lambda>core. map (\<lambda>(r, ts64). (ts64, core, r))
                        (unwrap_ts (dict_get_or d core []))) (sort (map fst d)))"

lemma merge_streams_eq: "merge_streams d = map (\<lambda>t. snd (snd t)) (sort_key merge_key (merge_tagged d))"
  by (simp add: merge_streams_def merge_tagged_def merge_key_def [abs_def] Let_def)

lemma unwrap_fold_fst:
  "map fst (fst (fold unwrap_step rs (out, epoch, prev))) = map fst out @ filter r_valid rs"
  by (induction rs arbitrary: out epoch prev) (auto simp: unwrap_step_def Let_def)

lemma map_fst_unwrap_ts: "map fst (unwrap_ts rs) = filter r_valid rs"
  by (simp add: unwrap_ts_def unwrap_fold_fst)

lemma filter_concat_distinct:
  assumes "distinct ks" "\<And>k x. x \<in> set (f k) \<Longrightarrow> g x = k"
  shows "filter (\<lambda>x. g x = k) (concat (map f ks)) = (if k \<in> set ks then f k else [])"
  using assms(1)
proof (induction ks)
  case (Cons a ks)
  have "filter (\<lambda>x. g x = k) (f a) = (if a = k then f a else [])"
    using assms(2) by (auto simp: filter_id_conv filter_empty_conv)
  with Cons show ?case by auto
qed simp

lemma merge_tagged_core:
  assumes "distinct (map fst d)"
  shows "filter (\<lambda>t. fst (snd t) = c) (merge_tagged d)
     = map (\<lambda>(r, ts64). (ts64, c, r)) (unwrap_ts (dict_get_or d c []))"
proof -
  have "unwrap_ts [] = []" by (simp add: unwrap_ts_def)
  moreover have "c \<notin> fst ` set d \<Longrightarrow> dict_get_or d c [] = []"
    by (simp add: dict_get_or_def flip: map_of_eq_None_iff)
  moreover have "filter (\<lambda>t. fst (snd t) = c) (merge_tagged d)
      = (if c \<in> set (sort (map fst d))
         then map (\<lambda>(r, ts64). (ts64, c, r)) (unwrap_ts (dict_get_or d c [])) else [])"
    unfolding merge_tagged_def using assms by (intro filter_concat_distinct) auto
  ultimately show ?thesis by simp
qed

lemma sorted_filter_core:
  assumes "sorted (map snd (unwrap_ts rs))"
  shows "sort_key merge_key (map (\<lambda>(r, ts64). (ts64, c, r)) (unwrap_ts rs))
           = map (\<lambda>(r, ts64). (ts64, c, r)) (unwrap_ts rs)"
proof (rule sort_key_id_if_sorted)
  have "sorted (map merge_key (map (\<lambda>(r, ts64). (ts64, c, r)) xs))"
    if "sorted (map snd xs)" for xs :: "(wp_record \<times> int) list"
    using that by (induction xs) (auto simp: merge_key_def)
  with assms show "sorted (map merge_key (map (\<lambda>(r, ts64). (ts64, c, r)) (unwrap_ts rs)))" by blast
qed

lemma unwrap_tagged:
  "map (\<lambda>t. snd (snd t)) (map (\<lambda>(r, ts64). (ts64, k, r)) (unwrap_ts rs)) = filter r_valid rs"
  using map_fst_unwrap_ts [of rs] by (simp add: case_prod_unfold comp_def)

lemma merge_streams_mset:
  assumes "distinct (map fst d)"
  shows "mset (merge_streams d) = (\<Sum>(c, rs)\<in>#mset d. mset (filter r_valid rs))"
proof -
  have m: "mset (map (\<lambda>t. snd (snd t)) (merge_tagged d)) =
      (\<Sum>c\<in>#mset (sort (map fst d)). mset (filter r_valid (dict_get_or d c [])))"
  proof -
    have "mset (map (\<lambda>t. snd (snd t)) (concat (map (\<lambda>core. map (\<lambda>(r, ts64). (ts64, core, r))
            (unwrap_ts (dict_get_or d core []))) ks)))
        = (\<Sum>c\<in>#mset ks. mset (filter r_valid (dict_get_or d c [])))" for ks
    proof (induction ks)
      case (Cons k ks)
      then show ?case using arg_cong [OF unwrap_tagged, of mset] by (simp add: image_mset.compositionality)
    qed simp
    then show ?thesis by (simp only: merge_tagged_def)
  qed
  have k: "dict_get_or d c [] = rs" if "(c, rs) \<in> set d" for c rs
    using that assms by (simp add: dict_get_or_def)
  have "mset (map (\<lambda>t. snd (snd t)) (merge_tagged d)) = (\<Sum>(c, rs)\<in>#mset d. mset (filter r_valid rs))"
    unfolding m using k
    by (auto simp: mset_sort image_mset.compositionality comp_def case_prod_unfold
        intro!: arg_cong [where f = sum_mset] image_mset_cong)
  moreover have "mset (merge_streams d) = mset (map (\<lambda>t. snd (snd t)) (merge_tagged d))"
    by (simp add: merge_streams_eq)
  ultimately show ?thesis
    by (simp only:)
qed

text \<open>The merge loses and invents nothing: its records are the valid records of all streams,
  as a multiset; and the records of a core whose unrolled time does not run backwards stay in
  stream order.\<close>

lemma merge_streams_faithful:
  assumes "distinct (map fst d)"
  shows "mset (merge_streams d) = (\<Sum>(c, rs)\<in>#mset d. mset (filter r_valid rs))
    \<and> (\<forall>c. sorted (map snd (unwrap_ts (dict_get_or d c []))) \<longrightarrow>
         map (\<lambda>t. snd (snd t)) (filter (\<lambda>t. fst (snd t) = c) (sort_key merge_key (merge_tagged d)))
           = filter r_valid (dict_get_or d c []))"
  using merge_streams_mset [OF assms]
  by (auto simp: filter_sort merge_tagged_core assms sorted_filter_core unwrap_tagged simp del: map_map)

lemma merge_streams_faithful_witness:
  "mset (merge_streams [(1, [mk_record 0 4 0 9 0x100F00]), (0, [mk_record 0 8 0 5 0xF00])])
     = {#mk_record 0 4 0 9 0x100F00, mk_record 0 8 0 5 0xF00#} \<and>
   map (\<lambda>t. snd (snd t)) (filter (\<lambda>t. fst (snd t) = 1) (sort_key merge_key (merge_tagged
     [(1, [mk_record 0 4 0 9 0x100F00]), (0, [mk_record 0 8 0 5 0xF00])])))
     = [mk_record 0 4 0 9 0x100F00]"
proof -
  let ?a = "mk_record 0 4 0 9 0x100F00" and ?b = "mk_record 0 8 0 5 0xF00"
  have v: "r_valid ?a" "r_valid ?b" by code_simp+
  have "sorted (map snd (unwrap_ts (dict_get_or [(1 :: int, [?a]), (0, [?b])] 1 [])))"
    by code_simp
  with merge_streams_faithful [of "[(1 :: int, [?a]), (0, [?b])]"] v show ?thesis
    by (simp add: dict_get_or_def)
qed

section \<open>The address file\<close>

text \<open>What one line contributes: nothing, an address, or an error.\<close>

definition line_addr :: "string \<Rightarrow> (unit + int) option" where
  "line_addr line =
     (let s = strip line in
      if s = [] \<or> startswith s ''#'' then None
      else case hex_tokens s of [] \<Rightarrow> Some (Inl ())
        | t # _ \<Rightarrow> (case py_int 16 t of Some v \<Rightarrow> Some (Inr (u32 v)) | None \<Rightarrow> Some (Inl ())))"

lemma load_addr_lines_step:
  "line_addr l = None \<Longrightarrow> load_addr_lines path n (l # ls) addrs = load_addr_lines path (n + 1) ls addrs"
  "line_addr l = Some (Inr a) \<Longrightarrow>
     load_addr_lines path n (l # ls) addrs = load_addr_lines path (n + 1) ls (addrs @ [a])"
  "line_addr l = Some (Inl u) \<Longrightarrow> \<exists>e. load_addr_lines path n (l # ls) addrs = Inl e"
  by (auto simp: line_addr_def Let_def u32_def split: list.splits option.splits if_splits)

lemma load_addr_lines_ok:
  "(\<exists>as. load_addr_lines path n ls addrs = Inr as) \<longleftrightarrow> Some (Inl ()) \<notin> line_addr ` set ls"
  "load_addr_lines path n ls addrs = Inr as \<Longrightarrow>
     as = addrs @ concat (map (\<lambda>l. case line_addr l of Some (Inr a) \<Rightarrow> [a] | _ \<Rightarrow> []) ls)"
proof (induction ls arbitrary: n addrs)
  case (Cons l ls)
  note IH = Cons.IH and step = load_addr_lines_step [of l]
  consider "line_addr l = None" | a where "line_addr l = Some (Inr a)" | "line_addr l = Some (Inl ())"
    by (cases "line_addr l"; cases "the (line_addr l)") auto
  note cs = this
  { case 1
    show ?case using cs
    proof cases
      case 3
      with step(3) obtain e where "load_addr_lines path n (l # ls) addrs = Inl e" by blast
      with 3 show ?thesis by (auto simp del: load_addr_lines.simps)
    qed (use IH(1) in \<open>auto simp: step simp del: load_addr_lines.simps\<close>)
  next
    case 2
    show ?case using cs
    proof cases
      case 3
      with step(3) obtain e where "load_addr_lines path n (l # ls) addrs = Inl e" by blast
      with 2 show ?thesis by (simp del: load_addr_lines.simps)
    qed (use 2 in \<open>auto dest!: IH(2) simp: step simp del: load_addr_lines.simps\<close>)
  }
qed simp_all

text \<open>The address file loads exactly when every line is blank, a comment, or has a first
  \<open>0x\<close> token that parses; the result is the addresses of the lines in file order, each below
  \<open>2^32\<close>.\<close>

lemma load_addr_file_exact:
  "((\<exists>as. load_addr_file path ls = Inr as) \<longleftrightarrow> Some (Inl ()) \<notin> line_addr ` set ls)
   \<and> (load_addr_file path ls = Inr as \<longrightarrow>
        as = concat (map (\<lambda>l. case line_addr l of Some (Inr a) \<Rightarrow> [a] | _ \<Rightarrow> []) ls)
        \<and> (\<forall>a\<in>set as. is_u32 a))"
proof (intro conjI impI)
  show "(\<exists>as. load_addr_file path ls = Inr as) \<longleftrightarrow> Some (Inl ()) \<notin> line_addr ` set ls"
    by (simp add: load_addr_file_def load_addr_lines_ok)
  have r: "line_addr l = Some (Inr a) \<Longrightarrow> is_u32 a" for l a
    by (auto simp: line_addr_def Let_def split: if_splits list.splits option.splits)
  assume "load_addr_file path ls = Inr as"
  then have as: "as = concat (map (\<lambda>l. case line_addr l of Some (Inr a) \<Rightarrow> [a] | _ \<Rightarrow> []) ls)"
    using load_addr_lines_ok(2) [of path 1 ls "[]" as] by (simp add: load_addr_file_def)
  then show "as = concat (map (\<lambda>l. case line_addr l of Some (Inr a) \<Rightarrow> [a] | _ \<Rightarrow> []) ls)" .
  show "\<forall>a\<in>set as. is_u32 a"
    using r by (auto simp: as split: option.splits sum.splits)
qed

lemma load_addr_file_exact_witness:
  "load_addr_file ''wp_set.txt'' [''# set'', ''P1 3 0x80000124 main'', ''0X10 f''] = Inr [0x80000124, 16]
   \<and> is_u32 0x80000124"
proof -
  have "load_addr_file ''wp_set.txt'' [''# set'', ''P1 3 0x80000124 main'', ''0X10 f'']
      = Inr [0x80000124, 16]"
    by code_simp
  with load_addr_file_exact [of "''wp_set.txt''" "[''# set'', ''P1 3 0x80000124 main'', ''0X10 f'']"
      "[0x80000124, 16]"] show ?thesis by (metis list.set_intros(1))
qed

end
