(* ===== verification/Fifo_MM.thy ===== *)
theory Fifo_MM
  imports Py_Bytes
begin

unbundle bit_operations_syntax

text \<open>
  The receive side of \<open>axi_fifo_mm_s\<close> as \<open>tools/axis_wp_host/fifo_mm_s.py\<close> drives it: init and
  reset, the packet read (RDFO, RLR, RDFD), the two drain loops, over any bus with 32-bit word
  access. The locale \<open>rx_fifo\<close> states what the driver relies on; it is interpreted on the FIFO
  model the repository tests against (\<open>FakeBus\<close>). A loop that may not end takes fuel and
  returns \<open>None\<close> when it runs out. Times are integers in the unit of the injected clock.
\<close>

section \<open>Registers and the bus\<close>

datatype pg_reg = ISR | IER | TDFR | TDFV | TDFD | TLR | RDFR | RDFO | RDFD | RLR | SRR | TDR | RDR

fun PG080_OFFSETS :: "pg_reg \<Rightarrow> int" where
  "PG080_OFFSETS ISR = 0x00" | "PG080_OFFSETS IER = 0x04" | "PG080_OFFSETS TDFR = 0x08"
| "PG080_OFFSETS TDFV = 0x0C" | "PG080_OFFSETS TDFD = 0x10" | "PG080_OFFSETS TLR = 0x14"
| "PG080_OFFSETS RDFR = 0x18" | "PG080_OFFSETS RDFO = 0x1C" | "PG080_OFFSETS RDFD = 0x20"
| "PG080_OFFSETS RLR = 0x24" | "PG080_OFFSETS SRR = 0x28" | "PG080_OFFSETS TDR = 0x2C"
| "PG080_OFFSETS RDR = 0x30"

definition RESET_KEY :: int where "RESET_KEY = 0xA5"
definition ISR_RRC :: int where "ISR_RRC = 0x00800000"
definition RLR_PARTIAL :: int where "RLR_PARTIAL = 0x80000000"

record 'b mm_bus =
  bus_r1 :: "int \<Rightarrow> ('b, int) act"
  bus_write :: "int \<Rightarrow> int \<Rightarrow> ('b, unit) act"

record drain_stats =
  n_packets :: nat
  n_words :: nat
  n_partial :: nat
  n_zero_len :: nat
  n_polls :: nat

definition drain_stats0 :: drain_stats where
  "drain_stats0 = \<lparr> n_packets = 0, n_words = 0, n_partial = 0, n_zero_len = 0, n_polls = 0 \<rparr>"

record 'b fifo_mm =
  ff_bus :: "'b mm_bus"
  ff_reg :: "pg_reg \<Rightarrow> int"
  ff_reset_on_init :: bool

text \<open>\<open>self.reg.update(offsets)\<close> with the given offsets only.\<close>

definition mk_fifo :: "'b mm_bus \<Rightarrow> (pg_reg \<Rightarrow> int option) \<Rightarrow> bool \<Rightarrow> 'b fifo_mm" where
  "mk_fifo bus offsets reset_on_init =
     \<lparr> ff_bus = bus,
       ff_reg = (\<lambda>r. case offsets r of Some a \<Rightarrow> a | None \<Rightarrow> PG080_OFFSETS r),
       ff_reset_on_init = reset_on_init \<rparr>"

section \<open>Init and status\<close>

definition fifo_write :: "'b fifo_mm \<Rightarrow> pg_reg \<Rightarrow> int \<Rightarrow> ('b, unit) act" where
  "fifo_write f r v = bus_write (ff_bus f) (ff_reg f r) v"

definition fifo_read :: "'b fifo_mm \<Rightarrow> pg_reg \<Rightarrow> ('b, int) act" where
  "fifo_read f r = bus_r1 (ff_bus f) (ff_reg f r)"

definition reset_rx :: "'b fifo_mm \<Rightarrow> ('b, unit) act" where
  "reset_rx f = andthen (fifo_write f RDFR RESET_KEY) (fifo_write f ISR 0xFFFFFFFF)"

definition fifo_init :: "'b fifo_mm \<Rightarrow> ('b, unit) act" where
  "fifo_init f = andthen (fifo_write f IER 0) (act_when (ff_reset_on_init f) (reset_rx f))"

definition fifo_isr :: "'b fifo_mm \<Rightarrow> ('b, int) act" where
  "fifo_isr f = fifo_read f ISR"

definition rx_occupancy :: "'b fifo_mm \<Rightarrow> ('b, int) act" where
  "rx_occupancy f = fifo_read f RDFO"

section \<open>Reading\<close>

text \<open>The state of a drain: the statistics and the words read so far, beside the bus.\<close>

type_synonym 'b drain_state = "(drain_stats \<times> int list) \<times> 'b"

definition bump :: "(drain_stats \<Rightarrow> drain_stats) \<Rightarrow> ('b drain_state, unit) act" where
  "bump g = modify (\<lambda>((st, ws), b). ((g st, ws), b))"

definition rlr_words :: "int \<Rightarrow> int" where
  "rlr_words rlr = ((rlr AND NOT RLR_PARTIAL) + 3) div 4"

text \<open>Whether the packet is short of its length, and the words to read.\<close>

definition packet_size :: "int \<Rightarrow> int \<Rightarrow> bool \<times> nat" where
  "packet_size rlr occ =
     (let nwords = rlr_words rlr in
      if rlr AND RLR_PARTIAL \<noteq> 0 \<or> occ < nwords then (True, nat (min nwords occ))
      else (False, nat nwords))"

definition read_packet :: "'b fifo_mm \<Rightarrow> ('b drain_state, int list option) act" where
  "read_packet f =
     bnd (on_snd (rx_occupancy f)) (\<lambda>occ.
     if occ = 0 then ret None
     else bnd (on_snd (fifo_read f RLR)) (\<lambda>rlr.
       if rlr_words rlr = 0 then andthen (bump (\<lambda>s. s\<lparr>n_zero_len := n_zero_len s + 1\<rparr>)) (ret None)
       else case packet_size rlr occ of (partial, n) \<Rightarrow>
         andthen (act_when partial (bump (\<lambda>s. s\<lparr>n_partial := n_partial s + 1\<rparr>)))
         (bnd (on_snd (map_act (\<lambda>_. fifo_read f RDFD) [0..<n])) (\<lambda>ws.
          andthen (bump (\<lambda>s. s\<lparr>n_packets := n_packets s + 1, n_words := n_words s + length ws\<rparr>))
            (ret (Some ws))))))"

text \<open>\<open>while not max or stats.n_packets < max: pkt = read_packet(); if pkt is None: break; ...\<close>;
  the result is \<open>False\<close> when the fuel ran out.\<close>

fun drain_loop :: "'b fifo_mm \<Rightarrow> int \<Rightarrow> nat \<Rightarrow> ('b drain_state, bool) act" where
  "drain_loop f maxp 0 = ret False"
| "drain_loop f maxp (Suc fuel) =
     bnd get_state (\<lambda>((st, ws), b).
     if maxp = 0 \<or> int (n_packets st) < maxp then
       bnd (read_packet f) (\<lambda>pkt. case pkt of
          None \<Rightarrow> ret True
        | Some p \<Rightarrow> andthen (modify (\<lambda>((st, ws), b). ((st, ws @ p), b))) (drain_loop f maxp fuel))
     else ret True)"

definition drain :: "'b fifo_mm \<Rightarrow> int \<Rightarrow> nat \<Rightarrow> 'b \<Rightarrow>
    (exn + (int list \<times> drain_stats) option) \<times> 'b" where
  "drain f maxp fuel b =
     (case drain_loop f maxp fuel ((drain_stats0, []), b) of
        (Inl e, (_, b')) \<Rightarrow> (Inl e, b')
      | (Inr True, ((st, ws), b')) \<Rightarrow> (Inr (Some (ws, st)), b')
      | (Inr False, (_, b')) \<Rightarrow> (Inr None, b'))"

text \<open>The injected environment of \<open>drain_poll\<close>: it acts on the same world as the bus.\<close>

record 'b poll_env =
  pe_stop :: "('b, bool) act option"
  pe_sleep :: "int \<Rightarrow> ('b, unit) act"
  pe_clock :: "('b, int) act"

definition poll_stop :: "'b poll_env \<Rightarrow> ('b, bool) act" where
  "poll_stop env = (case pe_stop env of None \<Rightarrow> ret False | Some m \<Rightarrow> m)"

definition poll_elapsed :: "'b poll_env \<Rightarrow> int option \<Rightarrow> int \<Rightarrow> ('b, bool) act" where
  "poll_elapsed env duration_s t0 =
     (case duration_s of None \<Rightarrow> ret False
      | Some d \<Rightarrow> bnd (pe_clock env) (\<lambda>now. ret (d \<le> now - t0)))"

fun poll_loop :: "'b fifo_mm \<Rightarrow> 'b poll_env \<Rightarrow> int \<Rightarrow> int option \<Rightarrow> int \<Rightarrow> int \<Rightarrow> nat \<Rightarrow> nat \<Rightarrow>
    ('b drain_state, bool) act" where
  "poll_loop f env poll_s duration_s max_records t0 inner 0 = ret False"
| "poll_loop f env poll_s duration_s max_records t0 inner (Suc fuel) =
     bnd (drain_loop f max_records inner) (\<lambda>done.
     if \<not> done then ret False
     else bnd get_state (\<lambda>((st, ws), b).
       if max_records \<noteq> 0 \<and> max_records \<le> int (n_packets st) then ret True
       else bnd (on_snd (poll_stop env)) (\<lambda>stop.
         if stop then ret True
         else bnd (on_snd (poll_elapsed env duration_s t0)) (\<lambda>over.
           if over then ret True
           else andthen (bump (\<lambda>s. s\<lparr>n_polls := n_polls s + 1\<rparr>))
                (andthen (on_snd (pe_sleep env poll_s))
                  (poll_loop f env poll_s duration_s max_records t0 inner fuel))))))"

definition drain_poll :: "'b fifo_mm \<Rightarrow> 'b poll_env \<Rightarrow> int \<Rightarrow> int option \<Rightarrow> int \<Rightarrow> nat \<Rightarrow> nat \<Rightarrow> 'b \<Rightarrow>
    (exn + (int list \<times> drain_stats) option) \<times> 'b" where
  "drain_poll f env poll_s duration_s max_records inner fuel b =
     (case pe_clock env b of
        (Inl e, b') \<Rightarrow> (Inl e, b')
      | (Inr t0, b1) \<Rightarrow>
        (case poll_loop f env poll_s duration_s max_records t0 inner fuel ((drain_stats0, []), b1) of
           (Inl e, (_, b')) \<Rightarrow> (Inl e, b')
         | (Inr True, ((st, ws), b')) \<Rightarrow> (Inr (Some (ws, st)), b')
         | (Inr False, (_, b')) \<Rightarrow> (Inr None, b')))"

section \<open>The FIFO model of the repository\<close>

text \<open>A log entry: a read of an offset, or a write of a value to it.\<close>

datatype bus_access = Rd int | Wr int int

record fake_bus =
  fb_data :: "int list"
  fb_lengths :: "int list"
  fb_regs :: "(int, int) dict"
  fb_log :: "bus_access list"

definition mk_fake_bus :: "int list list \<Rightarrow> int list option \<Rightarrow> fake_bus" where
  "mk_fake_bus packets lengths =
     \<lparr> fb_data = concat packets,
       fb_lengths = (case lengths of None \<Rightarrow> map (\<lambda>p. 4 * int (length p)) packets | Some ls \<Rightarrow> ls),
       fb_regs = [(PG080_OFFSETS ISR, 0), (PG080_OFFSETS IER, 0)], fb_log = [] \<rparr>"

definition fake_r1 :: "int \<Rightarrow> (fake_bus, int) act" where
  "fake_r1 off b0 =
     (let b = b0\<lparr>fb_log := fb_log b0 @ [Rd off]\<rparr> in
      if off = PG080_OFFSETS RDFO then (Inr (int (length (fb_data b))), b)
      else if off = PG080_OFFSETS RLR then
        (case fb_lengths b of [] \<Rightarrow> (Inr 0, b) | l # ls \<Rightarrow> (Inr l, b\<lparr>fb_lengths := ls\<rparr>))
      else if off = PG080_OFFSETS RDFD then
        (case fb_data b of [] \<Rightarrow> (Inl (Exn AssertionError ''RDFD read on an empty FIFO (underflow!)'' []), b)
         | w # ws \<Rightarrow> (Inr w, b\<lparr>fb_data := ws\<rparr>))
      else (Inr (dict_get_or (fb_regs b) off 0), b))"

definition fake_write :: "int \<Rightarrow> int \<Rightarrow> (fake_bus, unit) act" where
  "fake_write off val b0 =
     (let b = b0\<lparr>fb_log := fb_log b0 @ [Wr off val]\<rparr>; isr = dict_get_or (fb_regs b) (PG080_OFFSETS ISR) 0 in
      if off = PG080_OFFSETS RDFR then
        (if val \<noteq> RESET_KEY then (Inl (Exn AssertionError ''RDFR without key 0xA5'' []), b)
         else (Inr (), b\<lparr>fb_data := [], fb_lengths := [],
                         fb_regs := dict_set (PG080_OFFSETS ISR) (isr OR ISR_RRC) (fb_regs b)\<rparr>))
      else if off = PG080_OFFSETS ISR then
        (Inr (), b\<lparr>fb_regs := dict_set (PG080_OFFSETS ISR) (isr AND NOT val) (fb_regs b)\<rparr>)
      else (Inr (), b\<lparr>fb_regs := dict_set off (val AND 0xFFFFFFFF) (fb_regs b)\<rparr>))"

definition fake_fifo :: "bool \<Rightarrow> fake_bus fifo_mm" where
  "fake_fifo reset = mk_fifo \<lparr> bus_r1 = fake_r1, bus_write = fake_write \<rparr> (\<lambda>_. None) reset"

section \<open>The receive FIFO as a contract\<close>

text \<open>
  The abstract receive side: the buffered words and the length FIFO. \<open>packet_spec\<close> is what one
  packet read promises on it.
\<close>

type_synonym rx_view = "int list \<times> int list"

definition head_or_0 :: "int list \<Rightarrow> int" where
  "head_or_0 ls = (case ls of [] \<Rightarrow> 0 | l # _ \<Rightarrow> l)"

definition packet_spec :: "rx_view \<Rightarrow> drain_stats \<Rightarrow> (int list option \<times> drain_stats) \<times> rx_view" where
  "packet_spec v st =
     (case v of (data, ls) \<Rightarrow>
      if data = [] then ((None, st), v)
      else if rlr_words (head_or_0 ls) = 0
        then ((None, st\<lparr>n_zero_len := n_zero_len st + 1\<rparr>), (data, tl ls))
      else case packet_size (head_or_0 ls) (int (length data)) of (short, n) \<Rightarrow>
        ((Some (take n data),
          st\<lparr>n_partial := n_partial st + of_bool short, n_packets := n_packets st + 1,
             n_words := n_words st + n\<rparr>),
         (drop n data, tl ls)))"

lemma packet_size_le: "packet_size rlr (int k) = (short, n) \<Longrightarrow> n \<le> k"
  by (auto simp: packet_size_def Let_def split: if_splits)

lemma on_snd_ok: "m b = (Inr x, b') \<Longrightarrow> on_snd m (w, b) = (Inr x, (w, b'))"
  by (simp add: on_snd_def)

lemma bump_apply [simp]: "bump g ((st, ws), b) = (Inr (), ((g st, ws), b))"
  by (simp add: bump_def)

lemma act_when_bump:
  "act_when c (bump g) ((st, ws), b) = (Inr (), ((if c then g st else st, ws), b))"
  by (cases c) simp_all

text \<open>A plain byte length below \<open>2^31\<close> has no partial bit.\<close>

lemma plain_length:
  assumes "k < 536870912"
  shows "rlr_words (4 * int k) = int k" "4 * int k AND RLR_PARTIAL = 0"
proof -
  have t: "take_bit 31 (4 * int k) = 4 * int k"
    using assms by (simp add: take_bit_int_eq_self_iff)
  have q: "RLR_PARTIAL = push_bit 31 1" by (simp add: RLR_PARTIAL_def push_bit_eq_mult)
  have p: "bit RLR_PARTIAL n \<longleftrightarrow> n = 31" for n
    by (simp only: q bit_push_bit_iff_int bit_1_iff) auto
  have "take_bit 31 (4 * int k) AND RLR_PARTIAL = 0"
    by (rule bit_eqI) (auto simp: bit_and_iff bit_take_bit_iff p)
  then show "4 * int k AND RLR_PARTIAL = 0" by (simp only: t)
  have "take_bit 31 (4 * int k) AND NOT RLR_PARTIAL = take_bit 31 (4 * int k)"
    by (rule bit_eqI) (auto simp: bit_and_iff bit_not_iff bit_take_bit_iff p)
  then show "rlr_words (4 * int k) = int k" by (simp only: t rlr_words_def)
qed

locale rx_fifo =
  fixes f :: "'b fifo_mm" and view :: "'b \<Rightarrow> rx_view"
  assumes occ_law: "\<exists>b'. fifo_read f RDFO b = (Inr (int (length (fst (view b)))), b') \<and> view b' = view b"
    and rlr_law: "\<exists>b'. fifo_read f RLR b = (Inr (head_or_0 (snd (view b))), b')
                   \<and> view b' = (fst (view b), tl (snd (view b)))"
    and rdfd_law: "fst (view b) \<noteq> [] \<Longrightarrow> \<exists>b'. fifo_read f RDFD b = (Inr (hd (fst (view b))), b')
                   \<and> view b' = (tl (fst (view b)), snd (view b))"
    and ier_law: "\<exists>b'. fifo_write f IER v b = (Inr (), b') \<and> view b' = view b"
    and isr_law: "\<exists>b'. fifo_write f ISR v b = (Inr (), b') \<and> view b' = view b"
    and rdfr_law: "\<exists>b'. fifo_write f RDFR RESET_KEY b = (Inr (), b') \<and> view b' = ([], [])"
begin

lemma read_words:
  "length is \<le> length (fst (view b)) \<Longrightarrow>
     \<exists>b'. map_act (\<lambda>_. fifo_read f RDFD) is b = (Inr (take (length is) (fst (view b))), b')
       \<and> view b' = (drop (length is) (fst (view b)), snd (view b))"
proof (induction "is" arbitrary: b)
  case (Cons i "is")
  then have "fst (view b) \<noteq> []" by auto
  with rdfd_law [of b] obtain w ws b1 where b1: "fifo_read f RDFD b = (Inr w, b1)"
      "view b1 = (ws, snd (view b))" "fst (view b) = w # ws"
    by (metis list.collapse)
  with Cons.prems obtain b' where "map_act (\<lambda>_. fifo_read f RDFD) is b1 = (Inr (take (length is) ws), b')"
      "view b' = (drop (length is) ws, snd (view b))"
    using Cons.IH [of b1] by auto
  with b1 show ?case by (simp add: bnd_def)
qed simp

text \<open>The packet read refines \<open>packet_spec\<close>, and never raises.\<close>

lemma read_packet_refines:
  "\<exists>b'. read_packet f ((st, ws), b)
       = (Inr (fst (fst (packet_spec (view b) st))), ((snd (fst (packet_spec (view b) st)), ws), b'))
     \<and> view b' = snd (packet_spec (view b) st)"
proof -
  obtain data ls where v: "view b = (data, ls)" by fastforce
  obtain b1 where b1: "rx_occupancy f b = (Inr (int (length data)), b1)" "view b1 = (data, ls)"
    using occ_law [of b] v by (auto simp: rx_occupancy_def)
  obtain b2 where b2: "fifo_read f RLR b1 = (Inr (head_or_0 ls), b2)" "view b2 = (data, tl ls)"
    using rlr_law [of b1] b1 by auto
  obtain short n where sn: "packet_size (head_or_0 ls) (int (length data)) = (short, n)" by fastforce
  have n: "n \<le> length data" using packet_size_le [OF sn] .
  then obtain b3 where b3: "map_act (\<lambda>_. fifo_read f RDFD) [0..<n] b2 = (Inr (take n data), b3)"
      "view b3 = (drop n data, tl ls)"
    using read_words [of "[0..<n]" b2] b2 by auto
  have l: "length (take n data) = n" using n by simp
  show ?thesis
    using v b1 b2 b3 sn l
    by (cases short)
       (auto simp: read_packet_def packet_spec_def bnd_def andthen_def on_snd_ok act_when_bump)
qed

text \<open>The loop ends, and what it has read followed by what is left is what was there.\<close>

lemma drain_loop_conserves:
  assumes "length (snd (view b)) < fuel"
  shows "\<exists>st' ws' b'. drain_loop f maxp fuel ((st, ws), b) = (Inr True, ((st', ws @ ws'), b'))
     \<and> fst (view b) = ws' @ fst (view b') \<and> n_words st' = n_words st + length ws'"
  using assms
proof (induction fuel arbitrary: st ws b)
  case (Suc fuel)
  obtain b1 where b1: "read_packet f ((st, ws), b)
       = (Inr (fst (fst (packet_spec (view b) st))), ((snd (fst (packet_spec (view b) st)), ws), b1))"
      "view b1 = snd (packet_spec (view b) st)"
    using read_packet_refines by blast
  obtain r st1 v1 where sp: "packet_spec (view b) st = ((r, st1), v1)" by (metis surj_pair)
  obtain data ls where v: "view b = (data, ls)" by fastforce
  show ?case
  proof (cases "maxp = 0 \<or> int (n_packets st) < maxp")
    case go: True
    show ?thesis
    proof (cases r)
      case None
      with sp [unfolded v] have "fst v1 = fst (view b)" "n_words st1 = n_words st"
        unfolding v by (auto simp: packet_spec_def split: if_splits prod.splits)
      with go None sp b1 show ?thesis by (simp add: bnd_def)
    next
      case (Some p)
      with sp [unfolded v] have s: "fst (view b) = p @ fst v1" "n_words st1 = n_words st + length p"
          "snd v1 = tl (snd (view b))" "snd (view b) \<noteq> []"
        using packet_size_le [of "head_or_0 (snd (view b))" "length (fst (view b))"]
        unfolding v
        by (auto simp: packet_spec_def head_or_0_def rlr_words_def split: if_splits prod.splits)
      with Suc.prems b1 sp have "length (snd (view b1)) < fuel" by (cases "snd (view b)") auto
      from Suc.IH [OF this, of st1 "ws @ p"] go Some sp b1 s show ?thesis
        by (auto simp: bnd_def andthen_def)
    qed
  next
    case False
    then show ?thesis by (simp add: bnd_def)
  qed
qed simp

text \<open>Well-formed packets are read whole, one per length, up to the packet limit.\<close>

lemma drain_loop_packets:
  assumes "view b = (concat ps, map (\<lambda>p. 4 * int (length p)) ps)"
    and "\<forall>p\<in>set ps. p \<noteq> [] \<and> length p < 536870912" and "length ps < fuel"
    and "k = (if maxp = 0 then length ps else min (length ps) (nat (maxp - int (n_packets st))))"
  shows "\<exists>b'. drain_loop f maxp fuel ((st, ws), b)
      = (Inr True, ((st\<lparr>n_packets := n_packets st + k,
            n_words := n_words st + length (concat (take k ps))\<rparr>, ws @ concat (take k ps)), b'))
     \<and> view b' = (concat (drop k ps), map (\<lambda>p. 4 * int (length p)) (drop k ps))"
  using assms
proof (induction ps arbitrary: st ws b fuel k)
  case Nil
  then obtain fuel' where f: "fuel = Suc fuel'" by (cases fuel) auto
  obtain b1 where "read_packet f ((st, ws), b) = (Inr None, ((st, ws), b1))" "view b1 = view b"
    using read_packet_refines [of st ws b] Nil by (auto simp: packet_spec_def)
  with Nil f show ?case by (cases "maxp = 0 \<or> int (n_packets st) < maxp") (auto simp: bnd_def)
next
  case (Cons p ps)
  then obtain fuel' where f: "fuel = Suc fuel'" "length ps < fuel'" by (cases fuel) auto
  show ?case
  proof (cases "maxp = 0 \<or> int (n_packets st) < maxp")
    case go: True
    let ?st = "st\<lparr>n_packets := n_packets st + 1, n_words := n_words st + length p\<rparr>"
    have sz: "rlr_words (4 * int (length p)) = int (length p)"
        "4 * int (length p) AND RLR_PARTIAL = 0"
      using Cons.prems(2) by (simp_all add: plain_length)
    have "packet_spec (view b) st = ((Some p, ?st), (concat ps, map (\<lambda>p. 4 * int (length p)) ps))"
      using Cons.prems(1,2) sz by (simp add: packet_spec_def head_or_0_def packet_size_def)
    then obtain b1 where b1: "read_packet f ((st, ws), b) = (Inr (Some p), ((?st, ws), b1))"
        "view b1 = (concat ps, map (\<lambda>p. 4 * int (length p)) ps)"
      using read_packet_refines [of st ws b] by auto
    define k' where
      "k' = (if maxp = 0 then length ps else min (length ps) (nat (maxp - int (n_packets ?st))))"
    have k: "k = Suc k'"
      using Cons.prems(4) go by (auto simp: k'_def)
    from Cons.IH [OF b1(2) _ f(2) k'_def, of "ws @ p"] Cons.prems(2) go b1 k f(1) show ?thesis
      by (auto simp: bnd_def andthen_def add.assoc)
  next
    case False
    with Cons.prems f(1) show ?thesis by (simp add: bnd_def)
  qed
qed

lemma drain_packets:
  assumes "view b = (concat ps, map (\<lambda>p. 4 * int (length p)) ps)"
    and "\<forall>p\<in>set ps. p \<noteq> [] \<and> length p < 536870912" and "length ps < fuel" and "0 \<le> maxp"
  defines "k \<equiv> if maxp = 0 then length ps else min (length ps) (nat maxp)"
  shows "\<exists>b'. drain f maxp fuel b
      = (Inr (Some (concat (take k ps), drain_stats0\<lparr>n_packets := k,
            n_words := length (concat (take k ps))\<rparr>)), b')
     \<and> view b' = (concat (drop k ps), map (\<lambda>p. 4 * int (length p)) (drop k ps))"
  using drain_loop_packets [OF assms(1-3), of k maxp drain_stats0 "[]"]
  by (auto simp: drain_def k_def drain_stats0_def)

lemma drain_conserves:
  assumes "length (snd (view b)) < fuel"
  shows "\<exists>ws st b'. drain f maxp fuel b = (Inr (Some (ws, st)), b')
     \<and> fst (view b) = ws @ fst (view b') \<and> n_words st = length ws"
  using drain_loop_conserves [OF assms, of maxp drain_stats0 "[]"]
  by (auto simp: drain_def drain_stats0_def)

text \<open>A requested stop still drains the backlog completely.\<close>

lemma drain_poll_stopped:
  assumes "view b = (concat ps, map (\<lambda>p. 4 * int (length p)) ps)"
    and "\<forall>p\<in>set ps. p \<noteq> [] \<and> length p < 536870912" and "length ps < inner"
    and "\<And>b. \<exists>b'. pe_clock env b = (Inr (t b), b') \<and> view b' = view b"
    and "\<And>b. \<exists>b'. poll_stop env b = (Inr True, b') \<and> view b' = view b"
  shows "\<exists>b'. drain_poll f env poll_s duration_s 0 inner (Suc fuel) b
      = (Inr (Some (concat ps, drain_stats0\<lparr>n_packets := length ps,
            n_words := length (concat ps)\<rparr>)), b') \<and> view b' = ([], [])"
proof -
  obtain b1 where b1: "pe_clock env b = (Inr (t b), b1)" "view b1 = view b"
    using assms(4) by blast
  obtain b2 where b2: "drain_loop f 0 inner ((drain_stats0, []), b1)
      = (Inr True, ((drain_stats0\<lparr>n_packets := length ps, n_words := length (concat ps)\<rparr>, concat ps), b2))"
      "view b2 = ([], [])"
    using drain_loop_packets [of b1 ps inner "length ps" 0 drain_stats0 "[]"] assms(1-3) b1(2)
    by (auto simp: drain_stats0_def)
  obtain b3 where b3: "poll_stop env b2 = (Inr True, b3)" "view b3 = view b2"
    using assms(5) by blast
  with b1 b2 show ?thesis
    by (simp add: drain_poll_def bnd_def on_snd_ok)
qed

lemma init_keeps: "\<not> ff_reset_on_init f \<Longrightarrow> \<exists>b'. fifo_init f b = (Inr (), b') \<and> view b' = view b"
  using ier_law [of 0 b] by (auto simp: fifo_init_def andthen_def bnd_def)

lemma init_resets: "ff_reset_on_init f \<Longrightarrow> \<exists>b'. fifo_init f b = (Inr (), b') \<and> view b' = ([], [])"
proof -
  assume r: "ff_reset_on_init f"
  obtain b1 where b1: "fifo_write f IER 0 b = (Inr (), b1)" using ier_law [of 0 b] by blast
  obtain b2 where b2: "fifo_write f RDFR RESET_KEY b1 = (Inr (), b2)" "view b2 = ([], [])"
    using rdfr_law [of b1] by blast
  obtain b3 where b3: "fifo_write f ISR 0xFFFFFFFF b2 = (Inr (), b3)" "view b3 = view b2"
    using isr_law [of "0xFFFFFFFF" b2] by blast
  from r b1 b2 b3 show ?thesis by (simp add: fifo_init_def reset_rx_def andthen_def bnd_def)
qed

end

section \<open>The contract on the repository's FIFO model\<close>

definition fake_view :: "fake_bus \<Rightarrow> rx_view" where
  "fake_view b = (fb_data b, fb_lengths b)"

lemma fake_fifo_simps:
  "fifo_read (fake_fifo reset) r = fake_r1 (PG080_OFFSETS r)"
  "fifo_write (fake_fifo reset) r v = fake_write (PG080_OFFSETS r) v"
  "ff_reset_on_init (fake_fifo reset) = reset"
  by (simp_all add: fifo_read_def fifo_write_def fake_fifo_def mk_fifo_def)

interpretation fake: rx_fifo "fake_fifo reset" fake_view for reset
  by unfold_locales
     (auto simp: fake_fifo_simps fake_view_def fake_r1_def fake_write_def head_or_0_def Let_def
       split: list.splits)

text \<open>C31: Whatever lengths the FIFO reports, a drain without packet limit ends once the length
  FIFO is used up, never reads the data register of an empty FIFO, and hands over a prefix of the
  buffered words, the rest being still in the FIFO: no word is lost, doubled or reordered.\<close>

theorem drain_conserves_words:
  "\<exists>ws st b'. drain (fake_fifo reset) maxp (length (fb_lengths b) + 1) b = (Inr (Some (ws, st)), b')
     \<and> fb_data b = ws @ fb_data b' \<and> n_words st = length ws"
  using fake.drain_conserves [of b "length (fb_lengths b) + 1" reset maxp] by (simp add: fake_view_def)

text \<open>C17: Draining well-formed packets (each of them non-empty and below \<open>2^29\<close> words) returns
  exactly the words of the first \<open>max_packets\<close> packets (of all when it is 0), counts them, counts
  nothing as partial or empty, and leaves the other packets in the FIFO.\<close>

theorem drain_packets_exact:
  assumes "\<forall>p\<in>set ps. p \<noteq> [] \<and> length p < 536870912" and "0 \<le> maxp"
  defines "k \<equiv> if maxp = 0 then length ps else min (length ps) (nat maxp)"
  shows "\<exists>b'. drain (fake_fifo reset) maxp (length ps + 1) (mk_fake_bus ps None)
      = (Inr (Some (concat (take k ps), drain_stats0\<lparr>n_packets := k,
            n_words := length (concat (take k ps))\<rparr>)), b')
     \<and> fb_data b' = concat (drop k ps)"
  using fake.drain_packets [of "mk_fake_bus ps None" ps "length ps + 1" maxp reset] assms
  by (auto simp: fake_view_def mk_fake_bus_def)

theorem drain_packets_exact_witness:
  "\<exists>b'. drain (fake_fifo False) 1 3 (mk_fake_bus [[1, 2, 3, 4], [5, 6, 7, 8]] None)
      = (Inr (Some ([1, 2, 3, 4], drain_stats0\<lparr>n_packets := 1, n_words := 4\<rparr>)), b')
     \<and> fb_data b' = [5, 6, 7, 8]"
proof -
  have "(3 :: nat) = Suc (Suc (Suc 0))" "(4 :: nat) = Suc (Suc (Suc (Suc 0)))" by simp_all
  then show ?thesis
    using drain_packets_exact [of "[[1, 2, 3, 4], [5, 6, 7, 8]]" 1 False] by (simp only:) simp
qed

text \<open>Attaching is not destructive: \<open>init\<close> keeps every buffered word and length unless the
  reset was asked for, and then nothing stays buffered; it never raises.\<close>

lemma fifo_init_effect:
  "\<exists>b'. fifo_init (fake_fifo reset) b = (Inr (), b')
     \<and> (fb_data b', fb_lengths b') = (if reset then ([], []) else (fb_data b, fb_lengths b))"
  using fake.init_keeps [of reset b] fake.init_resets [of reset b]
  by (cases reset) (auto simp: fake_fifo_simps fake_view_def)

end
