(* ===== verification/Wp_Reader.thy ===== *)
theory Wp_Reader
  imports Wp_Checks Fifo_MM
begin

text \<open>
  The command-line reader \<open>tools/axis_wp_host/read_wp_stream.py\<close>: the words come from a file or
  from the FIFO, the checks run over the records, the exit code is 0 exactly when all enabled
  checks are green. A printed line is a constructor with its values. The file system, the bus at a
  base address and the signal-driven stop flag are parameters; times are integers (milliseconds).
  Lines printed before an exception are not kept.
\<close>

section \<open>Arguments, environment, output\<close>

record reader_args =
  a_source :: string
  a_infile :: "string option"
  a_base :: "string option"
  a_reset :: bool
  a_wp_set :: "string option"
  a_expected :: "string option"
  a_cycle :: bool
  a_ts_mode :: string
  a_core :: string
  a_raw :: bool
  a_max_records :: int
  a_poll_ms :: "int option"
  a_duration_s :: "int option"

record 'b reader_env =
  re_bytes :: "string \<Rightarrow> byte list option"
  re_text :: "string \<Rightarrow> string list option"
  re_bus :: "int \<Rightarrow> 'b mm_bus"
  re_poll :: "'b poll_env"
  re_inner :: nat
  re_fuel :: nat

datatype fail =
    F_Invalid nat
  | F_Malformed nat nat
  | F_Ts int nat
  | F_Member nat
  | F_Seq int nat

datatype out_line =
    O_Invalid wp_record
  | O_Ts_Fail ts_violation
  | O_Miss wp_record
  | O_Seq int nat nat nat nat "nat option"
  | O_Seq_Fail int nat wp_record
  | O_Record wp_record
  | O_Fifo drain_stats
  | O_Counts "nat list" nat nat nat "int list" string
  | O_Fail "fail list"
  | O_Pass

datatype words_in = In_Bytes "byte list" | In_Words "int list"

section \<open>Acquiring the words\<close>

definition acquire_words :: "'b reader_env \<Rightarrow> reader_args \<Rightarrow>
    'b \<Rightarrow> (exn + (words_in \<times> drain_stats option) option) \<times> 'b" where
  "acquire_words env args b =
     (if a_source args = ''file'' then
        (case a_infile args of
           None \<Rightarrow> (Inl (Exn SystemExit ''--source file requires --in <file>'' []), b)
         | Some path \<Rightarrow>
            if path = [] then (Inl (Exn SystemExit ''--source file requires --in <file>'' []), b)
            else (case re_bytes env path of
                    None \<Rightarrow> (Inl (Exn OSError ''open'' [AS path]), b)
                  | Some data \<Rightarrow> (Inr (Some (In_Bytes data, None)), b)))
      else case a_base args of
        None \<Rightarrow> (Inl (Exn SystemExit ''--source fifo requires --base <hex>'' []), b)
      | Some bs \<Rightarrow>
        (case py_int 16 bs of
           None \<Rightarrow> (Inl (Exn ValueError ''invalid literal for int()'' [AS bs]), b)
         | Some base \<Rightarrow>
           let fifo = mk_fifo (re_bus env base) (\<lambda>_. None) (a_reset args) in
           (case fifo_init fifo b of
              (Inl e, b1) \<Rightarrow> (Inl e, b1)
            | (Inr _, b1) \<Rightarrow>
              (case (if a_poll_ms args \<noteq> None \<or> a_duration_s args \<noteq> None
                     then drain_poll fifo (re_poll env)
                            (case a_poll_ms args of Some ms \<Rightarrow> ms | None \<Rightarrow> 10)
                            (a_duration_s args) (a_max_records args) (re_inner env) (re_fuel env) b1
                     else drain fifo (a_max_records args) (re_inner env) b1) of
                 (Inl e, b2) \<Rightarrow> (Inl e, b2)
               | (Inr None, b2) \<Rightarrow> (Inr None, b2)
               | (Inr (Some (ws, stats)), b2) \<Rightarrow> (Inr (Some (In_Words ws, Some stats)), b2)))))"

section \<open>The checks\<close>

definition select_cores :: "reader_args \<Rightarrow> (int, wp_record list) dict \<Rightarrow>
    exn + ((int, wp_record list) dict \<times> wp_record list)" where
  "select_cores args by_core =
     (if a_core args \<noteq> ''merge'' then
        (case py_int 0 (a_core args) of
           None \<Rightarrow> Inl (Exn SystemExit ''--core expects a number or `merge`'' [])
         | Some c \<Rightarrow> Inr ([(c, dict_get_or by_core c [])], dict_get_or by_core c []))
      else Inr (by_core, merge_streams by_core))"

definition integrity_part :: "stream_result \<Rightarrow> fail list \<times> out_line list" where
  "integrity_part res =
     ((if n_invalid res \<noteq> 0 then [F_Invalid (n_invalid res)] else [])
        @ (if sr_n_malformed_words res \<noteq> 0 \<or> sr_n_malformed_bytes res \<noteq> 0
           then [F_Malformed (sr_n_malformed_words res) (sr_n_malformed_bytes res)] else []),
      if n_invalid res \<noteq> 0 then map O_Invalid (filter (\<lambda>r. \<not> r_valid r) (sr_records res)) else [])"

text \<open>The loop over the sorted cores; the state is (wraps, fails, lines).\<close>

fun ts_part :: "string \<Rightarrow> (int, wp_record list) dict \<Rightarrow> int list \<Rightarrow> nat \<times> fail list \<times> out_line list \<Rightarrow>
    exn + (nat \<times> fail list \<times> out_line list)" where
  "ts_part mode by_core [] st = Inr st"
| "ts_part mode by_core (c # cs) (wr, fails, out) =
     (case check_ts_monotonic (dict_get_or by_core c []) mode of
        Inl e \<Rightarrow> Inl e
      | Inr t \<Rightarrow> ts_part mode by_core cs
          (wr + wraps t,
           if \<not> tr_ok t then fails @ [F_Ts c (length (tr_violations t))] else fails,
           if \<not> tr_ok t then out @ map O_Ts_Fail (tr_violations t) else out))"

definition member_part :: "int list \<Rightarrow> wp_record list \<Rightarrow> nat \<times> fail list \<times> out_line list" where
  "member_part wp_set view =
     (let m = check_pc_membership view wp_set; k = length (mr_misses m) in
      (k, if \<not> mr_ok m then [F_Member k] else [], if \<not> mr_ok m then map O_Miss (mr_misses m) else []))"

definition seq_lines :: "bool \<Rightarrow> int \<Rightarrow> sequence_result \<Rightarrow> out_line list" where
  "seq_lines cyc c s =
     O_Seq c (sq_matched s) (length (sq_unmatched s)) (sq_expected_consumed s) (sq_n_expected s)
        (if cyc then Some (sq_cycles s) else None)
     # (if \<not> sq_ok s then map (\<lambda>(r, cur). O_Seq_Fail c cur r) (sq_unmatched s) else [])"

definition seq_part :: "int list \<Rightarrow> bool \<Rightarrow> (int, wp_record list) dict \<Rightarrow> nat \<times> fail list \<times> out_line list" where
  "seq_part expected cyc by_core =
     fold (\<lambda>c (unmatched, fails, out).
            let s = check_sequence (dict_get_or by_core c []) expected cyc in
            (unmatched + length (sq_unmatched s),
             if \<not> sq_ok s then fails @ [F_Seq c (length (sq_unmatched s))] else fails,
             out @ seq_lines cyc c s))
       (sort (map fst by_core)) (0, [], [])"

text \<open>\<open>if args.x: load_addr_file(args.x)\<close>: an empty path counts as not given.\<close>

definition load_opt :: "'b reader_env \<Rightarrow> string option \<Rightarrow> exn + int list option" where
  "load_opt env path =
     (case path of
        None \<Rightarrow> Inr None
      | Some p \<Rightarrow> if p = [] then Inr None
          else (case re_text env p of
                  None \<Rightarrow> Inl (Exn OSError ''open'' [AS p])
                | Some ls \<Rightarrow> (case load_addr_file p ls of Inl e \<Rightarrow> Inl e | Inr as \<Rightarrow> Inr (Some as))))"

definition reader_report :: "'b reader_env \<Rightarrow> reader_args \<Rightarrow> stream_result \<Rightarrow> drain_stats option \<Rightarrow>
    exn + (int \<times> out_line list)" where
  "reader_report env args res stats =
     (case select_cores args (split_by_core (sr_records res)) of
        Inl e \<Rightarrow> Inl e
      | Inr (by_core, view) \<Rightarrow>
     (case integrity_part res of (fails1, out1) \<Rightarrow>
     (case (if a_ts_mode args \<noteq> ''off''
            then ts_part (a_ts_mode args) by_core (sort (map fst by_core)) (0, fails1, out1)
            else Inr (0, fails1, out1)) of
        Inl e \<Rightarrow> Inl e
      | Inr (wr, fails2, out2) \<Rightarrow>
     (case load_opt env (a_wp_set args) of
        Inl e \<Rightarrow> Inl e
      | Inr wps \<Rightarrow>
     (case (case wps of None \<Rightarrow> (0, [], []) | Some ws \<Rightarrow> member_part ws view) of (misses, fails3, out3) \<Rightarrow>
     (case load_opt env (a_expected args) of
        Inl e \<Rightarrow> Inl e
      | Inr exps \<Rightarrow>
     (case (case exps of None \<Rightarrow> (0, [], []) | Some es \<Rightarrow> seq_part es (a_cycle args) by_core) of
        (unmatched, fails4, out4) \<Rightarrow>
      let fails = fails2 @ fails3 @ fails4;
          counts = O_Counts [n_records res, n_valid res, n_invalid res, sr_n_malformed_words res,
                             sr_n_malformed_bytes res] wr misses unmatched
                     (sort (map fst by_core)) (a_ts_mode args);
          out = out2 @ out3 @ out4 @ (if a_raw args then map O_Record view else [])
                @ (case stats of None \<Rightarrow> [] | Some d \<Rightarrow> [O_Fifo d]) @ [counts]
      in if fails \<noteq> [] then Inr (1, out @ [O_Fail fails]) else Inr (0, out @ [O_Pass]))))))))"

definition reader_run :: "'b reader_env \<Rightarrow> reader_args \<Rightarrow>
    'b \<Rightarrow> (exn + (int \<times> out_line list) option) \<times> 'b" where
  "reader_run env args b =
     (case acquire_words env args b of
        (Inl e, b') \<Rightarrow> (Inl e, b')
      | (Inr None, b') \<Rightarrow> (Inr None, b')
      | (Inr (Some (data, stats)), b') \<Rightarrow>
        ((case reader_report env args
                 (case data of In_Bytes bs \<Rightarrow> parse_bytes bs | In_Words ws \<Rightarrow> parse_words ws) stats of
            Inl e \<Rightarrow> Inl e | Inr x \<Rightarrow> Inr (Some x)), b'))"

section \<open>The verdict\<close>

lemma integrity_Nil:
  "fst (integrity_part res) = [] \<longleftrightarrow>
     (\<forall>r\<in>set (sr_records res). r_valid r) \<and> sr_n_malformed_words res = 0 \<and> sr_n_malformed_bytes res = 0"
proof -
  have "n_invalid res = 0 \<longleftrightarrow> (\<forall>r\<in>set (sr_records res). r_valid r)"
  proof
    assume "n_invalid res = 0"
    then have "\<not> length (filter r_valid (sr_records res)) < length (sr_records res)"
      by (simp add: n_invalid_def n_records_def n_valid_def)
    then show "\<forall>r\<in>set (sr_records res). r_valid r"
      by (metis length_filter_less)
  qed (simp add: n_invalid_def n_records_def n_valid_def)
  then show ?thesis by (auto simp: integrity_part_def)
qed

lemma core_stream_self: "core_stream c (core_stream k rs) = (if c = k then core_stream k rs else [])"
  by (induction rs) auto

lemma split_by_core_or: "dict_get_or (split_by_core rs) c [] = core_stream c rs"
  using split_by_core_lookup [of rs c] by (simp add: dict_get_or_def dict_get_def core_stream_def)

lemma split_by_core_keys: "c \<in> fst ` set (split_by_core rs) \<longleftrightarrow> core_stream c rs \<noteq> []"
proof -
  have "map_of (split_by_core rs) c = None \<longleftrightarrow> core_stream c rs = []"
    using split_by_core_lookup [of rs c] by (simp add: dict_get_def core_stream_def)
  then show ?thesis by (metis map_of_eq_None_iff)
qed

definition ts_good :: "string \<Rightarrow> wp_record list \<Rightarrow> bool" where
  "ts_good mode rs \<longleftrightarrow> successively (\<lambda>r s. ts_forward mode (r_ts r) (r_ts s)) rs"

lemma check_ts_stream:
  assumes "mode = ''strict'' \<or> mode = ''wrap''"
  shows "\<exists>t. check_ts_monotonic (core_stream c rs) mode = Inr t \<and>
    (tr_ok t \<longleftrightarrow> ts_good mode (core_stream c rs))"
proof -
  have "check_ts_monotonic (core_stream c rs) mode
      = Inr (fst (fold (ts_step mode) (core_stream c rs) (ts_result0, [])))"
    using assms by (auto simp: check_ts_monotonic_def TS_MODES_def)
  moreover have "tr_ok (fst (fold (ts_step mode) (core_stream c rs) (ts_result0, [])))
      \<longleftrightarrow> ts_good mode (core_stream c rs)"
    by (auto simp: ts_fold_ok ts_good_def core_stream_self)
  ultimately show ?thesis by blast
qed

lemma ts_part_fails:
  assumes "mode = ''strict'' \<or> mode = ''wrap''"
  shows "\<exists>wr' fails' out'. ts_part mode (split_by_core rs) cs (wr, fails, out) = Inr (wr', fails', out')
    \<and> (fails' = [] \<longleftrightarrow> fails = [] \<and> (\<forall>c\<in>set cs. ts_good mode (core_stream c rs)))"
proof (induction cs arbitrary: wr fails out)
  case (Cons c cs)
  from check_ts_stream [OF assms, of c rs] obtain t where
    t: "check_ts_monotonic (core_stream c rs) mode = Inr t" "tr_ok t \<longleftrightarrow> ts_good mode (core_stream c rs)"
    by blast
  then show ?case
    using Cons.IH [of "wr + wraps t" "if \<not> tr_ok t then fails @ [F_Ts c (length (tr_violations t))] else fails"
        "if \<not> tr_ok t then out @ map O_Ts_Fail (tr_violations t) else out"]
    by (auto simp: split_by_core_or)
qed simp

lemma member_part_fails:
  "fst (snd (member_part ws view)) = [] \<longleftrightarrow> (\<forall>r\<in>set view. r_valid r \<longrightarrow> r_pc r \<in> set ws)"
  by (auto simp: member_part_def check_pc_membership_fold Let_def)

lemma seq_part_fails:
  "fst (snd (seq_part es False (split_by_core rs))) = [] \<longleftrightarrow>
     (\<forall>c\<in>fst ` set (split_by_core rs). subseq (map r_pc (core_stream c rs)) es)"
proof -
  have v: "filter r_valid (core_stream c rs) = core_stream c rs" for c
    by (auto simp: core_stream_def intro: filter_cong)
  have "fst (snd (fold (\<lambda>c (unmatched, fails, out).
            let s = check_sequence (dict_get_or (split_by_core rs) c []) es False in
            (unmatched + length (sq_unmatched s),
             if \<not> sq_ok s then fails @ [F_Seq c (length (sq_unmatched s))] else fails,
             out @ seq_lines False c s)) cs (n, fails, out))) = [] \<longleftrightarrow>
     fails = [] \<and> (\<forall>c\<in>set cs. subseq (map r_pc (core_stream c rs)) es)" for cs n fails out
    by (induction cs arbitrary: n fails out)
       (auto simp: Let_def check_sequence_ok split_by_core_or v)
  then show ?thesis by (simp add: seq_part_def)
qed

lemma merge_split_set: "set (merge_streams (split_by_core rs)) = set (filter r_valid rs)"
proof -
  have m: "set_mset (mset (merge_streams (split_by_core rs)))
      = (\<Union>(c, qs)\<in>set (split_by_core rs). set (filter r_valid qs))"
    unfolding merge_streams_mset [OF split_by_core_distinct] by auto
  have "(c, qs) \<in> set (split_by_core rs) \<longleftrightarrow> qs = core_stream c rs \<and> core_stream c rs \<noteq> []" for c qs
  proof -
    have "map_of (split_by_core rs) c = (if core_stream c rs = [] then None else Some (core_stream c rs))"
      using split_by_core_lookup [of rs c] by (simp add: dict_get_def core_stream_def)
    moreover have "map_of (split_by_core rs) c = Some qs \<longleftrightarrow> (c, qs) \<in> set (split_by_core rs)"
      using split_by_core_distinct by (rule map_of_eq_Some_iff)
    ultimately show ?thesis by (auto split: if_splits)
  qed
  then have "set (split_by_core rs) = (\<lambda>c. (c, core_stream c rs)) ` {c. core_stream c rs \<noteq> []}"
    by (auto simp: image_iff)
  then have "(\<Union>(c, qs)\<in>set (split_by_core rs). set (filter r_valid qs))
      = (\<Union>c\<in>{c. core_stream c rs \<noteq> []}. set (filter r_valid (core_stream c rs)))"
    by simp
  also have "\<dots> = (\<Union>c. set (filter r_valid (core_stream c rs)))"
    by auto (metis empty_iff list.set(1))
  also have "\<dots> = set (filter r_valid rs)" by (auto simp: core_stream_def)
  finally show ?thesis using m by simp
qed

text \<open>The reader's verdict over all cores: exit code 0 (and the PASS line) exactly when no
  record is invalid, nothing of the stream is left over, and every enabled check holds of the
  records themselves: time stamps move forward per core in the chosen mode, all PCs are in the
  watchpoint set, and each core's PCs are a subsequence of the expected ones.\<close>

lemma reader_verdict:
  assumes "a_core args = ''merge''" "a_ts_mode args \<in> set TS_MODES" "\<not> a_cycle args"
    and "load_opt env (a_wp_set args) = Inr W" "load_opt env (a_expected args) = Inr E"
  shows "\<exists>code out. reader_report env args res stats = Inr (code, out) \<and> code \<in> {0, 1}
    \<and> (code = 0 \<longleftrightarrow> last out = O_Pass)
    \<and> (code = 0 \<longleftrightarrow>
        (\<forall>r\<in>set (sr_records res). r_valid r) \<and> sr_n_malformed_words res = 0 \<and> sr_n_malformed_bytes res = 0
        \<and> (a_ts_mode args \<noteq> ''off'' \<longrightarrow> (\<forall>c. ts_good (a_ts_mode args) (core_stream c (sr_records res))))
        \<and> (\<forall>ws. W = Some ws \<longrightarrow> (\<forall>r\<in>set (sr_records res). r_pc r \<in> set ws))
        \<and> (\<forall>es. E = Some es \<longrightarrow> (\<forall>c. subseq (map r_pc (core_stream c (sr_records res))) es)))"
proof -
  let ?rs = "sr_records res" and ?mode = "a_ts_mode args"
  let ?bc = "split_by_core ?rs"
  obtain fails1 out1 where i: "integrity_part res = (fails1, out1)" by fastforce
  obtain wr fails2 out2 where t: "(if ?mode \<noteq> ''off''
        then ts_part ?mode ?bc (sort (map fst ?bc)) (0, fails1, out1) else Inr (0, fails1, out1))
        = Inr (wr, fails2, out2)"
      "fails2 = [] \<longleftrightarrow> fails1 = [] \<and> (?mode \<noteq> ''off'' \<longrightarrow> (\<forall>c\<in>fst ` set ?bc. ts_good ?mode (core_stream c ?rs)))"
  proof (cases "?mode = ''off''")
    case False
    with assms(2) have "?mode = ''strict'' \<or> ?mode = ''wrap''" by (simp add: TS_MODES_def)
    from ts_part_fails [OF this, of ?rs "sort (map fst ?bc)" 0 fails1 out1]
    obtain wr' fails' out' where
      "ts_part ?mode ?bc (sort (map fst ?bc)) (0, fails1, out1) = Inr (wr', fails', out')"
      "fails' = [] \<longleftrightarrow> fails1 = [] \<and> (\<forall>c\<in>set (sort (map fst ?bc)). ts_good ?mode (core_stream c ?rs))"
      by blast
    with False show ?thesis by (intro that [of wr' fails' out']) simp_all
  qed simp
  obtain mi fails3 out3 where m: "(case W of None \<Rightarrow> (0, [], []) | Some ws \<Rightarrow> member_part ws (merge_streams ?bc))
        = (mi, fails3, out3)" by (metis surj_pair)
  then have m': "fails3 = [] \<longleftrightarrow> (\<forall>ws. W = Some ws \<longrightarrow> (\<forall>r\<in>set ?rs. r_valid r \<longrightarrow> r_pc r \<in> set ws))"
    using member_part_fails [of "the W" "merge_streams ?bc"]
    by (cases W) (auto simp: merge_split_set)
  obtain un fails4 out4 where q: "(case E of None \<Rightarrow> (0, [], []) | Some es \<Rightarrow> seq_part es (a_cycle args) ?bc)
        = (un, fails4, out4)" by (metis surj_pair)
  then have q': "fails4 = [] \<longleftrightarrow> (\<forall>es. E = Some es \<longrightarrow> (\<forall>c\<in>fst ` set ?bc. subseq (map r_pc (core_stream c ?rs)) es))"
    using seq_part_fails [of "the E" ?rs] assms(3) by (cases E) auto
  have r: "select_cores args ?bc = Inr (?bc, merge_streams ?bc)"
    using assms(1) by (simp add: select_cores_def)
  have f1: "fails1 = [] \<longleftrightarrow> (\<forall>r\<in>set ?rs. r_valid r) \<and> sr_n_malformed_words res = 0 \<and> sr_n_malformed_bytes res = 0"
    using integrity_Nil [of res] i by simp
  have all: "(\<forall>c\<in>fst ` set ?bc. P (core_stream c ?rs)) \<longleftrightarrow> (\<forall>c. P (core_stream c ?rs))" if "P []" for P
    using that split_by_core_keys [of _ ?rs] by metis
  have a1: "(\<forall>c\<in>fst ` set ?bc. ts_good ?mode (core_stream c ?rs)) \<longleftrightarrow> (\<forall>c. ts_good ?mode (core_stream c ?rs))"
    by (rule all) (simp add: ts_good_def)
  have a2: "(\<forall>c\<in>fst ` set ?bc. subseq (map r_pc (core_stream c ?rs)) es)
      \<longleftrightarrow> (\<forall>c. subseq (map r_pc (core_stream c ?rs)) es)" for es
    by (rule all) simp
  have "fails2 @ fails3 @ fails4 = [] \<longleftrightarrow>
        (\<forall>r\<in>set ?rs. r_valid r) \<and> sr_n_malformed_words res = 0 \<and> sr_n_malformed_bytes res = 0
        \<and> (?mode \<noteq> ''off'' \<longrightarrow> (\<forall>c. ts_good ?mode (core_stream c ?rs)))
        \<and> (\<forall>ws. W = Some ws \<longrightarrow> (\<forall>r\<in>set ?rs. r_pc r \<in> set ws))
        \<and> (\<forall>es. E = Some es \<longrightarrow> (\<forall>c. subseq (map r_pc (core_stream c ?rs)) es))"
    using t(2) m' q' f1 unfolding a1 a2 append_is_Nil_conv by blast
  then show ?thesis
    unfolding reader_report_def r i prod.case sum.case t(1) assms(4,5) m q Let_def
    by (cases "fails2 @ fails3 @ fails4 = []") (simp_all del: append_is_Nil_conv)
qed

text \<open>A quiet environment and a plain argument set.\<close>

definition no_env :: "unit reader_env" where
  "no_env = \<lparr> re_bytes = (\<lambda>_. None), re_text = (\<lambda>_. None),
     re_bus = (\<lambda>_. \<lparr> bus_r1 = (\<lambda>_. ret 0), bus_write = (\<lambda>_ _. ret ()) \<rparr>),
     re_poll = \<lparr> pe_stop = None, pe_sleep = (\<lambda>_. ret ()), pe_clock = ret 0 \<rparr>,
     re_inner = 1, re_fuel = 1 \<rparr>"

definition plain_args :: reader_args where
  "plain_args = \<lparr> a_source = ''file'', a_infile = Some ''w.bin'', a_base = None, a_reset = False,
     a_wp_set = None, a_expected = None, a_cycle = False, a_ts_mode = ''wrap'', a_core = ''merge'',
     a_raw = False, a_max_records = 0, a_poll_ms = None, a_duration_s = None \<rparr>"

lemma reader_verdict_witness:
  "\<exists>out. reader_report no_env plain_args (parse_words [4, 7, 0x42, 0x3FFF11]) None = Inr (0, out)
     \<and> last out = O_Pass"
proof -
  have p: "sr_records (parse_words [4, 7, 0x42, 0x3FFF11]) = [mk_record 0 4 7 0x42 0x3FFF11]"
    "sr_n_malformed_words (parse_words [4, 7, 0x42, 0x3FFF11]) = 0"
    "sr_n_malformed_bytes (parse_words [4, 7, 0x42, 0x3FFF11]) = 0"
    "r_valid (mk_record 0 4 7 0x42 0x3FFF11)"
    by code_simp+
  have l: "load_opt no_env (a_wp_set plain_args) = Inr None" "load_opt no_env (a_expected plain_args) = Inr None"
    by (simp_all add: load_opt_def plain_args_def)
  from reader_verdict [OF _ _ _ l, of "parse_words [4, 7, 0x42, 0x3FFF11]" None] show ?thesis
    by (fastforce simp: p plain_args_def TS_MODES_def ts_good_def)
qed

end
