(* ===== verification/Wp_Indirect.thy ===== *)
theory Wp_Indirect
  imports Fifo_MM
begin

unbundle bit_operations_syntax

text \<open>
  The indirect watchpoint loader of \<open>tools/axis_wp_host/wp_load_indirect.py\<close>: the command word, the
  table load with its wrap proof, the serial-readback check of a slot, and both in one go. The
  locale \<open>ind_port\<close> is the register contract the module documents; it is interpreted on the
  module's own reference model \<open>FakeIndirectBus\<close>.
\<close>

datatype ind_reg = IND_IDX | IND_DATA_LO | IND_DATA_HI | IND_READ_LO | IND_READ_HI | IND_CAP

fun WP_IND_OFFSETS :: "ind_reg \<Rightarrow> int" where
  "WP_IND_OFFSETS IND_IDX = 0x400C" | "WP_IND_OFFSETS IND_DATA_LO = 0x4010"
| "WP_IND_OFFSETS IND_DATA_HI = 0x4014" | "WP_IND_OFFSETS IND_READ_LO = 0x4018"
| "WP_IND_OFFSETS IND_READ_HI = 0x401C" | "WP_IND_OFFSETS IND_CAP = 0x4020"

definition CMD_DAQ_PC_AXIS :: int where "CMD_DAQ_PC_AXIS = 0x41"
definition CMD_NONE :: int where "CMD_NONE = 0x00"

definition cmd_word :: "int \<Rightarrow> int \<Rightarrow> int" where
  "cmd_word addr slot =
     (if addr AND 1 \<noteq> 0 then CMD_NONE else CMD_DAQ_PC_AXIS) OR push_bit 8 (slot AND 0xFFFFFF)"

definition ind_offsets :: "(ind_reg \<Rightarrow> int option) \<Rightarrow> ind_reg \<Rightarrow> int" where
  "ind_offsets offsets r = (case offsets r of Some a \<Rightarrow> a | None \<Rightarrow> WP_IND_OFFSETS r)"

text \<open>\<open>WpLoadError\<close> is a \<open>RuntimeError\<close>; the arguments are the register values of its text.\<close>

definition wp_load_error :: "string \<Rightarrow> int list \<Rightarrow> exn" where
  "wp_load_error t xs = Exn RuntimeError t (map AI xs)"

definition read_cap :: "'b mm_bus \<Rightarrow> (ind_reg \<Rightarrow> int) \<Rightarrow> ('b, int) act" where
  "read_cap bus reg = bnd (bus_r1 bus (reg IND_CAP)) (\<lambda>v. ret (v AND 0xFFFF))"

definition read_idx :: "'b mm_bus \<Rightarrow> (ind_reg \<Rightarrow> int) \<Rightarrow> ('b, int) act" where
  "read_idx bus reg = bnd (bus_r1 bus (reg IND_IDX)) (\<lambda>v. ret (v AND 0xFFFF))"

definition commit_slot :: "'b mm_bus \<Rightarrow> (ind_reg \<Rightarrow> int) \<Rightarrow> int \<times> int \<Rightarrow> ('b, unit) act" where
  "commit_slot bus reg = (\<lambda>(addr, cmd).
     andthen (bus_write bus (reg IND_DATA_LO) addr) (bus_write bus (reg IND_DATA_HI) cmd))"

definition load_table :: "'b mm_bus \<Rightarrow> (ind_reg \<Rightarrow> int) \<Rightarrow> (int \<times> int) list \<Rightarrow> ('b, unit) act" where
  "load_table bus reg table =
     bnd (read_cap bus reg) (\<lambda>cap.
     if cap \<noteq> int (length table) then raise (wp_load_error ''trWpCap != table length'' [cap, int (length table)])
     else andthen (bus_write bus (reg IND_IDX) 0)
         (andthen (for_each table (commit_slot bus reg))
         (bnd (read_idx bus reg) (\<lambda>idx.
            if idx \<noteq> 0 then raise (wp_load_error ''Idx != 0 after commits'' [idx, int (length table)])
            else ret ()))))"

definition verify_slot :: "'b mm_bus \<Rightarrow> (ind_reg \<Rightarrow> int) \<Rightarrow> int \<Rightarrow> int \<Rightarrow> int \<Rightarrow> int \<Rightarrow> ('b, unit) act" where
  "verify_slot bus reg slot exp_addr exp_cmd n_slots =
     andthen (bus_write bus (reg IND_IDX) slot)
     (bnd (bus_r1 bus (reg IND_READ_LO)) (\<lambda>lo.
      if lo \<noteq> exp_addr then raise (wp_load_error ''Slot: ReadLow'' [slot, lo, exp_addr])
      else bnd (read_idx bus reg) (\<lambda>idx.
      if idx \<noteq> slot then raise (wp_load_error ''Slot: Idx moved after ReadLow'' [slot, idx])
      else bnd (bus_r1 bus (reg IND_READ_HI)) (\<lambda>hi.
      if hi \<noteq> exp_cmd then raise (wp_load_error ''Slot: ReadHigh'' [slot, hi, exp_cmd])
      else let exp_next = (if slot = n_slots - 1 then 0 else slot + 1) in
      bnd (read_idx bus reg) (\<lambda>idx2.
      if idx2 \<noteq> exp_next then raise (wp_load_error ''Slot: Idx after ReadHigh'' [slot, idx2, exp_next])
      else ret ())))))"

text \<open>A probe outside the table is the \<open>IndexError\<close> of \<open>table[s]\<close> (probes are non-negative).\<close>

definition load_and_verify :: "'b mm_bus \<Rightarrow> (ind_reg \<Rightarrow> int) \<Rightarrow> (int \<times> int) list \<Rightarrow> nat list \<Rightarrow> ('b, unit) act" where
  "load_and_verify bus reg table probe_slots =
     andthen (load_table bus reg table)
       (for_each probe_slots (\<lambda>s.
          if s < length table
          then verify_slot bus reg (int s) (fst (table ! s)) (snd (table ! s)) (int (length table))
          else raise (Exn IndexError ''list index out of range'' [])))"

section \<open>The reference model of the contract\<close>

record fake_ind =
  fi_n :: int
  fi_idx :: int
  fi_lo :: int
  fi_hi :: int
  fi_mem :: "int \<Rightarrow> (int \<times> int) option"

definition mk_fake_ind :: "int \<Rightarrow> fake_ind" where
  "mk_fake_ind n = \<lparr> fi_n = n, fi_idx = 0, fi_lo = 0, fi_hi = 0, fi_mem = (\<lambda>_. None) \<rparr>"

definition fi_advance :: "fake_ind \<Rightarrow> fake_ind" where
  "fi_advance b = b\<lparr>fi_idx := (if fi_idx b = fi_n b - 1 then 0 else fi_idx b + 1)\<rparr>"

definition fi_slot :: "fake_ind \<Rightarrow> int \<Rightarrow> int \<times> int" where
  "fi_slot b i = (case fi_mem b i of Some p \<Rightarrow> p | None \<Rightarrow> (0, 0))"

definition fi_r1 :: "int \<Rightarrow> (fake_ind, int) act" where
  "fi_r1 off b =
     (if off = WP_IND_OFFSETS IND_IDX then (Inr (fi_idx b), b)
      else if off = WP_IND_OFFSETS IND_READ_LO then (Inr (fst (fi_slot b (fi_idx b))), b)
      else if off = WP_IND_OFFSETS IND_READ_HI then (Inr (snd (fi_slot b (fi_idx b))), fi_advance b)
      else if off = WP_IND_OFFSETS IND_CAP then (Inr (fi_n b), b)
      else (Inl (Exn AssertionError ''read @'' [AI off]), b))"

definition fi_write :: "int \<Rightarrow> int \<Rightarrow> (fake_ind, unit) act" where
  "fi_write off val b =
     (if off = WP_IND_OFFSETS IND_IDX then (Inr (), b\<lparr>fi_idx := val AND 0xFFFF\<rparr>)
      else if off = WP_IND_OFFSETS IND_DATA_LO then (Inr (), b\<lparr>fi_lo := val\<rparr>)
      else if off = WP_IND_OFFSETS IND_DATA_HI then
        (Inr (), fi_advance (b\<lparr>fi_hi := val, fi_mem := (fi_mem b)(fi_idx b \<mapsto> (fi_lo b, val))\<rparr>))
      else (Inl (Exn AssertionError ''write @'' [AI off]), b))"

definition fake_ind_bus :: "fake_ind mm_bus" where
  "fake_ind_bus = \<lparr> bus_r1 = fi_r1, bus_write = fi_write \<rparr>"

section \<open>The register contract\<close>

record ind_view =
  iv_n :: int
  iv_idx :: int
  iv_lo :: int
  iv_mem :: "int \<Rightarrow> int \<times> int"

definition iv_next :: "ind_view \<Rightarrow> int" where
  "iv_next v = (if iv_idx v = iv_n v - 1 then 0 else iv_idx v + 1)"

lemma and_FFFF: "(w :: int) AND 0xFFFF = w mod 65536"
  using and_ones [of w 16] by simp

locale ind_port =
  fixes bus :: "'b mm_bus" and reg :: "ind_reg \<Rightarrow> int" and view :: "'b \<Rightarrow> ind_view"
  assumes idx_law: "\<exists>b'. bus_r1 bus (reg IND_IDX) b = (Inr (iv_idx (view b)), b') \<and> view b' = view b"
    and cap_law: "\<exists>b'. bus_r1 bus (reg IND_CAP) b = (Inr (iv_n (view b)), b') \<and> view b' = view b"
    and lo_law: "\<exists>b'. bus_r1 bus (reg IND_READ_LO) b
                   = (Inr (fst (iv_mem (view b) (iv_idx (view b)))), b') \<and> view b' = view b"
    and hi_law: "\<exists>b'. bus_r1 bus (reg IND_READ_HI) b
                   = (Inr (snd (iv_mem (view b) (iv_idx (view b)))), b')
                   \<and> view b' = (view b)\<lparr>iv_idx := iv_next (view b)\<rparr>"
    and set_idx_law: "\<exists>b'. bus_write bus (reg IND_IDX) i b = (Inr (), b')
                   \<and> view b' = (view b)\<lparr>iv_idx := i AND 0xFFFF\<rparr>"
    and set_lo_law: "\<exists>b'. bus_write bus (reg IND_DATA_LO) x b = (Inr (), b')
                   \<and> view b' = (view b)\<lparr>iv_lo := x\<rparr>"
    and commit_law: "\<exists>b'. bus_write bus (reg IND_DATA_HI) x b = (Inr (), b')
                   \<and> view b' = (view b)\<lparr>iv_idx := iv_next (view b),
                        iv_mem := (iv_mem (view b))(iv_idx (view b) := (iv_lo (view b), x))\<rparr>"
begin

lemma read_idx_ok:
  "\<exists>b'. read_idx bus reg b = (Inr (iv_idx (view b) mod 65536), b') \<and> view b' = view b"
  using idx_law [of b] by (auto simp: read_idx_def bnd_def and_FFFF)

lemma read_cap_ok:
  "\<exists>b'. read_cap bus reg b = (Inr (iv_n (view b) mod 65536), b') \<and> view b' = view b"
  using cap_law [of b] by (auto simp: read_cap_def bnd_def and_FFFF)

lemma commit_ok:
  "\<exists>b'. commit_slot bus reg p b = (Inr (), b') \<and> iv_n (view b') = iv_n (view b)
     \<and> iv_idx (view b') = iv_next (view b) \<and> iv_mem (view b') = (iv_mem (view b))(iv_idx (view b) := p)"
proof -
  obtain b1 where b1: "bus_write bus (reg IND_DATA_LO) (fst p) b = (Inr (), b1)"
      "view b1 = (view b)\<lparr>iv_lo := fst p\<rparr>"
    using set_lo_law by blast
  obtain b2 where "bus_write bus (reg IND_DATA_HI) (snd p) b1 = (Inr (), b2)"
      "view b2 = (view b1)\<lparr>iv_idx := iv_next (view b1),
          iv_mem := (iv_mem (view b1))(iv_idx (view b1) := (iv_lo (view b1), snd p))\<rparr>"
    using commit_law by blast
  with b1 show ?thesis
    by (auto simp: commit_slot_def andthen_def bnd_def iv_next_def split: prod.splits)
qed

lemma commit_all:
  assumes "iv_n (view b) = int (k + length ps)" "iv_idx (view b) = int k" "ps \<noteq> []"
  shows "\<exists>b'. for_each ps (commit_slot bus reg) b = (Inr (), b')
     \<and> iv_n (view b') = iv_n (view b) \<and> iv_idx (view b') = 0
     \<and> (\<forall>i. iv_mem (view b') i = (if int k \<le> i \<and> i < int (k + length ps) then ps ! nat (i - int k)
                                 else iv_mem (view b) i))"
  using assms
proof (induction ps arbitrary: b k)
  case (Cons p ps)
  obtain b1 where b1: "commit_slot bus reg p b = (Inr (), b1)" "iv_n (view b1) = iv_n (view b)"
      "iv_idx (view b1) = iv_next (view b)" "iv_mem (view b1) = (iv_mem (view b))(int k := p)"
    using commit_ok [of p b] Cons.prems by auto
  show ?case
  proof (cases "ps = []")
    case True
    with b1 Cons.prems show ?thesis by (auto simp: andthen_def bnd_def iv_next_def)
  next
    case False
    then have i: "iv_idx (view b1) = int (k + 1)" "iv_n (view b1) = int (k + 1 + length ps)"
      using b1 Cons.prems by (auto simp: iv_next_def)
    obtain b2 where b2: "for_each ps (commit_slot bus reg) b1 = (Inr (), b2)"
        "iv_n (view b2) = iv_n (view b1)" "iv_idx (view b2) = 0"
        "\<forall>i. iv_mem (view b2) i = (if int (k + 1) \<le> i \<and> i < int (k + 1 + length ps)
              then ps ! nat (i - int (k + 1)) else iv_mem (view b1) i)"
      using Cons.IH [OF i(2) i(1) False] by blast
    have "iv_mem (view b2) i = (if int k \<le> i \<and> i < int (k + length (p # ps))
              then (p # ps) ! nat (i - int k) else iv_mem (view b) i)" for i
    proof (cases "i = int k")
      case True
      then show ?thesis using b2(4) b1(4) by simp
    next
      case False
      then have "int k \<le> i \<Longrightarrow> nat (i - int k) = Suc (nat (i - int (k + 1)))" by linarith
      with False show ?thesis using b2(4) b1(4) by auto
    qed
    with b1 b2 show ?thesis by (auto simp: andthen_def bnd_def)
  qed
qed simp

lemma load_table_stores:
  assumes "iv_n (view b) = int (length table)" "table \<noteq> []" "length table < 65536"
  shows "\<exists>b'. load_table bus reg table b = (Inr (), b') \<and> iv_n (view b') = iv_n (view b)
     \<and> iv_idx (view b') = 0 \<and> (\<forall>i<length table. iv_mem (view b') (int i) = table ! i)"
proof -
  obtain b1 where b1: "read_cap bus reg b = (Inr (int (length table)), b1)" "view b1 = view b"
    using read_cap_ok [of b] assms by auto
  obtain b2 where b2: "bus_write bus (reg IND_IDX) 0 b1 = (Inr (), b2)"
      "view b2 = (view b1)\<lparr>iv_idx := 0\<rparr>"
    using set_idx_law [of 0 b1] by auto
  obtain b3 where b3: "for_each table (commit_slot bus reg) b2 = (Inr (), b3)"
      "iv_n (view b3) = iv_n (view b)" "iv_idx (view b3) = 0"
      "\<forall>i<length table. iv_mem (view b3) (int i) = table ! i"
    using commit_all [of b2 0 table] b1 b2 assms by auto
  obtain b4 where b4: "read_idx bus reg b3 = (Inr 0, b4)" "view b4 = view b3"
    using read_idx_ok [of b3] b3 by auto
  from b1 b2 b3 b4 show ?thesis by (auto simp: load_table_def andthen_def bnd_def)
qed

lemma load_table_cap:
  assumes "iv_n (view b) mod 65536 \<noteq> int (length table)"
  shows "\<exists>e b'. load_table bus reg table b = (Inl e, b') \<and> view b' = view b"
  using read_cap_ok [of b] assms by (auto simp: load_table_def bnd_def)

text \<open>The readback check is exact on the slot it looks at.\<close>

lemma verify_slot_exact:
  assumes "0 \<le> slot" "slot < iv_n (view b)" "iv_n (view b) < 65536"
  shows "\<exists>r b'. verify_slot bus reg slot a c (iv_n (view b)) b = (r, b')
     \<and> iv_mem (view b') = iv_mem (view b) \<and> iv_n (view b') = iv_n (view b)
     \<and> (r = Inr () \<longleftrightarrow> iv_mem (view b) slot = (a, c))"
proof -
  have s: "slot mod 65536 = slot" using assms by simp
  obtain b1 where b1: "bus_write bus (reg IND_IDX) slot b = (Inr (), b1)"
      "view b1 = (view b)\<lparr>iv_idx := slot\<rparr>"
    using set_idx_law [of slot b] by (auto simp: and_FFFF s)
  obtain b2 where b2: "bus_r1 bus (reg IND_READ_LO) b1 = (Inr (fst (iv_mem (view b) slot)), b2)"
      "view b2 = view b1"
    using lo_law [of b1] b1 by auto
  obtain b3 where b3: "read_idx bus reg b2 = (Inr slot, b3)" "view b3 = view b1"
    using read_idx_ok [of b2] b1 b2 s by auto
  obtain b4 where b4: "bus_r1 bus (reg IND_READ_HI) b3 = (Inr (snd (iv_mem (view b) slot)), b4)"
      "view b4 = (view b)\<lparr>iv_idx := (if slot = iv_n (view b) - 1 then 0 else slot + 1)\<rparr>"
    using hi_law [of b3] b1 b3 by (auto simp: iv_next_def)
  have "(if slot = iv_n (view b) - 1 then 0 else slot + 1) mod 65536
      = (if slot = iv_n (view b) - 1 then 0 else slot + 1)"
    using assms by auto
  then obtain b5 where b5: "read_idx bus reg b4
        = (Inr (if slot = iv_n (view b) - 1 then 0 else slot + 1), b5)" "view b5 = view b4"
    using read_idx_ok [of b4] b4 by auto
  from b1 b2 b3 b4 b5 show ?thesis
    by (cases "iv_mem (view b) slot")
       (auto simp: verify_slot_def andthen_def bnd_def Let_def)
qed

lemma verify_all:
  assumes "\<forall>s\<in>set ss. s < length table" "iv_n (view b) = int (length table)" "length table < 65536"
    and "\<forall>i<length table. iv_mem (view b) (int i) = table ! i"
  shows "\<exists>b'. for_each ss (\<lambda>s. if s < length table
          then verify_slot bus reg (int s) (fst (table ! s)) (snd (table ! s)) (int (length table))
          else raise (Exn IndexError ''list index out of range'' [])) b = (Inr (), b')
      \<and> iv_mem (view b') = iv_mem (view b)"
  using assms
proof (induction ss arbitrary: b)
  case (Cons s ss)
  obtain b1 where "verify_slot bus reg (int s) (fst (table ! s)) (snd (table ! s)) (int (length table)) b
        = (Inr (), b1)" "iv_mem (view b1) = iv_mem (view b)" "iv_n (view b1) = iv_n (view b)"
    using verify_slot_exact [of "int s" b "fst (table ! s)" "snd (table ! s)"] Cons.prems by auto
  with Cons.IH [of b1] Cons.prems show ?case by (simp add: andthen_def bnd_def)
qed simp

lemma load_and_verify_ok:
  assumes "iv_n (view b) = int (length table)" "table \<noteq> []" "length table < 65536"
    and "\<forall>s\<in>set ss. s < length table"
  shows "\<exists>b'. load_and_verify bus reg table ss b = (Inr (), b')
     \<and> (\<forall>i<length table. iv_mem (view b') (int i) = table ! i)"
proof -
  obtain b1 where b1: "load_table bus reg table b = (Inr (), b1)" "iv_n (view b1) = iv_n (view b)"
      "\<forall>i<length table. iv_mem (view b1) (int i) = table ! i"
    using load_table_stores [OF assms(1-3)] by blast
  with verify_all [of ss table b1] assms show ?thesis
    by (auto simp: load_and_verify_def andthen_def bnd_def)
qed

end

section \<open>The contract on the reference model\<close>

definition fi_view :: "fake_ind \<Rightarrow> ind_view" where
  "fi_view b = \<lparr> iv_n = fi_n b, iv_idx = fi_idx b, iv_lo = fi_lo b, iv_mem = fi_slot b \<rparr>"

lemma fi_slot_update:
  "fi_slot (b\<lparr>fi_hi := x, fi_mem := (fi_mem b)(i \<mapsto> p)\<rparr>) = (fi_slot b)(i := p)"
  by (auto simp: fi_slot_def fun_eq_iff)

lemma fi_slot_fields [simp]:
  "fi_slot (b\<lparr>fi_idx := i\<rparr>) = fi_slot b" "fi_slot (b\<lparr>fi_lo := x\<rparr>) = fi_slot b"
  by (auto simp: fi_slot_def fun_eq_iff)

interpretation ind: ind_port fake_ind_bus WP_IND_OFFSETS fi_view
  by unfold_locales
     (auto simp: fake_ind_bus_def fi_r1_def fi_write_def fi_view_def fi_advance_def iv_next_def
       fi_slot_update)

text \<open>Loading a full table (its length is the capacity, below \<open>2^16\<close>) and probing any of its
  slots succeeds from any state of the port, and every slot then holds its entry.\<close>

lemma load_and_verify_stores:
  assumes "fi_n b = int (length table)" "table \<noteq> []" "length table < 65536"
    and "\<forall>s\<in>set probes. s < length table"
  shows "\<exists>b'. load_and_verify fake_ind_bus WP_IND_OFFSETS table probes b = (Inr (), b')
     \<and> (\<forall>i<length table. fi_slot b' (int i) = table ! i)"
  using ind.load_and_verify_ok [of b table probes] assms by (simp add: fi_view_def)

lemma load_and_verify_stores_witness:
  "\<exists>b'. load_and_verify fake_ind_bus WP_IND_OFFSETS [(0x1000, cmd_word 0x1000 0), (0x1005, cmd_word 0x1005 1)]
          [0, 1] (mk_fake_ind 2) = (Inr (), b')
     \<and> fi_slot b' 0 = (0x1000, cmd_word 0x1000 0) \<and> fi_slot b' 1 = (0x1005, cmd_word 0x1005 1)"
  using load_and_verify_stores [of "mk_fake_ind 2"
      "[(0x1000, cmd_word 0x1000 0), (0x1005, cmd_word 0x1005 1)]" "[0, 1]"]
  by (auto simp: mk_fake_ind_def numeral_2_eq_2 All_less_Suc)

text \<open>The readback check of a slot passes exactly when the slot holds the expected address and
  command word, and it changes no slot.\<close>

lemma verify_slot_iff:
  assumes "0 \<le> slot" "slot < fi_n b" "fi_n b < 65536"
  shows "(fst (verify_slot fake_ind_bus WP_IND_OFFSETS slot a c (fi_n b) b) = Inr ()
            \<longleftrightarrow> fi_slot b slot = (a, c))
    \<and> fi_slot (snd (verify_slot fake_ind_bus WP_IND_OFFSETS slot a c (fi_n b) b)) = fi_slot b"
  using ind.verify_slot_exact [of slot b a c] assms by (auto simp: fi_view_def)

lemma verify_slot_iff_witness:
  "fst (verify_slot fake_ind_bus WP_IND_OFFSETS 1 4 0 3 (mk_fake_ind 3)) \<noteq> Inr ()
   \<and> fi_slot (snd (verify_slot fake_ind_bus WP_IND_OFFSETS 1 4 0 3 (mk_fake_ind 3))) = fi_slot (mk_fake_ind 3)"
  using verify_slot_iff [of 1 "mk_fake_ind 3" 4 0]
  by (simp add: mk_fake_ind_def fi_slot_def)

text \<open>The command word: real addresses are even, fillers odd; the slot is in the upper 24 bits.\<close>

lemma cmd_word_fields:
  assumes "0 \<le> slot" "slot < 16777216"
  shows "cmd_word addr slot div 256 = slot" "cmd_word addr slot mod 256 = (if odd addr then 0 else 0x41)"
proof -
  define low :: int where "low = (if odd addr then 0 else 0x41)"
  have "take_bit 8 low = low" by (simp add: low_def)
  then have b: "bit low i \<Longrightarrow> i < 8" for i by (metis bit_take_bit_iff)
  have "cmd_word addr slot = low OR push_bit 8 slot"
    using assms and_ones [of slot 24] by (simp add: cmd_word_def low_def CMD_NONE_def CMD_DAQ_PC_AXIS_def and_one_eq odd_iff_mod_2_eq_one)
  moreover have "low OR push_bit 8 slot = low + push_bit 8 slot"
    by (rule disjunctive_add [symmetric]) (auto simp: bit_push_bit_iff dest!: b)
  ultimately have c: "cmd_word addr slot = low + 256 * slot" by (simp add: push_bit_eq_mult)
  then show "cmd_word addr slot div 256 = slot" "cmd_word addr slot mod 256 = (if odd addr then 0 else 0x41)"
    by (auto simp: low_def)
qed

end
