(* ===== verification/Scenario.thy ===== *)
theory Scenario
  imports Py_Strings
begin

unbundle bit_operations_syntax

text \<open>
  The scenario model of \<open>examples/dashboard/scenario.py\<close>: register offsets, control bits, run
  masks of the cores, trace protocols, regions and their gate cores, and the catalogue with the
  active scenario. An entry of \<open>scenarios.json\<close> is the record \<open>scenario_doc\<close>, an optional key an
  option.
\<close>

section \<open>The data of an entry\<close>

datatype addr_doc = A_Int int | A_Str string

record region_doc =
  rg_base :: addr_doc
  rg_size :: int
  rg_label :: "string option"
  rg_gate_core :: "int option"

record core =
  c_id :: "int option"
  c_name :: "string option"
  c_enc :: "string option"
  c_run_bit :: "string option"
  c_run_bits :: "string list option"
  c_protocol :: "string option"

record variant =
  v_app :: "string option"
  v_enc_xlen :: "int option"

record target_doc =
  td_id :: int
  td_pcinfo :: "string option"
  td_live_pcinfo :: "string option"

record decode_doc =
  dd_srcbits :: "int option"
  dd_multi_target :: bool
  dd_targets :: "target_doc list option"

record console_doc =
  cd_bytes :: string
  cd_drops :: string
  cd_region :: string
  cd_size :: "int option"
  cd_rptr_reg :: "string option"
  cd_interactive :: bool

record demo_doc =
  dm_byte_rate :: "int option"
  dm_bpi :: bool

record scenario_doc =
  sd_id :: string
  sd_title :: string
  sd_app :: "string option"
  sd_app_variants :: "variant list option"
  sd_xlen :: "int option"
  sd_regions :: "(string, region_doc) dict"
  sd_ctrl :: "(string, int) dict option"
  sd_control_bits :: "(string, nat) dict option"
  sd_status_bits :: "(string, nat) dict option"
  sd_cores :: "core list option"
  sd_console :: "console_doc option"
  sd_ddr_sink :: bool
  sd_features :: "string list option"
  sd_decode :: "decode_doc option"
  sd_demo :: "demo_doc option"
  sd_sink_defaults :: "(string, bool) dict option"

text \<open>\<open>x or y\<close> on an optional string: \<open>None\<close> and the empty string are false.\<close>

definition or_str :: "string option \<Rightarrow> string \<Rightarrow> string" where
  "or_str x d = (case x of None \<Rightarrow> d | Some s \<Rightarrow> if s = [] then d else s)"

definition opt_or :: "'a option \<Rightarrow> 'a \<Rightarrow> 'a" where
  "opt_or x d = (case x of None \<Rightarrow> d | Some v \<Rightarrow> v)"

definition addr_of :: "addr_doc \<Rightarrow> exn + int" where
  "addr_of v = (case v of A_Int i \<Rightarrow> Inr i
     | A_Str s \<Rightarrow> (case py_int 0 s of Some i \<Rightarrow> Inr i
                   | None \<Rightarrow> Inl (Exn ValueError ''invalid literal for int()'' [AS s])))"

section \<open>Scenarios\<close>

record scenario =
  sc_raw :: scenario_doc
  sc_id :: string
  sc_app :: "string option"
  sc_variants :: "variant list"
  sc_apps :: "string list"
  sc_xlen :: int
  sc_regions :: "(string, int \<times> int) dict"
  sc_ctrl :: "(string, int) dict"
  sc_control_bits :: "(string, nat) dict"
  sc_status_bits :: "(string, nat) dict"
  sc_cores :: "core list"
  sc_features :: "string list"

fun regions_of :: "(string, region_doc) dict \<Rightarrow> exn + (string, int \<times> int) dict" where
  "regions_of [] = Inr []"
| "regions_of ((k, v) # rs) =
     (case addr_of (rg_base v) of Inl e \<Rightarrow> Inl e
      | Inr b \<Rightarrow> (case regions_of rs of Inl e \<Rightarrow> Inl e | Inr d \<Rightarrow> Inr ((k, (b, rg_size v)) # d)))"

definition truthy_str :: "string option \<Rightarrow> bool" where
  "truthy_str x \<longleftrightarrow> x \<noteq> None \<and> x \<noteq> Some []"

definition app_variants_of :: "scenario_doc \<Rightarrow> variant list" where
  "app_variants_of d =
     (case sd_app_variants d of
        Some (v # vs) \<Rightarrow> v # vs
      | _ \<Rightarrow> if truthy_str (sd_app d)
             then [\<lparr> v_app = sd_app d, v_enc_xlen = Some (opt_or (sd_xlen d) 32) \<rparr>] else [])"

definition mk_scenario :: "scenario_doc \<Rightarrow> exn + scenario" where
  "mk_scenario d =
     (case regions_of (sd_regions d) of
        Inl e \<Rightarrow> Inl e
      | Inr rs \<Rightarrow> Inr \<lparr>
          sc_raw = d, sc_id = sd_id d, sc_app = sd_app d,
          sc_variants = app_variants_of d,
          sc_apps = map (\<lambda>v. the (v_app v)) (filter (\<lambda>v. truthy_str (v_app v)) (app_variants_of d)),
          sc_xlen = opt_or (sd_xlen d) 32, sc_regions = rs,
          sc_ctrl = opt_or (sd_ctrl d) [], sc_control_bits = opt_or (sd_control_bits d) [],
          sc_status_bits = opt_or (sd_status_bits d) [], sc_cores = opt_or (sd_cores d) [],
          sc_features = opt_or (sd_features d) [] \<rparr>)"

definition co :: "scenario \<Rightarrow> string \<Rightarrow> int option" where
  "co sc name = dict_get (sc_ctrl sc) name"

definition cbit :: "scenario \<Rightarrow> string \<Rightarrow> int" where
  "cbit sc name = (case dict_get (sc_control_bits sc) name of None \<Rightarrow> 0 | Some b \<Rightarrow> push_bit b 1)"

definition has_feature :: "scenario \<Rightarrow> string \<Rightarrow> bool" where
  "has_feature sc f \<longleftrightarrow> f \<in> set (sc_features sc)"

definition core_run_bits :: "scenario \<Rightarrow> core \<Rightarrow> string list" where
  "core_run_bits sc c =
     filter (\<lambda>b. dict_get (sc_control_bits sc) b \<noteq> None)
       (case c_run_bits c of None \<Rightarrow> [or_str (c_run_bit c) ''core_run''] | Some rb \<Rightarrow> rb)"

definition core_run_mask :: "scenario \<Rightarrow> core \<Rightarrow> int" where
  "core_run_mask sc c = fold (\<lambda>b m. m OR cbit sc b) (core_run_bits sc c) 0"

definition core_protocol :: "core \<Rightarrow> string option" where
  "core_protocol c =
     (case c_protocol c of None \<Rightarrow> None
      | Some p \<Rightarrow> if strip p = [] then None else Some (lower (strip p)))"

text \<open>\<open>sorted({...})\<close> of strings: code point order, without duplicates.\<close>

fun str_less :: "string \<Rightarrow> string \<Rightarrow> bool" where
  "str_less [] ys \<longleftrightarrow> ys \<noteq> []"
| "str_less (x # xs) [] \<longleftrightarrow> False"
| "str_less (x # xs) (y # ys) \<longleftrightarrow> code_of x < code_of y \<or> x = y \<and> str_less xs ys"

fun insert_str :: "string \<Rightarrow> string list \<Rightarrow> string list" where
  "insert_str s [] = [s]"
| "insert_str s (t # ts) = (if s = t then t # ts else if str_less s t then s # t # ts else t # insert_str s ts)"

definition sorted_strs :: "string list \<Rightarrow> string list" where
  "sorted_strs xs = foldr insert_str xs []"

definition protocols :: "scenario \<Rightarrow> string list" where
  "protocols sc = sorted_strs (List.map_filter core_protocol (sc_cores sc))"

definition core_own_bit :: "scenario \<Rightarrow> core \<Rightarrow> int" where
  "core_own_bit sc c = cbit sc (or_str (c_run_bit c) [])"

definition core_running :: "scenario \<Rightarrow> int \<Rightarrow> core \<Rightarrow> bool" where
  "core_running sc ctrl c \<longleftrightarrow> core_run_mask sc c \<noteq> 0 \<and> ctrl AND core_run_mask sc c \<noteq> 0"

definition gate_core :: "scenario \<Rightarrow> string \<Rightarrow> core option" where
  "gate_core sc region =
     (case dict_get (sd_regions (sc_raw sc)) region of
        None \<Rightarrow> None
      | Some r \<Rightarrow> (case rg_gate_core r of None \<Rightarrow> None
          | Some gc \<Rightarrow> List.find (\<lambda>c. c_id c = Some gc) (sc_cores sc)))"

definition enc_regions :: "scenario \<Rightarrow> string list" where
  "enc_regions sc = List.map_filter (\<lambda>c. case c_enc c of None \<Rightarrow> None
     | Some e \<Rightarrow> if dict_get (sc_regions sc) e \<noteq> None then Some e else None) (sc_cores sc)"

definition interactive_console :: "scenario \<Rightarrow> bool" where
  "interactive_console sc \<longleftrightarrow>
     (case sd_console (sc_raw sc) of None \<Rightarrow> False | Some c \<Rightarrow> cd_interactive c)"

definition variant_of :: "scenario \<Rightarrow> string option \<Rightarrow> variant option" where
  "variant_of sc app = List.find (\<lambda>v. v_app v = app) (sc_variants sc)"

section \<open>The catalogue\<close>

record catalog =
  cat_order :: "string list"
  cat_by_id :: "(string, scenario) dict"
  cat_default :: string
  cat_active_id :: string

fun mk_scenarios :: "scenario_doc list \<Rightarrow> (string, scenario) dict \<Rightarrow> exn + (string, scenario) dict" where
  "mk_scenarios [] d = Inr d"
| "mk_scenarios (s # ss) d =
     (case mk_scenario s of Inl e \<Rightarrow> Inl e | Inr sc \<Rightarrow> mk_scenarios ss (dict_set (sd_id s) sc d))"

definition mk_catalog :: "scenario_doc list \<Rightarrow> string option \<Rightarrow> exn + catalog" where
  "mk_catalog docs dflt =
     (case mk_scenarios docs [] of
        Inl e \<Rightarrow> Inl e
      | Inr d \<Rightarrow>
        (if truthy_str dflt \<or> docs \<noteq> [] then
           let x = (if truthy_str dflt then the dflt else sd_id (hd docs)) in
           Inr \<lparr> cat_order = map sd_id docs, cat_by_id = d, cat_default = x, cat_active_id = x \<rparr>
         else Inl (Exn IndexError ''list index out of range'' [])))"

definition cat_active :: "catalog \<Rightarrow> exn + scenario" where
  "cat_active cat = (case dict_get (cat_by_id cat) (cat_active_id cat) of
     Some sc \<Rightarrow> Inr sc | None \<Rightarrow> Inl (Exn KeyError '''' [AS (cat_active_id cat)]))"

definition cat_select :: "string \<Rightarrow> (catalog, scenario) act" where
  "cat_select sid cat =
     (case dict_get (cat_by_id cat) sid of
        None \<Rightarrow> (Inl (Exn ValueError ''unknown scenario'' (AS sid # map AS (cat_order cat))), cat)
      | Some sc \<Rightarrow> (Inr sc, cat\<lparr>cat_active_id := sid\<rparr>))"

definition by_id_apps :: "catalog \<Rightarrow> string set" where
  "by_id_apps cat = \<Union> (set (map (\<lambda>(_, s). set (sc_apps s)) (cat_by_id cat)))"

definition by_app :: "catalog \<Rightarrow> string option \<Rightarrow> scenario option" where
  "by_app cat app =
     (case app of None \<Rightarrow> None
      | Some a \<Rightarrow> if a = [] then None
          else List.find (\<lambda>s. a \<in> set (sc_apps s))
                 (List.map_filter (\<lambda>i. dict_get (cat_by_id cat) i) (cat_order cat)))"

section \<open>Run masks\<close>

lemma bit_cbit [bit_facts]: "bit (cbit sc name) i \<longleftrightarrow> dict_get (sc_control_bits sc) name = Some i"
  by (auto simp: cbit_def push_bit_eq_mult bit_exp_iff split: option.splits)

lemma fold_or_bit:
  "bit (fold (\<lambda>b m. m OR f b) bs (m0 :: int)) i \<longleftrightarrow> bit m0 i \<or> (\<exists>b\<in>set bs. bit (f b) i)"
  by (induction bs arbitrary: m0) (auto simp: bit_or_iff)

lemma bit_core_run_mask:
  "bit (core_run_mask sc c) i \<longleftrightarrow>
     (\<exists>b\<in>set (core_run_bits sc c). dict_get (sc_control_bits sc) b = Some i)"
  by (simp add: core_run_mask_def fold_or_bit bit_cbit)

lemma int_nonzero_bit: "(x :: int) \<noteq> 0 \<longleftrightarrow> (\<exists>i. bit x i)"
  by (metis bit_0_eq bit_eqI bot_apply bot_boolE)

lemma and_zero_iff: "(x :: int) AND y = 0 \<longleftrightarrow> (\<forall>i. \<not> (bit x i \<and> bit y i))"
  using int_nonzero_bit [of "x AND y"] by (auto simp: bit_and_iff)

lemma and_bit_zero: "(x :: int) AND 2 ^ k = 0 \<longleftrightarrow> \<not> bit x k"
  by (auto simp: and_zero_iff bit_exp_iff)

lemma core_running_iff:
  "core_running sc ctrl c \<longleftrightarrow> (\<exists>i. bit ctrl i \<and> bit (core_run_mask sc c) i)"
  by (auto simp: core_running_def int_nonzero_bit bit_and_iff)

text \<open>A core runs exactly when one of its named release bits is set in CONTROL.\<close>

lemma core_running_bits:
  "core_running sc ctrl c \<longleftrightarrow>
     (\<exists>b\<in>set (core_run_bits sc c). \<exists>i. dict_get (sc_control_bits sc) b = Some i \<and> bit ctrl i)"
  by (auto simp: core_running_iff bit_core_run_mask)

section \<open>Protocols and the catalogue\<close>

lemma set_insert_str [simp]: "set (insert_str s ts) = insert s (set ts)"
  by (induction ts) auto

lemma set_sorted_strs [simp]: "set (sorted_strs xs) = set xs"
  by (induction xs) (auto simp: sorted_strs_def)

lemma str_less_irrefl [simp]: "\<not> str_less s s"
  by (induction s) auto

lemma code_of_inj: "code_of x = code_of y \<longleftrightarrow> x = y"
  by (simp add: code_of_def)

lemma str_less_trans: "str_less a b \<Longrightarrow> str_less b c \<Longrightarrow> str_less a c"
proof (induction a b arbitrary: c rule: str_less.induct)
  case (1 ys)
  then show ?case by (cases c; cases ys) auto
next
  case (3 x xs y ys)
  then show ?case by (cases c) auto
qed auto

lemma str_less_linear: "str_less a b \<or> a = b \<or> str_less b a"
proof (induction a b rule: str_less.induct)
  case (3 x xs y ys)
  then show ?case using code_of_inj [of x y] by auto
qed auto

lemma sorted_insert_str: "sorted_wrt str_less ts \<Longrightarrow> sorted_wrt str_less (insert_str s ts)"
proof (induction ts)
  case (Cons t ts)
  then show ?case using str_less_linear [of s t] str_less_trans by auto
qed simp

lemma sorted_sorted_strs: "sorted_wrt str_less (sorted_strs xs)"
  by (induction xs) (auto simp: sorted_strs_def sorted_insert_str)

lemma set_protocols: "set (protocols sc) = {p. \<exists>c\<in>set (sc_cores sc). core_protocol c = Some p}"
  by (force simp: protocols_def map_filter_def)

lemma sorted_distinct: "sorted_wrt str_less xs \<Longrightarrow> distinct xs"
  by (induction xs) auto

text \<open>Fewer than two protocols: all declaring cores agree.\<close>

lemma protocols_less_2:
  "length (protocols sc) < 2 \<longleftrightarrow>
     (\<forall>c\<in>set (sc_cores sc). \<forall>d\<in>set (sc_cores sc). \<forall>p q.
        core_protocol c = Some p \<longrightarrow> core_protocol d = Some q \<longrightarrow> p = q)"
proof -
  have "distinct (protocols sc)"
    unfolding protocols_def by (rule sorted_distinct [OF sorted_sorted_strs])
  then have "length (protocols sc) = card (set (protocols sc))"
    by (simp add: distinct_card)
  also have "\<dots> < 2 \<longleftrightarrow> (\<forall>p\<in>set (protocols sc). \<forall>q\<in>set (protocols sc). p = q)"
    using card_le_Suc0_iff_eq [of "set (protocols sc)"] by auto
  finally show ?thesis unfolding set_protocols by blast
qed

end
