(* ===== verification/Dash_Bus.thy ===== *)
theory Dash_Bus
  imports Py_Bytes Scenario
begin

unbundle bit_operations_syntax

text \<open>
  What the dashboard server (\<open>examples/dashboard/server.py\<close>) relies on everywhere: word access into
  a \<open>bytearray\<close> (\<open>struct.unpack_from\<close>/\<open>pack_into\<close> with their bounds), the bus operations over named
  regions, and the register map with its field attributes (the data of \<open>regmap.json\<close>).
\<close>

section \<open>Words in a byte array\<close>

definition struct_error :: exn where
  "struct_error = Exn StructError ''buffer'' []"

text \<open>The position of \<open>n\<close> bytes at an offset; a negative offset counts from the end.\<close>

definition buf_pos :: "'a list \<Rightarrow> int \<Rightarrow> nat \<Rightarrow> nat option" where
  "buf_pos bs off n =
     (let o' = (if off < 0 then off + int (length bs) else off) in
      if 0 \<le> o' \<and> o' + int n \<le> int (length bs) then Some (nat o') else None)"

definition get32 :: "byte list \<Rightarrow> int \<Rightarrow> exn + int" where
  "get32 bs off = (case buf_pos bs off 4 of None \<Rightarrow> Inl struct_error
     | Some p \<Rightarrow> Inr (le_int (take 4 (drop p bs))))"

definition get32s :: "byte list \<Rightarrow> int \<Rightarrow> nat \<Rightarrow> exn + int list" where
  "get32s bs off n = (case buf_pos bs off (4 * n) of None \<Rightarrow> Inl struct_error
     | Some p \<Rightarrow> Inr (unpack_words (take (4 * n) (drop p bs))))"

definition put_bytes :: "byte list \<Rightarrow> nat \<Rightarrow> byte list \<Rightarrow> byte list" where
  "put_bytes bs p xs = take p bs @ xs @ drop (p + length xs) bs"

definition put32 :: "byte list \<Rightarrow> int \<Rightarrow> int \<Rightarrow> exn + byte list" where
  "put32 bs off v = (case buf_pos bs off 4 of None \<Rightarrow> Inl struct_error
     | Some p \<Rightarrow> if is_u32 v then Inr (put_bytes bs p (pack_word v)) else Inl struct_error)"

section \<open>The bus\<close>

record 'b dash_bus =
  db_read :: "string \<Rightarrow> int \<Rightarrow> nat \<Rightarrow> ('b, int list) act"
  db_write :: "string \<Rightarrow> int \<Rightarrow> int \<Rightarrow> ('b, unit) act"
  db_write_block :: "string \<Rightarrow> int \<Rightarrow> byte list \<Rightarrow> ('b, unit) act"
  db_demo :: bool

text \<open>\<open>bus.read(region, off)[0]\<close>.\<close>

definition read1 :: "'b dash_bus \<Rightarrow> string \<Rightarrow> int \<Rightarrow> ('b, int) act" where
  "read1 bus region off = bnd (db_read bus region off 1)
     (\<lambda>ws. case ws of w # _ \<Rightarrow> ret w | [] \<Rightarrow> raise (Exn IndexError ''list index out of range'' []))"

section \<open>The register map\<close>

record field_desc =
  fd_name :: string
  fd_msb :: nat
  fd_lsb :: nat
  fd_sw :: string
  fd_hw :: string
  fd_gated :: bool
  fd_pulse :: bool
  fd_w1c :: bool
  fd_reset :: int

record reg_desc =
  rd_region :: string
  rd_offset :: int
  rd_path :: string
  rd_fields :: "field_desc list"

type_synonym regmap = "reg_desc list"

definition ENC_REGIONS :: "string list" where
  "ENC_REGIONS = [''enc'', ''enc1'', ''enc2'']"

text \<open>\<open>{(r["region"], r["offset"]): r for r in regs}\<close>: the last entry of a key counts.\<close>

definition reg_index :: "regmap \<Rightarrow> (string \<times> int, reg_desc) dict" where
  "reg_index rm = fold (\<lambda>r d. dict_set (rd_region r, rd_offset r) r d) rm []"

definition reg_at :: "regmap \<Rightarrow> string \<Rightarrow> int \<Rightarrow> reg_desc option" where
  "reg_at rm region off =
     dict_get (reg_index rm) (if region \<in> set ENC_REGIONS then ''enc'' else region, off)"

text \<open>\<open>((1 << (msb - lsb + 1)) - 1) << lsb\<close>.\<close>

definition field_width :: "field_desc \<Rightarrow> nat" where
  "field_width f = fd_msb f + 1 - fd_lsb f"

definition field_bits :: "field_desc \<Rightarrow> int" where
  "field_bits f = push_bit (fd_lsb f) (push_bit (field_width f) 1 - 1)"

definition sw_writable :: "field_desc \<Rightarrow> bool" where
  "sw_writable f \<longleftrightarrow> CHR ''w'' \<in> set (fd_sw f)"

definition w1c_mask :: "regmap \<Rightarrow> string \<Rightarrow> int \<Rightarrow> int" where
  "w1c_mask rm region off =
     (case reg_at rm region off of
        None \<Rightarrow> 0
      | Some r \<Rightarrow> fold (\<lambda>f m. if fd_w1c f then m OR field_bits f else m) (rd_fields r) 0)"

definition rmw_value :: "regmap \<Rightarrow> string \<Rightarrow> int \<Rightarrow> int \<Rightarrow> int" where
  "rmw_value rm region off value = (value AND NOT (w1c_mask rm region off)) AND 0xFFFFFFFF"

section \<open>Facts\<close>

lemma buf_pos_nonneg: "buf_pos bs (int k) n = (if k + n \<le> length bs then Some k else None)"
  by (auto simp: buf_pos_def Let_def)

lemma buf_pos_cong: "length bs' = length bs \<Longrightarrow> buf_pos bs' off n = buf_pos bs off n"
  by (simp add: buf_pos_def)

lemma length_put_bytes [simp]:
  "p + length xs \<le> length bs \<Longrightarrow> length (put_bytes bs p xs) = length bs"
  by (simp add: put_bytes_def)

lemma take_drop_put_same:
  "p + length xs \<le> length bs \<Longrightarrow> take (length xs) (drop p (put_bytes bs p xs)) = xs"
  by (simp add: put_bytes_def)

lemma take_drop_put_other:
  assumes "p + length xs \<le> length bs" "q + k \<le> p \<or> p + length xs \<le> q"
  shows "take k (drop q (put_bytes bs p xs)) = take k (drop q bs)"
proof (rule nth_equalityI)
  show l: "length (take k (drop q (put_bytes bs p xs))) = length (take k (drop q bs))"
    using assms(1) by simp
  fix i assume "i < length (take k (drop q (put_bytes bs p xs)))"
  then have "i < length (take k (drop q bs))" by (simp only: l)
  then have i: "i < k" "q + i < length bs" by auto
  have "put_bytes bs p xs ! (q + i) = bs ! (q + i)"
    using assms i by (auto simp: put_bytes_def nth_append)
  with i assms show "take k (drop q (put_bytes bs p xs)) ! i = take k (drop q bs) ! i" by simp
qed

text \<open>A word written is the word read back, and other words are untouched.\<close>

lemma get32_put32_same:
  "put32 bs off v = Inr bs' \<Longrightarrow> get32 bs' off = Inr v \<and> length bs' = length bs"
proof -
  assume "put32 bs off v = Inr bs'"
  then obtain p where p: "buf_pos bs off 4 = Some p" "is_u32 v" "bs' = put_bytes bs p (pack_word v)"
    by (auto simp: put32_def split: option.splits if_splits)
  then have b: "p + length (pack_word v) \<le> length bs"
    by (auto simp: buf_pos_def Let_def split: if_splits)
  then have "length bs' = length bs" by (simp add: p del: length_pack_word)
  moreover have "buf_pos bs' off 4 = Some p" using p(1) buf_pos_cong [OF calculation] by simp
  ultimately show ?thesis
    using take_drop_put_same [OF b] p by (simp add: get32_def le_int_pack_word)
qed

lemma get32_put32_other:
  assumes "put32 bs (int k) v = Inr bs'" "j + 4 \<le> k \<or> k + 4 \<le> j"
  shows "get32 bs' (int j) = get32 bs (int j)"
proof -
  have k: "k + length (pack_word v) \<le> length bs" "bs' = put_bytes bs k (pack_word v)"
    using assms(1) by (auto simp: put32_def buf_pos_nonneg split: if_splits)
  then show ?thesis
    using take_drop_put_other [OF k(1), of j 4] assms(2)
    by (simp add: get32_def buf_pos_nonneg del: length_pack_word) simp
qed

lemma put32_ok: "k + 4 \<le> length bs \<Longrightarrow> is_u32 v \<Longrightarrow> \<exists>bs'. put32 bs (int k) v = Inr bs'"
  by (simp add: put32_def buf_pos_nonneg)

lemma get32_u32: "get32 bs off = Inr v \<Longrightarrow> is_u32 v"
proof -
  assume "get32 bs off = Inr v"
  then obtain p where "v = le_int (take 4 (drop p bs))" by (auto simp: get32_def split: option.splits)
  moreover have "(256 :: int) ^ length (take 4 (drop p bs)) \<le> 256 ^ 4" by (rule power_increasing) auto
  ultimately show "is_u32 v"
    using le_int_bounds [of "take 4 (drop p bs)"] by (simp add: is_u32_def)
qed

lemma get32s_1: "get32s bs off 1 = (case get32 bs off of Inl e \<Rightarrow> Inl e | Inr w \<Rightarrow> Inr [w])"
proof (cases "buf_pos bs off 4")
  case (Some p)
  then have "length (take 4 (drop p bs)) = 4"
    by (auto simp: buf_pos_def Let_def split: if_splits)
  then have "unpack_words (take 4 (drop p bs)) = [le_int (take 4 (drop p bs))]"
    using unpack_words_append4 [of "take 4 (drop p bs)" "[]"] by simp
  with Some show ?thesis by (simp add: get32s_def get32_def)
qed (simp add: get32s_def get32_def)

text \<open>Fields as sets of bits.\<close>

lemma bit_ones: "bit (push_bit n 1 - 1 :: int) i \<longleftrightarrow> i < n"
  by (simp add: push_bit_eq_mult bit_mask_iff flip: mask_eq_exp_minus_1)

lemma bit_field_bits [bit_facts]: "bit (field_bits f) i \<longleftrightarrow> fd_lsb f \<le> i \<and> i < fd_lsb f + field_width f"
  unfolding field_bits_def bit_push_bit_iff_int bit_ones by auto

lemma fold_or_if_bit:
  "bit (fold (\<lambda>f m. if P f then m OR g f else m) fs (m0 :: int)) i \<longleftrightarrow>
     bit m0 i \<or> (\<exists>f\<in>set fs. P f \<and> bit (g f) i)"
  by (induction fs arbitrary: m0) (auto simp: bit_or_iff)

lemma bit_w1c_mask:
  "bit (w1c_mask rm region off) i \<longleftrightarrow>
     (\<exists>r. reg_at rm region off = Some r \<and> (\<exists>f\<in>set (rd_fields r). fd_w1c f \<and> bit (field_bits f) i))"
  by (auto simp: w1c_mask_def fold_or_if_bit split: option.splits)

lemma bit_mask32: "bit (0xFFFFFFFF :: int) i \<longleftrightarrow> i < 32"
  using bit_ones [of 32 i] by simp

lemma bit_rmw_value:
  "bit (rmw_value rm region off v) i \<longleftrightarrow> i < 32 \<and> bit v i \<and> \<not> bit (w1c_mask rm region off) i"
  by (auto simp: rmw_value_def bit_and_iff bit_not_iff bit_mask32)

end
