(* ===== verification/Reg_Access.thy ===== *)
theory Reg_Access
  imports Dash_Bus
begin

unbundle bit_operations_syntax

text \<open>
  The access rules of the dashboard server in front of every register access: the enable gate of
  the encoder registers, the read-back comparison, the discovery check of the bitstream, the
  read-only trace window, the memory window of a running core, the interlock of the trace
  protocols. A refusal is a value of \<open>refusal\<close>, one constructor per message, with the values
  formatted into it.
\<close>

definition TE_ACTIVE :: int where "TE_ACTIVE = 1"
definition TE_ENABLE :: int where "TE_ENABLE = 2"
definition TE_ITRACE :: int where "TE_ITRACE = 4"

datatype refusal =
    R_Enable_Locked string int string "string list" int
  | R_Window_Read_Only int string
  | R_Core_Running string string int nat
  | R_Collective_Start "string list"
  | R_Mixed_Protocols string string "(string \<times> string) list"

section \<open>The enable gate\<close>

definition write_gate_reason :: "'b dash_bus \<Rightarrow> regmap \<Rightarrow> string \<Rightarrow> int \<Rightarrow> ('b, refusal option) act" where
  "write_gate_reason bus rm region off =
     (if region \<notin> set ENC_REGIONS then ret None
      else case reg_at rm region off of
        None \<Rightarrow> ret None
      | Some r \<Rightarrow>
        let wr = filter sw_writable (rd_fields r);
            gated = map fd_name (filter fd_gated wr) in
        if gated = [] \<or> length gated \<noteq> length wr then ret None
        else bnd (read1 bus region 0) (\<lambda>te.
          if te AND TE_ENABLE = 0 then ret None
          else ret (Some (R_Enable_Locked region off (rd_path r) gated te))))"

section \<open>Read-back comparison\<close>

definition field_checked :: "field_desc \<Rightarrow> bool" where
  "field_checked f \<longleftrightarrow> sw_writable f \<and> \<not> (fd_pulse f \<or> fd_w1c f) \<and> fd_hw f = ''r''"

definition readback_mask :: "reg_desc \<Rightarrow> int" where
  "readback_mask r =
     (fold (\<lambda>f m. if field_checked f then m OR field_bits f else m) (rd_fields r) 0) AND 0xFFFFFFFF"

text \<open>A reported field: its name, the value written, the value read.\<close>

definition readback_diff :: "reg_desc \<Rightarrow> int \<Rightarrow> int \<Rightarrow> (string \<times> int \<times> int) list" where
  "readback_diff r want got =
     (let m = readback_mask r in
      if (want XOR got) AND m = 0 then []
      else List.map_filter (\<lambda>f.
        let w = push_bit (field_width f) 1 - 1; bits = push_bit (fd_lsb f) w in
        if bits AND m = 0 then None
        else if (want XOR got) AND bits \<noteq> 0
          then Some (fd_name f, drop_bit (fd_lsb f) want AND w, drop_bit (fd_lsb f) got AND w)
        else None) (rd_fields r))"

section \<open>Discovery of the build\<close>

definition DISCOVERY_PATHS :: "string list" where
  "DISCOVERY_PATHS = [''ct_cs_cpuif.trWpCap'', ''ct_cs_cpuif.pc.trTeConstants'']"

record expect =
  ex_offset :: int
  ex_word :: int
  ex_fields :: "(string, int) dict"

definition discovery_expect :: "regmap \<Rightarrow> (string, expect) dict" where
  "discovery_expect rm =
     fold (\<lambda>r out. if rd_path r \<notin> set DISCOVERY_PATHS then out
             else dict_set (rd_path r)
                    \<lparr> ex_offset = rd_offset r,
                      ex_word = fold (\<lambda>f w. w OR push_bit (fd_lsb f) (fd_reset f)) (rd_fields r) 0,
                      ex_fields = fold (\<lambda>f d. dict_set (fd_name f) (fd_reset f) d) (rd_fields r) [] \<rparr> out)
       rm []"

datatype mismatch = M_Unreadable string exn | M_Field string string int int

record disc_reg =
  dr_offset :: int
  dr_value :: int
  dr_expect :: int
  dr_fields :: "(string, int) dict"

record discovery =
  di_region :: string
  di_regs :: "(string, disc_reg) dict"
  di_mismatch :: "mismatch list"
  di_ok :: bool
  di_wp_slots :: int

definition disc_fields :: "string \<Rightarrow> expect \<Rightarrow> field_desc list \<Rightarrow> int \<Rightarrow> discovery \<Rightarrow> (string, int) dict \<times> discovery" where
  "disc_fields path ex fs got out =
     fold (\<lambda>f (d, out).
       let v = drop_bit (fd_lsb f) got AND (push_bit (field_width f) 1 - 1);
           e = dict_get_or (ex_fields ex) (fd_name f) 0 in
       (dict_set (fd_name f) v d,
        if v \<noteq> e then out\<lparr>di_ok := False, di_mismatch := di_mismatch out @ [M_Field path (fd_name f) v e]\<rparr>
        else out)) fs ([], out)"

definition disc_step :: "'b dash_bus \<Rightarrow> regmap \<Rightarrow> string \<Rightarrow> discovery \<Rightarrow> string \<times> expect \<Rightarrow> ('b, discovery) act" where
  "disc_step bus rm region out = (\<lambda>(path, ex).
     handle
       (bnd (read1 bus region (ex_offset ex)) (\<lambda>got.
          let fs = (case dict_get (reg_index rm) (''enc'', ex_offset ex) of None \<Rightarrow> [] | Some r \<Rightarrow> rd_fields r);
              (d, out') = disc_fields path ex fs got out in
          ret (out'\<lparr>di_regs := dict_set path
                 \<lparr> dr_offset = ex_offset ex, dr_value = got, dr_expect = ex_word ex, dr_fields = d \<rparr>
                 (di_regs out')\<rparr>)))
       (\<lambda>e. ret (out\<lparr>di_ok := False, di_mismatch := di_mismatch out @ [M_Unreadable path e]\<rparr>)))"

fun disc_loop :: "'b dash_bus \<Rightarrow> regmap \<Rightarrow> string \<Rightarrow> (string \<times> expect) list \<Rightarrow> discovery \<Rightarrow> ('b, discovery) act" where
  "disc_loop bus rm region [] out = ret out"
| "disc_loop bus rm region (p # ps) out = bnd (disc_step bus rm region out p) (disc_loop bus rm region ps)"

definition read_discovery :: "'b dash_bus \<Rightarrow> regmap \<Rightarrow> string \<Rightarrow> ('b, discovery) act" where
  "read_discovery bus rm region =
     bnd (disc_loop bus rm region (discovery_expect rm)
            \<lparr> di_region = region, di_regs = [], di_mismatch = [], di_ok = True, di_wp_slots = 0 \<rparr>)
       (\<lambda>out. ret (out\<lparr>di_wp_slots :=
          (case dict_get (di_regs out) ''ct_cs_cpuif.trWpCap'' of None \<Rightarrow> 0
           | Some d \<Rightarrow> dict_get_or (dr_fields d) ''Entries'' 0)\<rparr>))"

section \<open>The trace window, running cores, protocols\<close>

definition WINDOW_RO_KEYS :: "string list" where "WINDOW_RO_KEYS = [''ddr_base'', ''ddr_size'']"

definition WINDOW_RO_NAMES :: "(string, string) dict" where
  "WINDOW_RO_NAMES = [(''ddr_base'', ''soc.DDR_BASE''), (''ddr_size'', ''soc.DDR_SIZE'')]"

definition window_policy_reason :: "scenario \<Rightarrow> string \<Rightarrow> int \<Rightarrow> refusal option" where
  "window_policy_reason sc region off =
     (if region \<noteq> ''ctrl'' then None
      else case List.find (\<lambda>key. co sc key = Some off) WINDOW_RO_KEYS of
        None \<Rightarrow> None
      | Some key \<Rightarrow> Some (R_Window_Read_Only off (dict_get_or WINDOW_RO_NAMES key [])))"

definition core_label :: "core \<Rightarrow> string" where
  "core_label c = or_str (c_name c) ''core''"

definition region_hold_reason :: "'b dash_bus \<Rightarrow> scenario \<Rightarrow> string \<Rightarrow> ('b, refusal option) act" where
  "region_hold_reason bus sc region =
     (case gate_core sc region of
        None \<Rightarrow> ret None
      | Some c \<Rightarrow> (case co sc ''control'' of
          None \<Rightarrow> ret None
        | Some off \<Rightarrow> bnd (read1 bus ''ctrl'' off) (\<lambda>ctrl.
            if \<not> core_running sc ctrl c then ret None
            else ret (Some (R_Core_Running region (core_label c) ctrl
                   (dict_get_or (sc_control_bits sc) (or_str (c_run_bit c) ''core_run'') 0))))))"

text \<open>The cores of another protocol that run, for the core \<open>idx\<close>.\<close>

definition busy_cores :: "scenario \<Rightarrow> nat option \<Rightarrow> string option \<Rightarrow> int \<Rightarrow> (nat \<times> core) list" where
  "busy_cores sc idx mine ctrl =
     filter (\<lambda>(i, c). Some i \<noteq> idx \<and> core_protocol c \<noteq> None \<and> core_protocol c \<noteq> mine
                 \<and> core_running sc ctrl c) (List.enumerate 0 (sc_cores sc))"

definition protocol_lock_reason :: "'b dash_bus \<Rightarrow> scenario \<Rightarrow> nat option \<Rightarrow> ('b, refusal option) act" where
  "protocol_lock_reason bus sc idx =
     (let protos = protocols sc in
      if length protos < 2 then ret None
      else case co sc ''control'' of
        None \<Rightarrow> ret None
      | Some C \<Rightarrow>
        (case idx of
           None \<Rightarrow> bnd (read1 bus ''ctrl'' C) (\<lambda>_. ret (Some (R_Collective_Start protos)))
         | Some k \<Rightarrow>
            if length (sc_cores sc) \<le> k then raise (Exn IndexError ''list index out of range'' [])
            else (case core_protocol (sc_cores sc ! k) of
              None \<Rightarrow> ret None
            | Some mine \<Rightarrow> bnd (read1 bus ''ctrl'' C) (\<lambda>ctrl.
                let busy = busy_cores sc idx (Some mine) ctrl in
                if busy = [] then ret None
                else ret (Some (R_Mixed_Protocols (core_label (sc_cores sc ! k)) mine
                       (map (\<lambda>(i, c). (core_label c, the (core_protocol c))) busy)))))))"

section \<open>The gate is exact\<close>

lemma read1_ok: "db_read bus region off 1 s = (Inr (w # ws), t) \<Longrightarrow> read1 bus region off s = (Inr w, t)"
  by (simp add: read1_def bnd_def)

lemma write_gate_char:
  assumes "db_read bus region 0 1 s = (Inr [te], t)"
  shows "\<exists>res t'. write_gate_reason bus rm region off s = (Inr res, t') \<and>
    (res \<noteq> None \<longleftrightarrow> region \<in> set ENC_REGIONS \<and> bit te 1 \<and>
       (\<exists>r. reg_at rm region off = Some r \<and> (\<exists>f\<in>set (rd_fields r). sw_writable f)
          \<and> (\<forall>f\<in>set (rd_fields r). sw_writable f \<longrightarrow> fd_gated f)))"
proof -
  have te: "te AND TE_ENABLE = 0 \<longleftrightarrow> \<not> bit te 1"
    using and_bit_zero [of te 1] by (simp add: TE_ENABLE_def)
  have g: "length (filter (\<lambda>x. sw_writable x \<and> fd_gated x) fs) = length (filter sw_writable fs)
      \<longleftrightarrow> (\<forall>f\<in>set fs. sw_writable f \<longrightarrow> fd_gated f)" for fs
  proof
    assume "length (filter (\<lambda>x. sw_writable x \<and> fd_gated x) fs) = length (filter sw_writable fs)"
    then have "\<not> length (filter fd_gated (filter sw_writable fs)) < length (filter sw_writable fs)"
      by simp
    then show "\<forall>f\<in>set fs. sw_writable f \<longrightarrow> fd_gated f"
      using length_filter_less [of _ "filter sw_writable fs" fd_gated] by auto
  qed (auto intro!: arg_cong [where f = length] filter_cong)
  show ?thesis
    using assms te
    by (cases "reg_at rm region off")
       (auto simp: write_gate_reason_def Let_def bnd_def read1_def g filter_empty_conv)
qed

text \<open>The enable gate refuses a write exactly when no writable field of an encoder register
  could take it: the register is known, it has a writable field, every writable field is
  enable-locked, and the encoder of the region is enabled.\<close>

lemma write_gate_exact:
  assumes "db_read bus region 0 1 s = (Inr [te], t)"
  shows "\<exists>res t'. write_gate_reason bus rm region off s = (Inr res, t') \<and>
    (res \<noteq> None \<longleftrightarrow> region \<in> set ENC_REGIONS \<and> bit te 1 \<and>
       (\<exists>r. reg_at rm region off = Some r \<and> (\<exists>f\<in>set (rd_fields r). sw_writable f)
          \<and> (\<forall>f\<in>set (rd_fields r). sw_writable f \<longrightarrow> fd_gated f)))"
  using assms by (rule write_gate_char)

lemma write_gate_exact_witness:
  "\<exists>res t'. write_gate_reason \<lparr> db_read = (\<lambda>_ _ _. ret [7]), db_write = (\<lambda>_ _ _. ret ()),
       db_write_block = (\<lambda>_ _ _. ret ()), db_demo = True \<rparr>
     [\<lparr> rd_region = ''enc'', rd_offset = 8, rd_path = ''trTeInstFeatures'',
        rd_fields = [\<lparr> fd_name = ''SrcID'', fd_msb = 27, fd_lsb = 16, fd_sw = ''rw'', fd_hw = ''r'',
                       fd_gated = True, fd_pulse = False, fd_w1c = False, fd_reset = 0 \<rparr>] \<rparr>]
     ''enc1'' 8 () = (Inr res, t') \<and> res \<noteq> None"
proof -
  let ?f = "\<lparr> fd_name = ''SrcID'', fd_msb = 27, fd_lsb = 16, fd_sw = ''rw'', fd_hw = ''r'',
              fd_gated = True, fd_pulse = False, fd_w1c = False, fd_reset = 0 \<rparr>"
  let ?r = "\<lparr> rd_region = ''enc'', rd_offset = 8, rd_path = ''trTeInstFeatures'', rd_fields = [?f] \<rparr>"
  let ?bus = "\<lparr> db_read = (\<lambda>_ _ _. ret [7]), db_write = (\<lambda>_ _ _. ret ()),
       db_write_block = (\<lambda>_ _ _. ret ()), db_demo = True \<rparr> :: unit dash_bus"
  have r: "reg_at [?r] ''enc1'' 8 = Some ?r" by (simp add: reg_at_def reg_index_def ENC_REGIONS_def dict_get_def)
  have b: "bit (7 :: int) 1" by (simp add: bit_iff_odd)
  have "db_read ?bus ''enc1'' 0 1 () = (Inr [7], ())" by simp
  from write_gate_exact [OF this, of "[?r]" 8] r b show ?thesis
    by (auto simp: ENC_REGIONS_def sw_writable_def)
qed

section \<open>The comparison is exact\<close>

lemma bit_readback_mask:
  "bit (readback_mask r) i \<longleftrightarrow> i < 32 \<and> (\<exists>f\<in>set (rd_fields r). field_checked f \<and> bit (field_bits f) i)"
  by (auto simp: readback_mask_def bit_and_iff bit_mask32 fold_or_if_bit)

lemma map_filter_Nil: "List.map_filter g xs = [] \<longleftrightarrow> (\<forall>x\<in>set xs. g x = None)"
  by (induction xs) (auto simp: map_filter_simps split: option.splits)

lemma field_bits_alt: "push_bit (fd_lsb f) (2 ^ field_width f - 1) = field_bits f"
  by (simp add: field_bits_def push_bit_eq_mult)

lemma readback_diff_mask: "readback_diff r want got = [] \<longleftrightarrow> (want XOR got) AND readback_mask r = 0"
proof (cases "(want XOR got) AND readback_mask r = 0")
  case False
  then obtain i where i: "bit (want XOR got) i" "bit (readback_mask r) i"
    unfolding and_zero_iff by blast
  then obtain f where f: "f \<in> set (rd_fields r)" "bit (field_bits f) i"
    unfolding bit_readback_mask by blast
  have "field_bits f AND readback_mask r \<noteq> 0" "(want XOR got) AND field_bits f \<noteq> 0"
    using i f unfolding and_zero_iff by blast+
  with f(1) False show ?thesis
    by (auto simp: readback_diff_def Let_def map_filter_Nil field_bits_alt intro!: bexI [of _ f])
qed (simp add: readback_diff_def)

text \<open>The read-back comparison reports nothing exactly when every field that must carry the
  written value (writable, no pulse, no write-1-to-clear, not written by hardware) reads back bit
  for bit as written.\<close>

lemma readback_diff_exact:
  "readback_diff r want got = [] \<longleftrightarrow>
     (\<forall>f\<in>set (rd_fields r). field_checked f \<longrightarrow>
        (\<forall>i<32. bit (field_bits f) i \<longrightarrow> (bit want i \<longleftrightarrow> bit got i)))"
  unfolding readback_diff_mask and_zero_iff bit_readback_mask bit_xor_iff by blast

lemma readback_diff_exact_witness:
  "readback_diff \<lparr> rd_region = ''enc'', rd_offset = 8, rd_path = ''p'',
        rd_fields = [\<lparr> fd_name = ''a'', fd_msb = 3, fd_lsb = 0, fd_sw = ''rw'', fd_hw = ''r'',
                       fd_gated = False, fd_pulse = False, fd_w1c = False, fd_reset = 0 \<rparr>] \<rparr> 0x1A 0x2A = []"
proof -
  have "bit (0x1A :: int) i \<longleftrightarrow> bit (0x2A :: int) i" if "i < 4" for i
  proof -
    from that consider "i = 0" | "i = 1" | "i = 2" | "i = 3" by linarith
    then show ?thesis by cases (simp_all add: bit_iff_odd)
  qed
  then show ?thesis
    unfolding readback_diff_exact by (auto simp: bit_field_bits field_width_def)
qed

text \<open>The write-back value of a read-modify-write carries no write-1-to-clear bit, and is
  otherwise the low 32 bits of the value.\<close>

lemma rmw_value_safe:
  "rmw_value rm region off v AND w1c_mask rm region off = 0
   \<and> rmw_value rm region off v OR (u32 v AND w1c_mask rm region off) = u32 v"
proof
  show "rmw_value rm region off v AND w1c_mask rm region off = 0"
    unfolding and_zero_iff bit_rmw_value by blast
  show "rmw_value rm region off v OR (u32 v AND w1c_mask rm region off) = u32 v"
    by (rule bit_eqI) (auto simp: bit_or_iff bit_and_iff bit_rmw_value u32_def bit_mask32)
qed

section \<open>The memory window of a running core\<close>

lemma region_hold_exact:
  assumes "db_read bus ''ctrl'' off 1 s = (Inr [ctrl], t)" "co sc ''control'' = Some off"
  shows "\<exists>res t'. region_hold_reason bus sc region s = (Inr res, t') \<and>
    (res \<noteq> None \<longleftrightarrow> (\<exists>c. gate_core sc region = Some c \<and> core_running sc ctrl c))"
  using assms by (auto simp: region_hold_reason_def bnd_def read1_def split: option.splits)

lemma window_policy_exact:
  "window_policy_reason sc region off \<noteq> None \<longleftrightarrow>
     region = ''ctrl'' \<and> (co sc ''ddr_base'' = Some off \<or> co sc ''ddr_size'' = Some off)"
  by (auto simp: window_policy_reason_def WINDOW_RO_KEYS_def)

end
