(* ===== verification/Demo_Bus.thy ===== *)
theory Demo_Bus
  imports Reg_Access
begin

unbundle bit_operations_syntax

text \<open>
  The register simulation \<open>DemoBus\<close> of the dashboard server: region memories seeded from the reset
  values, the trace, DDR and console models, the periodic tick, and the two write rules of the
  hardware it imitates (enable-locked fields, write-1-to-clear bits). A tick takes its random draws
  and the retire counters (floating point in the source) as inputs; times are in milliseconds.
\<close>

section \<open>State\<close>

record demo =
  dm_mem :: "(string, byte list) dict"
  dm_t0 :: int
  dm_traced :: int
  dm_maxfill :: int
  dm_overflows :: int
  dm_inject :: bool
  dm_hist :: "int list"
  dm_hist_ptr :: nat
  dm_cap :: int
  dm_con_text :: "byte list"
  dm_con_n :: int
  dm_con_t0 :: "int option"
  dm_stream :: "byte list option"
  dm_ddr_runs :: "(int \<times> int) list"

definition HIST_BINS :: nat where "HIST_BINS = 16"

definition key_error :: "string \<Rightarrow> exn" where
  "key_error k = Exn KeyError '''' [AS k]"

definition lift_exn :: "exn + 'a \<Rightarrow> ('s, 'a) act" where
  "lift_exn r s = (r, s)"

definition region_mem :: "string \<Rightarrow> (demo, byte list) act" where
  "region_mem region s = (case dict_get (dm_mem s) region of
     None \<Rightarrow> (Inl (key_error region), s) | Some bs \<Rightarrow> (Inr bs, s))"

definition mem_get :: "string \<Rightarrow> int \<Rightarrow> (demo, int) act" where
  "mem_get region off = bnd (region_mem region) (\<lambda>bs. lift_exn (get32 bs off))"

definition mem_set :: "string \<Rightarrow> byte list \<Rightarrow> (demo, unit) act" where
  "mem_set region bs = modify (\<lambda>s. s\<lparr>dm_mem := dict_set region bs (dm_mem s)\<rparr>)"

definition mem_put :: "string \<Rightarrow> int \<Rightarrow> int \<Rightarrow> (demo, unit) act" where
  "mem_put region off v =
     bnd (region_mem region) (\<lambda>bs. bnd (lift_exn (put32 bs off v)) (\<lambda>bs'. mem_set region bs'))"

section \<open>The demo trace stream\<close>

definition sbyte :: "demo \<Rightarrow> int \<Rightarrow> byte" where
  "sbyte s i =
     (case dm_stream s of
        Some (b # bs) \<Rightarrow> (b # bs) ! nat (i mod int (length (b # bs)))
      | _ \<Rightarrow> word_of_int (drop_bit (nat (i AND 3) * 8) (i * 2654435761) AND 0xFF))"

definition sbytes :: "demo \<Rightarrow> int \<Rightarrow> int \<Rightarrow> byte list" where
  "sbytes s start n = map (\<lambda>k. sbyte s (start + int k)) [0..<nat n]"

section \<open>CTRL registers by name\<close>

definition cu :: "scenario \<Rightarrow> string \<Rightarrow> (demo, int) act" where
  "cu sc name = (case co sc name of None \<Rightarrow> ret 0 | Some off \<Rightarrow> mem_get ''ctrl'' off)"

definition cp :: "scenario \<Rightarrow> string \<Rightarrow> int \<Rightarrow> (demo, unit) act" where
  "cp sc name v = (case co sc name of None \<Rightarrow> ret () | Some off \<Rightarrow> mem_put ''ctrl'' off (v AND 0xFFFFFFFF))"

text \<open>\<open>rb.replace("_run", "_running")\<close> and the two exceptions.\<close>

fun replace_run :: "string \<Rightarrow> string" where
  "replace_run [] = []"
| "replace_run (c # cs) =
     (if take 4 (c # cs) = ''_run'' then ''_running'' @ replace_run (drop 3 cs) else c # replace_run cs)"

definition running_bit_name :: "core \<Rightarrow> string" where
  "running_bit_name c =
     (let rb = or_str (c_run_bit c) ''core_run'' in
      if rb = ''cva6_run'' \<or> rb = ''cva6_run2'' then ''cva6_running'' else replace_run rb)"

definition mirror_bit :: "scenario \<Rightarrow> int \<Rightarrow> core \<Rightarrow> int \<Rightarrow> int" where
  "mirror_bit sc ctrl c st =
     (case dict_get (sc_status_bits sc) (running_bit_name c) of
        None \<Rightarrow> st
      | Some b \<Rightarrow> if core_running sc ctrl c then st OR push_bit b 1 else st AND NOT (push_bit b 1))"

definition mirror_status :: "scenario \<Rightarrow> (demo, unit) act" where
  "mirror_status sc =
     (case co sc ''status'' of
        None \<Rightarrow> ret ()
      | Some so \<Rightarrow> bnd (mem_get ''ctrl'' 0) (\<lambda>ctrl. bnd (mem_get ''ctrl'' so) (\<lambda>st.
          mem_put ''ctrl'' so (fold (mirror_bit sc ctrl) (sc_cores sc) st AND 0xFFFFFFFF))))"

section \<open>The sinks\<close>

text \<open>(total bytes, size, circular, one-shot full, wrapped).\<close>

definition ddr_state :: "scenario \<Rightarrow> (demo, int \<times> int \<times> bool \<times> bool \<times> bool) act" where
  "ddr_state sc =
     bnd (cu sc ''sink_ctrl'') (\<lambda>sink. bnd (cu sc ''ddr_size'') (\<lambda>sz0. bnd get_state (\<lambda>s.
       let size = sz0 AND NOT 3;
           circ = (sink AND 4 \<noteq> 0);
           total0 = sum_list (map (\<lambda>(a, e). e - a) (dm_ddr_runs s));
           total = (if \<not> circ \<and> size \<noteq> 0 then min total0 size else total0) in
       ret (total, size, circ, \<not> circ \<and> size \<noteq> 0 \<and> size \<le> total, circ \<and> size \<noteq> 0 \<and> size \<le> total))))"

definition ddr_dump :: "scenario \<Rightarrow> (demo, byte list) act" where
  "ddr_dump sc =
     bnd (ddr_state sc) (\<lambda>(total, size, circ, _, _). bnd get_state (\<lambda>s.
       let data = concat (map (\<lambda>(a, e). sbytes s a (e - a)) (dm_ddr_runs s)) in
       ret (if \<not> circ then take (nat (min total (if size \<noteq> 0 then size else int (length data)))) data
            else if size \<noteq> 0 \<and> size < int (length data) then last_n (nat size) data else data)))"

definition uram_dump :: "(demo, byte list) act" where
  "uram_dump = bnd get_state (\<lambda>s.
     let held = min (dm_traced s) (dm_cap s) in ret (sbytes s (dm_traced s - held) held))"

definition con_dump :: "(demo, byte list) act" where
  "con_dump = bnd get_state (\<lambda>s. ret (take (nat (dm_con_n s)) (dm_con_text s)))"

section \<open>Construction\<close>

definition demo_encs :: "demo \<Rightarrow> string list" where
  "demo_encs s = filter (\<lambda>e. dict_get (dm_mem s) e \<noteq> None) ENC_REGIONS"

definition reset_word :: "reg_desc \<Rightarrow> int" where
  "reset_word r = fold (\<lambda>f v. if fd_reset f \<noteq> 0 then v OR push_bit (fd_lsb f) (fd_reset f) else v) (rd_fields r) 0"

definition seed_reg :: "reg_desc \<Rightarrow> (demo, unit) act" where
  "seed_reg r = bnd get_state (\<lambda>s.
     if dict_get (dm_mem s) (rd_region r) = None \<and> rd_region r \<noteq> ''enc'' then ret ()
     else if rd_region r = ''enc'' then for_each (demo_encs s) (\<lambda>e. mem_put e (rd_offset r) (reset_word r))
     else mem_put (rd_region r) (rd_offset r) (reset_word r))"

definition arm_enc :: "int \<Rightarrow> nat \<Rightarrow> nat \<times> string \<Rightarrow> (demo, unit) act" where
  "arm_enc srcbits n = (\<lambda>(i, e).
     bnd (mem_get e 0x008) (\<lambda>f.
     andthen (mem_put e 0x008 ((f AND 0x0000FFFF) OR push_bit 28 srcbits OR push_bit 16 (int i)))
     (act_when (1 < n) (bnd (mem_get e 0x000) (\<lambda>t. mem_put e 0x000 (t AND NOT (push_bit 15 1)))))))"

text \<open>The contents of the first console file and the first stream file that exist are inputs.\<close>

definition blank_demo :: "scenario \<Rightarrow> int \<Rightarrow> byte list option \<Rightarrow> byte list option \<Rightarrow> demo" where
  "blank_demo sc now con stream =
     \<lparr> dm_mem = map (\<lambda>(k, (b, size)). (k, replicate (nat size) 0)) (sc_regions sc),
       dm_t0 = now, dm_traced = 0, dm_maxfill = 0, dm_overflows = 0, dm_inject = False,
       dm_hist = replicate HIST_BINS 0, dm_hist_ptr = 0,
       dm_cap = min 0x100000 (case dict_get (sc_regions sc) ''trace'' of None \<Rightarrow> 0x100000 | Some (_, sz) \<Rightarrow> sz),
       dm_con_text = (if sd_console (sc_raw sc) \<noteq> None then opt_or con [] else []),
       dm_con_n = 0, dm_con_t0 = None, dm_stream = stream, dm_ddr_runs = [] \<rparr>"

definition demo_init :: "scenario \<Rightarrow> regmap \<Rightarrow> (demo, unit) act" where
  "demo_init sc rm =
     andthen (for_each rm seed_reg)
     (bnd get_state (\<lambda>s. let encs = demo_encs s;
          srcbits = (case sd_decode (sc_raw sc) of None \<Rightarrow> 0 | Some d \<Rightarrow> opt_or (dd_srcbits d) 0) in
      andthen (for_each (List.enumerate 0 encs) (arm_enc srcbits (length encs)))
      (andthen (case co sc ''funnel_ctrl'' of None \<Rightarrow> ret ()
          | Some off \<Rightarrow> mem_put ''ctrl'' off
              (sum_list (map (\<lambda>i. push_bit (4 * i) 1) [0..<max 1 (length (sc_cores sc))])))
      (case co sc ''trace_bufsz'' of None \<Rightarrow> ret () | Some off \<Rightarrow> mem_put ''ctrl'' off (dm_cap s)))))"

definition mk_demo :: "scenario \<Rightarrow> regmap \<Rightarrow> int \<Rightarrow> byte list option \<Rightarrow> byte list option \<Rightarrow> exn + demo" where
  "mk_demo sc rm now con stream =
     (case demo_init sc rm (blank_demo sc now con stream) of (Inl e, _) \<Rightarrow> Inl e | (Inr _, s) \<Rightarrow> Inr s)"

section \<open>Reading and writing\<close>

definition demo_read :: "string \<Rightarrow> int \<Rightarrow> nat \<Rightarrow> (demo, int list) act" where
  "demo_read region off n s =
     (if region \<in> set ENC_REGIONS \<and> off = 0xE14 \<and> n = 1 then
        let p = dm_hist_ptr s in
        (Inr [dm_hist s ! (2 * p) OR push_bit 16 (dm_hist s ! (2 * p + 1))],
         s\<lparr>dm_hist_ptr := (p + 1) mod (HIST_BINS div 2)\<rparr>)
      else bnd (region_mem region) (\<lambda>bs. lift_exn (get32s bs off n)) s)"

definition write_control :: "scenario \<Rightarrow> int \<Rightarrow> (demo, unit) act" where
  "write_control sc value =
     andthen (act_when (value AND cbit sc ''trace_clear'' \<noteq> 0)
       (andthen (modify (\<lambda>s. s\<lparr>dm_traced := 0\<rparr>))
       (andthen (cp sc ''status'' 0) (andthen (cp sc ''trace_beats'' 0) (cp sc ''trace_bytes'' 0)))))
     (act_when (cbit sc ''con_clear'' \<noteq> 0 \<and> value AND cbit sc ''con_clear'' \<noteq> 0)
       (andthen (modify (\<lambda>s. s\<lparr>dm_con_n := 0, dm_con_t0 := None\<rparr>))
       (andthen (cp sc ''con_bytes'' 0) (cp sc ''con_drops'' 0))))"

definition write_sink :: "scenario \<Rightarrow> int \<Rightarrow> (demo, int) act" where
  "write_sink sc value =
     andthen (act_when (value AND 0x2 \<noteq> 0)
       (andthen (modify (\<lambda>s. s\<lparr>dm_ddr_runs := []\<rparr>))
       (andthen (cp sc ''ddr_wptr'' 0) (andthen (cp sc ''sink_stat'' 0)
       (andthen (cp sc ''ddr_drops'' 0) (cp sc ''ddr_beats'' 0))))))
     (andthen (act_when (value AND 0x20 \<noteq> 0) (cp sc ''pib_drops'' 0))
       (ret (value AND NOT 0x22)))"

definition write_hist :: "int \<Rightarrow> (demo, unit) act" where
  "write_hist value =
     andthen (act_when (value AND 2 \<noteq> 0) (modify (\<lambda>s. s\<lparr>dm_hist_ptr := 0\<rparr>)))
       (act_when (value AND 1 \<noteq> 0) (modify (\<lambda>s. s\<lparr>dm_hist := replicate HIST_BINS 0, dm_hist_ptr := 0\<rparr>)))"

definition gate_mask :: "regmap \<Rightarrow> string \<Rightarrow> int \<Rightarrow> int" where
  "gate_mask rm region off =
     (case reg_at rm region off of None \<Rightarrow> 0
      | Some r \<Rightarrow> fold (\<lambda>f m. if fd_gated f then m OR field_bits f else m) (rd_fields r) 0)"

text \<open>Rule (1): a locked field keeps its value while the encoder is enabled.\<close>

definition apply_gate :: "regmap \<Rightarrow> string \<Rightarrow> int \<Rightarrow> int \<Rightarrow> (demo, int) act" where
  "apply_gate rm region off value =
     (let gate = (if region \<in> set ENC_REGIONS then gate_mask rm region off else 0) in
      if gate = 0 then ret value
      else bnd (mem_get region 0) (\<lambda>te.
        if te AND TE_ENABLE = 0 then ret value
        else bnd (mem_get region off) (\<lambda>old. ret ((value AND NOT gate) OR (old AND gate)))))"

text \<open>Rule (2): a 1 clears a write-1-to-clear bit, a 0 leaves it.\<close>

definition apply_w1c :: "regmap \<Rightarrow> string \<Rightarrow> int \<Rightarrow> int \<Rightarrow> (demo, int) act" where
  "apply_w1c rm region off value =
     (let m = w1c_mask rm region off in
      if m = 0 then ret value
      else bnd (mem_get region off) (\<lambda>old. ret ((value AND NOT m) OR ((old AND m) AND NOT value))))"

definition demo_write :: "scenario \<Rightarrow> regmap \<Rightarrow> string \<Rightarrow> int \<Rightarrow> int \<Rightarrow> (demo, unit) act" where
  "demo_write sc rm region off value =
     andthen (act_when (region = ''ctrl'' \<and> co sc ''control'' = Some off) (write_control sc value))
     (bnd (if region = ''ctrl'' \<and> co sc ''sink_ctrl'' = Some off then write_sink sc value else ret value) (\<lambda>v1.
      andthen (act_when (region \<in> set ENC_REGIONS \<and> off = 0xE10) (write_hist v1))
     (bnd (apply_gate rm region off v1) (\<lambda>v2.
      bnd (apply_w1c rm region off v2) (\<lambda>v3.
      andthen (mem_put region off (v3 AND 0xFFFFFFFF))
        (act_when (region = ''ctrl'' \<and> co sc ''control'' = Some off) (mirror_status sc)))))))"

text \<open>\<open>mem[off:off + len(data)] = data\<close>: a slice assignment, clipped and growing as Python does.\<close>

definition demo_write_block :: "string \<Rightarrow> int \<Rightarrow> byte list \<Rightarrow> (demo, unit) act" where
  "demo_write_block region off data =
     bnd (region_mem region) (\<lambda>bs.
       let n = int (length bs);
           clip = (\<lambda>i. nat (max 0 (min n (if i < 0 then i + n else i))));
           a = clip off; b = max a (clip (off + int (length data))) in
       mem_set region (take a bs @ data @ drop b bs))"

definition demo_bus :: "scenario \<Rightarrow> regmap \<Rightarrow> demo dash_bus" where
  "demo_bus sc rm = \<lparr> db_read = demo_read, db_write = demo_write sc rm,
     db_write_block = demo_write_block, db_demo = True \<rparr>"

section \<open>The tick\<close>

text \<open>The inputs of a round: the clock (ms), the drawn burst, fill, histogram increments and drop
  counts, and the two retire counter images when the scenario maintains them.\<close>

record tick_in =
  tk_now :: int
  tk_burst :: int
  tk_fill :: int
  tk_hist_inc :: "int list"
  tk_over_inc :: int
  tk_pib_inc :: int
  tk_retires :: int
  tk_retires1 :: int

definition te_effective :: "int \<Rightarrow> bool" where
  "te_effective t \<longleftrightarrow> t AND TE_ACTIVE \<noteq> 0 \<and> t AND TE_ENABLE \<noteq> 0 \<and> t AND TE_ITRACE \<noteq> 0"

definition demo_core0 :: core where
  "demo_core0 = \<lparr> c_id = None, c_name = None, c_enc = Some ''enc'', c_run_bit = None,
     c_run_bits = None, c_protocol = None \<rparr>"

definition demo_cores :: "scenario \<Rightarrow> core list" where
  "demo_cores sc = (if sc_cores sc = [] then [demo_core0] else sc_cores sc)"

definition any_running :: "scenario \<Rightarrow> int \<Rightarrow> (string, int) dict \<Rightarrow> bool" where
  "any_running sc ctrl tes \<longleftrightarrow>
     (\<exists>c\<in>set (demo_cores sc). core_running sc ctrl c
        \<and> te_effective (dict_get_or tes (or_str (c_enc c) ''enc'') 0))"

definition tick_console :: "scenario \<Rightarrow> tick_in \<Rightarrow> int \<Rightarrow> (demo, unit) act" where
  "tick_console sc tk ctrl = bnd get_state (\<lambda>s.
     if dm_con_text s = [] \<or> ctrl AND cbit sc ''core_run'' = 0 then ret ()
     else
       let t0 = opt_or (dm_con_t0 s) (tk_now tk);
           n = min (int (length (dm_con_text s))) (max (dm_con_n s) (2 * (tk_now tk - t0)));
           blob0 = take (nat n) (dm_con_text s);
           blob = blob0 @ replicate (nat ((- int (length blob0)) mod 4)) 0 in
       andthen (modify (\<lambda>s. s\<lparr>dm_con_t0 := Some t0, dm_con_n := n\<rparr>))
       (andthen (cp sc ''con_bytes'' n)
       (act_when (sd_console (sc_raw sc) \<noteq> None \<and> dict_get (dm_mem s) ''con'' \<noteq> None)
          (bnd (region_mem ''con'') (\<lambda>bs. mem_set ''con'' (blob @ drop (length blob) bs))))))"

text \<open>The ring: every word from \<open>old & ~3\<close> up to the new position.\<close>

definition ring_words :: "int \<Rightarrow> int \<Rightarrow> int list" where
  "ring_words old new = (let a = old AND NOT 3 in map (\<lambda>k. a + 4 * int k) [0..<nat ((new - a + 3) div 4)])"

definition fill_ring :: "int \<Rightarrow> int \<Rightarrow> (demo, unit) act" where
  "fill_ring old new = for_each (ring_words old new) (\<lambda>i.
     bnd get_state (\<lambda>s. mem_put ''trace'' (i mod dm_cap s) (le_int (sbytes s i 4))))"

definition tick_fill :: "tick_in \<Rightarrow> demo \<Rightarrow> demo" where
  "tick_fill tk s =
     (let fill = tk_fill tk + (if dm_inject s then 8000 else 0);
          b = min (int HIST_BINS - 1) (fill * int HIST_BINS div 16384) in
      s\<lparr>dm_maxfill := max (dm_maxfill s) (min fill 0x7FFF),
        dm_hist := map (\<lambda>i. if int i \<le> b then min (dm_hist s ! i + tk_hist_inc tk ! i) 0xFFFF
                            else dm_hist s ! i) [0..<length (dm_hist s)],
        dm_overflows := (if dm_inject s then min (dm_overflows s + tk_over_inc tk) 0x7FFF
                         else dm_overflows s)\<rparr>)"

definition add_ddr_run :: "int \<Rightarrow> int \<Rightarrow> (int \<times> int) list \<Rightarrow> (int \<times> int) list" where
  "add_ddr_run old new rs =
     (if rs \<noteq> [] \<and> snd (last rs) = old then butlast rs @ [(fst (last rs), new)] else rs @ [(old, new)])"

definition tick_stream :: "scenario \<Rightarrow> tick_in \<Rightarrow> int \<Rightarrow> (demo, unit) act" where
  "tick_stream sc tk sink =
     andthen (act_when ((case sd_demo (sc_raw sc) of None \<Rightarrow> False | Some d \<Rightarrow> dm_bpi d) \<and> co sc ''retires'' \<noteq> None)
       (andthen (cp sc ''retires'' (tk_retires tk)) (cp sc ''retires1'' (tk_retires1 tk))))
     (bnd get_state (\<lambda>s.
       let old = dm_traced s;
           new0 = old + tk_burst tk;
           new = (if sink AND 8 \<noteq> 0 then min new0 (dm_cap s) else new0) in
       andthen (modify (\<lambda>s. tick_fill tk (s\<lparr>dm_traced := new\<rparr>)))
       (andthen (fill_ring old new)
       (andthen (cp sc ''trace_beats'' (new div 4))
       (andthen (cp sc ''trace_bytes'' new)
       (andthen (cp sc ''status'' (if dm_cap s \<le> new \<and> sink AND 8 = 0 then 1 else 0))
       (andthen (act_when (sink AND 1 \<noteq> 0 \<and> old < new)
          (andthen (modify (\<lambda>s. s\<lparr>dm_ddr_runs := add_ddr_run old new (dm_ddr_runs s)\<rparr>))
          (bnd (cu sc ''ddr_beats'') (\<lambda>beats.
             cp sc ''ddr_beats'' (min (beats + (new - old) div 4) 0xFFFFFFFF)))))
       (act_when (sink AND 0x10 \<noteq> 0)
          (let d = drop_bit 8 sink AND 7; dv = (if d = 0 then 1 else d) in
           act_when (\<not> push_bit (nat (dv + 1)) 1 \<le> (8 :: int))
             (bnd (cu sc ''pib_drops'') (\<lambda>pd. cp sc ''pib_drops'' (min (pd + tk_pib_inc tk) 0xFFFFFFFF))))))))))))"

definition tick_status :: "scenario \<Rightarrow> int \<Rightarrow> (demo, unit) act" where
  "tick_status sc sink =
     bnd (ddr_state sc) (\<lambda>(total, size, circ, full, wr). bnd get_state (\<lambda>s.
       let uram_stop = (sink AND 8 \<noteq> 0 \<and> dm_cap s \<le> dm_traced s) in
       andthen (cp sc ''ddr_wptr'' (if circ then total else min total (if size \<noteq> 0 then size else total)))
       (cp sc ''sink_stat'' ((of_bool full OR push_bit 2 (of_bool wr)) OR push_bit 3 (of_bool uram_stop)))))"

definition tick_fifo_status :: "(demo, unit) act" where
  "tick_fifo_status =
     bnd (mem_get ''enc'' 0xE04) (\<lambda>st. bnd get_state (\<lambda>s.
       let mf = (if st AND 0x8000 \<noteq> 0 then 0 else dm_maxfill s);
           ov = (if st AND 0x80000000 \<noteq> 0 then 0 else dm_overflows s) in
       andthen (modify (\<lambda>s. (if st AND 0x8000 \<noteq> 0 then s\<lparr>dm_maxfill := 0\<rparr> else s)))
       (andthen (modify (\<lambda>s. (if st AND 0x80000000 \<noteq> 0 then s\<lparr>dm_overflows := 0, dm_inject := False\<rparr> else s)))
       (mem_put ''enc'' 0xE04 (((st AND 0x80008000) OR (mf AND 0x7FFF)) OR push_bit 16 (ov AND 0x7FFF))))))"

definition demo_tick :: "scenario \<Rightarrow> tick_in \<Rightarrow> (demo, unit) act" where
  "demo_tick sc tk =
     bnd (mem_get ''ctrl'' 0) (\<lambda>ctrl. bnd get_state (\<lambda>s.
       let encs = demo_encs s in
       bnd (map_act (\<lambda>e. bnd (mem_get e 0) (\<lambda>t. ret (e, t))) encs) (\<lambda>tes.
       let running = any_running sc ctrl tes;
           ts = ((tk_now tk - dm_t0 s) * 75000) AND (push_bit 64 1 - 1) in
       andthen (mirror_status sc)
       (andthen (mem_put ''enc'' 0x48 (ts AND 0xFFFFFFFF))
       (andthen (mem_put ''enc'' 0x4C (drop_bit 32 ts))
       (bnd (cu sc ''sink_ctrl'') (\<lambda>sink.
       andthen (tick_console sc tk ctrl)
       (andthen (act_when running (tick_stream sc tk sink))
       (andthen (tick_status sc sink) tick_fifo_status)))))))))"

section \<open>What a write to an encoder register stores\<close>

text \<open>The stored word, bit by bit: the two rules applied to the written value \<open>v\<close>, with the old
  word \<open>w\<close> and the encoder control word \<open>te\<close>.\<close>

definition stored_bit :: "regmap \<Rightarrow> string \<Rightarrow> int \<Rightarrow> int \<Rightarrow> int \<Rightarrow> int \<Rightarrow> nat \<Rightarrow> bool" where
  "stored_bit rm region off te w v i \<longleftrightarrow>
     (let b = (if bit te 1 \<and> bit (gate_mask rm region off) i then bit w i else bit v i) in
      if bit (w1c_mask rm region off) i then bit w i \<and> \<not> b else b)"

lemma te_enable_bit: "te AND TE_ENABLE = 0 \<longleftrightarrow> \<not> bit te 1"
  using and_bit_zero [of te 1] by (simp add: TE_ENABLE_def)

lemma region_mem_ok: "dict_get (dm_mem s) region = Some bs \<Longrightarrow> region_mem region s = (Inr bs, s)"
  by (simp add: region_mem_def)

lemma mem_get_ok:
  "dict_get (dm_mem s) region = Some bs \<Longrightarrow> get32 bs off = Inr w \<Longrightarrow> mem_get region off s = (Inr w, s)"
  by (simp add: mem_get_def region_mem_ok bnd_def lift_exn_def)

lemma get32_put_exists: "get32 bs off = Inr w \<Longrightarrow> is_u32 v \<Longrightarrow> \<exists>bs'. put32 bs off v = Inr bs'"
  by (auto simp: get32_def put32_def split: option.splits)

lemma mem_put_ok:
  assumes "dict_get (dm_mem s) region = Some bs" "put32 bs off v = Inr bs'"
  shows "mem_put region off v s = (Inr (), s\<lparr>dm_mem := dict_set region bs' (dm_mem s)\<rparr>)"
  using assms by (simp add: mem_put_def region_mem_ok bnd_def lift_exn_def mem_set_def)

lemma dm_mem_hist [simp]: "dm_mem (snd (write_hist v s)) = dm_mem s" "fst (write_hist v s) = Inr ()"
  by (auto simp: write_hist_def act_when_def andthen_def bnd_def)

lemma demo_write_enc:
  assumes "region \<in> set ENC_REGIONS" "dict_get (dm_mem s) region = Some bs"
    "get32 bs off = Inr w" "get32 bs 0 = Inr te"
  shows "\<exists>x bs' s'. demo_write sc rm region off v s = (Inr (), s')
     \<and> put32 bs off x = Inr bs' \<and> dm_mem s' = dict_set region bs' (dm_mem s)
     \<and> is_u32 x \<and> (\<forall>i<32. bit x i \<longleftrightarrow> stored_bit rm region off te w v i)"
proof -
  have rc: "region \<noteq> ''ctrl''" using assms(1) by (auto simp: ENC_REGIONS_def)
  let ?g = "gate_mask rm region off" and ?m = "w1c_mask rm region off"
  define v2 where "v2 = (if ?g \<noteq> 0 \<and> bit te 1 then (v AND NOT ?g) OR (w AND ?g) else v)"
  define v3 where "v3 = (if ?m = 0 then v2 else (v2 AND NOT ?m) OR ((w AND ?m) AND NOT v2))"
  define x where "x = v3 AND 0xFFFFFFFF"
  have b2: "bit v2 i \<longleftrightarrow> (if bit te 1 \<and> bit ?g i then bit w i else bit v i)" for i
    by (auto simp: v2_def bit_or_iff bit_and_iff bit_not_iff)
  have b3: "bit v3 i \<longleftrightarrow> (if bit ?m i then bit w i \<and> \<not> bit v2 i else bit v2 i)" for i
    by (auto simp: v3_def bit_or_iff bit_and_iff bit_not_iff)
  have bx: "\<forall>i<32. bit x i \<longleftrightarrow> stored_bit rm region off te w v i"
    by (simp add: x_def bit_and_iff bit_mask32 b3 b2 stored_bit_def Let_def)
  have ux: "is_u32 x" by (simp add: x_def flip: u32_def)
  obtain bs' where bs': "put32 bs off x = Inr bs'" using get32_put_exists [OF assms(3) ux] by blast
  obtain s1 where s1: "act_when (region \<in> set ENC_REGIONS \<and> off = 0xE10) (write_hist v) s = (Inr (), s1)"
      "dm_mem s1 = dm_mem s"
    using dm_mem_hist [of v s] assms(1) by (cases "off = 0xE10"; cases "write_hist v s") (auto simp: act_when_def)
  have g: "apply_gate rm region off v s1 = (Inr v2, s1)"
    using assms s1(2) by (auto simp: apply_gate_def Let_def v2_def mem_get_ok bnd_def te_enable_bit)
  have m: "apply_w1c rm region off v2 s1 = (Inr v3, s1)"
    using assms s1(2) by (auto simp: apply_w1c_def Let_def v3_def mem_get_ok bnd_def)
  have p: "mem_put region off x s1 = (Inr (), s1\<lparr>dm_mem := dict_set region bs' (dm_mem s1)\<rparr>)"
    using assms(2) s1(2) bs' by (intro mem_put_ok) simp_all
  have "demo_write sc rm region off v s = (Inr (), s1\<lparr>dm_mem := dict_set region bs' (dm_mem s1)\<rparr>)"
    using rc s1(1) g m p
    by (simp add: demo_write_def andthen_def bnd_def flip: x_def)
  then show ?thesis using bs' ux bx s1(2) by auto
qed

lemma bit_gate_mask:
  "bit (gate_mask rm region off) i \<longleftrightarrow>
     (\<exists>r. reg_at rm region off = Some r \<and> (\<exists>f\<in>set (rd_fields r). fd_gated f \<and> bit (field_bits f) i))"
  by (auto simp: gate_mask_def fold_or_if_bit split: option.splits)

lemma u32_eqI: "is_u32 x \<Longrightarrow> is_u32 y \<Longrightarrow> (\<And>i. i < 32 \<Longrightarrow> bit x i \<longleftrightarrow> bit y i) \<Longrightarrow> x = y"
  by (metis is_u32_def u32_id u32_take_bit bit_eqI bit_take_bit_iff)

text \<open>A read-modify-write through \<open>rmw_value\<close> changes nothing on the simulated hardware: after
  writing back the word read, whatever its sticky bits and whether or not the encoder is enabled,
  the register reads the same word. (No field is both enable-locked and write-1-to-clear.)\<close>

lemma rmw_write_back_identity:
  assumes "region \<in> set ENC_REGIONS" "dict_get (dm_mem s) region = Some bs"
    "get32 bs off = Inr w" "get32 bs 0 = Inr te"
    "gate_mask rm region off AND w1c_mask rm region off = 0"
  shows "\<exists>s'. demo_write sc rm region off (rmw_value rm region off w) s = (Inr (), s')
     \<and> mem_get region off s' = (Inr w, s')"
proof -
  obtain x bs' s' where w: "demo_write sc rm region off (rmw_value rm region off w) s = (Inr (), s')"
      "put32 bs off x = Inr bs'" "dm_mem s' = dict_set region bs' (dm_mem s)" "is_u32 x"
      "\<forall>i<32. bit x i \<longleftrightarrow> stored_bit rm region off te w (rmw_value rm region off w) i"
    using demo_write_enc [OF assms(1-4)] by blast
  have "x = w"
  proof (rule u32_eqI)
    fix i :: nat assume "i < 32"
    with w(5) assms(5) show "bit x i \<longleftrightarrow> bit w i"
      unfolding and_zero_iff by (auto simp: stored_bit_def Let_def bit_rmw_value)
  qed (use w(4) assms(3) get32_u32 in auto)
  then have "get32 bs' off = Inr w" using get32_put32_same [OF w(2)] by simp
  with w(1,3) show ?thesis by (auto intro!: mem_get_ok simp: dict_get_set)
qed

text \<open>The enable gate is sound against the simulated hardware: when it refuses a write, the
  hardware would discard it, i.e. whatever the value, every writable field keeps its bits.\<close>

lemma refused_write_is_lost:
  assumes "fst (write_gate_reason (demo_bus sc rm) rm region off s) = Inr (Some q)"
    "dict_get (dm_mem s) region = Some bs" "get32 bs off = Inr w" "get32 bs 0 = Inr te"
    "gate_mask rm region off AND w1c_mask rm region off = 0"
  shows "\<exists>r s' w'. reg_at rm region off = Some r
     \<and> demo_write sc rm region off v s = (Inr (), s') \<and> mem_get region off s' = (Inr w', s')
     \<and> (\<forall>f\<in>set (rd_fields r). sw_writable f \<longrightarrow>
          (\<forall>i<32. bit (field_bits f) i \<longrightarrow> (bit w' i \<longleftrightarrow> bit w i)))"
proof -
  have b: "buf_pos bs 0 4 \<noteq> None" using assms(4) by (auto simp: get32_def split: option.splits)
  then have "get32s bs 0 1 = Inr [te]" using assms(4) get32s_1 [of bs 0] by simp
  then have rd: "db_read (demo_bus sc rm) region 0 1 s = (Inr [te], s)"
    using assms(2) by (simp add: demo_bus_def demo_read_def region_mem_ok bnd_def lift_exn_def)
  obtain res t' where "write_gate_reason (demo_bus sc rm) rm region off s = (Inr res, t')"
      "res \<noteq> None \<longleftrightarrow> region \<in> set ENC_REGIONS \<and> bit te 1 \<and>
       (\<exists>r. reg_at rm region off = Some r \<and> (\<exists>f\<in>set (rd_fields r). sw_writable f)
          \<and> (\<forall>f\<in>set (rd_fields r). sw_writable f \<longrightarrow> fd_gated f))"
    using write_gate_char [OF rd, of rm off] by blast
  with assms(1) obtain r where r: "region \<in> set ENC_REGIONS" "bit te 1" "reg_at rm region off = Some r"
      "\<forall>f\<in>set (rd_fields r). sw_writable f \<longrightarrow> fd_gated f"
    by auto
  obtain x bs' s' where w: "demo_write sc rm region off v s = (Inr (), s')"
      "put32 bs off x = Inr bs'" "dm_mem s' = dict_set region bs' (dm_mem s)"
      "\<forall>i<32. bit x i \<longleftrightarrow> stored_bit rm region off te w v i"
    using demo_write_enc [OF r(1) assms(2-4)] by blast
  have m: "mem_get region off s' = (Inr x, s')"
    using get32_put32_same [OF w(2)] w(3) by (auto intro!: mem_get_ok simp: dict_get_set)
  have "bit x i \<longleftrightarrow> bit w i" if "f \<in> set (rd_fields r)" "sw_writable f" "i < 32" "bit (field_bits f) i" for f i
  proof -
    have "bit (gate_mask rm region off) i" using that r(3,4) by (auto simp: bit_gate_mask)
    moreover from this have "\<not> bit (w1c_mask rm region off) i"
      using assms(5) unfolding and_zero_iff by blast
    ultimately show ?thesis using w(4) that(3) r(2) by (simp add: stored_bit_def)
  qed
  with r(3) w(1) m show ?thesis by blast
qed

text \<open>A small machine for the witnesses: a control block and one encoder of two words, whose
  second word has a locked field and a write-1-to-clear bit.\<close>

definition mini_rm :: regmap where
  "mini_rm = [\<lparr> rd_region = ''enc'', rd_offset = 4, rd_path = ''te.x'',
     rd_fields = [\<lparr> fd_name = ''Locked'', fd_msb = 3, fd_lsb = 0, fd_sw = ''rw'', fd_hw = ''r'',
                    fd_gated = True, fd_pulse = False, fd_w1c = False, fd_reset = 0 \<rparr>,
                  \<lparr> fd_name = ''Sticky'', fd_msb = 12, fd_lsb = 12, fd_sw = ''r'', fd_hw = ''r'',
                    fd_gated = False, fd_pulse = False, fd_w1c = True, fd_reset = 0 \<rparr>] \<rparr>]"

definition mini_demo :: "int \<Rightarrow> int \<Rightarrow> demo" where
  "mini_demo te w =
     \<lparr> dm_mem = [(''ctrl'', replicate 64 0), (''enc'', pack_words [te, w])], dm_t0 = 0, dm_traced = 0,
       dm_maxfill = 0, dm_overflows = 0, dm_inject = False, dm_hist = replicate HIST_BINS 0,
       dm_hist_ptr = 0, dm_cap = 64, dm_con_text = [], dm_con_n = 0, dm_con_t0 = None,
       dm_stream = None, dm_ddr_runs = [] \<rparr>"

definition mini_sc :: scenario where
  "mini_sc = projr (mk_scenario
     \<lparr> sd_id = ''mini'', sd_title = ''mini'', sd_app = Some ''mini_app'', sd_app_variants = None,
       sd_xlen = None,
       sd_regions = [(''ctrl'', \<lparr> rg_base = A_Str ''0xA0000000'', rg_size = 64, rg_label = None, rg_gate_core = None \<rparr>),
                     (''ram'', \<lparr> rg_base = A_Str ''0xA0040000'', rg_size = 64, rg_label = None, rg_gate_core = Some 0 \<rparr>)],
       sd_ctrl = Some [(''control'', 0), (''status'', 4)],
       sd_control_bits = Some [(''core_run'', 0), (''trace_clear'', 1), (''core0_run'', 8), (''core1_run'', 9)],
       sd_status_bits = Some [(''core0_running'', 8), (''core1_running'', 9)],
       sd_cores = Some
         [\<lparr> c_id = Some 0, c_name = Some ''A'', c_enc = Some ''enc'', c_run_bit = Some ''core0_run'',
            c_run_bits = Some [''core_run'', ''core0_run''], c_protocol = Some ''N-Trace'' \<rparr>,
          \<lparr> c_id = Some 1, c_name = Some ''B'', c_enc = Some ''enc1'', c_run_bit = Some ''core1_run'',
            c_run_bits = Some [''core_run'', ''core1_run''], c_protocol = Some ''E-Trace'' \<rparr>],
       sd_console = None, sd_ddr_sink = False, sd_features = None, sd_decode = None, sd_demo = None,
       sd_sink_defaults = None \<rparr>)"

lemma mini_masks:
  "gate_mask mini_rm ''enc'' 4 = 15" "w1c_mask mini_rm ''enc'' 4 = 4096"
  by code_simp+

lemma mini_mem:
  "dict_get (dm_mem (mini_demo 7 0x1005)) ''enc'' = Some (pack_words [7, 0x1005])"
  "get32 (pack_words [7, 0x1005]) 4 = Inr 0x1005" "get32 (pack_words [7, 0x1005]) 0 = Inr 7"
  by code_simp+

lemma rmw_write_back_identity_witness:
  "\<exists>s'. demo_write mini_sc mini_rm ''enc'' 4 (rmw_value mini_rm ''enc'' 4 0x1005) (mini_demo 7 0x1005)
          = (Inr (), s') \<and> mem_get ''enc'' 4 s' = (Inr 0x1005, s')"
  by (rule rmw_write_back_identity [OF _ mini_mem])
     (simp_all add: mini_masks ENC_REGIONS_def)

lemma refused_write_is_lost_witness:
  "\<exists>r s' w'. reg_at mini_rm ''enc'' 4 = Some r
     \<and> demo_write mini_sc mini_rm ''enc'' 4 0xFFFFFFF0 (mini_demo 7 0x1005) = (Inr (), s')
     \<and> mem_get ''enc'' 4 s' = (Inr w', s')"
proof -
  have "\<exists>q. fst (write_gate_reason (demo_bus mini_sc mini_rm) mini_rm ''enc'' 4 (mini_demo 7 0x1005)) = Inr (Some q)"
  proof -
    have "(case fst (write_gate_reason (demo_bus mini_sc mini_rm) mini_rm ''enc'' 4 (mini_demo 7 0x1005)) of
        Inr (Some q) \<Rightarrow> True | _ \<Rightarrow> False)" by code_simp
    then show ?thesis by (auto split: sum.splits option.splits)
  qed
  then obtain q where
    "fst (write_gate_reason (demo_bus mini_sc mini_rm) mini_rm ''enc'' 4 (mini_demo 7 0x1005)) = Inr (Some q)"
    by blast
  from refused_write_is_lost [OF this mini_mem, of "0xFFFFFFF0"] show ?thesis
    by (auto simp: mini_masks)
qed

end
