(* ===== verification/Core_Run.thy ===== *)
theory Core_Run
  imports Demo_Bus
begin

unbundle bit_operations_syntax

text \<open>
  Starting and stopping one core (\<open>set_core_run\<close> of the dashboard server) and the interlock of the
  trace protocols. The locale \<open>run_port\<close> is what the routine relies on: CONTROL is a plain register
  and STATUS mirrors the effective run state; it is interpreted on the register simulation.
\<close>

section \<open>The routine\<close>

text \<open>\<open>core_own_bit(c) or core_run_mask(c)\<close>: the bits that express a running core.\<close>

definition run_expr :: "scenario \<Rightarrow> core \<Rightarrow> int" where
  "run_expr sc c = (if core_own_bit sc c \<noteq> 0 then core_own_bit sc c else core_run_mask sc c)"

definition new_control :: "scenario \<Rightarrow> bool list \<Rightarrow> int \<Rightarrow> int" where
  "new_control sc eff ctrl =
     fold (\<lambda>(c, e) m. if e then m OR run_expr sc c else m) (zip (sc_cores sc) eff)
       (fold (\<lambda>c m. m AND NOT (core_run_mask sc c)) (sc_cores sc) ctrl)"

definition want_mirror :: "scenario \<Rightarrow> bool list \<Rightarrow> nat list" where
  "want_mirror sc eff = filter (\<lambda>i. eff ! i \<and> core_own_bit sc (sc_cores sc ! i) \<noteq> 0
       \<and> dict_get (sc_status_bits sc) (running_bit_name (sc_cores sc ! i)) \<noteq> None)
     [0..<length (sc_cores sc)]"

definition cold_cores :: "scenario \<Rightarrow> bool list \<Rightarrow> int \<Rightarrow> nat list" where
  "cold_cores sc eff st = filter (\<lambda>i.
       drop_bit (dict_get_or (sc_status_bits sc) (running_bit_name (sc_cores sc ! i)) 0) st AND 1 = 0)
     (want_mirror sc eff)"

text \<open>The result: CONTROL before, CONTROL after, and the cores of the note, if any.\<close>

definition set_core_run :: "'b dash_bus \<Rightarrow> scenario \<Rightarrow> nat \<Rightarrow> bool \<Rightarrow> ('b, int \<times> int \<times> nat list option) act" where
  "set_core_run bus sc idx run =
     (case co sc ''control'' of
        None \<Rightarrow> raise (Exn TypeError ''control'' [])
      | Some C \<Rightarrow> bnd (read1 bus ''ctrl'' C) (\<lambda>ctrl.
          if length (sc_cores sc) \<le> idx then raise (Exn IndexError ''list assignment index out of range'' [])
          else
            let eff = (map (core_running sc ctrl) (sc_cores sc))[idx := run];
                new = new_control sc eff ctrl in
            andthen (db_write bus ''ctrl'' C (new AND 0xFFFFFFFF))
            (case (co sc ''status'', want_mirror sc eff) of
               (Some so, _ # _) \<Rightarrow> bnd (read1 bus ''ctrl'' so) (\<lambda>st.
                  let cold = cold_cores sc eff st in
                  if cold \<noteq> [] then
                    andthen (db_write bus ''ctrl'' C (ctrl AND 0xFFFFFFFF)) (ret (ctrl, ctrl, Some cold))
                  else ret (ctrl, new AND 0xFFFFFFFF, None))
             | _ \<Rightarrow> ret (ctrl, new AND 0xFFFFFFFF, None))))"

section \<open>The new CONTROL word\<close>

lemma bit_clear_masks:
  "bit (fold (\<lambda>c m. m AND NOT (core_run_mask sc c)) cs (ctrl :: int)) i \<longleftrightarrow>
     bit ctrl i \<and> (\<forall>c\<in>set cs. \<not> bit (core_run_mask sc c) i)"
  by (induction cs arbitrary: ctrl) (auto simp: bit_and_iff bit_not_iff)

lemma bit_add_runs:
  "bit (fold (\<lambda>(c, e) m. if e then m OR run_expr sc c else m) ps (m0 :: int)) i \<longleftrightarrow>
     bit m0 i \<or> (\<exists>(c, e)\<in>set ps. e \<and> bit (run_expr sc c) i)"
proof (induction ps arbitrary: m0)
  case (Cons p ps)
  obtain c e where p: "p = (c, e)" by fastforce
  show ?case
    using Cons.IH [of "if e then m0 OR run_expr sc c else m0"] by (cases e) (simp_all add: p bit_or_iff)
qed simp

lemma bit_new_control:
  assumes "length eff = length (sc_cores sc)"
  shows "bit (new_control sc eff ctrl) i \<longleftrightarrow>
     bit ctrl i \<and> (\<forall>c\<in>set (sc_cores sc). \<not> bit (core_run_mask sc c) i)
     \<or> (\<exists>j<length (sc_cores sc). eff ! j \<and> bit (run_expr sc (sc_cores sc ! j)) i)"
proof -
  have "(\<exists>(c, e)\<in>set (zip (sc_cores sc) eff). e \<and> bit (run_expr sc c) i)
      \<longleftrightarrow> (\<exists>j<length (sc_cores sc). eff ! j \<and> bit (run_expr sc (sc_cores sc ! j)) i)"
    using assms by (auto simp: set_zip)
  then show ?thesis by (simp only: new_control_def bit_add_runs bit_clear_masks)
qed

text \<open>
  The release bits of a scenario are separable: they lie in the word, the bits that express a
  running core are release bits of that core and of no other core.
\<close>

definition separable :: "scenario \<Rightarrow> bool" where
  "separable sc \<longleftrightarrow>
     (\<forall>c\<in>set (sc_cores sc). run_expr sc c \<noteq> 0 \<and> take_bit 32 (core_run_mask sc c) = core_run_mask sc c
        \<and> run_expr sc c AND NOT (core_run_mask sc c) = 0)
     \<and> (\<forall>i<length (sc_cores sc). \<forall>j<length (sc_cores sc). i \<noteq> j \<longrightarrow>
          run_expr sc (sc_cores sc ! i) AND core_run_mask sc (sc_cores sc ! j) = 0)"

lemma separableD:
  assumes "separable sc" "j < length (sc_cores sc)"
  shows "\<exists>i<32. bit (run_expr sc (sc_cores sc ! j)) i"
    and "bit (run_expr sc (sc_cores sc ! j)) i \<Longrightarrow> bit (core_run_mask sc (sc_cores sc ! j)) i"
    and "bit (core_run_mask sc (sc_cores sc ! j)) i \<Longrightarrow> i < 32"
    and "k < length (sc_cores sc) \<Longrightarrow> k \<noteq> j \<Longrightarrow> bit (run_expr sc (sc_cores sc ! k)) i \<Longrightarrow>
           \<not> bit (core_run_mask sc (sc_cores sc ! j)) i"
proof -
  let ?c = "sc_cores sc ! j"
  have c: "run_expr sc ?c \<noteq> 0" "take_bit 32 (core_run_mask sc ?c) = core_run_mask sc ?c"
    "run_expr sc ?c AND NOT (core_run_mask sc ?c) = 0"
    using assms by (simp_all add: separable_def)
  show sub: "bit (core_run_mask sc ?c) i" if "bit (run_expr sc ?c) i" for i
    using c(3) that unfolding and_zero_iff by (auto simp: bit_not_iff)
  show lt: "i < 32" if "bit (core_run_mask sc ?c) i" for i
    using that c(2) by (metis bit_take_bit_iff)
  show "\<exists>i<32. bit (run_expr sc ?c) i"
    using c(1) sub lt unfolding int_nonzero_bit by blast
  show "\<not> bit (core_run_mask sc ?c) i"
    if "k < length (sc_cores sc)" "k \<noteq> j" "bit (run_expr sc (sc_cores sc ! k)) i"
    using assms that unfolding separable_def and_zero_iff by blast
qed

lemma running_new_control:
  assumes "separable sc" "length eff = length (sc_cores sc)" "j < length (sc_cores sc)"
  shows "core_running sc (u32 (new_control sc eff ctrl)) (sc_cores sc ! j) \<longleftrightarrow> eff ! j"
proof -
  note d = separableD [OF assms(1,3)]
  have u: "bit (u32 x) i \<longleftrightarrow> i < 32 \<and> bit x i" for x i
    by (auto simp: u32_take_bit bit_take_bit_iff)
  have mem: "sc_cores sc ! j \<in> set (sc_cores sc)" using assms(3) by simp
  show ?thesis
  proof
    assume "core_running sc (u32 (new_control sc eff ctrl)) (sc_cores sc ! j)"
    then obtain i where i: "bit (new_control sc eff ctrl) i" "bit (core_run_mask sc (sc_cores sc ! j)) i"
      unfolding core_running_iff u by blast
    with mem obtain k where k: "k < length (sc_cores sc)" "eff ! k" "bit (run_expr sc (sc_cores sc ! k)) i"
      unfolding bit_new_control [OF assms(2)] by blast
    with d(4) i(2) have "k = j" by blast
    with k show "eff ! j" by simp
  next
    assume "eff ! j"
    moreover obtain i where "i < 32" "bit (run_expr sc (sc_cores sc ! j)) i" using d(1) by blast
    ultimately show "core_running sc (u32 (new_control sc eff ctrl)) (sc_cores sc ! j)"
      using d(2) assms(3) unfolding core_running_iff u bit_new_control [OF assms(2)] by blast
  qed
qed

section \<open>The port and the effect\<close>

locale run_port =
  fixes bus :: "'b dash_bus" and sc :: scenario and C :: int and ctl :: "'b \<Rightarrow> int"
    and inv :: "'b \<Rightarrow> bool"
  assumes control: "inv s \<Longrightarrow> co sc ''control'' = Some C"
    and read_law: "inv s \<Longrightarrow> db_read bus ''ctrl'' C 1 s = (Inr [ctl s], s)"
    and write_law: "inv s \<Longrightarrow> is_u32 v \<Longrightarrow>
          \<exists>t. db_write bus ''ctrl'' C v s = (Inr (), t) \<and> inv t \<and> ctl t = v"
    and mirror_law: "inv s \<Longrightarrow> co sc ''status'' = Some so \<Longrightarrow>
          \<exists>st. db_read bus ''ctrl'' so 1 s = (Inr [st], s) \<and>
            (\<forall>c\<in>set (sc_cores sc). \<forall>b. dict_get (sc_status_bits sc) (running_bit_name c) = Some b \<longrightarrow>
               (bit st b \<longleftrightarrow> core_running sc (ctl s) c))"
begin

lemma set_core_run_effect:
  assumes "inv s" "separable sc" "idx < length (sc_cores sc)"
  shows "\<exists>new t. set_core_run bus sc idx run s = (Inr (ctl s, new, None), t)
     \<and> inv t \<and> ctl t = new
     \<and> (\<forall>j<length (sc_cores sc). core_running sc new (sc_cores sc ! j)
           \<longleftrightarrow> (if j = idx then run else core_running sc (ctl s) (sc_cores sc ! j)))
     \<and> (\<forall>i<32. (\<forall>c\<in>set (sc_cores sc). \<not> bit (core_run_mask sc c) i) \<longrightarrow> (bit new i \<longleftrightarrow> bit (ctl s) i))"
proof -
  define eff where "eff = (map (core_running sc (ctl s)) (sc_cores sc))[idx := run]"
  define new where "new = u32 (new_control sc eff (ctl s))"
  have l: "length eff = length (sc_cores sc)" by (simp add: eff_def)
  have e: "eff ! j \<longleftrightarrow> (if j = idx then run else core_running sc (ctl s) (sc_cores sc ! j))"
    if "j < length (sc_cores sc)" for j
    using that assms(3) by (simp add: eff_def nth_list_update)
  have run: "core_running sc new (sc_cores sc ! j) \<longleftrightarrow> eff ! j" if "j < length (sc_cores sc)" for j
    unfolding new_def by (rule running_new_control [OF assms(2) l that])
  have keep: "bit new i \<longleftrightarrow> bit (ctl s) i"
    if "i < 32" "\<forall>c\<in>set (sc_cores sc). \<not> bit (core_run_mask sc c) i" for i
  proof -
    have "\<not> bit (run_expr sc (sc_cores sc ! j)) i" if "j < length (sc_cores sc)" for j
      using separableD(2) [OF assms(2) that] \<open>\<forall>c\<in>set (sc_cores sc). _ c\<close> that by (metis nth_mem)
    then show ?thesis
      using that unfolding new_def u32_take_bit bit_take_bit_iff bit_new_control [OF l] by blast
  qed
  obtain t where t: "db_write bus ''ctrl'' C new s = (Inr (), t)" "inv t" "ctl t = new"
    using write_law [OF assms(1), of new] by (auto simp: new_def)
  have r: "read1 bus ''ctrl'' C s = (Inr (ctl s), s)"
    using read_law [OF assms(1)] by (rule read1_ok)
  have cold: "cold_cores sc eff st = []" if st: "db_read bus ''ctrl'' so 1 t = (Inr [st], t)"
    and so: "co sc ''status'' = Some so" for so st
  proof -
    have "drop_bit b st AND 1 \<noteq> 0" if i: "i \<in> set (want_mirror sc eff)"
      and b: "dict_get (sc_status_bits sc) (running_bit_name (sc_cores sc ! i)) = Some b" for i b
    proof -
      have i': "i < length (sc_cores sc)" "eff ! i" using i by (auto simp: want_mirror_def)
      have rn: "core_running sc (ctl t) (sc_cores sc ! i)" using run [OF i'(1)] i'(2) t(3) by simp
      from mirror_law [OF t(2) so] obtain st' where
        m: "db_read bus ''ctrl'' so 1 t = (Inr [st'], t)"
          "\<forall>c\<in>set (sc_cores sc). \<forall>b. dict_get (sc_status_bits sc) (running_bit_name c) = Some b \<longrightarrow>
               (bit st' b \<longleftrightarrow> core_running sc (ctl t) c)"
        by blast
      have "st' = st" using m(1) st by simp
      then have "bit st b" using m(2) nth_mem [OF i'(1)] b rn by blast
      then show ?thesis by (simp add: and_one_eq bit_iff_odd odd_iff_mod_2_eq_one drop_bit_eq_div)
    qed
    then show ?thesis
      by (auto simp: cold_cores_def want_mirror_def filter_empty_conv dict_get_or_def dict_get_def)
  qed
  have "set_core_run bus sc idx run s = (Inr (ctl s, new, None), t)"
  proof (cases "co sc ''status''")
    case None
    with r t(1) assms(3) show ?thesis
      by (simp add: set_core_run_def control [OF assms(1)] bnd_def andthen_def Let_def
          flip: eff_def u32_def new_def)
  next
    case (Some so)
    obtain st where st: "db_read bus ''ctrl'' so 1 t = (Inr [st], t)"
      using mirror_law [OF t(2) Some] by blast
    then have r1: "read1 bus ''ctrl'' so t = (Inr st, t)" by (rule read1_ok)
    show ?thesis
      using r t(1) assms(3) Some r1 cold [OF st Some]
      by (cases "want_mirror sc eff")
         (simp_all add: set_core_run_def control [OF assms(1)] bnd_def andthen_def Let_def
          flip: eff_def u32_def new_def)
  qed
  then show ?thesis using t(2,3) run e keep by blast
qed

end

section \<open>The port on the register simulation\<close>

definition mirror_of :: "scenario \<Rightarrow> core \<Rightarrow> nat option" where
  "mirror_of sc c = dict_get (sc_status_bits sc) (running_bit_name c)"

lemma mirror_fold_other:
  "b \<notin> set (List.map_filter (mirror_of sc) cs) \<Longrightarrow> bit (fold (mirror_bit sc ctrl) cs st) b \<longleftrightarrow> bit st b"
proof (induction cs arbitrary: st)
  case (Cons c cs)
  have "bit (mirror_bit sc ctrl c st) b \<longleftrightarrow> bit st b"
    using Cons.prems
    by (auto simp: mirror_bit_def mirror_of_def map_filter_simps bit_or_iff bit_and_iff bit_not_iff
        push_bit_eq_mult bit_exp_iff split: option.splits)
  moreover have "b \<notin> set (List.map_filter (mirror_of sc) cs)"
    using Cons.prems by (auto simp: map_filter_simps split: option.splits)
  ultimately show ?case using Cons.IH by simp
qed simp

lemma mirror_fold:
  "distinct (List.map_filter (mirror_of sc) cs) \<Longrightarrow> c \<in> set cs \<Longrightarrow> mirror_of sc c = Some b \<Longrightarrow>
     bit (fold (mirror_bit sc ctrl) cs st) b \<longleftrightarrow> core_running sc ctrl c"
proof (induction cs arbitrary: st)
  case (Cons d cs)
  show ?case
  proof (cases "c \<in> set cs")
    case True
    with Cons show ?thesis by (auto simp: map_filter_simps split: option.splits)
  next
    case False
    with Cons.prems have d: "d = c" by simp
    with Cons.prems have "b \<notin> set (List.map_filter (mirror_of sc) cs)"
      by (auto simp: map_filter_simps)
    moreover have "bit (mirror_bit sc ctrl c st) b \<longleftrightarrow> core_running sc ctrl c"
      using Cons.prems(3)
      by (auto simp: mirror_bit_def mirror_of_def bit_or_iff bit_and_iff bit_not_iff
          push_bit_eq_mult bit_exp_iff)
    ultimately show ?thesis by (simp add: d mirror_fold_other)
  qed
qed simp

text \<open>The CTRL block holds every register of the scenario, CONTROL alone in its first word.\<close>

definition ctrl_layout :: "scenario \<Rightarrow> byte list \<Rightarrow> bool" where
  "ctrl_layout sc bs \<longleftrightarrow> 4 \<le> length bs \<and>
     (\<forall>(n, off)\<in>set (sc_ctrl sc). 0 \<le> off \<and> off + 4 \<le> int (length bs) \<and> (n \<noteq> ''control'' \<longrightarrow> 4 \<le> off))"

definition wf_run_scenario :: "scenario \<Rightarrow> regmap \<Rightarrow> bool" where
  "wf_run_scenario sc rm \<longleftrightarrow> co sc ''control'' = Some 0 \<and> w1c_mask rm ''ctrl'' 0 = 0
     \<and> distinct (List.map_filter (mirror_of sc) (sc_cores sc))
     \<and> (\<forall>b\<in>set (List.map_filter (mirror_of sc) (sc_cores sc)). b < 32)"

definition demo_ctl :: "demo \<Rightarrow> int" where
  "demo_ctl s = (case dict_get (dm_mem s) ''ctrl'' of None \<Rightarrow> 0
     | Some bs \<Rightarrow> (case get32 bs 0 of Inr w \<Rightarrow> w | Inl _ \<Rightarrow> 0))"

definition mirrors :: "scenario \<Rightarrow> byte list \<Rightarrow> int \<Rightarrow> bool" where
  "mirrors sc bs ctrl \<longleftrightarrow>
     (case co sc ''status'' of None \<Rightarrow> True
      | Some so \<Rightarrow> (case get32 bs so of Inl _ \<Rightarrow> False
          | Inr st \<Rightarrow> \<forall>c\<in>set (sc_cores sc). \<forall>b\<in>set_option (mirror_of sc c). bit st b \<longleftrightarrow> core_running sc ctrl c))"

definition demo_run_ok :: "scenario \<Rightarrow> regmap \<Rightarrow> demo \<Rightarrow> bool" where
  "demo_run_ok sc rm s \<longleftrightarrow> wf_run_scenario sc rm \<and>
     (case dict_get (dm_mem s) ''ctrl'' of None \<Rightarrow> False
      | Some bs \<Rightarrow> ctrl_layout sc bs \<and> mirrors sc bs (demo_ctl s))"

lemma co_layout:
  assumes "ctrl_layout sc bs" "co sc n = Some off"
  shows "0 \<le> off" "off + 4 \<le> int (length bs)" "n \<noteq> ''control'' \<Longrightarrow> 4 \<le> off"
  using assms map_of_SomeD [of "sc_ctrl sc" n off]
  by (auto simp: ctrl_layout_def co_def dict_get_def)

lemma nat_plus_le: "0 \<le> off \<Longrightarrow> nat off + 4 \<le> n \<longleftrightarrow> off + 4 \<le> int n"
  by linarith

lemma layout_put32:
  assumes "ctrl_layout sc bs" "co sc n = Some off" "is_u32 v"
  shows "\<exists>bs'. put32 bs off v = Inr bs' \<and> ctrl_layout sc bs' \<and> get32 bs' off = Inr v
     \<and> (n \<noteq> ''control'' \<longrightarrow> get32 bs' 0 = get32 bs 0)"
proof -
  note l = co_layout [OF assms(1,2)]
  obtain bs' where p: "put32 bs off v = Inr bs'"
    using put32_ok [of "nat off" bs v] l assms(3) by (auto simp: nat_plus_le)
  have s: "get32 bs' off = Inr v" "length bs' = length bs"
    using get32_put32_same [OF p] by simp_all
  moreover have "get32 bs' 0 = get32 bs 0" if "n \<noteq> ''control''"
    using get32_put32_other [of bs "nat off" v bs' 0] p l that by simp
  ultimately show ?thesis using p assms(1) by (auto simp: ctrl_layout_def)
qed

definition has_layout :: "scenario \<Rightarrow> demo \<Rightarrow> bool" where
  "has_layout sc s \<longleftrightarrow> (\<exists>bs. dict_get (dm_mem s) ''ctrl'' = Some bs \<and> ctrl_layout sc bs)"

lemma put_layout:
  assumes "has_layout sc s" "co sc n = Some off" "is_u32 v"
  shows "\<exists>s' bs'. mem_put ''ctrl'' off v s = (Inr (), s') \<and> dict_get (dm_mem s') ''ctrl'' = Some bs'
     \<and> ctrl_layout sc bs' \<and> get32 bs' off = Inr v \<and> (n \<noteq> ''control'' \<longrightarrow> demo_ctl s' = demo_ctl s)"
proof -
  obtain bs where bs: "dict_get (dm_mem s) ''ctrl'' = Some bs" "ctrl_layout sc bs"
    using assms(1) by (auto simp: has_layout_def)
  obtain bs' where "put32 bs off v = Inr bs'" "ctrl_layout sc bs'" "get32 bs' off = Inr v"
      "n \<noteq> ''control'' \<longrightarrow> get32 bs' 0 = get32 bs 0"
    using layout_put32 [OF bs(2) assms(2,3)] by blast
  then show ?thesis
    using bs(1) by (auto simp: mem_put_ok dict_get_set demo_ctl_def)
qed

lemma cp_layout:
  "has_layout sc s \<Longrightarrow> \<exists>s'. cp sc n v s = (Inr (), s') \<and> has_layout sc s'"
proof (cases "co sc n")
  case (Some off)
  assume "has_layout sc s"
  from put_layout [OF this Some, of "v AND 0xFFFFFFFF"] Some show ?thesis
    by (auto simp: cp_def has_layout_def simp flip: u32_def)
qed (simp add: cp_def)

lemma write_control_layout:
  assumes "has_layout sc s"
  shows "\<exists>s'. write_control sc v s = (Inr (), s') \<and> has_layout sc s'"
proof -
  have f: "has_layout sc (s\<lparr>dm_traced := x\<rparr>) = has_layout sc s"
    "has_layout sc (s\<lparr>dm_con_n := x, dm_con_t0 := y\<rparr>) = has_layout sc s" for s x y
    by (simp_all add: has_layout_def)
  have seq: "\<exists>s'. andthen m1 m2 s = (Inr (), s') \<and> has_layout sc s'"
    if "\<And>s. has_layout sc s \<Longrightarrow> \<exists>s'. m1 s = (Inr (), s') \<and> has_layout sc s'"
      "\<And>s. has_layout sc s \<Longrightarrow> \<exists>s'. m2 s = (Inr (), s') \<and> has_layout sc s'" "has_layout sc s"
    for m1 m2 :: "(demo, unit) act" and s
    using that by (auto simp: andthen_def bnd_def) (metis (no_types, lifting) case_prod_conv sum.case(2))
  have w: "\<exists>s'. act_when b m s = (Inr (), s') \<and> has_layout sc s'"
    if "\<And>s. has_layout sc s \<Longrightarrow> \<exists>s'. m s = (Inr (), s') \<and> has_layout sc s'" "has_layout sc s"
    for b and m :: "(demo, unit) act" and s
    using that by (cases b) auto
  show ?thesis
    unfolding write_control_def using assms f
    by (intro seq w cp_layout) auto
qed

lemma mirror_status_ok:
  assumes "wf_run_scenario sc rm" "has_layout sc s"
  shows "\<exists>s'. mirror_status sc s = (Inr (), s') \<and> demo_run_ok sc rm s' \<and> demo_ctl s' = demo_ctl s"
proof (cases "co sc ''status''")
  case None
  with assms show ?thesis by (auto simp: mirror_status_def demo_run_ok_def has_layout_def mirrors_def)
next
  case (Some so)
  obtain bs where bs: "dict_get (dm_mem s) ''ctrl'' = Some bs" "ctrl_layout sc bs"
    using assms(2) by (auto simp: has_layout_def)
  have g: "\<exists>w. get32 bs (int k) = Inr w" if "k + 4 \<le> length bs" for k
    using that by (simp add: get32_def buf_pos_nonneg)
  obtain ctrl where c: "get32 bs 0 = Inr ctrl" using g [of 0] bs(2) by (auto simp: ctrl_layout_def)
  obtain st where st: "get32 bs so = Inr st"
    using g [of "nat so"] co_layout [OF bs(2) Some] by (auto simp: nat_plus_le)
  define x where "x = fold (mirror_bit sc ctrl) (sc_cores sc) st AND 0xFFFFFFFF"
  have "is_u32 x" by (simp add: x_def flip: u32_def)
  from put_layout [OF assms(2) Some this] obtain s' bs' where
    p: "mem_put ''ctrl'' so x s = (Inr (), s')" "dict_get (dm_mem s') ''ctrl'' = Some bs'"
      "ctrl_layout sc bs'" "get32 bs' so = Inr x" "demo_ctl s' = demo_ctl s"
    by auto
  have dc: "demo_ctl s = ctrl" using bs(1) c by (simp add: demo_ctl_def)
  have "bit x b \<longleftrightarrow> core_running sc ctrl d" if "d \<in> set (sc_cores sc)" "mirror_of sc d = Some b" for d b
  proof -
    have "b \<in> set (List.map_filter (mirror_of sc) (sc_cores sc))"
      using that by (force simp: map_filter_def)
    then have "b < 32" using assms(1) by (auto simp: wf_run_scenario_def)
    then show ?thesis
      using mirror_fold [of sc "sc_cores sc" d b ctrl st] that assms(1)
      by (simp add: x_def bit_and_iff bit_mask32 wf_run_scenario_def)
  qed
  then have "mirrors sc bs' ctrl" using p(4) Some by (auto simp: mirrors_def)
  moreover have "mirror_status sc s = (Inr (), s')"
    using Some bs(1) c st p(1) by (simp add: mirror_status_def bnd_def mem_get_ok x_def)
  ultimately show ?thesis using p assms(1) dc by (auto simp: demo_run_ok_def)
qed

lemma demo_write_control:
  assumes "demo_run_ok sc rm s" "is_u32 v"
  shows "\<exists>t. demo_write sc rm ''ctrl'' 0 v s = (Inr (), t) \<and> demo_run_ok sc rm t \<and> demo_ctl t = v"
proof -
  have wf: "wf_run_scenario sc rm" and lay: "has_layout sc s"
    using assms(1) by (auto simp: demo_run_ok_def has_layout_def split: option.splits)
  have co: "co sc ''control'' = Some 0" "w1c_mask rm ''ctrl'' 0 = 0"
    using wf by (simp_all add: wf_run_scenario_def)
  have ns: "co sc ''sink_ctrl'' \<noteq> Some 0"
    using lay co_layout(3) [of sc _ "''sink_ctrl''" 0] by (auto simp: has_layout_def)
  obtain s1 where s1: "write_control sc v s = (Inr (), s1)" "has_layout sc s1"
    using write_control_layout [OF lay] by blast
  obtain s2 bs2 where s2: "mem_put ''ctrl'' 0 v s1 = (Inr (), s2)" "dict_get (dm_mem s2) ''ctrl'' = Some bs2"
      "ctrl_layout sc bs2" "get32 bs2 0 = Inr v"
    using put_layout [OF s1(2) co(1) assms(2)] by blast
  then have "has_layout sc s2" "demo_ctl s2 = v" by (auto simp: has_layout_def demo_ctl_def)
  then obtain t where t: "mirror_status sc s2 = (Inr (), t)" "demo_run_ok sc rm t" "demo_ctl t = v"
    using mirror_status_ok [OF wf] by metis
  have e: "''ctrl'' \<notin> set ENC_REGIONS" by (simp add: ENC_REGIONS_def)
  have "v AND 0xFFFFFFFF = v" using assms(2) by (simp add: is_u32_def flip: u32_def)
  then have "demo_write sc rm ''ctrl'' 0 v s = (Inr (), t)"
    using co ns s1 s2 t e
    by (simp add: demo_write_def andthen_def bnd_def apply_gate_def apply_w1c_def)
  with t show ?thesis by blast
qed

lemma demo_read_word:
  "dict_get (dm_mem s) region = Some bs \<Longrightarrow> get32 bs off = Inr w \<Longrightarrow> region \<notin> set ENC_REGIONS \<Longrightarrow>
     demo_read region off 1 s = (Inr [w], s)"
  using get32s_1 [of bs off] by (simp add: demo_read_def region_mem_ok bnd_def lift_exn_def)

interpretation demo: run_port "demo_bus sc rm" sc 0 demo_ctl "demo_run_ok sc rm" for sc rm
proof unfold_locales
  fix s assume ok: "demo_run_ok sc rm s"
  then obtain bs where bs: "dict_get (dm_mem s) ''ctrl'' = Some bs" "ctrl_layout sc bs"
      "mirrors sc bs (demo_ctl s)"
    by (auto simp: demo_run_ok_def split: option.splits)
  show "co sc ''control'' = Some 0" using ok by (simp add: demo_run_ok_def wf_run_scenario_def)
  have e: "''ctrl'' \<notin> set ENC_REGIONS" by (simp add: ENC_REGIONS_def)
  obtain w where "get32 bs 0 = Inr w"
    using bs(2) by (auto simp: get32_def buf_pos_def ctrl_layout_def)
  with bs(1) e show "db_read (demo_bus sc rm) ''ctrl'' 0 1 s = (Inr [demo_ctl s], s)"
    using demo_read_word [of s "''ctrl''" bs 0 w] by (simp add: demo_bus_def demo_ctl_def)
  show "\<exists>t. db_write (demo_bus sc rm) ''ctrl'' 0 v s = (Inr (), t) \<and> demo_run_ok sc rm t \<and> demo_ctl t = v"
    if "is_u32 v" for v
    using demo_write_control [OF ok that] by (simp add: demo_bus_def)
  show "\<exists>st. db_read (demo_bus sc rm) ''ctrl'' so 1 s = (Inr [st], s) \<and>
      (\<forall>c\<in>set (sc_cores sc). \<forall>b. dict_get (sc_status_bits sc) (running_bit_name c) = Some b \<longrightarrow>
         (bit st b \<longleftrightarrow> core_running sc (demo_ctl s) c))"
    if so: "co sc ''status'' = Some so" for so
  proof -
    from bs(3) so obtain st where st: "get32 bs so = Inr st"
        "\<forall>c\<in>set (sc_cores sc). \<forall>b\<in>set_option (mirror_of sc c). bit st b \<longleftrightarrow> core_running sc (demo_ctl s) c"
      by (auto simp: mirrors_def split: sum.splits)
    then show ?thesis
      using demo_read_word [OF bs(1) st(1) e] by (auto simp: demo_bus_def mirror_of_def)
  qed
qed

section \<open>Starting and stopping cores\<close>

text \<open>C7: Starting or stopping one core sets the effective run state of exactly that core: every
  other core keeps running or stays stopped, whether it ran by its own bit or by the collective
  one; no other CONTROL bit below 32 changes, and the per-core mirror check passes.\<close>

theorem set_core_run_exact:
  assumes "demo_run_ok sc rm s" "separable sc" "idx < length (sc_cores sc)"
  shows "\<exists>new t. set_core_run (demo_bus sc rm) sc idx run s = (Inr (demo_ctl s, new, None), t)
     \<and> demo_run_ok sc rm t \<and> demo_ctl t = new
     \<and> (\<forall>j<length (sc_cores sc). core_running sc new (sc_cores sc ! j)
           \<longleftrightarrow> (if j = idx then run else core_running sc (demo_ctl s) (sc_cores sc ! j)))
     \<and> (\<forall>i<32. (\<forall>c\<in>set (sc_cores sc). \<not> bit (core_run_mask sc c) i) \<longrightarrow> (bit new i \<longleftrightarrow> bit (demo_ctl s) i))"
  using demo.set_core_run_effect [OF assms] .

lemma mini_separable: "separable mini_sc"
  by code_simp

lemma mini_run_ok: "demo_run_ok mini_sc mini_rm (mini_demo 0 0)"
  by code_simp

theorem set_core_run_exact_witness:
  "\<exists>new t. set_core_run (demo_bus mini_sc mini_rm) mini_sc 1 True (mini_demo 0 0) = (Inr (0, new, None), t)
     \<and> core_running mini_sc new (sc_cores mini_sc ! 1) \<and> \<not> core_running mini_sc new (sc_cores mini_sc ! 0)"
proof -
  have l: "length (sc_cores mini_sc) = 2" "demo_ctl (mini_demo 0 0) = 0"
    "\<not> core_running mini_sc 0 (sc_cores mini_sc ! 0)" by code_simp+
  then have "1 < length (sc_cores mini_sc)" by simp
  from set_core_run_exact [OF mini_run_ok mini_separable this, of True] l show ?thesis
    by auto
qed

text \<open>All running cores with a declared protocol agree on it: the merged stream is decodable.\<close>

definition one_protocol :: "scenario \<Rightarrow> int \<Rightarrow> bool" where
  "one_protocol sc ctrl \<longleftrightarrow>
     (\<forall>c\<in>set (sc_cores sc). \<forall>d\<in>set (sc_cores sc). \<forall>p q.
        core_running sc ctrl c \<longrightarrow> core_running sc ctrl d \<longrightarrow>
        core_protocol c = Some p \<longrightarrow> core_protocol d = Some q \<longrightarrow> p = q)"

text \<open>Start one core behind the interlock: what \<open>core_run\<close> of the server does.\<close>

definition locked_start :: "'b dash_bus \<Rightarrow> scenario \<Rightarrow> nat \<Rightarrow> ('b, refusal option) act" where
  "locked_start bus sc idx =
     bnd (protocol_lock_reason bus sc (Some idx)) (\<lambda>why.
       case why of Some r \<Rightarrow> ret (Some r)
       | None \<Rightarrow> bnd (set_core_run bus sc idx True) (\<lambda>_. ret None))"

lemma busy_cores_empty:
  "busy_cores sc (Some k) (Some mine) ctrl = [] \<longleftrightarrow>
     (\<forall>i<length (sc_cores sc). i \<noteq> k \<longrightarrow> core_running sc ctrl (sc_cores sc ! i) \<longrightarrow>
        core_protocol (sc_cores sc ! i) = None \<or> core_protocol (sc_cores sc ! i) = Some mine)"
proof -
  have e: "set (List.enumerate 0 (sc_cores sc)) = (\<lambda>i. (i, sc_cores sc ! i)) ` {..<length (sc_cores sc)}"
    by (auto simp: enumerate_eq_zip set_zip intro!: exI)
  show ?thesis
    by (simp add: busy_cores_def filter_empty_conv e) blast
qed

lemma lock_reason_pure:
  assumes "demo_run_ok sc rm s" "k < length (sc_cores sc)"
  shows "\<exists>why. protocol_lock_reason (demo_bus sc rm) sc (Some k) s = (Inr why, s)
    \<and> (why = None \<longleftrightarrow> length (protocols sc) < 2 \<or> core_protocol (sc_cores sc ! k) = None
         \<or> busy_cores sc (Some k) (core_protocol (sc_cores sc ! k)) (demo_ctl s) = [])"
proof -
  have r: "read1 (demo_bus sc rm) ''ctrl'' 0 s = (Inr (demo_ctl s), s)"
    using demo.read_law [OF assms(1)] by (rule read1_ok)
  show ?thesis
    using assms(2) demo.control [OF assms(1)] r
    by (cases "core_protocol (sc_cores sc ! k)")
       (auto simp: protocol_lock_reason_def Let_def bnd_def)
qed

text \<open>The protocol interlock is safe: from a state in which all running cores speak one
  protocol, a start behind the interlock either is refused and changes nothing, or leads to a state
  in which all running cores still speak one protocol.\<close>

lemma locked_start_one_protocol:
  assumes "demo_run_ok sc rm s" "separable sc" "idx < length (sc_cores sc)" "one_protocol sc (demo_ctl s)"
  shows "\<exists>why t. locked_start (demo_bus sc rm) sc idx s = (Inr why, t) \<and> demo_run_ok sc rm t
     \<and> one_protocol sc (demo_ctl t) \<and> (why \<noteq> None \<longrightarrow> t = s)
     \<and> (why = None \<longrightarrow> core_running sc (demo_ctl t) (sc_cores sc ! idx))"
proof -
  obtain why where w: "protocol_lock_reason (demo_bus sc rm) sc (Some idx) s = (Inr why, s)"
      "why = None \<longleftrightarrow> length (protocols sc) < 2 \<or> core_protocol (sc_cores sc ! idx) = None
         \<or> busy_cores sc (Some idx) (core_protocol (sc_cores sc ! idx)) (demo_ctl s) = []"
    using lock_reason_pure [OF assms(1,3)] by blast
  show ?thesis
  proof (cases why)
    case (Some r)
    with w assms show ?thesis by (simp add: locked_start_def bnd_def)
  next
    case None
    obtain new t where t: "set_core_run (demo_bus sc rm) sc idx True s = (Inr (demo_ctl s, new, None), t)"
        "demo_run_ok sc rm t" "demo_ctl t = new"
        "\<forall>j<length (sc_cores sc). core_running sc new (sc_cores sc ! j)
           \<longleftrightarrow> j = idx \<or> core_running sc (demo_ctl s) (sc_cores sc ! j)"
      using demo.set_core_run_effect [OF assms(1-3), of True] by auto
    have other: "core_protocol (sc_cores sc ! j) = core_protocol (sc_cores sc ! idx)"
      if j: "j < length (sc_cores sc)" "core_running sc new (sc_cores sc ! j)"
        and p: "core_protocol (sc_cores sc ! j) = Some p" and m: "core_protocol (sc_cores sc ! idx) = Some m"
      for j p m
    proof (cases "length (protocols sc) < 2")
      case True
      then show ?thesis unfolding protocols_less_2 using j p m assms(3) by (metis nth_mem)
    next
      case False
      with None w(2) m have "busy_cores sc (Some idx) (Some m) (demo_ctl s) = []" by simp
      with j p m t(4) show ?thesis unfolding busy_cores_empty by (metis option.distinct(1))
    qed
    have "one_protocol sc new"
      unfolding one_protocol_def
    proof (intro ballI allI impI)
      fix c d p q
      assume h: "c \<in> set (sc_cores sc)" "d \<in> set (sc_cores sc)" "core_running sc new c"
        "core_running sc new d" "core_protocol c = Some p" "core_protocol d = Some q"
      obtain i j where ij: "i < length (sc_cores sc)" "c = sc_cores sc ! i"
          "j < length (sc_cores sc)" "d = sc_cores sc ! j"
        using h(1,2) by (metis in_set_conv_nth)
      consider "i = idx" | "j = idx" | "i \<noteq> idx" "j \<noteq> idx" by blast
      then show "p = q"
      proof cases
        case 1
        with other [of j q p] ij h show ?thesis by simp
      next
        case 2
        with other [of i p q] ij h show ?thesis by simp
      next
        case 3
        with ij h t(4) have "core_running sc (demo_ctl s) c" "core_running sc (demo_ctl s) d" by auto
        with assms(4) h show ?thesis unfolding one_protocol_def by blast
      qed
    qed
    moreover have "locked_start (demo_bus sc rm) sc idx s = (Inr None, t)"
      using w(1) None t(1) by (simp add: locked_start_def bnd_def)
    ultimately show ?thesis using t assms(3) by auto
  qed
qed

lemma locked_start_one_protocol_witness:
  "\<exists>why t. locked_start (demo_bus mini_sc mini_rm) mini_sc 1 (mini_demo 0 0) = (Inr why, t)
     \<and> one_protocol mini_sc (demo_ctl t)"
proof -
  have "demo_ctl (mini_demo 0 0) = 0" by code_simp
  then have l: "1 < length (sc_cores mini_sc)" "one_protocol mini_sc (demo_ctl (mini_demo 0 0))"
    by (code_simp, simp add: one_protocol_def core_running_def)
  from locked_start_one_protocol [OF mini_run_ok mini_separable l] show ?thesis by blast
qed

end
