(* ===== verification/Hw_Bus.thy ===== *)
theory Hw_Bus
  imports Core_Run
begin

unbundle bit_operations_syntax

text \<open>
  The live bus \<open>HwBus\<close> of the dashboard server over mapped memory: word access (bounds as
  \<open>ctypes.from_buffer\<close> checks them), the word-wise block write, and the physical reads and writes
  with their page arithmetic and the guard of the reserved window. The memory behind the
  mappings is a parameter of the state. \<open>trace_bus\<close> is a bus with the dump operations.
\<close>

record hw =
  hw_maps :: "(string, byte list) dict"
  hw_phys :: "int \<Rightarrow> byte"

definition value_error :: "string \<Rightarrow> exn" where
  "value_error t = Exn ValueError t []"

definition hw_map :: "string \<Rightarrow> (hw, byte list) act" where
  "hw_map region s = (case dict_get (hw_maps s) region of
     None \<Rightarrow> (Inl (key_error region), s) | Some bs \<Rightarrow> (Inr bs, s))"

definition cell_get :: "byte list \<Rightarrow> int \<Rightarrow> exn + int" where
  "cell_get bs off = (if off < 0 \<or> int (length bs) < off + 4 then Inl (value_error ''buffer size'')
     else get32 bs off)"

definition cell_put :: "byte list \<Rightarrow> int \<Rightarrow> int \<Rightarrow> exn + byte list" where
  "cell_put bs off v = (if off < 0 \<or> int (length bs) < off + 4 then Inl (value_error ''buffer size'')
     else put32 bs off (v AND 0xFFFFFFFF))"

definition hw_read :: "string \<Rightarrow> int \<Rightarrow> nat \<Rightarrow> (hw, int list) act" where
  "hw_read region off n =
     bnd (hw_map region) (\<lambda>bs. map_act (\<lambda>i. lift_exn (cell_get bs (off + 4 * int i))) [0..<n])"

definition hw_write :: "string \<Rightarrow> int \<Rightarrow> int \<Rightarrow> (hw, unit) act" where
  "hw_write region off v =
     bnd (hw_map region) (\<lambda>bs. bnd (lift_exn (cell_put bs off v))
       (\<lambda>bs'. modify (\<lambda>s. s\<lparr>hw_maps := dict_set region bs' (hw_maps s)\<rparr>)))"

text \<open>The data is padded with zero bytes to whole words.\<close>

definition pad4 :: "byte list \<Rightarrow> byte list" where
  "pad4 data = (if length data mod 4 \<noteq> 0 then data @ replicate (4 - length data mod 4) 0 else data)"

definition hw_write_block :: "string \<Rightarrow> int \<Rightarrow> byte list \<Rightarrow> (hw, unit) act" where
  "hw_write_block region off data =
     bnd (hw_map region) (\<lambda>_.
       for_each (List.enumerate 0 (unpack_words (pad4 data)))
         (\<lambda>(i, w). hw_write region (off + 4 * int i) w))"

text \<open>A slice \<open>xs[a:b]\<close> with non-negative bounds.\<close>

definition slice :: "'a list \<Rightarrow> int \<Rightarrow> int \<Rightarrow> 'a list" where
  "slice xs a b = take (nat b - nat a) (drop (nat a) xs)"

definition phys_bytes :: "(int \<Rightarrow> byte) \<Rightarrow> int \<Rightarrow> int \<Rightarrow> byte list" where
  "phys_bytes m a n = map (\<lambda>k. m (a + int k)) [0..<nat n]"

text \<open>A mapping of \<open>mlen\<close> bytes at the page; only its first \<open>span\<close> bytes are copied. (A negative
  length is outside the model: the callers are shown not to ask for one.)\<close>

definition hw_phys_read :: "int \<Rightarrow> int \<Rightarrow> (hw, byte list) act" where
  "hw_phys_read addr n = bnd get_state (\<lambda>s.
     let page = addr AND NOT 0xFFF;
         off = addr - page;
         span = (off + n + 15) AND NOT 15;
         mlen = (off + n + 0xFFF) AND NOT 0xFFF;
         raw = slice (phys_bytes (hw_phys s) page mlen) 0 span in
     ret (slice raw off (off + n)))"

definition PL_WIN_LO :: int where "PL_WIN_LO = 0x60000000"
definition PL_WIN_HI :: int where "PL_WIN_HI = 0x70000000"

definition hw_phys_write :: "int \<Rightarrow> byte list \<Rightarrow> (hw, unit) act" where
  "hw_phys_write addr data =
     (if \<not> (PL_WIN_LO \<le> addr \<and> addr + int (length data) \<le> PL_WIN_HI)
      then raise (Exn ValueError ''phys_write outside reserved PL window'' [AI PL_WIN_LO, AI (PL_WIN_HI - 1)])
      else modify (\<lambda>s. s\<lparr>hw_phys := (\<lambda>a. if addr \<le> a \<and> a < addr + int (length data)
                                     then data ! nat (a - addr) else hw_phys s a)\<rparr>))"

definition hw_bus :: "hw dash_bus" where
  "hw_bus = \<lparr> db_read = hw_read, db_write = hw_write, db_write_block = hw_write_block, db_demo = False \<rparr>"

section \<open>A bus with its dumps\<close>

record 'b trace_bus =
  tb_bus :: "'b dash_bus"
  tb_uram_dump :: "('b, byte list) act"
  tb_ddr_dump :: "('b, byte list) act"
  tb_con_dump :: "('b, byte list) act"
  tb_phys_read :: "int \<Rightarrow> int \<Rightarrow> ('b, byte list) act"

definition no_attr :: "('b, 'a) act" where
  "no_attr = raise (Exn TypeError ''no such attribute'' [])"

definition hw_trace_bus :: "hw trace_bus" where
  "hw_trace_bus = \<lparr> tb_bus = hw_bus, tb_uram_dump = no_attr, tb_ddr_dump = no_attr,
     tb_con_dump = no_attr, tb_phys_read = hw_phys_read \<rparr>"

definition demo_trace_bus :: "scenario \<Rightarrow> regmap \<Rightarrow> demo trace_bus" where
  "demo_trace_bus sc rm = \<lparr> tb_bus = demo_bus sc rm, tb_uram_dump = uram_dump,
     tb_ddr_dump = ddr_dump sc, tb_con_dump = con_dump, tb_phys_read = (\<lambda>_ _. no_attr) \<rparr>"

section \<open>Facts\<close>

lemma and_not_low: "(x :: int) AND NOT (2 ^ n - 1) = x - x mod 2 ^ n"
proof -
  let ?m = "2 ^ n - 1 :: int"
  have "(x AND NOT ?m) + (x AND ?m) = (x AND NOT ?m) OR (x AND ?m)"
    by (rule disjunctive_add) (auto simp: bit_and_iff bit_not_iff)
  also have "\<dots> = x" by (rule bit_eqI) (auto simp: bit_or_iff bit_and_iff bit_not_iff)
  finally show ?thesis using and_ones [of x n] by simp
qed

lemma and_not_FFF: "(x :: int) AND NOT 0xFFF = x - x mod 4096"
  using and_not_low [of x 12] by simp

lemma and_not_15: "(x :: int) AND NOT 15 = x - x mod 16"
  using and_not_low [of x 4] by simp

lemma and_not_31: "(x :: int) AND NOT 31 = x - x mod 32"
  using and_not_low [of x 5] by simp

lemma and_not_3: "(x :: int) AND NOT 3 = x - x mod 4"
  using and_not_low [of x 2] by simp

lemma length_phys_bytes [simp]: "length (phys_bytes m a n) = nat n"
  by (simp add: phys_bytes_def)

lemma nth_phys_bytes: "k < nat n \<Longrightarrow> phys_bytes m a n ! k = m (a + int k)"
  by (simp add: phys_bytes_def)

lemma phys_bytes_append: "0 \<le> n \<Longrightarrow> 0 \<le> k \<Longrightarrow> phys_bytes m a n @ phys_bytes m (a + n) k = phys_bytes m a (n + k)"
  by (rule nth_equalityI) (auto simp: nth_append nth_phys_bytes nat_add_distrib)

text \<open>The page arithmetic is right: exactly the \<open>n\<close> bytes from \<open>addr\<close>, whatever the alignment.\<close>

lemma hw_phys_read_ok:
  assumes "0 \<le> n"
  shows "hw_phys_read addr n s = (Inr (phys_bytes (hw_phys s) addr n), s)"
proof -
  define off span mlen where "off = addr mod 4096" and "span = (off + n + 15) - (off + n + 15) mod 16"
    and "mlen = (off + n + 0xFFF) - (off + n + 0xFFF) mod 4096"
  have o: "0 \<le> off" "addr - (addr - off) = off" by (simp_all add: off_def)
  have s1: "off + n \<le> span"
    unfolding span_def using pos_mod_bound [of 16 "off + n + 15"] by linarith
  have m1: "off + n \<le> mlen"
    unfolding mlen_def using pos_mod_bound [of 4096 "off + n + 0xFFF"] by linarith
  have "slice (slice (phys_bytes (hw_phys s) (addr - off) mlen) 0 span) off (off + n)
      = phys_bytes (hw_phys s) addr n"
  proof (rule nth_equalityI)
    show l: "length (slice (slice (phys_bytes (hw_phys s) (addr - off) mlen) 0 span) off (off + n))
        = length (phys_bytes (hw_phys s) addr n)"
      using o s1 m1 assms by (simp add: slice_def)
    fix i assume "i < length (slice (slice (phys_bytes (hw_phys s) (addr - off) mlen) 0 span) off (off + n))"
    then have i: "i < nat n" by (simp only: l length_phys_bytes)
    then have j: "nat off + i < nat span" "nat off + i < nat mlen" using o s1 m1 assms by linarith+
    with i show "slice (slice (phys_bytes (hw_phys s) (addr - off) mlen) 0 span) off (off + n) ! i
        = phys_bytes (hw_phys s) addr n ! i"
      using o s1 m1 assms by (simp add: slice_def nth_phys_bytes)
  qed
  moreover have p: "addr AND NOT 0xFFF = addr - off"
    unfolding and_not_FFF off_def ..
  ultimately show ?thesis
    unfolding hw_phys_read_def bnd_def Let_def get_state_apply prod.case sum.case p o(2)
      and_not_FFF and_not_15 span_def mlen_def ret_apply
    by simp
qed

lemma map_act_pure:
  "(\<And>x. x \<in> set xs \<Longrightarrow> f x s = (Inr (g x), s)) \<Longrightarrow> map_act f xs s = (Inr (map g xs), s)"
  by (induction xs) (simp_all add: bnd_def)

lemma unpack_words_nth:
  "i < length bs div 4 \<Longrightarrow> unpack_words bs ! i = le_int (take 4 (drop (4 * i) bs))"
proof (induction bs arbitrary: i rule: unpack_words.induct)
  case (1 a b c d bs)
  show ?case
  proof (cases i)
    case (Suc k)
    have "drop (4 + 4 * k) (a # b # c # d # bs) = drop (4 * k) (drop 4 (a # b # c # d # bs))"
      by (simp only: drop_drop add.commute)
    with 1 Suc show ?thesis by simp
  qed simp
qed auto

text \<open>A read of \<open>n\<close> words at an offset is the unpacked slice.\<close>

lemma hw_read_words:
  assumes "dict_get (hw_maps s) region = Some bs" "p + 4 * n \<le> length bs"
  shows "hw_read region (int p) n s = (Inr (unpack_words (take (4 * n) (drop p bs))), s)"
proof -
  have "map_act (\<lambda>i. lift_exn (cell_get bs (int p + 4 * int i))) [0..<n] s
      = (Inr (map (\<lambda>i. le_int (take 4 (drop (p + 4 * i) bs))) [0..<n]), s)"
  proof (rule map_act_pure)
    fix i assume "i \<in> set [0..<n]"
    with assms(2) have "p + 4 * i + 4 \<le> length bs" by simp
    moreover have "int p + 4 * int i = int (p + 4 * i)" by simp
    ultimately show "lift_exn (cell_get bs (int p + 4 * int i)) s = (Inr (le_int (take 4 (drop (p + 4 * i) bs))), s)"
      by (simp only: lift_exn_def cell_get_def get32_def buf_pos_nonneg) simp
  qed
  moreover have "map (\<lambda>i. le_int (take 4 (drop (p + 4 * i) bs))) [0..<n]
      = unpack_words (take (4 * n) (drop p bs))"
    using assms(2)
    by (intro nth_equalityI) (simp_all add: unpack_words_nth take_drop add.commute)
  ultimately show ?thesis
    using assms(1) by (simp add: hw_read_def hw_map_def bnd_def)
qed

end
