(* ===== verification/Wp_View.thy ===== *)
theory Wp_View
  imports Complex_Main Hw_Bus Fifo_MM Wp_Records
begin

unbundle bit_operations_syntax

text \<open>
  The watchpoint view of the dashboard (\<open>examples/dashboard/wp_view.py\<close>): the symbol list, the
  ring with its counters, the capped live drain with its resynchronisation, the demo generator,
  the rates and the status, and the refusal rules of the table load. Times and rates are exact
  rationals; the identity of a bus object is a number. The state of an operation is the view
  beside the bus.
\<close>

section \<open>Configuration and state\<close>

record wp_fifo_doc =
  wf_region :: string
  wf_core :: int
  wf_drop :: int
  wf_fill :: int
  wf_ovf :: int

record wp_cfg =
  wc_ring :: "nat option"
  wc_wp_set :: "string list"
  wc_wp_slots :: "nat option"
  wc_load_slots :: "nat option"
  wc_wpctrl_region :: string
  wc_magic_off :: "int option"
  wc_magic :: string
  wc_drain_max :: "nat option"
  wc_resync_after :: "nat option"
  wc_record_words :: "nat option"
  wc_fifos :: "wp_fifo_doc list"
  wc_demo_rate :: "int option"
  wc_clk_hz :: "int option"
  wc_table_off :: "addr_doc option"
  wc_ftime_lo :: int
  wc_ftime_hi :: int
  wc_fifo_words :: int
  wc_shim_recs :: int

text \<open>A stored message: its leading text and the formatted values.\<close>

type_synonym message = "string \<times> fmt_arg list"

record wp_state =
  ws_src :: "string option"
  ws_cfg :: "wp_cfg option"
  ws_maxlen :: nat
  ws_ring :: "(nat \<times> rat \<times> wp_record) list"
  ws_seq :: nat
  ws_received :: "(int, nat) dict"
  ws_invalid :: nat
  ws_malformed :: nat
  ws_magic_ok :: "bool option"
  ws_magic_val :: "int option"
  ws_magic_bus :: "nat option"
  ws_last_error :: "message option"
  ws_demo_tick :: nat
  ws_demo_carry :: "(int, rat) dict"
  ws_hist :: "(rat \<times> (int, nat) dict \<times> (int, int) dict) list"
  ws_fifos :: "(string, nat) dict"
  ws_misparse :: "(string, nat) dict"
  ws_syms :: "(int, string) dict"
  ws_syms_path :: "string option"
  ws_demo_sched :: "(int \<times> nat) list"

text \<open>A \<open>deque(maxlen=n)\<close>: the newest \<open>n\<close> entries.\<close>

definition deque_append :: "nat \<Rightarrow> 'a \<Rightarrow> 'a list \<Rightarrow> 'a list" where
  "deque_append n x xs = last_n n (xs @ [x])"

section \<open>Symbols\<close>

definition is_0x :: "string \<Rightarrow> bool" where
  "is_0x t \<longleftrightarrow> lower (take 2 t) = ''0x''"

fun join :: "string \<Rightarrow> string list \<Rightarrow> string" where
  "join sep [] = []"
| "join sep [x] = x"
| "join sep (x # xs) = x @ sep @ join sep xs"

text \<open>The first \<open>0x\<close> token is the address, the rest the name; a token that is no number ends the line.\<close>

definition symbol_of_line :: "string \<Rightarrow> (int \<times> string) option" where
  "symbol_of_line line =
     (let s = strip line in
      if s = [] \<or> startswith s ''#'' then None
      else case dropWhile (\<lambda>t. \<not> is_0x t) (split_ws s) of
        [] \<Rightarrow> None
      | t # rest \<Rightarrow> (case py_int 16 t of None \<Rightarrow> None
          | Some v \<Rightarrow> Some (v AND 0xFFFFFFFF, join '' '' rest)))"

definition symbols_of_lines :: "string list \<Rightarrow> (int, string) dict" where
  "symbols_of_lines ls =
     fold (\<lambda>l d. case symbol_of_line l of None \<Rightarrow> d | Some (a, n) \<Rightarrow> dict_set a n d) ls []"

text \<open>The file system: the resolved path and the lines of a candidate that is a file.\<close>

type_synonym file_lookup = "string \<Rightarrow> (string \<times> string list) option"

fun load_wp_symbols :: "file_lookup \<Rightarrow> string list \<Rightarrow> (int, string) dict \<times> string option" where
  "load_wp_symbols fs [] = ([], None)"
| "load_wp_symbols fs (c # cs) =
     (case fs c of None \<Rightarrow> load_wp_symbols fs cs
      | Some (p, ls) \<Rightarrow> (symbols_of_lines ls, Some p))"

section \<open>Reset\<close>

definition demo_schedule :: "wp_cfg \<Rightarrow> (int, string) dict \<Rightarrow> (int \<times> nat) list" where
  "demo_schedule cfg syms =
     (let addrs = take (opt_or (wc_wp_slots cfg) 15) (sort (map fst syms)) in zip addrs [0..<length addrs])"

definition wp_reset :: "file_lookup \<Rightarrow> wp_cfg option \<Rightarrow> wp_state" where
  "wp_reset fs cfg =
     (let (syms, path) = (case cfg of None \<Rightarrow> ([], None) | Some c \<Rightarrow> load_wp_symbols fs (wc_wp_set c)) in
      \<lparr> ws_src = None, ws_cfg = cfg,
        ws_maxlen = (case cfg of None \<Rightarrow> 20000 | Some c \<Rightarrow> opt_or (wc_ring c) 20000),
        ws_ring = [], ws_seq = 0, ws_received = [], ws_invalid = 0, ws_malformed = 0,
        ws_magic_ok = None, ws_magic_val = None, ws_magic_bus = None, ws_last_error = None,
        ws_demo_tick = 0, ws_demo_carry = [], ws_hist = [], ws_fifos = [], ws_misparse = [],
        ws_syms = syms, ws_syms_path = path,
        ws_demo_sched = (case cfg of None \<Rightarrow> [] | Some c \<Rightarrow> if syms = [] then [] else demo_schedule c syms) \<rparr>)"

section \<open>The ring\<close>

definition push_rec :: "rat \<Rightarrow> wp_record \<Rightarrow> wp_state \<Rightarrow> wp_state" where
  "push_rec t r s =
     (let n = ws_seq s + 1 in
      s\<lparr> ws_seq := n,
         ws_received := dict_set (r_core_id r) (dict_get_or (ws_received s) (r_core_id r) 0 + 1) (ws_received s),
         ws_invalid := (if r_valid r then ws_invalid s else ws_invalid s + 1),
         ws_ring := deque_append (ws_maxlen s) (n, t, r) (ws_ring s) \<rparr>)"

definition push_all :: "rat \<Rightarrow> wp_record list \<Rightarrow> wp_state \<Rightarrow> wp_state" where
  "push_all t rs s = fold (push_rec t) rs s"

definition note_counters :: "rat \<Rightarrow> (int, int) dict \<Rightarrow> wp_state \<Rightarrow> wp_state" where
  "note_counters t drops s = s\<lparr> ws_hist := deque_append 40 (t, ws_received s, drops) (ws_hist s) \<rparr>"

text \<open>\<open>list(self.ring)[-n:]\<close>.\<close>

definition py_tail :: "int \<Rightarrow> 'a list \<Rightarrow> 'a list" where
  "py_tail n xs = (if 0 < n then last_n (nat n) xs else drop (nat (- n)) xs)"

record wp_row =
  wr_seq :: nat
  wr_t :: rat
  wr_rec :: wp_record
  wr_sym :: "string option"

definition records_rows :: "int \<Rightarrow> wp_state \<Rightarrow> wp_row list" where
  "records_rows n s = map (\<lambda>(i, t, r). \<lparr> wr_seq = i, wr_t = t, wr_rec = r,
      wr_sym = dict_get (ws_syms s) (r_pc r) \<rparr>) (py_tail n (ws_ring s))"

text \<open>Records and drops per second of every core over the window, before the rounding.\<close>

definition wp_rates :: "wp_state \<Rightarrow> (int \<times> rat \<times> rat) list" where
  "wp_rates s =
     (if length (ws_hist s) < 2 then []
      else case (hd (ws_hist s), last (ws_hist s)) of ((t0, r0, d0), (t1, r1, d1)) \<Rightarrow>
        let dt = t1 - t0 in
        if dt \<le> 0 then []
        else map (\<lambda>c. (c, (of_nat (dict_get_or r1 c 0) - of_nat (dict_get_or r0 c 0)) / dt,
                          of_int (dict_get_or d1 c 0 - dict_get_or d0 c 0) / dt))
               (sort (remdups (map fst r1 @ map fst d1))))"

section \<open>The live drain\<close>

type_synonym 'b view = "wp_state \<times> 'b"

definition region_port :: "'b dash_bus \<Rightarrow> string \<Rightarrow> 'b mm_bus" where
  "region_port bus region = \<lparr> bus_r1 = read1 bus region, bus_write = db_write bus region \<rparr>"

definition set_view :: "(wp_state \<Rightarrow> wp_state) \<Rightarrow> ('b view, unit) act" where
  "set_view g = modify (\<lambda>(s, b). (g s, b))"

definition int_literal :: "nat \<Rightarrow> string \<Rightarrow> exn + int" where
  "int_literal base t = (case py_int base t of Some v \<Rightarrow> Inr v
     | None \<Rightarrow> Inl (Exn ValueError ''invalid literal for int()'' [AS t]))"

definition magic_note :: "int \<Rightarrow> int \<Rightarrow> message" where
  "magic_note val want = (''WPCTRL MAGIC mismatch -- no AXIS-WP design in the slot, drain stays off'', [AI val, AI want])"

definition check_magic :: "'b dash_bus \<Rightarrow> nat \<Rightarrow> wp_cfg \<Rightarrow> ('b view, bool) act" where
  "check_magic bus bid cfg =
     bnd get_state (\<lambda>(s, b).
     case (ws_magic_ok s, ws_magic_bus s = Some bid) of
       (Some ok, True) \<Rightarrow> ret ok
     | _ \<Rightarrow>
       bnd (on_snd (read1 bus (wc_wpctrl_region cfg) (opt_or (wc_magic_off cfg) 0))) (\<lambda>val.
       bnd (lift_exn (int_literal 0 (wc_magic cfg))) (\<lambda>want.
       andthen (set_view (\<lambda>s. s\<lparr> ws_magic_val := Some val, ws_magic_ok := Some (val = want),
                  ws_magic_bus := Some bid,
                  ws_last_error := (if val = want then ws_last_error s else Some (magic_note val want)) \<rparr>))
         (ret (val = want)))))"

definition view_fifo :: "'b dash_bus \<Rightarrow> string \<Rightarrow> 'b fifo_mm" where
  "view_fifo bus region = mk_fifo (region_port bus region) (\<lambda>_. None) True"

text \<open>The first binding of this process to a FIFO resets its receive side.\<close>

definition bind_fifo :: "'b dash_bus \<Rightarrow> nat \<Rightarrow> string \<Rightarrow> ('b view, unit) act" where
  "bind_fifo bus bid region =
     bnd get_state (\<lambda>(s, b).
     if dict_get (ws_fifos s) region = Some bid then ret ()
     else andthen (on_snd (fifo_init (view_fifo bus region)))
       (set_view (\<lambda>s. s\<lparr> ws_fifos := dict_set region bid (ws_fifos s),
                         ws_misparse := dict_set region 0 (ws_misparse s) \<rparr>)))"

definition record_of_packet :: "int list \<Rightarrow> exn + wp_record" where
  "record_of_packet pkt = (case pkt of
       [a, b, c, d] \<Rightarrow> Inr (mk_record 0 a b c d)
     | _ \<Rightarrow> Inl (Exn TypeError ''Record.__init__() arguments'' []))"

text \<open>One packet of the drain: \<open>None\<close> when the FIFO has none.\<close>

definition next_packet :: "'b fifo_mm \<Rightarrow> drain_stats \<Rightarrow> ('b view, (int list option \<times> drain_stats)) act" where
  "next_packet f st = (\<lambda>(s, b). case read_packet f ((st, []), b) of
       (Inl e, (_, b')) \<Rightarrow> (Inl e, (s, b'))
     | (Inr pkt, ((st', _), b')) \<Rightarrow> (Inr (pkt, st'), (s, b')))"

lemma read_packet_counts:
  assumes "read_packet f ((st, ws), b) = (Inr (Some p), ((st', ws'), b'))"
  shows "n_packets st' = n_packets st + 1"
  using assms
  by (auto simp: read_packet_def bnd_def andthen_def on_snd_def bump_def modify_def act_when_def Let_def
      split: prod.splits sum.splits if_splits)

lemma next_packet_counts:
  "next_packet f st x = (Inr (Some p, st'), y) \<Longrightarrow> n_packets st' = n_packets st + 1"
  by (auto simp: next_packet_def split: prod.splits sum.splits dest: read_packet_counts)

text \<open>\<open>while stats.n_packets < budget\<close>: it ends, because every packet is counted.\<close>

function live_loop :: "'b fifo_mm \<Rightarrow> nat \<Rightarrow> nat \<Rightarrow> drain_stats \<Rightarrow> wp_record list \<Rightarrow> 'b view
    \<Rightarrow> (exn + wp_record list) \<times> 'b view" where
  "live_loop f budget rw st recs x =
     (if budget \<le> n_packets st then (Inr recs, x)
      else case next_packet f st x of
        (Inl e, y) \<Rightarrow> (Inl e, y)
      | (Inr (None, _), y) \<Rightarrow> (Inr recs, y)
      | (Inr (Some p, st'), (s, b)) \<Rightarrow>
          if length p = rw then
            (case record_of_packet p of Inl e \<Rightarrow> (Inl e, (s, b))
             | Inr r \<Rightarrow> live_loop f budget rw st' (recs @ [r]) (s, b))
          else live_loop f budget rw st' recs (s\<lparr> ws_malformed := ws_malformed s + 1 \<rparr>, b))"
  by pat_completeness auto
termination
  by (relation "measure (\<lambda>(f, budget, rw, st, recs, x). budget - n_packets st)")
     (auto dest!: next_packet_counts [OF sym])

text \<open>A FIFO that delivers only invalid records for long enough is reset again.\<close>

definition resync_note :: "string \<Rightarrow> message" where
  "resync_note region = (''only invalid records after bind -- RX resync triggered'', [AS region])"

definition heal :: "'b dash_bus \<Rightarrow> nat \<Rightarrow> string \<Rightarrow> wp_record list \<Rightarrow> ('b view, unit) act" where
  "heal bus limit region recs =
     (if recs = [] then ret ()
      else if list_ex r_valid recs then set_view (\<lambda>s. s\<lparr> ws_misparse := dict_set region 0 (ws_misparse s) \<rparr>)
      else
        bnd get_state (\<lambda>(s, b).
        let n = dict_get_or (ws_misparse s) region 0 + length recs in
        andthen (set_view (\<lambda>s. s\<lparr> ws_misparse := dict_set region n (ws_misparse s) \<rparr>))
          (act_when (limit \<le> n)
            (andthen (on_snd (reset_rx (view_fifo bus region)))
              (set_view (\<lambda>s. s\<lparr> ws_misparse := dict_set region 0 (ws_misparse s),
                               ws_last_error := Some (resync_note region) \<rparr>))))))"

definition tick_fifo :: "'b dash_bus \<Rightarrow> nat \<Rightarrow> wp_cfg \<Rightarrow> rat \<Rightarrow> wp_fifo_doc \<Rightarrow> ('b view, unit) act" where
  "tick_fifo bus bid cfg t fd =
     andthen (bind_fifo bus bid (wf_region fd))
       (bnd (live_loop (view_fifo bus (wf_region fd)) (opt_or (wc_drain_max cfg) 1024)
               (opt_or (wc_record_words cfg) 4) drain_stats0 []) (\<lambda>recs.
        andthen (set_view (push_all t recs))
          (heal bus (opt_or (wc_resync_after cfg) 256) (wf_region fd) recs)))"

definition tick_live :: "'b dash_bus \<Rightarrow> nat \<Rightarrow> wp_cfg \<Rightarrow> rat \<Rightarrow> ('b view, unit) act" where
  "tick_live bus bid cfg t =
     bnd (check_magic bus bid cfg) (\<lambda>ok.
       if \<not> ok then ret () else for_each (wc_fifos cfg) (tick_fifo bus bid cfg t))"

section \<open>The demo generator\<close>

definition trunc_rat :: "rat \<Rightarrow> int" where
  "trunc_rat x = (if 0 \<le> x then floor x else ceiling x)"

definition demo_record :: "wp_state \<Rightarrow> rat \<Rightarrow> int \<Rightarrow> int \<Rightarrow> nat \<Rightarrow> nat \<Rightarrow> wp_record" where
  "demo_record s dt clk core base k =
     (let (addr, slot) = ws_demo_sched s ! ((base + k) mod length (ws_demo_sched s));
          ts = (trunc_rat (of_nat (ws_demo_tick s) * dt * of_int clk + of_int core + 2 * of_nat k)) AND 0xFFFFFFFF;
          w3 = (push_bit 20 core OR push_bit 8 0xFFF) OR (core + 1) in
      mk_record 0 addr (int slot) ts w3)"

definition demo_core :: "rat \<Rightarrow> rat \<Rightarrow> int \<Rightarrow> int \<Rightarrow> int \<Rightarrow> wp_state \<Rightarrow> wp_state" where
  "demo_core t dt rate clk core s =
     (let carry = dict_get_or (ws_demo_carry s) core 0 + of_int rate * dt;
          n = trunc_rat carry;
          s1 = s\<lparr> ws_demo_carry := dict_set core (carry - of_int n) (ws_demo_carry s) \<rparr>;
          base = dict_get_or (ws_received s1) core 0 + (nat core * length (ws_demo_sched s)) div 2 in
      push_all t (map (demo_record s1 dt clk core base) [0..<nat n]) s1)"

definition tick_demo :: "wp_cfg \<Rightarrow> rat \<Rightarrow> rat \<Rightarrow> wp_state \<Rightarrow> wp_state" where
  "tick_demo cfg t dt s =
     (if ws_demo_sched s = [] then s
      else fold (demo_core t dt (opt_or (wc_demo_rate cfg) 300) (opt_or (wc_clk_hz cfg) 75000000)) [0, 1]
             (s\<lparr> ws_demo_tick := ws_demo_tick s + 1 \<rparr>))"

record wp_core_status =
  wcs_core :: int
  wcs_drops :: int
  wcs_fill :: int
  wcs_ovf :: int

record wp_counters =
  wk_magic_ok :: "bool option"
  wk_magic :: "int option"
  wk_ftime :: "int option"
  wk_fifo_words :: "int option"
  wk_shim_recs :: "int option"
  wk_cores :: "wp_core_status list option"
  wk_error :: "exn option"

definition no_counters :: wp_counters where
  "no_counters = \<lparr> wk_magic_ok = None, wk_magic = None, wk_ftime = None, wk_fifo_words = None,
     wk_shim_recs = None, wk_cores = None, wk_error = None \<rparr>"

definition demo_status :: "wp_cfg \<Rightarrow> wp_state \<Rightarrow> wp_counters" where
  "demo_status cfg s =
     (let fill = int ((ws_demo_tick s * 7) mod 40) in
      \<lparr> wk_magic_ok = Some True, wk_magic = py_int 0 (wc_magic cfg),
        wk_ftime = Some ((int (ws_demo_tick s) * opt_or (wc_clk_hz cfg) 75000000) div 4),
        wk_fifo_words = Some 4096, wk_shim_recs = Some 256,
        wk_cores = Some (map (\<lambda>c. \<lparr> wcs_core = c, wcs_drops = 0, wcs_fill = fill, wcs_ovf = 0 \<rparr>) [0, 1]),
        wk_error = None \<rparr>)"

section \<open>Live counters\<close>

text \<open>The registers are read in the order of the code; what was read before an exception stays.\<close>

definition wreg :: "'b dash_bus \<Rightarrow> wp_cfg \<Rightarrow> int \<Rightarrow> (wp_counters \<times> 'b view, int) act" where
  "wreg bus cfg off = on_snd (on_snd (read1 bus (wc_wpctrl_region cfg) off))"

definition put_counters :: "(wp_counters \<Rightarrow> wp_counters) \<Rightarrow> (wp_counters \<times> 'b view, unit) act" where
  "put_counters g = modify (\<lambda>(c, v). (g c, v))"

definition live_core_status :: "'b dash_bus \<Rightarrow> wp_cfg \<Rightarrow> wp_fifo_doc \<Rightarrow> (wp_counters \<times> 'b view, wp_core_status) act" where
  "live_core_status bus cfg f =
     bnd (wreg bus cfg (wf_drop f)) (\<lambda>d. bnd (wreg bus cfg (wf_fill f)) (\<lambda>l.
     bnd (wreg bus cfg (wf_ovf f)) (\<lambda>v.
       ret \<lparr> wcs_core = wf_core f, wcs_drops = d, wcs_fill = l, wcs_ovf = v AND 1 \<rparr>)))"

definition live_counters :: "'b dash_bus \<Rightarrow> nat \<Rightarrow> wp_cfg \<Rightarrow> (wp_counters \<times> 'b view, unit) act" where
  "live_counters bus bid cfg =
     bnd (on_snd (check_magic bus bid cfg)) (\<lambda>ok.
     bnd get_state (\<lambda>(c, s, b).
     andthen (put_counters (\<lambda>c. c\<lparr> wk_magic_ok := Some ok, wk_magic := Some (opt_or (ws_magic_val s) 0) \<rparr>))
     (bnd (wreg bus cfg (wc_ftime_lo cfg)) (\<lambda>lo.
     bnd (wreg bus cfg (wc_ftime_hi cfg)) (\<lambda>hi.
     andthen (put_counters (\<lambda>c. c\<lparr> wk_ftime := Some (push_bit 32 hi OR lo) \<rparr>))
     (bnd (wreg bus cfg (wc_fifo_words cfg)) (\<lambda>fw.
     andthen (put_counters (\<lambda>c. c\<lparr> wk_fifo_words := Some fw \<rparr>))
     (bnd (wreg bus cfg (wc_shim_recs cfg)) (\<lambda>sr.
     andthen (put_counters (\<lambda>c. c\<lparr> wk_shim_recs := Some sr \<rparr>))
     (bnd (map_act (live_core_status bus cfg) (wc_fifos cfg)) (\<lambda>cs.
       put_counters (\<lambda>c. c\<lparr> wk_cores := Some cs \<rparr>))))))))))))"

definition status_counters :: "'b dash_bus \<Rightarrow> nat \<Rightarrow> bool \<Rightarrow> ('b view, wp_counters) act" where
  "status_counters bus bid demo = (\<lambda>(s, b). case ws_cfg s of
       None \<Rightarrow> (Inr no_counters, (s, b))
     | Some cfg \<Rightarrow>
         if demo then (Inr (demo_status cfg s), (s, b))
         else case live_counters bus bid cfg (no_counters, (s, b)) of
             (Inr _, (c, v)) \<Rightarrow> (Inr c, v)
           | (Inl e, (c, v)) \<Rightarrow> (Inr (c\<lparr> wk_error := Some e \<rparr>), v))"

definition drops_by_core :: "'b dash_bus \<Rightarrow> bool \<Rightarrow> ('b view, (int, int) dict) act" where
  "drops_by_core bus demo =
     bnd get_state (\<lambda>(s, b). case ws_cfg s of
       None \<Rightarrow> ret [(0, 0), (1, 0)]
     | Some cfg \<Rightarrow> if demo then ret [(0, 0), (1, 0)]
         else bnd (map_act (\<lambda>f. bnd (on_snd (read1 bus (wc_wpctrl_region cfg) (wf_drop f)))
                (\<lambda>d. ret (wf_core f, d))) (wc_fifos cfg))
              (\<lambda>ps. ret (fold (\<lambda>(c, d) m. dict_set c d m) ps [])))"

section \<open>Loading the table\<close>

definition ctrl_word :: "'b dash_bus \<Rightarrow> scenario \<Rightarrow> ('b, int) act" where
  "ctrl_word bus sc = (case co sc ''control'' of None \<Rightarrow> raise (Exn TypeError ''control'' [])
     | Some C \<Rightarrow> read1 bus ''ctrl'' C)"

definition conflict :: "string \<Rightarrow> fmt_arg list \<Rightarrow> exn" where
  "conflict what args = Exn ValueError (''CONFLICT: '' @ what) args"

fun table_of :: "nat \<Rightarrow> (addr_doc \<times> addr_doc) list \<Rightarrow> exn + (nat \<times> int \<times> int) list" where
  "table_of i [] = Inr []"
| "table_of i ((a, c) # slots) =
     (case addr_of a of Inl e \<Rightarrow> Inl e | Inr av \<Rightarrow>
     (case addr_of c of Inl e \<Rightarrow> Inl e | Inr cv \<Rightarrow>
     (case table_of (i + 1) slots of Inl e \<Rightarrow> Inl e
      | Inr t \<Rightarrow> Inr ((i, av AND 0xFFFFFFFF, cv AND 0xFFFFFFFF) # t))))"

definition slot_limit :: "wp_cfg \<Rightarrow> nat" where
  "slot_limit cfg = (case wc_load_slots cfg of Some n \<Rightarrow> n | None \<Rightarrow> opt_or (wc_wp_slots cfg) 15)"

definition target_running :: "scenario \<Rightarrow> int \<Rightarrow> string option list \<Rightarrow> core option" where
  "target_running sc ctrl regions =
     List.find (\<lambda>c. c_enc c \<in> set regions \<and> core_running sc ctrl c) (sc_cores sc)"

definition load_region :: "'b dash_bus \<Rightarrow> scenario \<Rightarrow> int \<Rightarrow> (nat \<times> int \<times> int) list \<Rightarrow> string option
    \<Rightarrow> ('b, string \<times> int \<times> int) act" where
  "load_region bus sc off0 table region =
     (case region of
        None \<Rightarrow> raise (Exn ValueError ''unknown encoder region'' [])
      | Some r \<Rightarrow>
        if dict_get (sc_regions sc) r = None then raise (Exn ValueError ''unknown encoder region'' [AS r])
        else bnd (read1 bus r 0) (\<lambda>te.
          if te AND 3 \<noteq> 0 then raise (conflict ''trTeControl'' [AS r, AI te])
          else andthen (for_each table (\<lambda>(i, a, c).
                 andthen (db_write bus r (off0 + 8 * int i) a) (db_write bus r (off0 + 8 * int i + 4) c)))
            (bnd (read1 bus r off0) (\<lambda>a. bnd (read1 bus r (off0 + 4)) (\<lambda>c. ret (r, a, c))))))"

definition wp_load_table :: "'b dash_bus \<Rightarrow> wp_cfg option \<Rightarrow> scenario \<Rightarrow> (addr_doc \<times> addr_doc) list
    \<Rightarrow> string option list option \<Rightarrow> ('b, nat \<times> (string \<times> int \<times> int) list) act" where
  "wp_load_table bus cfg0 sc slots encs =
     (case cfg0 of
        None \<Rightarrow> raise (Exn ValueError ''scenario has no wp view'' [AS (sc_id sc)])
      | Some cfg \<Rightarrow> (case wc_table_off cfg of
          None \<Rightarrow> raise (Exn ValueError ''this build has no direct watchpoint window'' [])
        | Some tab \<Rightarrow>
          if slots = [] \<or> slot_limit cfg < length slots
          then raise (Exn ValueError ''number of slots'' [AI (int (slot_limit cfg)), AI (int (length slots))])
          else bnd (lift_exn (table_of 0 slots)) (\<lambda>table.
            bnd (ctrl_word bus sc) (\<lambda>ctrl.
            let regions = (case encs of None \<Rightarrow> map c_enc (sc_cores sc) | Some rs \<Rightarrow> rs) in
            case target_running sc ctrl regions of
              Some c \<Rightarrow> raise (conflict ''core is running'' [AI ctrl])
            | None \<Rightarrow> bnd (lift_exn (addr_of tab)) (\<lambda>off0.
                bnd (map_act (load_region bus sc off0 table) regions) (\<lambda>rs. ret (length table, rs)))))))"

section \<open>The view stays consistent\<close>

text \<open>
  The ring holds the newest records with consecutive numbers that end at the running number, the
  per-core counters add up to it, and the invalid records in the ring are all counted.
\<close>

definition view_ok :: "wp_state \<Rightarrow> bool" where
  "view_ok s \<longleftrightarrow> map fst (ws_ring s) = last_n (ws_maxlen s) [1..<Suc (ws_seq s)] \<and>
     sum_list (map snd (ws_received s)) = ws_seq s \<and>
     length (filter (\<lambda>(_, _, r). \<not> r_valid r) (ws_ring s)) \<le> ws_invalid s \<and> ws_invalid s \<le> ws_seq s"

lemma last_n_snoc: "last_n n (last_n n xs @ [x]) = last_n n (xs @ [x])"
proof (cases n)
  case (Suc m)
  show ?thesis
    by (cases "length xs \<le> m") (auto simp: last_n_def Suc not_le min_def Suc_diff_Suc)
qed (simp add: last_n_def)

lemma map_last_n: "map f (last_n n xs) = last_n n (map f xs)"
  by (simp add: last_n_def drop_map)

lemma length_filter_last_n: "length (filter P (last_n n xs)) \<le> length (filter P xs)"
proof -
  have "length (filter P xs) = length (filter P (take (length xs - n) xs)) + length (filter P (last_n n xs))"
    unfolding last_n_def by (metis append_take_drop_id filter_append length_append)
  then show ?thesis by simp
qed

lemma push_rec_ok: "view_ok s \<Longrightarrow> view_ok (push_rec t r s)"
proof -
  assume ok: "view_ok s"
  let ?ring = "ws_ring s @ [(ws_seq s + 1, t, r)]"
  have "map fst (last_n (ws_maxlen s) ?ring) = last_n (ws_maxlen s) [1..<Suc (ws_seq s + 1)]"
    using ok by (simp add: map_last_n view_ok_def last_n_snoc)
  moreover have "length (filter (\<lambda>(_, _, r). \<not> r_valid r) (last_n (ws_maxlen s) ?ring))
      \<le> (if r_valid r then ws_invalid s else ws_invalid s + 1)"
    using ok length_filter_last_n [of "\<lambda>(_, _, r). \<not> r_valid r" "ws_maxlen s" ?ring]
    by (auto simp: view_ok_def split: if_splits)
  ultimately show ?thesis
    using ok by (simp add: view_ok_def push_rec_def Let_def deque_append_def sum_dict_bump [where n = 1, simplified])
qed

lemma push_all_ok: "view_ok s \<Longrightarrow> view_ok (push_all t rs s)"
  unfolding push_all_def by (induction rs arbitrary: s) (auto intro: push_rec_ok)

lemma view_ok_cong:
  "ws_ring s' = ws_ring s \<Longrightarrow> ws_maxlen s' = ws_maxlen s \<Longrightarrow> ws_seq s' = ws_seq s \<Longrightarrow>
   ws_received s' = ws_received s \<Longrightarrow> ws_invalid s' = ws_invalid s \<Longrightarrow> view_ok s' = view_ok s"
  by (simp add: view_ok_def)

lemma view_ok_upd [simp]:
  "view_ok (s\<lparr>ws_malformed := a\<rparr>) = view_ok s" "view_ok (s\<lparr>ws_misparse := d\<rparr>) = view_ok s"
  "view_ok (s\<lparr>ws_last_error := e\<rparr>) = view_ok s" "view_ok (s\<lparr>ws_fifos := f\<rparr>) = view_ok s"
  "view_ok (s\<lparr>ws_magic_ok := m\<rparr>) = view_ok s" "view_ok (s\<lparr>ws_magic_val := v\<rparr>) = view_ok s"
  "view_ok (s\<lparr>ws_magic_bus := g\<rparr>) = view_ok s" "view_ok (s\<lparr>ws_demo_carry := c\<rparr>) = view_ok s"
  "view_ok (s\<lparr>ws_demo_tick := k\<rparr>) = view_ok s" "view_ok (s\<lparr>ws_hist := h\<rparr>) = view_ok s"
  by (rule view_ok_cong; simp)+

lemma wp_reset_ok: "view_ok (wp_reset fs cfg)"
  by (simp add: wp_reset_def view_ok_def last_n_def split: prod.splits)

lemma note_counters_ok: "view_ok s \<Longrightarrow> view_ok (note_counters t drops s)"
  by (simp add: note_counters_def)

text \<open>An action keeps the view consistent, whatever the bus answers and however it ends.\<close>

definition keeps_view :: "('b view, 'a) act \<Rightarrow> bool" where
  "keeps_view m \<longleftrightarrow> (\<forall>s b. view_ok s \<longrightarrow> view_ok (fst (snd (m (s, b)))))"

lemma keeps_viewI:
  assumes "\<And>s b r s' b'. m (s, b) = (r, (s', b')) \<Longrightarrow> view_ok s \<Longrightarrow> view_ok s'"
  shows "keeps_view m"
  unfolding keeps_view_def using assms by (metis prod.collapse)

lemma keeps_viewD: "keeps_view m \<Longrightarrow> view_ok s \<Longrightarrow> m (s, b) = (r, (s', b')) \<Longrightarrow> view_ok s'"
  unfolding keeps_view_def by (metis fst_conv snd_conv)

lemma keeps_view_bnd [intro]:
  assumes "keeps_view m" "\<And>x. keeps_view (f x)"
  shows "keeps_view (bnd m f)"
proof (rule keeps_viewI)
  fix s b r s' b' assume r: "bnd m f (s, b) = (r, (s', b'))" and ok: "view_ok s"
  obtain q s1 b1 where m: "m (s, b) = (q, (s1, b1))" by (metis prod.collapse)
  then have "view_ok s1" using keeps_viewD [OF assms(1) ok] by blast
  then show "view_ok s'" using r m keeps_viewD [OF assms(2)] by (cases q) (auto simp: bnd_def)
qed

lemma keeps_view_andthen [intro]: "keeps_view m \<Longrightarrow> keeps_view n \<Longrightarrow> keeps_view (andthen m n)"
  unfolding andthen_def by (rule keeps_view_bnd)

lemma keeps_view_basic [intro!]:
  "keeps_view (ret x)" "keeps_view (raise e)" "keeps_view get_state" "keeps_view (lift_exn q)" "keeps_view (on_snd m)"
  by (auto simp: keeps_view_def lift_exn_def on_snd_def split: prod.splits)

lemma keeps_view_set [intro]: "(\<And>s. view_ok s \<Longrightarrow> view_ok (g s)) \<Longrightarrow> keeps_view (set_view g)"
  by (simp add: keeps_view_def set_view_def)

lemma keeps_view_when [intro]: "keeps_view m \<Longrightarrow> keeps_view (act_when c m)"
  by (cases c) auto

lemma keeps_view_for_each: "(\<And>x. x \<in> set xs \<Longrightarrow> keeps_view (f x)) \<Longrightarrow> keeps_view (for_each xs f)"
  by (induction xs) auto

lemma keeps_view_state:
  assumes "\<And>s b. view_ok s \<Longrightarrow> view_ok (fst (snd (g (s, b) (s, b))))"
  shows "keeps_view (bnd get_state g)"
  using assms by (auto simp: keeps_view_def bnd_def)

lemma keeps_view_split: "(\<And>s b. keeps_view (g s b)) \<Longrightarrow> keeps_view (bnd get_state (\<lambda>(s, b). g s b))"
  by (rule keeps_view_bnd) auto

lemma check_magic_keeps: "keeps_view (check_magic bus bid cfg)"
  unfolding check_magic_def
  by (rule keeps_view_split)
     (auto split: option.splits bool.splits intro!: keeps_view_bnd keeps_view_andthen keeps_view_set)

lemma bind_fifo_keeps: "keeps_view (bind_fifo bus bid region)"
  unfolding bind_fifo_def
  by (rule keeps_view_split) (auto intro!: keeps_view_andthen keeps_view_set)

lemma heal_keeps: "keeps_view (heal bus limit region recs)"
  unfolding heal_def Let_def
  by (auto intro!: keeps_view_split keeps_view_andthen keeps_view_set keeps_view_when)

lemma next_packet_view: "next_packet f st (s, b) = (r, (s', b')) \<Longrightarrow> s' = s"
  by (auto simp: next_packet_def split: prod.splits sum.splits)

lemma live_loop_keeps: "keeps_view (live_loop f budget rw st recs)"
proof (rule keeps_viewI)
  fix s b r s' b' assume "live_loop f budget rw st recs (s, b) = (r, (s', b'))" "view_ok s"
  then show "view_ok s'"
  proof (induction f budget rw st recs "(s, b)" arbitrary: s b rule: live_loop.induct)
    case (1 f budget rw st recs s b)
    note prems = 1(3,4)
    show ?case
    proof (cases "budget \<le> n_packets st")
      case False
      obtain q s1 b1 where n: "next_packet f st (s, b) = (q, (s1, b1))" by (metis prod.collapse)
      have s1: "s1 = s" by (rule next_packet_view [OF n])
      show ?thesis
        using prems False n s1 1(1,2) [OF False n [symmetric]]
        by (subst (asm) live_loop.simps) (auto split: sum.splits option.splits prod.splits if_splits simp del: live_loop.simps)
    qed (use prems in simp)
  qed
qed

lemma tick_live_keeps: "keeps_view (tick_live bus bid cfg t)"
  unfolding tick_live_def tick_fifo_def
  by (intro keeps_view_bnd check_magic_keeps)
     (auto intro!: keeps_view_for_each keeps_view_andthen keeps_view_bnd bind_fifo_keeps live_loop_keeps
        heal_keeps keeps_view_set push_all_ok)

lemma tick_demo_ok: "view_ok s \<Longrightarrow> view_ok (tick_demo cfg t dt s)"
  by (simp add: tick_demo_def demo_core_def Let_def push_all_ok)

section \<open>The drain over the receive contract\<close>

definition rec4 :: "int list \<Rightarrow> wp_record" where
  "rec4 p = mk_record 0 (p ! 0) (p ! 1) (p ! 2) (p ! 3)"

lemma record_of_packet4: "length p = 4 \<Longrightarrow> record_of_packet p = Inr (rec4 p)"
  by (auto simp: record_of_packet_def rec4_def length_Suc_conv numeral_eq_Suc)

abbreviation lens :: "int list list \<Rightarrow> int list" where
  "lens ps \<equiv> map (\<lambda>p. 4 * int (length p)) ps"

definition view_packets_ok :: "int list list \<Rightarrow> bool" where
  "view_packets_ok ps \<longleftrightarrow> (\<forall>p\<in>set ps. p \<noteq> [] \<and> length p < 536870912)"

context rx_fifo begin

lemma next_packet_some:
  assumes "view b = (concat (p # ps), lens (p # ps))" "view_packets_ok (p # ps)"
  shows "\<exists>st' b'. next_packet f st (s, b) = (Inr (Some p, st'), (s, b')) \<and> n_packets st' = n_packets st + 1
    \<and> view b' = (concat ps, lens ps)"
proof -
  have "rlr_words (4 * int (length p)) = int (length p)" "4 * int (length p) AND RLR_PARTIAL = 0"
    using assms(2) by (simp_all add: plain_length view_packets_ok_def)
  then have "packet_spec (view b) st = ((Some p, st\<lparr>n_packets := n_packets st + 1,
      n_words := n_words st + length p\<rparr>), (concat ps, lens ps))"
    using assms by (simp add: packet_spec_def head_or_0_def packet_size_def view_packets_ok_def)
  then show ?thesis
    using read_packet_refines [of st "[]" b] by (auto simp: next_packet_def)
qed

lemma next_packet_none:
  "view b = ([], ls) \<Longrightarrow> \<exists>b'. next_packet f st (s, b) = (Inr (None, st), (s, b')) \<and> view b' = ([], ls)"
  using read_packet_refines [of st "[]" b] by (auto simp: next_packet_def packet_spec_def)

lemma live_loop_packets:
  assumes "view b = (concat ps, lens ps)" "view_packets_ok ps" "k = min (length ps) (budget - n_packets st)"
  shows "\<exists>b'. live_loop f budget 4 st recs (s, b)
      = (Inr (recs @ map rec4 (filter (\<lambda>p. length p = 4) (take k ps))),
         (s\<lparr>ws_malformed := ws_malformed s + length (filter (\<lambda>p. length p \<noteq> 4) (take k ps))\<rparr>, b'))
     \<and> view b' = (concat (drop k ps), lens (drop k ps))"
  using assms
proof (induction ps arbitrary: st recs s b k)
  case Nil
  then show ?case using next_packet_none [of b "[]" st s]
    by (subst live_loop.simps) (auto simp del: live_loop.simps)
next
  case (Cons p ps)
  show ?case
  proof (cases "budget \<le> n_packets st")
    case True
    then show ?thesis using Cons.prems by simp
  next
    case False
    obtain st' b1 where n: "next_packet f st (s, b) = (Inr (Some p, st'), (s, b1))"
        "n_packets st' = n_packets st + 1" "view b1 = (concat ps, lens ps)"
      using next_packet_some [OF Cons.prems(1,2)] by blast
    define k' where "k' = min (length ps) (budget - n_packets st')"
    have k: "k = Suc k'" using Cons.prems(3) False n(2) by (simp add: k'_def)
    have ps: "view_packets_ok ps" using Cons.prems(2) by (simp add: view_packets_ok_def)
    show ?thesis
    proof (cases "length p = 4")
      case True
      then show ?thesis
        using Cons.IH [OF n(3) ps k'_def, of "recs @ [rec4 p]" s] False n(1) k
        by (subst live_loop.simps) (simp add: record_of_packet4 del: live_loop.simps)
    next
      case f: False
      then show ?thesis
        using Cons.IH [OF n(3) ps k'_def, of recs "s\<lparr>ws_malformed := ws_malformed s + 1\<rparr>"] False n(1) k
        by (subst live_loop.simps) (auto simp del: live_loop.simps)
    qed
  qed
qed

end

text \<open>The FIFO model of the repository behind a named region.\<close>

definition fake_dash :: "fake_bus dash_bus" where
  "fake_dash = \<lparr> db_read = (\<lambda>_ off n. map_act (\<lambda>i. fake_r1 (off + 4 * int i)) [0..<n]),
     db_write = (\<lambda>_ off v. fake_write off v), db_write_block = (\<lambda>_ _ _. ret ()), db_demo = False \<rparr>"

lemma view_fifo_simps:
  "fifo_read (view_fifo fake_dash region) r = fifo_read (fake_fifo True) r"
  "fifo_write (view_fifo fake_dash region) r v = fifo_write (fake_fifo True) r v"
proof (rule ext)
  fix b
  obtain q b' where "fake_r1 (PG080_OFFSETS r) b = (q, b')" by fastforce
  then show "fifo_read (view_fifo fake_dash region) r b = fifo_read (fake_fifo True) r b"
    by (cases q) (simp_all add: fifo_read_def fake_fifo_def view_fifo_def mk_fifo_def region_port_def fake_dash_def
      read1_def bnd_def)
qed (simp add: fifo_write_def fake_fifo_def view_fifo_def mk_fifo_def region_port_def fake_dash_def)

interpretation view_rx: rx_fifo "view_fifo fake_dash region" fake_view for region
  using fake.occ_law fake.rlr_law fake.rdfd_law fake.ier_law fake.isr_law fake.rdfr_law
  by unfold_locales (simp_all add: view_fifo_simps)

definition taken :: "nat \<Rightarrow> int list list \<Rightarrow> wp_record list" where
  "taken budget ps = map rec4 (filter (\<lambda>p. length p = 4) (take budget ps))"

definition misfit :: "nat \<Rightarrow> int list list \<Rightarrow> nat" where
  "misfit budget ps = length (filter (\<lambda>p. length p \<noteq> 4) (take budget ps))"

lemma tick_fifo_drain:
  assumes "dict_get (ws_fifos s) (wf_region fd) = Some bid" "wc_record_words cfg = None \<or> wc_record_words cfg = Some 4"
    "fake_view b = (concat ps, lens ps)" "view_packets_ok ps"
    "budget = opt_or (wc_drain_max cfg) 1024"
  shows "\<exists>b'. tick_fifo fake_dash bid cfg t fd (s, b)
      = heal fake_dash (opt_or (wc_resync_after cfg) 256) (wf_region fd) (taken budget ps)
          (push_all t (taken budget ps) (s\<lparr>ws_malformed := ws_malformed s + misfit budget ps\<rparr>), b')
    \<and> fake_view b' = (concat (drop budget ps), lens (drop budget ps))"
proof -
  have m: "take (min (length ps) (budget - n_packets drain_stats0)) ps = take budget ps"
    "drop (min (length ps) (budget - n_packets drain_stats0)) ps = drop budget ps"
    by (auto simp: drain_stats0_def min_def)
  have rw: "opt_or (wc_record_words cfg) 4 = 4" using assms(2) by (auto simp: opt_or_def)
  show ?thesis
    using view_rx.live_loop_packets [OF assms(3,4) refl, of "wf_region fd" budget drain_stats0 "[]" s] assms(1)
    unfolding m
    by (auto simp: tick_fifo_def andthen_def bnd_def bind_fifo_def set_view_def rw assms(5) taken_def misfit_def
      simp del: live_loop.simps)
qed

lemma heal_reset:
  assumes "recs \<noteq> []" "\<not> list_ex r_valid recs" "limit \<le> dict_get_or (ws_misparse s) region 0 + length recs"
  shows "\<exists>b' s'. heal fake_dash limit region recs (s, b) = (Inr (), (s', b')) \<and> fake_view b' = ([], []) \<and>
    dict_get (ws_misparse s') region = Some 0 \<and> ws_ring s' = ws_ring s"
proof -
  obtain b1 where b1: "fifo_write (view_fifo fake_dash region) RDFR RESET_KEY b = (Inr (), b1)" "fake_view b1 = ([], [])"
    using view_rx.rdfr_law by blast
  obtain b2 where b2: "fifo_write (view_fifo fake_dash region) ISR 0xFFFFFFFF b1 = (Inr (), b2)" "fake_view b2 = fake_view b1"
    using view_rx.isr_law by blast
  show ?thesis
    using assms b1 b2
    by (simp add: heal_def Let_def bnd_def andthen_def set_view_def reset_rx_def on_snd_def dict_get_set)
qed

section \<open>Demo records\<close>

lemma demo_w3:
  assumes "core = 0 \<or> core = 1"
  shows "r_valid (mk_record i a b c ((push_bit 20 core OR push_bit 8 0xFFF) OR (core + 1)))"
    "r_core_id (mk_record i a b c ((push_bit 20 core OR push_bit 8 0xFFF) OR (core + 1))) = core"
proof -
  have f: "bits_of (w3_of core 0xFFF (core + 1)) 8 12 = 0xFFF" "bits_of (w3_of core 0xFFF (core + 1)) 20 4 = core"
      "bits_of (w3_of core 0xFFF (core + 1)) 24 8 = 0"
    using w3_of_fields [of core "0xFFF" "core + 1"] assms by auto
  then show "r_valid (mk_record i a b c ((push_bit 20 core OR push_bit 8 0xFFF) OR (core + 1)))"
    unfolding w3_of_def [symmetric] record_valid_char by (simp add: full_strobes_def)
  have "r_core_id (mk_record i a b c (w3_of core 0xFFF (core + 1))) = bits_of (w3_of core 0xFFF (core + 1)) 20 4"
    by (simp add: mk_record_def Let_def bits_of_def push_bit_eq_mult)
  then show "r_core_id (mk_record i a b c ((push_bit 20 core OR push_bit 8 0xFFF) OR (core + 1))) = core"
    unfolding w3_of_def [symmetric] by (simp add: f)
qed

text \<open>The schedule entry of the \<open>j\<close>-th record of a core.\<close>

definition walk_pc :: "wp_state \<Rightarrow> int \<Rightarrow> nat \<Rightarrow> int" where
  "walk_pc s core j = fst (ws_demo_sched s !
     ((j + (nat core * length (ws_demo_sched s)) div 2) mod length (ws_demo_sched s))) AND 0xFFFFFFFF"

lemma demo_record_fields:
  assumes "core = 0 \<or> core = 1"
  shows "r_valid (demo_record s dt clk core base k)" "r_core_id (demo_record s dt clk core base k) = core"
    "r_pc (demo_record s dt clk core base k)
       = fst (ws_demo_sched s ! ((base + k) mod length (ws_demo_sched s))) AND 0xFFFFFFFF"
proof -
  obtain a sl where e: "ws_demo_sched s ! ((base + k) mod length (ws_demo_sched s)) = (a, sl)" by fastforce
  obtain ts where d: "demo_record s dt clk core base k
      = mk_record 0 a (int sl) ts ((push_bit 20 core OR push_bit 8 0xFFF) OR (core + 1))"
    by (simp only: demo_record_def Let_def e prod.case)
  show "r_valid (demo_record s dt clk core base k)" "r_core_id (demo_record s dt clk core base k) = core"
    unfolding d by (rule demo_w3 [OF assms])+
  show "r_pc (demo_record s dt clk core base k)
       = fst (ws_demo_sched s ! ((base + k) mod length (ws_demo_sched s))) AND 0xFFFFFFFF"
    unfolding d e by (simp only: mk_record_def Let_def wp_record.simps fst_conv)
qed

lemma push_all_core:
  "\<forall>r\<in>set rs. r_core_id r = c \<and> r_valid r \<Longrightarrow>
     dict_get_or (ws_received (push_all t rs s)) c 0 = dict_get_or (ws_received s) c 0 + length rs \<and>
     (\<forall>c'. c' \<noteq> c \<longrightarrow> dict_get_or (ws_received (push_all t rs s)) c' 0 = dict_get_or (ws_received s) c' 0) \<and>
     ws_invalid (push_all t rs s) = ws_invalid s \<and> ws_demo_carry (push_all t rs s) = ws_demo_carry s \<and>
     ws_demo_sched (push_all t rs s) = ws_demo_sched s \<and> ws_maxlen (push_all t rs s) = ws_maxlen s"
proof (induction rs arbitrary: s)
  case (Cons r rs)
  from Cons.IH [of "push_rec t r s"] Cons.prems show ?case
    by (auto simp: push_all_def push_rec_def Let_def dict_get_or_def)
qed (simp add: push_all_def)

lemma push_all_maxlen: "ws_maxlen (push_all t rs s) = ws_maxlen s"
  unfolding push_all_def by (induction rs arbitrary: s) (auto simp: push_rec_def Let_def)

lemma push_all_ring:
  assumes "length (ws_ring s) \<le> ws_maxlen s"
  shows "map (snd \<circ> snd) (ws_ring (push_all t rs s)) = last_n (ws_maxlen s) (map (snd \<circ> snd) (ws_ring s) @ rs)
    \<and> length (ws_ring (push_all t rs s)) \<le> ws_maxlen s"
  using assms
proof (induction rs rule: rev_induct)
  case (snoc r rs)
  let ?s = "push_all t rs s"
  have p: "push_all t (rs @ [r]) s = push_rec t r ?s" by (simp add: push_all_def)
  note m = push_all_maxlen [of t rs s]
  from snoc show ?case
    unfolding p by (simp add: push_rec_def Let_def deque_append_def map_last_n last_n_snoc m)
qed (simp add: push_all_def)

lemma demo_core_step:
  assumes "core = 0 \<or> core = 1" "0 \<le> rate" "0 \<le> dt" "0 \<le> dict_get_or (ws_demo_carry s) core 0"
    "length (ws_ring s) \<le> ws_maxlen s"
  shows "\<exists>rs. (let s' = demo_core t dt rate clk core s; old = dict_get_or (ws_received s) core 0;
      new = dict_get_or (ws_received s') core 0 in
    of_nat new + dict_get_or (ws_demo_carry s') core 0 = of_nat old + dict_get_or (ws_demo_carry s) core 0 + of_int rate * dt \<and>
    0 \<le> dict_get_or (ws_demo_carry s') core 0 \<and> dict_get_or (ws_demo_carry s') core 0 < 1 \<and>
    (\<forall>c. c \<noteq> core \<longrightarrow> dict_get_or (ws_received s') c 0 = dict_get_or (ws_received s) c 0 \<and>
       dict_get_or (ws_demo_carry s') c 0 = dict_get_or (ws_demo_carry s) c 0) \<and>
    ws_invalid s' = ws_invalid s \<and> ws_demo_sched s' = ws_demo_sched s \<and> ws_maxlen s' = ws_maxlen s \<and>
    length (ws_ring s') \<le> ws_maxlen s \<and>
    map (snd \<circ> snd) (ws_ring s') = last_n (ws_maxlen s) (map (snd \<circ> snd) (ws_ring s) @ rs) \<and>
    map r_pc rs = map (walk_pc s core) [old..<new] \<and> (\<forall>r\<in>set rs. r_core_id r = core \<and> r_valid r))"
proof -
  define carry where "carry = dict_get_or (ws_demo_carry s) core 0 + of_int rate * dt"
  define n where "n = nat (trunc_rat carry)"
  define s1 where "s1 = s\<lparr> ws_demo_carry := dict_set core (carry - of_int (trunc_rat carry)) (ws_demo_carry s) \<rparr>"
  define base where "base = dict_get_or (ws_received s1) core 0 + (nat core * length (ws_demo_sched s)) div 2"
  define rs where "rs = map (demo_record s1 dt clk core base) [0..<n]"
  have c0: "0 \<le> carry" using assms by (simp add: carry_def)
  then have tr: "trunc_rat carry = \<lfloor>carry\<rfloor>" "0 \<le> \<lfloor>carry\<rfloor>" by (simp_all add: trunc_rat_def)
  have dc: "demo_core t dt rate clk core s = push_all t rs s1"
    by (simp add: demo_core_def Let_def rs_def n_def s1_def base_def carry_def)
  have rs: "\<forall>r\<in>set rs. r_core_id r = core \<and> r_valid r"
    using demo_record_fields(1,2) [OF assms(1)] by (auto simp: rs_def)
  note pc = push_all_core [OF rs, of t s1]
  have ln: "length rs = n" by (simp add: rs_def)
  have s1: "ws_received s1 = ws_received s" "ws_invalid s1 = ws_invalid s" "ws_demo_sched s1 = ws_demo_sched s"
      "ws_maxlen s1 = ws_maxlen s" "ws_ring s1 = ws_ring s"
      "dict_get_or (ws_demo_carry s1) core 0 = carry - of_int \<lfloor>carry\<rfloor>"
      "\<And>c. c \<noteq> core \<Longrightarrow> dict_get_or (ws_demo_carry s1) c 0 = dict_get_or (ws_demo_carry s) c 0"
    using tr by (auto simp: s1_def dict_get_or_def)
  have "map r_pc rs = map (walk_pc s core) [dict_get_or (ws_received s) core 0..<dict_get_or (ws_received s) core 0 + n]"
    by (rule nth_equalityI)
       (auto simp: rs_def demo_record_fields(3) [OF assms(1)] walk_pc_def base_def s1 add.assoc add.left_commute add.commute)
  moreover have "(of_nat n :: rat) = of_int \<lfloor>carry\<rfloor>" using tr by (simp add: n_def)
  moreover have "0 \<le> carry - of_int \<lfloor>carry\<rfloor>" "carry - of_int \<lfloor>carry\<rfloor> < 1" by linarith+
  ultimately show ?thesis
    using pc push_all_ring [of s1 t rs] assms(5) rs ln s1
    by (intro exI [of _ rs]) (simp add: dc Let_def carry_def)
qed

section \<open>The table load on the live bus\<close>

lemma hw_write_other:
  "hw_write r off v s = (q, s') \<Longrightarrow> r' \<noteq> r \<Longrightarrow> dict_get (hw_maps s') r' = dict_get (hw_maps s) r'"
  by (auto simp: hw_write_def hw_map_def bnd_def lift_exn_def dict_get_set split: option.splits sum.splits)

lemma hw_read1_local:
  assumes "dict_get (hw_maps s') r = dict_get (hw_maps s) r"
  shows "fst (read1 hw_bus r off s') = fst (read1 hw_bus r off s)" "snd (read1 hw_bus r off s) = s"
  using assms
  by (auto simp: read1_def hw_bus_def hw_read_def hw_map_def bnd_def lift_exn_def split: option.splits sum.splits)

lemma write_slots_other:
  assumes "for_each table (\<lambda>(i, a, c). andthen (db_write hw_bus r (off0 + 8 * int i) a)
      (db_write hw_bus r (off0 + 8 * int i + 4) c)) s = (q, s')" "r' \<noteq> r"
  shows "dict_get (hw_maps s') r' = dict_get (hw_maps s) r'"
proof (rule for_each_invariant [where P = "\<lambda>t. dict_get (hw_maps t) r' = dict_get (hw_maps s) r'", OF _ assms(1)])
  fix x t q' t' assume "(case x of (i, a, c) \<Rightarrow> andthen (db_write hw_bus r (off0 + 8 * int i) a)
      (db_write hw_bus r (off0 + 8 * int i + 4) c)) t = (q', t')" "dict_get (hw_maps t) r' = dict_get (hw_maps s) r'"
  then show "dict_get (hw_maps t') r' = dict_get (hw_maps s) r'"
    by (auto simp: andthen_def bnd_def hw_bus_def split: prod.splits sum.splits; metis hw_write_other assms(2))
qed simp

definition lock_clear :: "scenario \<Rightarrow> hw \<Rightarrow> string option \<Rightarrow> bool" where
  "lock_clear sc s region \<longleftrightarrow> (case region of None \<Rightarrow> False
     | Some r \<Rightarrow> dict_get (sc_regions sc) r \<noteq> None \<and>
         (case fst (read1 hw_bus r 0 s) of Inr te \<Rightarrow> te AND 3 = 0 | Inl _ \<Rightarrow> False))"

lemma load_region_ok:
  assumes "load_region hw_bus sc off0 table region s = (Inr x, s')"
  shows "lock_clear sc s region" "Some r' \<noteq> region \<Longrightarrow> dict_get (hw_maps s') r' = dict_get (hw_maps s) r'"
proof -
  obtain r where r: "region = Some r" "dict_get (sc_regions sc) r \<noteq> None"
    using assms by (auto simp: load_region_def split: option.splits if_splits)
  obtain te where te: "read1 hw_bus r 0 s = (Inr te, s)" "te AND 3 = 0"
    using assms r hw_read1_local(2) [OF refl, of r 0 s]
    by (cases "read1 hw_bus r 0 s") (auto simp: load_region_def bnd_def split: sum.splits if_splits)
  then show "lock_clear sc s region" using r by (simp add: lock_clear_def)
  assume "Some r' \<noteq> region"
  then have n: "r' \<noteq> r" using r by auto
  obtain s1 where w: "for_each table (\<lambda>(i, a, c). andthen (db_write hw_bus r (off0 + 8 * int i) a)
      (db_write hw_bus r (off0 + 8 * int i + 4) c)) s = (Inr (), s1)" "s' = s1"
    using assms r te hw_read1_local(2) [OF refl, of r]
    apply (auto simp: load_region_def elim!: bnd_InrE andthen_InrE)
    apply (metis snd_conv)
    done
  then show "dict_get (hw_maps s') r' = dict_get (hw_maps s) r'" using write_slots_other n by blast
qed

lemma load_regions_ok:
  "map_act (load_region hw_bus sc off0 table) regions s = (Inr xs, s') \<Longrightarrow> \<forall>r\<in>set regions. lock_clear sc s r"
proof (induction regions arbitrary: s xs)
  case (Cons x regions)
  obtain y s1 ys where x: "load_region hw_bus sc off0 table x s = (Inr y, s1)"
      "map_act (load_region hw_bus sc off0 table) regions s1 = (Inr ys, s')"
    using Cons.prems by (auto elim!: bnd_InrE)
  have "lock_clear sc s r" if r: "r \<in> set regions" for r
  proof (cases "r = x")
    case False
    have "lock_clear sc s1 r" using Cons.IH [OF x(2)] r by blast
    then obtain n where n: "r = Some n" "dict_get (sc_regions sc) n \<noteq> None" by (auto simp: lock_clear_def split: option.splits)
    then have "dict_get (hw_maps s1) n = dict_get (hw_maps s) n" using load_region_ok(2) [OF x(1)] False by simp
    then have "fst (read1 hw_bus n 0 s1) = fst (read1 hw_bus n 0 s)" by (rule hw_read1_local(1))
    then show ?thesis using \<open>lock_clear sc s1 r\<close> n by (simp add: lock_clear_def)
  qed (use load_region_ok(1) [OF x(1)] in simp)
  then show ?case using load_region_ok(1) [OF x(1)] by simp
qed simp

lemma load_table_checks:
  assumes "wp_load_table hw_bus cfg sc slots encs s = (Inr (n, res), s')"
  shows "\<exists>ctrl. ctrl_word hw_bus sc s = (Inr ctrl, s) \<and> n = length slots \<and>
    (\<forall>c\<in>set (sc_cores sc). c_enc c \<in> set (case encs of None \<Rightarrow> map c_enc (sc_cores sc) | Some rs \<Rightarrow> rs) \<longrightarrow>
       \<not> core_running sc ctrl c) \<and>
    (\<forall>r\<in>set (case encs of None \<Rightarrow> map c_enc (sc_cores sc) | Some rs \<Rightarrow> rs). lock_clear sc s r)"
proof -
  have c: "ctrl_word hw_bus sc s = (Inr v, t) \<Longrightarrow> t = s" for v t
    using hw_read1_local(2) [OF refl, of "''ctrl''" _ s] by (auto simp: ctrl_word_def split: option.splits) (metis snd_conv)
  have len: "table_of i slots = Inr t \<Longrightarrow> length t = length slots" for i t
    by (induction i slots arbitrary: t rule: table_of.induct) (auto split: sum.splits)
  show ?thesis
    using assms
    by (auto simp: wp_load_table_def lift_exn_def target_running_def Let_def find_None_iff len
        split: option.splits if_splits elim!: bnd_InrE dest!: c load_regions_ok)
qed

lemma push_all_misparse: "ws_misparse (push_all t rs s) = ws_misparse s"
  unfolding push_all_def by (induction rs arbitrary: s) (auto simp: push_rec_def Let_def)

lemma last_n_append: "last_n n (last_n n xs @ ys) = last_n n (xs @ ys)"
  by (cases "length xs \<le> n") (auto simp: last_n_def intro!: arg_cong [where f = "\<lambda>k. drop k xs"])

text \<open>A small view: one FIFO, a budget of two packets, a reset after the first invalid record.\<close>

definition mini_fd :: wp_fifo_doc where
  "mini_fd = \<lparr> wf_region = ''fifo0'', wf_core = 0, wf_drop = 0, wf_fill = 4, wf_ovf = 8 \<rparr>"

definition mini_cfg :: wp_cfg where
  "mini_cfg = \<lparr> wc_ring = Some 3, wc_wp_set = [''wp_set.txt''], wc_wp_slots = Some 2, wc_load_slots = None,
     wc_wpctrl_region = ''wpctrl'', wc_magic_off = None, wc_magic = ''0x57504354'', wc_drain_max = Some 2,
     wc_resync_after = Some 1, wc_record_words = None, wc_fifos = [mini_fd], wc_demo_rate = Some 10,
     wc_clk_hz = None, wc_table_off = Some (A_Str ''0x100''), wc_ftime_lo = 8, wc_ftime_hi = 12,
     wc_fifo_words = 16, wc_shim_recs = 20 \<rparr>"

definition mini_view :: wp_state where
  "mini_view = (wp_reset (\<lambda>p. Some (p, [''# set'', ''0x00000100 entry:f0'', ''0x80 entry:f1''])) (Some mini_cfg))
     \<lparr> ws_fifos := [(''fifo0'', 1)] \<rparr>"

definition mini_good :: "int list list" where
  "mini_good = [[256, 7, 9, 0x3FFF11], [1, 2], [5, 6]]"

definition mini_bad :: "int list list" where
  "mini_bad = [[256, 7, 9, 0xFF3FFF11], [1, 2], [5, 6]]"

lemma mini_facts:
  "dict_get (ws_fifos mini_view) (wf_region mini_fd) = Some 1"
  "wc_record_words mini_cfg = None \<or> wc_record_words mini_cfg = Some 4"
  "2 = opt_or (wc_drain_max mini_cfg) 1024"
  by code_simp+

lemma mini_good:
  "fake_view (mk_fake_bus mini_good None) = (concat mini_good, lens mini_good)"
  "view_packets_ok mini_good" "list_ex r_valid (taken 2 mini_good)"
  by (simp add: fake_view_def mk_fake_bus_def, simp add: view_packets_ok_def mini_good_def, code_simp)

lemma mini_bad:
  "fake_view (mk_fake_bus mini_bad None) = (concat mini_bad, lens mini_bad)"
  "view_packets_ok mini_bad" "taken 2 mini_bad \<noteq> []" "\<not> list_ex r_valid (taken 2 mini_bad)"
  "opt_or (wc_resync_after mini_cfg) 256 \<le> dict_get_or (ws_misparse mini_view) (wf_region mini_fd) 0
     + length (taken 2 mini_bad)"
  by (simp add: fake_view_def mk_fake_bus_def, simp add: view_packets_ok_def mini_bad_def, code_simp+)

lemma mini_drop: "(concat (drop 2 mini_good), lens (drop 2 mini_good)) = ([5, 6], [8])"
  by code_simp

section \<open>Properties\<close>

text \<open>C35: 
  Whatever the bus answers, and whether it raises or not, a live tick keeps the view consistent.
\<close>

theorem tick_live_invariant:
  assumes "view_ok s" "tick_live bus bid cfg t (s, b) = (r, (s', b'))"
  shows "view_ok s'"
  using keeps_viewD [OF tick_live_keeps assms] .

text \<open>
  A tick of a bound FIFO consumes exactly the first \<open>drain_max\<close> packets, in order, and leaves the
  rest in the FIFO: the four-word packets are pushed as records, the others are counted as
  malformed. With a valid record among them the FIFO is not reset.
\<close>

lemma tick_fifo_healthy:
  assumes "dict_get (ws_fifos s) (wf_region fd) = Some bid" "wc_record_words cfg = None \<or> wc_record_words cfg = Some 4"
    "fake_view b = (concat ps, lens ps)" "view_packets_ok ps"
    "budget = opt_or (wc_drain_max cfg) 1024" "list_ex r_valid (taken budget ps)"
  shows "\<exists>s' b'. tick_fifo fake_dash bid cfg t fd (s, b) = (Inr (), (s', b')) \<and>
    fake_view b' = (concat (drop budget ps), lens (drop budget ps)) \<and>
    s' = (push_all t (taken budget ps) (s\<lparr>ws_malformed := ws_malformed s + misfit budget ps\<rparr>))
         \<lparr>ws_misparse := dict_set (wf_region fd) 0 (ws_misparse (push_all t (taken budget ps)
            (s\<lparr>ws_malformed := ws_malformed s + misfit budget ps\<rparr>)))\<rparr>"
proof -
  have "taken budget ps \<noteq> []" using assms(6) by auto
  then show ?thesis
    using tick_fifo_drain [OF assms(1-5), of t] assms(6) by (auto simp: heal_def set_view_def)
qed

lemma tick_fifo_healthy_witness:
  "\<exists>s' b'. tick_fifo fake_dash 1 mini_cfg 0 mini_fd (mini_view, mk_fake_bus mini_good None)
      = (Inr (), (s', b')) \<and> fake_view b' = ([5, 6], [8])"
  using tick_fifo_healthy [OF mini_facts(1,2) mini_good(1,2) mini_facts(3), of 0] mini_good(3) mini_drop(1) by auto

text \<open>
  A FIFO that has delivered only invalid records for long enough is reset: nothing of the shifted
  stream is left in it, and the count starts again.
\<close>

lemma tick_fifo_resync:
  assumes "dict_get (ws_fifos s) (wf_region fd) = Some bid" "wc_record_words cfg = None \<or> wc_record_words cfg = Some 4"
    "fake_view b = (concat ps, lens ps)" "view_packets_ok ps"
    "budget = opt_or (wc_drain_max cfg) 1024" "taken budget ps \<noteq> []" "\<not> list_ex r_valid (taken budget ps)"
    "opt_or (wc_resync_after cfg) 256 \<le> dict_get_or (ws_misparse s) (wf_region fd) 0 + length (taken budget ps)"
  shows "\<exists>s' b'. tick_fifo fake_dash bid cfg t fd (s, b) = (Inr (), (s', b')) \<and> fake_view b' = ([], []) \<and>
    dict_get (ws_misparse s') (wf_region fd) = Some 0"
proof -
  obtain b1 where e: "tick_fifo fake_dash bid cfg t fd (s, b)
      = heal fake_dash (opt_or (wc_resync_after cfg) 256) (wf_region fd) (taken budget ps)
          (push_all t (taken budget ps) (s\<lparr>ws_malformed := ws_malformed s + misfit budget ps\<rparr>), b1)"
    using tick_fifo_drain [OF assms(1-5), of t] by blast
  show ?thesis
    unfolding e using heal_reset [OF assms(6,7), of "opt_or (wc_resync_after cfg) 256"
        "push_all t (taken budget ps) (s\<lparr>ws_malformed := ws_malformed s + misfit budget ps\<rparr>)" "wf_region fd" b1] assms(8)
    by (auto simp: push_all_misparse)
qed

lemma tick_fifo_resync_witness:
  "\<exists>s' b'. tick_fifo fake_dash 1 mini_cfg 0 mini_fd (mini_view, mk_fake_bus mini_bad None)
      = (Inr (), (s', b')) \<and> fake_view b' = ([], [])"
  using tick_fifo_resync [OF mini_facts(1,2) mini_bad(1,2) mini_facts(3) mini_bad(3,4), of 0] mini_bad(5) by auto

text \<open>
  The demo produces exactly the configured rate: for each of the two cores the records produced and
  the fraction carried over add up to what the time step asked for. Every record is valid and
  bears its core, and the \<open>j\<close>-th record of a core shows the \<open>j\<close>-th entry of the slot walk, the
  second core half a lap ahead.
\<close>

lemma demo_tick_exact:
  assumes "ws_demo_sched s \<noteq> []" "0 \<le> opt_or (wc_demo_rate cfg) 300" "0 \<le> dt" "view_ok s"
    "0 \<le> dict_get_or (ws_demo_carry s) 0 0" "0 \<le> dict_get_or (ws_demo_carry s) 1 0"
  shows "let s' = tick_demo cfg t dt s; got = (\<lambda>c. dict_get_or (ws_received s) c 0);
      got' = (\<lambda>c. dict_get_or (ws_received s') c 0); carry = (\<lambda>c. dict_get_or (ws_demo_carry s) c 0);
      carry' = (\<lambda>c. dict_get_or (ws_demo_carry s') c 0); rate = of_int (opt_or (wc_demo_rate cfg) 300) * dt in
    of_nat (got' 0) + carry' 0 = of_nat (got 0) + carry 0 + rate \<and> 0 \<le> carry' 0 \<and> carry' 0 < 1 \<and>
    of_nat (got' 1) + carry' 1 = of_nat (got 1) + carry 1 + rate \<and> 0 \<le> carry' 1 \<and> carry' 1 < 1 \<and>
    ws_invalid s' = ws_invalid s \<and>
    (\<exists>rs0 rs1. map (snd \<circ> snd) (ws_ring s') = last_n (ws_maxlen s) (map (snd \<circ> snd) (ws_ring s) @ rs0 @ rs1) \<and>
      map r_pc rs0 = map (walk_pc s 0) [got 0..<got' 0] \<and> map r_pc rs1 = map (walk_pc s 1) [got 1..<got' 1] \<and>
      map r_core_id rs0 = replicate (length rs0) 0 \<and> map r_core_id rs1 = replicate (length rs1) 1)"
proof -
  define rate clk where "rate = opt_or (wc_demo_rate cfg) 300" and "clk = opt_or (wc_clk_hz cfg) 75000000"
  define s0 where "s0 = s\<lparr> ws_demo_tick := ws_demo_tick s + 1 \<rparr>"
  define s1 where "s1 = demo_core t dt rate clk 0 s0"
  define s2 where "s2 = demo_core t dt rate clk 1 s1"
  have l: "length (ws_ring s) \<le> ws_maxlen s"
    using assms(4) unfolding view_ok_def by (metis length_last_n length_map min.cobounded1)
  have s0: "ws_received s0 = ws_received s" "ws_demo_carry s0 = ws_demo_carry s" "ws_ring s0 = ws_ring s"
      "ws_maxlen s0 = ws_maxlen s" "ws_invalid s0 = ws_invalid s" "ws_demo_sched s0 = ws_demo_sched s"
    by (simp_all add: s0_def)
  have w: "walk_pc s0 = walk_pc s" by (intro ext) (simp add: walk_pc_def s0)
  obtain rs0 where a: "of_nat (dict_get_or (ws_received s1) 0 0) + dict_get_or (ws_demo_carry s1) 0 0
        = of_nat (dict_get_or (ws_received s) 0 0) + dict_get_or (ws_demo_carry s) 0 0 + of_int rate * dt"
      "0 \<le> dict_get_or (ws_demo_carry s1) 0 0" "dict_get_or (ws_demo_carry s1) 0 0 < 1"
      "\<And>c. c \<noteq> 0 \<Longrightarrow> dict_get_or (ws_received s1) c 0 = dict_get_or (ws_received s) c 0"
      "\<And>c. c \<noteq> 0 \<Longrightarrow> dict_get_or (ws_demo_carry s1) c 0 = dict_get_or (ws_demo_carry s) c 0"
      "ws_invalid s1 = ws_invalid s" "ws_demo_sched s1 = ws_demo_sched s" "ws_maxlen s1 = ws_maxlen s"
      "length (ws_ring s1) \<le> ws_maxlen s"
      "map (snd \<circ> snd) (ws_ring s1) = last_n (ws_maxlen s) (map (snd \<circ> snd) (ws_ring s) @ rs0)"
      "map r_pc rs0 = map (walk_pc s 0) [dict_get_or (ws_received s) 0 0..<dict_get_or (ws_received s1) 0 0]"
      "\<forall>r\<in>set rs0. r_core_id r = 0 \<and> r_valid r"
    using demo_core_step [of 0 rate dt s0 t clk] assms(2,3,5) l
    unfolding s0 w Let_def s1_def [symmetric] rate_def [symmetric] by auto
  have w1: "walk_pc s1 = walk_pc s" by (intro ext) (simp add: walk_pc_def a)
  obtain rs1 where b: "of_nat (dict_get_or (ws_received s2) 1 0) + dict_get_or (ws_demo_carry s2) 1 0
        = of_nat (dict_get_or (ws_received s1) 1 0) + dict_get_or (ws_demo_carry s1) 1 0 + of_int rate * dt"
      "0 \<le> dict_get_or (ws_demo_carry s2) 1 0" "dict_get_or (ws_demo_carry s2) 1 0 < 1"
      "\<And>c. c \<noteq> 1 \<Longrightarrow> dict_get_or (ws_received s2) c 0 = dict_get_or (ws_received s1) c 0"
      "\<And>c. c \<noteq> 1 \<Longrightarrow> dict_get_or (ws_demo_carry s2) c 0 = dict_get_or (ws_demo_carry s1) c 0"
      "ws_invalid s2 = ws_invalid s1"
      "map (snd \<circ> snd) (ws_ring s2) = last_n (ws_maxlen s) (map (snd \<circ> snd) (ws_ring s1) @ rs1)"
      "map r_pc rs1 = map (walk_pc s 1) [dict_get_or (ws_received s1) 1 0..<dict_get_or (ws_received s2) 1 0]"
      "\<forall>r\<in>set rs1. r_core_id r = 1 \<and> r_valid r"
    using demo_core_step [of 1 rate dt s1 t clk] assms(2,3,6) a
    unfolding w1 Let_def s2_def [symmetric] rate_def [symmetric] by auto
  have "last_n (ws_maxlen s) (last_n (ws_maxlen s) (map (snd \<circ> snd) (ws_ring s) @ rs0) @ rs1)
      = last_n (ws_maxlen s) (map (snd \<circ> snd) (ws_ring s) @ rs0 @ rs1)"
    by (simp add: last_n_append)
  moreover have "tick_demo cfg t dt s = s2"
    using assms(1) by (simp add: tick_demo_def s2_def s1_def s0_def rate_def clk_def)
  moreover have "map r_core_id rs0 = replicate (length rs0) 0" "map r_core_id rs1 = replicate (length rs1) 1"
    using a(12) b(9) by (auto intro!: nth_equalityI)
  ultimately show ?thesis
    using a b unfolding rate_def [symmetric] Let_def by auto
qed

lemma tick_live_invariant_witness:
  "view_ok (fst (snd (tick_live fake_dash 1 mini_cfg 0 (mini_view, mk_fake_bus mini_bad None))))"
proof -
  have "view_ok mini_view" unfolding mini_view_def by (simp only: view_ok_upd wp_reset_ok)
  moreover obtain r s' b' where e: "tick_live fake_dash 1 mini_cfg 0 (mini_view, mk_fake_bus mini_bad None) = (r, (s', b'))"
    by (metis prod.collapse)
  ultimately show ?thesis using tick_live_invariant [OF _ e] by (simp add: e)
qed

lemma demo_tick_exact_witness:
  "of_nat (dict_get_or (ws_received (tick_demo mini_cfg 0 (1 / 4) mini_view)) 0 0)
     + dict_get_or (ws_demo_carry (tick_demo mini_cfg 0 (1 / 4) mini_view)) 0 0 = (5 / 2 :: rat)"
proof -
  have f: "ws_demo_sched mini_view \<noteq> []" "0 \<le> opt_or (wc_demo_rate mini_cfg) 300" by code_simp+
  have d: "dict_get_or (ws_demo_carry mini_view) 0 0 = 0" "dict_get_or (ws_demo_carry mini_view) 1 0 = 0"
      "dict_get_or (ws_received mini_view) 0 0 = 0" "opt_or (wc_demo_rate mini_cfg) 300 = 10"
    by (simp_all add: mini_view_def wp_reset_def mini_cfg_def opt_or_def dict_get_or_def split: prod.splits)
  have "view_ok mini_view" unfolding mini_view_def by (simp only: view_ok_upd wp_reset_ok)
  then have "of_nat (dict_get_or (ws_received (tick_demo mini_cfg 0 (1 / 4) mini_view)) 0 0)
     + dict_get_or (ws_demo_carry (tick_demo mini_cfg 0 (1 / 4) mini_view)) 0 0
     = (of_nat (dict_get_or (ws_received mini_view) 0 0) + dict_get_or (ws_demo_carry mini_view) 0 0
        + of_int (opt_or (wc_demo_rate mini_cfg) 300) * (1 / 4) :: rat)"
    by (intro conjunct1 [OF demo_tick_exact [of mini_view mini_cfg "1 / 4" 0, unfolded Let_def]] f) (simp_all add: d)
  then show ?thesis unfolding d by simp
qed

text \<open>
  When a table load on the live bus succeeds, every slot given is in the table, no core of a target
  encoder was running by the CONTROL word, and every target encoder is known and had both Active
  and Enable clear.
\<close>

lemma load_table_guarded:
  assumes "wp_load_table hw_bus cfg sc slots encs s = (Inr (n, res), s')"
  shows "\<exists>ctrl. ctrl_word hw_bus sc s = (Inr ctrl, s) \<and> n = length slots \<and>
    (\<forall>c\<in>set (sc_cores sc). c_enc c \<in> set (case encs of None \<Rightarrow> map c_enc (sc_cores sc) | Some rs \<Rightarrow> rs) \<longrightarrow>
       \<not> core_running sc ctrl c) \<and>
    (\<forall>r\<in>set (case encs of None \<Rightarrow> map c_enc (sc_cores sc) | Some rs \<Rightarrow> rs). lock_clear sc s r)"
  by (rule load_table_checks [OF assms])

definition load_sc :: scenario where
  "load_sc = mini_sc\<lparr> sc_regions := [(''ctrl'', (0, 8)), (''enc'', (0x1000, 16)), (''enc1'', (0x2000, 16))] \<rparr>"

definition load_hw :: "int \<Rightarrow> hw" where
  "load_hw ctrl = \<lparr> hw_maps = [(''ctrl'', pack_words [ctrl, 0]), (''enc'', pack_words [0, 0, 0, 0]),
     (''enc1'', pack_words [0, 0, 0, 0])], hw_phys = (\<lambda>_. 0) \<rparr>"

lemma load_table_guarded_witness:
  "lock_clear load_sc (load_hw 0) (Some ''enc1'') \<and>
   fst (wp_load_table hw_bus (Some (mini_cfg\<lparr>wc_table_off := Some (A_Int 8)\<rparr>)) load_sc
     [(A_Str ''0x80'', A_Int 1)] (Some [Some ''enc1'']) (load_hw 0)) = Inr (1, [(''enc1'', 128, 1)])"
proof -
  let ?l = "wp_load_table hw_bus (Some (mini_cfg\<lparr>wc_table_off := Some (A_Int 8)\<rparr>)) load_sc
     [(A_Str ''0x80'', A_Int 1)] (Some [Some ''enc1'']) (load_hw 0)"
  have r: "fst ?l = Inr (1, [(''enc1'', 128, 1)])" by code_simp
  then have "?l = (Inr (1, [(''enc1'', 128, 1)]), snd ?l)" by (metis prod.collapse)
  from load_table_guarded [OF this] r show ?thesis by auto
qed

end
