(* ===== verification/Ring_Dump.thy ===== *)
theory Ring_Dump
  imports Hw_Bus
begin

unbundle bit_operations_syntax

text \<open>
  The raw dumps of the trace sinks: the cap argument, the URAM ring and the DDR window in
  chronological order (\<open>dump_bytes\<close>), and the tail of the ring (\<open>trace_tail\<close>). The locales
  \<open>uram_port\<close> and \<open>ddr_port\<close> say how a ring memory and its counters hold the captured stream; both
  are interpreted on the mapped memory of the live bus.
\<close>

definition TRACE_BRAM :: int where "TRACE_BRAM = 0x4000"
definition DUMP_CAP_DEFAULT :: int where "DUMP_CAP_DEFAULT = push_bit 20 32"
definition DUMP_CAP_MAX :: int where "DUMP_CAP_MAX = push_bit 20 256"

text \<open>\<open>?max=<bytes>\<close>: absent, or the first value of the query.\<close>

definition dump_cap_arg :: "string option \<Rightarrow> exn + int" where
  "dump_cap_arg raw =
     (case raw of None \<Rightarrow> Inr DUMP_CAP_DEFAULT
      | Some t \<Rightarrow> (case py_int 0 t of
          None \<Rightarrow> Inl (Exn ValueError ''invalid literal for int()'' [AS t])
        | Some n \<Rightarrow> Inr (if n \<le> 0 then DUMP_CAP_MAX else min n DUMP_CAP_MAX)))"

record dump_info =
  di_available :: int
  di_returned :: nat
  di_capped :: bool

definition dump_done :: "byte list \<Rightarrow> int \<Rightarrow> byte list \<times> dump_info" where
  "dump_done raw avail = (raw, \<lparr> di_available = avail, di_returned = length raw,
     di_capped = int (length raw) < avail \<rparr>)"

text \<open>\<open>raw[-cap:] if cap and len(raw) > cap else raw\<close>.\<close>

definition newest :: "nat \<Rightarrow> byte list \<Rightarrow> byte list" where
  "newest cap raw = (if cap \<noteq> 0 \<and> cap < length raw then last_n cap raw else raw)"

definition ctrl_reg :: "'b trace_bus \<Rightarrow> scenario \<Rightarrow> string \<Rightarrow> ('b, int) act" where
  "ctrl_reg tb sc name =
     (case co sc name of None \<Rightarrow> raise (Exn TypeError name [])
      | Some off \<Rightarrow> read1 (tb_bus tb) ''ctrl'' off)"

definition zero_division :: exn where
  "zero_division = Exn ZeroDivisionError ''modulo by zero'' []"

text \<open>The ring from the oldest byte on.\<close>

definition ring_chrono :: "'b trace_bus \<Rightarrow> scenario \<Rightarrow> int \<Rightarrow> int \<Rightarrow> ('b, byte list) act" where
  "ring_chrono tb sc nbytes ring =
     (if ring < nbytes then
        bnd (ctrl_reg tb sc ''trace_beats'') (\<lambda>beats.
        if ring div 4 = 0 then raise zero_division
        else let wr = (beats mod (ring div 4)) * 4 in
        bnd (db_read (tb_bus tb) ''trace'' wr (nat ((ring - wr) div 4))) (\<lambda>w1.
        bnd (db_read (tb_bus tb) ''trace'' 0 (nat (wr div 4))) (\<lambda>w2.
        ret (pack_words w1 @ pack_words w2))))
      else
        bnd (if nbytes \<noteq> 0 then db_read (tb_bus tb) ''trace'' 0 (nat ((nbytes + 3) div 4)) else ret [])
          (\<lambda>ws. ret (take (nat nbytes) (pack_words ws))))"

definition dump_uram :: "'b trace_bus \<Rightarrow> scenario \<Rightarrow> nat \<Rightarrow> ('b, byte list \<times> dump_info) act" where
  "dump_uram tb sc cap =
     (if db_demo (tb_bus tb) then
        bnd (tb_uram_dump tb) (\<lambda>raw. ret (dump_done (newest cap raw) (int (length raw))))
      else
        bnd (ctrl_reg tb sc ''trace_bytes'') (\<lambda>nbytes.
        bnd (ctrl_reg tb sc ''trace_bufsz'') (\<lambda>bufsz.
        bnd (ring_chrono tb sc nbytes (if bufsz = 0 then TRACE_BRAM else bufsz))
          (\<lambda>raw. ret (dump_done (newest cap raw) (int (length raw)))))))"

definition al32 :: "int \<Rightarrow> int" where
  "al32 v = (v + 31) AND NOT 31"

text \<open>The window of the capped dump of a wrapped circular buffer: start and length.\<close>

definition wrapped_window :: "int \<Rightarrow> int \<Rightarrow> int \<Rightarrow> int \<times> int" where
  "wrapped_window off n sz =
     (let start = al32 ((off - n) mod sz) mod sz; m = (off - start) mod sz in
      (start, if m = 0 then n else m))"

text \<open>The newest \<open>n\<close> of the \<open>held\<close> bytes of the window, rounded to the burst edge when capped.\<close>

definition ddr_newest :: "'b trace_bus \<Rightarrow> int \<Rightarrow> int \<Rightarrow> int \<Rightarrow> bool \<Rightarrow> int \<Rightarrow> int \<Rightarrow> ('b, byte list) act" where
  "ddr_newest tb base sz wptr wrapped held n =
     (if wrapped then
        let off = wptr mod sz in
        if held \<le> n then
          bnd (tb_phys_read tb (base + off) (sz - off)) (\<lambda>a.
          bnd (tb_phys_read tb base off) (\<lambda>b. ret (a @ b)))
        else case wrapped_window off n sz of (start, m) \<Rightarrow>
          if start + m \<le> sz then tb_phys_read tb (base + start) m
          else
            bnd (tb_phys_read tb (base + start) (sz - start)) (\<lambda>a.
            bnd (tb_phys_read tb base (m - (sz - start))) (\<lambda>b. ret (a @ b)))
      else if held \<le> n then tb_phys_read tb base held
      else let start = al32 (held - n) in tb_phys_read tb (base + start) (held - start))"

definition dump_ddr :: "'b trace_bus \<Rightarrow> scenario \<Rightarrow> nat \<Rightarrow> ('b, byte list \<times> dump_info) act" where
  "dump_ddr tb sc cap =
     (if \<not> sd_ddr_sink (sc_raw sc) then raise (Exn ValueError ''scenario has no DDR sink'' [AS (sc_id sc)])
      else if db_demo (tb_bus tb) then
        bnd (tb_ddr_dump tb) (\<lambda>raw. ret (dump_done (newest cap raw) (int (length raw))))
      else
        bnd (ctrl_reg tb sc ''ddr_base'') (\<lambda>base.
        bnd (ctrl_reg tb sc ''ddr_size'') (\<lambda>size.
        bnd (ctrl_reg tb sc ''ddr_wptr'') (\<lambda>wptr.
        bnd (ctrl_reg tb sc ''sink_ctrl'') (\<lambda>sink.
        bnd (ctrl_reg tb sc ''sink_stat'') (\<lambda>stat.
        let held = min wptr size in
        if held = 0 then ret (dump_done [] 0)
        else
          bnd (ddr_newest tb base size wptr (sink AND 4 \<noteq> 0 \<and> stat AND 4 \<noteq> 0) held
                (if cap \<noteq> 0 then min held (int cap) else held))
            (\<lambda>raw. ret (dump_done raw held))))))))"

definition dump_bytes :: "'b trace_bus \<Rightarrow> string \<Rightarrow> scenario \<Rightarrow> nat \<Rightarrow> ('b, byte list \<times> dump_info) act" where
  "dump_bytes tb src sc cap =
     (if src = ''uram'' then dump_uram tb sc cap
      else if src = ''ddr'' then dump_ddr tb sc cap
      else raise (Exn ValueError ''src must be uram or ddr'' []))"

text \<open>The \<open>n\<close> bytes from \<open>start\<close> on: whole words up to the end of the ring, the remainder from its
  start.\<close>

definition tail_read :: "'b trace_bus \<Rightarrow> int \<Rightarrow> int \<Rightarrow> int \<Rightarrow> ('b, byte list) act" where
  "tail_read tb cap start n =
     (let a0 = start AND NOT 3;
          n0 = min (n + (start - a0)) (cap - a0) in
      bnd (db_read (tb_bus tb) ''trace'' a0 (nat ((n0 + 3) div 4))) (\<lambda>ws.
      let raw = slice (pack_words ws) (start - a0) (start - a0 + n) in
      if int (length raw) < n then
        let rem = n - int (length raw) in
        bnd (db_read (tb_bus tb) ''trace'' 0 (nat ((rem + 3) div 4))) (\<lambda>ws2.
          ret (raw @ take (nat rem) (pack_words ws2)))
      else ret raw))"

definition trace_tail :: "'b trace_bus \<Rightarrow> nat \<Rightarrow> scenario \<Rightarrow> ('b, byte list) act" where
  "trace_tail tb n0 sc =
     (if db_demo (tb_bus tb) then bnd (tb_uram_dump tb) (\<lambda>raw. ret (newest n0 raw))
      else
        bnd (ctrl_reg tb sc ''trace_bytes'') (\<lambda>nbytes.
        bnd (ctrl_reg tb sc ''trace_bufsz'') (\<lambda>bufsz.
        let cap = (if bufsz = 0 then TRACE_BRAM else bufsz);
            held = min nbytes cap; n = min (int n0) held in
        if n = 0 then ret []
        else bnd (ctrl_reg tb sc ''trace_beats'') (\<lambda>beats.
        if cap div 4 = 0 then raise zero_division
        else
          let wr = (beats mod (cap div 4)) * 4;
              start = (if cap < nbytes then (wr - n) mod cap else max 0 (held - n)) in
          tail_read tb cap start n))))"

section \<open>Ring images\<close>

text \<open>The memory of a ring holds, at position \<open>k mod ring\<close>, byte \<open>k\<close> of the stream for every byte
  that is not yet overwritten.\<close>

definition ring_image :: "nat \<Rightarrow> byte list \<Rightarrow> byte list \<Rightarrow> bool" where
  "ring_image ring img S \<longleftrightarrow> 0 < ring \<and> length img = ring \<and>
     (\<forall>k. length S - ring \<le> k \<and> k < length S \<longrightarrow> img ! (k mod ring) = S ! k)"

text \<open>\<open>n\<close> bytes of the memory from \<open>start\<close> on, around the end.\<close>

definition ring_slice :: "byte list \<Rightarrow> nat \<Rightarrow> nat \<Rightarrow> byte list" where
  "ring_slice img start n = map (\<lambda>j. img ! ((start + j) mod length img)) [0..<n]"

lemma length_ring_slice [simp]: "length (ring_slice img start n) = n"
  by (simp add: ring_slice_def)

lemma ring_slice_plain:
  assumes "start + n \<le> length img" "img \<noteq> []"
  shows "ring_slice img start n = take n (drop start img)"
  using assms by (intro nth_equalityI) (auto simp: ring_slice_def)

lemma ring_slice_split:
  assumes "start < length img" "length img < start + n" "n \<le> length img"
  shows "ring_slice img start n = drop start img @ take (n - (length img - start)) img"
proof (rule nth_equalityI)
  fix j assume "j < length (ring_slice img start n)"
  then have j: "j < n" by simp
  show "ring_slice img start n ! j = (drop start img @ take (n - (length img - start)) img) ! j"
  proof (cases "start + j < length img")
    case False
    then have "(start + j) mod length img = start + j - length img"
      using assms j by (simp add: le_mod_geq)
    then show ?thesis using False j assms by (auto simp: ring_slice_def nth_append add.commute)
  qed (use j assms in \<open>auto simp: ring_slice_def nth_append\<close>)
qed (use assms in simp)

text \<open>The newest \<open>n\<close> bytes end at the write position.\<close>

lemma ring_slice_newest:
  assumes "ring_image ring img S" "n \<le> ring" "n \<le> length S"
    "start mod ring = (length S - n) mod ring"
  shows "ring_slice img start n = last_n n S"
proof (rule nth_equalityI)
  fix j assume "j < length (ring_slice img start n)"
  then have j: "j < n" by simp
  have "(start + j) mod ring = (length S - n + j) mod ring"
    using assms(4) by (metis mod_add_left_eq)
  then have "img ! ((start + j) mod ring) = S ! (length S - n + j)"
  proof -
    have "img ! ((length S - n + j) mod ring) = S ! (length S - n + j)"
      using assms(1-3) j unfolding ring_image_def by (metis (no_types, lifting) add_less_cancel_left
          diff_le_mono2 le_add_diff_inverse2 trans_le_add1)
    then show ?thesis using \<open>(start + j) mod ring = _\<close> by simp
  qed
  then show "ring_slice img start n ! j = last_n n S ! j"
    using j assms by (simp add: ring_slice_def last_n_def ring_image_def)
qed (use assms in simp)

text \<open>A read of whole words from the word boundary below \<open>start\<close> stays inside the ring and holds the
  bytes up to the end of the ring.\<close>

lemma aligned_read:
  assumes "r mod 4 = 0" "start < r" "length img = r" and
    "d = start mod 4" "a = start - d" "k = (min (n + d) (r - a) + 3) div 4"
  shows "a + 4 * k \<le> r" "take n (drop d (take (4 * k) (drop a img))) = take n (drop start img)"
proof -
  obtain q where q: "r = 4 * q" using assms(1) by (metis mod_0_imp_dvd dvd_def)
  have a: "a = 4 * (start div 4)" using assms(4,5) by (simp add: minus_mod_eq_mult_div)
  have d: "start = a + d" "d < 4" using assms(4,5) by (simp_all add: minus_mod_eq_mult_div)
  have ra: "r - a = 4 * (q - start div 4)" by (simp add: a q)
  have k: "k \<le> q - start div 4" unfolding assms(6) ra by linarith
  show "a + 4 * k \<le> r" using k a assms(2) q d by linarith
  have "min (n + d) (r - a) \<le> 4 * k" unfolding assms(6) by linarith
  then have "min n (r - start) \<le> 4 * k - d" using d(1) by linarith
  then have m: "min n (r - start) \<le> min (4 * k - d) (r - start)" by simp
  have "take n (drop d (take (4 * k) (drop a img))) = take n (take (4 * k - d) (drop start img))"
    by (simp add: d(1) drop_take add.commute)
  also have "\<dots> = take n (drop start img)"
    using m assms(3) by (intro nth_equalityI) (auto simp: min_def split: if_splits)
  finally show "take n (drop d (take (4 * k) (drop a img))) = take n (drop start img)" .
qed

lemma aligned_rest:
  fixes m r :: nat
  assumes "r mod 4 = 0" "m \<le> r"
  shows "4 * ((m + 3) div 4) \<le> r" "m \<le> 4 * ((m + 3) div 4)"
  using assms by presburger+

lemma al32_mod: "al32 v mod 32 = 0" "v \<le> al32 v" "al32 v < v + 32"
proof -
  have a: "al32 v = (v + 31) - (v + 31) mod 32" unfolding al32_def and_not_31 ..
  show "al32 v mod 32 = 0" unfolding a by (simp add: mod_diff_eq)
  show "v \<le> al32 v" "al32 v < v + 32"
    unfolding a using pos_mod_bound [of 32 "v + 31"] pos_mod_sign [of 32 "v + 31"] by linarith+
qed

text \<open>With at least one burst asked for, the window starts at most 31 bytes late and ends at the
  write position.\<close>

lemma wrapped_window_ok:
  assumes "32 \<le> n" "n < sz" "sz mod 32 = 0" "0 \<le> off" "off < sz"
  shows "\<exists>start m. wrapped_window off n sz = (start, m) \<and> 0 \<le> start \<and> start < sz
    \<and> n - 31 \<le> m \<and> m \<le> n \<and> (start + m) mod sz = off"
proof -
  define d e where "d = (off - n) mod sz" and "e = al32 d - d"
  define start m where "start = al32 d mod sz" and "m = n - e"
  have e: "0 \<le> e" "e < 32" using al32_mod [of d] by (simp_all add: e_def)
  have s: "0 < sz" using assms by simp
  have sm: "start = (d + e) mod sz" by (simp add: start_def e_def)
  have "(off - start) mod sz = (off - (off - n + e)) mod sz"
    unfolding sm d_def by (simp add: mod_simps)
  also have "\<dots> = m" using e assms by (simp add: m_def)
  finally have m: "(off - start) mod sz = m" .
  moreover have "m \<noteq> 0" using e assms(1) by (simp add: m_def)
  ultimately have w: "wrapped_window off n sz = (start, m)"
    by (simp add: wrapped_window_def Let_def start_def d_def)
  have "(start + m) mod sz = (start + (off - start)) mod sz"
    using m by (metis mod_add_right_eq)
  then have "(start + m) mod sz = off" using assms(4,5) by simp
  moreover have "0 \<le> start" "start < sz" using s by (simp_all add: start_def)
  moreover have "n - 31 \<le> m" "m \<le> n" using e by (simp_all add: m_def)
  ultimately show ?thesis using w by blast
qed

section \<open>The ports\<close>

locale uram_port =
  fixes tb :: "'b trace_bus" and sc :: scenario and ring :: nat and inv :: "'b \<Rightarrow> byte list \<Rightarrow> bool"
  assumes live: "inv s S \<Longrightarrow> \<not> db_demo (tb_bus tb)"
    and geometry: "inv s S \<Longrightarrow> 0 < ring \<and> ring mod 4 = 0 \<and> length S mod 4 = 0"
    and bytes_law: "inv s S \<Longrightarrow> ctrl_reg tb sc ''trace_bytes'' s = (Inr (int (length S)), s)"
    and bufsz_law: "inv s S \<Longrightarrow> ctrl_reg tb sc ''trace_bufsz'' s = (Inr (int ring), s)"
    and beats_law: "inv s S \<Longrightarrow> ctrl_reg tb sc ''trace_beats'' s = (Inr (int (length S div 4)), s)"
    and trace_law: "inv s S \<Longrightarrow> \<exists>img. ring_image ring img S \<and>
          (\<forall>p n. p + 4 * n \<le> ring \<longrightarrow>
             db_read (tb_bus tb) ''trace'' (int p) n s = (Inr (unpack_words (take (4 * n) (drop p img))), s))"
begin

lemma quarters:
  assumes "inv s S"
  obtains r l where "ring = 4 * r" "length S = 4 * l" "0 < r"
  using geometry [OF assms] by (metis dvd_def mod_0_imp_dvd mult_0_right neq0_conv)

lemma write_position:
  assumes "inv s S"
  shows "int (length S div 4) mod (int ring div 4) * 4 = int (length S mod ring)"
proof -
  obtain r l where r: "ring = 4 * r" "length S = 4 * l" "0 < r" by (rule quarters [OF assms])
  have "int (length S div 4) mod (int ring div 4) * 4 = int (4 * (l mod r))"
    by (simp add: r zmod_int)
  also have "4 * (l mod r) = length S mod ring" by (simp add: r)
  finally show ?thesis .
qed

lemma words_of_image:
  assumes "ring_image ring img S" "p + 4 * n \<le> ring"
  shows "pack_words (unpack_words (take (4 * n) (drop p img))) = take (4 * n) (drop p img)"
  using assms by (intro pack_unpack_words) (simp add: ring_image_def)

lemma ring_chrono_newest:
  assumes "inv s S"
  shows "ring_chrono tb sc (int (length S)) (int ring) s = (Inr (last_n (min ring (length S)) S), s)"
proof -
  note g = geometry [OF assms] and l = live [OF assms]
  obtain img where img: "ring_image ring img S"
      "\<And>p n. p + 4 * n \<le> ring \<Longrightarrow>
         db_read (tb_bus tb) ''trace'' (int p) n s = (Inr (unpack_words (take (4 * n) (drop p img))), s)"
    using trace_law [OF assms] by blast
  have li: "length img = ring" "img \<noteq> []" using img(1) by (auto simp: ring_image_def)
  define raw where "raw = last_n (min ring (length S)) S"
  have lr: "length raw = min ring (length S)" by (simp add: raw_def)
  show ?thesis
  proof (cases "ring < length S")
    case True
    define wr where "wr = length S mod ring"
    obtain r l where rl: "ring = 4 * r" "length S = 4 * l" "0 < r" by (rule quarters [OF assms])
    define w where "w = l mod r"
    have w: "wr = 4 * w" "w < r" using rl by (simp_all add: wr_def w_def)
    have wr: "wr < ring" using w rl by simp
    have "ring_slice img wr ring = last_n ring S"
      using True le_mod_geq [of ring "length S"] by (intro ring_slice_newest [OF img(1)]) (simp_all add: wr_def)
    moreover have "ring_slice img wr ring = drop wr img @ take wr img"
    proof (cases "wr = 0")
      case True
      then show ?thesis using ring_slice_plain [of 0 ring img] li by simp
    next
      case False
      then show ?thesis using ring_slice_split [of wr img ring] wr(1) li by simp
    qed
    ultimately have raw: "raw = drop wr img @ take wr img"
      using True by (simp add: raw_def min_absorb1 less_imp_le)
    have n1: "nat ((int ring - int wr) div 4) = r - w" "nat (int wr div 4) = w" "int ring div 4 = int r"
      using w by (simp_all add: rl flip: right_diff_distrib of_nat_diff)
    have r1: "db_read (tb_bus tb) ''trace'' (int wr) (r - w) s = (Inr (unpack_words (drop wr img)), s)"
      using img(2) [of wr "r - w"] w rl li by (simp add: right_diff_distrib')
    have r2: "db_read (tb_bus tb) ''trace'' 0 w s = (Inr (unpack_words (take wr img)), s)"
      using img(2) [of 0 w] w rl by simp
    have p: "pack_words (unpack_words (drop wr img)) = drop wr img"
        "pack_words (unpack_words (take wr img)) = take wr img"
      using w rl li by (auto intro!: pack_unpack_words simp flip: right_diff_distrib')
    have wp: "int (length S div 4) mod (int ring div 4) * 4 = int wr"
      unfolding wr_def by (rule write_position [OF assms])
    then have wq: "int (length S div 4) mod (int ring div 4) = int w" by (simp add: w(1))
    have d: "int ring div 4 \<noteq> 0" using n1(3) rl(3) by simp
    show ?thesis
      unfolding ring_chrono_def raw_def [symmetric]
      using n1(1) r1 p by (simp add: True d wq w(1) mult.commute [of _ 4] Let_def r2 p bnd_def beats_law [OF assms] raw)
  next
    case False
    then have "ring_slice img 0 (length S) = last_n (length S) S"
      using g by (intro ring_slice_newest [OF img(1)]) auto
    then have raw: "raw = take (length S) img"
      using ring_slice_plain [of 0 "length S" img] False li by (simp add: raw_def)
    obtain r l where rl: "ring = 4 * r" "length S = 4 * l" "0 < r" by (rule quarters [OF assms])
    have n: "nat ((int (length S) + 3) div 4) = l" unfolding rl by simp
    have "db_read (tb_bus tb) ''trace'' 0 (nat ((int (length S) + 3) div 4)) s
        = (Inr (unpack_words (take (length S) img)), s)"
      using img(2) [of 0 l] n rl False by simp
    moreover have "pack_words (unpack_words (take (length S) img)) = take (length S) img"
      using rl False li by (intro pack_unpack_words) simp
    ultimately show ?thesis
      unfolding ring_chrono_def raw_def [symmetric]
      using False by (cases "S = []") (simp_all add: bnd_def raw)
  qed
qed

lemma tail_read_ok:
  assumes "inv s S" "0 < n" "n \<le> ring" "n \<le> length S" "start = (length S - n) mod ring"
  shows "tail_read tb (int ring) (int start) (int n) s = (Inr (last_n n S), s)"
proof -
  note g = geometry [OF assms(1)] and n = assms(2-4)
  obtain img where img: "ring_image ring img S"
      "\<And>p n. p + 4 * n \<le> ring \<Longrightarrow>
         db_read (tb_bus tb) ''trace'' (int p) n s = (Inr (unpack_words (take (4 * n) (drop p img))), s)"
    using trace_law [OF assms(1)] by blast
  have li: "length img = ring" "img \<noteq> []" using img(1) by (auto simp: ring_image_def)
  define d a k where "d = start mod 4" and "a = start - d" and "k = (min (n + d) (ring - a) + 3) div 4"
  have st: "start < ring" using g assms(5) by simp
  have r4: "ring mod 4 = 0" using g by simp
  note ar = aligned_read [OF r4 st li(1) d_def a_def k_def]
  have e: "int start = int a + int d" by (simp add: a_def d_def)
  have "int start mod 4 = int d" unfolding d_def by (simp only: zmod_int of_nat_numeral)
  then have "int start AND NOT 3 = int start - int d" unfolding and_not_3 by (simp only:)
  then have da: "int start AND NOT 3 = int a" by (simp only: e add_diff_cancel_right')
  have db: "int start - int a = int d" by (simp only: e add_diff_cancel_left')
  have "a \<le> ring" unfolding a_def by (rule order_trans [OF diff_le_self less_imp_le [OF st]])
  then have "int ring - int a = int (ring - a)" by (rule of_nat_diff [symmetric])
  then have "min (int n + int d) (int ring - int a) + 3 = int (min (n + d) (ring - a) + 3)"
    by (simp only: of_nat_add of_nat_min of_nat_numeral)
  then have "(min (int n + int d) (int ring - int a) + 3) div 4 = int k"
    unfolding k_def by (simp only: zdiv_int of_nat_numeral)
  then have kk: "nat ((min (int n + int d) (int ring - int a) + 3) div 4) = k" by simp
  have sl: "ring_slice img start n = last_n n S"
    using n assms(5) by (intro ring_slice_newest [OF img(1)]) simp_all
  define raw where "raw = take n (drop start img)"
  have raw: "slice (pack_words (unpack_words (take (4 * k) (drop a img)))) (int d) (int d + int n) = raw"
    using ar words_of_image [OF img(1), of a k] by (simp add: slice_def raw_def nat_add_distrib)
  have lr: "length raw = min n (ring - start)" by (simp add: raw_def li)
  show ?thesis
  proof (cases "start + n \<le> ring")
    case True
    then have "raw = last_n n S" "length raw = n"
      using sl ring_slice_plain [of start n img] li lr by (simp_all add: raw_def)
    then show ?thesis
      unfolding tail_read_def Let_def da db kk by (simp add: bnd_def img(2) [OF ar(1)] raw)
  next
    case False
    define m where "m = n - length raw"
    have m: "int n - int (length raw) = int m" "length raw < n" "m \<le> ring"
      using False lr st n by (simp_all add: m_def)
    have q: "nat ((int m + 3) div 4) = (m + 3) div 4" by (simp add: nat_div_distrib nat_add_distrib)
    note al = aligned_rest [OF r4 m(3)]
    have r2: "db_read (tb_bus tb) ''trace'' 0 ((m + 3) div 4) s
        = (Inr (unpack_words (take (4 * ((m + 3) div 4)) img)), s)"
      using img(2) [of 0] al(1) by simp
    have p2: "pack_words (unpack_words (take (4 * ((m + 3) div 4)) img)) = take (4 * ((m + 3) div 4)) img"
      using words_of_image [OF img(1), of 0] al(1) by simp
    have "raw @ take m img = last_n n S"
      using sl ring_slice_split [of start img n] False n li lr st by (simp add: m_def raw_def)
    then show ?thesis
      unfolding tail_read_def Let_def da db kk bnd_def img(2) [OF ar(1)] prod.case sum.case raw m(1) q r2 p2
      using m(2) al(2) by (simp add: r2 p2 min_absorb1)
  qed
qed

lemma trace_tail_newest:
  assumes "inv s S"
  shows "trace_tail tb n0 sc s = (Inr (last_n (min n0 (min ring (length S))) S), s)"
proof -
  define n where "n = min n0 (min ring (length S))"
  have ni: "min (int n0) (min (int (length S)) (int ring)) = int n" by (simp add: n_def min.commute)
  have r0: "int ring \<noteq> 0" using geometry [OF assms] by simp
  show ?thesis
  proof (cases "n = 0")
    case True
    then have "last_n n S = []" by (simp add: last_n_def)
    then show ?thesis
      unfolding trace_tail_def bnd_def Let_def
      using True live [OF assms] r0 ni by (simp add: bytes_law [OF assms] bufsz_law [OF assms] flip: n_def)
  next
    case False
    have n: "0 < n" "n \<le> ring" "n \<le> length S" using False by (simp_all add: n_def)
    define start where "start = (length S - n) mod ring"
    have "(int (length S mod ring) - int n) mod int ring = int start"
      using n by (simp add: start_def zmod_int of_nat_diff mod_diff_left_eq)
    moreover have "max 0 (int (length S) - int n) = int start" if "\<not> ring < length S"
      using that n by (simp add: start_def)
    ultimately have st: "(if int ring < int (length S) then (int (length S mod ring) - int n) mod int ring
        else max 0 (min (int (length S)) (int ring) - int n)) = int start"
      by (simp add: min_def)
    have d4: "int ring div 4 \<noteq> 0" by (rule quarters [OF assms]) simp
    note w = write_position [OF assms]
    show ?thesis
      unfolding trace_tail_def bnd_def Let_def bytes_law [OF assms] bufsz_law [OF assms]
        prod.case sum.case if_not_P [OF r0] ni if_not_P [OF live [OF assms]] if_not_P [OF d4]
        if_not_P [OF False] if_not_P [OF False [folded of_nat_eq_0_iff [where ?'a = int]]]
        beats_law [OF assms] w st tail_read_ok [OF assms n start_def] n_def [symmetric] ..
  qed
qed

lemma dump_uram_newest:
  assumes "inv s S"
  shows "dump_uram tb sc cap s =
     (Inr (dump_done (newest cap (last_n (min ring (length S)) S)) (int (min ring (length S)))), s)"
  using geometry [OF assms] live [OF assms]
  by (simp add: dump_uram_def bnd_def bytes_law [OF assms] bufsz_law [OF assms] ring_chrono_newest [OF assms])

end

text \<open>The DDR window: \<open>circular\<close> and \<open>wrapped\<close> are set together once the stream is longer than the
  window, whose size is a multiple of the burst.\<close>

locale ddr_port =
  fixes tb :: "'b trace_bus" and sc :: scenario and base :: int and size :: nat
    and circ wrapped :: "'b \<Rightarrow> int" and inv :: "'b \<Rightarrow> byte list \<Rightarrow> bool"
  assumes live: "inv s S \<Longrightarrow> \<not> db_demo (tb_bus tb) \<and> sd_ddr_sink (sc_raw sc)"
    and base_law: "inv s S \<Longrightarrow> ctrl_reg tb sc ''ddr_base'' s = (Inr base, s)"
    and size_law: "inv s S \<Longrightarrow> ctrl_reg tb sc ''ddr_size'' s = (Inr (int size), s)"
    and wptr_law: "inv s S \<Longrightarrow> ctrl_reg tb sc ''ddr_wptr'' s = (Inr (int (length S)), s)"
    and sink_law: "inv s S \<Longrightarrow> ctrl_reg tb sc ''sink_ctrl'' s = (Inr (circ s), s)"
    and stat_law: "inv s S \<Longrightarrow> ctrl_reg tb sc ''sink_stat'' s = (Inr (wrapped s), s)"
    and wrap_law: "inv s S \<Longrightarrow> if circ s AND 4 \<noteq> 0 \<and> wrapped s AND 4 \<noteq> 0
        then size \<le> length S \<and> size mod 32 = 0 else length S \<le> size"
    and memory_law: "inv s S \<Longrightarrow> \<exists>img. ring_image size img S \<and>
        (\<forall>p n. p + n \<le> size \<longrightarrow> tb_phys_read tb (base + int p) (int n) s = (Inr (take n (drop p img)), s))"
begin

lemma ddr_newest_wrapped:
  assumes "inv s S" "size \<le> length S" "size mod 32 = 0" "n \<le> size" "32 \<le> n"
  shows "\<exists>k \<le> n. n - 31 \<le> k \<and> (n = size \<longrightarrow> k = size) \<and>
    ddr_newest tb base (int size) (int (length S)) True (int size) (int n) s = (Inr (last_n k S), s)"
proof -
  obtain img where img: "ring_image size img S"
      "\<And>p n. p + n \<le> size \<Longrightarrow> tb_phys_read tb (base + int p) (int n) s = (Inr (take n (drop p img)), s)"
    using memory_law [OF assms(1)] by blast
  have li: "length img = size" "img \<noteq> []" and z: "0 < size" using img(1) by (auto simp: ring_image_def)
  define off where "off = length S mod size"
  have off: "off < size" "int (length S) mod int size = int off" using z by (simp_all add: off_def zmod_int)
  have rd: "(if int st + int m \<le> int size then tb_phys_read tb (base + int st) (int m)
        else bnd (tb_phys_read tb (base + int st) (int size - int st)) (\<lambda>a.
             bnd (tb_phys_read tb base (int m - (int size - int st))) (\<lambda>b. ret (a @ b)))) s
      = (Inr (ring_slice img st m), s)" if "st < size" "m \<le> size" for st m
  proof (cases "int st + int m \<le> int size")
    case True
    then have "st + m \<le> size" by simp
    with True show ?thesis using ring_slice_plain [of st m img] li by (simp add: img(2))
  next
    case False
    have i: "int size - int st = int (size - st)" "int m - int (size - st) = int (m - (size - st))"
      using False that by simp_all
    have "tb_phys_read tb (base + int st) (int (size - st)) s = (Inr (drop st img), s)"
      "tb_phys_read tb base (int (m - (size - st))) s = (Inr (take (m - (size - st)) img), s)"
      using img(2) [of st "size - st"] img(2) [of 0 "m - (size - st)"] that li by simp_all
    then show ?thesis
      unfolding i if_not_P [OF False] bnd_def using ring_slice_split [of st img m] False that li by simp
  qed
  have z32: "int size mod 32 = 0" using assms(3) by presburger
  show ?thesis
  proof (cases "n = size")
    case True
    have "ring_slice img off size = last_n size S"
      using assms(2) le_mod_geq [of size "length S"] by (intro ring_slice_newest [OF img(1)]) (simp_all add: off_def)
    moreover have "ring_slice img off size = drop off img @ take off img"
    proof (cases "off = 0")
      case True
      then show ?thesis using ring_slice_plain [of 0 size img] li by simp
    next
      case False
      then show ?thesis using ring_slice_split [of off img size] off(1) li by simp
    qed
    moreover have "int size - int off = int (size - off)" using off(1) by simp
    ultimately have "ddr_newest tb base (int size) (int (length S)) True (int size) (int n) s = (Inr (last_n size S), s)"
      using img(2) [of off "size - off"] img(2) [of 0 off] off li True
      by (simp add: ddr_newest_def Let_def bnd_def)
    with True show ?thesis by auto
  next
    case False
    obtain start m where w: "wrapped_window (int off) (int n) (int size) = (start, m)" "0 \<le> start"
        "start < int size" "int n - 31 \<le> m" "m \<le> int n" "(start + m) mod int size = int off"
      using wrapped_window_ok [of "int n" "int size" "int off"] z32 assms(4,5) False off by auto
    define st k where "st = nat start" and "k = nat m"
    have sk: "start = int st" "m = int k" "st < size" "k \<le> n" "n - 31 \<le> k"
      using w assms(5) by (simp_all add: st_def k_def)
    have "(int (length S) - int k) mod int size = (int st + int k - int k) mod int size"
      using w(6) unfolding sk(1,2) off(2) [symmetric] by (metis mod_diff_left_eq)
    moreover have "k \<le> length S" using sk(4) assms(2,4) by linarith
    ultimately have "int (st mod size) = int ((length S - k) mod size)"
      by (simp only: zmod_int of_nat_diff add_diff_cancel_right')
    then have "st mod size = (length S - k) mod size" by (simp only: of_nat_eq_iff)
    then have "ring_slice img st k = last_n k S"
      using sk assms by (intro ring_slice_newest [OF img(1)]) simp_all
    moreover have "ddr_newest tb base (int size) (int (length S)) True (int size) (int n) s
        = (Inr (ring_slice img st k), s)"
      using rd [of st k] sk False assms(4) unfolding ddr_newest_def Let_def off(2) w(1) sk(1,2) prod.case by simp
    ultimately show ?thesis using sk False by auto
  qed
qed

lemma ddr_newest_plain:
  assumes "inv s S" "length S \<le> size" "n \<le> length S" "n = length S \<or> 32 \<le> n"
  shows "\<exists>k \<le> n. n - 31 \<le> k \<and> (n = length S \<longrightarrow> k = length S) \<and>
    ddr_newest tb base sz (int (length S)) False (int (length S)) (int n) s = (Inr (last_n k S), s)"
proof -
  obtain img where img: "ring_image size img S"
      "\<And>p n. p + n \<le> size \<Longrightarrow> tb_phys_read tb (base + int p) (int n) s = (Inr (take n (drop p img)), s)"
    using memory_law [OF assms(1)] by blast
  have li: "length img = size" using img(1) by (auto simp: ring_image_def)
  have pre: "take (length S) img = S"
    using img(1) assms(2) by (intro nth_equalityI) (auto simp: ring_image_def)
  show ?thesis
  proof (cases "n = length S")
    case True
    then show ?thesis using img(2) [of 0 "length S"] assms(2) pre by (auto simp: ddr_newest_def)
  next
    case False
    define st where "st = nat (al32 (int (length S) - int n))"
    have st: "al32 (int (length S) - int n) = int st" "length S - n \<le> st" "st < length S - n + 32"
      using al32_mod(2,3) [of "int (length S) - int n"] assms(3) by (simp_all add: st_def)
    define k where "k = length S - st"
    have k: "k \<le> n" "n - 31 \<le> k" "int (length S) - int st = int k" "st + k = length S"
      using st(2,3) assms(3,4) False by (simp_all add: k_def)
    have "take k (drop st img) = drop st (take (length S) img)" by (simp add: drop_take flip: k(4))
    also have "\<dots> = last_n k S" unfolding pre by (simp add: last_n_def flip: k(4))
    finally have "take k (drop st img) = last_n k S" .
    moreover have "tb_phys_read tb (base + int st) (int k) s = (Inr (take k (drop st img)), s)"
      using img(2) [of st k] k(4) assms(2) by simp
    moreover have "ddr_newest tb base sz (int (length S)) False (int (length S)) (int n)
        = tb_phys_read tb (base + int st) (int k)"
      using False assms(3) by (simp add: ddr_newest_def Let_def st(1) k(3))
    ultimately show ?thesis using k False by auto
  qed
qed

lemma dump_ddr_newest:
  assumes "inv s S" "cap = 0 \<or> 32 \<le> cap"
  shows "\<exists>k \<le> min (length S) size. (cap = 0 \<or> min (length S) size \<le> cap \<longrightarrow> k = min (length S) size) \<and>
    (cap \<noteq> 0 \<longrightarrow> k \<le> cap) \<and> min cap (min (length S) size) \<le> k + 31 \<and>
    dump_ddr tb sc cap s = (Inr (dump_done (last_n k S) (int (min (length S) size))), s)"
proof -
  define held n where "held = min (length S) size" and "n = (if cap = 0 then held else min held cap)"
  have z: "0 < size" using memory_law [OF assms(1)] by (auto simp: ring_image_def)
  define wr where "wr \<longleftrightarrow> circ s AND 4 \<noteq> 0 \<and> wrapped s AND 4 \<noteq> 0"
  have wl: "if wr then size \<le> length S \<and> size mod 32 = 0 else length S \<le> size"
    unfolding wr_def by (rule wrap_law [OF assms(1)])
  have mh: "min (int (length S)) (int size) = int held" by (simp add: held_def)
  have mn: "(if cap \<noteq> 0 then min (int held) (int cap) else int held) = int n" by (simp add: n_def of_nat_min)
  have n: "n \<le> held" "n = held \<or> 32 \<le> n" using assms(2) by (auto simp: n_def)
  show ?thesis
  proof (cases "held = 0")
    case True
    then have "length S = 0" using z by (simp add: held_def min_def split: if_splits)
    moreover from this have "dump_ddr tb sc cap s = (Inr (dump_done [] 0), s)"
      using live [OF assms(1)]
      by (simp add: dump_ddr_def bnd_def base_law [OF assms(1)] size_law [OF assms(1)]
        wptr_law [OF assms(1)] sink_law [OF assms(1)] stat_law [OF assms(1)] min_absorb1)
    ultimately show ?thesis by (auto simp: last_n_def)
  next
    case False
    obtain k where k: "k \<le> n" "n - 31 \<le> k" "n = held \<longrightarrow> k = held"
      and r: "ddr_newest tb base (int size) (int (length S)) wr (int held) (int n) s = (Inr (last_n k S), s)"
    proof (cases wr)
      case True
      with wl have h: "size \<le> length S" "size mod 32 = 0" "held = size" by (simp_all add: held_def)
      have "32 \<le> n" using n(2) h z by (auto intro: dvd_imp_le)
      then show ?thesis using that ddr_newest_wrapped [OF assms(1) h(1,2), of n] n(1) True h(3) by auto
    next
      case False
      with wl have h: "length S \<le> size" "held = length S" by (simp_all add: held_def)
      show ?thesis using that ddr_newest_plain [OF assms(1) h(1), of n "int size"] n False h(2) by auto
    qed
    have r': "ddr_newest tb base (int size) (int (length S)) (circ s AND 4 \<noteq> 0 \<and> wrapped s AND 4 \<noteq> 0)
        (int held) (if cap = 0 then int held else min (int held) (int cap)) s = (Inr (last_n k S), s)"
      using r mn unfolding wr_def by (cases "cap = 0") simp_all
    have "int held \<noteq> 0" using False by simp
    then have "dump_ddr tb sc cap s = (Inr (dump_done (last_n k S) (int held)), s)"
      using live [OF assms(1)] r'
      by (cases "cap = 0")
         (simp_all add: dump_ddr_def bnd_def base_law [OF assms(1)] size_law [OF assms(1)]
          wptr_law [OF assms(1)] sink_law [OF assms(1)] stat_law [OF assms(1)] mh Let_def del: of_nat_eq_0_iff)
    moreover have "cap = 0 \<or> held \<le> cap \<Longrightarrow> n = held" by (auto simp: n_def)
    moreover have "min cap held \<le> n" "cap \<noteq> 0 \<Longrightarrow> n \<le> cap" by (auto simp: n_def)
    ultimately show ?thesis unfolding held_def [symmetric] using k n(1) by (intro exI [of _ k]) auto
  qed
qed

end

section \<open>The live bus provides the ports\<close>

text \<open>The control register \<open>name\<close> of the scenario holds \<open>v\<close>.\<close>

definition ctrl_holds :: "scenario \<Rightarrow> hw \<Rightarrow> string \<Rightarrow> int \<Rightarrow> bool" where
  "ctrl_holds sc s name v \<longleftrightarrow> (case (co sc name, dict_get (hw_maps s) ''ctrl'') of
     (Some off, Some bs) \<Rightarrow> cell_get bs off = Inr v | _ \<Rightarrow> False)"

lemma ctrl_holds_read: "ctrl_holds sc s name v \<Longrightarrow> ctrl_reg hw_trace_bus sc name s = (Inr v, s)"
  by (auto simp: ctrl_holds_def ctrl_reg_def read1_def hw_trace_bus_def hw_bus_def hw_read_def hw_map_def
      bnd_def lift_exn_def split: option.splits)

definition uram_inv :: "scenario \<Rightarrow> nat \<Rightarrow> hw \<Rightarrow> byte list \<Rightarrow> bool" where
  "uram_inv sc ring s S \<longleftrightarrow> ring mod 4 = 0 \<and> length S mod 4 = 0 \<and>
     ctrl_holds sc s ''trace_bytes'' (int (length S)) \<and> ctrl_holds sc s ''trace_bufsz'' (int ring) \<and>
     ctrl_holds sc s ''trace_beats'' (int (length S div 4)) \<and>
     (case dict_get (hw_maps s) ''trace'' of None \<Rightarrow> False | Some img \<Rightarrow> ring_image ring img S)"

interpretation live_uram: uram_port hw_trace_bus sc ring "uram_inv sc ring" for sc ring
proof unfold_locales
  fix s S assume "uram_inv sc ring s S"
  then obtain img where img: "dict_get (hw_maps s) ''trace'' = Some img" "ring_image ring img S"
    by (auto simp: uram_inv_def split: option.splits)
  then have "length img = ring" by (simp add: ring_image_def)
  then show "\<exists>img. ring_image ring img S \<and> (\<forall>p n. p + 4 * n \<le> ring \<longrightarrow>
      db_read (tb_bus hw_trace_bus) ''trace'' (int p) n s = (Inr (unpack_words (take (4 * n) (drop p img))), s))"
    using img by (intro exI [of _ img]) (simp add: hw_trace_bus_def hw_bus_def hw_read_words)
qed (auto simp: uram_inv_def ring_image_def hw_trace_bus_def hw_bus_def intro: ctrl_holds_read [unfolded hw_trace_bus_def hw_bus_def]
      split: option.splits)

definition ddr_inv :: "scenario \<Rightarrow> int \<Rightarrow> nat \<Rightarrow> int \<Rightarrow> int \<Rightarrow> hw \<Rightarrow> byte list \<Rightarrow> bool" where
  "ddr_inv sc base sz circ wrapped s S \<longleftrightarrow> sd_ddr_sink (sc_raw sc) \<and>
     ctrl_holds sc s ''ddr_base'' base \<and> ctrl_holds sc s ''ddr_size'' (int sz) \<and>
     ctrl_holds sc s ''ddr_wptr'' (int (length S)) \<and>
     ctrl_holds sc s ''sink_ctrl'' circ \<and> ctrl_holds sc s ''sink_stat'' wrapped \<and>
     (if circ AND 4 \<noteq> 0 \<and> wrapped AND 4 \<noteq> 0 then sz \<le> length S \<and> sz mod 32 = 0 else length S \<le> sz) \<and>
     ring_image sz (phys_bytes (hw_phys s) base (int sz)) S"

lemma take_drop_phys_bytes:
  "p + n \<le> k \<Longrightarrow> take n (drop p (phys_bytes m a (int k))) = phys_bytes m (a + int p) (int n)"
  by (rule nth_equalityI) (auto simp: nth_phys_bytes add.assoc)

interpretation live_ddr: ddr_port hw_trace_bus sc base sz "\<lambda>_. circ" "\<lambda>_. wrapped" "ddr_inv sc base sz circ wrapped"
  for sc base sz circ wrapped
proof unfold_locales
  fix s S assume "ddr_inv sc base sz circ wrapped s S"
  then show "\<exists>img. ring_image sz img S \<and> (\<forall>p n. p + n \<le> sz \<longrightarrow>
      tb_phys_read hw_trace_bus (base + int p) (int n) s = (Inr (take n (drop p img)), s))"
    by (intro exI [of _ "phys_bytes (hw_phys s) base (int sz)"])
       (simp add: ddr_inv_def hw_trace_bus_def hw_phys_read_ok take_drop_phys_bytes)
qed (auto simp: ddr_inv_def hw_trace_bus_def hw_bus_def intro: ctrl_holds_read [unfolded hw_trace_bus_def hw_bus_def]
      split: if_splits)

section \<open>Properties\<close>

lemma ring_image_check:
  "ring_image r img S \<longleftrightarrow> 0 < r \<and> length img = r \<and>
     list_all (\<lambda>k. img ! (k mod r) = S ! k) [length S - r..<length S]"
  by (auto simp: ring_image_def list_all_iff)

text \<open>A small machine: a wrapped ring of 8 bytes after 12, a wrapped window of 64 bytes after 70.\<close>

definition ring_sc :: scenario where
  "ring_sc = mini_sc\<lparr> sc_raw := (sc_raw mini_sc)\<lparr>sd_ddr_sink := True\<rparr>,
     sc_ctrl := [(''trace_bytes'', 0), (''trace_bufsz'', 4), (''trace_beats'', 8), (''ddr_base'', 12),
       (''ddr_size'', 16), (''ddr_wptr'', 20), (''sink_ctrl'', 24), (''sink_stat'', 28)] \<rparr>"

definition ring_hw :: hw where
  "ring_hw = \<lparr> hw_maps = [(''ctrl'', pack_words [12, 8, 3, 0x60000000, 64, 70, 4, 4]),
       (''trace'', [8, 9, 10, 11, 4, 5, 6, 7])],
     hw_phys = (\<lambda>a. word_of_int (if a - 0x60000000 < 6 then a - 0x60000000 + 64 else a - 0x60000000)) \<rparr>"

lemma ring_hw_uram: "uram_inv ring_sc 8 ring_hw (map word_of_nat [0..<12])"
  unfolding uram_inv_def ctrl_holds_def ring_image_check by code_simp

lemma ring_hw_ddr: "ddr_inv ring_sc 0x60000000 64 4 4 ring_hw (map word_of_nat [0..<70])"
  unfolding ddr_inv_def ctrl_holds_def ring_image_check phys_bytes_def by code_simp

text \<open>C3: 
  The URAM dump and the tail of the live bus are the newest bytes of the captured stream, in the
  order they were captured: all that the ring holds, at most the cap, wrapped or not.
\<close>

theorem uram_dump_newest:
  assumes "uram_inv sc ring s S"
  shows "dump_bytes hw_trace_bus ''uram'' sc cap s =
       (Inr (dump_done (newest cap (last_n (min ring (length S)) S)) (int (min ring (length S)))), s) \<and>
     trace_tail hw_trace_bus n sc s = (Inr (last_n (min n (min ring (length S))) S), s)"
  using live_uram.dump_uram_newest [OF assms] live_uram.trace_tail_newest [OF assms]
  by (simp add: dump_bytes_def)

lemma uram_dump_newest_witness:
  "dump_bytes hw_trace_bus ''uram'' ring_sc 6 ring_hw = (Inr (dump_done [6, 7, 8, 9, 10, 11] 8), ring_hw) \<and>
   trace_tail hw_trace_bus 3 ring_sc ring_hw = (Inr [9, 10, 11], ring_hw)"
  using uram_dump_newest [OF ring_hw_uram, of 6 3] by (simp add: newest_def last_n_def upt_rec)

text \<open>
  The DDR dump of the live bus, with no cap or a cap of at least one burst, is a suffix of the
  captured stream: everything the window holds when the cap allows it, otherwise at most the cap
  and at most 31 bytes short of it, in the order captured, wrapped or not.
\<close>

lemma ddr_dump_newest:
  assumes "ddr_inv sc base sz circ wrapped s S" "cap = 0 \<or> 32 \<le> cap"
  shows "\<exists>k. k \<le> min (length S) sz \<and>
    (cap = 0 \<or> min (length S) sz \<le> cap \<longrightarrow> k = min (length S) sz) \<and> (cap \<noteq> 0 \<longrightarrow> k \<le> cap) \<and>
    min cap (min (length S) sz) \<le> k + 31 \<and>
    dump_bytes hw_trace_bus ''ddr'' sc cap s = (Inr (dump_done (last_n k S) (int (min (length S) sz))), s)"
  using live_ddr.dump_ddr_newest [OF assms] by (simp add: dump_bytes_def)

lemma ddr_dump_newest_witness:
  "\<exists>k. k \<le> 33 \<and> 2 \<le> k \<and> dump_bytes hw_trace_bus ''ddr'' ring_sc 33 ring_hw
     = (Inr (dump_done (last_n k (map word_of_nat [0..<70])) 64), ring_hw)"
  using ddr_dump_newest [OF ring_hw_ddr, of 33] by auto

text \<open>
  Below one burst the rounding passes the write position: a cap of one byte yields 38 bytes here,
  and not the newest ones first.
\<close>

lemma ddr_dump_below_burst:
  "fst (dump_bytes hw_trace_bus ''ddr'' ring_sc 1 ring_hw)
     = Inr (dump_done (map word_of_nat [32..<70]) 64)"
proof -
  have "ddr_newest hw_trace_bus 0x60000000 64 70 True 64 1 ring_hw
      = (Inr (phys_bytes (hw_phys ring_hw) (0x60000000 + 32) 32 @ phys_bytes (hw_phys ring_hw) 0x60000000 6), ring_hw)"
    by (simp add: ddr_newest_def wrapped_window_def al32_def bnd_def hw_trace_bus_def hw_phys_read_ok)
  moreover have "phys_bytes (hw_phys ring_hw) (0x60000000 + 32) 32 @ phys_bytes (hw_phys ring_hw) 0x60000000 6
      = map word_of_nat [32..<70]"
    unfolding phys_bytes_def by code_simp
  ultimately have n: "ddr_newest hw_trace_bus 0x60000000 64 70 True 64 1 ring_hw
      = (Inr (map word_of_nat [32..<70]), ring_hw)" by (simp only:)
  have r: "ctrl_reg hw_trace_bus ring_sc ''ddr_base'' ring_hw = (Inr 0x60000000, ring_hw)"
    "ctrl_reg hw_trace_bus ring_sc ''ddr_size'' ring_hw = (Inr 64, ring_hw)"
    "ctrl_reg hw_trace_bus ring_sc ''ddr_wptr'' ring_hw = (Inr 70, ring_hw)"
    "ctrl_reg hw_trace_bus ring_sc ''sink_ctrl'' ring_hw = (Inr 4, ring_hw)"
    "ctrl_reg hw_trace_bus ring_sc ''sink_stat'' ring_hw = (Inr 4, ring_hw)"
    using ring_hw_ddr by (auto simp: ddr_inv_def intro!: ctrl_holds_read)
  have "sd_ddr_sink (sc_raw ring_sc)" "\<not> db_demo (tb_bus hw_trace_bus)"
    by (simp_all add: ring_sc_def hw_trace_bus_def hw_bus_def)
  then show ?thesis
    by (simp add: dump_bytes_def dump_ddr_def bnd_def r n Let_def del: upt.simps upt_Suc map_append list.map)
qed

end
