(* ===== verification/Console_Reader.thy ===== *)
theory Console_Reader
  imports Complex_Main Ring_Dump
begin

unbundle bit_operations_syntax

text \<open>
  The recording of the guest console (\<open>ConsoleReader\<close>, \<open>interactive_now\<close>) and the packet rate
  (\<open>PacketRate\<close>) of the dashboard server. The locale \<open>con_port\<close> says how the console ring holds the
  stream of characters; it is interpreted on the mapped memory of the live bus.
\<close>

record con_reader =
  cr_buf :: "byte list"
  cr_total :: nat
  cr_drops :: int
  cr_dropped_head :: nat
  cr_rptr_ok :: "bool option"
  cr_lost :: nat

definition MAX_BUF :: nat where "MAX_BUF = 4194304"

definition con_reader0 :: con_reader where
  "con_reader0 = \<lparr> cr_buf = [], cr_total = 0, cr_drops = 0, cr_dropped_head = 0, cr_rptr_ok = None, cr_lost = 0 \<rparr>"

type_synonym 'b con_state = "con_reader \<times> 'b"

definition upd_reader :: "(con_reader \<Rightarrow> con_reader) \<Rightarrow> ('b con_state, unit) act" where
  "upd_reader g = modify (\<lambda>(r, b). (g r, b))"

text \<open>\<open>int(c.get("size") or sc.regions[c["region"]][1])\<close>.\<close>

definition con_cap :: "scenario \<Rightarrow> console_doc \<Rightarrow> exn + nat" where
  "con_cap sc c = (case cd_size c of
       Some n \<Rightarrow> if n \<noteq> 0 then Inr (nat n) else (case dict_get (sc_regions sc) (cd_region c) of
           None \<Rightarrow> Inl (key_error (cd_region c)) | Some (_, sz) \<Rightarrow> Inr (nat sz))
     | None \<Rightarrow> (case dict_get (sc_regions sc) (cd_region c) of
           None \<Rightarrow> Inl (key_error (cd_region c)) | Some (_, sz) \<Rightarrow> Inr (nat sz)))"

text \<open>The \<open>new\<close> newest characters of the ring, one read from its start.\<close>

definition con_fetch :: "'b trace_bus \<Rightarrow> string \<Rightarrow> nat \<Rightarrow> nat \<Rightarrow> nat \<Rightarrow> ('b, byte list) act" where
  "con_fetch tb region cap tot new =
     (if cap = 0 then raise zero_division
      else
        let start = (tot - new) mod cap; need = start + new in
        bnd (db_read (tb_bus tb) region 0 (min cap (((if need \<le> cap then need else cap) + 3) div 4))) (\<lambda>ws.
        let blob = pack_words ws in
        ret (if need \<le> cap then take new (drop start blob)
             else drop start (take cap blob) @ take (need - cap) blob)))"

text \<open>\<open>len(buf) > MAX_BUF\<close>: trim at the front.\<close>

definition trim_front :: "con_reader \<Rightarrow> con_reader" where
  "trim_front r = (if MAX_BUF < length (cr_buf r)
     then (let cut = length (cr_buf r) - MAX_BUF in
       r\<lparr> cr_buf := drop cut (cr_buf r), cr_dropped_head := cr_dropped_head r + cut \<rparr>) else r)"

definition con_record :: "'b trace_bus \<Rightarrow> string \<Rightarrow> nat \<Rightarrow> nat \<Rightarrow> ('b con_state, unit) act" where
  "con_record tb region cap tot =
     andthen (upd_reader (\<lambda>r. if tot < cr_total r then r\<lparr> cr_buf := [], cr_total := 0 \<rparr> else r))
     (bnd get_state (\<lambda>(r, b).
      let new0 = tot - cr_total r in
      if new0 = 0 then ret ()
      else
        let new = min new0 cap in
        andthen (upd_reader (\<lambda>r. r\<lparr> cr_lost := cr_lost r + (new0 - new) \<rparr>))
        (bnd (on_snd (con_fetch tb region cap tot new)) (\<lambda>bs.
          upd_reader (\<lambda>r. trim_front (r\<lparr> cr_buf := cr_buf r @ bs, cr_total := tot \<rparr>))))))"

definition caught_kinds :: "exn_kind list" where
  "caught_kinds = [OSError, ValueError, KeyError]"

text \<open>Advancing the read pointer, which also proves the receive path.\<close>

definition con_rptr :: "'b trace_bus \<Rightarrow> scenario \<Rightarrow> console_doc \<Rightarrow> nat \<Rightarrow> ('b con_state, unit) act" where
  "con_rptr tb sc c tot =
     (case co sc (opt_or (cd_rptr_reg c) []) of
        None \<Rightarrow> ret ()
      | Some ro \<Rightarrow>
          handle
            (andthen (on_snd (db_write (tb_bus tb) ''ctrl'' ro (int tot)))
              (if tot = 0 then ret ()
               else bnd (on_snd (read1 (tb_bus tb) ''ctrl'' ro)) (\<lambda>v.
                 upd_reader (\<lambda>r. r\<lparr> cr_rptr_ok := Some (v = int tot) \<rparr>))))
            (\<lambda>e. case e of Exn k _ _ \<Rightarrow> if k \<in> set caught_kinds
               then upd_reader (\<lambda>r. r\<lparr> cr_rptr_ok := Some False \<rparr>) else raise e))"

definition con_poll :: "'b trace_bus \<Rightarrow> scenario \<Rightarrow> ('b con_state, unit) act" where
  "con_poll tb sc =
     (case sd_console (sc_raw sc) of
        None \<Rightarrow> raise (Exn ValueError ''scenario has no console'' [AS (sc_id sc)])
      | Some c \<Rightarrow>
        bnd (on_snd (ctrl_reg tb sc (cd_bytes c))) (\<lambda>tot.
        bnd (case co sc (cd_drops c) of None \<Rightarrow> ret 0
             | Some d \<Rightarrow> on_snd (read1 (tb_bus tb) ''ctrl'' d)) (\<lambda>drops.
        andthen (upd_reader (\<lambda>r. r\<lparr> cr_drops := drops \<rparr>))
        (if db_demo (tb_bus tb) then
           bnd (on_snd (tb_con_dump tb)) (\<lambda>text.
             upd_reader (\<lambda>r. r\<lparr> cr_buf := text, cr_total := nat tot \<rparr>))
         else
           bnd (lift_exn (con_cap sc c)) (\<lambda>cap.
           andthen (con_record tb (cd_region c) cap (nat tot)) (con_rptr tb sc c (nat tot)))))))"

text \<open>Whether input gets through now: the scenario's claim, unless the write-back test has a verdict.\<close>

definition interactive_now :: "bool \<Rightarrow> scenario \<Rightarrow> con_reader \<Rightarrow> bool" where
  "interactive_now demo sc r \<longleftrightarrow>
     sd_console (sc_raw sc) \<noteq> None \<and> interactive_console sc \<and> \<not> demo \<and>
     (case cr_rptr_ok r of None \<Rightarrow> True | Some b \<Rightarrow> b)"

section \<open>The packet rate\<close>

text \<open>Message and byte rate from two samples of the monotonic counter.\<close>

definition rate_sample :: "(rat \<times> nat) option \<Rightarrow> rat \<Rightarrow> nat \<Rightarrow> nat \<Rightarrow> nat \<Rightarrow>
    (rat option \<times> rat option) \<times> (rat \<times> nat) option" where
  "rate_sample prev t n msgs window =
     ((case prev of None \<Rightarrow> (None, None)
       | Some (t0, n0) \<Rightarrow>
          if t \<le> t0 \<or> n < n0 then (None, None)
          else let bps = (of_nat n - of_nat n0) / (t - t0);
                   density = (if window = 0 then 0 else of_nat msgs / of_nat window) in
               (Some bps, if density = 0 then None else Some (bps * density))),
      Some (t, n))"

section \<open>The console ring as a port\<close>

locale con_port =
  fixes tb :: "'b trace_bus" and region :: string and cap :: nat and inv :: "'b \<Rightarrow> byte list \<Rightarrow> bool"
  assumes whole_words: "inv s S \<Longrightarrow> cap mod 4 = 0"
    and ring_law: "inv s S \<Longrightarrow> \<exists>img. ring_image cap img S \<and>
          (\<forall>n. 4 * n \<le> cap \<longrightarrow> db_read (tb_bus tb) region 0 n s = (Inr (unpack_words (take (4 * n) img)), s))"
begin

lemma con_fetch_newest:
  assumes "inv s S" "0 < new" "new \<le> cap" "new \<le> length S"
  shows "con_fetch tb region cap (length S) new s = (Inr (last_n new S), s)"
proof -
  obtain img where img: "ring_image cap img S"
      "\<And>n. 4 * n \<le> cap \<Longrightarrow> db_read (tb_bus tb) region 0 n s = (Inr (unpack_words (take (4 * n) img)), s)"
    using ring_law [OF assms(1)] by blast
  have li: "length img = cap" "img \<noteq> []" and c: "0 < cap" using img(1) by (auto simp: ring_image_def)
  define start where "start = (length S - new) mod cap"
  have st: "start < cap" using c by (simp add: start_def)
  have sl: "ring_slice img start new = last_n new S"
    using assms by (intro ring_slice_newest [OF img(1)]) (simp_all add: start_def)
  define m where "m = (if start + new \<le> cap then start + new else cap)"
  have m: "m \<le> cap" by (simp add: m_def)
  note al = aligned_rest [OF whole_words [OF assms(1)] m]
  have k: "min cap ((m + 3) div 4) = (m + 3) div 4" using al(1) by linarith
  have rd: "db_read (tb_bus tb) region 0 ((m + 3) div 4) s
      = (Inr (unpack_words (take (4 * ((m + 3) div 4)) img)), s)"
    using img(2) [OF al(1)] .
  have pk: "pack_words (unpack_words (take (4 * ((m + 3) div 4)) img)) = take (4 * ((m + 3) div 4)) img"
    by (rule pack_unpack_words) (use al(1) li in simp)
  have blob: "(if start + new \<le> cap then take new (drop start (take (4 * ((m + 3) div 4)) img))
      else drop start (take cap (take (4 * ((m + 3) div 4)) img)) @ take (start + new - cap) (take (4 * ((m + 3) div 4)) img))
      = last_n new S"
  proof (cases "start + new \<le> cap")
    case True
    then have "take new (drop start (take (4 * ((m + 3) div 4)) img)) = take new (drop start img)"
      using al(2) by (simp add: m_def drop_take min_absorb1)
    then show ?thesis using True ring_slice_plain [of start new img] li sl by simp
  next
    case False
    then have "4 * ((m + 3) div 4) = cap" using al by (simp add: m_def)
    then show ?thesis using False ring_slice_split [of start img new] li sl st assms(3) by (simp add: add.commute)
  qed
  show ?thesis
    unfolding con_fetch_def Let_def start_def [symmetric] m_def [symmetric] k
    by (simp only: bnd_def rd prod.case sum.case pk blob ret_apply if_not_P [OF gr_implies_not0 [OF c]])
qed

end

section \<open>Recording loses nothing uncounted\<close>

definition con_inv :: "string \<Rightarrow> nat \<Rightarrow> hw \<Rightarrow> byte list \<Rightarrow> bool" where
  "con_inv region cap s S \<longleftrightarrow> cap mod 4 = 0 \<and>
     (case dict_get (hw_maps s) region of None \<Rightarrow> False | Some img \<Rightarrow> ring_image cap img S)"

interpretation live_con: con_port hw_trace_bus region cap "con_inv region cap" for region cap
proof unfold_locales
  fix s S assume "con_inv region cap s S"
  then obtain img where img: "dict_get (hw_maps s) region = Some img" "ring_image cap img S"
    by (auto simp: con_inv_def split: option.splits)
  then have "length img = cap" by (simp add: ring_image_def)
  then show "\<exists>img. ring_image cap img S \<and> (\<forall>n. 4 * n \<le> cap \<longrightarrow>
      db_read (tb_bus hw_trace_bus) region 0 n s = (Inr (unpack_words (take (4 * n) img)), s))"
    using img hw_read_words [OF img(1), of 0] by (intro exI [of _ img]) (simp add: hw_trace_bus_def hw_bus_def)
qed (simp add: con_inv_def)

text \<open>What the reader has: the newest characters up to the count, all others accounted for.\<close>

definition reader_ok :: "con_reader \<Rightarrow> byte list \<Rightarrow> bool" where
  "reader_ok r S \<longleftrightarrow> cr_total r \<le> length S \<and> length (cr_buf r) \<le> MAX_BUF \<and>
     cr_dropped_head r + length (cr_buf r) + cr_lost r = cr_total r"

lemma trim_front_facts:
  "cr_buf (trim_front r) = last_n MAX_BUF (cr_buf r)" "cr_lost (trim_front r) = cr_lost r"
  "cr_total (trim_front r) = cr_total r"
  "cr_dropped_head (trim_front r) + length (cr_buf (trim_front r)) = cr_dropped_head r + length (cr_buf r)"
  by (auto simp: trim_front_def Let_def last_n_def)

lemma con_record_step:
  assumes "con_inv region cap s S" "reader_ok r S0" "prefix S0 S" "cr_total r = length S0"
  shows "\<exists>r'. con_record hw_trace_bus region cap (length S) (r, s) = (Inr (), (r', s)) \<and>
     cr_buf r' = last_n MAX_BUF (cr_buf r @ last_n (min (length S - length S0) cap) S) \<and>
     cr_lost r' = cr_lost r + (length S - length S0 - min (length S - length S0) cap) \<and> reader_ok r' S \<and>
     cr_total r' = length S"
proof -
  obtain T where T: "S = S0 @ T" using assms(3) by (auto simp: prefix_def)
  have ok: "cr_dropped_head r + length (cr_buf r) + cr_lost r = length S0" "length (cr_buf r) \<le> MAX_BUF"
    using assms(2,4) by (simp_all add: reader_ok_def)
  show ?thesis
  proof (cases "T = []")
    case True
    then show ?thesis
      using assms T ok by (intro exI [of _ r]) (auto simp: con_record_def upd_reader_def andthen_def bnd_def reader_ok_def
        last_n_def)
  next
    case False
    define new where "new = min (length T) cap"
    have cap: "0 < cap" using assms(1) by (auto simp: con_inv_def ring_image_def split: option.splits)
    have new: "0 < new" "new \<le> cap" "new \<le> length S" using False cap by (simp_all add: new_def T)
    let ?r = "trim_front (r\<lparr> cr_lost := cr_lost r + (length T - new), cr_buf := cr_buf r @ last_n new S, cr_total := length S \<rparr>)"
    have "con_record hw_trace_bus region cap (length S) (r, s) = (Inr (), (?r, s))"
      using live_con.con_fetch_newest [OF assms(1) new] False assms(4)
      by (simp add: con_record_def upd_reader_def andthen_def bnd_def Let_def on_snd_def T new_def)
    moreover have "reader_ok ?r S"
      using ok new trim_front_facts(4) [of "r\<lparr> cr_lost := cr_lost r + (length T - new), cr_buf := cr_buf r @ last_n new S, cr_total := length S \<rparr>"]
      by (simp add: reader_ok_def trim_front_facts new_def T min_def)
    ultimately show ?thesis
      by (intro exI [of _ ?r]) (simp add: trim_front_facts new_def T)
  qed
qed

text \<open>The write-back touches the verdict only.\<close>

lemma con_rptr_reader:
  assumes "con_rptr tb sc c n (r, s) = (q, (r', s'))"
  shows "r' = r\<lparr>cr_rptr_ok := cr_rptr_ok r'\<rparr>"
  using assms
  by (auto simp: con_rptr_def handle_def andthen_def bnd_def on_snd_def upd_reader_def
      split: option.splits prod.splits sum.splits if_splits exn.splits)

lemma reader_ok_verdict [simp]: "reader_ok (r\<lparr>cr_rptr_ok := v\<rparr>) S = reader_ok r S"
  "reader_ok (r\<lparr>cr_drops := d\<rparr>) S = reader_ok r S"
  by (simp_all add: reader_ok_def)

section \<open>Properties\<close>

text \<open>C15: 
  A poll of the live bus loses no character without counting it: what is new since the last poll is
  appended in order, as far as the ring still holds it; the rest is counted as lost, and what the
  buffer limit cuts off is counted as dropped.
\<close>

theorem console_poll_counts:
  assumes "sd_console (sc_raw sc) = Some c" "con_cap sc c = Inr cap" "con_inv (cd_region c) cap s S"
    "ctrl_holds sc s (cd_bytes c) (int (length S))"
    "co sc (cd_drops c) = None \<or> ctrl_holds sc s (cd_drops c) d"
    "reader_ok r S0" "prefix S0 S" "cr_total r = length S0"
    "con_poll hw_trace_bus sc (r, s) = (q, (r', s'))"
  shows "cr_buf r' = last_n MAX_BUF (cr_buf r @ last_n (min (length S - length S0) cap) S) \<and>
    cr_lost r' = cr_lost r + (length S - length S0 - min (length S - length S0) cap) \<and>
    cr_total r' = length S \<and> cr_dropped_head r' + length (cr_buf r') + cr_lost r' = length S"
proof -
  define d' where "d' = (if co sc (cd_drops c) = None then 0 else d)"
  have ok: "reader_ok (r\<lparr>cr_drops := d'\<rparr>) S0" "cr_total (r\<lparr>cr_drops := d'\<rparr>) = length S0" using assms(6,8) by simp_all
  obtain r1 where r1: "con_record hw_trace_bus (cd_region c) cap (length S) (r\<lparr>cr_drops := d'\<rparr>, s) = (Inr (), (r1, s))"
     "cr_buf r1 = last_n MAX_BUF (cr_buf r @ last_n (min (length S - length S0) cap) S)"
     "cr_lost r1 = cr_lost r + (length S - length S0 - min (length S - length S0) cap)" "reader_ok r1 S"
     "cr_total r1 = length S"
    using con_record_step [OF assms(3) ok(1) assms(7) ok(2)] by auto
  have drops: "(case co sc (cd_drops c) of None \<Rightarrow> ret 0
      | Some d \<Rightarrow> on_snd (read1 (tb_bus hw_trace_bus) ''ctrl'' d)) (r, s) = (Inr d', (r, s))"
    using assms(5) ctrl_holds_read [of sc s "cd_drops c" d]
    by (auto simp: d'_def ctrl_reg_def on_snd_def ctrl_holds_def split: option.splits)
  have "\<not> db_demo (tb_bus hw_trace_bus)" by (simp add: hw_trace_bus_def hw_bus_def)
  then have "con_poll hw_trace_bus sc (r, s) = con_rptr hw_trace_bus sc c (length S) (r1, s)"
    using ctrl_holds_read [OF assms(4)] drops r1(1)
    by (simp add: con_poll_def assms(1,2) bnd_def andthen_def upd_reader_def lift_exn_def on_snd_def
        del: of_nat_eq_0_iff)
  then have "r' = r1\<lparr>cr_rptr_ok := cr_rptr_ok r'\<rparr>" using con_rptr_reader assms(9) by metis
  then obtain v where "r' = r1\<lparr>cr_rptr_ok := v\<rparr>" by blast
  then have f: "cr_buf r' = cr_buf r1" "cr_lost r' = cr_lost r1" "cr_total r' = cr_total r1"
    "cr_dropped_head r' = cr_dropped_head r1" by simp_all
  have "cr_dropped_head r1 + length (cr_buf r1) + cr_lost r1 = length S"
    using r1(4,5) by (simp add: reader_ok_def)
  then show ?thesis using r1(2,3,5) unfolding f by blast
qed

text \<open>A small machine: a ring of 8 characters after 13 of them, 4 of which were seen.\<close>

definition con_doc :: console_doc where
  "con_doc = \<lparr> cd_bytes = ''con_bytes'', cd_drops = ''con_drops'', cd_region = ''con'', cd_size = Some 8,
     cd_rptr_reg = Some ''con_rptr'', cd_interactive = True \<rparr>"

definition con_sc :: scenario where
  "con_sc = mini_sc\<lparr> sc_raw := (sc_raw mini_sc)\<lparr>sd_console := Some con_doc\<rparr>, sc_ctrl := [(''con_bytes'', 0), (''con_rptr'', 4)] \<rparr>"

definition con_hw :: hw where
  "con_hw = \<lparr> hw_maps = [(''ctrl'', pack_words [13, 0]), (''con'', [8, 9, 10, 11, 12, 5, 6, 7])], hw_phys = (\<lambda>_. 0) \<rparr>"

definition con_seen :: con_reader where
  "con_seen = con_reader0\<lparr>cr_buf := [0, 1, 2, 3], cr_total := 4\<rparr>"

lemma con_ring_image: "ring_image 8 [8, 9, 10, 11, 12, 5, 6, 7] (map word_of_nat [0..<13] :: byte list)"
  by (simp add: ring_image_check upt_rec)

lemma console_poll_counts_witness:
  "cr_buf (fst (snd (con_poll hw_trace_bus con_sc (con_seen, con_hw)))) = [0, 1, 2, 3, 5, 6, 7, 8, 9, 10, 11, 12] \<and>
   cr_lost (fst (snd (con_poll hw_trace_bus con_sc (con_seen, con_hw)))) = 1"
proof -
  let ?S = "map word_of_nat [0..<13] :: byte list" and ?Told = "map word_of_nat [0..<4] :: byte list"
  obtain q r' s' where e: "con_poll hw_trace_bus con_sc (con_seen, con_hw) = (q, (r', s'))" by (metis prod.collapse)
  have a: "sd_console (sc_raw con_sc) = Some con_doc" "con_cap con_sc con_doc = Inr 8"
    by (simp_all add: con_sc_def con_cap_def con_doc_def)
  have b: "con_inv (cd_region con_doc) 8 con_hw ?S" using con_ring_image by (simp add: con_inv_def con_hw_def con_doc_def dict_get_def)
  have c: "ctrl_holds con_sc con_hw (cd_bytes con_doc) (int (length ?S))"
    "co con_sc (cd_drops con_doc) = None \<or> ctrl_holds con_sc con_hw (cd_drops con_doc) 0"
    unfolding ctrl_holds_def by code_simp+
  have d: "reader_ok con_seen ?Told" "cr_total con_seen = length ?Told"
    by (simp_all add: reader_ok_def con_seen_def con_reader0_def MAX_BUF_def)
  have p: "prefix ?Told ?S" by (rule prefixI [of _ _ "map word_of_nat [4..<13]"]) code_simp
  have "last_n 8 ?S = [5, 6, 7, 8, 9, 10, 11, 12]" by code_simp
  then show ?thesis unfolding e
    using console_poll_counts [OF a b c d(1) p d(2) e] by (simp add: con_seen_def con_reader0_def MAX_BUF_def)
qed

end
