(* ===== verification/Guest_Boot.thy ===== *)
theory Guest_Boot
  imports Scenario
begin

text \<open>
  Starting a guest from the dashboard (\<open>boot_start\<close>, \<open>boot_status\<close>, \<open>_boot_run\<close>,
  \<open>_boot_say\<close> and \<open>boot_recipes\<close> of the server). The shared record \<open>_boot\<close> is changed by the request
  handlers and by the thread of the running boot; one step of either is one critical section of the
  lock, or one event of the script's process. The recipes, the files and the behaviour of the
  scripts are inputs.
\<close>

section \<open>The shared record\<close>

type_synonym line = "string \<times> fmt_arg list"

record boot =
  bt_running :: bool
  bt_scen :: "string option"
  bt_phase :: "string option"
  bt_rc :: "int option"
  bt_lines :: "line list"
  bt_t0 :: "int option"

definition boot0 :: boot where
  "boot0 = \<lparr> bt_running = False, bt_scen = None, bt_phase = None, bt_rc = None, bt_lines = [], bt_t0 = None \<rparr>"

text \<open>A recipe of \<open>boot.json\<close>; \<open>None\<close> for a key it does not have.\<close>

record recipe =
  rp_script :: "string option"
  rp_phases :: "string list option"
  rp_other :: bool

definition recipe_empty :: "recipe \<Rightarrow> bool" where
  "recipe_empty r \<longleftrightarrow> rp_script r = None \<and> rp_phases r = None \<and> \<not> rp_other r"

text \<open>The content of \<open>boot.json\<close>, or the exception of reading it.\<close>

type_synonym recipes = "exn + (string, recipe) dict"

definition boot_recipes :: "recipes \<Rightarrow> string list" where
  "boot_recipes f = (case f of Inl _ \<Rightarrow> []
     | Inr d \<Rightarrow> sorted_strs (filter (\<lambda>k. \<not> startswith k ''_'') (map fst d)))"

record boot_report =
  rt_running :: bool
  rt_scen :: "string option"
  rt_recipes :: "string list"
  rt_phase :: "string option"
  rt_rc :: "int option"
  rt_lines :: "line list"
  rt_t0 :: "int option"

definition boot_status :: "recipes \<Rightarrow> boot \<Rightarrow> boot_report" where
  "boot_status f b = \<lparr> rt_running = bt_running b, rt_scen = bt_scen b, rt_recipes = boot_recipes f,
     rt_phase = bt_phase b, rt_rc = bt_rc b, rt_lines = last_n 40 (bt_lines b), rt_t0 = bt_t0 b \<rparr>"

definition boot_say :: "line \<Rightarrow> boot \<Rightarrow> boot" where
  "boot_say l b = b\<lparr>bt_lines := last_n 400 (bt_lines b @ [l])\<rparr>"

section \<open>The thread of a boot\<close>

datatype job_at =
    J_Next | J_Say string | J_Run string | J_Abort string | J_Error string | J_Finish

record job =
  jb_sid :: string
  jb_at :: job_at
  jb_todo :: "string list"
  jb_rc :: int

text \<open>What moves the thread on: its own next statement, a line of the script, its exit, an exception.\<close>

datatype event = E_Go | E_Line string | E_Exit int | E_Exn string

definition new_job :: "string \<Rightarrow> recipe \<Rightarrow> job" where
  "new_job sid cfg = \<lparr> jb_sid = sid, jb_at = J_Next, jb_todo = opt_or (rp_phases cfg) [], jb_rc = 0 \<rparr>"

definition boot_finish :: "int \<Rightarrow> boot \<Rightarrow> boot" where
  "boot_finish rc b = b\<lparr> bt_running := False, bt_rc := Some rc, bt_phase := None \<rparr>"

text \<open>One step of \<open>_boot_run\<close>; the job is gone after its last one. \<open>None\<close>: the event does not occur there.\<close>

fun job_step :: "event \<Rightarrow> job \<Rightarrow> boot \<Rightarrow> (boot \<times> job option) option" where
  "job_step e j b = (case (jb_at j, e) of
     (J_Next, E_Go) \<Rightarrow> (case jb_todo j of
         [] \<Rightarrow> Some (b, Some (j\<lparr>jb_at := J_Finish\<rparr>))
       | ph # phs \<Rightarrow> Some (b\<lparr>bt_phase := Some ph\<rparr>, Some (j\<lparr>jb_at := J_Say ph, jb_todo := phs\<rparr>)))
   | (J_Say ph, E_Go) \<Rightarrow> Some (boot_say (''=== PHASE ==='', [AS ph]) b, Some (j\<lparr>jb_at := J_Run ph\<rparr>))
   | (J_Run ph, E_Line ln) \<Rightarrow>
       Some (if rstrip ln \<noteq> [] then boot_say (rstrip ln, []) b else b, Some j)
   | (J_Run ph, E_Exit rc) \<Rightarrow>
       Some (b, Some (j\<lparr>jb_rc := rc, jb_at := (if rc \<noteq> 0 then J_Abort ph else J_Next)\<rparr>))
   | (J_Run ph, E_Exn msg) \<Rightarrow> Some (b, Some (j\<lparr>jb_rc := -1, jb_at := J_Error msg\<rparr>))
   | (J_Abort ph, E_Go) \<Rightarrow>
       Some (boot_say (''PHASE aborted'', [AS ph, AI (jb_rc j)]) b, Some (j\<lparr>jb_at := J_Finish\<rparr>))
   | (J_Error msg, E_Go) \<Rightarrow> Some (boot_say (''ERROR'', [AS msg]) b, Some (j\<lparr>jb_at := J_Finish\<rparr>))
   | (J_Finish, E_Go) \<Rightarrow> Some (boot_finish (jb_rc j) b, None)
   | _ \<Rightarrow> None)"

declare job_step.simps [simp del]

section \<open>Starting\<close>

datatype boot_reply = B_Ok string "string list option" | B_No string "fmt_arg list"

text \<open>\<open>path\<close> is \<open>str(HERE / name)\<close>, \<open>is_file\<close> what the file system says.\<close>

definition boot_start :: "recipes \<Rightarrow> (string \<Rightarrow> string) \<Rightarrow> (string \<Rightarrow> bool) \<Rightarrow> int \<Rightarrow> string \<Rightarrow> boot \<Rightarrow> boot_reply \<times> boot \<times> job option" where
  "boot_start f path is_file now sid b =
     (case f of
        Inl _ \<Rightarrow> (B_No ''boot.json unreadable'' [], b, None)
      | Inr d \<Rightarrow> (case dict_get d sid of
          None \<Rightarrow> (B_No ''no boot recipe'' [AS sid], b, None)
        | Some cfg \<Rightarrow>
          if recipe_empty cfg then (B_No ''no boot recipe'' [AS sid], b, None)
          else
            let script = path (or_str (rp_script cfg) []) in
            if \<not> is_file script then (B_No ''script missing'' [AS script], b, None)
            else if bt_running b
            then (B_No ''boot already running'' (case bt_phase b of None \<Rightarrow> [] | Some ph \<Rightarrow> [AS ph]), b, None)
            else (B_Ok sid (rp_phases cfg),
                  b\<lparr> bt_running := True, bt_scen := Some sid, bt_phase := None, bt_rc := None,
                     bt_lines := [], bt_t0 := Some now \<rparr>,
                  Some (new_job sid cfg))))"

section \<open>The server: requests and threads interleaved\<close>

type_synonym boot_sys = "boot \<times> job list"

inductive sys_step :: "recipes \<Rightarrow> (string \<Rightarrow> string) \<Rightarrow> (string \<Rightarrow> bool) \<Rightarrow> boot_sys \<Rightarrow> boot_sys \<Rightarrow> bool"
  for f path is_file where
    request: "boot_start f path is_file now sid b = (reply, b', spawned) \<Longrightarrow>
      sys_step f path is_file (b, js) (b', js @ (case spawned of None \<Rightarrow> [] | Some j \<Rightarrow> [j]))"
  | thread: "k < length js \<Longrightarrow> job_step e (js ! k) b = Some (b', j') \<Longrightarrow>
      sys_step f path is_file (b, js)
        (b', case j' of Some j \<Rightarrow> js[k := j] | None \<Rightarrow> take k js @ drop (Suc k) js)"

inductive reachable :: "recipes \<Rightarrow> (string \<Rightarrow> string) \<Rightarrow> (string \<Rightarrow> bool) \<Rightarrow> boot_sys \<Rightarrow> bool"
  for f path is_file where
    init: "reachable f path is_file (boot0, [])"
  | step: "reachable f path is_file x \<Longrightarrow> sys_step f path is_file x y \<Longrightarrow> reachable f path is_file y"

inductive_cases sys_stepE: "sys_step f path is_file x y"

section \<open>One run from start to end\<close>

text \<open>What the script of a phase does: the lines it prints, then its exit code or an exception.\<close>

type_synonym phase_out = "string list \<times> (string + int)"

definition say_lines :: "string list \<Rightarrow> boot \<Rightarrow> boot" where
  "say_lines lns b = fold (\<lambda>ln b. if rstrip ln \<noteq> [] then boot_say (rstrip ln, []) b else b) lns b"

fun boot_phases :: "string list \<Rightarrow> phase_out list \<Rightarrow> int \<Rightarrow> boot \<Rightarrow> int \<times> boot" where
  "boot_phases (ph # phs) ((lns, res) # outs) rc b =
     (let b1 = say_lines lns (boot_say (''=== PHASE ==='', [AS ph]) (b\<lparr>bt_phase := Some ph\<rparr>)) in
      case res of
        Inl msg \<Rightarrow> (-1, boot_say (''ERROR'', [AS msg]) b1)
      | Inr rc' \<Rightarrow> if rc' \<noteq> 0 then (rc', boot_say (''PHASE aborted'', [AS ph, AI rc']) b1)
                   else boot_phases phs outs 0 b1)"
| "boot_phases _ _ rc b = (rc, b)"

definition boot_run :: "recipe \<Rightarrow> phase_out list \<Rightarrow> boot \<Rightarrow> boot" where
  "boot_run cfg outs b =
     (case boot_phases (opt_or (rp_phases cfg) []) outs 0 b of (rc, b') \<Rightarrow> boot_finish rc b')"

text \<open>The events of such a run.\<close>

fun run_events :: "event list \<Rightarrow> job \<Rightarrow> boot \<Rightarrow> (boot \<times> job option) option" where
  "run_events [] j b = Some (b, Some j)"
| "run_events (e # es) j b = (case job_step e j b of
     None \<Rightarrow> None
   | Some (b', None) \<Rightarrow> (if es = [] then Some (b', None) else None)
   | Some (b', Some j') \<Rightarrow> run_events es j' b')"

fun events_of :: "string list \<Rightarrow> phase_out list \<Rightarrow> event list" where
  "events_of (ph # phs) ((lns, res) # outs) = [E_Go, E_Go] @ map E_Line lns @
     (case res of Inl msg \<Rightarrow> [E_Exn msg, E_Go, E_Go]
      | Inr rc \<Rightarrow> E_Exit rc # (if rc \<noteq> 0 then [E_Go, E_Go] else events_of phs outs))"
| "events_of _ _ = [E_Go, E_Go]"

section \<open>Facts\<close>

lemma boot_say_fields [simp]:
  "bt_running (boot_say l b) = bt_running b" "bt_scen (boot_say l b) = bt_scen b"
  "bt_rc (boot_say l b) = bt_rc b" "bt_phase (boot_say l b) = bt_phase b" "bt_t0 (boot_say l b) = bt_t0 b"
  "length (bt_lines (boot_say l b)) \<le> 400"
  by (simp_all add: boot_say_def)

lemma boot_finish_fields [simp]:
  "bt_running (boot_finish rc b) = False" "bt_scen (boot_finish rc b) = bt_scen b"
  "bt_rc (boot_finish rc b) = Some rc" "bt_phase (boot_finish rc b) = None"
  "bt_lines (boot_finish rc b) = bt_lines b"
  by (simp_all add: boot_finish_def)

text \<open>A step of the thread keeps the record running, except the last one.\<close>

lemma job_step_effect:
  assumes "job_step e j b = Some (b', j')"
  shows "bt_scen b' = bt_scen b" "length (bt_lines b) \<le> 400 \<Longrightarrow> length (bt_lines b') \<le> 400"
    "case j' of Some k \<Rightarrow> jb_sid k = jb_sid j \<and> bt_running b' = bt_running b \<and> bt_rc b' = bt_rc b
       \<and> (\<exists>pre. jb_todo j = pre @ jb_todo k)
     | None \<Rightarrow> \<not> bt_running b' \<and> bt_rc b' = Some (jb_rc j)"
  using assms
  by (auto simp: job_step.simps split: job_at.splits event.splits list.splits if_splits)

text \<open>What holds in every state of the server.\<close>

definition boot_inv :: "boot_sys \<Rightarrow> bool" where
  "boot_inv x \<longleftrightarrow> (case x of (b, js) \<Rightarrow>
     length (bt_lines b) \<le> 400 \<and>
     (if bt_running b then (\<exists>j. js = [j] \<and> bt_scen b = Some (jb_sid j)) \<and> bt_rc b = None
      else js = [] \<and> (bt_scen b = None \<longleftrightarrow> bt_rc b = None)))"

lemma boot_inv_step:
  assumes "boot_inv x" "sys_step f path is_file x y"
  shows "boot_inv y"
  using assms(2)
proof (cases rule: sys_step.cases)
  case (request now sid b reply b' spawned js)
  then show ?thesis
    using assms(1)
    by (auto simp: boot_inv_def boot_start_def Let_def new_job_def split: sum.splits option.splits if_splits)
next
  case (thread k js e b b' j')
  then have js: "js = [js ! 0]" "k = 0" "bt_running b" "bt_scen b = Some (jb_sid (js ! 0))" "bt_rc b = None"
      "length (bt_lines b) \<le> 400"
    using assms(1) by (auto simp: boot_inv_def split: if_splits)
  note ef = job_step_effect [OF thread(4)]
  obtain j where j: "js = [j]" "k = 0" using js(1,2) by metis
  show ?thesis
    using ef js(3-6) thread(2) unfolding j by (cases j') (auto simp: boot_inv_def)
qed

lemma boot_inv_reachable: "reachable f path is_file x \<Longrightarrow> boot_inv x"
proof (induction rule: reachable.induct)
  case init
  then show ?case by (simp add: boot_inv_def boot0_def)
next
  case (step x y)
  then show ?case by (blast intro: boot_inv_step)
qed

section \<open>The specification: idle, booting, ended\<close>

datatype guest = G_Idle | G_Booting string | G_Ended string int

definition guest_of :: "boot \<Rightarrow> guest" where
  "guest_of b = (if bt_running b then G_Booting (the (bt_scen b))
     else case (bt_scen b, bt_rc b) of (Some sid, Some rc) \<Rightarrow> G_Ended sid rc | _ \<Rightarrow> G_Idle)"

inductive guest_step :: "recipes \<Rightarrow> guest \<Rightarrow> guest \<Rightarrow> bool" for f where
  start: "f = Inr d \<Longrightarrow> dict_get d sid = Some cfg \<Longrightarrow> \<not> recipe_empty cfg \<Longrightarrow> \<forall>s. g \<noteq> G_Booting s \<Longrightarrow>
     guest_step f g (G_Booting sid)"
| finish: "guest_step f (G_Booting sid) (G_Ended sid rc)"

inductive_simps guest_step_idle: "guest_step f G_Idle g"
inductive_simps guest_step_booting: "guest_step f (G_Booting sid) g"

lemma boot_start_cases:
  assumes "boot_start f path is_file now sid b = (reply, b', spawned)"
  obtains "b' = b" "spawned = None"
  | d cfg where "f = Inr d" "dict_get d sid = Some cfg" "\<not> recipe_empty cfg" "\<not> bt_running b"
      "is_file (path (or_str (rp_script cfg) []))" "reply = B_Ok sid (rp_phases cfg)"
      "b' = b\<lparr> bt_running := True, bt_scen := Some sid, bt_phase := None, bt_rc := None, bt_lines := [], bt_t0 := Some now \<rparr>"
      "spawned = Some (new_job sid cfg)"
proof (cases spawned)
  case None
  then have "b' = b" using assms by (auto simp: boot_start_def Let_def split: sum.splits option.splits if_splits)
  then show thesis using None that(1) by blast
next
  case (Some j)
  obtain d where f: "f = Inr d" using assms Some by (cases f) (simp_all add: boot_start_def)
  obtain cfg where c: "dict_get d sid = Some cfg" using assms Some by (cases "dict_get d sid") (simp_all add: boot_start_def f)
  have g: "\<not> recipe_empty cfg" "is_file (path (or_str (rp_script cfg) []))" "\<not> bt_running b"
    using assms Some by (simp_all add: boot_start_def f c Let_def split: if_splits)
  then show thesis using that(2) [OF f c] assms by (simp add: boot_start_def f c Let_def)
qed

lemma guest_simulation:
  assumes "boot_inv x" "sys_step f path is_file x y"
  shows "guest_of (fst y) = guest_of (fst x) \<or> guest_step f (guest_of (fst x)) (guest_of (fst y))"
  using assms(2)
proof (cases rule: sys_step.cases)
  case (request now sid b reply b' spawned js)
  show ?thesis
  proof (cases rule: boot_start_cases [OF request(3)])
    case (2 d cfg)
    have "\<forall>s. guest_of b \<noteq> G_Booting s" using 2(4) by (auto simp: guest_of_def split: option.splits)
    then have "guest_step f (guest_of b) (G_Booting sid)" using 2 by (intro guest_step.start) auto
    then show ?thesis using 2(7) request by (simp add: guest_of_def)
  qed (use request in simp)
next
  case (thread k js e b b' j')
  then obtain j where j: "js = [j]" "k = 0" "bt_running b" "bt_scen b = Some (jb_sid j)" "bt_rc b = None"
    using assms(1) by (auto simp: boot_inv_def split: if_splits)
  note ef = job_step_effect [OF thread(4)]
  show ?thesis
    using ef j thread(1,2) by (cases j') (auto simp: guest_of_def guest_step.finish)
qed

section \<open>The run as one routine\<close>

definition phase_ok :: "phase_out \<Rightarrow> bool" where
  "phase_ok o' \<longleftrightarrow> snd o' = Inr 0"

definition final_rc :: "phase_out list \<Rightarrow> int" where
  "final_rc outs = (case List.find (\<lambda>o'. \<not> phase_ok o') outs of
     None \<Rightarrow> 0 | Some (_, Inl _) \<Rightarrow> -1 | Some (_, Inr rc) \<Rightarrow> rc)"

lemma run_lines:
  "jb_at j = J_Run ph \<Longrightarrow> run_events (map E_Line lns @ es) j b = run_events es j (say_lines lns b)"
  by (induction lns arbitrary: b) (simp_all add: job_step.simps say_lines_def)

lemma run_events_phases:
  assumes "jb_at j = J_Next" "length (jb_todo j) \<le> length outs" "jb_rc j = rc"
  shows "run_events (events_of (jb_todo j) outs) j b
     = (case boot_phases (jb_todo j) outs rc b of (rc', b') \<Rightarrow> Some (boot_finish rc' b', None))"
  using assms
proof (induction "jb_todo j" outs arbitrary: j rc b rule: events_of.induct [case_names cons nil short])
  case (cons ph phs lns res outs)
  let ?b = "boot_say (''=== PHASE ==='', [AS ph]) (b\<lparr>bt_phase := Some ph\<rparr>)"
  let ?j = "j\<lparr>jb_todo := phs, jb_at := J_Run ph\<rparr>"
  have todo: "jb_todo j = ph # phs" using cons(2) by simp
  have go: "run_events (E_Go # E_Go # map E_Line lns @ es) j b = run_events es ?j (say_lines lns ?b)" for es
    using cons(3) todo by (simp add: job_step.simps run_lines)
  show ?case
  proof (cases res)
    case (Inl msg)
    have "run_events (events_of (jb_todo j) ((lns, res) # outs)) j b = run_events [E_Exn msg, E_Go, E_Go] ?j (say_lines lns ?b)"
      by (simp only: todo events_of.simps Inl sum.case append.simps go)
    then show ?thesis by (simp add: Inl todo job_step.simps Let_def)
  next
    case (Inr rc')
    show ?thesis
    proof (cases "rc' = 0")
      case True
      let ?k = "?j\<lparr>jb_rc := 0, jb_at := J_Next\<rparr>"
      have "run_events (events_of (jb_todo ?k) outs) ?k (say_lines lns ?b)
          = (case boot_phases (jb_todo ?k) outs 0 (say_lines lns ?b) of (rc', b') \<Rightarrow> Some (boot_finish rc' b', None))"
        by (rule cons(1)) (use Inr True cons(4) todo in simp_all)
      moreover have "run_events (events_of (jb_todo j) ((lns, res) # outs)) j b
          = run_events (E_Exit 0 # events_of phs outs) ?j (say_lines lns ?b)"
        by (simp only: todo events_of.simps Inr True sum.case append.simps go if_False simp_thms)
      ultimately show ?thesis using Inr True by (simp add: todo job_step.simps Let_def)
    next
      case False
      then have "run_events (events_of (jb_todo j) ((lns, res) # outs)) j b
          = run_events [E_Exit rc', E_Go, E_Go] ?j (say_lines lns ?b)"
        by (simp only: todo events_of.simps Inr sum.case append.simps go if_True simp_thms)
      then show ?thesis using Inr False by (simp add: todo job_step.simps Let_def)
    qed
  qed
next
  case (nil outs j)
  then have "jb_todo j = []" by simp
  then show ?case using nil(2,4) by (simp add: job_step.simps)
qed (simp add: job_step.simps)

lemma boot_phases_rc:
  "length phs \<le> length outs \<Longrightarrow> fst (boot_phases phs outs 0 b) = final_rc (take (length phs) outs)"
  by (induction phs outs "0 :: int" b rule: boot_phases.induct)
     (auto simp: final_rc_def phase_ok_def Let_def split: sum.splits)

lemma boot_phases_cut:
  "i < length phs \<Longrightarrow> i < length outs \<Longrightarrow> \<not> phase_ok (outs ! i) \<Longrightarrow>
     boot_phases phs outs rc b = boot_phases (take (Suc i) phs) (take (Suc i) outs) rc b"
proof (induction phs outs rc b arbitrary: i rule: boot_phases.induct)
  case (1 ph phs lns res outs rc b)
  show ?case
  proof (cases i)
    case 0
    then show ?thesis using 1(4) by (auto simp: phase_ok_def Let_def split: sum.splits)
  next
    case (Suc k)
    then show ?thesis using 1 by (auto simp: Let_def split: sum.splits)
  qed
qed auto

section \<open>Properties\<close>

text \<open>
  In every reachable state at most one boot thread is alive, and exactly when the record says so;
  it is the thread of the scenario shown, no result stands while it runs, and the log stays bounded.
\<close>

lemma boot_single_thread:
  assumes "reachable f path is_file (b, js)"
  shows "length js \<le> 1 \<and> (bt_running b \<longleftrightarrow> js \<noteq> []) \<and> length (bt_lines b) \<le> 400 \<and>
     map (Some \<circ> jb_sid) js = (if bt_running b then [bt_scen b] else []) \<and>
     (bt_rc b = None \<longleftrightarrow> bt_running b \<or> bt_scen b = None)"
  using boot_inv_reachable [OF assms] by (auto simp: boot_inv_def split: if_splits)

text \<open>C5: 
  The server with its threads refines the machine idle, booting, ended: every step of a request or
  of a thread is a step of that machine or changes nothing of it. A boot in progress is never
  replaced by another, and only a scenario with a recipe is booted.
\<close>

theorem boot_refines_guest:
  assumes "reachable f path is_file x" "sys_step f path is_file x y"
  shows "guest_of (fst y) = guest_of (fst x) \<or> guest_step f (guest_of (fst x)) (guest_of (fst y))"
  by (rule guest_simulation [OF boot_inv_reachable [OF assms(1)] assms(2)])

text \<open>C33: 
  A boot that was accepted comes to its end whatever its scripts do, provided each exits or fails:
  the thread is gone, the record is idle again and holds 0 exactly when every phase succeeded, else
  the code of the first failure; and nothing after the first failing phase is run.
\<close>

theorem boot_comes_to_end:
  assumes "boot_start f path is_file now sid b = (B_Ok sid (rp_phases cfg), b1, Some j)"
    and "f = Inr d" "dict_get d sid = Some cfg" "length (opt_or (rp_phases cfg) []) \<le> length outs"
  shows "run_events (events_of (opt_or (rp_phases cfg) []) outs) j b1 = Some (boot_run cfg outs b1, None) \<and>
     \<not> bt_running (boot_run cfg outs b1) \<and>
     bt_rc (boot_run cfg outs b1) = Some (final_rc (take (length (opt_or (rp_phases cfg) [])) outs)) \<and>
     (\<forall>i < length (opt_or (rp_phases cfg) []). \<not> phase_ok (outs ! i) \<longrightarrow>
        boot_run cfg outs b1
          = boot_run (cfg\<lparr>rp_phases := Some (take (Suc i) (opt_or (rp_phases cfg) []))\<rparr>) (take (Suc i) outs) b1)"
proof -
  let ?phs = "opt_or (rp_phases cfg) []"
  have j: "j = new_job sid cfg"
    using assms(1-3) by (auto simp: boot_start_def Let_def split: if_splits)
  have "run_events (events_of ?phs outs) j b1 = Some (boot_run cfg outs b1, None)"
    using run_events_phases [of j outs 0 b1] assms(4)
    by (simp add: j new_job_def boot_run_def split: prod.splits)
  moreover have "bt_rc (boot_run cfg outs b1) = Some (final_rc (take (length ?phs) outs))"
    using boot_phases_rc [OF assms(4), of b1] by (auto simp: boot_run_def split: prod.splits)
  moreover have "\<not> bt_running (boot_run cfg outs b1)" by (simp add: boot_run_def split: prod.splits)
  moreover have "boot_run cfg outs b1 = boot_run (cfg\<lparr>rp_phases := Some (take (Suc i) ?phs)\<rparr>) (take (Suc i) outs) b1"
    if "i < length ?phs" "\<not> phase_ok (outs ! i)" for i
  proof -
    have "i < length outs" using that(1) assms(4) by simp
    then show ?thesis using boot_phases_cut [OF that(1) _ that(2), of 0 b1] by (simp add: boot_run_def opt_or_def)
  qed
  ultimately show ?thesis by blast
qed

text \<open>A recipe of two phases; the first one fails.\<close>

definition mini_recipe :: recipe where
  "mini_recipe = \<lparr> rp_script = Some ''boot.sh'', rp_phases = Some [''prep'', ''go''], rp_other = False \<rparr>"

definition mini_recipes :: recipes where
  "mini_recipes = Inr [(''rocket'', mini_recipe)]"

definition mini_started :: "boot \<times> job" where
  "mini_started = (case boot_start mini_recipes (\<lambda>n. n) (\<lambda>_. True) 7 ''rocket'' boot0 of
     (_, b, Some j) \<Rightarrow> (b, j) | (_, b, None) \<Rightarrow> (b, new_job [] mini_recipe))"

lemma mini_start:
  "boot_start mini_recipes (\<lambda>n. n) (\<lambda>_. True) 7 ''rocket'' boot0
     = (B_Ok ''rocket'' (rp_phases mini_recipe), fst mini_started, Some (snd mini_started))"
  by code_simp

lemma mini_reachable: "reachable mini_recipes (\<lambda>n. n) (\<lambda>_. True) (fst mini_started, [snd mini_started])"
  using reachable.step [OF reachable.init sys_step.request [OF mini_start, of "[]"]] by simp

lemma boot_single_thread_witness:
  "bt_running (fst mini_started) \<and> bt_scen (fst mini_started) = Some ''rocket''"
proof -
  have "jb_sid (snd mini_started) = ''rocket''" by code_simp
  then show ?thesis using boot_single_thread [OF mini_reachable] by (auto split: if_splits)
qed

lemma boot_comes_to_end_witness:
  "bt_rc (boot_run mini_recipe [([''x''], Inr 3), ([], Inr 0)] (fst mini_started)) = Some 3"
proof -
  have a: "mini_recipes = Inr [(''rocket'', mini_recipe)]" "dict_get [(''rocket'', mini_recipe)] ''rocket'' = Some mini_recipe"
    "length (opt_or (rp_phases mini_recipe) []) \<le> length [([''x''], Inr 3), ([], Inr 0)]"
    "final_rc (take (length (opt_or (rp_phases mini_recipe) [])) [([''x''], Inr 3), ([], Inr 0)]) = 3"
    by (simp_all add: mini_recipes_def dict_get_def mini_recipe_def opt_or_def final_rc_def phase_ok_def)
  show ?thesis using boot_comes_to_end [OF mini_start a(1-3)] a(4) by simp
qed

lemma boot_refines_guest_witness:
  "guest_of (fst mini_started) = G_Booting ''rocket'' \<and>
   (guest_of (fst mini_started) = guest_of boot0 \<or> guest_step mini_recipes (guest_of boot0) (guest_of (fst mini_started)))"
proof -
  have "sys_step mini_recipes (\<lambda>n. n) (\<lambda>_. True) (boot0, []) (fst mini_started, [snd mini_started])"
    using sys_step.request [OF mini_start, of "[]"] by simp
  moreover have "guest_of (fst mini_started) = G_Booting ''rocket''" by code_simp
  ultimately show ?thesis using boot_refines_guest [OF reachable.init] by fastforce
qed

end
