(* ===== verification/Frames.thy ===== *)
theory Frames
  imports Prelude
begin

text \<open>
  Frame reasoning for actions: \<open>frame R m\<close> says that whatever the outcome of the action, result or
  exception, the state after it is related to the state before it. With a reflexive and transitive
  relation the frame of a routine follows from the frames of its calls.
\<close>

definition frame :: "('s \<Rightarrow> 's \<Rightarrow> bool) \<Rightarrow> ('s, 'a) act \<Rightarrow> bool" where
  "frame R m \<longleftrightarrow> (\<forall>s r t. m s = (r, t) \<longrightarrow> R s t)"

named_theorems frames \<open>frames of actions\<close>

lemma frameI: "(\<And>s r t. m s = (r, t) \<Longrightarrow> R s t) \<Longrightarrow> frame R m"
  by (simp add: frame_def)

lemma frameD: "frame R m \<Longrightarrow> m s = (r, t) \<Longrightarrow> R s t"
  by (simp add: frame_def)

lemma frame_mono: "frame R m \<Longrightarrow> (\<And>s t. R s t \<Longrightarrow> Q s t) \<Longrightarrow> frame Q m"
  by (simp add: frame_def)

lemma frame_pure [frames]: "reflp R \<Longrightarrow> frame R (ret x)" "reflp R \<Longrightarrow> frame R (raise e)"
  "reflp R \<Longrightarrow> frame R get_state"
  by (auto simp: frame_def reflp_def)

lemma frame_bnd [frames]:
  assumes "transp R" "frame R m" "\<And>x. frame R (f x)"
  shows "frame R (bnd m f)"
proof (rule frameI)
  fix s r t assume b: "bnd m f s = (r, t)"
  obtain q u where m: "m s = (q, u)" by fastforce
  with b assms show "R s t"
    by (cases q) (auto simp: bnd_def dest: frameD intro: transpD [OF assms(1)])
qed

lemma frame_andthen [frames]: "transp R \<Longrightarrow> frame R m \<Longrightarrow> frame R n \<Longrightarrow> frame R (andthen m n)"
  by (simp add: andthen_def frame_bnd)

lemma frame_handle [frames]:
  assumes "transp R" "frame R m" "\<And>e. frame R (h e)"
  shows "frame R (handle m h)"
proof (rule frameI)
  fix s r t assume b: "handle m h s = (r, t)"
  obtain q u where m: "m s = (q, u)" by fastforce
  with b assms show "R s t"
    by (cases q) (auto simp: handle_def dest: frameD intro: transpD [OF assms(1)])
qed

lemma frame_for_each [frames]:
  "reflp R \<Longrightarrow> transp R \<Longrightarrow> (\<And>x. x \<in> set xs \<Longrightarrow> frame R (f x)) \<Longrightarrow> frame R (for_each xs f)"
  by (induction xs) (auto intro: frames)

lemma frame_map_act [frames]:
  "reflp R \<Longrightarrow> transp R \<Longrightarrow> (\<And>x. x \<in> set xs \<Longrightarrow> frame R (f x)) \<Longrightarrow> frame R (map_act f xs)"
  by (induction xs) (auto intro: frames)

lemma frame_if [frames]: "(b \<Longrightarrow> frame R m) \<Longrightarrow> (\<not> b \<Longrightarrow> frame R n) \<Longrightarrow> frame R (if b then m else n)"
  by simp

lemma frame_modify: "(\<And>s. R s (f s)) \<Longrightarrow> frame R (modify f)"
  by (auto simp: frame_def)

text \<open>An action that only looks at the state.\<close>

definition reads :: "('s, 'a) act \<Rightarrow> bool" where
  "reads m \<longleftrightarrow> frame (=) m"

lemma reads_frame: "reads m \<Longrightarrow> reflp R \<Longrightarrow> frame R m"
  by (auto simp: reads_def frame_def reflp_def)

lemma readsD: "reads m \<Longrightarrow> m s = (r, t) \<Longrightarrow> t = s"
  by (auto simp: reads_def frame_def)

end
