(* ===== verification/Elf_Load.thy ===== *)
theory Elf_Load
  imports Ring_Dump Frames
begin

unbundle bit_operations_syntax

text \<open>
  Loading a program into a core's memory (\<open>parse_elf\<close>, \<open>load_program\<close> of the dashboard server): the
  table of the two ELF classes, the program headers with their checks, the hex image, and the
  halting of the core that owns the window.
\<close>

section \<open>The ELF classes\<close>

record elf_layout =
  el_name :: string
  el_phoff :: "nat \<times> nat"
  el_phnum :: nat
  el_ph :: "nat list"
  el_idx :: "nat \<times> nat \<times> nat \<times> nat \<times> nat"

text \<open>A \<open>struct\<close> format is the list of its field widths; \<open>el_idx\<close> are the positions of type, offset,
  paddr, filesz and memsz.\<close>

definition elf32 :: elf_layout where
  "elf32 = \<lparr> el_name = ''ELF32'', el_phoff = (28, 4), el_phnum = 42,
     el_ph = [4, 4, 4, 4, 4, 4, 4, 4], el_idx = (0, 1, 3, 4, 5) \<rparr>"

definition elf64 :: elf_layout where
  "elf64 = \<lparr> el_name = ''ELF64'', el_phoff = (32, 8), el_phnum = 54,
     el_ph = [4, 4, 8, 8, 8, 8, 8, 8], el_idx = (0, 2, 4, 5, 6) \<rparr>"

definition ELF_CLASS :: "(byte, elf_layout) dict" where
  "ELF_CLASS = [(1, elf32), (2, elf64)]"

definition PT_LOAD :: int where "PT_LOAD = 1"

definition elf_magic :: "byte list" where
  "elf_magic = [0x7F, 0x45, 0x4C, 0x46]"

definition elf_class :: "byte list \<Rightarrow> string option" where
  "elf_class data =
     (if 6 \<le> length data \<and> take 4 data = elf_magic then
        (case dict_get ELF_CLASS (data ! 4) of
           None \<Rightarrow> None
         | Some c \<Rightarrow> if data ! 5 = 1 then Some (el_name c) else None)
      else None)"

section \<open>The segments\<close>

fun struct_fields :: "nat list \<Rightarrow> byte list \<Rightarrow> int list" where
  "struct_fields [] bs = []"
| "struct_fields (w # ws) bs = le_int (take w bs) # struct_fields ws (drop w bs)"

definition unpack_from :: "nat list \<Rightarrow> byte list \<Rightarrow> nat \<Rightarrow> exn + int list" where
  "unpack_from ws data off =
     (if off + sum_list ws \<le> length data then Inr (struct_fields ws (drop off data)) else Inl struct_error)"

text \<open>The layout, \<open>e_phoff\<close>, \<open>e_phentsize\<close> and \<open>e_phnum\<close>.\<close>

definition elf_header :: "byte list \<Rightarrow> exn + elf_layout \<times> int \<times> int \<times> nat" where
  "elf_header data =
     (if take 4 data \<noteq> elf_magic then Inl (value_error ''not an ELF file'')
      else case dict_get ELF_CLASS (if 4 < length data then data ! 4 else 0) of
        None \<Rightarrow> Inl (Exn ValueError ''unknown EI_CLASS'' [])
      | Some c \<Rightarrow>
        if length data \<le> 5 then Inl (Exn IndexError ''index out of range'' [])
        else if data ! 5 \<noteq> 1 then Inl (Exn ValueError ''need little-endian ELF'' [AI (uint (data ! 5))])
        else case unpack_from [snd (el_phoff c)] data (fst (el_phoff c)) of
          Inl e \<Rightarrow> Inl e
        | Inr offs \<Rightarrow>
          (case unpack_from [2, 2] data (el_phnum c) of
             Inl e \<Rightarrow> Inl e
           | Inr ns \<Rightarrow>
             if ns ! 0 < int (sum_list (el_ph c))
             then Inl (Exn ValueError ''e_phentsize'' [AS (el_name c), AI (ns ! 0), AI (int (sum_list (el_ph c)))])
             else Inr (c, offs ! 0, ns ! 0, nat (ns ! 1))))"

text \<open>One program header: nothing to load, or the load address and the bytes.\<close>

definition elf_entry :: "byte list \<Rightarrow> elf_layout \<Rightarrow> int \<Rightarrow> int \<Rightarrow> nat \<Rightarrow> exn + (int \<times> byte list) option" where
  "elf_entry data c phoff entsize i =
     (let off = phoff + int i * entsize in
      if int (length data) < off + int (sum_list (el_ph c))
      then Inl (Exn ValueError ''program header beyond end of file'' [AS (el_name c), AI (int i)])
      else case unpack_from (el_ph c) data (nat off) of
        Inl e \<Rightarrow> Inl e
      | Inr f \<Rightarrow>
        (case el_idx c of (i_type, i_off, i_paddr, i_filesz, i_memsz) \<Rightarrow>
          if f ! i_type \<noteq> PT_LOAD \<or> f ! i_memsz = 0 then Inr None
          else
            let p_off = f ! i_off; p_paddr = f ! i_paddr; p_filesz = f ! i_filesz; p_memsz = f ! i_memsz in
            if p_memsz < p_filesz
            then Inl (Exn ValueError ''p_filesz > p_memsz'' [AS (el_name c), AI (int i), AI p_filesz, AI p_memsz])
            else if int (length data) < p_off + p_filesz
            then Inl (Exn ValueError ''file range beyond end of file''
                   [AS (el_name c), AI (int i), AI p_off, AI p_filesz, AI (int (length data))])
            else Inr (Some (p_paddr, slice data p_off (p_off + p_filesz) @ replicate (nat (p_memsz - p_filesz)) 0))))"

text \<open>A generator: the segments it yields, and the exception that ends it, if any.\<close>

fun elf_segments :: "(nat \<Rightarrow> exn + (int \<times> byte list) option) \<Rightarrow> nat list \<Rightarrow> (int \<times> byte list) list \<times> exn option" where
  "elf_segments f [] = ([], None)"
| "elf_segments f (i # is) =
     (case f i of
        Inl e \<Rightarrow> ([], Some e)
      | Inr None \<Rightarrow> elf_segments f is
      | Inr (Some seg) \<Rightarrow> (case elf_segments f is of (segs, e) \<Rightarrow> (seg # segs, e)))"

definition parse_elf :: "byte list \<Rightarrow> (int \<times> byte list) list \<times> exn option" where
  "parse_elf data =
     (case elf_header data of
        Inl e \<Rightarrow> ([], Some e)
      | Inr (c, phoff, entsize, n) \<Rightarrow> elf_segments (elf_entry data c phoff entsize) [0..<n])"

section \<open>Loading\<close>

text \<open>\<open>re.findall(r"[0-9a-fA-F]{1,8}", ...)\<close>, read in base 16; \<open>n\<close> digits are gathered.\<close>

fun hex_scan :: "nat \<Rightarrow> int \<Rightarrow> string \<Rightarrow> int list" where
  "hex_scan n v [] = (if n = 0 then [] else [v])"
| "hex_scan n v (c # cs) =
     (case digit_of 16 c of
        None \<Rightarrow> if n = 0 then hex_scan 0 0 cs else v # hex_scan 0 0 cs
      | Some d \<Rightarrow> if n = 8 then v # hex_scan 1 d cs else hex_scan (n + 1) (16 * v + d) cs)"

text \<open>\<open>data.decode("ascii", "ignore")\<close>.\<close>

definition ascii_ignore :: "byte list \<Rightarrow> string" where
  "ascii_ignore data = map (\<lambda>b. char_of (unat b)) (filter (\<lambda>b. unat b < 128) data)"

definition hex_words :: "byte list \<Rightarrow> int list" where
  "hex_words data = hex_scan 0 0 (ascii_ignore data)"

definition RAM_SIZE :: "(string, int) dict" where
  "RAM_SIZE = [(''ram'', 0x20000), (''ram1'', 0x10000)]"

definition target_size :: "scenario \<Rightarrow> string \<Rightarrow> int" where
  "target_size sc target = (case dict_get (sc_regions sc) target of
     Some (_, sz) \<Rightarrow> sz | None \<Rightarrow> dict_get_or RAM_SIZE target 0)"

fun load_segs :: "'b dash_bus \<Rightarrow> string \<Rightarrow> int \<Rightarrow> (int \<times> byte list) list \<Rightarrow> ('b, int) act" where
  "load_segs bus target sz [] = ret 0"
| "load_segs bus target sz ((paddr, seg) # segs) =
     (if sz < paddr + int (length seg)
      then raise (Exn ValueError ''segment exceeds RAM'' [AI paddr, AI (int (length seg)), AI (sz div 1024)])
      else andthen (db_write_block bus target paddr seg)
        (bnd (load_segs bus target sz segs) (\<lambda>n. ret (int (length seg) + n))))"

definition load_elf :: "'b dash_bus \<Rightarrow> string \<Rightarrow> int \<Rightarrow> byte list \<Rightarrow> ('b, int) act" where
  "load_elf bus target sz data =
     (case parse_elf data of (segs, e) \<Rightarrow>
        bnd (load_segs bus target sz segs) (\<lambda>n. case e of None \<Rightarrow> ret n | Some x \<Rightarrow> raise x))"

definition load_hex :: "'b dash_bus \<Rightarrow> string \<Rightarrow> int \<Rightarrow> byte list \<Rightarrow> ('b, int) act" where
  "load_hex bus target sz data =
     (let ws = hex_words data in
      if sz < 4 * int (length ws) then raise (Exn ValueError ''hex image exceeds RAM'' [AI (sz div 1024)])
      else andthen (db_write_block bus target 0 (pack_words ws)) (ret (4 * int (length ws))))"

text \<open>The position of the core that gates the window.\<close>

definition core_index :: "scenario \<Rightarrow> core \<Rightarrow> nat" where
  "core_index sc c = (case List.find (\<lambda>(i, d). c_id d = c_id c) (List.enumerate 0 (sc_cores sc)) of
     None \<Rightarrow> 0 | Some (i, _) \<Rightarrow> i)"

text \<open>The bits that hold the window's core.\<close>

definition hold_bits :: "scenario \<Rightarrow> string \<Rightarrow> int" where
  "hold_bits sc target = (case gate_core sc target of
     None \<Rightarrow> cbit sc ''core_run'' | Some c \<Rightarrow> core_run_mask sc c)"

definition halt_and_clear :: "'b dash_bus \<Rightarrow> scenario \<Rightarrow> string \<Rightarrow> ('b, unit) act" where
  "halt_and_clear bus sc target =
     (case co sc ''control'' of
        None \<Rightarrow> raise (Exn TypeError ''control'' [])
      | Some C \<Rightarrow>
        andthen (case gate_core sc target of None \<Rightarrow> ret ()
                 | Some c \<Rightarrow> bnd (set_core_run bus sc (core_index sc c) False) (\<lambda>_. ret ()))
        (bnd (read1 bus ''ctrl'' C) (\<lambda>ctrl.
          let hold = hold_bits sc target; clr = cbit sc ''trace_clear'' in
          andthen (db_write bus ''ctrl'' C ((ctrl AND NOT hold) OR clr))
                  (db_write bus ''ctrl'' C (ctrl AND NOT (hold OR clr))))))"

definition load_program :: "'b dash_bus \<Rightarrow> scenario \<Rightarrow> byte list \<Rightarrow> string \<Rightarrow> ('b, int) act" where
  "load_program bus sc data target =
     andthen (halt_and_clear bus sc target)
     (bnd (if take 4 data = elf_magic then load_elf bus target (target_size sc target) data
           else load_hex bus target (target_size sc target) data) (\<lambda>tot.
      if tot = 0 then raise (value_error ''no loadable data found'') else ret tot))"

section \<open>What a load can touch\<close>

lemma dict_set_twice [simp]: "dict_set k v (dict_set k w d) = dict_set k v d"
  by (induction d) auto

lemma dict_set_same: "dict_get d k = Some v \<Longrightarrow> dict_set k v d = d"
  by (induction d) (auto simp: dict_get_def)

lemma put_bytes_append:
  "q + length xs + length ys \<le> length bs \<Longrightarrow>
     put_bytes (put_bytes bs q xs) (q + length xs) ys = put_bytes bs q (xs @ ys)"
  by (simp add: put_bytes_def ac_simps)

lemma put_bytes_Nil [simp]: "put_bytes bs q [] = bs"
  by (simp add: put_bytes_def)

lemma hw_write_ok:
  assumes "dict_get (hw_maps s) region = Some bs" "q + 4 \<le> length bs" "is_u32 v"
  shows "hw_write region (int q) v s
     = (Inr (), s\<lparr>hw_maps := dict_set region (put_bytes bs q (pack_word v)) (hw_maps s)\<rparr>)"
proof -
  have "v AND 0xFFFFFFFF = v" using assms(3) u32_id [of v] by (simp add: is_u32_def u32_def)
  then show ?thesis
    using assms by (simp add: hw_write_def hw_map_def bnd_def lift_exn_def cell_put_def put32_def buf_pos_nonneg)
qed

lemma hw_write_words:
  assumes "dict_get (hw_maps s) region = Some bs" "p + 4 * (k + length ws) \<le> length bs" "\<forall>w\<in>set ws. is_u32 w"
  shows "for_each (List.enumerate k ws) (\<lambda>(i, w). hw_write region (int p + 4 * int i) w) s
     = (Inr (), s\<lparr>hw_maps := dict_set region (put_bytes bs (p + 4 * k) (pack_words ws)) (hw_maps s)\<rparr>)"
  using assms
proof (induction ws arbitrary: s bs k)
  case Nil
  then show ?case by (simp add: dict_set_same)
next
  case (Cons w ws)
  let ?q = "p + 4 * k" and ?bs = "put_bytes bs (p + 4 * k) (pack_word w)"
  let ?s = "s\<lparr>hw_maps := dict_set region ?bs (hw_maps s)\<rparr>"
  have o: "int p + 4 * int k = int ?q" by simp
  have l: "length ?bs = length bs" using Cons.prems(2) by simp
  have g: "dict_get (hw_maps ?s) region = Some ?bs" by (simp add: dict_get_set)
  have b: "p + 4 * (Suc k + length ws) \<le> length ?bs" unfolding l using Cons.prems(2) by simp
  have w: "hw_write region (int ?q) w s = (Inr (), ?s)"
    using Cons.prems by (intro hw_write_ok) simp_all
  have a: "put_bytes ?bs (p + 4 * Suc k) (pack_words ws) = put_bytes bs ?q (pack_word w @ pack_words ws)"
    using put_bytes_append [of ?q "pack_word w" "pack_words ws" bs] Cons.prems(2) by (simp add: ac_simps)
  note ih = Cons.IH [OF g b, unfolded a]
  show ?case
    using ih Cons.prems(3) by (simp only: enumerate_simps for_each.simps prod.case o andthen_def bnd_def w sum.case) simp
qed

lemma pad4_facts: "4 dvd length (pad4 data)" "length data \<le> length (pad4 data)" "length (pad4 data) \<le> length data + 3"
proof -
  define q m where "q = length data div 4" and "m = length data mod 4"
  have l: "length data = 4 * q + m" "m < 4" by (simp_all add: q_def m_def)
  show "length data \<le> length (pad4 data)" "length (pad4 data) \<le> length data + 3"
    using l(2) unfolding pad4_def m_def [symmetric] by (simp_all, arith+)
  have "length (pad4 data) = (if m = 0 then 4 * q else 4 * (q + 1))"
    using l unfolding pad4_def m_def [symmetric] by (simp split: if_splits)
  then show "4 dvd length (pad4 data)" by simp
qed

text \<open>A block write inside the mapping writes exactly its bytes, padded to whole words.\<close>

lemma hw_write_block_ok:
  assumes "dict_get (hw_maps s) region = Some bs" "p + length (pad4 data) \<le> length bs"
  shows "hw_write_block region (int p) data s
     = (Inr (), s\<lparr>hw_maps := dict_set region (put_bytes bs p (pad4 data)) (hw_maps s)\<rparr>)"
proof -
  have w: "4 * length (unpack_words (pad4 data)) = length (pad4 data)" using pad4_facts(1) [of data] by auto
  have b: "p + 4 * (0 + length (unpack_words (pad4 data))) \<le> length bs" using assms(2) w by simp
  have u: "\<forall>w\<in>set (unpack_words (pad4 data)). is_u32 w" using unpack_words_u32 by blast
  have "for_each (List.enumerate 0 (unpack_words (pad4 data))) (\<lambda>(i, w). hw_write region (int p + 4 * int i) w) s
     = (Inr (), s\<lparr>hw_maps := dict_set region (put_bytes bs p (pad4 data)) (hw_maps s)\<rparr>)"
    using hw_write_words [OF assms(1) b u] unfolding pack_unpack_words [OF pad4_facts(1)] by (simp only: mult_0_right add_0_right)
  then show ?thesis using assms(1) by (simp add: hw_write_block_def hw_map_def bnd_def)
qed

text \<open>A window without the word at an offset.\<close>

definition beside_word :: "int option \<Rightarrow> byte list \<Rightarrow> byte list" where
  "beside_word off bs = (case off of None \<Rightarrow> bs | Some C \<Rightarrow> take (nat C) bs @ drop (nat C + 4) bs)"

text \<open>The machine outside the word CONTROL and the first \<open>lim\<close> bytes of the target.\<close>

definition outside :: "scenario \<Rightarrow> string \<Rightarrow> nat \<Rightarrow> hw \<Rightarrow> (int \<Rightarrow> byte) \<times> (string \<Rightarrow> (nat \<times> byte list) option)" where
  "outside sc target lim s = (hw_phys s, \<lambda>r. map_option (\<lambda>bs. (length bs,
       if r = ''ctrl'' then (if target = ''ctrl'' then [] else beside_word (co sc ''control'') bs)
       else if r = target then drop lim bs else bs)) (dict_get (hw_maps s) r))"

abbreviation keeps_outside :: "scenario \<Rightarrow> string \<Rightarrow> nat \<Rightarrow> hw \<Rightarrow> hw \<Rightarrow> bool" where
  "keeps_outside sc target lim \<equiv> \<lambda>s t. outside sc target lim t = outside sc target lim s"

lemma keeps_outside_po: "reflp (keeps_outside sc target lim)" "transp (keeps_outside sc target lim)"
  by (auto simp: reflp_def transp_def)

lemma beside_word_put: "p + 4 \<le> length bs \<Longrightarrow> length w = 4 \<Longrightarrow> beside_word (Some (int p)) (put_bytes bs p w) = beside_word (Some (int p)) bs"
  by (simp add: beside_word_def put_bytes_def)

lemma hw_write_outside:
  assumes "region = ''ctrl'' \<and> co sc ''control'' = Some off \<or> region = target \<and> 0 \<le> off \<and> off + 4 \<le> int lim"
  shows "frame (keeps_outside sc target lim) (hw_write region off v)"
proof (rule frameI)
  fix s r t assume w: "hw_write region off v s = (r, t)"
  show "outside sc target lim t = outside sc target lim s"
  proof (cases "t = s")
    case False
    with w obtain bs bs' where b: "dict_get (hw_maps s) region = Some bs" "cell_put bs off v = Inr bs'"
      "t = s\<lparr>hw_maps := dict_set region bs' (hw_maps s)\<rparr>"
      by (auto simp: hw_write_def hw_map_def bnd_def lift_exn_def split: option.splits sum.splits)
    obtain q where q: "off = int q" "bs' = put_bytes bs q (pack_word (v AND 0xFFFFFFFF))" "q + 4 \<le> length bs"
      using b(2) by (cases "0 \<le> off") (auto simp: cell_put_def put32_def buf_pos_def Let_def split: if_splits elim: nonneg_int_cases)
    have "length bs' = length bs" using q by simp
    moreover have "beside_word (co sc ''control'') bs' = beside_word (co sc ''control'') bs" if "co sc ''control'' = Some off"
      using that beside_word_put [OF q(3)] by (simp add: q(1,2))
    moreover have "drop lim bs' = drop lim bs" if "off + 4 \<le> int lim"
      using that q by (simp add: put_bytes_def)
    ultimately show ?thesis using b assms by (auto simp: outside_def dict_get_set fun_eq_iff)
  qed simp
qed


lemma frame_case_option [frames]:
  "(x = None \<Longrightarrow> frame R m) \<Longrightarrow> (\<And>y. x = Some y \<Longrightarrow> frame R (f y)) \<Longrightarrow> frame R (case x of None \<Rightarrow> m | Some y \<Rightarrow> f y)"
  by (cases x) simp_all

lemma frame_case_list [frames]:
  "(xs = [] \<Longrightarrow> frame R m) \<Longrightarrow> (\<And>y ys. xs = y # ys \<Longrightarrow> frame R (f y ys)) \<Longrightarrow> frame R (case xs of [] \<Rightarrow> m | y # ys \<Rightarrow> f y ys)"
  by (cases xs) simp_all

lemma reads_read1: "reads (read1 hw_bus region off)"
  by (auto simp: reads_def frame_def read1_def hw_bus_def hw_read_def hw_map_def bnd_def lift_exn_def
      split: option.splits sum.splits)

lemma hw_ctrl_write: "co sc ''control'' = Some off \<Longrightarrow> frame (keeps_outside sc target lim) (db_write hw_bus ''ctrl'' off v)"
  unfolding hw_bus_def by (simp add: hw_write_outside)

lemmas load_frames = frames keeps_outside_po hw_ctrl_write reads_frame [OF reads_read1 keeps_outside_po(1)]

lemma set_core_run_outside: "frame (keeps_outside sc target lim) (set_core_run hw_bus sc idx run)"
  unfolding set_core_run_def prod.case Let_def by (intro load_frames) (assumption | rule refl)+

lemma halt_outside: "frame (keeps_outside sc target lim) (halt_and_clear hw_bus sc region)"
  unfolding halt_and_clear_def Let_def by (intro load_frames set_core_run_outside) (assumption | rule refl)+

lemma struct_fields_nonneg: "\<forall>v\<in>set (struct_fields ws bs). 0 \<le> v"
  by (induction ws bs rule: struct_fields.induct) auto

lemma length_struct_fields [simp]: "length (struct_fields ws bs) = length ws"
  by (induction ws bs rule: struct_fields.induct) auto

lemma ELF_CLASS_cases: "dict_get ELF_CLASS b = Some c \<Longrightarrow> b = 1 \<and> c = elf32 \<or> b = 2 \<and> c = elf64"
  by (auto simp: ELF_CLASS_def dict_get_def split: if_splits)

lemma elf_header_layout: "elf_header data = Inr (c, h) \<Longrightarrow> c = elf32 \<or> c = elf64"
  by (auto simp: elf_header_def split: if_splits option.splits sum.splits dest: ELF_CLASS_cases)

lemma elf_entry_addr:
  assumes "elf_entry data c phoff entsize i = Inr (Some (p, seg))" "c = elf32 \<or> c = elf64"
  shows "0 \<le> p"
proof -
  obtain f where f: "unpack_from (el_ph c) data (nat (phoff + int i * entsize)) = Inr f"
    using assms(1) by (auto simp: elf_entry_def Let_def split: if_splits sum.splits)
  then have v: "\<forall>v\<in>set f. 0 \<le> v" "length f = length (el_ph c)"
    using struct_fields_nonneg by (auto simp: unpack_from_def split: if_splits)
  have "p = f ! (fst (snd (snd (el_idx c))))"
    using assms(1) f by (auto simp: elf_entry_def Let_def split: if_splits prod.splits)
  moreover have "fst (snd (snd (el_idx c))) < length f"
    using v(2) assms(2) by (auto simp: elf32_def elf64_def)
  ultimately show ?thesis using v(1) by simp
qed

lemma elf_segments_set: "x \<in> set (fst (elf_segments f is)) \<Longrightarrow> \<exists>i\<in>set is. f i = Inr (Some x)"
  by (induction "is") (auto split: sum.splits option.splits prod.splits)

lemma parse_elf_addr: "(p, seg) \<in> set (fst (parse_elf data)) \<Longrightarrow> 0 \<le> p"
  by (auto simp: parse_elf_def split: sum.splits dest!: elf_segments_set elf_entry_addr elf_header_layout)



section \<open>A load that succeeds\<close>

text \<open>CONTROL exists and every CTRL register of the scenario lies in the mapped window.\<close>

definition ctrl_ready :: "scenario \<Rightarrow> hw \<Rightarrow> bool" where
  "ctrl_ready sc s \<longleftrightarrow> co sc ''control'' \<noteq> None \<and>
     (case dict_get (hw_maps s) ''ctrl'' of None \<Rightarrow> False
      | Some bs \<Rightarrow> list_all (\<lambda>(n, off). 0 \<le> off \<and> off + 4 \<le> int (length bs)) (sc_ctrl sc))"

lemma ctrl_readyD:
  assumes "ctrl_ready sc s" "co sc n = Some off"
  obtains bs where "dict_get (hw_maps s) ''ctrl'' = Some bs" "0 \<le> off" "off + 4 \<le> int (length bs)"
  using assms map_of_SomeD [of "sc_ctrl sc" n off]
  by (fastforce simp: ctrl_ready_def co_def dict_get_def list_all_iff split: option.splits)

lemma ctrl_read_ok:
  assumes "ctrl_ready sc s" "co sc n = Some off"
  shows "\<exists>v. read1 hw_bus ''ctrl'' off s = (Inr v, s)"
proof -
  obtain bs where bs: "dict_get (hw_maps s) ''ctrl'' = Some bs" "0 \<le> off" "off + 4 \<le> int (length bs)"
    using ctrl_readyD [OF assms] .
  have "db_read hw_bus ''ctrl'' (int (nat off)) 1 s = (Inr (unpack_words (take (4 * 1) (drop (nat off) bs))), s)"
    using hw_read_words [OF bs(1), of "nat off" 1] bs by (simp add: hw_bus_def)
  moreover have "length (take (4 * 1) (drop (nat off) bs)) = 4" using bs by simp
  then have "unpack_words (take (4 * 1) (drop (nat off) bs)) = [le_int (take (4 * 1) (drop (nat off) bs))]"
    using unpack_words_append4 [of "take (4 * 1) (drop (nat off) bs)" "[]"] by simp
  ultimately show ?thesis using read1_ok bs(2) by fastforce
qed

lemma ctrl_write_ok:
  assumes "ctrl_ready sc s" "co sc n = Some off"
  shows "\<exists>t. db_write hw_bus ''ctrl'' off v s = (Inr (), t) \<and> ctrl_ready sc t \<and> ctrl_holds sc t n (u32 v)"
proof -
  obtain bs where bs: "dict_get (hw_maps s) ''ctrl'' = Some bs" "0 \<le> off" "off + 4 \<le> int (length bs)"
    using ctrl_readyD [OF assms] .
  let ?bs = "put_bytes bs (nat off) (pack_word (u32 v))"
  let ?t = "s\<lparr>hw_maps := dict_set ''ctrl'' ?bs (hw_maps s)\<rparr>"
  have p: "put32 bs off (u32 v) = Inr ?bs" "nat off + 4 \<le> length bs"
    using bs by (simp_all add: put32_def buf_pos_def Let_def)
  have l: "length ?bs = length bs" "get32 ?bs off = Inr (u32 v)"
    using get32_put32_same [OF p(1)] by simp_all
  have "db_write hw_bus ''ctrl'' off v s = (Inr (), ?t)"
    using bs p by (simp add: hw_bus_def hw_write_def hw_map_def bnd_def lift_exn_def cell_put_def flip: u32_def)
  moreover have "ctrl_ready sc ?t"
    using assms(1) bs(1) by (simp add: ctrl_ready_def dict_get_set l del: length_put_bytes)
  moreover have "ctrl_holds sc ?t n (u32 v)"
    using assms(2) bs l by (simp add: ctrl_holds_def dict_get_set cell_get_def del: length_put_bytes)
  ultimately show ?thesis by blast
qed

lemma set_core_run_hw_ok:
  assumes "ctrl_ready sc s" "idx < length (sc_cores sc)"
  shows "\<exists>x t. set_core_run hw_bus sc idx run s = (Inr x, t) \<and> ctrl_ready sc t"
proof -
  obtain C where C: "co sc ''control'' = Some C" using assms(1) by (auto simp: ctrl_ready_def)
  obtain ctrl where r: "read1 hw_bus ''ctrl'' C s = (Inr ctrl, s)" using ctrl_read_ok [OF assms(1) C] by blast
  define eff where "eff = (map (core_running sc ctrl) (sc_cores sc))[idx := run]"
  obtain t where t: "db_write hw_bus ''ctrl'' C (new_control sc eff ctrl AND 0xFFFFFFFF) s = (Inr (), t)" "ctrl_ready sc t"
    using ctrl_write_ok [OF assms(1) C] by blast
  obtain u where u: "db_write hw_bus ''ctrl'' C (ctrl AND 0xFFFFFFFF) t = (Inr (), u)" "ctrl_ready sc u"
    using ctrl_write_ok [OF t(2) C] by blast
  note sd = set_core_run_def C option.case bnd_def r prod.case sum.case if_not_P [OF leD] not_le [symmetric]
  show ?thesis
  proof (cases "co sc ''status''")
    case None
    then show ?thesis
      using C r t assms(2) by (simp add: set_core_run_def bnd_def andthen_def Let_def flip: eff_def)
  next
    case (Some so)
    obtain st where st: "read1 hw_bus ''ctrl'' so t = (Inr st, t)" using ctrl_read_ok [OF t(2) Some] by blast
    show ?thesis
      using C r t u Some st assms(2)
      by (cases "want_mirror sc eff")
         (simp_all add: set_core_run_def bnd_def andthen_def Let_def flip: eff_def)
  qed
qed

lemma core_index_less: "gate_core sc target = Some c \<Longrightarrow> core_index sc c < length (sc_cores sc)"
proof -
  assume "gate_core sc target = Some c"
  then have c: "c \<in> set (sc_cores sc)"
    by (auto simp: gate_core_def find_Some_iff split: option.splits)
  let ?f = "List.find (\<lambda>(i, d). c_id d = c_id c) (List.enumerate 0 (sc_cores sc))"
  have "?f \<noteq> None"
  proof
    assume "?f = None"
    then have "\<forall>x\<in>set (List.enumerate 0 (sc_cores sc)). c_id (snd x) \<noteq> c_id c"
      by (auto simp: find_None_iff split: prod.splits)
    moreover have "c \<in> snd ` set (List.enumerate 0 (sc_cores sc))" using c by (simp flip: set_map)
    ultimately show False by auto
  qed
  then obtain i d where f: "?f = Some (i, d)" by auto
  then have "i < length (sc_cores sc)" by (auto simp: find_Some_iff nth_enumerate_eq)
  with f show ?thesis by (simp add: core_index_def)
qed

lemma halt_ok:
  assumes "ctrl_ready sc s"
  shows "\<exists>t v. halt_and_clear hw_bus sc target s = (Inr (), t) \<and> ctrl_holds sc t ''control'' v \<and>
     v AND (hold_bits sc target OR cbit sc ''trace_clear'') = 0"
proof -
  obtain C where C: "co sc ''control'' = Some C" using assms(1) by (auto simp: ctrl_ready_def)
  let ?halt = "case gate_core sc target of None \<Rightarrow> ret ()
     | Some c \<Rightarrow> bnd (set_core_run hw_bus sc (core_index sc c) False) (\<lambda>_. ret ())"
  have "\<exists>s1. ?halt s = (Inr (), s1) \<and> ctrl_ready sc s1"
  proof (cases "gate_core sc target")
    case (Some c)
    then show ?thesis
      using set_core_run_hw_ok [OF assms core_index_less [OF Some], of False] by (auto simp: bnd_def)
  qed (use assms in simp)
  then obtain s1 where s1: "?halt s = (Inr (), s1)" "ctrl_ready sc s1" by blast
  obtain ctrl where r: "read1 hw_bus ''ctrl'' C s1 = (Inr ctrl, s1)" using ctrl_read_ok [OF s1(2) C] by blast
  let ?hold = "hold_bits sc target" and ?clr = "cbit sc ''trace_clear''"
  obtain s2 where s2: "db_write hw_bus ''ctrl'' C ((ctrl AND NOT ?hold) OR ?clr) s1 = (Inr (), s2)" "ctrl_ready sc s2"
    using ctrl_write_ok [OF s1(2) C] by blast
  obtain t where t: "db_write hw_bus ''ctrl'' C (ctrl AND NOT (?hold OR ?clr)) s2 = (Inr (), t)"
      "ctrl_holds sc t ''control'' (u32 (ctrl AND NOT (?hold OR ?clr)))"
    using ctrl_write_ok [OF s2(2) C] by blast
  have "halt_and_clear hw_bus sc target s = (Inr (), t)"
    unfolding halt_and_clear_def C option.case Let_def
    by (simp only: andthen_def bnd_def s1(1) r s2(1) t(1) prod.case sum.case)
  moreover have "u32 (ctrl AND NOT (?hold OR ?clr)) AND (?hold OR ?clr) = 0"
    by (rule bit_eqI) (auto simp: u32_take_bit bit_take_bit_iff bit_and_iff bit_not_iff bit_or_iff)
  ultimately show ?thesis using t(2) by blast
qed

text \<open>The memory after the segments: each is laid over what was there, padded to whole words.\<close>

definition overlay :: "byte list \<Rightarrow> (int \<times> byte list) list \<Rightarrow> byte list" where
  "overlay img segs = fold (\<lambda>(p, seg) im. put_bytes im (nat p) (pad4 seg)) segs img"

definition segs_fit :: "int \<Rightarrow> byte list \<Rightarrow> (int \<times> byte list) list \<Rightarrow> bool" where
  "segs_fit sz img segs \<longleftrightarrow>
     list_all (\<lambda>(p, seg). p + int (length seg) \<le> sz \<and> p + int (length (pad4 seg)) \<le> int (length img)) segs"

lemma load_segs_ok:
  assumes "dict_get (hw_maps s) target = Some img" "segs_fit sz img segs" "\<forall>(p, seg)\<in>set segs. 0 \<le> p"
  shows "load_segs hw_bus target sz segs s = (Inr (sum_list (map (\<lambda>(_, seg). int (length seg)) segs)),
     s\<lparr>hw_maps := dict_set target (overlay img segs) (hw_maps s)\<rparr>)"
  using assms
proof (induction segs arbitrary: s img)
  case Nil
  then show ?case by (simp add: overlay_def dict_set_same)
next
  case (Cons x segs)
  obtain p seg where x: "x = (p, seg)" by fastforce
  have p: "0 \<le> p" "p + int (length seg) \<le> sz" "p + int (length (pad4 seg)) \<le> int (length img)"
    using Cons.prems(2,3) by (auto simp: x segs_fit_def)
  let ?img = "put_bytes img (nat p) (pad4 seg)"
  let ?s = "s\<lparr>hw_maps := dict_set target ?img (hw_maps s)\<rparr>"
  have b: "nat p + length (pad4 seg) \<le> length img" using p by linarith
  have w: "db_write_block hw_bus target p seg s = (Inr (), ?s)"
    using hw_write_block_ok [OF Cons.prems(1) b] p(1) by (simp add: hw_bus_def)
  have "load_segs hw_bus target sz segs ?s = (Inr (sum_list (map (\<lambda>(_, seg). int (length seg)) segs)),
     ?s\<lparr>hw_maps := dict_set target (overlay ?img segs) (hw_maps ?s)\<rparr>)"
    using Cons.prems(2,3) b by (intro Cons.IH) (auto simp: dict_get_set segs_fit_def)
  then show ?case using p(2) w by (simp add: x andthen_def bnd_def overlay_def)
qed

text \<open>What the memory should hold: the byte the last segment at an address gives it, and the padding.\<close>

fun seg_byte :: "(int \<times> byte list) list \<Rightarrow> int \<Rightarrow> byte option" where
  "seg_byte [] a = None"
| "seg_byte ((p, seg) # segs) a = (case seg_byte segs a of
     Some b \<Rightarrow> Some b
   | None \<Rightarrow> if p \<le> a \<and> a < p + int (length seg) then Some (seg ! nat (a - p)) else None)"

definition in_pad :: "int \<times> byte list \<Rightarrow> int \<Rightarrow> bool" where
  "in_pad = (\<lambda>(p, seg) a. p + int (length seg) \<le> a \<and> a < p + int (length (pad4 seg)))"

definition padded :: "(int \<times> byte list) list \<Rightarrow> int \<Rightarrow> bool" where
  "padded segs a \<longleftrightarrow> list_ex (\<lambda>s. in_pad s a) segs"

text \<open>No padding of a later segment reaches into an earlier one.\<close>

fun pads_apart :: "(int \<times> byte list) list \<Rightarrow> bool" where
  "pads_apart [] \<longleftrightarrow> True"
| "pads_apart ((p, seg) # segs) \<longleftrightarrow> pads_apart segs \<and>
     list_all (\<lambda>(q, s). length (pad4 s) = length s \<or> p + int (length seg) \<le> q + int (length s) \<or> q + int (length (pad4 s)) \<le> p) segs"

lemma overlay_bytes:
  assumes "segs_fit sz img segs" "\<forall>(p, seg)\<in>set segs. 0 \<le> p" "pads_apart segs"
  shows "length (overlay img segs) = length img \<and>
     (\<forall>a<length img. overlay img segs ! a = (case seg_byte segs (int a) of
        Some b \<Rightarrow> b | None \<Rightarrow> if padded segs (int a) then 0 else img ! a))"
  using assms
proof (induction segs arbitrary: img)
  case (Cons x segs)
  obtain p seg where x: "x = (int p, seg)" using Cons.prems(2) by (cases x) (auto elim: nonneg_int_cases)
  let ?img = "put_bytes img p (pad4 seg)"
  have l: "p + length (pad4 seg) \<le> length img" using Cons.prems(1) by (simp add: x segs_fit_def flip: of_nat_add)
  then have len: "length ?img = length img" by simp
  have put: "?img ! a = (if p \<le> a \<and> a < p + length (pad4 seg) then pad4 seg ! (a - p) else img ! a)" if "a < length img" for a
    using l that by (auto simp: put_bytes_def nth_append)
  have pad: "pad4 seg ! i = (if i < length seg then seg ! i else 0)" if "i < length (pad4 seg)" for i
    using that by (auto simp: pad4_def nth_append)
  have ih: "length (overlay ?img segs) = length img \<and> (\<forall>a<length img. overlay ?img segs ! a =
      (case seg_byte segs (int a) of Some b \<Rightarrow> b | None \<Rightarrow> if padded segs (int a) then 0 else ?img ! a))"
    using Cons.IH [of ?img] Cons.prems by (simp add: x segs_fit_def len)
  have apart: "\<not> padded segs (int a)" if "p \<le> a" "a < p + length seg" for a
    using Cons.prems(3) that by (fastforce simp: x padded_def list_ex_iff list_all_iff in_pad_def)
  have "overlay img (x # segs) ! a = (case seg_byte (x # segs) (int a) of
      Some b \<Rightarrow> b | None \<Rightarrow> if padded (x # segs) (int a) then 0 else img ! a)" if a: "a < length img" for a
  proof -
    have o: "overlay img (x # segs) = overlay ?img segs" by (simp add: overlay_def x)
    have "nat (int a - int p) = a - p" by simp
    then show ?thesis
      using ih put [OF a] pad [of "a - p"] apart [of a] a pad4_facts(2) [of seg] unfolding o
      by (auto simp: x padded_def in_pad_def split: option.splits)
  qed
  moreover have "length (overlay img (x # segs)) = length img" using ih by (simp add: overlay_def x)
  ultimately show ?case by blast
qed (simp add: overlay_def padded_def)

lemma parse_elf_magic: "parse_elf data = (segs, None) \<Longrightarrow> take 4 data = elf_magic"
  by (auto simp: parse_elf_def elf_header_def split: sum.splits if_splits)

lemma load_elf_ok:
  assumes "parse_elf data = (segs, None)" "dict_get (hw_maps s) target = Some img" "segs_fit sz img segs"
  shows "load_elf hw_bus target sz data s = (Inr (sum_list (map (\<lambda>(_, seg). int (length seg)) segs)),
     s\<lparr>hw_maps := dict_set target (overlay img segs) (hw_maps s)\<rparr>)"
proof -
  have "\<forall>(p, seg)\<in>set segs. 0 \<le> p" using parse_elf_addr [of _ _ data] assms(1) by auto
  then show ?thesis using load_segs_ok [OF assms(2,3)] assms(1) by (simp add: load_elf_def bnd_def)
qed

section \<open>Writing an ELF file\<close>

text \<open>The little-endian bytes of a field.\<close>

fun int_bytes :: "nat \<Rightarrow> int \<Rightarrow> byte list" where
  "int_bytes 0 v = []"
| "int_bytes (Suc n) v = word_of_int v # int_bytes n (v div 256)"

lemma length_int_bytes [simp]: "length (int_bytes n v) = n"
  by (induction n arbitrary: v) auto

lemma le_int_bytes: "le_int (int_bytes n v) = v mod 256 ^ n"
  by (induction n arbitrary: v) (simp_all add: uint_word_of_int zmod_zmult2_eq)

definition struct_pack :: "nat list \<Rightarrow> int list \<Rightarrow> byte list" where
  "struct_pack ws vs = concat (map2 int_bytes ws vs)"

lemma length_struct_pack [simp]: "length vs = length ws \<Longrightarrow> length (struct_pack ws vs) = sum_list ws"
  by (induction ws vs rule: list_induct2') (auto simp: struct_pack_def)

lemma struct_fields_pack:
  "length vs = length ws \<Longrightarrow> struct_fields ws (struct_pack ws vs @ rest) = map2 (\<lambda>w v. v mod 256 ^ w) ws vs"
  by (induction ws vs rule: list_induct2') (auto simp: struct_pack_def le_int_bytes)

lemma unpack_pack:
  assumes "length vs = length ws" "data = pre @ struct_pack ws vs @ rest" "off = length pre"
  shows "unpack_from ws data off = Inr (map2 (\<lambda>w v. v mod 256 ^ w) ws vs)"
  using assms by (simp add: unpack_from_def struct_fields_pack)

text \<open>
  A writer after the ELF specification (Elf32/Elf64 \<open>Ehdr\<close> and \<open>Phdr\<close>), independent of the table of the
  reader: the file header, the program headers behind it, and the bytes of the segments. The fields the
  loader has no use for may hold anything.
\<close>

record elf_meta =
  em_type :: int
  em_machine :: int
  em_entry :: int
  em_shoff :: int
  em_flags :: int
  em_shentsize :: int
  em_shnum :: int
  em_shstrndx :: int

record prog_seg =
  sg_type :: int
  sg_flags :: int
  sg_vaddr :: int
  sg_paddr :: int
  sg_data :: "byte list"
  sg_memsz :: int
  sg_align :: int

definition ehdr_size :: "bool \<Rightarrow> nat" where
  "ehdr_size wide = (if wide then 64 else 52)"

definition phdr_size :: "bool \<Rightarrow> nat" where
  "phdr_size wide = (if wide then 56 else 32)"

definition elf_ident :: "bool \<Rightarrow> byte list" where
  "elf_ident wide = [0x7F, 0x45, 0x4C, 0x46, if wide then 2 else 1, 1, 1, 0, 0, 0, 0, 0, 0, 0, 0, 0]"

definition ehdr :: "bool \<Rightarrow> elf_meta \<Rightarrow> nat \<Rightarrow> byte list" where
  "ehdr wide m n = (let addr = (if wide then 8 else 4) in
     elf_ident wide @ int_bytes 2 (em_type m) @ int_bytes 2 (em_machine m) @ int_bytes 4 1
       @ int_bytes addr (em_entry m) @ int_bytes addr (int (ehdr_size wide)) @ int_bytes addr (em_shoff m)
       @ int_bytes 4 (em_flags m) @ int_bytes 2 (int (ehdr_size wide))
       @ int_bytes 2 (int (phdr_size wide)) @ int_bytes 2 (int n)
       @ int_bytes 2 (em_shentsize m) @ int_bytes 2 (em_shnum m) @ int_bytes 2 (em_shstrndx m))"

definition phdr :: "bool \<Rightarrow> nat \<Rightarrow> prog_seg \<Rightarrow> byte list" where
  "phdr wide off s =
     (if wide then int_bytes 4 (sg_type s) @ int_bytes 4 (sg_flags s) @ int_bytes 8 (int off) @ int_bytes 8 (sg_vaddr s)
        @ int_bytes 8 (sg_paddr s) @ int_bytes 8 (int (length (sg_data s))) @ int_bytes 8 (sg_memsz s) @ int_bytes 8 (sg_align s)
      else int_bytes 4 (sg_type s) @ int_bytes 4 (int off) @ int_bytes 4 (sg_vaddr s) @ int_bytes 4 (sg_paddr s)
        @ int_bytes 4 (int (length (sg_data s))) @ int_bytes 4 (sg_memsz s) @ int_bytes 4 (sg_flags s) @ int_bytes 4 (sg_align s))"

fun phdrs :: "bool \<Rightarrow> nat \<Rightarrow> prog_seg list \<Rightarrow> byte list" where
  "phdrs wide off [] = []"
| "phdrs wide off (s # ss) = phdr wide off s @ phdrs wide (off + length (sg_data s)) ss"

definition elf_file :: "bool \<Rightarrow> elf_meta \<Rightarrow> prog_seg list \<Rightarrow> byte list" where
  "elf_file wide m ss = ehdr wide m (length ss)
     @ phdrs wide (ehdr_size wide + length ss * phdr_size wide) ss @ concat (map sg_data ss)"

text \<open>A segment of type 1 (\<open>PT_LOAD\<close>) with memory is loaded: its file bytes, and zeros up to its size in memory.\<close>

definition loadable :: "prog_seg \<Rightarrow> bool" where
  "loadable s \<longleftrightarrow> sg_type s = 1 \<and> sg_memsz s \<noteq> 0"

definition seg_image :: "prog_seg \<Rightarrow> int \<times> byte list" where
  "seg_image s = (sg_paddr s, sg_data s @ replicate (nat (sg_memsz s) - length (sg_data s)) 0)"

text \<open>The numbers the loader reads fit their fields, and the file bytes fit the memory.\<close>

definition seg_ok :: "bool \<Rightarrow> prog_seg \<Rightarrow> bool" where
  "seg_ok wide s \<longleftrightarrow> (let top = (if wide then 2 ^ 64 else 2 ^ 32) in
     0 \<le> sg_type s \<and> sg_type s < 2 ^ 32 \<and> 0 \<le> sg_memsz s \<and> sg_memsz s < top \<and>
     (loadable s \<longrightarrow> 0 \<le> sg_paddr s \<and> sg_paddr s < top \<and> int (length (sg_data s)) \<le> sg_memsz s))"

section \<open>The reader undoes the writer\<close>

definition class_of :: "bool \<Rightarrow> elf_layout" where
  "class_of wide = (if wide then elf64 else elf32)"

lemma length_ehdr [simp]: "length (ehdr wide m n) = ehdr_size wide"
  by (simp add: ehdr_def elf_ident_def ehdr_size_def Let_def)

lemma length_phdr [simp]: "length (phdr wide off s) = phdr_size wide"
  by (simp add: phdr_def phdr_size_def)

lemma length_phdrs [simp]: "length (phdrs wide off ss) = length ss * phdr_size wide"
  by (induction wide off ss rule: phdrs.induct) simp_all

lemma header_size: "sum_list (el_ph (class_of wide)) = phdr_size wide"
  by (simp add: class_of_def elf32_def elf64_def phdr_size_def)

lemma elf_header_written:
  assumes "n < 65536"
  shows "elf_header (ehdr wide m n @ rest) = Inr (class_of wide, int (ehdr_size wide), int (phdr_size wide), n)"
proof -
  let ?data = "ehdr wide m n @ rest" and ?addr = "if wide then 8 else (4 :: nat)"
  let ?a = "elf_ident wide @ int_bytes 2 (em_type m) @ int_bytes 2 (em_machine m) @ int_bytes 4 1 @ int_bytes ?addr (em_entry m)"
  let ?b = "int_bytes ?addr (em_shoff m) @ int_bytes 4 (em_flags m) @ int_bytes 2 (int (ehdr_size wide))"
  let ?c = "int_bytes 2 (em_shentsize m) @ int_bytes 2 (em_shnum m) @ int_bytes 2 (em_shstrndx m)"
  have p: "unpack_from [snd (el_phoff (class_of wide))] ?data (fst (el_phoff (class_of wide))) = Inr [int (ehdr_size wide)]"
    by (subst unpack_pack [of "[int (ehdr_size wide)]" _ _ ?a "?b @ int_bytes 2 (int (phdr_size wide)) @ int_bytes 2 (int n) @ ?c @ rest"])
       (simp_all add: class_of_def elf32_def elf64_def struct_pack_def ehdr_def Let_def elf_ident_def ehdr_size_def)
  have q: "unpack_from [2, 2] ?data (el_phnum (class_of wide)) = Inr [int (phdr_size wide), int n]"
    by (subst unpack_pack [of "[int (phdr_size wide), int n]" _ _ "?a @ int_bytes ?addr (int (ehdr_size wide)) @ ?b" "?c @ rest"])
       (use assms in \<open>simp_all add: class_of_def elf32_def elf64_def struct_pack_def ehdr_def Let_def elf_ident_def phdr_size_def\<close>)
  have "take 4 ?data = elf_magic" "?data ! 4 = (if wide then 2 else 1)" "?data ! 5 = 1" "5 < length ?data"
    by (simp_all add: ehdr_def elf_ident_def elf_magic_def Let_def)
  moreover have "dict_get ELF_CLASS (if wide then 2 else 1) = Some (class_of wide)"
    by (simp add: ELF_CLASS_def dict_get_def class_of_def)
  ultimately show ?thesis using p q by (simp add: elf_header_def header_size del: append_assoc)
qed

lemma phdr_read:
  assumes "data = pre @ phdr wide off s @ rest" "at = length pre" "seg_ok wide s" "int (length data) < (if wide then 2 ^ 64 else 2 ^ 32)"
    and "off + length (sg_data s) \<le> length data" "el_idx (class_of wide) = (i_type, i_off, i_paddr, i_filesz, i_memsz)"
  shows "\<exists>f. unpack_from (el_ph (class_of wide)) data at = Inr f \<and> f ! i_type = sg_type s \<and> f ! i_memsz = sg_memsz s \<and>
     f ! i_off = int off \<and> f ! i_filesz = int (length (sg_data s)) \<and> (loadable s \<longrightarrow> f ! i_paddr = sg_paddr s)"
proof -
  let ?n = "int (length (sg_data s))"
  have small: "int off < (if wide then 2 ^ 64 else 2 ^ 32)" "?n < (if wide then 2 ^ 64 else 2 ^ 32)" using assms(4,5) by linarith+
  show ?thesis
  proof (cases wide)
    case True
    have "unpack_from (el_ph (class_of wide)) data at = Inr (map2 (\<lambda>w v. v mod 256 ^ w) [4, 4, 8, 8, 8, 8, 8, 8]
        [sg_type s, sg_flags s, int off, sg_vaddr s, sg_paddr s, ?n, sg_memsz s, sg_align s])"
      using True assms(1,2) unpack_pack [of "[sg_type s, sg_flags s, int off, sg_vaddr s, sg_paddr s, ?n, sg_memsz s, sg_align s]"
          "[4, 4, 8, 8, 8, 8, 8, 8]" data pre rest "at"]
      by (simp add: class_of_def elf64_def struct_pack_def phdr_def)
    then show ?thesis using True assms(3,6) small by (auto simp: class_of_def elf64_def seg_ok_def Let_def)
  next
    case False
    have "unpack_from (el_ph (class_of wide)) data at = Inr (map2 (\<lambda>w v. v mod 256 ^ w) [4, 4, 4, 4, 4, 4, 4, 4]
        [sg_type s, int off, sg_vaddr s, sg_paddr s, ?n, sg_memsz s, sg_flags s, sg_align s])"
      using False assms(1,2) unpack_pack [of "[sg_type s, int off, sg_vaddr s, sg_paddr s, ?n, sg_memsz s, sg_flags s, sg_align s]"
          "[4, 4, 4, 4, 4, 4, 4, 4]" data pre rest "at"]
      by (simp add: class_of_def elf32_def struct_pack_def phdr_def)
    then show ?thesis using False assms(3,6) small by (auto simp: class_of_def elf32_def seg_ok_def Let_def)
  qed
qed

lemma elf_entry_written:
  assumes "seg_ok wide s" "int (length data) < (if wide then 2 ^ 64 else 2 ^ 32)"
    and "data = pre @ phdr wide off s @ rest" "length pre = hs + i * phdr_size wide"
    and "data = pre2 @ sg_data s @ rest2" "off = length pre2"
  shows "elf_entry data (class_of wide) (int hs) (int (phdr_size wide)) i
     = Inr (if loadable s then Some (seg_image s) else None)"
proof -
  obtain i_type i_off i_paddr i_filesz i_memsz where idx: "el_idx (class_of wide) = (i_type, i_off, i_paddr, i_filesz, i_memsz)"
    by (metis prod_cases5)
  have o: "nat (int hs + int i * int (phdr_size wide)) = length pre" "length pre + phdr_size wide \<le> length data"
    using assms(3,4) by (simp_all add: nat_add_distrib nat_mult_distrib)
  have g: "\<not> int (length data) < int hs + int i * int (phdr_size wide) + int (phdr_size wide)"
    using o(2) assms(4) by (metis not_le of_nat_add of_nat_le_iff of_nat_mult)
  have l: "off + length (sg_data s) \<le> length data" using assms(5,6) by simp
  obtain f where f: "unpack_from (el_ph (class_of wide)) data (length pre) = Inr f" "f ! i_type = sg_type s"
    "f ! i_memsz = sg_memsz s" "f ! i_off = int off" "f ! i_filesz = int (length (sg_data s))" "loadable s \<Longrightarrow> f ! i_paddr = sg_paddr s"
    using phdr_read [OF assms(3) refl assms(1,2) l idx] by blast
  have sl: "slice data (int off) (int off + int (length (sg_data s))) = sg_data s"
    using assms(5,6) by (simp add: slice_def nat_add_distrib)
  show ?thesis
  proof (cases "loadable s")
    case True
    moreover from this have "int (length (sg_data s)) \<le> sg_memsz s" using assms(1) by (simp add: seg_ok_def Let_def)
    ultimately show ?thesis
      using f g sl l unfolding elf_entry_def Let_def header_size o(1) idx
      by (simp add: loadable_def PT_LOAD_def seg_image_def nat_diff_distrib)
  next
    case False
    then show ?thesis
      using f g unfolding elf_entry_def Let_def header_size o(1) idx by (auto simp: loadable_def PT_LOAD_def)
  qed
qed

lemma elf_segments_written:
  assumes "list_all (seg_ok wide) ss" "int (length data) < (if wide then 2 ^ 64 else 2 ^ 32)"
    and "data = pre @ phdrs wide (length pre2) ss @ rest" "length pre = hs + k * phdr_size wide"
    and "data = pre2 @ concat (map sg_data ss)"
  shows "elf_segments (elf_entry data (class_of wide) (int hs) (int (phdr_size wide))) [k..<k + length ss]
     = (map seg_image (filter loadable ss), None)"
  using assms(1,3-)
proof (induction ss arbitrary: pre pre2 k)
  case (Cons s ss)
  have e: "elf_entry data (class_of wide) (int hs) (int (phdr_size wide)) k = Inr (if loadable s then Some (seg_image s) else None)"
    by (rule elf_entry_written [where pre = pre and ?pre2.0 = pre2 and ?rest2.0 = "concat (map sg_data ss)"
          and rest = "phdrs wide (length pre2 + length (sg_data s)) ss @ rest"])
       (use Cons.prems assms(2) in simp_all)
  have "elf_segments (elf_entry data (class_of wide) (int hs) (int (phdr_size wide))) [Suc k..<Suc k + length ss]
     = (map seg_image (filter loadable ss), None)"
    by (rule Cons.IH [where pre = "pre @ phdr wide (length pre2) s" and ?pre2.0 = "pre2 @ sg_data s"])
       (use Cons.prems in simp_all)
  moreover have "[k..<k + length (s # ss)] = k # [Suc k..<Suc k + length ss]"
    by (simp add: upt_conv_Cons del: upt_Suc)
  ultimately show ?case using e by (simp del: upt_Suc)
qed simp

section \<open>Properties\<close>

text \<open>C6: 
  Reading back a file written as the ELF specification lays it out, in either class and with anything in
  the fields the loader does not use, yields its loadable segments, in order, with the memory beyond the
  file bytes cleared, and no error; a segment of another type, or without memory, is passed over.
\<close>

theorem elf_roundtrip:
  assumes "list_all (seg_ok wide) ss" "length ss < 65536"
    and "int (length (elf_file wide m ss)) < (if wide then 2 ^ 64 else 2 ^ 32)"
  shows "parse_elf (elf_file wide m ss) = (map seg_image (filter loadable ss), None)"
proof -
  let ?off = "ehdr_size wide + length ss * phdr_size wide"
  have "elf_segments (elf_entry (elf_file wide m ss) (class_of wide) (int (ehdr_size wide)) (int (phdr_size wide))) [0..<0 + length ss]
     = (map seg_image (filter loadable ss), None)"
    by (rule elf_segments_written [OF assms(1,3), where pre = "ehdr wide m (length ss)"
          and ?pre2.0 = "ehdr wide m (length ss) @ phdrs wide ?off ss"])
       (simp_all add: elf_file_def)
  then show ?thesis by (simp add: parse_elf_def elf_file_def elf_header_written [OF assms(2)])
qed

text \<open>A note between two segments, the first with cleared memory behind its bytes.\<close>

definition some_meta :: elf_meta where
  "some_meta = \<lparr> em_type = 2, em_machine = 243, em_entry = 0x80000000, em_shoff = 0, em_flags = 5,
     em_shentsize = 0, em_shnum = 0, em_shstrndx = 0 \<rparr>"

definition load_seg :: "int \<Rightarrow> byte list \<Rightarrow> int \<Rightarrow> prog_seg" where
  "load_seg p bs n = \<lparr> sg_type = 1, sg_flags = 7, sg_vaddr = p + 0x1000, sg_paddr = p, sg_data = bs, sg_memsz = n, sg_align = 4 \<rparr>"

definition note_seg :: prog_seg where
  "note_seg = (load_seg 0 [9, 9] 2)\<lparr>sg_type := 4\<rparr>"

lemma elf_roundtrip_witness:
  "parse_elf (elf_file True some_meta [load_seg 0x80000000 [1, 2, 3] 5, note_seg, load_seg 0x100000000 [7] 1])
     = ([(0x80000000, [1, 2, 3, 0, 0]), (0x100000000, [7])], None)"
proof -
  let ?ss = "[load_seg 0x80000000 [1, 2, 3] 5, note_seg, load_seg 0x100000000 [7] 1]"
  have a: "list_all (seg_ok True) ?ss" "length ?ss < 65536"
    by (simp_all add: seg_ok_def load_seg_def note_seg_def)
  have i: "map seg_image (filter loadable ?ss) = [(0x80000000, [1, 2, 3, 0, 0]), (0x100000000, [7])]"
    by (simp add: seg_image_def loadable_def load_seg_def note_seg_def eval_nat_numeral(2,3))
  have "int (length (elf_file True some_meta ?ss)) < 2 ^ 64"
    by (simp add: elf_file_def ehdr_size_def phdr_size_def load_seg_def note_seg_def)
  then show ?thesis using elf_roundtrip [of True ?ss some_meta] a i by simp
qed


text \<open>C19: 
  An ELF image whose segments fit is loaded exactly: every byte of a segment is in the target, at its
  address, with the later segment winning where two overlap, as long as no padding of a later segment
  reaches into an earlier one; the padding is zero and every other byte is as before. The count of bytes is
  returned, and CONTROL is left with the core of the window halted and the clear pulse released.
\<close>

theorem load_program_exact:
  assumes "parse_elf data = (segs, None)" "ctrl_ready sc s" "target \<noteq> ''ctrl''"
    and "dict_get (hw_maps s) target = Some img" "segs_fit (target_size sc target) img segs" "pads_apart segs"
    and "sum_list (map (\<lambda>(_, seg). int (length seg)) segs) \<noteq> 0"
  shows "\<exists>t v mem. load_program hw_bus sc data target s = (Inr (sum_list (map (\<lambda>(_, seg). int (length seg)) segs)), t) \<and>
     dict_get (hw_maps t) target = Some mem \<and> length mem = length img \<and>
     (\<forall>a<length img. mem ! a = (case seg_byte segs (int a) of
        Some b \<Rightarrow> b | None \<Rightarrow> if padded segs (int a) then 0 else img ! a)) \<and>
     ctrl_holds sc t ''control'' v \<and> v AND (hold_bits sc target OR cbit sc ''trace_clear'') = 0"
proof -
  obtain u v where u: "halt_and_clear hw_bus sc target s = (Inr (), u)" "ctrl_holds sc u ''control'' v"
      "v AND (hold_bits sc target OR cbit sc ''trace_clear'') = 0"
    using halt_ok [OF assms(2)] by blast
  have "outside sc target 0 u = outside sc target 0 s" by (rule frameD [OF halt_outside u(1)])
  then have "dict_get (hw_maps u) target = Some img"
    using assms(3,4) by (auto simp: outside_def fun_eq_iff dest!: spec [of _ target] split: if_splits)
  note l = load_elf_ok [OF assms(1) this assms(5)]
  let ?t = "u\<lparr>hw_maps := dict_set target (overlay img segs) (hw_maps u)\<rparr>"
  have "load_program hw_bus sc data target s = (Inr (sum_list (map (\<lambda>(_, seg). int (length seg)) segs)), ?t)"
    using assms(7) parse_elf_magic [OF assms(1)]
    by (simp add: load_program_def andthen_def bnd_def u(1) l)
  moreover have "dict_get (hw_maps ?t) target = Some (overlay img segs)" by (simp add: dict_get_set)
  moreover have "ctrl_holds sc ?t ''control'' v" using u(2) assms(3) by (simp add: ctrl_holds_def dict_get_set)
  moreover have "\<forall>(p, seg)\<in>set segs. 0 \<le> p" using parse_elf_addr [of _ _ data] assms(1) by auto
  ultimately show ?thesis using u(3) overlay_bytes [OF assms(5) _ assms(6)] by blast
qed

text \<open>A machine with a 16-byte memory and CONTROL in the first word of CTRL.\<close>

definition load_sc :: scenario where
  "load_sc = mini_sc\<lparr> sc_regions := [(''ram'', (0, 16))], sc_ctrl := [(''control'', 0)],
     sc_control_bits := [(''core_run'', 0), (''trace_clear'', 1)] \<rparr>"

definition load_hw :: hw where
  "load_hw = \<lparr> hw_maps = [(''ctrl'', pack_words [0xFF, 0x77]), (''ram'', replicate 16 0xEE)], hw_phys = (\<lambda>_. 0) \<rparr>"

definition load_elf_data :: "byte list" where
  "load_elf_data = elf_file False some_meta [load_seg 4 [1, 2, 3, 4, 5] 5, load_seg 12 [9] 4]"

lemma load_elf_data_segs: "parse_elf load_elf_data = ([(4, [1, 2, 3, 4, 5]), (12, [9, 0, 0, 0])], None)"
  unfolding load_elf_data_def by code_simp

lemma load_sc_ready: "ctrl_ready load_sc load_hw" "dict_get (hw_maps load_hw) ''ram'' = Some (replicate 16 0xEE)"
  "segs_fit (target_size load_sc ''ram'') (replicate 16 0xEE) [(4, [1, 2, 3, 4, 5]), (12, [9, 0, 0, 0])]"
  by code_simp+

lemma load_program_exact_witness:
  "\<exists>t mem. load_program hw_bus load_sc load_elf_data ''ram'' load_hw = (Inr 9, t) \<and>
     dict_get (hw_maps t) ''ram'' = Some mem \<and> mem ! 3 = 0xEE \<and> mem ! 4 = 1 \<and> mem ! 8 = 5 \<and> mem ! 9 = 0 \<and> mem ! 12 = 9"
proof -
  let ?segs = "[(4, [1, 2, 3, 4, 5]), (12, [9, 0, 0, 0])] :: (int \<times> byte list) list"
  have p: "pads_apart ?segs" "\<not> padded ?segs 3" "padded ?segs 9" "seg_byte ?segs 3 = None" "seg_byte ?segs 4 = Some 1"
    "seg_byte ?segs 8 = Some 5" "seg_byte ?segs 9 = None" "seg_byte ?segs 12 = Some 9"
    by code_simp+
  obtain t mem where t: "load_program hw_bus load_sc load_elf_data ''ram'' load_hw = (Inr 9, t)"
      "dict_get (hw_maps t) ''ram'' = Some mem"
      "\<forall>a<16. mem ! a = (case seg_byte ?segs (int a) of Some b \<Rightarrow> b
         | None \<Rightarrow> if padded ?segs (int a) then 0 else replicate 16 0xEE ! a)"
    using load_program_exact [OF load_elf_data_segs load_sc_ready(1) _ load_sc_ready(2,3) p(1)] by fastforce
  have "mem ! 3 = 0xEE" "mem ! 4 = 1" "mem ! 8 = 5" "mem ! 9 = 0" "mem ! 12 = 9"
    using t(3) [rule_format, of 3] t(3) [rule_format, of 4] t(3) [rule_format, of 8] t(3) [rule_format, of 9]
      t(3) [rule_format, of 12] p by simp_all
  with t(1,2) show ?thesis by blast
qed


text \<open>
  The padding of a block to whole words writes up to three bytes beyond a segment: a segment that
  ends right before one loaded earlier clears the first bytes of that one.
\<close>

lemma padding_clobbers:
  "parse_elf (elf_file False some_meta [load_seg 4 [1, 2, 3, 4] 4, load_seg 2 [7, 8] 2]) = ([(4, [1, 2, 3, 4]), (2, [7, 8])], None) \<and>
   overlay (replicate 8 0xEE) [(4, [1, 2, 3, 4]), (2, [7, 8])] = [0xEE, 0xEE, 7, 8, 0, 0, 3, 4]"
  by code_simp

end
