(* ===== verification/Bus_Log.thy ===== *)
theory Bus_Log
  imports Dash_Bus Frames
begin

text \<open>
  A bus under watch: \<open>log_bus\<close> passes every access to a bus and keeps the writes in their order, failed ones
  included. A routine runs on it unchanged, so what it writes, how often and in which order can be stated;
  the final state alone cannot show a word that is written twice or a pulse that has ended.
\<close>

datatype bus_write =
    Word_Write string int int
  | Block_Write string int "byte list"

definition log_bus :: "'b dash_bus \<Rightarrow> (bus_write list \<times> 'b) dash_bus" where
  "log_bus bus =
     \<lparr> db_read = (\<lambda>r off n (l, s). case db_read bus r off n s of (q, t) \<Rightarrow> (q, (l, t))),
       db_write = (\<lambda>r off v (l, s). case db_write bus r off v s of (q, t) \<Rightarrow> (q, (l @ [Word_Write r off v], t))),
       db_write_block = (\<lambda>r off bs (l, s). case db_write_block bus r off bs s of
          (q, t) \<Rightarrow> (q, (l @ [Block_Write r off bs], t))),
       db_demo = db_demo bus \<rparr>"

lemma log_bus_simps [simp]:
  "db_demo (log_bus bus) = db_demo bus"
  "db_read (log_bus bus) r off n (l, s) = (fst (db_read bus r off n s), (l, snd (db_read bus r off n s)))"
  "db_write (log_bus bus) r off v (l, s) = (fst (db_write bus r off v s), (l @ [Word_Write r off v], snd (db_write bus r off v s)))"
  by (simp_all add: log_bus_def split_beta)

lemma read1_log: "read1 (log_bus bus) r off (l, s) = (fst (read1 bus r off s), (l, snd (read1 bus r off s)))"
  by (simp add: read1_def bnd_def split_beta split: sum.splits list.splits)

lemma reads_log: "reads (read1 bus r off) \<Longrightarrow> reads (read1 (log_bus bus) r off)"
  by (auto simp: reads_def frame_def read1_log) (metis prod.collapse)

end
