(* ===== verification/Trace_Sinks.thy ===== *)
theory Trace_Sinks
  imports Elf_Load Bus_Log
begin

unbundle bit_operations_syntax

text \<open>
  Arming the trace sinks (\<open>resmem_ranges\<close>, \<open>ddr_window_ok\<close>, \<open>_ps_reg\<close>, \<open>ensure_afifm_32bit\<close>,
  \<open>ensure_afifm3_64bit\<close>, \<open>arm_default_sinks\<close>) and the choice of the decoder's listing
  (\<open>pcinfo_path\<close>) of the dashboard server. What arming writes is stated on a watched bus. The device tree and the files are inputs; a message is
  its leading text with the values formatted into it.
\<close>

type_synonym report_text = "string \<times> fmt_arg list"

section \<open>The reserved memory\<close>

text \<open>A node's \<open>reg\<close> property: no such file, a file that cannot be read, or its bytes.\<close>

datatype reg_file = No_File | Unreadable | Reg_Bytes "byte list"

text \<open>\<open>/proc/device-tree/reserved-memory\<close>; \<open>None\<close>: the host has no such directory, or no such file.\<close>

record dev_tree =
  dt_acells :: "byte list option"
  dt_scells :: "byte list option"
  dt_nodes :: "(string, reg_file) dict"

definition cells :: "byte list option \<Rightarrow> nat \<Rightarrow> nat" where
  "cells f dflt = (case f of None \<Rightarrow> dflt | Some bs \<Rightarrow> nat (be_int (take 4 bs)))"

definition node_ranges :: "nat \<Rightarrow> nat \<Rightarrow> string \<Rightarrow> byte list \<Rightarrow> (int \<times> int \<times> string) list" where
  "node_ranges ac sc name bs =
     (let n = 4 * (ac + sc) in
      map (\<lambda>k. (be_int (take (4 * ac) (drop (k * n) bs)),
                be_int (take (n - 4 * ac) (drop (k * n + 4 * ac) bs)), name))
        [0..<length bs div n])"

text \<open>A property of no cells makes the step of the \<open>range\<close> zero.\<close>

fun tree_ranges :: "nat \<Rightarrow> nat \<Rightarrow> (string \<times> reg_file) list \<Rightarrow> exn + (int \<times> int \<times> string) list" where
  "tree_ranges ac sc [] = Inr []"
| "tree_ranges ac sc ((name, Reg_Bytes bs) # ns) =
     (if ac + sc = 0 then Inl (Exn ValueError ''range() arg 3 must not be zero'' [])
      else case tree_ranges ac sc ns of Inl e \<Rightarrow> Inl e | Inr rs \<Rightarrow> Inr (node_ranges ac sc name bs @ rs))"
| "tree_ranges ac sc ((_, _) # ns) = tree_ranges ac sc ns"

definition sorted_nodes :: "(string, reg_file) dict \<Rightarrow> (string \<times> reg_file) list" where
  "sorted_nodes d = map (\<lambda>k. (k, dict_get_or d k No_File)) (sorted_strs (map fst d))"

definition resmem_ranges :: "dev_tree option \<Rightarrow> exn + (int \<times> int \<times> string) list" where
  "resmem_ranges dt = (case dt of None \<Rightarrow> Inr []
     | Some d \<Rightarrow> tree_ranges (cells (dt_acells d) 2) (cells (dt_scells d) 2) (sorted_nodes (dt_nodes d)))"

definition ddr_window_ok :: "dev_tree option \<Rightarrow> int \<Rightarrow> int \<Rightarrow> exn + (bool \<times> report_text)" where
  "ddr_window_ok dt base sz =
     (if sz = 0 then Inr (False, (''DDR_SIZE reads 0'', []))
      else case resmem_ranges dt of
        Inl e \<Rightarrow> Inl e
      | Inr [] \<Rightarrow> Inr (False, (''no reserved-memory on this host'', []))
      | Inr (r # rs) \<Rightarrow>
         (case List.find (\<lambda>(rb, rsz, _). rb \<le> base \<and> base + sz \<le> rb + rsz) (r # rs) of
            Some (rb, rsz, name) \<Rightarrow> Inr (True, (''inside reserved'', [AI base, AI sz, AS name, AI rb, AI rsz]))
          | None \<Rightarrow> Inr (False, (''NOT inside any reserved-memory window'', [AI base, AI sz]))))"

section \<open>PS registers\<close>

text \<open>One 32-bit register through a mapping of its page; \<open>dev\<close>: \<open>/dev/mem\<close> can be opened.\<close>

definition ps_reg :: "bool \<Rightarrow> int \<Rightarrow> int option \<Rightarrow> (hw, int) act" where
  "ps_reg dev addr value =
     (if \<not> dev then raise (Exn OSError ''/dev/mem'' [])
      else bnd get_state (\<lambda>s.
        let page = addr AND NOT 0xFFF; off = addr - page; m = phys_bytes (hw_phys s) page 0x1000 in
        case value of
          None \<Rightarrow> lift_exn (cell_get m off)
        | Some v \<Rightarrow> bnd (lift_exn (cell_put m off v)) (\<lambda>m'.
            andthen (modify (\<lambda>s. s\<lparr>hw_phys := (\<lambda>a. if page \<le> a \<and> a < page + 0x1000
                                                   then m' ! nat (a - page) else hw_phys s a)\<rparr>))
            (lift_exn (cell_get m' off)))))"

definition phys_read32 :: "bool \<Rightarrow> int \<Rightarrow> (hw, int) act" where
  "phys_read32 dev addr = ps_reg dev addr None"

definition phys_write32 :: "bool \<Rightarrow> int \<Rightarrow> int \<Rightarrow> (hw, int) act" where
  "phys_write32 dev addr v = ps_reg dev addr (Some v)"

definition AFIFM2_RDCTRL :: int where "AFIFM2_RDCTRL = 0xFD380000"
definition AFIFM2_WRCTRL :: int where "AFIFM2_WRCTRL = 0xFD380014"
definition AFIFM3_RDCTRL :: int where "AFIFM3_RDCTRL = 0xFD390000"
definition AFIFM3_WRCTRL :: int where "AFIFM3_WRCTRL = 0xFD390014"
definition AFIFM_WIDTH_32 :: int where "AFIFM_WIDTH_32 = 2"
definition AFIFM_WIDTH_64 :: int where "AFIFM_WIDTH_64 = 1"

record cmd_step =
  cs_cmd :: string
  cs_rc :: int
  cs_out :: report_text

text \<open>An exception of the access ends the step with its report.\<close>

definition or_report :: "('s, 'a) act \<Rightarrow> cmd_step \<Rightarrow> ('a \<Rightarrow> ('s, cmd_step) act) \<Rightarrow> ('s, cmd_step) act" where
  "or_report m rep k s = (case m s of (Inl _, t) \<Rightarrow> (Inr rep, t) | (Inr x, t) \<Rightarrow> k x t)"

definition with_width :: "int \<Rightarrow> int \<Rightarrow> int" where
  "with_width w v = (v AND NOT 3) OR w"

definition is_width :: "int \<Rightarrow> int \<Rightarrow> int \<Rightarrow> bool" where
  "is_width w rd wr \<longleftrightarrow> rd AND 3 = w \<and> wr AND 3 = w"

definition ensure_width :: "string \<Rightarrow> int \<Rightarrow> int \<Rightarrow> int \<Rightarrow> bool \<Rightarrow> (hw, cmd_step) act" where
  "ensure_width cmd rdreg wrreg w dev =
     or_report (bnd (phys_read32 dev rdreg) (\<lambda>rd. bnd (phys_read32 dev wrreg) (\<lambda>wr. ret (rd, wr))))
       \<lparr> cs_cmd = cmd, cs_rc = 1, cs_out = (''cannot read'', []) \<rparr> (\<lambda>(rd, wr).
     if is_width w rd wr
     then ret \<lparr> cs_cmd = cmd, cs_rc = 0, cs_out = (''already'', [AI rd, AI wr]) \<rparr>
     else
       or_report
         (andthen (phys_write32 dev rdreg (with_width w rd))
         (andthen (phys_write32 dev wrreg (with_width w wr))
         (bnd (phys_read32 dev rdreg) (\<lambda>rd2. bnd (phys_read32 dev wrreg) (\<lambda>wr2. ret (rd2, wr2))))))
         \<lparr> cs_cmd = cmd, cs_rc = 1, cs_out = (''cannot write'', []) \<rparr> (\<lambda>(rd2, wr2).
       ret \<lparr> cs_cmd = cmd, cs_rc = (if is_width w rd2 wr2 then 0 else 1),
             cs_out = (''set'', [AI rd, AI rd2, AI wr, AI wr2]) \<rparr>))"

definition ensure_afifm_32bit :: "bool \<Rightarrow> (hw, cmd_step) act" where
  "ensure_afifm_32bit = ensure_width ''afifm2'' AFIFM2_RDCTRL AFIFM2_WRCTRL AFIFM_WIDTH_32"

definition ensure_afifm3_64bit :: "bool \<Rightarrow> (hw, cmd_step) act" where
  "ensure_afifm3_64bit = ensure_width ''afifm3'' AFIFM3_RDCTRL AFIFM3_WRCTRL AFIFM_WIDTH_64"

section \<open>The sink defaults of a scenario\<close>

definition SINK_BITS :: "(string, nat) dict" where
  "SINK_BITS = [(''ddr_en'', 0), (''ddr_circ'', 2), (''uram_oneshot'', 3), (''pib_en'', 4)]"

definition SINK_PULSE_MASK :: int where "SINK_PULSE_MASK = 0x22"

record arm_report =
  ar_state :: report_text
  ar_before :: "int option"
  ar_window :: "report_text option"
  ar_after :: "int option"
  ar_requested :: "int option"
  ar_wrote :: bool

definition arm_note :: "string \<Rightarrow> fmt_arg list \<Rightarrow> arm_report" where
  "arm_note t xs = \<lparr> ar_state = (t, xs), ar_before = None, ar_window = None, ar_after = None,
     ar_requested = None, ar_wrote = False \<rparr>"

text \<open>The register with the wanted bits set or cleared, and no pulse bit.\<close>

definition sink_value :: "(string, bool) dict \<Rightarrow> int \<Rightarrow> int" where
  "sink_value want cur = fold (\<lambda>(k, v) new.
       let m = push_bit (dict_get_or SINK_BITS k 0) 1 in if v then new OR m else new AND NOT m)
     want (cur AND NOT SINK_PULSE_MASK)"

definition reg_or_0 :: "'b dash_bus \<Rightarrow> scenario \<Rightarrow> string \<Rightarrow> ('b, int) act" where
  "reg_or_0 bus sc name = (case co sc name of None \<Rightarrow> ret 0 | Some off \<Rightarrow> read1 bus ''ctrl'' off)"

text \<open>The verdict on the window when the DDR sink is wanted on the live bus.\<close>

definition window_check :: "'b dash_bus \<Rightarrow> scenario \<Rightarrow> dev_tree option \<Rightarrow> (string, bool) dict \<Rightarrow> ('b, (bool \<times> report_text) option) act" where
  "window_check bus sc dt want =
     (if dict_get want ''ddr_en'' = Some True \<and> \<not> db_demo bus then
        bnd (reg_or_0 bus sc ''ddr_base'') (\<lambda>base.
        bnd (reg_or_0 bus sc ''ddr_size'') (\<lambda>sz.
        bnd (lift_exn (ddr_window_ok dt base sz)) (\<lambda>v. ret (Some v))))
      else ret None)"

definition arm_write :: "'b dash_bus \<Rightarrow> int \<Rightarrow> int \<Rightarrow> int \<Rightarrow> report_text option \<Rightarrow> ('b, arm_report) act" where
  "arm_write bus off cur new win =
     andthen (db_write bus ''ctrl'' off new)
     (bnd (read1 bus ''ctrl'' off) (\<lambda>back.
        ret \<lparr> ar_state = (if back \<noteq> new then (''readback differs'', [AI back, AI new]) else (''armed'', [])),
              ar_before = Some cur, ar_window = win, ar_after = Some back, ar_requested = Some new, ar_wrote = True \<rparr>))"

definition arm_default_sinks :: "'b dash_bus \<Rightarrow> scenario \<Rightarrow> dev_tree option \<Rightarrow> ('b, arm_report) act" where
  "arm_default_sinks bus sc dt =
     (let want = opt_or (sd_sink_defaults (sc_raw sc)) [] in
      if want = [] then ret (arm_note ''no sink_defaults for scenario'' [AS (sc_id sc)])
      else case co sc ''sink_ctrl'' of
        None \<Rightarrow> ret (arm_note ''scenario has no SINK_CTRL register'' [AS (sc_id sc)])
      | Some off \<Rightarrow>
        let unknown = filter (\<lambda>k. dict_get SINK_BITS k = None) (map fst want) in
        if unknown \<noteq> [] then ret (arm_note ''unknown sink_defaults key(s)'' (map AS unknown))
        else bnd (handle (bnd (read1 bus ''ctrl'' off) (\<lambda>v. ret (Some v))) (\<lambda>_. ret None)) (\<lambda>r. case r of
          None \<Rightarrow> ret (arm_note ''SINK_CTRL not readable'' [])
        | Some cur \<Rightarrow>
          bnd (window_check bus sc dt want) (\<lambda>win.
          let rep = (arm_note [] [])\<lparr> ar_before := Some cur, ar_window := map_option snd win \<rparr> in
          case win of
            Some (False, why) \<Rightarrow> ret (rep\<lparr>ar_state := (''refused'', AS (fst why) # snd why)\<rparr>)
          | _ \<Rightarrow>
            let new = sink_value want cur in
            if new = cur then ret (rep\<lparr>ar_state := (''already armed'', [])\<rparr>)
            else arm_write bus off cur new (map_option snd win))))"

section \<open>The listing for the decoder\<close>

text \<open>The names under which a listing is looked for.\<close>

datatype pcinfo_file =
    Scen_Live string int | Src_Live int | Scen_File string int | Src_File int
  | Cli_File string | Demo_File string | Here_File string

definition demo_listing :: "scenario \<Rightarrow> int \<Rightarrow> bool \<Rightarrow> string" where
  "demo_listing sc t live =
     fold (\<lambda>tg cur. if td_id tg = t
         then (if live \<and> truthy_str (td_live_pcinfo tg) then the (td_live_pcinfo tg) else opt_or (td_pcinfo tg) [])
         else cur)
       (case sd_decode (sc_raw sc) of None \<Rightarrow> [] | Some d \<Rightarrow> opt_or (dd_targets d) []) []"

definition pcinfo_path :: "(int, string) dict \<Rightarrow> (pcinfo_file \<Rightarrow> bool) \<Rightarrow> int \<Rightarrow> scenario \<Rightarrow> bool \<Rightarrow> pcinfo_file option" where
  "pcinfo_path cli is_file t sc live =
     (let demo = demo_listing sc t live in
      List.find is_file
        ((if live then [Scen_Live (sc_id sc) t, Src_Live t] else [])
         @ [Scen_File (sc_id sc) t, Src_File t]
         @ (case dict_get cli t of None \<Rightarrow> [] | Some p \<Rightarrow> if p = [] then [] else [Cli_File p])
         @ (if demo = [] then [] else [Demo_File demo, Here_File demo])))"

section \<open>Words in physical memory\<close>

definition word32 :: "hw \<Rightarrow> int \<Rightarrow> int" where
  "word32 s a = le_int (phys_bytes (hw_phys s) a 4)"

definition set_word32 :: "int \<Rightarrow> int \<Rightarrow> hw \<Rightarrow> hw" where
  "set_word32 a v s = s\<lparr>hw_phys := (\<lambda>x. if a \<le> x \<and> x < a + 4 then pack_word v ! nat (x - a) else hw_phys s x)\<rparr>"

lemma phys_bytes_slice:
  "0 \<le> off \<Longrightarrow> off + n \<le> m \<Longrightarrow> 0 \<le> n \<Longrightarrow> take (nat n) (drop (nat off) (phys_bytes f a m)) = phys_bytes f (a + off) n"
  by (rule nth_equalityI) (auto simp: nth_phys_bytes algebra_simps)

lemma phys_bytes_set_word:
  "phys_bytes (hw_phys (set_word32 a v s)) a 4 = pack_word v"
  by (rule nth_equalityI) (auto simp: nth_phys_bytes set_word32_def)

lemma word32_set_word: "is_u32 v \<Longrightarrow> word32 (set_word32 a v s) a = v"
  by (simp add: word32_def phys_bytes_set_word le_int_pack_word)

lemma word32_set_other: "b + 4 \<le> a \<or> a + 4 \<le> b \<Longrightarrow> word32 (set_word32 a v s) b = word32 s b"
  by (auto simp: word32_def phys_bytes_def set_word32_def intro!: arg_cong [where f = le_int])

lemma word32_u32: "is_u32 (word32 s a)"
  using le_int_bounds [of "phys_bytes (hw_phys s) a 4"] by (simp add: word32_def is_u32_def)

lemma page_split: "(a :: int) AND NOT 0xFFF = a - a mod 4096" "0 \<le> a mod 4096"
  by (simp_all only: and_not_FFF pos_mod_sign)

lemma ps_read_ok:
  assumes "a mod 4096 + 4 \<le> 4096"
  shows "ps_reg True a None s = (Inr (word32 s a), s)"
proof -
  define off where "off = a mod 4096"
  have o: "0 \<le> off" "off + 4 \<le> 4096" "a AND NOT 0xFFF = a - off" using assms page_split by (simp_all add: off_def)
  have "get32 (phys_bytes (hw_phys s) (a - off) 4096) off = Inr (word32 s a)"
    using o phys_bytes_slice [of off 4 4096 "hw_phys s" "a - off"]
    by (simp add: get32_def buf_pos_def word32_def)
  then show ?thesis
    using o by (simp add: ps_reg_def bnd_def lift_exn_def cell_get_def)
qed

lemma ps_write_ok:
  assumes "a mod 4096 + 4 \<le> 4096"
  shows "ps_reg True a (Some v) s = (Inr (u32 v), set_word32 a (u32 v) s)"
proof -
  define off where "off = a mod 4096"
  have o: "0 \<le> off" "off + 4 \<le> 4096" "a AND NOT 0xFFF = a - off" using assms page_split by (simp_all add: off_def)
  let ?m = "phys_bytes (hw_phys s) (a - off) 4096"
  let ?m' = "put_bytes ?m (nat off) (pack_word (u32 v))"
  have p: "put32 ?m off (u32 v) = Inr ?m'" using o by (simp add: put32_def buf_pos_def)
  have g: "get32 ?m' off = Inr (u32 v)" "length ?m' = 4096" using get32_put32_same [OF p] by simp_all
  have n: "?m' ! nat (x - (a - off)) = (if a \<le> x \<and> x < a + 4 then pack_word (u32 v) ! nat (x - a) else hw_phys s x)"
    if "a - off \<le> x" "x < a - off + 4096" for x
  proof -
    have k: "nat (x - (a - off)) < 4096" "nat off + 4 \<le> 4096" using that o by linarith+
    have "nat (x - (a - off)) = nat off + nat (x - a)" if "a \<le> x" using that o by linarith
    then show ?thesis
      using k that o by (auto simp: put_bytes_def nth_append nth_phys_bytes)
  qed
  have "(\<lambda>x. if a - off \<le> x \<and> x < a - off + 4096 then ?m' ! nat (x - (a - off)) else hw_phys s x)
      = (\<lambda>x. if a \<le> x \<and> x < a + 4 then pack_word (u32 v) ! nat (x - a) else hw_phys s x)"
    using n o by (auto simp: fun_eq_iff)
  then show ?thesis
    using o p g by (simp add: ps_reg_def bnd_def andthen_def lift_exn_def cell_put_def cell_get_def set_word32_def
        Let_def flip: u32_def)
qed

lemma bit_3: "bit (3 :: int) i \<longleftrightarrow> i < 2"
  using bit_ones [of 2 i] by simp

lemma bit_not_3: "bit (- 4 :: int) i \<longleftrightarrow> \<not> i < 2"
  using bit_3 [of i] bit_not_iff [of "3 :: int" i] by simp

lemma with_width_facts:
  assumes "0 \<le> w" "w < 4"
  shows "with_width w v AND 3 = w" "with_width w v AND NOT 3 = v AND NOT 3" "is_u32 v \<Longrightarrow> is_u32 (with_width w v)"
proof -
  have b: "bit w i \<Longrightarrow> i < 2" for i
    using assms by (metis bit_take_bit_iff take_bit_int_eq_self_iff power2_eq_square numeral_times_numeral semiring_norm(12,13,15) mult_2)
  show "with_width w v AND 3 = w" "with_width w v AND NOT 3 = v AND NOT 3"
    by (rule bit_eqI; use b in \<open>auto simp: with_width_def bit_and_iff bit_or_iff bit_3 bit_not_3\<close>)+
  assume "is_u32 v"
  then have "take_bit 32 v = v" by (simp add: is_u32_def take_bit_int_eq_self_iff)
  then have "bit v i \<Longrightarrow> i < 32" for i by (metis bit_take_bit_iff)
  then have "take_bit 32 (with_width w v) = with_width w v"
    by (intro bit_eqI, subst bit_take_bit_iff) (auto simp: with_width_def bit_and_iff bit_or_iff dest: b)
  then show "is_u32 (with_width w v)"
    by (metis is_u32_u32 u32_take_bit)
qed

text \<open>The registers are whole words of their pages and do not overlap.\<close>

lemma ensure_width_ok:
  assumes "0 \<le> w" "w < 4" "rdreg mod 4096 + 4 \<le> 4096" "wrreg mod 4096 + 4 \<le> 4096" "rdreg + 4 \<le> wrreg"
  shows "\<exists>r t. ensure_width cmd rdreg wrreg w True s = (Inr r, t) \<and> cs_rc r = 0 \<and>
     word32 t rdreg = with_width w (word32 s rdreg) \<and> word32 t wrreg = with_width w (word32 s wrreg) \<and>
     hw_maps t = hw_maps s \<and>
     (\<forall>x. \<not> (rdreg \<le> x \<and> x < rdreg + 4) \<and> \<not> (wrreg \<le> x \<and> x < wrreg + 4) \<longrightarrow> hw_phys t x = hw_phys s x)"
proof -
  let ?rd = "word32 s rdreg" and ?wr = "word32 s wrreg"
  note rw = ps_read_ok [OF assms(3)] ps_read_ok [OF assms(4)] ps_write_ok [OF assms(3)] ps_write_ok [OF assms(4)]
  note wf = with_width_facts [OF assms(1,2)]
  show ?thesis
  proof (cases "is_width w ?rd ?wr")
    case True
    have "with_width w x = x" if "x AND 3 = w" for x
      unfolding that [symmetric] by (rule bit_eqI) (auto simp: with_width_def bit_and_iff bit_or_iff bit_3 bit_not_3)
    with True have "with_width w ?rd = ?rd" "with_width w ?wr = ?wr" by (simp_all add: is_width_def)
    then show ?thesis
      using True by (simp add: ensure_width_def or_report_def phys_read32_def bnd_def rw)
  next
    case False
    let ?s1 = "set_word32 rdreg (with_width w ?rd) s"
    let ?t = "set_word32 wrreg (with_width w ?wr) ?s1"
    have u: "u32 (with_width w ?rd) = with_width w ?rd" "u32 (with_width w ?wr) = with_width w ?wr"
      using wf(3) [OF word32_u32] by (simp_all add: is_u32_def)
    have v: "word32 ?t rdreg = with_width w ?rd" "word32 ?t wrreg = with_width w ?wr"
      using wf(3) [OF word32_u32] assms(5) by (simp_all add: word32_set_word word32_set_other)
    have "ensure_width cmd rdreg wrreg w True s
        = (Inr \<lparr> cs_cmd = cmd, cs_rc = 0, cs_out = (''set'', [AI ?rd, AI (with_width w ?rd), AI ?wr, AI (with_width w ?wr)]) \<rparr>, ?t)"
      using False by (simp add: ensure_width_def or_report_def phys_read32_def phys_write32_def bnd_def andthen_def rw u v
          is_width_def wf)
    then show ?thesis using v by (auto simp: set_word32_def)
  qed
qed

section \<open>The sink register\<close>

lemma SINK_BITS_range: "dict_get_or SINK_BITS k 0 < 5"
  by (simp add: SINK_BITS_def dict_get_or_def)

text \<open>The last entry for a bit decides; the pulse bits are never set.\<close>

definition last_entry :: "(string, bool) dict \<Rightarrow> nat \<Rightarrow> bool option" where
  "last_entry want i = map_option snd (List.find (\<lambda>(k, _). dict_get_or SINK_BITS k 0 = i) (rev want))"

lemma bit_sink_fold:
  "bit (fold (\<lambda>(k, v) new. let m = push_bit (dict_get_or SINK_BITS k 0) 1 in if v then new OR m else new AND NOT m)
     want (m0 :: int)) i \<longleftrightarrow> (case last_entry want i of Some v \<Rightarrow> v | None \<Rightarrow> bit m0 i)"
proof (induction want rule: rev_induct)
  case (snoc x want)
  obtain k v where x: "x = (k, v)" by fastforce
  show ?case
    using snoc
    by (auto simp: x last_entry_def Let_def bit_or_iff bit_and_iff bit_not_iff push_bit_eq_mult bit_exp_iff)
qed (simp add: last_entry_def)

lemma bit_sink_value:
  "bit (sink_value want cur) i \<longleftrightarrow>
     (case last_entry want i of Some v \<Rightarrow> v | None \<Rightarrow> bit cur i \<and> i \<noteq> 1 \<and> i \<noteq> 5)"
proof -
  have "bit (SINK_PULSE_MASK) i \<longleftrightarrow> i = 1 \<or> i = 5"
  proof -
    have "SINK_PULSE_MASK = push_bit 1 1 OR push_bit 5 1" by (simp add: SINK_PULSE_MASK_def)
    then show ?thesis unfolding \<open>SINK_PULSE_MASK = _\<close> bit_or_iff bit_push_bit_iff_int bit_1_iff by auto
  qed
  then show ?thesis
    unfolding sink_value_def bit_sink_fold by (simp add: bit_and_iff bit_not_iff split: option.splits)
qed

lemma sink_value_fixpoint: "sink_value want (sink_value want cur) = sink_value want cur"
  by (rule bit_eqI) (simp add: bit_sink_value split: option.splits)

lemma last_entry_range: "last_entry want i = Some v \<Longrightarrow> i < 5"
  using SINK_BITS_range by (fastforce simp: last_entry_def find_Some_iff)

lemma sink_value_u32: "is_u32 cur \<Longrightarrow> u32 (sink_value want cur) = sink_value want cur"
proof -
  assume "is_u32 cur"
  then have c: "take_bit 32 cur = cur" by (simp add: is_u32_def take_bit_int_eq_self_iff)
  have "bit cur i \<Longrightarrow> i < 32" for i using c by (metis bit_take_bit_iff)
  then show ?thesis
    unfolding u32_take_bit
    by (intro bit_eqI, subst bit_take_bit_iff) (auto simp: bit_sink_value split: option.splits dest: last_entry_range)
qed

text \<open>A word written to CTRL leaves everything beside it.\<close>

definition only_ctrl_word :: "int option \<Rightarrow> hw \<Rightarrow> hw \<Rightarrow> bool" where
  "only_ctrl_word off s t \<longleftrightarrow> hw_phys t = hw_phys s \<and>
     (\<forall>r. r \<noteq> ''ctrl'' \<longrightarrow> dict_get (hw_maps t) r = dict_get (hw_maps s) r) \<and>
     map_option (\<lambda>bs. (length bs, beside_word off bs)) (dict_get (hw_maps t) ''ctrl'')
       = map_option (\<lambda>bs. (length bs, beside_word off bs)) (dict_get (hw_maps s) ''ctrl'')"

lemma hw_write_only_word:
  assumes "db_write hw_bus ''ctrl'' off v s = (r, t)"
  shows "only_ctrl_word (Some off) s t"
proof (cases "t = s")
  case False
  then obtain bs bs' where b: "dict_get (hw_maps s) ''ctrl'' = Some bs" "cell_put bs off v = Inr bs'"
    "t = s\<lparr>hw_maps := dict_set ''ctrl'' bs' (hw_maps s)\<rparr>"
    using assms by (auto simp: hw_bus_def hw_write_def hw_map_def bnd_def lift_exn_def split: option.splits sum.splits)
  obtain q where q: "off = int q" "bs' = put_bytes bs q (pack_word (v AND 0xFFFFFFFF))" "q + 4 \<le> length bs"
    using b(2) by (cases "0 \<le> off") (auto simp: cell_put_def put32_def buf_pos_def Let_def split: if_splits elim: nonneg_int_cases)
  then show ?thesis using b beside_word_put [OF q(3)] by (simp add: only_ctrl_word_def dict_get_set)
qed (simp add: only_ctrl_word_def)

lemma hw_write_holds:
  assumes "db_write hw_bus ''ctrl'' off v s = (Inr (), t)" "co sc n = Some off"
  shows "ctrl_holds sc t n (u32 v)"
proof -
  obtain bs bs' where b: "dict_get (hw_maps s) ''ctrl'' = Some bs" "cell_put bs off v = Inr bs'"
    "t = s\<lparr>hw_maps := dict_set ''ctrl'' bs' (hw_maps s)\<rparr>"
    using assms(1) by (auto simp: hw_bus_def hw_write_def hw_map_def bnd_def lift_exn_def split: option.splits sum.splits)
  have p: "0 \<le> off" "off + 4 \<le> int (length bs)" "put32 bs off (u32 v) = Inr bs'"
    using b(2) by (auto simp: cell_put_def u32_def split: if_splits)
  then have "cell_get bs' off = Inr (u32 v)"
    using get32_put32_same [OF p(3)] by (simp add: cell_get_def)
  then show ?thesis using assms(2) by (simp add: ctrl_holds_def b(3) dict_get_set)
qed

lemma hw_read1_inv:
  assumes "read1 hw_bus ''ctrl'' off s = (Inr v, t)" "co sc n = Some off"
  shows "t = s \<and> ctrl_holds sc s n v \<and> is_u32 v"
  using assms
  by (auto simp: read1_def hw_bus_def hw_read_def hw_map_def bnd_def lift_exn_def ctrl_holds_def cell_get_def
      dest: get32_u32 split: option.splits sum.splits if_splits)

lemma reads_watched: "reads (read1 (log_bus hw_bus) r off)"
  by (rule reads_log [OF reads_read1])

lemma reads_reg_or_0: "reads (reg_or_0 (log_bus hw_bus) sc n)"
  using reads_watched by (simp add: reg_or_0_def reads_def frame_def split: option.splits)

lemma reg_or_0_log: "fst (reg_or_0 (log_bus bus) sc n (l, s)) = fst (reg_or_0 bus sc n s)"
  by (simp add: reg_or_0_def read1_log split: option.splits)

text \<open>The window is accepted only inside a reserved range.\<close>

lemma ddr_window_ok_sound:
  assumes "ddr_window_ok dt base sz = Inr (True, why)"
  shows "\<exists>rs. resmem_ranges dt = Inr rs \<and> (\<exists>(rb, rsz, n)\<in>set rs. rb \<le> base \<and> base + sz \<le> rb + rsz)"
proof -
  obtain r rs where rs: "resmem_ranges dt = Inr (r # rs)"
    using assms by (auto simp: ddr_window_ok_def split: if_splits sum.splits list.splits)
  obtain rb rsz n where "List.find (\<lambda>(rb, rsz, _). rb \<le> base \<and> base + sz \<le> rb + rsz) (r # rs) = Some (rb, rsz, n)"
    using assms by (auto simp: ddr_window_ok_def rs split: if_splits option.splits)
  then have "(rb, rsz, n) \<in> set (r # rs) \<and> rb \<le> base \<and> base + sz \<le> rb + rsz"
    unfolding find_Some_iff by (metis (mono_tags, lifting) case_prod_conv nth_mem)
  then show ?thesis using rs by blast
qed

section \<open>The arming, step by step\<close>

abbreviation sink_read :: "int \<Rightarrow> (bus_write list \<times> hw, int option) act" where
  "sink_read off \<equiv> handle (bnd (read1 (log_bus hw_bus) ''ctrl'' off) (\<lambda>v. ret (Some v))) (\<lambda>_. ret None)"

lemma sink_read_result:
  assumes "co sc n = Some off"
  shows "\<exists>r. sink_read off (l, s) = (Inr r, (l, s)) \<and> (\<forall>cur. r = Some cur \<longrightarrow> ctrl_holds sc s n cur \<and> is_u32 cur)"
proof (cases "read1 hw_bus ''ctrl'' off s")
  case (Pair q u)
  then have u: "u = s" using readsD [OF reads_read1] by blast
  show ?thesis
  proof (cases q)
    case (Inl e)
    then show ?thesis using Pair u by (simp add: handle_def bnd_def read1_log)
  next
    case (Inr v)
    then show ?thesis using Pair u hw_read1_inv [OF _ assms] by (simp add: handle_def bnd_def read1_log)
  qed
qed

lemma reads_window_check: "reads (window_check (log_bus hw_bus) sc dt want)"
proof -
  have "frame (=) (window_check (log_bus hw_bus) sc dt want)"
    unfolding window_check_def
    by (intro frames reads_reg_or_0 [unfolded reads_def])
       (auto simp: reflp_def transp_def frame_def lift_exn_def split: sum.splits)
  then show ?thesis by (simp add: reads_def)
qed

definition window_proved :: "scenario \<Rightarrow> dev_tree option \<Rightarrow> hw \<Rightarrow> bool" where
  "window_proved sc dt s \<longleftrightarrow>
     (\<exists>base sz rs. fst (reg_or_0 hw_bus sc ''ddr_base'' s) = Inr base \<and> fst (reg_or_0 hw_bus sc ''ddr_size'' s) = Inr sz \<and>
        resmem_ranges dt = Inr rs \<and> (\<exists>(rb, rsz, n)\<in>set rs. rb \<le> base \<and> base + sz \<le> rb + rsz))"

lemma window_check_sound:
  assumes "window_check (log_bus hw_bus) sc dt want (l, s) = (Inr win, t)" "dict_get want ''ddr_en'' = Some True"
    "\<forall>why. win \<noteq> Some (False, why)"
  shows "window_proved sc dt s"
proof -
  have "\<not> db_demo hw_bus" by (simp add: hw_bus_def)
  then obtain base sz v s1 s2 where b: "reg_or_0 (log_bus hw_bus) sc ''ddr_base'' (l, s) = (Inr base, s1)"
      "reg_or_0 (log_bus hw_bus) sc ''ddr_size'' s1 = (Inr sz, s2)" "ddr_window_ok dt base sz = Inr v" "win = Some v"
    using assms(1,2) by (auto simp: window_check_def bnd_def lift_exn_def split: prod.splits sum.splits)
  have "s1 = (l, s)" using readsD [OF reads_reg_or_0 b(1)] .
  then have "fst (reg_or_0 hw_bus sc ''ddr_base'' s) = Inr base" "fst (reg_or_0 hw_bus sc ''ddr_size'' s) = Inr sz"
    using b(1,2) reg_or_0_log [of hw_bus sc _ l s, symmetric] by simp_all
  moreover obtain why where "v = (True, why)" using b(4) assms(3) by (cases v) auto
  ultimately show ?thesis
    using b(3) ddr_window_ok_sound [of dt base sz] unfolding window_proved_def by blast
qed

text \<open>The call either leaves the machine alone or goes through the write, with all its guards passed.\<close>

lemma arm_cases:
  assumes "arm_default_sinks (log_bus hw_bus) sc dt (l, s) = (r, t)"
  defines "want \<equiv> opt_or (sd_sink_defaults (sc_raw sc)) []"
  obtains "t = (l, s)" "\<forall>rep. r = Inr rep \<longrightarrow> \<not> ar_wrote rep"
  | off cur win where "co sc ''sink_ctrl'' = Some off" "ctrl_holds sc s ''sink_ctrl'' cur" "is_u32 cur"
      "sink_value want cur \<noteq> cur" "dict_get want ''ddr_en'' = Some True \<longrightarrow> window_proved sc dt s"
      "arm_write (log_bus hw_bus) off cur (sink_value want cur) win (l, s) = (r, t)"
proof (cases "co sc ''sink_ctrl''")
  case None
  then show thesis using assms that(1) by (auto simp: arm_default_sinks_def Let_def arm_note_def split: if_splits)
next
  case (Some off)
  obtain rd where rd: "sink_read off (l, s) = (Inr rd, (l, s))"
      "\<And>cur. rd = Some cur \<Longrightarrow> ctrl_holds sc s ''sink_ctrl'' cur \<and> is_u32 cur"
    using sink_read_result [OF Some] by blast
  show thesis
  proof (cases "want = [] \<or> filter (\<lambda>k. dict_get SINK_BITS k = None) (map fst want) \<noteq> [] \<or> rd = None")
    case True
    then show thesis
      using assms(1) rd(1) that(1) Some unfolding arm_default_sinks_def want_def [symmetric] Let_def
      by (auto simp: bnd_def arm_note_def split: if_splits)
  next
    case False
    then obtain cur where cur: "rd = Some cur" by blast
    obtain q u where w: "window_check (log_bus hw_bus) sc dt want (l, s) = (q, u)" by (cases "window_check (log_bus hw_bus) sc dt want (l, s)")
    have u: "u = (l, s)" using readsD [OF reads_window_check w] .
    have e: "arm_default_sinks (log_bus hw_bus) sc dt (l, s) = bnd (window_check (log_bus hw_bus) sc dt want) (\<lambda>win.
          let rep = (arm_note [] [])\<lparr> ar_before := Some cur, ar_window := map_option snd win \<rparr> in
          case win of
            Some (False, why) \<Rightarrow> ret (rep\<lparr>ar_state := (''refused'', AS (fst why) # snd why)\<rparr>)
          | _ \<Rightarrow>
            let new = sink_value want cur in
            if new = cur then ret (rep\<lparr>ar_state := (''already armed'', [])\<rparr>)
            else arm_write (log_bus hw_bus) off cur new (map_option snd win)) (l, s)"
      using False unfolding arm_default_sinks_def want_def [symmetric] Let_def Some option.case
      by (simp add: bnd_def rd(1) cur)
    show thesis
    proof (cases "sink_value want cur = cur \<or> (\<exists>why. q = Inr (Some (False, why))) \<or> (\<exists>x. q = Inl x)")
      case True
      then show thesis
        using assms(1) that(1) unfolding e
        by (auto simp: bnd_def w u arm_note_def Let_def split: option.splits bool.splits prod.splits sum.splits)
    next
      case False
      then obtain win where win: "q = Inr win" "\<forall>why. win \<noteq> Some (False, why)" by (cases q) auto
      have "arm_write (log_bus hw_bus) off cur (sink_value want cur) (map_option snd win) (l, s) = (r, t)"
        using assms(1) False win unfolding e
        by (auto simp: bnd_def w u Let_def split: option.splits bool.splits prod.splits sum.splits)
      then show thesis
        using that(2) [OF Some] rd(2) [OF cur] False window_check_sound [OF w [unfolded win(1)] _ win(2)] by blast
    qed
  qed
qed

lemma ctrl_holds_unique: "ctrl_holds sc s n v \<Longrightarrow> ctrl_holds sc s n w \<Longrightarrow> v = w"
  by (auto simp: ctrl_holds_def split: option.splits)

lemma arm_write_result:
  assumes "arm_write (log_bus hw_bus) off cur new win (l, s) = (Inr rep, (l', t))" "co sc n = Some off" "u32 new = new"
  shows "ctrl_holds sc t n new \<and> fst (ar_state rep) = ''armed'' \<and> ar_wrote rep \<and>
     l' = l @ [Word_Write ''ctrl'' off new] \<and> only_ctrl_word (co sc n) s t"
proof -
  obtain u got where w: "db_write hw_bus ''ctrl'' off new s = (Inr (), u)" "read1 hw_bus ''ctrl'' off u = (Inr got, t)"
      "l' = l @ [Word_Write ''ctrl'' off new]"
      "rep = \<lparr> ar_state = (if got \<noteq> new then (''readback differs'', [AI got, AI new]) else (''armed'', [])),
              ar_before = Some cur, ar_window = win, ar_after = Some got, ar_requested = Some new, ar_wrote = True \<rparr>"
    using assms(1) by (auto simp: arm_write_def andthen_def bnd_def read1_log split: prod.splits sum.splits)
       (metis prod.collapse)
  note h = hw_write_holds [OF w(1) assms(2), unfolded assms(3)]
  have "t = u" "ctrl_holds sc u n got" using hw_read1_inv [OF w(2) assms(2)] by auto
  moreover have "got = new" using ctrl_holds_unique [OF \<open>ctrl_holds sc u n got\<close> h] .
  ultimately show ?thesis using h w(3,4) hw_write_only_word [OF w(1)] assms(2) by simp
qed

section \<open>Properties\<close>

text \<open>
  Narrowing the port of the trace sink and the port of the guest memory: whatever the two registers
  hold, the call succeeds, both then read the wanted width, their other bits and all other memory
  are as before, and a second call finds nothing to do.
\<close>

lemma afifm_sets_width:
  "\<exists>r t. ensure_afifm_32bit True s = (Inr r, t) \<and> cs_rc r = 0 \<and>
     is_width AFIFM_WIDTH_32 (word32 t AFIFM2_RDCTRL) (word32 t AFIFM2_WRCTRL) \<and>
     word32 t AFIFM2_RDCTRL AND NOT 3 = word32 s AFIFM2_RDCTRL AND NOT 3 \<and>
     word32 t AFIFM2_WRCTRL AND NOT 3 = word32 s AFIFM2_WRCTRL AND NOT 3 \<and>
     hw_maps t = hw_maps s \<and> {x. hw_phys t x \<noteq> hw_phys s x} \<subseteq> {0xFD380000..<0xFD380018} \<and>
     (\<exists>r2. ensure_afifm_32bit True t = (Inr r2, t) \<and> cs_rc r2 = 0)"
proof -
  have al: "AFIFM2_RDCTRL mod 4096 + 4 \<le> 4096" "AFIFM2_WRCTRL mod 4096 + 4 \<le> 4096" "AFIFM2_RDCTRL + 4 \<le> AFIFM2_WRCTRL"
    "0 \<le> AFIFM_WIDTH_32" "AFIFM_WIDTH_32 < 4"
    by (simp_all add: AFIFM2_RDCTRL_def AFIFM2_WRCTRL_def AFIFM_WIDTH_32_def)
  note wf = with_width_facts [OF al(4,5)]
  obtain r t where t: "ensure_afifm_32bit True s = (Inr r, t)" "cs_rc r = 0"
      "word32 t AFIFM2_RDCTRL = with_width AFIFM_WIDTH_32 (word32 s AFIFM2_RDCTRL)"
      "word32 t AFIFM2_WRCTRL = with_width AFIFM_WIDTH_32 (word32 s AFIFM2_WRCTRL)" "hw_maps t = hw_maps s"
      "\<And>x. \<not> (AFIFM2_RDCTRL \<le> x \<and> x < AFIFM2_RDCTRL + 4) \<Longrightarrow> \<not> (AFIFM2_WRCTRL \<le> x \<and> x < AFIFM2_WRCTRL + 4) \<Longrightarrow>
         hw_phys t x = hw_phys s x"
    using ensure_width_ok [OF al(4,5,1,2,3), of "''afifm2''" s] unfolding ensure_afifm_32bit_def by blast
  have w: "is_width AFIFM_WIDTH_32 (word32 t AFIFM2_RDCTRL) (word32 t AFIFM2_WRCTRL)"
    unfolding is_width_def t(3,4) wf(1) by simp
  have "ensure_afifm_32bit True t = (Inr \<lparr> cs_cmd = ''afifm2'', cs_rc = 0,
      cs_out = (''already'', [AI (word32 t AFIFM2_RDCTRL), AI (word32 t AFIFM2_WRCTRL)]) \<rparr>, t)"
    using w by (simp add: ensure_afifm_32bit_def ensure_width_def or_report_def phys_read32_def bnd_def
        ps_read_ok [OF al(1)] ps_read_ok [OF al(2)])
  moreover have "{x. hw_phys t x \<noteq> hw_phys s x} \<subseteq> {0xFD380000..<0xFD380018}"
  proof
    fix x assume "x \<in> {x. hw_phys t x \<noteq> hw_phys s x}"
    then have "(AFIFM2_RDCTRL \<le> x \<and> x < AFIFM2_RDCTRL + 4) \<or> (AFIFM2_WRCTRL \<le> x \<and> x < AFIFM2_WRCTRL + 4)"
      using t(6) by blast
    then show "x \<in> {0xFD380000..<0xFD380018}" by (auto simp: AFIFM2_RDCTRL_def AFIFM2_WRCTRL_def)
  qed
  ultimately show ?thesis using t w wf(2) by auto
qed

text \<open>C11: 
  Arming the sinks on the live bus, watched. When it wrote, SINK_CTRL was written exactly once and nothing
  else was: the word holds what was asked for and no pulse bit, every other bit of it as before, the window of
  CTRL beside the word, every other region and all memory are as they were, and a wanted DDR sink has its
  whole window inside reserved memory. When it did not write, nothing has changed. A second call issues no
  write at all.
\<close>

theorem arm_sinks_safe:
  assumes "arm_default_sinks (log_bus hw_bus) sc dt ([], s) = (Inr rep, (l, t))"
  shows "(if ar_wrote rep then
       (\<exists>off cur new. co sc ''sink_ctrl'' = Some off \<and> l = [Word_Write ''ctrl'' off new] \<and>
          ctrl_holds sc s ''sink_ctrl'' cur \<and> ctrl_holds sc t ''sink_ctrl'' new \<and> fst (ar_state rep) = ''armed'' \<and>
          (\<forall>i. bit new i \<longleftrightarrow> (case last_entry (opt_or (sd_sink_defaults (sc_raw sc)) []) i of
             Some v \<Rightarrow> v | None \<Rightarrow> bit cur i \<and> i \<noteq> 1 \<and> i \<noteq> 5))) \<and>
       only_ctrl_word (co sc ''sink_ctrl'') s t \<and>
       (dict_get (opt_or (sd_sink_defaults (sc_raw sc)) []) ''ddr_en'' = Some True \<longrightarrow>
          window_proved sc dt s)
     else l = [] \<and> t = s) \<and>
     snd (arm_default_sinks (log_bus hw_bus) sc dt ([], t)) = ([], t)"
proof (cases rule: arm_cases [OF assms])
  case 1
  then show ?thesis using assms by simp
next
  case (2 off cur win)
  let ?want = "opt_or (sd_sink_defaults (sc_raw sc)) []"
  let ?new = "sink_value ?want cur"
  note a = arm_write_result [OF 2(6,1) sink_value_u32 [OF 2(3)]]
  have "snd (arm_default_sinks (log_bus hw_bus) sc dt ([], t)) = ([], t)"
  proof -
    obtain r u where p: "arm_default_sinks (log_bus hw_bus) sc dt ([], t) = (r, u)" using prod.exhaust by metis
    show ?thesis
    proof (cases rule: arm_cases [OF p])
      case 1
      then show ?thesis by (simp add: p)
    next
      case (2 off' cur' win')
      then show ?thesis using a ctrl_holds_unique [of sc t "''sink_ctrl''" ?new cur'] sink_value_fixpoint by metis
    qed
  qed
  moreover have "\<exists>off cur new. co sc ''sink_ctrl'' = Some off \<and> l = [Word_Write ''ctrl'' off new] \<and>
      ctrl_holds sc s ''sink_ctrl'' cur \<and> ctrl_holds sc t ''sink_ctrl'' new \<and> fst (ar_state rep) = ''armed'' \<and>
      (\<forall>i. bit new i \<longleftrightarrow> (case last_entry ?want i of Some v \<Rightarrow> v | None \<Rightarrow> bit cur i \<and> i \<noteq> 1 \<and> i \<noteq> 5))"
    by (intro exI [of _ off] exI [of _ cur] exI [of _ ?new]) (simp add: a 2(1,2) bit_sink_value)
  ultimately show ?thesis using a 2(5) by simp
qed

text \<open>A machine whose DDR window is the reserved range of its device tree.\<close>

definition sink_sc :: scenario where
  "sink_sc = mini_sc\<lparr> sc_raw := (sc_raw mini_sc)\<lparr>sd_sink_defaults := Some [(''ddr_en'', True), (''uram_oneshot'', False)]\<rparr>,
     sc_ctrl := [(''sink_ctrl'', 0), (''ddr_base'', 4), (''ddr_size'', 8)] \<rparr>"

definition sink_tree :: dev_tree where
  "sink_tree = \<lparr> dt_acells = None, dt_scells = None,
     dt_nodes = [(''trace'', Reg_Bytes [0, 0, 0, 0, 0x60, 0, 0, 0, 0, 0, 0, 0, 0x10, 0, 0, 0])] \<rparr>"

definition sink_hw :: hw where
  "sink_hw = \<lparr> hw_maps = [(''ctrl'', pack_words [0x48, 0x60000000, 0x4000000])], hw_phys = (\<lambda>_. 0) \<rparr>"

definition sink_wrote :: "hw \<Rightarrow> bool" where
  "sink_wrote s = (case fst (arm_default_sinks (log_bus hw_bus) sink_sc (Some sink_tree) ([], s)) of Inr rep \<Rightarrow> ar_wrote rep | Inl _ \<Rightarrow> False)"

lemma arm_sinks_safe_witness:
  "window_proved sink_sc (Some sink_tree) sink_hw \<and>
   fst (snd (arm_default_sinks (log_bus hw_bus) sink_sc (Some sink_tree) ([], sink_hw))) = [Word_Write ''ctrl'' 0 0x41]"
proof -
  let ?arm = "arm_default_sinks (log_bus hw_bus) sink_sc (Some sink_tree) ([], sink_hw)"
  have w: "sink_wrote sink_hw" by code_simp
  then obtain rep l t where e: "?arm = (Inr rep, (l, t))" "ar_wrote rep"
    unfolding sink_wrote_def by (cases ?arm) (auto split: sum.splits)
  have "dict_get (opt_or (sd_sink_defaults (sc_raw sink_sc)) []) ''ddr_en'' = Some True"
    by (simp add: sink_sc_def opt_or_def dict_get_def)
  then have "window_proved sink_sc (Some sink_tree) sink_hw" using arm_sinks_safe [OF e(1)] e(2) by simp
  moreover have "fst (snd ?arm) = [Word_Write ''ctrl'' 0 0x41]" by code_simp
  ultimately show ?thesis by blast
qed

end
