(* ===== verification/Insight.thy ===== *)
theory Insight
  imports Complex_Main Scenario Py_Bytes
begin

unbundle bit_operations_syntax

text \<open>
  The analysis of the decoded PC stream (\<open>examples/dashboard/insight.py\<close>): the window trimming to
  whole Nexus messages, the symbol table with its lookup, the call and return sites, the evaluation
  of one PC window with its call stack, the accumulated state, and the message statistics. Rates
  and shares are exact rationals.
\<close>

section \<open>Message boundaries\<close>

definition MSEO_END :: byte where "MSEO_END = 3"

definition ends_message :: "byte \<Rightarrow> bool" where
  "ends_message b \<longleftrightarrow> b AND 3 = MSEO_END"

text \<open>The payload, the number of bytes dropped before it and after it.\<close>

definition align_to_messages :: "byte list \<Rightarrow> byte list \<times> nat \<times> nat" where
  "align_to_messages raw =
     (if raw = [] then ([], 0, 0)
      else case List.find (\<lambda>i. ends_message (raw ! i)) [0..<length raw] of
        None \<Rightarrow> ([], length raw, 0)
      | Some i \<Rightarrow>
          let start = i + 1 in
          if length raw \<le> start then ([], length raw, 0)
          else case List.find (\<lambda>i. ends_message (raw ! i)) (rev [start..<length raw]) of
            None \<Rightarrow> ([], start, length raw - start)
          | Some j \<Rightarrow> (drop start (take (j + 1) raw), start, length raw - (j + 1)))"

section \<open>Lines\<close>

text \<open>\<open>str.splitlines()\<close> for characters below 256.\<close>

definition is_line_end :: "char \<Rightarrow> bool" where
  "is_line_end c \<longleftrightarrow> (let n = code_of c in 10 \<le> n \<and> n \<le> 13 \<or> 28 \<le> n \<and> n \<le> 30 \<or> n = 133)"

text \<open>The flag says that the character before was a carriage return.\<close>

fun lines_acc :: "bool \<Rightarrow> string \<Rightarrow> string \<Rightarrow> string list" where
  "lines_acc cr cur [] = (if cur = [] then [] else [rev cur])"
| "lines_acc cr cur (c # cs) =
     (if cr \<and> code_of c = 10 then lines_acc False cur cs
      else if is_line_end c then rev cur # lines_acc (code_of c = 13) [] cs
      else lines_acc False (c # cur) cs)"

definition splitlines :: "string \<Rightarrow> string list" where
  "splitlines s = lines_acc False [] s"

definition is_hex :: "char \<Rightarrow> bool" where
  "is_hex c \<longleftrightarrow> digit_of 16 c \<noteq> None"

definition is_letter :: "char \<Rightarrow> bool" where
  "is_letter c \<longleftrightarrow> (let n = code_of c in 65 \<le> n \<and> n \<le> 90 \<or> 97 \<le> n \<and> n \<le> 122)"

definition hex_value :: "string \<Rightarrow> int" where
  "hex_value s = opt_or (digits 16 s) 0"

text \<open>\<open>^\s*([0-9a-fA-F]{4,16})\s+([a-zA-Z])\s+(\S+)\<close>: address, type and name.\<close>

definition symbol_line :: "string \<Rightarrow> (int \<times> char \<times> string) option" where
  "symbol_line line =
     (let s = lstrip line; h = takeWhile is_hex s; r = dropWhile is_hex s in
      if length h < 4 \<or> 16 < length h \<or> r = [] \<or> \<not> is_space (hd r) then None
      else case lstrip r of
        t # r2 \<Rightarrow>
          if is_letter t \<and> r2 \<noteq> [] \<and> is_space (hd r2) then
            (let name = takeWhile (\<lambda>c. \<not> is_space c) (lstrip r2) in
             if name = [] then None else Some (hex_value h, t, name))
          else None
      | [] \<Rightarrow> None)"

section \<open>Symbols\<close>

record symbol_table =
  st_addrs :: "int list"
  st_names :: "string list"
  st_ends :: "int list"
  st_source :: "string option"

definition empty_symbols :: symbol_table where
  "empty_symbols = \<lparr> st_addrs = [], st_names = [], st_ends = [], st_source = None \<rparr>"

definition TEXT_TYPES :: string where "TEXT_TYPES = ''tTwW''"

definition row_less :: "int \<times> string \<Rightarrow> int \<times> string \<Rightarrow> bool" where
  "row_less p q \<longleftrightarrow> fst p < fst q \<or> fst p = fst q \<and> str_less (snd p) (snd q)"

fun insert_row :: "int \<times> string \<Rightarrow> (int \<times> string) list \<Rightarrow> (int \<times> string) list" where
  "insert_row r [] = [r]"
| "insert_row r (q # qs) = (if row_less q r then q # insert_row r qs else r # q # qs)"

definition sort_rows :: "(int \<times> string) list \<Rightarrow> (int \<times> string) list" where
  "sort_rows rs = foldr insert_row rs []"

text \<open>A repeated address keeps its first name.\<close>

fun first_rows :: "int option \<Rightarrow> (int \<times> string) list \<Rightarrow> (int \<times> string) list" where
  "first_rows prev [] = []"
| "first_rows prev (r # rs) =
     (if prev = Some (fst r) then first_rows prev rs else r # first_rows (Some (fst r)) rs)"

definition symbol_rows :: "string \<Rightarrow> (int \<times> string) list" where
  "symbol_rows text = List.map_filter (\<lambda>l. case symbol_line l of
      Some (a, t, n) \<Rightarrow> if t \<in> set TEXT_TYPES then Some (a, n) else None | None \<Rightarrow> None) (splitlines text)"

definition symbols_from_text :: "string \<Rightarrow> string option \<Rightarrow> symbol_table" where
  "symbols_from_text text source =
     (let rows = first_rows None (sort_rows (symbol_rows text)); addrs = map fst rows in
      \<lparr> st_addrs = addrs, st_names = map snd rows,
        st_ends = drop 1 addrs @ [if addrs = [] then 0 else last addrs + 0x1000],
        st_source = source \<rparr>)"

text \<open>\<open>bisect\<close> on a sorted list.\<close>

definition bisect_right :: "int list \<Rightarrow> int \<Rightarrow> nat" where
  "bisect_right xs x = length (takeWhile (\<lambda>a. a \<le> x) xs)"

definition bisect_left :: "int list \<Rightarrow> int \<Rightarrow> nat" where
  "bisect_left xs x = length (takeWhile (\<lambda>a. a < x) xs)"

definition sym_lookup :: "symbol_table \<Rightarrow> int \<Rightarrow> (string \<times> int \<times> int) option" where
  "sym_lookup st pc =
     (if st_addrs st = [] then None
      else let k = bisect_right (st_addrs st) pc in
        if k = 0 \<or> st_ends st ! (k - 1) \<le> pc then None
        else Some (st_names st ! (k - 1), st_addrs st ! (k - 1), pc - st_addrs st ! (k - 1)))"

definition is_entry :: "symbol_table \<Rightarrow> int \<Rightarrow> bool" where
  "is_entry st pc = (if st_addrs st = [] then False
     else let i = bisect_left (st_addrs st) pc in i < length (st_addrs st) \<and> st_addrs st ! i = pc)"

definition MAX_FUNC_BYTES :: int where "MAX_FUNC_BYTES = 8192"

definition sym_sizes :: "symbol_table \<Rightarrow> (string \<times> int \<times> int \<times> bool) list" where
  "sym_sizes st = map (\<lambda>i. let a = st_addrs st ! i; raw = max 0 (st_ends st ! i - a) in
      (st_names st ! i, a, min raw MAX_FUNC_BYTES, MAX_FUNC_BYTES < raw)) [0..<length (st_addrs st)]"

section \<open>Call sites\<close>

record call_sites =
  cs_calls :: "int list"
  cs_rets :: "int list"
  cs_source :: "string option"

definition empty_sites :: call_sites where
  "empty_sites = \<lparr> cs_calls = [], cs_rets = [], cs_source = None \<rparr>"

definition sites_count :: "call_sites \<Rightarrow> nat" where
  "sites_count cs = length (cs_calls cs) + length (cs_rets cs)"

text \<open>\<open>^([CR])\s+([0-9a-fA-F]+)\s*$\<close>.\<close>

definition site_line :: "string \<Rightarrow> (bool \<times> int) option" where
  "site_line line =
     (case line of
        c # r \<Rightarrow>
          if (c = CHR ''C'' \<or> c = CHR ''R'') \<and> r \<noteq> [] \<and> is_space (hd r) then
            (let s = lstrip r; h = takeWhile is_hex s in
             if h \<noteq> [] \<and> lstrip (dropWhile is_hex s) = [] then Some (c = CHR ''C'', hex_value h) else None)
          else None
      | [] \<Rightarrow> None)"

definition add_site :: "call_sites \<Rightarrow> bool \<times> int \<Rightarrow> call_sites" where
  "add_site cs p = (case p of (call, a) \<Rightarrow>
     if call then cs\<lparr>cs_calls := List.insert a (cs_calls cs)\<rparr> else cs\<lparr>cs_rets := List.insert a (cs_rets cs)\<rparr>)"

definition sites_from_text :: "string \<Rightarrow> string option \<Rightarrow> call_sites" where
  "sites_from_text text source =
     (foldl add_site empty_sites (List.map_filter site_line (splitlines text)))\<lparr>cs_source := source\<rparr>"

section \<open>One window\<close>

definition UNWIND_SEARCH :: nat where "UNWIND_SEARCH = 64"
definition STACK_LIMIT :: nat where "STACK_LIMIT = 512"

definition hex_char :: "nat \<Rightarrow> char" where
  "hex_char d = char_of (if d < 10 then 48 + d else 87 + d)"

fun hex_rev :: "nat \<Rightarrow> nat \<Rightarrow> string" where
  "hex_rev 0 n = []"
| "hex_rev (Suc fuel) n = (if n < 16 then [hex_char n] else hex_char (n mod 16) # hex_rev fuel (n div 16))"

text \<open>\<open>0x%08x\<close> of a non-negative number.\<close>

definition hex8 :: "int \<Rightarrow> string" where
  "hex8 n = (let s = rev (hex_rev (Suc (nat n)) (nat n)) in ''0x'' @ replicate (8 - length s) (CHR ''0'') @ s)"

record pc_analysis =
  pa_n :: nat
  pa_first :: "int option"
  pa_last :: "int option"
  pa_per_func :: "(int, nat) dict"
  pa_transfers :: nat
  pa_calls :: nat
  pa_returns :: nat
  pa_unwinds :: nat
  pa_stack :: "int list"
  pa_lost :: bool
  pa_prev :: "int option"
  pa_current :: "string option"
  pa_trail :: "string list"

definition no_analysis :: pc_analysis where
  "no_analysis = \<lparr> pa_n = 0, pa_first = None, pa_last = None, pa_per_func = [], pa_transfers = 0, pa_calls = 0,
     pa_returns = 0, pa_unwinds = 0, pa_stack = [], pa_lost = False, pa_prev = None, pa_current = None, pa_trail = [] \<rparr>"

definition page_of :: "int \<Rightarrow> int" where
  "page_of pc = pc AND NOT 0xFFF"

text \<open>Counting the function and the debounced sequence of labels.\<close>

definition label_step :: "symbol_table \<Rightarrow> int \<Rightarrow> pc_analysis \<Rightarrow> pc_analysis" where
  "label_step syms pc a =
     (let hit = sym_lookup syms pc;
          key = (case hit of Some (_, s, _) \<Rightarrow> s | None \<Rightarrow> page_of pc);
          label = (case hit of Some (n, _, _) \<Rightarrow> if n = [] then hex8 (page_of pc) else n | None \<Rightarrow> hex8 (page_of pc));
          a1 = a\<lparr>pa_per_func := dict_set key (dict_get_or (pa_per_func a) key 0 + 1) (pa_per_func a)\<rparr> in
      if pa_current a1 \<noteq> Some label then
        a1\<lparr>pa_current := Some label,
           pa_trail := (if pa_trail a1 = [] \<or> last (pa_trail a1) \<noteq> label then pa_trail a1 @ [label] else pa_trail a1)\<rparr>
      else a1)"

text \<open>The frame a return goes to: its distance from the top, within the search depth.\<close>

definition find_frame :: "int list \<Rightarrow> int \<Rightarrow> nat option" where
  "find_frame stack pc = List.find (\<lambda>d. stack ! (length stack - d) = pc) [1..<min (length stack) UNWIND_SEARCH + 1]"

definition return_step :: "int \<Rightarrow> pc_analysis \<Rightarrow> pc_analysis" where
  "return_step pc a =
     (let a1 = (case find_frame (pa_stack a) pc of
            Some d \<Rightarrow> a\<lparr>pa_stack := take (length (pa_stack a) - d) (pa_stack a),
                         pa_unwinds := (if 1 < d then pa_unwinds a + 1 else pa_unwinds a)\<rparr>
          | None \<Rightarrow> if pa_stack a \<noteq> [] then a\<lparr>pa_stack := butlast (pa_stack a), pa_unwinds := pa_unwinds a + 1\<rparr> else a)
      in a1\<lparr>pa_returns := pa_returns a1 + 1\<rparr>)"

definition call_step :: "int \<Rightarrow> pc_analysis \<Rightarrow> pc_analysis" where
  "call_step prev a =
     (let st = pa_stack a @ [prev + 4] in
      a\<lparr>pa_stack := st, pa_calls := pa_calls a + 1, pa_lost := (pa_lost a \<or> STACK_LIMIT < length st)\<rparr>)"

definition transfer_step :: "bool \<Rightarrow> call_sites \<Rightarrow> int \<Rightarrow> int \<Rightarrow> pc_analysis \<Rightarrow> pc_analysis" where
  "transfer_step depth_ok sites prev pc a0 =
     (let a = a0\<lparr>pa_transfers := pa_transfers a0 + 1\<rparr> in
      if depth_ok \<and> \<not> pa_lost a then
        (if prev \<in> set (cs_calls sites) then call_step prev a
         else if prev \<in> set (cs_rets sites) then return_step pc a else a)
      else a)"

definition pc_step :: "symbol_table \<Rightarrow> bool \<Rightarrow> call_sites \<Rightarrow> int \<Rightarrow> pc_analysis \<Rightarrow> pc_analysis" where
  "pc_step syms depth_ok sites pc a0 =
     (let a = label_step syms pc a0;
          a1 = (case pa_prev a of None \<Rightarrow> a
            | Some prev \<Rightarrow> if pc \<noteq> prev + 4 then transfer_step depth_ok sites prev pc a else a)
      in a1\<lparr>pa_prev := Some pc\<rparr>)"

definition pc_loop :: "symbol_table \<Rightarrow> bool \<Rightarrow> call_sites \<Rightarrow> int list \<Rightarrow> pc_analysis \<Rightarrow> pc_analysis" where
  "pc_loop syms depth_ok sites pcs a = fold (pc_step syms depth_ok sites) pcs a"

datatype depth_result = Depth nat | Variable_Width | No_Sites | Pairing_Lost | No_Pcs

definition analyse :: "symbol_table \<Rightarrow> bool \<Rightarrow> call_sites option \<Rightarrow> int list \<Rightarrow> pc_analysis \<times> depth_result" where
  "analyse syms fixed sites pcs =
     (if pcs = [] then (no_analysis, No_Pcs)
      else
        let sites' = opt_or sites empty_sites;
            has = (sites_count sites' \<noteq> 0);
            a = pc_loop syms (fixed \<and> has) sites' pcs
                  (no_analysis\<lparr>pa_n := length pcs, pa_first := Some (hd pcs), pa_last := Some (last pcs)\<rparr>)
        in (a\<lparr>pa_trail := last_n 24 (pa_trail a)\<rparr>,
            if \<not> fixed then Variable_Width else if \<not> has then No_Sites
            else if pa_lost a then Pairing_Lost else Depth (length (pa_stack a))))"

text \<open>Sorting by falling count keeps the insertion order of equal counts.\<close>

definition top_funcs :: "nat \<Rightarrow> (int, nat) dict \<Rightarrow> (int \<times> nat) list" where
  "top_funcs k d = take k (sort_key (\<lambda>kv. - int (snd kv)) d)"

section \<open>The accumulated state\<close>

record window_result =
  wn_instr :: nat
  wn_bytes :: nat
  wn_bits_per_instr :: "rat option"
  wn_analysis :: pc_analysis
  wn_depth :: depth_result
  wn_top :: "(int \<times> nat) list"
  wn_seconds :: rat

record insight_state =
  is_symbols :: symbol_table
  is_sites :: call_sites
  is_func_counts :: "(int, nat) dict"
  is_windows :: nat
  is_total_instr :: nat
  is_total_bytes :: nat
  is_hist :: "(rat \<times> rat option \<times> rat option \<times> rat option) list"
  is_decode_seconds :: rat
  is_decode_bytes :: nat
  is_decode_instr :: nat
  is_last :: "window_result option"
  is_last_beat :: "(rat \<times> nat) option"

definition MAX_HIST :: nat where "MAX_HIST = 120"
definition MIN_INSTR_FOR_RATIO :: nat where "MIN_INSTR_FOR_RATIO = 1000"

definition insight_init :: insight_state where
  "insight_init = \<lparr> is_symbols = empty_symbols, is_sites = empty_sites, is_func_counts = [], is_windows = 0,
     is_total_instr = 0, is_total_bytes = 0, is_hist = [], is_decode_seconds = 0, is_decode_bytes = 0,
     is_decode_instr = 0, is_last = None, is_last_beat = None \<rparr>"

definition set_symbols_text :: "string \<Rightarrow> string option \<Rightarrow> insight_state \<Rightarrow> insight_state" where
  "set_symbols_text text source s = s\<lparr>is_symbols := symbols_from_text text source\<rparr>"

definition set_sites_text :: "string \<Rightarrow> string option \<Rightarrow> insight_state \<Rightarrow> insight_state" where
  "set_sites_text text source s = s\<lparr>is_sites := sites_from_text text source\<rparr>"

definition note_beat :: "rat \<Rightarrow> nat \<Rightarrow> insight_state \<Rightarrow> rat option \<times> insight_state" where
  "note_beat t n s =
     (case is_last_beat s of
        None \<Rightarrow> None
      | Some (t0, n0) \<Rightarrow> if t \<le> t0 \<or> n < n0 then None else Some ((of_nat n - of_nat n0) / (t - t0)),
      s\<lparr>is_last_beat := Some (t, n)\<rparr>)"

definition push_rate :: "rat \<Rightarrow> rat option \<Rightarrow> rat option \<Rightarrow> rat option \<Rightarrow> insight_state \<Rightarrow> insight_state" where
  "push_rate t bps ips bpi s = s\<lparr>is_hist := last_n MAX_HIST (is_hist s @ [(t, bps, ips, bpi)])\<rparr>"

definition add_counts :: "(int, nat) dict \<Rightarrow> (int, nat) dict \<Rightarrow> (int, nat) dict" where
  "add_counts d pf = fold (\<lambda>(k, v) d. dict_set k (dict_get_or d k 0 + v) d) pf d"

definition add_window :: "int list \<Rightarrow> nat \<Rightarrow> rat \<Rightarrow> bool \<Rightarrow> insight_state \<Rightarrow> insight_state" where
  "add_window pcs raw_bytes secs fixed s =
     (let (a, depth) = analyse (is_symbols s) fixed (Some (is_sites s)) pcs; n = length pcs in
      s\<lparr>is_func_counts := add_counts (is_func_counts s) (pa_per_func a),
        is_windows := is_windows s + 1,
        is_total_instr := is_total_instr s + n,
        is_total_bytes := is_total_bytes s + raw_bytes,
        is_decode_seconds := is_decode_seconds s + secs,
        is_decode_bytes := is_decode_bytes s + raw_bytes,
        is_decode_instr := is_decode_instr s + n,
        is_last := Some \<lparr> wn_instr = n, wn_bytes = raw_bytes,
          wn_bits_per_instr = (if n \<noteq> 0 \<and> MIN_INSTR_FOR_RATIO \<le> n then Some (of_nat (raw_bytes * 8) / of_nat n) else None),
          wn_analysis = a, wn_depth = depth, wn_top = top_funcs 10 (pa_per_func a), wn_seconds = secs \<rparr> \<rparr>)"

definition name_of_key :: "insight_state \<Rightarrow> int \<Rightarrow> string" where
  "name_of_key s key = (case sym_lookup (is_symbols s) key of
     Some (n, a, _) \<Rightarrow> if n \<noteq> [] \<and> a = key then n else hex8 key | None \<Rightarrow> hex8 key)"

definition hot_list :: "nat \<Rightarrow> insight_state \<Rightarrow> (string \<times> int \<times> nat \<times> rat) list" where
  "hot_list k s =
     (let t = sum_list (map snd (is_func_counts s)); tot = (if t = 0 then 1 else t) in
      map (\<lambda>(a, c). (name_of_key s a, a, c, of_nat c / of_nat tot)) (top_funcs k (is_func_counts s)))"

definition coverage :: "insight_state \<Rightarrow> nat \<times> nat \<times> rat option" where
  "coverage s =
     (let total = length (st_addrs (is_symbols s)) in
      if total = 0 then (0, 0, None)
      else let seen = length (filter (\<lambda>(a, _). a \<in> set (st_addrs (is_symbols s))) (is_func_counts s)) in
        (total, seen, Some (of_nat seen / of_nat total)))"

definition decoder_throughput :: "insight_state \<Rightarrow> (rat \<times> rat) option" where
  "decoder_throughput s =
     (if is_decode_seconds s \<le> 0 \<or> is_decode_bytes s = 0 then None
      else Some (of_nat (is_decode_bytes s) / is_decode_seconds s / 1000000,
                 of_nat (is_decode_instr s) / is_decode_seconds s / 1000000))"

definition insight_reset :: "insight_state \<Rightarrow> insight_state" where
  "insight_reset s = insight_init\<lparr>is_symbols := is_symbols s, is_sites := is_sites s\<rparr>"

section \<open>Message statistics\<close>

record msg_scan =
  ms_counts :: "(nat, nat) dict"
  ms_msgs :: nat
  ms_idle :: nat
  ms_started :: bool
  ms_prev_end :: bool

definition scan_step :: "byte \<Rightarrow> msg_scan \<Rightarrow> msg_scan" where
  "scan_step b m =
     (let mseo = b AND 3 in
      if mseo = 3 \<and> drop_bit 2 b = 0x3F then m\<lparr>ms_idle := ms_idle m + 1, ms_prev_end := True\<rparr>
      else
        let m1 = (if ms_prev_end m \<and> mseo = 0 then
              (let t = unat (drop_bit 2 b AND 0x3F) in
               m\<lparr>ms_started := True, ms_counts := dict_set t (dict_get_or (ms_counts m) t 0 + 1) (ms_counts m),
                 ms_msgs := ms_msgs m + 1\<rparr>) else m)
        in m1\<lparr>ms_prev_end := (mseo = 3)\<rparr>)"

definition scan_messages :: "byte list \<Rightarrow> msg_scan" where
  "scan_messages raw = fold scan_step raw
     \<lparr> ms_counts = [], ms_msgs = 0, ms_idle = 0, ms_started = False, ms_prev_end = False \<rparr>"

text \<open>\<open>strip\<close> and \<open>int\<close> on \<open>bytes\<close> know ASCII whitespace only.\<close>

definition is_bspace :: "char \<Rightarrow> bool" where
  "is_bspace c \<longleftrightarrow> (let n = code_of c in 9 \<le> n \<and> n \<le> 13 \<or> n = 32)"

definition bstrip :: "string \<Rightarrow> string" where
  "bstrip s = rev (dropWhile is_bspace (rev (dropWhile is_bspace s)))"

definition bytes_int :: "nat \<Rightarrow> string \<Rightarrow> int option" where
  "bytes_int base s = (if list_all (\<lambda>c. is_space c \<longrightarrow> is_bspace c) s then py_int base s else None)"

text \<open>\<open>.pcout\<close>: one hexadecimal number per line; other lines are skipped. A limit of zero is none.\<close>

fun pcout_lines :: "string list \<Rightarrow> nat \<Rightarrow> int list \<Rightarrow> int list" where
  "pcout_lines [] limit out = out"
| "pcout_lines (l # ls) limit out =
     (let s = bstrip l in
      if s = [] then pcout_lines ls limit out
      else case bytes_int 16 s of
        None \<Rightarrow> pcout_lines ls limit out
      | Some v \<Rightarrow> let out' = out @ [v] in
          if limit \<noteq> 0 \<and> limit \<le> length out' then out' else pcout_lines ls limit out')"

definition parse_pcout :: "string \<Rightarrow> nat option \<Rightarrow> int list" where
  "parse_pcout data limit = pcout_lines (split_on (CHR 0x0A) data) (opt_or limit 0) []"

section \<open>Facts on trimming\<close>

lemma find_first:
  assumes "\<forall>x\<in>set a. \<not> P x" "P e"
  shows "List.find (\<lambda>i. P ((a @ e # b) ! i)) [0..<length (a @ e # b)] = Some (length a)"
  unfolding find_Some_iff using assms by (auto simp: nth_append intro!: exI [of _ "length a"])

lemma find_skip: "\<forall>x\<in>set us. \<not> P x \<Longrightarrow> P k \<Longrightarrow> List.find P (us @ k # vs) = Some k"
  by (induction us) auto

lemma find_last:
  assumes "\<forall>x\<in>set d. \<not> P x" "P e" "length a \<le> length c"
  shows "List.find (\<lambda>i. P ((c @ e # d) ! i)) (rev [length a..<length (c @ e # d)]) = Some (length c)"
proof -
  have "[length a..<length (c @ e # d)] = [length a..<length c] @ length c # [Suc (length c)..<length (c @ e # d)]"
    using assms(3) upt_add_eq_append [of "length a" "length c" "Suc (length d)"]
      upt_conv_Cons [of "length c" "length c + Suc (length d)"] by (simp del: upt_Suc)
  then have "rev [length a..<length (c @ e # d)]
      = rev [Suc (length c)..<length (c @ e # d)] @ length c # rev [length a..<length c]" by simp
  moreover have "\<forall>i\<in>set (rev [Suc (length c)..<length (c @ e # d)]). \<not> P ((c @ e # d) ! i)"
    using assms(1) by (auto simp: nth_append nth_Cons')
  ultimately show ?thesis using assms(2) by (simp only: find_skip nth_append_length)
qed

lemma align_none: "\<forall>x\<in>set raw. \<not> ends_message x \<Longrightarrow> align_to_messages raw = ([], length raw, 0)"
  by (auto simp: align_to_messages_def find_None_iff[THEN iffD2] split: option.splits simp: find_Some_iff)

lemma align_one:
  assumes "\<forall>x\<in>set a. \<not> ends_message x" "ends_message e" "\<forall>x\<in>set b. \<not> ends_message x"
  shows "align_to_messages (a @ e # b) = ([], length a + 1, length b)"
proof -
  have n: "List.find (\<lambda>i. ends_message ((a @ e # b) ! i)) (rev [length a + 1..<length (a @ e # b)]) = None"
    unfolding find_None_iff using assms(3) by (auto simp: nth_append nth_Cons')
  show ?thesis
    unfolding align_to_messages_def find_first [OF assms(1,2)] using n by (cases b) (auto simp: Let_def)
qed

lemma align_two:
  assumes "\<forall>x\<in>set a. \<not> ends_message x" "ends_message e" "\<forall>x\<in>set d. \<not> ends_message x" "ends_message e2"
  shows "align_to_messages (a @ e # c @ e2 # d) = (c @ [e2], length a + 1, length d)"
proof -
  have r: "a @ e # c @ e2 # d = (a @ e # c) @ e2 # d" by simp
  have "List.find (\<lambda>i. ends_message ((a @ e # c @ e2 # d) ! i)) (rev [length a + 1..<length (a @ e # c @ e2 # d)])
      = Some (length (a @ e # c))"
    using find_last [OF assms(3,4), of "a @ [e]" "a @ e # c"] by simp
  then show ?thesis
    unfolding align_to_messages_def find_first [OF assms(1,2)] by (simp add: Let_def)
qed

lemma align_cases:
  obtains (none) "\<forall>x\<in>set raw. \<not> ends_message x"
  | (one) a e b where "raw = a @ e # b" "\<forall>x\<in>set a. \<not> ends_message x" "ends_message e" "\<forall>x\<in>set b. \<not> ends_message x"
  | (two) a e c e2 d where "raw = a @ e # c @ e2 # d" "\<forall>x\<in>set a. \<not> ends_message x" "ends_message e"
      "\<forall>x\<in>set d. \<not> ends_message x" "ends_message e2"
proof (cases "\<exists>x\<in>set raw. ends_message x")
  case True
  then obtain a e b where ab: "raw = a @ e # b" "ends_message e" "\<forall>x\<in>set a. \<not> ends_message x"
    using split_list_first_prop [of raw ends_message] by blast
  show ?thesis
  proof (cases "\<exists>x\<in>set b. ends_message x")
    case True
    then obtain c e2 d where "b = c @ e2 # d" "ends_message e2" "\<forall>x\<in>set d. \<not> ends_message x"
      using split_list_last_prop [of b ends_message] by blast
    with ab that(3) show ?thesis by blast
  qed (use ab that(2) in blast)
qed (use that(1) in blast)

section \<open>Facts on the symbol table\<close>

lemma insert_row_set: "set (insert_row r qs) = insert r (set qs)"
  by (induction qs) auto

lemma insert_row_sorted: "sorted (map fst qs) \<Longrightarrow> sorted (map fst (insert_row r qs))"
  by (induction qs) (auto simp: insert_row_set row_less_def not_less)

lemma sort_rows_facts: "sorted (map fst (sort_rows rs))" "set (sort_rows rs) = set rs"
  unfolding sort_rows_def by (induction rs) (auto simp: insert_row_set insert_row_sorted)

lemma first_rows_facts:
  assumes "sorted (map fst rs)" "\<forall>r\<in>set rs. case prev of None \<Rightarrow> True | Some a \<Rightarrow> a \<le> fst r"
  shows "sorted_wrt (<) (map fst (first_rows prev rs)) \<and> set (first_rows prev rs) \<subseteq> set rs \<and>
    fst ` set (first_rows prev rs) = fst ` set rs - set_option prev"
  using assms
proof (induction prev rs rule: first_rows.induct)
  case (2 prev r rs)
  show ?case
  proof (cases "prev = Some (fst r)")
    case False
    have "sorted_wrt (<) (map fst (first_rows (Some (fst r)) rs)) \<and> set (first_rows (Some (fst r)) rs) \<subseteq> set rs \<and>
        fst ` set (first_rows (Some (fst r)) rs) = fst ` set rs - {fst r}"
      using 2(2) [OF False] 2(3) by simp
    moreover have "\<forall>q\<in>set rs. fst r \<le> fst q" using 2(3) by simp
    moreover have "a < fst r" if "prev = Some a" for a using that 2(4) False by force
    ultimately show ?thesis
    proof (intro conjI)
      assume h: "sorted_wrt (<) (map fst (first_rows (Some (fst r)) rs)) \<and> set (first_rows (Some (fst r)) rs) \<subseteq> set rs \<and>
          fst ` set (first_rows (Some (fst r)) rs) = fst ` set rs - {fst r}" "\<forall>q\<in>set rs. fst r \<le> fst q"
        "\<And>a. prev = Some a \<Longrightarrow> a < fst r"
      have lt: "fst r < fst q" if "q \<in> set (first_rows (Some (fst r)) rs)" for q
      proof -
        have "fst q \<in> fst ` set rs - {fst r}" using h(1) that by (metis imageI)
        then show ?thesis using h(2) by force
      qed
      with conjunct1 [OF h(1)] False show "sorted_wrt (<) (map fst (first_rows prev (r # rs)))"
        by (simp add: sorted_wrt_map)
      show "set (first_rows prev (r # rs)) \<subseteq> set (r # rs)" using False h(1) by auto
      have "a \<notin> fst ` set (r # rs)" if "prev = Some a" for a using h(2) h(3) [OF that] by force
      then show "fst ` set (first_rows prev (r # rs)) = fst ` set (r # rs) - set_option prev"
        using False h(1) by (cases prev) auto
    qed
  qed (use 2 in auto)
qed simp

definition table_ok :: "symbol_table \<Rightarrow> bool" where
  "table_ok st \<longleftrightarrow> sorted_wrt (<) (st_addrs st) \<and> length (st_names st) = length (st_addrs st) \<and>
     (st_addrs st \<noteq> [] \<longrightarrow> length (st_ends st) = length (st_addrs st) \<and>
       (\<forall>i < length (st_addrs st). st_ends st ! i =
          (if i + 1 < length (st_addrs st) then st_addrs st ! (i + 1) else st_addrs st ! i + 0x1000)))"

lemma ends_nth:
  assumes "i < length (xs :: int list)"
  shows "(drop (Suc 0) xs @ [last xs + 4096]) ! i = (if Suc i < length xs then xs ! Suc i else xs ! i + 4096)"
proof (cases "Suc i < length xs")
  case True
  then have "i < length (drop (Suc 0) xs)" by simp
  then show ?thesis using True by (simp add: nth_append)
next
  case False
  then have "i = length xs - 1" using assms by simp
  moreover have "xs \<noteq> []" using assms by auto
  ultimately show ?thesis using False by (simp add: nth_append last_conv_nth)
qed

lemma symbols_from_text_ok: "table_ok (symbols_from_text text src)"
proof -
  define rows where "rows = first_rows None (sort_rows (symbol_rows text))"
  have "sorted_wrt (<) (map fst rows)"
    using first_rows_facts [OF sort_rows_facts(1), where prev = None] by (simp add: rows_def)
  then show ?thesis
    unfolding symbols_from_text_def rows_def [symmetric] table_ok_def Let_def
    using ends_nth [of _ "map fst rows"] by simp
qed

lemma takeWhile_sorted:
  assumes "sorted_wrt (<) (xs :: int list)" "i < length xs"
  shows "i < length (takeWhile (\<lambda>a. a \<le> x) xs) \<longleftrightarrow> xs ! i \<le> x"
  using assms
proof (induction xs arbitrary: i)
  case (Cons a xs)
  then show ?case by (cases i) (auto, metis less_le_trans nth_mem order_less_imp_le)
qed simp

lemma sym_lookup_exact:
  assumes "table_ok st"
  shows "sym_lookup st pc = Some (n, a, off) \<longleftrightarrow>
    (\<exists>i < length (st_addrs st). n = st_names st ! i \<and> a = st_addrs st ! i \<and> off = pc - a \<and> a \<le> pc \<and> pc < st_ends st ! i)"
proof (cases "st_addrs st = []")
  case False
  let ?xs = "st_addrs st" and ?k = "bisect_right (st_addrs st) pc"
  have srt: "sorted_wrt (<) ?xs" and le: "length (st_ends st) = length ?xs"
    and ends: "\<And>i. i < length ?xs \<Longrightarrow> st_ends st ! i = (if i + 1 < length ?xs then ?xs ! (i + 1) else ?xs ! i + 0x1000)"
    using assms False by (auto simp: table_ok_def)
  have k: "i < ?k \<longleftrightarrow> ?xs ! i \<le> pc" if "i < length ?xs" for i
    using takeWhile_sorted [OF srt that] by (simp add: bisect_right_def)
  have kl: "?k \<le> length ?xs" by (simp add: bisect_right_def length_takeWhile_le)
  have uniq: "i = ?k - 1 \<and> 0 < ?k" if i: "i < length ?xs" "?xs ! i \<le> pc" "pc < st_ends st ! i" for i
  proof -
    have "i < ?k" using k [OF i(1)] i(2) by simp
    moreover have "\<not> i + 1 < ?k"
    proof
      assume "i + 1 < ?k"
      then have "i + 1 < length ?xs" "?xs ! (i + 1) \<le> pc" using kl k [of "i + 1"] by auto
      then show False using ends [OF i(1)] i(3) by simp
    qed
    ultimately show ?thesis by simp
  qed
  show ?thesis
  proof (cases "?k = 0")
    case True
    then show ?thesis using uniq False by (auto simp: sym_lookup_def)
  next
    case k0: False
    then have "?xs ! (?k - 1) \<le> pc" using k [of "?k - 1"] kl by auto
    moreover have "?k - 1 < length ?xs" using k0 kl by simp
    moreover have "sym_lookup st pc = (if st_ends st ! (?k - 1) \<le> pc then None
        else Some (st_names st ! (?k - 1), ?xs ! (?k - 1), pc - ?xs ! (?k - 1)))"
      using False k0 by (simp add: sym_lookup_def Let_def)
    ultimately show ?thesis using uniq by (metis not_le option.distinct(1) option.inject prod.inject)
  qed
qed (simp add: sym_lookup_def)

lemma bisect_left_hit:
  "sorted_wrt (<) xs \<Longrightarrow> x \<in> set xs \<Longrightarrow> bisect_left xs x < length xs \<and> xs ! bisect_left xs x = x"
  unfolding bisect_left_def by (induction xs) auto

lemma sym_is_entry: "table_ok st \<Longrightarrow> is_entry st pc \<longleftrightarrow> pc \<in> set (st_addrs st)"
  using bisect_left_hit [of "st_addrs st" pc] by (auto simp: is_entry_def Let_def table_ok_def) (metis nth_mem)

section \<open>Facts on the call stack\<close>

text \<open>The ideal call stack: \<open>None\<close> when a return does not go to the top frame, or the stack is too deep.\<close>

fun nested :: "call_sites \<Rightarrow> int list \<Rightarrow> int option \<Rightarrow> int list \<Rightarrow> int list option" where
  "nested sites stack prev [] = Some stack"
| "nested sites stack prev (pc # pcs) =
     (case prev of None \<Rightarrow> nested sites stack (Some pc) pcs
      | Some p \<Rightarrow>
        if pc = p + 4 then nested sites stack (Some pc) pcs
        else if p \<in> set (cs_calls sites) then
          (if length stack < STACK_LIMIT then nested sites (stack @ [p + 4]) (Some pc) pcs else None)
        else if p \<in> set (cs_rets sites) then
          (if stack \<noteq> [] \<and> last stack = pc then nested sites (butlast stack) (Some pc) pcs else None)
        else nested sites stack (Some pc) pcs)"

lemma label_step_fields [simp]:
  "pa_stack (label_step syms pc a) = pa_stack a" "pa_lost (label_step syms pc a) = pa_lost a"
  "pa_calls (label_step syms pc a) = pa_calls a" "pa_returns (label_step syms pc a) = pa_returns a"
  "pa_unwinds (label_step syms pc a) = pa_unwinds a" "pa_prev (label_step syms pc a) = pa_prev a"
  by (simp_all add: label_step_def Let_def)

lemma label_step_sum: "sum_list (map snd (pa_per_func (label_step syms pc a))) = sum_list (map snd (pa_per_func a)) + 1"
  by (simp add: label_step_def Let_def sum_dict_bump [where n = 1, simplified])

lemma transfer_step_per_func [simp]: "pa_per_func (transfer_step ok sites prev pc a) = pa_per_func a"
  by (simp add: transfer_step_def call_step_def return_step_def Let_def split: option.splits)

lemma pc_loop_sum: "sum_list (map snd (pa_per_func (pc_loop syms ok sites pcs a))) = sum_list (map snd (pa_per_func a)) + length pcs"
  unfolding pc_loop_def
  by (induction pcs arbitrary: a) (simp_all add: pc_step_def Let_def label_step_sum split: option.splits)

lemma find_frame_top: "stack \<noteq> [] \<Longrightarrow> last stack = pc \<Longrightarrow> find_frame stack pc = Some 1"
proof -
  assume s: "stack \<noteq> []" "last stack = pc"
  then have "[1..<min (length stack) UNWIND_SEARCH + 1] = 1 # [2..<min (length stack) UNWIND_SEARCH + 1]"
    by (subst upt_conv_Cons) (auto simp: UNWIND_SEARCH_def numeral_2_eq_2 Suc_le_eq)
  then show ?thesis using s by (simp add: find_frame_def last_conv_nth)
qed

lemma pc_loop_nested:
  assumes "nested sites stack prev pcs = Some st" "pa_stack a = stack" "\<not> pa_lost a" "pa_prev a = prev"
    "pa_unwinds a = 0" "pa_calls a = pa_returns a + length stack"
  shows "pa_stack (pc_loop syms True sites pcs a) = st \<and> \<not> pa_lost (pc_loop syms True sites pcs a) \<and>
    pa_unwinds (pc_loop syms True sites pcs a) = 0 \<and>
    pa_calls (pc_loop syms True sites pcs a) = pa_returns (pc_loop syms True sites pcs a) + length st"
  using assms
proof (induction pcs arbitrary: stack prev a)
  case (Cons pc pcs)
  have l: "pc_loop syms True sites (pc # pcs) a = pc_loop syms True sites pcs (pc_step syms True sites pc a)"
    by (simp add: pc_loop_def)
  note IH = Cons.IH [of _ "Some pc" "pc_step syms True sites pc a", folded l]
  show ?case
  proof (cases prev)
    case None
    then show ?thesis using Cons.prems by (intro IH [of stack]) (simp_all add: pc_step_def)
  next
    case (Some p)
    show ?thesis
    proof (cases "pc = p + 4")
      case True
      then show ?thesis using Cons.prems Some by (intro IH [of stack]) (simp_all add: pc_step_def)
    next
      case jump: False
      consider "p \<in> set (cs_calls sites)" | "p \<notin> set (cs_calls sites)" "p \<in> set (cs_rets sites)"
        | "p \<notin> set (cs_calls sites)" "p \<notin> set (cs_rets sites)" by blast
      then show ?thesis
      proof cases
        case 1
        then show ?thesis using Cons.prems Some jump
          by (intro IH [of "stack @ [p + 4]"])
             (auto simp: pc_step_def transfer_step_def call_step_def Let_def split: if_splits)
      next
        case 2
        then have top: "stack \<noteq> []" "last stack = pc" using Cons.prems Some jump by (auto split: if_splits)
        then show ?thesis using Cons.prems Some jump 2
          by (intro IH [of "butlast stack"])
             (auto simp: pc_step_def transfer_step_def return_step_def Let_def find_frame_top butlast_conv_take
               Suc_diff_le Suc_le_eq split: if_splits)
      next
        case 3
        then show ?thesis using Cons.prems Some jump
          by (intro IH [of stack]) (auto simp: pc_step_def transfer_step_def Let_def)
      qed
    qed
  qed
qed (simp add: pc_loop_def)

section \<open>Facts on the message scan\<close>

text \<open>A wire window: idle bytes and messages, each from a byte with MSEO 00 to one with MSEO 11.\<close>

datatype wire_item = Idle | Msg byte "byte list" byte

fun wire_bytes :: "wire_item \<Rightarrow> byte list" where
  "wire_bytes Idle = [0xFF]"
| "wire_bytes (Msg h mid e) = h # mid @ [e]"

fun wire_ok :: "wire_item \<Rightarrow> bool" where
  "wire_ok Idle \<longleftrightarrow> True"
| "wire_ok (Msg h mid e) \<longleftrightarrow> h AND 3 = 0 \<and> (\<forall>b\<in>set mid. b AND 3 \<noteq> 3) \<and> e AND 3 = 3 \<and> drop_bit 2 e \<noteq> 0x3F"

fun wire_tcode :: "wire_item \<Rightarrow> nat option" where
  "wire_tcode Idle = None"
| "wire_tcode (Msg h mid e) = Some (unat (drop_bit 2 h AND 0x3F))"

lemma scan_mid: "\<forall>b\<in>set mid. b AND 3 \<noteq> 3 \<Longrightarrow> \<not> ms_prev_end m \<Longrightarrow> fold scan_step mid m = m"
proof (induction mid arbitrary: m)
  case (Cons b mid)
  then have "scan_step b m = m" by (simp add: scan_step_def Let_def)
  with Cons show ?case by simp
qed simp

lemma scan_item:
  assumes "wire_ok it" "ms_prev_end m"
  shows "ms_prev_end (fold scan_step (wire_bytes it) m) \<and>
    ms_msgs (fold scan_step (wire_bytes it) m) = ms_msgs m + (if it = Idle then 0 else 1) \<and>
    ms_idle (fold scan_step (wire_bytes it) m) = ms_idle m + (if it = Idle then 1 else 0) \<and>
    (\<forall>t. dict_get_or (ms_counts (fold scan_step (wire_bytes it) m)) t 0
       = dict_get_or (ms_counts m) t 0 + (if wire_tcode it = Some t then 1 else 0))"
proof (cases it)
  case Idle
  have "(0xFF :: byte) AND 3 = 3" "drop_bit 2 (0xFF :: byte) = 0x3F" by code_simp+
  then show ?thesis using Idle by (simp add: scan_step_def Let_def)
next
  case (Msg h mid e)
  define m1 where "m1 = scan_step h m"
  have h: "h AND 3 = 0" "\<forall>b\<in>set mid. b AND 3 \<noteq> 3" "e AND 3 = 3" "drop_bit 2 e \<noteq> 0x3F" using assms Msg by simp_all
  have m1: "\<not> ms_prev_end m1" "ms_msgs m1 = ms_msgs m + 1" "ms_idle m1 = ms_idle m"
      "\<And>t. dict_get_or (ms_counts m1) t 0 = dict_get_or (ms_counts m) t 0 + (if unat (drop_bit 2 h AND 0x3F) = t then 1 else 0)"
    using assms(2) h(1) by (auto simp: m1_def scan_step_def Let_def dict_get_or_def)
  have "fold scan_step (wire_bytes it) m = scan_step e m1"
    using scan_mid [OF h(2) m1(1)] by (simp add: Msg m1_def)
  then show ?thesis using m1 h Msg by (simp add: scan_step_def Let_def)
qed

lemma scan_items:
  assumes "\<forall>it\<in>set its. wire_ok it" "ms_prev_end m"
  shows "ms_prev_end (fold scan_step (concat (map wire_bytes its)) m) \<and>
    ms_msgs (fold scan_step (concat (map wire_bytes its)) m) = ms_msgs m + length (filter (\<lambda>it. it \<noteq> Idle) its) \<and>
    ms_idle (fold scan_step (concat (map wire_bytes its)) m) = ms_idle m + length (filter (\<lambda>it. it = Idle) its) \<and>
    (\<forall>t. dict_get_or (ms_counts (fold scan_step (concat (map wire_bytes its)) m)) t 0
       = dict_get_or (ms_counts m) t 0 + length (filter (\<lambda>it. wire_tcode it = Some t) its))"
  using assms
proof (induction its arbitrary: m)
  case (Cons it its)
  then show ?case using scan_item [of it m] Cons.IH [of "fold scan_step (wire_bytes it) m"] by simp
qed simp

section \<open>The state over a run\<close>

inductive insight_step :: "insight_state \<Rightarrow> insight_state \<Rightarrow> bool" where
  "insight_step s (set_symbols_text text src s)"
| "insight_step s (set_sites_text text src s)"
| "insight_step s (snd (note_beat t n s))"
| "insight_step s (push_rate t bps ips bpi s)"
| "insight_step s (add_window pcs bytes secs fixed s)"
| "insight_step s (insight_reset s)"

definition insight_ok :: "insight_state \<Rightarrow> bool" where
  "insight_ok s \<longleftrightarrow> sum_list (map snd (is_func_counts s)) = is_total_instr s \<and>
     is_decode_instr s = is_total_instr s \<and> is_decode_bytes s = is_total_bytes s \<and>
     length (is_hist s) \<le> MAX_HIST \<and> distinct (map fst (is_func_counts s)) \<and> distinct (st_addrs (is_symbols s))"

lemma add_counts_facts:
  "sum_list (map snd (add_counts d pf)) = sum_list (map snd d) + sum_list (map snd pf)"
  "distinct (map fst d) \<Longrightarrow> distinct (map fst (add_counts d pf))"
  unfolding add_counts_def
  by (induction pf arbitrary: d) (auto simp: sum_dict_bump distinct_dict_set)

lemma analyse_sum: "sum_list (map snd (pa_per_func (fst (analyse syms fixed sites pcs)))) = length pcs"
  by (simp add: analyse_def Let_def pc_loop_sum) (simp add: no_analysis_def)

lemma insight_init_ok: "insight_ok insight_init"
  by (simp add: insight_ok_def insight_init_def empty_symbols_def)

lemma table_ok_distinct: "table_ok st \<Longrightarrow> distinct (st_addrs st)"
  by (simp add: table_ok_def strict_sorted_iff)

lemma insight_step_ok: "insight_step s s' \<Longrightarrow> insight_ok s \<Longrightarrow> insight_ok s'"
proof (induction rule: insight_step.induct)
  case (5 s pcs bytes secs fixed)
  obtain a d where an: "analyse (is_symbols s) fixed (Some (is_sites s)) pcs = (a, d)" by fastforce
  then have "sum_list (map snd (pa_per_func a)) = length pcs"
    using analyse_sum [of "is_symbols s" fixed "Some (is_sites s)" pcs] by simp
  with 5 show ?case by (simp add: insight_ok_def add_window_def Let_def add_counts_facts an)
qed (auto simp: insight_ok_def set_symbols_text_def set_sites_text_def note_beat_def push_rate_def insight_reset_def
    insight_init_def table_ok_distinct [OF symbols_from_text_ok])

lemma coverage_le:
  assumes "insight_ok s" "coverage s = (known, seen, share)"
  shows "seen \<le> known"
proof -
  let ?A = "set (st_addrs (is_symbols s))" and ?f = "filter (\<lambda>(a, _). a \<in> set (st_addrs (is_symbols s))) (is_func_counts s)"
  have "distinct (map fst ?f)" using assms(1) by (simp add: insight_ok_def distinct_map_filter)
  then have "length ?f = card (fst ` set ?f)" by (metis distinct_card length_map set_map)
  also have "\<dots> \<le> card ?A" by (rule card_mono) auto
  also have "\<dots> \<le> length (st_addrs (is_symbols s))" by (rule card_length)
  finally show ?thesis using assms(2) by (auto simp: coverage_def Let_def split: if_splits)
qed

lemma pcout_lines_take:
  "length out < limit \<Longrightarrow> pcout_lines ls limit out = take limit (pcout_lines ls 0 out)"
proof (induction ls arbitrary: out)
  case (Cons l ls)
  have pre: "\<exists>r. pcout_lines ls 0 out = out @ r" for out
  proof (induction ls arbitrary: out)
    case (Cons l ls)
    show ?case
      using Cons [of out] Cons [of "out @ [the (bytes_int 16 (bstrip l))]"]
      by (auto simp: Let_def split: option.splits)
  qed simp
  show ?case
  proof (cases "bstrip l = [] \<or> bytes_int 16 (bstrip l) = None")
    case False
    then obtain v where v: "bstrip l \<noteq> []" "bytes_int 16 (bstrip l) = Some v" by auto
    show ?thesis
    proof (cases "limit \<le> length (out @ [v])")
      case True
      then have "limit = length (out @ [v])" using Cons.prems by simp
      then show ?thesis using v pre [of "out @ [v]"] by (auto simp: Let_def)
    next
      case False
      then show ?thesis using v Cons.IH [of "out @ [v]"] by (simp add: Let_def)
    qed
  qed (use Cons in \<open>auto simp: Let_def\<close>)
qed simp

section \<open>Properties\<close>

text \<open>
  Trimming cuts a window at message ends: the payload is a slice of the window, it begins right
  after the first message end and ends with the last one, and it is empty exactly when the window
  has fewer than two message ends.
\<close>

lemma align_to_messages_exact:
  "case align_to_messages raw of (p, h, t) \<Rightarrow>
     h + length p + t = length raw \<and> p = take (length p) (drop h raw) \<and>
     (p = [] \<longleftrightarrow> length (filter ends_message raw) < 2) \<and>
     (p \<noteq> [] \<longrightarrow> 0 < h \<and> ends_message (raw ! (h - 1)) \<and> (\<forall>b\<in>set (take (h - 1) raw). \<not> ends_message b) \<and>
        ends_message (last p) \<and> (\<forall>b\<in>set (drop (h + length p) raw). \<not> ends_message b))"
proof (cases rule: align_cases [of raw])
  case none
  then have "filter ends_message raw = []" by (simp add: filter_empty_conv)
  then show ?thesis using align_none [OF none] by simp
next
  case (one a e b)
  then have "filter ends_message a = []" "filter ends_message b = []" by (simp_all add: filter_empty_conv)
  then show ?thesis using one align_one [of a e b] by simp
next
  case (two a e c e2 d)
  then show ?thesis using align_two [of a e d e2 c] by (auto simp: nth_append)
qed

lemma align_to_messages_exact_witness:
  "align_to_messages [0, 3, 4, 8, 7, 0] = ([4, 8, 7], 2, 1) \<and> ends_message (last [4, 8, 7 :: byte])"
proof -
  have v: "align_to_messages [0, 3, 4, 8, 7, 0] = ([4, 8, 7], 2, 1)" by code_simp
  show ?thesis using align_to_messages_exact [of "[0, 3, 4, 8, 7, 0]"] unfolding v by simp
qed

text \<open>
  Symbol lookup is exact on every table built from a listing: the hit is the one symbol whose range
  holds the address, the ranges being disjoint and in order; an address is an entry exactly when the
  table lists it.
\<close>

lemma symbol_lookup_exact:
  "let st = symbols_from_text text src in
     sorted_wrt (<) (st_addrs st) \<and> (is_entry st pc \<longleftrightarrow> pc \<in> set (st_addrs st)) \<and>
     (sym_lookup st pc = Some (n, a, off) \<longleftrightarrow>
       (\<exists>i < length (st_addrs st). n = st_names st ! i \<and> a = st_addrs st ! i \<and> off = pc - a \<and> a \<le> pc \<and>
          pc < (if i + 1 < length (st_addrs st) then st_addrs st ! (i + 1) else a + 0x1000)))"
proof -
  note ok = symbols_from_text_ok [of "text" src]
  let ?st = "symbols_from_text text src"
  have e: "st_ends ?st ! i = (if i + 1 < length (st_addrs ?st) then st_addrs ?st ! (i + 1) else st_addrs ?st ! i + 0x1000)"
    if "i < length (st_addrs ?st)" for i
    using ok that by (cases "st_addrs ?st = []") (simp_all add: table_ok_def)
  have "sorted_wrt (<) (st_addrs ?st)" using ok by (simp add: table_ok_def)
  moreover have "sym_lookup ?st pc = Some (n, a, off) \<longleftrightarrow>
       (\<exists>i < length (st_addrs ?st). n = st_names ?st ! i \<and> a = st_addrs ?st ! i \<and> off = pc - a \<and> a \<le> pc \<and>
          pc < (if i + 1 < length (st_addrs ?st) then st_addrs ?st ! (i + 1) else a + 0x1000))"
    unfolding sym_lookup_exact [OF ok] using e by (intro ex_cong1) auto
  ultimately show ?thesis using sym_is_entry [OF ok, of pc] unfolding Let_def by blast
qed

text \<open>C36: 
  On a window whose returns go to the top frame and whose nesting stays within the limit, the call
  depth is the height of the ideal stack, nothing is unwound, and calls and returns balance; on every
  window the instructions per function add up to its length.
\<close>

theorem call_depth_exact:
  assumes "nested sites [] None pcs = Some stack" "pcs \<noteq> []" "sites_count sites \<noteq> 0"
  shows "case analyse syms True (Some sites) pcs of (a, d) \<Rightarrow>
     d = Depth (length stack) \<and> pa_unwinds a = 0 \<and> pa_calls a = pa_returns a + length stack \<and>
     sum_list (map snd (pa_per_func a)) = length pcs"
proof -
  let ?a0 = "no_analysis\<lparr>pa_n := length pcs, pa_first := Some (hd pcs), pa_last := Some (last pcs)\<rparr>"
  have "pa_stack (pc_loop syms True sites pcs ?a0) = stack \<and> \<not> pa_lost (pc_loop syms True sites pcs ?a0) \<and>
    pa_unwinds (pc_loop syms True sites pcs ?a0) = 0 \<and>
    pa_calls (pc_loop syms True sites pcs ?a0) = pa_returns (pc_loop syms True sites pcs ?a0) + length stack"
    by (rule pc_loop_nested [OF assms(1)]) (simp_all add: no_analysis_def)
  then show ?thesis
    using assms(2,3) analyse_sum [of syms True "Some sites" pcs] by (simp add: analyse_def Let_def opt_or_def)
qed

lemma call_depth_exact_witness:
  "snd (analyse empty_symbols True (Some \<lparr>cs_calls = [4, 100], cs_rets = [104], cs_source = None\<rparr>)
     [0, 4, 100, 200, 204, 208]) = Depth 2"
proof -
  have "nested \<lparr>cs_calls = [4, 100], cs_rets = [104], cs_source = None\<rparr> [] None [0, 4, 100, 200, 204, 208] = Some [8, 104]"
    by code_simp
  from call_depth_exact [OF this, of empty_symbols] show ?thesis by (simp add: sites_count_def split: prod.splits)
qed

text \<open>
  The message statistics count every message of a window of idle bytes and whole messages after a
  message end, once, under the type code of its first byte, and every idle byte.
\<close>

lemma scan_messages_exact:
  assumes "\<forall>it\<in>set its. wire_ok it" "e AND 3 = 3" "drop_bit 2 e \<noteq> 0x3F"
  shows "let m = scan_messages (e # concat (map wire_bytes its)) in
     ms_msgs m = length (filter (\<lambda>it. it \<noteq> Idle) its) \<and> ms_idle m = length (filter (\<lambda>it. it = Idle) its) \<and>
     (\<forall>t. dict_get_or (ms_counts m) t 0 = length (filter (\<lambda>it. wire_tcode it = Some t) its))"
proof -
  let ?m0 = "\<lparr> ms_counts = [], ms_msgs = 0, ms_idle = 0, ms_started = False, ms_prev_end = False \<rparr>"
  have "scan_step e ?m0 = ?m0\<lparr>ms_prev_end := True\<rparr>" using assms(2,3) by (simp add: scan_step_def Let_def)
  then have "scan_messages (e # concat (map wire_bytes its)) = fold scan_step (concat (map wire_bytes its)) (?m0\<lparr>ms_prev_end := True\<rparr>)"
    by (simp add: scan_messages_def)
  then show ?thesis
    using scan_items [OF assms(1), of "?m0\<lparr>ms_prev_end := True\<rparr>"] by (simp add: Let_def dict_get_or_def)
qed

lemma scan_messages_exact_witness:
  "ms_msgs (scan_messages [3, 0x70, 0x01, 0x07, 0xFF, 0x70, 0x13]) = 2"
proof -
  have ok: "\<forall>it\<in>set [Msg 0x70 [0x01] 0x07, Idle, Msg 0x70 [] 0x13]. wire_ok it" "(3 :: byte) AND 3 = 3" "drop_bit 2 (3 :: byte) \<noteq> 0x3F"
    by code_simp+
  from scan_messages_exact [OF ok] show ?thesis by (simp add: Let_def)
qed

text \<open>
  Over every run of the accumulated state the instruction total is the sum of the per-function
  counts, the decoder counters agree with the totals, the history stays within its limit, and the
  functions seen never exceed the functions known.
\<close>

lemma insight_run_consistent:
  assumes "insight_step\<^sup>*\<^sup>* insight_init s"
  shows "sum_list (map snd (is_func_counts s)) = is_total_instr s \<and> is_decode_instr s = is_total_instr s \<and>
     is_decode_bytes s = is_total_bytes s \<and> length (is_hist s) \<le> MAX_HIST \<and>
     fst (snd (coverage s)) \<le> fst (coverage s)"
proof -
  have ok: "insight_ok s"
    using assms by (induction rule: rtranclp_induct) (auto intro: insight_init_ok insight_step_ok)
  then show ?thesis using coverage_le [OF ok, of "fst (coverage s)" "fst (snd (coverage s))" "snd (snd (coverage s))"]
    by (simp add: insight_ok_def)
qed

lemma insight_run_consistent_witness:
  "is_total_instr (add_window [16, 20] 8 1 True insight_init)
     = sum_list (map snd (is_func_counts (add_window [16, 20] 8 1 True insight_init)))"
  using insight_run_consistent [of "add_window [16, 20] 8 1 True insight_init"] insight_step.intros(5) [of insight_init]
  by (simp add: r_into_rtranclp)

text \<open>A limit on the decoded addresses keeps the first ones and changes nothing else.\<close>

lemma parse_pcout_limit:
  "parse_pcout data (Some (Suc n)) = take (Suc n) (parse_pcout data None)"
  by (simp add: parse_pcout_def opt_or_def pcout_lines_take)

end
