(* ===== verification/Board_State.thy ===== *)
theory Board_State
  imports Trace_Sinks Insight
begin

unbundle bit_operations_syntax

text \<open>
  What the board has loaded (\<open>pl_clk0_state\<close>, \<open>plclk_wanted\<close>, \<open>set_pl_clk0\<close>, \<open>bitstream_identity\<close>,
  \<open>closure_state\<close>, \<open>board_state\<close>, \<open>_slots\<close> of the dashboard server). The outputs of the commands,
  the files and the hash function are inputs; a rate in MHz is an exact rational.
\<close>

section \<open>The PL clock\<close>

definition CRL_PL0_REF_CTRL :: int where "CRL_PL0_REF_CTRL = 0xFF5E00C0"

definition PL_CLK_SRC :: "(int, string \<times> int option) dict" where
  "PL_CLK_SRC = [(0, ''IOPLL'', Some 1500000000), (1, ''IOPLL'', Some 1500000000), (2, ''RPLL'', None), (3, ''DPLL'', None)]"

record clk =
  ck_raw :: "int option"
  ck_srcsel :: "int option"
  ck_src :: "string option"
  ck_div0 :: "int option"
  ck_div1 :: "int option"
  ck_clkact :: "int option"
  ck_hz :: "int option"
  ck_error :: "report_text option"

definition clk0 :: clk where
  "clk0 = \<lparr> ck_raw = None, ck_srcsel = None, ck_src = None, ck_div0 = None, ck_div1 = None,
     ck_clkact = None, ck_hz = None, ck_error = None \<rparr>"

definition clk_of :: "int \<Rightarrow> clk" where
  "clk_of raw =
     (let div0 = drop_bit 8 raw AND 0x3F; div1 = drop_bit 16 raw AND 0x3F; srcsel = raw AND 7;
          src = dict_get PL_CLK_SRC srcsel;
          st = clk0\<lparr> ck_raw := Some raw, ck_clkact := Some (drop_bit 24 raw AND 1), ck_div0 := Some div0,
                 ck_div1 := Some div1, ck_srcsel := Some srcsel, ck_src := map_option fst src \<rparr> in
      case (case src of None \<Rightarrow> None | Some (_, hz) \<Rightarrow> hz) of
        None \<Rightarrow> st\<lparr>ck_error := Some (''clock source: rate not established'',
                    case src of Some (name, _) \<Rightarrow> [AS name] | None \<Rightarrow> [AI srcsel])\<rparr>
      | Some pll \<Rightarrow>
          if div0 \<noteq> 0 \<and> div1 \<noteq> 0 then st\<lparr>ck_hz := Some (pll div (div0 * div1))\<rparr>
          else st\<lparr>ck_error := Some (''divisor 0 -- clock stopped'', [])\<rparr>)"

text \<open>\<open>rd\<close> reads the register; \<open>OSError\<close> and \<open>ValueError\<close> are reported.\<close>

definition pl_clk0_state :: "('s, int) act \<Rightarrow> ('s, clk) act" where
  "pl_clk0_state rd s = (case rd s of
     (Inr raw, t) \<Rightarrow> (Inr (clk_of raw), t)
   | (Inl (Exn k m xs), t) \<Rightarrow>
       if k = OSError \<or> k = ValueError
       then (Inr (clk0\<lparr>ck_error := Some (''PL0_REF_CTRL read failed'', [AS m])\<rparr>), t)
       else (Inl (Exn k m xs), t))"

text \<open>The read on the board.\<close>

definition crl_read :: "bool \<Rightarrow> (hw, int) act" where
  "crl_read dev = ps_reg dev CRL_PL0_REF_CTRL None"

definition PLCLK_DIV :: "(int, int) dict" where
  "PLCLK_DIV = [(68, 22), (75, 20), (100, 15)]"

text \<open>\<open>plclk.json\<close>: an entry is a dictionary with its \<open>mhz\<close>, or something else; \<open>None\<close>: unreadable.\<close>

datatype plclk_entry = PE_Dict "int option" | PE_Other

definition plclk_wanted :: "(string, plclk_entry) dict option \<Rightarrow> string \<Rightarrow> int option" where
  "plclk_wanted doc sid =
     (case doc of None \<Rightarrow> None
      | Some d \<Rightarrow> (case dict_get d sid of
          Some (PE_Dict (Some mhz)) \<Rightarrow> if dict_get PLCLK_DIV mhz \<noteq> None then Some mhz else None
        | _ \<Rightarrow> None))"

definition want_hz :: "int \<Rightarrow> int" where
  "want_hz mhz = 1500000000 div dict_get_or PLCLK_DIV mhz 1"

definition PLCLK_TOOL_PATHS :: "string list" where
  "PLCLK_TOOL_PATHS = [''kv260_plclk.sh'', ''/usr/local/share/ctrace/kv260_plclk.sh'', ''/tmp/kv260_plclk.sh'']"

text \<open>\<open>beside\<close> puts a name next to the server.\<close>

definition plclk_tool :: "(string \<Rightarrow> string) \<Rightarrow> (string \<Rightarrow> bool) \<Rightarrow> string option" where
  "plclk_tool beside is_file =
     List.find is_file (map (\<lambda>p. if startswith p ''/'' then p else beside p) PLCLK_TOOL_PATHS)"

text \<open>\<open>tool\<close> is the found script, \<open>run\<close> runs it with the label; the step is returned.\<close>

definition set_pl_clk0 :: "string option \<Rightarrow> (int \<Rightarrow> ('s, int \<times> string) act) \<Rightarrow> ('s, int) act \<Rightarrow> int \<Rightarrow>
    ('s, bool \<times> cmd_step) act" where
  "set_pl_clk0 tool run rd mhz =
     (case tool of
        None \<Rightarrow> ret (False, \<lparr> cs_cmd = ''pl_clk0'', cs_rc = 1, cs_out = (''kv260_plclk.sh not found'', [AI mhz]) \<rparr>)
      | Some _ \<Rightarrow>
        bnd (run mhz) (\<lambda>(rc, out).
        bnd (pl_clk0_state rd) (\<lambda>c.
        let ok = (rc = 0 \<and> ck_hz c = Some (want_hz mhz)) in
        ret (ok, \<lparr> cs_cmd = ''pl_clk0'', cs_rc = (if ok then 0 else 1),
                   cs_out = (''readback'', [AS (last_n 200 (strip out)), AI (case ck_hz c of Some h \<Rightarrow> h | None \<Rightarrow> -1),
                                          AI (want_hz mhz)]) \<rparr>))))"

section \<open>The slots\<close>

text \<open>The rows of \<open>xmutil listapps\<close>: the first and the last word of every line but the first.\<close>

definition app_rows :: "string \<Rightarrow> (string \<times> string) list" where
  "app_rows out = map (\<lambda>f. (hd f, last f)) (filter (\<lambda>f. 2 \<le> length f) (map split_ws (drop 1 (splitlines out))))"

definition in_slot :: "string \<Rightarrow> bool" where
  "in_slot f \<longleftrightarrow> f \<noteq> ''-1'' \<and> f \<noteq> []"

definition slots_of :: "int \<times> string \<Rightarrow> (string, string) dict" where
  "slots_of r = (if fst r = 0
     then fold (\<lambda>(app, slot) d. if in_slot slot then dict_set app slot d else d) (app_rows (snd r)) [] else [])"

section \<open>The identity of the bitstream\<close>

record bit_file =
  bf_path :: string
  bf_name :: string
  bf_stat :: "(int \<times> int) option"
  bf_data :: "byte list option"

record bit_id =
  bi_app :: "string option"
  bi_file :: "string option"
  bi_size :: "int option"
  bi_md5 :: "string option"
  bi_error :: "report_text option"

type_synonym md5_cache = "((string \<times> int \<times> int) \<times> string) option"

text \<open>\<open>fw\<close>: the \<open>.bit.bin\<close> files of an app in order, \<open>None\<close> without such a directory.
  \<open>bf_stat\<close> is the time of change and the size. The cache holds the current entry only.\<close>

definition bitstream_identity :: "(string \<Rightarrow> bit_file list option) \<Rightarrow> (byte list \<Rightarrow> string) \<Rightarrow> string option \<Rightarrow>
    md5_cache \<Rightarrow> bit_id \<times> md5_cache" where
  "bitstream_identity fw md5 app cache =
     (let st = \<lparr> bi_app = app, bi_file = None, bi_size = None, bi_md5 = None, bi_error = None \<rparr> in
      if \<not> truthy_str app then (st\<lparr>bi_error := Some (''no app in the active slot'', [])\<rparr>, cache)
      else case opt_or (fw (the app)) [] of
        [] \<Rightarrow> (st\<lparr>bi_error := Some (''no .bit.bin'', [AS (the app)])\<rparr>, cache)
      | p # _ \<Rightarrow>
        (case bf_stat p of
           None \<Rightarrow> (st\<lparr>bi_error := Some (''stat'', [AS (bf_path p)])\<rparr>, cache)
         | Some (mtime, sz) \<Rightarrow>
           let st1 = st\<lparr> bi_file := Some (bf_name p), bi_size := Some sz \<rparr>;
               key = (bf_path p, mtime, sz) in
           (case cache of
              Some (k, h) \<Rightarrow>
                if k = key then (st1\<lparr>bi_md5 := Some h\<rparr>, cache)
                else (case bf_data p of
                    None \<Rightarrow> (st1\<lparr>bi_error := Some (''open'', [AS (bf_path p)])\<rparr>, cache)
                  | Some bs \<Rightarrow> (st1\<lparr>bi_md5 := Some (md5 bs)\<rparr>, Some (key, md5 bs)))
            | None \<Rightarrow> (case bf_data p of
                  None \<Rightarrow> (st1\<lparr>bi_error := Some (''open'', [AS (bf_path p)])\<rparr>, cache)
                | Some bs \<Rightarrow> (st1\<lparr>bi_md5 := Some (md5 bs)\<rparr>, Some (key, md5 bs))))))"

section \<open>The closure\<close>

record closure_row =
  cl_app :: "string option"
  cl_report_state :: "string option"
  cl_md5 :: "string option"
  cl_target_ns :: "string option"
  cl_wns_ns :: "string option"
  cl_achieved :: "string option"
  cl_failing :: "string option"

datatype closure_db = No_Registry | Bad_Registry string | Registry "closure_row list"

record closure =
  cv_verdict :: "string option"
  cv_achieved :: "rat option"
  cv_margin :: "rat option"
  cv_target :: "rat option"
  cv_wns :: "rat option"
  cv_state :: "string option"
  cv_note :: "report_text option"

definition closure0 :: closure where
  "closure0 = \<lparr> cv_verdict = None, cv_achieved = None, cv_margin = None, cv_target = None, cv_wns = None,
     cv_state = None, cv_note = None \<rparr>"

definition verdict :: "string \<Rightarrow> report_text option \<Rightarrow> closure \<Rightarrow> closure" where
  "verdict v n st = st\<lparr> cv_verdict := Some v, cv_note := n \<rparr>"

text \<open>\<open>float(row[key])\<close>: a missing or unreadable number is an error of the row.\<close>

definition row_num :: "(string \<Rightarrow> rat option) \<Rightarrow> string option \<Rightarrow> rat option" where
  "row_num fl x = (case x of None \<Rightarrow> None | Some s \<Rightarrow> fl s)"

definition row_int :: "string option \<Rightarrow> int option" where
  "row_int x = (if truthy_str x then py_int 10 (the x) else Some 0)"

text \<open>The comparison with the clock that was read back.\<close>

definition clock_verdict :: "clk \<Rightarrow> rat \<Rightarrow> closure \<Rightarrow> closure" where
  "clock_verdict c achieved st =
     (case ck_hz c of
        None \<Rightarrow> verdict ''NO_CLOCK'' (ck_error c) st
      | Some hz \<Rightarrow>
        if hz = 0 then verdict ''NO_CLOCK'' (ck_error c) st
        else let mhz = of_int hz / 1000000 in
          st\<lparr> cv_margin := Some (achieved - mhz), cv_verdict := Some (if mhz \<le> achieved then ''OK'' else ''EXCEEDED'') \<rparr>)"

definition row_verdict :: "(string \<Rightarrow> rat option) \<Rightarrow> closure_row \<Rightarrow> clk \<Rightarrow> closure \<Rightarrow> closure" where
  "row_verdict fl row c st =
     (let bad = verdict ''NO_REGISTRY'' (Some (''registry row unreadable'', [])) in
      case row_num fl (cl_target_ns row) of
        None \<Rightarrow> bad st
      | Some target \<Rightarrow>
        let st1 = st\<lparr>cv_target := Some target\<rparr> in
        (case row_num fl (cl_wns_ns row) of
           None \<Rightarrow> bad st1
         | Some wns \<Rightarrow>
           let st2 = st1\<lparr>cv_wns := Some wns\<rparr> in
           (case row_num fl (cl_achieved row) of
              None \<Rightarrow> bad st2
            | Some achieved \<Rightarrow>
              let st3 = st2\<lparr>cv_achieved := Some achieved\<rparr> in
              (case row_int (cl_failing row) of
                 None \<Rightarrow> bad st3
               | Some failing \<Rightarrow>
                 if failing \<noteq> 0 then verdict ''CONSTRAINTS_UNMET'' (Some (''failing endpoints'', [AI failing])) st3
                 else clock_verdict c achieved st3))))"

definition closure_state :: "(string \<Rightarrow> rat option) \<Rightarrow> closure_db \<Rightarrow> bit_id \<Rightarrow> clk \<Rightarrow> closure" where
  "closure_state fl db bid c =
     (case db of
        No_Registry \<Rightarrow> verdict ''NO_REGISTRY'' (Some (''kv260_closure.csv not deployed'', [])) closure0
      | Bad_Registry e \<Rightarrow> verdict ''NO_REGISTRY'' (Some (e, [])) closure0
      | Registry rows \<Rightarrow>
        (case List.find (\<lambda>r. cl_app r = bi_app bid) rows of
           None \<Rightarrow> verdict ''APP_UNKNOWN'' (Some (''app not in the closure registry'', [])) closure0
         | Some row \<Rightarrow>
           let st = closure0\<lparr>cv_state := (if truthy_str (cl_report_state row) then cl_report_state row else None)\<rparr> in
           if \<not> truthy_str (bi_md5 bid)
           then verdict ''NO_BOARD_HASH'' (Some (opt_or (bi_error bid) (''bitstream not hashable'', []))) st
           else if cl_md5 row \<noteq> bi_md5 bid
           then verdict ''BITSTREAM_UNMATCHED'' (Some (''board carries'',
                  [AS (take 8 (the (bi_md5 bid))), AS (take 8 (or_str (cl_md5 row) ''-''))])) st
           else if or_str (cl_report_state row) [] \<noteq> ''Routed'' then verdict ''NOT_ROUTED'' None st
           else row_verdict fl row c st))"

section \<open>The board\<close>

record board =
  bd_fpga :: "string option"
  bd_active :: "string option"
  bd_apps :: "string list"
  bd_safe :: bool
  bd_scenario :: "string option"
  bd_variant :: "variant option"
  bd_enc_xlen :: "int option"
  bd_core_xlen :: "int option"
  bd_matches :: bool
  bd_clk :: clk
  bd_bit :: bit_id
  bd_closure :: closure

definition active_app :: "int \<times> string \<Rightarrow> string option" where
  "active_app r = (if fst r = 0
     then fold (\<lambda>(app, slot) a. if in_slot slot then Some app else a) (app_rows (snd r)) None else None)"

definition listed_apps :: "int \<times> string \<Rightarrow> string list" where
  "listed_apps r = (if fst r = 0 then map fst (app_rows (snd r)) else [])"

definition board_state :: "catalog \<Rightarrow> scenario \<Rightarrow> string option \<Rightarrow> int \<times> string \<Rightarrow> clk \<Rightarrow> bit_id \<Rightarrow> closure \<Rightarrow> board" where
  "board_state cat sc fpga listapps c bid cl =
     (let act = active_app listapps; owner = by_app cat act;
          var = (case owner of None \<Rightarrow> None | Some o' \<Rightarrow> variant_of o' act) in
      \<lparr> bd_fpga = map_option strip fpga, bd_active = act, bd_apps = listed_apps listapps,
        bd_safe = (truthy_str act \<and> the act \<in> by_id_apps cat),
        bd_scenario = map_option sc_id owner, bd_variant = var,
        bd_enc_xlen = (case var of None \<Rightarrow> None | Some v \<Rightarrow> v_enc_xlen v),
        bd_core_xlen = map_option sc_xlen owner,
        bd_matches = (truthy_str act \<and> the act \<in> set (sc_apps sc)),
        bd_clk = c, bd_bit = bid, bd_closure = cl \<rparr>)"

text \<open>The reading of the board: the clock, then the identity, then the closure from both.\<close>

definition read_board :: "catalog \<Rightarrow> scenario \<Rightarrow> string option \<Rightarrow> int \<times> string \<Rightarrow> ('s, int) act \<Rightarrow>
    (string \<Rightarrow> bit_file list option) \<Rightarrow> (byte list \<Rightarrow> string) \<Rightarrow> (string \<Rightarrow> rat option) \<Rightarrow> closure_db \<Rightarrow>
    (md5_cache \<times> 's, board) act" where
  "read_board cat sc fpga listapps rd fw md5 fl db =
     bnd (on_snd (pl_clk0_state rd)) (\<lambda>c.
     bnd get_state (\<lambda>(cache, s).
     case bitstream_identity fw md5 (active_app listapps) cache of
       (bid, cache') \<Rightarrow> andthen (modify (\<lambda>(_, s). (cache', s)))
         (ret (board_state cat sc fpga listapps c bid (closure_state fl db bid c)))))"

section \<open>Facts\<close>

lemma verdict_fields [simp]: "cv_verdict (verdict v n st) = Some v"
  by (simp add: verdict_def)

lemma clock_verdict_ok:
  "cv_verdict (clock_verdict c achieved st) = Some ''OK'' \<longleftrightarrow>
     (\<exists>hz. ck_hz c = Some hz \<and> hz \<noteq> 0 \<and> of_int hz / 1000000 \<le> achieved)"
  by (auto simp: clock_verdict_def Let_def split: option.splits)

lemma row_verdict_ok:
  "cv_verdict (row_verdict fl row c st) = Some ''OK'' \<longleftrightarrow>
     (\<exists>target wns achieved. row_num fl (cl_target_ns row) = Some target \<and> row_num fl (cl_wns_ns row) = Some wns \<and>
        row_num fl (cl_achieved row) = Some achieved \<and> row_int (cl_failing row) = Some 0 \<and>
        (\<exists>hz. ck_hz c = Some hz \<and> hz \<noteq> 0 \<and> of_int hz / 1000000 \<le> achieved))"
  by (auto simp: row_verdict_def Let_def clock_verdict_ok split: option.splits)

lemma clk_of_hz:
  "ck_hz (clk_of raw) = Some hz \<longleftrightarrow>
     raw AND 7 \<in> {0, 1} \<and> drop_bit 8 raw AND 0x3F \<noteq> 0 \<and> drop_bit 16 raw AND 0x3F \<noteq> 0 \<and>
     hz = 1500000000 div ((drop_bit 8 raw AND 0x3F) * (drop_bit 16 raw AND 0x3F))"
  unfolding clk_of_def Let_def
  by (auto simp: PL_CLK_SRC_def dict_get_def clk0_def)

section \<open>Properties\<close>

text \<open>
  The verdict OK is given exactly on full evidence: the registry has a row for the app of the slot,
  its hash is the hash of the bitstream on the board, its report is a routed one that reads
  completely and has no failing endpoint, and the clock that was read back runs, at no more than the
  rate the report achieved.
\<close>

lemma closure_ok_exact:
  "cv_verdict (closure_state fl db bid c) = Some ''OK'' \<longleftrightarrow>
     (\<exists>rows row achieved hz. db = Registry rows \<and> List.find (\<lambda>r. cl_app r = bi_app bid) rows = Some row \<and>
        truthy_str (bi_md5 bid) \<and> cl_md5 row = bi_md5 bid \<and> cl_report_state row = Some ''Routed'' \<and>
        row_num fl (cl_target_ns row) \<noteq> None \<and> row_num fl (cl_wns_ns row) \<noteq> None \<and>
        row_num fl (cl_achieved row) = Some achieved \<and> row_int (cl_failing row) = Some 0 \<and>
        ck_hz c = Some hz \<and> hz \<noteq> 0 \<and> of_int hz / 1000000 \<le> achieved)"
proof (cases db)
  case (Registry rows)
  show ?thesis
  proof (cases "List.find (\<lambda>r. cl_app r = bi_app bid) rows")
    case (Some row)
    have routed: "or_str (cl_report_state row) [] = ''Routed'' \<longleftrightarrow> cl_report_state row = Some ''Routed''"
      by (cases "cl_report_state row") (auto simp: or_str_def)
    show ?thesis
      using Registry Some by (auto simp: closure_state_def Let_def row_verdict_ok routed)
  qed (simp add: closure_state_def Registry)
qed (simp_all add: closure_state_def)

end
