(* ===== verification/App_Load.thy ===== *)
theory App_Load
  imports Board_State
begin

unbundle bit_operations_syntax

text \<open>
  Loading a scenario's bitstream (\<open>load_app\<close> of the dashboard server): the quiescing of the design
  that is still loaded, the attempt with its clock change, the proof at the slot and the second
  attempt after a restart of the daemon. The commands and the clock register are the platform, a
  parameter over a state of its own.
\<close>

section \<open>The platform\<close>

datatype op = Op_List | Op_Unload | Op_Load string | Op_Clock int | Op_Restart

record 'e platform =
  pf_run :: "op \<Rightarrow> 'e \<Rightarrow> (int \<times> string) \<times> 'e"
  pf_crl :: "('e, int) act"
  pf_xmutil :: bool
  pf_doc :: "(string, plclk_entry) dict option"
  pf_tool :: "string option"
  pf_settle :: "exn + rat"

text \<open>The state of a load: the steps reported so far, the bus, the platform.\<close>

type_synonym ('b, 'e) load_st = "cmd_step list \<times> 'b \<times> 'e"

definition on_bus :: "('b, 'a) act \<Rightarrow> (('b, 'e) load_st, 'a) act" where
  "on_bus m s = (case s of (st, b, e) \<Rightarrow> (case m b of (r, b') \<Rightarrow> (r, (st, b', e))))"

definition on_env :: "('e, 'a) act \<Rightarrow> (('b, 'e) load_st, 'a) act" where
  "on_env m s = (case s of (st, b, e) \<Rightarrow> (case m e of (r, e') \<Rightarrow> (r, (st, b, e'))))"

definition add_step :: "string \<Rightarrow> int \<Rightarrow> report_text \<Rightarrow> (('b, 'e) load_st, unit) act" where
  "add_step cmd rc out = modify (\<lambda>(st, s). (st @ [\<lparr> cs_cmd = cmd, cs_rc = rc, cs_out = out \<rparr>], s))"

definition run_op :: "'e platform \<Rightarrow> op \<Rightarrow> ('e, int \<times> string) act" where
  "run_op pf oper e = (case pf_run pf oper e of (r, e') \<Rightarrow> (Inr r, e'))"

definition out_tail :: "nat \<Rightarrow> string \<Rightarrow> report_text" where
  "out_tail n out = (last_n n (strip out), [])"

section \<open>Quiescing\<close>

definition quiesce_sinks :: "'b dash_bus \<Rightarrow> scenario \<Rightarrow> (('b, 'e) load_st, unit) act" where
  "quiesce_sinks bus cur =
     (case co cur ''sink_ctrl'' of
        None \<Rightarrow> ret ()
      | Some so \<Rightarrow> bnd (on_bus (read1 bus ''ctrl'' so)) (\<lambda>v.
          let v' = v AND NOT SINK_PULSE_MASK AND NOT 0x11 in
          andthen (on_bus (db_write bus ''ctrl'' so v'))
            (add_step ''quiesce sinks'' 0 (''SINK_CTRL'', [AI v, AI v']))))"

definition quiesce_enc :: "'b dash_bus \<Rightarrow> regmap \<Rightarrow> string \<Rightarrow> (('b, 'e) load_st, unit) act" where
  "quiesce_enc bus rm e =
     bnd (on_bus (read1 bus e 0)) (\<lambda>t.
       andthen (on_bus (db_write bus e 0 (rmw_value rm e 0 (t AND NOT (TE_ENABLE OR TE_ITRACE)))))
         (add_step (''quiesce '' @ e) 0 (''Enable/ITrace off'', [AI t])))"

definition all_run_bits :: "scenario \<Rightarrow> int" where
  "all_run_bits cur = fold (\<lambda>c m. fold (\<lambda>b m. m OR cbit cur b) (core_run_bits cur c) m) (sc_cores cur) 0"

definition quiesce_cores :: "'b dash_bus \<Rightarrow> scenario \<Rightarrow> (('b, 'e) load_st, unit) act" where
  "quiesce_cores bus cur =
     (case co cur ''control'' of
        None \<Rightarrow> ret ()
      | Some C \<Rightarrow> bnd (on_bus (read1 bus ''ctrl'' C)) (\<lambda>v.
          let v' = v AND NOT (all_run_bits cur) in
          andthen (on_bus (db_write bus ''ctrl'' C v'))
            (add_step ''quiesce cores'' 0 (''CONTROL'', [AI v, AI v']))))"

text \<open>Sinks, then the encoders, then the cores; an exception ends the quiescing, not the load.\<close>

definition quiesce_current :: "'b dash_bus option \<Rightarrow> regmap \<Rightarrow> scenario \<Rightarrow> (('b, 'e) load_st, unit) act" where
  "quiesce_current bus_now rm cur =
     (case bus_now of
        None \<Rightarrow> ret ()
      | Some bus \<Rightarrow>
        if db_demo bus then ret ()
        else handle
          (andthen (quiesce_sinks bus cur)
          (andthen (for_each (filter (\<lambda>r. dict_get (sc_regions cur) r \<noteq> None) ENC_REGIONS) (quiesce_enc bus rm))
            (quiesce_cores bus cur)))
          (\<lambda>_. add_step ''quiesce'' 1 (''skipped'', [])))"

section \<open>The attempt\<close>

definition slot_of :: "'e platform \<Rightarrow> string \<Rightarrow> (('b, 'e) load_st, string option) act" where
  "slot_of pf app = bnd (on_env (run_op pf Op_List)) (\<lambda>r. ret (dict_get (slots_of r) app))"

text \<open>The slot is read back at most \<open>n\<close> times.\<close>

fun poll_slot :: "nat \<Rightarrow> 'e platform \<Rightarrow> string \<Rightarrow> (('b, 'e) load_st, string option) act" where
  "poll_slot 0 pf app = ret None"
| "poll_slot (Suc n) pf app =
     bnd (slot_of pf app) (\<lambda>slot. case slot of Some x \<Rightarrow> ret (Some x) | None \<Rightarrow> poll_slot n pf app)"

definition change_clock :: "'e platform \<Rightarrow> string \<Rightarrow> (('b, 'e) load_st, unit) act" where
  "change_clock pf sid =
     (case plclk_wanted (pf_doc pf) sid of
        Some mhz \<Rightarrow>
          bnd (on_env (set_pl_clk0 (pf_tool pf) (\<lambda>m. run_op pf (Op_Clock m)) (pf_crl pf) mhz)) (\<lambda>(_, st).
            modify (\<lambda>(sts, s). (sts @ [st], s)))
      | None \<Rightarrow> add_step ''pl_clk0'' 0 (''clock left untouched'', [AS sid]))"

definition attempt :: "'e platform \<Rightarrow> string \<Rightarrow> string \<Rightarrow> (('b, 'e) load_st, string option) act" where
  "attempt pf sid app =
     bnd (on_env (run_op pf Op_Unload)) (\<lambda>(rc, out).
     andthen (add_step ''unloadapp'' rc (out_tail 300 out))
     (andthen (change_clock pf sid)
     (bnd (on_env (run_op pf (Op_Load app))) (\<lambda>(rc, out).
     andthen (add_step (''loadapp '' @ app) rc (out_tail 300 out))
     (poll_slot 5 pf app)))))"

section \<open>The load\<close>

record load_result =
  ld_ok :: bool
  ld_slot :: "string option"
  ld_error :: "report_text option"

text \<open>The app is in its slot already: nothing is unloaded, a wrong clock is only named.\<close>

definition already_loaded :: "'e platform \<Rightarrow> string \<Rightarrow> string \<Rightarrow> string \<Rightarrow> (('b, 'e) load_st, load_result) act" where
  "already_loaded pf sid app slot =
     andthen (add_step ''already loaded'' 0 (''no unload/load'', [AS app, AS slot]))
     (andthen
       (case plclk_wanted (pf_doc pf) sid of
          None \<Rightarrow> ret ()
        | Some mhz \<Rightarrow> bnd (on_env (pl_clk0_state (pf_crl pf))) (\<lambda>c.
            case ck_hz c of
              None \<Rightarrow> ret ()
            | Some got \<Rightarrow> act_when (got \<noteq> want_hz mhz)
                (add_step ''pl_clk0 check'' 1 (''app already loaded'', [AI got, AI (want_hz mhz), AI mhz]))))
       (ret \<lparr> ld_ok = True, ld_slot = Some slot, ld_error = None \<rparr>))"

definition settle :: "'e platform \<Rightarrow> (('b, 'e) load_st, unit) act" where
  "settle pf = (case pf_settle pf of
     Inl e \<Rightarrow> raise e
   | Inr t \<Rightarrow> act_when (0 < t) (add_step ''settle'' 0 (''s'', [])))"

definition fresh_load :: "'e platform \<Rightarrow> string \<Rightarrow> string \<Rightarrow> (('b, 'e) load_st, load_result) act" where
  "fresh_load pf sid app =
     bnd (attempt pf sid app) (\<lambda>slot.
     bnd (case slot of
            Some x \<Rightarrow> ret (Some x)
          | None \<Rightarrow>
              bnd (on_env (run_op pf Op_Restart)) (\<lambda>(rc, out).
              andthen (add_step ''restart dfx-mgr'' rc (out_tail 200 out))
                (attempt pf sid app))) (\<lambda>slot.
     case slot of
       Some x \<Rightarrow> andthen (settle pf) (ret \<lparr> ld_ok = True, ld_slot = Some x, ld_error = None \<rparr>)
     | None \<Rightarrow> ret \<lparr> ld_ok = False, ld_slot = None, ld_error = Some (''listapps assigns no slot'', [AS app]) \<rparr>))"

definition load_app :: "'e platform \<Rightarrow> 'b dash_bus option \<Rightarrow> regmap \<Rightarrow> scenario \<Rightarrow> scenario \<Rightarrow> (('b, 'e) load_st, load_result) act" where
  "load_app pf bus_now rm cur sc =
     (if \<not> truthy_str (sc_app sc)
      then ret \<lparr> ld_ok = False, ld_slot = None, ld_error = Some (''scenario has no app name'', []) \<rparr>
      else if \<not> pf_xmutil pf
      then ret \<lparr> ld_ok = False, ld_slot = None, ld_error = Some (''xmutil not available'', []) \<rparr>
      else
        let app = the (sc_app sc) in
        bnd (slot_of pf app) (\<lambda>already. case already of
          Some slot \<Rightarrow> already_loaded pf (sc_id sc) app slot
        | None \<Rightarrow> andthen (quiesce_current bus_now rm cur) (fresh_load pf (sc_id sc) app)))"

section \<open>The order of the commands\<close>

text \<open>A platform that keeps a record of the commands it was given, with their answers.\<close>

type_synonym cmd_log = "(op \<times> int \<times> string) list"

definition logged :: "'e platform \<Rightarrow> (cmd_log \<times> 'e) platform" where
  "logged pf = \<lparr> pf_run = (\<lambda>oper (l, e). case pf_run pf oper e of (r, e') \<Rightarrow> (r, (l @ [(oper, r)], e'))),
     pf_crl = on_snd (pf_crl pf), pf_xmutil = pf_xmutil pf, pf_doc = pf_doc pf, pf_tool = pf_tool pf,
     pf_settle = pf_settle pf \<rparr>"

lemma logged_fields [simp]:
  "pf_xmutil (logged pf) = pf_xmutil pf" "pf_doc (logged pf) = pf_doc pf" "pf_tool (logged pf) = pf_tool pf"
  "pf_settle (logged pf) = pf_settle pf" "pf_crl (logged pf) = on_snd (pf_crl pf)"
  by (simp_all add: logged_def)

text \<open>The commands that change something.\<close>

definition changes :: "('b, cmd_log \<times> 'e) load_st \<Rightarrow> op list" where
  "changes s = filter (\<lambda>oper. oper \<noteq> Op_List) (map fst (fst (snd (snd s))))"

definition logs :: "(('b, cmd_log \<times> 'e) load_st, 'a) act \<Rightarrow> op list \<Rightarrow> bool" where
  "logs m L \<longleftrightarrow> (\<forall>s r t. m s = (Inr r, t) \<longrightarrow> changes t = changes s @ L)"

lemma logsD: "logs m L \<Longrightarrow> m s = (Inr r, t) \<Longrightarrow> changes t = changes s @ L"
  unfolding logs_def by blast

lemma logs_bnd: "logs m L \<Longrightarrow> (\<And>x. logs (f x) M) \<Longrightarrow> K = L @ M \<Longrightarrow> logs (bnd m f) K"
  by (fastforce simp: logs_def elim: bnd_InrE)

lemma logs_andthen: "logs m L \<Longrightarrow> logs n M \<Longrightarrow> K = L @ M \<Longrightarrow> logs (andthen m n) K"
  by (simp add: andthen_def logs_bnd)

lemma logs_basic: "logs (ret x) []" "logs (raise e) L" "logs (add_step c rc out) []"
  by (auto simp: logs_def add_step_def changes_def)

lemma logs_frame: "frame (\<lambda>s t. changes t = changes s) m \<Longrightarrow> logs m []"
  by (auto simp: logs_def frame_def)

lemma logs_op: "logs (on_env (run_op (logged pf) oper)) (if oper = Op_List then [] else [oper])"
  by (auto simp: logs_def on_env_def run_op_def logged_def changes_def split: prod.splits)

lemma logs_on_bus: "logs (on_bus m) []"
  by (auto simp: logs_def on_bus_def changes_def split: prod.splits)

lemma changes_po: "reflp (\<lambda>s t. changes t = changes s)" "transp (\<lambda>s t. changes t = changes s)"
  by (auto simp: reflp_def transp_def)

lemma frame_changes_basic: "frame (\<lambda>s t. changes t = changes s) (on_bus m)"
  "frame (\<lambda>s t. changes t = changes s) (add_step c rc out)"
  by (auto simp: frame_def on_bus_def add_step_def changes_def split: prod.splits)

lemma quiesce_changes: "frame (\<lambda>s t. changes t = changes s) (quiesce_current bus_now rm cur)"
  unfolding quiesce_current_def quiesce_sinks_def quiesce_enc_def quiesce_cores_def Let_def
  by (intro frames changes_po frame_changes_basic)

lemma logs_quiesce: "logs (quiesce_current bus_now rm cur) []"
  by (rule logs_frame [OF quiesce_changes])

lemma logs_slot: "logs (slot_of (logged pf) app) []"
  unfolding slot_of_def using logs_op [of pf Op_List] by (auto intro!: logs_bnd [OF _ logs_basic(1)])

lemma logs_poll: "logs (poll_slot n (logged pf) app) []"
proof (induction n)
  case (Suc n)
  show ?case
    unfolding poll_slot.simps by (rule logs_bnd [OF logs_slot]) (auto simp: Suc logs_basic split: option.split)
qed (unfold poll_slot.simps, rule logs_basic)

text \<open>The commands of one attempt.\<close>

definition clock_ops :: "'e platform \<Rightarrow> string \<Rightarrow> op list" where
  "clock_ops pf sid = (case (plclk_wanted (pf_doc pf) sid, pf_tool pf) of (Some mhz, Some _) \<Rightarrow> [Op_Clock mhz] | _ \<Rightarrow> [])"

definition attempt_ops :: "'e platform \<Rightarrow> string \<Rightarrow> string \<Rightarrow> op list" where
  "attempt_ops pf sid app = [Op_Unload] @ clock_ops pf sid @ [Op_Load app]"

lemma changes_crl:
  "pl_clk0_state (on_snd rd) (l, e) = (r, (l', e')) \<Longrightarrow> l' = l"
  by (auto simp: pl_clk0_state_def on_snd_def split: prod.splits sum.splits exn.splits if_splits)

lemma logs_clock: "logs (change_clock (logged pf) sid) (clock_ops pf sid)"
proof (cases "plclk_wanted (pf_doc pf) sid")
  case None
  then show ?thesis by (simp add: change_clock_def clock_ops_def logs_basic)
next
  case (Some mhz)
  have "logs (on_env (set_pl_clk0 (pf_tool pf) (\<lambda>m. run_op (logged pf) (Op_Clock m)) (on_snd (pf_crl pf)) mhz)) (clock_ops pf sid)"
  proof (cases "pf_tool pf")
    case None
    then show ?thesis
      by (auto simp: logs_def on_env_def set_pl_clk0_def clock_ops_def changes_def split: option.splits prod.splits)
  next
    case t: (Some tool)
    show ?thesis
      unfolding logs_def
    proof (intro allI impI)
      fix s r t
      assume m: "on_env (set_pl_clk0 (pf_tool pf) (\<lambda>m. run_op (logged pf) (Op_Clock m)) (on_snd (pf_crl pf)) mhz) s = (Inr r, t)"
      obtain st b l e where s: "s = (st, b, (l, e))" by (metis prod.exhaust)
      obtain x e1 where x: "pf_run pf (Op_Clock mhz) e = (x, e1)" by fastforce
      obtain c l2 e2 where c: "pl_clk0_state (on_snd (pf_crl pf)) (l @ [(Op_Clock mhz, x)], e1) = (c, (l2, e2))"
        by (metis prod.exhaust)
      have "l2 = l @ [(Op_Clock mhz, x)]" using changes_crl [OF c] .
      then show "changes t = changes s @ clock_ops pf sid"
        using m c x Some
        by (auto simp: s t on_env_def set_pl_clk0_def run_op_def logged_def bnd_def clock_ops_def changes_def Let_def
            split: prod.splits sum.splits)
    qed
  qed
  then show ?thesis
    using Some by (auto simp: change_clock_def intro!: logs_bnd) (auto simp: logs_def changes_def)
qed

lemma logs_attempt: "logs (attempt (logged pf) sid app) (attempt_ops pf sid app)"
  unfolding attempt_def attempt_ops_def
  using logs_op [of pf Op_Unload] logs_op [of pf "Op_Load app"]
  by (auto intro!: logs_bnd logs_andthen logs_basic logs_clock logs_poll split: prod.split)

text \<open>The last command was a reading of the slots, and it showed the app there.\<close>

definition slot_seen :: "string \<Rightarrow> string option \<Rightarrow> cmd_log \<Rightarrow> bool" where
  "slot_seen app slot l \<longleftrightarrow> (\<exists>l0 ans. l = l0 @ [(Op_List, ans)] \<and> slot \<noteq> None \<and> dict_get (slots_of ans) app = slot)"

lemma slot_of_seen:
  assumes "slot_of (logged pf) app s = (Inr (Some x), t)"
  shows "slot_seen app (Some x) (fst (snd (snd t)))"
  using assms
  by (auto simp: slot_of_def bnd_def on_env_def run_op_def logged_def slot_seen_def split: prod.splits)

lemma poll_seen:
  "poll_slot n (logged pf) app s = (Inr (Some x), t) \<Longrightarrow> slot_seen app (Some x) (fst (snd (snd t)))"
proof (induction n arbitrary: s)
  case (Suc n)
  then obtain slot u where u: "slot_of (logged pf) app s = (Inr slot, u)"
      "(case slot of Some x \<Rightarrow> ret (Some x) | None \<Rightarrow> poll_slot n (logged pf) app) u = (Inr (Some x), t)"
    by (auto elim: bnd_InrE)
  show ?case
  proof (cases slot)
    case None
    then show ?thesis using u(2) Suc.IH by simp
  next
    case (Some y)
    then show ?thesis using u slot_of_seen by (metis option.simps(5) prod.inject ret_apply sum.inject(2))
  qed
qed simp

lemma attempt_seen:
  "attempt (logged pf) sid app s = (Inr (Some x), t) \<Longrightarrow> slot_seen app (Some x) (fst (snd (snd t)))"
  unfolding attempt_def by (auto elim!: bnd_InrE andthen_InrE dest: poll_seen split: prod.splits)

lemma add_step_snd: "add_step c rc out s = (q, t) \<Longrightarrow> snd t = snd s"
  by (cases s) (auto simp: add_step_def)

lemma settle_log: "settle (logged pf) s = (Inr r, t) \<Longrightarrow> snd t = snd s"
  by (auto simp: settle_def act_when_def dest: add_step_snd split: sum.splits if_splits)

text \<open>Neither the bus nor the record of commands changes.\<close>

abbreviation quiet :: "('b, cmd_log \<times> 'e) load_st \<Rightarrow> ('b, cmd_log \<times> 'e) load_st \<Rightarrow> bool" where
  "quiet s t \<equiv> fst (snd t) = fst (snd s) \<and> fst (snd (snd t)) = fst (snd (snd s))"

lemma quiet_frames:
  "reflp quiet" "transp quiet" "frame quiet (add_step c rc out)" "frame quiet (on_env (pl_clk0_state (on_snd rd)))"
proof -
  show "reflp quiet" "transp quiet" by (auto simp: reflp_def transp_def)
  show "frame quiet (add_step c rc out)" by (auto simp: frame_def dest!: add_step_snd)
  show "frame quiet (on_env (pl_clk0_state (on_snd rd)))"
    by (auto simp: frame_def on_env_def split: prod.splits dest!: changes_crl)
qed

lemma frame_when: "reflp R \<Longrightarrow> frame R m \<Longrightarrow> frame R (act_when b m)"
  by (cases b) (auto intro: frames)

lemma already_quiet: "frame quiet (already_loaded (logged pf) sid app slot)"
  unfolding already_loaded_def logged_fields by (intro frames frame_when quiet_frames)

lemma already_result:
  assumes "already_loaded (logged pf) sid app slot s = (Inr r, t)"
  shows "ld_ok r \<and> ld_slot r = Some slot \<and> quiet s t"
  using frameD [OF already_quiet assms] assms
  by (auto simp: already_loaded_def elim!: andthen_InrE)

lemma fresh_result:
  assumes "fresh_load (logged pf) sid app s = (Inr r, t)"
  shows "(changes t = changes s @ attempt_ops pf sid app \<or>
      changes t = changes s @ attempt_ops pf sid app @ [Op_Restart] @ attempt_ops pf sid app) \<and>
     (if ld_ok r then slot_seen app (ld_slot r) (fst (snd (snd t))) else ld_slot r = None \<and> ld_error r \<noteq> None)"
proof -
  obtain slot1 u where u: "attempt (logged pf) sid app s = (Inr slot1, u)"
    using assms by (auto simp: fresh_load_def elim: bnd_InrE)
  note c1 = logsD [OF logs_attempt u]
  obtain slot2 v where v: "(case slot1 of Some x \<Rightarrow> ret (Some x)
        | None \<Rightarrow> bnd (on_env (run_op (logged pf) Op_Restart)) (\<lambda>(rc, out).
              andthen (add_step ''restart dfx-mgr'' rc (out_tail 200 out)) (attempt (logged pf) sid app))) u = (Inr slot2, v)"
      "(case slot2 of Some x \<Rightarrow> andthen (settle (logged pf)) (ret \<lparr> ld_ok = True, ld_slot = Some x, ld_error = None \<rparr>)
        | None \<Rightarrow> ret \<lparr> ld_ok = False, ld_slot = None, ld_error = Some (''listapps assigns no slot'', [AS app]) \<rparr>) v = (Inr r, t)"
    using assms by (auto simp: fresh_load_def bnd_def u split: prod.splits sum.splits)
  have c2: "(changes v = changes s @ attempt_ops pf sid app \<or>
      changes v = changes s @ attempt_ops pf sid app @ [Op_Restart] @ attempt_ops pf sid app) \<and>
      (slot2 \<noteq> None \<longrightarrow> slot_seen app slot2 (fst (snd (snd v))))"
  proof (cases slot1)
    case None
    have "logs (bnd (on_env (run_op (logged pf) Op_Restart)) (\<lambda>(rc, out).
              andthen (add_step ''restart dfx-mgr'' rc (out_tail 200 out)) (attempt (logged pf) sid app)))
        ([Op_Restart] @ attempt_ops pf sid app)"
      using logs_op [of pf Op_Restart] by (auto intro!: logs_bnd logs_andthen logs_basic logs_attempt split: prod.split)
    from logsD [OF this v(1) [unfolded None option.case]]
    have "changes v = changes s @ attempt_ops pf sid app @ [Op_Restart] @ attempt_ops pf sid app" using c1 by simp
    moreover have "slot2 \<noteq> None \<longrightarrow> slot_seen app slot2 (fst (snd (snd v)))"
      using v(1) [unfolded None option.case]
      by (cases slot2) (auto elim!: bnd_InrE andthen_InrE dest!: attempt_seen split: prod.splits)
    ultimately show ?thesis by blast
  next
    case (Some x)
    then show ?thesis using v(1) c1 attempt_seen [of pf sid app s x u] u by auto
  qed
  have "snd t = snd v \<and> (if ld_ok r then ld_slot r = slot2 \<and> slot2 \<noteq> None else ld_slot r = None \<and> ld_error r \<noteq> None)"
    using v(2) by (auto elim!: andthen_InrE dest!: settle_log split: option.splits)
  moreover have "changes t = changes v" if "snd t = snd v" using that by (simp add: changes_def)
  ultimately show ?thesis using c2 by auto
qed

section \<open>Properties\<close>

text \<open>C10: 
  The commands of a load come in one order only. An app that is already in its slot is neither
  unloaded nor loaded, and the bus is left alone. Otherwise the commands that change something are
  an unload, the change of the clock if one is wanted and its tool is there, and the load of this
  app, once or, around one restart of the daemon, twice: the clock changes only while nothing is
  loaded. The load reports success exactly when the last reading of the slots showed the app.
\<close>

theorem load_app_ordered:
  assumes "load_app (logged pf) bus_now rm cur sc (st, (b, ([], e))) = (Inr r, (st', (b', (l, e'))))"
    and "sc_app sc = Some app" "app \<noteq> []" "pf_xmutil pf"
  shows "(if dict_get (slots_of (fst (pf_run pf Op_List e))) app \<noteq> None
     then filter (\<lambda>oper. oper \<noteq> Op_List) (map fst l) = [] \<and> b' = b \<and> ld_ok r
     else filter (\<lambda>oper. oper \<noteq> Op_List) (map fst l)
       \<in> {attempt_ops pf (sc_id sc) app, attempt_ops pf (sc_id sc) app @ [Op_Restart] @ attempt_ops pf (sc_id sc) app}) \<and>
     (if ld_ok r then slot_seen app (ld_slot r) l else ld_slot r = None \<and> ld_error r \<noteq> None)"
proof -
  obtain ans e1 where x: "pf_run pf Op_List e = (ans, e1)" by fastforce
  let ?u = "(st, (b, ([(Op_List, ans)], e1)))"
  have s: "slot_of (logged pf) app (st, (b, ([], e))) = (Inr (dict_get (slots_of ans) app), ?u)"
    by (simp add: slot_of_def bnd_def on_env_def run_op_def logged_def x)
  have app: "truthy_str (sc_app sc)" "the (sc_app sc) = app" using assms(2,3) by (simp_all add: truthy_str_def)
  have l: "(case dict_get (slots_of ans) app of
        Some slot \<Rightarrow> already_loaded (logged pf) (sc_id sc) app slot
      | None \<Rightarrow> andthen (quiesce_current bus_now rm cur) (fresh_load (logged pf) (sc_id sc) app)) ?u
      = (Inr r, (st', (b', (l, e'))))"
    using assms(1,4) app by (simp add: load_app_def Let_def bnd_def s)
  show ?thesis
  proof (cases "dict_get (slots_of ans) app")
    case (Some slot)
    then have "ld_ok r \<and> ld_slot r = Some slot \<and> l = [(Op_List, ans)] \<and> b' = b"
      using already_result [of pf "sc_id sc" app slot ?u r] l by simp
    then show ?thesis using Some by (auto simp: x slot_seen_def)
  next
    case None
    then obtain v where v: "quiesce_current bus_now rm cur ?u = (Inr (), v)"
        "fresh_load (logged pf) (sc_id sc) app v = (Inr r, (st', (b', (l, e'))))"
      using l by (auto elim: andthen_InrE)
    have "changes v = []" using logsD [OF logs_quiesce v(1)] by (simp add: changes_def)
    then show ?thesis using fresh_result [OF v(2)] None by (auto simp: x changes_def)
  qed
qed

text \<open>A daemon that records a load at once, with an empty slot at first.\<close>

definition toy_pf :: "bool platform" where
  "toy_pf = \<lparr> pf_run = (\<lambda>oper e. case oper of
       Op_List \<Rightarrow> ((0, ''Accelerator Slot'' @ [CHR 0x0A] @ ''mbv '' @ (if e then ''0'' else ''-1'')), e)
     | Op_Unload \<Rightarrow> ((0, []), False) | Op_Load _ \<Rightarrow> ((0, []), True) | _ \<Rightarrow> ((0, []), e)),
     pf_crl = ret 0x01010800, pf_xmutil = True, pf_doc = None, pf_tool = None, pf_settle = Inr 0 \<rparr>"

definition toy_sc :: scenario where
  "toy_sc = mini_sc\<lparr> sc_app := Some ''mbv'', sc_id := ''mbv'' \<rparr>"

definition toy_load :: "load_result \<times> cmd_log" where
  "toy_load = (case load_app (logged toy_pf) (None :: unit dash_bus option) [] mini_sc toy_sc ([], ((), ([], False))) of
     (Inr r, (_, (_, (l, _)))) \<Rightarrow> (r, l) | (Inl e, _) \<Rightarrow> (\<lparr> ld_ok = False, ld_slot = None, ld_error = None \<rparr>, []))"

lemma load_app_ordered_witness:
  "filter (\<lambda>oper. oper \<noteq> Op_List) (map fst (snd toy_load)) = [Op_Unload, Op_Load ''mbv''] \<and>
   slot_seen ''mbv'' (Some ''0'') (snd toy_load)"
proof -
  obtain q st' b' l e' where e: "load_app (logged toy_pf) (None :: unit dash_bus option) [] mini_sc toy_sc ([], ((), ([], False)))
      = (q, (st', (b', (l, e'))))"
    by (metis prod.exhaust)
  have t: "ld_ok (fst toy_load)" "ld_slot (fst toy_load) = Some ''0''"
    "filter (\<lambda>oper. oper \<noteq> Op_List) (map fst (snd toy_load)) = [Op_Unload, Op_Load ''mbv'']"
    by code_simp+
  then obtain r where q: "q = Inr r" "toy_load = (r, l)"
    unfolding toy_load_def e by (cases q) auto
  have "sc_app toy_sc = Some ''mbv''" "pf_xmutil toy_pf" by (simp_all add: toy_sc_def toy_pf_def)
  from load_app_ordered [OF e [unfolded q(1)] this(1) _ this(2)] show ?thesis
    using t by (simp add: q(2))
qed

end
