(* ===== verification/Etrace_Packets.thy ===== *)
theory Etrace_Packets
  imports Py_Strings Py_Bytes
begin

unbundle bit_operations_syntax

text \<open>
  The packets of an E-Trace byte stream: the framing and the bit reader of the vendored reference
  model (\<open>raw_file.py\<close>, \<open>raw_packet.py\<close>), and the parsers of \<open>tools/etrace/etrace_common.py\<close> on top of
  them (\<open>parse_te_data\<close>, \<open>parse_daq\<close>, \<open>create_te_inst\<close> with the optional format 0), with the comparison
  of the data packets against an oracle (\<open>etrace_data_check.py\<close>).
\<close>

section \<open>The bit reader\<close>

text \<open>The unread bits, least significant first, and the most significant bit of the packet, which
  extends it; an empty packet has none.\<close>

record raw_packet =
  rp_bits :: "bool list"
  rp_msb :: "bool option"

fun byte_bits :: "byte list \<Rightarrow> bool list" where
  "byte_bits [] = []"
| "byte_bits (b # bs) = map (bit b) [0..<8] @ byte_bits bs"

definition raw_packet_of :: "byte list \<Rightarrow> raw_packet" where
  "raw_packet_of data = \<lparr> rp_bits = byte_bits data,
     rp_msb = (if data = [] then None else Some (bit (last data) 7)) \<rparr>"

fun bits_int :: "bool list \<Rightarrow> int" where
  "bits_int [] = 0"
| "bits_int (b # bs) = of_bool b + 2 * bits_int bs"

text \<open>\<open>get_bits\<close>; a field of no bits is not set.\<close>

definition get_bits :: "nat \<Rightarrow> (raw_packet, int option) act" where
  "get_bits n p =
     (if n = 0 then (Inr None, p)
      else if length (rp_bits p) < n then
        (case rp_msb p of
           None \<Rightarrow> (Inl (Exn IndexError ''string index out of range'' []), p)
         | Some m \<Rightarrow> (Inr (Some (bits_int (rp_bits p @ replicate (n - length (rp_bits p)) m))), p\<lparr>rp_bits := []\<rparr>))
      else (Inr (Some (bits_int (take n (rp_bits p)))), p\<lparr>rp_bits := drop n (rp_bits p)\<rparr>))"

text \<open>A field of at least one bit, or zero.\<close>

definition field :: "nat \<Rightarrow> (raw_packet, int) act" where
  "field n = bnd (get_bits n) (\<lambda>v. ret (case v of Some x \<Rightarrow> x | None \<Rightarrow> 0))"

text \<open>\<open>check\<close>: at most seven bits are left over.\<close>

definition check :: "(raw_packet, unit) act" where
  "check p = (if 7 < length (rp_bits p) then (Inl (Exn SystemExit ''bits have not been assigned'' []), p) else (Inr (), p))"

section \<open>Data packets\<close>

record te_data =
  td_format :: int
  td_size :: int
  td_diff :: int
  td_data_len :: int
  td_kind :: char
  td_addr :: int
  td_nbytes :: int
  td_value :: int

definition sign_extended :: "int \<Rightarrow> nat \<Rightarrow> nat \<Rightarrow> int" where
  "sign_extended v w full =
     (if drop_bit (w - 1) v AND 1 \<noteq> 0 then v OR ((push_bit full 1 - 1) XOR (push_bit w 1 - 1)) else v)"

definition parse_te_data :: "(raw_packet, te_data) act" where
  "parse_te_data =
     bnd (field 2) (\<lambda>fmt. bnd (field 2) (\<lambda>sz. bnd (field 2) (\<lambda>diff.
     bnd (field (nat sz)) (\<lambda>dl. bnd (field (8 * (nat dl + 1))) (\<lambda>v. bnd (field 32) (\<lambda>a.
     andthen check
     (let nbytes = push_bit (nat sz) 1; w = 8 * (nat dl + 1); full = 8 * nat nbytes in
      ret \<lparr> td_format = fmt, td_size = sz, td_diff = diff, td_data_len = dl,
            td_kind = (if fmt AND 2 \<noteq> 0 then CHR ''S'' else CHR ''L''),
            td_addr = (if fmt AND 1 \<noteq> 0 then a else push_bit (nat sz) a AND 0xFFFFFFFF),
            td_nbytes = nbytes,
            td_value = sign_extended v w full AND (push_bit full 1 - 1) \<rparr>)))))))"

record daq =
  dq_idtag :: int
  dq_data :: int

definition parse_daq :: "(raw_packet, daq) act" where
  "parse_daq = bnd (field 8) (\<lambda>idtag. bnd (field 192) (\<lambda>data.
     andthen check (ret \<lparr> dq_idtag = idtag, dq_data = data \<rparr>)))"

section \<open>Instruction packets\<close>

text \<open>The build parameters (\<open>make_scf\<close>): time and context are absent, no \<open>irdepth\<close> field.\<close>

definition IADDRESS_WIDTH :: nat where "IADDRESS_WIDTH = 32"
definition IADDRESS_LSB :: nat where "IADDRESS_LSB = 1"
definition PRIVILEGE_WIDTH :: nat where "PRIVILEGE_WIDTH = 3"
definition ECAUSE_WIDTH :: nat where "ECAUSE_WIDTH = 4"

abbreviation address_bits :: nat where "address_bits \<equiv> IADDRESS_WIDTH - IADDRESS_LSB"

definition EXT :: int where "EXT = 0"
definition BRANCH :: int where "BRANCH = 1"
definition ADDR :: int where "ADDR = 2"
definition SYNC :: int where "SYNC = 3"

definition START :: int where "START = 0"
definition TRAP :: int where "TRAP = 1"
definition CONTEXT :: int where "CONTEXT = 2"
definition SUPPORT :: int where "SUPPORT = 3"

text \<open>One constructor per layout of the payload.\<close>

datatype te_inst =
    Sync_Start (te_branch: int) (te_privilege: int) (te_address: int)
  | Sync_Trap (te_branch: int) (te_privilege: int) (te_ecause: int) (te_interrupt: int) (te_thaddr: int)
      (te_address: int) (te_tval: "int option")
  | Sync_Context (te_privilege: int)
  | Sync_Support (te_ienable: int) (te_encoder_mode: int) (te_qual_status: int) (te_ioptions: int) (te_denable: int)
      (te_dloss: int) (te_doptions: int)
  | Addr (te_address: int) (te_notify: int) (te_updiscon: int) (te_irreport: int)
  | Branch_Addr (te_branches: int) (te_branch_map: int) (te_address: int) (te_notify: int) (te_updiscon: int)
      (te_irreport: int)
  | Branch_Full (te_branch_map: int)
  | Ext_Jtc (te_index: int) (te_branches: int) (te_branch_map: int) (te_irreport: int)
  | Ext_Count (te_branch_count: int) (te_branch_fmt: int)
  | Ext_Count_Addr (te_branch_count: int) (te_branch_fmt: int) (te_address: int) (te_notify: int) (te_updiscon: int)
      (te_irreport: int)

definition create_sync :: "(raw_packet, te_inst) act" where
  "create_sync = bnd (field 2) (\<lambda>subformat.
     if subformat = START then
       bnd (field 1) (\<lambda>br. bnd (field PRIVILEGE_WIDTH) (\<lambda>pr. bnd (field address_bits) (\<lambda>a.
       andthen check (ret (Sync_Start br pr a)))))
     else if subformat = TRAP then
       bnd (field 1) (\<lambda>br. bnd (field PRIVILEGE_WIDTH) (\<lambda>pr. bnd (field ECAUSE_WIDTH) (\<lambda>ec.
       bnd (field 1) (\<lambda>intr. bnd (field 1) (\<lambda>th. bnd (field address_bits) (\<lambda>a.
       if intr \<noteq> 1 then bnd (field IADDRESS_WIDTH) (\<lambda>tv. andthen check (ret (Sync_Trap br pr ec intr th a (Some tv))))
       else andthen check (ret (Sync_Trap br pr ec intr th a None))))))))
     else if subformat = CONTEXT then
       bnd (field PRIVILEGE_WIDTH) (\<lambda>pr. andthen check (ret (Sync_Context pr)))
     else
       bnd (field 1) (\<lambda>ie. bnd (field 1) (\<lambda>em. bnd (field 2) (\<lambda>qs. bnd (field 5) (\<lambda>io.
       bnd (field 1) (\<lambda>de. bnd (field 1) (\<lambda>dl. bnd (field 4) (\<lambda>dop.
       andthen check (ret (Sync_Support ie em qs io de dl dop))))))))))"

definition create_addr :: "(raw_packet, te_inst) act" where
  "create_addr = bnd (field address_bits) (\<lambda>a. bnd (field 1) (\<lambda>n. bnd (field 1) (\<lambda>u. bnd (field 1) (\<lambda>i.
     andthen check (ret (Addr a n u i))))))"

text \<open>The width of the branch map.\<close>

definition mapbits :: "int \<Rightarrow> nat" where
  "mapbits b = (if b \<le> 1 then 1 else if b \<le> 3 then 3 else if b \<le> 7 then 7 else if b \<le> 15 then 15 else 31)"

definition create_branch :: "(raw_packet, te_inst) act" where
  "create_branch = bnd (field 5) (\<lambda>branches.
     if branches = 0 then bnd (field 31) (\<lambda>m. andthen check (ret (Branch_Full m)))
     else bnd (field (mapbits branches)) (\<lambda>m. bnd (field address_bits) (\<lambda>a.
       bnd (field 1) (\<lambda>n. bnd (field 1) (\<lambda>u. bnd (field 1) (\<lambda>i.
       andthen check (ret (Branch_Addr branches m a n u i))))))))"

text \<open>Format 0: the jump target cache, or the count of predicted branches.\<close>

definition create_ext :: "(raw_packet, te_inst) act" where
  "create_ext = bnd (field 1) (\<lambda>subformat.
     if subformat = 1 then
       bnd (field 6) (\<lambda>idx. bnd (field 5) (\<lambda>branches.
       if branches \<noteq> 0 then bnd (field (mapbits branches)) (\<lambda>m. bnd (field 1) (\<lambda>i.
         andthen check (ret (Ext_Jtc idx branches m i))))
       else bnd (field 1) (\<lambda>i. andthen check (ret (Ext_Jtc idx branches 0 i)))))
     else
       bnd (field 32) (\<lambda>count. bnd (field 2) (\<lambda>fmt.
       if fmt = 2 \<or> fmt = 3 then
         bnd (field address_bits) (\<lambda>a. bnd (field 1) (\<lambda>n. bnd (field 1) (\<lambda>u. bnd (field 1) (\<lambda>i.
         andthen check (ret (Ext_Count_Addr count fmt a n u i))))))
       else andthen check (ret (Ext_Count count fmt)))))"

text \<open>Data packets are parsed and skipped.\<close>

definition create_te_inst :: "nat \<Rightarrow> (raw_packet, te_inst option) act" where
  "create_te_inst msg_type =
     (if msg_type = 3 then bnd parse_te_data (\<lambda>_. ret None)
      else if msg_type = 1 then bnd parse_daq (\<lambda>_. ret None)
      else bnd (field 2) (\<lambda>fmt. bnd
        (if fmt = SYNC then create_sync else if fmt = ADDR then create_addr
         else if fmt = BRANCH then create_branch else create_ext) (\<lambda>te. ret (Some te))))"

section \<open>The framing\<close>

text \<open>The packets of a stream, and the failed assertion that ends it, if any.\<close>

fun packets :: "byte list \<Rightarrow> (nat \<times> byte list) list \<times> exn option" where
  "packets [] = ([], None)"
| "packets (h # rest) =
     (let n = unat (h AND 0x1F) in
      if length rest < n then ([], Some (Exn AssertionError ''packet_length'' []))
      else case packets (drop n rest) of (ps, e) \<Rightarrow> ((unat (drop_bit 5 h AND 3), take n rest) # ps, e))"

section \<open>The check of the data packets\<close>

record data_got =
  dg_df :: "(char \<times> int \<times> int \<times> int) list"
  dg_daq :: "(int \<times> int) list"
  dg_n_ti :: nat

definition data_step :: "nat \<times> byte list \<Rightarrow> data_got \<Rightarrow> exn + data_got" where
  "data_step = (\<lambda>(mt, payload) g.
     if mt = 3 then (case fst (parse_te_data (raw_packet_of payload)) of
         Inl e \<Rightarrow> Inl e
       | Inr d \<Rightarrow> Inr (g\<lparr>dg_df := dg_df g @ [(td_kind d, td_addr d, td_nbytes d, td_value d)]\<rparr>))
     else if mt = 1 then (case fst (parse_daq (raw_packet_of payload)) of
         Inl e \<Rightarrow> Inl e
       | Inr d \<Rightarrow> Inr (g\<lparr>dg_daq := dg_daq g @ [(dq_idtag d, dq_data d)]\<rparr>))
     else (case fst (create_te_inst mt (raw_packet_of payload)) of
         Inl e \<Rightarrow> Inl e
       | Inr _ \<Rightarrow> Inr (g\<lparr>dg_n_ti := dg_n_ti g + 1\<rparr>)))"

fun data_steps :: "(nat \<times> byte list) list \<Rightarrow> data_got \<Rightarrow> exn + data_got" where
  "data_steps [] g = Inr g"
| "data_steps (p # ps) g = (case data_step p g of Inl e \<Rightarrow> Inl e | Inr g' \<Rightarrow> data_steps ps g')"

text \<open>The positions at which two lists differ.\<close>

definition mismatches :: "'a list \<Rightarrow> 'a list \<Rightarrow> nat list" where
  "mismatches xs ys = filter (\<lambda>i. (if i < length xs then Some (xs ! i) else None) \<noteq> (if i < length ys then Some (ys ! i) else None))
     [0..<max (length xs) (length ys)]"

text \<open>The exit code and the mismatches of the two oracles, where given.\<close>

definition data_check :: "byte list \<Rightarrow> (char \<times> int \<times> int \<times> int) list option \<Rightarrow> (int \<times> int) list option \<Rightarrow>
    exn + nat \<times> nat list \<times> nat list" where
  "data_check stream df daq =
     (case packets stream of (ps, err) \<Rightarrow>
      case data_steps ps \<lparr> dg_df = [], dg_daq = [], dg_n_ti = 0 \<rparr> of
        Inl e \<Rightarrow> Inl e
      | Inr g \<Rightarrow> (case err of Some e \<Rightarrow> Inl e
        | None \<Rightarrow>
          let m1 = (case df of None \<Rightarrow> [] | Some expd \<Rightarrow> mismatches expd (dg_df g));
              m2 = (case daq of None \<Rightarrow> [] | Some expd \<Rightarrow> mismatches expd (dg_daq g)) in
          Inr ((if (case df of None \<Rightarrow> False | Some expd \<Rightarrow> dg_df g \<noteq> expd)
                   \<or> (case daq of None \<Rightarrow> False | Some expd \<Rightarrow> dg_daq g \<noteq> expd) then 1 else 0), m1, m2)))"

text \<open>The oracle files; a line with another number of words is skipped.\<close>

fun read_df :: "string list \<Rightarrow> exn + (char \<times> int \<times> int \<times> int) list" where
  "read_df [] = Inr []"
| "read_df (line # ls) = (case split_ws line of
     [kind, addr, sz, data] \<Rightarrow>
       (case (py_int 10 sz, py_int 16 addr, py_int 16 data) of
          (Some s, Some a, Some d) \<Rightarrow>
            if s < 0 then Inl (Exn ValueError ''negative shift count'' [])
            else (case read_df ls of Inl e \<Rightarrow> Inl e
              | Inr r \<Rightarrow> Inr ((hd kind, a, push_bit (nat s) 1, d AND (push_bit (8 * 2 ^ nat s) 1 - 1)) # r))
        | _ \<Rightarrow> Inl (Exn ValueError ''invalid literal for int()'' []))
   | _ \<Rightarrow> read_df ls)"

fun read_daq :: "string list \<Rightarrow> exn + (int \<times> int) list" where
  "read_daq [] = Inr []"
| "read_daq (line # ls) = (case split_ws line of
     [idtag, data] \<Rightarrow>
       (case (py_int 16 idtag, py_int 16 data) of
          (Some t, Some d) \<Rightarrow> (case read_daq ls of Inl e \<Rightarrow> Inl e | Inr r \<Rightarrow> Inr ((t, d) # r))
        | _ \<Rightarrow> Inl (Exn ValueError ''invalid literal for int()'' []))
   | _ \<Rightarrow> read_daq ls)"


section \<open>Writing a packet\<close>

text \<open>The bits of a field of \<open>n\<close> bits, and of a sequence of fields.\<close>

definition fld :: "nat \<Rightarrow> int \<Rightarrow> bool list" where
  "fld n v = map (bit v) [0..<n]"

definition flds :: "(nat \<times> int) list \<Rightarrow> bool list" where
  "flds fs = concat (map (\<lambda>(n, v). fld n v) fs)"

text \<open>\<open>compress_packet\<close> of the encoder model: all but one of the equal bits at the most significant
  end go, and the rest is extended to whole bytes with that bit.\<close>

fun strip_sign :: "bool list \<Rightarrow> bool list" where
  "strip_sign (m # n # bs) = (if m = n then strip_sign (n # bs) else m # n # bs)"
| "strip_sign bs = bs"

definition compress_packet :: "bool list \<Rightarrow> bool list" where
  "compress_packet bs = (let c = rev (strip_sign (rev bs)) in c @ replicate ((8 - length c mod 8) mod 8) (last bs))"

text \<open>The payload bytes of \<open>output_packet\<close>, the first bits first, and the header byte.\<close>

function payload_bytes :: "bool list \<Rightarrow> byte list" where
  "payload_bytes bs = (if bs = [] then [] else word_of_int (bits_int (take 8 bs)) # payload_bytes (drop 8 bs))"
  by auto
termination by (relation "measure length") auto

declare payload_bytes.simps [simp del]

definition output_packet :: "nat \<Rightarrow> bool list \<Rightarrow> byte list" where
  "output_packet msg_type bs = (word_of_nat (length bs div 8) OR push_bit 5 (word_of_nat msg_type)) # payload_bytes bs"

text \<open>The fields of an instruction packet, in the order of the wire.\<close>

fun te_fields :: "te_inst \<Rightarrow> (nat \<times> int) list" where
  "te_fields (Sync_Start br pr a) = [(2, SYNC), (2, START), (1, br), (PRIVILEGE_WIDTH, pr), (address_bits, a)]"
| "te_fields (Sync_Trap br pr ec intr th a tv) =
     [(2, SYNC), (2, TRAP), (1, br), (PRIVILEGE_WIDTH, pr), (ECAUSE_WIDTH, ec), (1, intr), (1, th), (address_bits, a)]
     @ (case tv of None \<Rightarrow> [] | Some v \<Rightarrow> [(IADDRESS_WIDTH, v)])"
| "te_fields (Sync_Context pr) = [(2, SYNC), (2, CONTEXT), (PRIVILEGE_WIDTH, pr)]"
| "te_fields (Sync_Support ie em qs io de dl dop) =
     [(2, SYNC), (2, SUPPORT), (1, ie), (1, em), (2, qs), (5, io), (1, de), (1, dl), (4, dop)]"
| "te_fields (Addr a n u i) = [(2, ADDR), (address_bits, a), (1, n), (1, u), (1, i)]"
| "te_fields (Branch_Addr b m a n u i) =
     [(2, BRANCH), (5, b), (mapbits b, m), (address_bits, a), (1, n), (1, u), (1, i)]"
| "te_fields (Branch_Full m) = [(2, BRANCH), (5, 0), (31, m)]"
| "te_fields (Ext_Jtc idx b m i) =
     [(2, EXT), (1, 1), (6, idx), (5, b)] @ (if b \<noteq> 0 then [(mapbits b, m)] else []) @ [(1, i)]"
| "te_fields (Ext_Count c f) = [(2, EXT), (1, 0), (32, c), (2, f)]"
| "te_fields (Ext_Count_Addr c f a n u i) =
     [(2, EXT), (1, 0), (32, c), (2, f), (address_bits, a), (1, n), (1, u), (1, i)]"

definition fields_ok :: "(nat \<times> int) list \<Rightarrow> bool" where
  "fields_ok = list_all (\<lambda>(n, v). 0 \<le> v \<and> v < 2 ^ n)"

fun te_shape :: "te_inst \<Rightarrow> bool" where
  "te_shape (Sync_Trap br pr ec intr th a tv) = ((tv = None) = (intr = 1))"
| "te_shape (Branch_Addr b m a n u i) = (b \<noteq> 0)"
| "te_shape (Ext_Jtc idx b m i) = (b = 0 \<longrightarrow> m = 0)"
| "te_shape (Ext_Count c f) = (f < 2)"
| "te_shape (Ext_Count_Addr c f a n u i) = (2 \<le> f)"
| "te_shape _ = True"

definition te_ok :: "te_inst \<Rightarrow> bool" where
  "te_ok te = (fields_ok (te_fields te) \<and> te_shape te)"

definition data_fields :: "te_data \<Rightarrow> int \<Rightarrow> int \<Rightarrow> (nat \<times> int) list" where
  "data_fields d v a = [(2, td_format d), (2, td_size d), (2, td_diff d), (nat (td_size d), td_data_len d),
     (8 * (nat (td_data_len d) + 1), v), (32, a)]"

section \<open>Reading what was written\<close>

text \<open>The unread bits, extended, start with the given ones, and at most seven are left after them.\<close>

definition carries :: "bool list \<Rightarrow> raw_packet \<Rightarrow> bool" where
  "carries bs p = (\<exists>m. rp_msb p = Some m \<and> take (length bs) (rp_bits p @ replicate (length bs) m) = bs
     \<and> length (rp_bits p) \<le> length bs + 7)"

lemma length_fld [simp]: "length (fld n v) = n"
  by (simp add: fld_def)

lemma bits_int_append: "bits_int (xs @ ys) = bits_int xs + 2 ^ length xs * bits_int ys"
  by (induction xs) (auto simp: algebra_simps)

lemma bits_int_fld: "bits_int (fld n v) = take_bit n v"
proof (induction n)
  case (Suc n)
  have "fld (Suc n) v = fld n v @ [bit v n]" by (simp add: fld_def)
  then show ?case using Suc
    by (simp add: bits_int_append take_bit_Suc_from_most del: take_bit_Suc)
qed (simp add: fld_def)

lemma bits_int_fld_eq: "0 \<le> v \<Longrightarrow> v < 2 ^ n \<Longrightarrow> bits_int (fld n v) = v"
  by (simp add: bits_int_fld take_bit_int_eq_self)

lemma take_extended:
  assumes "take (length (xs @ ys)) (bs @ replicate (length (xs @ ys)) m) = xs @ ys"
  shows "take (length xs) (bs @ replicate (length xs) m) = xs"
proof -
  have "take (length xs) (take (length (xs @ ys)) (bs @ replicate (length (xs @ ys)) m)) = xs"
    by (simp only: assms) simp
  then show ?thesis by (simp add: min_def split: if_splits)
qed

lemma take_replicated: "take k (xs @ replicate (j + k) m) = take k (xs @ replicate k m)"
  by (auto simp: min_def)

lemma field_carries:
  assumes "carries (fld n v @ bs) p" "0 \<le> v" "v < 2 ^ n"
  shows "\<exists>q. field n p = (Inr v, q) \<and> carries bs q"
proof -
  obtain m where m: "rp_msb p = Some m" "length (rp_bits p) \<le> n + length bs + 7"
    and t: "take (n + length bs) (rp_bits p @ replicate (n + length bs) m) = fld n v @ bs"
    using assms(1) by (auto simp: carries_def)
  have v: "take n (rp_bits p @ replicate n m) = fld n v"
    using take_extended[of "fld n v" bs "rp_bits p" m] t by simp
  have r: "take (length bs) (drop n (rp_bits p @ replicate (n + length bs) m)) = bs"
  proof -
    have "drop n (take (n + length bs) (rp_bits p @ replicate (n + length bs) m)) = bs"
      by (simp only: t) simp
    then show ?thesis by (simp only: drop_take diff_add_inverse)
  qed
  show ?thesis
  proof (cases "n = 0")
    case True
    then show ?thesis using assms by (auto simp: field_def get_bits_def bnd_def fld_def)
  next
    case False
    show ?thesis
    proof (cases "length (rp_bits p) < n")
      case True
      have "rp_bits p @ replicate (n - length (rp_bits p)) m = fld n v" using True v by simp
      moreover have "carries bs (p\<lparr>rp_bits := []\<rparr>)"
        using m r True by (auto simp: carries_def)
      ultimately show ?thesis using False True m assms(2,3)
        by (auto simp: field_def get_bits_def bnd_def bits_int_fld_eq)
    next
      case shorter: False
      have f: "take n (rp_bits p) = fld n v" using shorter v by simp
      have "take (length bs) (drop n (rp_bits p) @ replicate (n + length bs) m) = bs"
      proof -
        have "drop n (rp_bits p @ replicate (n + length bs) m) = drop n (rp_bits p) @ replicate (n + length bs) m"
          using shorter by simp
        then show ?thesis using r by (simp only:)
      qed
      then have "take (length bs) (drop n (rp_bits p) @ replicate (length bs) m) = bs"
        by (simp only: take_replicated)
      then have "carries bs (p\<lparr>rp_bits := drop n (rp_bits p)\<rparr>)"
        using m by (simp add: carries_def)
      with f show ?thesis using False shorter assms(2,3)
        by (auto simp: field_def get_bits_def bnd_def bits_int_fld_eq)
    qed
  qed
qed

lemma read_field:
  assumes "carries (fld n v @ bs) p" "0 \<le> v" "v < 2 ^ n" "\<And>q. carries bs q \<Longrightarrow> fst (f v q) = r"
  shows "fst (bnd (field n) f p) = r"
  using field_carries[OF assms(1-3)] assms(4) by (auto simp: bnd_def)

lemma read_end: "carries [] p \<Longrightarrow> fst (andthen check (ret x) p) = Inr x"
  by (auto simp: carries_def check_def andthen_def bnd_def)

lemma read_last:
  assumes "carries (fld n v) p" "0 \<le> v" "v < 2 ^ n" "\<And>q. carries [] q \<Longrightarrow> fst (f v q) = r"
  shows "fst (bnd (field n) f p) = r"
  using assms by (intro read_field[where bs = "[]"]) auto

lemma bit_bits_int: "bit (bits_int xs) n \<longleftrightarrow> n < length xs \<and> xs ! n"
proof (induction xs arbitrary: n)
  case (Cons x xs)
  then show ?case by (cases n) (auto simp: bit_Suc bit_0)
qed simp

lemma bits_of_byte: "length xs = 8 \<Longrightarrow> map (bit (word_of_int (bits_int xs) :: byte)) [0..<8] = xs"
  by (intro nth_equalityI) (auto simp: bit_word_of_int_iff bit_bits_int)

lemma byte_bits_payload: "8 dvd length bs \<Longrightarrow> byte_bits (payload_bytes bs) = bs"
proof (induction bs rule: payload_bytes.induct)
  case (1 bs)
  show ?case
  proof (cases "bs = []")
    case False
    with 1 have "8 \<le> length bs" by (auto dest: dvd_imp_le)
    with False 1 show ?thesis
      by (subst payload_bytes.simps) (simp add: bits_of_byte dvd_minus_self del: upt_rec_numeral)
  qed (simp add: payload_bytes.simps)
qed

lemma byte_bits_last: "data \<noteq> [] \<Longrightarrow> last (byte_bits data) = bit (last data) 7"
proof (induction data rule: byte_bits.induct)
  case (2 b bs)
  then show ?case by (cases bs) (simp_all add: upt_rec eval_nat_numeral)
qed simp

lemma strip_sign_replicate: "xs \<noteq> [] \<Longrightarrow> \<exists>k. xs = replicate k (hd xs) @ strip_sign xs"
proof (induction xs rule: strip_sign.induct)
  case (1 m n bs)
  show ?case
  proof (cases "m = n")
    case True
    with 1 obtain k where "n # bs = replicate k n @ strip_sign (n # bs)" by auto
    with True have "m # n # bs = replicate (Suc k) m @ strip_sign (m # n # bs)" by simp
    then show ?thesis by (metis list.sel(1))
  qed (auto intro: exI[of _ 0])
qed (auto intro: exI[of _ 0])

lemma strip_sign_hd: "xs \<noteq> [] \<Longrightarrow> strip_sign xs \<noteq> [] \<and> hd (strip_sign xs) = hd xs"
  by (induction xs rule: strip_sign.induct) auto

lemma pad_dvd: "(8 - n mod 8) mod 8 \<le> (7 :: nat)" "8 dvd n + (8 - n mod 8) mod (8 :: nat)"
proof -
  have "n + (8 - n mod 8) = 8 * (n div 8) + 8"
    using mult_div_mod_eq[of 8 n] mod_less_divisor[of 8 n] by linarith
  then have "(n + (8 - n mod 8)) mod 8 = 0" by simp
  then show "8 dvd n + (8 - n mod 8) mod 8" by (simp only: mod_0_imp_dvd mod_add_right_eq)
  show "(8 - n mod 8) mod 8 \<le> 7" by (rule less_Suc_eq_le[THEN iffD1]) simp
qed

lemma compress_packet_shape:
  assumes "bs \<noteq> []"
  obtains c j k where "compress_packet bs = c @ replicate j (last bs)" "bs = c @ replicate k (last bs)"
    "c \<noteq> []" "last c = last bs" "j \<le> 7" "8 dvd length c + j"
proof -
  define c where "c = rev (strip_sign (rev bs))"
  obtain k where "rev bs = replicate k (last bs) @ strip_sign (rev bs)"
    using strip_sign_replicate[of "rev bs"] assms by (auto simp: hd_rev)
  then have k: "bs = c @ replicate k (last bs)"
    unfolding c_def by (metis rev_append rev_replicate rev_rev_ident)
  have c: "c \<noteq> []" "last c = last bs"
    using strip_sign_hd[of "rev bs"] assms by (simp_all add: c_def last_rev hd_rev)
  let ?j = "(8 - length c mod 8) mod 8"
  have "?j \<le> 7" "8 dvd length c + ?j" by (simp_all add: pad_dvd)
  with k c show ?thesis
    by (intro that[of c ?j k]) (simp_all add: compress_packet_def c_def Let_def)
qed

lemma compress_carries:
  assumes "bs \<noteq> []"
  shows "carries bs (raw_packet_of (payload_bytes (compress_packet bs)))"
proof -
  obtain c j k where s: "compress_packet bs = c @ replicate j (last bs)" "bs = c @ replicate k (last bs)"
    "c \<noteq> []" "last c = last bs" "j \<le> 7" "8 dvd length c + j"
    using compress_packet_shape[OF assms] by blast
  define m where "m = last bs"
  have bits: "byte_bits (payload_bytes (compress_packet bs)) = c @ replicate j m"
    using s(1,6) by (simp add: byte_bits_payload m_def)
  then have ne: "payload_bytes (compress_packet bs) \<noteq> []" using s(3) by auto
  have "last (byte_bits (payload_bytes (compress_packet bs))) = m"
    unfolding bits using s(3,4) by (cases j) (simp_all add: m_def)
  with byte_bits_last[OF ne] ne have msb: "rp_msb (raw_packet_of (payload_bytes (compress_packet bs))) = Some m"
    by (simp add: raw_packet_of_def)
  have len: "length bs = length c + k" by (subst s(2)) simp
  have "take (length bs) ((c @ replicate j m) @ replicate (length bs) m) = c @ replicate k m"
  proof -
    have "replicate j m @ replicate (length bs) m = replicate k m @ replicate (j + length c) m"
      by (simp add: len add.assoc add.commute flip: replicate_add)
    then have "(c @ replicate j m) @ replicate (length bs) m = (c @ replicate k m) @ replicate (j + length c) m"
      by simp
    then show ?thesis by (simp only: len) simp
  qed
  also have "\<dots> = bs" using s(2) by (simp add: m_def)
  finally show ?thesis using msb bits s(5) len by (simp add: carries_def raw_packet_of_def)
qed

section \<open>Properties\<close>

lemma fields_ok_Cons [simp]: "fields_ok ((n, v) # fs) \<longleftrightarrow> 0 \<le> v \<and> v < 2 ^ n \<and> fields_ok fs"
  by (simp add: fields_ok_def)

lemma fields_ok_append [simp]: "fields_ok (fs @ gs) \<longleftrightarrow> fields_ok fs \<and> fields_ok gs"
  by (simp add: fields_ok_def)

lemma flds_simps [simp]: "flds [] = []" "flds ((n, v) # fs) = fld n v @ flds fs" "flds (fs @ gs) = flds fs @ flds gs"
  by (simp_all add: flds_def)

lemma read_then: "c \<Longrightarrow> fst (m p) = r \<Longrightarrow> fst ((if c then m else n) p) = r"
  by simp

lemma read_else: "\<not> c \<Longrightarrow> fst (n p) = r \<Longrightarrow> fst ((if c then m else n) p) = r"
  by simp

lemma read_some: "fst (m p) = Inr x \<Longrightarrow> fst (bnd m (\<lambda>y. ret (f y)) p) = Inr (f x)"
  by (auto simp: bnd_def split: prod.splits sum.splits)

lemmas te_defs = SYNC_def ADDR_def BRANCH_def EXT_def START_def TRAP_def CONTEXT_def SUPPORT_def
  create_te_inst_def create_sync_def create_addr_def create_branch_def create_ext_def

text \<open>Reads the next field, or takes the arm of a decided condition, or ends.\<close>

lemma te_read:
  assumes "te_ok te" "carries (flds (te_fields te)) p"
  shows "fst (create_te_inst 2 p) = Inr (Some te)"
  using assms
  apply (cases te)
           apply (simp_all only: te_defs te_fields.simps flds_simps te_ok_def fields_ok_Cons fields_ok_append te_shape.simps)
           apply (simp_all del: One_nat_def split: option.split_asm if_split_asm)
  apply ((rule read_field read_last read_end, assumption, (simp; fail)?, (simp; fail)?)
        | (rule read_then, ((simp; fail) | (arith; fail))) | (rule read_else, (simp; fail)) | rule read_some)+
  done

lemma flds_nonempty: "te_ok te \<Longrightarrow> flds (te_fields te) \<noteq> []"
  by (cases te) (simp_all add: fld_def)

lemma data_read:
  assumes "fields_ok (data_fields d v a)" "carries (flds (data_fields d v a)) p"
    and "td_kind d = (if td_format d AND 2 \<noteq> 0 then CHR ''S'' else CHR ''L'')"
    and "td_nbytes d = push_bit (nat (td_size d)) 1"
    and "td_addr d = (if td_format d AND 1 \<noteq> 0 then a else push_bit (nat (td_size d)) a AND 0xFFFFFFFF)"
    and "td_value d = sign_extended v (8 * (nat (td_data_len d) + 1)) (8 * nat (td_nbytes d))
      AND (push_bit (8 * nat (td_nbytes d)) 1 - 1)"
  shows "fst (parse_te_data p) = Inr d"
  using assms unfolding parse_te_data_def data_fields_def flds_simps append_Nil2 fields_ok_Cons Let_def
  apply -
  apply ((rule read_field read_last, assumption, (simp; fail)?, (simp; fail)?))+
  apply (rule trans, rule read_end, assumption)
  apply simp
  done

text \<open>Sign extension of a field of \<open>w\<close> bits.\<close>

lemma push_mask: "push_bit n 1 - 1 = (mask n :: int)"
  by (simp add: push_bit_eq_mult mask_eq_exp_minus_1)

lemma sign_extended_exact:
  assumes "0 < w" "w \<le> n" "0 \<le> v" "v < 2 ^ w"
  shows "sign_extended v w n AND (push_bit n 1 - 1) = take_bit n (signed_take_bit (w - 1) v)"
proof (rule bit_eqI)
  fix i
  define k where "k = w - 1"
  have w: "w = Suc k" using assms(1) by (simp add: k_def)
  have small: "bit v j \<Longrightarrow> j < w" for j
    using assms(3,4) take_bit_int_eq_self[of v w] by (metis bit_take_bit_iff)
  have "drop_bit k v AND 1 \<noteq> 0 \<longleftrightarrow> bit v k"
    by (simp add: bit_iff_and_drop_bit_eq_1 and_one_eq)
  then have "sign_extended v w n = (if bit v k then v OR (mask n XOR mask w) else v)"
    unfolding sign_extended_def push_mask k_def by (simp only:)
  then show "bit (sign_extended v w n AND (push_bit n 1 - 1)) i = bit (take_bit n (signed_take_bit (w - 1) v)) i"
    unfolding push_mask using small[of i] assms(2)
    by (auto simp: w bit_and_iff bit_or_iff bit_xor_iff bit_mask_iff bit_take_bit_iff
        bit_signed_take_bit_iff min_def less_Suc_eq)
qed

section \<open>Streams\<close>

text \<open>What a stream carries: instruction packets, accesses with their value and the number of bytes
  it is sent in, and messages.\<close>

datatype item =
    is_Item_Inst: Item_Inst te_inst
  | Item_Data (it_format: int) (it_size: int) (it_diff: int) (it_data_len: int) (it_value: int) (it_address: int)
  | Item_Daq (it_idtag: int) (it_data: int)

fun item_fields :: "item \<Rightarrow> (nat \<times> int) list" where
  "item_fields (Item_Inst te) = te_fields te"
| "item_fields (Item_Data f s d l x a) = [(2, f), (2, s), (2, d), (nat s, l),
     (8 * (nat l + 1), take_bit (8 * (nat l + 1)) x), (32, a)]"
| "item_fields (Item_Daq t x) = [(8, t), (192, x)]"

fun item_type :: "item \<Rightarrow> nat" where
  "item_type (Item_Inst te) = 2"
| "item_type (Item_Data f s d l x a) = 3"
| "item_type (Item_Daq t x) = 1"

text \<open>An access of \<open>2 ^ size\<close> bytes, whose value is the sign extension of the bytes sent.\<close>

fun item_ok :: "item \<Rightarrow> bool" where
  "item_ok (Item_Inst te) = te_ok te"
| "item_ok (Item_Data f s d l x a) = (fields_ok (item_fields (Item_Data f s d l x a)) \<and>
     take_bit (8 * 2 ^ nat s) (signed_take_bit (8 * (nat l + 1) - 1) x) = x)"
| "item_ok (Item_Daq t x) = fields_ok (item_fields (Item_Daq t x))"

definition item_payload :: "item \<Rightarrow> byte list" where
  "item_payload it = payload_bytes (compress_packet (flds (item_fields it)))"

definition item_stream :: "item list \<Rightarrow> byte list" where
  "item_stream its = concat (map (\<lambda>it. output_packet (item_type it) (compress_packet (flds (item_fields it)))) its)"

fun item_access :: "item \<Rightarrow> (char \<times> int \<times> int \<times> int) list" where
  "item_access (Item_Data f s d l x a) = [(if f AND 2 \<noteq> 0 then CHR ''S'' else CHR ''L'',
     if f AND 1 \<noteq> 0 then a else push_bit (nat s) a AND 0xFFFFFFFF, 2 ^ nat s, x)]"
| "item_access _ = []"

fun item_message :: "item \<Rightarrow> (int \<times> int) list" where
  "item_message (Item_Daq t x) = [(t, x)]"
| "item_message _ = []"

lemma data_item_read:
  assumes ok: "item_ok (Item_Data f s d l x a)" and p: "carries (flds (item_fields (Item_Data f s d l x a))) p"
  shows "fst (parse_te_data p) = Inr \<lparr> td_format = f, td_size = s, td_diff = d, td_data_len = l,
    td_kind = (if f AND 2 \<noteq> 0 then CHR ''S'' else CHR ''L''),
    td_addr = (if f AND 1 \<noteq> 0 then a else push_bit (nat s) a AND 0xFFFFFFFF),
    td_nbytes = 2 ^ nat s, td_value = x \<rparr>"
proof -
  let ?w = "8 * (nat l + 1)" and ?n = "8 * 2 ^ nat s" and ?v = "take_bit (8 * (nat l + 1)) x"
  have l: "nat l + 1 \<le> 2 ^ nat s" using ok by (simp add: nat_less_iff Suc_le_eq nat_power_eq)
  then have "?w \<le> ?n" by simp
  then have "sign_extended ?v ?w ?n AND (push_bit ?n 1 - 1) = take_bit ?n (signed_take_bit (?w - 1) ?v)"
    by (intro sign_extended_exact) simp_all
  also have "\<dots> = take_bit ?n (signed_take_bit (?w - 1) x)" by (simp add: signed_take_bit_take_bit)
  also have "\<dots> = x" using ok by simp
  finally have "sign_extended ?v ?w ?n AND (push_bit ?n 1 - 1) = x" .
  with ok p show ?thesis
    by (intro data_read[where v = ?v and a = a])
       (simp_all add: data_fields_def push_bit_eq_mult nat_power_eq del: fields_ok_Cons flds_simps)
qed

lemma output_header:
  assumes "msg_type < 4" "length bs div 8 < 32"
  shows "unat ((word_of_nat (length bs div 8) OR push_bit 5 (word_of_nat msg_type) :: byte) AND 0x1F) = length bs div 8"
    and "unat (drop_bit 5 (word_of_nat (length bs div 8) OR push_bit 5 (word_of_nat msg_type) :: byte) AND 3) = msg_type"
proof -
  let ?n = "word_of_nat (length bs div 8) :: byte" and ?t = "word_of_nat msg_type :: byte"
  have n: "unat ?n = length bs div 8" using assms(2) by (simp add: unat_of_nat take_bit_nat_eq_self)
  have t: "unat ?t = msg_type" using assms(1) by (simp add: unat_of_nat take_bit_nat_eq_self)
  have "take_bit 5 ?n = ?n"
    by (rule word_unat_eq_iff[THEN iffD2]) (simp only: unsigned_take_bit_eq n take_bit_nat_eq_self_iff, use assms(2) in simp)
  have "take_bit 2 ?t = ?t"
    by (rule word_unat_eq_iff[THEN iffD2]) (simp only: unsigned_take_bit_eq t take_bit_nat_eq_self_iff, use assms(1) in simp)
  have mask: "x AND 0x1F = take_bit 5 x" "x AND 3 = take_bit 2 x" for x :: byte
    by (simp_all add: take_bit_eq_mask mask_eq_exp_minus_1)
  have bits: "bit ?n i \<Longrightarrow> i < 5" "bit ?t i \<Longrightarrow> i < 2" for i
    using \<open>take_bit 5 ?n = ?n\<close> \<open>take_bit 2 ?t = ?t\<close> by (metis bit_take_bit_iff)+
  have "(?n OR push_bit 5 ?t) AND 0x1F = ?n" unfolding mask
    by (rule bit_word_eqI) (use bits in \<open>auto simp: bit_take_bit_iff bit_or_iff bit_push_bit_iff\<close>)
  with n show "unat ((?n OR push_bit 5 ?t) AND 0x1F) = length bs div 8" by simp
  have "drop_bit 5 (?n OR push_bit 5 ?t) AND 3 = ?t" unfolding mask
    by (rule bit_word_eqI) (use bits in \<open>fastforce simp: bit_take_bit_iff bit_or_iff bit_push_bit_iff bit_drop_bit_eq\<close>)
  with t show "unat (drop_bit 5 (?n OR push_bit 5 ?t) AND 3) = msg_type" by simp
qed

lemma length_payload_bytes: "8 dvd length bs \<Longrightarrow> length (payload_bytes bs) = length bs div 8"
proof (induction bs rule: payload_bytes.induct)
  case (1 bs)
  show ?case
  proof (cases "bs = []")
    case False
    with 1 obtain k where k: "length bs = 8 * k" by (auto simp: dvd_def)
    with False obtain m where m: "length bs = 8 * Suc m" by (cases k) auto
    then have "length (payload_bytes (drop 8 bs)) = m" using 1(1) False by simp
    with False m show ?thesis by (subst payload_bytes.simps) simp
  qed (simp add: payload_bytes.simps)
qed

lemma packets_output:
  assumes "msg_type < 4" "length bs div 8 < 32" "8 dvd length bs" "packets rest = (ps, None)"
  shows "packets (output_packet msg_type bs @ rest) = ((msg_type, payload_bytes bs) # ps, None)"
  unfolding output_packet_def append_Cons packets.simps output_header[OF assms(1,2)] Let_def
  using assms(3,4) by (simp add: length_payload_bytes)

lemma daq_read:
  assumes "fields_ok (item_fields (Item_Daq t x))" "carries (flds (item_fields (Item_Daq t x))) p"
  shows "fst (parse_daq p) = Inr \<lparr> dq_idtag = t, dq_data = x \<rparr>"
  using assms unfolding parse_daq_def item_fields.simps flds_simps append_Nil2 fields_ok_Cons
  apply -
  apply (rule read_field read_last read_end, assumption, (simp; fail)?, (simp; fail)?)+
  done

lemma length_flds: "length (flds fs) = sum_list (map fst fs)"
  by (induction fs) auto

lemma mapbits_le: "mapbits b \<le> 31"
  by (simp add: mapbits_def)

lemma te_length: "length (flds (te_fields te)) \<le> 240"
  using mapbits_le[of "te_branches te"]
  by (cases te) (auto simp: length_flds IADDRESS_WIDTH_def IADDRESS_LSB_def PRIVILEGE_WIDTH_def ECAUSE_WIDTH_def
      split: option.splits)

lemma item_flds:
  assumes "item_ok it"
  shows "flds (item_fields it) \<noteq> []" "length (flds (item_fields it)) \<le> 240"
proof -
  show "flds (item_fields it) \<noteq> []"
    using assms flds_nonempty by (cases it) (auto simp: fld_def)
  show "length (flds (item_fields it)) \<le> 240"
  proof (cases it)
    case (Item_Data f s d l x a)
    with assms have s: "nat s \<le> 3" and "nat l < 2 ^ nat s" by (auto simp: nat_less_iff)
    moreover have "(2 :: nat) ^ nat s \<le> 8" using power_increasing[OF s, of "2 :: nat"] by simp
    ultimately have "nat l < 8" by linarith
    with s Item_Data show ?thesis by (simp add: length_flds)
  next
    case (Item_Inst te)
    then show ?thesis using te_length by simp
  qed (simp add: length_flds)
qed

lemma compress_length:
  assumes "bs \<noteq> []"
  shows "length (compress_packet bs) \<le> length bs + 7" "8 dvd length (compress_packet bs)"
proof -
  obtain c j k where "compress_packet bs = c @ replicate j (last bs)" "bs = c @ replicate k (last bs)"
    "j \<le> 7" "8 dvd length c + j"
    using compress_packet_shape[OF assms] by blast
  moreover from this(2) have "length bs = length c + k" by (metis length_append length_replicate)
  ultimately show "length (compress_packet bs) \<le> length bs + 7" "8 dvd length (compress_packet bs)" by simp_all
qed

lemma item_packets:
  "list_all item_ok its \<Longrightarrow> packets (item_stream its) = (map (\<lambda>it. (item_type it, item_payload it)) its, None)"
proof (induction its)
  case (Cons it its)
  let ?c = "compress_packet (flds (item_fields it))"
  have f: "flds (item_fields it) \<noteq> []" "length (flds (item_fields it)) \<le> 240"
    using Cons item_flds by auto
  have c: "length ?c div 8 < 32" "8 dvd length ?c"
    using compress_length[OF f(1)] f(2) by auto
  have t: "item_type it < 4" by (cases it) auto
  have "packets (output_packet (item_type it) ?c @ item_stream its) =
      ((item_type it, payload_bytes ?c) # map (\<lambda>it. (item_type it, item_payload it)) its, None)"
    using Cons by (intro packets_output[OF t c]) auto
  then show ?case by (simp add: item_stream_def item_payload_def)
qed (simp add: item_stream_def)

lemma item_carries: "item_ok it \<Longrightarrow> carries (flds (item_fields it)) (raw_packet_of (item_payload it))"
  unfolding item_payload_def by (intro compress_carries item_flds)

lemma item_step:
  assumes "item_ok it"
  shows "data_step (item_type it, item_payload it) g = Inr (g\<lparr>dg_df := dg_df g @ item_access it,
    dg_daq := dg_daq g @ item_message it, dg_n_ti := dg_n_ti g + of_bool (is_Item_Inst it)\<rparr>)"
proof (cases it)
  case (Item_Inst te)
  with assms item_carries[OF assms] te_read[of te] show ?thesis
    by (simp add: data_step_def)
next
  case (Item_Data f s d l x a)
  with assms item_carries[OF assms] data_item_read show ?thesis
    by (simp add: data_step_def del: item_fields.simps item_ok.simps)
next
  case (Item_Daq t x)
  with assms daq_read[OF _ item_carries[OF assms, unfolded Item_Daq], folded Item_Daq] show ?thesis
    by (simp add: data_step_def)
qed

lemma item_steps:
  "list_all item_ok its \<Longrightarrow> data_steps (map (\<lambda>it. (item_type it, item_payload it)) its) g
    = Inr (g\<lparr>dg_df := dg_df g @ concat (map item_access its), dg_daq := dg_daq g @ concat (map item_message its),
        dg_n_ti := dg_n_ti g + length (filter is_Item_Inst its)\<rparr>)"
proof (induction its arbitrary: g)
  case (Cons it its)
  then show ?case by (simp add: item_step)
qed simp

lemma mismatches_Nil: "mismatches xs ys = [] \<longleftrightarrow> xs = ys"
proof
  assume m: "mismatches xs ys = []"
  have eq: "(if i < length xs then Some (xs ! i) else None) = (if i < length ys then Some (ys ! i) else None)"
    if "i < max (length xs) (length ys)" for i
    using m that by (auto simp: mismatches_def filter_empty_conv)
  have "length xs = length ys"
    using eq[of "length xs"] eq[of "length ys"] by (cases "length xs" "length ys" rule: linorder_cases) auto
  then show "xs = ys" using eq by (intro nth_equalityI) auto
qed (simp add: mismatches_def)

text \<open>C29: An instruction packet that is compressed and laid out in bytes the way the encoder model
  does it is read back, field by field, by \<open>create_te_inst\<close>: all formats, the optional format 0
  included, and no bit is left over.\<close>

theorem te_inst_roundtrip:
  assumes "te_ok te"
  shows "fst (create_te_inst 2 (raw_packet_of (payload_bytes (compress_packet (flds (te_fields te)))))) = Inr (Some te)"
  using assms by (intro te_read compress_carries flds_nonempty)

theorem te_inst_roundtrip_witness:
  "fst (create_te_inst 2 (raw_packet_of (payload_bytes (compress_packet (flds (te_fields
     (Branch_Addr 3 5 0x40 0 0 1))))))) = Inr (Some (Branch_Addr 3 5 0x40 0 0 1))"
  by (rule te_inst_roundtrip)
     (simp add: te_ok_def mapbits_def IADDRESS_WIDTH_def IADDRESS_LSB_def BRANCH_def fields_ok_def)

text \<open>The check of the data packets is exact: on a stream of instruction, data and message
  packets it reports success for precisely the accesses and messages the stream carries, in their
  order, with the value of an access restored from the bytes it was shortened to, and otherwise it
  names at least one position.\<close>

lemma data_check_exact:
  assumes "list_all item_ok its"
  shows "data_check (item_stream its) (Some df) (Some daq) =
    Inr (if df = concat (map item_access its) \<and> daq = concat (map item_message its) then (0, [], [])
         else (1, mismatches df (concat (map item_access its)), mismatches daq (concat (map item_message its))))"
  using assms by (auto simp: data_check_def item_packets item_steps mismatches_Nil Let_def)

lemma data_check_exact_witness:
  "data_check (item_stream [Item_Data 1 2 0 0 0xFFFFFFFE 0x80, Item_Daq 7 9]) (Some [(CHR ''L'', 0x80, 4, 0xFFFFFFFE)]) (Some [(7, 9)])
    = Inr (0, [], [])"
  by (subst data_check_exact)
     (simp_all add: fields_ok_def signed_take_bit_eq_if_negative mask_eq_exp_minus_1)

end
