(* ===== verification/Etrace_Decoder.thy ===== *)
theory Etrace_Decoder
  imports Etrace_Packets
begin

unbundle bit_operations_syntax

text \<open>
  The reconstruction of the executed path from an E-Trace stream: \<open>ExtDecoder\<close> of
  \<open>tools/etrace/etrace_common.py\<close> over the base decoder of the vendored reference model
  (\<open>decoder_model.py\<close>), and the driver \<open>etrace_decode.py\<close>. The program is a map from addresses to
  instructions (\<open>ListingData\<close>). A loop that follows the path takes fuel and answers whether it has
  ended.
\<close>

section \<open>Instructions and the state of the decoder\<close>

record instr =
  in_address :: int
  in_size :: int
  in_opcode :: string
  in_rd :: "int option"
  in_rs1 :: "int option"
  in_imm :: "int option"
  in_branch :: bool

type_synonym program = "int \<rightharpoonup> instr"

record decoder =
  d_pc :: "int option"
  d_last_pc :: "int option"
  d_branches :: nat
  d_branch_map :: int
  d_stop_at_last_branch :: bool
  d_inferred_address :: bool
  d_start_of_trace :: bool
  d_address :: "int option"
  d_return_stack :: "int list"
  d_irstack_depth :: int
  d_notify :: bool
  d_updiscon :: bool
  d_irreport :: bool
  d_implicit_return :: bool
  d_full_address :: "bool option"
  d_jump_target_cache :: bool
  d_branch_prediction :: bool
  d_jtc :: "int \<rightharpoonup> int"
  d_bp_table :: "int \<rightharpoonup> int"
  d_bp_pending :: int
  d_bp_fail :: bool
  d_out :: "int list"

text \<open>The return stack has its top at the head. A flag or an option that is not set counts as false,
  but for the full addresses, which are looked up.\<close>

definition new_decoder :: decoder where
  "new_decoder = \<lparr> d_pc = None, d_last_pc = None, d_branches = 0, d_branch_map = 0,
     d_stop_at_last_branch = False, d_inferred_address = False, d_start_of_trace = True, d_address = None,
     d_return_stack = [], d_irstack_depth = 0, d_notify = False, d_updiscon = False, d_irreport = False,
     d_implicit_return = False, d_full_address = None, d_jump_target_cache = False,
     d_branch_prediction = False, d_jtc = Map.empty, d_bp_table = Map.empty, d_bp_pending = 0,
     d_bp_fail = False, d_out = [] \<rparr>"

text \<open>What the walk is given: the program and the \<open>sijump\<close> switch.\<close>

record walk_env =
  we_program :: program
  we_sijump :: bool

definition get_instr :: "walk_env \<Rightarrow> int option \<Rightarrow> (decoder, instr) act" where
  "get_instr E a = (case a of
      None \<Rightarrow> raise (Exn TypeError ''%x format: an integer is required'' [])
    | Some x \<Rightarrow> (case we_program E x of
        None \<Rightarrow> raise (Exn SystemExit ''Instruction not found in listing'' [AI x])
      | Some i \<Rightarrow> ret i))"

definition assert_that :: "bool \<Rightarrow> string \<Rightarrow> (decoder, unit) act" where
  "assert_that b msg = (if b then ret () else raise (Exn AssertionError msg []))"

definition report_pc :: "(decoder, unit) act" where
  "report_pc s = (case d_pc s of
      None \<Rightarrow> (Inl (Exn TypeError ''%x format: an integer is required'' []), s)
    | Some a \<Rightarrow> (Inr (), s\<lparr>d_out := d_out s @ [a]\<rparr>))"

section \<open>The kinds of instructions\<close>

definition is_inferable_jump :: "instr \<Rightarrow> bool" where
  "is_inferable_jump i = (if in_opcode i = ''jalr'' then False else in_opcode i \<in> set [''jal'', ''c.jal'', ''c.j''])"

definition is_uninferable_jump :: "walk_env \<Rightarrow> instr \<Rightarrow> bool" where
  "is_uninferable_jump E i =
     (if in_opcode i = ''jalr'' \<and> in_rs1 i = Some 0 \<and> \<not> we_sijump E then True
      else in_opcode i \<in> set [''c.jalr'', ''c.jr''] \<or> (in_opcode i = ''jalr'' \<and> in_rs1 i \<noteq> Some 0))"

definition is_uninferable_discon :: "walk_env \<Rightarrow> instr \<Rightarrow> bool" where
  "is_uninferable_discon E i = (is_uninferable_jump E i \<or>
     in_opcode i \<in> set [''uret'', ''sret'', ''mret'', ''dret'', ''ecall'', ''ebreak'', ''c.ebreak''])"

definition is_call :: "instr \<Rightarrow> bool" where
  "is_call i = (in_opcode i \<in> set [''c.jalr'', ''c.jal''] \<or> (in_opcode i = ''jalr'' \<and> in_rd i = Some 1)
     \<or> (in_opcode i = ''jal'' \<and> in_rd i = Some 1))"

definition is_return :: "instr \<Rightarrow> bool" where
  "is_return i = ((in_opcode i = ''jalr'' \<and> in_rd i = Some 0 \<and> in_rs1 i = Some 1
       \<and> (case in_imm i of None \<Rightarrow> 0 | Some x \<Rightarrow> x) = 0)
     \<or> (in_opcode i = ''c.jr'' \<and> in_rs1 i = Some 1))"

definition is_implicit_return :: "instr \<Rightarrow> decoder \<Rightarrow> bool" where
  "is_implicit_return i s = (d_implicit_return s \<and> is_return i \<and> d_return_stack s \<noteq> [])"

definition is_sequential_jump :: "walk_env \<Rightarrow> instr \<Rightarrow> int option \<Rightarrow> bool" where
  "is_sequential_jump E i last_pc =
     (if \<not> we_sijump E then False
      else if in_opcode i \<noteq> ''jalr'' \<or> in_rs1 i = None then False
      else if in_rs1 i \<in> {Some 1, Some 5} \<and> in_rd i \<noteq> in_rs1 i then False
      else if in_rs1 i = Some 0 then True
      else (case last_pc of None \<Rightarrow> False
        | Some l \<Rightarrow> (case we_program E l of None \<Rightarrow> False
          | Some prev \<Rightarrow> in_opcode prev \<in> set [''auipc'', ''lui''] \<and> in_rd prev = in_rs1 i)))"

definition imm_or_zero :: "instr \<Rightarrow> int" where
  "imm_or_zero i = (case in_imm i of None \<Rightarrow> 0 | Some x \<Rightarrow> x)"

text \<open>The target, or \<open>None\<close> where there is no operand to compute it from.\<close>

definition sequential_jump_target :: "walk_env \<Rightarrow> instr \<Rightarrow> int option \<Rightarrow> int option" where
  "sequential_jump_target E i last_pc =
     (if in_rs1 i = Some 0 then Some (imm_or_zero i AND NOT 1)
      else (case last_pc of None \<Rightarrow> None
        | Some l \<Rightarrow> (case we_program E l of None \<Rightarrow> None
          | Some prev \<Rightarrow> (case in_imm prev of None \<Rightarrow> None | Some pi \<Rightarrow> Some ((l + pi + imm_or_zero i) AND NOT 1)))))"

section \<open>One step of the path\<close>

text \<open>\<open>is_taken_branch\<close> of the base decoder: the next bit of the branch map.\<close>

definition map_taken :: "(decoder, bool) act" where
  "map_taken = bnd get_state (\<lambda>s. andthen (assert_that (d_branches s \<noteq> 0) ''Error: cannot resolve branch'')
     (andthen (modify (\<lambda>s. s\<lparr>d_branches := d_branches s - 1, d_branch_map := drop_bit 1 (d_branch_map s)\<rparr>))
       (ret (d_branch_map s AND 1 = 0))))"

definition bp_index :: "int \<Rightarrow> int" where
  "bp_index a = drop_bit 2 a AND 0x1FF"

definition bp_counter :: "decoder \<Rightarrow> int \<Rightarrow> int" where
  "bp_counter s a = (case d_bp_table s (bp_index a) of None \<Rightarrow> 1 | Some c \<Rightarrow> c)"

definition bp_train :: "int \<Rightarrow> bool \<Rightarrow> decoder \<Rightarrow> decoder" where
  "bp_train a taken s = s\<lparr>d_bp_table := (d_bp_table s)(bp_index a \<mapsto>
     (if taken then min 3 (bp_counter s a + 1) else max 0 (bp_counter s a - 1)))\<rparr>"

definition is_taken_branch :: "instr \<Rightarrow> (decoder, bool) act" where
  "is_taken_branch i =
     (if \<not> in_branch i then ret False
      else bnd get_state (\<lambda>s.
        if d_branch_prediction s then
          let pred = 2 \<le> bp_counter s (in_address i) in
          bnd (if 0 < d_branches s then map_taken
               else if 0 < d_bp_pending s then
                 andthen (modify (\<lambda>s. s\<lparr>d_bp_pending := d_bp_pending s - 1\<rparr>)) (ret pred)
               else if d_bp_fail s then andthen (modify (\<lambda>s. s\<lparr>d_bp_fail := False\<rparr>)) (ret (\<not> pred))
               else map_taken)
            (\<lambda>taken. andthen (modify (bp_train (in_address i) taken)) (ret taken))
        else map_taken))"

text \<open>A relative move; one of zero is a stop.\<close>

definition incr_pc :: "int option \<Rightarrow> (decoder, bool) act" where
  "incr_pc d = (case d of
      None \<Rightarrow> raise (Exn AssertionError ''imm is None'' [])
    | Some x \<Rightarrow> andthen (modify (\<lambda>s. s\<lparr>d_pc := map_option (\<lambda>p. p + x) (d_pc s)\<rparr>)) (ret (x = 0)))"

definition set_pc :: "int option \<Rightarrow> (decoder, unit) act" where
  "set_pc a = (case a of
      None \<Rightarrow> raise (Exn AssertionError ''pc is None'' [])
    | Some x \<Rightarrow> modify (\<lambda>s. s\<lparr>d_pc := Some x\<rparr>))"

definition push_return_stack :: "instr \<Rightarrow> int option \<Rightarrow> (decoder, unit) act" where
  "push_return_stack i pc = modify (\<lambda>s. if d_implicit_return s
     then s\<lparr>d_return_stack := ((case pc of None \<Rightarrow> 0 | Some p \<Rightarrow> p) + in_size i) # d_return_stack s\<rparr> else s)"

text \<open>\<open>Decoder.next_pc\<close>: where the instruction goes, and whether the walk stops there; then the call
  and the last address.\<close>

definition base_move :: "walk_env \<Rightarrow> int option \<Rightarrow> instr \<Rightarrow> (decoder, bool) act" where
  "base_move E address i = bnd get_state (\<lambda>s.
     if is_inferable_jump i then incr_pc (in_imm i)
     else if is_sequential_jump E i (d_last_pc s) then
       (case sequential_jump_target E i (d_last_pc s) of
          None \<Rightarrow> raise (Exn TypeError ''unsupported operand'' [])
        | Some t \<Rightarrow> andthen (set_pc (Some t)) (ret False))
     else if is_implicit_return i s then
       andthen (modify (\<lambda>s. s\<lparr>d_return_stack := tl (d_return_stack s)\<rparr>))
         (andthen (set_pc (Some (hd (d_return_stack s)))) (ret False))
     else if is_uninferable_discon E i then
       andthen (assert_that (\<not> d_stop_at_last_branch s) ''Error: Unexpected uninferable discontinuity'')
         (andthen (set_pc address) (ret True))
     else bnd (is_taken_branch i) (\<lambda>taken.
       if taken then incr_pc (in_imm i)
       else andthen (modify (\<lambda>s. s\<lparr>d_pc := map_option (\<lambda>p. p + in_size i) (d_pc s)\<rparr>)) (ret False)))"

definition after_move :: "instr \<Rightarrow> int option \<Rightarrow> (decoder, unit) act" where
  "after_move i this_pc = andthen (if is_call i then push_return_stack i this_pc else ret ())
     (modify (\<lambda>s. s\<lparr>d_last_pc := this_pc\<rparr>))"

definition base_next_pc :: "walk_env \<Rightarrow> int option \<Rightarrow> (decoder, bool) act" where
  "base_next_pc E address = bnd get_state (\<lambda>s. bnd (get_instr E (d_pc s)) (\<lambda>i.
     bnd (base_move E address i) (\<lambda>stop. andthen (after_move i (d_pc s)) (ret stop))))"

definition jtc_idx :: "int \<Rightarrow> int" where
  "jtc_idx a = (drop_bit 2 a XOR drop_bit 8 a XOR drop_bit 14 a XOR drop_bit 20 a) AND 0x3F"

definition branch_limit :: "instr \<Rightarrow> nat" where
  "branch_limit i = (if in_branch i then 1 else 0)"

text \<open>\<open>ExtDecoder.next_pc\<close>: the mirror of the jump target cache, and the stop at a folded return.\<close>

definition next_pc :: "walk_env \<Rightarrow> int option \<Rightarrow> (decoder, bool) act" where
  "next_pc E address = bnd get_state (\<lambda>s0. bnd (get_instr E (d_pc s0)) (\<lambda>i.
     let fold = is_implicit_return i s0 in
     bnd (base_next_pc E address) (\<lambda>stop.
     andthen (modify (\<lambda>s. if stop \<and> \<not> fold \<and> d_jump_target_cache s \<and> d_pc s = address \<and> is_uninferable_discon E i
         then (case address of None \<Rightarrow> s | Some a \<Rightarrow> s\<lparr>d_jtc := (d_jtc s)(jtc_idx a \<mapsto> a)\<rparr>) else s))
     (bnd get_state (\<lambda>s. if fold \<and> d_pc s = address \<and> \<not> d_stop_at_last_branch s
        then bnd (get_instr E (d_pc s)) (\<lambda>j. ret (stop \<or> d_branches s \<le> branch_limit j))
        else ret stop)))))"

section \<open>Following the path\<close>

text \<open>A short-circuit conjunction whose second part looks at the program.\<close>

definition and_then :: "bool \<Rightarrow> (decoder, bool) act \<Rightarrow> (decoder, bool) act" where
  "and_then b m = (if b then m else ret False)"

definition at_limit :: "walk_env \<Rightarrow> (nat \<Rightarrow> nat \<Rightarrow> bool) \<Rightarrow> (decoder, bool) act" where
  "at_limit E cmp = bnd get_state (\<lambda>s. bnd (get_instr E (d_pc s)) (\<lambda>i. ret (cmp (d_branches s) (branch_limit i))))"

text \<open>What follows a step to a reported address: whether the walk ends. \<open>sync\<close> tells a packet of format 3.\<close>

definition stop_check :: "walk_env \<Rightarrow> int option \<Rightarrow> bool \<Rightarrow> bool \<Rightarrow> (decoder, bool) act" where
  "stop_check E address sync stop = bnd get_state (\<lambda>s.
     bnd (and_then (d_branches s = 1) (bnd (get_instr E (d_pc s)) (\<lambda>i. ret (in_branch i \<and> d_stop_at_last_branch s)))) (\<lambda>last.
     if last then andthen (modify (\<lambda>s. s\<lparr>d_stop_at_last_branch := False\<rparr>)) (ret True)
     else if stop then bnd (at_limit E (\<le>)) (\<lambda>ok. andthen (assert_that ok ''Error: unprocessed branches'') (ret True))
     else
       bnd (and_then (\<not> sync \<and> d_pc s = address \<and> \<not> d_stop_at_last_branch s \<and> d_notify s) (at_limit E (=))) (\<lambda>notified.
       if notified then ret True
       else
         bnd (and_then (\<not> sync \<and> d_pc s = address \<and> \<not> d_stop_at_last_branch s)
           (bnd (get_instr E (d_last_pc s)) (\<lambda>l. and_then (\<not> is_uninferable_discon E l \<and> \<not> d_updiscon s)
             (bnd (at_limit E (=)) (\<lambda>b. and_then b
               (if d_irreport s then raise (Exn AttributeError ''irdepth'' []) else ret True)))))) (\<lambda>arrived.
         if arrived then andthen (modify (\<lambda>s. s\<lparr>d_inferred_address := True\<rparr>)) (ret True)
         else and_then (sync \<and> d_pc s = address) (at_limit E (=))))))"

text \<open>\<open>follow_execution_path\<close>: one step each round. \<open>previous\<close> is the address at the start.\<close>

fun follow_loop :: "nat \<Rightarrow> walk_env \<Rightarrow> int option \<Rightarrow> int option \<Rightarrow> bool \<Rightarrow> (decoder, bool) act" where
  "follow_loop 0 E previous address sync = ret False"
| "follow_loop (Suc n) E previous address sync = bnd get_state (\<lambda>s.
     if d_inferred_address s then
       bnd (next_pc E previous) (\<lambda>stop. andthen report_pc
         (andthen (modify (\<lambda>s. if stop then s\<lparr>d_inferred_address := False\<rparr> else s))
           (follow_loop n E previous address sync)))
     else
       bnd (next_pc E address) (\<lambda>stop. andthen report_pc
         (bnd (stop_check E address sync stop) (\<lambda>done.
           if done then ret True else follow_loop n E previous address sync))))"

definition follow_execution_path :: "nat \<Rightarrow> walk_env \<Rightarrow> int option \<Rightarrow> bool \<Rightarrow> (decoder, bool) act" where
  "follow_execution_path n E address sync = bnd get_state (\<lambda>s. follow_loop n E (d_pc s) address sync)"

section \<open>Packets\<close>

definition twoscomp :: "int \<Rightarrow> nat \<Rightarrow> int" where
  "twoscomp v w = (if v AND push_bit (w - 1) 1 \<noteq> 0 then v - push_bit w 1 else v)"

definition address_msb :: "int \<Rightarrow> int" where
  "address_msb a = (if push_bit (IADDRESS_WIDTH - 1) 1 AND push_bit IADDRESS_LSB a = 0 then 0 else 1)"

definition set_flags :: "int \<Rightarrow> int \<Rightarrow> int \<Rightarrow> int \<Rightarrow> decoder \<Rightarrow> decoder" where
  "set_flags a notify updiscon irreport s =
     s\<lparr>d_notify := (notify \<noteq> address_msb a), d_updiscon := (updiscon \<noteq> notify), d_irreport := (irreport \<noteq> updiscon)\<rparr>"

fun recover_status_fields :: "te_inst \<Rightarrow> decoder \<Rightarrow> decoder" where
  "recover_status_fields (Addr a n u i) s = set_flags a n u i s"
| "recover_status_fields (Branch_Addr b m a n u i) s = set_flags a n u i s"
| "recover_status_fields te s = s\<lparr>d_notify := False, d_updiscon := False, d_irreport := False\<rparr>"

text \<open>\<open>self.address\<close> from a differential or full address.\<close>

definition move_address :: "bool \<Rightarrow> int \<Rightarrow> (decoder, unit) act" where
  "move_address full a = bnd get_state (\<lambda>s.
     let addr = push_bit IADDRESS_LSB a in
     if full then modify (\<lambda>s. s\<lparr>d_address := Some addr\<rparr>)
     else (case d_address s of
         None \<Rightarrow> raise (Exn TypeError ''unsupported operand'' [])
       | Some old \<Rightarrow> modify (\<lambda>s. s\<lparr>d_address := Some (old + twoscomp addr IADDRESS_WIDTH)\<rparr>)))"

definition add_address :: "int \<Rightarrow> (decoder, unit) act" where
  "add_address a = bnd get_state (\<lambda>s. case d_full_address s of
       None \<Rightarrow> raise (Exn KeyError ''full-address'' [])
     | Some full \<Rightarrow> move_address full a)"

definition add_branches :: "nat \<Rightarrow> int \<Rightarrow> decoder \<Rightarrow> decoder" where
  "add_branches n m s = s\<lparr>d_branch_map := d_branch_map s OR push_bit (d_branches s) m, d_branches := d_branches s + n\<rparr>"

definition follow_address :: "nat \<Rightarrow> walk_env \<Rightarrow> bool \<Rightarrow> (decoder, bool) act" where
  "follow_address n E sync = bnd get_state (\<lambda>s. follow_execution_path n E (d_address s) sync)"

text \<open>The common end of the synchronising packets.\<close>

definition sync_at :: "nat \<Rightarrow> walk_env \<Rightarrow> bool \<Rightarrow> int \<Rightarrow> (decoder, bool) act" where
  "sync_at n E reset br =
     andthen (modify (\<lambda>s. if reset \<or> d_start_of_trace s then s\<lparr>d_branches := 0, d_branch_map := 0\<rparr> else s))
     (bnd get_state (\<lambda>s. bnd (get_instr E (d_address s)) (\<lambda>i.
        andthen (modify (\<lambda>s. if in_branch i then add_branches 1 br s else s))
        (bnd (if \<not> reset \<and> \<not> d_start_of_trace s then follow_address n E True
              else andthen (set_pc (d_address s)) (andthen report_pc (andthen (modify (\<lambda>s. s\<lparr>d_last_pc := d_pc s\<rparr>)) (ret True))))
          (\<lambda>done. if done then andthen (modify (\<lambda>s. s\<lparr>d_start_of_trace := False, d_irstack_depth := 0\<rparr>)) (ret True)
             else ret False)))))"

definition set_sync_address :: "int \<Rightarrow> (decoder, unit) act" where
  "set_sync_address a = andthen (modify (\<lambda>s. s\<lparr>d_inferred_address := False, d_address := Some (push_bit IADDRESS_LSB a)\<rparr>))
     (assert_that (push_bit IADDRESS_LSB a \<noteq> 0) ''address'')"

text \<open>\<open>exception_address\<close>, of which only the effects are used.\<close>

definition exception_address :: "walk_env \<Rightarrow> int \<Rightarrow> (decoder, unit) act" where
  "exception_address E thaddr = bnd get_state (\<lambda>s. bnd (get_instr E (d_pc s)) (\<lambda>i.
     if is_uninferable_discon E i \<and> thaddr = 0 then ret ()
     else if in_opcode i \<in> set [''ecall'', ''ebreak'', ''c.ebreak''] then ret ()
     else bnd (next_pc E (d_pc s)) (\<lambda>_. ret ())))"

definition set_options :: "int \<Rightarrow> decoder \<Rightarrow> decoder" where
  "set_options opts s = s\<lparr>d_implicit_return := (opts AND 1 = 1), d_full_address := Some (drop_bit 2 opts AND 1 = 1),
     d_jump_target_cache := (drop_bit 3 opts AND 1 = 1), d_branch_prediction := (drop_bit 4 opts AND 1 = 1)\<rparr>"

text \<open>The instructions up to the next stop, where the trace ended behind an inferred address.\<close>

fun flush_loop :: "nat \<Rightarrow> walk_env \<Rightarrow> int option \<Rightarrow> (decoder, bool) act" where
  "flush_loop 0 E previous = ret False"
| "flush_loop (Suc n) E previous = bnd (next_pc E previous) (\<lambda>stop. andthen report_pc
     (if stop then ret True else flush_loop n E previous))"

definition clear_mirrors :: "decoder \<Rightarrow> decoder" where
  "clear_mirrors s = s\<lparr>d_jtc := Map.empty, d_bp_table := Map.empty, d_bp_pending := 0, d_bp_fail := False,
     d_return_stack := [], d_irstack_depth := 0\<rparr>"

definition process_support :: "nat \<Rightarrow> walk_env \<Rightarrow> int \<Rightarrow> int \<Rightarrow> (decoder, bool) act" where
  "process_support n E ioptions qual_status =
     andthen (modify (set_options ioptions))
     (if qual_status = 0 then ret True
      else andthen (modify (\<lambda>s. s\<lparr>d_start_of_trace := True\<rparr>))
       (bnd get_state (\<lambda>s. bnd
          (if qual_status = 3 \<and> d_inferred_address s
           then andthen (modify (\<lambda>s. s\<lparr>d_inferred_address := False\<rparr>)) (flush_loop n E (d_pc s))
           else ret True)
          (\<lambda>done. if done then andthen (modify clear_mirrors) (ret True) else ret False))))"

text \<open>\<open>_process_f00\<close>: the predicted branches.\<close>

fun predicted_loop :: "nat \<Rightarrow> walk_env \<Rightarrow> (decoder, bool) act" where
  "predicted_loop 0 E = ret False"
| "predicted_loop (Suc n) E = bnd get_state (\<lambda>s.
     if d_bp_pending s \<noteq> 0 \<or> d_bp_fail s then
       bnd (next_pc E (Some 0)) (\<lambda>stop. andthen report_pc
         (if stop then raise (Exn SystemExit ''F0.0 walk hit an uninferable discontinuity -- stream corrupt'' [])
          else predicted_loop n E))
     else ret True)"

definition need_prediction :: "(decoder, unit) act" where
  "need_prediction = bnd get_state (\<lambda>s. if d_branch_prediction s then ret ()
     else raise (Exn SystemExit ''F0.0 packet but branch-prediction not announced in the SUPPORT ioptions'' []))"

text \<open>A count without an address.\<close>

definition process_count :: "nat \<Rightarrow> walk_env \<Rightarrow> int \<Rightarrow> int \<Rightarrow> (decoder, bool) act" where
  "process_count n E cnt fmt = andthen need_prediction
     (if fmt = 0 then andthen (modify (\<lambda>s. s\<lparr>d_bp_pending := d_bp_pending s + (cnt + 31), d_bp_fail := True\<rparr>))
        (predicted_loop n E)
      else raise (Exn SystemExit ''F0.0 branch_fmt=11 (addr-fail) not exercised by this flow'' []))"

text \<open>A count with an address; here an option that was not announced counts as off.\<close>

definition process_count_addr :: "nat \<Rightarrow> walk_env \<Rightarrow> int \<Rightarrow> int \<Rightarrow> int \<Rightarrow> int \<Rightarrow> int \<Rightarrow> int \<Rightarrow> (decoder, bool) act" where
  "process_count_addr n E cnt fmt a notify updiscon irreport = andthen need_prediction
     (if fmt = 2 then
        andthen (modify (set_flags a notify updiscon irreport))
        (andthen (modify (\<lambda>s. s\<lparr>d_bp_pending := d_bp_pending s + (cnt + 31), d_stop_at_last_branch := False\<rparr>))
        (andthen (bnd get_state (\<lambda>s. move_address (d_full_address s = Some True) a)) (follow_address n E False)))
      else raise (Exn SystemExit ''F0.0 branch_fmt=11 (addr-fail) not exercised by this flow'' []))"

definition process_jtc :: "nat \<Rightarrow> walk_env \<Rightarrow> int \<Rightarrow> int \<Rightarrow> int \<Rightarrow> (decoder, bool) act" where
  "process_jtc n E idx branches branch_map = bnd get_state (\<lambda>s.
     case d_jtc s idx of
       None \<Rightarrow> raise (Exn SystemExit ''JTC index not in decoder cache'' [AI idx])
     | Some target \<Rightarrow> andthen (modify (\<lambda>s. s\<lparr>d_notify := False, d_updiscon := True, d_irreport := False,
           d_stop_at_last_branch := False, d_address := Some target\<rparr>))
         (andthen (modify (\<lambda>s. if branches \<noteq> 0 then add_branches (nat branches) branch_map s else s))
           (follow_address n E False)))"

definition not_at_start :: "(decoder, unit) act" where
  "not_at_start = bnd get_state (\<lambda>s. assert_that (\<not> d_start_of_trace s) ''start_of_trace'')"

text \<open>\<open>process_te_inst\<close>.\<close>

fun process_te_inst :: "nat \<Rightarrow> walk_env \<Rightarrow> te_inst \<Rightarrow> (decoder, bool) act" where
  "process_te_inst n E (Ext_Jtc idx b m i) = process_jtc n E idx b m"
| "process_te_inst n E (Ext_Count c f) = process_count n E c f"
| "process_te_inst n E (Ext_Count_Addr c f a nt u i) = process_count_addr n E c f a nt u i"
| "process_te_inst n E (Sync_Start br pr a) =
     (if a = 0 then andthen (modify (\<lambda>s. s\<lparr>d_inferred_address := False, d_address := Some 0\<rparr>)) (sync_at n E False br)
      else andthen (set_sync_address a) (sync_at n E False br))"
| "process_te_inst n E (Sync_Trap br pr ec intr th a tv) =
     andthen (if intr = 0 then exception_address E th else ret ())
       (if th = 0 then ret True else andthen (set_sync_address a) (sync_at n E True br))"
| "process_te_inst n E (Sync_Context pr) = ret True"
| "process_te_inst n E (Sync_Support ie em qs io de dl dop) = process_support n E io qs"
| "process_te_inst n E (Addr a nt u i) = andthen not_at_start
     (andthen (modify (\<lambda>s. s\<lparr>d_stop_at_last_branch := False\<rparr>)) (andthen (add_address a) (follow_address n E False)))"
| "process_te_inst n E (Branch_Addr b m a nt u i) = andthen not_at_start
     (andthen (modify (\<lambda>s. s\<lparr>d_stop_at_last_branch := False\<rparr>)) (andthen (add_address a)
       (andthen (modify (add_branches (nat b) m)) (follow_address n E False))))"
| "process_te_inst n E (Branch_Full m) = andthen not_at_start
     (andthen (modify (\<lambda>s. (add_branches 31 m s)\<lparr>d_stop_at_last_branch := True\<rparr>)) (follow_address n E False))"

definition add_te_inst :: "nat \<Rightarrow> walk_env \<Rightarrow> te_inst \<Rightarrow> (decoder, bool) act" where
  "add_te_inst n E te = andthen (modify (recover_status_fields te)) (process_te_inst n E te)"

text \<open>\<open>etrace_decode\<close>: the data packets are skipped; what was written before an error stays.\<close>

fun decode_packets :: "nat \<Rightarrow> walk_env \<Rightarrow> (nat \<times> byte list) list \<Rightarrow> (decoder, bool) act" where
  "decode_packets n E [] = ret True"
| "decode_packets n E (p # ps) = (case fst (create_te_inst (fst p) (raw_packet_of (snd p))) of
     Inl e \<Rightarrow> raise e
   | Inr None \<Rightarrow> decode_packets n E ps
   | Inr (Some te) \<Rightarrow> bnd (add_te_inst n E te) (\<lambda>done. if done then decode_packets n E ps else ret False))"

definition etrace_decode :: "nat \<Rightarrow> walk_env \<Rightarrow> byte list \<Rightarrow> (decoder, bool) act" where
  "etrace_decode n E stream = (case packets stream of (ps, err) \<Rightarrow>
     bnd (decode_packets n E ps) (\<lambda>done. if done then (case err of None \<Rightarrow> ret True | Some e \<Rightarrow> raise e) else ret False))"

end
