(* ===== verification/Etrace_Paths.thy ===== *)
theory Etrace_Paths
  imports Etrace_Decoder
begin

unbundle bit_operations_syntax

text \<open>
  The executions of a program, independent of packets, and the theorem that the decoder of
  \<open>Etrace_Decoder\<close> reconstructs them from their trace: first for the steps that are not reported, then
  for the segments between reports, then for whole byte streams.
\<close>

section \<open>The paths of a program\<close>

text \<open>
  A point of an execution: the address, the one before it, the return addresses on the stack, and the
  outcomes of the conditional branches ahead, as far as they are known. This is the abstract
  semantics the decoder is compared with: it has no packets, flags or bit maps.
\<close>

record cfg =
  c_pc :: int
  c_last :: "int option"
  c_stack :: "int list"
  c_outs :: "bool list"

definition folds :: "bool \<Rightarrow> instr \<Rightarrow> int list \<Rightarrow> bool" where
  "folds ir i stk = (ir \<and> is_return i \<and> stk \<noteq> [])"

text \<open>Where an instruction goes without a report: the address, the stack and the outcomes left.\<close>

definition silent_move :: "walk_env \<Rightarrow> bool \<Rightarrow> cfg \<Rightarrow> instr \<Rightarrow> (int \<times> int list \<times> bool list) option" where
  "silent_move E ir c i =
     (if is_inferable_jump i then
        (case in_imm i of Some d \<Rightarrow> if d = 0 then None else Some (c_pc c + d, c_stack c, c_outs c) | None \<Rightarrow> None)
      else if is_sequential_jump E i (c_last c) then
        map_option (\<lambda>t. (t, c_stack c, c_outs c)) (sequential_jump_target E i (c_last c))
      else if folds ir i (c_stack c) then Some (hd (c_stack c), tl (c_stack c), c_outs c)
      else if is_uninferable_discon E i then None
      else if in_branch i then
        (case c_outs c of [] \<Rightarrow> None
         | taken # outs \<Rightarrow> if taken then (case in_imm i of Some d \<Rightarrow> if d = 0 then None else Some (c_pc c + d, c_stack c, outs) | None \<Rightarrow> None)
             else Some (c_pc c + in_size i, c_stack c, outs))
      else Some (c_pc c + in_size i, c_stack c, c_outs c))"

definition pushed :: "bool \<Rightarrow> instr \<Rightarrow> int \<Rightarrow> int list \<Rightarrow> int list" where
  "pushed ir i p stk = (if is_call i \<and> ir then (p + in_size i) # stk else stk)"

definition silent_step :: "walk_env \<Rightarrow> bool \<Rightarrow> cfg \<Rightarrow> cfg option" where
  "silent_step E ir c = (case we_program E (c_pc c) of None \<Rightarrow> None
     | Some i \<Rightarrow> map_option (\<lambda>(p, stk, outs).
         \<lparr> c_pc = p, c_last = Some (c_pc c), c_stack = pushed ir i (c_pc c) stk, c_outs = outs \<rparr>) (silent_move E ir c i))"

text \<open>A folded return does not arrive at the address of the packet.\<close>

definition quiet :: "walk_env \<Rightarrow> bool \<Rightarrow> int option \<Rightarrow> cfg \<Rightarrow> int \<Rightarrow> bool" where
  "quiet E ir address c p = (case we_program E (c_pc c) of None \<Rightarrow> False
     | Some i \<Rightarrow> \<not> (folds ir i (c_stack c) \<and> address = Some p))"

text \<open>A point inside a path: there is an instruction, and where the walk is to end at the last branch
  (\<open>fin\<close>), it is not that branch.\<close>

definition inside :: "walk_env \<Rightarrow> bool \<Rightarrow> cfg \<Rightarrow> bool" where
  "inside E fin c = (case we_program E (c_pc c) of None \<Rightarrow> False
     | Some i \<Rightarrow> \<not> (fin \<and> in_branch i \<and> length (c_outs c) = 1))"

text \<open>The point at the end of a path of silent steps.\<close>

fun silent_path :: "walk_env \<Rightarrow> bool \<Rightarrow> int option \<Rightarrow> bool \<Rightarrow> cfg \<Rightarrow> int list \<Rightarrow> cfg option" where
  "silent_path E ir address fin c [] = Some c"
| "silent_path E ir address fin c (p # ps) = (case silent_step E ir c of None \<Rightarrow> None
     | Some d \<Rightarrow> if c_pc d = p \<and> quiet E ir address c p \<and> inside E fin d then silent_path E ir address fin d ps else None)"

section \<open>Steps of the decoder\<close>

fun outs_map :: "bool list \<Rightarrow> int" where
  "outs_map [] = 0"
| "outs_map (b # bs) = of_bool (\<not> b) + 2 * outs_map bs"

definition goto :: "cfg \<Rightarrow> decoder \<Rightarrow> decoder" where
  "goto c s = s\<lparr>d_pc := Some (c_pc c), d_last_pc := c_last c, d_return_stack := c_stack c,
     d_branches := length (c_outs c), d_branch_map := outs_map (c_outs c)\<rparr>"

lemma outs_map_head: "outs_map (b # bs) AND 1 = of_bool (\<not> b)" "drop_bit 1 (outs_map (b # bs)) = outs_map bs"
  by (simp_all add: and_one_eq drop_bit_eq_div)

lemma get_instr_some [simp]: "we_program E p = Some i \<Longrightarrow> get_instr E (Some p) s = (Inr i, s)"
  by (simp add: get_instr_def)

lemma map_taken_goto:
  assumes "c_outs c = b # bs"
  shows "map_taken (goto c s) = (Inr b, goto (c\<lparr>c_outs := bs\<rparr>) s)"
  using outs_map_head[of b bs] assms
  by (simp add: map_taken_def bnd_def andthen_def assert_that_def goto_def del: outs_map.simps)

lemma goto_simps [simp]:
  "d_pc (goto c s) = Some (c_pc c)" "d_last_pc (goto c s) = c_last c" "d_return_stack (goto c s) = c_stack c"
  "d_implicit_return (goto c s) = d_implicit_return s" "d_branch_prediction (goto c s) = d_branch_prediction s"
  "d_stop_at_last_branch (goto c s) = d_stop_at_last_branch s" "d_branches (goto c s) = length (c_outs c)"
  "d_inferred_address (goto c s) = d_inferred_address s" "d_out (goto c s) = d_out s" "d_jtc (goto c s) = d_jtc s"
  "d_notify (goto c s) = d_notify s" "d_updiscon (goto c s) = d_updiscon s" "d_irreport (goto c s) = d_irreport s"
  "d_start_of_trace (goto c s) = d_start_of_trace s" "d_address (goto c s) = d_address s"
  "d_full_address (goto c s) = d_full_address s" "d_jump_target_cache (goto c s) = d_jump_target_cache s"
  "d_branch_map (goto c s) = outs_map (c_outs c)"
  by (simp_all add: goto_def)

lemma implicit_return_goto: "is_implicit_return i (goto c s) = folds (d_implicit_return s) i (c_stack c)"
  by (simp add: is_implicit_return_def folds_def)

lemma incr_pc_goto: "incr_pc (Some d) (goto c s) = (Inr (d = 0), goto (c\<lparr>c_pc := c_pc c + d\<rparr>) s)"
  by (simp add: incr_pc_def andthen_def bnd_def goto_def)

lemma size_goto:
  "andthen (modify (\<lambda>s. s\<lparr>d_pc := map_option (\<lambda>p. p + z) (d_pc s)\<rparr>)) (ret False) (goto c s)
    = (Inr False, goto (c\<lparr>c_pc := c_pc c + z\<rparr>) s)"
  by (simp add: andthen_def bnd_def goto_def)

lemma is_taken_goto:
  assumes "\<not> d_branch_prediction s"
  shows "\<not> in_branch i \<Longrightarrow> is_taken_branch i (goto c s) = (Inr False, goto c s)"
    and "in_branch i \<Longrightarrow> c_outs c = b # bs \<Longrightarrow> is_taken_branch i (goto c s) = (Inr b, goto (c\<lparr>c_outs := bs\<rparr>) s)"
  using assms by (simp_all add: is_taken_branch_def bnd_def map_taken_goto)

lemma goto_order: "goto (c\<lparr>c_outs := bs, c_pc := p\<rparr>) s = goto (c\<lparr>c_pc := p, c_outs := bs\<rparr>) s"
  by (simp add: goto_def)

lemma base_move_silent:
  assumes "silent_move E (d_implicit_return s) c i = Some (p, stk, outs)" "\<not> d_branch_prediction s"
  shows "base_move E address i (goto c s) = (Inr False, goto (c\<lparr>c_pc := p, c_stack := stk, c_outs := outs\<rparr>) s)"
proof -
  consider (inferable) "is_inferable_jump i"
    | (sequential) "\<not> is_inferable_jump i" "is_sequential_jump E i (c_last c)"
    | (fold) "\<not> is_inferable_jump i" "\<not> is_sequential_jump E i (c_last c)" "folds (d_implicit_return s) i (c_stack c)"
    | (other) "\<not> is_inferable_jump i" "\<not> is_sequential_jump E i (c_last c)" "\<not> folds (d_implicit_return s) i (c_stack c)"
    by blast
  then show ?thesis
  proof cases
    case inferable
    with assms show ?thesis
      by (auto simp: base_move_def silent_move_def bnd_def incr_pc_goto split: option.splits if_splits)
  next
    case sequential
    with assms(1) show ?thesis
      by (auto simp: base_move_def silent_move_def bnd_def andthen_def set_pc_def goto_def)
  next
    case fold
    with assms(1) show ?thesis
      by (auto simp: base_move_def silent_move_def bnd_def andthen_def set_pc_def implicit_return_goto) (simp add: goto_def)
  next
    case other
    with assms show ?thesis
      by (auto simp: base_move_def silent_move_def bnd_ok implicit_return_goto is_taken_goto incr_pc_goto size_goto goto_order
          split: if_splits list.splits option.splits)
  qed
qed

lemma after_move_goto:
  "after_move i (Some p) (goto c s) = (Inr (), goto (c\<lparr>c_last := Some p, c_stack := pushed (d_implicit_return s) i p (c_stack c)\<rparr>) s)"
  by (simp add: after_move_def andthen_def bnd_def push_return_stack_def pushed_def goto_def)

lemma goto_eq:
  "c_pc c = c_pc d \<Longrightarrow> c_last c = c_last d \<Longrightarrow> c_stack c = c_stack d \<Longrightarrow> c_outs c = c_outs d \<Longrightarrow> goto c s = goto d s"
  by (simp add: goto_def)

lemma base_next_pc_silent:
  assumes "silent_step E (d_implicit_return s) c = Some d" "\<not> d_branch_prediction s"
  shows "base_next_pc E address (goto c s) = (Inr False, goto d s)"
proof -
  obtain i p stk outs where i: "we_program E (c_pc c) = Some i"
    and m: "silent_move E (d_implicit_return s) c i = Some (p, stk, outs)"
    and d: "d = \<lparr> c_pc = p, c_last = Some (c_pc c), c_stack = pushed (d_implicit_return s) i (c_pc c) stk, c_outs = outs \<rparr>"
    using assms(1) by (auto simp: silent_step_def split: option.splits)
  show ?thesis
    by (simp add: base_next_pc_def bnd_def i base_move_silent[OF m assms(2)] after_move_goto andthen_def)
       (rule goto_eq; simp add: d)
qed

lemma next_pc_silent:
  assumes "silent_step E (d_implicit_return s) c = Some d" "\<not> d_branch_prediction s"
    and "quiet E (d_implicit_return s) address c (c_pc d)"
  shows "next_pc E address (goto c s) = (Inr False, goto d s)"
proof -
  obtain i where i: "we_program E (c_pc c) = Some i"
    using assms(1) by (auto simp: silent_step_def split: option.splits)
  with assms(3) have "\<not> (folds (d_implicit_return s) i (c_stack c) \<and> Some (c_pc d) = address)"
    by (auto simp: quiet_def)
  then show ?thesis
    by (auto simp: next_pc_def bnd_def andthen_def i Let_def base_next_pc_silent[OF assms(1,2)] implicit_return_goto)
qed

text \<open>The step to the reported address.\<close>

definition reports :: "walk_env \<Rightarrow> bool \<Rightarrow> cfg \<Rightarrow> bool" where
  "reports E ir c = (case we_program E (c_pc c) of None \<Rightarrow> False
     | Some i \<Rightarrow> \<not> is_inferable_jump i \<and> \<not> is_sequential_jump E i (c_last c) \<and> \<not> folds ir i (c_stack c)
         \<and> is_uninferable_discon E i)"

definition arrive :: "walk_env \<Rightarrow> bool \<Rightarrow> cfg \<Rightarrow> int \<Rightarrow> cfg" where
  "arrive E ir c t = c\<lparr>c_pc := t, c_last := Some (c_pc c), c_stack := (case we_program E (c_pc c) of
     None \<Rightarrow> c_stack c | Some i \<Rightarrow> pushed ir i (c_pc c) (c_stack c))\<rparr>"

definition install :: "bool \<Rightarrow> int \<Rightarrow> (int \<rightharpoonup> int) \<Rightarrow> (int \<rightharpoonup> int)" where
  "install on t cache = (if on then cache(jtc_idx t \<mapsto> t) else cache)"

lemma next_pc_reports:
  assumes "reports E (d_implicit_return s) c" "\<not> d_stop_at_last_branch s"
  shows "next_pc E (Some t) (goto c s) = (Inr True, (goto (arrive E (d_implicit_return s) c t) s)
    \<lparr>d_jtc := install (d_jump_target_cache s) t (d_jtc s)\<rparr>)"
proof -
  obtain i where i: "we_program E (c_pc c) = Some i" and r: "\<not> is_inferable_jump i"
    "\<not> is_sequential_jump E i (c_last c)" "\<not> folds (d_implicit_return s) i (c_stack c)" "is_uninferable_discon E i"
    using assms(1) by (auto simp: reports_def split: option.splits)
  have m: "base_move E (Some t) i (goto c s) = (Inr True, goto (c\<lparr>c_pc := t\<rparr>) s)"
    using r assms(2) by (simp add: base_move_def bnd_def andthen_def implicit_return_goto assert_that_def set_pc_def)
      (simp add: goto_def)
  have b: "base_next_pc E (Some t) (goto c s) = (Inr True, goto (arrive E (d_implicit_return s) c t) s)"
    by (simp add: base_next_pc_def bnd_def i m after_move_goto andthen_def)
       (rule goto_eq; simp add: arrive_def i)
  show ?thesis
    using r by (simp add: next_pc_def bnd_def andthen_def i b implicit_return_goto install_def)
      (simp add: goto_def arrive_def)
qed

lemma report_goto: "report_pc (goto c s) = (Inr (), goto c (s\<lparr>d_out := d_out s @ [c_pc c]\<rparr>))"
  by (simp add: report_pc_def goto_def)

lemma at_limit_goto: "we_program E (c_pc c) = Some i \<Longrightarrow> at_limit E cmp (goto c s) = (Inr (cmp (length (c_outs c)) (branch_limit i)), goto c s)"
  by (simp add: at_limit_def bnd_def)

lemma silent_step_last: "silent_step E ir c = Some d \<Longrightarrow> c_last d = Some (c_pc c) \<and> (\<exists>i. we_program E (c_pc c) = Some i)"
  by (auto simp: silent_step_def split: option.splits)

lemma stop_check_inside:
  assumes "inside E (d_stop_at_last_branch s) d" "c_last d = Some l" "we_program E l = Some i"
    and "d_stop_at_last_branch s \<or> (d_updiscon s \<and> \<not> d_notify s)"
  shows "stop_check E address False False (goto d s) = (Inr False, goto d s)"
  using assms
  by (auto simp: stop_check_def inside_def bnd_def and_then_def split: option.splits)

lemma follow_silent:
  assumes "silent_path E (d_implicit_return s) address (d_stop_at_last_branch s) c ps = Some d"
    and "\<not> d_branch_prediction s" "\<not> d_inferred_address s"
    and "d_stop_at_last_branch s \<or> (d_updiscon s \<and> \<not> d_notify s)"
  shows "follow_loop (length ps + n) E previous address False (goto c s)
    = follow_loop n E previous address False (goto d (s\<lparr>d_out := d_out s @ ps\<rparr>))"
  using assms
proof (induction ps arbitrary: c s)
  case (Cons p ps)
  then obtain e where e: "silent_step E (d_implicit_return s) c = Some e" "c_pc e = p"
    "quiet E (d_implicit_return s) address c (c_pc e)" "inside E (d_stop_at_last_branch s) e"
    "silent_path E (d_implicit_return s) address (d_stop_at_last_branch s) e ps = Some d"
    by (auto split: option.splits if_splits)
  let ?t = "s\<lparr>d_out := d_out s @ [p]\<rparr>"
  have c: "stop_check E address False False (goto e ?t) = (Inr False, goto e ?t)"
    using silent_step_last[OF e(1)] e(4) Cons.prems(4) by (auto intro: stop_check_inside)
  have "follow_loop (length (p # ps) + n) E previous address False (goto c s)
      = follow_loop (length ps + n) E previous address False (goto e ?t)"
    using Cons.prems(3) c by (simp add: bnd_def andthen_def next_pc_silent[OF e(1) Cons.prems(2) e(3)] report_goto e(2))
  also have "\<dots> = follow_loop n E previous address False (goto d (?t\<lparr>d_out := d_out ?t @ ps\<rparr>))"
    using Cons.prems e by (intro Cons.IH) simp_all
  finally show ?case by simp
qed simp

text \<open>A walk that ends behind an uninferable discontinuity.\<close>

lemma follow_reports:
  assumes path: "silent_path E (d_implicit_return s) (Some t) False c ps = Some d" and rep: "reports E (d_implicit_return s) d"
    and target: "we_program E t = Some i" "length (c_outs d) \<le> branch_limit i"
    and s: "\<not> d_branch_prediction s" "\<not> d_inferred_address s" "d_updiscon s" "\<not> d_notify s" "\<not> d_stop_at_last_branch s"
  shows "follow_loop (length ps + Suc n) E previous (Some t) False (goto c s) = (Inr True,
    goto (arrive E (d_implicit_return s) d t) (s\<lparr>d_jtc := install (d_jump_target_cache s) t (d_jtc s), d_out := d_out s @ ps @ [t]\<rparr>))"
proof -
  let ?s = "s\<lparr>d_out := d_out s @ ps\<rparr>" and ?d = "arrive E (d_implicit_return s) d t"
  let ?t = "s\<lparr>d_jtc := install (d_jump_target_cache s) t (d_jtc s), d_out := d_out s @ ps\<rparr>"
    and ?u = "s\<lparr>d_jtc := install (d_jump_target_cache s) t (d_jtc s), d_out := d_out s @ ps @ [t]\<rparr>"
  have d: "c_pc ?d = t" "c_outs ?d = c_outs d" by (simp_all add: arrive_def)
  have next_step: "next_pc E (Some t) (goto d ?s) = (Inr True, goto ?d ?t)"
    using next_pc_reports[of E ?s d t] rep s by (simp add: goto_def)
  have "report_pc (goto ?d ?t) = (Inr (), goto ?d ?u)"
    by (simp add: report_goto d)
  moreover have "stop_check E (Some t) False True (goto ?d ?u) = (Inr True, goto ?d ?u)"
    using target s by (auto simp: stop_check_def bnd_def andthen_def and_then_def at_limit_goto d assert_that_def)
  ultimately have "follow_loop (Suc n) E previous (Some t) False (goto d ?s) = (Inr True, goto ?d ?u)"
    using s by (simp add: bnd_def andthen_def next_step)
  with follow_silent[of E s "Some t" c ps d "Suc n" previous] path s show ?thesis by simp
qed

section \<open>Reports\<close>

text \<open>
  A segment of an execution: the outcomes that become known, the addresses passed, and the target of
  the uninferable discontinuity at its end. The packet that reports it is a jump target cache hit, an
  address, or an address with a branch map; the cache is the encoder's, with its install rule.
\<close>

type_synonym segment = "bool list \<times> int list \<times> int"

definition segment_end :: "walk_env \<Rightarrow> bool \<Rightarrow> cfg \<Rightarrow> segment \<Rightarrow> cfg option" where
  "segment_end E ir c = (\<lambda>(os, ps, t). case silent_path E ir (Some t) False (c\<lparr>c_outs := c_outs c @ os\<rparr>) ps of
      None \<Rightarrow> None
    | Some d \<Rightarrow> (case we_program E t of None \<Rightarrow> None
      | Some i \<Rightarrow> if reports E ir d \<and> length (c_outs d) \<le> branch_limit i then Some (arrive E ir d t) else None))"

text \<open>What fits the packet: 31 outcomes, and an even target within two gigabytes of the last report.\<close>

definition segment_fits :: "int \<Rightarrow> segment \<Rightarrow> bool" where
  "segment_fits old = (\<lambda>(os, ps, t). length os \<le> 31 \<and> even (t - old) \<and> - (2 ^ 31) \<le> t - old \<and> t - old < 2 ^ 31)"

definition segment_packet :: "(int \<rightharpoonup> int) \<Rightarrow> int \<Rightarrow> segment \<Rightarrow> te_inst" where
  "segment_packet cache old = (\<lambda>(os, ps, t).
     if cache (jtc_idx t) = Some t then Ext_Jtc (jtc_idx t) (int (length os)) (outs_map os) 0
     else let a = take_bit 31 ((t - old) div 2); m = of_bool (bit a 30) in
       if os = [] then Addr a m (1 - m) (1 - m)
       else Branch_Addr (int (length os)) (outs_map os) a m (1 - m) (1 - m))"

fun run_end :: "walk_env \<Rightarrow> bool \<Rightarrow> cfg \<Rightarrow> segment list \<Rightarrow> cfg option" where
  "run_end E ir c [] = Some c"
| "run_end E ir c (g # gs) = (if segment_fits (c_pc c) g
     then (case segment_end E ir c g of None \<Rightarrow> None | Some d \<Rightarrow> run_end E ir d gs) else None)"

fun run_packets :: "bool \<Rightarrow> (int \<rightharpoonup> int) \<Rightarrow> int \<Rightarrow> segment list \<Rightarrow> te_inst list" where
  "run_packets jt cache old [] = []"
| "run_packets jt cache old ((os, ps, t) # gs) =
     segment_packet cache old (os, ps, t) # run_packets jt (install jt t cache) t gs"

definition run_pcs :: "segment list \<Rightarrow> int list" where
  "run_pcs gs = concat (map (\<lambda>(os, ps, t). ps @ [t]) gs)"

text \<open>The state of the decoder at a point of the execution.\<close>

definition tracks :: "bool \<Rightarrow> bool \<Rightarrow> cfg \<Rightarrow> (int \<rightharpoonup> int) \<Rightarrow> decoder \<Rightarrow> bool" where
  "tracks ir jt c cache s = (s = goto c s \<and> \<not> d_branch_prediction s \<and> \<not> d_inferred_address s \<and> \<not> d_start_of_trace s
     \<and> d_full_address s = Some False \<and> d_address s = Some (c_pc c) \<and> d_implicit_return s = ir
     \<and> d_jump_target_cache s = jt \<and> d_jtc s = cache)"

lemma outs_map_bounds: "0 \<le> outs_map bs \<and> outs_map bs < 2 ^ length bs"
  by (induction bs) auto

lemma bit_outs_map: "bit (outs_map bs) n \<longleftrightarrow> n < length bs \<and> \<not> bs ! n"
proof (induction bs arbitrary: n)
  case (Cons b bs)
  then show ?case by (cases n) (auto simp: bit_Suc bit_0)
qed simp

lemma outs_map_append: "outs_map as OR push_bit (length as) (outs_map bs) = outs_map (as @ bs)"
  by (rule bit_eqI) (auto simp: bit_or_iff bit_push_bit_iff bit_outs_map nth_append)

lemma twoscomp_signed: "twoscomp (take_bit (Suc n) d) (Suc n) = signed_take_bit n d"
proof -
  have "take_bit (Suc n) d AND push_bit n 1 = 0 \<longleftrightarrow> \<not> bit d n"
    by (simp add: push_bit_eq_mult and_exp_eq_0_iff_not_bit bit_take_bit_iff)
  then show ?thesis
    by (simp add: twoscomp_def signed_take_bit_eq_take_bit_minus push_bit_eq_mult)
qed

lemma twoscomp_difference:
  assumes "even d" "- (2 ^ 31) \<le> d" "d < 2 ^ 31"
  shows "twoscomp (push_bit IADDRESS_LSB (take_bit 31 (d div 2))) IADDRESS_WIDTH = d"
proof -
  have "push_bit IADDRESS_LSB (take_bit 31 (d div 2)) = take_bit 32 d"
    using assms(1) push_bit_take_bit[of 1 31 "d div 2"] by (simp add: IADDRESS_LSB_def push_bit_eq_mult mult.commute)
  moreover have "twoscomp (take_bit 32 d) IADDRESS_WIDTH = signed_take_bit 31 d"
    using twoscomp_signed[of 31 d] by (simp add: IADDRESS_WIDTH_def)
  moreover have "signed_take_bit 31 d = d"
    using assms(2,3) by (simp add: signed_take_bit_int_eq_self)
  ultimately show ?thesis by simp
qed

lemma goto_updates:
  "(goto c s)\<lparr>d_address := a\<rparr> = goto c (s\<lparr>d_address := a\<rparr>)"
  "(goto c s)\<lparr>d_notify := x\<rparr> = goto c (s\<lparr>d_notify := x\<rparr>)"
  "(goto c s)\<lparr>d_updiscon := x\<rparr> = goto c (s\<lparr>d_updiscon := x\<rparr>)"
  "(goto c s)\<lparr>d_irreport := x\<rparr> = goto c (s\<lparr>d_irreport := x\<rparr>)"
  "(goto c s)\<lparr>d_stop_at_last_branch := x\<rparr> = goto c (s\<lparr>d_stop_at_last_branch := x\<rparr>)"
  by (simp_all add: goto_def)

lemma add_branches_goto:
  "add_branches (length os) (outs_map os) (goto c s) = goto (c\<lparr>c_outs := c_outs c @ os\<rparr>) s"
  by (simp add: add_branches_def outs_map_append goto_def)

lemma follow_segment:
  assumes "segment_end E (d_implicit_return u) c (os, ps, t) = Some d" "length ps < n"
    and "\<not> d_branch_prediction u" "\<not> d_inferred_address u" "d_updiscon u" "\<not> d_notify u" "\<not> d_stop_at_last_branch u"
    and "d_address u = Some t"
  shows "follow_address n E False (goto (c\<lparr>c_outs := c_outs c @ os\<rparr>) u) = (Inr True,
    goto d (u\<lparr>d_jtc := install (d_jump_target_cache u) t (d_jtc u), d_out := d_out u @ ps @ [t]\<rparr>))"
proof -
  obtain e i where e: "silent_path E (d_implicit_return u) (Some t) False (c\<lparr>c_outs := c_outs c @ os\<rparr>) ps = Some e"
    "reports E (d_implicit_return u) e" "we_program E t = Some i" "length (c_outs e) \<le> branch_limit i"
    "d = arrive E (d_implicit_return u) e t"
    using assms(1) by (auto simp: segment_end_def split: option.splits if_splits)
  obtain m where m: "n = length ps + Suc m" using assms(2) less_iff_Suc_add by auto
  show ?thesis
    unfolding m follow_address_def follow_execution_path_def
    using follow_reports[OF e(1-4)] assms(3-) e(5) by (simp add: bnd_def del: follow_loop.simps)
qed

lemma process_segment:
  assumes s: "tracks ir jt c cache s" and g: "segment_end E ir c (os, ps, t) = Some d"
    and fits: "segment_fits (c_pc c) (os, ps, t)" and n: "length ps < n"
  shows "\<exists>s'. add_te_inst n E (segment_packet cache (c_pc c) (os, ps, t)) s = (Inr True, s')
    \<and> tracks ir jt d (install jt t cache) s' \<and> d_out s' = d_out s @ ps @ [t]"
proof -
  have sc: "s = goto c s" and st: "\<not> d_branch_prediction s" "\<not> d_inferred_address s" "\<not> d_start_of_trace s"
    "d_full_address s = Some False" "d_address s = Some (c_pc c)" "d_implicit_return s = ir"
    "d_jump_target_cache s = jt" "d_jtc s = cache"
    using s by (auto simp: tracks_def)
  define u where "u = s\<lparr>d_notify := False, d_updiscon := True, d_irreport := False, d_stop_at_last_branch := False, d_address := Some t\<rparr>"
  let ?v = "goto d (u\<lparr>d_jtc := install jt t cache, d_out := d_out s @ ps @ [t]\<rparr>)"
  have "c_pc d = t" using g by (auto simp: segment_end_def arrive_def split: option.splits if_splits)
  then have v: "tracks ir jt d (install jt t cache) ?v" "d_out ?v = d_out s @ ps @ [t]"
    using st by (auto simp: tracks_def u_def goto_def)
  have follow: "follow_address n E False (goto (c\<lparr>c_outs := c_outs c @ os\<rparr>) u) = (Inr True, ?v)"
    using follow_segment[of E u c os ps t d n] g n st by (simp add: u_def)
  let ?a = "take_bit 31 ((t - c_pc c) div 2)"
  have flags: "set_flags ?a (of_bool (bit ?a 30)) (1 - of_bool (bit ?a 30)) (1 - of_bool (bit ?a 30)) (goto c s)
      = goto c (s\<lparr>d_notify := False, d_updiscon := True, d_irreport := False\<rparr>)"
  proof -
    have "bit (push_bit IADDRESS_LSB ?a) 31 = bit ?a 30"
      by (simp only: bit_push_bit_iff IADDRESS_LSB_def) simp
    then have "push_bit (IADDRESS_WIDTH - 1) 1 AND push_bit IADDRESS_LSB ?a = 0 \<longleftrightarrow> \<not> bit ?a 30"
      using and_exp_eq_0_iff_not_bit[of "push_bit IADDRESS_LSB ?a" 31]
      by (simp add: IADDRESS_WIDTH_def push_bit_eq_mult[of 31] and.commute[of "2147483648"])
    then show ?thesis
      by (simp add: set_flags_def address_msb_def goto_def)
  qed
  have addr: "add_address ?a (goto c (s\<lparr>d_notify := False, d_updiscon := True, d_irreport := False, d_stop_at_last_branch := False\<rparr>)) = (Inr (), goto c u)"
    using twoscomp_difference[of "t - c_pc c"] fits st
    by (simp add: add_address_def move_address_def bnd_def segment_fits_def Let_def goto_updates u_def)
  have "add_te_inst n E (segment_packet cache (c_pc c) (os, ps, t)) (goto c s) = (Inr True, ?v)"
  proof (cases "cache (jtc_idx t) = Some t")
    case True
    then show ?thesis
      using follow st
      by (cases "os = []") (simp_all add: segment_packet_def add_te_inst_def andthen_def bnd_def process_jtc_def
          goto_updates add_branches_goto u_def)
  next
    case False
    show ?thesis
    proof (cases "os = []")
      case True
      then show ?thesis
        using follow flags addr st False
        by (simp add: segment_packet_def add_te_inst_def andthen_def bnd_def not_at_start_def assert_that_def goto_updates Let_def)
    next
      case os: False
      then show ?thesis
        using follow flags addr st False add_branches_goto[of os c u]
        by (simp add: segment_packet_def add_te_inst_def andthen_def bnd_def not_at_start_def assert_that_def goto_updates Let_def)
    qed
  qed
  with v sc show ?thesis by metis
qed

section \<open>Whole streams\<close>

lemma jtc_idx_range: "0 \<le> jtc_idx a \<and> jtc_idx a < 64"
proof -
  have "x AND 0x3F = take_bit 6 x" for x :: int
    by (simp add: take_bit_eq_mask mask_eq_exp_minus_1)
  then obtain x where "jtc_idx a = take_bit 6 x"
    unfolding jtc_idx_def by blast
  then show ?thesis using take_bit_int_less_exp[of 6 x] by simp
qed

lemma mapbits_enough: "0 < n \<Longrightarrow> n \<le> 31 \<Longrightarrow> n \<le> mapbits (int n)"
  by (auto simp: mapbits_def)

lemma segment_packet_ok:
  assumes "segment_fits old g"
  shows "te_ok (segment_packet cache old g)"
proof -
  obtain os ps t where g: "g = (os, ps, t)" by (cases g) auto
  have "outs_map os < 2 ^ mapbits (int (length os))" if "os \<noteq> []"
  proof -
    have "length os \<le> mapbits (int (length os))"
      using mapbits_enough[of "length os"] that assms by (auto simp: g segment_fits_def)
    then have "(2 :: int) ^ length os \<le> 2 ^ mapbits (int (length os))" by (intro power_increasing) auto
    with outs_map_bounds[of os] show ?thesis by linarith
  qed
  then show ?thesis
    using assms jtc_idx_range[of t] outs_map_bounds[of os]
    by (auto simp: g segment_packet_def segment_fits_def te_ok_def Let_def IADDRESS_WIDTH_def IADDRESS_LSB_def
        EXT_def ADDR_def BRANCH_def fields_ok_def take_bit_int_less_exp[of 31, simplified])
qed

lemma decode_inst:
  assumes "te_ok te"
  shows "decode_packets n E ((2, item_payload (Item_Inst te)) # ps) =
    bnd (add_te_inst n E te) (\<lambda>done. if done then decode_packets n E ps else ret False)"
  using te_read[OF assms compress_carries[OF flds_nonempty[OF assms]]] by (simp add: item_payload_def)

declare decode_packets.simps(2) [simp del]

lemma decode_run:
  assumes "tracks ir jt c cache s" "run_end E ir c gs = Some d" "list_all (\<lambda>(os, ps, t). length ps < n) gs"
  shows "\<exists>s'. decode_packets n E (map (\<lambda>te. (2, item_payload (Item_Inst te))) (run_packets jt cache (c_pc c) gs)) s
    = (Inr True, s') \<and> d_out s' = d_out s @ run_pcs gs"
  using assms
proof (induction gs arbitrary: c cache s)
  case (Cons g gs)
  obtain os ps t where g: "g = (os, ps, t)" by (cases g) auto
  from Cons.prems(2) obtain e where fits: "segment_fits (c_pc c) g" and e: "segment_end E ir c g = Some e" "run_end E ir e gs = Some d"
    by (auto split: if_splits option.splits)
  have t: "c_pc e = t" using e(1) by (auto simp: g segment_end_def arrive_def split: option.splits if_splits)
  obtain s1 where s1: "add_te_inst n E (segment_packet cache (c_pc c) g) s = (Inr True, s1)"
    "tracks ir jt e (install jt t cache) s1" "d_out s1 = d_out s @ ps @ [t]"
    using process_segment[of ir jt c cache s E os ps t e n] Cons.prems(1,3) e(1) fits by (auto simp: g)
  obtain s2 where "decode_packets n E (map (\<lambda>te. (2, item_payload (Item_Inst te))) (run_packets jt (install jt t cache) t gs)) s1
      = (Inr True, s2)" "d_out s2 = d_out s1 @ run_pcs gs"
    using Cons.IH[OF s1(2) e(2)] Cons.prems(3) t by auto
  with s1 segment_packet_ok[OF fits, of cache] show ?case
    by (simp add: g decode_inst bnd_ok run_pcs_def)
qed (simp add: run_pcs_def)

text \<open>A trace: the options, the first address with the outcome of a branch there, and the segments.\<close>

definition start_cfg :: "walk_env \<Rightarrow> int \<Rightarrow> bool \<Rightarrow> cfg" where
  "start_cfg E p taken = \<lparr> c_pc = p, c_last = Some p, c_stack = [],
     c_outs = (case we_program E p of None \<Rightarrow> [] | Some i \<Rightarrow> if in_branch i then [taken] else []) \<rparr>"

definition trace_packets :: "int \<Rightarrow> bool \<Rightarrow> bool \<Rightarrow> int \<Rightarrow> bool \<Rightarrow> segment list \<Rightarrow> te_inst list" where
  "trace_packets qual ir jt p taken gs =
     Sync_Support 1 0 qual (of_bool ir + 8 * of_bool jt) 0 0 0 # Sync_Start (of_bool (\<not> taken)) 3 (p div 2)
     # run_packets jt Map.empty p gs"

text \<open>The packet of the options finds a decoder that has just started, or restarts it: it says that
  the trace has ended, or that some of it was lost.\<close>

definition restarts :: "int \<Rightarrow> decoder \<Rightarrow> bool" where
  "restarts qual s = (qual = 1 \<or> qual = 2 \<or> (qual = 0 \<and> s = new_decoder))"

definition ready :: "bool \<Rightarrow> bool \<Rightarrow> decoder \<Rightarrow> bool" where
  "ready ir jt s = (d_start_of_trace s \<and> d_jtc s = Map.empty \<and> d_return_stack s = [] \<and> \<not> d_branch_prediction s
     \<and> d_implicit_return s = ir \<and> d_full_address s = Some False \<and> d_jump_target_cache s = jt)"

lemma options_flags:
  "set_options (of_bool ir + 8 * of_bool jt) s = s\<lparr>d_implicit_return := ir, d_full_address := Some False,
     d_jump_target_cache := jt, d_branch_prediction := False\<rparr>"
  by (cases ir; cases jt) (simp_all add: set_options_def)

lemma support_ready:
  assumes "restarts qual s"
  shows "\<exists>t. add_te_inst n E (Sync_Support 1 0 qual (of_bool ir + 8 * of_bool jt) 0 0 0) s = (Inr True, t)
    \<and> ready ir jt t \<and> d_out t = d_out s"
  using assms
  by (auto simp: add_te_inst_def andthen_def bnd_def process_support_def options_flags restarts_def ready_def
      clear_mirrors_def new_decoder_def)

lemma start_tracks:
  assumes "we_program E p = Some i" "even p" "ready ir jt s"
  shows "\<exists>t. add_te_inst n E (Sync_Start (of_bool (\<not> taken)) 3 (p div 2)) s = (Inr True, t)
    \<and> tracks ir jt (start_cfg E p taken) Map.empty t \<and> d_out t = d_out s @ [p]"
proof -
  have p: "push_bit IADDRESS_LSB (p div 2) = p" using assms(2) by (simp add: IADDRESS_LSB_def push_bit_eq_mult)
  have z: "p div 2 = 0 \<longleftrightarrow> p = 0" using assms(2) by auto
  show ?thesis
    using assms(1,3)
    by (auto simp: add_te_inst_def andthen_def bnd_def set_sync_address_def sync_at_def p z ready_def
        assert_that_def set_pc_def report_pc_def tracks_def start_cfg_def goto_def add_branches_def)
qed

lemma run_packets_ok: "run_end E ir c gs = Some d \<Longrightarrow> list_all te_ok (run_packets jt cache (c_pc c) gs)"
proof (induction gs arbitrary: c cache)
  case (Cons g gs)
  obtain os ps t where g: "g = (os, ps, t)" by (cases g) auto
  from Cons.prems obtain e where fits: "segment_fits (c_pc c) g" and e: "segment_end E ir c g = Some e" "run_end E ir e gs = Some d"
    by (auto split: if_splits option.splits)
  have "c_pc e = t" using e(1) by (auto simp: g segment_end_def arrive_def split: option.splits if_splits)
  with Cons.IH[OF e(2)] segment_packet_ok[OF fits] show ?case by (simp add: g)
qed simp

text \<open>A program with a branch, a call and a return, and a run of it.\<close>

definition sample_instr :: "int \<Rightarrow> string \<Rightarrow> int option \<Rightarrow> int option \<Rightarrow> int option \<Rightarrow> bool \<Rightarrow> instr" where
  "sample_instr a opc rd rs1 imm br = \<lparr> in_address = a, in_size = 4, in_opcode = opc, in_rd = rd, in_rs1 = rs1, in_imm = imm, in_branch = br \<rparr>"

definition sample_env :: walk_env where
  "sample_env = \<lparr> we_program = map_of
     [(0x10, sample_instr 0x10 ''addi'' (Some 0) (Some 0) (Some 0) False),
      (0x14, sample_instr 0x14 ''beq'' None (Some 0) (Some 12) True),
      (0x20, sample_instr 0x20 ''jal'' (Some 1) None (Some 0x20) False),
      (0x24, sample_instr 0x24 ''jalr'' (Some 0) (Some 5) (Some 0) False),
      (0x40, sample_instr 0x40 ''jalr'' (Some 0) (Some 1) (Some 0) False)],
     we_sijump = False \<rparr>"

lemma etrace_run:
  assumes "restarts qual s" "we_program E p = Some i" "even p" "0 \<le> p" "p < 2 ^ 32"
    and "run_end E ir (start_cfg E p taken) gs = Some d" "list_all (\<lambda>(os, ps, t). length ps < n) gs"
  shows "\<exists>t. etrace_decode n E (item_stream (map Item_Inst (trace_packets qual ir jt p taken gs))) s = (Inr True, t)
    \<and> d_out t = d_out s @ p # run_pcs gs"
proof -
  let ?tes = "trace_packets qual ir jt p taken gs" and ?enc = "\<lambda>te. (2, item_payload (Item_Inst te))"
  have ok2: "te_ok (Sync_Support 1 0 qual (of_bool ir + 8 * of_bool jt) 0 0 0)" "te_ok (Sync_Start (of_bool (\<not> taken)) 3 (p div 2))"
    using assms(1,4,5) by (auto simp: te_ok_def fields_ok_def SYNC_def START_def SUPPORT_def PRIVILEGE_WIDTH_def
        IADDRESS_WIDTH_def IADDRESS_LSB_def restarts_def)
  obtain s0 where s0: "add_te_inst n E (Sync_Support 1 0 qual (of_bool ir + 8 * of_bool jt) 0 0 0) s = (Inr True, s0)"
    "ready ir jt s0" "d_out s0 = d_out s"
    using support_ready[OF assms(1)] by metis
  obtain s1 where s1: "add_te_inst n E (Sync_Start (of_bool (\<not> taken)) 3 (p div 2)) s0 = (Inr True, s1)"
    "tracks ir jt (start_cfg E p taken) Map.empty s1" "d_out s1 = d_out s @ [p]"
    using start_tracks[OF assms(2,3) s0(2)] s0(3) by metis
  obtain s2 where s2: "decode_packets n E (map ?enc (run_packets jt Map.empty p gs)) s1 = (Inr True, s2)"
    "d_out s2 = d_out s @ p # run_pcs gs"
    using decode_run[OF s1(2) assms(6,7)] s1(3) by (auto simp: start_cfg_def)
  have "decode_packets n E (map ?enc ?tes) s = (Inr True, s2)"
    using s0 s1 s2 by (simp add: trace_packets_def decode_inst[OF ok2(1)] decode_inst[OF ok2(2)] bnd_ok)
  moreover have "list_all item_ok (map Item_Inst ?tes)"
    using ok2 run_packets_ok[OF assms(6)] by (auto simp: trace_packets_def list.pred_map start_cfg_def comp_def)
  ultimately show ?thesis using s2
    by (auto simp: etrace_decode_def item_packets bnd_ok comp_def)
qed

text \<open>C1: An execution is reconstructed from its trace: for a program, a start and any segments of its
  execution that fit the packets, the bytes of the trace make \<open>etrace_decode\<close> write exactly the
  addresses of the execution, with branches taken from the maps, returns folded along the call stack
  where that option is announced, and targets looked up in the jump target cache where that is. It holds
  for a new decoder, and for one in any state whatever when the trace says it restarts.\<close>

theorem etrace_reconstructs:
  assumes "restarts qual s" "we_program E p = Some i" "even p" "0 \<le> p" "p < 2 ^ 32"
    and "run_end E ir (start_cfg E p taken) gs = Some d" "list_all (\<lambda>(os, ps, t). length ps < n) gs"
  shows "\<exists>t. etrace_decode n E (item_stream (map Item_Inst (trace_packets qual ir jt p taken gs))) s = (Inr True, t)
    \<and> d_out t = d_out s @ p # run_pcs gs"
  using assms by (rule etrace_run)

theorem etrace_reconstructs_witness:
  "\<exists>t. etrace_decode 9 sample_env (item_stream (map Item_Inst (trace_packets 2 True True 0x10 False
       [([True], [0x14, 0x20, 0x40, 0x24], 0x10), ([True], [0x14, 0x20, 0x40, 0x24], 0x10)]))) new_decoder = (Inr True, t)
    \<and> d_out t = d_out new_decoder @ 0x10 # run_pcs [([True], [0x14, 0x20, 0x40, 0x24], 0x10), ([True], [0x14, 0x20, 0x40, 0x24], 0x10)]"
  by (rule etrace_reconstructs[where ir = True and i = "sample_instr 0x10 ''addi'' (Some 0) (Some 0) (Some 0) False"
        and d = "\<lparr> c_pc = 0x10, c_last = Some 0x24, c_stack = [], c_outs = [] \<rparr>"])
     (simp_all add: restarts_def sample_env_def sample_instr_def start_cfg_def segment_fits_def segment_end_def silent_step_def
        silent_move_def quiet_def inside_def reports_def arrive_def pushed_def folds_def is_inferable_jump_def
        is_uninferable_discon_def is_uninferable_jump_def is_sequential_jump_def is_call_def is_return_def branch_limit_def)

text \<open>A differential address is added without reduction to 32 bits: a target two gigabytes or more
  above the last report becomes negative, and no instruction is found there.\<close>

lemma far_target_negative:
  assumes "d_address s = Some old" "even (t - old)" "2 ^ 31 \<le> t - old" "t - old < 2 ^ 32"
  shows "move_address False (take_bit 31 ((t - old) div 2)) s = (Inr (), s\<lparr>d_address := Some (t - 2 ^ 32)\<rparr>)"
proof -
  have "push_bit IADDRESS_LSB (take_bit 31 ((t - old) div 2)) = take_bit 32 (t - old)"
    using assms(2) push_bit_take_bit[of 1 31 "(t - old) div 2"] by (simp add: IADDRESS_LSB_def push_bit_eq_mult mult.commute)
  moreover have "signed_take_bit 31 (t - old) = t - old - 2 ^ 32"
  proof -
    have "take_bit 32 (t - old) = t - old" using assms(3,4) by (simp add: take_bit_int_eq_self)
    moreover have "bit (t - old) 31"
    proof -
      have "(t - old) div 2 ^ 31 = 1" using assms(3,4) by (intro int_div_pos_eq[where r = "t - old - 2 ^ 31"]) auto
      then show ?thesis by (simp add: bit_iff_odd)
    qed
    ultimately show ?thesis by (simp add: signed_take_bit_eq_take_bit_minus)
  qed
  ultimately have "twoscomp (push_bit IADDRESS_LSB (take_bit 31 ((t - old) div 2))) IADDRESS_WIDTH = t - old - 2 ^ 32"
    using twoscomp_signed[of 31 "t - old"] by (simp add: IADDRESS_WIDTH_def)
  with assms(1) show ?thesis by (simp add: move_address_def bnd_def Let_def)
qed

end
