(* ===== verification/Etrace_Predict.thy ===== *)
theory Etrace_Predict
  imports Etrace_Paths
begin

unbundle bit_operations_syntax

text \<open>
  The packets that count predicted branches: an execution in which a number of branches went the way the
  mirrored predictor says and one did not is reconstructed from the number alone.
\<close>

section \<open>Executions under a predictor\<close>

type_synonym bp_table = "int \<rightharpoonup> int"

definition counter_of :: "bp_table \<Rightarrow> int \<Rightarrow> int" where
  "counter_of tb a = (case tb (bp_index a) of None \<Rightarrow> 1 | Some v \<Rightarrow> v)"

definition trained :: "bp_table \<Rightarrow> int \<Rightarrow> bool \<Rightarrow> bp_table" where
  "trained tb a taken = tb(bp_index a \<mapsto> (if taken then min 3 (counter_of tb a + 1) else max 0 (counter_of tb a - 1)))"

text \<open>The conditional branch at a point, where the step depends on an outcome.\<close>

definition branch_at :: "walk_env \<Rightarrow> bool \<Rightarrow> cfg \<Rightarrow> instr option" where
  "branch_at E ir c = (case we_program E (c_pc c) of None \<Rightarrow> None
     | Some i \<Rightarrow> if in_branch i \<and> \<not> is_inferable_jump i \<and> \<not> is_sequential_jump E i (c_last c)
         \<and> \<not> folds ir i (c_stack c) \<and> \<not> is_uninferable_discon E i then Some i else None)"

text \<open>The predictor, the branches still to come that it is right about, and whether one more follows
  that it is wrong about; \<open>None\<close> where the outcome is another.\<close>

type_synonym prediction = "bp_table \<times> nat \<times> bool"

definition predict :: "prediction \<Rightarrow> instr \<Rightarrow> bool \<Rightarrow> prediction option" where
  "predict = (\<lambda>(tb, k, f) i taken. let right = (taken = (2 \<le> counter_of tb (in_address i)));
       tb' = trained tb (in_address i) taken in
     if 0 < k then (if right then Some (tb', k - 1, f) else None)
     else if f then (if right then None else Some (tb', 0, False)) else None)"

definition predict_step :: "walk_env \<Rightarrow> bool \<Rightarrow> cfg \<Rightarrow> prediction \<Rightarrow> prediction option" where
  "predict_step E ir c pr = (case branch_at E ir c of None \<Rightarrow> Some pr
     | Some i \<Rightarrow> (case c_outs c of [] \<Rightarrow> None | taken # _ \<Rightarrow> predict pr i taken))"

text \<open>A path that ends right behind the branch the predictor is wrong about.\<close>

fun predicted_path :: "walk_env \<Rightarrow> bool \<Rightarrow> cfg \<Rightarrow> prediction \<Rightarrow> int list \<Rightarrow> (cfg \<times> prediction) option" where
  "predicted_path E ir c (tb, k, f) [] = (if k = 0 \<and> \<not> f then Some (c, tb, k, f) else None)"
| "predicted_path E ir c (tb, k, f) (p # ps) =
     (if k = 0 \<and> \<not> f then None
      else (case (silent_step E ir c, predict_step E ir c (tb, k, f)) of
          (Some d, Some pr) \<Rightarrow> if c_pc d = p \<and> quiet E ir (Some 0) c p then predicted_path E ir d pr ps else None
        | _ \<Rightarrow> None))"

section \<open>The walk\<close>

text \<open>The decoder at a point: no outcomes known, but the predictor and what is pending.\<close>

definition pgoto :: "cfg \<Rightarrow> prediction \<Rightarrow> decoder \<Rightarrow> decoder" where
  "pgoto c = (\<lambda>(tb, k, f) s. goto (c\<lparr>c_outs := []\<rparr>) (s\<lparr>d_bp_table := tb, d_bp_pending := int k, d_bp_fail := f\<rparr>))"

lemma counter_pgoto: "bp_counter (pgoto c (tb, k, f) s) a = counter_of tb a"
  by (simp add: bp_counter_def counter_of_def pgoto_def goto_def)

lemma taken_pgoto:
  assumes "d_branch_prediction s" "in_branch i" "predict (tb, k, f) i taken = Some pr"
  shows "is_taken_branch i (pgoto c (tb, k, f) s) = (Inr taken, pgoto c pr s)"
proof -
  have st: "d_branch_prediction (pgoto c (tb, k, f) s)" "d_branches (pgoto c (tb, k, f) s) = 0"
    "d_bp_pending (pgoto c (tb, k, f) s) = int k" "d_bp_fail (pgoto c (tb, k, f) s) = f"
    using assms(1) by (simp_all add: pgoto_def goto_def)
  show ?thesis
    using assms(2,3) unfolding is_taken_branch_def predict_def
    by (auto simp: bnd_def andthen_def st counter_pgoto Let_def split: if_splits;
        auto simp: bp_train_def bp_counter_def counter_of_def trained_def pgoto_def goto_def of_nat_diff)
qed

lemma base_move_predicted:
  assumes "silent_move E (d_implicit_return s) c i = Some (p, stk, outs)" "we_program E (c_pc c) = Some i"
    and "d_branch_prediction s" "predict_step E (d_implicit_return s) c pr = Some qr"
  shows "base_move E address i (pgoto c pr s) = (Inr False, pgoto (c\<lparr>c_pc := p, c_stack := stk\<rparr>) qr s)"
proof -
  obtain tb k f where pr: "pr = (tb, k, f)" by (cases pr) auto
  have st: "d_last_pc (pgoto c pr s) = c_last c" "is_implicit_return i (pgoto c pr s) = folds (d_implicit_return s) i (c_stack c)"
    by (simp_all add: pr pgoto_def implicit_return_goto)
  have move: "incr_pc (Some d) (pgoto c q s) = (Inr (d = 0), pgoto (c\<lparr>c_pc := c_pc c + d\<rparr>) q s)"
    "andthen (modify (\<lambda>s. s\<lparr>d_pc := map_option (\<lambda>p. p + z) (d_pc s)\<rparr>)) (ret False) (pgoto c q s)
      = (Inr False, pgoto (c\<lparr>c_pc := c_pc c + z\<rparr>) q s)" for d q z
    by (cases q; simp add: pgoto_def incr_pc_goto size_goto goto_order)+
  have jump: "andthen (set_pc (Some x)) (ret False) (pgoto c pr s) = (Inr False, pgoto (c\<lparr>c_pc := x\<rparr>) pr s)"
    "andthen (modify (\<lambda>s. s\<lparr>d_return_stack := tl (d_return_stack s)\<rparr>))
       (andthen (set_pc (Some (hd (d_return_stack (pgoto c pr s))))) (ret False)) (pgoto c pr s)
      = (Inr False, pgoto (c\<lparr>c_pc := hd (c_stack c), c_stack := tl (c_stack c)\<rparr>) pr s)" for x
    by (simp_all add: pr pgoto_def set_pc_def andthen_def bnd_def goto_def)
  show ?thesis
  proof (cases "branch_at E (d_implicit_return s) c")
    case (Some j)
    then have j: "j = i" "in_branch i" "\<not> is_inferable_jump i" "\<not> is_sequential_jump E i (c_last c)"
      "\<not> folds (d_implicit_return s) i (c_stack c)" "\<not> is_uninferable_discon E i"
      using assms(2) by (auto simp: branch_at_def split: if_splits)
    obtain taken rest where o: "c_outs c = taken # rest" "predict (tb, k, f) i taken = Some qr"
      using assms(4) Some j(1) by (auto simp: predict_step_def pr split: list.splits)
    show ?thesis
      using assms(1) j o(1) taken_pgoto[OF assms(3) j(2) o(2), of c]
      by (auto simp: base_move_def silent_move_def bnd_ok st pr[symmetric] move split: if_splits option.splits)
  next
    case None
    then have q: "qr = pr" using assms(4) by (simp add: predict_step_def)
    show ?thesis
      using assms(1,2) None
      by (auto simp: base_move_def silent_move_def bnd_ok st move jump q branch_at_def is_taken_branch_def split: if_splits option.splits)
  qed
qed

lemma after_move_pgoto:
  "after_move i (Some p) (pgoto c pr s)
    = (Inr (), pgoto (c\<lparr>c_last := Some p, c_stack := pushed (d_implicit_return s) i p (c_stack c)\<rparr>) pr s)"
  by (cases pr) (simp add: after_move_def andthen_def bnd_def push_return_stack_def pushed_def pgoto_def goto_def)

lemma pgoto_eq: "c_pc c = c_pc d \<Longrightarrow> c_last c = c_last d \<Longrightarrow> c_stack c = c_stack d \<Longrightarrow> pgoto c pr s = pgoto d pr s"
  by (cases pr) (simp add: pgoto_def goto_def)

lemma pgoto_bp [simp]:
  "d_bp_pending (pgoto c (tb, k, f) s) = int k" "d_bp_fail (pgoto c (tb, k, f) s) = f"
  "d_branch_prediction (pgoto c pr s) = d_branch_prediction s"
  by (cases pr; simp add: pgoto_def goto_def)+

lemma next_pc_predicted:
  assumes "silent_step E (d_implicit_return s) c = Some d" "predict_step E (d_implicit_return s) c pr = Some qr"
    and "d_branch_prediction s" "quiet E (d_implicit_return s) address c (c_pc d)"
  shows "next_pc E address (pgoto c pr s) = (Inr False, pgoto d qr s)"
proof -
  obtain i p stk outs where i: "we_program E (c_pc c) = Some i"
    and m: "silent_move E (d_implicit_return s) c i = Some (p, stk, outs)"
    and d: "d = \<lparr> c_pc = p, c_last = Some (c_pc c), c_stack = pushed (d_implicit_return s) i (c_pc c) stk, c_outs = outs \<rparr>"
    using assms(1) by (auto simp: silent_step_def split: option.splits)
  obtain tb k f tb' k' f' where pr: "pr = (tb, k, f)" and qr: "qr = (tb', k', f')" by (cases pr; cases qr) auto
  have st: "d_pc (pgoto c pr s) = Some (c_pc c)" "d_pc (pgoto d qr s) = Some (c_pc d)"
    "is_implicit_return i (pgoto c pr s) = folds (d_implicit_return s) i (c_stack c)"
    by (simp_all add: pr qr pgoto_def implicit_return_goto)
  have b: "base_next_pc E address (pgoto c pr s) = (Inr False, pgoto d qr s)"
    by (simp add: base_next_pc_def bnd_def st i base_move_predicted[OF m i assms(3,2)] after_move_pgoto andthen_def)
       (rule pgoto_eq; simp add: d)
  have "\<not> (folds (d_implicit_return s) i (c_stack c) \<and> Some (c_pc d) = address)"
    using assms(4) i by (auto simp: quiet_def)
  then show ?thesis
    by (auto simp: next_pc_def bnd_def andthen_def st i Let_def b)
qed

lemma report_pgoto: "report_pc (pgoto c pr s) = (Inr (), pgoto c pr (s\<lparr>d_out := d_out s @ [c_pc c]\<rparr>))"
  by (cases pr; cases s) (simp add: pgoto_def report_pc_def goto_def)

lemma predicted_walk:
  assumes "predicted_path E (d_implicit_return s) c pr ps = Some (d, qr)" "d_branch_prediction s" "length ps < n"
  shows "predicted_loop n E (pgoto c pr s) = (Inr True, pgoto d qr (s\<lparr>d_out := d_out s @ ps\<rparr>))"
  using assms
proof (induction ps arbitrary: c pr s n)
  case Nil
  obtain m where "n = Suc m" using Nil.prems(3) gr0_implies_Suc by auto
  moreover obtain tb k f where pr: "pr = (tb, k, f)" by (cases pr) auto
  moreover from Nil.prems(1) pr have "k = 0" "\<not> f" "d = c" "qr = pr" by (auto split: if_splits)
  ultimately show ?case by (simp add: bnd_ok)
next
  case (Cons p ps)
  obtain tb k f where pr: "pr = (tb, k, f)" by (cases pr) auto
  with Cons.prems(1) obtain e rr where e: "k \<noteq> 0 \<or> f" "silent_step E (d_implicit_return s) c = Some e"
    "predict_step E (d_implicit_return s) c pr = Some rr" "c_pc e = p" "quiet E (d_implicit_return s) (Some 0) c (c_pc e)"
    "predicted_path E (d_implicit_return s) e rr ps = Some (d, qr)"
    by (auto split: if_splits option.splits)
  obtain m where m: "n = Suc m" "length ps < m" using Cons.prems(3) by (cases n) auto
  let ?t = "s\<lparr>d_out := d_out s @ [p]\<rparr>"
  have "d_bp_pending (pgoto c pr s) \<noteq> 0 \<or> d_bp_fail (pgoto c pr s)" using e(1) by (simp add: pr)
  then have "predicted_loop n E (pgoto c pr s) = predicted_loop m E (pgoto e rr ?t)"
    by (simp add: m(1) bnd_def andthen_def next_pc_predicted[OF e(2,3) Cons.prems(2) e(5)] report_pgoto e(4))
  also have "\<dots> = (Inr True, pgoto d qr (?t\<lparr>d_out := d_out ?t @ ps\<rparr>))"
    using e(6) Cons.prems(2) m(2) by (intro Cons.IH) simp_all
  finally show ?case by simp
qed

text \<open>C14: A packet that only counts predicted branches is enough: when the branches of an execution went
  as the mirrored predictor says, as many as the packet counts and 31, and the next one did not, the
  decoder writes exactly the addresses up to the instruction behind that branch, and its predictor has
  been trained by every branch as the encoder's was.\<close>

theorem count_reconstructs:
  assumes "predicted_path E (d_implicit_return s) c (tb, nat (cnt + 31), True) ps = Some (d, qr)"
    and "d_branch_prediction s" "length ps < n" "0 \<le> cnt"
  shows "process_te_inst n E (Ext_Count cnt 0) (pgoto c (tb, 0, False) s)
    = (Inr True, pgoto d qr (s\<lparr>d_out := d_out s @ ps\<rparr>))"
proof -
  have "(pgoto c (tb, 0, False) s)\<lparr>d_bp_pending := cnt + 31, d_bp_fail := True\<rparr> = pgoto c (tb, nat (cnt + 31), True) s"
    using assms(4) by (cases s) (simp add: pgoto_def goto_def)
  then have "process_te_inst n E (Ext_Count cnt 0) (pgoto c (tb, 0, False) s)
      = predicted_loop n E (pgoto c (tb, nat (cnt + 31), True) s)"
    using assms(2) by (simp add: process_count_def need_prediction_def andthen_def bnd_ok)
  with predicted_walk[OF assms(1-3)] show ?thesis by simp
qed

definition loop_env :: walk_env where
  "loop_env = \<lparr> we_program = map_of
     [(0x14, sample_instr 0x14 ''beq'' None (Some 0) (Some 12) True),
      (0x18, sample_instr 0x18 ''jal'' (Some 0) None (Some (- 4)) False)], we_sijump = False \<rparr>"

lemmas walk_defs = silent_step_def silent_move_def quiet_def folds_def pushed_def is_inferable_jump_def
  is_uninferable_discon_def is_uninferable_jump_def is_sequential_jump_def is_call_def is_return_def
  predict_step_def predict_def branch_at_def bp_index_def counter_of_def trained_def

theorem count_reconstructs_witness:
  "process_te_inst 70 loop_env (Ext_Count 0 0)
     (pgoto \<lparr> c_pc = 0x14, c_last = None, c_stack = [], c_outs = replicate 31 False @ [True] \<rparr> (Map.empty, 0, False)
       (new_decoder\<lparr>d_branch_prediction := True\<rparr>))
   = (Inr True, pgoto \<lparr> c_pc = 0x20, c_last = Some 0x14, c_stack = [], c_outs = [] \<rparr> ([5 \<mapsto> 1], 0, False)
       (new_decoder\<lparr>d_branch_prediction := True, d_out := concat (replicate 31 [0x18, 0x14]) @ [0x20]\<rparr>))"
  using count_reconstructs[of loop_env "new_decoder\<lparr>d_branch_prediction := True\<rparr>"
    "\<lparr> c_pc = 0x14, c_last = None, c_stack = [], c_outs = replicate 31 False @ [True] \<rparr>" Map.empty 0
    "concat (replicate 31 [0x18, 0x14]) @ [0x20]" "\<lparr> c_pc = 0x20, c_last = Some 0x14, c_stack = [], c_outs = [] \<rparr>"
    "([5 \<mapsto> 1], 0, False)" 70]
  by (simp add: new_decoder_def loop_env_def sample_instr_def walk_defs numeral_eq_Suc)

end
