(* ===== verification/Etrace_Mirrors.thy ===== *)
theory Etrace_Mirrors
  imports Etrace_Paths Frames
begin

unbundle bit_operations_syntax

text \<open>
  The invariant of the state the decoder mirrors from the encoder (branch predictor, jump target cache,
  pending predictions), kept by every packet.
\<close>

section \<open>What every packet keeps\<close>

definition keeps :: "(decoder \<Rightarrow> bool) \<Rightarrow> (decoder, 'a) act \<Rightarrow> bool" where
  "keeps P = frame (\<lambda>s t. P s \<longrightarrow> P t)"

named_theorems keeps_rules \<open>actions that keep a predicate\<close>

lemma keeps_iff: "keeps P m \<longleftrightarrow> (\<forall>s. P s \<longrightarrow> P (snd (m s)))"
  by (simp add: keeps_def frame_def) (metis prod.collapse snd_conv)

lemma keepsI: "(\<And>s. P s \<Longrightarrow> P (snd (m s))) \<Longrightarrow> keeps P m"
  by (simp add: keeps_iff)

lemma keeps_bnd [keeps_rules]: "keeps P m \<Longrightarrow> (\<And>x. keeps P (f x)) \<Longrightarrow> keeps P (bnd m f)"
  unfolding keeps_def by (intro frame_bnd transpI) auto

lemma keeps_andthen [keeps_rules]: "keeps P m \<Longrightarrow> keeps P n \<Longrightarrow> keeps P (andthen m n)"
  by (simp add: andthen_def keeps_bnd)

lemma keeps_basic [keeps_rules]: "keeps P (ret x)" "keeps P (raise e)" "keeps P get_state"
  by (simp_all add: keeps_iff)

lemma keeps_modify [keeps_rules]: "(\<And>s. P s \<Longrightarrow> P (f s)) \<Longrightarrow> keeps P (modify f)"
  by (simp add: keeps_iff)

lemma keeps_if [keeps_rules]: "(b \<Longrightarrow> keeps P m) \<Longrightarrow> (\<not> b \<Longrightarrow> keeps P n) \<Longrightarrow> keeps P (if b then m else n)"
  by simp

lemma keeps_option [keeps_rules]:
  "keeps P m \<Longrightarrow> (\<And>x. keeps P (f x)) \<Longrightarrow> keeps P (case a of None \<Rightarrow> m | Some x \<Rightarrow> f x)"
  by (cases a) auto

lemma keeps_reads [keeps_rules]: "keeps P (get_instr E a)" "keeps P (assert_that b msg)"
  by (auto simp: get_instr_def assert_that_def intro: keeps_rules)

text \<open>The mirrors of the encoder: counters of two bits at nine-bit indices, and cache entries at
  their own index.\<close>

definition mirrors_ok :: "decoder \<Rightarrow> bool" where
  "mirrors_ok s = ((\<forall>k v. d_bp_table s k = Some v \<longrightarrow> 0 \<le> k \<and> k < 512 \<and> 0 \<le> v \<and> v \<le> 3)
     \<and> (\<forall>k a. d_jtc s k = Some a \<longrightarrow> k = jtc_idx a) \<and> 0 \<le> d_bp_pending s)"

lemma mirrors_frame:
  "d_bp_table t = d_bp_table s \<Longrightarrow> d_jtc t = d_jtc s \<Longrightarrow> d_bp_pending t = d_bp_pending s \<Longrightarrow> mirrors_ok s \<Longrightarrow> mirrors_ok t"
  by (simp add: mirrors_ok_def)

lemma keeps_frame [keeps_rules]:
  "(\<And>s. d_bp_table (f s) = d_bp_table s \<and> d_jtc (f s) = d_jtc s \<and> d_bp_pending (f s) = d_bp_pending s) \<Longrightarrow> keeps mirrors_ok (modify f)"
  by (auto simp: keeps_iff intro: mirrors_frame)

lemma bp_index_range: "0 \<le> bp_index a \<and> bp_index a < 512"
proof -
  have "bp_index a = take_bit 9 (drop_bit 2 a)"
    by (simp add: bp_index_def take_bit_eq_mask mask_eq_exp_minus_1)
  then show ?thesis using take_bit_int_less_exp[of 9 "drop_bit 2 a"] by simp
qed

lemma mirrors_train: "mirrors_ok s \<Longrightarrow> mirrors_ok (bp_train a b s)"
  using bp_index_range[of a]
  by (fastforce simp: mirrors_ok_def bp_train_def bp_counter_def split: option.splits)

lemma keeps_map_taken [keeps_rules]: "keeps mirrors_ok map_taken"
  unfolding map_taken_def by (intro keeps_bnd keeps_andthen keeps_basic keeps_reads keeps_frame) auto

lemma keeps_taken [keeps_rules]: "keeps mirrors_ok (is_taken_branch i)"
proof -
  have pend: "keeps mirrors_ok (bnd get_state (\<lambda>s. if d_branch_prediction s then
      bnd (if 0 < d_branches s then map_taken
           else if 0 < d_bp_pending s then andthen (modify (\<lambda>s. s\<lparr>d_bp_pending := d_bp_pending s - 1\<rparr>)) (ret (p s))
           else if d_bp_fail s then andthen (modify (\<lambda>s. s\<lparr>d_bp_fail := False\<rparr>)) (ret (q s)) else map_taken)
        (\<lambda>taken. andthen (modify (bp_train a taken)) (ret taken)) else map_taken))" for p q a
  proof (rule keepsI)
    fix s assume "mirrors_ok s"
    moreover have "mirrors_ok (s\<lparr>d_bp_pending := d_bp_pending s - 1\<rparr>)" if "0 < d_bp_pending s"
      using that \<open>mirrors_ok s\<close> by (simp add: mirrors_ok_def)
    moreover have "mirrors_ok (s\<lparr>d_bp_fail := False\<rparr>)" using \<open>mirrors_ok s\<close> by (simp add: mirrors_ok_def)
    moreover have "keeps mirrors_ok (bnd map_taken (\<lambda>taken. andthen (modify (bp_train a taken)) (ret taken)))"
      by (intro keeps_bnd keeps_andthen keeps_modify keeps_map_taken keeps_basic mirrors_train)
    ultimately show "mirrors_ok (snd (bnd get_state (\<lambda>s. if d_branch_prediction s then
      bnd (if 0 < d_branches s then map_taken
           else if 0 < d_bp_pending s then andthen (modify (\<lambda>s. s\<lparr>d_bp_pending := d_bp_pending s - 1\<rparr>)) (ret (p s))
           else if d_bp_fail s then andthen (modify (\<lambda>s. s\<lparr>d_bp_fail := False\<rparr>)) (ret (q s)) else map_taken)
        (\<lambda>taken. andthen (modify (bp_train a taken)) (ret taken)) else map_taken) s))"
      using keeps_map_taken by (auto simp: keeps_iff bnd_ok andthen_ok mirrors_train)
  qed
  then show ?thesis
    unfolding is_taken_branch_def Let_def by (auto intro: keeps_basic)
qed

lemma keeps_report [keeps_rules]: "keeps mirrors_ok report_pc"
  by (auto simp: keeps_iff report_pc_def mirrors_ok_def split: option.splits)

lemma keeps_incr [keeps_rules]: "keeps mirrors_ok (incr_pc d)"
  unfolding incr_pc_def by (intro keeps_rules) auto

lemma keeps_set_pc [keeps_rules]: "keeps mirrors_ok (set_pc a)"
  unfolding set_pc_def by (intro keeps_rules) auto

lemma keeps_base_next [keeps_rules]: "keeps mirrors_ok (base_next_pc E a)"
  unfolding base_next_pc_def base_move_def after_move_def push_return_stack_def
  by (intro keeps_rules) (auto split: if_splits)

lemma mirrors_install: "mirrors_ok s \<Longrightarrow> mirrors_ok (s\<lparr>d_jtc := (d_jtc s)(jtc_idx a \<mapsto> a)\<rparr>)"
  by (auto simp: mirrors_ok_def)

lemma keeps_next [keeps_rules]: "keeps mirrors_ok (next_pc E a)"
proof -
  have "keeps mirrors_ok (modify (\<lambda>s. if c s then (case a of None \<Rightarrow> s | Some x \<Rightarrow> s\<lparr>d_jtc := (d_jtc s)(jtc_idx x \<mapsto> x)\<rparr>) else s))" for c
    by (intro keeps_modify) (auto split: option.splits intro: mirrors_install)
  then show ?thesis
    unfolding next_pc_def Let_def by (intro keeps_bnd keeps_andthen keeps_basic keeps_if keeps_reads keeps_base_next)
qed

lemma keeps_limit [keeps_rules]: "keeps mirrors_ok (at_limit E cmp)"
  unfolding at_limit_def by (intro keeps_rules)

lemma keeps_and_then [keeps_rules]: "keeps mirrors_ok m \<Longrightarrow> keeps mirrors_ok (and_then b m)"
  unfolding and_then_def by (intro keeps_rules)

lemma keeps_stop_check [keeps_rules]: "keeps mirrors_ok (stop_check E a sync stop)"
  unfolding stop_check_def by (intro keeps_rules) auto

lemma keeps_follow_loop [keeps_rules]: "keeps mirrors_ok (follow_loop n E previous a sync)"
proof (induction n)
  case (Suc n)
  then show ?case
    by (simp only: follow_loop.simps) (intro keeps_bnd keeps_andthen keeps_basic keeps_if keeps_report keeps_next keeps_stop_check keeps_frame; auto)
qed (simp only: follow_loop.simps keeps_basic)

lemma keeps_follow [keeps_rules]: "keeps mirrors_ok (follow_address n E sync)"
  unfolding follow_address_def follow_execution_path_def by (intro keeps_rules)

lemma keeps_flush [keeps_rules]: "keeps mirrors_ok (flush_loop n E previous)"
proof (induction n)
  case (Suc n)
  then show ?case by (simp only: flush_loop.simps) (intro keeps_bnd keeps_andthen keeps_basic keeps_if keeps_report keeps_next; simp)
qed (simp only: flush_loop.simps keeps_basic)

lemma keeps_predicted [keeps_rules]: "keeps mirrors_ok (predicted_loop n E)"
proof (induction n)
  case (Suc n)
  then show ?case by (simp only: predicted_loop.simps) (intro keeps_bnd keeps_andthen keeps_basic keeps_if keeps_report keeps_next; simp)
qed (simp only: predicted_loop.simps keeps_basic)

lemma keeps_move_address [keeps_rules]: "keeps mirrors_ok (move_address full a)" "keeps mirrors_ok (add_address a)"
  unfolding move_address_def add_address_def Let_def by (intro keeps_rules; auto)+

lemma keeps_sync [keeps_rules]: "keeps mirrors_ok (sync_at n E reset br)" "keeps mirrors_ok (set_sync_address a)"
  unfolding sync_at_def set_sync_address_def add_branches_def by (intro keeps_rules; auto split: if_splits)+

lemma keeps_clear [keeps_rules]: "keeps mirrors_ok (modify clear_mirrors)"
  by (intro keeps_modify) (simp add: mirrors_ok_def clear_mirrors_def)

lemma keeps_process:
  assumes "te_ok te"
  shows "keeps mirrors_ok (process_te_inst n E te)"
proof (cases te)
  case (Sync_Start br pr a)
  then show ?thesis by (simp only: process_te_inst.simps) (intro keeps_rules; auto)
next
  case (Sync_Trap br pr ec intr th a tv)
  then show ?thesis by (simp only: process_te_inst.simps exception_address_def) (intro keeps_rules; auto)
next
  case (Sync_Context pr)
  then show ?thesis by (simp only: process_te_inst.simps) (intro keeps_rules)
next
  case (Sync_Support ie em qs io de dl dop)
  then show ?thesis
    by (simp only: process_te_inst.simps process_support_def)
       (intro keeps_rules; auto simp: mirrors_ok_def set_options_def clear_mirrors_def)
next
  case (Addr a nt u i)
  then show ?thesis by (simp only: process_te_inst.simps not_at_start_def) (intro keeps_rules; auto)
next
  case (Branch_Addr b m a nt u i)
  then show ?thesis by (simp only: process_te_inst.simps not_at_start_def) (intro keeps_rules; auto simp: add_branches_def)
next
  case (Branch_Full m)
  then show ?thesis by (simp only: process_te_inst.simps not_at_start_def) (intro keeps_rules; auto simp: add_branches_def)
next
  case (Ext_Jtc idx b m i)
  then show ?thesis
    by (simp only: process_te_inst.simps process_jtc_def) (intro keeps_rules; auto simp: add_branches_def mirrors_ok_def)
next
  case (Ext_Count c f)
  then have "0 \<le> c + 31" using assms by (auto simp: te_ok_def)
  with Ext_Count show ?thesis
    by (simp only: process_te_inst.simps process_count_def need_prediction_def)
       (intro keeps_andthen keeps_bnd keeps_basic keeps_if keeps_predicted keeps_modify; simp add: mirrors_ok_def)
next
  case (Ext_Count_Addr c f a nt u i)
  then have "0 \<le> c + 31" using assms by (auto simp: te_ok_def)
  with Ext_Count_Addr show ?thesis
    by (simp only: process_te_inst.simps process_count_addr_def need_prediction_def)
       (intro keeps_andthen keeps_bnd keeps_basic keeps_if keeps_follow keeps_move_address keeps_modify;
        simp add: mirrors_ok_def set_flags_def)
qed

text \<open>C30: No packet, whatever it says and whether or not its walk succeeds, breaks the mirrors of the
  encoder's state: the two-bit counters of the branch predictor, the entries of the jump target cache,
  each at the index of its address, and the number of predicted branches still to be walked.\<close>

theorem packets_keep_mirrors:
  assumes "mirrors_ok s" "te_ok te"
  shows "mirrors_ok (snd (add_te_inst n E te s))"
proof -
  have "keeps mirrors_ok (modify (recover_status_fields te))"
    by (rule keeps_frame, cases te) (simp_all add: set_flags_def)
  with keeps_process[OF assms(2)] have "keeps mirrors_ok (add_te_inst n E te)"
    unfolding add_te_inst_def by (intro keeps_andthen)
  with assms(1) show ?thesis by (simp add: keeps_iff)
qed

theorem packets_keep_mirrors_witness:
  "mirrors_ok (snd (add_te_inst 5 sample_env (Ext_Count 3 0) (new_decoder\<lparr>d_pc := Some 0x14, d_branch_prediction := True\<rparr>)))"
  by (rule packets_keep_mirrors) (simp_all add: mirrors_ok_def new_decoder_def te_ok_def EXT_def fields_ok_def)

end
