(* ===== verification/Py_Format.thy ===== *)
theory Py_Format
  imports Py_Strings
begin

text \<open>
  Numbers as text: \<open>'%x'\<close> and \<open>'%d'\<close> of Python, which \<open>int(s, base)\<close> reads back.
\<close>

definition digit_char :: "nat \<Rightarrow> char" where
  "digit_char d = char_of (if d < 10 then 48 + d else 87 + d)"

function digits_text :: "nat \<Rightarrow> nat \<Rightarrow> string" where
  "digits_text b n = (if b < 2 \<or> n < b then [digit_char n] else digits_text b (n div b) @ [digit_char (n mod b)])"
  by auto
termination by (relation "measure snd") (auto intro: div_less_dividend)

declare digits_text.simps [simp del]

definition format_x :: "int \<Rightarrow> string" where
  "format_x n = (if n < 0 then CHR ''-'' # digits_text 16 (nat (- n)) else digits_text 16 (nat n))"

lemma digit_of_char: "d < b \<Longrightarrow> b \<le> 16 \<Longrightarrow> digit_of b (digit_char d) = Some (int d)"
  by (auto simp: digit_of_def digit_char_def code_of_def Let_def)

lemma digit_char_code: "d < 16 \<Longrightarrow> 48 \<le> code_of (digit_char d) \<and> code_of (digit_char d) \<le> 57
    \<or> 97 \<le> code_of (digit_char d) \<and> code_of (digit_char d) \<le> 102"
  by (auto simp: digit_char_def code_of_def)

lemma digits_text_chars:
  "c \<in> set (digits_text b n) \<Longrightarrow> 2 \<le> b \<Longrightarrow> b \<le> 16 \<Longrightarrow> \<exists>d<16. c = digit_char d"
proof (induction b n rule: digits_text.induct)
  case (1 b n)
  show ?case
  proof (cases "n < b")
    case True
    with 1 show ?thesis by (auto simp: digits_text.simps[of b n] intro!: exI[of _ n])
  next
    case False
    with 1(2-) have "c \<in> set (digits_text b (n div b)) \<or> c = digit_char (n mod b)"
      by (auto simp: digits_text.simps[of b n])
    moreover have "n mod b < 16" using 1(3,4) mod_less_divisor[of b n] by linarith
    ultimately show ?thesis using 1 False by auto
  qed
qed

lemma digit_char_plain: "d < 16 \<Longrightarrow> \<not> is_space (digit_char d) \<and> digit_char d \<notin> set '',-+_:()x''"
  using digit_char_code[of d] by (auto simp: is_space_def Let_def code_of_def)

lemma digits_text_plain:
  "2 \<le> b \<Longrightarrow> b \<le> 16 \<Longrightarrow> c \<in> set (digits_text b n) \<Longrightarrow> \<not> is_space c \<and> c \<notin> set '',-+_:()x''"
  using digits_text_chars digit_char_plain by metis

lemma digits_text_nonempty [simp]: "digits_text b n \<noteq> []"
  by (subst digits_text.simps) auto

lemma digits_after_text:
  assumes "2 \<le> b" "b \<le> 16"
  shows "digits_after b acc (digits_text b n @ rest) = digits_after b (acc * int b ^ length (digits_text b n) + int n) rest"
  using assms
proof (induction b n arbitrary: acc rest rule: digits_text.induct)
  case (1 b n)
  have plain: "digit_char d \<noteq> CHR ''_''" if "d < 16" for d
    using digit_char_plain[OF that] by auto
  show ?case
  proof (cases "n < b")
    case True
    with 1(2,3) plain[of n] show ?thesis by (simp add: digits_text.simps[of b n] digit_of_char)
  next
    case False
    have m: "n mod b < b" using 1(2) by simp
    then have p: "n mod b < 16" using 1(3) by linarith
    have n: "int n = int (n div b) * int b + int (n mod b)"
      by (metis div_mult_mod_eq of_nat_add of_nat_mult)
    from False 1 m plain[OF p] show ?thesis
      by (simp add: digits_text.simps[of b n] digit_of_char n algebra_simps)
  qed
qed

lemma digits_text_read:
  assumes "2 \<le> b" "b \<le> 16"
  shows "digits b (digits_text b n) = Some (int n)"
proof -
  obtain c cs where c: "digits_text b n = c # cs" by (cases "digits_text b n") auto
  then obtain d where "d < 16" "c = digit_char d" using digits_text_chars[of c b n] assms by auto
  with digit_char_plain[of d] have "c \<noteq> CHR ''_''" by auto
  with c digits_after_text[OF assms, of 0 n "[]"] show ?thesis
    by (auto simp: digits_def split: option.splits)
qed

lemma strip_plain: "\<forall>c\<in>set s. \<not> is_space c \<Longrightarrow> strip s = s"
proof -
  assume s: "\<forall>c\<in>set s. \<not> is_space c"
  then have "dropWhile is_space s = s" by (cases s) auto
  moreover have "dropWhile is_space (rev s) = rev s"
    using s by (cases "rev s") (auto simp flip: set_rev[of s])
  ultimately show "strip s = s" by (simp add: strip_def lstrip_def rstrip_def)
qed

lemma base_prefix_none: "lower_char c \<noteq> CHR ''x'' \<Longrightarrow> base_prefix (a # c # cs) \<noteq> Some 16"
  by (auto simp: base_prefix_def Let_def split: char.split bool.split)

lemma base_prefix_single: "base_prefix [a] \<noteq> Some 16"
  by (auto simp: base_prefix_def split: char.split bool.split)

lemma unsigned_int_text: "unsigned_int 16 (digits_text 16 n) = Some (int n)"
proof -
  have "base_prefix (digits_text 16 n) \<noteq> Some 16"
  proof (cases "tl (digits_text 16 n)")
    case Nil
    then obtain a where "digits_text 16 n = [a]" by (cases "digits_text 16 n") auto
    then show ?thesis by (simp only: base_prefix_single not_False_eq_True)
  next
    case (Cons c cs)
    then obtain a where s: "digits_text 16 n = a # c # cs" by (cases "digits_text 16 n") auto
    then have "c \<in> set (digits_text 16 n)" by simp
    then obtain d where d: "d < 16" "c = digit_char d" using digits_text_chars[of c 16 n] by auto
    with digit_char_code[of d] have "lower_char c = c" by (auto simp: lower_char_def Let_def)
    with d digit_char_plain[of d] have "lower_char c \<noteq> CHR ''x''" by auto
    then show ?thesis unfolding s by (rule base_prefix_none)
  qed
  then show ?thesis using digits_text_read[of 16 n]
    by (auto simp: unsigned_int_def split: option.splits)
qed

lemma digits_text_head: "c = hd (digits_text 16 n) \<Longrightarrow> c \<noteq> CHR ''-'' \<and> c \<noteq> CHR ''+''"
  using digits_text_plain[of 16 "hd (digits_text 16 n)" n] by auto

lemma py_int_format [simp]: "py_int 16 (format_x n) = Some n"
proof -
  have plain: "\<forall>c\<in>set (digits_text 16 m). \<not> is_space c" for m using digits_text_plain[of 16 _ m] by auto
  have minus: "\<not> is_space (CHR ''-'')" by (simp add: is_space_def code_of_def)
  obtain c cs where c: "digits_text 16 (nat n) = c # cs" by (cases "digits_text 16 (nat n)") auto
  show ?thesis
  proof (cases "n < 0")
    case True
    have "strip (format_x n) = CHR ''-'' # digits_text 16 (nat (- n))"
      using True plain minus by (simp add: format_x_def strip_plain)
    then show ?thesis using True by (simp add: py_int_def unsigned_int_text)
  next
    case False
    with plain[of "nat n"] c digits_text_head[of c "nat n"] unsigned_int_text[of "nat n"] show ?thesis
      by (auto simp: py_int_def format_x_def strip_plain)
  qed
qed

text \<open>With the prefix \<open>0x\<close>, as \<open>'0x%x'\<close> writes a number that is not negative.\<close>

lemma py_int_prefixed: "0 \<le> n \<Longrightarrow> py_int 16 (''0x'' @ format_x n) = Some n"
proof -
  assume n: "0 \<le> n"
  have plain: "\<forall>c\<in>set (''0x'' @ digits_text 16 (nat n)). \<not> is_space c"
    using digits_text_plain[of 16 _ "nat n"] by (auto simp: is_space_def code_of_def)
  obtain c cs where c: "digits_text 16 (nat n) = c # cs" by (cases "digits_text 16 (nat n)") auto
  then have "c \<noteq> CHR ''_''" using digits_text_plain[of 16 c "nat n"] by auto
  moreover have "lower_char (CHR ''x'') = CHR ''x''" by (simp add: lower_char_def code_of_def)
  ultimately show "py_int 16 (''0x'' @ format_x n) = Some n"
    using n plain c digits_text_read[of 16 "nat n"]
    by (simp add: py_int_def format_x_def strip_plain unsigned_int_def base_prefix_def digits_prefixed_def)
qed

lemma py_int_prefixed_neg: "0 < n \<Longrightarrow> py_int 16 (''-0x'' @ format_x n) = Some (- n)"
proof -
  assume n: "0 < n"
  have plain: "\<forall>c\<in>set (''-0x'' @ digits_text 16 (nat n)). \<not> is_space c"
    using digits_text_plain[of 16 _ "nat n"] by (auto simp: is_space_def code_of_def)
  obtain c cs where c: "digits_text 16 (nat n) = c # cs" by (cases "digits_text 16 (nat n)") auto
  then have "c \<noteq> CHR ''_''" using digits_text_plain[of 16 c "nat n"] by auto
  moreover have "lower_char (CHR ''x'') = CHR ''x''" by (simp add: lower_char_def code_of_def)
  ultimately show "py_int 16 (''-0x'' @ format_x n) = Some (- n)"
    using n plain c digits_text_read[of 16 "nat n"]
    by (simp add: py_int_def format_x_def strip_plain unsigned_int_def base_prefix_def digits_prefixed_def)
qed

lemma format_x_plain: "c \<in> set (format_x n) \<Longrightarrow> \<not> is_space c \<and> c \<notin> set '',_:()''"
  using digits_text_plain[of 16 c] by (auto simp: format_x_def is_space_def code_of_def split: if_splits)

lemma format_x_nonempty [simp]: "format_x n \<noteq> []"
  by (simp add: format_x_def)

end
