(* ===== verification/Etrace_Listing.thy ===== *)
theory Etrace_Listing
  imports Etrace_Decoder Py_Format
begin

unbundle bit_operations_syntax

text \<open>
  The program the E-Trace decoder walks: the instruction parser of the vendored model
  (\<open>decoder_model.Instruction\<close>), the reader of the listing (\<open>ListingData\<close> of \<open>etrace_common.py\<close>) and the
  two converters that write listings (\<open>pcinfo2listing.py\<close>, \<open>objdump2listing.py\<close>).
\<close>

section \<open>Instructions from a listing\<close>

text \<open>The opcodes by type; where the source has a string in place of a tuple, \<open>in\<close> asks for a substring.\<close>

definition R_TYPE :: "string list" where
  "R_TYPE = [''add'', ''addw'', ''sub'', ''subw'', ''xor'', ''or'', ''and'', ''sll'', ''sllw'', ''srl'', ''srlw'', ''sra'', ''sraw'',
     ''slt'', ''sltu'', ''mul'', ''mulh'', ''mulhsu'', ''mulhu'', ''div'', ''divu'', ''rem'', ''remu'', ''mulw'', ''divw'',
     ''divuw'', ''remw'', ''remuw'']"

definition I_TYPE :: "string list" where
  "I_TYPE = [''addi'', ''addiw'', ''xori'', ''ori'', ''andi'', ''slli'', ''slliw'', ''srli'', ''srliw'', ''srai'', ''sraiw'',
     ''slti'', ''sltiu'', ''lb'', ''lh'', ''lw'', ''lwu'', ''ld'', ''lbu'', ''lhu'', ''jalr'']"

definition B_TYPE :: "string list" where
  "B_TYPE = [''beq'', ''bne'', ''blt'', ''bge'', ''bltu'', ''bgeu'']"

definition U_TYPE :: "string list" where
  "U_TYPE = [''lui'', ''auipc'']"

definition CB_TYPE :: "string list" where
  "CB_TYPE = [''c.beqz'', ''c.bnez'']"

definition CJ_TYPE :: "string list" where
  "CJ_TYPE = [''c.j'', ''c.jal'']"

definition OTHER_TYPES :: "string list" where
  "OTHER_TYPES = [''csrrw'', ''csrrs'', ''csrrc'', ''csrrwi'', ''csrrsi'', ''csrrci'', ''sb'', ''sh'', ''sw'', ''sd'',
     ''ecall'', ''ebreak'', ''mret'', ''sret'', ''uret'', ''fence'', ''fence.i'', ''sfence.vma'', ''wfi'',
     ''c.jr'', ''c.mv'', ''c.ebreak'', ''c.jalr'', ''c.add'',
     ''c.nop'', ''c.addi'', ''c.addiw'', ''c.li'', ''c.addi16sp'', ''c.lui'', ''c.srli'', ''c.srli64'', ''c.srai'', ''c.srai64'',
     ''c.andi'', ''c.slli'', ''c.slli64'', ''c.fldsp'', ''c.lqsp'', ''c.lwsp'', ''c.flwsp'', ''c.ldsp'',
     ''c.fsdsp'', ''c.sqsp'', ''c.swsp'', ''c.fswsp'', ''c.sdsp'', ''c.fld'', ''c.lq'', ''c.lw'', ''c.flw'', ''c.ld'',
     ''c.fsd'', ''c.sq'', ''c.sw'', ''c.fsw'', ''c.sd'', ''c.sub'', ''c.xor'', ''c.or'', ''c.and'', ''c.subw'', ''c.addw'']"

fun substring :: "string \<Rightarrow> string \<Rightarrow> bool" where
  "substring p [] = (p = [])"
| "substring p (c # cs) = (startswith (c # cs) p \<or> substring p cs)"

definition is_j_type :: "string \<Rightarrow> bool" where
  "is_j_type opc = substring opc ''jal''"

definition known_type :: "string \<Rightarrow> bool" where
  "known_type opc = (opc \<in> set (R_TYPE @ I_TYPE @ B_TYPE @ U_TYPE @ CB_TYPE @ CJ_TYPE @ OTHER_TYPES) \<or> is_j_type opc
     \<or> startswith opc ''f'' \<or> startswith opc ''amo'' \<or> startswith opc ''lr'' \<or> startswith opc ''sc''
     \<or> substring opc ''c.addi4spn'' \<or> substring opc ''c.unimp'')"

definition is_dec :: "char \<Rightarrow> bool" where
  "is_dec c = (48 \<le> code_of c \<and> code_of c \<le> 57)"

definition is_az :: "char \<Rightarrow> bool" where
  "is_az c = (97 \<le> code_of c \<and> code_of c \<le> 122)"

text \<open>\<open>PATTERN\<close> at the start of an operand: the offset and the register.\<close>

definition off_reg :: "string \<Rightarrow> (string \<times> string) option" where
  "off_reg s =
     (let sign = (case s of c # _ \<Rightarrow> if c = CHR ''-'' then [c] else [] | [] \<Rightarrow> []);
          s1 = drop (length sign) s; off = takeWhile is_dec s1; s2 = dropWhile is_dec s1 in
      case s2 of [] \<Rightarrow> None
      | c # s3 \<Rightarrow> if c \<noteq> CHR ''('' then None
        else (let w = takeWhile is_az s3; s4 = dropWhile is_az s3; d = takeWhile is_dec s4 in
          if w = [] then None
          else (case dropWhile is_dec s4 of [] \<Rightarrow> None
            | e # _ \<Rightarrow> if e = CHR '')'' then Some (sign @ off, w @ d) else None)))"

text \<open>\<open>re.split(",| ", s)\<close>.\<close>

fun split_args :: "string \<Rightarrow> string list" where
  "split_args [] = [[]]"
| "split_args (c # cs) = (if c = CHR '','' \<or> c = CHR '' '' then [] # split_args cs
     else (case split_args cs of w # ws \<Rightarrow> (c # w) # ws | [] \<Rightarrow> [[c]]))"

definition convert_args :: "string \<Rightarrow> string list" where
  "convert_args s = concat (map (\<lambda>part. case off_reg part of
       Some (off, r) \<Rightarrow> if off \<noteq> [] then [r, off] else [r] | None \<Rightarrow> [part]) (split_args s))"

definition value_error :: "exn + 'a" where
  "value_error = Inl (Exn ValueError ''invalid literal for int()'' [])"

definition py_int_exn :: "nat \<Rightarrow> string \<Rightarrow> exn + int" where
  "py_int_exn b s = (case py_int b s of None \<Rightarrow> value_error | Some v \<Rightarrow> Inr v)"

definition ABI_NAMES :: "string list" where
  "ABI_NAMES = [''zero'', ''ra'', ''sp'', ''gp'', ''tp'']"

text \<open>\<open>reg\<close>: the number of a register; a floating point register has none.\<close>

definition reg :: "string \<Rightarrow> exn + int option" where
  "reg arg =
     (if arg \<in> set ABI_NAMES then Inr (Some (int (length (takeWhile (\<lambda>n. n \<noteq> arg) ABI_NAMES))))
      else if arg = ''fp'' then Inr (Some 8)
      else (case arg of [] \<Rightarrow> Inl (Exn IndexError ''string index out of range'' [])
        | c # rest \<Rightarrow>
          if c = CHR ''f'' then (case py_int 10 (drop 1 rest) of None \<Rightarrow> value_error | Some _ \<Rightarrow> Inr None)
          else (case py_int 10 rest of None \<Rightarrow> value_error
            | Some idx \<Rightarrow>
              if c = CHR ''t'' then Inr (Some ((if idx < 3 then 5 else 25) + idx))
              else if c = CHR ''s'' then Inr (Some ((if idx < 2 then 8 else 16) + idx))
              else if c = CHR ''a'' then Inr (Some (10 + idx))
              else Inl (Exn NameError ''offset'' []))))"

definition nth_arg :: "string list \<Rightarrow> nat \<Rightarrow> exn + string" where
  "nth_arg args k = (if k < length args then Inr (args ! k) else Inl (Exn IndexError ''list index out of range'' []))"

definition sum_bind :: "exn + 'a \<Rightarrow> ('a \<Rightarrow> exn + 'b) \<Rightarrow> exn + 'b" where
  "sum_bind m f = (case m of Inl e \<Rightarrow> Inl e | Inr x \<Rightarrow> f x)"

definition reg_arg :: "string list \<Rightarrow> nat \<Rightarrow> exn + int option" where
  "reg_arg args k = sum_bind (nth_arg args k) reg"

definition imm_arg :: "string list \<Rightarrow> nat \<Rightarrow> exn + int" where
  "imm_arg args k = sum_bind (nth_arg args k) (py_int_exn 16)"

text \<open>The operands, in the order the source parses them; the types exclude each other.\<close>

definition operands :: "int \<Rightarrow> string \<Rightarrow> string list \<Rightarrow> exn + (int option \<times> int option \<times> int option)" where
  "operands a opc args =
     (if opc \<in> set B_TYPE then sum_bind (reg_arg args 0) (\<lambda>rs1. sum_bind (reg_arg args 1) (\<lambda>_.
        sum_bind (imm_arg args 2) (\<lambda>t. Inr (None, rs1, Some (t - a)))))
      else if opc \<in> set CB_TYPE then sum_bind (reg_arg args 0) (\<lambda>rs1.
        sum_bind (imm_arg args 1) (\<lambda>t. Inr (None, rs1, Some (t - a))))
      else if opc \<in> set R_TYPE then sum_bind (reg_arg args 0) (\<lambda>rd. sum_bind (reg_arg args 1) (\<lambda>rs1.
        sum_bind (reg_arg args 2) (\<lambda>_. Inr (rd, rs1, None))))
      else if opc \<in> set I_TYPE then sum_bind (reg_arg args 0) (\<lambda>rd. sum_bind (reg_arg args 1) (\<lambda>rs1.
        sum_bind (imm_arg args 2) (\<lambda>t. Inr (rd, rs1, Some t))))
      else if is_j_type opc \<or> opc \<in> set U_TYPE then sum_bind (reg_arg args 0) (\<lambda>rd.
        sum_bind (imm_arg args 1) (\<lambda>t. Inr (rd, None, Some (t - a))))
      else if opc \<in> set CJ_TYPE then sum_bind (imm_arg args 0) (\<lambda>t. Inr (None, None, Some (t - a)))
      else Inr (None, None, None))"

definition new_instr :: "int \<Rightarrow> string list \<Rightarrow> exn + instr" where
  "new_instr a fs =
     (let binary = strip (fs ! 1); opc = fs ! 2;
          args = (if 3 < length fs then convert_args (fs ! 3) else []) in
      if length binary \<noteq> 4 \<and> length binary \<noteq> 8 then Inl (Exn AssertionError ''fields'' [])
      else if \<not> known_type opc then Inl (Exn AssertionError ''fields'' [])
      else sum_bind (operands a opc args) (\<lambda>(rd, rs1, imm).
        Inr \<lparr> in_address = a, in_size = int (length binary div 2), in_opcode = opc, in_rd = rd, in_rs1 = rs1,
              in_imm = imm, in_branch = (opc \<in> set (B_TYPE @ CB_TYPE)) \<rparr>))"

section \<open>The listing\<close>

definition strip_char :: "char \<Rightarrow> string \<Rightarrow> string" where
  "strip_char c s = rev (dropWhile (\<lambda>x. x = c) (rev (dropWhile (\<lambda>x. x = c) s)))"

definition rstrip_char :: "char \<Rightarrow> string \<Rightarrow> string" where
  "rstrip_char c s = rev (dropWhile (\<lambda>x. x = c) (rev s))"

definition TAB :: char where "TAB = CHR 0x09"

definition tolerated :: "exn \<Rightarrow> bool" where
  "tolerated e = (case e of Exn k _ _ \<Rightarrow> k = AssertionError \<or> k = ValueError \<or> k = IndexError)"

text \<open>One line of the listing: an instruction, nothing, or an error; and the lines that are skipped.\<close>

definition listing_line :: "bool \<Rightarrow> string \<Rightarrow> program \<times> nat \<Rightarrow> exn + program \<times> nat" where
  "listing_line tolerant line = (\<lambda>(prog, skipped).
     let fs = split_on TAB (rstrip_char (CHR 0x0A) line) in
     if length fs < 3 then Inr (prog, skipped)
     else sum_bind (py_int_exn 16 (rstrip_char (CHR '':'') (strip_char (CHR '' '') (fs ! 0)))) (\<lambda>a.
       if prog a \<noteq> None then Inl (Exn AssertionError ''already added'' [AI a])
       else (case new_instr a fs of
           Inr i \<Rightarrow> Inr (prog(a \<mapsto> i), skipped)
         | Inl e \<Rightarrow> if tolerant \<and> tolerated e then Inr (prog, skipped + 1) else Inl e)))"

fun listing_lines :: "bool \<Rightarrow> string list \<Rightarrow> program \<times> nat \<Rightarrow> exn + program \<times> nat" where
  "listing_lines tolerant [] r = Inr r"
| "listing_lines tolerant (l # ls) r = sum_bind (listing_line tolerant l r) (listing_lines tolerant ls)"

definition ListingData :: "bool \<Rightarrow> string list \<Rightarrow> exn + program \<times> nat" where
  "ListingData tolerant ls = listing_lines tolerant ls (Map.empty, 0)"

section \<open>Listings from trace information\<close>

definition is_digit_char :: "char \<Rightarrow> bool" where
  "is_digit_char c = (is_dec c \<or> code_of c \<in> {178, 179, 185})"

text \<open>\<open>pcinfo2listing.convert\<close>; \<open>None\<close> is an empty line.\<close>

definition convert_type :: "string \<Rightarrow> int option \<Rightarrow> exn + string \<times> string" where
  "convert_type ptype target =
     (let with_target = (\<lambda>opc pre. case target of None \<Rightarrow> Inl (Exn TypeError ''%x format: an integer is required'' [])
          | Some t \<Rightarrow> Inr (opc, pre @ format_x t)) in
      if ptype = ''L'' then Inr (''addi'', ''zero,zero,0'')
      else if ptype = ''BD'' then with_target ''beq'' ''zero,zero,''
      else if ptype = ''JD'' then with_target ''jal'' ''zero,''
      else if ptype = ''CD'' then with_target ''jal'' ''ra,''
      else if ptype = ''JI'' then Inr (''jalr'', ''zero,0(t0)'')
      else if ptype = ''CI'' then Inr (''jalr'', ''ra,0(t0)'')
      else if ptype = ''R'' then Inr (''jalr'', ''zero,0(ra)'')
      else Inl (Exn ValueError ''unknown PCInfo type'' [AS ptype]))"

definition pcinfo_fields :: "string \<Rightarrow> exn + int \<times> string \<times> int option" where
  "pcinfo_fields line =
     (let parts = split_on (CHR '','') line in
      sum_bind (py_int_exn 16 (parts ! 0)) (\<lambda>addr. sum_bind (nth_arg parts 1) (\<lambda>type_len.
        let ptype = takeWhile (\<lambda>c. \<not> is_digit_char c) type_len in
        sum_bind (py_int_exn 10 (drop (length ptype) type_len)) (\<lambda>sz.
          if sz \<noteq> 4 then Inl (Exn AssertionError ''only 4-byte instructions supported'' [])
          else if 2 < length parts then sum_bind (py_int_exn 16 (parts ! 2)) (\<lambda>t. Inr (addr, ptype, Some t))
          else Inr (addr, ptype, None)))))"

definition convert :: "string \<Rightarrow> exn + string option" where
  "convert line0 =
     (let line = strip line0 in
      if line = [] then Inr None
      else sum_bind (pcinfo_fields line) (\<lambda>(addr, ptype, target).
        sum_bind (convert_type ptype target) (\<lambda>(opc, args).
          Inr (Some (format_x addr @ '':'' @ [TAB] @ ''00000000'' @ [TAB] @ opc @ [TAB] @ args)))))"

section \<open>Listings from a disassembly\<close>

definition ABI :: "string list" where
  "ABI = [''zero'', ''ra'', ''sp'', ''gp'', ''tp'', ''t0'', ''t1'', ''t2'', ''s0'', ''s1'']
     @ map (\<lambda>i. CHR ''a'' # digits_text 10 i) [0..<8] @ map (\<lambda>i. CHR ''s'' # digits_text 10 i) [2..<12]
     @ map (\<lambda>i. CHR ''t'' # digits_text 10 i) [3..<7]"

text \<open>\<open>\w\<close> below 256.\<close>

definition is_word :: "char \<Rightarrow> bool" where
  "is_word c = (let n = code_of c in 48 \<le> n \<and> n \<le> 57 \<or> 65 \<le> n \<and> n \<le> 90 \<or> n = 95 \<or> 97 \<le> n \<and> n \<le> 122
     \<or> n \<in> {170, 178, 179, 181, 185, 186, 188, 189, 190} \<or> 192 \<le> n \<and> n \<noteq> 215 \<and> n \<noteq> 247)"

definition reg_number :: "string \<Rightarrow> (nat \<times> string) option" where
  "reg_number s = (let w = takeWhile is_word s in
     case filter (\<lambda>n. digits_text 10 n = w) [0..<32] of [] \<Rightarrow> None | n # _ \<Rightarrow> Some (n, dropWhile is_word s))"

text \<open>\<open>XREG_RE.sub\<close>; the flag tells whether a word character stands before.\<close>

function xreg_sub :: "bool \<Rightarrow> string \<Rightarrow> string" where
  "xreg_sub pw [] = []"
| "xreg_sub pw (c # cs) = (if \<not> pw \<and> c = CHR ''x'' then
      (case reg_number cs of Some (n, rest) \<Rightarrow> ABI ! n @ xreg_sub True rest | None \<Rightarrow> c # xreg_sub True cs)
     else c # xreg_sub (is_word c) cs)"
  by pat_completeness auto
termination
  by (relation "measure (length \<circ> snd)")
     (auto simp: reg_number_def Let_def length_dropWhile_le less_Suc_eq_le split: list.splits)

text \<open>Symbols in angle brackets go.\<close>

function drop_symbols :: "string \<Rightarrow> string" where
  "drop_symbols [] = []"
| "drop_symbols (c # cs) = (if c = CHR ''<'' \<and> CHR ''>'' \<in> set cs
     then drop_symbols (tl (dropWhile (\<lambda>x. x \<noteq> CHR ''>'') cs)) else c # drop_symbols cs)"
  by pat_completeness auto
termination
proof (relation "measure length"; clarsimp)
  fix cs :: string
  have "length (tl (dropWhile (\<lambda>x. x \<noteq> CHR ''>'') cs)) \<le> length (dropWhile (\<lambda>x. x \<noteq> CHR ''>'') cs)" by simp
  also have "\<dots> \<le> length cs" by (rule length_dropWhile_le)
  finally show "length (dropWhile (\<lambda>x. x \<noteq> CHR ''>'') cs) - Suc 0 < Suc (length cs)" by simp
qed

text \<open>What stands behind the comma in an operand of \<open>jalr\<close>: the offset and the base register.\<close>

definition jalr_rest :: "string \<Rightarrow> (string \<times> string) option" where
  "jalr_rest s =
     (let sign = (case s of c # _ \<Rightarrow> if c = CHR ''-'' then [c] else [] | [] \<Rightarrow> []);
          s1 = drop (length sign) s; off = takeWhile is_dec s1; s2 = dropWhile is_dec s1 in
      case s2 of [] \<Rightarrow> None
      | c # s3 \<Rightarrow> if off \<noteq> [] \<and> c = CHR ''('' \<and> 2 \<le> length s3 \<and> last s3 = CHR '')'' then Some (sign @ off, butlast s3) else None)"

definition jalr_match :: "string \<Rightarrow> (string \<times> string \<times> string) option" where
  "jalr_match s =
     (if \<exists>c\<in>set s. is_space c then None
      else (case filter (\<lambda>i. s ! i = CHR '','' \<and> jalr_rest (drop (Suc i) s) \<noteq> None) (rev [1..<length s]) of
         [] \<Rightarrow> None
       | i # _ \<Rightarrow> map_option (\<lambda>(off, rs1). (take i s, off, rs1)) (jalr_rest (drop (Suc i) s))))"

definition clean_args :: "string \<Rightarrow> string \<Rightarrow> string" where
  "clean_args opc args0 =
     (let args = strip (xreg_sub False (drop_symbols (takeWhile (\<lambda>c. c \<noteq> CHR ''#'') args0))) in
      if opc = ''jalr'' then (case jalr_match args of
         Some (rd, off, rs1) \<Rightarrow> (case py_int 10 off of
             Some n \<Rightarrow> rd @ '','' @ rs1 @ '','' @ (if n < 0 then ''-'' else []) @ ''0x'' @ format_x \<bar>n\<bar>
           | None \<Rightarrow> args)
       | None \<Rightarrow> args)
      else args)"

definition is_lower_hex :: "char \<Rightarrow> bool" where
  "is_lower_hex c = (is_dec c \<or> 97 \<le> code_of c \<and> code_of c \<le> 102)"

text \<open>\<open>INSTR_RE\<close>: address, binary, opcode and operands of a line.\<close>

definition instr_match :: "string \<Rightarrow> (string \<times> string \<times> string \<times> string) option" where
  "instr_match line =
     (let s = lstrip line; addr = takeWhile is_lower_hex s in
      case dropWhile is_lower_hex s of [] \<Rightarrow> None
      | c # s1 \<Rightarrow>
        let s2 = lstrip s1; bin = takeWhile is_lower_hex s2; s3 = dropWhile is_lower_hex s2; s4 = lstrip s3;
            opc = takeWhile (\<lambda>c. \<not> is_space c) s4 in
        if addr \<noteq> [] \<and> c = CHR '':'' \<and> s2 \<noteq> s1 \<and> (length bin = 4 \<or> length bin = 8) \<and> s4 \<noteq> s3 \<and> opc \<noteq> []
        then Some (addr, bin, opc, lstrip (dropWhile (\<lambda>c. \<not> is_space c) s4)) else None)"

text \<open>The upper immediate as the value of the register.\<close>

definition upper_value :: "string \<Rightarrow> int \<Rightarrow> int \<Rightarrow> int" where
  "upper_value opc addr imm = (let v = push_bit 12 imm AND 0xFFFFFFFF in
     if opc = ''auipc'' then (v + addr) AND 0xFFFFFFFF else v)"

definition convert_upper :: "string \<Rightarrow> int \<Rightarrow> string \<Rightarrow> exn + string" where
  "convert_upper opc addr args =
     (if opc \<in> set U_TYPE \<and> CHR '','' \<in> set args then
        (let r = rev (tl (dropWhile (\<lambda>c. c \<noteq> CHR '','') (rev args))); imm_s = rev (takeWhile (\<lambda>c. c \<noteq> CHR '','') (rev args)) in
         sum_bind (py_int_exn 16 imm_s) (\<lambda>imm. Inr (r @ '',0x'' @ format_x (upper_value opc addr imm))))
      else Inr args)"

text \<open>The output for a line of the disassembly, without the line end.\<close>

definition objdump_line :: "string \<Rightarrow> exn + string option" where
  "objdump_line line = (case instr_match (rstrip line) of
      None \<Rightarrow> Inr None
    | Some (addr_s, bin, opc, args0) \<Rightarrow> sum_bind (py_int_exn 16 addr_s) (\<lambda>addr.
        sum_bind (convert_upper opc addr (clean_args opc args0)) (\<lambda>args.
          Inr (Some (format_x addr @ '':'' @ [TAB] @ bin @ [TAB] @ opc @ [TAB] @ args)))))"

section \<open>Lines that were written are read\<close>

lemma tab_space: "is_space TAB"
  by (simp add: TAB_def is_space_def code_of_def)

lemma format_x_no_tab: "TAB \<notin> set (format_x n)"
  using format_x_plain[of TAB n] tab_space by auto

lemma dropWhile_last: "xs \<noteq> [] \<Longrightarrow> \<not> P (last xs) \<Longrightarrow> dropWhile P (rev xs) = rev xs"
  by (simp add: dropWhile_eq_self_iff hd_rev)

lemma address_field:
  "py_int_exn 16 (rstrip_char (CHR '':'') (strip_char (CHR '' '') (format_x a @ '':''))) = Inr a"
proof -
  obtain c cs where c: "format_x a = c # cs" using format_x_nonempty[of a] by (cases "format_x a") auto
  have plain: "x \<in> set (format_x a) \<Longrightarrow> x \<noteq> CHR '':'' \<and> x \<noteq> CHR '' ''" for x
    using format_x_plain[of x a] by (auto simp: is_space_def code_of_def)
  have "strip_char (CHR '' '') (format_x a @ '':'') = format_x a @ '':''"
    using plain[of c] c by (simp add: strip_char_def)
  moreover have "rstrip_char (CHR '':'') (format_x a @ '':'') = format_x a"
    using dropWhile_last[of "format_x a" "\<lambda>x. x = CHR '':''"] plain[of "last (format_x a)"] c
    by (simp add: rstrip_char_def)
  ultimately show ?thesis by (simp add: py_int_exn_def)
qed

definition plain_text :: "string \<Rightarrow> bool" where
  "plain_text s = (TAB \<notin> set s \<and> (s \<noteq> [] \<longrightarrow> last s \<noteq> CHR 0x0A))"

lemma listing_line_written:
  assumes "TAB \<notin> set bin" "TAB \<notin> set opc" "plain_text args" "args \<noteq> []" "prog a = None"
    and "new_instr a [format_x a @ '':'', bin, opc, args] = Inr i"
  shows "listing_line tol ((format_x a @ '':'' @ [TAB] @ bin @ [TAB] @ opc @ [TAB] @ args) @ [CHR 0x0A]) (prog, k)
    = Inr (prog(a \<mapsto> i), k)"
proof -
  let ?l = "format_x a @ '':'' @ [TAB] @ bin @ [TAB] @ opc @ [TAB] @ args"
  have "last ?l \<noteq> CHR 0x0A" using assms(3,4) by (simp add: plain_text_def)
  then have "rstrip_char (CHR 0x0A) (?l @ [CHR 0x0A]) = ?l"
    using dropWhile_last[of ?l "\<lambda>x. x = CHR 0x0A"] by (simp add: rstrip_char_def)
  moreover have "split_on TAB ((format_x a @ '':'') @ TAB # bin @ TAB # opc @ TAB # args) = [format_x a @ '':'', bin, opc, args]"
    using assms(1-3) format_x_no_tab[of a]
    by (subst split_on_append, (simp add: TAB_def)?)+ (simp_all add: split_on_no_sep plain_text_def TAB_def)
  ultimately show ?thesis
    using assms(5,6) by (simp add: listing_line_def address_field sum_bind_def)
qed

lemma split_args_append:
  "CHR '','' \<notin> set w \<Longrightarrow> CHR '' '' \<notin> set w \<Longrightarrow> split_args (w @ CHR '','' # s) = w # split_args s"
  by (induction w) auto

lemma split_args_plain: "CHR '','' \<notin> set w \<Longrightarrow> CHR '' '' \<notin> set w \<Longrightarrow> split_args w = [w]"
  by (induction w) auto

lemma off_reg_none:
  assumes "CHR ''('' \<notin> set s"
  shows "off_reg s = None"
proof -
  define sgn where "sgn = (case s of c # _ \<Rightarrow> if c = CHR ''-'' then [c] else [] | [] \<Rightarrow> [])"
  have "c \<noteq> CHR ''(''" if "dropWhile is_dec (drop (length sgn) s) = c # r" for c r
    using that assms by (metis in_set_dropD list.set_intros(1) set_dropWhileD)
  then show ?thesis
    by (cases "dropWhile is_dec (drop (length sgn) s)") (simp_all add: off_reg_def Let_def del: dropWhile_eq_Nil_conv flip: sgn_def)
qed

section \<open>Properties of the converters\<close>

text \<open>How an instruction continues the path, as the decoder tells it.\<close>

datatype flow = Linear | Branch int | Jump int | Call int | Indirect_Jump | Indirect_Call | Return

definition flow_of :: "instr \<Rightarrow> flow" where
  "flow_of i = (let E = \<lparr> we_program = Map.empty, we_sijump = False \<rparr>; t = in_address i + imm_or_zero i in
     if in_branch i then Branch t
     else if is_inferable_jump i then (if is_call i then Call t else Jump t)
     else if is_uninferable_discon E i then (if is_return i then Return else if is_call i then Indirect_Call else Indirect_Jump)
     else Linear)"

definition pcinfo_flow :: "string \<Rightarrow> int option \<Rightarrow> flow option" where
  "pcinfo_flow ptype target =
     (if ptype = ''L'' then Some Linear
      else if ptype = ''BD'' then map_option Branch target
      else if ptype = ''JD'' then map_option Jump target
      else if ptype = ''CD'' then map_option Call target
      else if ptype = ''JI'' then Some Indirect_Jump
      else if ptype = ''CI'' then Some Indirect_Call
      else if ptype = ''R'' then Some Return else None)"

lemmas instr_defs = new_instr_def known_type_def operands_def R_TYPE_def I_TYPE_def B_TYPE_def U_TYPE_def CB_TYPE_def
  CJ_TYPE_def OTHER_TYPES_def is_j_type_def reg_arg_def imm_arg_def nth_arg_def sum_bind_def reg_def ABI_NAMES_def py_int_exn_def

lemma format_x_chars: "CHR '','' \<notin> set (format_x t)" "CHR '' '' \<notin> set (format_x t)" "CHR ''('' \<notin> set (format_x t)"
proof -
  have "is_space (CHR '' '')" by (simp add: is_space_def code_of_def)
  then show "CHR '','' \<notin> set (format_x t)" "CHR '' '' \<notin> set (format_x t)" "CHR ''('' \<notin> set (format_x t)"
    using format_x_plain[of _ t] by auto
qed

lemma format_x_arg: "split_args (format_x t) = [format_x t]" "off_reg (format_x t) = None"
  using format_x_chars[of t] by (simp_all add: split_args_plain off_reg_none)

lemma constant_args: "off_reg ''zero'' = None" "off_reg ''ra'' = None" "off_reg ''0'' = None"
  "off_reg ''0(t0)'' = Some (''0'', ''t0'')" "off_reg ''0(ra)'' = Some (''0'', ''ra'')"
  by (simp_all add: off_reg_def is_dec_def is_az_def code_of_def)

lemma target_args:
  "convert_args (''zero,zero,'' @ format_x t) = [''zero'', ''zero'', format_x t]"
  "convert_args (''zero,'' @ format_x t) = [''zero'', format_x t]"
  "convert_args (''ra,'' @ format_x t) = [''ra'', format_x t]"
  "convert_args ''zero,zero,0'' = [''zero'', ''zero'', ''0'']"
  "convert_args ''zero,0(t0)'' = [''zero'', ''t0'', ''0'']"
  "convert_args ''ra,0(t0)'' = [''ra'', ''t0'', ''0'']"
  "convert_args ''zero,0(ra)'' = [''zero'', ''ra'', ''0'']"
  by (simp_all add: convert_args_def format_x_arg constant_args)

lemma py_int_zero: "py_int 16 ''0'' = Some 0" "py_int 10 ''0'' = Some 0"
  by (simp_all add: py_int_def strip_def lstrip_def rstrip_def is_space_def code_of_def unsigned_int_def base_prefix_def
      digits_def digit_of_def)

lemma plain_target: "plain_text (format_x t)" "plain_text (p @ format_x t) \<longleftrightarrow> TAB \<notin> set p"
proof -
  have "is_space (CHR 0x0A)" by (simp add: is_space_def code_of_def)
  then have "last (format_x t) \<noteq> CHR 0x0A"
    using format_x_plain[of "last (format_x t)" t] by (metis format_x_nonempty last_in_set)
  then show "plain_text (format_x t)" "plain_text (p @ format_x t) \<longleftrightarrow> TAB \<notin> set p"
    using format_x_no_tab[of t] by (auto simp: plain_text_def)
qed

lemma zero_binary: "strip ''00000000'' = ''00000000''"
  by (rule strip_plain) (simp add: is_space_def code_of_def)

lemma known_opcodes: "known_type ''addi''" "known_type ''beq''" "known_type ''jal''" "known_type ''jalr''"
  by (simp_all add: known_type_def I_TYPE_def B_TYPE_def is_j_type_def startswith_def)

lemma registers: "reg ''zero'' = Inr (Some 0)" "reg ''ra'' = Inr (Some 1)" "reg ''t0'' = Inr (Some 5)"
  by (simp_all add: reg_def ABI_NAMES_def py_int_zero)

lemmas operand_defs = operands_def R_TYPE_def I_TYPE_def B_TYPE_def U_TYPE_def CB_TYPE_def CJ_TYPE_def is_j_type_def
  reg_arg_def imm_arg_def nth_arg_def sum_bind_def py_int_exn_def

lemma converted_operands:
  "operands a ''addi'' [''zero'', ''zero'', ''0''] = Inr (Some 0, Some 0, Some 0)"
  "operands a ''beq'' [''zero'', ''zero'', format_x t] = Inr (None, Some 0, Some (t - a))"
  "operands a ''jal'' [''zero'', format_x t] = Inr (Some 0, None, Some (t - a))"
  "operands a ''jal'' [''ra'', format_x t] = Inr (Some 1, None, Some (t - a))"
  "operands a ''jalr'' [''zero'', ''t0'', ''0''] = Inr (Some 0, Some 5, Some 0)"
  "operands a ''jalr'' [''ra'', ''t0'', ''0''] = Inr (Some 1, Some 5, Some 0)"
  "operands a ''jalr'' [''zero'', ''ra'', ''0''] = Inr (Some 0, Some 1, Some 0)"
  by (simp_all add: operand_defs registers py_int_zero startswith_def)

lemma converted_new:
  assumes "known_type opc" "operands a opc (convert_args args) = Inr (rd, rs1, imm)"
  shows "new_instr a [f, ''00000000'', opc, args] = Inr \<lparr> in_address = a, in_size = 4, in_opcode = opc, in_rd = rd,
    in_rs1 = rs1, in_imm = imm, in_branch = (opc \<in> set (B_TYPE @ CB_TYPE)) \<rparr>"
  using assms by (simp add: new_instr_def zero_binary sum_bind_def)

lemmas flow_defs = flow_of_def is_inferable_jump_def is_uninferable_discon_def is_uninferable_jump_def is_call_def
  is_return_def imm_or_zero_def B_TYPE_def CB_TYPE_def

lemma converted_instr:
  assumes "convert_type ptype target = Inr (opc, args)"
  shows "\<exists>i. new_instr a [f, ''00000000'', opc, args] = Inr i \<and> in_address i = a \<and> in_size i = 4
    \<and> Some (flow_of i) = pcinfo_flow ptype target \<and> plain_text args \<and> args \<noteq> [] \<and> TAB \<notin> set opc"
proof -
  have tab: "TAB \<notin> set ''addi''" "TAB \<notin> set ''beq''" "TAB \<notin> set ''jal''" "TAB \<notin> set ''jalr''"
    "TAB \<notin> set ''zero,zero,''" "TAB \<notin> set ''zero,''" "TAB \<notin> set ''ra,''"
    "plain_text ''zero,zero,0''" "plain_text ''zero,0(t0)''" "plain_text ''ra,0(t0)''" "plain_text ''zero,0(ra)''"
    by (simp_all add: TAB_def plain_text_def)
  note new = converted_new[OF known_opcodes(1), of a] converted_new[OF known_opcodes(2), of a]
    converted_new[OF known_opcodes(3), of a] converted_new[OF known_opcodes(4), of a]
  consider "ptype = ''L''" "opc = ''addi''" "args = ''zero,zero,0''"
    | t where "ptype = ''BD''" "target = Some t" "opc = ''beq''" "args = ''zero,zero,'' @ format_x t"
    | t where "ptype = ''JD''" "target = Some t" "opc = ''jal''" "args = ''zero,'' @ format_x t"
    | t where "ptype = ''CD''" "target = Some t" "opc = ''jal''" "args = ''ra,'' @ format_x t"
    | "ptype = ''JI''" "opc = ''jalr''" "args = ''zero,0(t0)''"
    | "ptype = ''CI''" "opc = ''jalr''" "args = ''ra,0(t0)''"
    | "ptype = ''R''" "opc = ''jalr''" "args = ''zero,0(ra)''"
    using assms by (auto simp: convert_type_def Let_def split: if_splits option.splits)
  then show ?thesis
  proof cases
    case 1
    then show ?thesis using new(1)[of args] tab by (simp add: target_args converted_operands flow_defs pcinfo_flow_def)
  next
    case 2
    then show ?thesis using new(2)[of args] tab
      by (simp add: target_args[simplified] converted_operands flow_defs pcinfo_flow_def plain_target(2)[of "''zero,zero,''", simplified])
  next
    case 3
    then show ?thesis using new(3)[of args] tab
      by (simp add: target_args[simplified] converted_operands flow_defs pcinfo_flow_def plain_target(2)[of "''zero,''", simplified])
  next
    case 4
    then show ?thesis using new(3)[of args] tab
      by (simp add: target_args[simplified] converted_operands flow_defs pcinfo_flow_def plain_target(2)[of "''ra,''", simplified])
  next
    case 5
    then show ?thesis using new(4)[of args] tab by (simp add: target_args converted_operands flow_defs pcinfo_flow_def)
  next
    case 6
    then show ?thesis using new(4)[of args] tab by (simp add: target_args converted_operands flow_defs pcinfo_flow_def)
  next
    case 7
    then show ?thesis using new(4)[of args] tab by (simp add: target_args converted_operands flow_defs pcinfo_flow_def)
  qed
qed

text \<open>A line of the trace information that \<open>pcinfo2listing\<close> converts is read back by \<open>ListingData\<close> as
  an instruction at the address of the line, four bytes long, which the decoder's own predicates take
  for exactly the kind of instruction the line names, with its target: the conversion loses nothing the
  walk depends on.\<close>

lemma pcinfo_listing_exact:
  assumes "pcinfo_fields (strip line) = Inr (a, ptype, target)" "convert line = Inr (Some out)" "prog a = None"
  shows "\<exists>i. listing_line tol (out @ [CHR 0x0A]) (prog, k) = Inr (prog(a \<mapsto> i), k)
    \<and> in_address i = a \<and> in_size i = 4 \<and> Some (flow_of i) = pcinfo_flow ptype target"
proof -
  obtain opc args where c: "convert_type ptype target = Inr (opc, args)"
    and out: "out = format_x a @ '':'' @ [TAB] @ ''00000000'' @ [TAB] @ opc @ [TAB] @ args"
    using assms(1,2) by (auto simp: convert_def Let_def sum_bind_def split: if_splits sum.splits)
  obtain i where i: "new_instr a [format_x a @ '':'', ''00000000'', opc, args] = Inr i" "in_address i = a" "in_size i = 4"
    "Some (flow_of i) = pcinfo_flow ptype target" "plain_text args" "args \<noteq> []" "TAB \<notin> set opc"
    using converted_instr[OF c] by metis
  have "listing_line tol (out @ [CHR 0x0A]) (prog, k) = Inr (prog(a \<mapsto> i), k)"
    unfolding out using i assms(3) by (intro listing_line_written) (simp_all add: TAB_def)
  with i show ?thesis by blast
qed

lemma pcinfo_listing_exact_witness:
  "\<exists>i. listing_line False ((format_x 0x1C @ '':'' @ [TAB] @ ''00000000'' @ [TAB] @ ''beq'' @ [TAB] @ ''zero,zero,'' @ format_x 0x20) @ [CHR 0x0A]) (Map.empty, 0)
      = Inr ([0x1C \<mapsto> i], 0) \<and> in_address i = 0x1C \<and> in_size i = 4 \<and> Some (flow_of i) = pcinfo_flow ''BD'' (Some 0x20)"
proof -
  have s: "strip ''1C,BD4,20'' = ''1C,BD4,20''"
    by (rule strip_plain) (simp add: is_space_def code_of_def)
  have n: "py_int 16 ''1C'' = Some 0x1C" "py_int 10 ''4'' = Some 4" "py_int 16 ''20'' = Some 0x20"
    by (simp_all add: py_int_def strip_def lstrip_def rstrip_def is_space_def code_of_def unsigned_int_def base_prefix_def
        digits_def digit_of_def)
  have f: "pcinfo_fields (strip ''1C,BD4,20'') = Inr (0x1C, ''BD'', Some 0x20)"
    by (simp add: s pcinfo_fields_def py_int_exn_def n sum_bind_def nth_arg_def is_digit_char_def is_dec_def code_of_def Let_def)
  have "convert ''1C,BD4,20'' = Inr (Some (format_x 0x1C @ '':'' @ [TAB] @ ''00000000'' @ [TAB] @ ''beq'' @ [TAB] @ ''zero,zero,'' @ format_x 0x20))"
    using f by (simp add: convert_def s sum_bind_def convert_type_def Let_def)
  from pcinfo_listing_exact[OF f this, of Map.empty False 0] show ?thesis by simp
qed

lemma upper_value_nonneg: "0 \<le> upper_value opc a hi"
  by (simp add: upper_value_def Let_def)

lemma convert_upper_written:
  assumes "opc \<in> set U_TYPE" "py_int_exn 16 imm_s = Inr hi" "CHR '','' \<notin> set imm_s"
  shows "convert_upper opc a (r @ '','' @ imm_s) = Inr (r @ '','' @ ''0x'' @ format_x (upper_value opc a hi))"
proof -
  have "takeWhile (\<lambda>c. c \<noteq> CHR '','') (rev imm_s @ CHR '','' # rev r) = rev imm_s"
    "dropWhile (\<lambda>c. c \<noteq> CHR '','') (rev imm_s @ CHR '','' # rev r) = CHR '','' # rev r"
    using assms(3) by (auto simp: takeWhile_append dropWhile_append)
  with assms(1,2) show ?thesis by (simp add: convert_upper_def Let_def sum_bind_def)
qed

lemma upper_operands:
  assumes "opc \<in> set U_TYPE" "CHR '','' \<notin> set r" "CHR '' '' \<notin> set r" "CHR ''('' \<notin> set r" "reg r = Inr rd" "0 \<le> v"
  shows "operands a opc (convert_args (r @ '','' @ ''0x'' @ format_x v)) = Inr (rd, None, Some (v - a))"
proof -
  have "split_args (r @ CHR '','' # ''0x'' @ format_x v) = [r, ''0x'' @ format_x v]"
    using assms(2,3) format_x_chars[of v] by (simp add: split_args_append split_args_plain[of "''0x'' @ format_x v", simplified])
  moreover have "off_reg r = None" "off_reg (''0x'' @ format_x v) = None"
    using assms(4) format_x_chars[of v] by (simp_all add: off_reg_none)
  ultimately have "convert_args (r @ '','' @ ''0x'' @ format_x v) = [r, ''0x'' @ format_x v]"
    by (simp add: convert_args_def)
  moreover have "py_int 16 (CHR ''0'' # CHR ''x'' # format_x v) = Some v"
    using py_int_prefixed[OF assms(6)] by simp
  moreover consider "opc = ''lui''" | "opc = ''auipc''" using assms(1) by (auto simp: U_TYPE_def)
  then have "operands a opc args = sum_bind (reg_arg args 0) (\<lambda>rd. sum_bind (imm_arg args 1) (\<lambda>t. Inr (rd, None, Some (t - a))))"
    for args
    by cases (simp_all add: operands_def R_TYPE_def I_TYPE_def B_TYPE_def U_TYPE_def CB_TYPE_def)
  ultimately show ?thesis using assms(5) by (simp add: reg_arg_def imm_arg_def nth_arg_def sum_bind_def py_int_exn_def)
qed

text \<open>The upper immediate of an \<open>auipc\<close> or \<open>lui\<close>, converted and read back, makes the sequential jump
  behind it go to the address the hardware computes: the register value, reduced to 32 bits, plus the
  offset, with the lowest bit cleared.\<close>

lemma upper_jump_exact:
  assumes "opc \<in> set U_TYPE" "py_int_exn 16 imm_s = Inr hi" "CHR '','' \<notin> set imm_s"
    and "set r \<inter> {CHR '','', CHR '' '', CHR ''(''} = {}" "reg r = Inr (Some x)" "x \<noteq> 0"
    and "convert_upper opc a (r @ '','' @ imm_s) = Inr args" "new_instr a [f, bin, opc, args] = Inr u"
    and "we_program E a = Some u" "we_sijump E" "in_opcode j = ''jalr''" "in_rs1 j = Some x"
    and "x \<notin> {1, 5} \<or> in_rd j = Some x"
  shows "is_sequential_jump E j (Some a) \<and>
    sequential_jump_target E j (Some a) = Some ((upper_value opc a hi + imm_or_zero j) AND NOT 1)"
proof -
  have args: "args = r @ '','' @ ''0x'' @ format_x (upper_value opc a hi)"
    using assms(7) convert_upper_written[OF assms(1-3), of a r] by simp
  have "operands a opc (convert_args args) = Inr (Some x, None, Some (upper_value opc a hi - a))"
    unfolding args using assms(1,4,5) by (intro upper_operands upper_value_nonneg) auto
  with assms(8) have "in_rd u = Some x" "in_imm u = Some (upper_value opc a hi - a)" "in_opcode u = opc"
    by (auto simp: new_instr_def Let_def sum_bind_def split: if_splits)
  with assms(1,6,9-) show ?thesis
    by (auto simp: is_sequential_jump_def sequential_jump_target_def U_TYPE_def)
qed

lemma upper_jump_exact_witness:
  "\<exists>u. let E = \<lparr> we_program = [0x100 \<mapsto> u], we_sijump = True \<rparr>;
      j = \<lparr> in_address = 0x104, in_size = 4, in_opcode = ''jalr'', in_rd = Some 5, in_rs1 = Some 5, in_imm = Some 4, in_branch = False \<rparr> in
    is_sequential_jump E j (Some 0x100) \<and> sequential_jump_target E j (Some 0x100) = Some 0x1104"
proof -
  have n: "py_int_exn 16 ''1'' = Inr 1"
    by (simp add: py_int_exn_def py_int_def strip_def lstrip_def rstrip_def is_space_def code_of_def unsigned_int_def
        base_prefix_def digits_def digit_of_def)
  have v: "upper_value ''auipc'' 0x100 1 = 0x1100" by (simp add: upper_value_def)
  have c: "convert_upper ''auipc'' 0x100 (''t0'' @ '','' @ ''1'') = Inr (''t0'' @ '','' @ ''0x'' @ format_x 0x1100)"
    using convert_upper_written[of "''auipc''" "''1''" 1 "0x100" "''t0''"] n v by (simp add: U_TYPE_def)
  have o: "operands 0x100 ''auipc'' (convert_args (''t0'' @ '','' @ ''0x'' @ format_x 0x1100)) = Inr (Some 5, None, Some 0x1000)"
    using upper_operands[of "''auipc''" "''t0''" "Some 5" "0x1100" "0x100"] registers by (simp add: U_TYPE_def)
  have k: "known_type ''auipc''" by (simp add: known_type_def U_TYPE_def)
  obtain u where u: "new_instr 0x100 [[], ''00000000'', ''auipc'', ''t0'' @ '','' @ ''0x'' @ format_x 0x1100] = Inr u"
    using o k by (simp add: new_instr_def zero_binary sum_bind_def Let_def)
  let ?E = "\<lparr> we_program = [0x100 \<mapsto> u], we_sijump = True \<rparr>"
    and ?j = "\<lparr> in_address = 0x104, in_size = 4, in_opcode = ''jalr'', in_rd = Some 5, in_rs1 = Some 5, in_imm = Some 4, in_branch = False \<rparr>"
  have "is_sequential_jump ?E ?j (Some 0x100) \<and> sequential_jump_target ?E ?j (Some 0x100)
      = Some ((upper_value ''auipc'' 0x100 1 + imm_or_zero ?j) AND NOT 1)"
    using n c u registers by (intro upper_jump_exact[where r = "''t0''" and x = 5]) (simp_all add: U_TYPE_def)
  then show ?thesis by (intro exI[of _ u]) (simp add: v imm_or_zero_def)
qed

text \<open>The parser reads no operands of \<open>c.jr\<close>: the second arm of \<open>is_return\<close> is never taken, and a
  compressed return is not folded.\<close>

lemma compressed_return_not_seen:
  assumes "new_instr a fs = Inr i" "fs ! 2 = ''c.jr''"
  shows "in_rs1 i = None \<and> \<not> is_return i"
  using assms
  by (auto simp: new_instr_def Let_def operand_defs startswith_def is_return_def split: if_splits)

end
