(* ===== verification/Py_Printf.thy ===== *)
theory Py_Printf
  imports Py_Format
begin

text \<open>
  The formatting operator \<open>fmt % args\<close> of Python for the conversions the generators use: \<open>%d\<close>,
  \<open>%x\<close>, \<open>%X\<close>, \<open>%s\<close>, a width, the zero flag and \<open>%%\<close>. The templates give each conversion an
  argument of its kind; where Python raises \<open>TypeError\<close> (too few arguments, a string for \<open>%d\<close>) the
  function stops or prints the argument as it is, and no template of the program gets there.
\<close>

section \<open>Lines\<close>

definition NL :: char where "NL = CHR 0x0A"
definition HT :: char where "HT = CHR 0x09"
definition BACKSLASH :: char where "BACKSLASH = CHR 0x5C"

text \<open>A text of complete lines.\<close>

definition unlines :: "string list \<Rightarrow> string" where
  "unlines ls = concat (map (\<lambda>l. l @ [NL]) ls)"

definition join_lines :: "string list \<Rightarrow> string" where
  "join_lines ls = (case ls of [] \<Rightarrow> [] | l # ls' \<Rightarrow> l @ concat (map (\<lambda>m. NL # m) ls'))"

definition join_with :: "string \<Rightarrow> string list \<Rightarrow> string" where
  "join_with sep ws = (case ws of [] \<Rightarrow> [] | w # ws' \<Rightarrow> w @ concat (map (\<lambda>v. sep @ v) ws'))"

text \<open>The lines a file object yields, without their line ends.\<close>

definition file_lines :: "string \<Rightarrow> string list" where
  "file_lines s = (let ls = split_on NL s in if last ls = [] then butlast ls else ls)"

section \<open>Conversions\<close>

definition is_decimal :: "char \<Rightarrow> bool" where
  "is_decimal c \<longleftrightarrow> 48 \<le> code_of c \<and> code_of c \<le> 57"

definition upper_hex :: "char \<Rightarrow> char" where
  "upper_hex c = (let n = code_of c in if 97 \<le> n \<and> n \<le> 122 then char_of (n - 32) else c)"

definition width_of :: "string \<Rightarrow> nat" where
  "width_of w = foldl (\<lambda>a c. a * 10 + (code_of c - 48)) 0 w"

definition pad_left :: "nat \<Rightarrow> string \<Rightarrow> string" where
  "pad_left n s = replicate (n - length s) (CHR '' '') @ s"

definition int_sign :: "int \<Rightarrow> string" where
  "int_sign i = (if i < 0 then ''-'' else [])"

definition int_body :: "char \<Rightarrow> int \<Rightarrow> string" where
  "int_body k i =
     (if k = CHR ''X'' then map upper_hex (digits_text 16 (nat \<bar>i\<bar>))
      else digits_text (if k = CHR ''x'' then 16 else 10) (nat \<bar>i\<bar>))"

definition convert_arg :: "string \<Rightarrow> char \<Rightarrow> fmt_arg \<Rightarrow> string" where
  "convert_arg w k a =
     (case a of
        AS s \<Rightarrow> pad_left (width_of w) s
      | AI i \<Rightarrow>
          (if w \<noteq> [] \<and> hd w = CHR ''0'' \<and> k \<noteq> CHR ''s''
           then int_sign i @ replicate (width_of w - length (int_sign i) - length (int_body k i)) (CHR ''0'')
                  @ int_body k i
           else pad_left (width_of w) (int_sign i @ int_body k i)))"

function sprintf :: "string \<Rightarrow> fmt_arg list \<Rightarrow> string" where
  "sprintf [] args = []"
| "sprintf (c # cs) args =
     (if c \<noteq> CHR ''%'' then c # sprintf cs args
      else case dropWhile is_decimal cs of
             [] \<Rightarrow> []
           | k # rest \<Rightarrow>
               (if k = CHR ''%'' then k # sprintf rest args
                else case args of [] \<Rightarrow> []
                     | a # args' \<Rightarrow> convert_arg (takeWhile is_decimal cs) k a @ sprintf rest args'))"
  by pat_completeness auto

lemma dropWhile_shorter: "dropWhile P cs = k # rest \<Longrightarrow> length rest < length cs"
  by (metis Suc_le_lessD length_Cons length_dropWhile_le)

termination sprintf
  by (relation "measure (\<lambda>(cs, args). length cs)") (auto dest: dropWhile_shorter simp: less_Suc_eq)

definition str_d :: "int \<Rightarrow> string" where
  "str_d n = int_sign n @ digits_text 10 (nat \<bar>n\<bar>)"

section \<open>Reading the text back\<close>

lemma is_decimal_simps [simp]:
  "is_decimal (CHR ''0'')" "is_decimal (CHR ''2'')" "is_decimal (CHR ''3'')" "is_decimal (CHR ''8'')"
  "\<not> is_decimal (CHR ''d'')" "\<not> is_decimal (CHR ''x'')" "\<not> is_decimal (CHR ''X'')" "\<not> is_decimal (CHR ''s'')"
  "\<not> is_decimal (CHR ''%'')"
  by (simp_all add: is_decimal_def code_of_def)

lemma width_simps [simp]:
  "width_of [] = 0" "width_of ''08'' = 8" "width_of ''03'' = 3" "width_of ''02'' = 2" "width_of ''2'' = 2"
  by (simp_all add: width_of_def code_of_def)

lemma sprintf_plain [simp]: "c \<noteq> CHR ''%'' \<Longrightarrow> sprintf (c # cs) args = c # sprintf cs args"
  by simp

declare sprintf.simps(2) [simp del]

lemma sprintf_d [simp]: "sprintf (CHR ''%'' # CHR ''d'' # cs) (AI n # args) = str_d n @ sprintf cs args"
  by (simp add: sprintf.simps(2) convert_arg_def pad_left_def int_body_def str_d_def)

lemma sprintf_s [simp]: "sprintf (CHR ''%'' # CHR ''s'' # cs) (AS s # args) = s @ sprintf cs args"
  by (simp add: sprintf.simps(2) convert_arg_def pad_left_def)

lemma sprintf_x [simp]:
  "sprintf (CHR ''%'' # CHR ''x'' # cs) (AI n # args) = int_sign n @ digits_text 16 (nat \<bar>n\<bar>) @ sprintf cs args"
  by (simp add: sprintf.simps(2) convert_arg_def pad_left_def int_body_def)

definition hex8_of :: "int \<Rightarrow> string" where
  "hex8_of n = int_sign n @ replicate (8 - length (int_sign n) - length (digits_text 16 (nat \<bar>n\<bar>))) (CHR ''0'')
     @ digits_text 16 (nat \<bar>n\<bar>)"

lemma sprintf_hex8_of [simp]:
  "sprintf (CHR ''%'' # CHR ''0'' # CHR ''8'' # CHR ''x'' # cs) (AI n # args) = hex8_of n @ sprintf cs args"
  by (simp add: sprintf.simps(2) convert_arg_def int_body_def hex8_of_def)

lemma sprintf_percent [simp]: "sprintf (CHR ''%'' # CHR ''%'' # cs) args = CHR ''%'' # sprintf cs args"
  by (simp add: sprintf.simps(2))

lemma unlines_simps [simp]: "unlines [] = []" "unlines (l # ls) = l @ NL # unlines ls"
  by (simp_all add: unlines_def)

lemma unlines_append [simp]: "unlines (xs @ ys) = unlines xs @ unlines ys"
  by (simp add: unlines_def)

lemma split_on_unlines: "\<forall>l\<in>set ls. NL \<notin> set l \<Longrightarrow> split_on NL (unlines ls) = ls @ [[]]"
  by (induction ls) (auto simp: split_on_append)

lemma file_lines_unlines: "\<forall>l\<in>set ls. NL \<notin> set l \<Longrightarrow> file_lines (unlines ls) = ls"
  by (simp add: file_lines_def split_on_unlines)

section \<open>Words of a line\<close>

definition plain_word :: "string \<Rightarrow> bool" where
  "plain_word w \<longleftrightarrow> w \<noteq> [] \<and> (\<forall>c\<in>set w. \<not> is_space c)"

lemma space_facts [simp]: "is_space (CHR '' '')" "is_space NL" "is_space HT" "\<not> is_space (CHR ''P'')" "\<not> is_space (CHR ''0'')"
    "\<not> is_space (CHR ''x'')" "\<not> is_space (CHR ''#'')" "\<not> is_space (CHR ''-'')"
  by (simp_all add: is_space_def code_of_def NL_def HT_def)

lemma join_with_Cons: "join_with sep (w # ws) = w @ (if ws = [] then [] else sep @ join_with sep ws)"
  by (cases ws) (simp_all add: join_with_def)

lemma join_with_Nil [simp]: "join_with sep [] = []"
  by (simp add: join_with_def)

lemma words_acc_plain: "plain_word w \<Longrightarrow> words_acc [] (w @ CHR '' '' # s) = w # words_acc [] s"
  using words_acc_word[of w "[]" "CHR '' '' # s"] by (simp add: plain_word_def)

lemma words_acc_last: "plain_word w \<Longrightarrow> words_acc [] w = [w]"
  using words_acc_word[of w "[]" "[]"] by (simp add: plain_word_def)

lemma split_ws_join: "list_all plain_word ws \<Longrightarrow> split_ws (join_with '' '' ws) = ws"
proof (induction ws)
  case (Cons w ws)
  then show ?case
    by (cases "ws = []") (simp_all add: split_ws_def join_with_Cons words_acc_plain words_acc_last)
qed (simp add: split_ws_def)

lemma strip_ends:
  assumes "s \<noteq> []" "\<not> is_space (hd s)" "\<not> is_space (last s)"
  shows "strip s = s"
proof -
  have "lstrip s = s" using assms(1,2) by (cases s) (simp_all add: lstrip_def)
  moreover have "rstrip s = s"
    using assms(1,3) by (cases s rule: rev_cases) (simp_all add: rstrip_def)
  ultimately show ?thesis by (simp add: strip_def)
qed

lemma join_with_nonempty: "list_all plain_word ws \<Longrightarrow> ws \<noteq> [] \<Longrightarrow> join_with '' '' ws \<noteq> []"
  by (cases ws) (auto simp: join_with_Cons plain_word_def)

lemma hd_join: "list_all plain_word (w # ws) \<Longrightarrow> hd (join_with '' '' (w # ws)) = hd w"
  by (auto simp: join_with_Cons plain_word_def hd_append)

lemma last_join: "list_all plain_word ws \<Longrightarrow> ws \<noteq> [] \<Longrightarrow> last (join_with '' '' ws) = last (last ws)"
proof (induction ws)
  case (Cons w ws)
  show ?case
  proof (cases "ws = []")
    case False
    moreover have "join_with '' '' ws \<noteq> []" using Cons.prems False by (intro join_with_nonempty) simp_all
    ultimately show ?thesis using Cons by (simp add: join_with_Cons)
  qed (simp add: join_with_Cons)
qed simp

lemma strip_join: "list_all plain_word ws \<Longrightarrow> ws \<noteq> [] \<Longrightarrow> strip (join_with '' '' ws) = join_with '' '' ws"
proof -
  assume ws: "list_all plain_word ws" "ws \<noteq> []"
  obtain w vs where w: "ws = w # vs" using ws(2) by (cases ws) auto
  have "plain_word w" "plain_word (last ws)" using ws unfolding w by (auto simp: list_all_iff)
  then have "\<not> is_space (hd w)" "\<not> is_space (last (last ws))" by (auto simp: plain_word_def)
  with ws hd_join[of w vs] last_join[OF ws] join_with_nonempty[OF ws] show ?thesis
    unfolding w by (intro strip_ends) simp_all
qed

lemma NL_join: "list_all plain_word ws \<Longrightarrow> NL \<notin> set (join_with '' '' ws)"
proof (induction ws)
  case (Cons w ws)
  have "NL \<notin> set w" using Cons.prems by (auto simp: plain_word_def)
  with Cons show ?case by (auto simp: join_with_Cons NL_def)
qed simp

lemma digits_text_word [simp]: "2 \<le> b \<Longrightarrow> b \<le> 16 \<Longrightarrow> plain_word (digits_text b n)"
  using digits_text_plain[of b _ n] by (simp add: plain_word_def)

lemma plain_append: "plain_word (a @ b) \<longleftrightarrow> (a \<noteq> [] \<or> b \<noteq> []) \<and> (\<forall>c\<in>set a \<union> set b. \<not> is_space c)"
  by (auto simp: plain_word_def)

lemma plain_word_Cons [simp]: "plain_word w \<Longrightarrow> \<not> is_space c \<Longrightarrow> plain_word (c # w)"
  by (simp add: plain_word_def)

lemma str_d_word [simp]: "plain_word (str_d n)"
  using digits_text_word[of 10 "nat \<bar>n\<bar>"] by (auto simp: str_d_def int_sign_def plain_word_def)

lemma hex8_of_word [simp]: "plain_word (hex8_of n)"
  using digits_text_word[of 16 "nat \<bar>n\<bar>"] by (auto simp: hex8_of_def int_sign_def plain_word_def)

section \<open>Numbers read back\<close>

lemma zero_prefix_read:
  "2 \<le> b \<Longrightarrow> b \<le> 16 \<Longrightarrow> digits_after b 0 (replicate k (CHR ''0'') @ digits_text b n) = Some (int n)"
proof (induction k)
  case (Suc k)
  have "digit_of b (CHR ''0'') = Some 0" using Suc.prems by (simp add: digit_of_def code_of_def)
  with Suc show ?case by simp
next
  case 0
  with digits_after_text[of b 0 n "[]"] show ?case by simp
qed

lemma zero_prefix_digits:
  assumes "2 \<le> b" "b \<le> 16"
  shows "digits b (replicate k (CHR ''0'') @ digits_text b n) = Some (int n)"
proof (cases k)
  case (Suc m)
  have "digit_of b (CHR ''0'') = Some 0" using assms by (simp add: digit_of_def code_of_def)
  with Suc zero_prefix_read[OF assms, of m n] show ?thesis by (simp add: digits_def)
qed (simp add: digits_text_read assms)

text \<open>\<open>'0x%08x'\<close> of a number that is not negative, read by \<open>int(s, 16)\<close>.\<close>

lemma hex8_of_form: "0 \<le> n \<Longrightarrow> hex8_of n = replicate (8 - length (digits_text 16 (nat n))) (CHR ''0'') @ digits_text 16 (nat n)"
  by (simp add: hex8_of_def int_sign_def)

lemma hex8_of_head: "0 \<le> n \<Longrightarrow> hd (hex8_of n) \<noteq> CHR ''_''"
proof -
  assume n: "0 \<le> n"
  have "hd (hex8_of n) \<in> set (hex8_of n)" using hex8_of_word[of n] by (simp add: plain_word_def)
  moreover have "c \<noteq> CHR ''_''" if "c \<in> set (hex8_of n)" for c
    using that digits_text_plain[of 16 c "nat n"] by (auto simp: hex8_of_form n)
  ultimately show ?thesis by blast
qed

lemma py_int_hex8_of: "0 \<le> n \<Longrightarrow> py_int 16 (''0x'' @ hex8_of n) = Some n"
proof -
  assume n: "0 \<le> n"
  have "plain_word (''0x'' @ hex8_of n)" using hex8_of_word[of n] by (simp add: plain_word_def)
  then have s: "strip (''0x'' @ hex8_of n) = ''0x'' @ hex8_of n" by (simp add: strip_plain plain_word_def)
  have "digits 16 (hex8_of n) = Some n" using zero_prefix_digits[of 16] n by (simp add: hex8_of_form)
  then have "digits_prefixed 16 (hex8_of n) = Some n"
    using hex8_of_head[OF n] hex8_of_word[of n] by (auto simp: digits_prefixed_def plain_word_def split: list.splits)
  moreover have "lower_char (CHR ''x'') = CHR ''x''" by (simp add: lower_char_def code_of_def)
  ultimately show ?thesis using s by (simp add: py_int_def unsigned_int_def base_prefix_def)
qed

lemma unsigned_int_10: "unsigned_int 10 s = digits 10 s"
  by (auto simp: unsigned_int_def base_prefix_def Let_def split: list.splits option.splits char.splits bool.splits)

lemma py_int_str_d: "0 \<le> n \<Longrightarrow> py_int 10 (str_d n) = Some n"
proof -
  assume n: "0 \<le> n"
  have w: "plain_word (str_d n)" by simp
  then have s: "strip (str_d n) = str_d n" by (simp add: strip_plain plain_word_def)
  obtain c cs where c: "str_d n = c # cs" using w by (cases "str_d n") (auto simp: plain_word_def)
  have "c \<in> set (digits_text 10 (nat n))" using n c by (simp add: str_d_def int_sign_def)
  then have "c \<noteq> CHR ''-''" "c \<noteq> CHR ''+''" using digits_text_plain[of 10 c "nat n"] by auto
  moreover have "digits 10 (str_d n) = Some n" using n digits_text_read[of 10 "nat n"] by (simp add: str_d_def int_sign_def)
  ultimately show ?thesis using s c by (simp add: py_int_def unsigned_int_10)
qed

section \<open>Lines of a written file\<close>

lemma join_lines_unlines: "join_lines (ls @ [[]]) = (if ls = [] then [] else unlines ls)"
proof (cases ls)
  case (Cons l ms)
  have "concat (map (\<lambda>m. NL # m) ms) @ [NL] = NL # unlines ms" for ms by (induction ms) simp_all
  with Cons show ?thesis by (simp add: join_lines_def)
qed (simp add: join_lines_def)

lemma int_body_no_NL: "NL \<notin> set (int_body k i)"
proof -
  have d: "c \<noteq> NL" if "c \<in> set (digits_text b n)" "2 \<le> b" "b \<le> 16" for b c n
    using digits_text_plain[OF that(2,3,1)] by auto
  have u: "upper_hex c \<noteq> NL" if "c \<noteq> NL" for c
  proof
    assume "upper_hex c = NL"
    then have "code_of (upper_hex c) = 10" by (simp add: NL_def code_of_def)
    moreover have "code_of c = 10 \<Longrightarrow> c = NL"
    proof -
      assume "code_of c = 10"
      then have "char_of (code_of c) = NL" by (simp add: NL_def char_of_eq_iff)
      then show "c = NL" unfolding code_of_def by (simp only: char_of_char)
    qed
    ultimately show False using that by (auto simp: upper_hex_def Let_def code_of_def split: if_splits)
  qed
  have "c \<noteq> NL" if "c \<in> set (int_body k i)" for c
    using that d[of _ 16] d[of _ 10] u by (fastforce simp: int_body_def split: if_splits)
  then show ?thesis by blast
qed

lemma convert_arg_no_NL: "(\<forall>s. a = AS s \<longrightarrow> NL \<notin> set s) \<Longrightarrow> NL \<notin> set (convert_arg w k a)"
  using int_body_no_NL[of k] by (cases a) (auto simp: convert_arg_def pad_left_def int_sign_def NL_def)

lemma sprintf_no_NL:
  "NL \<notin> set fmt \<Longrightarrow> \<forall>s. AS s \<in> set args \<longrightarrow> NL \<notin> set s \<Longrightarrow> NL \<notin> set (sprintf fmt args)"
proof (induction fmt args rule: sprintf.induct)
  case (2 c cs args)
  show ?case
  proof (cases "c = CHR ''%''")
    case True
    show ?thesis
    proof (cases "dropWhile is_decimal cs")
      case (Cons k rest)
      have "set (k # rest) \<subseteq> set cs" unfolding Cons[symmetric] by (auto dest: set_dropWhileD)
      then have nl: "NL \<noteq> k" "NL \<notin> set rest" using 2(4) by auto
      show ?thesis
      proof (cases "k = CHR ''%''")
        case True
        then show ?thesis using 2(2)[OF _ Cons] \<open>c = _\<close> Cons nl 2(5) by (simp add: sprintf.simps(2))
      next
        case False
        have a: "NL \<notin> set (convert_arg w k a)" if "args = a # as" for w a as
          by (rule convert_arg_no_NL) (use that 2(5) in auto)
        from 2(3)[OF _ Cons False] \<open>c = _\<close> Cons nl 2(5) False a show ?thesis
          by (cases args) (auto simp: sprintf.simps(2))
      qed
    next
      case Nil
      with True show ?thesis unfolding sprintf.simps(2) Nil by simp
    qed
  qed (use 2 in auto)
qed simp

lemma rstrip_visible: "\<not> is_space c \<Longrightarrow> \<exists>t. rstrip (c # s) = c # t"
proof (cases "dropWhile is_space (rev s)")
  case Nil
  moreover assume "\<not> is_space c"
  ultimately show ?thesis by (simp add: rstrip_def dropWhile_append)
next
  case (Cons a list)
  then have "\<exists>x\<in>set s. \<not> is_space x" by (metis dropWhile_eq_Nil_conv list.distinct(1) set_rev)
  with Cons show ?thesis by (auto simp: rstrip_def dropWhile_append intro!: exI[of _ "rev (a # list)"])
qed

lemma strip_visible: "\<not> is_space c \<Longrightarrow> \<exists>t. strip (c # s) = c # t"
  using rstrip_visible by (simp add: strip_def lstrip_def)

definition comment_line :: "string \<Rightarrow> bool" where
  "comment_line l \<longleftrightarrow> l \<noteq> [] \<and> hd l = CHR ''#'' \<and> NL \<notin> set l"

lemma comment_strip: "comment_line l \<Longrightarrow> strip l \<noteq> [] \<and> startswith (strip l) ''#''"
  using strip_visible[of "CHR ''#''" "tl l"] by (cases l) (auto simp: comment_line_def startswith_def)

lemma comment_sprintf:
  "NL \<notin> set fmt \<Longrightarrow> \<forall>s. AS s \<in> set args \<longrightarrow> NL \<notin> set s \<Longrightarrow> comment_line (sprintf (CHR ''#'' # fmt) args)"
  using sprintf_no_NL[of fmt args] by (simp add: comment_line_def NL_def)

lemma comment_plain: "NL \<notin> set t \<Longrightarrow> comment_line (CHR ''#'' # t)"
  by (simp add: comment_line_def NL_def)

end
