(* ===== verification/Rv_Program.thy ===== *)
theory Rv_Program
  imports Py_Printf
begin

text \<open>
  The generator of the two instrumented demo programs, \<open>tgc5b2_rvcfi/sw/gen_program.py\<close>: the book
  of instrumentation sites (class \<open>Sites\<close>), the emission of one transaction function, of the
  lock-order function and of an ACT-CAP block, and the composition of a program with its dispatch
  tables. A generator run threads the text of the C file written so far and the book; a dictionary
  row of the manifest is a record whose absent keys are \<open>None\<close>.
\<close>

section \<open>The book of sites\<close>

datatype site_kind = KIND_DATA | KIND_SYNC | KIND_MARKER | KIND_VALUE

definition RW_READ :: int where "RW_READ = 0"
definition RW_WRITE :: int where "RW_WRITE = 1"

definition OBJ :: "string \<rightharpoonup> int" where
  "OBJ = map_of
     [(''balance'', 1), (''count'', 2), (''checksum'', 3), (''seq'', 4),
      (''ring_head'', 5), (''ring_tail'', 6), (''ring_slot'', 7), (''lockvar'', 8), (''private'', 9)]"

definition SYNC_OP :: "string \<rightharpoonup> int" where
  "SYNC_OP = map_of [(''acq_try'', 0), (''acq_ok'', 1), (''release'', 2), (''fence'', 3)]"

definition MARK_ID :: "string \<rightharpoonup> int" where
  "MARK_ID = map_of [(''enter'', 1), (''leave'', 2), (''dispatch'', 3), (''phase'', 4)]"

record site =
  s_id :: int
  s_kind :: site_kind
  s_kind_idx :: int
  s_src :: string
  s_obj :: "string option"
  s_obj_id :: int
  s_rw :: "string option"
  s_rw_id :: int
  s_size_log :: int
  s_op :: string
  s_op_id :: int
  s_lock :: "int option"
  s_lock_id :: int
  s_mark :: "string option"
  s_mark_id :: int
  s_func :: string
  s_note :: string
  s_expect :: string

text \<open>The keys every row has; a key the row lacks keeps the value of \<open>blank_site\<close>.\<close>

definition blank_site :: "int \<Rightarrow> site_kind \<Rightarrow> int \<Rightarrow> string \<Rightarrow> string \<Rightarrow> string \<Rightarrow> string \<Rightarrow> site" where
  "blank_site gid k idx src func note_text expect =
     \<lparr>s_id = gid, s_kind = k, s_kind_idx = idx, s_src = src, s_obj = None, s_obj_id = 0, s_rw = None,
      s_rw_id = 0, s_size_log = 0, s_op = [], s_op_id = 0, s_lock = None, s_lock_id = 0, s_mark = None,
      s_mark_id = 0, s_func = func, s_note = note_text, s_expect = expect\<rparr>"

record gen_state =
  out_text :: string
  entries :: "site list"
  next_global :: int
  per_kind :: "site_kind \<Rightarrow> int"

definition gen_state0 :: gen_state where
  "gen_state0 = \<lparr>out_text = [], entries = [], next_global = 0, per_kind = (\<lambda>_. 0)\<rparr>"

definition take_id :: "site_kind \<Rightarrow> (gen_state, int \<times> int) act" where
  "take_id k s =
     (let gid = next_global s; idx = per_kind s k in
      (Inr (gid, idx), s\<lparr>next_global := gid + 1, per_kind := (per_kind s)(k := idx + 1)\<rparr>))"

definition add_entry :: "site \<Rightarrow> (gen_state, unit) act" where
  "add_entry e = modify (\<lambda>s. s\<lparr>entries := entries s @ [e]\<rparr>)"

definition key_of :: "(string \<rightharpoonup> int) \<Rightarrow> string \<Rightarrow> (gen_state, int) act" where
  "key_of m k = (case m k of Some v \<Rightarrow> ret v | None \<Rightarrow> raise (Exn KeyError [] [AS k]))"

text \<open>Each operation returns the global id; the callers drop the index of the kind.\<close>

definition data_site :: "string \<Rightarrow> int \<Rightarrow> string \<Rightarrow> string \<Rightarrow> (gen_state, int) act" where
  "data_site obj rw func note_text =
     bnd (take_id KIND_DATA) (\<lambda>(gid, idx).
     bnd (key_of OBJ obj) (\<lambda>obj_id.
     andthen (add_entry ((blank_site gid KIND_DATA idx ''actst'' func note_text ''mem'')
                \<lparr>s_obj := Some obj, s_obj_id := obj_id, s_rw := Some (if rw \<noteq> 0 then ''w'' else ''r''),
                 s_rw_id := rw, s_size_log := 2\<rparr>))
       (ret gid)))"

definition sync_site :: "string \<Rightarrow> int \<Rightarrow> string \<Rightarrow> string \<Rightarrow> (gen_state, int) act" where
  "sync_site op lock_id func note_text =
     bnd (take_id KIND_SYNC) (\<lambda>(gid, idx).
     bnd (key_of SYNC_OP op) (\<lambda>op_id.
     andthen (add_entry ((blank_site gid KIND_SYNC idx ''actst'' func note_text
                   (if op \<noteq> ''acq_ok'' then ''mem'' else ''nop''))
                \<lparr>s_op := op, s_op_id := op_id, s_lock := Some lock_id, s_lock_id := lock_id\<rparr>))
       (ret gid)))"

definition marker_site :: "string \<Rightarrow> string \<Rightarrow> string \<Rightarrow> (gen_state, int) act" where
  "marker_site mid func note_text =
     bnd (take_id KIND_MARKER) (\<lambda>(gid, idx).
     bnd (key_of MARK_ID mid) (\<lambda>mark_id.
     andthen (add_entry ((blank_site gid KIND_MARKER idx ''actst'' func note_text ''nop'')
                \<lparr>s_mark := Some mid, s_mark_id := mark_id\<rparr>))
       (ret gid)))"

definition actcap_site :: "string \<Rightarrow> string \<Rightarrow> (gen_state, int) act" where
  "actcap_site func note_text =
     bnd (take_id KIND_VALUE) (\<lambda>(gid, idx).
     andthen (add_entry (blank_site gid KIND_VALUE idx ''actcap'' func note_text ''mem'')) (ret gid))"

section \<open>Code emission\<close>

definition emit :: "string \<Rightarrow> (gen_state, unit) act" where
  "emit t = modify (\<lambda>s. s\<lparr>out_text := out_text s @ t\<rparr>)"

definition HEADER :: string where
  "HEADER =
     unlines
      [''/* SPDX-FileCopyrightText: 2026 Accemic Technologies GmbH'',
       '' * SPDX-License-Identifier: ISC'',
       '' *'',
       '' * GENERATED by gen_program.py -- do not edit by hand.'',
       '' * Regenerate with:  py gen_program.py'',
       '' *'',
       '' * Every function below has EXACTLY ten instrumented sites, so 100 functions'',
       '' * fill 1000 of the encoder's 1023 watchpoint slots. Two shapes:'',
       '' *'',
       '' *   account  takes a lock (or does not, depending on the mode) and does a'',
       '' *            read-modify-write on the shared account -- this is where the'',
       '' *            races live'',
       '' *   ring     single-producer/single-consumer queue traffic -- correct by'',
       '' *            construction, and therefore the CONTRAST: a detector that'',
       '' *            reports a race here is wrong'',
       '' *'',
       '' * The mode is read from shared memory at run time, so ONE binary and ONE'',
       '' * watchpoint table serve all five scenarios. That is what makes comparing'',
       '' * them honest: nothing else changed between the runs.'',
       '' */'',
       '''',
       ''#include \"rv_shared.h\"'',
       ''#include \"rv_tags.h\"'',
       ''#include \"rv_site.h\"'',
       ''#include \"rv_funcs.h\"'',
       '''',
       ''#define SH RV_SHARED'']"

definition LOCK_HELPERS :: string where
  "LOCK_HELPERS =
     unlines
      ['''',
       ''/* Peterson's algorithm, inlined per call site so every transaction gets its'',
       '' * OWN acquire/release program counters -- a shared out-of-line lock function'',
       '' * would give all 100 transactions the same three addresses, and the analysis'',
       '' * could no longer say WHICH transaction took the lock.'',
       '' *'',
       '' * The spin loop itself is deliberately NOT instrumented (see rv_site.h): it'',
       '' * hits the same two addresses as fast as the core can issue, and under'',
       '' * contention it would drown every other event in the stream.'',
       '' */'',
       ''#define RV_ACQUIRE(lk, me, other, s_try, s_ok)                              '' @ [BACKSLASH],
       [HT] @ ''do {                                                                    '' @ [BACKSLASH],
       [HT] @ [HT] @ ''RV_ST(&SH->lock[lk].flag[me], 1u, s_try);                           '' @ [BACKSLASH],
       [HT] @ [HT] @ ''SH->lock[lk].turn = (other);                                        '' @ [BACKSLASH],
       [HT] @ [HT] @ ''while (SH->lock[lk].flag[other] && SH->lock[lk].turn == (other)) {   '' @ [BACKSLASH],
       [HT] @ [HT] @ [HT] @ ''/* uninstrumented on purpose */                                 '' @ [BACKSLASH],
       [HT] @ [HT] @ ''}                                                                   '' @ [BACKSLASH],
       [HT] @ [HT] @ ''RV_MARK(s_ok);                                                      '' @ [BACKSLASH],
       [HT] @ [HT] @ ''/* Runtime truth through ACT-CAP: the lock id the program is        '' @ [BACKSLASH],
       [HT] @ [HT] @ '' * ACTUALLY using, computed at run time. The ACT-ST tag of this     '' @ [BACKSLASH],
       [HT] @ [HT] @ '' * same event was fixed when the table was loaded and cannot know   '' @ [BACKSLASH],
       [HT] @ [HT] @ '' * a lock the mode chose at run time -- which is exactly the        '' @ [BACKSLASH],
       [HT] @ [HT] @ '' * wrong-lock scenario. The monitors prefer runtime sync events     '' @ [BACKSLASH],
       [HT] @ [HT] @ '' * whenever any are present in the stream. */                       '' @ [BACKSLASH],
       [HT] @ [HT] @ ''RV_ACTCAP(RV_ACT_CMD_DAQ_PC_CURR, RV_ACT_SINK_AXIS,                 '' @ [BACKSLASH],
       [HT] @ [HT] @ ''          RV_TAG_SYNC(1u, RV_SYNC_ACQ_OK, (lk), (s_ok)));           '' @ [BACKSLASH],
       [HT] @ ''} while (0)'',
       '''',
       ''#define RV_RELEASE(lk, me, s_rel)                                           '' @ [BACKSLASH],
       [HT] @ ''do {                                                                    '' @ [BACKSLASH],
       [HT] @ [HT] @ ''RV_ST(&SH->lock[lk].flag[me], 0u, s_rel);                           '' @ [BACKSLASH],
       [HT] @ [HT] @ ''RV_ACTCAP(RV_ACT_CMD_DAQ_PC_CURR, RV_ACT_SINK_AXIS,                 '' @ [BACKSLASH],
       [HT] @ [HT] @ ''          RV_TAG_SYNC(1u, RV_SYNC_RELEASE, (lk), (s_rel)));         '' @ [BACKSLASH],
       [HT] @ ''} while (0)'']"

definition ACCOUNT_C :: string where
  "ACCOUNT_C =
     unlines
      ['''',
       ''void %s(void)'',
       ''{'',
       [HT] @ ''unsigned v, c, lk;'',
       [HT] @ ''unsigned use_lock = (SH->mode != RV_MODE_RACE_OPEN);'',
       [HT] @ ''/* RV_MODE_RACE_WRONG_LOCK: each core takes a DIFFERENT lock, so both'',
       [HT] @ '' * believe they are protected and neither excludes the other. */'',
       [HT] @ ''lk = (SH->mode == RV_MODE_RACE_WRONG_LOCK) ? %du : 0u;'',
       '''',
       [HT] @ ''RV_MARK(%d);'',
       [HT] @ ''if (use_lock) {'',
       [HT] @ [HT] @ ''RV_ACQUIRE(lk, %du, %du, %d, %d);'',
       [HT] @ ''}'',
       [HT] @ ''RV_LD(v, &SH->balance, %d);'',
       [HT] @ ''v += %du;'',
       [HT] @ ''RV_ST(&SH->balance, v, %d);'',
       [HT] @ ''RV_LD(c, &SH->count, %d);'',
       [HT] @ ''RV_ST(&SH->count, c + 1u, %d);'',
       [HT] @ ''RV_ST(&SH->checksum, (c ^ v) + %du, %d);'',
       [HT] @ ''if (use_lock) {'',
       [HT] @ [HT] @ ''RV_RELEASE(lk, %du, %d);'',
       [HT] @ ''}'',
       [HT] @ ''RV_MARK(%d);'',
       [HT] @ ''rv_local_sum += %du;'',
       ''}'']"

definition emit_account :: "int \<Rightarrow> int \<Rightarrow> (gen_state, string) act" where
  "emit_account core fidx =
     (let nm = sprintf ''rv_t%03d'' [AI fidx]; me = core; other = 1 - core; delta = 1 + fidx mod 7 in
      bnd (marker_site ''enter'' nm ''transaction entry'') (\<lambda>s_enter.
      bnd (sync_site ''acq_try'' 0 nm ''Peterson: announce intent'') (\<lambda>s_try.
      bnd (sync_site ''acq_ok'' 0 nm ''Peterson: critical section entered'') (\<lambda>s_ok.
      bnd (data_site ''balance'' RW_READ nm ''read-modify-write, read half'') (\<lambda>s_rdb.
      bnd (data_site ''balance'' RW_WRITE nm ''read-modify-write, write half'') (\<lambda>s_wrb.
      bnd (data_site ''count'' RW_READ nm ''transaction counter, read'') (\<lambda>s_rdc.
      bnd (data_site ''count'' RW_WRITE nm ''transaction counter, write'') (\<lambda>s_wrc.
      bnd (data_site ''checksum'' RW_WRITE nm ''checksum update'') (\<lambda>s_chk.
      bnd (sync_site ''release'' 0 nm ''Peterson: leave critical section'') (\<lambda>s_rel.
      bnd (marker_site ''leave'' nm ''transaction exit'') (\<lambda>s_leave.
      andthen (emit (sprintf ACCOUNT_C
        [AS nm, AI core, AI s_enter, AI me, AI other, AI s_try, AI s_ok, AI s_rdb, AI delta, AI s_wrb,
         AI s_rdc, AI s_wrc, AI fidx, AI s_chk, AI me, AI s_rel, AI s_leave, AI delta]))
        (ret nm)))))))))))) "

definition RING_PRODUCER_C :: string where
  "RING_PRODUCER_C =
     unlines
      [[HT] @ ''RV_LD(h, &SH->ring_head, %d);'',
       [HT] @ ''RV_LD(t, &SH->ring_tail, %d);'',
       [HT] @ ''RV_MARK(%d);'',
       [HT] @ ''if (((h + 1u) %% RV_RING_SLOTS) != t) {'',
       [HT] @ [HT] @ ''RV_ST(&SH->ring[h %% RV_RING_SLOTS], h + %du, %d);'',
       [HT] @ [HT] @ ''RV_ST(&SH->ring_head, (h + 1u) %% RV_RING_SLOTS, %d);'',
       [HT] @ ''} else {'',
       [HT] @ [HT] @ ''SH->ring_drops++;'',
       [HT] @ ''}'']"

definition RING_CONSUMER_C :: string where
  "RING_CONSUMER_C =
     unlines
      [[HT] @ ''RV_LD(h, &SH->ring_head, %d);'',
       [HT] @ ''RV_LD(t, &SH->ring_tail, %d);'',
       [HT] @ ''RV_MARK(%d);'',
       [HT] @ ''if (h != t) {'',
       [HT] @ [HT] @ ''RV_LD(v, &SH->ring[t %% RV_RING_SLOTS], %d);'',
       [HT] @ [HT] @ ''rv_local_sum += v;'',
       [HT] @ [HT] @ ''RV_ST(&SH->ring_tail, (t + 1u) %% RV_RING_SLOTS, %d);'',
       [HT] @ ''}'']"

definition RING_C :: string where
  "RING_C =
     unlines
      ['''',
       ''void %s(void)'',
       ''{'',
       [HT] @ ''%s'',
       '''',
       [HT] @ ''RV_MARK(%d);'',
       ''%s'' @ [HT] @ ''RV_LD(p, &rv_private, %d);'',
       [HT] @ ''RV_ST(&rv_private, p + 1u, %d);'',
       [HT] @ ''RV_ST(&SH->seq, p, %d);'',
       [HT] @ ''RV_MARK(%d);'',
       ''}'']"

definition emit_ring :: "int \<Rightarrow> int \<Rightarrow> (gen_state, string) act" where
  "emit_ring core fidx =
     (let nm = sprintf ''rv_t%03d'' [AI fidx] in
      bnd (marker_site ''enter'' nm ''transaction entry'') (\<lambda>s_enter.
      bnd (data_site ''ring_head'' RW_READ nm ''producer head / consumer view'') (\<lambda>s_rdh.
      bnd (data_site ''ring_tail'' RW_READ nm ''consumer tail / producer view'') (\<lambda>s_rdt.
      bnd (data_site ''ring_slot'' (if core = 0 then RW_WRITE else RW_READ) nm ''slot payload'') (\<lambda>s_slot.
      bnd (data_site (if core = 0 then ''ring_head'' else ''ring_tail'') RW_WRITE nm ''own index advance'') (\<lambda>s_upd.
      bnd (data_site ''private'' RW_READ nm ''core-local scratch'') (\<lambda>s_rdp.
      bnd (data_site ''private'' RW_WRITE nm ''core-local scratch'') (\<lambda>s_wrp.
      bnd (marker_site ''phase'' nm ''ring phase marker'') (\<lambda>s_phase.
      bnd (data_site ''seq'' RW_WRITE nm ''sequence stamp'') (\<lambda>s_seq.
      bnd (marker_site ''leave'' nm ''transaction exit'') (\<lambda>s_leave.
      (let body = (if core = 0
             then sprintf RING_PRODUCER_C [AI s_rdh, AI s_rdt, AI s_phase, AI fidx, AI s_slot, AI s_upd]
             else sprintf RING_CONSUMER_C [AI s_rdh, AI s_rdt, AI s_phase, AI s_slot, AI s_upd]);
           decls = (if core = 1 then ''unsigned h, t, v, p;'' else ''unsigned h, t, p;'')
       in andthen (emit (sprintf RING_C
            [AS nm, AS decls, AI s_enter, AS body, AI s_rdp, AI s_wrp, AI s_seq, AI s_leave]))
            (ret nm)))))))))))))"

definition LOCKORDER_C :: string where
  "LOCKORDER_C =
     unlines
      ['''',
       ''/* Lock-order scenario: the two cores take locks %d and %d in OPPOSITE order.'',
       '' * No deadlock is provoked -- the point is that the order graph is cyclic,'',
       '' * which a monitor can see in a run that happened to go well. The runtime'',
       '' * (ACT-CAP) sync tags are emitted alongside the static ones, so this'',
       '' * scenario stays visible under the monitors' runtime-preference rule. */'',
       ''void rv_lock_order(void)'',
       ''{'',
       [HT] @ ''RV_ST(&SH->lock[%du].flag[%du], 1u, %d);'',
       [HT] @ ''RV_ACTCAP(RV_ACT_CMD_DAQ_PC_CURR, RV_ACT_SINK_AXIS,'',
       [HT] @ ''          RV_TAG_SYNC(1u, RV_SYNC_ACQ_OK, %du, 0u));'',
       [HT] @ ''RV_ST(&SH->lock[%du].flag[%du], 1u, %d);'',
       [HT] @ ''RV_ACTCAP(RV_ACT_CMD_DAQ_PC_CURR, RV_ACT_SINK_AXIS,'',
       [HT] @ ''          RV_TAG_SYNC(1u, RV_SYNC_ACQ_OK, %du, 0u));'',
       [HT] @ ''RV_ST(&SH->lock[%du].flag[%du], 0u, %d);'',
       [HT] @ ''RV_ACTCAP(RV_ACT_CMD_DAQ_PC_CURR, RV_ACT_SINK_AXIS,'',
       [HT] @ ''          RV_TAG_SYNC(1u, RV_SYNC_RELEASE, %du, 0u));'',
       [HT] @ ''RV_ST(&SH->lock[%du].flag[%du], 0u, %d);'',
       [HT] @ ''RV_ACTCAP(RV_ACT_CMD_DAQ_PC_CURR, RV_ACT_SINK_AXIS,'',
       [HT] @ ''          RV_TAG_SYNC(1u, RV_SYNC_RELEASE, %du, 0u));'',
       ''}'']"

definition emit_lockorder :: "int \<Rightarrow> (gen_state, unit) act" where
  "emit_lockorder core =
     (let nm = ''rv_lock_order''; a = (if core = 0 then 2 else 3); b = (if core = 0 then 3 else 2) in
      bnd (sync_site ''acq_ok'' a nm ''outer lock, taken'') (\<lambda>s_a_try.
      bnd (sync_site ''acq_ok'' b nm ''inner lock, taken'') (\<lambda>s_b_try.
      bnd (sync_site ''release'' b nm ''inner lock, release'') (\<lambda>s_b_rel.
      bnd (sync_site ''release'' a nm ''outer lock, release'') (\<lambda>s_a_rel.
      emit (sprintf LOCKORDER_C
        [AI a, AI b, AI a, AI core, AI s_a_try, AI a, AI b, AI core, AI s_b_try, AI b,
         AI b, AI core, AI s_b_rel, AI b, AI a, AI core, AI s_a_rel, AI a]))))))"

definition ACTCAP_C :: string where
  "ACTCAP_C =
     unlines
      ['''',
       ''void %s_cap(void)'',
       ''{'',
       [HT] @ ''unsigned w;'',
       [HT] @ ''/* The tag is COMPUTED here -- an ACT-ST trigger could only ever carry'',
       [HT] @ '' * the constant its table entry was loaded with. */'',
       [HT] @ ''w = RV_ACT_WORD(RV_ACT_CMD_DAQ_PC_CURR, RV_ACT_SINK_AXIS,'',
       [HT] @ ''                RV_TAG_VALUE(SH->ring_head & RV_VALUE_MASK));'',
       [HT] @ ''RV_ACTCAP_AT(%d, w);'',
       [HT] @ ''w = RV_ACT_WORD(RV_ACT_CMD_DAQ_PC_CURR, RV_ACT_SINK_AXIS,'',
       [HT] @ ''                RV_TAG_VALUE(SH->balance & RV_VALUE_MASK));'',
       [HT] @ ''RV_ACTCAP_AT(%d, w);'',
       [HT] @ ''rv_actcap_issued += 2u;'',
       ''}'']"

definition emit_actcap_block :: "string \<Rightarrow> (gen_state, string) act" where
  "emit_actcap_block nm =
     bnd (actcap_site nm ''ring index at run time'') (\<lambda>s_idx.
     bnd (actcap_site nm ''account value at run time'') (\<lambda>s_val.
     andthen (emit (sprintf ACTCAP_C [AS nm, AI s_idx, AI s_val])) (ret (nm @ ''_cap''))))"

section \<open>A program\<close>

text \<open>
  One round of the loop over the functions; the result is the names so far, those of the
  transactions and those of the ACT-CAP blocks. \<open>i % actcap_every\<close> raises for a zero.
\<close>

definition emit_func :: "int \<Rightarrow> int \<Rightarrow> int \<Rightarrow> int \<Rightarrow> string list \<times> string list \<Rightarrow> (gen_state, string list \<times> string list) act" where
  "emit_func core ring_share actcap_every i = (\<lambda>(names, cap_names).
     bnd (if i mod 10 < ring_share then emit_ring core i else emit_account core i) (\<lambda>nm.
     if actcap_every = 0 then raise (Exn ZeroDivisionError ''integer modulo by zero'' [])
     else if i mod actcap_every = 0
     then bnd (emit_actcap_block nm) (\<lambda>cap. ret (names @ [nm], cap_names @ [cap]))
     else ret (names @ [nm], cap_names)))"

fun emit_funcs :: "int \<Rightarrow> int \<Rightarrow> int \<Rightarrow> int list \<Rightarrow> string list \<times> string list \<Rightarrow> (gen_state, string list \<times> string list) act" where
  "emit_funcs core ring_share actcap_every [] acc = ret acc"
| "emit_funcs core ring_share actcap_every (i # is) acc =
     bnd (emit_func core ring_share actcap_every i acc) (emit_funcs core ring_share actcap_every is)"

definition emit_table :: "string list \<Rightarrow> (gen_state, unit) act" where
  "emit_table names = for_each names (\<lambda>n. emit ([HT] @ sprintf ''%s,'' [AS n] @ [NL]))"

definition TABLE_INTRO :: string where
  "TABLE_INTRO = [NL] @
     unlines [''/* Dispatch table -- the transactions are reached through an'',
              '' * INDIRECT call, which is what makes RV_MODE_CFI_SKIP a real'',
              '' * forward-edge CFI violation rather than a mislabelled branch. */'']"

definition emit_program :: "int \<Rightarrow> int \<Rightarrow> int \<Rightarrow> int \<Rightarrow> (gen_state, string list \<times> string list) act" where
  "emit_program core n_funcs ring_share actcap_every =
     andthen (emit HEADER) (andthen (emit LOCK_HELPERS)
     (andthen (emit (unlines [[], ''unsigned rv_local_sum;'', ''unsigned rv_private;'', ''unsigned rv_actcap_issued;'']))
     (bnd (emit_funcs core ring_share actcap_every [0..n_funcs - 1] ([], [])) (\<lambda>(names, cap_names).
      andthen (emit_lockorder core)
      (andthen (emit TABLE_INTRO)
      (andthen (emit (unlines [''rv_fn_t const rv_table[RV_N_FUNCS] = {'']))
      (andthen (emit_table names)
      (andthen (emit (unlines [''};'']))
      (andthen (emit (unlines [[], ''rv_fn_t const rv_cap_table[RV_N_CAP] = {'']))
      (andthen (emit_table cap_names)
      (andthen (emit (unlines [''};'']))
      (ret (names, cap_names)))))))))))))"

record site_meta =
  m_core :: int
  m_n_funcs :: int
  m_n_actst :: nat
  m_n_actcap :: nat
  m_sites :: "site list"

definition generate :: "int \<Rightarrow> int \<Rightarrow> int \<Rightarrow> int \<Rightarrow> exn + site_meta \<times> string list \<times> string list \<times> string" where
  "generate core n_funcs ring_share actcap_every =
     (case emit_program core n_funcs ring_share actcap_every gen_state0 of
        (Inl e, s) \<Rightarrow> Inl e
      | (Inr (names, cap_names), s) \<Rightarrow>
          Inr (\<lparr>m_core = core, m_n_funcs = n_funcs,
                m_n_actst = length (filter (\<lambda>e. s_src e = ''actst'') (entries s)),
                m_n_actcap = length (filter (\<lambda>e. s_src e = ''actcap'') (entries s)),
                m_sites = entries s\<rparr>, names, cap_names, out_text s))"

definition FUNCS_H :: string where
  "FUNCS_H =
     unlines
      ['''']"

datatype gen_verdict = Gen_Ok nat nat | Wrong_Site_Count int nat | Too_Many_Sites nat

text \<open>\<open>main\<close>: the two programs, the header and the verdict of the site budget.\<close>

definition gen_main :: "int \<Rightarrow> int \<Rightarrow> int \<Rightarrow> exn + (site_meta \<times> string) list \<times> string \<times> gen_verdict" where
  "gen_main funcs ring_share actcap_every =
     (case generate 0 funcs ring_share actcap_every of
        Inl e \<Rightarrow> Inl e
      | Inr (meta0, names0, caps0, text0) \<Rightarrow>
          (case generate 1 funcs ring_share actcap_every of
             Inl e \<Rightarrow> Inl e
           | Inr (meta1, names1, caps1, text1) \<Rightarrow>
               if actcap_every = 0 then Inl (Exn ZeroDivisionError ''integer division or modulo by zero'' [])
               else
                 (let header = sprintf FUNCS_H [AI funcs, AI ((funcs + actcap_every - 1) div actcap_every)];
                      n_st = m_n_actst meta0; expect = funcs * 10 + 4
                  in Inr ([(meta0, text0), (meta1, text1)], header,
                       if int n_st \<noteq> expect then Wrong_Site_Count expect n_st
                       else if n_st > 1023 then Too_Many_Sites n_st
                       else Gen_Ok n_st (m_n_actcap meta0)))))"

section \<open>What the book promises\<close>

definition kind_count :: "site_kind \<Rightarrow> site list \<Rightarrow> nat" where
  "kind_count k es = length (filter (\<lambda>e. s_kind e = k) es)"

definition src_count :: "string \<Rightarrow> site list \<Rightarrow> nat" where
  "src_count src es = length (filter (\<lambda>e. s_src e = src) es)"

text \<open>Every field of a row fits the field of the tag it goes to, its running index apart.\<close>

definition fields_fit :: "site \<Rightarrow> bool" where
  "fields_fit e \<longleftrightarrow> s_obj_id e \<in> {0..<128} \<and> s_rw_id e \<in> {0, 1} \<and> s_size_log e \<in> {0..<16} \<and>
     s_op_id e \<in> {0..<4} \<and> s_lock_id e \<in> {0..<256} \<and> s_mark_id e \<in> {0..<1024}"

definition row_ok :: "site list \<Rightarrow> nat \<Rightarrow> bool" where
  "row_ok es j \<longleftrightarrow> s_id (es ! j) = int j \<and>
     s_kind_idx (es ! j) = int (kind_count (s_kind (es ! j)) (take j es)) \<and>
     s_src (es ! j) = (if s_kind (es ! j) = KIND_VALUE then ''actcap'' else ''actst'') \<and>
     fields_fit (es ! j)"

definition book_ok :: "gen_state \<Rightarrow> bool" where
  "book_ok s \<longleftrightarrow> next_global s = int (length (entries s)) \<and>
     (\<forall>k. per_kind s k = int (kind_count k (entries s))) \<and>
     (\<forall>j < length (entries s). row_ok (entries s) j)"

text \<open>
  \<open>adds m a c d\<close>: run on a consistent book, \<open>m\<close> returns, keeps the book consistent and adds \<open>a\<close>
  hardware and \<open>c\<close> software sites, \<open>d\<close> of them data accesses.
\<close>

definition adds :: "(gen_state, 'a) act \<Rightarrow> nat \<Rightarrow> nat \<Rightarrow> nat \<Rightarrow> bool" where
  "adds m a c d \<longleftrightarrow> (\<forall>s. book_ok s \<longrightarrow> (\<exists>r t. m s = (Inr r, t) \<and> book_ok t \<and>
     src_count ''actst'' (entries t) = src_count ''actst'' (entries s) + a \<and>
     src_count ''actcap'' (entries t) = src_count ''actcap'' (entries s) + c \<and>
     kind_count KIND_DATA (entries t) = kind_count KIND_DATA (entries s) + d))"

named_theorems adds_intros \<open>what each emission adds to the book\<close>

lemma adds_cong: "adds m a c d \<Longrightarrow> a = a' \<Longrightarrow> c = c' \<Longrightarrow> d = d' \<Longrightarrow> adds m a' c' d'"
  by simp

lemma row_ok_old: "j < length es \<Longrightarrow> row_ok (es @ [e]) j = row_ok es j"
  by (simp add: row_ok_def nth_append)

definition add_row :: "site \<Rightarrow> gen_state \<Rightarrow> gen_state" where
  "add_row e s = s\<lparr>entries := entries s @ [e], next_global := next_global s + 1,
     per_kind := (per_kind s)(s_kind e := per_kind s (s_kind e) + 1)\<rparr>"

definition fresh_row :: "site \<Rightarrow> gen_state \<Rightarrow> bool" where
  "fresh_row e s \<longleftrightarrow> s_src e = (if s_kind e = KIND_VALUE then ''actcap'' else ''actst'') \<and> fields_fit e \<and>
     s_id e = next_global s \<and> s_kind_idx e = per_kind s (s_kind e)"

lemma book_ok_row: "book_ok s \<Longrightarrow> fresh_row e s \<Longrightarrow> book_ok (add_row e s)"
  by (auto simp: book_ok_def kind_count_def less_Suc_eq row_ok_old add_row_def fresh_row_def)
     (simp_all add: row_ok_def kind_count_def)

lemma adds_row:
  assumes "\<And>s. m s = (Inr (next_global s), add_row (e s) s)" "\<And>s. fresh_row (e s) s"
  shows "\<forall>s. s_kind (e s) = k \<Longrightarrow>
    adds m (if k = KIND_VALUE then 0 else Suc 0) (if k = KIND_VALUE then Suc 0 else 0) (if k = KIND_DATA then Suc 0 else 0)"
proof -
  have ok: "book_ok s \<Longrightarrow> book_ok (add_row (e s) s)" for s
    using book_ok_row assms(2) by blast
  have src: "s_src (e s) = (if s_kind (e s) = KIND_VALUE then ''actcap'' else ''actst'')" for s
    using assms(2)[of s] by (simp add: fresh_row_def)
  assume k: "\<forall>s. s_kind (e s) = k"
  show "adds m (if k = KIND_VALUE then 0 else Suc 0) (if k = KIND_VALUE then Suc 0 else 0) (if k = KIND_DATA then Suc 0 else 0)"
    using ok src k by (simp add: adds_def assms(1) src_count_def kind_count_def add_row_def)
qed

lemmas site_ops = take_id_def add_entry_def key_of_def andthen_def bnd_def blank_site_def Let_def add_row_def

lemma data_adds: "OBJ obj = Some v \<Longrightarrow> v \<in> {0..<128} \<Longrightarrow> rw \<in> {0, 1} \<Longrightarrow> adds (data_site obj rw f n) (Suc 0) 0 (Suc 0)"
  by (rule adds_cong[OF adds_row[where k = KIND_DATA and e = "\<lambda>s. (blank_site (next_global s) KIND_DATA (per_kind s KIND_DATA) ''actst'' f n ''mem'')
        \<lparr>s_obj := Some obj, s_obj_id := v, s_rw := Some (if rw \<noteq> 0 then ''w'' else ''r''), s_rw_id := rw, s_size_log := 2\<rparr>"]])
     (simp_all add: data_site_def site_ops fresh_row_def fields_fit_def)

lemma sync_adds: "SYNC_OP op = Some v \<Longrightarrow> v \<in> {0..<4} \<Longrightarrow> l \<in> {0..<256} \<Longrightarrow> adds (sync_site op l f n) (Suc 0) 0 0"
  by (rule adds_cong[OF adds_row[where k = KIND_SYNC and e = "\<lambda>s. (blank_site (next_global s) KIND_SYNC (per_kind s KIND_SYNC) ''actst'' f n
           (if op \<noteq> ''acq_ok'' then ''mem'' else ''nop''))
        \<lparr>s_op := op, s_op_id := v, s_lock := Some l, s_lock_id := l\<rparr>"]])
     (simp_all add: sync_site_def site_ops fresh_row_def fields_fit_def)

lemma marker_adds: "MARK_ID mid = Some v \<Longrightarrow> v \<in> {0..<1024} \<Longrightarrow> adds (marker_site mid f n) (Suc 0) 0 0"
  by (rule adds_cong[OF adds_row[where k = KIND_MARKER and e = "\<lambda>s. (blank_site (next_global s) KIND_MARKER (per_kind s KIND_MARKER) ''actst'' f n ''nop'')
        \<lparr>s_mark := Some mid, s_mark_id := v\<rparr>"]])
     (simp_all add: marker_site_def site_ops fresh_row_def fields_fit_def)

lemma actcap_adds [adds_intros]: "adds (actcap_site f n) 0 (Suc 0) 0"
  by (rule adds_cong[OF adds_row[where k = KIND_VALUE and e = "\<lambda>s. blank_site (next_global s) KIND_VALUE (per_kind s KIND_VALUE) ''actcap'' f n ''mem''"]])
     (simp_all add: actcap_site_def site_ops fresh_row_def fields_fit_def)

lemma data_adds_known [adds_intros]:
  "obj \<in> set [''balance'', ''count'', ''checksum'', ''seq'', ''ring_head'', ''ring_tail'', ''ring_slot'', ''private''] \<Longrightarrow>
     rw \<in> {RW_READ, RW_WRITE} \<Longrightarrow> adds (data_site obj rw f n) (Suc 0) 0 (Suc 0)"
  by (auto simp: OBJ_def RW_READ_def RW_WRITE_def intro!: data_adds)

lemma sync_adds_known [adds_intros]:
  "op \<in> set [''acq_try'', ''acq_ok'', ''release''] \<Longrightarrow> l \<in> {0, 2, 3} \<Longrightarrow> adds (sync_site op l f n) (Suc 0) 0 0"
  by (auto simp: SYNC_OP_def intro!: sync_adds)

lemma marker_adds_known [adds_intros]:
  "mid \<in> set [''enter'', ''leave'', ''phase''] \<Longrightarrow> adds (marker_site mid f n) (Suc 0) 0 0"
  by (rule marker_adds[where v = "the (MARK_ID mid)"]) (auto simp: MARK_ID_def)

lemma adds_emit [adds_intros]: "adds (emit t) 0 0 0"
  by (simp add: adds_def emit_def book_ok_def row_ok_def)

lemma adds_ret [adds_intros]: "adds (ret x) 0 0 0"
  by (simp add: adds_def)

lemma adds_bnd [adds_intros]: "adds m a c d \<Longrightarrow> (\<And>x. adds (f x) a' c' d') \<Longrightarrow> adds (bnd m f) (a + a') (c + c') (d + d')"
  unfolding adds_def bnd_def by (fastforce simp: add.assoc)

lemma adds_andthen [adds_intros]: "adds m a c d \<Longrightarrow> adds n a' c' d' \<Longrightarrow> adds (andthen m n) (a + a') (c + c') (d + d')"
  unfolding andthen_def by (rule adds_bnd)

lemma emit_account_adds [adds_intros]: "adds (emit_account core fidx) 10 0 5"
  unfolding emit_account_def Let_def by (rule adds_cong, (rule adds_intros | simp)+)

lemma emit_ring_adds [adds_intros]: "adds (emit_ring core fidx) 10 0 7"
  unfolding emit_ring_def Let_def by (rule adds_cong, (rule adds_intros | simp)+)

lemma emit_lockorder_adds [adds_intros]: "adds (emit_lockorder core) 4 0 0"
  unfolding emit_lockorder_def Let_def by (rule adds_cong, (rule adds_intros | simp)+)

lemma emit_actcap_adds [adds_intros]: "adds (emit_actcap_block nm) 0 2 0"
  unfolding emit_actcap_block_def by (rule adds_cong, (rule adds_intros | simp)+)

section \<open>The program and its tables\<close>

definition func_name :: "int \<Rightarrow> string" where
  "func_name i = sprintf ''rv_t%03d'' [AI i]"

definition cap_rounds :: "int \<Rightarrow> int list \<Rightarrow> int list" where
  "cap_rounds every is = filter (\<lambda>i. i mod every = 0) is"

definition data_sites :: "int \<Rightarrow> int \<Rightarrow> nat" where
  "data_sites share i = (if i mod 10 < share then 7 else 5)"

lemma emit_func_adds:
  "every \<noteq> 0 \<Longrightarrow> adds (emit_func core share every i acc) 10 (if i mod every = 0 then 2 else 0) (data_sites share i)"
  unfolding emit_func_def data_sites_def
  by (cases acc) (auto intro!: adds_cong[OF adds_bnd] adds_intros)

lemma emit_funcs_adds:
  "every \<noteq> 0 \<Longrightarrow> adds (emit_funcs core share every is acc) (10 * length is) (2 * length (cap_rounds every is))
     (sum_list (map (data_sites share) is))"
  by (induction "is" arbitrary: acc)
     (auto simp: cap_rounds_def adds_ret intro!: adds_cong[OF adds_bnd[OF emit_func_adds]])

lemma bnd_result: "bnd m f s = (Inr y, u) \<Longrightarrow> (\<And>x t. f x t = (Inr y, u) \<Longrightarrow> P) \<Longrightarrow> P"
  by (erule bnd_InrE)

lemma emit_account_name: "emit_account core i s = (Inr nm, t) \<Longrightarrow> nm = func_name i"
  unfolding emit_account_def Let_def andthen_def func_name_def
  by (elim bnd_result) simp

lemma emit_ring_name: "emit_ring core i s = (Inr nm, t) \<Longrightarrow> nm = func_name i"
  unfolding emit_ring_def Let_def andthen_def func_name_def
  by (elim bnd_result) simp

lemma emit_actcap_name: "emit_actcap_block nm s = (Inr c, t) \<Longrightarrow> c = nm @ ''_cap''"
  unfolding emit_actcap_block_def andthen_def by (elim bnd_result) simp

lemma emit_func_names:
  "emit_func core share every i acc s = (Inr acc', t) \<Longrightarrow>
     acc' = (fst acc @ [func_name i], snd acc @ (if i mod every = 0 then [func_name i @ ''_cap''] else []))"
  unfolding emit_func_def
  by (cases acc)
     (auto elim!: bnd_InrE dest!: emit_account_name emit_ring_name emit_actcap_name split: if_splits)

lemma emit_funcs_names:
  "emit_funcs core share every is acc s = (Inr acc', t) \<Longrightarrow>
     acc' = (fst acc @ map func_name is, snd acc @ map (\<lambda>i. func_name i @ ''_cap'') (cap_rounds every is))"
proof (induction "is" arbitrary: acc s)
  case (Cons i "is")
  from Cons.prems obtain acc1 s1 where "emit_func core share every i acc s = (Inr acc1, s1)"
    "emit_funcs core share every is acc1 s1 = (Inr acc', t)" by (auto elim: bnd_InrE)
  from emit_func_names[OF this(1)] Cons.IH[OF this(2)] show ?case by (simp add: cap_rounds_def)
qed (simp add: cap_rounds_def)

lemma emit_table_adds [adds_intros]: "adds (emit_table names) 0 0 0"
  unfolding emit_table_def
proof (induction names)
  case (Cons n names)
  then show ?case using adds_andthen[OF adds_emit] by fastforce
qed (simp only: for_each.simps adds_ret)

lemma emit_program_adds:
  assumes "every \<noteq> 0"
  shows "adds (emit_program core n share every) (10 * nat n + 4) (2 * length (cap_rounds every [0..n - 1]))
    (sum_list (map (data_sites share) [0..n - 1]))"
  unfolding emit_program_def split_beta
  by (rule adds_cong, (rule adds_intros emit_funcs_adds[OF assms] | simp)+)

lemma emit_program_names:
  "emit_program core n share every s = (Inr r, t) \<Longrightarrow>
     r = (map func_name [0..n - 1], map (\<lambda>i. func_name i @ ''_cap'') (cap_rounds every [0..n - 1]))"
  unfolding emit_program_def andthen_def split_beta
  by (elim bnd_InrE, drule emit_funcs_names, simp only: ret_apply prod.inject sum.inject prod.collapse append_Nil fst_conv snd_conv)

lemma cap_rounds_length:
  assumes "0 < every" and "0 \<le> n"
  shows "int (length (cap_rounds every [0..n - 1])) = (n + every - 1) div every"
  using assms(2)
proof (induction n rule: int_ge_induct)
  case base
  with assms(1) show ?case by (simp add: cap_rounds_def)
next
  case (step i)
  have up: "[0..i + 1 - 1] = [0..i - 1] @ [i]" using step(1) upto_rec2[of 0 i] by simp
  have "(i + every) div every = (i + every - 1) div every + (if i mod every = 0 then 1 else 0)"
  proof -
    have i: "i = i div every * every + i mod every" by simp
    have m: "0 \<le> i mod every" "i mod every < every" using assms(1) by simp_all
    show ?thesis
    proof (cases "i mod every = 0")
      case True
      then obtain q where q: "i = q * every" by (metis i add.right_neutral)
      have "(q * every + (every - 1)) div every = q" using assms(1) by (simp add: div_add1_eq)
      moreover have "(q * every + every) div every = q + 1" using assms(1) by simp
      ultimately show ?thesis using True by (simp add: q add_diff_eq)
    next
      case False
      have "i + every - 1 = (i mod every - 1) + (i div every + 1) * every" using i by (simp add: algebra_simps)
      moreover have "(i mod every - 1) div every = 0" using False m by (simp add: div_pos_pos_trivial)
      ultimately have "(i + every - 1) div every = i div every + 1"
        using assms(1) div_mult_self1[of every "i mod every - 1" "i div every + 1"] by (simp only: less_imp_neq[symmetric]) simp
      moreover have "(i + every) div every = i div every + 1" using assms(1) by (simp add: div_add_self2)
      ultimately show ?thesis using False by simp
    qed
  qed
  with step up show ?case by (simp add: cap_rounds_def algebra_simps)
qed

lemma generate_ok:
  assumes "0 \<le> n" and "0 < every"
  shows "\<exists>m tx. generate core n share every =
      Inr (m, map func_name [0..n - 1], map (\<lambda>i. func_name i @ ''_cap'') (cap_rounds every [0..n - 1]), tx) \<and>
    m_core m = core \<and> m_n_funcs m = n \<and>
    m_n_actst m = 10 * nat n + 4 \<and> m_n_actcap m = 2 * length (cap_rounds every [0..n - 1]) \<and>
    kind_count KIND_DATA (m_sites m) = sum_list (map (data_sites share) [0..n - 1]) \<and>
    src_count ''actst'' (m_sites m) = 10 * nat n + 4 \<and>
    (\<forall>j < length (m_sites m). row_ok (m_sites m) j)"
proof -
  let ?m = "emit_program core n share every"
  have start: "book_ok gen_state0" "entries gen_state0 = []"
    by (simp_all add: book_ok_def gen_state0_def kind_count_def)
  have "adds ?m (10 * nat n + 4) (2 * length (cap_rounds every [0..n - 1]))
      (sum_list (map (data_sites share) [0..n - 1]))"
    using assms by (intro emit_program_adds) simp
  then obtain r t where t: "?m gen_state0 = (Inr r, t)" "book_ok t"
      "src_count ''actst'' (entries t) = src_count ''actst'' (entries gen_state0) + (10 * nat n + 4)"
      "src_count ''actcap'' (entries t) = src_count ''actcap'' (entries gen_state0) + 2 * length (cap_rounds every [0..n - 1])"
      "kind_count KIND_DATA (entries t) = kind_count KIND_DATA (entries gen_state0) + sum_list (map (data_sites share) [0..n - 1])"
    using start(1) unfolding adds_def by blast
  show ?thesis
    using t(2,3,4,5) start(2) unfolding generate_def t(1) emit_program_names[OF t(1)]
    by (simp add: src_count_def kind_count_def book_ok_def)
qed

lemma func_name_inj: "0 \<le> i \<Longrightarrow> 0 \<le> j \<Longrightarrow> func_name i = func_name j \<Longrightarrow> i = j"
proof -
  assume i: "0 \<le> i" "0 \<le> j" "func_name i = func_name j"
  have form: "func_name k = ''rv_t'' @ replicate (3 - length (digits_text 10 (nat k))) (CHR ''0'') @ digits_text 10 (nat k)"
    if "0 \<le> k" for k
    using that by (simp add: func_name_def sprintf.simps(2) convert_arg_def int_sign_def int_body_def)
  have "digits_after 10 0 (drop 4 (func_name k)) = Some k" if "0 \<le> k" for k
    unfolding form[OF that] using that zero_prefix_read[of 10 "3 - length (digits_text 10 (nat k))" "nat k"] by simp
  from this[OF i(1)] this[OF i(2)] show "i = j" unfolding i(3) by simp
qed

lemma func_names_distinct: "distinct (map func_name [0..n - 1])"
  by (auto simp: distinct_map inj_on_def dest: func_name_inj)

section \<open>Properties\<close>

text \<open>a generated program is consistent: its manifest numbers the sites in order and indexes them
  per kind, and its dispatch tables have exactly the sizes the header declares.\<close>

lemma program_consistent:
  assumes "0 \<le> n" and "0 < every"
  shows "\<exists>m names caps tx. generate core n share every = Inr (m, names, caps, tx) \<and>
    (\<forall>j < length (m_sites m). row_ok (m_sites m) j) \<and>
    distinct names \<and> int (length names) = n \<and> int (length caps) = (n + every - 1) div every"
proof -
  obtain m tx where m: "generate core n share every =
      Inr (m, map func_name [0..n - 1], map (\<lambda>i. func_name i @ ''_cap'') (cap_rounds every [0..n - 1]), tx)"
    "\<forall>j < length (m_sites m). row_ok (m_sites m) j"
    using generate_ok[OF assms] by blast
  show ?thesis
    by (rule exI)+ (use m func_names_distinct cap_rounds_length[OF assms(2,1)] assms in \<open>auto intro!: conjI\<close>)
qed

lemma program_consistent_witness:
  "\<exists>m names caps tx. generate 1 100 3 4 = Inr (m, names, caps, tx) \<and>
    (\<forall>j < length (m_sites m). row_ok (m_sites m) j) \<and>
    distinct names \<and> int (length names) = 100 \<and> int (length caps) = 25"
  using program_consistent[of 100 4 1 3] by simp

text \<open>the site budget is exact: with \<open>n\<close> functions each core has \<open>10 n + 4\<close> hardware sites and two
  software sites for every ACT-CAP block, whatever the share of ring functions; the count check never
  fails, and the slot check passes exactly for at most 101 functions.\<close>

theorem site_budget_exact:
  assumes "0 \<le> n" and "0 < every"
  shows "\<exists>p0 p1 h. gen_main n share every = Inr ([p0, p1], h,
      if n \<le> 101 then Gen_Ok (nat (10 * n + 4)) (nat (2 * ((n + every - 1) div every)))
      else Too_Many_Sites (nat (10 * n + 4)))
    \<and> m_n_actst (fst p0) = nat (10 * n + 4) \<and> m_n_actst (fst p1) = nat (10 * n + 4)"
proof -
  let ?caps = "cap_rounds every [0..n - 1]"
  obtain m0 t0 where m0: "generate 0 n share every =
      Inr (m0, map func_name [0..n - 1], map (\<lambda>i. func_name i @ ''_cap'') ?caps, t0)"
      "m_n_actst m0 = 10 * nat n + 4" "m_n_actcap m0 = 2 * length ?caps"
    using generate_ok[OF assms] by blast
  obtain m1 t1 where m1: "generate 1 n share every =
      Inr (m1, map func_name [0..n - 1], map (\<lambda>i. func_name i @ ''_cap'') ?caps, t1)"
      "m_n_actst m1 = 10 * nat n + 4"
    using generate_ok[OF assms] by blast
  have "m_n_actcap m0 = nat (2 * ((n + every - 1) div every))"
    using m0(3) cap_rounds_length[OF assms(2,1)] by linarith
  moreover have "10 * nat n + 4 = nat (10 * n + 4)" using assms(1) by simp
  ultimately show ?thesis using assms m0 m1 by (auto simp: gen_main_def Let_def)
qed

lemma site_budget_exact_witness:
  "\<exists>p0 p1 h. gen_main 100 3 4 = Inr ([p0, p1], h, Gen_Ok 1004 50)
    \<and> m_n_actst (fst p0) = 1004 \<and> m_n_actst (fst p1) = 1004"
  using site_budget_exact[of 100 4 3] by simp

end
