(* ===== verification/Rv_Sites.thy ===== *)
theory Rv_Sites
  imports Rv_Program
begin

unbundle bit_operations_syntax

text \<open>
  The watchpoint tables of the instrumented programs, \<open>tgc5b2_rvcfi/sw/gen_sites.py\<close>: the constants
  parsed out of \<open>rv_tags.h\<close>, the 24-bit tag of a site, the command word, the symbol map and the
  full and the hot table with their padding. The manifest is the one \<open>Rv_Program\<close> generates.
\<close>

section \<open>The constants of the header\<close>

text \<open>
  The object-like \<open>#define\<close> lines of \<open>src/rv_tags.h\<close>, in its four sections; the other lines (the
  function-like macros, the comments) cannot match the pattern.
\<close>

definition RV_TAGS_KINDS :: "string list" where
  "RV_TAGS_KINDS =
     [''#define RV_TAGS_H'',
      ''#define RV_TAG_SRC_SHIFT     23          /* 0 = ACT-ST (hardware), 1 = ACT-CAP (software) */'',
      ''#define RV_TAG_KIND_SHIFT    21          /* 2 bits */'',
      ''#define RV_TAG_KIND_MASK     0x3u'',
      ''#define RV_SRC_ACTST         0u'',
      ''#define RV_SRC_ACTCAP        1u'',
      ''#define RV_KIND_DATA         0u'',
      ''#define RV_KIND_SYNC         1u'',
      ''#define RV_KIND_MARKER       2u'',
      ''#define RV_KIND_VALUE        3u          /* runtime payload -- ACT-CAP only */'']"

definition RV_TAGS_FIELDS :: "string list" where
  "RV_TAGS_FIELDS =
     [''#define RV_DATA_RW_SHIFT     20'',
      ''#define RV_DATA_OBJ_SHIFT    13'',
      ''#define RV_DATA_OBJ_MASK     0x7Fu'',
      ''#define RV_DATA_SITE_SHIFT   4'',
      ''#define RV_DATA_SITE_MASK    0x1FFu'',
      ''#define RV_DATA_SIZE_MASK    0xFu'',
      ''#define RV_SYNC_OP_SHIFT     19'',
      ''#define RV_SYNC_OP_MASK      0x3u'',
      ''#define RV_SYNC_LOCK_SHIFT   11'',
      ''#define RV_SYNC_LOCK_MASK    0xFFu'',
      ''#define RV_SYNC_SITE_MASK    0x7FFu'',
      ''#define RV_MARK_ID_SHIFT     11'',
      ''#define RV_MARK_ID_MASK      0x3FFu'',
      ''#define RV_MARK_SITE_MASK    0x7FFu'',
      ''#define RV_VALUE_MASK        0x1FFFFFu'']"

definition RV_TAGS_ENUMS :: "string list" where
  "RV_TAGS_ENUMS =
     [''#define RV_RW_READ           0u'',
      ''#define RV_RW_WRITE          1u'',
      ''#define RV_OBJ_BALANCE       1u'',
      ''#define RV_OBJ_COUNT         2u'',
      ''#define RV_OBJ_CHECKSUM      3u'',
      ''#define RV_OBJ_SEQ           4u'',
      ''#define RV_OBJ_RING_HEAD     5u'',
      ''#define RV_OBJ_RING_TAIL     6u'',
      ''#define RV_OBJ_RING_SLOT     7u'',
      ''#define RV_OBJ_LOCKVAR       8u   /* the lock words themselves */'',
      ''#define RV_OBJ_PRIVATE       9u   /* core-local, never contended */'',
      ''#define RV_SYNC_ACQ_TRY      0u'',
      ''#define RV_SYNC_ACQ_OK       1u'',
      ''#define RV_SYNC_RELEASE      2u'',
      ''#define RV_SYNC_FENCE        3u'',
      ''#define RV_MARK_ENTER        1u'',
      ''#define RV_MARK_LEAVE        2u'',
      ''#define RV_MARK_DISPATCH     3u'',
      ''#define RV_MARK_PHASE        4u'']"

definition RV_TAGS_COMMANDS :: "string list" where
  "RV_TAGS_COMMANDS =
     [''#define RV_ACT_CMD_NONE          0u'',
      ''#define RV_ACT_CMD_DAQ_PC_CURR   1u'',
      ''#define RV_ACT_CMD_DAQ_DIRECT    3u'',
      ''#define RV_ACT_CMD_DAQ_DADDR     5u'',
      ''#define RV_ACT_CMD_CF_SYNC      12u'',
      ''#define RV_ACT_CMD_TE           13u'',
      ''#define RV_ACT_SINK_NEXUS        0u'',
      ''#define RV_ACT_SINK_AXIS         1u'',
      ''#define RV_ACT_SINK_AXIS_NEXUS   2u'',
      ''#define RV_ACT_SINK_TE           3u'',
      ''#define RV_ACTCAP_DOORBELL_ADDR 0x40000000u'']"


definition RV_TAGS_H :: "string list" where
  "RV_TAGS_H = RV_TAGS_KINDS @ RV_TAGS_FIELDS @ RV_TAGS_ENUMS @ RV_TAGS_COMMANDS"

definition is_upper_hex :: "char \<Rightarrow> bool" where
  "is_upper_hex c \<longleftrightarrow> is_decimal c \<or> (let n = code_of c in 65 \<le> n \<and> n \<le> 70 \<or> 97 \<le> n \<and> n \<le> 102)"

definition is_name_char :: "char \<Rightarrow> bool" where
  "is_name_char c \<longleftrightarrow> is_decimal c \<or> c = CHR ''_'' \<or> (let n = code_of c in 65 \<le> n \<and> n \<le> 90)"

text \<open>\<open>(0x[0-9A-Fa-f]+|\d+)\<close> at the start of a text, and what follows it.\<close>

definition number_token :: "string \<Rightarrow> (string \<times> string) option" where
  "number_token s =
     (if startswith s ''0x'' \<and> takeWhile is_upper_hex (drop 2 s) \<noteq> []
      then Some (''0x'' @ takeWhile is_upper_hex (drop 2 s), dropWhile is_upper_hex (drop 2 s))
      else if takeWhile is_decimal s \<noteq> [] then Some (takeWhile is_decimal s, dropWhile is_decimal s)
      else None)"

text \<open>\<open>^#define\s+(RV_[A-Z0-9_]+)\s+(number)u?\s*(/\*.*)?$\<close> on a stripped line.\<close>

definition define_end :: "string \<Rightarrow> string \<times> string \<Rightarrow> (string \<times> string) option" where
  "define_end nm = (\<lambda>(num, r).
     if (\<lambda>e. e = [] \<or> startswith e [CHR ''/'', CHR ''*'']) (lstrip (if startswith r ''u'' then drop 1 r else r))
     then Some (nm, num) else None)"

definition define_number :: "string \<Rightarrow> string \<Rightarrow> string \<Rightarrow> (string \<times> string) option" where
  "define_number nm r r1 =
     (if \<not> startswith nm ''RV_'' \<or> length nm < 4 \<or> r1 = r then None
      else Option.bind (number_token r1) (define_end nm))"

definition define_name :: "string \<Rightarrow> string \<Rightarrow> (string \<times> string) option" where
  "define_name r r1 =
     (if r1 = r then None
      else define_number (takeWhile is_name_char r1) (dropWhile is_name_char r1) (lstrip (dropWhile is_name_char r1)))"

definition define_match :: "string \<Rightarrow> (string \<times> string) option" where
  "define_match l =
     (if startswith l ''#define'' then define_name (drop 7 l) (lstrip (drop 7 l)) else None)"

type_synonym const_map = "string \<rightharpoonup> int"

fun parse_defines :: "string list \<Rightarrow> const_map \<Rightarrow> exn + const_map" where
  "parse_defines [] cs = Inr cs"
| "parse_defines (line # rest) cs =
     (case define_match (strip line) of
        None \<Rightarrow> parse_defines rest cs
      | Some (nm, num) \<Rightarrow>
          (case py_int 0 num of
             None \<Rightarrow> Inl (Exn ValueError ''invalid literal for int()'' [AS num])
           | Some v \<Rightarrow> parse_defines rest (cs(nm \<mapsto> v))))"

definition REQUIRED :: "string list" where
  "REQUIRED =
     [''RV_TAG_SRC_SHIFT'', ''RV_TAG_KIND_SHIFT'', ''RV_TAG_KIND_MASK'',
      ''RV_SRC_ACTST'', ''RV_KIND_DATA'', ''RV_KIND_SYNC'', ''RV_KIND_MARKER'',
      ''RV_DATA_RW_SHIFT'', ''RV_DATA_OBJ_SHIFT'', ''RV_DATA_OBJ_MASK'',
      ''RV_DATA_SITE_SHIFT'', ''RV_DATA_SITE_MASK'', ''RV_DATA_SIZE_MASK'',
      ''RV_SYNC_OP_SHIFT'', ''RV_SYNC_OP_MASK'', ''RV_SYNC_LOCK_SHIFT'',
      ''RV_SYNC_LOCK_MASK'', ''RV_SYNC_SITE_MASK'',
      ''RV_MARK_ID_SHIFT'', ''RV_MARK_ID_MASK'', ''RV_MARK_SITE_MASK'',
      ''RV_ACT_CMD_DAQ_PC_CURR'', ''RV_ACT_CMD_NONE'', ''RV_ACT_SINK_AXIS'']"

text \<open>Importing the module: the constants, or the exit with status 2 that names what is missing.\<close>

definition missing_consts :: "const_map \<Rightarrow> string list" where
  "missing_consts C = filter (\<lambda>n. C n = None) REQUIRED"

definition load_consts :: "string list \<Rightarrow> exn + const_map" where
  "load_consts header =
     (case parse_defines header (\<lambda>_. None) of
        Inl e \<Rightarrow> Inl e
      | Inr C \<Rightarrow> if missing_consts C \<noteq> [] then Inl (Exn SystemExit [] [AI 2]) else Inr C)"

text \<open>The module constant \<open>C\<close>.\<close>

definition RV_C :: const_map where
  "RV_C = (case load_consts RV_TAGS_H of Inr C \<Rightarrow> C | Inl e \<Rightarrow> (\<lambda>_. None))"

text \<open>\<open>C[name]\<close>: the names read below are all required, so the lookup never fails.\<close>

definition cst :: "const_map \<Rightarrow> string \<Rightarrow> int" where
  "cst C n = (case C n of Some v \<Rightarrow> v | None \<Rightarrow> 0)"

section \<open>Tags and command words\<close>

definition shl :: "int \<Rightarrow> int \<Rightarrow> int" where
  "shl x k = push_bit (nat k) x"

definition tag_of :: "const_map \<Rightarrow> site \<Rightarrow> exn + int" where
  "tag_of C s =
     (let base = shl (cst C ''RV_SRC_ACTST'') (cst C ''RV_TAG_SRC_SHIFT'') in
      case s_kind s of
        KIND_DATA \<Rightarrow> Inr (base
          OR shl (cst C ''RV_KIND_DATA'' AND cst C ''RV_TAG_KIND_MASK'') (cst C ''RV_TAG_KIND_SHIFT'')
          OR shl (s_rw_id s AND 1) (cst C ''RV_DATA_RW_SHIFT'')
          OR shl (s_obj_id s AND cst C ''RV_DATA_OBJ_MASK'') (cst C ''RV_DATA_OBJ_SHIFT'')
          OR shl (s_kind_idx s AND cst C ''RV_DATA_SITE_MASK'') (cst C ''RV_DATA_SITE_SHIFT'')
          OR (s_size_log s AND cst C ''RV_DATA_SIZE_MASK''))
      | KIND_SYNC \<Rightarrow> Inr (base
          OR shl (cst C ''RV_KIND_SYNC'' AND cst C ''RV_TAG_KIND_MASK'') (cst C ''RV_TAG_KIND_SHIFT'')
          OR shl (s_op_id s AND cst C ''RV_SYNC_OP_MASK'') (cst C ''RV_SYNC_OP_SHIFT'')
          OR shl (s_lock_id s AND cst C ''RV_SYNC_LOCK_MASK'') (cst C ''RV_SYNC_LOCK_SHIFT'')
          OR (s_kind_idx s AND cst C ''RV_SYNC_SITE_MASK''))
      | KIND_MARKER \<Rightarrow> Inr (base
          OR shl (cst C ''RV_KIND_MARKER'' AND cst C ''RV_TAG_KIND_MASK'') (cst C ''RV_TAG_KIND_SHIFT'')
          OR shl (s_mark_id s AND cst C ''RV_MARK_ID_MASK'') (cst C ''RV_MARK_ID_SHIFT'')
          OR (s_kind_idx s AND cst C ''RV_MARK_SITE_MASK''))
      | KIND_VALUE \<Rightarrow> Inl (Exn ValueError ''kind has no ACT-ST tag'' [AS ''value'']))"

definition tag_cmd_word :: "const_map \<Rightarrow> int \<Rightarrow> int" where
  "tag_cmd_word C tag =
     (cst C ''RV_ACT_CMD_DAQ_PC_CURR'' AND 0x3F)
       OR push_bit 6 (cst C ''RV_ACT_SINK_AXIS'' AND 0x3) OR push_bit 8 (tag AND 0xFFFFFF)"

section \<open>Symbols\<close>

text \<open>The lines of \<open>nm -n\<close>: a site label with its address.\<close>

fun read_symbols :: "string list \<Rightarrow> (string \<rightharpoonup> int) \<Rightarrow> exn + (string \<rightharpoonup> int)" where
  "read_symbols [] syms = Inr syms"
| "read_symbols (line # rest) syms =
     (case split_ws line of
        [a, t, n] \<Rightarrow>
          (if startswith n ''rvs_''
           then (case py_int 16 a of
                   None \<Rightarrow> Inl (Exn ValueError ''invalid literal for int() with base 16'' [AS a])
                 | Some v \<Rightarrow> read_symbols rest (syms(n \<mapsto> v)))
           else read_symbols rest syms)
      | _ \<Rightarrow> read_symbols rest syms)"

definition site_label :: "site \<Rightarrow> string" where
  "site_label s = sprintf ''rvs_%d'' [AI (s_id s)]"

section \<open>The tables\<close>

record site_row =
  r_addr :: int
  r_tag :: int
  r_site :: site

text \<open>The loop over the manifest: the rows of the labels found and the labels that are missing.\<close>

fun collect_rows :: "const_map \<Rightarrow> (string \<rightharpoonup> int) \<Rightarrow> site list \<Rightarrow> exn + site_row list \<times> string list" where
  "collect_rows C syms [] = Inr ([], [])"
| "collect_rows C syms (s # rest) =
     (if s_src s \<noteq> ''actst'' then collect_rows C syms rest
      else case syms (site_label s) of
        None \<Rightarrow> (case collect_rows C syms rest of Inl e \<Rightarrow> Inl e
                 | Inr (rows, missing) \<Rightarrow> Inr (rows, site_label s # missing))
      | Some a \<Rightarrow>
          (case tag_of C s of Inl e \<Rightarrow> Inl e
           | Inr t \<Rightarrow>
               (case collect_rows C syms rest of Inl e \<Rightarrow> Inl e
                | Inr (rows, missing) \<Rightarrow> Inr (\<lparr>r_addr = a, r_tag = t, r_site = s\<rparr> # rows, missing))))"

definition HOT_OBJECTS :: "string list" where
  "HOT_OBJECTS = [''balance'', ''count'', ''checksum'']"

definition hot_row :: "site_row \<Rightarrow> bool" where
  "hot_row r \<longleftrightarrow> s_kind_idx (r_site r) mod 8 = 0 \<and>
     (s_kind (r_site r) = KIND_SYNC \<or>
      s_kind (r_site r) = KIND_DATA \<and> (case s_obj (r_site r) of Some ob \<Rightarrow> ob \<in> set HOT_OBJECTS | None \<Rightarrow> False))"

definition pad_keys :: "int list \<Rightarrow> nat \<Rightarrow> int list" where
  "pad_keys addrs n = map (\<lambda>i. (Max (set addrs) OR 1) + 2 + 2 * int i) [0..<n]"

text \<open>One table: the selected rows, and padding above every address of the program.\<close>

definition table_rows :: "const_map \<Rightarrow> nat \<Rightarrow> site_row list \<Rightarrow> (site_row \<Rightarrow> bool) \<Rightarrow> (int \<times> int) list" where
  "table_rows C slots rows sel =
     (let sel_rows = filter sel rows in
      map (\<lambda>r. (r_addr r, tag_cmd_word C (r_tag r))) sel_rows
      @ map (\<lambda>a. (a, cst C ''RV_ACT_CMD_NONE'')) (pad_keys (map r_addr rows) (slots - length sel_rows)))"

definition write_table :: "const_map \<Rightarrow> nat \<Rightarrow> site_row list \<Rightarrow> (site_row \<Rightarrow> bool) \<Rightarrow> string" where
  "write_table C slots rows sel =
     unlines (sprintf ''# addr cmd   (%d real + %d padding = %d slots)''
        [AI (int (length (filter sel rows))), AI (int (slots - length (filter sel rows))), AI (int slots)]
      # map (\<lambda>(a, c). sprintf ''%08X %08X'' [AI a, AI c]) (table_rows C slots rows sel))"

definition opt_text :: "string option \<Rightarrow> string" where
  "opt_text v = (case v of Some t \<Rightarrow> t | None \<Rightarrow> [])"

definition kind_text :: "site_kind \<Rightarrow> string" where
  "kind_text k = (case k of KIND_DATA \<Rightarrow> ''data'' | KIND_SYNC \<Rightarrow> ''sync'' | KIND_MARKER \<Rightarrow> ''marker'' | KIND_VALUE \<Rightarrow> ''value'')"

definition csv_line :: "int \<Rightarrow> site \<Rightarrow> string" where
  "csv_line a s =
     sprintf ''%08X,%d,%s,%s,%d,%s,%s,%s,%s,%s,%s''
       [AI a, AI (s_id s), AS (s_src s), AS (kind_text (s_kind s)), AI (s_kind_idx s),
        AS (opt_text (s_obj s)), AS (opt_text (s_rw s)), AS (case s_lock s of Some l \<Rightarrow> str_d l | None \<Rightarrow> []),
        AS (opt_text (s_mark s)), AS (s_func s),
        AS (map (\<lambda>c. if c = CHR '','' then CHR '';'' else c) (s_note s))]"

definition csv_text :: "(string \<rightharpoonup> int) \<Rightarrow> site list \<Rightarrow> string" where
  "csv_text syms sites =
     unlines (''addr,site_id,src,kind,kind_idx,object,rw,lock,marker,func,note''
       # concat (map (\<lambda>s. case syms (site_label s) of None \<Rightarrow> [] | Some a \<Rightarrow> [csv_line a s]) sites))"

record wp_tables =
  full_table :: "(int \<times> int) list"
  hot_table :: "(int \<times> int) list"
  full_text :: string
  hot_text :: string
  sites_csv :: string
  n_full :: nat
  n_hot :: nat

datatype build_result =
    Missing_Labels "string list" | Duplicate_Addresses | Too_Many_Rows nat nat | Built wp_tables

definition build :: "const_map \<Rightarrow> site list \<Rightarrow> (string \<rightharpoonup> int) \<Rightarrow> nat \<Rightarrow> exn + build_result" where
  "build C sites syms slots =
     (case collect_rows C syms sites of
        Inl e \<Rightarrow> Inl e
      | Inr (rows0, missing) \<Rightarrow>
          if missing \<noteq> [] then Inr (Missing_Labels missing)
          else (let rows = sort_key r_addr rows0; addrs = map r_addr rows in
            if \<not> distinct addrs then Inr Duplicate_Addresses
            else if length rows > slots then Inr (Too_Many_Rows (length rows) slots)
            else if addrs = [] then Inl (Exn ValueError ''max() arg is an empty sequence'' [])
            else Inr (Built \<lparr>full_table = table_rows C slots rows (\<lambda>r. True),
                    hot_table = table_rows C slots rows hot_row,
                    full_text = write_table C slots rows (\<lambda>r. True),
                    hot_text = write_table C slots rows hot_row,
                    sites_csv = csv_text syms sites,
                    n_full = length rows, n_hot = length (filter hot_row rows)\<rparr>)))"

section \<open>The tag layout of the header\<close>

definition rcons :: "char \<Rightarrow> string \<Rightarrow> string" where
  "rcons c r = (if r = [] then if is_space c then [] else [c] else c # r)"

lemma rstrip_Cons: "rstrip [] = []" "rstrip (c # cs) = rcons c (rstrip cs)"
  by (auto simp: rstrip_def rcons_def dropWhile_append)

text \<open>Character classes of the printable characters, as rewrite rules.\<close>

lemma visible_chars: "\<forall>c\<in>set ''!#$%&()*+,-./0123456789:;<=>?@ABCDEFGHIJKLMNOPQRSTUVWXYZ[]^_abcdefghijklmnopqrstuvwxyz{|}~''. \<not> is_space c"
  by (simp add: is_space_def code_of_def)

lemma name_chars: "\<forall>c\<in>set ''0123456789ABCDEFGHIJKLMNOPQRSTUVWXYZ_''. is_name_char c" "\<forall>c\<in>set '' (u/''. \<not> is_name_char c"
  by (simp_all add: is_name_char_def is_decimal_def code_of_def)

lemma hex_chars: "\<forall>c\<in>set ''0123456789ABCDEFabcdef''. is_upper_hex c" "\<not> is_upper_hex (CHR ''u'')" "\<not> is_upper_hex (CHR '' '')"
  by (simp_all add: is_upper_hex_def is_decimal_def code_of_def)

lemma decimal_chars: "\<forall>c\<in>set ''0123456789''. is_decimal c" "\<not> is_decimal (CHR ''u'')" "\<not> is_decimal (CHR '' '')"
  by (simp_all add: is_decimal_def code_of_def)

lemma space_char: "is_space (CHR '' '')" "\<not> is_space BACKSLASH" "\<not> is_name_char BACKSLASH"
  by (simp_all add: is_space_def code_of_def BACKSLASH_def is_name_char_def is_decimal_def)

lemmas char_classes = visible_chars [simplified] name_chars [simplified] hex_chars [simplified] decimal_chars [simplified] space_char

lemmas text_eval = strip_def lstrip_def rstrip_Cons rcons_def startswith_def char_classes

lemma matches_kinds: "map (\<lambda>l. define_match (strip l)) RV_TAGS_KINDS =
    [None,
     Some (''RV_TAG_SRC_SHIFT'', ''23''),
     Some (''RV_TAG_KIND_SHIFT'', ''21''),
     Some (''RV_TAG_KIND_MASK'', ''0x3''),
     Some (''RV_SRC_ACTST'', ''0''),
     Some (''RV_SRC_ACTCAP'', ''1''),
     Some (''RV_KIND_DATA'', ''0''),
     Some (''RV_KIND_SYNC'', ''1''),
     Some (''RV_KIND_MARKER'', ''2''),
     Some (''RV_KIND_VALUE'', ''3'')]"
  by (simp add: RV_TAGS_KINDS_def define_match_def define_name_def define_number_def define_end_def number_token_def text_eval)

lemma matches_fields: "map (\<lambda>l. define_match (strip l)) RV_TAGS_FIELDS =
    [Some (''RV_DATA_RW_SHIFT'', ''20''),
     Some (''RV_DATA_OBJ_SHIFT'', ''13''),
     Some (''RV_DATA_OBJ_MASK'', ''0x7F''),
     Some (''RV_DATA_SITE_SHIFT'', ''4''),
     Some (''RV_DATA_SITE_MASK'', ''0x1FF''),
     Some (''RV_DATA_SIZE_MASK'', ''0xF''),
     Some (''RV_SYNC_OP_SHIFT'', ''19''),
     Some (''RV_SYNC_OP_MASK'', ''0x3''),
     Some (''RV_SYNC_LOCK_SHIFT'', ''11''),
     Some (''RV_SYNC_LOCK_MASK'', ''0xFF''),
     Some (''RV_SYNC_SITE_MASK'', ''0x7FF''),
     Some (''RV_MARK_ID_SHIFT'', ''11''),
     Some (''RV_MARK_ID_MASK'', ''0x3FF''),
     Some (''RV_MARK_SITE_MASK'', ''0x7FF''),
     Some (''RV_VALUE_MASK'', ''0x1FFFFF'')]"
  by (simp add: RV_TAGS_FIELDS_def define_match_def define_name_def define_number_def define_end_def number_token_def text_eval)

lemma matches_enums: "map (\<lambda>l. define_match (strip l)) RV_TAGS_ENUMS =
    [Some (''RV_RW_READ'', ''0''),
     Some (''RV_RW_WRITE'', ''1''),
     Some (''RV_OBJ_BALANCE'', ''1''),
     Some (''RV_OBJ_COUNT'', ''2''),
     Some (''RV_OBJ_CHECKSUM'', ''3''),
     Some (''RV_OBJ_SEQ'', ''4''),
     Some (''RV_OBJ_RING_HEAD'', ''5''),
     Some (''RV_OBJ_RING_TAIL'', ''6''),
     Some (''RV_OBJ_RING_SLOT'', ''7''),
     Some (''RV_OBJ_LOCKVAR'', ''8''),
     Some (''RV_OBJ_PRIVATE'', ''9''),
     Some (''RV_SYNC_ACQ_TRY'', ''0''),
     Some (''RV_SYNC_ACQ_OK'', ''1''),
     Some (''RV_SYNC_RELEASE'', ''2''),
     Some (''RV_SYNC_FENCE'', ''3''),
     Some (''RV_MARK_ENTER'', ''1''),
     Some (''RV_MARK_LEAVE'', ''2''),
     Some (''RV_MARK_DISPATCH'', ''3''),
     Some (''RV_MARK_PHASE'', ''4'')]"
  by (simp add: RV_TAGS_ENUMS_def define_match_def define_name_def define_number_def define_end_def number_token_def text_eval)

lemma matches_commands: "map (\<lambda>l. define_match (strip l)) RV_TAGS_COMMANDS =
    [Some (''RV_ACT_CMD_NONE'', ''0''),
     Some (''RV_ACT_CMD_DAQ_PC_CURR'', ''1''),
     Some (''RV_ACT_CMD_DAQ_DIRECT'', ''3''),
     Some (''RV_ACT_CMD_DAQ_DADDR'', ''5''),
     Some (''RV_ACT_CMD_CF_SYNC'', ''12''),
     Some (''RV_ACT_CMD_TE'', ''13''),
     Some (''RV_ACT_SINK_NEXUS'', ''0''),
     Some (''RV_ACT_SINK_AXIS'', ''1''),
     Some (''RV_ACT_SINK_AXIS_NEXUS'', ''2''),
     Some (''RV_ACT_SINK_TE'', ''3''),
     Some (''RV_ACTCAP_DOORBELL_ADDR'', ''0x40000000'')]"
  by (simp add: RV_TAGS_COMMANDS_def define_match_def define_name_def define_number_def define_end_def number_token_def text_eval)

fun parse_matches :: "(string \<times> string) option list \<Rightarrow> const_map \<Rightarrow> exn + const_map" where
  "parse_matches [] cs = Inr cs"
| "parse_matches (None # rest) cs = parse_matches rest cs"
| "parse_matches (Some (nm, num) # rest) cs =
     (case py_int 0 num of
        None \<Rightarrow> Inl (Exn ValueError ''invalid literal for int()'' [AS num])
      | Some v \<Rightarrow> parse_matches rest (cs(nm \<mapsto> v)))"

lemma parse_defines_matches: "parse_defines ls cs = parse_matches (map (\<lambda>l. define_match (strip l)) ls) cs"
  by (induction ls arbitrary: cs) (auto split: option.splits)

lemma header_consts: "case parse_defines RV_TAGS_H (\<lambda>_. None) of Inl e \<Rightarrow> False
   | Inr C \<Rightarrow> map C REQUIRED = map Some [23, 21, 3, 0, 0, 1, 2, 20, 13, 127, 4, 511, 15, 19, 3, 11, 255, 2047, 11, 1023, 2047, 1, 0, 1]"
  unfolding parse_defines_matches RV_TAGS_H_def map_append
    matches_kinds matches_fields matches_enums matches_commands
  by code_simp

lemma header_loads: "\<exists>C. load_consts RV_TAGS_H = Inr C \<and> RV_C = C \<and>
   map C REQUIRED = map Some [23, 21, 3, 0, 0, 1, 2, 20, 13, 127, 4, 511, 15, 19, 3, 11, 255, 2047, 11, 1023, 2047, 1, 0, 1]"
proof -
  obtain C where C: "parse_defines RV_TAGS_H (\<lambda>_. None) = Inr C"
    "map C REQUIRED = map Some [23, 21, 3, 0, 0, 1, 2, 20, 13, 127, 4, 511, 15, 19, 3, 11, 255, 2047, 11, 1023, 2047, 1, 0, 1]"
    using header_consts by (auto split: sum.splits)
  have "None \<notin> set (map C REQUIRED)" unfolding C(2) by simp
  then have "missing_consts C = []" by (metis (mono_tags, lifting) filter_False image_eqI list.set_map missing_consts_def)
  with C show ?thesis by (simp add: load_consts_def RV_C_def)
qed

lemma RV_C_values: "map RV_C REQUIRED =
    map Some [23, 21, 3, 0, 0, 1, 2, 20, 13, 127, 4, 511, 15, 19, 3, 11, 255, 2047, 11, 1023, 2047, 1, 0, 1]"
  using header_loads by auto

lemmas RV_C_simps = RV_C_values [unfolded REQUIRED_def, simplified]

lemma cst_simps:
  "cst RV_C ''RV_TAG_SRC_SHIFT'' = 23" "cst RV_C ''RV_TAG_KIND_SHIFT'' = 21" "cst RV_C ''RV_TAG_KIND_MASK'' = 3"
  "cst RV_C ''RV_SRC_ACTST'' = 0" "cst RV_C ''RV_KIND_DATA'' = 0" "cst RV_C ''RV_KIND_SYNC'' = 1" "cst RV_C ''RV_KIND_MARKER'' = 2"
  "cst RV_C ''RV_DATA_RW_SHIFT'' = 20" "cst RV_C ''RV_DATA_OBJ_SHIFT'' = 13" "cst RV_C ''RV_DATA_OBJ_MASK'' = 127"
  "cst RV_C ''RV_DATA_SITE_SHIFT'' = 4" "cst RV_C ''RV_DATA_SITE_MASK'' = 511" "cst RV_C ''RV_DATA_SIZE_MASK'' = 15"
  "cst RV_C ''RV_SYNC_OP_SHIFT'' = 19" "cst RV_C ''RV_SYNC_OP_MASK'' = 3" "cst RV_C ''RV_SYNC_LOCK_SHIFT'' = 11"
  "cst RV_C ''RV_SYNC_LOCK_MASK'' = 255" "cst RV_C ''RV_SYNC_SITE_MASK'' = 2047"
  "cst RV_C ''RV_MARK_ID_SHIFT'' = 11" "cst RV_C ''RV_MARK_ID_MASK'' = 1023" "cst RV_C ''RV_MARK_SITE_MASK'' = 2047"
  "cst RV_C ''RV_ACT_CMD_DAQ_PC_CURR'' = 1" "cst RV_C ''RV_ACT_CMD_NONE'' = 0" "cst RV_C ''RV_ACT_SINK_AXIS'' = 1"
  by (simp_all add: cst_def RV_C_simps)

section \<open>What a tag says\<close>

text \<open>
  The readings of a tag, as the comments of the header lay the fields out: the source bit, the kind,
  and per kind its fields; the site field is the last one read.
\<close>

datatype tag_reading =
    Data_Access int int int int
  | Sync_Point int int int
  | Marker_Point int int
  | Runtime_Value int

definition read_tag :: "int \<Rightarrow> int \<times> tag_reading" where
  "read_tag t = (bits_of t 23 1,
     if bits_of t 21 2 = 0 then Data_Access (bits_of t 20 1) (bits_of t 13 7) (bits_of t 0 4) (bits_of t 4 9)
     else if bits_of t 21 2 = 1 then Sync_Point (bits_of t 19 2) (bits_of t 11 8) (bits_of t 0 11)
     else if bits_of t 21 2 = 2 then Marker_Point (bits_of t 11 10) (bits_of t 0 11)
     else Runtime_Value (bits_of t 0 21))"

lemma mask_bits:
  "x AND (1 :: int) = take_bit 1 x" "x AND (3 :: int) = take_bit 2 x" "x AND (15 :: int) = take_bit 4 x"
  "x AND (127 :: int) = take_bit 7 x" "x AND (255 :: int) = take_bit 8 x" "x AND (511 :: int) = take_bit 9 x"
  "x AND (1023 :: int) = take_bit 10 x" "x AND (2047 :: int) = take_bit 11 x" "x AND (0x3F :: int) = take_bit 6 x"
  "x AND (0xFFFFFF :: int) = take_bit 24 x"
  by (simp_all add: take_bit_eq_mask mask_eq_exp_minus_1)

definition data_tag :: "int \<Rightarrow> int \<Rightarrow> int \<Rightarrow> int \<Rightarrow> int" where
  "data_tag rw ob idx sz = push_bit 20 (take_bit 1 rw) OR push_bit 13 (take_bit 7 ob) OR push_bit 4 (take_bit 9 idx) OR take_bit 4 sz"

definition sync_tag :: "int \<Rightarrow> int \<Rightarrow> int \<Rightarrow> int \<Rightarrow> int" where
  "sync_tag k op l idx = push_bit 21 (take_bit 2 k) OR push_bit 19 (take_bit 2 op) OR push_bit 11 (take_bit 8 l) OR take_bit 11 idx"

definition marker_tag :: "int \<Rightarrow> int \<Rightarrow> int \<Rightarrow> int" where
  "marker_tag k mid idx = push_bit 21 (take_bit 2 k) OR push_bit 11 (take_bit 10 mid) OR take_bit 11 idx"

lemma tag_of_cases:
  "s_kind s = KIND_DATA \<Longrightarrow> tag_of RV_C s = Inr (data_tag (s_rw_id s) (s_obj_id s) (s_kind_idx s) (s_size_log s))"
  "s_kind s = KIND_SYNC \<Longrightarrow> tag_of RV_C s = Inr (sync_tag 1 (s_op_id s) (s_lock_id s) (s_kind_idx s))"
  "s_kind s = KIND_MARKER \<Longrightarrow> tag_of RV_C s = Inr (marker_tag 2 (s_mark_id s) (s_kind_idx s))"
  by (simp_all add: tag_of_def cst_simps shl_def mask_bits data_tag_def sync_tag_def marker_tag_def)

lemmas tag_bits = bit_or_iff bit_push_bit_iff bit_take_bit_iff bit_bits_of bit_1_iff

lemma data_tag_reads:
  "bits_of (data_tag rw ob idx sz) 23 1 = 0" "bits_of (data_tag rw ob idx sz) 21 2 = 0"
  "bits_of (data_tag rw ob idx sz) 20 1 = take_bit 1 rw" "bits_of (data_tag rw ob idx sz) 13 7 = take_bit 7 ob"
  "bits_of (data_tag rw ob idx sz) 4 9 = take_bit 9 idx" "bits_of (data_tag rw ob idx sz) 0 4 = take_bit 4 sz"
  by ((rule bit_eqI; auto simp: data_tag_def tag_bits))+

lemma sync_tag_reads:
  "bits_of (sync_tag k op l idx) 23 1 = 0" "bits_of (sync_tag k op l idx) 21 2 = take_bit 2 k"
  "bits_of (sync_tag k op l idx) 19 2 = take_bit 2 op" "bits_of (sync_tag k op l idx) 11 8 = take_bit 8 l"
  "bits_of (sync_tag k op l idx) 0 11 = take_bit 11 idx"
  by ((rule bit_eqI; auto simp: sync_tag_def tag_bits))+

lemma marker_tag_reads:
  "bits_of (marker_tag k mid idx) 23 1 = 0" "bits_of (marker_tag k mid idx) 21 2 = take_bit 2 k"
  "bits_of (marker_tag k mid idx) 11 10 = take_bit 10 mid" "bits_of (marker_tag k mid idx) 0 11 = take_bit 11 idx"
  by ((rule bit_eqI; auto simp: marker_tag_def tag_bits))+

lemma read_data_tag: "read_tag (data_tag rw ob idx sz) =
    (0, Data_Access (take_bit 1 rw) (take_bit 7 ob) (take_bit 4 sz) (take_bit 9 idx))"
  by (simp add: read_tag_def data_tag_reads del: One_nat_def)

lemma read_sync_tag: "read_tag (sync_tag 1 op l idx) = (0, Sync_Point (take_bit 2 op) (take_bit 8 l) (take_bit 11 idx))"
  by (simp add: read_tag_def sync_tag_reads del: One_nat_def)

lemma read_marker_tag: "read_tag (marker_tag 2 mid idx) = (0, Marker_Point (take_bit 10 mid) (take_bit 11 idx))"
  by (simp add: read_tag_def marker_tag_reads del: One_nat_def)

lemma tag_in_cmd: "bits_of (tag_cmd_word RV_C t) 8 24 = take_bit 24 t" "bits_of (tag_cmd_word RV_C t) 0 8 = 65"
proof -
  have c: "tag_cmd_word RV_C t = 65 OR push_bit 8 (take_bit 24 t)"
    by (simp add: tag_cmd_word_def cst_simps mask_bits flip: or.assoc)
  have "take_bit 8 (65 :: int) = 65" by simp
  then have low: "bit (65 :: int) i \<Longrightarrow> i < 8" for i by (metis bit_take_bit_iff)
  show "bits_of (tag_cmd_word RV_C t) 8 24 = take_bit 24 t" "bits_of (tag_cmd_word RV_C t) 0 8 = 65"
    unfolding c by ((rule bit_eqI; auto simp: tag_bits dest: low))+
qed

lemma tags_fit: "take_bit 24 (data_tag rw ob idx sz) = data_tag rw ob idx sz"
  "take_bit 24 (sync_tag k op l idx) = sync_tag k op l idx" "take_bit 24 (marker_tag k mid idx) = marker_tag k mid idx"
  by ((rule bit_eqI; auto simp: data_tag_def sync_tag_def marker_tag_def tag_bits))+

section \<open>What the tables hold\<close>

lemma collect_rows_ok:
  "collect_rows C syms ss = Inr (rows, missing) \<Longrightarrow>
     missing = map site_label (filter (\<lambda>s. s_src s = ''actst'' \<and> syms (site_label s) = None) ss) \<and>
     map r_site rows = filter (\<lambda>s. s_src s = ''actst'' \<and> syms (site_label s) \<noteq> None) ss \<and>
     (\<forall>r\<in>set rows. syms (site_label (r_site r)) = Some (r_addr r) \<and> tag_of C (r_site r) = Inr (r_tag r))"
  by (induction C syms ss arbitrary: rows missing rule: collect_rows.induct)
     (auto split: if_splits option.splits sum.splits prod.splits)

lemma tag_of_total: "s_kind s \<noteq> KIND_VALUE \<Longrightarrow> \<exists>t. tag_of C s = Inr t"
  by (cases "s_kind s") (simp_all add: tag_of_def Let_def)

lemma collect_rows_total:
  "\<forall>s\<in>set ss. s_src s = ''actst'' \<longrightarrow> s_kind s \<noteq> KIND_VALUE \<Longrightarrow> \<exists>r. collect_rows C syms ss = Inr r"
proof (induction ss)
  case (Cons s ss)
  then obtain rows missing where r: "collect_rows C syms ss = Inr (rows, missing)" by auto
  show ?case
  proof (cases "s_src s = ''actst''")
    case True
    with Cons.prems obtain t where "tag_of C s = Inr t" using tag_of_total[of s C] by auto
    with r show ?thesis by (auto split: option.splits)
  qed (simp add: r)
qed simp

lemma odd_step: "odd ((m OR 1) + 2 + 2 * (i :: int))"
  by (simp add: even_or_iff)

lemma le_or_one: "(m :: int) \<le> m OR 1"
proof -
  have "m OR 1 = (if even m then m + 1 else m)" by (simp add: or_one_eq)
  then show ?thesis by simp
qed

lemma pad_keys_above: "a \<in> set (pad_keys addrs n) \<Longrightarrow> b \<in> set addrs \<Longrightarrow> b < a \<and> odd a"
proof -
  assume a: "a \<in> set (pad_keys addrs n)" and b: "b \<in> set addrs"
  from a obtain i where i: "a = (Max (set addrs) OR 1) + 2 + 2 * int i" by (auto simp: pad_keys_def)
  have "b \<le> Max (set addrs)" using b by simp
  with le_or_one[of "Max (set addrs)"] odd_step[of "Max (set addrs)" "int i"] show ?thesis unfolding i by auto
qed

lemma pad_keys_sorted: "sorted_wrt (<) (pad_keys addrs n)"
  by (auto simp: pad_keys_def sorted_wrt_map intro: sorted_wrt_mono_rel[OF _ sorted_wrt_upt])

definition table_ok :: "int set \<Rightarrow> nat \<Rightarrow> (int \<times> int) list \<Rightarrow> bool" where
  "table_ok addrs slots tbl \<longleftrightarrow> length tbl = slots \<and> sorted_wrt (<) (map fst tbl) \<and>
     (\<forall>(a, c) \<in> set tbl. a \<notin> addrs \<longrightarrow> odd a \<and> c = 0 \<and> (\<forall>b \<in> addrs. b < a))"

lemma table_rows_ok:
  assumes "sorted (map r_addr rows)" "distinct (map r_addr rows)" "length (filter sel rows) \<le> slots"
  shows "rows \<noteq> [] \<Longrightarrow> table_ok (set (map r_addr rows)) slots (table_rows RV_C slots rows sel)"
    and "set (table_rows RV_C slots rows sel) \<inter> {(a, c). a \<in> set (map r_addr rows)} =
         (\<lambda>r. (r_addr r, tag_cmd_word RV_C (r_tag r))) ` set (filter sel rows)"
proof -
  let ?A = "map r_addr rows"
  have strict: "sorted_wrt (<) ?A" using assms(1,2) by (simp add: strict_sorted_iff)
  have sub: "sorted_wrt (<) (map r_addr (filter sel rows))"
    using strict unfolding sorted_wrt_map by (rule sorted_wrt_filter)
  have len: "length (pad_keys ?A n) = n" for n by (simp add: pad_keys_def)
  have above: "x < y" if "x \<in> set (map r_addr (filter sel rows))" "y \<in> set (pad_keys ?A n)" for x y n
    using that pad_keys_above[of y ?A n x] by auto
  have pads: "odd y \<and> (\<forall>r\<in>set rows. r_addr r < y)" if "y \<in> set (pad_keys ?A n)" "rows \<noteq> []" for y n
    using pad_keys_above[OF that(1)] that(2) by (cases rows) auto
  show "rows \<noteq> [] \<Longrightarrow> table_ok (set ?A) slots (table_rows RV_C slots rows sel)"
    using assms(3) sub pad_keys_sorted[of ?A] above pads
    unfolding table_ok_def table_rows_def Let_def
    by (auto simp: len sorted_wrt_append cst_simps comp_def)
  have "x \<notin> set ?A" if "x \<in> set (pad_keys ?A n)" for x n
    using pad_keys_above[OF that, of x] by auto
  then show "set (table_rows RV_C slots rows sel) \<inter> {(a, c). a \<in> set ?A} =
         (\<lambda>r. (r_addr r, tag_cmd_word RV_C (r_tag r))) ` set (filter sel rows)"
    unfolding table_rows_def Let_def by auto
qed

text \<open>The result of a build, in one view: the rows it sorted, and the tables over them.\<close>

lemma build_cases:
  assumes "build C sites syms slots = Inr (Built T)"
  obtains rows where
    "set (map r_site rows) = {s \<in> set sites. s_src s = ''actst''}"
    "\<forall>r\<in>set rows. syms (site_label (r_site r)) = Some (r_addr r) \<and> tag_of C (r_site r) = Inr (r_tag r)"
    "sorted (map r_addr rows)" "distinct (map r_addr rows)" "length rows \<le> slots" "rows \<noteq> []"
    "full_table T = table_rows C slots rows (\<lambda>r. True)" "hot_table T = table_rows C slots rows hot_row"
    "n_full T = length rows" "n_hot T = length (filter hot_row rows)"
proof -
  obtain rows0 missing where r: "collect_rows C syms sites = Inr (rows0, missing)"
    using assms by (auto simp: build_def split: sum.splits)
  let ?rows = "sort_key r_addr rows0"
  have b: "missing = []" "distinct (map r_addr ?rows)" "length ?rows \<le> slots" "rows0 \<noteq> []"
    "full_table T = table_rows C slots ?rows (\<lambda>r. True)" "hot_table T = table_rows C slots ?rows hot_row"
    "n_full T = length ?rows" "n_hot T = length (filter hot_row ?rows)"
    using assms r unfolding build_def Let_def by (auto split: if_splits)
  have all: "map r_site rows0 = filter (\<lambda>s. s_src s = ''actst'' \<and> syms (site_label s) \<noteq> None) sites"
    "filter (\<lambda>s. s_src s = ''actst'' \<and> syms (site_label s) = None) sites = []"
    using collect_rows_ok[OF r] b(1) by auto
  have "set (map r_site ?rows) = set (map r_site rows0)" by simp
  also have "\<dots> = {s \<in> set sites. s_src s = ''actst''}"
    unfolding all(1) using all(2) by (auto simp: filter_empty_conv)
  finally have sites: "set (map r_site ?rows) = {s \<in> set sites. s_src s = ''actst''}" .
  have ne: "?rows \<noteq> []" using b(4) by (metis length_0_conv length_sort)
  have each: "\<forall>r\<in>set ?rows. syms (site_label (r_site r)) = Some (r_addr r) \<and> tag_of C (r_site r) = Inr (r_tag r)"
    using collect_rows_ok[OF r] by simp
  from that[OF sites each sorted_sort_key b(2,3) ne b(5-8)] show ?thesis .
qed

text \<open>The addresses of the hardware sites of a manifest.\<close>

definition site_addrs :: "site list \<Rightarrow> (string \<rightharpoonup> int) \<Rightarrow> int set" where
  "site_addrs sites syms = {a. \<exists>s\<in>set sites. s_src s = ''actst'' \<and> syms (site_label s) = Some a}"

text \<open>What a tag should read back as, and what it does: the site field of a tag is 9 bits wide for data and 11
  for the others, so the index is taken modulo its width.\<close>

definition site_fields :: "site \<Rightarrow> tag_reading" where
  "site_fields s =
     (case s_kind s of
        KIND_DATA \<Rightarrow> Data_Access (s_rw_id s) (s_obj_id s) (s_size_log s) (s_kind_idx s)
      | KIND_SYNC \<Rightarrow> Sync_Point (s_op_id s) (s_lock_id s) (s_kind_idx s)
      | KIND_MARKER \<Rightarrow> Marker_Point (s_mark_id s) (s_kind_idx s)
      | KIND_VALUE \<Rightarrow> Runtime_Value 0)"

definition index_fits :: "site \<Rightarrow> bool" where
  "index_fits s \<longleftrightarrow> 0 \<le> s_kind_idx s \<and> s_kind_idx s < (if s_kind s = KIND_DATA then 512 else 2048)"

definition site_reading :: "site \<Rightarrow> tag_reading" where
  "site_reading s =
     (case s_kind s of
        KIND_DATA \<Rightarrow> Data_Access (s_rw_id s) (s_obj_id s) (s_size_log s) (s_kind_idx s mod 512)
      | KIND_SYNC \<Rightarrow> Sync_Point (s_op_id s) (s_lock_id s) (s_kind_idx s mod 2048)
      | KIND_MARKER \<Rightarrow> Marker_Point (s_mark_id s) (s_kind_idx s mod 2048)
      | KIND_VALUE \<Rightarrow> Runtime_Value 0)"

lemma mod_fixed: "0 < n \<Longrightarrow> x mod n = x \<longleftrightarrow> 0 \<le> x \<and> x < n" for x n :: int
  using pos_mod_bound [of n x] pos_mod_sign [of n x] by (auto simp del: pos_mod_sign pos_mod_bound)

lemma site_reading_fields: "s_kind s \<noteq> KIND_VALUE \<Longrightarrow> site_reading s = site_fields s \<longleftrightarrow> index_fits s"
  by (cases "s_kind s") (simp_all add: site_reading_def site_fields_def index_fits_def mod_fixed)

lemma rows_addrs:
  assumes "set (map r_site rows) = {s \<in> set sites. s_src s = ''actst''}"
    and "\<forall>r\<in>set rows. syms (site_label (r_site r)) = Some (r_addr r) \<and> tag_of C (r_site r) = Inr (r_tag r)"
  shows "set (map r_addr rows) = site_addrs sites syms"
proof -
  have "a \<in> set (map r_addr rows) \<longleftrightarrow> (\<exists>s \<in> set (map r_site rows). syms (site_label s) = Some a)" for a
    using assms(2) by auto
  then show ?thesis unfolding assms(1) site_addrs_def by auto
qed

lemma tag_reads_site:
  assumes "fields_fit s" "s_kind s \<noteq> KIND_VALUE" "tag_of RV_C s = Inr t"
  shows "read_tag t = (0, site_reading s) \<and> take_bit 24 t = t"
proof -
  have tb: "take_bit n (x :: int) = x" if "0 \<le> x" "x < 2 ^ n" for n x
    using that by (simp add: take_bit_int_eq_self_iff)
  have f: "take_bit 1 (s_rw_id s) = s_rw_id s" "take_bit 7 (s_obj_id s) = s_obj_id s" "take_bit 4 (s_size_log s) = s_size_log s"
    "take_bit 2 (s_op_id s) = s_op_id s" "take_bit 8 (s_lock_id s) = s_lock_id s" "take_bit 10 (s_mark_id s) = s_mark_id s"
    using assms(1) by (auto simp: fields_fit_def intro!: tb)
  have f1: "s_rw_id s mod 2 = s_rw_id s" using assms(1) by (auto simp: fields_fit_def)
  show ?thesis
    using assms(2,3) f1
    by (cases "s_kind s")
       (auto simp: tag_of_cases read_data_tag read_sync_tag read_marker_tag f site_reading_def tags_fit
          simp flip: take_bit_eq_mod[of 9 "s_kind_idx s", simplified] take_bit_eq_mod[of 11 "s_kind_idx s", simplified])
qed

lemma site_tables_sound_core:
  assumes "build RV_C sites syms slots = Inr (Built T)"
  shows "table_ok (site_addrs sites syms) slots (full_table T) \<and>
         table_ok (site_addrs sites syms) slots (hot_table T) \<and>
         set (hot_table T) \<inter> {(a, c). a \<in> site_addrs sites syms} \<subseteq> set (full_table T) \<and>
         site_addrs sites syms \<subseteq> fst ` set (full_table T)"
proof -
  obtain rows where r: "set (map r_site rows) = {s \<in> set sites. s_src s = ''actst''}"
    "\<forall>r\<in>set rows. syms (site_label (r_site r)) = Some (r_addr r) \<and> tag_of RV_C (r_site r) = Inr (r_tag r)"
    "sorted (map r_addr rows)" "distinct (map r_addr rows)" "length rows \<le> slots" "rows \<noteq> []"
    "full_table T = table_rows RV_C slots rows (\<lambda>r. True)" "hot_table T = table_rows RV_C slots rows hot_row"
    "n_full T = length rows" "n_hot T = length (filter hot_row rows)"
    by (rule build_cases[OF assms])
  have len: "length (filter sel rows) \<le> slots" for sel using r(5) length_filter_le[of sel rows] by linarith
  note full = table_rows_ok[OF r(3,4) len[of "\<lambda>r. True"], folded r(7), unfolded rows_addrs[OF r(1,2)]]
  note hot = table_rows_ok[OF r(3,4) len[of hot_row], folded r(8), unfolded rows_addrs[OF r(1,2)]]
  have "fst ` (set (full_table T) \<inter> {(a, c). a \<in> site_addrs sites syms}) = set (map r_addr rows)"
    unfolding full(2) by force
  then have "site_addrs sites syms \<subseteq> fst ` set (full_table T)" unfolding rows_addrs[OF r(1,2)] by blast
  moreover have "set (hot_table T) \<inter> {(a, c). a \<in> site_addrs sites syms} \<subseteq> set (full_table T)"
    using full(2) unfolding hot(2) by auto
  ultimately show ?thesis using full(1) hot(1) r(6) by blast
qed

lemma build_exact:
  assumes kinds: "\<forall>s\<in>set sites. s_src s = ''actst'' \<longrightarrow> s_kind s \<noteq> KIND_VALUE"
    and found: "\<forall>s\<in>set sites. s_src s = ''actst'' \<longrightarrow> syms (site_label s) \<noteq> None"
    and own: "distinct (map (\<lambda>s. syms (site_label s)) (filter (\<lambda>s. s_src s = ''actst'') sites))"
    and fit: "src_count ''actst'' sites \<le> slots" "src_count ''actst'' sites \<noteq> 0"
  shows "\<exists>T. build C sites syms slots = Inr (Built T) \<and> n_full T = src_count ''actst'' sites"
proof -
  let ?st = "filter (\<lambda>s. s_src s = ''actst'') sites"
  obtain rows missing where r: "collect_rows C syms sites = Inr (rows, missing)"
    using collect_rows_total[OF kinds, of C syms] by auto
  from collect_rows_ok[OF r] found have m: "missing = []" "map r_site rows = ?st"
    and each: "\<forall>r\<in>set rows. syms (site_label (r_site r)) = Some (r_addr r)"
    by (auto simp: filter_empty_conv intro: filter_cong)
  have "map Some (map r_addr rows) = map (\<lambda>r. syms (site_label (r_site r))) rows" using each by simp
  also have "\<dots> = map (\<lambda>s. syms (site_label s)) (map r_site rows)" by simp
  finally have "distinct (map Some (map r_addr rows))" using own unfolding m(2) by simp
  then have d0: "distinct (map r_addr rows)" by (simp add: distinct_map inj_on_def)
  have "mset (map r_addr (sort_key r_addr rows)) = mset (map r_addr rows)" by simp
  with d0 have d: "distinct (map r_addr (sort_key r_addr rows))" using mset_eq_imp_distinct_iff by blast
  have len: "length rows = src_count ''actst'' sites" using arg_cong[OF m(2), of length] by (simp add: src_count_def)
  with fit have "rows \<noteq> []" by auto
  then have "sort_key r_addr rows \<noteq> []" by (metis length_0_conv length_sort)
  with r m(1) d len fit(1) show ?thesis by (simp add: build_def Let_def)
qed

lemma manifest_rows:
  assumes "0 \<le> n" "0 < every" "generate core n share every = Inr (m, names, caps, tx)"
  shows "\<forall>j < length (m_sites m). row_ok (m_sites m) j" "src_count ''actst'' (m_sites m) = 10 * nat n + 4"
    and "kind_count KIND_DATA (m_sites m) = sum_list (map (data_sites share) [0..n - 1])" "distinct (m_sites m)"
proof -
  from generate_ok[OF assms(1,2), of core share] assms(3)
  show rows: "\<forall>j < length (m_sites m). row_ok (m_sites m) j"
    and "kind_count KIND_DATA (m_sites m) = sum_list (map (data_sites share) [0..n - 1])"
    and n: "src_count ''actst'' (m_sites m) = 10 * nat n + 4"
    by auto
  from rows show "distinct (m_sites m)" by (auto simp: distinct_conv_nth row_ok_def) (metis of_nat_eq_iff)
qed

lemma kind_count_le: "k \<noteq> KIND_VALUE \<Longrightarrow> \<forall>j < length es. row_ok es j \<Longrightarrow> kind_count k es \<le> src_count ''actst'' es"
proof -
  assume k: "k \<noteq> KIND_VALUE" and rows: "\<forall>j < length es. row_ok es j"
  have "s_src e = ''actst''" if "e \<in> set es" "s_kind e = k" for e
    using that rows k by (auto simp: in_set_conv_nth row_ok_def)
  then have "filter (\<lambda>e. s_kind e = k) es = filter (\<lambda>e. s_kind e = k) (filter (\<lambda>e. s_src e = ''actst'') es)"
    by (auto simp: filter_filter intro: filter_cong)
  then show "kind_count k es \<le> src_count ''actst'' es"
    by (simp add: kind_count_def src_count_def del: filter_filter)
qed

lemma kind_count_take: "kind_count k (take j es) \<le> kind_count k es"
  by (metis append_take_drop_id filter_append kind_count_def le_add1 length_append)

lemma kind_row_exists: "i < kind_count k es \<Longrightarrow> \<exists>j < length es. s_kind (es ! j) = k \<and> kind_count k (take j es) = i"
proof (induction es rule: rev_induct)
  case (snoc e es)
  show ?case
  proof (cases "i < kind_count k es")
    case True
    with snoc.IH obtain j where "j < length es" "s_kind (es ! j) = k" "kind_count k (take j es) = i" by blast
    then show ?thesis by (intro exI[of _ j]) (simp add: nth_append)
  next
    case False
    with snoc.prems have "s_kind e = k" "kind_count k es = i" by (auto simp: kind_count_def split: if_splits)
    then show ?thesis by (intro exI[of _ "length es"]) simp
  qed
qed (simp add: kind_count_def)

lemma manifest_index: "row_ok es j \<Longrightarrow> j < length es \<Longrightarrow> s_kind_idx (es ! j) < int (kind_count (s_kind (es ! j)) es)"
proof -
  assume r: "row_ok es j" and j: "j < length es"
  have "kind_count (s_kind (es ! j)) (take (Suc j) es) = Suc (kind_count (s_kind (es ! j)) (take j es))"
    using j by (simp add: take_Suc_conv_app_nth kind_count_def)
  with kind_count_take[of "s_kind (es ! j)" "Suc j" es] r show ?thesis by (simp add: row_ok_def)
qed

definition reading_site :: "tag_reading \<Rightarrow> int" where
  "reading_site r = (case r of Data_Access rw ob sz i \<Rightarrow> i | Sync_Point op l i \<Rightarrow> i | Marker_Point mid i \<Rightarrow> i | Runtime_Value v \<Rightarrow> v)"

text \<open>A symbol map as a linker with four-byte instructions would give it.\<close>

definition linked :: "string \<rightharpoonup> int" where
  "linked l = map_option (\<lambda>v. 4096 + 4 * v) (digits 10 (drop 4 l))"

lemma linked_label: "0 \<le> s_id s \<Longrightarrow> linked (site_label s) = Some (4096 + 4 * s_id s)"
  by (simp add: linked_def site_label_def str_d_def int_sign_def digits_text_read)

section \<open>Properties\<close>

text \<open>C34: whenever the site tables are built, both fill every slot with strictly ascending keys; the
  padding is odd, above every site of the program and commands nothing; and each entry of the hot table
  at a site is the entry the full table has there.\<close>

theorem site_tables_sound:
  assumes "build RV_C sites syms slots = Inr (Built T)"
  shows "table_ok (site_addrs sites syms) slots (full_table T) \<and>
         table_ok (site_addrs sites syms) slots (hot_table T) \<and>
         set (hot_table T) \<inter> {(a, c). a \<in> site_addrs sites syms} \<subseteq> set (full_table T) \<and>
         site_addrs sites syms \<subseteq> fst ` set (full_table T)"
  using assms by (rule site_tables_sound_core)

lemma site_tables_sound_witness:
  "\<exists>T. build RV_C [blank_site 0 KIND_MARKER 0 ''actst'' [] [] [], blank_site 1 KIND_SYNC 0 ''actst'' [] [] []] linked 7 = Inr (Built T)
     \<and> table_ok {4096, 4100} 7 (full_table T)"
proof -
  let ?s = "[blank_site 0 KIND_MARKER 0 ''actst'' [] [] [], blank_site 1 KIND_SYNC 0 ''actst'' [] [] []]"
  have l: "linked (site_label (blank_site 0 k i a b c d)) = Some 4096" "linked (site_label (blank_site 1 k i a b c d)) = Some 4100"
    for k i a b c d by (simp_all add: linked_label blank_site_def)
  have "\<exists>T. build RV_C ?s linked 7 = Inr (Built T) \<and> n_full T = src_count ''actst'' ?s"
    by (rule build_exact) (auto simp: l[unfolded blank_site_def] blank_site_def src_count_def)
  then obtain T where T: "build RV_C ?s linked 7 = Inr (Built T)" by blast
  have "site_addrs ?s linked = {4096, 4100}"
    by (auto simp: site_addrs_def l[unfolded blank_site_def] blank_site_def)
  with site_tables_sound[OF T] T show ?thesis by auto
qed

text \<open>C20: a built full table attributes: at the address of each hardware site it holds one command,
  DAQ-PC to the stream sink, and its tag reads back as exactly the kind and fields of that site, its index
  included, if and only if the index fits the site field of its kind (512 data sites, 2048 others).\<close>

theorem site_tags_read_back:
  assumes "build RV_C sites syms slots = Inr (Built T)"
    and "s \<in> set sites" "s_src s = ''actst''" "s_kind s \<noteq> KIND_VALUE" "fields_fit s"
  shows "\<exists>a c. syms (site_label s) = Some a \<and> map_of (full_table T) a = Some c \<and>
    bits_of c 0 8 = 0x41 \<and> (read_tag (bits_of c 8 24) = (0, site_fields s) \<longleftrightarrow> index_fits s)"
proof -
  obtain rows where r: "set (map r_site rows) = {s \<in> set sites. s_src s = ''actst''}"
    "\<forall>r\<in>set rows. syms (site_label (r_site r)) = Some (r_addr r) \<and> tag_of RV_C (r_site r) = Inr (r_tag r)"
    "sorted (map r_addr rows)" "distinct (map r_addr rows)" "length rows \<le> slots" "rows \<noteq> []"
    "full_table T = table_rows RV_C slots rows (\<lambda>r. True)" "hot_table T = table_rows RV_C slots rows hot_row"
    "n_full T = length rows" "n_hot T = length (filter hot_row rows)"
    by (rule build_cases[OF assms(1)])
  from r(1) assms(2,3) obtain x where x: "x \<in> set rows" "r_site x = s" by force
  let ?c = "tag_cmd_word RV_C (r_tag x)"
  have mem: "(r_addr x, ?c) \<in> set (full_table T)" using x(1) unfolding r(7) table_rows_def Let_def by auto
  have "sorted_wrt (<) (map fst (full_table T))"
    using site_tables_sound_core[OF assms(1)] by (simp add: table_ok_def)
  then have "distinct (map fst (full_table T))" by (simp add: strict_sorted_iff)
  with mem have "map_of (full_table T) (r_addr x) = Some ?c" by simp
  moreover have "read_tag (r_tag x) = (0, site_reading s) \<and> take_bit 24 (r_tag x) = r_tag x"
    using r(2) x tag_reads_site[OF assms(5,4)] by auto
  ultimately show ?thesis using r(2) x site_reading_fields[OF assms(4)] tag_in_cmd[of "r_tag x"] by auto
qed

lemma site_tags_read_back_witness:
  "\<exists>T c. build RV_C [blank_site 0 KIND_MARKER 5 ''actst'' [] [] []] linked 7 = Inr (Built T) \<and>
     map_of (full_table T) 4096 = Some c \<and> read_tag (bits_of c 8 24) = (0, Marker_Point 0 5)"
proof -
  let ?s = "blank_site 0 KIND_MARKER 5 ''actst'' [] [] []"
  have l: "linked (site_label ?s) = Some 4096" by (simp add: linked_label blank_site_def)
  have "\<exists>T. build RV_C [?s] linked 7 = Inr (Built T) \<and> n_full T = src_count ''actst'' [?s]"
    by (rule build_exact) (auto simp: l[unfolded blank_site_def] blank_site_def src_count_def)
  then obtain T where T: "build RV_C [?s] linked 7 = Inr (Built T)" by blast
  have s: "s_src ?s = ''actst''" "s_kind ?s \<noteq> KIND_VALUE" "fields_fit ?s" "site_fields ?s = Marker_Point 0 5" "index_fits ?s"
    by (simp_all add: blank_site_def fields_fit_def site_fields_def index_fits_def)
  from site_tags_read_back[OF T _ s(1-3)] T l s(5) show ?thesis unfolding s(4) by auto
qed

text \<open>the tables of a generated program are always built when the linker gave every site an address
  of its own: with at most 101 functions the manifest fits the 1023 slots, and the full table counts
  \<open>10 n + 4\<close> real rows.\<close>

theorem demo_tables_built:
  assumes "0 \<le> n" "n \<le> 101" "0 < every" "generate core n share every = Inr (m, names, caps, tx)"
    and "\<forall>s\<in>set (m_sites m). syms (site_label s) \<noteq> None" "inj_on (\<lambda>s. syms (site_label s)) (set (m_sites m))"
  shows "\<exists>T. build RV_C (m_sites m) syms 1023 = Inr (Built T) \<and> n_full T = nat (10 * n + 4)"
proof -
  note rows = manifest_rows[OF assms(1,3,4)]
  have "\<forall>s\<in>set (m_sites m). s_src s = ''actst'' \<longrightarrow> s_kind s \<noteq> KIND_VALUE"
    using rows(1) by (auto simp: in_set_conv_nth row_ok_def split: if_splits)
  moreover have "distinct (map (\<lambda>s. syms (site_label s)) (filter (\<lambda>s. s_src s = ''actst'') (m_sites m)))"
    using assms(6) rows(4) by (auto simp: distinct_map intro: inj_on_subset)
  ultimately have "\<exists>T. build RV_C (m_sites m) syms 1023 = Inr (Built T) \<and> n_full T = src_count ''actst'' (m_sites m)"
    using assms(1,2,5) rows(2) by (intro build_exact) auto
  with rows(2) assms(1) show ?thesis by (simp add: nat_add_distrib nat_mult_distrib)
qed

lemma demo_tables_built_witness:
  "\<exists>m names caps tx T. generate 0 100 3 4 = Inr (m, names, caps, tx) \<and>
     build RV_C (m_sites m) linked 1023 = Inr (Built T) \<and> n_full T = 1004"
proof -
  obtain m names caps tx where m: "generate 0 100 3 4 = Inr (m, names, caps, tx)"
    using generate_ok[of 100 4 0 3] by auto
  have id: "s \<in> set (m_sites m) \<Longrightarrow> 0 \<le> s_id s" for s
    using manifest_rows(1)[OF _ _ m] by (auto simp: in_set_conv_nth row_ok_def)
  have "s = t" if "s \<in> set (m_sites m)" "t \<in> set (m_sites m)" "s_id s = s_id t" for s t
    using that manifest_rows(1)[OF _ _ m] by (auto simp: in_set_conv_nth row_ok_def)
  then have "inj_on (\<lambda>s. linked (site_label s)) (set (m_sites m))"
    by (auto simp: inj_on_def linked_label id)
  with demo_tables_built[OF _ _ _ m, of linked] m show ?thesis by (auto simp: linked_label id)
qed

text \<open>the site field of the tags is exact only for small programs: every tag of a generated manifest
  names its site's own index if and only if the program has at most 512 data sites; the shipped program,
  with 100 functions of which three in ten are ring functions, has 560.\<close>

theorem site_field_exact:
  assumes "0 \<le> n" "n \<le> 101" "0 < every" "generate core n share every = Inr (m, names, caps, tx)"
  shows "(\<forall>s\<in>set (m_sites m). s_src s = ''actst'' \<longrightarrow> reading_site (site_reading s) = s_kind_idx s) \<longleftrightarrow>
    kind_count KIND_DATA (m_sites m) \<le> 512"
proof -
  let ?es = "m_sites m"
  note rows = manifest_rows[OF assms(1,3,4)]
  have idx: "s_kind_idx s \<ge> 0 \<and> s_kind_idx s < int (kind_count (s_kind s) ?es) \<and>
      (s_kind s = KIND_VALUE) = (s_src s = ''actcap'') \<and> s_src s \<in> {''actst'', ''actcap''}" if "s \<in> set ?es" for s
  proof -
    from that obtain j where j: "j < length ?es" "s = ?es ! j" by (auto simp: in_set_conv_nth)
    with rows(1) have r: "row_ok ?es j" by simp
    from manifest_index[OF r j(1)] r show ?thesis
      by (cases "s_kind (?es ! j)") (simp_all add: row_ok_def j(2))
  qed
  have small: "kind_count k ?es < 2048" if "k \<noteq> KIND_VALUE" for k
    using kind_count_le[OF that rows(1)] rows(2) assms(1,2) by linarith
  show ?thesis
  proof
    assume all: "\<forall>s\<in>set ?es. s_src s = ''actst'' \<longrightarrow> reading_site (site_reading s) = s_kind_idx s"
    show "kind_count KIND_DATA ?es \<le> 512"
    proof (rule ccontr)
      assume "\<not> kind_count KIND_DATA ?es \<le> 512"
      then obtain j where j: "j < length ?es" "s_kind (?es ! j) = KIND_DATA" "kind_count KIND_DATA (take j ?es) = 512"
        using kind_row_exists[of 512 KIND_DATA ?es] by auto
      with rows(1) have "s_kind_idx (?es ! j) = 512" "s_src (?es ! j) = ''actst''" by (auto simp: row_ok_def)
      with all j show False by (auto simp: site_reading_def reading_site_def)
    qed
  next
    assume le: "kind_count KIND_DATA ?es \<le> 512"
    show "\<forall>s\<in>set ?es. s_src s = ''actst'' \<longrightarrow> reading_site (site_reading s) = s_kind_idx s"
    proof (intro ballI impI)
      fix s assume s: "s \<in> set ?es" "s_src s = ''actst''"
      with idx[OF s(1)] small[of "s_kind s"] le show "reading_site (site_reading s) = s_kind_idx s"
        by (cases "s_kind s") (auto simp: site_reading_def reading_site_def)
    qed
  qed
qed

lemma site_field_exact_witness:
  "\<exists>m names caps tx. generate 0 100 3 4 = Inr (m, names, caps, tx) \<and>
     \<not> (\<forall>s\<in>set (m_sites m). s_src s = ''actst'' \<longrightarrow> reading_site (site_reading s) = s_kind_idx s)"
proof -
  obtain m names caps tx where m: "generate 0 100 3 4 = Inr (m, names, caps, tx)"
    using generate_ok[of 100 4 0 3] by auto
  have "sum_list (map (data_sites 3) [0..99]) = 560" by code_simp
  with manifest_rows(3)[OF _ _ m] have "kind_count KIND_DATA (m_sites m) = 560" by simp
  with site_field_exact[OF _ _ _ m] m show ?thesis by auto
qed

end
