(* ===== verification/Wp_Set.thy ===== *)
theory Wp_Set
  imports Py_Printf "HOL-Library.List_Lexorder" "HOL-Library.Char_ord"
begin

text \<open>
  The watchpoint set of the walk program, \<open>tgc5b2_axis_wp/sw/gen_wp_set.py\<close>: the objdump parser and
  the choice of addresses by priority (entries, first body address of each leaf, call sites spread over
  the runners, deeper body addresses), written as sorted lines of \<open>wp_set.txt\<close>.
\<close>

section \<open>The disassembly\<close>

definition is_hex_digit :: "char \<Rightarrow> bool" where
  "is_hex_digit c \<longleftrightarrow> (let n = code_of c in 48 \<le> n \<and> n \<le> 57 \<or> 97 \<le> n \<and> n \<le> 102)"

text \<open>The value of a group that matched \<open>[0-9a-f]+\<close>; such a text always parses.\<close>

definition hex_number :: "string \<Rightarrow> int" where
  "hex_number h = (case py_int 16 h of Some v \<Rightarrow> v | None \<Rightarrow> 0)"

definition SECTION_PREFIX :: string where "SECTION_PREFIX = ''Disassembly of section ''"

definition section_match :: "string \<Rightarrow> string option" where
  "section_match l =
     (if startswith l SECTION_PREFIX then
        (let r = drop (length SECTION_PREFIX) l in
         if length r \<ge> 2 \<and> last r = CHR '':'' \<and> list_all (\<lambda>c. \<not> is_space c) (butlast r)
         then Some (butlast r) else None)
      else None)"

definition symbol_match :: "string \<Rightarrow> (int \<times> string) option" where
  "symbol_match l =
     (let h = takeWhile is_hex_digit l; r = dropWhile is_hex_digit l;
          n = takeWhile (\<lambda>c. c \<noteq> CHR ''>'') (drop 2 r)
      in if h \<noteq> [] \<and> startswith r '' <'' \<and> n \<noteq> [] \<and> dropWhile (\<lambda>c. c \<noteq> CHR ''>'') (drop 2 r) = ''>:''
         then Some (hex_number h, n) else None)"

type_synonym dis_instr = "int \<times> string \<times> string"

definition instr_fields :: "string \<Rightarrow> dis_instr option" where
  "instr_fields l =
     (let r0 = lstrip l; a = takeWhile is_hex_digit r0; r1 = dropWhile is_hex_digit r0 in
      if lstrip l = l \<or> a = [] \<or> \<not> startswith r1 '':'' then None
      else let r2 = lstrip (drop 1 r1); w = takeWhile is_hex_digit r2; r3 = dropWhile is_hex_digit r2;
               r4 = lstrip r3; m = takeWhile (\<lambda>c. \<not> is_space c) r4 in
        if r2 = drop 1 r1 \<or> w = [] \<or> r4 = r3 \<or> m = [] then None
        else Some (hex_number a, m, dropWhile (\<lambda>c. \<not> is_space c) r4))"

text \<open>\<open>RE_TARGET.search\<close>: the first place where the pattern matches.\<close>

fun call_target :: "string \<Rightarrow> string option" where
  "call_target [] = None"
| "call_target (c # cs) =
     (let ok = (\<lambda>d. d \<noteq> CHR ''>'' \<and> d \<noteq> CHR ''+''); n = takeWhile ok cs; r = dropWhile ok cs in
      if c = CHR ''<'' \<and> n \<noteq> [] \<and> startswith r ''>'' \<and> list_all is_space (drop 1 r)
      then Some n else call_target cs)"

definition is_leaf_name :: "string \<Rightarrow> bool" where
  "is_leaf_name n \<longleftrightarrow> startswith n ''f'' \<and> length n = 4 \<and> list_all is_decimal (drop 1 n)"

definition is_runner_name :: "string \<Rightarrow> bool" where
  "is_runner_name n \<longleftrightarrow> startswith n ''run_phase_'' \<and> length n = 12 \<and> list_all is_decimal (drop 10 n)"

record dis_state =
  d_section :: "string option"
  d_cur :: "string option"
  d_symbols :: "(int \<times> string) list"
  d_instrs :: "string \<rightharpoonup> dis_instr list"

definition dis_state0 :: dis_state where
  "dis_state0 = \<lparr>d_section = None, d_cur = None, d_symbols = [], d_instrs = (\<lambda>_. None)\<rparr>"

definition dis_line :: "string \<Rightarrow> dis_state \<Rightarrow> dis_state" where
  "dis_line line s =
     (case section_match line of
        Some n \<Rightarrow> s\<lparr>d_section := Some n, d_cur := None\<rparr>
      | None \<Rightarrow>
          if d_section s \<noteq> Some ''.text'' then s
          else case symbol_match line of
            Some (a, n) \<Rightarrow> s\<lparr>d_cur := Some n, d_symbols := d_symbols s @ [(a, n)], d_instrs := (d_instrs s)(n \<mapsto> [])\<rparr>
          | None \<Rightarrow>
              (case (instr_fields line, d_cur s) of
                 (Some i, Some n) \<Rightarrow>
                   s\<lparr>d_instrs := (d_instrs s)(n \<mapsto> (case d_instrs s n of Some b \<Rightarrow> b | None \<Rightarrow> []) @ [i])\<rparr>
               | _ \<Rightarrow> s))"

definition parse_dis :: "string list \<Rightarrow> (int \<times> string) list \<times> (string \<rightharpoonup> dis_instr list)" where
  "parse_dis lines = (let s = fold dis_line lines dis_state0 in (d_symbols s, d_instrs s))"

section \<open>The choice of addresses\<close>

type_synonym pick = "int \<times> string"

definition body_of :: "(string \<rightharpoonup> dis_instr list) \<Rightarrow> string \<Rightarrow> dis_instr list" where
  "body_of instrs n = (case instrs n of Some b \<Rightarrow> b | None \<Rightarrow> [])"

definition entry_table :: "(int \<times> string) list \<Rightarrow> string \<rightharpoonup> int" where
  "entry_table symbols = map_of (rev (map (\<lambda>(a, n). (n, a)) symbols))"

definition entry_addr :: "(int \<times> string) list \<Rightarrow> string \<Rightarrow> int" where
  "entry_addr symbols n = (case entry_table symbols n of Some a \<Rightarrow> a | None \<Rightarrow> 0)"

definition names_where :: "(string \<Rightarrow> bool) \<Rightarrow> (int \<times> string) list \<Rightarrow> string list" where
  "names_where p symbols = sort (remdups (filter p (map snd symbols)))"

definition put :: "pick \<Rightarrow> pick list \<Rightarrow> pick list" where
  "put p picks = (if fst p \<in> set (map fst picks) then picks else picks @ [p])"

definition entry_pick :: "(int \<times> string) list \<Rightarrow> string \<Rightarrow> pick" where
  "entry_pick symbols n = (entry_addr symbols n, sprintf ''entry:%s'' [AS n])"

definition body_pick :: "(int \<times> string) list \<Rightarrow> (string \<rightharpoonup> dis_instr list) \<Rightarrow> nat \<Rightarrow> string \<Rightarrow> pick" where
  "body_pick symbols instrs depth n =
     (let a = fst (body_of instrs n ! depth)
      in (a, sprintf ''body:%s+0x%x'' [AS n, AI (a - entry_addr symbols n)]))"

definition runner_calls :: "(int \<times> string) list \<Rightarrow> (string \<rightharpoonup> dis_instr list) \<Rightarrow> string \<Rightarrow> pick list" where
  "runner_calls symbols instrs n =
     concat (map (\<lambda>(a, mnem, ops).
       if mnem \<in> set [''jal'', ''jalr'']
       then (case call_target ops of
               Some f \<Rightarrow> (if is_leaf_name f
                   then [(a, sprintf ''call:%s+0x%x->%s'' [AS n, AI (a - entry_addr symbols n), AS f])] else [])
             | None \<Rightarrow> [])
       else []) (body_of instrs n))"

text \<open>\<open>for i in range(0, len(calls), step)\<close>, with its break.\<close>

function take_steps :: "nat \<Rightarrow> nat \<Rightarrow> nat \<Rightarrow> pick list \<Rightarrow> pick list \<Rightarrow> pick list" where
  "take_steps target step i calls picks =
     (if length calls \<le> i \<or> step = 0 \<or> target \<le> length picks then picks
      else take_steps target step (i + step) calls (put (calls ! i) picks))"
  by auto
termination by (relation "measure (\<lambda>(target, step, i, calls, picks). length calls - i)") auto

declare take_steps.simps [simp del]

text \<open>One round of the fill at a depth, and whether it offered anything.\<close>

fun fill_round :: "(int \<times> string) list \<Rightarrow> (string \<rightharpoonup> dis_instr list) \<Rightarrow> nat \<Rightarrow> nat \<Rightarrow> string list \<Rightarrow> pick list \<Rightarrow> pick list \<times> bool" where
  "fill_round symbols instrs target depth [] picks = (picks, False)"
| "fill_round symbols instrs target depth (n # ns) picks =
     (if target \<le> length picks then (picks, False)
      else if depth < length (body_of instrs n)
      then (fst (fill_round symbols instrs target depth ns (put (body_pick symbols instrs depth n) picks)), True)
      else fill_round symbols instrs target depth ns picks)"

definition deepest :: "(string \<rightharpoonup> dis_instr list) \<Rightarrow> string list \<Rightarrow> nat" where
  "deepest instrs names = foldr (\<lambda>n m. max (length (body_of instrs n)) m) names 0"

lemma fill_round_offers: "snd (fill_round symbols instrs target depth names picks) \<Longrightarrow> depth < deepest instrs names"
  by (induction symbols instrs target depth names picks rule: fill_round.induct)
     (auto simp: deepest_def split: if_splits)

text \<open>\<open>while len(picks) < target\<close>: the round that offers nothing is the last.\<close>

function fill_deeper :: "(int \<times> string) list \<Rightarrow> (string \<rightharpoonup> dis_instr list) \<Rightarrow> nat \<Rightarrow> nat \<Rightarrow> string list \<Rightarrow> pick list \<Rightarrow> pick list" where
  "fill_deeper symbols instrs target depth names picks =
     (if target \<le> length picks then picks
      else if snd (fill_round symbols instrs target depth names picks)
      then fill_deeper symbols instrs target (depth + 1) names (fst (fill_round symbols instrs target depth names picks))
      else fst (fill_round symbols instrs target depth names picks))"
  by auto
termination
  by (relation "measure (\<lambda>(symbols, instrs, target, depth, names, picks). deepest instrs names - depth)")
     (auto dest: fill_round_offers)

declare fill_deeper.simps [simp del]

datatype wp_set_result = No_Leaves_Or_Runners | Too_Few nat nat | Wp_Set "pick list" string

definition wp_set_text :: "string \<Rightarrow> nat \<Rightarrow> nat \<Rightarrow> nat \<Rightarrow> nat \<Rightarrow> nat \<Rightarrow> pick list \<Rightarrow> string" where
  "wp_set_text dis_name target n_entry n_body n_call n_fill picks = unlines
     ([''# SPDX-FileCopyrightText: 2026 Accemic Technologies GmbH'',
       ''# SPDX-'' @ ''License-Identifier: CERN-OHL-S-2.0 OR LicenseRef-Accemic-Commercial'',
       sprintf ''# wp_set -- GENERATED by gen_wp_set.py from %s'' [AS dis_name],
       sprintf ''# target=%d entries=%d body=%d calls=%d fill=%d''
         [AI (int target), AI (int n_entry), AI (int n_body), AI (int n_call), AI (int n_fill)],
       ''# every address is a deterministic instruction start; see'',
       ''# gen_wp_set.py header for the whitelist/exclusion rules'']
      @ map (\<lambda>(a, l). sprintf ''0x%08x %s'' [AI a, AS l]) picks)"

definition entry_picks :: "(int \<times> string) list \<Rightarrow> string list \<Rightarrow> pick list" where
  "entry_picks symbols names = fold (\<lambda>n. put (entry_pick symbols n)) names []"

definition body_picks :: "(int \<times> string) list \<Rightarrow> (string \<rightharpoonup> dis_instr list) \<Rightarrow> string list \<Rightarrow> pick list \<Rightarrow> pick list" where
  "body_picks symbols instrs leaves picks =
     fold (\<lambda>n ps. if 2 \<le> length (body_of instrs n) then put (body_pick symbols instrs 1 n) ps else ps) leaves picks"

definition call_picks :: "(int \<times> string) list \<Rightarrow> (string \<rightharpoonup> dis_instr list) \<Rightarrow> nat \<Rightarrow> string list \<Rightarrow> pick list \<Rightarrow> pick list" where
  "call_picks symbols instrs target runners picks =
     (let calls = concat (map (runner_calls symbols instrs) runners) in
      if length picks < target \<and> calls \<noteq> []
      then take_steps target (max 1 (length calls div (target - length picks))) 0 calls picks
      else picks)"

text \<open>\<open>main\<close>. The addresses of the picks differ, so sorting the pairs sorts by address.\<close>

definition gen_wp_set :: "string \<Rightarrow> nat \<Rightarrow> string list \<Rightarrow> wp_set_result" where
  "gen_wp_set dis_name target lines =
     (let (symbols, instrs) = parse_dis lines;
          leaves = names_where is_leaf_name symbols; runners = names_where is_runner_name symbols in
      if leaves = [] \<or> runners = [] then No_Leaves_Or_Runners
      else let p1 = entry_picks symbols (leaves @ runners);
               p2 = body_picks symbols instrs leaves p1;
               p3 = call_picks symbols instrs target runners p2;
               p4 = fill_deeper symbols instrs target 2 leaves p3 in
        if length p4 < target then Too_Few (length p4) target
        else let picks = sort_key fst (take target p4) in
          Wp_Set picks (wp_set_text dis_name target (length p1) (length p2 - length p1)
            (length p3 - length p2) (length p4 - length p3) picks))"

section \<open>What a set holds\<close>

text \<open>Where a pick may come from: the whitelist of the module's header.\<close>

definition pick_ok :: "(int \<times> string) list \<Rightarrow> (string \<rightharpoonup> dis_instr list) \<Rightarrow> string list \<Rightarrow> string list \<Rightarrow> pick \<Rightarrow> bool" where
  "pick_ok symbols instrs leaves runners p \<longleftrightarrow>
     (\<exists>n \<in> set leaves \<union> set runners. p = entry_pick symbols n) \<or>
     (\<exists>n \<in> set leaves. \<exists>k. 0 < k \<and> k < length (body_of instrs n) \<and> p = body_pick symbols instrs k n) \<or>
     (\<exists>n \<in> set runners. p \<in> set (runner_calls symbols instrs n))"

lemma pick_ok_body: "n \<in> set leaves \<Longrightarrow> 0 < k \<Longrightarrow> k < length (body_of instrs n) \<Longrightarrow>
    pick_ok symbols instrs leaves runners (body_pick symbols instrs k n)"
  unfolding pick_ok_def by blast

text \<open>A step of the choice: it keeps the picks so far in place, adds only allowed ones, and no address twice.\<close>

definition extends :: "(pick \<Rightarrow> bool) \<Rightarrow> pick list \<Rightarrow> pick list \<Rightarrow> bool" where
  "extends P ps qs \<longleftrightarrow> (\<exists>rs. qs = ps @ rs \<and> (\<forall>r\<in>set rs. P r)) \<and>
     (distinct (map fst ps) \<longrightarrow> distinct (map fst qs))"

lemma extends_refl [simp]: "extends P ps ps"
  by (simp add: extends_def)

lemma extends_trans: "extends P ps qs \<Longrightarrow> extends P qs rs \<Longrightarrow> extends P ps rs"
  by (fastforce simp: extends_def)

lemma put_extends: "P p \<Longrightarrow> extends P ps (put p ps)"
  by (auto simp: extends_def put_def)

lemma put_addr: "fst p \<in> set (map fst (put p ps))"
  by (auto simp: put_def)

lemma extends_addr: "extends P ps qs \<Longrightarrow> a \<in> set (map fst ps) \<Longrightarrow> a \<in> set (map fst qs)"
  by (auto simp: extends_def)

lemma fold_extends:
  "(\<And>x ps. x \<in> set xs \<Longrightarrow> extends P ps (f x ps)) \<Longrightarrow> extends P ps (fold f xs ps)"
  by (induction xs arbitrary: ps) (auto intro: extends_trans)

lemma entry_picks_all:
  "n \<in> set names \<Longrightarrow> entry_addr symbols n \<in> set (map fst (fold (\<lambda>n. put (entry_pick symbols n)) names ps))"
proof (induction names arbitrary: ps)
  case (Cons m names)
  have "extends (\<lambda>_. True) qs (fold (\<lambda>n. put (entry_pick symbols n)) names qs)" for qs
    by (rule fold_extends) (simp add: put_extends)
  from extends_addr[OF this] Cons put_addr[of "entry_pick symbols m" ps]
  show ?case by (auto simp: entry_pick_def)
qed simp

lemma take_steps_extends: "\<forall>c\<in>set calls. P c \<Longrightarrow> extends P ps (take_steps target step i calls ps)"
proof (induction target step i calls ps rule: take_steps.induct)
  case (1 target step i calls picks)
  show ?case
  proof (cases "length calls \<le> i \<or> step = 0 \<or> target \<le> length picks")
    case False
    with 1(2) have "extends P picks (put (calls ! i) picks)" by (intro put_extends) simp
    from extends_trans[OF this 1(1)[OF False 1(2)]] False show ?thesis by (simp add: take_steps.simps[of target])
  qed (simp add: take_steps.simps[of target])
qed

lemma fill_round_extends:
  "(\<And>n. n \<in> set names \<Longrightarrow> depth < length (body_of instrs n) \<Longrightarrow> P (body_pick symbols instrs depth n)) \<Longrightarrow>
     extends P ps (fst (fill_round symbols instrs target depth names ps))"
  by (induction symbols instrs target depth names ps rule: fill_round.induct)
     (auto intro: extends_trans put_extends)

lemma fill_deeper_extends:
  "(\<And>n k. n \<in> set names \<Longrightarrow> depth \<le> k \<Longrightarrow> k < length (body_of instrs n) \<Longrightarrow> P (body_pick symbols instrs k n)) \<Longrightarrow>
     extends P ps (fill_deeper symbols instrs target depth names ps)"
proof (induction symbols instrs target depth names ps rule: fill_deeper.induct)
  case (1 symbols instrs target depth names picks)
  have r: "extends P picks (fst (fill_round symbols instrs target depth names picks))"
    by (rule fill_round_extends) (simp add: 1(2))
  show ?case
  proof (cases "target \<le> length picks")
    case False
    show ?thesis
    proof (cases "snd (fill_round symbols instrs target depth names picks)")
      case True
      from 1(1)[OF False True] 1(2) have "extends P (fst (fill_round symbols instrs target depth names picks))
          (fill_deeper symbols instrs target (depth + 1) names (fst (fill_round symbols instrs target depth names picks)))"
        by simp
      with extends_trans[OF r this] False True show ?thesis by (simp add: fill_deeper.simps[of symbols instrs target])
    qed (use r False in \<open>simp add: fill_deeper.simps[of symbols instrs target]\<close>)
  qed (simp add: fill_deeper.simps[of symbols instrs target])
qed

text \<open>The whole choice, in one view.\<close>

lemma gen_wp_set_cases:
  assumes "gen_wp_set dis_name target lines = Wp_Set picks text_out"
    and "parse_dis lines = (symbols, instrs)"
  defines "leaves \<equiv> names_where is_leaf_name symbols" and "runners \<equiv> names_where is_runner_name symbols"
  shows "\<exists>all. set picks = set (take target all) \<and> target \<le> length all \<and> distinct (map fst all) \<and>
      sorted (map fst picks) \<and> distinct (map fst picks) \<and> length picks = target \<and>
      (\<forall>p\<in>set all. pick_ok symbols instrs leaves runners p) \<and>
      (\<exists>rest. all = entry_picks symbols (leaves @ runners) @ rest) \<and>
      (\<exists>a b c d. text_out = wp_set_text dis_name target a b c d picks)"
proof -
  let ?P = "pick_ok symbols instrs leaves runners"
  let ?p1 = "entry_picks symbols (leaves @ runners)"
  let ?p2 = "body_picks symbols instrs leaves ?p1"
  let ?p3 = "call_picks symbols instrs target runners ?p2"
  let ?p4 = "fill_deeper symbols instrs target 2 leaves ?p3"
  have p: "target \<le> length ?p4" "picks = sort_key fst (take target ?p4)"
    "\<exists>a b c d. text_out = wp_set_text dis_name target a b c d picks"
    using assms(1) unfolding gen_wp_set_def assms(2) leaves_def runners_def
    by (auto simp: Let_def split: if_splits)
  have e1: "extends ?P [] ?p1"
    unfolding entry_picks_def by (rule fold_extends, rule put_extends) (auto simp: pick_ok_def)
  have e2: "extends ?P ?p1 ?p2"
    unfolding body_picks_def
    by (rule fold_extends) (auto simp: pick_ok_def intro!: put_extends, metis One_nat_def lessI less_le_trans numeral_2_eq_2 zero_less_one)
  have e3: "extends ?P ?p2 ?p3"
    unfolding call_picks_def Let_def by (auto intro!: take_steps_extends simp: pick_ok_def)
  have e4: "extends ?P ?p3 ?p4"
    by (rule fill_deeper_extends) (simp add: pick_ok_body)
  have from1: "extends ?P ?p1 ?p4" using extends_trans[OF e2 extends_trans[OF e3 e4]] .
  have all: "extends ?P [] ?p4" using extends_trans[OF e1 from1] .
  then have d: "distinct (map fst ?p4)" "\<forall>p\<in>set ?p4. ?P p" by (auto simp: extends_def)
  have dt: "distinct (map fst (take target ?p4))" using d(1) by (simp add: take_map[symmetric])
  have "mset (map fst picks) = mset (map fst (take target ?p4))" unfolding p(2) by simp
  with dt have "distinct (map fst picks)" using mset_eq_imp_distinct_iff by blast
  moreover have "sorted (map fst picks)" "set picks = set (take target ?p4)" "length picks = target"
    using p(1) unfolding p(2) by simp_all
  moreover have "\<exists>rest. ?p4 = ?p1 @ rest" using from1 by (auto simp: extends_def)
  ultimately show ?thesis using p(1,3) d by blast
qed

section \<open>Properties\<close>

text \<open>a watchpoint set that is written has exactly the asked number of addresses, strictly ascending,
  each an entry of a leaf or runner, an instruction inside a leaf, or a call of a leaf in a runner; and when
  all entries fit, every leaf and every runner has its entry in the set.\<close>

lemma wp_set_whitelisted:
  assumes "gen_wp_set dis_name target lines = Wp_Set picks tx" and "parse_dis lines = (symbols, instrs)"
  shows "length picks = target \<and> sorted_wrt (<) (map fst picks) \<and>
    (\<forall>p\<in>set picks. pick_ok symbols instrs (names_where is_leaf_name symbols) (names_where is_runner_name symbols) p) \<and>
    (length (names_where is_leaf_name symbols) + length (names_where is_runner_name symbols) \<le> target \<longrightarrow>
      (\<forall>n \<in> set (names_where is_leaf_name symbols) \<union> set (names_where is_runner_name symbols).
         entry_addr symbols n \<in> set (map fst picks)))"
proof -
  let ?names = "names_where is_leaf_name symbols @ names_where is_runner_name symbols"
  obtain all rest where a: "set picks = set (take target all)" "sorted (map fst picks)" "distinct (map fst picks)"
    "length picks = target"
    "\<forall>p\<in>set all. pick_ok symbols instrs (names_where is_leaf_name symbols) (names_where is_runner_name symbols) p"
    "all = entry_picks symbols ?names @ rest"
    using gen_wp_set_cases[OF assms] by blast
  have "length (fold (\<lambda>n. put (entry_pick symbols n)) ns ps) \<le> length ps + length ns" for ns ps
  proof (induction ns arbitrary: ps)
    case (Cons n ns)
    have "length (put (entry_pick symbols n) ps) \<le> Suc (length ps)" by (simp add: put_def)
    with Cons[of "put (entry_pick symbols n) ps"] show ?case by simp
  qed simp
  then have short: "length (entry_picks symbols ?names) \<le> length ?names" unfolding entry_picks_def by (metis add_0 list.size(3))
  have "entry_addr symbols n \<in> set (map fst picks)" if n: "n \<in> set ?names" and fit: "length ?names \<le> target" for n
  proof -
    have "set (entry_picks symbols ?names) \<subseteq> set picks" unfolding a(1,6) using short fit by simp
    moreover have "entry_addr symbols n \<in> set (map fst (entry_picks symbols ?names))"
      unfolding entry_picks_def by (rule entry_picks_all[OF n])
    ultimately show ?thesis by auto
  qed
  moreover have "\<forall>p\<in>set picks. p \<in> set all" unfolding a(1) by (auto dest: in_set_takeD)
  ultimately show ?thesis using a(2-5) by (auto simp: strict_sorted_iff)
qed

definition SMALL_DIS :: "string list" where
  "SMALL_DIS = [''Disassembly of section .text:'', ''00000100 <f000>:'', '' 100:  13 nop'', '' 104:  8067 ret'',
     ''00000108 <run_phase_00>:'', '' 108:  ef jal 100 <f000>'', '' 10c:  8067 ret'']"

lemma small_dis: "case gen_wp_set ''d'' 3 SMALL_DIS of Wp_Set picks tx \<Rightarrow> map fst picks = [0x100, 0x104, 0x108] | _ \<Rightarrow> False"
  by code_simp

lemma wp_set_whitelisted_witness:
  "\<exists>picks tx. gen_wp_set ''d'' 3 SMALL_DIS = Wp_Set picks tx \<and> length picks = 3 \<and> sorted_wrt (<) (map fst picks)"
proof -
  obtain picks tx where g: "gen_wp_set ''d'' 3 SMALL_DIS = Wp_Set picks tx"
    using small_dis by (auto split: wp_set_result.splits)
  obtain symbols instrs where d: "parse_dis SMALL_DIS = (symbols, instrs)" by (cases "parse_dis SMALL_DIS")
  from wp_set_whitelisted[OF g d] g show ?thesis by blast
qed

end
