(* ===== verification/Wp_Program.thy ===== *)
theory Wp_Program
  imports Py_Printf "HOL-Library.State_Monad" "HOL-Library.Monad_Syntax"
begin

unbundle bit_operations_syntax

text \<open>
  The generator of the walk program, \<open>tgc5b2_axis_wp/sw/gen_program.py\<close>: the xorshift generator and
  its shuffle, the leaf functions, the phases, and the three texts written (\<open>walk.h\<close>, \<open>funcs.c\<close>,
  \<open>expected_walk.txt\<close>). Every draw threads the generator's state through the state monad. The module
  constants \<open>NUM_FUNCS\<close> and \<open>NUM_PHASES\<close> are arguments of the functions that read them.
\<close>

definition SEED :: int where "SEED = 0xC0FFEE01"
definition NUM_FUNCS :: nat where "NUM_FUNCS = 300"
definition NUM_PHASES :: nat where "NUM_PHASES = 64"
definition PHASE_LEN_MIN :: int where "PHASE_LEN_MIN = 10"
definition PHASE_LEN_MAX :: int where "PHASE_LEN_MAX = 14"

section \<open>The generator\<close>

type_synonym 'a rng = "(int, 'a) state"

definition xs_init :: "int \<Rightarrow> int" where
  "xs_init seed = (if seed AND 0xFFFFFFFF = 0 then 1 else seed AND 0xFFFFFFFF)"

definition xs_step :: "int \<Rightarrow> int" where
  "xs_step s =
     (let s1 = s XOR (push_bit 13 s AND 0xFFFFFFFF);
          s2 = s1 XOR drop_bit 17 s1
      in s2 XOR (push_bit 5 s2 AND 0xFFFFFFFF))"

definition rng_next :: "int rng" where
  "rng_next = State (\<lambda>s. (xs_step s, xs_step s))"

definition below :: "int \<Rightarrow> int rng" where
  "below n = do { x \<leftarrow> rng_next; State_Monad.return (x mod n) }"

definition in_range :: "int \<Rightarrow> int \<Rightarrow> int rng" where
  "in_range lo hi = do { x \<leftarrow> below (hi - lo + 1); State_Monad.return (lo + x) }"

definition swap :: "'a list \<Rightarrow> nat \<Rightarrow> nat \<Rightarrow> 'a list" where
  "swap xs i j = xs[i := xs ! j, j := xs ! i]"

text \<open>The loop runs \<open>i\<close> from the last index down to 1.\<close>

fun shuffle_from :: "nat \<Rightarrow> 'a list \<Rightarrow> 'a list rng" where
  "shuffle_from 0 xs = State_Monad.return xs"
| "shuffle_from (Suc i) xs = do {
     j \<leftarrow> below (int (Suc i) + 1);
     shuffle_from i (swap xs (Suc i) (nat j)) }"

definition shuffle :: "'a list \<Rightarrow> 'a list rng" where
  "shuffle xs = shuffle_from (length xs - 1) xs"

section \<open>Leaf functions\<close>

definition leaf_name :: "nat \<Rightarrow> string" where
  "leaf_name f = sprintf ''f%03d'' [AI (int f)]"

definition leaf_first :: "string rng" where
  "leaf_first = do {
     b \<leftarrow> below 2;
     if b \<noteq> 0 then do { v \<leftarrow> in_range 1 0x7FF; State_Monad.return (HT # sprintf ''uint32_t v = x ^ 0x%xu;'' [AI v]) }
     else do { v \<leftarrow> rng_next; State_Monad.return (HT # sprintf ''uint32_t v = x ^ 0x%08xu;'' [AI v]) } }"

definition leaf_op :: "string rng" where
  "leaf_op = do {
     opc \<leftarrow> below 5;
     if opc = 0 then do { v \<leftarrow> in_range 1 0x7FF; State_Monad.return (HT # sprintf ''v += 0x%xu;'' [AI v]) }
     else if opc = 1 then do { v \<leftarrow> rng_next; State_Monad.return (HT # sprintf ''v ^= 0x%08xu;'' [AI v]) }
     else if opc = 2 then do { sh \<leftarrow> in_range 1 31;
        State_Monad.return (HT # sprintf ''v = (v << %d) | (v >> %d);'' [AI sh, AI (32 - sh)]) }
     else if opc = 3 then State_Monad.return (HT # ''g_acc += v;'')
     else do { v \<leftarrow> in_range 1 0x7FF; State_Monad.return (HT # sprintf ''v -= 0x%xu;'' [AI v]) } }"

definition gen_leaf :: "nat \<Rightarrow> (string \<times> string) rng" where
  "gen_leaf idx = do {
     first \<leftarrow> leaf_first;
     n \<leftarrow> in_range 1 4;
     ops \<leftarrow> State_Monad.traverse_list (\<lambda>_. leaf_op) [0..<nat n];
     State_Monad.return (leaf_name idx, join_lines
       ([sprintf ''uint32_t __attribute__((noinline)) %s(uint32_t x)'' [AS (leaf_name idx)], ''{'', first]
        @ ops @ [HT # ''g_acc ^= v;'', HT # ''return v;'', ''}''])) }"

section \<open>Phases\<close>

definition deal :: "nat \<Rightarrow> 'a list \<Rightarrow> 'a list list" where
  "deal n order = map (\<lambda>p. map (\<lambda>i. order ! i) (filter (\<lambda>i. i mod n = p) [0..<length order])) [0..<n]"

fun top_up :: "nat \<Rightarrow> nat \<Rightarrow> nat list \<Rightarrow> nat list rng" where
  "top_up nf 0 xs = State_Monad.return xs"
| "top_up nf (Suc k) xs = do {
     f \<leftarrow> below (int nf);
     top_up nf k (xs @ [nat f]) }"

definition finish_phase :: "nat \<Rightarrow> nat list \<Rightarrow> nat list rng" where
  "finish_phase nf xs = do {
     target \<leftarrow> in_range PHASE_LEN_MIN PHASE_LEN_MAX;
     full \<leftarrow> top_up nf (nat target - length xs) xs;
     shuffle full }"

definition build_phases :: "nat \<Rightarrow> nat \<Rightarrow> nat list list rng" where
  "build_phases nf np = do {
     order \<leftarrow> shuffle [0..<nf];
     State_Monad.traverse_list (finish_phase nf) (deal np order) }"

section \<open>The texts\<close>

definition runner_name :: "nat \<Rightarrow> string" where
  "runner_name p = sprintf ''run_phase_%02d'' [AI (int p)]"

definition gen_note :: "nat \<Rightarrow> nat \<Rightarrow> string" where
  "gen_note nf np = sprintf
     ''GENERATED by gen_program.py (seed=0x%08X, funcs=%d, phases=%d) -- DO NOT EDIT, regenerate instead.''
     [AI SEED, AI (int nf), AI (int np)]"

definition LICENSE_TAIL :: string where
  "LICENSE_TAIL = ''License-Identifier: CERN-OHL-S-2.0 OR LicenseRef-Accemic-Commercial''"

definition walk_h :: "nat \<Rightarrow> nat \<Rightarrow> string" where
  "walk_h nf np = join_lines
     [''/* SPDX-FileCopyrightText: 2026 Accemic Technologies GmbH'',
      '' * SPDX-'' @ LICENSE_TAIL,
      sprintf '' * %s */'' [AS (gen_note nf np)],
      ''#ifndef AXIS_WP_DEMO_WALK_H'', ''#define AXIS_WP_DEMO_WALK_H'', [],
      ''#include <stdint.h>'', [],
      sprintf ''#define WALK_NUM_PHASES %du'' [AI (int np)], [],
      ''typedef void ('' @ ''*walk_phase_fn)(void);'',
      sprintf ''extern const walk_phase_fn walk_phases[%d];'' [AI (int np)],
      ''extern volatile uint32_t g_acc;'', [],
      ''#endif /* AXIS_WP_DEMO_WALK_H */'', []]"

definition call_line :: "nat \<Rightarrow> string rng" where
  "call_line f = do {
     a \<leftarrow> in_range 0 0x7FF;
     State_Monad.return (HT # sprintf ''(void)f%03d(0x%xu);'' [AI (int f), AI a]) }"

definition runner_lines :: "nat \<times> nat list \<Rightarrow> string list rng" where
  "runner_lines = (\<lambda>(p, calls). do {
     body \<leftarrow> State_Monad.traverse_list call_line calls;
     State_Monad.return ([sprintf ''static void __attribute__((noinline)) run_phase_%02d(void)'' [AI (int p)], ''{'']
       @ body @ [''}'', []]) })"

definition funcs_c :: "nat \<Rightarrow> nat \<Rightarrow> (string \<times> string) list \<Rightarrow> nat list list \<Rightarrow> string rng" where
  "funcs_c nf np leaves phases = do {
     runners \<leftarrow> State_Monad.traverse_list runner_lines (zip [0..<length phases] phases);
     State_Monad.return (join_lines
      ([''/* SPDX-FileCopyrightText: 2026 Accemic Technologies GmbH'',
        '' * SPDX-'' @ LICENSE_TAIL,
        sprintf '' * %s'' [AS (gen_note nf np)],
        '' *'',
        '' * Leaf functions are straight-line on purpose: every instruction of a'',
        '' * called leaf executes exactly once per call, so ANY leaf address is a'',
        '' * deterministic watchpoint. Phase runners use direct calls so every'',
        '' * callsite is a unique, deterministic instruction address too. */'',
        [], ''#include \"walk.h\"'', [], ''volatile uint32_t g_acc;'', []]
       @ concat (map (\<lambda>(n, body). [body, []]) leaves)
       @ concat runners
       @ [sprintf ''const walk_phase_fn walk_phases[%d] = {'' [AI (int np)]]
       @ map (\<lambda>p. HT # sprintf ''run_phase_%02d,'' [AI (int p)]) [0..<np]
       @ [''};'', []])) }"

definition walk_line :: "nat \<times> nat list \<Rightarrow> string" where
  "walk_line = (\<lambda>(p, calls). sprintf ''P%d run_phase_%02d %s''
     [AI (int p), AI (int p), AS (join_with '' '' (map leaf_name calls))])"

definition walk_header :: "nat \<Rightarrow> nat \<Rightarrow> string list" where
  "walk_header nf np =
     [''# SPDX-FileCopyrightText: 2026 Accemic Technologies GmbH'',
      ''# SPDX-'' @ LICENSE_TAIL,
      sprintf ''# expected_walk -- %s'' [AS (gen_note nf np)],
      ''# format: P<phase> <runner> <leaf...>   (execution order within the phase;'',
      ''#         the runner entry executes first, then the leaves in call order)'',
      sprintf ''# seed=0x%08X funcs=%d phases=%d'' [AI SEED, AI (int nf), AI (int np)]]"

definition walk_txt :: "nat \<Rightarrow> nat \<Rightarrow> nat list list \<Rightarrow> string" where
  "walk_txt nf np phases =
     join_lines (walk_header nf np @ map walk_line (zip [0..<length phases] phases) @ [[]])"

definition gen_files :: "nat \<Rightarrow> nat \<Rightarrow> (string \<times> string \<times> string \<times> nat list list) rng" where
  "gen_files nf np = do {
     leaves \<leftarrow> State_Monad.traverse_list gen_leaf [0..<nf];
     phases \<leftarrow> build_phases nf np;
     c \<leftarrow> funcs_c nf np leaves phases;
     State_Monad.return (walk_h nf np, c, walk_txt nf np phases, phases) }"

definition walk_main :: "string \<times> string \<times> string \<times> nat list list" where
  "walk_main = fst (run_state (gen_files NUM_FUNCS NUM_PHASES) (xs_init SEED))"

section \<open>The generator never sticks\<close>

lemma u32_bits: "0 \<le> x \<Longrightarrow> x < 4294967296 \<Longrightarrow> bit x i \<Longrightarrow> i < 32" for x :: int
  by (metis bit_take_bit_iff is_u32_def u32_id u32_take_bit)

lemma xor_left_inj:
  fixes x y :: int
  assumes k: "0 < k" and eq: "x XOR take_bit 32 (push_bit k x) = y XOR take_bit 32 (push_bit k y)"
  shows "x = y"
proof (rule bit_eqI)
  fix i show "bit x i \<longleftrightarrow> bit y i"
  proof (induction i rule: less_induct)
    case (less i)
    have b: "bit (z XOR take_bit 32 (push_bit k z)) i \<longleftrightarrow> (bit z i \<noteq> (i < 32 \<and> k \<le> i \<and> bit z (i - k)))" for z :: int
      by (simp add: bit_xor_iff bit_take_bit_iff bit_push_bit_iff)
    have "k \<le> i \<Longrightarrow> bit x (i - k) \<longleftrightarrow> bit y (i - k)" using less.IH k by simp
    with b[of x] b[of y] eq show ?case by auto
  qed
qed

lemma xor_right_inj:
  fixes x y :: int
  assumes k: "0 < k" and eq: "x XOR drop_bit k x = y XOR drop_bit k y"
    and range: "0 \<le> x" "x < 4294967296" "0 \<le> y" "y < 4294967296"
  shows "x = y"
proof (rule bit_eqI)
  fix i show "bit x i \<longleftrightarrow> bit y i"
  proof (induction "32 - i" arbitrary: i rule: less_induct)
    case less
    show ?case
    proof (cases "i < 32")
      case True
      have b: "bit (z XOR drop_bit k z) i \<longleftrightarrow> (bit z i \<noteq> bit z (k + i))" for z :: int
        by (simp add: bit_xor_iff bit_drop_bit_eq)
      have "bit x (k + i) \<longleftrightarrow> bit y (k + i)" using less.hyps[of "k + i"] k True by simp
      with b[of x] b[of y] eq show ?thesis by auto
    next
      case False
      with u32_bits range show ?thesis by blast
    qed
  qed
qed

lemma xor_u32:
  fixes x y :: int
  assumes "0 \<le> x" "x < 4294967296" "0 \<le> y" "y < 4294967296"
  shows "0 \<le> x XOR y \<and> x XOR y < 4294967296"
proof -
  have "take_bit 32 x = x" "take_bit 32 y = y" using assms by (simp_all add: take_bit_int_eq_self_iff)
  then have "take_bit 32 (x XOR y) = x XOR y" by (metis take_bit_xor)
  then have "0 \<le> x XOR y \<and> x XOR y < 2 ^ 32" unfolding take_bit_int_eq_self_iff .
  then show ?thesis by simp
qed

lemma xs_step_form:
  "xs_step s = (let s1 = s XOR take_bit 32 (push_bit 13 s); s2 = s1 XOR drop_bit 17 s1
     in s2 XOR take_bit 32 (push_bit 5 s2))"
  by (simp add: xs_step_def u32_def[symmetric] u32_take_bit)

lemma take32: "0 \<le> take_bit 32 (x :: int)" "take_bit 32 x < (4294967296 :: int)"
  using take_bit_int_less_exp[of 32 x] by simp_all

lemma xs_first_u32: "0 \<le> s \<Longrightarrow> s < 4294967296 \<Longrightarrow>
    0 \<le> s XOR take_bit 32 (push_bit 13 s) \<and> s XOR take_bit 32 (push_bit 13 s) < (4294967296 :: int)"
  by (intro xor_u32 take32)

lemma xs_second_u32:
  assumes "0 \<le> s" "s < (4294967296 :: int)"
  shows "0 \<le> s XOR drop_bit 17 s \<and> s XOR drop_bit 17 s < (4294967296 :: int)"
proof (rule xor_u32[OF assms])
  have "drop_bit 17 s \<le> s" using assms(1) by (simp add: drop_bit_int_def)
  with assms show "0 \<le> drop_bit 17 s" "drop_bit 17 s < 4294967296" by simp_all
qed

lemma xs_step_u32:
  assumes "0 \<le> s" "s < 4294967296"
  shows "0 \<le> xs_step s \<and> xs_step s < 4294967296"
  unfolding xs_step_form Let_def
  using xs_second_u32 xs_first_u32[OF assms] by (intro xor_u32 take32) blast+

lemma xs_step_inj:
  assumes "0 \<le> s" "s < 4294967296" "0 \<le> t" "t < 4294967296" "xs_step s = xs_step t"
  shows "s = t"
proof -
  let ?f = "\<lambda>s :: int. s XOR take_bit 32 (push_bit 13 s)"
  let ?g = "\<lambda>s :: int. s XOR drop_bit 17 s"
  have "?g (?f s) = ?g (?f t)"
    by (rule xor_left_inj[of 5]) (use assms(5) in \<open>simp_all only: xs_step_form Let_def zero_less_numeral\<close>)
  then have "?f s = ?f t"
    by (rule xor_right_inj[of 17, rotated]) (use xs_first_u32 assms(1-4) in simp_all)
  then show ?thesis by (rule xor_left_inj[of 13, rotated]) simp
qed

lemma xs_step_zero: "xs_step 0 = 0"
  by (simp add: xs_step_def)

section \<open>What a draw can give\<close>

text \<open>Postconditions that hold whatever the state of the generator is.\<close>

named_theorems pred_intros \<open>postconditions of generator actions\<close>

lemma pred_state_iff: "pred_state P m \<longleftrightarrow> (\<forall>s. P (fst (run_state m s)))"
  by (metis pred_stateI pred_state_run_state fst_conv)

lemma pred_return: "P x \<Longrightarrow> pred_state P (State_Monad.return x)"
  by (simp add: pred_state_iff)

lemma pred_bind: "pred_state Q m \<Longrightarrow> (\<And>x. Q x \<Longrightarrow> pred_state P (f x)) \<Longrightarrow> pred_state P (State_Monad.bind m f)"
  by (simp add: pred_state_iff split_beta)

lemma pred_traverse:
  "(\<And>x. x \<in> set xs \<Longrightarrow> pred_state (R x) (f x)) \<Longrightarrow> pred_state (list_all2 R xs) (State_Monad.traverse_list f xs)"
proof (induction xs)
  case (Cons a xs)
  have tl: "pred_state (list_all2 R xs) (State_Monad.traverse_list f xs)" using Cons by simp
  have "pred_state (list_all2 R (a # xs)) (do { ys \<leftarrow> State_Monad.traverse_list f xs; State_Monad.return (y # ys) })"
    if "R a y" for y by (rule pred_bind[OF tl]) (simp add: pred_return that)
  with Cons.prems[of a] show ?case by (auto intro: pred_bind)
qed (simp add: pred_return)

lemma pred_weaken: "pred_state Q m \<Longrightarrow> (\<And>x. Q x \<Longrightarrow> P x) \<Longrightarrow> pred_state P m"
  by (simp add: pred_state_iff)

lemma pred_below: "0 < n \<Longrightarrow> pred_state (\<lambda>x. 0 \<le> x \<and> x < n) (below n)"
  by (simp add: pred_state_iff below_def split_beta)

lemma pred_in_range: "lo \<le> hi \<Longrightarrow> pred_state (\<lambda>x. lo \<le> x \<and> x \<le> hi) (in_range lo hi)"
  unfolding in_range_def by (rule pred_bind[OF pred_below]) (auto intro: pred_return)

section \<open>The shuffle permutes, the phases cover\<close>

lemma mset_swap_nth: "i < length xs \<Longrightarrow> j < length xs \<Longrightarrow> mset (swap xs i j) = mset xs"
  by (simp add: swap_def mset_swap)

lemma length_swap [simp]: "length (swap xs i j) = length xs"
  by (simp add: swap_def)

lemma shuffle_from_mset:
  "i = 0 \<or> i < length xs \<Longrightarrow> pred_state (\<lambda>ys. mset ys = mset xs) (shuffle_from i xs)"
proof (induction i xs rule: shuffle_from.induct)
  case (2 i xs)
  show ?case
    unfolding shuffle_from.simps
  proof (rule pred_bind[OF pred_below], simp)
    fix j :: int assume j: "0 \<le> j \<and> j < int (Suc i) + 1"
    with 2(2) have eq: "mset (swap xs (Suc i) (nat j)) = mset xs" by (intro mset_swap_nth) auto
    have "pred_state (\<lambda>ys. mset ys = mset (swap xs (Suc i) (nat j))) (shuffle_from i (swap xs (Suc i) (nat j)))"
      using 2 by simp
    then show "pred_state (\<lambda>ys. mset ys = mset xs) (shuffle_from i (swap xs (Suc i) (nat j)))"
      unfolding eq .
  qed
qed (simp add: pred_return)

lemma shuffle_mset: "pred_state (\<lambda>ys. mset ys = mset xs) (shuffle xs)"
  unfolding shuffle_def by (rule shuffle_from_mset) arith

lemma top_up_ok:
  "0 < nf \<Longrightarrow> pred_state (\<lambda>ys. length ys = length xs + k \<and> set xs \<subseteq> set ys \<and> set ys \<subseteq> set xs \<union> {..<nf}) (top_up nf k xs)"
proof (induction nf k xs rule: top_up.induct)
  case (2 nf k xs)
  have "0 < int nf" using 2(2) by simp
  then show ?case
    unfolding top_up.simps
    by (rule pred_bind[OF pred_below]) (rule pred_weaken[OF 2(1)[OF 2(2)]], auto)
qed (simp add: pred_return)

definition phase_ok :: "nat \<Rightarrow> nat list \<Rightarrow> nat list \<Rightarrow> bool" where
  "phase_ok nf dealt ph \<longleftrightarrow> 10 \<le> length ph \<and> length ph \<le> max 14 (length dealt) \<and>
     set dealt \<subseteq> set ph \<and> set ph \<subseteq> set dealt \<union> {..<nf}"

lemma finish_phase_ok:
  assumes "0 < nf"
  shows "pred_state (phase_ok nf xs) (finish_phase nf xs)"
  unfolding finish_phase_def
proof (rule pred_bind[OF pred_in_range])
  show "PHASE_LEN_MIN \<le> PHASE_LEN_MAX" by (simp add: PHASE_LEN_MIN_def PHASE_LEN_MAX_def)
  fix t assume t: "PHASE_LEN_MIN \<le> t \<and> t \<le> PHASE_LEN_MAX"
  show "pred_state (phase_ok nf xs) (do { full \<leftarrow> top_up nf (nat t - length xs) xs; shuffle full })"
  proof (rule pred_bind[OF top_up_ok[OF assms]])
    fix ys assume ys: "length ys = length xs + (nat t - length xs) \<and> set xs \<subseteq> set ys \<and> set ys \<subseteq> set xs \<union> {..<nf}"
    have "phase_ok nf xs zs" if "mset zs = mset ys" for zs
      using ys t mset_eq_length[OF that] mset_eq_setD[OF that]
      by (auto simp: phase_ok_def PHASE_LEN_MIN_def PHASE_LEN_MAX_def)
    then show "pred_state (phase_ok nf xs) (shuffle ys)"
      by (rule pred_weaken[OF shuffle_mset])
  qed
qed

lemma deal_covers: "0 < n \<Longrightarrow> (\<Union>ph\<in>set (deal n xs). set ph) = set xs"
proof -
  assume n: "0 < n"
  have "x \<in> set xs \<Longrightarrow> \<exists>i<length xs. i mod n < n \<and> xs ! i = x" for x
    using n by (auto simp: in_set_conv_nth)
  then show ?thesis by (fastforce simp: deal_def)
qed

lemma suc_mod_zero: "p < n \<Longrightarrow> Suc (m + (n - 1 - p)) mod n = 0 \<longleftrightarrow> m mod n = p"
proof -
  assume p: "p < n"
  have "Suc (m + (n - 1 - p)) mod n = 0 \<longleftrightarrow> int n dvd int (Suc (m + (n - 1 - p)))"
    by (metis of_nat_dvd_iff dvd_eq_mod_eq_0)
  also have "int (Suc (m + (n - 1 - p))) = (int m - int p) + int n" using p by simp
  also have "int n dvd (int m - int p) + int n \<longleftrightarrow> int m mod int n = int p mod int n"
    by (simp add: mod_eq_dvd_iff)
  also have "\<dots> \<longleftrightarrow> m mod n = p mod n" by (metis of_nat_eq_iff of_nat_mod)
  finally show ?thesis using p by simp
qed

lemma deal_length:
  assumes "ph \<in> set (deal n xs)"
  shows "length ph \<le> (length xs + n - 1) div n"
proof -
  obtain p where p: "p < n" "ph = map (\<lambda>i. xs ! i) (filter (\<lambda>i. i mod n = p) [0..<length xs])"
    using assms by (auto simp: deal_def)
  have "length (filter (\<lambda>i. i mod n = p) [0..<m]) = (m + (n - 1 - p)) div n" for m
  proof (induction m)
    case (Suc m)
    have "(Suc m + (n - 1 - p)) div n = (m + (n - 1 - p)) div n + (if m mod n = p then 1 else 0)"
    proof -
      have "Suc (m + (n - 1 - p)) mod n = 0 \<longleftrightarrow> m mod n = p"
        using suc_mod_zero[OF p(1)] by simp
      then show ?thesis by (simp add: div_Suc)
    qed
    with Suc show ?case by simp
  qed (use p(1) in simp)
  then have "length ph = (length xs + (n - 1 - p)) div n" unfolding p(2) by simp
  also have "\<dots> \<le> (length xs + n - 1) div n" using p(1) by (intro div_le_mono) simp
  finally show ?thesis .
qed

definition phases_ok :: "nat \<Rightarrow> nat \<Rightarrow> nat list list \<Rightarrow> bool" where
  "phases_ok nf np ps \<longleftrightarrow> length ps = np \<and> (\<Union>ph\<in>set ps. set ph) = {..<nf} \<and>
     (\<forall>ph\<in>set ps. 10 \<le> length ph \<and> length ph \<le> max 14 ((nf + np - 1) div np))"

lemma build_phases_ok:
  assumes "0 < nf" "0 < np"
  shows "pred_state (phases_ok nf np) (build_phases nf np)"
  unfolding build_phases_def
proof (rule pred_bind[OF shuffle_mset])
  fix order assume "mset order = mset [0..<nf]"
  then have order: "set order = {..<nf}" "length order = nf"
    using mset_eq_setD mset_eq_length by fastforce+
  have "phases_ok nf np ps" if ps: "list_all2 (phase_ok nf) (deal np order) ps" for ps
  proof -
    have len: "length ps = np" using list_all2_lengthD[OF ps] by (simp add: deal_def)
    have each: "phase_ok nf (deal np order ! k) (ps ! k)" if "k < np" for k
      using list_all2_nthD2[OF ps, of k] that len by simp
    have dealt: "deal np order ! k \<in> set (deal np order)" if "k < np" for k
      using that by (simp add: deal_def)
    have up: "x < nf" if "x \<in> set ph" "ph \<in> set ps" for x ph
    proof -
      obtain k where k: "k < np" "ph = ps ! k" using \<open>ph \<in> set ps\<close> len by (metis in_set_conv_nth)
      have "set (deal np order ! k) \<subseteq> {..<nf}" using deal_covers[OF assms(2), of order] dealt[OF k(1)] order(1) by blast
      with each[OF k(1)] that(1) k(2) show ?thesis by (auto simp: phase_ok_def)
    qed
    have down: "\<exists>ph\<in>set ps. x \<in> set ph" if x: "x < nf" for x
    proof -
      have "x \<in> (\<Union>ph\<in>set (deal np order). set ph)" using deal_covers[OF assms(2), of order] order(1) x by simp
      then obtain ph where "ph \<in> set (deal np order)" "x \<in> set ph" by blast
      then obtain k where k: "k < length (deal np order)" "x \<in> set (deal np order ! k)" by (metis in_set_conv_nth)
      then have "k < np" by (simp add: deal_def)
      with each[OF this] k(2) len show ?thesis by (intro bexI[of _ "ps ! k"]) (auto simp: phase_ok_def)
    qed
    have "10 \<le> length ph \<and> length ph \<le> max 14 ((nf + np - 1) div np)" if "ph \<in> set ps" for ph
    proof -
      obtain k where k: "k < np" "ph = ps ! k" using \<open>ph \<in> set ps\<close> len by (metis in_set_conv_nth)
      with each[OF k(1)] deal_length[OF dealt[OF k(1)]] order(2) show ?thesis by (auto simp: phase_ok_def)
    qed
    moreover have "(\<Union>ph\<in>set ps. set ph) = {..<nf}"
      by (rule equalityI; rule subsetI) (auto dest: up, blast dest: down)
    ultimately show ?thesis using len by (simp add: phases_ok_def)
  qed
  then show "pred_state (phases_ok nf np) (State_Monad.traverse_list (finish_phase nf) (deal np order))"
    by (rule pred_weaken[OF pred_traverse[where R = "phase_ok nf", OF finish_phase_ok[OF assms(1)]]])
qed

lemma gen_files_ok:
  assumes "0 < nf" "0 < np"
  shows "pred_state (\<lambda>(h, c, w, ps). phases_ok nf np ps \<and> w = walk_txt nf np ps) (gen_files nf np)"
proof -
  have any: "pred_state (\<lambda>_. True) m" for m :: "'a rng" by (simp add: pred_state_iff)
  show ?thesis
    unfolding gen_files_def
    by (rule pred_bind[OF any], rule pred_bind[OF build_phases_ok[OF assms]], rule pred_bind[OF any])
       (simp add: pred_return)
qed

section \<open>Properties\<close>

text \<open>the generator steps one-to-one over the 32-bit states and never sticks: from any state but zero,
  which the seeding excludes, it goes to another such state, and two different states to two different ones.\<close>

theorem generator_bijective:
  "inj_on xs_step {1..<2 ^ 32} \<and> xs_step ` {1..<2 ^ 32} = {1..<2 ^ 32} \<and> xs_init seed \<in> {1..<2 ^ 32}"
proof -
  let ?S = "{1..<2 ^ 32} :: int set"
  have inj: "inj_on xs_step ?S" by (rule inj_onI) (rule xs_step_inj, auto)
  have "xs_step x \<in> ?S" if x: "x \<in> ?S" for x
  proof -
    have "xs_step x \<noteq> 0" using xs_step_inj[of x 0] xs_step_zero x by auto
    with xs_step_u32[of x] x show ?thesis by auto
  qed
  then have "xs_step ` ?S \<subseteq> ?S" by blast
  with inj have "xs_step ` ?S = ?S" by (intro endo_inj_surj) simp_all
  moreover have "xs_init seed \<in> ?S"
  proof -
    define v where "v = seed AND 0xFFFFFFFF"
    have "0 \<le> v" "v < 4294967296" using u32_range[of seed] by (simp_all add: v_def u32_def)
    then show ?thesis unfolding xs_init_def v_def[symmetric] by simp
  qed
  ultimately show ?thesis using inj by blast
qed

text \<open>the phases cover the program: for every seed, the generator gives the asked number of phases,
  each of 10 to 14 calls (or as many leaves as one phase is dealt, when that is more), and the leaves they
  call are exactly the leaves generated.\<close>

lemma phases_cover_leaves:
  assumes "0 < nf" "0 < np"
  shows "case fst (run_state (gen_files nf np) (xs_init seed)) of (h, c, w, ps) \<Rightarrow>
    length ps = np \<and> (\<Union>ph\<in>set ps. set ph) = {..<nf} \<and>
    (\<forall>ph\<in>set ps. 10 \<le> length ph \<and> length ph \<le> max 14 ((nf + np - 1) div np))"
  using gen_files_ok[OF assms] by (auto simp: pred_state_iff phases_ok_def split: prod.splits)

lemma phases_cover_leaves_witness:
  "case walk_main of (h, c, w, ps) \<Rightarrow> length ps = 64 \<and> (\<Union>ph\<in>set ps. set ph) = {..<300} \<and>
     (\<forall>ph\<in>set ps. 10 \<le> length ph \<and> length ph \<le> 14)"
  using phases_cover_leaves[of 300 64 SEED]
  by (simp only: walk_main_def NUM_FUNCS_def NUM_PHASES_def) simp

end
