(* ===== verification/Wp_Oracle.thy ===== *)
theory Wp_Oracle
  imports Wp_Set Wp_Program Wp_Checks Wp_Indirect
begin

unbundle bit_operations_syntax

text \<open>
  From the walk to the loaded table: the consistency gate \<open>tgc5b2_axis_wp/sw/check_consistency.py\<close>,
  which derives the expected hits, and the host artifacts \<open>tgc5b2_axis_wp/board/wp_gen.py\<close>: the slot
  table, the expectation file and what the readers of those files get back. The parser of the
  disassembly is the one of \<open>Wp_Set\<close>.
\<close>

section \<open>The consistency gate\<close>

definition split_once :: "string \<Rightarrow> string \<times> string" where
  "split_once s = (takeWhile (\<lambda>c. \<not> is_space c) s, lstrip (dropWhile (\<lambda>c. \<not> is_space c) s))"

fun load_wp_set :: "string list \<Rightarrow> exn + pick list" where
  "load_wp_set [] = Inr []"
| "load_wp_set (line # ls) =
     (let s = strip line in
      if s = [] \<or> startswith s ''#'' then load_wp_set ls
      else let (a, label) = split_once s in
        if label = [] then Inl (Exn ValueError ''not enough values to unpack'' [])
        else case py_int 16 a of
            None \<Rightarrow> Inl (Exn ValueError ''invalid literal for int() with base 16'' [AS a])
          | Some v \<Rightarrow> (case load_wp_set ls of Inl e \<Rightarrow> Inl e | Inr ps \<Rightarrow> Inr ((v, label) # ps)))"

fun load_walk :: "string list \<Rightarrow> exn + (int \<times> string list) list" where
  "load_walk [] = Inr []"
| "load_walk (line # ls) =
     (let s = strip line in
      if s = [] \<or> startswith s ''#'' then load_walk ls
      else let toks = split_ws s in
        if \<not> startswith (hd toks) ''P'' then load_walk ls
        else case py_int 10 (drop 1 (hd toks)) of
            None \<Rightarrow> Inl (Exn ValueError ''invalid literal for int() with base 10'' [AS (drop 1 (hd toks))])
          | Some p \<Rightarrow> (case load_walk ls of Inl e \<Rightarrow> Inl e | Inr ws \<Rightarrow> Inr ((p, tl toks) # ws)))"

datatype e0_fail =
    Duplicate_Wp nat | Outside_Text int string | Not_Instr_Start int string
  | Wrong_Entry string "int option" | Walk_Unknown string

text \<open>The instruction addresses: those of every symbol's body.\<close>

definition instr_addrs :: "(int \<times> string) list \<Rightarrow> (string \<rightharpoonup> dis_instr list) \<Rightarrow> int list" where
  "instr_addrs symbols instrs = concat (map (\<lambda>n. map fst (body_of instrs n)) (map snd symbols))"

definition wp_fails :: "(int \<times> string) list \<Rightarrow> int list \<Rightarrow> pick \<Rightarrow> e0_fail list" where
  "wp_fails symbols addrs = (\<lambda>(a, label).
     (if \<not> (Min (set addrs) \<le> a \<and> a \<le> Max (set addrs)) then [Outside_Text a label]
      else if a \<notin> set addrs then [Not_Instr_Start a label] else [])
     @ (if startswith label ''entry:'' \<and> entry_table symbols (drop 6 label) \<noteq> Some a
        then [Wrong_Entry label (entry_table symbols (drop 6 label))] else []))"

definition e0_fails :: "(int \<times> string) list \<Rightarrow> int list \<Rightarrow> pick list \<Rightarrow> (int \<times> string list) list \<Rightarrow> e0_fail list" where
  "e0_fails symbols addrs wp walk =
     (let n = card (fst ` set wp) in
      (if n \<noteq> length wp then [Duplicate_Wp (length wp - n)] else [])
      @ concat (map (wp_fails symbols addrs) wp)
      @ map Walk_Unknown (filter (\<lambda>n. entry_table symbols n = None)
          (sort (remdups (concat (map snd walk))))))"

text \<open>The hits of one phase: the walked entries that are watchpoints, numbered.\<close>

fun phase_hits :: "(int \<times> string) list \<Rightarrow> int set \<Rightarrow> int \<Rightarrow> nat \<Rightarrow> string list \<Rightarrow> string list" where
  "phase_hits symbols wp_addrs phase seq [] = []"
| "phase_hits symbols wp_addrs phase seq (n # ns) =
     (if entry_addr symbols n \<in> wp_addrs
      then sprintf ''P%d %d 0x%08x %s'' [AI phase, AI (int seq), AI (entry_addr symbols n), AS n]
             # phase_hits symbols wp_addrs phase (seq + 1) ns
      else phase_hits symbols wp_addrs phase seq ns)"

definition hits_header :: "string \<Rightarrow> string \<Rightarrow> string list" where
  "hits_header walk_name wp_name =
     [''# SPDX-FileCopyrightText: 2026 Accemic Technologies GmbH'',
      ''# SPDX-'' @ ''License-Identifier: CERN-OHL-S-2.0 OR LicenseRef-Accemic-Commercial'',
      sprintf ''# expected_hits -- derived by check_consistency.py from %s + %s'' [AS walk_name, AS wp_name],
      ''# format: P<phase> <seq> 0x<addr8> <name>'',
      ''# Only function-ENTRY hits are listed; call:/body: watchpoint hits of the'',
      ''# same phase interleave between these in the raw record stream (filter on'',
      ''# the entry: labels of wp_set.txt). With the endless walk the whole file'',
      ''# repeats from P0 after the last phase.'']"

definition hit_lines :: "(int \<times> string) list \<Rightarrow> int set \<Rightarrow> (int \<times> string list) list \<Rightarrow> string list" where
  "hit_lines symbols wp_addrs walk = concat (map (\<lambda>(p, names). phase_hits symbols wp_addrs p 0 names) walk)"

datatype e0_result = No_Instructions | E0_Fail "e0_fail list" | E0_All_Pass string nat nat nat nat

definition check_consistency ::
    "string \<Rightarrow> string \<Rightarrow> string list \<Rightarrow> string list \<Rightarrow> string list \<Rightarrow> exn + e0_result" where
  "check_consistency walk_name wp_name dis_lines wp_lines walk_lines =
     (let (symbols, instrs) = parse_dis dis_lines; addrs = instr_addrs symbols instrs in
      if addrs = [] then Inr No_Instructions
      else case load_wp_set wp_lines of Inl e \<Rightarrow> Inl e
      | Inr wp \<Rightarrow>
          (case load_walk walk_lines of Inl e \<Rightarrow> Inl e
           | Inr walk \<Rightarrow>
               (let fails = e0_fails symbols addrs wp walk; hits = hit_lines symbols (set (map fst wp)) walk in
                if fails \<noteq> [] then Inr (E0_Fail fails)
                else Inr (E0_All_Pass (unlines (hits_header walk_name wp_name @ hits))
                  (card (set (concat (map snd walk)))) (card (set addrs)) (length wp) (length hits)))))"

section \<open>The host artifacts\<close>

definition N_SLOTS :: nat where "N_SLOTS = 1023"

fun read_hits :: "string list \<Rightarrow> exn + int list" where
  "read_hits [] = Inr []"
| "read_hits (line # ls) =
     (let s = strip line; p = split_ws s in
      if s = [] \<or> startswith s ''#'' \<or> length p < 3 \<or> \<not> startswith (hd p) ''P'' then read_hits ls
      else case py_int 16 (p ! 2) of
          None \<Rightarrow> Inl (Exn ValueError ''invalid literal for int() with base 16'' [AS (p ! 2)])
        | Some v \<Rightarrow> (case read_hits ls of Inl e \<Rightarrow> Inl e | Inr hs \<Rightarrow> Inr (v # hs)))"

definition distinct_hits :: "int list \<Rightarrow> int list" where
  "distinct_hits hits = fold (\<lambda>h ds. if h \<in> set ds then ds else ds @ [h]) hits []"

definition filler_keys :: "int \<Rightarrow> nat \<Rightarrow> int list" where
  "filler_keys maxa n = map (\<lambda>j. (maxa AND NOT 3) + 5 + 2 * int j) [0..<n]"

definition asserting :: "bool \<Rightarrow> string \<Rightarrow> exn + 'a \<Rightarrow> exn + 'a" where
  "asserting b msg r = (if b then r else Inl (Exn AssertionError msg []))"

definition slot_table :: "int list \<Rightarrow> exn + int list \<times> nat" where
  "slot_table hits =
     (let ds = distinct_hits hits; tbl0 = sort ds; tbl = tbl0 @ filler_keys (last tbl0) (N_SLOTS - length ds) in
      asserting (700 \<le> length hits \<and> length hits \<le> 1000) ''oracle implausible''
      (asserting (300 \<le> length ds \<and> length ds \<le> N_SLOTS - 2) ''implausible distinct address count''
      (asserting (list_all even ds) ''a real address is odd?''
      (asserting (list_all (\<lambda>i. tbl ! (i - 1) < tbl ! i) [1..<N_SLOTS]) ''slots not strictly ascending''
        (Inr (tbl, length ds))))))"

definition slot_index :: "int list \<Rightarrow> int \<rightharpoonup> nat" where
  "slot_index tbl = map_of (rev (zip tbl [0..<length tbl]))"

definition slot_or_0 :: "int list \<Rightarrow> int \<Rightarrow> nat" where
  "slot_or_0 tbl a = (case slot_index tbl a of Some i \<Rightarrow> i | None \<Rightarrow> 0)"

definition wp_table_text :: "int list \<Rightarrow> string" where
  "wp_table_text tbl = unlines (map (\<lambda>(i, a). sprintf ''%d 0x%08x 0x%08x''
     [AI (int i), AI a, AI (cmd_word a (int i))]) (zip [0..<length tbl] tbl))"

definition slot_line :: "int list \<Rightarrow> int \<Rightarrow> string" where
  "slot_line tbl a = sprintf ''0x%08x slot=%d'' [AI a, AI (int (slot_or_0 tbl a))]"

definition hex_text :: "string list \<Rightarrow> string" where
  "hex_text lines = join_lines (filter (\<lambda>l. l \<noteq> []) (map strip lines)) @ [NL]"

record wp_artifacts =
  wp_table_txt :: string
  wp_real_txt :: string
  expected_full_txt :: string
  prog_hex :: string

definition wp_gen :: "string list \<Rightarrow> string list \<Rightarrow> exn + wp_artifacts" where
  "wp_gen hit_file hex_file =
     (case read_hits hit_file of Inl e \<Rightarrow> Inl e
      | Inr hits \<Rightarrow>
          (case slot_table hits of Inl e \<Rightarrow> Inl e
           | Inr (tbl, n_real) \<Rightarrow>
               Inr \<lparr>wp_table_txt = wp_table_text tbl,
                    wp_real_txt = unlines (map (slot_line tbl) (take n_real tbl)),
                    expected_full_txt = unlines (map (slot_line tbl) hits),
                    prog_hex = hex_text hex_file\<rparr>))"

text \<open>\<open>load_slots\<close> of \<open>board/wp_check.py\<close>: the slot of an address, read back from the table file.\<close>

fun load_slots :: "string list \<Rightarrow> (int \<rightharpoonup> int) \<Rightarrow> exn + (int \<rightharpoonup> int)" where
  "load_slots [] slots = Inr slots"
| "load_slots (line # ls) slots =
     (let p = split_ws line in
      if length p < 3 then load_slots ls slots
      else case (py_int 16 (p ! 1), py_int 10 (p ! 0)) of
          (Some a, Some i) \<Rightarrow> load_slots ls (slots(a \<mapsto> i))
        | _ \<Rightarrow> Inl (Exn ValueError ''invalid literal for int()'' []))"

section \<open>The walk file read back\<close>

lemma leaf_name_form: "leaf_name f = ''f'' @ replicate (3 - length (digits_text 10 f)) (CHR ''0'') @ digits_text 10 f"
  by (simp add: leaf_name_def sprintf.simps(2) convert_arg_def int_sign_def int_body_def)

lemma runner_name_form: "runner_name p = ''run_phase_'' @ replicate (2 - length (digits_text 10 p)) (CHR ''0'') @ digits_text 10 p"
  by (simp add: runner_name_def sprintf.simps(2) convert_arg_def int_sign_def int_body_def)

lemma name_words [simp]: "plain_word (leaf_name f)" "plain_word (runner_name p)"
  using digits_text_word[of 10 f] digits_text_word[of 10 p]
  by (auto simp: leaf_name_form runner_name_form plain_word_def is_space_def code_of_def)

definition walk_words :: "nat \<times> nat list \<Rightarrow> string list" where
  "walk_words = (\<lambda>(p, calls). (''P'' @ str_d (int p)) # runner_name p # map leaf_name calls)"

lemma walk_words_plain: "list_all plain_word (walk_words pc)"
  by (auto simp: walk_words_def split_beta list_all_iff)

lemma walk_line_words: "snd pc \<noteq> [] \<Longrightarrow> walk_line pc = join_with '' '' (walk_words pc)"
  by (cases pc) (auto simp: walk_line_def walk_words_def join_with_Cons runner_name_form
      sprintf.simps(2) convert_arg_def int_sign_def int_body_def pad_left_def str_d_def)

lemma walk_header_comments: "list_all comment_line (walk_header nf np)"
proof -
  have "NL \<notin> set (gen_note nf np)" unfolding gen_note_def by (rule sprintf_no_NL) (auto simp: NL_def)
  then show ?thesis
    unfolding walk_header_def LICENSE_TAIL_def list.pred_inject append_Cons append_Nil
    by (intro conjI TrueI comment_sprintf comment_plain) (simp_all add: NL_def)
qed

lemma load_walk_comments: "list_all comment_line cs \<Longrightarrow> load_walk (cs @ ls) = load_walk ls"
  by (induction cs) (auto dest: comment_strip)

lemma load_walk_words:
  "load_walk (map (\<lambda>pc. join_with '' '' (walk_words pc)) pcs) = Inr (map (\<lambda>pc. (int (fst pc), tl (walk_words pc))) pcs)"
proof (induction pcs)
  case (Cons pc pcs)
  let ?w = "walk_words pc"
  have w: "?w \<noteq> []" "list_all plain_word ?w" by (simp add: walk_words_def split_beta, rule walk_words_plain)
  have hd: "hd ?w = CHR ''P'' # str_d (int (fst pc))" by (simp add: walk_words_def split_beta)
  have s: "strip (join_with '' '' ?w) = join_with '' '' ?w" by (rule strip_join[OF w(2,1)])
  have ne: "join_with '' '' ?w \<noteq> []" by (rule join_with_nonempty[OF w(2,1)])
  have nc: "\<not> startswith (join_with '' '' ?w) ''#''"
    using hd by (cases ?w) (auto simp: join_with_Cons startswith_def w(1))
  have p: "startswith (hd ?w) ''P''" "py_int 10 (drop 1 (hd ?w)) = Some (int (fst pc))"
    unfolding hd by (simp_all add: startswith_def py_int_str_d)
  show ?case
    using Cons.IH by (simp add: s ne nc p[simplified] split_ws_join[OF w(2)] Let_def)
qed simp

lemma walk_txt_read:
  assumes "\<forall>ph\<in>set phases. ph \<noteq> []"
  shows "load_walk (file_lines (walk_txt nf np phases)) =
    Inr (map (\<lambda>(p, calls). (int p, runner_name p # map leaf_name calls)) (zip [0..<length phases] phases))"
proof -
  let ?pcs = "zip [0..<length phases] phases"
  have ne: "\<forall>pc\<in>set ?pcs. snd pc \<noteq> []" using assms by (auto dest: set_zip_rightD)
  have lines: "map walk_line ?pcs = map (\<lambda>pc. join_with '' '' (walk_words pc)) ?pcs"
    using ne by (intro map_cong) (auto simp: walk_line_words)
  have nl: "\<forall>l\<in>set (walk_header nf np @ map walk_line ?pcs). NL \<notin> set l"
    using walk_header_comments[of nf np] NL_join[OF walk_words_plain]
    unfolding lines by (auto simp: list_all_iff comment_line_def)
  have "walk_txt nf np phases = unlines (walk_header nf np @ map walk_line ?pcs)"
    using join_lines_unlines[of "walk_header nf np @ map walk_line ?pcs"] by (simp add: walk_txt_def walk_header_def)
  then have "load_walk (file_lines (walk_txt nf np phases)) = load_walk (map walk_line ?pcs)"
    using file_lines_unlines[OF nl] load_walk_comments[OF walk_header_comments] by simp
  also have "\<dots> = Inr (map (\<lambda>pc. (int (fst pc), tl (walk_words pc))) ?pcs)"
    unfolding lines by (rule load_walk_words)
  finally show ?thesis by (simp add: walk_words_def split_beta)
qed

section \<open>The hits file read back\<close>

lemma split_ws_plain: "w \<in> set (split_ws s) \<Longrightarrow> plain_word w"
  using split_ws_words by (simp add: plain_word_def)

lemma in_tl: "x \<in> set (tl xs) \<Longrightarrow> x \<in> set xs"
  by (cases xs) auto

lemma load_walk_plain:
  "load_walk ls = Inr walk \<Longrightarrow> (p, names) \<in> set walk \<Longrightarrow> n \<in> set names \<Longrightarrow> plain_word n"
proof (induction ls arbitrary: walk)
  case (Cons line ls)
  then show ?case
    by (auto simp: Let_def split: if_splits option.splits sum.splits dest!: in_tl split_ws_plain)
qed simp

lemma hex_number_nonneg: "list_all is_hex_digit h \<Longrightarrow> 0 \<le> hex_number h"
proof -
  assume h: "list_all is_hex_digit h"
  have nosp: "\<forall>c\<in>set h. \<not> is_space c \<and> c \<noteq> CHR ''-'' \<and> c \<noteq> CHR ''+''"
    using h by (auto simp: list_all_iff is_hex_digit_def is_space_def code_of_def Let_def)
  then have s: "strip h = h" by (simp add: strip_plain)
  show ?thesis
  proof (cases h)
    case (Cons c cs)
    with nosp have "c \<noteq> CHR ''-''" "c \<noteq> CHR ''+''" by auto
    with s Cons show ?thesis
      by (auto simp: hex_number_def py_int_def split: option.splits dest: unsigned_int_nonneg)
  qed (simp add: hex_number_def py_int_def strip_def lstrip_def rstrip_def)
qed

lemma hex_number_take [simp]: "0 \<le> hex_number (takeWhile is_hex_digit s)"
  by (rule hex_number_nonneg) (auto simp: list_all_iff dest: set_takeWhileD)

lemma symbols_nonneg: "(a, n) \<in> set (d_symbols (fold dis_line lines s)) \<Longrightarrow> (\<forall>(b, m) \<in> set (d_symbols s). 0 \<le> b) \<Longrightarrow> 0 \<le> a"
proof (induction lines arbitrary: s)
  case (Cons l ls)
  have "\<forall>(b, m) \<in> set (d_symbols (dis_line l s)). 0 \<le> b"
    using Cons.prems(2)
    by (auto simp: dis_line_def symbol_match_def Let_def list_all_iff split: option.splits if_splits prod.splits
        intro!: hex_number_nonneg dest: set_takeWhileD)
  with Cons.IH[of "dis_line l s"] Cons.prems(1) show ?case by simp
qed auto

lemma entry_addr_nonneg: "parse_dis lines = (symbols, instrs) \<Longrightarrow> 0 \<le> entry_addr symbols n"
  using symbols_nonneg[of _ _ lines dis_state0]
  by (auto simp: parse_dis_def Let_def dis_state0_def entry_addr_def entry_table_def split: option.splits
      dest!: map_of_SomeD)

definition hit_words :: "(int \<times> string) list \<Rightarrow> int \<Rightarrow> nat \<Rightarrow> string \<Rightarrow> string list" where
  "hit_words symbols p k n = [''P'' @ str_d p, str_d (int k), ''0x'' @ hex8_of (entry_addr symbols n), n]"

lemma hit_line: "plain_word n \<Longrightarrow> sprintf ''P%d %d 0x%08x %s'' [AI p, AI (int k), AI (entry_addr symbols n), AS n] =
    join_with '' '' (hit_words symbols p k n)"
  by (simp add: hit_words_def join_with_Cons)

lemma hit_words_plain: "plain_word n \<Longrightarrow> list_all plain_word (hit_words symbols p k n)"
  by (simp add: hit_words_def)

lemma read_hits_comments: "list_all comment_line cs \<Longrightarrow> read_hits (cs @ ls) = read_hits ls"
  by (induction cs) (auto dest: comment_strip)

lemma read_hit_line:
  assumes "plain_word n" "0 \<le> entry_addr symbols n"
  shows "read_hits (join_with '' '' (hit_words symbols p k n) # ls) =
    (case read_hits ls of Inl e \<Rightarrow> Inl e | Inr hs \<Rightarrow> Inr (entry_addr symbols n # hs))"
proof -
  let ?w = "hit_words symbols p k n"
  note w = hit_words_plain[OF assms(1), of symbols p k]
  have ne: "?w \<noteq> []" by (simp add: hit_words_def)
  have s: "strip (join_with '' '' ?w) = join_with '' '' ?w" "join_with '' '' ?w \<noteq> []"
    by (rule strip_join[OF w ne], rule join_with_nonempty[OF w ne])
  have nc: "\<not> startswith (join_with '' '' ?w) ''#''" by (simp add: hit_words_def join_with_Cons startswith_def)
  have f: "length ?w = 4" "startswith (hd ?w) ''P''" "py_int 16 (?w ! 2) = Some (entry_addr symbols n)"
    using py_int_hex8_of[OF assms(2)] by (simp_all add: hit_words_def startswith_def)
  show ?thesis by (simp add: s nc f[simplified] split_ws_join[OF w] Let_def)
qed

lemma phase_hits_read:
  assumes "\<And>n. 0 \<le> entry_addr symbols n"
  shows "\<forall>n\<in>set names. plain_word n \<Longrightarrow> read_hits (phase_hits symbols A p k names @ ls) =
    (case read_hits ls of Inl e \<Rightarrow> Inl e | Inr hs \<Rightarrow> Inr (filter (\<lambda>a. a \<in> A) (map (entry_addr symbols) names) @ hs))"
proof (induction names arbitrary: k)
  case (Cons n ns)
  then have "plain_word n" by simp
  with Cons show ?case
    using read_hit_line[OF _ assms, of n p k] hit_line[of n p k symbols]
    by (simp only: phase_hits.simps split: if_split) (simp del: read_hits.simps sprintf_plain sprintf_d sprintf_hex8_of split: sum.splits)
qed (simp split: sum.splits)

lemma hit_lines_read:
  assumes "\<And>n. 0 \<le> entry_addr symbols n"
  shows "\<forall>(p, names)\<in>set walk. \<forall>n\<in>set names. plain_word n \<Longrightarrow>
    read_hits (hit_lines symbols A walk) = Inr (filter (\<lambda>a. a \<in> A) (map (entry_addr symbols) (concat (map snd walk))))"
proof (induction walk)
  case (Cons pn walk)
  obtain p names where pn: "pn = (p, names)" by (cases pn)
  from Cons have "read_hits (hit_lines symbols A walk) =
      Inr (filter (\<lambda>a. a \<in> A) (map (entry_addr symbols) (concat (map snd walk))))" by simp
  with phase_hits_read[OF assms, of names A p 0 "hit_lines symbols A walk"] Cons.prems pn
  show ?case by (simp add: hit_lines_def del: read_hits.simps)
qed (simp add: hit_lines_def)

lemma phase_hits_no_NL: "\<forall>n\<in>set names. plain_word n \<Longrightarrow> l \<in> set (phase_hits symbols A p k names) \<Longrightarrow> NL \<notin> set l"
proof (induction symbols A p k names rule: phase_hits.induct)
  case (2 symbols A p k n ns)
  then have "plain_word n" by simp
  from NL_join[OF hit_words_plain[OF this]] hit_line[OF this, of p k symbols] 2
  show ?case by (auto simp only: phase_hits.simps set_simps split: if_splits)
qed simp

lemma hits_header_comments: "NL \<notin> set wn \<Longrightarrow> NL \<notin> set pn \<Longrightarrow> list_all comment_line (hits_header wn pn)"
  unfolding hits_header_def list.pred_inject append_Cons append_Nil
  by (intro conjI TrueI comment_sprintf comment_plain) (simp_all add: NL_def)

lemma consistency_cases:
  assumes "check_consistency wn pn dis wp_lines walk_lines = Inr (E0_All_Pass tx f i w h)" "parse_dis dis = (symbols, instrs)"
  obtains wp walk where "load_wp_set wp_lines = Inr wp" "load_walk walk_lines = Inr walk"
    "instr_addrs symbols instrs \<noteq> []" "e0_fails symbols (instr_addrs symbols instrs) wp walk = []"
    "tx = unlines (hits_header wn pn @ hit_lines symbols (set (map fst wp)) walk)"
    "h = length (hit_lines symbols (set (map fst wp)) walk)"
  using assms by (auto simp: check_consistency_def Let_def split: sum.splits if_splits)

lemma hit_lines_length:
  "length (hit_lines symbols A walk) = length (filter (\<lambda>a. a \<in> A) (map (entry_addr symbols) (concat (map snd walk))))"
proof -
  have "length (phase_hits symbols A p k names) = length (filter (\<lambda>a. a \<in> A) (map (entry_addr symbols) names))" for p k names
    by (induction symbols A p k names rule: phase_hits.induct) auto
  then show ?thesis by (induction walk) (auto simp: hit_lines_def)
qed

section \<open>The slot table\<close>

lemma distinct_hits_fold:
  "distinct ds \<Longrightarrow> distinct (fold (\<lambda>h ds. if h \<in> set ds then ds else ds @ [h]) hits ds) \<and>
     set (fold (\<lambda>h ds. if h \<in> set ds then ds else ds @ [h]) hits ds) = set ds \<union> set hits"
proof (induction hits arbitrary: ds)
  case (Cons h hits)
  from Cons.IH[of "if h \<in> set ds then ds else ds @ [h]"] Cons.prems show ?case by auto
qed simp

lemma distinct_hits_ok: "distinct (distinct_hits hits)" "set (distinct_hits hits) = set hits"
  using distinct_hits_fold[of "[]" hits] by (simp_all add: distinct_hits_def)

lemma and_split: "(m :: int) = (m AND NOT k) + (m AND k)"
proof -
  have "(m AND NOT k) + (m AND k) = (m AND NOT k) OR (m AND k)"
    by (rule disjunctive_add) (auto simp: bit_and_iff bit_not_iff)
  also have "\<dots> = m" by (rule bit_eqI) (auto simp: bit_and_iff bit_or_iff bit_not_iff)
  finally show ?thesis by simp
qed

lemma clear_low_bits: "(m :: int) AND NOT 3 = m - m mod 4"
  using and_split[of m 3] and_ones[of m 2] by simp

lemma filler_above: "x \<in> set (filler_keys m n) \<Longrightarrow> even m \<Longrightarrow> odd x \<and> m < x"
proof -
  assume x: "x \<in> set (filler_keys m n)" and e: "even m"
  have "m mod 4 = 0 \<or> m mod 4 = 2" using e by presburger
  with x e show ?thesis unfolding filler_keys_def clear_low_bits by auto
qed

lemma filler_sorted: "sorted_wrt (<) (filler_keys m n)"
  by (auto simp: filler_keys_def sorted_wrt_map intro: sorted_wrt_mono_rel[OF _ sorted_wrt_upt])

text \<open>The table when the assertions on the hits hold: the ascending assertion cannot fail then.\<close>

definition hits_ok :: "int list \<Rightarrow> bool" where
  "hits_ok hits \<longleftrightarrow> 700 \<le> length hits \<and> length hits \<le> 1000 \<and> 300 \<le> card (set hits) \<and> card (set hits) \<le> 1021 \<and>
     (\<forall>h\<in>set hits. even h)"

definition slot_keys :: "int list \<Rightarrow> int list" where
  "slot_keys hits = sorted_list_of_set (set hits) @ filler_keys (Max (set hits)) (1023 - card (set hits))"

lemma sort_distinct_hits: "sort (distinct_hits hits) = sorted_list_of_set (set hits)"
  by (metis distinct_hits_ok sorted_list_of_set_sort_remdups distinct_remdups_id)

lemma length_distinct_hits: "length (distinct_hits hits) = card (set hits)"
  by (metis distinct_card distinct_hits_ok)

lemma sorted_last: "sorted xs \<Longrightarrow> x \<in> set xs \<Longrightarrow> x \<le> last xs"
  by (induction xs) (auto split: if_splits)

lemma last_sorted_Max: "finite A \<Longrightarrow> A \<noteq> {} \<Longrightarrow> last (sorted_list_of_set A) = Max A"
proof -
  assume A: "finite A" "A \<noteq> {}"
  then have ne: "sorted_list_of_set A \<noteq> []" by simp
  show ?thesis
  proof (rule Max_eqI[symmetric])
    show "last (sorted_list_of_set A) \<in> A" using last_in_set[OF ne] A by simp
    show "y \<le> last (sorted_list_of_set A)" if "y \<in> A" for y
      using that A by (intro sorted_last) simp_all
  qed (use A in simp)
qed

lemma slot_keys_props:
  assumes "hits_ok hits"
  shows "length (slot_keys hits) = 1023" "sorted_wrt (<) (slot_keys hits)"
    "take (card (set hits)) (slot_keys hits) = sorted_list_of_set (set hits)"
    "\<forall>x\<in>set (drop (card (set hits)) (slot_keys hits)). odd x \<and> Max (set hits) < x"
proof -
  have ne: "set hits \<noteq> {}" using assms by (auto simp: hits_ok_def)
  have ev: "even (Max (set hits))" using assms Max_in[of "set hits"] ne by (auto simp: hits_ok_def)
  show "length (slot_keys hits) = 1023" using assms by (simp add: slot_keys_def filler_keys_def hits_ok_def)
  show "take (card (set hits)) (slot_keys hits) = sorted_list_of_set (set hits)" by (simp add: slot_keys_def)
  show "\<forall>x\<in>set (drop (card (set hits)) (slot_keys hits)). odd x \<and> Max (set hits) < x"
    using filler_above[OF _ ev] by (simp add: slot_keys_def)
  have "x < y" if "x \<in> set hits" "y \<in> set (filler_keys (Max (set hits)) n)" for x y n
    using filler_above[OF that(2) ev] le_less_trans[OF Max_ge[of "set hits" x]] that(1) by blast
  then show "sorted_wrt (<) (slot_keys hits)"
    using strict_sorted_list_of_set[of "set hits"] filler_sorted
    by (simp add: slot_keys_def sorted_wrt_append)
qed

lemma slot_table_exact: "slot_table hits = Inr (tbl, n) \<longleftrightarrow> hits_ok hits \<and> tbl = slot_keys hits \<and> n = card (set hits)"
proof (cases "hits_ok hits")
  case True
  have ne: "set hits \<noteq> {}" using True by (auto simp: hits_ok_def)
  have tbl: "sort (distinct_hits hits) @ filler_keys (last (sort (distinct_hits hits))) (N_SLOTS - length (distinct_hits hits)) = slot_keys hits"
    using last_sorted_Max[OF _ ne] by (simp add: slot_keys_def sort_distinct_hits length_distinct_hits N_SLOTS_def)
  have "list_all (\<lambda>i. slot_keys hits ! (i - 1) < slot_keys hits ! i) [1..<N_SLOTS]"
    using slot_keys_props(1,2)[OF True] by (auto simp: list_all_iff N_SLOTS_def intro: sorted_wrt_nth_less)
  moreover have "list_all even (distinct_hits hits)" using True by (simp add: list_all_iff distinct_hits_ok hits_ok_def)
  ultimately have "slot_table hits = Inr (slot_keys hits, card (set hits))"
    using True unfolding slot_table_def Let_def tbl
    by (simp add: asserting_def length_distinct_hits hits_ok_def N_SLOTS_def)
  with True show ?thesis by auto
next
  case False
  then have "\<not> (700 \<le> length hits \<and> length hits \<le> 1000) \<or> \<not> (300 \<le> length (distinct_hits hits) \<and> length (distinct_hits hits) \<le> N_SLOTS - 2)
      \<or> \<not> list_all even (distinct_hits hits)"
    by (auto simp: hits_ok_def list_all_iff distinct_hits_ok length_distinct_hits N_SLOTS_def)
  then have "\<exists>e. slot_table hits = Inl e"
    unfolding slot_table_def Let_def asserting_def by auto
  with False show ?thesis by auto
qed

section \<open>The artifacts read back\<close>

definition table_words :: "nat \<Rightarrow> int \<Rightarrow> string list" where
  "table_words i a = [str_d (int i), ''0x'' @ hex8_of a, ''0x'' @ hex8_of (cmd_word a (int i))]"

definition table_lines :: "int list \<Rightarrow> string list" where
  "table_lines tbl = map (\<lambda>(i, a). join_with '' '' (table_words i a)) (zip [0..<length tbl] tbl)"

lemma table_words_plain: "list_all plain_word (table_words i a)"
  by (simp add: table_words_def)

lemma wp_table_text_lines: "wp_table_text tbl = unlines (table_lines tbl)"
  by (simp add: wp_table_text_def table_lines_def table_words_def join_with_Cons)

lemma table_lines_snoc: "table_lines (tbl @ [a]) = table_lines tbl @ [join_with '' '' (table_words (length tbl) a)]"
  by (simp add: table_lines_def)

lemma load_slots_append:
  "load_slots (xs @ ys) m = (case load_slots xs m of Inl e \<Rightarrow> Inl e | Inr m' \<Rightarrow> load_slots ys m')"
  by (induction xs arbitrary: m) (simp_all add: Let_def split: option.splits)

lemma load_slots_line:
  assumes "0 \<le> a"
  shows "load_slots [join_with '' '' (table_words i a)] m = Inr (m(a \<mapsto> int i))"
proof -
  have "table_words i a ! 1 = ''0x'' @ hex8_of a" "table_words i a ! 0 = str_d (int i)" "length (table_words i a) = 3"
    by (simp_all add: table_words_def)
  then show ?thesis
    by (simp add: split_ws_join[OF table_words_plain] py_int_hex8_of[OF assms, simplified] py_int_str_d Let_def)
qed

lemma table_lines_read:
  "\<forall>a\<in>set tbl. 0 \<le> a \<Longrightarrow> distinct tbl \<Longrightarrow> \<exists>slots. load_slots (table_lines tbl) Map.empty = Inr slots \<and>
     (\<forall>i<length tbl. slots (tbl ! i) = Some (int i)) \<and> dom slots = set tbl"
proof (induction tbl rule: rev_induct)
  case (snoc a tbl)
  then obtain slots where s: "load_slots (table_lines tbl) Map.empty = Inr slots"
    "\<forall>i<length tbl. slots (tbl ! i) = Some (int i)" "dom slots = set tbl" by auto
  have "load_slots (table_lines (tbl @ [a])) Map.empty = Inr (slots(a \<mapsto> int (length tbl)))"
    using snoc.prems(1) s(1) load_slots_line[of a "length tbl" slots]
    by (simp add: table_lines_snoc load_slots_append del: load_slots.simps)
  moreover have "\<forall>i<length (tbl @ [a]). (slots(a \<mapsto> int (length tbl))) ((tbl @ [a]) ! i) = Some (int i)"
    using s(2) snoc.prems(2) by (auto simp: nth_append less_Suc_eq)
  ultimately show ?case using s(3) by auto
qed (simp add: table_lines_def)

definition slot_words :: "int list \<Rightarrow> int \<Rightarrow> string list" where
  "slot_words tbl a = [''0x'' @ hex8_of a, ''slot='' @ str_d (int (slot_or_0 tbl a))]"

lemma slot_words_plain: "list_all plain_word (slot_words tbl a)"
  using str_d_word[of "int (slot_or_0 tbl a)"] by (simp add: slot_words_def is_space_def code_of_def)

lemma slot_line_words: "slot_line tbl a = join_with '' '' (slot_words tbl a)"
  by (simp add: slot_line_def slot_words_def join_with_Cons)

lemma slot_lines_read:
  "\<forall>a\<in>set as. 0 \<le> a \<Longrightarrow> load_addr_lines path n (map (slot_line tbl) as) acc = Inr (acc @ map u32 as)"
proof (induction as arbitrary: n acc)
  case (Cons a as)
  let ?l = "join_with '' '' (slot_words tbl a)"
  have ne: "slot_words tbl a \<noteq> []" by (simp add: slot_words_def)
  have s: "strip ?l = ?l" "?l \<noteq> []"
    by (rule strip_join[OF slot_words_plain ne], rule join_with_nonempty[OF slot_words_plain ne])
  have nc: "\<not> startswith ?l ''#''" by (simp add: slot_words_def join_with_Cons startswith_def)
  have "lower ''0x'' = ''0x''" by (simp add: lower_def lower_char_def code_of_def)
  then have t: "\<exists>ts. hex_tokens ?l = (''0x'' @ hex8_of a) # ts"
    unfolding hex_tokens_def split_ws_join[OF slot_words_plain] by (simp add: slot_words_def)
  from Cons.prems have "py_int 16 (''0x'' @ hex8_of a) = Some a" by (intro py_int_hex8_of) simp
  with Cons t show ?case by (auto simp: slot_line_words s nc Let_def u32_def)
qed simp

section \<open>The watchpoint set read back\<close>

lemma split_once_join: "plain_word w \<Longrightarrow> plain_word l \<Longrightarrow> split_once (join_with '' '' [w, l]) = (w, l)"
proof -
  assume w: "plain_word w" and l: "plain_word l"
  obtain c cs where c: "l = c # cs" using l by (cases l) (auto simp: plain_word_def)
  then have "lstrip ('' '' @ l) = l" using l by (simp add: lstrip_def plain_word_def)
  with w show ?thesis
    by (simp add: split_once_def join_with_Cons plain_word_def takeWhile_append2 dropWhile_append2)
qed

lemma leaf_name_plain: "is_leaf_name n \<Longrightarrow> plain_word n"
proof -
  assume n: "is_leaf_name n"
  then obtain c cs where c: "n = c # cs" by (cases n) (auto simp: is_leaf_name_def)
  with n have "c = CHR ''f''" "list_all is_decimal cs" by (auto simp: is_leaf_name_def startswith_def)
  with c show ?thesis by (auto simp: plain_word_def list_all_iff is_decimal_def is_space_def code_of_def Let_def)
qed

lemma runner_name_plain: "is_runner_name n \<Longrightarrow> plain_word n"
proof -
  assume n: "is_runner_name n"
  have "n = take 10 n @ drop 10 n" by simp
  also have "take 10 n = ''run_phase_''" using n by (simp add: is_runner_name_def startswith_def numeral_eq_Suc)
  finally have f: "n = ''run_phase_'' @ drop 10 n" .
  have "\<forall>c\<in>set (drop 10 n). \<not> is_space c"
    using n by (auto simp: is_runner_name_def list_all_iff is_decimal_def is_space_def code_of_def Let_def)
  then have "plain_word (''run_phase_'' @ drop 10 n)" by (auto simp: plain_word_def is_space_def code_of_def)
  with f show ?thesis by simp
qed

lemma names_where_set: "set (names_where p symbols) = {n \<in> snd ` set symbols. p n}"
  by (auto simp: names_where_def)

lemma instrs_nonneg:
  "i \<in> set (body_of (d_instrs (fold dis_line lines s)) n) \<Longrightarrow> (\<forall>m. \<forall>j\<in>set (body_of (d_instrs s) m). 0 \<le> fst j) \<Longrightarrow> 0 \<le> fst i"
proof (induction lines arbitrary: s)
  case (Cons l ls)
  have new: "0 \<le> fst j" if "instr_fields l = Some j" for j
    using that unfolding instr_fields_def Let_def by (auto split: if_splits)
  have old: "0 \<le> a" if "Some xs = d_instrs s m" "(a, b, c) \<in> set xs" for m xs a b c
    using Cons.prems(2)[rule_format, of "(a, b, c)" m] that(2) by (simp add: body_of_def that(1)[symmetric])
  have "\<forall>m. \<forall>j\<in>set (body_of (d_instrs (dis_line l s)) m). 0 \<le> fst j"
    using new by (auto simp: dis_line_def body_of_def dest: old split: option.splits if_splits prod.splits)
  with Cons.IH[of "dis_line l s"] Cons.prems(1) show ?case by simp
qed auto

lemma body_nonneg: "parse_dis lines = (symbols, instrs) \<Longrightarrow> i \<in> set (body_of instrs n) \<Longrightarrow> 0 \<le> fst i"
  using instrs_nonneg[of i lines dis_state0 n] by (auto simp: parse_dis_def Let_def dis_state0_def body_of_def)

definition heads_ok :: "(int \<times> string) list \<Rightarrow> (string \<rightharpoonup> dis_instr list) \<Rightarrow> bool" where
  "heads_ok symbols instrs \<longleftrightarrow>
     (\<forall>n \<in> set (names_where is_leaf_name symbols) \<union> set (names_where is_runner_name symbols).
        body_of instrs n \<noteq> [] \<and> fst (hd (body_of instrs n)) = entry_addr symbols n)"

text \<open>What the gate asks of one line of the set, and what its reader needs.\<close>

definition line_ok :: "(int \<times> string) list \<Rightarrow> (string \<rightharpoonup> dis_instr list) \<Rightarrow> pick \<Rightarrow> bool" where
  "line_ok symbols instrs p \<longleftrightarrow> 0 \<le> fst p \<and> plain_word (snd p) \<and> fst p \<in> set (instr_addrs symbols instrs) \<and>
     (startswith (snd p) ''entry:'' \<longrightarrow> entry_table symbols (drop 6 (snd p)) = Some (fst p))"

lemma in_instr_addrs: "n \<in> snd ` set symbols \<Longrightarrow> i \<in> set (body_of instrs n) \<Longrightarrow> fst i \<in> set (instr_addrs symbols instrs)"
  by (force simp: instr_addrs_def)

lemma int_sign_digits_vis: "c \<in> set (int_sign v @ digits_text 16 (nat \<bar>v\<bar>)) \<Longrightarrow> \<not> is_space c"
  using digits_text_word[of 16 "nat \<bar>v\<bar>"] by (auto simp: int_sign_def plain_word_def split: if_splits)

lemma entry_label_plain: "plain_word n \<Longrightarrow> plain_word (sprintf ''entry:%s'' [AS n])"
  by (simp add: plain_append) (auto simp: plain_word_def is_space_def code_of_def)

lemma body_label_plain: "plain_word n \<Longrightarrow> plain_word (sprintf ''body:%s+0x%x'' [AS n, AI v])"
  using int_sign_digits_vis[of _ v] by (auto simp: plain_word_def is_space_def code_of_def)

lemma call_label_plain: "plain_word n \<Longrightarrow> plain_word f \<Longrightarrow> plain_word (sprintf ''call:%s+0x%x->%s'' [AS n, AI v, AS f])"
  using int_sign_digits_vis[of _ v] by (auto simp: plain_word_def is_space_def code_of_def)

lemma runner_calls_cases:
  assumes "p \<in> set (runner_calls symbols instrs n)"
  obtains i f where "i \<in> set (body_of instrs n)" "fst p = fst i" "is_leaf_name f"
    "snd p = sprintf ''call:%s+0x%x->%s'' [AS n, AI (fst i - entry_addr symbols n), AS f]"
proof -
  let ?calls = "\<lambda>(a, mnem, ops). if mnem \<in> set [''jal'', ''jalr'']
       then (case call_target ops of
               Some f \<Rightarrow> (if is_leaf_name f
                   then [(a, sprintf ''call:%s+0x%x->%s'' [AS n, AI (a - entry_addr symbols n), AS f])] else [])
             | None \<Rightarrow> [])
       else []"
  have "p \<in> \<Union> (set ` ?calls ` set (body_of instrs n))"
    using assms unfolding runner_calls_def set_concat set_map .
  then obtain x where x: "x \<in> set (body_of instrs n)" "p \<in> set (?calls x)" by blast
  obtain a mnem ops where t: "x = (a, mnem, ops)" by (cases x)
  note i = x[unfolded t]
  have j: "mnem \<in> set [''jal'', ''jalr'']" using i(2) unfolding split_conv by (rule contrapos_pp) (simp only: if_False list.set empty_iff not_False_eq_True)
  obtain f where f: "call_target ops = Some f"
    using i(2) unfolding split_conv if_P[OF j] by (cases "call_target ops") auto
  have l: "is_leaf_name f" using i(2) unfolding split_conv if_P[OF j] f by (cases "is_leaf_name f") simp_all
  have "p = (a, sprintf ''call:%s+0x%x->%s'' [AS n, AI (a - entry_addr symbols n), AS f])"
    using i(2) unfolding split_conv if_P[OF j] f option.case(2) if_P[OF l] by (simp only: list.set insert_iff empty_iff simp_thms)
  with that[of "(a, mnem, ops)" f] i(1) l show thesis by simp
qed

lemma pick_line_ok:
  assumes "parse_dis lines = (symbols, instrs)" "heads_ok symbols instrs"
    and "pick_ok symbols instrs (names_where is_leaf_name symbols) (names_where is_runner_name symbols) p"
  shows "line_ok symbols instrs p"
proof -
  have known: "entry_table symbols n = Some (entry_addr symbols n)" if "n \<in> snd ` set symbols" for n
  proof -
    have "n \<in> fst ` set (rev (map (\<lambda>(a, n). (n, a)) symbols))" using that by force
    then show ?thesis unfolding entry_addr_def entry_table_def
      by (metis (no_types, lifting) map_of_eq_None_iff option.case(2) option.exhaust)
  qed
  from assms(3) consider
      n where "n \<in> set (names_where is_leaf_name symbols) \<union> set (names_where is_runner_name symbols)" "p = entry_pick symbols n"
    | n k where "n \<in> set (names_where is_leaf_name symbols)" "k < length (body_of instrs n)" "p = body_pick symbols instrs k n"
    | n where "n \<in> set (names_where is_runner_name symbols)" "p \<in> set (runner_calls symbols instrs n)"
    unfolding pick_ok_def by blast
  then show ?thesis
  proof cases
    case 1
    have sym: "n \<in> snd ` set symbols" and pl: "plain_word n"
      using 1(1) leaf_name_plain runner_name_plain by (auto simp: names_where_set)
    have h: "hd (body_of instrs n) \<in> set (body_of instrs n)" "fst (hd (body_of instrs n)) = entry_addr symbols n"
      using assms(2) 1(1) unfolding heads_ok_def by auto
    have e: "drop 6 (snd p) = n" "fst p = entry_addr symbols n" unfolding 1(2) entry_pick_def by simp_all
    have "plain_word (snd p)" unfolding 1(2) entry_pick_def snd_conv using pl by (rule entry_label_plain)
    then show ?thesis
      using in_instr_addrs[OF sym h(1)] h(2) known[OF sym] entry_addr_nonneg[OF assms(1)] e by (simp add: line_ok_def)
  next
    case 2
    have sym: "n \<in> snd ` set symbols" and pl: "plain_word n"
      using 2(1) leaf_name_plain by (auto simp: names_where_set)
    have h: "body_of instrs n ! k \<in> set (body_of instrs n)" using 2(2) by simp
    have "\<not> startswith (snd p) ''entry:''" unfolding 2(3) body_pick_def Let_def by (simp add: startswith_def)
    moreover have "fst p = fst (body_of instrs n ! k)" unfolding 2(3) body_pick_def Let_def by simp
    moreover have "plain_word (snd p)" unfolding 2(3) body_pick_def Let_def snd_conv using pl by (rule body_label_plain)
    ultimately show ?thesis
      using in_instr_addrs[OF sym h] body_nonneg[OF assms(1) h] by (simp add: line_ok_def)
  next
    case 3
    have sym: "n \<in> snd ` set symbols" and pl: "plain_word n"
      using 3(1) runner_name_plain by (auto simp: names_where_set)
    obtain i f where i: "i \<in> set (body_of instrs n)" "fst p = fst i" "is_leaf_name f"
      "snd p = sprintf ''call:%s+0x%x->%s'' [AS n, AI (fst i - entry_addr symbols n), AS f]"
      using runner_calls_cases[OF 3(2)] .
    have "\<not> startswith (snd p) ''entry:''" unfolding i(4) by (simp add: startswith_def)
    moreover have "plain_word (snd p)" unfolding i(4) using pl leaf_name_plain[OF i(3)] by (rule call_label_plain)
    ultimately show ?thesis
      using in_instr_addrs[OF sym i(1)] body_nonneg[OF assms(1) i(1)] i(2) by (simp add: line_ok_def)
  qed
qed

lemma load_wp_set_comments: "list_all comment_line cs \<Longrightarrow> load_wp_set (cs @ ls) = load_wp_set ls"
  by (induction cs) (auto dest: comment_strip)

lemma load_wp_set_lines:
  "\<forall>p\<in>set picks. line_ok symbols instrs p \<Longrightarrow>
     load_wp_set (map (\<lambda>(a, l). join_with '' '' [''0x'' @ hex8_of a, l]) picks) = Inr picks"
proof (induction picks)
  case (Cons p picks)
  obtain a l where p: "p = (a, l)" by (cases p)
  with Cons.prems have ok: "0 \<le> a" "plain_word l" by (auto simp: line_ok_def)
  let ?w = "[''0x'' @ hex8_of a, l]"
  have w: "list_all plain_word ?w" "?w \<noteq> []" using ok(2) by simp_all
  have s: "strip (join_with '' '' ?w) = join_with '' '' ?w" "join_with '' '' ?w \<noteq> []"
    by (rule strip_join[OF w], rule join_with_nonempty[OF w])
  have nc: "\<not> startswith (join_with '' '' ?w) ''#''" by (simp add: join_with_Cons startswith_def)
  have so: "split_once (join_with '' '' ?w) = (''0x'' @ hex8_of a, l)" using ok(2) by (intro split_once_join) simp_all
  have "l \<noteq> []" using ok(2) by (simp add: plain_word_def)
  with Cons show ?case unfolding p list.map split_conv load_wp_set.simps(2) s(1) so Let_def
    using s(2) nc py_int_hex8_of[OF ok(1)] by simp
qed simp

lemma wp_set_header_comments:
  "NL \<notin> set dis_name \<Longrightarrow> list_all comment_line
     [''# SPDX-FileCopyrightText: 2026 Accemic Technologies GmbH'',
       ''# SPDX-'' @ ''License-Identifier: CERN-OHL-S-2.0 OR LicenseRef-Accemic-Commercial'',
       sprintf ''# wp_set -- GENERATED by gen_wp_set.py from %s'' [AS dis_name],
       sprintf ''# target=%d entries=%d body=%d calls=%d fill=%d''
         [AI (int target), AI (int n_entry), AI (int n_body), AI (int n_call), AI (int n_fill)],
       ''# every address is a deterministic instruction start; see'',
       ''# gen_wp_set.py header for the whitelist/exclusion rules'']"
  unfolding list.pred_inject(2) list.pred_inject(1)
  by (intro conjI comment_sprintf TrueI; simp add: comment_line_def NL_def)

lemma wp_set_text_read:
  assumes "\<forall>p\<in>set picks. line_ok symbols instrs p" "NL \<notin> set dis_name"
  shows "load_wp_set (file_lines (wp_set_text dis_name target n1 n2 n3 n4 picks)) = Inr picks"
proof -
  let ?body = "map (\<lambda>(a, l). join_with '' '' [''0x'' @ hex8_of a, l]) picks"
  have body: "map (\<lambda>(a, l). sprintf ''0x%08x %s'' [AI a, AS l]) picks = ?body"
    by (auto simp: join_with_Cons)
  have "NL \<notin> set l" if "l \<in> set ?body" for l
  proof -
    obtain a n where n: "(a, n) \<in> set picks" "l = join_with '' '' [''0x'' @ hex8_of a, n]" using \<open>l \<in> set ?body\<close> by auto
    have "list_all plain_word [''0x'' @ hex8_of a, n]" using assms(1) n(1) by (auto simp: line_ok_def is_space_def code_of_def)
    from NL_join[OF this] n(2) show ?thesis by simp
  qed
  then have b: "\<forall>l\<in>set ?body. NL \<notin> set l" by blast
  have "load_wp_set (file_lines (unlines (h @ ?body))) = Inr picks" if h: "list_all comment_line h" for h
  proof -
    have "\<forall>l\<in>set (h @ ?body). NL \<notin> set l"
      using h b unfolding list_all_iff set_append comment_line_def by blast
    from file_lines_unlines[OF this] show ?thesis
      by (simp only: load_wp_set_comments[OF h] load_wp_set_lines[OF assms(1)])
  qed
  from this[OF wp_set_header_comments[OF assms(2)]] show ?thesis unfolding wp_set_text_def body .
qed

lemma line_ok_passes: "line_ok symbols instrs p \<Longrightarrow> wp_fails symbols (instr_addrs symbols instrs) p = []"
  by (auto simp: line_ok_def wp_fails_def split_beta)

section \<open>The table on the device\<close>

definition table_entries :: "int list \<Rightarrow> (int \<times> int) list" where
  "table_entries tbl = map (\<lambda>(i, a). (a, cmd_word a (int i))) (zip [0..<length tbl] tbl)"

lemma cmd_word_low: "cmd_word a i AND 0xFF = (if odd a then CMD_NONE else CMD_DAQ_PC_AXIS)"
proof -
  have "push_bit 8 x AND 0xFF = (0 :: int)" for x
    using take_bit_push_bit[of 8 8 x] by (simp add: take_bit_eq_mask mask_eq_exp_minus_1)
  then show ?thesis
    by (simp add: cmd_word_def CMD_NONE_def CMD_DAQ_PC_AXIS_def and_one_eq odd_iff_mod_2_eq_one
        bit.conj_disj_distrib2 del: push_bit_and)
qed

lemma cmd_word_fires: "cmd_word a i AND 255 = CMD_DAQ_PC_AXIS \<longleftrightarrow> even a"
  using cmd_word_low[of a i] by (simp add: CMD_NONE_def CMD_DAQ_PC_AXIS_def)

lemma slot_keys_even: "hits_ok hits \<Longrightarrow> {a \<in> set (slot_keys hits). even a} = set hits"
proof -
  assume h: "hits_ok hits"
  have "set (slot_keys hits) = set (take (card (set hits)) (slot_keys hits)) \<union> set (drop (card (set hits)) (slot_keys hits))"
    by (metis append_take_drop_id set_append)
  then show ?thesis using slot_keys_props(3,4)[OF h] h by (auto simp: hits_ok_def)
qed

lemma slot_keys_nonneg: "hits_ok hits \<Longrightarrow> \<forall>h\<in>set hits. 0 \<le> h \<Longrightarrow> a \<in> set (slot_keys hits) \<Longrightarrow> 0 \<le> a"
proof -
  assume h: "hits_ok hits" "\<forall>h\<in>set hits. 0 \<le> h" and a: "a \<in> set (slot_keys hits)"
  have "set hits \<noteq> {}" using h(1) by (auto simp: hits_ok_def)
  then have m: "Max (set hits) \<in> set hits" by (intro Max_in) auto
  consider "a \<in> set hits" | "a \<in> set (filler_keys (Max (set hits)) (1023 - card (set hits)))"
    using a by (auto simp: slot_keys_def)
  then show ?thesis
    using h(2) m filler_above[of a "Max (set hits)"] h(1) by cases (force simp: hits_ok_def)+
qed

lemma and_mask32: "0 \<le> h \<Longrightarrow> h < 2 ^ 32 \<Longrightarrow> h AND 0xFFFFFFFF = (h :: int)"
  using take_bit_int_eq_self[of h 32] by (simp add: take_bit_eq_mask mask_eq_exp_minus_1)

text \<open>A hits file of bare entries.\<close>

definition hit_text :: "int list \<Rightarrow> string list" where
  "hit_text hits = map (\<lambda>h. join_with '' '' [''P0'', ''0'', ''0x'' @ hex8_of h]) hits"

lemma hit_text_read: "\<forall>h\<in>set hits. 0 \<le> h \<Longrightarrow> read_hits (hit_text hits) = Inr hits"
proof (induction hits)
  case (Cons h hs)
  let ?w = "[''P0'', ''0'', ''0x'' @ hex8_of h]"
  have w: "list_all plain_word ?w" "?w \<noteq> []"
    using hex8_of_word[of h] by (auto simp: plain_word_def is_space_def code_of_def)
  have s: "strip (join_with '' '' ?w) = join_with '' '' ?w" "join_with '' '' ?w \<noteq> []"
    by (rule strip_join[OF w], rule join_with_nonempty[OF w])
  have nc: "\<not> startswith (join_with '' '' ?w) ''#''" by (simp add: join_with_Cons startswith_def)
  have "0 \<le> h" using Cons.prems by simp
  from py_int_hex8_of[OF this] have p: "py_int 16 (?w ! 2) = Some h" by simp
  have "read_hits (join_with '' '' ?w # hit_text hs) = Inr (h # hs)"
    unfolding read_hits.simps(2) Let_def s(1) split_ws_join[OF w(1)] p
    using s(2) nc Cons by (simp add: startswith_def)
  then show ?case by (simp add: hit_text_def)
qed (simp add: hit_text_def)

section \<open>Properties\<close>

text \<open>the written walk reads back: from every seed, the consistency gate's reader of
  \<open>expected_walk.txt\<close> gets exactly the phases generated, each as its runner followed by its leaves in
  call order.\<close>

theorem walk_file_reads_back:
  assumes "0 < nf" "0 < np"
  shows "case fst (run_state (gen_files nf np) (xs_init seed)) of (h, c, w, ps) \<Rightarrow>
    load_walk (file_lines w) = Inr (map (\<lambda>(p, calls). (int p, runner_name p # map leaf_name calls)) (zip [0..<np] ps))"
proof -
  obtain h c w ps where r: "fst (run_state (gen_files nf np) (xs_init seed)) = (h, c, w, ps)"
    by (metis prod_cases4)
  have "phases_ok nf np ps \<and> w = walk_txt nf np ps"
    using gen_files_ok[OF assms] r by (auto simp: pred_state_iff dest: spec[of _ "xs_init seed"])
  moreover then have "\<forall>ph\<in>set ps. ph \<noteq> []" by (auto simp: phases_ok_def)
  ultimately show ?thesis using walk_txt_read[of ps nf np] r by (simp add: phases_ok_def)
qed

lemma walk_file_reads_back_witness:
  "case fst (run_state (gen_files 3 2) (xs_init 7)) of (h, c, w, ps) \<Rightarrow>
     load_walk (file_lines w) = Inr (map (\<lambda>(p, calls). (int p, runner_name p # map leaf_name calls)) (zip [0..<2] ps))"
  by (rule walk_file_reads_back) simp_all

text \<open>C23: when the consistency gate passes, every watchpoint is an instruction of its own, every walked
  function is in the program, and the hits file reads back as the entry addresses of the walked functions,
  in walk order, that are watchpoints.\<close>

theorem consistency_gate_sound:
  assumes "check_consistency wn pn dis wp_lines walk_lines = Inr (E0_All_Pass tx f i w h)"
    and "parse_dis dis = (symbols, instrs)" and "NL \<notin> set wn" "NL \<notin> set pn"
  shows "\<exists>wp walk. load_wp_set wp_lines = Inr wp \<and> load_walk walk_lines = Inr walk \<and>
    distinct (map fst wp) \<and> fst ` set wp \<subseteq> set (instr_addrs symbols instrs) \<and>
    (\<forall>n \<in> set (concat (map snd walk)). entry_table symbols n = Some (entry_addr symbols n)) \<and>
    read_hits (file_lines tx) = Inr (filter (\<lambda>a. a \<in> fst ` set wp) (map (entry_addr symbols) (concat (map snd walk)))) \<and>
    h = length (filter (\<lambda>a. a \<in> fst ` set wp) (map (entry_addr symbols) (concat (map snd walk))))"
proof -
  obtain wp walk where c: "load_wp_set wp_lines = Inr wp" "load_walk walk_lines = Inr walk"
    "instr_addrs symbols instrs \<noteq> []" "e0_fails symbols (instr_addrs symbols instrs) wp walk = []"
    "tx = unlines (hits_header wn pn @ hit_lines symbols (set (map fst wp)) walk)"
    "h = length (hit_lines symbols (set (map fst wp)) walk)"
    using consistency_cases[OF assms(1,2)] .
  have fails: "card (fst ` set wp) = length wp" "\<forall>p\<in>set wp. wp_fails symbols (instr_addrs symbols instrs) p = []"
    "\<forall>n\<in>set (concat (map snd walk)). entry_table symbols n \<noteq> None"
    using c(4) by (auto simp: e0_fails_def Let_def filter_empty_conv split: if_splits)
  have "distinct (map fst wp)" using fails(1) by (metis card_distinct length_map set_map)
  moreover have "fst ` set wp \<subseteq> set (instr_addrs symbols instrs)"
    using fails(2) by (fastforce simp: wp_fails_def split_beta split: if_splits)
  moreover have "\<forall>n \<in> set (concat (map snd walk)). entry_table symbols n = Some (entry_addr symbols n)"
    using fails(3) by (auto simp: entry_addr_def split: option.splits)
  moreover have plain: "\<forall>(p, names)\<in>set walk. \<forall>n\<in>set names. plain_word n"
    using load_walk_plain[OF c(2)] by blast
  have "read_hits (file_lines tx) = Inr (filter (\<lambda>a. a \<in> set (map fst wp)) (map (entry_addr symbols) (concat (map snd walk))))"
  proof -
    have "\<forall>l\<in>set (hits_header wn pn @ hit_lines symbols (set (map fst wp)) walk). NL \<notin> set l"
      using hits_header_comments[OF assms(3,4)] plain
      by (auto simp: list_all_iff comment_line_def hit_lines_def dest!: phase_hits_no_NL[rotated])
    from file_lines_unlines[OF this] show ?thesis
      using hit_lines_read[OF entry_addr_nonneg[OF assms(2)] plain, of "set (map fst wp)"]
      by (simp add: c(5) read_hits_comments[OF hits_header_comments[OF assms(3,4)]])
  qed
  ultimately show ?thesis using c(1,2) unfolding c(6) hit_lines_length by auto
qed

definition SMALL_WP :: "string list" where
  "SMALL_WP = [''# set'', ''0x00000100 entry:f000'', ''0x00000104 body:f000+0x4'', ''0x00000108 entry:run_phase_00'']"

lemma small_gate: "case check_consistency ''w'' ''p'' SMALL_DIS SMALL_WP [''P0 run_phase_00 f000''] of
    Inr (E0_All_Pass tx f i w h) \<Rightarrow> f = 2 \<and> i = 4 \<and> w = 3 \<and> h = 2 | _ \<Rightarrow> False"
  by code_simp

lemma consistency_gate_sound_witness:
  "\<exists>tx f i w symbols instrs wp walk.
     check_consistency ''w'' ''p'' SMALL_DIS SMALL_WP [''P0 run_phase_00 f000''] = Inr (E0_All_Pass tx f i w 2) \<and>
     parse_dis SMALL_DIS = (symbols, instrs) \<and> load_wp_set SMALL_WP = Inr wp \<and>
     load_walk [''P0 run_phase_00 f000''] = Inr walk \<and> fst ` set wp \<subseteq> set (instr_addrs symbols instrs) \<and>
     read_hits (file_lines tx) = Inr (filter (\<lambda>a. a \<in> fst ` set wp) (map (entry_addr symbols) (concat (map snd walk))))"
proof -
  obtain tx f i w where c: "check_consistency ''w'' ''p'' SMALL_DIS SMALL_WP [''P0 run_phase_00 f000''] = Inr (E0_All_Pass tx f i w 2)"
    using small_gate by (auto split: sum.splits e0_result.splits)
  obtain symbols instrs where d: "parse_dis SMALL_DIS = (symbols, instrs)" by (cases "parse_dis SMALL_DIS")
  have nl: "NL \<notin> set ''w''" "NL \<notin> set ''p''" by (simp_all add: NL_def)
  show ?thesis using consistency_gate_sound[OF c d nl] c d by metis
qed

text \<open>the set that is generated passes the gate's checks: it reads back from the text as the picks, and,
  with every leaf and runner starting at its symbol, no watchpoint of it fails.\<close>

theorem generated_set_passes:
  assumes "gen_wp_set dis_name target dis = Wp_Set picks tx" and "parse_dis dis = (symbols, instrs)"
    and "heads_ok symbols instrs" and "NL \<notin> set dis_name"
  shows "load_wp_set (file_lines tx) = Inr picks \<and> card (fst ` set picks) = length picks \<and>
    (\<forall>p\<in>set picks. wp_fails symbols (instr_addrs symbols instrs) p = [])"
proof -
  obtain all where a: "set picks = set (take target all)" "distinct (map fst picks)"
    "\<forall>p\<in>set all. pick_ok symbols instrs (names_where is_leaf_name symbols) (names_where is_runner_name symbols) p"
    "\<exists>a b c d. tx = wp_set_text dis_name target a b c d picks"
    using gen_wp_set_cases[OF assms(1,2)] by blast
  have ok: "\<forall>p\<in>set picks. line_ok symbols instrs p"
    using a(3) pick_line_ok[OF assms(2,3)] unfolding a(1) by (auto dest: in_set_takeD)
  obtain n1 n2 n3 n4 where tx: "tx = wp_set_text dis_name target n1 n2 n3 n4 picks" using a(4) by blast
  have "load_wp_set (file_lines tx) = Inr picks" unfolding tx by (rule wp_set_text_read[OF ok assms(4)])
  moreover have "card (fst ` set picks) = length picks" using a(2) by (metis distinct_card length_map set_map)
  moreover have "\<forall>p\<in>set picks. wp_fails symbols (instr_addrs symbols instrs) p = []" using ok by (auto intro: line_ok_passes)
  ultimately show ?thesis by simp
qed

lemma small_heads: "heads_ok (fst (parse_dis SMALL_DIS)) (snd (parse_dis SMALL_DIS))"
  by code_simp

lemma generated_set_passes_witness:
  "\<exists>picks tx. gen_wp_set ''d'' 3 SMALL_DIS = Wp_Set picks tx \<and> load_wp_set (file_lines tx) = Inr picks \<and>
     map fst picks = [0x100, 0x104, 0x108]"
proof -
  obtain picks tx where g: "gen_wp_set ''d'' 3 SMALL_DIS = Wp_Set picks tx" "map fst picks = [0x100, 0x104, 0x108]"
    using small_dis by (auto split: wp_set_result.splits)
  obtain symbols instrs where d: "parse_dis SMALL_DIS = (symbols, instrs)" by (cases "parse_dis SMALL_DIS")
  have "heads_ok symbols instrs" "NL \<notin> set ''d''" using small_heads by (simp_all add: d NL_def)
  from generated_set_passes[OF g(1) d this] g show ?thesis
    by (intro exI[of _ picks] exI[of _ tx]) simp
qed

text \<open>the slot table: built exactly when the hits are plausible and even, it holds 1023 strictly
  ascending keys, first the addresses hit, in order, then odd keys above them all.\<close>

theorem slot_table_sound:
  assumes "slot_table hits = Inr (tbl, n)"
  shows "length tbl = N_SLOTS \<and> sorted_wrt (<) tbl \<and> take n tbl = sorted_list_of_set (set hits) \<and>
    n = card (set hits) \<and> (\<forall>x\<in>set (drop n tbl). odd x \<and> (\<forall>h\<in>set hits. h < x))"
proof -
  have t: "hits_ok hits" "tbl = slot_keys hits" "n = card (set hits)" using assms by (simp_all add: slot_table_exact)
  have "\<forall>x\<in>set (drop n tbl). odd x \<and> (\<forall>h\<in>set hits. h < x)"
    using slot_keys_props(4)[OF t(1)] unfolding t(2,3) by (metis List.finite_set Max_ge le_less_trans)
  then show ?thesis using slot_keys_props(1-3)[OF t(1)] unfolding t(2,3) by (simp only: N_SLOTS_def)
qed

definition DEMO_HITS :: "int list" where
  "DEMO_HITS = map (\<lambda>i. 4 * int i) ([0..<400] @ [0..<400])"

lemma demo_hits: "hits_ok DEMO_HITS" "\<forall>h\<in>set DEMO_HITS. 0 \<le> h \<and> h < 2 ^ 32"
proof -
  have s: "set DEMO_HITS = (\<lambda>i. 4 * int i) ` {0..<400}" by (simp add: DEMO_HITS_def)
  have "card (set DEMO_HITS) = 400" unfolding s by (subst card_image) (auto simp: inj_on_def)
  moreover have "length DEMO_HITS = 800" "\<forall>h\<in>set DEMO_HITS. even h" unfolding s by (simp_all add: DEMO_HITS_def)
  ultimately show "hits_ok DEMO_HITS" by (simp add: hits_ok_def)
  show "\<forall>h\<in>set DEMO_HITS. 0 \<le> h \<and> h < 2 ^ 32" unfolding s by auto
qed

lemma demo_table: "slot_table DEMO_HITS = Inr (slot_keys DEMO_HITS, card (set DEMO_HITS))"
  using demo_hits(1) by (simp add: slot_table_exact)

lemma slot_table_sound_witness:
  "\<exists>tbl n. slot_table DEMO_HITS = Inr (tbl, n) \<and> length tbl = N_SLOTS \<and> take n tbl = sorted_list_of_set (set DEMO_HITS)"
  using slot_table_sound[OF demo_table] demo_table by blast

text \<open>the table loads: on a device of 1023 slots it goes in and verifies from any state, every slot then
  holds its key with its command word, and the slots armed to fire are those of the addresses hit.\<close>

theorem slot_table_loads:
  assumes "slot_table hits = Inr (tbl, n)" "fi_n b = 1023" "\<forall>s\<in>set probes. s < 1023"
  shows "\<exists>b'. load_and_verify fake_ind_bus WP_IND_OFFSETS (table_entries tbl) probes b = (Inr (), b') \<and>
    (\<forall>i<1023. fi_slot b' (int i) = (tbl ! i, cmd_word (tbl ! i) (int i))) \<and>
    {fst (fi_slot b' (int i)) | i. i < 1023 \<and> snd (fi_slot b' (int i)) AND 0xFF = CMD_DAQ_PC_AXIS} = set hits"
proof -
  have t: "hits_ok hits" "tbl = slot_keys hits" "n = card (set hits)" using assms by (simp_all add: slot_table_exact)
  have l: "length tbl = 1023" using slot_keys_props(1)[OF t(1)] t(2) by simp
  then have e: "length (table_entries tbl) = 1023" by (simp add: table_entries_def)
  then have ne: "table_entries tbl \<noteq> []" by (intro notI) simp
  have "fi_view b = fi_view b" ..
  obtain b' where b': "load_and_verify fake_ind_bus WP_IND_OFFSETS (table_entries tbl) probes b = (Inr (), b')"
    "\<forall>i<1023. fi_slot b' (int i) = table_entries tbl ! i"
    using ind.load_and_verify_ok[of b "table_entries tbl" probes] assms(2,3) ne e by (auto simp: fi_view_def)
  have slots: "\<forall>i<1023. fi_slot b' (int i) = (tbl ! i, cmd_word (tbl ! i) (int i))"
    using b'(2) l by (simp add: table_entries_def)
  have "{fst (fi_slot b' (int i)) | i. i < 1023 \<and> snd (fi_slot b' (int i)) AND 0xFF = CMD_DAQ_PC_AXIS}
      = {tbl ! i | i. i < 1023 \<and> even (tbl ! i)}"
    using slots by (intro Collect_cong ex_cong1) (auto simp: cmd_word_fires)
  also have "\<dots> = {a \<in> set tbl. even a}" by (auto simp: in_set_conv_nth l)
  also have "\<dots> = set hits" using slot_keys_even[OF t(1)] t(2) by simp
  finally show ?thesis using b'(1) slots by blast
qed

lemma slot_table_loads_witness:
  "\<exists>tbl n b'. slot_table DEMO_HITS = Inr (tbl, n) \<and>
     load_and_verify fake_ind_bus WP_IND_OFFSETS (table_entries tbl) [0, 511, 1022] (mk_fake_ind 1023) = (Inr (), b') \<and>
     {fst (fi_slot b' (int i)) | i. i < 1023 \<and> snd (fi_slot b' (int i)) AND 0xFF = CMD_DAQ_PC_AXIS} = set DEMO_HITS"
proof -
  have "fi_n (mk_fake_ind 1023) = 1023" "\<forall>s\<in>set [0, 511, 1022]. s < (1023 :: nat)" by (simp_all add: mk_fake_ind_def)
  from slot_table_loads[OF demo_table this] demo_table show ?thesis by blast
qed

text \<open>C22: the artifacts read back: the expectation file gives the hits in order, and the table file gives, for
  each of the 1023 keys and no other address, the slot it is loaded in.\<close>

theorem artifacts_read_back:
  assumes "read_hits hit_file = Inr hits" "wp_gen hit_file hex_file = Inr art"
    and "\<forall>h\<in>set hits. 0 \<le> h \<and> h < 2 ^ 32"
  shows "load_addr_file path (file_lines (expected_full_txt art)) = Inr hits \<and>
    (\<exists>slots. load_slots (file_lines (wp_table_txt art)) Map.empty = Inr slots \<and>
       (\<forall>i<1023. slots (slot_keys hits ! i) = Some (int i)) \<and> dom slots = set (slot_keys hits))"
proof -
  obtain tbl n where s: "slot_table hits = Inr (tbl, n)" "wp_table_txt art = wp_table_text tbl"
    "expected_full_txt art = unlines (map (slot_line tbl) hits)"
    using assms(1,2) by (auto simp: wp_gen_def split: sum.splits)
  have t: "hits_ok hits" "tbl = slot_keys hits" using s(1) by (simp_all add: slot_table_exact)
  have keys: "length tbl = 1023" "distinct tbl" "\<forall>a\<in>set tbl. 0 \<le> a"
    using slot_keys_props(1,2)[OF t(1)] slot_keys_nonneg[OF t(1)] assms(3) t(2) by (auto simp: strict_sorted_iff)
  have "map u32 hits = hits" using assms(3) by (intro map_idI) (simp add: u32_def and_mask32)
  moreover have "\<forall>l\<in>set (map (slot_line tbl) hits). NL \<notin> set l"
    using NL_join[OF slot_words_plain] by (auto simp: slot_line_words)
  ultimately have e: "load_addr_file path (file_lines (expected_full_txt art)) = Inr hits"
    using slot_lines_read[of hits path 1 tbl "[]"] assms(3) unfolding s(3) load_addr_file_def
    by (subst file_lines_unlines) auto
  have nl: "\<forall>l\<in>set (table_lines tbl). NL \<notin> set l" using NL_join[OF table_words_plain] by (auto simp: table_lines_def)
  have "file_lines (wp_table_txt art) = table_lines tbl"
    unfolding s(2) wp_table_text_lines using nl by (rule file_lines_unlines)
  then show ?thesis using e table_lines_read[OF keys(3,2)] keys(1) t(2) by simp
qed

lemma artifacts_read_back_witness:
  "\<exists>art. wp_gen (hit_text DEMO_HITS) [] = Inr art \<and> load_addr_file ''e'' (file_lines (expected_full_txt art)) = Inr DEMO_HITS"
proof -
  have r: "read_hits (hit_text DEMO_HITS) = Inr DEMO_HITS" using demo_hits(2) by (intro hit_text_read) auto
  then obtain art where a: "wp_gen (hit_text DEMO_HITS) [] = Inr art" by (simp add: wp_gen_def demo_table)
  from artifacts_read_back[OF r a demo_hits(2)] a show ?thesis by blast
qed

end
