(* ===== verification/Ctl_Actions.thy ===== *)
theory Ctl_Actions
  imports Trace_Sinks Console_Reader
begin

unbundle bit_operations_syntax

text \<open>
  The control actions of the dashboard server (\<open>_ctl\<close> behind \<open>POST /api/ctl\<close>): run and stop of the
  cores, arming and disarming the encoders, the sinks, the pulses of CONTROL, the staging of program
  images, and the report the action returns. The device is any bus of \<open>Dash_Bus\<close>; waiting times are
  left out. The locale \<open>enc_port\<close> is what arming relies on: an encoder control register with
  enable-locked and write-1-to-clear bits; \<open>ctl_port\<close> adds CONTROL and what an action leaves alone, \<open>sim_port\<close> the
  sink register of a simulated device. They are interpreted on the register simulation, \<open>ctl_port\<close> also on the
  simulation under watch.
\<close>

section \<open>The request and the report\<close>

text \<open>\<open>core\<close> of the request, and the keys of the scenario entry only the actions read:
  \<open>live_sync\<close> (mode, max), \<open>preload\<close> (target, path).\<close>

record ctl_req =
  rq_action :: string
  rq_core :: "int option"

record ctl_keys =
  ck_live_sync :: "(int option \<times> int option) option"
  ck_preload :: "(string, string) dict"

datatype hint_part = Mirror_Cold "nat list" | Restarted | Tracing_Off "string list"

record preload_step =
  ps_target :: string
  ps_file :: string
  ps_bytes :: int
  ps_error :: "exn option"

datatype preload_report = Cores_Running_First | Staged "preload_step list"

record ctl_res =
  cl_control :: int
  cl_te :: "(string, int) dict"
  cl_hint :: "hint_part list"
  cl_sinks :: "arm_report option"
  cl_afifm :: "cmd_step list option"
  cl_preload :: "preload_report option"
  cl_running :: "bool list"
  cl_status :: "(int \<times> bool option list) option"

text \<open>What an action leaves for the report.\<close>

record ctl_note =
  cn_hint :: "hint_part list"
  cn_sinks :: "arm_report option"
  cn_afifm :: "cmd_step list option"
  cn_preload :: "preload_report option"

definition no_note :: ctl_note where
  "no_note = \<lparr> cn_hint = [], cn_sinks = None, cn_afifm = None, cn_preload = None \<rparr>"

text \<open>The device with its environment: the port widths (real only on the live bus), the device tree
  the sink check reads, and the image files.\<close>

record 'b ctl_env =
  ce_bus :: "'b dash_bus"
  ce_widths :: "('b, cmd_step list) act"
  ce_tree :: "dev_tree option"
  ce_files :: "string \<Rightarrow> exn + byte list"

definition refusal_exn :: "refusal \<Rightarrow> exn" where
  "refusal_exn r = (case r of
     R_Collective_Start ps \<Rightarrow> Exn ValueError ''CONFLICT: the collective start releases every core'' (map AS ps)
   | R_Mixed_Protocols n mine others \<Rightarrow>
       Exn ValueError ''CONFLICT'' (AS n # AS mine # concat (map (\<lambda>(m, p). [AS m, AS p]) others))
   | _ \<Rightarrow> Exn ValueError ''CONFLICT'' [])"

section \<open>Staging program images\<close>

definition image_path :: "string \<Rightarrow> string \<Rightarrow> string" where
  "image_path here p = (if startswith p ''/'' then p else here @ ''/'' @ p)"

definition path_name :: "string \<Rightarrow> string" where
  "path_name p = rev (takeWhile (\<lambda>c. c \<noteq> CHR ''/'') (rev p))"

definition stage_one :: "'b ctl_env \<Rightarrow> scenario \<Rightarrow> string \<Rightarrow> string \<times> string \<Rightarrow> ('b, preload_step) act" where
  "stage_one env sc here = (\<lambda>(target, path).
     handle
       (bnd (lift_exn (ce_files env (image_path here path))) (\<lambda>data.
        bnd (load_program (ce_bus env) sc data target) (\<lambda>n.
        ret \<lparr> ps_target = target, ps_file = path_name (image_path here path), ps_bytes = n, ps_error = None \<rparr>)))
       (\<lambda>e. ret \<lparr> ps_target = target, ps_file = path, ps_bytes = 0, ps_error = Some e \<rparr>))"

definition run_preload :: "'b ctl_env \<Rightarrow> scenario \<Rightarrow> string \<Rightarrow> (string, string) dict \<Rightarrow> ('b, preload_step list) act" where
  "run_preload env sc here preloads =
     (if db_demo (ce_bus env) then ret [] else map_act (stage_one env sc here) preloads)"

section \<open>The registers an action starts from\<close>

definition ctl_encs :: "scenario \<Rightarrow> string list" where
  "ctl_encs sc = filter (\<lambda>r. dict_get (sc_regions sc) r \<noteq> None) ENC_REGIONS"

text \<open>The collective bit, and every bit of the cores that hang off it.\<close>

definition collective_bits :: "scenario \<Rightarrow> int" where
  "collective_bits sc =
     fold (\<lambda>c m. if ''core_run'' \<in> set (core_run_bits sc c) then m OR core_run_mask sc c else m)
       (sc_cores sc) (cbit sc ''core_run'')"

definition read_encs :: "'b dash_bus \<Rightarrow> scenario \<Rightarrow> ('b, (string, int) dict) act" where
  "read_encs bus sc = map_act (\<lambda>e. bnd (read1 bus e 0) (\<lambda>t. ret (e, t))) (ctl_encs sc)"

definition write_ctl :: "'b dash_bus \<Rightarrow> int \<Rightarrow> int \<Rightarrow> ('b, unit) act" where
  "write_ctl bus C v = db_write bus ''ctrl'' C v"

section \<open>The actions\<close>

text \<open>A lock reason is raised, otherwise the action goes on.\<close>

definition unless_locked :: "'b dash_bus \<Rightarrow> scenario \<Rightarrow> nat option \<Rightarrow> ('b, 'a) act \<Rightarrow> ('b, 'a) act" where
  "unless_locked bus sc idx k =
     bnd (protocol_lock_reason bus sc idx) (\<lambda>why. case why of Some r \<Rightarrow> raise (refusal_exn r) | None \<Rightarrow> k)"

definition act_run :: "'b dash_bus \<Rightarrow> scenario \<Rightarrow> int \<Rightarrow> int \<Rightarrow> ('b, unit) act" where
  "act_run bus sc C ctrl =
     (let all = collective_bits sc in
      unless_locked bus sc None
        (andthen (act_when (ctrl AND all \<noteq> 0) (write_ctl bus C (ctrl AND NOT all)))
          (write_ctl bus C ((ctrl AND NOT all) OR cbit sc ''core_run''))))"

definition act_stop :: "'b dash_bus \<Rightarrow> scenario \<Rightarrow> int \<Rightarrow> int \<Rightarrow> ('b, unit) act" where
  "act_stop bus sc C ctrl = write_ctl bus C (ctrl AND NOT (collective_bits sc))"

definition act_core :: "'b dash_bus \<Rightarrow> scenario \<Rightarrow> int \<Rightarrow> int \<Rightarrow> bool \<Rightarrow> ('b, nat list option) act" where
  "act_core bus sc ctrl i want =
     (if \<not> (0 \<le> i \<and> i < int (length (sc_cores sc)))
      then raise (Exn ValueError ''core index out of range'' [AI i, AS (sc_id sc), AI (int (length (sc_cores sc)))])
      else let idx = nat i; c = sc_cores sc ! idx in
        if core_own_bit sc c = 0
        then raise (Exn ValueError ''scenario has no own run bit for core'' [AS (sc_id sc), AI i])
        else (if want then unless_locked bus sc (Some idx) else (\<lambda>k. k))
          (andthen (if want \<and> core_running sc ctrl c then bnd (set_core_run bus sc idx False) (\<lambda>_. ret ()) else ret ())
            (bnd (set_core_run bus sc idx want) (\<lambda>(b, a, note). ret note))))"

definition live_mode :: "ctl_keys \<Rightarrow> int" where
  "live_mode ks = (case ck_live_sync ks of None \<Rightarrow> 6 | Some (m, _) \<Rightarrow> opt_or m 6)"

definition live_max :: "ctl_keys \<Rightarrow> int" where
  "live_max ks = (case ck_live_sync ks of None \<Rightarrow> 4 | Some (_, m) \<Rightarrow> opt_or m 4)"

definition sync_fields :: "ctl_keys \<Rightarrow> int \<Rightarrow> int" where
  "sync_fields ks t = ((t AND NOT (push_bit 16 0xFF)) OR push_bit 16 (live_mode ks AND 0xF))
     OR push_bit 20 (live_max ks AND 0xF)"

definition decode_srcbits :: "scenario \<Rightarrow> int" where
  "decode_srcbits sc = (case sd_decode (sc_raw sc) of None \<Rightarrow> 0 | Some d \<Rightarrow> opt_or (dd_srcbits d) 0)"

text \<open>Source bits and id of an encoder of a multi-source scenario, in the same disabled window.\<close>

definition source_id :: "'b dash_bus \<Rightarrow> scenario \<Rightarrow> string \<Rightarrow> nat \<Rightarrow> int \<Rightarrow> ('b, int) act" where
  "source_id bus sc e i t =
     (if 1 < length (ctl_encs sc) \<and> decode_srcbits sc \<noteq> 0 then
        bnd (read1 bus e 0x008) (\<lambda>f.
        andthen (db_write bus e 0x008
            ((f AND 0x0000FFFF) OR push_bit 28 (decode_srcbits sc AND 0xF) OR push_bit 16 (int i)))
          (ret (t AND NOT (push_bit 15 1))))
      else ret t)"

text \<open>Drop Enable, write the locked fields, set Active, then arm.\<close>

definition trace_on_enc :: "'b dash_bus \<Rightarrow> regmap \<Rightarrow> scenario \<Rightarrow> ctl_keys \<Rightarrow> nat \<times> string \<times> int \<Rightarrow> ('b, unit) act" where
  "trace_on_enc bus rm sc ks = (\<lambda>(i, e, te).
     andthen (db_write bus e 0 (rmw_value rm e 0 (te AND NOT (TE_ENABLE OR TE_ITRACE))))
     (bnd (read1 bus e 0) (\<lambda>r.
      bnd (source_id bus sc e i (sync_fields ks r)) (\<lambda>t.
      andthen (db_write bus e 0 (rmw_value rm e 0 (t OR TE_ACTIVE)))
      (bnd (read1 bus e 0) (\<lambda>r2. db_write bus e 0 (rmw_value rm e 0 (r2 OR TE_ENABLE OR TE_ITRACE))))))))"

definition act_trace_on :: "'b dash_bus \<Rightarrow> regmap \<Rightarrow> scenario \<Rightarrow> ctl_keys \<Rightarrow> (string, int) dict \<Rightarrow> ('b, unit) act" where
  "act_trace_on bus rm sc ks tev = for_each (List.enumerate 0 tev) (trace_on_enc bus rm sc ks)"

text \<open>A pulse on bits of CONTROL, from the word read at the start.\<close>

definition pulse :: "'b dash_bus \<Rightarrow> int \<Rightarrow> int \<Rightarrow> int \<Rightarrow> ('b, unit) act" where
  "pulse bus C ctrl b = andthen (write_ctl bus C (ctrl OR b)) (write_ctl bus C (ctrl AND NOT b))"

definition trace_off_enc :: "'b dash_bus \<Rightarrow> regmap \<Rightarrow> string \<times> int \<Rightarrow> ('b, unit) act" where
  "trace_off_enc bus rm = (\<lambda>(e, te). db_write bus e 0 (rmw_value rm e 0 (te AND NOT TE_ITRACE)))"

definition act_trace_off :: "'b dash_bus \<Rightarrow> regmap \<Rightarrow> scenario \<Rightarrow> int \<Rightarrow> int \<Rightarrow> (string, int) dict \<Rightarrow> ('b, unit) act" where
  "act_trace_off bus rm sc C ctrl tev =
     andthen (for_each tev (trace_off_enc bus rm))
       (act_when (cbit sc ''trace_flush'' \<noteq> 0) (pulse bus C ctrl (cbit sc ''trace_flush'')))"

definition cva6_bit :: "scenario \<Rightarrow> int" where
  "cva6_bit sc = (if cbit sc ''cva6_run'' \<noteq> 0 then cbit sc ''cva6_run'' else cbit sc ''core_run'')"

definition act_sink :: "'b ctl_env \<Rightarrow> scenario \<Rightarrow> int \<Rightarrow> string \<Rightarrow> ('b, ctl_note) act" where
  "act_sink env sc sink action =
     (case co sc ''sink_ctrl'' of
        None \<Rightarrow> raise (Exn ValueError ''scenario has no sink control path'' [AS (sc_id sc)])
      | Some so \<Rightarrow>
        let w = (\<lambda>v. db_write (ce_bus env) ''ctrl'' so v) in
        if action = ''ddr_on'' then
          bnd (if db_demo (ce_bus env) then ret None else bnd (ce_widths env) (\<lambda>st. ret (Some st))) (\<lambda>st.
            andthen (w (sink OR 0x1)) (ret (no_note\<lparr>cn_afifm := st\<rparr>)))
        else if action = ''ddr_off'' then andthen (w (sink AND NOT 0x1)) (ret no_note)
        else if action = ''ddr_clear'' then
          (if sink AND 0x1 \<noteq> 0 then raise (Exn ValueError ''ddr_clear only while DDR sink is off'' [])
           else andthen (w (sink OR 0x2)) (ret no_note))
        else if action = ''pib_on'' then andthen (w (sink OR 0x10)) (ret no_note)
        else andthen (w (sink AND NOT 0x10)) (ret no_note))"

definition act_arm_sinks :: "'b ctl_env \<Rightarrow> scenario \<Rightarrow> ('b, ctl_note) act" where
  "act_arm_sinks env sc =
     bnd (if db_demo (ce_bus env) then ret None else bnd (ce_widths env) (\<lambda>st. ret (Some st))) (\<lambda>st.
     bnd (arm_default_sinks (ce_bus env) sc (ce_tree env)) (\<lambda>r.
       ret (no_note\<lparr>cn_afifm := st, cn_sinks := Some r\<rparr>)))"

definition act_preload :: "'b ctl_env \<Rightarrow> scenario \<Rightarrow> ctl_keys \<Rightarrow> string \<Rightarrow> int \<Rightarrow> ('b, ctl_note) act" where
  "act_preload env sc ks here ctrl =
     (if ctrl AND collective_bits sc \<noteq> 0 then ret (no_note\<lparr>cn_preload := Some Cores_Running_First\<rparr>)
      else bnd (run_preload env sc here (ck_preload ks)) (\<lambda>st. ret (no_note\<lparr>cn_preload := Some (Staged st)\<rparr>)))"

definition need_bit :: "int \<Rightarrow> string \<Rightarrow> scenario \<Rightarrow> ('s, 'a) act \<Rightarrow> ('s, 'a) act" where
  "need_bit b msg sc k = (if b = 0 then raise (Exn ValueError msg [AS (sc_id sc)]) else k)"

text \<open>The dispatch on the action's name; \<open>con_clear\<close> also forgets the recording.\<close>

definition act_dispatch ::
    "'b ctl_env \<Rightarrow> regmap \<Rightarrow> scenario \<Rightarrow> ctl_keys \<Rightarrow> string \<Rightarrow> ctl_req \<Rightarrow> int \<Rightarrow> int \<Rightarrow> (string, int) dict \<Rightarrow> int \<Rightarrow>
     ('b con_state, ctl_note) act" where
  "act_dispatch env rm sc ks here req C ctrl tev sink =
     (let bus = ce_bus env; a = rq_action req;
          plain = (\<lambda>m. bnd (on_snd m) (\<lambda>_. ret no_note)) in
      if a = ''run'' then plain (act_run bus sc C ctrl)
      else if a = ''stop'' then plain (act_stop bus sc C ctrl)
      else if a = ''core_run'' \<or> a = ''core_stop'' then
        bnd (on_snd (act_core bus sc ctrl (opt_or (rq_core req) 0) (a = ''core_run''))) (\<lambda>note.
          ret (no_note\<lparr>cn_hint := (case note of None \<Rightarrow> [] | Some cold \<Rightarrow> [Mirror_Cold cold])\<rparr>))
      else if a = ''trace_on'' then plain (act_trace_on bus rm sc ks tev)
      else if a = ''trace_off'' then plain (act_trace_off bus rm sc C ctrl tev)
      else if a = ''cva6_run'' then plain (write_ctl bus C (ctrl OR cva6_bit sc))
      else if a = ''cva6_stop'' then plain (write_ctl bus C (ctrl AND NOT (cva6_bit sc)))
      else if a \<in> set [''ddr_on'', ''ddr_off'', ''ddr_clear'', ''pib_on'', ''pib_off'']
        then on_snd (act_sink env sc sink a)
      else if a = ''arm_sinks'' then on_snd (act_arm_sinks env sc)
      else if a = ''preload'' then on_snd (act_preload env sc ks here ctrl)
      else if a = ''clear'' then plain (pulse bus C ctrl (cbit sc ''trace_clear''))
      else if a = ''con_clear'' then
        need_bit (cbit sc ''con_clear'') ''scenario has no console ring'' sc
          (andthen (on_snd (pulse bus C ctrl (cbit sc ''con_clear'')))
          (andthen (upd_reader (\<lambda>_. con_reader0)) (ret no_note)))
      else if a = ''flush'' then
        need_bit (cbit sc ''trace_flush'') ''scenario has no trace_flush'' sc
          (plain (pulse bus C ctrl (cbit sc ''trace_flush'')))
      else if a = ''irq_on'' \<or> a = ''irq_off'' then
        need_bit (cbit sc ''irq_gen_en'') ''scenario has no IRQ generator'' sc
          (plain (write_ctl bus C (if a = ''irq_on'' then ctrl OR cbit sc ''irq_gen_en''
                                  else ctrl AND NOT (cbit sc ''irq_gen_en''))))
      else raise (Exn ValueError ''unknown action'' [AS a]))"

section \<open>The report\<close>

definition run_hints :: "string \<Rightarrow> bool \<Rightarrow> (string, int) dict \<Rightarrow> hint_part list \<Rightarrow> hint_part list" where
  "run_hints a was_running after hint =
     (if a = ''run'' \<or> a = ''core_run'' then
        let base = (if a = ''run'' \<and> was_running then [Restarted] else hint);
            cold = map fst (filter (\<lambda>(e, t). \<not> te_effective t) after) in
        if cold = [] then base else base @ [Tracing_Off cold]
      else hint)"

definition mirrored_cores :: "scenario \<Rightarrow> int \<Rightarrow> bool option list" where
  "mirrored_cores sc st = map (\<lambda>c. case dict_get (sc_status_bits sc) (running_bit_name c) of
       None \<Rightarrow> None | Some b \<Rightarrow> Some (drop_bit b st AND 1 \<noteq> 0)) (sc_cores sc)"

definition read_mirror :: "'b dash_bus \<Rightarrow> scenario \<Rightarrow> ('b, (int \<times> bool option list) option) act" where
  "read_mirror bus sc =
     (case co sc ''status'' of
        None \<Rightarrow> ret None
      | Some so \<Rightarrow>
        if list_ex (\<lambda>c. dict_get (sc_status_bits sc) (running_bit_name c) \<noteq> None) (sc_cores sc)
        then bnd (read1 bus ''ctrl'' so) (\<lambda>st. ret (Some (st, mirrored_cores sc st)))
        else ret None)"

definition ctl_report :: "'b dash_bus \<Rightarrow> scenario \<Rightarrow> string \<Rightarrow> int \<Rightarrow> int \<Rightarrow> ctl_note \<Rightarrow> ('b, ctl_res) act" where
  "ctl_report bus sc a C ctrl note =
     bnd (read1 bus ''ctrl'' C) (\<lambda>ctrl2.
     bnd (read_encs bus sc) (\<lambda>after.
     bnd (read_mirror bus sc) (\<lambda>mir.
     ret \<lparr> cl_control = ctrl2, cl_te = after,
           cl_hint = run_hints a (ctrl AND collective_bits sc \<noteq> 0) after (cn_hint note),
           cl_sinks = cn_sinks note, cl_afifm = cn_afifm note, cl_preload = cn_preload note,
           cl_running = map (core_running sc ctrl2) (sc_cores sc), cl_status = mir \<rparr>)))"

definition read_sink :: "'b dash_bus \<Rightarrow> scenario \<Rightarrow> ('b, int) act" where
  "read_sink bus sc = (case co sc ''sink_ctrl'' of None \<Rightarrow> ret 0 | Some so \<Rightarrow> read1 bus ''ctrl'' so)"

definition ctl_request ::
    "'b ctl_env \<Rightarrow> regmap \<Rightarrow> scenario \<Rightarrow> ctl_keys \<Rightarrow> string \<Rightarrow> ctl_req \<Rightarrow> ('b con_state, ctl_res) act" where
  "ctl_request env rm sc ks here req =
     (case co sc ''control'' of
        None \<Rightarrow> raise (Exn TypeError ''control'' [])
      | Some C \<Rightarrow>
        bnd (on_snd (read1 (ce_bus env) ''ctrl'' C)) (\<lambda>ctrl.
        bnd (on_snd (read_encs (ce_bus env) sc)) (\<lambda>tev.
        bnd (on_snd (read_sink (ce_bus env) sc)) (\<lambda>sink.
        bnd (act_dispatch env rm sc ks here req C ctrl tev sink) (\<lambda>note.
        on_snd (ctl_report (ce_bus env) sc (rq_action req) C ctrl note))))))"

section \<open>Arming an encoder\<close>

definition multi_source :: "scenario \<Rightarrow> bool" where
  "multi_source sc \<longleftrightarrow> 1 < length (ctl_encs sc) \<and> decode_srcbits sc \<noteq> 0"

text \<open>The control word that arming leaves: Active, Enable and ITrace set, the sync fields programmed, the
  source field on in a multi-source scenario, every other bit as it was.\<close>

definition armed_bit :: "scenario \<Rightarrow> ctl_keys \<Rightarrow> int \<Rightarrow> nat \<Rightarrow> bool" where
  "armed_bit sc ks old i \<longleftrightarrow>
     (if i < 3 then True
      else if 16 \<le> i \<and> i < 20 then bit (live_mode ks) (i - 16)
      else if 20 \<le> i \<and> i < 24 then bit (live_max ks) (i - 20)
      else if i = 15 \<and> multi_source sc then False
      else bit old i)"

text \<open>The source register of the encoder at a position: the source bits of the scenario and its position as
  the source id, in a multi-source scenario.\<close>

definition source_bit :: "scenario \<Rightarrow> nat \<Rightarrow> int \<Rightarrow> nat \<Rightarrow> bool" where
  "source_bit sc i old b \<longleftrightarrow>
     (if multi_source sc \<and> 28 \<le> b then bit (decode_srcbits sc) (b - 28)
      else if multi_source sc \<and> 16 \<le> b then bit (int i) (b - 16)
      else bit old b)"

definition source_mask_ok :: "regmap \<Rightarrow> scenario \<Rightarrow> string \<Rightarrow> bool" where
  "source_mask_ok rm sc e \<longleftrightarrow> (multi_source sc \<longrightarrow> w1c_mask rm e 8 = 0)"

text \<open>No write-1-to-clear bit among those arming writes, and the enable bits themselves not locked.\<close>

definition arm_masks_ok :: "regmap \<Rightarrow> string \<Rightarrow> bool" where
  "arm_masks_ok rm e \<longleftrightarrow> gate_mask rm e 0 AND 7 = 0 \<and> w1c_mask rm e 0 AND 0xFF8007 = 0 \<and>
     gate_mask rm e 0 AND w1c_mask rm e 0 = 0"

lemma bit_7: "bit (7 :: int) i \<longleftrightarrow> i < 3"
  using bit_ones [of 3 i] by simp

lemma bit_ff8007: "bit (0xFF8007 :: int) i \<longleftrightarrow> i < 3 \<or> 15 \<le> i \<and> i < 24"
proof -
  have "(0xFF8007 :: int) = push_bit 15 (push_bit 9 1 - 1) OR (push_bit 3 1 - 1)" by simp
  then show ?thesis by (simp only: bit_or_iff bit_push_bit_iff_int bit_ones) auto
qed

lemma arm_masks_bits:
  assumes "arm_masks_ok rm e"
  shows "i < 3 \<Longrightarrow> \<not> bit (gate_mask rm e 0) i" "i < 3 \<or> 15 \<le> i \<and> i < 24 \<Longrightarrow> \<not> bit (w1c_mask rm e 0) i"
    "\<not> (bit (gate_mask rm e 0) i \<and> bit (w1c_mask rm e 0) i)"
  using assms unfolding arm_masks_ok_def and_zero_iff bit_7 bit_ff8007 by auto

lemma bit_enable_itrace: "bit (TE_ENABLE OR TE_ITRACE) i \<longleftrightarrow> i = 1 \<or> i = 2"
proof -
  have "TE_ENABLE OR TE_ITRACE = push_bit 1 (push_bit 2 1 - 1)" by (simp add: TE_ENABLE_def TE_ITRACE_def)
  then show ?thesis by (simp only: bit_push_bit_iff_int bit_ones) auto
qed

lemma clear_enable_itrace:
  "bit (x AND NOT (TE_ENABLE OR TE_ITRACE)) i \<longleftrightarrow> bit x i \<and> i \<noteq> 1 \<and> i \<noteq> 2"
  unfolding bit_and_iff bit_not_iff bit_enable_itrace by auto

lemma set_enable_itrace: "bit (x OR TE_ENABLE OR TE_ITRACE) i \<longleftrightarrow> bit x i \<or> i = 1 \<or> i = 2"
  unfolding or.assoc bit_or_iff [of x] bit_enable_itrace by auto

lemma bit_itrace: "bit TE_ITRACE i \<longleftrightarrow> i = 2"
proof -
  have "TE_ITRACE = push_bit 2 (push_bit 1 1 - 1)" by (simp add: TE_ITRACE_def)
  then show ?thesis unfolding TE_ITRACE_def by (simp only: bit_push_bit_iff_int bit_ones) auto
qed

lemma bit_active: "bit TE_ACTIVE i \<longleftrightarrow> i = 0"
  using bit_ones [of 1 i] by (simp add: TE_ACTIVE_def)

lemma bit_15: "bit (15 :: int) i \<longleftrightarrow> i < 4"
  using bit_ones [of 4 i] by simp

lemma bit_255: "bit (255 :: int) i \<longleftrightarrow> i < 8"
  using bit_ones [of 8 i] by simp

lemma bit_ffff: "bit (0xFFFF :: int) i \<longleftrightarrow> i < 16"
  using bit_ones [of 16 i] by simp

lemma bit_source_word:
  assumes "i < 4096" "b < 32"
  shows "bit ((f AND 0x0000FFFF) OR push_bit 28 (k AND 0xF) OR push_bit 16 (int i)) b \<longleftrightarrow>
     (if 28 \<le> b then bit k (b - 28) else if 16 \<le> b then bit (int i) (b - 16) else bit f b)"
proof -
  have "take_bit 12 (int i) = int i" using assms(1) by (simp add: take_bit_int_eq_self_iff)
  then have "bit (int i) n \<Longrightarrow> n < 12" for n by (metis bit_take_bit_iff)
  then have "\<not> (28 \<le> b \<and> bit (int i) (b - 16))" by force
  then show ?thesis
    using assms(2) unfolding bit_or_iff bit_and_iff bit_push_bit_iff_int bit_15 bit_ffff by auto
qed

lemma bit_sync_fields:
  "bit (sync_fields ks t) i \<longleftrightarrow> (if 16 \<le> i \<and> i < 20 then bit (live_mode ks) (i - 16)
     else if 20 \<le> i \<and> i < 24 then bit (live_max ks) (i - 20) else bit t i)"
  unfolding sync_fields_def bit_or_iff bit_and_iff bit_not_iff bit_push_bit_iff_int bit_15 bit_255
  by auto

locale enc_port =
  fixes bus :: "'b dash_bus" and rm :: regmap and encs :: "string list"
    and reg :: "string \<Rightarrow> int \<Rightarrow> 'b \<Rightarrow> int" and inv :: "'b \<Rightarrow> bool"
  assumes enc_read: "inv s \<Longrightarrow> e \<in> set encs \<Longrightarrow> off \<in> {0, 8} \<Longrightarrow> db_read bus e off 1 s = (Inr [reg e off s], s)"
    and enc_write: "inv s \<Longrightarrow> e \<in> set encs \<Longrightarrow> off \<in> {0, 8} \<Longrightarrow>
      \<exists>t. db_write bus e off v s = (Inr (), t) \<and> inv t
        \<and> (\<forall>i<32. bit (reg e off t) i \<longleftrightarrow> stored_bit rm e off (reg e 0 s) (reg e off s) v i)
        \<and> (\<forall>d p. d \<in> set encs \<longrightarrow> p \<in> {0, 8} \<longrightarrow> (d, p) \<noteq> (e, off) \<longrightarrow> reg d p t = reg d p s)"
begin

text \<open>A read-modify-write of the control word keeps the write-1-to-clear bits, whatever it writes.\<close>

lemma rmw_write:
  assumes "inv s" "e \<in> set encs" "arm_masks_ok rm e"
  shows "\<exists>t. db_write bus e 0 (rmw_value rm e 0 v) s = (Inr (), t) \<and> inv t
     \<and> (\<forall>i<32. bit (reg e 0 t) i \<longleftrightarrow>
          (if bit (w1c_mask rm e 0) i \<or> bit (reg e 0 s) 1 \<and> bit (gate_mask rm e 0) i then bit (reg e 0 s) i else bit v i))
     \<and> (\<forall>d p. d \<in> set encs \<longrightarrow> p \<in> {0, 8} \<longrightarrow> (d, p) \<noteq> (e, 0) \<longrightarrow> reg d p t = reg d p s)"
proof -
  obtain t where t: "db_write bus e 0 (rmw_value rm e 0 v) s = (Inr (), t)" "inv t"
    "\<forall>i<32. bit (reg e 0 t) i \<longleftrightarrow> stored_bit rm e 0 (reg e 0 s) (reg e 0 s) (rmw_value rm e 0 v) i"
    "\<forall>d p. d \<in> set encs \<longrightarrow> p \<in> {0, 8} \<longrightarrow> (d, p) \<noteq> (e, 0) \<longrightarrow> reg d p t = reg d p s"
    using enc_write [OF assms(1,2), of 0] by blast
  then show ?thesis using arm_masks_bits(3) [OF assms(3)]
    by (intro exI [of _ t]) (auto simp: stored_bit_def Let_def bit_rmw_value)
qed

lemma source_id_effect:
  assumes "inv s" "e \<in> set encs" "\<not> bit (reg e 0 s) 1" "i < 4096"
  shows "\<exists>t1 t. source_id bus sc e i t0 s = (Inr t1, t) \<and> inv t \<and> reg e 0 t = reg e 0 s
     \<and> (\<forall>b. bit t1 b \<longleftrightarrow> bit t0 b \<and> \<not> (b = 15 \<and> multi_source sc))
     \<and> (source_mask_ok rm sc e \<longrightarrow> (\<forall>b<32. bit (reg e 8 t) b \<longleftrightarrow> source_bit sc i (reg e 8 s) b))
     \<and> (\<forall>d p. d \<in> set encs \<longrightarrow> p \<in> {0, 8} \<longrightarrow> d \<noteq> e \<longrightarrow> reg d p t = reg d p s)"
proof (cases "multi_source sc")
  case True
  let ?v = "(reg e 8 s AND 0x0000FFFF) OR push_bit 28 (decode_srcbits sc AND 0xF) OR push_bit 16 (int i)"
  obtain t where t: "db_write bus e 8 ?v s = (Inr (), t)" "inv t"
    "\<forall>b<32. bit (reg e 8 t) b \<longleftrightarrow> stored_bit rm e 8 (reg e 0 s) (reg e 8 s) ?v b"
    "\<forall>d p. d \<in> set encs \<longrightarrow> p \<in> {0, 8} \<longrightarrow> (d, p) \<noteq> (e, 8) \<longrightarrow> reg d p t = reg d p s"
    using enc_write [OF assms(1,2), of 8 ?v] by blast
  have r: "read1 bus e 8 s = (Inr (reg e 8 s), s)" using enc_read [OF assms(1,2), of 8] by (auto intro: read1_ok)
  have b: "bit (t0 AND NOT (push_bit 15 1)) b \<longleftrightarrow> bit t0 b \<and> b \<noteq> 15" for b
    unfolding bit_and_iff bit_not_iff bit_push_bit_iff_int bit_1_iff by auto
  have src: "source_mask_ok rm sc e \<longrightarrow> (\<forall>b<32. bit (reg e 8 t) b \<longleftrightarrow> source_bit sc i (reg e 8 s) b)"
  proof (intro allI impI)
    fix b :: nat assume m: "source_mask_ok rm sc e" and b: "b < 32"
    have "bit (reg e 8 t) b \<longleftrightarrow> bit ?v b"
      using t(3) b assms(3) m True by (simp add: stored_bit_def source_mask_ok_def)
    also have "\<dots> \<longleftrightarrow> source_bit sc i (reg e 8 s) b"
      unfolding bit_source_word [OF assms(4) b] by (simp add: source_bit_def True)
    finally show "bit (reg e 8 t) b \<longleftrightarrow> source_bit sc i (reg e 8 s) b" .
  qed
  have "reg e 0 t = reg e 0 s" "\<forall>d p. d \<in> set encs \<longrightarrow> p \<in> {0, 8} \<longrightarrow> d \<noteq> e \<longrightarrow> reg d p t = reg d p s"
    using t(4) assms(2) by auto
  then show ?thesis
    using True r t(1,2) src
    by (intro exI [of _ "t0 AND NOT (push_bit 15 1)"] exI [of _ t])
       (simp add: source_id_def multi_source_def andthen_def bnd_def b del: push_bit_of_1)
next
  case False
  then have "source_id bus sc e i t0 s = (Inr t0, s)" by (auto simp: source_id_def multi_source_def)
  with assms(1) False show ?thesis by (auto simp: source_bit_def)
qed

lemma trace_on_enc_effect:
  assumes "inv s" "e \<in> set encs" "arm_masks_ok rm e" "i < 4096"
  shows "\<exists>t. trace_on_enc bus rm sc ks (i, e, reg e 0 s) s = (Inr (), t) \<and> inv t
     \<and> (\<forall>b<32. bit (reg e 0 t) b \<longleftrightarrow> armed_bit sc ks (reg e 0 s) b)
     \<and> (source_mask_ok rm sc e \<longrightarrow> (\<forall>b<32. bit (reg e 8 t) b \<longleftrightarrow> source_bit sc i (reg e 8 s) b))
     \<and> (\<forall>d p. d \<in> set encs \<longrightarrow> p \<in> {0, 8} \<longrightarrow> d \<noteq> e \<longrightarrow> reg d p t = reg d p s)"
proof -
  note m = arm_masks_bits [OF assms(3)]
  let ?W = "\<lambda>b. bit (w1c_mask rm e 0) b" and ?te = "reg e 0 s"
  obtain s1 where w1: "db_write bus e 0 (rmw_value rm e 0 (?te AND NOT (TE_ENABLE OR TE_ITRACE))) s = (Inr (), s1)" "inv s1"
    "\<forall>b<32. bit (reg e 0 s1) b \<longleftrightarrow> (if ?W b \<or> bit ?te 1 \<and> bit (gate_mask rm e 0) b then bit ?te b
        else bit (?te AND NOT (TE_ENABLE OR TE_ITRACE)) b)"
    "\<forall>d p. d \<in> set encs \<longrightarrow> p \<in> {0, 8} \<longrightarrow> (d, p) \<noteq> (e, 0) \<longrightarrow> reg d p s1 = reg d p s"
    using rmw_write [OF assms(1-3), of "?te AND NOT (TE_ENABLE OR TE_ITRACE)"] by blast
  have s1: "db_write bus e 0 (rmw_value rm e 0 (?te AND NOT (TE_ENABLE OR TE_ITRACE))) s = (Inr (), s1)" "inv s1"
    "\<forall>b<32. bit (reg e 0 s1) b \<longleftrightarrow> bit ?te b \<and> b \<noteq> 1 \<and> b \<noteq> 2"
    "\<forall>d p. d \<in> set encs \<longrightarrow> p \<in> {0, 8} \<longrightarrow> (d, p) \<noteq> (e, 0) \<longrightarrow> reg d p s1 = reg d p s"
    using w1 m(1,2) unfolding clear_enable_itrace by (simp_all, auto)
  have off1: "\<not> bit (reg e 0 s1) 1" using s1(3) by simp
  define t0 where "t0 = sync_fields ks (reg e 0 s1)"
  obtain t1 s2 where s2: "source_id bus sc e i t0 s1 = (Inr t1, s2)" "inv s2" "reg e 0 s2 = reg e 0 s1"
    "\<forall>b. bit t1 b \<longleftrightarrow> bit t0 b \<and> \<not> (b = 15 \<and> multi_source sc)"
    "source_mask_ok rm sc e \<longrightarrow> (\<forall>b<32. bit (reg e 8 s2) b \<longleftrightarrow> source_bit sc i (reg e 8 s1) b)"
    "\<forall>d p. d \<in> set encs \<longrightarrow> p \<in> {0, 8} \<longrightarrow> d \<noteq> e \<longrightarrow> reg d p s2 = reg d p s1"
    using source_id_effect [OF s1(2) assms(2) off1 assms(4), of sc t0] by blast
  have off: "\<not> bit (reg e 0 s2) 1" using s1(3) s2(3) by simp
  obtain s3 where s3: "db_write bus e 0 (rmw_value rm e 0 (t1 OR TE_ACTIVE)) s2 = (Inr (), s3)" "inv s3"
    "\<forall>b<32. bit (reg e 0 s3) b \<longleftrightarrow> (if ?W b then bit (reg e 0 s2) b else bit (t1 OR TE_ACTIVE) b)"
    "\<forall>d p. d \<in> set encs \<longrightarrow> p \<in> {0, 8} \<longrightarrow> (d, p) \<noteq> (e, 0) \<longrightarrow> reg d p s3 = reg d p s2"
    using rmw_write [OF s2(2) assms(2,3), of "t1 OR TE_ACTIVE"] off by auto
  have off3: "\<not> bit (reg e 0 s3) 1"
    using s3(3) m(2) [of 1] s2(4) s1(3) by (simp add: bit_or_iff bit_active t0_def bit_sync_fields)
  obtain s4 where w4: "db_write bus e 0 (rmw_value rm e 0 (reg e 0 s3 OR TE_ENABLE OR TE_ITRACE)) s3 = (Inr (), s4)" "inv s4"
    "\<forall>b<32. bit (reg e 0 s4) b \<longleftrightarrow> (if ?W b then bit (reg e 0 s3) b else bit (reg e 0 s3 OR TE_ENABLE OR TE_ITRACE) b)"
    "\<forall>d p. d \<in> set encs \<longrightarrow> p \<in> {0, 8} \<longrightarrow> (d, p) \<noteq> (e, 0) \<longrightarrow> reg d p s4 = reg d p s3"
    using rmw_write [OF s3(2) assms(2,3), of "reg e 0 s3 OR TE_ENABLE OR TE_ITRACE"] off3 by auto
  have s4: "db_write bus e 0 (rmw_value rm e 0 (reg e 0 s3 OR TE_ENABLE OR TE_ITRACE)) s3 = (Inr (), s4)" "inv s4"
    "\<forall>b<32. bit (reg e 0 s4) b \<longleftrightarrow> bit (reg e 0 s3) b \<or> b = 1 \<or> b = 2"
    "\<forall>d p. d \<in> set encs \<longrightarrow> p \<in> {0, 8} \<longrightarrow> (d, p) \<noteq> (e, 0) \<longrightarrow> reg d p s4 = reg d p s3"
    using w4 m(2) unfolding set_enable_itrace by (simp_all, auto)
  have r: "read1 bus e 0 s1 = (Inr (reg e 0 s1), s1)" "read1 bus e 0 s3 = (Inr (reg e 0 s3), s3)"
    using enc_read [OF s1(2) assms(2), of 0] enc_read [OF s3(2) assms(2), of 0] by (auto intro: read1_ok)
  have run: "trace_on_enc bus rm sc ks (i, e, ?te) s = (Inr (), s4)"
    using s1(1) r s2(1) s3(1) s4(1) by (simp add: trace_on_enc_def andthen_def bnd_def t0_def)
  have "bit (reg e 0 s4) b \<longleftrightarrow> armed_bit sc ks ?te b" if b: "b < 32" for b
  proof -
    have "bit (reg e 0 s4) b \<longleftrightarrow> b = 1 \<or> b = 2 \<or> (if ?W b then bit ?te b \<and> b \<noteq> 1 \<and> b \<noteq> 2
        else b = 0 \<or> bit (sync_fields ks (reg e 0 s1)) b \<and> \<not> (b = 15 \<and> multi_source sc))"
      using s4(3) s3(3) s2(3,4) s1(3) b by (auto simp: bit_or_iff bit_active t0_def)
    also have "\<dots> \<longleftrightarrow> armed_bit sc ks ?te b"
      using m(2) [of b] s1(3) b by (auto simp: armed_bit_def bit_sync_fields)
    finally show ?thesis .
  qed
  moreover have "\<forall>d p. d \<in> set encs \<longrightarrow> p \<in> {0, 8} \<longrightarrow> d \<noteq> e \<longrightarrow> reg d p s4 = reg d p s"
    using s1(4) s2(6) s3(4) s4(4) by auto
  moreover have "source_mask_ok rm sc e \<longrightarrow> (\<forall>b<32. bit (reg e 8 s4) b \<longleftrightarrow> source_bit sc i (reg e 8 s) b)"
    using s1(4) s2(5) s3(4) s4(4) assms(2) by simp
  ultimately show ?thesis using run s4(2) by blast
qed

text \<open>All encoders, one after the other, from the words read at the start.\<close>

lemma trace_on_list:
  assumes "inv s" "set es \<subseteq> set encs" "distinct es" "\<forall>e\<in>set es. arm_masks_ok rm e"
    and "n + length es \<le> 4096"
  shows "\<exists>t. for_each (List.enumerate n (map (\<lambda>e. (e, reg e 0 s)) es)) (trace_on_enc bus rm sc ks) s = (Inr (), t) \<and> inv t
     \<and> (\<forall>e\<in>set es. \<forall>b<32. bit (reg e 0 t) b \<longleftrightarrow> armed_bit sc ks (reg e 0 s) b)
     \<and> (\<forall>k<length es. source_mask_ok rm sc (es ! k) \<longrightarrow>
          (\<forall>b<32. bit (reg (es ! k) 8 t) b \<longleftrightarrow> source_bit sc (n + k) (reg (es ! k) 8 s) b))
     \<and> (\<forall>d p. d \<in> set encs \<longrightarrow> p \<in> {0, 8} \<longrightarrow> d \<notin> set es \<longrightarrow> reg d p t = reg d p s)"
  using assms
proof (induction es arbitrary: s n)
  case (Cons e es)
  obtain s1 where s1: "trace_on_enc bus rm sc ks (n, e, reg e 0 s) s = (Inr (), s1)" "inv s1"
    "\<forall>b<32. bit (reg e 0 s1) b \<longleftrightarrow> armed_bit sc ks (reg e 0 s) b"
    "source_mask_ok rm sc e \<longrightarrow> (\<forall>b<32. bit (reg e 8 s1) b \<longleftrightarrow> source_bit sc n (reg e 8 s) b)"
    "\<forall>d p. d \<in> set encs \<longrightarrow> p \<in> {0, 8} \<longrightarrow> d \<noteq> e \<longrightarrow> reg d p s1 = reg d p s"
    using trace_on_enc_effect [OF Cons.prems(1), of e n sc ks] Cons.prems by auto
  have keep: "\<forall>d\<in>set es. reg d 0 s1 = reg d 0 s \<and> reg d 8 s1 = reg d 8 s" using s1(5) Cons.prems(2,3) by auto
  then have same: "map (\<lambda>e. (e, reg e 0 s)) es = map (\<lambda>e. (e, reg e 0 s1)) es" by simp
  obtain t where t: "for_each (List.enumerate (Suc n) (map (\<lambda>e. (e, reg e 0 s1)) es)) (trace_on_enc bus rm sc ks) s1 = (Inr (), t)"
    "inv t" "\<forall>e\<in>set es. \<forall>b<32. bit (reg e 0 t) b \<longleftrightarrow> armed_bit sc ks (reg e 0 s1) b"
    "\<forall>k<length es. source_mask_ok rm sc (es ! k) \<longrightarrow>
       (\<forall>b<32. bit (reg (es ! k) 8 t) b \<longleftrightarrow> source_bit sc (Suc n + k) (reg (es ! k) 8 s1) b)"
    "\<forall>d p. d \<in> set encs \<longrightarrow> p \<in> {0, 8} \<longrightarrow> d \<notin> set es \<longrightarrow> reg d p t = reg d p s1"
    using Cons.IH [OF s1(2), of "Suc n"] Cons.prems by auto
  have e: "reg e 0 t = reg e 0 s1" "reg e 8 t = reg e 8 s1" using t(5) Cons.prems(2,3) by auto
  have src: "\<forall>k<length (e # es). source_mask_ok rm sc ((e # es) ! k) \<longrightarrow>
      (\<forall>b<32. bit (reg ((e # es) ! k) 8 t) b \<longleftrightarrow> source_bit sc (n + k) (reg ((e # es) ! k) 8 s) b)"
  proof (intro allI impI)
    fix k b :: nat assume "k < length (e # es)" "source_mask_ok rm sc ((e # es) ! k)" "b < 32"
    then show "bit (reg ((e # es) ! k) 8 t) b \<longleftrightarrow> source_bit sc (n + k) (reg ((e # es) ! k) 8 s) b"
      using t(4) s1(4) e(2) keep by (cases k) auto
  qed
  have "\<forall>d p. d \<in> set encs \<longrightarrow> p \<in> {0, 8} \<longrightarrow> d \<notin> set (e # es) \<longrightarrow> reg d p t = reg d p s"
    using s1(5) t(5) by auto
  moreover have "\<forall>d\<in>set (e # es). \<forall>b<32. bit (reg d 0 t) b \<longleftrightarrow> armed_bit sc ks (reg d 0 s) b"
    using s1(3) t(3) e(1) keep by simp
  ultimately show ?case
    using s1(1) t(1,2) src by (intro exI [of _ t]) (simp add: andthen_def bnd_def same)
qed simp

lemma trace_off_list:
  assumes "inv s" "set es \<subseteq> set encs" "distinct es" "\<forall>e\<in>set es. arm_masks_ok rm e"
  shows "\<exists>t. for_each (map (\<lambda>e. (e, reg e 0 s)) es) (trace_off_enc bus rm) s = (Inr (), t) \<and> inv t
     \<and> (\<forall>e\<in>set es. \<forall>b<32. bit (reg e 0 t) b \<longleftrightarrow> bit (reg e 0 s) b \<and> b \<noteq> 2)
     \<and> (\<forall>d p. d \<in> set encs \<longrightarrow> p \<in> {0, 8} \<longrightarrow> d \<notin> set es \<longrightarrow> reg d p t = reg d p s)"
  using assms
proof (induction es arbitrary: s)
  case (Cons e es)
  have e: "e \<in> set encs" "arm_masks_ok rm e" using Cons.prems by auto
  note m = arm_masks_bits [OF e(2)]
  obtain s1 where w: "db_write bus e 0 (rmw_value rm e 0 (reg e 0 s AND NOT TE_ITRACE)) s = (Inr (), s1)" "inv s1"
    "\<forall>b<32. bit (reg e 0 s1) b \<longleftrightarrow>
       (if bit (w1c_mask rm e 0) b \<or> bit (reg e 0 s) 1 \<and> bit (gate_mask rm e 0) b then bit (reg e 0 s) b
        else bit (reg e 0 s AND NOT TE_ITRACE) b)"
    "\<forall>d p. d \<in> set encs \<longrightarrow> p \<in> {0, 8} \<longrightarrow> (d, p) \<noteq> (e, 0) \<longrightarrow> reg d p s1 = reg d p s"
    using rmw_write [OF Cons.prems(1) e, of "reg e 0 s AND NOT TE_ITRACE"] by blast
  have b: "\<forall>b<32. bit (reg e 0 s1) b \<longleftrightarrow> bit (reg e 0 s) b \<and> b \<noteq> 2"
    using w(3) m(1,2) unfolding bit_and_iff bit_not_iff bit_itrace by auto
  have keep: "\<forall>d\<in>set es. reg d 0 s1 = reg d 0 s" using w(4) Cons.prems(2,3) by auto
  then have same: "map (\<lambda>e. (e, reg e 0 s)) es = map (\<lambda>e. (e, reg e 0 s1)) es" by simp
  obtain t where t: "for_each (map (\<lambda>e. (e, reg e 0 s1)) es) (trace_off_enc bus rm) s1 = (Inr (), t)"
    "inv t" "\<forall>e\<in>set es. \<forall>b<32. bit (reg e 0 t) b \<longleftrightarrow> bit (reg e 0 s1) b \<and> b \<noteq> 2"
    "\<forall>d p. d \<in> set encs \<longrightarrow> p \<in> {0, 8} \<longrightarrow> d \<notin> set es \<longrightarrow> reg d p t = reg d p s1"
    using Cons.IH [OF w(2)] Cons.prems by auto
  have "reg e 0 t = reg e 0 s1" using t(4) Cons.prems(2,3) by auto
  with keep show ?case
    using w(1,4) b t Cons.prems(2,3)
    by (intro exI [of _ t]) (auto simp: andthen_def bnd_def same trace_off_enc_def)
qed simp

lemma read_encs_ok:
  assumes "inv s" "set (ctl_encs sc) \<subseteq> set encs"
  shows "read_encs bus sc s = (Inr (map (\<lambda>e. (e, reg e 0 s)) (ctl_encs sc)), s)"
proof -
  have "map_act (\<lambda>e. bnd (read1 bus e 0) (\<lambda>t. ret (e, t))) es s = (Inr (map (\<lambda>e. (e, reg e 0 s)) es), s)"
    if "set es \<subseteq> set encs" for es
    using that
  proof (induction es)
    case (Cons e es)
    then have "read1 bus e 0 s = (Inr (reg e 0 s), s)" using enc_read [OF assms(1), of e 0] by (auto intro: read1_ok)
    with Cons show ?case by (simp add: bnd_def)
  qed simp
  from this [OF assms(2)] show ?thesis by (simp add: read_encs_def)
qed

end

section \<open>The actions on CONTROL\<close>

lemma is_u32_bits: "is_u32 x \<longleftrightarrow> (\<forall>i. bit x i \<longrightarrow> i < 32)"
proof -
  have "is_u32 x \<longleftrightarrow> take_bit 32 x = x" by (simp add: is_u32_def take_bit_int_eq_self_iff)
  also have "\<dots> \<longleftrightarrow> (\<forall>i. bit x i \<longrightarrow> i < 32)" by (auto simp: bit_eq_iff bit_take_bit_iff)
  finally show ?thesis .
qed

lemma u32_and_not: "is_u32 x \<Longrightarrow> is_u32 (x AND NOT y)"
  unfolding is_u32_bits by (simp add: bit_and_iff)

lemma u32_or: "is_u32 x \<Longrightarrow> is_u32 y \<Longrightarrow> is_u32 (x OR y)"
  unfolding is_u32_bits by (auto simp: bit_or_iff)

lemma fold_or_if_core:
  "bit (fold (\<lambda>c m. if P c then m OR g c else m) cs (m0 :: int)) i \<longleftrightarrow> bit m0 i \<or> (\<exists>c\<in>set cs. P c \<and> bit (g c) i)"
  by (induction cs arbitrary: m0) (auto simp: bit_or_iff)

lemma bit_collective_bits:
  "bit (collective_bits sc) i \<longleftrightarrow> bit (cbit sc ''core_run'') i \<or>
     (\<exists>c\<in>set (sc_cores sc). ''core_run'' \<in> set (core_run_bits sc c) \<and> bit (core_run_mask sc c) i)"
  by (simp add: collective_bits_def fold_or_if_core)

lemma stopped_core:
  "c \<in> set (sc_cores sc) \<Longrightarrow> ''core_run'' \<in> set (core_run_bits sc c) \<Longrightarrow>
     \<not> core_running sc (x AND NOT (collective_bits sc)) c"
  by (auto simp: core_running_iff bit_and_iff bit_not_iff bit_collective_bits)

lemma bit_run_mask: "bit (core_run_mask sc c) i \<longleftrightarrow> (\<exists>b\<in>set (core_run_bits sc c). bit (cbit sc b) i)"
proof -
  have "bit (fold (\<lambda>b m. m OR cbit sc b) bs (m0 :: int)) i \<longleftrightarrow> bit m0 i \<or> (\<exists>b\<in>set bs. bit (cbit sc b) i)" for bs m0
    by (induction bs arbitrary: m0) (auto simp: bit_or_iff)
  then show ?thesis by (simp add: core_run_mask_def)
qed

lemma started_core:
  assumes "''core_run'' \<in> set (core_run_bits sc c)"
  shows "core_running sc (x OR cbit sc ''core_run'') c"
proof -
  obtain k where "dict_get (sc_control_bits sc) ''core_run'' = Some k"
    using assms by (auto simp: core_run_bits_def)
  then have "bit (cbit sc ''core_run'') k" by (simp add: cbit_def bit_exp_iff)
  with assms show ?thesis unfolding core_running_iff bit_run_mask by (auto simp: bit_or_iff)
qed

definition control_bits_ok :: "scenario \<Rightarrow> bool" where
  "control_bits_ok sc \<longleftrightarrow> (\<forall>(n, b)\<in>set (sc_control_bits sc). b < 32)"

lemma cbit_u32: "control_bits_ok sc \<Longrightarrow> is_u32 (cbit sc n)"
  using map_of_SomeD [of "sc_control_bits sc" n]
  by (force simp: control_bits_ok_def cbit_def dict_get_def is_u32_bits bit_exp_iff split: option.splits)

text \<open>No register of CTRL overlaps STATUS.\<close>

definition status_apart :: "scenario \<Rightarrow> bool" where
  "status_apart sc \<longleftrightarrow> (case co sc ''status'' of None \<Rightarrow> True
     | Some so \<Rightarrow> \<forall>(n, off)\<in>set (sc_ctrl sc). n = ''status'' \<or> off + 4 \<le> so \<or> so + 4 \<le> off)"

locale ctl_port = run_port bus sc C ctl inv + enc_port bus rm "ctl_encs sc" reg inv
  for bus :: "'b dash_bus" and sc C ctl inv rm reg +
  assumes ctl_u32: "inv s \<Longrightarrow> is_u32 (ctl s)"
    and enc_keeps_ctl: "inv s \<Longrightarrow> e \<in> set (ctl_encs sc) \<Longrightarrow> off \<in> {0, 8} \<Longrightarrow> db_write bus e off v s = (r, t) \<Longrightarrow> ctl t = ctl s"
    and ctl_keeps_enc: "inv s \<Longrightarrow> e \<in> set (ctl_encs sc) \<Longrightarrow> is_u32 v \<Longrightarrow> db_write bus ''ctrl'' C v s = (r, t) \<Longrightarrow> reg e 0 t = reg e 0 s"
    and sink_read: "inv s \<Longrightarrow> co sc ''sink_ctrl'' = Some so \<Longrightarrow> \<exists>w. db_read bus ''ctrl'' so 1 s = (Inr [w], s)"
begin

lemma write_ctl_ok:
  assumes "inv s" "is_u32 v"
  shows "\<exists>t. write_ctl bus C v s = (Inr (), t) \<and> inv t \<and> ctl t = v \<and> (\<forall>e\<in>set (ctl_encs sc). reg e 0 t = reg e 0 s)"
  using write_law [OF assms] ctl_keeps_enc [OF assms(1) _ assms(2)] unfolding write_ctl_def by metis

lemma pulse_ok:
  assumes "inv s" "is_u32 c" "is_u32 b"
  shows "\<exists>t. pulse bus C c b s = (Inr (), t) \<and> inv t \<and> ctl t = c AND NOT b \<and> (\<forall>e\<in>set (ctl_encs sc). reg e 0 t = reg e 0 s)"
proof -
  obtain s1 where s1: "write_ctl bus C (c OR b) s = (Inr (), s1)" "inv s1" "\<forall>e\<in>set (ctl_encs sc). reg e 0 s1 = reg e 0 s"
    using write_ctl_ok [OF assms(1) u32_or [OF assms(2,3)]] by blast
  obtain t where "write_ctl bus C (c AND NOT b) s1 = (Inr (), t)" "inv t" "ctl t = c AND NOT b"
      "\<forall>e\<in>set (ctl_encs sc). reg e 0 t = reg e 0 s1"
    using write_ctl_ok [OF s1(2) u32_and_not [OF assms(2)]] by blast
  with s1 show ?thesis by (auto simp: pulse_def andthen_def bnd_def)
qed

lemma act_stop_ok:
  assumes "inv s"
  shows "\<exists>t. act_stop bus sc C (ctl s) s = (Inr (), t) \<and> inv t \<and> ctl t = ctl s AND NOT (collective_bits sc)
     \<and> (\<forall>e\<in>set (ctl_encs sc). reg e 0 t = reg e 0 s)"
  unfolding act_stop_def using write_ctl_ok [OF assms u32_and_not [OF ctl_u32 [OF assms]]] by blast

lemma read_ctl: "inv s \<Longrightarrow> read1 bus ''ctrl'' C s = (Inr (ctl s), s)"
  using read_law by (rule read1_ok)

lemma lock_all:
  "inv s \<Longrightarrow> protocol_lock_reason bus sc None s =
     (Inr (if length (protocols sc) < 2 then None else Some (R_Collective_Start (protocols sc))), s)"
  using read_ctl by (auto simp: protocol_lock_reason_def Let_def control bnd_def)

lemma act_run_locked:
  "inv s \<Longrightarrow> 2 \<le> length (protocols sc) \<Longrightarrow>
     act_run bus sc C (ctl s) s = (Inl (refusal_exn (R_Collective_Start (protocols sc))), s)"
  by (simp add: act_run_def unless_locked_def Let_def lock_all bnd_def)

lemma act_run_ok:
  assumes "inv s" "length (protocols sc) < 2" "is_u32 (cbit sc ''core_run'')"
  shows "\<exists>t. act_run bus sc C (ctl s) s = (Inr (), t) \<and> inv t
     \<and> ctl t = (ctl s AND NOT (collective_bits sc)) OR cbit sc ''core_run''
     \<and> (\<forall>e\<in>set (ctl_encs sc). reg e 0 t = reg e 0 s)"
proof -
  let ?z = "ctl s AND NOT (collective_bits sc)"
  have z: "is_u32 ?z" "is_u32 (?z OR cbit sc ''core_run'')"
    using ctl_u32 [OF assms(1)] assms(3) by (auto intro: u32_or u32_and_not)
  obtain s1 where s1: "act_when (ctl s AND collective_bits sc \<noteq> 0) (write_ctl bus C ?z) s = (Inr (), s1)" "inv s1"
      "\<forall>e\<in>set (ctl_encs sc). reg e 0 s1 = reg e 0 s"
    using write_ctl_ok [OF assms(1) z(1)] assms(1) by (cases "ctl s AND collective_bits sc = 0") auto
  obtain t where "write_ctl bus C (?z OR cbit sc ''core_run'') s1 = (Inr (), t)" "inv t" "ctl t = ?z OR cbit sc ''core_run''"
      "\<forall>e\<in>set (ctl_encs sc). reg e 0 t = reg e 0 s1"
    using write_ctl_ok [OF s1(2) z(2)] by blast
  with s1 show ?thesis
    by (auto simp: act_run_def unless_locked_def Let_def lock_all [OF assms(1)] assms(2) bnd_def andthen_def)
qed

lemma lock_one:
  assumes "inv s" "k < length (sc_cores sc)"
  shows "\<exists>why. protocol_lock_reason bus sc (Some k) s = (Inr why, s)"
  using assms(2) control [OF assms(1)] read_ctl [OF assms(1)]
  by (cases "core_protocol (sc_cores sc ! k)") (auto simp: protocol_lock_reason_def Let_def bnd_def)

lemma act_core_ok:
  assumes "inv s" "separable sc"
  shows "(\<exists>e. act_core bus sc (ctl s) i want s = (Inl e, s)) \<or>
     (\<exists>t. act_core bus sc (ctl s) i want s = (Inr None, t) \<and> inv t \<and> 0 \<le> i \<and> nat i < length (sc_cores sc)
        \<and> (\<forall>j<length (sc_cores sc). core_running sc (ctl t) (sc_cores sc ! j)
              \<longleftrightarrow> (if j = nat i then want else core_running sc (ctl s) (sc_cores sc ! j))))"
proof (cases "0 \<le> i \<and> i < int (length (sc_cores sc)) \<and> core_own_bit sc (sc_cores sc ! nat i) \<noteq> 0")
  case False
  then show ?thesis by (auto simp: act_core_def Let_def)
next
  case True
  then have k: "nat i < length (sc_cores sc)" by auto
  let ?c = "sc_cores sc ! nat i"
  define body where "body = andthen (if want \<and> core_running sc (ctl s) ?c then bnd (set_core_run bus sc (nat i) False) (\<lambda>_. ret ()) else ret ())
            (bnd (set_core_run bus sc (nat i) want) (\<lambda>(b, a, note). ret note))"
  have act: "act_core bus sc (ctl s) i want = (if want then unless_locked bus sc (Some (nat i)) else (\<lambda>k. k)) body"
    using True by (auto simp: act_core_def body_def Let_def)
  obtain s1 where s1: "(if want \<and> core_running sc (ctl s) ?c then bnd (set_core_run bus sc (nat i) False) (\<lambda>_. ret ()) else ret ()) s = (Inr (), s1)"
      "inv s1" "\<forall>j<length (sc_cores sc). j \<noteq> nat i \<longrightarrow> core_running sc (ctl s1) (sc_cores sc ! j) \<longleftrightarrow> core_running sc (ctl s) (sc_cores sc ! j)"
  proof (cases "want \<and> core_running sc (ctl s) ?c")
    case True
    with set_core_run_effect [OF assms k, of False] that show thesis by (auto simp: bnd_def)
  qed (use that assms(1) in auto)
  obtain t where t: "set_core_run bus sc (nat i) want s1 = (Inr (ctl s1, ctl t, None), t)" "inv t"
      "\<forall>j<length (sc_cores sc). core_running sc (ctl t) (sc_cores sc ! j)
           \<longleftrightarrow> (if j = nat i then want else core_running sc (ctl s1) (sc_cores sc ! j))"
    using set_core_run_effect [OF s1(2) assms(2) k, of want] by metis
  have body: "body s = (Inr None, t)" using s1(1) t(1) by (simp add: body_def andthen_def bnd_def)
  have fin: "\<forall>j<length (sc_cores sc). core_running sc (ctl t) (sc_cores sc ! j)
              \<longleftrightarrow> (if j = nat i then want else core_running sc (ctl s) (sc_cores sc ! j))"
    using t(3) s1(3) by auto
  show ?thesis
  proof (cases want)
    case False
    then show ?thesis using act body fin t(2) k True by auto
  next
    case w: True
    obtain why where "protocol_lock_reason bus sc (Some (nat i)) s = (Inr why, s)" using lock_one [OF assms(1) k] by blast
    then show ?thesis using act body fin t(2) k True w
      by (cases why) (auto simp: unless_locked_def bnd_def)
  qed
qed

text \<open>The report reads everything back and writes nothing.\<close>

lemma ctl_report_ok:
  assumes "inv t"
  shows "\<exists>mir. ctl_report bus sc a C c0 note t = (Inr \<lparr> cl_control = ctl t,
     cl_te = map (\<lambda>e. (e, reg e 0 t)) (ctl_encs sc),
     cl_hint = run_hints a (c0 AND collective_bits sc \<noteq> 0) (map (\<lambda>e. (e, reg e 0 t)) (ctl_encs sc)) (cn_hint note),
     cl_sinks = cn_sinks note, cl_afifm = cn_afifm note, cl_preload = cn_preload note,
     cl_running = map (core_running sc (ctl t)) (sc_cores sc), cl_status = mir \<rparr>, t)"
proof -
  obtain mir where "read_mirror bus sc t = (Inr mir, t)"
  proof (cases "co sc ''status''")
    case (Some so)
    then obtain st where "db_read bus ''ctrl'' so 1 t = (Inr [st], t)" using mirror_law [OF assms Some] by blast
    then have "read1 bus ''ctrl'' so t = (Inr st, t)" by (rule read1_ok)
    with Some that show thesis
      by (cases "list_ex (\<lambda>c. dict_get (sc_status_bits sc) (running_bit_name c) \<noteq> None) (sc_cores sc)")
         (simp_all add: read_mirror_def bnd_def)
  qed (use that in \<open>simp add: read_mirror_def\<close>)
  then show ?thesis
    using read_ctl [OF assms] read_encs_ok [OF assms order_refl] by (simp add: ctl_report_def bnd_def)
qed

text \<open>The whole request: the words read at the start, the action, the report.\<close>

definition ctl_words :: "'b \<Rightarrow> (string, int) dict" where
  "ctl_words s = map (\<lambda>e. (e, reg e 0 s)) (ctl_encs sc)"

lemma ctl_action:
  assumes "inv s" "ce_bus env = bus"
  shows "\<exists>sink. ctl_request env rm sc ks here req (r, s) =
     bnd (act_dispatch env rm sc ks here req C (ctl s) (ctl_words s) sink)
       (\<lambda>note. on_snd (ctl_report bus sc (rq_action req) C (ctl s) note)) (r, s)"
proof -
  obtain sink where "read_sink bus sc s = (Inr sink, s)"
  proof (cases "co sc ''sink_ctrl''")
    case (Some so)
    then obtain w where "db_read bus ''ctrl'' so 1 s = (Inr [w], s)" using sink_read [OF assms(1) Some] by blast
    then have "read1 bus ''ctrl'' so s = (Inr w, s)" by (rule read1_ok)
    with Some that show thesis by (simp add: read_sink_def)
  qed (use that in \<open>simp add: read_sink_def\<close>)
  then show ?thesis
    using read_ctl [OF assms(1)] read_encs_ok [OF assms(1) order_refl] control [OF assms(1)] assms(2)
    by (intro exI [of _ sink]) (simp add: ctl_request_def bnd_def on_snd_def ctl_words_def)
qed

lemma ctl_reported:
  assumes "inv s" "ce_bus env = bus"
    and "\<And>sink. act_dispatch env rm sc ks here req C (ctl s) (ctl_words s) sink (r, s) = (Inr note, (r', t))" and "inv t"
  shows "\<exists>mir. ctl_request env rm sc ks here req (r, s) = (Inr \<lparr> cl_control = ctl t, cl_te = ctl_words t,
     cl_hint = run_hints (rq_action req) (ctl s AND collective_bits sc \<noteq> 0) (ctl_words t) (cn_hint note),
     cl_sinks = cn_sinks note, cl_afifm = cn_afifm note, cl_preload = cn_preload note,
     cl_running = map (core_running sc (ctl t)) (sc_cores sc), cl_status = mir \<rparr>, (r', t))"
  using ctl_action [OF assms(1,2), of ks "here" req r] ctl_report_ok [OF assms(4), of "rq_action req" "ctl s" "note"]
    assms(3) by (auto simp: bnd_def on_snd_def ctl_words_def)

lemma ctl_encs_few: "distinct (ctl_encs sc)" "0 + length (ctl_encs sc) \<le> 4096"
proof -
  show "distinct (ctl_encs sc)" by (simp add: ctl_encs_def ENC_REGIONS_def)
  have "length (ctl_encs sc) \<le> length ENC_REGIONS" by (simp only: ctl_encs_def length_filter_le)
  also have "length ENC_REGIONS = 3" by (simp add: ENC_REGIONS_def)
  finally show "0 + length (ctl_encs sc) \<le> 4096" by linarith
qed

lemma ctl_trace_on_effect:
  assumes "inv s" "ce_bus env = bus" "\<forall>e\<in>set (ctl_encs sc). arm_masks_ok rm e"
    "\<forall>e\<in>set (ctl_encs sc). source_mask_ok rm sc e" "rq_action req = ''trace_on''"
  shows "\<exists>res t. ctl_request env rm sc ks here req (r, s) = (Inr res, (r, t)) \<and> inv t \<and> cl_te res = ctl_words t \<and>
     (\<forall>e\<in>set (ctl_encs sc). \<forall>b<32. bit (reg e 0 t) b \<longleftrightarrow> armed_bit sc ks (reg e 0 s) b) \<and>
     (\<forall>i<length (ctl_encs sc). \<forall>b<32. bit (reg (ctl_encs sc ! i) 8 t) b \<longleftrightarrow> source_bit sc i (reg (ctl_encs sc ! i) 8 s) b)"
proof -
  obtain t where
    t: "act_trace_on bus rm sc ks (ctl_words s) s = (Inr (), t)" "inv t"
      "\<forall>e\<in>set (ctl_encs sc). \<forall>b<32. bit (reg e 0 t) b \<longleftrightarrow> armed_bit sc ks (reg e 0 s) b"
      "\<forall>i<length (ctl_encs sc). \<forall>b<32. bit (reg (ctl_encs sc ! i) 8 t) b \<longleftrightarrow> source_bit sc i (reg (ctl_encs sc ! i) 8 s) b"
    using trace_on_list [OF assms(1) order_refl ctl_encs_few(1) assms(3) ctl_encs_few(2), of sc ks] assms(4)
    by (auto simp: act_trace_on_def ctl_words_def)
  have "act_dispatch env rm sc ks here req C (ctl s) (ctl_words s) sink (r, s) = (Inr no_note, (r, t))" for sink
    using t(1) assms(2,5) by (simp add: act_dispatch_def bnd_def on_snd_def)
  from ctl_reported [OF assms(1,2) this t(2)] t(2-4) show ?thesis by (metis ctl_res.select_convs(2))
qed

lemma ctl_stop_effect:
  assumes "inv s" "ce_bus env = bus" "rq_action req = ''stop''"
  shows "\<exists>res t. ctl_request env rm sc ks here req (r, s) = (Inr res, (r, t)) \<and> inv t \<and>
     act_stop bus sc C (ctl s) s = (Inr (), t) \<and>
     ctl t = ctl s AND NOT (collective_bits sc) \<and> cl_running res = map (core_running sc (ctl t)) (sc_cores sc)"
proof -
  obtain t where t: "act_stop bus sc C (ctl s) s = (Inr (), t)" "inv t" "ctl t = ctl s AND NOT (collective_bits sc)"
    using act_stop_ok [OF assms(1)] by blast
  have "act_dispatch env rm sc ks here req C (ctl s) (ctl_words s) sink (r, s) = (Inr no_note, (r, t))" for sink
    using t(1) assms(2,3) by (simp add: act_dispatch_def bnd_def on_snd_def)
  from ctl_reported [OF assms(1,2) this t(2)] t show ?thesis by (metis ctl_res.select_convs(7))
qed

text \<open>The hint of a start: a restart is named, and exactly the encoders that do not trace.\<close>

definition start_hint :: "'b \<Rightarrow> hint_part list" where
  "start_hint s = (if ctl s AND collective_bits sc \<noteq> 0 then [Restarted] else []) @
     (let cold = filter (\<lambda>e. \<not> te_effective (reg e 0 s)) (ctl_encs sc) in if cold = [] then [] else [Tracing_Off cold])"

lemma ctl_run_effect:
  assumes "inv s" "ce_bus env = bus" "rq_action req = ''run''" "length (protocols sc) < 2" "control_bits_ok sc"
  shows "\<exists>res t. ctl_request env rm sc ks here req (r, s) = (Inr res, (r, t)) \<and> inv t \<and>
     act_run bus sc C (ctl s) s = (Inr (), t) \<and>
     ctl t = (ctl s AND NOT (collective_bits sc)) OR cbit sc ''core_run'' \<and>
     cl_running res = map (core_running sc (ctl t)) (sc_cores sc) \<and> cl_hint res = start_hint s"
proof -
  obtain t where t: "act_run bus sc C (ctl s) s = (Inr (), t)" "inv t"
      "ctl t = (ctl s AND NOT (collective_bits sc)) OR cbit sc ''core_run''" "\<forall>e\<in>set (ctl_encs sc). reg e 0 t = reg e 0 s"
    using act_run_ok [OF assms(1,4) cbit_u32 [OF assms(5)]] by blast
  have d: "act_dispatch env rm sc ks here req C (ctl s) (ctl_words s) sink (r, s) = (Inr no_note, (r, t))" for sink
    using t(1) assms(2,3) by (simp add: act_dispatch_def bnd_def on_snd_def)
  have w: "ctl_words t = ctl_words s" using t(4) by (simp add: ctl_words_def)
  have f: "map fst (filter (\<lambda>(e, w). \<not> te_effective w) (ctl_words s)) = filter (\<lambda>e. \<not> te_effective (reg e 0 s)) (ctl_encs sc)"
    by (simp add: ctl_words_def filter_map comp_def split_beta)
  obtain mir where "ctl_request env rm sc ks here req (r, s) = (Inr \<lparr> cl_control = ctl t, cl_te = ctl_words t,
     cl_hint = run_hints ''run'' (ctl s AND collective_bits sc \<noteq> 0) (ctl_words t) [],
     cl_sinks = None, cl_afifm = None, cl_preload = None,
     cl_running = map (core_running sc (ctl t)) (sc_cores sc), cl_status = mir \<rparr>, (r, t))"
    using ctl_reported [OF assms(1,2) d t(2)] assms(3) by (auto simp: no_note_def)
  then show ?thesis
    unfolding w using t(1-3) by (auto simp: run_hints_def start_hint_def Let_def f)
qed

text \<open>Under watch the port keeps its laws, so what an action writes, and how often, can be stated.\<close>

lemma logged: "ctl_port (log_bus bus) sc C (\<lambda>s. ctl (snd s)) (\<lambda>s. inv (snd s)) rm (\<lambda>e off s. reg e off (snd s))"
proof unfold_locales
  fix s :: "bus_write list \<times> 'b" assume i: "inv (snd s)"
  obtain l x where s: "s = (l, x)" by fastforce
  with i have x: "inv x" by simp
  show "co sc ''control'' = Some C" by (rule control [OF x])
  show "db_read (log_bus bus) ''ctrl'' C 1 s = (Inr [ctl (snd s)], s)" using read_law [OF x] by (simp add: s)
  show "\<exists>t. db_write (log_bus bus) ''ctrl'' C v s = (Inr (), t) \<and> inv (snd t) \<and> ctl (snd t) = v" if "is_u32 v" for v
    using write_law [OF x that] by (auto simp: s)
  show "\<exists>st. db_read (log_bus bus) ''ctrl'' so 1 s = (Inr [st], s) \<and>
      (\<forall>c\<in>set (sc_cores sc). \<forall>b. dict_get (sc_status_bits sc) (running_bit_name c) = Some b \<longrightarrow>
         (bit st b \<longleftrightarrow> core_running sc (ctl (snd s)) c))" if "co sc ''status'' = Some so" for so
    using mirror_law [OF x that] by (auto simp: s)
  show "is_u32 (ctl (snd s))" using ctl_u32 [OF x] by (simp add: s)
  show "\<exists>w. db_read (log_bus bus) ''ctrl'' so 1 s = (Inr [w], s)" if "co sc ''sink_ctrl'' = Some so" for so
    using sink_read [OF x that] by (auto simp: s)
  fix e off assume e: "e \<in> set (ctl_encs sc)"
  show "reg e 0 (snd t) = reg e 0 (snd s)" if "is_u32 v" "db_write (log_bus bus) ''ctrl'' C v s = (r, t)" for v r t
    using ctl_keeps_enc [OF x e that(1), of "fst (db_write bus ''ctrl'' C v x)" "snd (db_write bus ''ctrl'' C v x)"] that(2)
    by (auto simp: s)
  assume off: "off \<in> {0, 8 :: int}"
  show "db_read (log_bus bus) e off 1 s = (Inr [reg e off (snd s)], s)" using enc_read [OF x e off] by (simp add: s)
  show "\<exists>t. db_write (log_bus bus) e off v s = (Inr (), t) \<and> inv (snd t)
     \<and> (\<forall>i<32. bit (reg e off (snd t)) i \<longleftrightarrow> stored_bit rm e off (reg e 0 (snd s)) (reg e off (snd s)) v i)
     \<and> (\<forall>d p. d \<in> set (ctl_encs sc) \<longrightarrow> p \<in> {0, 8} \<longrightarrow> (d, p) \<noteq> (e, off) \<longrightarrow> reg d p (snd t) = reg d p (snd s))" for v
    using enc_write [OF x e off, of v] by (auto simp: s)
  show "ctl (snd t) = ctl (snd s)" if "db_write (log_bus bus) e off v s = (r, t)" for v r t
    using enc_keeps_ctl [OF x e off, of v "fst (db_write bus e off v x)" "snd (db_write bus e off v x)"] that
    by (auto simp: s)
qed

text \<open>An action either fails without an effect or succeeds and keeps the invariant.\<close>

definition clean :: "('b \<Rightarrow> (exn + 'a) \<times> 'b) \<Rightarrow> 'b \<Rightarrow> bool" where
  "clean m s \<longleftrightarrow> (\<exists>e. m s = (Inl e, s)) \<or> (\<exists>x t. m s = (Inr x, t) \<and> inv t)"

lemma clean_actions:
  assumes "inv s" "control_bits_ok sc" "separable sc" "\<forall>e\<in>set (ctl_encs sc). arm_masks_ok rm e"
  shows "clean (act_run bus sc C (ctl s)) s" "clean (act_stop bus sc C (ctl s)) s"
    "clean (act_core bus sc (ctl s) i want) s"
    "clean (act_trace_on bus rm sc ks (ctl_words s)) s" "clean (act_trace_off bus rm sc C (ctl s) (ctl_words s)) s"
    "clean (pulse bus C (ctl s) (cbit sc n)) s"
    "is_u32 v \<Longrightarrow> clean (write_ctl bus C v) s"
proof -
  note u = ctl_u32 [OF assms(1)] cbit_u32 [OF assms(2)]
  have dist: "distinct (ctl_encs sc)" by (simp add: ctl_encs_def ENC_REGIONS_def)
  show "clean (act_run bus sc C (ctl s)) s"
    using act_run_locked [OF assms(1)] act_run_ok [OF assms(1) _ u(2)]
    by (cases "length (protocols sc) < 2") (auto simp: clean_def not_less)
  show "clean (act_stop bus sc C (ctl s)) s" using act_stop_ok [OF assms(1)] by (auto simp: clean_def)
  show "clean (act_core bus sc (ctl s) i want) s" using act_core_ok [OF assms(1,3), of i want] by (auto simp: clean_def)
  show "clean (act_trace_on bus rm sc ks (ctl_words s)) s"
    using trace_on_list [OF assms(1) order_refl ctl_encs_few(1) assms(4) ctl_encs_few(2), of sc ks] by (auto simp: clean_def act_trace_on_def ctl_words_def)
  show p: "clean (pulse bus C (ctl s) (cbit sc n)) s" for n
    using pulse_ok [OF assms(1) u(1) u(2)] by (auto simp: clean_def)
  show "clean (write_ctl bus C v) s" if "is_u32 v" using write_ctl_ok [OF assms(1) that] by (auto simp: clean_def)
  obtain s1 where s1: "for_each (ctl_words s) (trace_off_enc bus rm) s = (Inr (), s1)" "inv s1"
    using trace_off_list [OF assms(1) order_refl dist assms(4)] by (auto simp: ctl_words_def)
  obtain t where "pulse bus C (ctl s) (cbit sc ''trace_flush'') s1 = (Inr (), t)" "inv t"
    using pulse_ok [OF s1(2) u(1) u(2)] by blast
  with s1 show "clean (act_trace_off bus rm sc C (ctl s) (ctl_words s)) s"
    by (auto simp: clean_def act_trace_off_def act_when_def andthen_def bnd_def)
qed

definition clean2 :: "(con_reader \<times> 'b \<Rightarrow> (exn + 'a) \<times> con_reader \<times> 'b) \<Rightarrow> con_reader \<Rightarrow> 'b \<Rightarrow> bool" where
  "clean2 m r s \<longleftrightarrow> (\<exists>e. m (r, s) = (Inl e, (r, s))) \<or> (\<exists>x r' t. m (r, s) = (Inr x, (r', t)) \<and> inv t)"

lemma clean2_ret: "clean m s \<Longrightarrow> clean2 (bnd (on_snd m) (\<lambda>x. ret (f x))) r s"
  by (auto simp: clean_def clean2_def bnd_def on_snd_def)

lemma clean2_if: "(b \<Longrightarrow> clean2 m r s) \<Longrightarrow> (\<not> b \<Longrightarrow> clean2 n r s) \<Longrightarrow> clean2 (if b then m else n) r s"
  by simp

lemma u32_if: "is_u32 x \<Longrightarrow> is_u32 y \<Longrightarrow> is_u32 (if b then x else y)"
  by simp

lemma clean2_raise: "clean2 (raise e) r s"
  by (simp add: clean2_def)

lemma clean2_need: "clean2 m r s \<Longrightarrow> clean2 (need_bit b msg sc m) r s"
  by (auto simp: need_bit_def clean2_raise)

lemma clean2_forget:
  "clean m s \<Longrightarrow> clean2 (andthen (on_snd m) (andthen (upd_reader g) (ret x))) r s"
  by (auto simp: clean_def clean2_def andthen_def bnd_def on_snd_def upd_reader_def)

lemma clean2_plain: "clean m s \<Longrightarrow> clean2 (on_snd m) r s"
  by (auto simp: clean_def clean2_def on_snd_def)

end

text \<open>The port of a simulated device: its sink register can be written too, and no memory is loaded.\<close>

locale sim_port = ctl_port bus sc C ctl inv rm reg for bus :: "'b dash_bus" and sc C ctl inv rm reg +
  assumes simulated: "db_demo bus"
    and sink_write: "inv s \<Longrightarrow> status_apart sc \<Longrightarrow> co sc ''sink_ctrl'' = Some so \<Longrightarrow>
      \<exists>t. db_write bus ''ctrl'' so v s = (Inr (), t) \<and> inv t"
begin

lemma clean_iff: "clean m s \<longleftrightarrow> (case m s of (Inl e, t) \<Rightarrow> t = s | (Inr x, t) \<Rightarrow> inv t)"
  by (auto simp: clean_def split: prod.splits sum.splits)

lemma clean_sink:
  assumes "inv s" "status_apart sc" "ce_bus env = bus"
  shows "clean (act_sink env sc sink a) s"
proof (cases "co sc ''sink_ctrl''")
  case None
  then show ?thesis by (simp add: act_sink_def clean_def)
next
  case (Some so)
  have w: "\<exists>t. db_write bus ''ctrl'' so v s = (Inr (), t) \<and> inv t" for v by (rule sink_write [OF assms(1,2) Some])
  have k: "clean (andthen (db_write bus ''ctrl'' so v) (ret x)) s" for v and x :: ctl_note
    using w [of v] by (auto simp: clean_def andthen_def bnd_def)
  have on: "clean (bnd (ret None) f) s" if "clean (f None) s" for f :: "cmd_step list option \<Rightarrow> ('b, ctl_note) act"
    using that by (simp add: clean_def bnd_def)
  have i: "clean (if b then m else n) s" if "clean m s" "clean n s" for b and m n :: "('b, ctl_note) act"
    using that by simp
  have e: "clean (raise x :: ('b, ctl_note) act) s" for x by (simp add: clean_def)
  show ?thesis
    unfolding act_sink_def Some option.case Let_def assms(3) if_P [OF simulated] by (intro i on k e)
qed

lemma clean_arm_sinks:
  assumes "inv s" "status_apart sc" "ce_bus env = bus"
  shows "clean (act_arm_sinks env sc) s"
proof -
  have arm: "clean (arm_default_sinks bus sc dt) s" for dt
  proof (cases "co sc ''sink_ctrl''")
    case None
    then show ?thesis using assms(1) by (auto simp: arm_default_sinks_def Let_def clean_def)
  next
    case (Some so)
    obtain cur where r: "read1 bus ''ctrl'' so s = (Inr cur, s)"
      using sink_read [OF assms(1) Some] read1_ok by metis
    have w: "clean (arm_write bus so cur new win) s" for new win
    proof -
      obtain t where t: "db_write bus ''ctrl'' so new s = (Inr (), t)" "inv t"
        using sink_write [OF assms(1,2) Some] by blast
      obtain rb where "read1 bus ''ctrl'' so t = (Inr rb, t)"
        using sink_read [OF t(2) Some] read1_ok by metis
      with t show ?thesis by (simp add: arm_write_def clean_def andthen_def bnd_def)
    qed
    show ?thesis
      using assms(1) w unfolding clean_iff
      by (simp add: arm_default_sinks_def Let_def Some r bnd_def handle_def window_check_def simulated)
  qed
  show ?thesis
    using arm [of "ce_tree env"] by (auto simp: act_arm_sinks_def assms(3) simulated clean_def bnd_def)
qed

lemma clean_preload: "inv s \<Longrightarrow> ce_bus env = bus \<Longrightarrow> clean (act_preload env sc ks here c) s"
  by (simp add: act_preload_def run_preload_def simulated clean_def bnd_def)

lemma dispatch_clean:
  assumes "inv s" "control_bits_ok sc" "separable sc" "\<forall>e\<in>set (ctl_encs sc). arm_masks_ok rm e"
    and "ce_bus env = bus" "status_apart sc"
  shows "clean2 (act_dispatch env rm sc ks here req C (ctl s) (ctl_words s) sink) r s"
proof -
  note c = clean_actions [OF assms(1-4)]
  note k = clean_sink [OF assms(1,6,5)] clean_arm_sinks [OF assms(1,6,5)] clean_preload [OF assms(1,5)]
  have u: "is_u32 (ctl s OR cbit sc n)" "is_u32 (ctl s AND NOT x)" for n x
    using ctl_u32 [OF assms(1)] cbit_u32 [OF assms(2)] by (auto intro: u32_or u32_and_not)
  have cva: "is_u32 (ctl s OR cva6_bit sc)" by (simp add: cva6_bit_def u)
  show ?thesis
    unfolding act_dispatch_def Let_def assms(5)
    by (rule clean2_if clean2_ret clean2_plain clean2_raise clean2_need clean2_forget c k u cva u32_if)+
qed

text \<open>A request that fails has left the device and the recording as they were.\<close>

lemma ctl_error_unchanged:
  assumes "inv s" "control_bits_ok sc" "separable sc" "\<forall>e\<in>set (ctl_encs sc). arm_masks_ok rm e"
    and "ce_bus env = bus" "status_apart sc"
  shows "(\<exists>e. ctl_request env rm sc ks here req (r, s) = (Inl e, (r, s))) \<or>
     (\<exists>res r' t. ctl_request env rm sc ks here req (r, s) = (Inr res, (r', t)) \<and> inv t)"
proof -
  obtain sink where a: "ctl_request env rm sc ks here req (r, s) =
     bnd (act_dispatch env rm sc ks here req C (ctl s) (ctl_words s) sink)
       (\<lambda>note. on_snd (ctl_report bus sc (rq_action req) C (ctl s) note)) (r, s)"
    using ctl_action [OF assms(1,5)] by blast
  from dispatch_clean [OF assms, of ks "here" req sink r] consider
      e where "act_dispatch env rm sc ks here req C (ctl s) (ctl_words s) sink (r, s) = (Inl e, (r, s))"
    | x r' t where "act_dispatch env rm sc ks here req C (ctl s) (ctl_words s) sink (r, s) = (Inr x, (r', t))" "inv t"
    unfolding clean2_def by blast
  then show ?thesis
  proof cases
    case 2
    with ctl_report_ok [OF 2(2), of "rq_action req" "ctl s" x] show ?thesis unfolding a by (auto simp: bnd_def on_snd_def)
  qed (simp add: a bnd_def)
qed

end

section \<open>The ports on the register simulation\<close>

definition demo_reg :: "string \<Rightarrow> int \<Rightarrow> demo \<Rightarrow> int" where
  "demo_reg e off s = (case dict_get (dm_mem s) e of None \<Rightarrow> 0
     | Some bs \<Rightarrow> (case get32 bs off of Inr w \<Rightarrow> w | Inl _ \<Rightarrow> 0))"

definition has_encs :: "scenario \<Rightarrow> demo \<Rightarrow> bool" where
  "has_encs sc s \<longleftrightarrow> (\<forall>e\<in>set (ctl_encs sc). case dict_get (dm_mem s) e of None \<Rightarrow> False | Some bs \<Rightarrow> 12 \<le> length bs)"

definition dash_ok :: "scenario \<Rightarrow> regmap \<Rightarrow> demo \<Rightarrow> bool" where
  "dash_ok sc rm s \<longleftrightarrow> demo_run_ok sc rm s \<and> has_encs sc s"

lemma ctl_encs_enc: "e \<in> set (ctl_encs sc) \<Longrightarrow> e \<in> set ENC_REGIONS" "e \<in> set (ctl_encs sc) \<Longrightarrow> e \<noteq> ''ctrl''"
proof -
  show a: "e \<in> set ENC_REGIONS" if "e \<in> set (ctl_encs sc)" for e
    using that unfolding ctl_encs_def set_filter by blast
  show "e \<noteq> ''ctrl''" if "e \<in> set (ctl_encs sc)" using a [OF that] by (auto simp: ENC_REGIONS_def)
qed

lemma enc_words:
  assumes "has_encs sc s" "e \<in> set (ctl_encs sc)" "off \<in> {0, 8}"
  shows "\<exists>bs. dict_get (dm_mem s) e = Some bs \<and> 12 \<le> length bs \<and> get32 bs off = Inr (demo_reg e off s)"
proof -
  obtain bs where bs: "dict_get (dm_mem s) e = Some bs" "12 \<le> length bs"
    using assms(1,2) by (auto simp: has_encs_def split: option.splits)
  obtain w where "get32 bs off = Inr w"
    using bs(2) assms(3) buf_pos_nonneg [of bs 0 4] buf_pos_nonneg [of bs 8 4] by (auto simp: get32_def)
  with bs show ?thesis by (simp add: demo_reg_def)
qed

text \<open>An action of CTRL leaves the other memories alone.\<close>

definition only_ctrl :: "(demo, 'a) act \<Rightarrow> bool" where
  "only_ctrl m \<longleftrightarrow> (\<forall>s. \<forall>e. e \<noteq> ''ctrl'' \<longrightarrow> dict_get (dm_mem (snd (m s))) e = dict_get (dm_mem s) e)"

named_theorems ctrl_only \<open>actions that write no memory but CTRL\<close>

lemma only_ctrl_bnd [ctrl_only]: "only_ctrl m \<Longrightarrow> (\<And>x. only_ctrl (f x)) \<Longrightarrow> only_ctrl (bnd m f)"
  by (auto simp: only_ctrl_def bnd_def split: prod.splits sum.splits) (metis snd_conv)+

lemma only_ctrl_andthen [ctrl_only]: "only_ctrl m \<Longrightarrow> only_ctrl n \<Longrightarrow> only_ctrl (andthen m n)"
  unfolding andthen_def by (intro only_ctrl_bnd)

lemma only_ctrl_when [ctrl_only]: "only_ctrl m \<Longrightarrow> only_ctrl (act_when b m)"
  by (cases b) (auto simp: only_ctrl_def)

lemma only_ctrl_basic [ctrl_only]:
  "only_ctrl (ret x)" "only_ctrl (region_mem r)" "only_ctrl (lift_exn q)" "only_ctrl (mem_set ''ctrl'' bs)"
  "only_ctrl (modify (\<lambda>s. s\<lparr>dm_traced := a\<rparr>))" "only_ctrl (modify (\<lambda>s. s\<lparr>dm_con_n := b, dm_con_t0 := c\<rparr>))"
  by (auto simp: only_ctrl_def region_mem_def lift_exn_def mem_set_def dict_get_set split: option.splits)

lemma only_ctrl_ddr_runs: "only_ctrl (modify (\<lambda>s. s\<lparr>dm_ddr_runs := rs\<rparr>))"
  by (simp add: only_ctrl_def)

lemma only_ctrl_mem [ctrl_only]: "only_ctrl (mem_put ''ctrl'' off v)" "only_ctrl (mem_get ''ctrl'' off)"
  unfolding mem_put_def mem_get_def by (intro ctrl_only)+

lemma only_ctrl_cp [ctrl_only]: "only_ctrl (cp sc n v)"
  unfolding cp_def by (auto split: option.split intro!: ctrl_only)

lemma only_ctrl_mirror [ctrl_only]: "only_ctrl (mirror_status sc)"
  unfolding mirror_status_def by (auto split: option.split intro!: ctrl_only)

lemma only_ctrl_gate [ctrl_only]: "only_ctrl (apply_gate rm ''ctrl'' off v)" "only_ctrl (apply_w1c rm ''ctrl'' off v)"
  unfolding apply_gate_def apply_w1c_def Let_def
  by (auto simp: ENC_REGIONS_def intro!: ctrl_only)

lemma only_ctrl_write_control [ctrl_only]: "only_ctrl (write_control sc v)"
  unfolding write_control_def by (intro ctrl_only)

lemma ctrl_not_enc: "''ctrl'' \<notin> set ENC_REGIONS"
  by (simp add: ENC_REGIONS_def)

lemma only_ctrl_demo_write:
  assumes "co sc ''sink_ctrl'' \<noteq> Some off"
  shows "only_ctrl (demo_write sc rm ''ctrl'' off v)"
  using assms ctrl_not_enc unfolding demo_write_def by (auto intro!: ctrl_only)

lemma sink_not_control: "has_layout sc s \<Longrightarrow> co sc ''sink_ctrl'' \<noteq> Some 0"
  using co_layout(3) [of sc _ "''sink_ctrl''" 0] by (auto simp: has_layout_def)

lemma demo_run_layout: "demo_run_ok sc rm s \<Longrightarrow> has_layout sc s"
  by (auto simp: demo_run_ok_def has_layout_def split: option.splits)

lemma dash_ctrl_write:
  assumes "dash_ok sc rm s" "is_u32 v" "demo_write sc rm ''ctrl'' 0 v s = (r, t)"
  shows "dash_ok sc rm t" "r = Inr ()" "demo_ctl t = v" "e \<in> set (ctl_encs sc) \<Longrightarrow> demo_reg e off t = demo_reg e off s"
proof -
  have ok: "demo_run_ok sc rm s" using assms(1) by (simp add: dash_ok_def)
  have w: "r = Inr ()" "demo_run_ok sc rm t" "demo_ctl t = v"
    using demo_write_control [OF ok assms(2)] assms(3) by auto
  have "only_ctrl (demo_write sc rm ''ctrl'' 0 v)"
    by (rule only_ctrl_demo_write [OF sink_not_control [OF demo_run_layout [OF ok]]])
  then have same: "dict_get (dm_mem t) e = dict_get (dm_mem s) e" if "e \<in> set (ctl_encs sc)" for e
    using ctl_encs_enc(2) [OF that] assms(3) unfolding only_ctrl_def by (metis snd_conv)
  then show "e \<in> set (ctl_encs sc) \<Longrightarrow> demo_reg e off t = demo_reg e off s" by (simp add: demo_reg_def)
  have "has_encs sc t" using assms(1) same by (simp add: dash_ok_def has_encs_def)
  with w show "dash_ok sc rm t" "r = Inr ()" "demo_ctl t = v" by (simp_all add: dash_ok_def)
qed

lemma dash_enc_write:
  assumes "dash_ok sc rm s" "e \<in> set (ctl_encs sc)" "off \<in> {0, 8}"
  shows "\<exists>t. demo_write sc rm e off v s = (Inr (), t) \<and> dash_ok sc rm t \<and> demo_ctl t = demo_ctl s
     \<and> (\<forall>i<32. bit (demo_reg e off t) i \<longleftrightarrow> stored_bit rm e off (demo_reg e 0 s) (demo_reg e off s) v i)
     \<and> (\<forall>d p. d \<in> set (ctl_encs sc) \<longrightarrow> p \<in> {0, 8} \<longrightarrow> (d, p) \<noteq> (e, off) \<longrightarrow> demo_reg d p t = demo_reg d p s)"
proof -
  have h: "has_encs sc s" "demo_run_ok sc rm s" using assms(1) by (simp_all add: dash_ok_def)
  obtain bs where bs: "dict_get (dm_mem s) e = Some bs" "12 \<le> length bs" "get32 bs off = Inr (demo_reg e off s)"
    using enc_words [OF h(1) assms(2,3)] by blast
  have te: "get32 bs 0 = Inr (demo_reg e 0 s)" using enc_words [OF h(1) assms(2), of 0] bs(1) by auto
  obtain x bs' t where t: "demo_write sc rm e off v s = (Inr (), t)" "put32 bs off x = Inr bs'"
      "dm_mem t = dict_set e bs' (dm_mem s)" "is_u32 x"
      "\<forall>i<32. bit x i \<longleftrightarrow> stored_bit rm e off (demo_reg e 0 s) (demo_reg e off s) v i"
    using demo_write_enc [OF ctl_encs_enc(1) [OF assms(2)] bs(1,3) te] by blast
  have g: "get32 bs' off = Inr x" "length bs' = length bs" using get32_put32_same [OF t(2)] by simp_all
  have ne: "e \<noteq> ''ctrl''" by (rule ctl_encs_enc(2) [OF assms(2)])
  have c: "dict_get (dm_mem t) ''ctrl'' = dict_get (dm_mem s) ''ctrl''" using ne by (simp add: t(3) dict_get_set)
  have ctl: "demo_ctl t = demo_ctl s" by (simp add: demo_ctl_def c)
  have run: "demo_run_ok sc rm t" using h(2) unfolding demo_run_ok_def c ctl .
  have encs: "has_encs sc t" using h(1) bs(1,2) g(2) by (auto simp: has_encs_def t(3) dict_get_set)
  have self: "demo_reg e off t = x" using g(1) by (simp add: demo_reg_def t(3) dict_get_set)
  have "demo_reg d p t = demo_reg d p s" if d: "d \<in> set (ctl_encs sc)" "p \<in> {0, 8}" "(d, p) \<noteq> (e, off)" for d p
  proof (cases "d = e")
    case True
    then have "get32 bs' p = get32 bs p"
      using d(2,3) assms(3) get32_put32_other [of bs "nat off" x bs' "nat p"] t(2) by auto
    then show ?thesis using True bs(1) by (simp add: demo_reg_def t(3) dict_get_set)
  qed (simp add: demo_reg_def t(3) dict_get_set)
  then show ?thesis using t(1,5) ctl run encs self by (auto simp: dash_ok_def)
qed

lemma dash_enc_read:
  assumes "dash_ok sc rm s" "e \<in> set (ctl_encs sc)" "off \<in> {0, 8}"
  shows "demo_read e off 1 s = (Inr [demo_reg e off s], s)"
proof -
  obtain bs where "dict_get (dm_mem s) e = Some bs" "get32 bs off = Inr (demo_reg e off s)"
    using enc_words [of sc s e off] assms by (auto simp: dash_ok_def)
  then show ?thesis
    using assms(3) get32s_1 [of bs off] by (auto simp: demo_read_def region_mem_ok bnd_def lift_exn_def)
qed

lemma demo_sink_read:
  assumes "demo_run_ok sc rm s" "co sc ''sink_ctrl'' = Some so"
  shows "\<exists>w. demo_read ''ctrl'' so 1 s = (Inr [w], s)"
proof -
  obtain bs where bs: "dict_get (dm_mem s) ''ctrl'' = Some bs" "ctrl_layout sc bs"
    using demo_run_layout [OF assms(1)] by (auto simp: has_layout_def)
  obtain w where "get32 bs so = Inr w"
    using co_layout [OF bs(2) assms(2)] by (auto simp: get32_def buf_pos_def)
  from demo_read_word [OF bs(1) this ctrl_not_enc] show ?thesis by blast
qed

lemma demo_ctl_u32: "demo_run_ok sc rm s \<Longrightarrow> is_u32 (demo_ctl s)"
  by (auto simp: demo_ctl_def is_u32_def dest!: get32_u32 split: option.splits sum.splits)

text \<open>A word put into CTRL beside CONTROL and STATUS keeps the run state and its mirrors.\<close>

lemma put_keeps_run:
  assumes "demo_run_ok sc rm s" "status_apart sc" "co sc n = Some off" "n \<noteq> ''control''" "n \<noteq> ''status''" "is_u32 v"
  shows "\<exists>t. mem_put ''ctrl'' off v s = (Inr (), t) \<and> demo_run_ok sc rm t"
proof -
  obtain bs where bs: "dict_get (dm_mem s) ''ctrl'' = Some bs" "ctrl_layout sc bs" "mirrors sc bs (demo_ctl s)"
    using assms(1) by (auto simp: demo_run_ok_def split: option.splits)
  obtain bs' where p: "put32 bs off v = Inr bs'" "ctrl_layout sc bs'" "get32 bs' 0 = get32 bs 0"
    using layout_put32 [OF bs(2) assms(3,6)] assms(4) by blast
  note l = co_layout [OF bs(2) assms(3)]
  have "get32 bs' so = get32 bs so" if so: "co sc ''status'' = Some so" for so
  proof -
    have "(n, off) \<in> set (sc_ctrl sc)"
      using assms(3) map_of_SomeD [of "sc_ctrl sc" n off] by (simp add: co_def dict_get_def)
    then have "off + 4 \<le> so \<or> so + 4 \<le> off" using assms(2,5) so by (auto simp: status_apart_def)
    then have "nat so + 4 \<le> nat off \<or> nat off + 4 \<le> nat so" using l(1) co_layout(1) [OF bs(2) so] by linarith
    then show ?thesis
      using get32_put32_other [of bs "nat off" v bs' "nat so"] p(1) l(1) co_layout(1) [OF bs(2) so] by simp
  qed
  then have "mirrors sc bs' (demo_ctl s)" using bs(3) by (auto simp: mirrors_def split: option.splits)
  moreover have "demo_ctl (s\<lparr>dm_mem := dict_set ''ctrl'' bs' (dm_mem s)\<rparr>) = demo_ctl s"
    using bs(1) p(3) by (simp add: demo_ctl_def dict_get_set)
  ultimately show ?thesis
    using assms(1) bs(1) p(1,2) by (auto simp: mem_put_ok demo_run_ok_def dict_get_set)
qed

lemma cp_keeps_run:
  assumes "demo_run_ok sc rm s" "status_apart sc" "n \<noteq> ''control''" "n \<noteq> ''status''"
  shows "\<exists>t. cp sc n v s = (Inr (), t) \<and> demo_run_ok sc rm t"
proof (cases "co sc n")
  case (Some off)
  then show ?thesis
    using put_keeps_run [OF assms(1,2) Some assms(3,4), of "v AND 0xFFFFFFFF"] by (simp add: cp_def flip: u32_def)
qed (simp add: cp_def assms(1))

lemma write_sink_keeps_run:
  assumes "demo_run_ok sc rm s" "status_apart sc"
  shows "\<exists>t. write_sink sc v s = (Inr (v AND NOT 0x22), t) \<and> demo_run_ok sc rm t"
proof -
  have seq: "\<exists>t. andthen m1 m2 s = (Inr x, t) \<and> demo_run_ok sc rm t"
    if "\<exists>t. m1 s = (Inr (), t) \<and> demo_run_ok sc rm t"
      "\<And>s. demo_run_ok sc rm s \<Longrightarrow> \<exists>t. m2 s = (Inr x, t) \<and> demo_run_ok sc rm t"
    for m1 :: "(demo, unit) act" and m2 :: "(demo, 'x) act" and s x
    using that by (auto simp: andthen_def bnd_def)
  have w: "\<exists>t. act_when b m s = (Inr (), t) \<and> demo_run_ok sc rm t"
    if "\<exists>t. m s = (Inr (), t) \<and> demo_run_ok sc rm t" "demo_run_ok sc rm s" for b and m :: "(demo, unit) act" and s
    using that by (cases b) auto
  have runs: "demo_run_ok sc rm (s\<lparr>dm_ddr_runs := rs\<rparr>)" if "demo_run_ok sc rm s" for s rs
  proof -
    have "demo_ctl (s\<lparr>dm_ddr_runs := rs\<rparr>) = demo_ctl s" by (simp add: demo_ctl_def)
    with that show ?thesis unfolding demo_run_ok_def by (simp split: option.split_asm)
  qed
  show ?thesis
    unfolding write_sink_def using assms(1)
    by (intro seq w cp_keeps_run [OF _ assms(2)]) (auto intro: runs)
qed

lemma demo_write_sink:
  assumes "dash_ok sc rm s" "status_apart sc" "co sc ''sink_ctrl'' = Some so"
  shows "\<exists>t. demo_write sc rm ''ctrl'' so v s = (Inr (), t) \<and> dash_ok sc rm t"
proof -
  have run: "demo_run_ok sc rm s" using assms(1) by (simp add: dash_ok_def)
  have "co sc ''control'' = Some 0" by (rule demo.control [OF run])
  then have nc: "co sc ''control'' \<noteq> Some so" using sink_not_control [OF demo_run_layout [OF run]] assms(3) by auto
  obtain s1 where s1: "write_sink sc v s = (Inr (v AND NOT 0x22), s1)" "demo_run_ok sc rm s1"
    using write_sink_keeps_run [OF run assms(2)] by blast
  obtain bs where bs: "dict_get (dm_mem s1) ''ctrl'' = Some bs" "ctrl_layout sc bs"
    using demo_run_layout [OF s1(2)] by (auto simp: has_layout_def)
  obtain w where w: "get32 bs so = Inr w"
    using co_layout [OF bs(2) assms(3)] by (auto simp: get32_def buf_pos_def)
  define m where "m = w1c_mask rm ''ctrl'' so"
  define v3 where "v3 = (if m = 0 then v AND NOT 0x22 else ((v AND NOT 0x22) AND NOT m) OR ((w AND m) AND NOT (v AND NOT 0x22)))"
  have c: "apply_w1c rm ''ctrl'' so (v AND NOT 0x22) s1 = (Inr v3, s1)"
    by (simp add: apply_w1c_def v3_def m_def [symmetric] mem_get_ok [OF bs(1) w] bnd_def Let_def)
  obtain t where t: "mem_put ''ctrl'' so (v3 AND 0xFFFFFFFF) s1 = (Inr (), t)" "demo_run_ok sc rm t"
    using put_keeps_run [OF s1(2) assms(2,3), of "v3 AND 0xFFFFFFFF"] by (auto simp flip: u32_def)
  have e: "demo_write sc rm ''ctrl'' so v s = (Inr (), t)"
    using s1(1) c t(1) nc assms(3) ctrl_not_enc by (simp add: demo_write_def andthen_def bnd_def apply_gate_def)
  have o: "only_ctrl (demo_write sc rm ''ctrl'' so v)"
    using ctrl_not_enc nc unfolding demo_write_def write_sink_def
    by (auto intro!: ctrl_only simp: only_ctrl_ddr_runs)
  have "dict_get (dm_mem t) d = dict_get (dm_mem s) d" if "d \<in> set (ctl_encs sc)" for d
    using o e ctl_encs_enc(2) [OF that] unfolding only_ctrl_def by (metis snd_conv)
  then have "has_encs sc t" using assms(1) by (simp add: dash_ok_def has_encs_def)
  with t(2) e show ?thesis by (simp add: dash_ok_def)
qed

interpretation dash: sim_port "demo_bus sc rm" sc 0 demo_ctl "dash_ok sc rm" rm demo_reg for sc rm
proof unfold_locales
  fix s assume ok: "dash_ok sc rm s"
  then have run: "demo_run_ok sc rm s" by (simp add: dash_ok_def)
  show "co sc ''control'' = Some 0" by (rule demo.control [OF run])
  show "db_read (demo_bus sc rm) ''ctrl'' 0 1 s = (Inr [demo_ctl s], s)" by (rule demo.read_law [OF run])
  show "\<exists>t. db_write (demo_bus sc rm) ''ctrl'' 0 v s = (Inr (), t) \<and> dash_ok sc rm t \<and> demo_ctl t = v" if "is_u32 v" for v
    using demo_write_control [OF run that] dash_ctrl_write(1) [OF ok that] by (auto simp: demo_bus_def)
  show "\<exists>st. db_read (demo_bus sc rm) ''ctrl'' so 1 s = (Inr [st], s) \<and>
      (\<forall>c\<in>set (sc_cores sc). \<forall>b. dict_get (sc_status_bits sc) (running_bit_name c) = Some b \<longrightarrow>
         (bit st b \<longleftrightarrow> core_running sc (demo_ctl s) c))" if "co sc ''status'' = Some so" for so
    by (rule demo.mirror_law [OF run that])
  show "is_u32 (demo_ctl s)" by (rule demo_ctl_u32 [OF run])
  show "\<exists>w. db_read (demo_bus sc rm) ''ctrl'' so 1 s = (Inr [w], s)" if "co sc ''sink_ctrl'' = Some so" for so
    using demo_sink_read [OF run that] by (simp add: demo_bus_def)
  show "\<exists>t. db_write (demo_bus sc rm) ''ctrl'' so v s = (Inr (), t) \<and> dash_ok sc rm t"
    if "status_apart sc" "co sc ''sink_ctrl'' = Some so" for so v
    using demo_write_sink [OF ok that] by (simp add: demo_bus_def)
next
  show "db_demo (demo_bus sc rm)" by (simp add: demo_bus_def)
next
  fix s assume ok: "dash_ok sc rm s"
  fix e off assume e: "e \<in> set (ctl_encs sc)"
  show "demo_reg e 0 t = demo_reg e 0 s" if "is_u32 v" "db_write (demo_bus sc rm) ''ctrl'' 0 v s = (r, t)" for v r t
    using dash_ctrl_write(4) [OF ok that(1) _ e] that(2) by (simp add: demo_bus_def)
  assume off: "off \<in> {0, 8 :: int}"
  show "db_read (demo_bus sc rm) e off 1 s = (Inr [demo_reg e off s], s)"
    using dash_enc_read [OF ok e off] by (simp add: demo_bus_def)
  show "\<exists>t. db_write (demo_bus sc rm) e off v s = (Inr (), t) \<and> dash_ok sc rm t
     \<and> (\<forall>i<32. bit (demo_reg e off t) i \<longleftrightarrow> stored_bit rm e off (demo_reg e 0 s) (demo_reg e off s) v i)
     \<and> (\<forall>d p. d \<in> set (ctl_encs sc) \<longrightarrow> p \<in> {0, 8} \<longrightarrow> (d, p) \<noteq> (e, off) \<longrightarrow> demo_reg d p t = demo_reg d p s)" for v
    using dash_enc_write [OF ok e off, of v] by (auto simp: demo_bus_def)
  show "demo_ctl t = demo_ctl s" if "db_write (demo_bus sc rm) e off v s = (r, t)" for v r t
    using dash_enc_write [OF ok e off, of v] that by (auto simp: demo_bus_def)
qed

section \<open>Properties\<close>

text \<open>C8: "Trace on" arms: on the simulated hardware, whatever state the encoders are in, every encoder ends up
  active, enabled and tracing with the live sync mode and period programmed into its enable-locked fields
  and, in a multi-source scenario, its source field on and its source register holding the source bits of
  the scenario and the encoder's position as source id; no other bit of the two registers changes, the sticky
  overflow evidence included, and the report shows the control words read back.\<close>

theorem trace_on_arms:
  assumes "dash_ok sc rm s" "ce_bus env = demo_bus sc rm"
    and "\<forall>e\<in>set (ctl_encs sc). arm_masks_ok rm e" "\<forall>e\<in>set (ctl_encs sc). source_mask_ok rm sc e"
    and "rq_action req = ''trace_on''"
  shows "\<exists>res t. ctl_request env rm sc ks here req (r, s) = (Inr res, (r, t)) \<and> dash_ok sc rm t \<and>
     cl_te res = map (\<lambda>e. (e, demo_reg e 0 t)) (ctl_encs sc) \<and>
     (\<forall>e\<in>set (ctl_encs sc). \<forall>b<32. bit (demo_reg e 0 t) b \<longleftrightarrow> armed_bit sc ks (demo_reg e 0 s) b) \<and>
     (\<forall>i<length (ctl_encs sc). \<forall>b<32.
        bit (demo_reg (ctl_encs sc ! i) 8 t) b \<longleftrightarrow> source_bit sc i (demo_reg (ctl_encs sc ! i) 8 s) b)"
  using dash.ctl_trace_on_effect [OF assms] unfolding dash.ctl_words_def .

text \<open>The words a start writes: the bits off, where one was on, and then the collective bit.\<close>

definition halted_word :: "scenario \<Rightarrow> int \<Rightarrow> int" where
  "halted_word sc c = c AND NOT (collective_bits sc)"

definition start_writes :: "scenario \<Rightarrow> int \<Rightarrow> bus_write list" where
  "start_writes sc c = (if c AND collective_bits sc \<noteq> 0 then [Word_Write ''ctrl'' 0 (halted_word sc c)] else [])
     @ [Word_Write ''ctrl'' 0 (halted_word sc c OR cbit sc ''core_run'')]"

lemma stop_log:
  "act_stop (log_bus bus) sc 0 c ([], s) = (q, (l, t)) \<Longrightarrow> l = [Word_Write ''ctrl'' 0 (halted_word sc c)]"
  by (auto simp: act_stop_def write_ctl_def halted_word_def)

lemma run_log:
  assumes "act_run (log_bus bus) sc 0 c ([], s) = (Inr (), (l, t))"
    and "protocol_lock_reason (log_bus bus) sc None ([], s) = (Inr why, ([], s))"
  shows "l = start_writes sc c"
  using assms
  by (auto simp: act_run_def unless_locked_def Let_def bnd_def andthen_def write_ctl_def act_when_def start_writes_def
      halted_word_def split: option.splits sum.splits prod.splits if_splits)

interpretation watched: ctl_port "log_bus (demo_bus sc rm)" sc 0 "\<lambda>s. demo_ctl (snd s)" "\<lambda>s. dash_ok sc rm (snd s)" rm
    "\<lambda>e off s. demo_reg e off (snd s)" for sc rm
  by (rule dash.logged)

text \<open>C9: Stop stops and run restarts, on the watched simulation. The collective stop is one write of CONTROL:
  it halts every core that hangs off the collective bit, also one that runs by its own bit, and keeps the other
  bits. The collective start, where it is not interlocked, leaves every such core running from a fresh release:
  when any of the bits was on it first writes the word under which the core is halted, then in either case the
  word with the collective bit alone, and nothing else. Its hint says when it restarted and names exactly the
  encoders that do not trace.\<close>

theorem stop_and_run:
  assumes "dash_ok sc rm s" "ce_bus env = log_bus (demo_bus sc rm)" "control_bits_ok sc" "length (protocols sc) < 2"
    and "rq_action stop = ''stop''" "rq_action run = ''run''"
    and "c \<in> set (sc_cores sc)" "''core_run'' \<in> set (core_run_bits sc c)"
  shows "\<not> core_running sc (halted_word sc (demo_ctl s)) c \<and>
     (\<exists>res t. ctl_request env rm sc ks here stop (r, ([], s))
          = (Inr res, (r, ([Word_Write ''ctrl'' 0 (halted_word sc (demo_ctl s))], t))) \<and>
       demo_ctl t = halted_word sc (demo_ctl s)) \<and>
     (\<exists>res t. ctl_request env rm sc ks here run (r, ([], s)) = (Inr res, (r, (start_writes sc (demo_ctl s), t))) \<and>
       demo_ctl t = halted_word sc (demo_ctl s) OR cbit sc ''core_run'' \<and> core_running sc (demo_ctl t) c \<and>
       cl_hint res = (if demo_ctl s AND collective_bits sc \<noteq> 0 then [Restarted] else []) @
         (let cold = filter (\<lambda>e. \<not> te_effective (demo_reg e 0 s)) (ctl_encs sc) in
          if cold = [] then [] else [Tracing_Off cold]))"
proof (intro conjI)
  have ok: "dash_ok sc rm (snd ([], s))" using assms(1) by simp
  show "\<not> core_running sc (halted_word sc (demo_ctl s)) c"
    unfolding halted_word_def by (rule stopped_core [OF assms(7,8)])
  obtain res l t where st: "ctl_request env rm sc ks here stop (r, ([], s)) = (Inr res, (r, (l, t)))"
      "act_stop (log_bus (demo_bus sc rm)) sc 0 (demo_ctl s) ([], s) = (Inr (), (l, t))"
      "demo_ctl t = demo_ctl s AND NOT (collective_bits sc)"
    using watched.ctl_stop_effect [OF ok assms(2,5), of ks "here" r] by auto
  show "\<exists>res t. ctl_request env rm sc ks here stop (r, ([], s))
          = (Inr res, (r, ([Word_Write ''ctrl'' 0 (halted_word sc (demo_ctl s))], t))) \<and>
       demo_ctl t = halted_word sc (demo_ctl s)"
    using st(1,3) unfolding stop_log [OF st(2)] halted_word_def by blast
  obtain res l t where ru: "ctl_request env rm sc ks here run (r, ([], s)) = (Inr res, (r, (l, t)))"
      "act_run (log_bus (demo_bus sc rm)) sc 0 (demo_ctl s) ([], s) = (Inr (), (l, t))"
      "demo_ctl t = (demo_ctl s AND NOT (collective_bits sc)) OR cbit sc ''core_run''"
      "cl_hint res = watched.start_hint sc ([], s)"
    using watched.ctl_run_effect [OF ok assms(2,6,4,3), of ks "here" r] by auto
  have l: "l = start_writes sc (demo_ctl s)"
    by (rule run_log [OF ru(2)]) (use watched.lock_all [OF ok] in simp)
  show "\<exists>res t. ctl_request env rm sc ks here run (r, ([], s)) = (Inr res, (r, (start_writes sc (demo_ctl s), t))) \<and>
       demo_ctl t = halted_word sc (demo_ctl s) OR cbit sc ''core_run'' \<and> core_running sc (demo_ctl t) c \<and>
       cl_hint res = (if demo_ctl s AND collective_bits sc \<noteq> 0 then [Restarted] else []) @
         (let cold = filter (\<lambda>e. \<not> te_effective (demo_reg e 0 s)) (ctl_encs sc) in
          if cold = [] then [] else [Tracing_Off cold])"
    using ru(1,3,4) started_core [OF assms(8)] unfolding l halted_word_def watched.start_hint_def snd_conv by auto
qed

text \<open>C16: A control request that fails changes nothing, on the register simulation: for every action, known or
  not, the sinks and the staging of images included, an error leaves the device and the console recording
  exactly as they were, and a success keeps the invariant of the device.\<close>

theorem failed_control_no_effect:
  assumes "dash_ok sc rm s" "control_bits_ok sc" "separable sc" "\<forall>e\<in>set (ctl_encs sc). arm_masks_ok rm e"
    and "ce_bus env = demo_bus sc rm" "status_apart sc"
  shows "(\<exists>e. ctl_request env rm sc ks here req (r, s) = (Inl e, (r, s))) \<or>
     (\<exists>res r' t. ctl_request env rm sc ks here req (r, s) = (Inr res, (r', t)) \<and> dash_ok sc rm t)"
  using dash.ctl_error_unchanged [OF assms] .

section \<open>A scenario with two encoders\<close>

definition duo_sc :: scenario where
  "duo_sc = projr (mk_scenario
     \<lparr> sd_id = ''duo'', sd_title = ''duo'', sd_app = Some ''duo_app'', sd_app_variants = None, sd_xlen = None,
       sd_regions = [(''ctrl'', \<lparr> rg_base = A_Int 0xA0000000, rg_size = 64, rg_label = None, rg_gate_core = None \<rparr>),
                     (''enc'', \<lparr> rg_base = A_Int 0xA0010000, rg_size = 64, rg_label = None, rg_gate_core = None \<rparr>),
                     (''enc1'', \<lparr> rg_base = A_Int 0xA0020000, rg_size = 64, rg_label = None, rg_gate_core = None \<rparr>)],
       sd_ctrl = Some [(''control'', 0), (''status'', 4), (''sink_ctrl'', 8)],
       sd_control_bits = Some [(''core_run'', 0), (''trace_clear'', 1), (''core0_run'', 8), (''core1_run'', 9)],
       sd_status_bits = Some [(''core0_running'', 8), (''core1_running'', 9)],
       sd_cores = Some
         [\<lparr> c_id = Some 0, c_name = Some ''A'', c_enc = Some ''enc'', c_run_bit = Some ''core0_run'',
            c_run_bits = Some [''core_run'', ''core0_run''], c_protocol = Some ''N-Trace'' \<rparr>,
          \<lparr> c_id = Some 1, c_name = Some ''B'', c_enc = Some ''enc1'', c_run_bit = Some ''core1_run'',
            c_run_bits = Some [''core_run'', ''core1_run''], c_protocol = Some ''N-Trace'' \<rparr>],
       sd_console = None, sd_ddr_sink = False, sd_features = None,
       sd_decode = Some \<lparr> dd_srcbits = Some 2, dd_multi_target = True, dd_targets = None \<rparr>, sd_demo = None,
       sd_sink_defaults = None \<rparr>)"

definition duo_rm :: regmap where
  "duo_rm = [\<lparr> rd_region = ''enc'', rd_offset = 0, rd_path = ''te.trTeControl'',
     rd_fields = [\<lparr> fd_name = ''InstStallOrOverflow'', fd_msb = 12, fd_lsb = 12, fd_sw = ''rw'', fd_hw = ''rw'',
                    fd_gated = False, fd_pulse = False, fd_w1c = True, fd_reset = 0 \<rparr>,
                  \<lparr> fd_name = ''InstSyncMode'', fd_msb = 19, fd_lsb = 16, fd_sw = ''rw'', fd_hw = ''r'',
                    fd_gated = True, fd_pulse = False, fd_w1c = False, fd_reset = 0 \<rparr>,
                  \<lparr> fd_name = ''InstSyncMax'', fd_msb = 23, fd_lsb = 20, fd_sw = ''rw'', fd_hw = ''r'',
                    fd_gated = True, fd_pulse = False, fd_w1c = False, fd_reset = 0 \<rparr>] \<rparr>]"

definition duo_demo :: demo where
  "duo_demo = \<lparr> dm_mem = [(''ctrl'', replicate 64 0), (''enc'', pack_words [0x01009007, 0, 0x1234]),
       (''enc1'', pack_words [0x8000, 0, 0])], dm_t0 = 0, dm_traced = 0,
       dm_maxfill = 0, dm_overflows = 0, dm_inject = False, dm_hist = replicate HIST_BINS 0,
       dm_hist_ptr = 0, dm_cap = 64, dm_con_text = [], dm_con_n = 0, dm_con_t0 = None,
       dm_stream = None, dm_ddr_runs = [] \<rparr>"

definition duo_running :: demo where
  "duo_running = duo_demo\<lparr>dm_mem := dict_set ''ctrl'' (pack_words [0x102, 0x100] @ replicate 56 0) (dm_mem duo_demo)\<rparr>"

definition env_on :: "'b dash_bus \<Rightarrow> 'b ctl_env" where
  "env_on bus = \<lparr> ce_bus = bus, ce_widths = ret [], ce_tree = None, ce_files = (\<lambda>p. Inl (Exn OSError p [])) \<rparr>"

abbreviation demo_env :: "scenario \<Rightarrow> regmap \<Rightarrow> demo ctl_env" where
  "demo_env sc rm \<equiv> env_on (demo_bus sc rm)"

definition plain_req :: "string \<Rightarrow> ctl_req" where
  "plain_req a = \<lparr> rq_action = a, rq_core = None \<rparr>"

definition no_keys :: ctl_keys where
  "no_keys = \<lparr> ck_live_sync = None, ck_preload = [] \<rparr>"

lemma duo_facts:
  "dash_ok duo_sc duo_rm duo_demo" "control_bits_ok duo_sc" "separable duo_sc" "length (protocols duo_sc) < 2"
  "\<forall>e\<in>set (ctl_encs duo_sc). arm_masks_ok duo_rm e" "\<forall>e\<in>set (ctl_encs duo_sc). source_mask_ok duo_rm duo_sc e"
  "multi_source duo_sc" "ctl_encs duo_sc = [''enc'', ''enc1'']" "status_apart duo_sc"
  by code_simp+

lemma trace_on_arms_witness:
  "\<exists>res t. ctl_request (demo_env duo_sc duo_rm) duo_rm duo_sc no_keys [] (plain_req ''trace_on'') (con_reader0, duo_demo)
      = (Inr res, (con_reader0, t)) \<and>
    (\<forall>b<32. bit (demo_reg ''enc'' 0 t) b \<longleftrightarrow> armed_bit duo_sc no_keys (demo_reg ''enc'' 0 duo_demo) b) \<and>
    bit (demo_reg ''enc1'' 8 t) 16 \<and> bit (demo_reg ''enc1'' 8 t) 29 \<and> \<not> bit (demo_reg ''enc'' 8 t) 16"
proof -
  obtain res t where t: "ctl_request (demo_env duo_sc duo_rm) duo_rm duo_sc no_keys [] (plain_req ''trace_on'') (con_reader0, duo_demo)
      = (Inr res, (con_reader0, t))"
    "\<forall>e\<in>set (ctl_encs duo_sc). \<forall>b<32. bit (demo_reg e 0 t) b \<longleftrightarrow> armed_bit duo_sc no_keys (demo_reg e 0 duo_demo) b"
    "\<forall>i<length (ctl_encs duo_sc). \<forall>b<32.
        bit (demo_reg (ctl_encs duo_sc ! i) 8 t) b \<longleftrightarrow> source_bit duo_sc i (demo_reg (ctl_encs duo_sc ! i) 8 duo_demo) b"
    using trace_on_arms [OF duo_facts(1) _ duo_facts(5,6), of "demo_env duo_sc duo_rm" "plain_req ''trace_on''" no_keys "[]" con_reader0]
    by (auto simp: env_on_def plain_req_def)
  have s: "source_bit duo_sc 1 (demo_reg ''enc1'' 8 duo_demo) 16" "source_bit duo_sc 1 (demo_reg ''enc1'' 8 duo_demo) 29"
      "\<not> source_bit duo_sc 0 (demo_reg ''enc'' 8 duo_demo) 16" by code_simp+
  show ?thesis
    using t(1,2) t(3) [rule_format, of 0] t(3) [rule_format, of 1] s by (auto simp: duo_facts(8))
qed

lemma stop_and_run_witness:
  "\<exists>res res' t t'. ctl_request (env_on (log_bus (demo_bus duo_sc duo_rm))) duo_rm duo_sc no_keys []
        (plain_req ''stop'') (con_reader0, ([], duo_running)) = (Inr res, (con_reader0, ([Word_Write ''ctrl'' 0 2], t))) \<and>
      ctl_request (env_on (log_bus (demo_bus duo_sc duo_rm))) duo_rm duo_sc no_keys []
        (plain_req ''run'') (con_reader0, ([], duo_running))
        = (Inr res', (con_reader0, ([Word_Write ''ctrl'' 0 2, Word_Write ''ctrl'' 0 3], t')))"
proof -
  let ?env = "env_on (log_bus (demo_bus duo_sc duo_rm))"
  have c: "hd (sc_cores duo_sc) \<in> set (sc_cores duo_sc)" "''core_run'' \<in> set (core_run_bits duo_sc (hd (sc_cores duo_sc)))"
      "dash_ok duo_sc duo_rm duo_running"
    by code_simp+
  have e: "ce_bus ?env = log_bus (demo_bus duo_sc duo_rm)" "rq_action (plain_req a) = a" for a
    by (simp_all add: plain_req_def env_on_def)
  have w: "halted_word duo_sc (demo_ctl duo_running) = 2"
      "start_writes duo_sc (demo_ctl duo_running) = [Word_Write ''ctrl'' 0 2, Word_Write ''ctrl'' 0 3]" by code_simp+
  show ?thesis
    using stop_and_run [OF c(3) e(1) duo_facts(2,4) e(2) e(2) c(1,2), of no_keys "[]" con_reader0] unfolding w by blast
qed

lemma failed_control_no_effect_witness:
  "(\<exists>e. ctl_request (demo_env duo_sc duo_rm) duo_rm duo_sc no_keys [] (plain_req ''ddr_clear'') (con_reader0, duo_demo)
      = (Inl e, (con_reader0, duo_demo))) \<or>
   (\<exists>res r' t. ctl_request (demo_env duo_sc duo_rm) duo_rm duo_sc no_keys [] (plain_req ''ddr_clear'') (con_reader0, duo_demo)
      = (Inr res, (r', t)) \<and> dash_ok duo_sc duo_rm t)"
  using failed_control_no_effect [OF duo_facts(1-3,5), of "demo_env duo_sc duo_rm"] duo_facts(9) by (simp add: env_on_def)

end
