(* ===== verification/Api_Regs.thy ===== *)
theory Api_Regs
  imports Ring_Dump
begin

unbundle bit_operations_syntax

text \<open>
  The register endpoints of the dashboard server: \<open>GET /api/read\<close>, \<open>POST /api/write\<close>,
  \<open>GET /api/fifohist\<close>, \<open>GET /api/trace\<close> and the poll set of \<open>GET /api/state\<close>. A reply is its
  status with the value of its body; an exception of a handler is the reply 400.
\<close>

section \<open>Replies\<close>

datatype 'a http = Ok200 'a | Refused int refusal | Bad_Request exn

definition handled :: "('b, 'a http) act \<Rightarrow> ('b, 'a http) act" where
  "handled m = handle m (\<lambda>e. ret (Bad_Request e))"

definition range_error :: exn where "range_error = Exn ValueError ''range'' []"

definition DESTRUCTIVE_READ_REGIONS :: "string list" where
  "DESTRUCTIVE_READ_REGIONS = [''fifo0'', ''fifo1'']"

section \<open>Reading words\<close>

text \<open>\<open>bus.read(region, off, n)\<close> with the count of a request: a negative one is an empty list on the live
  bus and an error of \<open>struct\<close> on the simulation.\<close>

definition read_count :: "'b dash_bus \<Rightarrow> string \<Rightarrow> int \<Rightarrow> int \<Rightarrow> ('b, int list) act" where
  "read_count bus region off n =
     (if 0 \<le> n then db_read bus region off (nat n)
      else bnd (db_read bus region off 0) (\<lambda>ws. if db_demo bus then raise struct_error else ret []))"

definition api_read :: "'b dash_bus \<Rightarrow> scenario \<Rightarrow> string \<Rightarrow> int \<Rightarrow> int \<Rightarrow> ('b, int list http) act" where
  "api_read bus sc region off n0 = handled
     (let n = min n0 4096 in
      case dict_get (sc_regions sc) region of
        None \<Rightarrow> raise (key_error region)
      | Some (base, sz) \<Rightarrow>
        if off < 0 \<or> off + 4 * n > sz \<or> off mod 4 \<noteq> 0 then raise range_error
        else if region \<in> set DESTRUCTIVE_READ_REGIONS
        then raise (Exn ValueError ''region is not readable through this endpoint'' [AS region])
        else bnd (region_hold_reason bus sc region) (\<lambda>hold. case hold of
            Some r \<Rightarrow> ret (Refused 409 r)
          | None \<Rightarrow> bnd (read_count bus region off n) (\<lambda>ws. ret (Ok200 ws))))"

section \<open>Writing a register\<close>

record write_reply =
  wr_readback :: int
  wr_not_taken :: "(string \<times> int \<times> int) list"

definition wr_ok :: "write_reply \<Rightarrow> bool" where
  "wr_ok r \<longleftrightarrow> wr_not_taken r = []"

text \<open>The write, and the word read back against the one written.\<close>

definition write_back :: "'b dash_bus \<Rightarrow> regmap \<Rightarrow> string \<Rightarrow> int \<Rightarrow> int \<Rightarrow> ('b, write_reply http) act" where
  "write_back bus rm region off val =
     andthen (db_write bus region off val)
       (bnd (read1 bus region off) (\<lambda>rb.
          ret (Ok200 \<lparr> wr_readback = rb,
            wr_not_taken = (case reg_at rm region off of None \<Rightarrow> []
              | Some r \<Rightarrow> readback_diff r (val AND 0xFFFFFFFF) rb) \<rparr>)))"

text \<open>All three reasons are computed first; the first of them answers, the window policy with 403.\<close>

definition api_write :: "'b dash_bus \<Rightarrow> regmap \<Rightarrow> scenario \<Rightarrow> string \<Rightarrow> int \<Rightarrow> int \<Rightarrow> ('b, write_reply http) act" where
  "api_write bus rm sc region off val = handled
     (case dict_get (sc_regions sc) region of
        None \<Rightarrow> raise (key_error region)
      | Some (base, sz) \<Rightarrow>
        if off < 0 \<or> off + 4 > sz \<or> off mod 4 \<noteq> 0 then raise range_error
        else
          let win = window_policy_reason sc region off in
          bnd (write_gate_reason bus rm region off) (\<lambda>gate.
          bnd (region_hold_reason bus sc region) (\<lambda>hold.
            case win of Some r \<Rightarrow> ret (Refused 403 r)
            | None \<Rightarrow> (case gate of Some r \<Rightarrow> ret (Refused 409 r)
            | None \<Rightarrow> (case hold of Some r \<Rightarrow> ret (Refused 409 r)
            | None \<Rightarrow> write_back bus rm region off val)))))"

section \<open>The fill histogram\<close>

record hist_reply =
  hr_bins :: "int list"
  hr_quiescent :: bool

definition read_bin_pair :: "'b dash_bus \<Rightarrow> string \<Rightarrow> ('b, int list) act" where
  "read_bin_pair bus enc = bnd (read1 bus enc 0xE14) (\<lambda>w. ret [w AND 0xFFFF, drop_bit 16 w AND 0xFFFF])"

definition api_fifohist :: "'b dash_bus \<Rightarrow> scenario \<Rightarrow> string \<Rightarrow> ('b, hist_reply http) act" where
  "api_fifohist bus sc enc = handled
     (if enc \<notin> set ENC_REGIONS then raise (Exn ValueError ''region must be enc, enc1 or enc2'' [])
      else
        bnd (if db_demo bus then ret 1
             else case co sc ''trace_bufsz'' of None \<Rightarrow> raise (Exn TypeError ''trace_bufsz'' [])
                  | Some off \<Rightarrow> read1 bus ''ctrl'' off) (\<lambda>bufsz.
        if bufsz = 0 then raise (Exn ValueError ''bitstream without FIFO-histogram support'' [])
        else
          bnd (read1 bus enc 0) (\<lambda>te.
          andthen (db_write bus enc 0xE10 0x2)
          (bnd (map_act (\<lambda>_. read_bin_pair bus enc) [0..<HIST_BINS div 2]) (\<lambda>pairs.
            ret (Ok200 \<lparr> hr_bins = concat pairs, hr_quiescent = (te AND TE_ENABLE = 0) \<rparr>))))))"

section \<open>The trace window\<close>

record trace_reply =
  tr_nbytes :: int
  tr_cap :: int
  tr_data :: "byte list"

text \<open>\<open>tail\<close> is the newest bytes in order, otherwise the linear window of the buffer.\<close>

definition api_trace :: "'b trace_bus \<Rightarrow> scenario \<Rightarrow> nat option \<Rightarrow> int \<Rightarrow> int \<Rightarrow> ('b, trace_reply http) act" where
  "api_trace tb sc tail_n off0 n0 = handled
     (bnd (ctrl_reg tb sc ''trace_bytes'') (\<lambda>nbytes.
      bnd (ctrl_reg tb sc ''trace_bufsz'') (\<lambda>bufsz.
      let cap = (if bufsz = 0 then TRACE_BRAM else bufsz); held = min nbytes cap in
      case tail_n of
        Some t \<Rightarrow> bnd (trace_tail tb (nat (min (min (int t) 65536) held)) sc) (\<lambda>raw.
          ret (Ok200 \<lparr> tr_nbytes = nbytes, tr_cap = cap, tr_data = raw \<rparr>))
      | None \<Rightarrow>
          let off = off0 AND NOT 3; n = min (min n0 16384) (max 0 (held - off)) in
          bnd (if n = 0 then ret [] else read_count (tb_bus tb) ''trace'' off ((n + 3) div 4)) (\<lambda>ws.
            ret (Ok200 \<lparr> tr_nbytes = nbytes, tr_cap = cap, tr_data = slice (pack_words ws) 0 n \<rparr>)))))"

section \<open>The poll set\<close>

definition ENC_CORE :: "(string \<times> int) list" where
  "ENC_CORE = [(''trTeControl'', 0x000), (''trTeImpl'', 0x004), (''trTeInstFeatures'', 0x008),
     (''trTeInstFilters'', 0x00C), (''trTeDataControl'', 0x010), (''trTsControl'', 0x040), (''trTsLow'', 0x048),
     (''trTsHigh'', 0x04C), (''trTeCsrControl'', 0xE00), (''trTeTipFifoStatus'', 0xE04), (''trTeSyncStatus'', 0xE08),
     (''trAtbBridgeControl'', 0x1000), (''trAtbBridgeImpl'', 0x1004), (''trPcControl'', 0x3000),
     (''trWpControl'', 0x4000), (''trDfControl'', 0x5000)]"

definition ENC_EXTRA :: "(string \<times> int) list" where
  "ENC_EXTRA = [(''trTeControl'', 0x000), (''trTeInstFeatures'', 0x008), (''trTeInstFilters'', 0x00C),
     (''trTeTipFifoStatus'', 0xE04), (''trAtbBridgeControl'', 0x1000)]"

definition build_poll :: "scenario \<Rightarrow> (string \<times> string \<times> int) list" where
  "build_poll sc =
     map (\<lambda>(k, off). (k, ''ctrl'', off)) (sc_ctrl sc)
     @ (if dict_get (sc_regions sc) ''enc'' \<noteq> None then map (\<lambda>(nm, off). (nm, ''enc'', off)) ENC_CORE else [])
     @ concat (map (\<lambda>(rg, sfx). if dict_get (sc_regions sc) rg \<noteq> None
         then map (\<lambda>(nm, off). (nm @ sfx, rg, off)) ENC_EXTRA else []) [(''enc1'', ''1''), (''enc2'', ''2'')])"

text \<open>The polled registers of \<open>/api/state\<close>; a later entry of the same name replaces the value.\<close>

definition poll_values :: "'b dash_bus \<Rightarrow> scenario \<Rightarrow> ('b, (string, int) dict) act" where
  "poll_values bus sc =
     bnd (map_act (\<lambda>(k, rg, off). bnd (read1 bus rg off) (\<lambda>v. ret (k, v))) (build_poll sc))
       (\<lambda>kvs. ret (fold (\<lambda>(k, v) d. dict_set k v d) kvs []))"

section \<open>The gates only read\<close>

lemma demo_read_pure: "off \<noteq> 0xE14 \<or> region \<notin> set ENC_REGIONS \<Longrightarrow> snd (demo_read region off n s) = s"
  by (auto simp: demo_read_def region_mem_def bnd_def lift_exn_def split: option.splits)

lemma read1_pure: "off \<noteq> 0xE14 \<or> region \<notin> set ENC_REGIONS \<Longrightarrow> snd (read1 (demo_bus sc rm) region off s) = s"
  using demo_read_pure [of off region 1 s]
  by (cases "demo_read region off 1 s") (auto simp: read1_def bnd_def demo_bus_def split: sum.splits list.splits)

lemma gate_pure: "snd (write_gate_reason (demo_bus sc rm) rm region off s) = s"
  using read1_pure [of 0 region sc rm s]
  by (cases "read1 (demo_bus sc rm) region 0 s")
     (auto simp: write_gate_reason_def Let_def bnd_def split: option.splits sum.splits)

lemma hold_pure: "snd (region_hold_reason (demo_bus sc rm) sc region s) = s"
proof -
  have "snd (read1 (demo_bus sc rm) ''ctrl'' off s) = s" for off
    by (rule read1_pure) (simp add: ENC_REGIONS_def)
  then show ?thesis
    by (auto simp: region_hold_reason_def bnd_def split: option.splits prod.splits sum.splits) (metis snd_conv)+
qed

text \<open>What a write request can do: reply without an effect, or write the word and read it back.\<close>

lemma api_write_cases:
  fixes sc rm s region off val
  defines "w \<equiv> api_write (demo_bus sc rm) rm sc region off val s"
  shows "(snd w = s \<and> (\<exists>rep. fst w = Inr rep \<and> (\<forall>x. rep \<noteq> Ok200 x))) \<or>
    (window_policy_reason sc region off = None \<and> 0 \<le> off \<and> off mod 4 = 0 \<and>
     w = handled (write_back (demo_bus sc rm) rm region off val) s)"
proof (cases "dict_get (sc_regions sc) region")
  case None
  then show ?thesis by (simp add: w_def api_write_def handled_def handle_def)
next
  case (Some bs)
  obtain base sz where bs: "bs = (base, sz)" by (cases bs)
  show ?thesis
  proof (cases "off < 0 \<or> off + 4 > sz \<or> off mod 4 \<noteq> 0")
    case True
    with Some bs show ?thesis by (simp add: w_def api_write_def handled_def handle_def)
  next
    case range: False
    obtain g where g: "write_gate_reason (demo_bus sc rm) rm region off s = (g, s)"
      using gate_pure by (metis prod.collapse)
    obtain h where h: "region_hold_reason (demo_bus sc rm) sc region s = (h, s)"
      using hold_pure by (metis prod.collapse)
    show ?thesis
      using Some bs range g h
      by (cases g; cases h)
         (auto simp: w_def api_write_def handled_def handle_def bnd_def demo_bus_def Let_def split: option.splits)
  qed
qed

section \<open>The read-only window\<close>

definition ctrl_at :: "int \<Rightarrow> demo \<Rightarrow> (exn + int) option" where
  "ctrl_at W s = map_option (\<lambda>bs. get32 bs W) (dict_get (dm_mem s) ''ctrl'')"

definition keeps :: "int \<Rightarrow> (demo, 'a) act \<Rightarrow> bool" where
  "keeps W m \<longleftrightarrow> (\<forall>s. ctrl_at W (snd (m s)) = ctrl_at W s)"

named_theorems keep_rules \<open>actions that keep a word of CTRL\<close>

lemma kept_bnd [keep_rules]: "keeps W m \<Longrightarrow> (\<And>x. keeps W (f x)) \<Longrightarrow> keeps W (bnd m f)"
  by (auto simp: keeps_def bnd_def split: prod.splits sum.splits) (metis snd_conv)+

lemma kept_andthen [keep_rules]: "keeps W m \<Longrightarrow> keeps W n \<Longrightarrow> keeps W (andthen m n)"
  unfolding andthen_def by (intro kept_bnd)

lemma keeps_when [keep_rules]: "(b \<Longrightarrow> keeps W m) \<Longrightarrow> keeps W (act_when b m)"
  by (cases b) (auto simp: keeps_def)

lemma kept_basic [keep_rules]:
  "keeps W (ret x)" "keeps W (region_mem r)" "keeps W (lift_exn q)"
  "keeps W (modify (\<lambda>s. s\<lparr>dm_traced := a\<rparr>))" "keeps W (modify (\<lambda>s. s\<lparr>dm_con_n := b, dm_con_t0 := c\<rparr>))"
  "keeps W (modify (\<lambda>s. s\<lparr>dm_ddr_runs := d\<rparr>))" "keeps W (modify (\<lambda>s. s\<lparr>dm_hist_ptr := e\<rparr>))"
  "keeps W (modify (\<lambda>s. s\<lparr>dm_hist := f, dm_hist_ptr := e\<rparr>))"
  by (auto simp: keeps_def ctrl_at_def region_mem_def lift_exn_def split: option.splits)

text \<open>The window register is a word of its own.\<close>

definition window_at :: "scenario \<Rightarrow> string \<Rightarrow> int \<Rightarrow> bool" where
  "window_at sc key W \<longleftrightarrow> key \<in> set WINDOW_RO_KEYS \<and> co sc key = Some W \<and>
     (\<forall>(n, off)\<in>set (sc_ctrl sc). 0 \<le> off \<and> off mod 4 = 0 \<and> (off = W \<longrightarrow> n = key))"

lemma window_off:
  assumes "window_at sc key W"
  shows "0 \<le> W" "W mod 4 = 0" "co sc n = Some off \<Longrightarrow> 0 \<le> off \<and> off mod 4 = 0 \<and> (off = W \<longrightarrow> n = key)"
  using assms map_of_SomeD [of "sc_ctrl sc"] by (fastforce simp: window_at_def co_def dict_get_def)+

lemma keeps_mem_put [keep_rules]:
  assumes "0 \<le> W" "W mod 4 = 0" "region = ''ctrl'' \<Longrightarrow> 0 \<le> off \<and> off mod 4 = 0 \<and> off \<noteq> W"
  shows "keeps W (mem_put region off v)"
proof -
  have "get32 bs' W = get32 bs W" if "put32 bs off v = Inr bs'" "region = ''ctrl''" for bs bs'
  proof -
    have d: "0 \<le> off" "off mod 4 = 0" "off \<noteq> W" using assms(3) [OF that(2)] by auto
    then have "nat W + 4 \<le> nat off \<or> nat off + 4 \<le> nat W" using assms(1,2) by presburger
    then show ?thesis using get32_put32_other [of bs "nat off" v bs' "nat W"] that(1) d assms(1) by simp
  qed
  then show ?thesis
    by (auto simp: keeps_def ctrl_at_def mem_put_def region_mem_def mem_set_def bnd_def lift_exn_def dict_get_set
        split: option.splits sum.splits)
qed

lemma keeps_mem_get [keep_rules]: "keeps W (mem_get region off)"
  unfolding mem_get_def by (intro keep_rules)

lemma keeps_cp:
  assumes "window_at sc key W" "n \<noteq> key"
  shows "keeps W (cp sc n v)"
  using window_off [OF assms(1)] assms(2) unfolding cp_def
  by (auto split: option.split intro!: keep_rules)

lemma window_names:
  "key \<in> set WINDOW_RO_KEYS \<Longrightarrow> key \<notin> set [''status'', ''trace_beats'', ''trace_bytes'', ''con_bytes'', ''con_drops'',
     ''ddr_wptr'', ''sink_stat'', ''ddr_drops'', ''ddr_beats'', ''pib_drops'', ''control'', ''sink_ctrl'']"
  by (auto simp: WINDOW_RO_KEYS_def)

lemma keeps_demo_write:
  assumes "window_at sc key W" "region = ''ctrl'' \<Longrightarrow> 0 \<le> off \<and> off mod 4 = 0 \<and> off \<noteq> W"
  shows "keeps W (demo_write sc rm region off v)"
proof -
  have n: "key \<notin> set [''status'', ''trace_beats'', ''trace_bytes'', ''con_bytes'', ''con_drops'',
     ''ddr_wptr'', ''sink_stat'', ''ddr_drops'', ''ddr_beats'', ''pib_drops'', ''control'', ''sink_ctrl'']"
    using assms(1) window_names unfolding window_at_def by blast
  have cp: "keeps W (cp sc m v)" if "m \<in> set [''status'', ''trace_beats'', ''trace_bytes'', ''con_bytes'', ''con_drops'',
     ''ddr_wptr'', ''sink_stat'', ''ddr_drops'', ''ddr_beats'', ''pib_drops'']" for m v
    by (rule keeps_cp [OF assms(1)]) (use n that in auto)
  note W = window_off(1,2) [OF assms(1)]
  have control: "keeps W (write_control sc v)" for v
    unfolding write_control_def by (intro keep_rules cp) simp_all
  have sink: "keeps W (write_sink sc v)" for v
    unfolding write_sink_def by (intro keep_rules cp) simp_all
  have hist: "keeps W (write_hist v)" for v
    unfolding write_hist_def by (intro keep_rules)
  have mirror: "keeps W (mirror_status sc)"
    using window_off(3) [OF assms(1), of "''status''"] n unfolding mirror_status_def
    by (auto split: option.split intro!: keep_rules W)
  have gate: "keeps W (apply_gate rm region off v)" "keeps W (apply_w1c rm region off v)" for v
    unfolding apply_gate_def apply_w1c_def Let_def by (auto intro!: keep_rules)
  have sel: "keeps W (if b then write_sink sc v else ret v)" for b v by (cases b) (auto intro: sink keep_rules)
  show ?thesis
    unfolding demo_write_def by (intro keep_rules control hist mirror gate sel W assms(2))
qed

lemma keeps_read1: "keeps W (read1 (demo_bus sc rm) region off)"
  by (auto simp: keeps_def ctrl_at_def read1_def demo_bus_def demo_read_def region_mem_def bnd_def lift_exn_def Let_def
      split: option.splits sum.splits list.splits)

lemma keeps_handled: "keeps W m \<Longrightarrow> keeps W (handled m)"
  by (auto simp: keeps_def handled_def handle_def split: prod.splits sum.splits) (metis snd_conv)+

text \<open>The policy names both window registers.\<close>

lemma window_policy_hits:
  assumes "key \<in> set WINDOW_RO_KEYS" "co sc key = Some W"
  shows "window_policy_reason sc ''ctrl'' W \<noteq> None"
  using assms by (auto simp: window_policy_reason_def WINDOW_RO_KEYS_def)

text \<open>A sequence of write requests, each answered.\<close>

definition serve_writes :: "'b dash_bus \<Rightarrow> regmap \<Rightarrow> scenario \<Rightarrow> (string \<times> int \<times> int) list \<Rightarrow> ('b, write_reply http list) act" where
  "serve_writes bus rm sc reqs = map_act (\<lambda>(region, off, val). api_write bus rm sc region off val) reqs"

lemma keeps_write_back:
  assumes "window_at sc key W" "region = ''ctrl'' \<Longrightarrow> 0 \<le> off \<and> off mod 4 = 0 \<and> off \<noteq> W"
  shows "keeps W (handled (write_back (demo_bus sc rm) rm region off val))"
proof -
  have "keeps W (demo_write sc rm region off val)" using assms by (rule keeps_demo_write)
  then show ?thesis
    unfolding write_back_def by (intro keeps_handled keep_rules keeps_read1) (simp add: demo_bus_def)
qed

lemma keeps_api_write:
  assumes "window_at sc key W"
  shows "keeps W (api_write (demo_bus sc rm) rm sc region off val)"
  unfolding keeps_def
proof
  fix s
  have key: "key \<in> set WINDOW_RO_KEYS" "co sc key = Some W" using assms by (auto simp: window_at_def)
  show "ctrl_at W (snd (api_write (demo_bus sc rm) rm sc region off val s)) = ctrl_at W s"
    using api_write_cases [of sc rm region off val s]
  proof (elim disjE conjE)
    assume w: "window_policy_reason sc region off = None" "0 \<le> off" "off mod 4 = 0"
      "api_write (demo_bus sc rm) rm sc region off val s = handled (write_back (demo_bus sc rm) rm region off val) s"
    then have "region = ''ctrl'' \<Longrightarrow> 0 \<le> off \<and> off mod 4 = 0 \<and> off \<noteq> W"
      using window_policy_hits [OF key] by auto
    from keeps_write_back [OF assms this] show ?thesis unfolding w(4) keeps_def by blast
  qed simp
qed

lemma keeps_map_act: "(\<And>x. keeps W (f x)) \<Longrightarrow> keeps W (map_act f xs)"
proof (induction xs)
  case (Cons x xs)
  then show ?case unfolding map_act.simps by (intro keep_rules) auto
qed (simp add: keeps_def)

section \<open>The histogram on the simulation\<close>

definition hist_ok :: "demo \<Rightarrow> bool" where
  "hist_ok s \<longleftrightarrow> length (dm_hist s) = HIST_BINS \<and> (\<forall>b\<in>set (dm_hist s). 0 \<le> b \<and> b < 65536)"

lemma bin_pair_split:
  fixes a b :: int
  assumes "0 \<le> a" "a < 65536" "0 \<le> b" "b < 65536"
  shows "(a OR push_bit 16 b) AND 0xFFFF = a" "drop_bit 16 (a OR push_bit 16 b) AND 0xFFFF = b"
proof -
  have t: "take_bit 16 a = a" "take_bit 16 b = b" using assms by (simp_all add: take_bit_int_eq_self_iff)
  have d: "drop_bit 16 a = 0" using assms by (simp add: drop_bit_eq_div)
  have p: "take_bit 16 (push_bit 16 b) = 0" by (simp add: take_bit_push_bit)
  have q: "drop_bit 16 (push_bit 16 b) = b" by (simp add: drop_bit_push_bit)
  have e: "x AND 0xFFFF = take_bit 16 x" for x :: int by (simp add: take_bit_eq_mask mask_eq_exp_minus_1)
  show "(a OR push_bit 16 b) AND 0xFFFF = a" unfolding e take_bit_or t p by simp
  show "drop_bit 16 (a OR push_bit 16 b) AND 0xFFFF = b" unfolding e drop_bit_or d q by (simp add: t)
qed

lemma map_act_snoc: "map_act f (xs @ [x]) s = bnd (map_act f xs) (\<lambda>ys. bnd (f x) (\<lambda>y. ret (ys @ [y]))) s"
  by (induction xs arbitrary: s) (auto simp: bnd_def split: prod.splits sum.splits)

text \<open>Eight reads from the pointer \<open>p\<close> give the bins from there on.\<close>

lemma read_bins:
  assumes "hist_ok s" "enc \<in> set ENC_REGIONS" "dm_hist_ptr s = 0" "k \<le> 8"
  shows "\<exists>t. map_act (\<lambda>_. read_bin_pair (demo_bus sc rm) enc) [0..<k] s
     = (Inr (map (\<lambda>p. [dm_hist s ! (2 * p), dm_hist s ! (2 * p + 1)]) [0..<k]), t) \<and>
     dm_hist t = dm_hist s \<and> dm_mem t = dm_mem s \<and> dm_hist_ptr t = k mod 8"
  using assms(4)
proof (induction k)
  case (Suc k)
  obtain t where t: "map_act (\<lambda>_. read_bin_pair (demo_bus sc rm) enc) [0..<k] s
     = (Inr (map (\<lambda>p. [dm_hist s ! (2 * p), dm_hist s ! (2 * p + 1)]) [0..<k]), t)"
     "dm_hist t = dm_hist s" "dm_mem t = dm_mem s" "dm_hist_ptr t = k mod 8"
    using Suc by auto
  have k: "k mod 8 = k" "2 * k < length (dm_hist s)" "2 * k + 1 < length (dm_hist s)"
    using Suc.prems assms(1) by (auto simp: hist_ok_def HIST_BINS_def)
  let ?a = "dm_hist s ! (2 * k)" and ?b = "dm_hist s ! (2 * k + 1)"
  have r: "0 \<le> ?a" "?a < 65536" "0 \<le> ?b" "?b < 65536"
    using assms(1) k(2,3) nth_mem unfolding hist_ok_def by blast+
  have "read_bin_pair (demo_bus sc rm) enc t = (Inr [?a, ?b], t\<lparr>dm_hist_ptr := (k + 1) mod 8\<rparr>)"
    using assms(2) t(2,4) k(1) bin_pair_split [OF r]
    by (simp add: read_bin_pair_def read1_def bnd_def demo_bus_def demo_read_def Let_def HIST_BINS_def)
  with t show ?case by (simp add: map_act_snoc bnd_def)
qed (use assms in simp)

lemma concat_pairs: "length xs = 2 * n \<Longrightarrow> concat (map (\<lambda>p. [xs ! (2 * p), xs ! (2 * p + 1)]) [0..<n]) = xs"
proof (induction n arbitrary: xs)
  case (Suc n)
  define ys where "ys = take (2 * n) xs"
  have x: "xs = ys @ [xs ! (2 * n), xs ! (2 * n + 1)]" "length ys = 2 * n"
    using Suc.prems by (auto simp: ys_def nth_append less_Suc_eq min_def intro!: nth_equalityI)
  have "xs ! i = ys ! i" if "i < 2 * n" for i using that by (simp add: ys_def)
  then have m: "map (\<lambda>p. [xs ! (2 * p), xs ! (2 * p + 1)]) [0..<n] = map (\<lambda>p. [ys ! (2 * p), ys ! (2 * p + 1)]) [0..<n]"
    by simp
  have "concat (map (\<lambda>p. [xs ! (2 * p), xs ! (2 * p + 1)]) [0..<n]) = ys" unfolding m by (rule Suc.IH [OF x(2)])
  then show ?case using x(1) by simp
qed simp

lemma rewind_ok:
  assumes "enc \<in> set ENC_REGIONS" "dict_get (dm_mem s) enc = Some bs" "get32 bs 0xE10 = Inr v" "get32 bs 0 = Inr te"
  shows "\<exists>t. demo_write sc rm enc 0xE10 2 s = (Inr (), t) \<and> dm_hist t = dm_hist s \<and> dm_hist_ptr t = 0"
proof -
  have ne: "enc \<noteq> ''ctrl''" using assms(1) by (auto simp: ENC_REGIONS_def)
  let ?s = "s\<lparr>dm_hist_ptr := 0\<rparr>"
  have h: "write_hist 2 s = (Inr (), ?s)" by (simp add: write_hist_def andthen_def bnd_def)
  have m: "dict_get (dm_mem ?s) enc = Some bs" using assms(2) by simp
  have g: "\<exists>x. apply_gate rm enc 0xE10 2 ?s = (Inr x, ?s)"
    using mem_get_ok [OF m assms(4)] mem_get_ok [OF m assms(3)] by (auto simp: apply_gate_def Let_def bnd_def)
  then obtain x where x: "apply_gate rm enc 0xE10 2 ?s = (Inr x, ?s)" by blast
  obtain y where y: "apply_w1c rm enc 0xE10 x ?s = (Inr y, ?s)"
    using mem_get_ok [OF m assms(3)] by (cases "w1c_mask rm enc 0xE10 = 0") (auto simp: apply_w1c_def Let_def bnd_def)
  obtain bs' where "put32 bs 0xE10 (y AND 0xFFFFFFFF) = Inr bs'"
    using get32_put_exists [OF assms(3), of "y AND 0xFFFFFFFF"] by (auto simp flip: u32_def)
  then have p: "mem_put enc 0xE10 (y AND 0xFFFFFFFF) ?s = (Inr (), ?s\<lparr>dm_mem := dict_set enc bs' (dm_mem ?s)\<rparr>)"
    by (rule mem_put_ok [OF m])
  show ?thesis
    using ne assms(1) h x y p by (simp add: demo_write_def andthen_def bnd_def)
qed

lemma handled_ok: "\<exists>rep. fst (handled m s) = Inr rep"
  by (cases "m s"; cases "fst (m s)") (auto simp: handled_def handle_def)

lemma write_back_reply:
  assumes "handled (write_back (demo_bus sc rm) rm region off val) s = (Inr rep, t)"
    and "off \<noteq> 0xE14 \<or> region \<notin> set ENC_REGIONS"
  shows "(\<exists>e. rep = Bad_Request e) \<or>
    (\<exists>w. mem_get region off t = (Inr w, t) \<and> rep = Ok200 \<lparr> wr_readback = w, wr_not_taken =
       (case reg_at rm region off of None \<Rightarrow> [] | Some r \<Rightarrow> readback_diff r (val AND 0xFFFFFFFF) w) \<rparr>)"
proof (cases "demo_write sc rm region off val s")
  case (Pair q u)
  show ?thesis
  proof (cases q)
    case (Inl e)
    with Pair assms(1) show ?thesis
      by (auto simp: handled_def handle_def write_back_def andthen_def bnd_def demo_bus_def)
  next
    case (Inr x)
    have pure: "snd (read1 (demo_bus sc rm) region off u) = u" by (rule read1_pure [OF assms(2)])
    show ?thesis
    proof (cases "fst (read1 (demo_bus sc rm) region off u)")
      case (Inl e)
      with Pair Inr pure assms(1) show ?thesis
        by (cases "read1 (demo_bus sc rm) region off u")
           (auto simp: handled_def handle_def write_back_def andthen_def bnd_def demo_bus_def)
    next
      case w: (Inr w)
      then have r: "read1 (demo_bus sc rm) region off u = (Inr w, u)" using pure by (metis prod.collapse)
      then have t: "t = u" "rep = Ok200 \<lparr> wr_readback = w, wr_not_taken =
         (case reg_at rm region off of None \<Rightarrow> [] | Some r \<Rightarrow> readback_diff r (val AND 0xFFFFFFFF) w) \<rparr>"
        using Pair Inr assms(1) by (auto simp: handled_def handle_def write_back_def andthen_def bnd_def demo_bus_def)
      have "mem_get region off u = (Inr w, u)"
        using r assms(2) get32s_1
        by (auto simp: read1_def demo_bus_def demo_read_def mem_get_def region_mem_def bnd_def lift_exn_def Let_def
            split: option.splits sum.splits list.splits prod.splits)
      with t show ?thesis by blast
    qed
  qed
qed

lemma readback_diff_nil:
  "readback_diff r want got = [] \<longleftrightarrow>
     (\<forall>f\<in>set (rd_fields r). field_checked f \<longrightarrow>
        (\<forall>i<32. bit (field_bits f) i \<longrightarrow> (bit want i \<longleftrightarrow> bit got i)))"
  unfolding readback_diff_mask and_zero_iff bit_readback_mask bit_xor_iff by blast

section \<open>Properties\<close>

text \<open>C12: The trace window cannot be moved through the write endpoint: whatever sequence of write requests is
  served on the simulation, the registers of the base and the size of the DDR window keep their words, and
  every request at one of them is answered 400 or 403.\<close>

theorem window_cannot_be_moved:
  assumes "window_at sc key W" "serve_writes (demo_bus sc rm) rm sc reqs s = (r, t)"
  shows "ctrl_at W t = ctrl_at W s \<and>
    (\<forall>val u. \<exists>rep. fst (api_write (demo_bus sc rm) rm sc ''ctrl'' W val u) = Inr rep \<and>
       ((\<exists>e. rep = Bad_Request e) \<or> (\<exists>q. rep = Refused 403 q)))"
proof -
  have "keeps W (serve_writes (demo_bus sc rm) rm sc reqs)"
    unfolding serve_writes_def by (rule keeps_map_act) (auto intro: keeps_api_write [OF assms(1)])
  then have "ctrl_at W t = ctrl_at W s" using assms(2) unfolding keeps_def by (metis snd_conv)
  moreover have "\<exists>rep. fst (api_write (demo_bus sc rm) rm sc ''ctrl'' W val u) = Inr rep \<and>
       ((\<exists>e. rep = Bad_Request e) \<or> (\<exists>q. rep = Refused 403 q))" for val u
  proof -
    have "window_policy_reason sc ''ctrl'' W \<noteq> None"
      using window_policy_hits assms(1) by (auto simp: window_at_def)
    then show ?thesis
      by (auto simp: api_write_def handled_def handle_def bnd_def Let_def split: option.splits prod.splits sum.splits)
  qed
  ultimately show ?thesis by blast
qed

text \<open>The reply of a write tells what happened: a refusal (403 or 409) has written nothing; a reply 200 carries
  the word the register now holds, and it says ok exactly when every field that must carry the written value
  (writable, no pulse, no write-1-to-clear, not written by hardware) does.\<close>

lemma write_reply_exact:
  assumes "api_write (demo_bus sc rm) rm sc region off val s = (Inr rep, t)"
    and "off \<noteq> 0xE14 \<or> region \<notin> set ENC_REGIONS" "reg_at rm region off = Some r"
  shows "case rep of
      Refused code q \<Rightarrow> t = s \<and> (code = 403 \<or> code = 409)
    | Bad_Request e \<Rightarrow> True
    | Ok200 a \<Rightarrow> mem_get region off t = (Inr (wr_readback a), t) \<and>
        (wr_ok a \<longleftrightarrow> (\<forall>f\<in>set (rd_fields r). field_checked f \<longrightarrow>
           (\<forall>i<32. bit (field_bits f) i \<longrightarrow> (bit (val AND 0xFFFFFFFF) i \<longleftrightarrow> bit (wr_readback a) i))))"
proof -
  have code: "code = 403 \<or> code = 409" if "rep = Refused code q" for code q
    using assms(1) that
    by (auto simp: api_write_def write_back_def handled_def handle_def bnd_def andthen_def Let_def
        split: option.splits prod.splits sum.splits if_splits)
  from api_write_cases [of sc rm region off val s] show ?thesis
  proof (elim disjE conjE)
    assume "snd (api_write (demo_bus sc rm) rm sc region off val s) = s"
      "\<exists>rep. fst (api_write (demo_bus sc rm) rm sc region off val s) = Inr rep \<and> (\<forall>x. rep \<noteq> Ok200 x)"
    then have "t = s" "\<forall>x. rep \<noteq> Ok200 x" using assms(1) by auto
    with code show ?thesis by (cases rep) auto
  next
    assume "api_write (demo_bus sc rm) rm sc region off val s = handled (write_back (demo_bus sc rm) rm region off val) s"
    with assms(1) have "handled (write_back (demo_bus sc rm) rm region off val) s = (Inr rep, t)" by simp
    from write_back_reply [OF this assms(2)] show ?thesis
      using assms(3) by (auto simp: wr_ok_def readback_diff_nil)
  qed
qed

text \<open>The histogram endpoint returns the whole histogram: whatever the read pointer, the reply holds all 16
  bins in order, and the pointer is back at the first bin.\<close>

theorem histogram_exact:
  assumes "enc \<in> set ENC_REGIONS" "hist_ok s" "dict_get (dm_mem s) enc = Some bs" "0xE14 \<le> length bs"
  shows "\<exists>q t. api_fifohist (demo_bus sc rm) sc enc s = (Inr (Ok200 \<lparr> hr_bins = dm_hist s, hr_quiescent = q \<rparr>), t) \<and>
    dm_hist t = dm_hist s \<and> dm_hist_ptr t = 0"
proof -
  have w: "\<exists>w. get32 bs (int k) = Inr w" if "k + 4 \<le> length bs" for k
    using that by (simp add: get32_def buf_pos_nonneg)
  obtain te where te: "get32 bs 0 = Inr te" using w [of 0] assms(4) by auto
  obtain v where v: "get32 bs 0xE10 = Inr v" using w [of "0xE10"] assms(4) by auto
  have r: "read1 (demo_bus sc rm) enc 0 s = (Inr te, s)"
    using assms(3) te get32s_1 [of bs 0]
    by (simp add: read1_def demo_bus_def demo_read_def region_mem_ok bnd_def lift_exn_def)
  obtain t where t: "demo_write sc rm enc 0xE10 2 s = (Inr (), t)" "dm_hist t = dm_hist s" "dm_hist_ptr t = 0"
    using rewind_ok [OF assms(1,3) v te] by blast
  obtain u where u: "map_act (\<lambda>_. read_bin_pair (demo_bus sc rm) enc) [0..<8] t
     = (Inr (map (\<lambda>p. [dm_hist s ! (2 * p), dm_hist s ! (2 * p + 1)]) [0..<8]), u)"
     "dm_hist u = dm_hist s" "dm_hist_ptr u = 0"
    using read_bins [where s = t and enc = enc and k = 8 and sc = sc and rm = rm] assms(1,2) t by (auto simp: hist_ok_def)
  have "concat (map (\<lambda>p. [dm_hist s ! (2 * p), dm_hist s ! (2 * p + 1)]) [0..<8]) = dm_hist s"
    using assms(2) by (intro concat_pairs) (simp add: hist_ok_def HIST_BINS_def)
  then show ?thesis
    using assms(1) r t(1) u
    by (simp add: api_fifohist_def handled_def handle_def bnd_def andthen_def demo_bus_def HIST_BINS_def del: upt_Suc upt_rec_numeral)
qed

definition window_sc :: scenario where
  "window_sc = mini_sc\<lparr> sc_ctrl := [(''control'', 0), (''status'', 4), (''ddr_base'', 16), (''ddr_size'', 20)] \<rparr>"

lemma window_sc_at: "window_at window_sc ''ddr_base'' 16"
  by code_simp

lemma window_cannot_be_moved_witness:
  "\<exists>r t. serve_writes (demo_bus window_sc mini_rm) mini_rm window_sc [(''ctrl'', 16, 0x80000000), (''ctrl'', 0, 0x101)] (mini_demo 0 0)
      = (r, t) \<and> ctrl_at 16 t = ctrl_at 16 (mini_demo 0 0)"
proof -
  obtain r t where s: "serve_writes (demo_bus window_sc mini_rm) mini_rm window_sc
      [(''ctrl'', 16, 0x80000000), (''ctrl'', 0, 0x101)] (mini_demo 0 0) = (r, t)" by fastforce
  from window_cannot_be_moved [OF window_sc_at this] s show ?thesis by blast
qed

text \<open>A register of the encoder, and a write to it that takes effect.\<close>

definition enc_sc :: scenario where
  "enc_sc = mini_sc\<lparr> sc_regions := [(''ctrl'', (0xA0000000, 64)), (''enc'', (0xA0010000, 8))] \<rparr>"

definition LOCKED_REG :: reg_desc where
  "LOCKED_REG = hd mini_rm"

lemma enc_write_runs:
  "case fst (api_write (demo_bus enc_sc mini_rm) mini_rm enc_sc ''enc'' 4 0x5 (mini_demo 0 0x1005)) of
     Inr (Ok200 a) \<Rightarrow> wr_readback a = 0x1005 \<and> wr_ok a | _ \<Rightarrow> False"
  by code_simp

lemma write_reply_exact_witness:
  "\<exists>a t. api_write (demo_bus enc_sc mini_rm) mini_rm enc_sc ''enc'' 4 0x5 (mini_demo 0 0x1005) = (Inr (Ok200 a), t) \<and>
     mem_get ''enc'' 4 t = (Inr (wr_readback a), t) \<and> wr_ok a"
proof -
  obtain a t where w: "api_write (demo_bus enc_sc mini_rm) mini_rm enc_sc ''enc'' 4 0x5 (mini_demo 0 0x1005) = (Inr (Ok200 a), t)"
    "wr_ok a"
    using enc_write_runs
    by (cases "api_write (demo_bus enc_sc mini_rm) mini_rm enc_sc ''enc'' 4 0x5 (mini_demo 0 0x1005)")
       (auto split: sum.splits http.splits)
  have "reg_at mini_rm ''enc'' 4 = Some LOCKED_REG" by code_simp
  from write_reply_exact [OF w(1) _ this] w show ?thesis by auto
qed

definition hist_demo :: demo where
  "hist_demo = (mini_demo 0 0)\<lparr> dm_mem := [(''enc'', replicate 0xE14 0)], dm_hist := map (\<lambda>i. 100 * int i) [0..<16],
     dm_hist_ptr := 5 \<rparr>"

lemma histogram_exact_witness:
  "\<exists>q t. api_fifohist (demo_bus mini_sc mini_rm) mini_sc ''enc'' hist_demo
      = (Inr (Ok200 \<lparr> hr_bins = map (\<lambda>i. 100 * int i) [0..<16], hr_quiescent = q \<rparr>), t) \<and> dm_hist_ptr t = 0"
proof -
  have h: "hist_ok hist_demo" "dict_get (dm_mem hist_demo) ''enc'' = Some (replicate 0xE14 0)"
    "dm_hist hist_demo = map (\<lambda>i. 100 * int i) [0..<16]"
    by (auto simp: hist_ok_def hist_demo_def HIST_BINS_def dict_get_def)
  have "''enc'' \<in> set ENC_REGIONS" "0xE14 \<le> length (replicate 0xE14 (0 :: byte))" by (simp_all add: ENC_REGIONS_def)
  from histogram_exact [OF this(1) h(1,2) this(2), of mini_sc mini_rm] show ?thesis unfolding h(3) by blast
qed

end
