(* ===== verification/Scenario_Switch.thy ===== *)
theory Scenario_Switch
  imports Ctl_Actions App_Load Wp_View
begin

unbundle bit_operations_syntax

text \<open>
  Switching the scenario of a running dashboard server: the pair of buses (\<open>Buses\<close>), the symbol files of
  a scenario, the scenario switch itself (\<open>_select_scenario\<close>), and what a run of such
  switches keeps. A bus object is known by its kind and by the scenario whose
  regions it maps.
\<close>

section \<open>The buses\<close>

record bus_obj =
  bo_demo :: bool
  bo_sc :: scenario

datatype live_error =
    LE_Other_App string "string option" string "string list"
  | LE_Not_Programmed "string option" "string option"
  | LE_Exn exn

record buses =
  bs_force_demo :: bool
  bs_demo :: bus_obj
  bs_hw :: "bus_obj option"
  bs_error :: "live_error option"
  bs_current :: bus_obj

definition demo_obj :: "scenario \<Rightarrow> bus_obj" where
  "demo_obj sc = \<lparr> bo_demo = True, bo_sc = sc \<rparr>"

definition hw_obj :: "scenario \<Rightarrow> bus_obj" where
  "hw_obj sc = \<lparr> bo_demo = False, bo_sc = sc \<rparr>"

text \<open>What the attempt meets: the state of the board, and the exception of opening the aperture, if any.\<close>

record hw_env =
  he_board :: board
  he_open :: "scenario \<Rightarrow> exn option"

definition open_caught :: "exn_kind list" where
  "open_caught = [OSError, ValueError, AttributeError]"

fun exn_kind_of :: "exn \<Rightarrow> exn_kind" where
  "exn_kind_of (Exn k m a) = k"

definition app_of :: "board \<Rightarrow> string" where
  "app_of st = opt_or (bd_active st) []"

text \<open>\<open>_try_hw\<close>: under the guard only with an app of the wanted scenario loaded.\<close>

definition try_hw :: "bool \<Rightarrow> catalog \<Rightarrow> scenario \<Rightarrow> hw_env \<Rightarrow> scenario option \<Rightarrow> (buses, unit) act" where
  "try_hw guard cat cur env arg = bnd get_state (\<lambda>b.
     if bs_hw b \<noteq> None then ret ()
     else
       let want = opt_or arg cur; st = he_board env in
       if guard \<and> bd_safe st \<and> bd_active st \<notin> Some ` set (sc_apps want) then
         modify (\<lambda>b. b\<lparr>bs_error := Some (LE_Other_App (app_of st) (map_option sc_id (by_app cat (bd_active st)))
                         (sc_id want) (sc_apps want))\<rparr>)
       else if guard \<and> \<not> bd_safe st then
         modify (\<lambda>b. b\<lparr>bs_error := Some (LE_Not_Programmed (bd_fpga st) (bd_active st))\<rparr>)
       else case he_open env want of
           None \<Rightarrow> modify (\<lambda>b. b\<lparr>bs_hw := Some (hw_obj want), bs_error := None\<rparr>)
         | Some e \<Rightarrow> if exn_kind_of e \<in> set open_caught
             then modify (\<lambda>b. b\<lparr>bs_error := Some (LE_Exn e)\<rparr>) else raise e)"

definition mode_of :: "buses \<Rightarrow> string" where
  "mode_of b = (if bo_demo (bs_current b) then ''demo'' else ''live'')"

definition hw_or_demo :: "buses \<Rightarrow> bus_obj" where
  "hw_or_demo b = opt_or (bs_hw b) (bs_demo b)"

definition init_buses :: "bool \<Rightarrow> bool \<Rightarrow> catalog \<Rightarrow> scenario \<Rightarrow> hw_env \<Rightarrow> exn + buses" where
  "init_buses force guard cat cur env =
     (let b0 = \<lparr> bs_force_demo = force, bs_demo = demo_obj cur, bs_hw = None, bs_error = None,
                 bs_current = demo_obj cur \<rparr> in
      case (if force then ret () else try_hw guard cat cur env None) b0 of
        (Inl e, _) \<Rightarrow> Inl e
      | (Inr _, b) \<Rightarrow> Inr (b\<lparr>bs_current := hw_or_demo b\<rparr>))"

definition set_mode :: "bool \<Rightarrow> catalog \<Rightarrow> scenario \<Rightarrow> hw_env \<Rightarrow> string \<Rightarrow> (buses, string) act" where
  "set_mode guard cat cur env mode =
     andthen
       (if mode = ''demo'' then modify (\<lambda>b. b\<lparr>bs_current := bs_demo b\<rparr>)
        else if mode = ''live'' then
          andthen (try_hw guard cat cur env None)
          (bnd get_state (\<lambda>b. case bs_hw b of
             None \<Rightarrow> raise (Exn ValueError ''live mode unavailable'' [])
           | Some h \<Rightarrow> modify (\<lambda>b. b\<lparr>bs_current := h\<rparr>)))
        else raise (Exn ValueError ''mode must be'' []))
       (bnd get_state (\<lambda>b. ret (mode_of b)))"

text \<open>The old mapping is closed, both buses are made anew; a live server stays live where it can.\<close>

definition rebind :: "bool \<Rightarrow> catalog \<Rightarrow> scenario \<Rightarrow> hw_env \<Rightarrow> scenario \<Rightarrow> (buses, string) act" where
  "rebind guard cat cur env sc = bnd get_state (\<lambda>b0.
     let was_live = (bs_hw b0 = Some (bs_current b0)) in
     andthen (modify (\<lambda>b. b\<lparr>bs_hw := None, bs_demo := demo_obj sc\<rparr>))
     (andthen (if bs_force_demo b0 then ret () else try_hw guard cat cur env (Some sc))
     (andthen (modify (\<lambda>b. b\<lparr>bs_current :=
         (case bs_hw b of Some h \<Rightarrow> if was_live then h else hw_or_demo b | None \<Rightarrow> hw_or_demo b)\<rparr>))
     (bnd get_state (\<lambda>b. ret (mode_of b))))))"

section \<open>The symbol files of a scenario\<close>

text \<open>The first candidate that is a file: the command line's, the uploaded one, the scenario's.\<close>

definition symbol_candidates :: "string \<Rightarrow> string \<Rightarrow> string option \<Rightarrow> string \<Rightarrow> string option \<Rightarrow> string list" where
  "symbol_candidates here kind cli sid named =
     (case cli of Some p \<Rightarrow> if p = [] then [] else [p] | None \<Rightarrow> [])
     @ [here @ ''/'' @ kind @ ''_'' @ sid @ ''.map'']
     @ (case named of Some p \<Rightarrow> if p = [] then [] else [here @ ''/'' @ p] | None \<Rightarrow> [])"

fun first_file :: "(string \<Rightarrow> string option) \<Rightarrow> string list \<Rightarrow> (string \<times> string) option" where
  "first_file files [] = None"
| "first_file files (c # cs) = (case files c of Some text \<Rightarrow> Some (c, text) | None \<Rightarrow> first_file files cs)"

definition load_symbol_files ::
    "(string \<Rightarrow> string option) \<Rightarrow> string \<Rightarrow> scenario \<Rightarrow> string option \<Rightarrow> string option \<Rightarrow> string option \<Rightarrow> string option \<Rightarrow>
     insight_state \<Rightarrow> insight_state" where
  "load_symbol_files files here sc cli_symbols cli_sites named_symbols named_sites s =
     (let s1 = (case first_file files (symbol_candidates here ''symbols'' cli_symbols (sc_id sc) named_symbols) of
                  Some (p, text) \<Rightarrow> set_symbols_text text (Some (path_name p)) s
                | None \<Rightarrow> set_symbols_text [] None s) in
      case first_file files (symbol_candidates here ''sites'' cli_sites (sc_id sc) named_sites) of
        Some (p, text) \<Rightarrow> set_sites_text text (Some (path_name p)) s1
      | None \<Rightarrow> s1\<lparr>is_sites := empty_sites\<rparr>)"

section \<open>Selecting a scenario\<close>

text \<open>The server: the catalogue, the selected scenario, the recordings, the buses, the sink report, and the
  device behind the bus.\<close>

datatype sink_arm = Armed arm_report | Not_Armed "(string, bool) dict"

record 'b server =
  sv_cat :: catalog
  sv_sc :: scenario
  sv_insight :: insight_state
  sv_console :: con_reader
  sv_wp :: wp_state
  sv_buses :: buses
  sv_arm :: "sink_arm option"
  sv_dev :: 'b

record 'b select_env =
  se_guard :: bool
  se_arm_on_select :: bool
  se_hw :: hw_env
  se_hw2 :: hw_env
  se_files :: "string \<Rightarrow> string option"
  se_here :: string
  se_named :: "scenario \<Rightarrow> string option \<times> string option"
  se_wp_files :: file_lookup
  se_wp_cfg :: "scenario \<Rightarrow> wp_cfg option"
  se_load :: "scenario \<Rightarrow> ('b, load_result) act"
  se_arm :: "scenario \<Rightarrow> ('b, arm_report) act"
  se_preload :: "scenario \<Rightarrow> (string, string) dict"

record select_reply =
  sr_active :: string
  sr_mode :: string
  sr_symbols :: nat
  sr_load :: "load_result option"
  sr_loaded :: bool
  sr_sinks :: "sink_arm option"
  sr_preload_pending :: "string list option"

definition on_cat :: "(catalog, 'a) act \<Rightarrow> ('b server, 'a) act" where
  "on_cat m s = (case m (sv_cat s) of (r, c) \<Rightarrow> (r, s\<lparr>sv_cat := c\<rparr>))"

definition on_buses :: "(buses, 'a) act \<Rightarrow> ('b server, 'a) act" where
  "on_buses m s = (case m (sv_buses s) of (r, b) \<Rightarrow> (r, s\<lparr>sv_buses := b\<rparr>))"

definition on_dev :: "('b, 'a) act \<Rightarrow> ('b server, 'a) act" where
  "on_dev m s = (case m (sv_dev s) of (r, d) \<Rightarrow> (r, s\<lparr>sv_dev := d\<rparr>))"

text \<open>What belonged to the old scenario is dropped.\<close>

definition fresh_recordings :: "'b select_env \<Rightarrow> scenario \<Rightarrow> 'b server \<Rightarrow> 'b server" where
  "fresh_recordings env sc s =
     s\<lparr>sv_sc := sc,
       sv_insight := load_symbol_files (se_files env) (se_here env) sc None None
          (fst (se_named env sc)) (snd (se_named env sc)) (insight_reset (sv_insight s)),
       sv_console := con_reader0, sv_wp := wp_reset (se_wp_files env) (se_wp_cfg env sc)\<rparr>"

definition arm_after_select :: "'b select_env \<Rightarrow> scenario \<Rightarrow> ('b server, sink_arm) act" where
  "arm_after_select env sc =
     (if se_arm_on_select env then bnd (on_dev (se_arm env sc)) (\<lambda>r. ret (Armed r))
      else ret (Not_Armed (opt_or (sd_sink_defaults (sc_raw sc)) [])))"

text \<open>The load asked for, after which both buses are set up afresh.\<close>

definition select_load :: "'b select_env \<Rightarrow> scenario \<Rightarrow> catalog \<Rightarrow> bool \<Rightarrow> ('b server, load_result option) act" where
  "select_load env sc cat load =
     (if load then
        bnd (on_dev (se_load env sc)) (\<lambda>r.
        andthen (bnd (on_buses (rebind (se_guard env) cat sc (se_hw2 env) sc)) (\<lambda>_. ret ())) (ret (Some r)))
      else ret None)"

definition select_scenario :: "'b select_env \<Rightarrow> string \<Rightarrow> bool \<Rightarrow> ('b server, select_reply) act" where
  "select_scenario env sid load =
     bnd (on_cat (cat_select sid)) (\<lambda>sc.
     andthen (modify (fresh_recordings env sc))
     (bnd get_state (\<lambda>s1.
      bnd (on_buses (rebind (se_guard env) (sv_cat s1) sc (se_hw env) sc)) (\<lambda>mode.
      bnd (select_load env sc (sv_cat s1) load) (\<lambda>loaded.
      bnd (arm_after_select env sc) (\<lambda>arm.
      andthen (modify (\<lambda>s. s\<lparr>sv_arm := Some arm\<rparr>))
      (bnd get_state (\<lambda>s2.
       ret \<lparr> sr_active = sc_id sc, sr_mode = mode, sr_symbols = length (st_addrs (is_symbols (sv_insight s1))),
             sr_load = loaded, sr_loaded = (case loaded of None \<Rightarrow> False | Some r \<Rightarrow> ld_ok r),
             sr_sinks = Some arm,
             sr_preload_pending = (if se_preload env sc \<noteq> [] \<and> mode \<noteq> ''demo''
               then Some (sorted_strs (map fst (se_preload env sc))) else None) \<rparr>))))))))"


section \<open>What a switch keeps\<close>

text \<open>The buses map the selected scenario, and the current bus is one of the two.\<close>

definition bound :: "'b server \<Rightarrow> bool" where
  "bound s \<longleftrightarrow> dict_get (cat_by_id (sv_cat s)) (cat_active_id (sv_cat s)) = Some (sv_sc s) \<and>
     bs_demo (sv_buses s) = demo_obj (sv_sc s) \<and>
     (bs_hw (sv_buses s) = None \<or> bs_hw (sv_buses s) = Some (hw_obj (sv_sc s))) \<and>
     (bs_current (sv_buses s) = demo_obj (sv_sc s) \<or> bs_hw (sv_buses s) = Some (bs_current (sv_buses s)))"

text \<open>Opening the aperture fails only in the ways the server catches.\<close>

definition opens_caught :: "hw_env \<Rightarrow> bool" where
  "opens_caught env \<longleftrightarrow> (\<forall>sc e. he_open env sc = Some e \<longrightarrow> exn_kind_of e \<in> set open_caught)"

definition app_matches :: "board \<Rightarrow> scenario \<Rightarrow> bool" where
  "app_matches st sc \<longleftrightarrow> bd_safe st \<and> bd_active st \<in> Some ` set (sc_apps sc)"

lemma try_hw_ok:
  assumes "opens_caught env"
  shows "\<exists>b'. try_hw g cat cur env arg b = (Inr (), b') \<and> bs_demo b' = bs_demo b \<and> bs_current b' = bs_current b \<and>
     bs_force_demo b' = bs_force_demo b \<and> (bs_hw b \<noteq> None \<longrightarrow> b' = b) \<and>
     (bs_hw b = None \<longrightarrow> bs_hw b' = None \<or>
        bs_hw b' = Some (hw_obj (opt_or arg cur)) \<and> (g \<longrightarrow> app_matches (he_board env) (opt_or arg cur)))"
  using assms
  by (auto simp: try_hw_def bnd_def get_state_def ret_def modify_def app_matches_def opens_caught_def Let_def
      split: option.splits)

lemma rebind_ok:
  assumes "opens_caught env"
  shows "\<exists>b'. rebind g cat cur env sc b = (Inr (mode_of b'), b') \<and> bs_demo b' = demo_obj sc \<and>
     bs_force_demo b' = bs_force_demo b \<and>
     (bs_hw b' = None \<or> \<not> bs_force_demo b \<and> bs_hw b' = Some (hw_obj sc) \<and> (g \<longrightarrow> app_matches (he_board env) sc)) \<and>
     bs_current b' = hw_or_demo b'"
proof -
  let ?b = "b\<lparr>bs_hw := None, bs_demo := demo_obj sc\<rparr>"
  obtain b' where "(if bs_force_demo b then ret () else try_hw g cat cur env (Some sc)) ?b = (Inr (), b')"
    "bs_demo b' = demo_obj sc" "bs_force_demo b' = bs_force_demo b"
    "bs_hw b' = None \<or> \<not> bs_force_demo b \<and> bs_hw b' = Some (hw_obj sc) \<and> (g \<longrightarrow> app_matches (he_board env) sc)"
    using try_hw_ok [OF assms, of g cat cur "Some sc" ?b] by (cases "bs_force_demo b") (auto simp: opt_or_def ret_def)
  then show ?thesis
    by (auto simp: rebind_def bnd_def andthen_def get_state_def modify_def ret_def Let_def hw_or_demo_def opt_or_def
        split: option.splits)
qed

lemma set_mode_ok:
  assumes "opens_caught env" "set_mode g cat sc env m b = (r, b')"
    and "bs_hw b = None \<or> bs_hw b = Some (hw_obj sc)"
  shows "bs_demo b' = bs_demo b" "bs_force_demo b' = bs_force_demo b" "bs_hw b' = None \<or> bs_hw b' = Some (hw_obj sc)"
    "bs_hw b' = bs_hw b \<or> m = ''live'' \<and> bs_hw b = None \<and> (g \<longrightarrow> app_matches (he_board env) sc)"
    "bs_current b' = bs_current b \<or> bs_current b' = bs_demo b \<or> m = ''live'' \<and> bs_hw b' = Some (bs_current b')"
    "case r of Inr md \<Rightarrow> md = mode_of b' \<and> (m = ''demo'' \<or> m = ''live'') | Inl e \<Rightarrow> bs_current b' = bs_current b"
proof -
  obtain b1 where t: "try_hw g cat sc env None b = (Inr (), b1)" "bs_demo b1 = bs_demo b" "bs_current b1 = bs_current b"
    "bs_force_demo b1 = bs_force_demo b"
    "bs_hw b \<noteq> None \<longrightarrow> b1 = b"
    "bs_hw b = None \<longrightarrow> bs_hw b1 = None \<or> bs_hw b1 = Some (hw_obj sc) \<and> (g \<longrightarrow> app_matches (he_board env) sc)"
    using try_hw_ok [OF assms(1), of g cat sc None b] by (auto simp: opt_or_def)
  have "bs_demo b' = bs_demo b \<and> bs_force_demo b' = bs_force_demo b \<and> (bs_hw b' = None \<or> bs_hw b' = Some (hw_obj sc)) \<and>
     (bs_hw b' = bs_hw b \<or> m = ''live'' \<and> bs_hw b = None \<and> (g \<longrightarrow> app_matches (he_board env) sc)) \<and>
     (bs_current b' = bs_current b \<or> bs_current b' = bs_demo b \<or> m = ''live'' \<and> bs_hw b' = Some (bs_current b')) \<and>
     (case r of Inr md \<Rightarrow> md = mode_of b' \<and> (m = ''demo'' \<or> m = ''live'') | Inl e \<Rightarrow> bs_current b' = bs_current b)"
  proof (cases "m = ''live''")
    case True
    then have e: "set_mode g cat sc env m b = (case bs_hw b1 of None \<Rightarrow> (Inl (Exn ValueError ''live mode unavailable'' []), b1)
        | Some h \<Rightarrow> (Inr (mode_of (b1\<lparr>bs_current := h\<rparr>)), b1\<lparr>bs_current := h\<rparr>))"
      by (simp add: set_mode_def bnd_def andthen_def get_state_def modify_def ret_def raise_def t(1) split: option.split)
    show ?thesis
    proof (cases "bs_hw b1")
      case None
      then have "b' = b1" "r = Inl (Exn ValueError ''live mode unavailable'' [])" using e assms(2) by simp_all
      then show ?thesis using t(2-6) None by (cases "bs_hw b") simp_all
    next
      case (Some h)
      then have "b' = b1\<lparr>bs_current := h\<rparr>" "r = Inr (mode_of b')" using e assms(2) by auto
      then show ?thesis using t(2-6) assms(3) Some True by (cases "bs_hw b") auto
    qed
  next
    case False
    then show ?thesis
      using assms(2,3)
      by (cases "m = ''demo''") (auto simp: set_mode_def bnd_def andthen_def get_state_def modify_def ret_def raise_def)
  qed
  then show "bs_demo b' = bs_demo b" "bs_force_demo b' = bs_force_demo b" "bs_hw b' = None \<or> bs_hw b' = Some (hw_obj sc)"
    "bs_hw b' = bs_hw b \<or> m = ''live'' \<and> bs_hw b = None \<and> (g \<longrightarrow> app_matches (he_board env) sc)"
    "bs_current b' = bs_current b \<or> bs_current b' = bs_demo b \<or> m = ''live'' \<and> bs_hw b' = Some (bs_current b')"
    "case r of Inr md \<Rightarrow> md = mode_of b' \<and> (m = ''demo'' \<or> m = ''live'') | Inl e \<Rightarrow> bs_current b' = bs_current b"
    by simp_all
qed

text \<open>The requests that move the buses, each with the environment it meets: the board may change in between.\<close>

datatype 'b sw_event = Ev_Mode hw_env string | Ev_Select "'b select_env" string bool

inductive sw_step :: "bool \<Rightarrow> 'b sw_event \<Rightarrow> 'b server \<Rightarrow> 'b server \<Rightarrow> bool" for g where
  sw_mode: "opens_caught env \<Longrightarrow> on_buses (set_mode g (sv_cat s) (sv_sc s) env m) s = (r, t) \<Longrightarrow>
    sw_step g (Ev_Mode env m) s t"
| sw_select: "opens_caught (se_hw env) \<Longrightarrow> opens_caught (se_hw2 env) \<Longrightarrow> se_guard env = g \<Longrightarrow>
    select_scenario env sid load s = (r, t) \<Longrightarrow> sw_step g (Ev_Select env sid load) s t"

inductive sw_reach :: "bool \<Rightarrow> 'b server \<Rightarrow> 'b server \<Rightarrow> bool" for g s0 where
  sw_start: "sw_reach g s0 s0"
| sw_next: "sw_reach g s0 s \<Longrightarrow> sw_step g ev s t \<Longrightarrow> sw_reach g s0 t"

text \<open>When a request may leave the aperture open: a switch to live opens it on the selected scenario only, and
  under the guard only with an app of it loaded; a selection leaves it open only on the new scenario, never
  on a server of simulations, and under the guard only with an app of it loaded, when it binds or after the
  load it asked for.\<close>

definition live_licensed :: "bool \<Rightarrow> 'b sw_event \<Rightarrow> 'b server \<Rightarrow> 'b server \<Rightarrow> bool" where
  "live_licensed g ev s t \<longleftrightarrow> (case ev of
     Ev_Mode env m \<Rightarrow> sv_sc t = sv_sc s \<and>
       (bs_hw (sv_buses t) = bs_hw (sv_buses s) \<or>
          m = ''live'' \<and> bs_hw (sv_buses s) = None \<and> (g \<longrightarrow> app_matches (he_board env) (sv_sc s))) \<and>
       (mode_of (sv_buses t) = ''live'' \<longrightarrow> mode_of (sv_buses s) = ''live'' \<or> m = ''live'')
   | Ev_Select env sid load \<Rightarrow> (case dict_get (cat_by_id (sv_cat s)) sid of
       None \<Rightarrow> t = s
     | Some sc \<Rightarrow> sv_sc t = sc \<and>
         mode_of (sv_buses t) = (if bs_hw (sv_buses t) = None then ''demo'' else ''live'') \<and>
         (bs_hw (sv_buses t) = None \<or> \<not> bs_force_demo (sv_buses s) \<and>
            (g \<longrightarrow> app_matches (he_board (se_hw env)) sc \<or> load \<and> app_matches (he_board (se_hw2 env)) sc))))"

lemma set_mode_bound:
  assumes "bound s" "opens_caught env" "on_buses (set_mode g (sv_cat s) (sv_sc s) env m) s = (r, t)"
  shows "bound t \<and> bs_force_demo (sv_buses t) = bs_force_demo (sv_buses s) \<and> live_licensed g (Ev_Mode env m) s t"
proof -
  obtain b' where b: "set_mode g (sv_cat s) (sv_sc s) env m (sv_buses s) = (r, b')" "t = s\<lparr>sv_buses := b'\<rparr>"
    using assms(3) by (auto simp: on_buses_def split: prod.splits)
  have "bs_hw (sv_buses s) = None \<or> bs_hw (sv_buses s) = Some (hw_obj (sv_sc s))"
    using assms(1) by (simp add: bound_def)
  note k = set_mode_ok [OF assms(2) b(1) this]
  have d: "bs_demo (sv_buses s) = demo_obj (sv_sc s)"
    "bs_current (sv_buses s) = demo_obj (sv_sc s) \<or> bs_hw (sv_buses s) = Some (bs_current (sv_buses s))"
    "dict_get (cat_by_id (sv_cat s)) (cat_active_id (sv_cat s)) = Some (sv_sc s)"
    using assms(1) by (simp_all add: bound_def)
  have "bs_current b' = demo_obj (sv_sc s) \<or> bs_hw b' = Some (bs_current b')"
    using k(4,5) d(1,2) by auto
  then have "bound t" using k(1,3) d(3) unfolding b(2) bound_def by (simp add: d(1))
  moreover have "mode_of b' = ''live'' \<longrightarrow> mode_of (sv_buses s) = ''live'' \<or> m = ''live''"
    using k(5) by (auto simp: mode_of_def d(1) demo_obj_def)
  ultimately show ?thesis using k(2,4) b(2) by (simp add: live_licensed_def)
qed

text \<open>Two servers that differ in the buses, the device and the sink report only.\<close>

definition same_rest :: "'b server \<Rightarrow> 'b server \<Rightarrow> bool" where
  "same_rest s t \<longleftrightarrow> sv_sc t = sv_sc s \<and> sv_cat t = sv_cat s \<and> sv_insight t = sv_insight s \<and>
     sv_console t = sv_console s \<and> sv_wp t = sv_wp s \<and>
     bs_force_demo (sv_buses t) = bs_force_demo (sv_buses s)"

text \<open>A selection, step by step: what holds after the first binding, after the load and at the end.\<close>

definition bound_to :: "bool \<Rightarrow> hw_env \<Rightarrow> scenario \<Rightarrow> 'b server \<Rightarrow> bool" where
  "bound_to g env sc s \<longleftrightarrow> bs_demo (sv_buses s) = demo_obj sc \<and> bs_current (sv_buses s) = hw_or_demo (sv_buses s) \<and>
     (bs_hw (sv_buses s) = None \<or> \<not> bs_force_demo (sv_buses s) \<and> bs_hw (sv_buses s) = Some (hw_obj sc) \<and>
        (g \<longrightarrow> app_matches (he_board env) sc))"

lemma on_buses_rebind:
  assumes "opens_caught env"
  shows "\<exists>t. on_buses (rebind g cat sc0 env sc) s = (Inr (mode_of (sv_buses t)), t) \<and> bound_to g env sc t \<and>
     same_rest s t \<and> sv_dev t = sv_dev s"
  using rebind_ok [OF assms, of g cat sc0 sc "sv_buses s"] by (auto simp: on_buses_def bound_to_def same_rest_def)

lemma bound_to_bound:
  "bound_to g env sc s \<Longrightarrow> sv_sc s = sc \<Longrightarrow>
   dict_get (cat_by_id (sv_cat s)) (cat_active_id (sv_cat s)) = Some sc \<Longrightarrow> bound s"
  by (auto simp: bound_to_def bound_def hw_or_demo_def opt_or_def split: option.splits)

lemma select_load_ok:
  assumes "opens_caught (se_hw2 env)" "bound_to (se_guard env) (se_hw env) sc s"
  shows "case select_load env sc cat load s of (r, t) \<Rightarrow> same_rest s t \<and> (case r of
      Inl e \<Rightarrow> load \<and> bound_to (se_guard env) (se_hw env) sc t
    | Inr l \<Rightarrow> bound_to (se_guard env) (if load then se_hw2 env else se_hw env) sc t \<and>
         (load \<longleftrightarrow> l \<noteq> None) \<and> (\<not> load \<longrightarrow> t = s))"
proof (cases load)
  case True
  obtain r d where rd: "se_load env sc (sv_dev s) = (r, d)" by (metis surj_pair)
  show ?thesis
  proof (cases r)
    case (Inl e)
    then show ?thesis using True rd assms(2)
      by (simp add: select_load_def bnd_def on_dev_def bound_to_def same_rest_def)
  next
    case (Inr l)
    obtain t where t: "on_buses (rebind (se_guard env) cat sc (se_hw2 env) sc) (s\<lparr>sv_dev := d\<rparr>) = (Inr (mode_of (sv_buses t)), t)"
      "bound_to (se_guard env) (se_hw2 env) sc t" "same_rest (s\<lparr>sv_dev := d\<rparr>) t"
      using on_buses_rebind [OF assms(1)] by blast
    have "select_load env sc cat load s = (Inr (Some l), t)"
      using True rd Inr t(1) by (simp add: select_load_def bnd_def andthen_def on_dev_def ret_def)
    then show ?thesis using True t(2,3) by (simp add: same_rest_def)
  qed
next
  case False
  then show ?thesis using assms(2) by (simp add: select_load_def ret_def same_rest_def)
qed

lemma bound_to_cong: "sv_buses t = sv_buses s \<Longrightarrow> bound_to g env sc t \<longleftrightarrow> bound_to g env sc s"
  by (simp add: bound_to_def)

lemma arm_after_ok:
  "case arm_after_select env sc s of (r, t) \<Rightarrow>
     same_rest s t \<and> sv_buses t = sv_buses s \<and> (\<not> se_arm_on_select env \<longrightarrow> t = s \<and> (\<exists>a. r = Inr a))"
  by (auto simp: arm_after_select_def bnd_def on_dev_def ret_def same_rest_def split: prod.splits sum.splits)

lemma select_unknown:
  "dict_get (cat_by_id (sv_cat s)) sid = None \<Longrightarrow> \<exists>e. select_scenario env sid load s = (Inl e, s)"
  by (simp add: select_scenario_def bnd_def on_cat_def cat_select_def)

text \<open>What a selection leaves behind, whether it succeeds or fails at the load or at the sinks.\<close>

definition selected :: "'b select_env \<Rightarrow> string \<Rightarrow> scenario \<Rightarrow> 'b server \<Rightarrow> 'b server" where
  "selected env sid sc s = fresh_recordings env sc (s\<lparr>sv_cat := (sv_cat s)\<lparr>cat_active_id := sid\<rparr>\<rparr>)"

lemma select_ok:
  fixes s :: "'b server"
  assumes "opens_caught (se_hw env)" "opens_caught (se_hw2 env)"
    and "dict_get (cat_by_id (sv_cat s)) sid = Some sc"
  shows "case select_scenario env sid load s of (r, t) \<Rightarrow> same_rest (selected env sid sc s) t \<and> (case r of
      Inl e \<Rightarrow> (load \<or> se_arm_on_select env) \<and>
        (bound_to (se_guard env) (se_hw env) sc t \<or> load \<and> bound_to (se_guard env) (se_hw2 env) sc t)
    | Inr rep \<Rightarrow> bound_to (se_guard env) (if load then se_hw2 env else se_hw env) sc t \<and>
         (\<not> load \<longrightarrow> sr_mode rep = mode_of (sv_buses t)) \<and>
         (\<exists>u :: 'b server. bound_to (se_guard env) (se_hw env) sc u \<and> sr_mode rep = mode_of (sv_buses u)) \<and> (load \<longleftrightarrow> sr_load rep \<noteq> None) \<and>
         (\<not> load \<and> \<not> se_arm_on_select env \<longrightarrow> sv_dev t = sv_dev s) \<and>
         sr_active rep = sc_id sc \<and> sr_sinks rep = sv_arm t \<and>
         sr_symbols rep = length (st_addrs (is_symbols (sv_insight (selected env sid sc s)))) \<and>
         (sr_preload_pending rep = None \<longleftrightarrow> se_preload env sc = [] \<or> sr_mode rep = ''demo''))"
proof -
  let ?c = "(sv_cat s)\<lparr>cat_active_id := sid\<rparr>"
  let ?s1 = "selected env sid sc s"
  have c: "sv_cat ?s1 = ?c" "sv_dev ?s1 = sv_dev s" by (simp_all add: selected_def fresh_recordings_def)
  obtain s2 where s2: "on_buses (rebind (se_guard env) ?c sc (se_hw env) sc) ?s1 = (Inr (mode_of (sv_buses s2)), s2)"
    "bound_to (se_guard env) (se_hw env) sc s2" "same_rest ?s1 s2" "sv_dev s2 = sv_dev s"
    using on_buses_rebind [OF assms(1)] c(2) by metis
  obtain r3 s3 where s3: "select_load env sc ?c load s2 = (r3, s3)" by (metis surj_pair)
  note l = select_load_ok [OF assms(2) s2(2), where cat = ?c and load = load, unfolded s3 case_prod_conv]
  have r3: "same_rest ?s1 s3" using l s2(3) by (simp add: same_rest_def)
  show ?thesis
  proof (cases r3)
    case (Inl e)
    have "select_scenario env sid load s = (Inl e, s3)"
      using s2(1) s3 assms(3) c(1) Inl
      by (simp add: select_scenario_def bnd_def andthen_def on_cat_def cat_select_def modify_def get_state_def selected_def)
    then show ?thesis using l Inl r3 by auto
  next
    case (Inr ld)
    obtain r4 s4 where s4: "arm_after_select env sc s3 = (r4, s4)" by (metis surj_pair)
    note a = arm_after_ok [where env = env and sc = sc and s = s3, unfolded s4 case_prod_conv]
    have r4: "same_rest ?s1 s4" using a r3 by (simp add: same_rest_def)
    have b4: "bound_to (se_guard env) (if load then se_hw2 env else se_hw env) sc s4"
      using l a bound_to_cong [of s4 s3] unfolding Inr sum.case by blast
    show ?thesis
    proof (cases r4)
      case (Inl e)
      have "select_scenario env sid load s = (Inl e, s4)"
        using s2(1) s3 s4 assms(3) c(1) Inl \<open>r3 = Inr ld\<close>
        by (simp add: select_scenario_def bnd_def andthen_def on_cat_def cat_select_def modify_def get_state_def selected_def)
      then show ?thesis using a b4 r4 Inl by (cases load) auto
    next
      case (Inr arm)
      let ?t = "s4\<lparr>sv_arm := Some arm\<rparr>"
      obtain rep where rep: "select_scenario env sid load s = (Inr rep, ?t)" "sr_mode rep = mode_of (sv_buses s2)"
        "sr_load rep = ld" "sr_active rep = sc_id sc" "sr_sinks rep = Some arm"
        "sr_symbols rep = length (st_addrs (is_symbols (sv_insight ?s1)))"
        "sr_preload_pending rep = None \<longleftrightarrow> se_preload env sc = [] \<or> mode_of (sv_buses s2) = ''demo''"
        using s2(1) s3 s4 assms(3) c(1) Inr \<open>r3 = Inr ld\<close>
        by (simp add: select_scenario_def bnd_def andthen_def on_cat_def cat_select_def modify_def get_state_def
            ret_def selected_def)
      have "bound_to (se_guard env) (if load then se_hw2 env else se_hw env) sc ?t" "same_rest ?s1 ?t"
        using b4 r4 by (simp_all add: bound_to_def same_rest_def)
      moreover have "\<not> load \<Longrightarrow> sv_buses s4 = sv_buses s2" "\<not> load \<and> \<not> se_arm_on_select env \<Longrightarrow> sv_dev s4 = sv_dev s"
        "load \<longleftrightarrow> ld \<noteq> None"
        using l a s2(4) \<open>r3 = Inr ld\<close> by auto
      ultimately show ?thesis using rep s2(2) by auto
    qed
  qed
qed


lemma bound_to_mode:
  assumes "bound_to g env sc s"
  shows "mode_of (sv_buses s) = (if bs_hw (sv_buses s) = None then ''demo'' else ''live'')"
    and "mode_of (sv_buses s) = ''live'' \<Longrightarrow> g \<Longrightarrow> app_matches (he_board env) sc"
  using assms by (auto simp: bound_to_def mode_of_def hw_or_demo_def opt_or_def demo_obj_def hw_obj_def split: option.splits)

lemma selected_fields:
  "sv_sc (selected env sid sc s) = sc" "sv_cat (selected env sid sc s) = (sv_cat s)\<lparr>cat_active_id := sid\<rparr>"
  "sv_console (selected env sid sc s) = con_reader0"
  "sv_wp (selected env sid sc s) = wp_reset (se_wp_files env) (se_wp_cfg env sc)"
  by (simp_all add: selected_def fresh_recordings_def)

lemma bound_to_licensed:
  assumes "bound_to g env sc t"
  shows "mode_of (sv_buses t) = (if bs_hw (sv_buses t) = None then ''demo'' else ''live'') \<and>
    (bs_hw (sv_buses t) = None \<or> \<not> bs_force_demo (sv_buses t) \<and> (g \<longrightarrow> app_matches (he_board env) sc))"
  using assms bound_to_mode(1) [OF assms] by (auto simp: bound_to_def)

lemma select_bound:
  assumes "bound s" "opens_caught (se_hw env)" "opens_caught (se_hw2 env)" "select_scenario env sid load s = (r, t)"
  shows "bound t \<and> bs_force_demo (sv_buses t) = bs_force_demo (sv_buses s) \<and>
    live_licensed (se_guard env) (Ev_Select env sid load) s t"
proof (cases "dict_get (cat_by_id (sv_cat s)) sid")
  case None
  then show ?thesis using select_unknown [OF None, of env load] assms(1,4) by (auto simp: live_licensed_def)
next
  case (Some sc)
  have k: "same_rest (selected env sid sc s) t"
    "bound_to (se_guard env) (se_hw env) sc t \<or> load \<and> bound_to (se_guard env) (se_hw2 env) sc t"
    using select_ok [OF assms(2,3) Some, of load] assms(4) by (auto split: sum.splits if_splits)
  then have f: "dict_get (cat_by_id (sv_cat t)) (cat_active_id (sv_cat t)) = Some sc" "sv_sc t = sc"
      "bs_force_demo (sv_buses t) = bs_force_demo (sv_buses s)"
    using Some by (simp_all add: same_rest_def selected_fields) (simp add: selected_def fresh_recordings_def)
  have "bound t" using k(2) f(1,2) bound_to_bound by blast
  moreover have "mode_of (sv_buses t) = (if bs_hw (sv_buses t) = None then ''demo'' else ''live'') \<and>
      (bs_hw (sv_buses t) = None \<or> \<not> bs_force_demo (sv_buses t) \<and>
        (se_guard env \<longrightarrow> app_matches (he_board (se_hw env)) sc \<or> load \<and> app_matches (he_board (se_hw2 env)) sc))"
    using k(2) bound_to_licensed [of "se_guard env" "se_hw env" sc t] bound_to_licensed [of "se_guard env" "se_hw2 env" sc t]
    by blast
  ultimately show ?thesis using f(2,3) Some by (simp add: live_licensed_def)
qed

lemma sw_step_bound:
  assumes "sw_step g ev s t" "bound s"
  shows "bound t \<and> bs_force_demo (sv_buses t) = bs_force_demo (sv_buses s) \<and> live_licensed g ev s t"
  using assms(1)
proof cases
  case (sw_mode env m r)
  then show ?thesis using set_mode_bound [OF assms(2)] by simp
next
  case (sw_select env sid load r)
  then show ?thesis using select_bound [OF assms(2) sw_select(2,3)] by simp
qed

lemma sw_reach_bound:
  "sw_reach g s0 s \<Longrightarrow> bound s0 \<Longrightarrow> bound s \<and> bs_force_demo (sv_buses s) = bs_force_demo (sv_buses s0)"
  by (induction rule: sw_reach.induct) (auto dest: sw_step_bound)

lemma init_bound:
  assumes "opens_caught env" "init_buses force g cat (sv_sc s) env = Inr (sv_buses s)"
    and "dict_get (cat_by_id (sv_cat s)) (cat_active_id (sv_cat s)) = Some (sv_sc s)"
  shows "bound s"
proof -
  let ?b0 = "\<lparr> bs_force_demo = force, bs_demo = demo_obj (sv_sc s), bs_hw = None, bs_error = None,
    bs_current = demo_obj (sv_sc s) \<rparr>"
  obtain b where b: "(if force then ret () else try_hw g cat (sv_sc s) env None) ?b0 = (Inr (), b)"
    "bs_demo b = demo_obj (sv_sc s)" "bs_hw b = None \<or> bs_hw b = Some (hw_obj (sv_sc s))"
    using try_hw_ok [OF assms(1), of g cat "sv_sc s" None ?b0] by (cases force) (auto simp: ret_def opt_or_def)
  then have "sv_buses s = b\<lparr>bs_current := hw_or_demo b\<rparr>"
    using assms(2) by (simp add: init_buses_def Let_def)
  then show ?thesis using b(2,3) assms(3) by (auto simp: bound_def hw_or_demo_def opt_or_def)
qed

section \<open>Properties\<close>

text \<open>C37: In every run of mode switches and selections, whatever the board does in between and whichever of them
  fail, both buses map the scenario the catalogue has selected, the bus in use is one of the two, and no step
  opens the hardware against the rules: under the guard only with an app of that scenario loaded, and a
  selection on a server started with --demo leaves it closed and the server on the simulation. The flag stands
  for the start and for selections alone: as its help says, a switch to live is still allowed.\<close>

theorem switch_keeps_buses:
  assumes "sw_reach g s0 s" "bound s0" "sw_step g ev s t"
  shows "bound t \<and> bs_force_demo (sv_buses t) = bs_force_demo (sv_buses s0) \<and> live_licensed g ev s t"
  using sw_reach_bound [OF assms(1,2)] sw_step_bound [OF assms(3)] by simp

text \<open>The tables of the selected scenario: those of its files, or none.\<close>

definition symbols_of_scenario :: "'b select_env \<Rightarrow> scenario \<Rightarrow> symbol_table" where
  "symbols_of_scenario env sc =
     (case first_file (se_files env) (symbol_candidates (se_here env) ''symbols'' None (sc_id sc) (fst (se_named env sc))) of
        Some (p, text) \<Rightarrow> symbols_from_text text (Some (path_name p)) | None \<Rightarrow> symbols_from_text [] None)"

definition sites_of_scenario :: "'b select_env \<Rightarrow> scenario \<Rightarrow> call_sites" where
  "sites_of_scenario env sc =
     (case first_file (se_files env) (symbol_candidates (se_here env) ''sites'' None (sc_id sc) (snd (se_named env sc))) of
        Some (p, text) \<Rightarrow> sites_from_text text (Some (path_name p)) | None \<Rightarrow> empty_sites)"

lemma selected_insight:
  "sv_insight (selected env sid sc s)
     = insight_init\<lparr>is_symbols := symbols_of_scenario env sc, is_sites := sites_of_scenario env sc\<rparr>"
  by (simp add: selected_def fresh_recordings_def load_symbol_files_def set_symbols_text_def set_sites_text_def
      insight_reset_def insight_init_def symbols_of_scenario_def sites_of_scenario_def Let_def split: option.split)

text \<open>C38: A selection binds and drops what it must: afterwards the selected scenario is the one asked for, every
  recording is the initial one, the symbol and call-site tables are those of the new scenario's files or empty,
  the server is live only if, under the guard, the board had an app of that scenario
  loaded when the aperture was opened; a selection without load and without the arming flag leaves the device
  alone, and the mode it reports is the mode it left.\<close>

theorem select_exact:
  assumes "select_scenario env sid load s = (Inr rep, t)"
    and "opens_caught (se_hw env)" "opens_caught (se_hw2 env)" "se_guard env"
  shows "\<exists>sc. dict_get (cat_by_id (sv_cat s)) sid = Some sc \<and> sv_sc t = sc \<and> cat_active_id (sv_cat t) = sid \<and>
     sv_console t = con_reader0 \<and> sv_wp t = wp_reset (se_wp_files env) (se_wp_cfg env sc) \<and>
     sv_insight t = insight_init\<lparr>is_symbols := symbols_of_scenario env sc, is_sites := sites_of_scenario env sc\<rparr> \<and>
     sr_symbols rep = length (st_addrs (symbols_of_scenario env sc)) \<and>
     (mode_of (sv_buses t) = ''live'' \<longrightarrow> app_matches (he_board (if load then se_hw2 env else se_hw env)) sc) \<and>
     (\<not> load \<longrightarrow> sr_mode rep = mode_of (sv_buses t) \<and> (se_arm_on_select env \<or> sv_dev t = sv_dev s))"
proof -
  obtain sc where sc: "dict_get (cat_by_id (sv_cat s)) sid = Some sc"
    using select_unknown [of s sid env load] assms(1) by fastforce
  note k = select_ok [OF assms(2,3) sc, where load = load, unfolded assms(1) prod.case sum.case]
  have r: "same_rest (selected env sid sc s) t" and b: "bound_to True (if load then se_hw2 env else se_hw env) sc t"
    and m: "\<not> load \<longrightarrow> sr_mode rep = mode_of (sv_buses t)" "\<not> load \<and> \<not> se_arm_on_select env \<longrightarrow> sv_dev t = sv_dev s"
    and n: "sr_symbols rep = length (st_addrs (is_symbols (sv_insight (selected env sid sc s))))"
    using k assms(4) by metis+
  show ?thesis
    using sc r m n bound_to_mode(2) [OF b] unfolding same_rest_def selected_fields selected_insight by auto
qed

text \<open>The reply of a selection that loads the app is that of before the load: when the board did not have the
  app, the case a load is for, the reply says demo and names no pending program images, whatever the
  scenario declares and although the server may be live by then.\<close>

lemma load_reply_stale:
  fixes s :: "'b server"
  assumes "select_scenario env sid True s = (Inr rep, t)"
    and "opens_caught (se_hw env)" "opens_caught (se_hw2 env)" "se_guard env"
    and "dict_get (cat_by_id (sv_cat s)) sid = Some sc" "\<not> app_matches (he_board (se_hw env)) sc"
  shows "sr_mode rep = ''demo'' \<and> sr_preload_pending rep = None"
proof -
  note k = select_ok [OF assms(2,3,5), where load = True, unfolded assms(1) prod.case sum.case]
  then obtain u :: "'b server" where u: "bound_to (se_guard env) (se_hw env) sc u" "sr_mode rep = mode_of (sv_buses u)"
    by blast
  have "mode_of (sv_buses u) = ''demo''" using bound_to_mode [OF u(1)] assms(4,6) by presburger
  then have "sr_mode rep = ''demo''" using u(2) by simp
  then show ?thesis using k by metis
qed

section \<open>A server of one scenario\<close>

definition board_of :: "bool \<Rightarrow> string option \<Rightarrow> board" where
  "board_of safe app = \<lparr> bd_fpga = Some ''operating'', bd_active = app, bd_apps = [''duo_app''], bd_safe = safe,
     bd_scenario = None, bd_variant = None, bd_enc_xlen = None, bd_core_xlen = None, bd_matches = safe, bd_clk = clk0,
     bd_bit = \<lparr> bi_app = None, bi_file = None, bi_size = None, bi_md5 = None, bi_error = None \<rparr>,
     bd_closure = \<lparr> cv_verdict = None, cv_achieved = None, cv_margin = None, cv_target = None, cv_wns = None,
       cv_state = None, cv_note = None \<rparr> \<rparr>"

definition hw_with :: "string option \<Rightarrow> hw_env" where
  "hw_with app = \<lparr> he_board = board_of (app \<noteq> None) app, he_open = (\<lambda>_. None) \<rparr>"

definition duo_server :: "unit server" where
  "duo_server = \<lparr> sv_cat = \<lparr> cat_order = [''duo''], cat_by_id = [(''duo'', duo_sc)], cat_default = ''duo'',
       cat_active_id = ''duo'' \<rparr>, sv_sc = duo_sc, sv_insight = insight_init, sv_console = con_reader0,
     sv_wp = wp_reset (\<lambda>_. None) None,
     sv_buses = \<lparr> bs_force_demo = False, bs_demo = demo_obj duo_sc, bs_hw = None, bs_error = None,
       bs_current = demo_obj duo_sc \<rparr>, sv_arm = None, sv_dev = () \<rparr>"

definition duo_env :: "string option \<Rightarrow> string option \<Rightarrow> unit select_env" where
  "duo_env before after = \<lparr> se_guard = True, se_arm_on_select = False, se_hw = hw_with before, se_hw2 = hw_with after,
     se_files = (\<lambda>_. None), se_here = ''.'', se_named = (\<lambda>_. (None, None)), se_wp_files = (\<lambda>_. None),
     se_wp_cfg = (\<lambda>_. None), se_load = (\<lambda>_ u. (Inr \<lparr> ld_ok = True, ld_slot = Some ''0'', ld_error = None \<rparr>, u)),
     se_arm = (\<lambda>_ u. (Inl (Exn OSError ''arming'' []), u)), se_preload = (\<lambda>_. [(''ram'', ''sw/a.elf'')]) \<rparr>"

lemma duo_apps: "sc_apps duo_sc = [''duo_app'']"
  by code_simp

lemma duo_env_facts:
  "opens_caught (hw_with app)" "opens_caught (se_hw (duo_env a b))" "opens_caught (se_hw2 (duo_env a b))"
  "se_guard (duo_env a b)" "bound duo_server"
  "dict_get (cat_by_id (sv_cat duo_server)) ''duo'' = Some duo_sc"
  by (simp_all add: opens_caught_def hw_with_def duo_env_def bound_def duo_server_def dict_get_def)

text \<open>Nothing loaded before, the app of the scenario after: the server ends up live.\<close>

lemma duo_select:
  "\<exists>rep t. select_scenario (duo_env None (Some ''duo_app'')) ''duo'' True duo_server = (Inr rep, t) \<and>
     mode_of (sv_buses t) = ''live''"
  by (simp add: select_scenario_def select_load_def arm_after_select_def bnd_def andthen_def on_cat_def
      cat_select_def modify_def get_state_def on_buses_def on_dev_def rebind_def try_hw_def hw_or_demo_def opt_or_def
      ret_def Let_def mode_of_def fresh_recordings_def duo_server_def demo_obj_def hw_obj_def duo_env_def hw_with_def
      board_of_def duo_apps dict_get_def)

lemma duo_live:
  "\<exists>t. on_buses (set_mode True (sv_cat duo_server) (sv_sc duo_server) (hw_with (Some ''duo_app'')) ''live'') duo_server =
     (Inr ''live'', t) \<and> mode_of (sv_buses t) = ''live''"
  by (simp add: on_buses_def set_mode_def try_hw_def bnd_def andthen_def modify_def get_state_def ret_def Let_def
      opt_or_def mode_of_def duo_server_def demo_obj_def hw_obj_def hw_with_def board_of_def duo_apps)

text \<open>The server goes live, which its guard allows, and stays on its scenario.\<close>

lemma switch_keeps_buses_witness:
  "\<exists>t. sw_step True (Ev_Mode (hw_with (Some ''duo_app'')) ''live'') duo_server t \<and> bound t \<and>
     mode_of (sv_buses t) = ''live'' \<and> live_licensed True (Ev_Mode (hw_with (Some ''duo_app'')) ''live'') duo_server t"
proof -
  obtain t where t: "on_buses (set_mode True (sv_cat duo_server) (sv_sc duo_server) (hw_with (Some ''duo_app'')) ''live'')
      duo_server = (Inr ''live'', t)" "mode_of (sv_buses t) = ''live''"
    using duo_live by blast
  have st: "sw_step True (Ev_Mode (hw_with (Some ''duo_app'')) ''live'') duo_server t" by (rule sw_mode [OF duo_env_facts(1) t(1)])
  then show ?thesis using switch_keeps_buses [OF sw_start duo_env_facts(5) st] t(2) by blast
qed

lemma select_exact_witness:
  "\<exists>rep t. select_scenario (duo_env None (Some ''duo_app'')) ''duo'' True duo_server = (Inr rep, t) \<and>
     sv_sc t = duo_sc \<and> mode_of (sv_buses t) = ''live'' \<and>
     app_matches (he_board (se_hw2 (duo_env None (Some ''duo_app'')))) duo_sc"
proof -
  obtain rep t where "select_scenario (duo_env None (Some ''duo_app'')) ''duo'' True duo_server = (Inr rep, t)"
    "mode_of (sv_buses t) = ''live''" using duo_select by blast
  then show ?thesis
    using select_exact [of "duo_env None (Some ''duo_app'')" "''duo''" True duo_server rep t] duo_env_facts by auto
qed

text \<open>The server is live, a program image is declared, and the reply says demo and that nothing is pending.\<close>

lemma load_reply_stale_witness:
  "\<exists>rep t. select_scenario (duo_env None (Some ''duo_app'')) ''duo'' True duo_server = (Inr rep, t) \<and>
     mode_of (sv_buses t) = ''live'' \<and> se_preload (duo_env None (Some ''duo_app'')) duo_sc \<noteq> [] \<and>
     sr_mode rep = ''demo'' \<and> sr_preload_pending rep = None"
proof -
  obtain rep t where t: "select_scenario (duo_env None (Some ''duo_app'')) ''duo'' True duo_server = (Inr rep, t)"
    "mode_of (sv_buses t) = ''live''" using duo_select by blast
  have "\<not> app_matches (he_board (se_hw (duo_env None (Some ''duo_app'')))) duo_sc" "se_preload (duo_env a b) sc \<noteq> []" for a b sc
    by (simp_all add: app_matches_def duo_env_def hw_with_def board_of_def)
  then show ?thesis
    using load_reply_stale [OF t(1) duo_env_facts(2-4) duo_env_facts(6)] t by blast
qed

end
