(* ===== verification/Core_Pc.thy ===== *)
theory Core_Pc
  imports Demo_Bus
begin

unbundle bit_operations_syntax

text \<open>
  The last retired program counter, read from hardware in two halves (\<open>read_core_pc\<close> of \<open>server.py\<close>): high,
  low, high again, with a retry, and the fields of the status word beside it. The properties say which
  moment a pair of halves stands for. The observation channel is a bus of which only the two reads are
  known: each shows one half of the counter of its own moment.
\<close>

section \<open>The reading\<close>

record win_err_doc =
  we_count :: string
  we_lo :: string
  we_hi :: string
  we_sticky_bit :: nat
  we_was_write_bit :: nat

record core_pc_doc =
  pd_lo :: string
  pd_hi :: string
  pd_retires :: string
  pd_priv_bits :: nat
  pd_priv_lsb :: "nat option"
  pd_obs_bits :: nat
  pd_obs_lsb :: "nat option"
  pd_obs_names :: "string list"
  pd_win_err :: "win_err_doc option"

record win_err =
  wr_count :: int
  wr_sticky :: bool
  wr_was_write :: bool
  wr_addr :: "int option"

record core_pc =
  pc_value :: int
  pc_torn :: bool
  pc_retries :: nat
  pc_stable :: bool
  pc_retires :: "int option"
  pc_priv :: "int option"
  pc_obs :: "(string list \<times> int) option"
  pc_win_err :: "win_err option"

text \<open>The loop of at most four attempts: the high word, the low word, the retries, and whether the last
  two high words agree.\<close>

fun pair_loop :: "'b dash_bus \<Rightarrow> int \<Rightarrow> int \<Rightarrow> nat \<Rightarrow> int \<Rightarrow> int \<Rightarrow> nat \<Rightarrow> ('b, int \<times> int \<times> nat \<times> bool) act" where
  "pair_loop bus o_lo o_hi 0 hi lo k = ret (hi, lo, k, False)"
| "pair_loop bus o_lo o_hi (Suc n) hi lo k =
     bnd (read1 bus ''ctrl'' o_lo) (\<lambda>l.
     bnd (read1 bus ''ctrl'' o_hi) (\<lambda>h.
       if h AND 0xFFFFFFFF = hi then ret (hi, l AND 0xFFFFFFFF, k, True)
       else pair_loop bus o_lo o_hi n (h AND 0xFFFFFFFF) (l AND 0xFFFFFFFF) (Suc k)))"

definition read_pc_pair :: "'b dash_bus \<Rightarrow> int \<Rightarrow> int \<Rightarrow> ('b, int \<times> int \<times> nat \<times> bool) act" where
  "read_pc_pair bus o_lo o_hi = bnd (read1 bus ''ctrl'' o_hi) (\<lambda>h. pair_loop bus o_lo o_hi 4 (h AND 0xFFFFFFFF) 0 0)"

definition read_if :: "'b dash_bus \<Rightarrow> int option \<Rightarrow> ('b, int option) act" where
  "read_if bus off = (case off of None \<Rightarrow> ret None | Some a \<Rightarrow> bnd (read1 bus ''ctrl'' a) (\<lambda>v. ret (Some v)))"

text \<open>A field of the status word, where the scenario gives it a width; its position is then required.\<close>

definition status_field :: "int \<Rightarrow> nat \<Rightarrow> nat option \<Rightarrow> string \<Rightarrow> exn + int option" where
  "status_field st bits lsb key =
     (if bits = 0 then Inr None
      else case lsb of None \<Rightarrow> Inl (Exn KeyError key [])
           | Some l \<Rightarrow> Inr (Some (drop_bit l st AND (push_bit bits 1 - 1))))"

definition obs_names :: "string list \<Rightarrow> int \<Rightarrow> string list" where
  "obs_names names obs = map snd (filter (\<lambda>(i, n). bit obs i) (enumerate 0 names))"

definition read_win_err :: "'b dash_bus \<Rightarrow> scenario \<Rightarrow> int \<Rightarrow> win_err_doc \<Rightarrow> ('b, win_err option) act" where
  "read_win_err bus sc st we =
     (case co sc (we_count we) of
        None \<Rightarrow> ret None
      | Some c \<Rightarrow>
          bnd (read1 bus ''ctrl'' c) (\<lambda>n.
          bnd (case (co sc (we_lo we), co sc (we_hi we)) of
                 (Some wl, Some wh) \<Rightarrow> bnd (read1 bus ''ctrl'' wh) (\<lambda>h. bnd (read1 bus ''ctrl'' wl) (\<lambda>l.
                     ret (Some (push_bit 32 h OR l))))
               | _ \<Rightarrow> ret None) (\<lambda>addr.
          ret (Some \<lparr> wr_count = n, wr_sticky = bit st (we_sticky_bit we),
                      wr_was_write = bit st (we_was_write_bit we), wr_addr = addr \<rparr>))))"

text \<open>What is read beside the pair: the retire counter, the status fields and the window errors.\<close>

definition pc_rest :: "'b dash_bus \<Rightarrow> scenario \<Rightarrow> core_pc_doc \<Rightarrow> int \<Rightarrow> int \<Rightarrow> nat \<Rightarrow> bool \<Rightarrow> ('b, core_pc) act" where
  "pc_rest bus sc pd hi lo k stb =
     bnd (read_if bus (co sc (pd_retires pd))) (\<lambda>rts.
     bnd (read_if bus (co sc ''status'')) (\<lambda>status.
     let st = (case status of None \<Rightarrow> 0 | Some v \<Rightarrow> v) in
     bnd (lift_exn (status_field st (pd_priv_bits pd) (pd_priv_lsb pd) ''priv_lsb'')) (\<lambda>priv.
     bnd (lift_exn (status_field st (pd_obs_bits pd) (pd_obs_lsb pd) ''obs_lsb'')) (\<lambda>obs.
     bnd (case pd_win_err pd of None \<Rightarrow> ret None | Some we \<Rightarrow> read_win_err bus sc st we) (\<lambda>we.
     ret \<lparr> pc_value = push_bit 32 hi OR lo, pc_torn = (0 < k), pc_retries = k, pc_stable = stb,
           pc_retires = rts, pc_priv = priv,
           pc_obs = map_option (\<lambda>v. (obs_names (pd_obs_names pd) v, v)) obs, pc_win_err = we \<rparr>)))))"

text \<open>\<open>None\<close> when the design has no observation channel.\<close>

definition read_core_pc :: "'b dash_bus \<Rightarrow> scenario \<Rightarrow> core_pc_doc option \<Rightarrow> ('b, core_pc option) act" where
  "read_core_pc bus sc doc =
     (case doc of
        None \<Rightarrow> ret None
      | Some pd \<Rightarrow>
         (case (co sc (pd_lo pd), co sc (pd_hi pd)) of
            (Some o_lo, Some o_hi) \<Rightarrow>
              bnd (read_pc_pair bus o_lo o_hi) (\<lambda>(hi, lo, k, stb).
              bnd (pc_rest bus sc pd hi lo k stb) (\<lambda>r. ret (Some r)))
          | _ \<Rightarrow> ret None))"

section \<open>Which moment the pair stands for\<close>

text \<open>The observation channel: each read of a half shows the counter of its moment, and the next read comes
  at the next moment. How the counter moves is not restricted.\<close>

definition shows_pc :: "'b dash_bus \<Rightarrow> int \<Rightarrow> int \<Rightarrow> ('b \<Rightarrow> int) \<Rightarrow> ('b \<Rightarrow> 'b) \<Rightarrow> bool" where
  "shows_pc bus o_lo o_hi pc nxt \<longleftrightarrow> (\<forall>s. 0 \<le> pc s \<and> pc s < 2 ^ 64 \<and>
     read1 bus ''ctrl'' o_lo s = (Inr (pc s mod 2 ^ 32), nxt s) \<and>
     read1 bus ''ctrl'' o_hi s = (Inr (pc s div 2 ^ 32), nxt s))"

definition pc_at :: "('b \<Rightarrow> int) \<Rightarrow> ('b \<Rightarrow> 'b) \<Rightarrow> 'b \<Rightarrow> nat \<Rightarrow> int" where
  "pc_at pc nxt s i = pc ((nxt ^^ i) s)"

lemma pc_at_shift: "pc_at pc nxt (nxt s) i = pc_at pc nxt s (Suc i)"
  by (simp add: pc_at_def funpow_swap1)

lemma shows_pcD:
  assumes "shows_pc bus o_lo o_hi pc nxt"
  shows "read1 bus ''ctrl'' o_lo s = (Inr (pc s mod 2 ^ 32), nxt s)"
    "read1 bus ''ctrl'' o_hi s = (Inr (pc s div 2 ^ 32), nxt s)"
    "pc s div 2 ^ 32 AND 0xFFFFFFFF = pc s div 2 ^ 32" "pc s mod 2 ^ 32 AND 0xFFFFFFFF = pc s mod 2 ^ 32"
proof -
  have "0 \<le> pc s \<and> pc s < 2 ^ 64" using assms by (simp add: shows_pc_def)
  moreover have "x AND 0xFFFFFFFF = x mod 2 ^ 32" for x :: int
    using u32_mod [of x] by (simp add: u32_def)
  moreover from calculation(1) have "0 \<le> pc s div 2 ^ 32" "pc s div 2 ^ 32 < 2 ^ 32" by simp_all linarith+
  ultimately show "pc s div 2 ^ 32 AND 0xFFFFFFFF = pc s div 2 ^ 32" "pc s mod 2 ^ 32 AND 0xFFFFFFFF = pc s mod 2 ^ 32"
    by (simp_all add: mod_pos_pos_trivial)
  show "read1 bus ''ctrl'' o_lo s = (Inr (pc s mod 2 ^ 32), nxt s)" "read1 bus ''ctrl'' o_hi s = (Inr (pc s div 2 ^ 32), nxt s)"
    using assms by (simp_all add: shows_pc_def)
qed

lemma pc_loop_exact:
  assumes bus: "shows_pc bus o_lo o_hi pc nxt"
  shows "\<exists>hi lo m stb t. pair_loop bus o_lo o_hi n (pc s div 2 ^ 32) l k (nxt s) = (Inr (hi, lo, k + m, stb), t) \<and>
      m \<le> n \<and> (stb \<longleftrightarrow> m < n) \<and> (\<forall>j<m. pc_at pc nxt s (2 * j) div 2 ^ 32 \<noteq> pc_at pc nxt s (2 * j + 2) div 2 ^ 32) \<and>
      (stb \<longrightarrow> hi = pc_at pc nxt s (2 * m) div 2 ^ 32 \<and> pc_at pc nxt s (2 * m + 2) div 2 ^ 32 = hi \<and>
         lo = pc_at pc nxt s (2 * m + 1) mod 2 ^ 32)"
proof (induction n arbitrary: l k s)
  case 0
  show ?case by (auto simp: ret_def)
next
  case (Suc n)
  let ?t = "nxt (nxt s)"
  have step: "pair_loop bus o_lo o_hi (Suc n) (pc s div 2 ^ 32) l k (nxt s) =
     (if pc ?t div 2 ^ 32 = pc s div 2 ^ 32 then (Inr (pc s div 2 ^ 32, pc (nxt s) mod 2 ^ 32, k, True), nxt ?t)
      else pair_loop bus o_lo o_hi n (pc ?t div 2 ^ 32) (pc (nxt s) mod 2 ^ 32) (Suc k) (nxt ?t))"
    using shows_pcD(1,4) [OF bus, of "nxt s"] shows_pcD(2,3) [OF bus, of ?t] by (simp add: bnd_def ret_def)
  show ?case
  proof (cases "pc ?t div 2 ^ 32 = pc s div 2 ^ 32")
    case True
    then show ?thesis unfolding step by (intro exI [of _ "0::nat"] exI conjI) (auto simp: pc_at_def)
  next
    case False
    obtain hi lo m stb t where ih:
      "pair_loop bus o_lo o_hi n (pc ?t div 2 ^ 32) (pc (nxt s) mod 2 ^ 32) (Suc k) (nxt ?t) = (Inr (hi, lo, Suc k + m, stb), t)"
      "m \<le> n" "stb \<longleftrightarrow> m < n" "\<forall>j<m. pc_at pc nxt ?t (2 * j) div 2 ^ 32 \<noteq> pc_at pc nxt ?t (2 * j + 2) div 2 ^ 32"
      "stb \<longrightarrow> hi = pc_at pc nxt ?t (2 * m) div 2 ^ 32 \<and> pc_at pc nxt ?t (2 * m + 2) div 2 ^ 32 = hi \<and>
         lo = pc_at pc nxt ?t (2 * m + 1) mod 2 ^ 32"
      using Suc.IH [of ?t "pc (nxt s) mod 2 ^ 32" "Suc k"] by blast
    have first: "pc_at pc nxt s 0 div 2 ^ 32 \<noteq> pc_at pc nxt s (Suc (Suc 0)) div 2 ^ 32"
      using False by (simp add: pc_at_def)
    have later: "pc_at pc nxt ?t j = pc_at pc nxt s (j + 2)" for j by (simp add: pc_at_shift)
    have ne: "\<forall>j<Suc m. pc_at pc nxt s (2 * j) div 2 ^ 32 \<noteq> pc_at pc nxt s (2 * j + 2) div 2 ^ 32"
    proof (intro allI impI)
      fix j assume "j < Suc m"
      then show "pc_at pc nxt s (2 * j) div 2 ^ 32 \<noteq> pc_at pc nxt s (2 * j + 2) div 2 ^ 32"
        using ih(4) first by (cases j) (simp_all add: pc_at_shift)
    qed
    have at: "stb \<longrightarrow> hi = pc_at pc nxt s (2 * Suc m) div 2 ^ 32 \<and> pc_at pc nxt s (2 * Suc m + 2) div 2 ^ 32 = hi \<and>
       lo = pc_at pc nxt s (2 * Suc m + 1) mod 2 ^ 32"
      using ih(5) by (simp add: later)
    have "pair_loop bus o_lo o_hi (Suc n) (pc s div 2 ^ 32) l k (nxt s) = (Inr (hi, lo, k + Suc m, stb), t)"
      using step False ih(1) by simp
    moreover have "Suc m \<le> Suc n" "stb \<longleftrightarrow> Suc m < Suc n" using ih(2,3) by simp_all
    ultimately show ?thesis using ne at by blast
  qed
qed


text \<open>Every result of an action has a property.\<close>

definition yields :: "('a \<Rightarrow> bool) \<Rightarrow> ('s, 'a) act \<Rightarrow> bool" where
  "yields Q m \<longleftrightarrow> (\<forall>s r t. m s = (Inr r, t) \<longrightarrow> Q r)"

lemma yields_ret: "Q x \<Longrightarrow> yields Q (ret x)"
  by (simp add: yields_def ret_def)

lemma yields_bnd:
  assumes "\<And>x. yields Q (f x)"
  shows "yields Q (bnd m f)"
  unfolding yields_def
proof (intro allI impI)
  fix s r t assume "bnd m f s = (Inr r, t)"
  then obtain x u where "f x u = (Inr r, t)" by (rule bnd_InrE)
  then show "Q r" using assms [of x] unfolding yields_def by blast
qed

lemma pc_rest_fields:
  "yields (\<lambda>r. pc_value r = push_bit 32 hi OR lo \<and> pc_torn r = (0 < k) \<and> pc_retries r = k \<and> pc_stable r = stb)
     (pc_rest bus sc pd hi lo k stb)"
  unfolding pc_rest_def Let_def by (intro yields_bnd yields_ret) simp

lemma read_core_pc_cases:
  assumes "read_core_pc bus sc (Some pd) s = (Inr (Some r), t)"
    and "co sc (pd_lo pd) = Some o_lo" "co sc (pd_hi pd) = Some o_hi"
  shows "\<exists>hi lo k stb u. read_pc_pair bus o_lo o_hi s = (Inr (hi, lo, k, stb), u) \<and>
     pc_value r = push_bit 32 hi OR lo \<and> pc_torn r = (0 < k) \<and> pc_retries r = k \<and> pc_stable r = stb"
proof -
  have "bnd (read_pc_pair bus o_lo o_hi) (\<lambda>(hi, lo, k, stb).
      bnd (pc_rest bus sc pd hi lo k stb) (\<lambda>r. ret (Some r))) s = (Inr (Some r), t)"
    using assms by (simp add: read_core_pc_def)
  then obtain x u where x: "read_pc_pair bus o_lo o_hi s = (Inr x, u)"
    "(case x of (hi, lo, k, stb) \<Rightarrow> bnd (pc_rest bus sc pd hi lo k stb) (\<lambda>r. ret (Some r))) u = (Inr (Some r), t)"
    by (rule bnd_InrE)
  obtain hi lo k stb where q: "x = (hi, lo, k, stb)" by (cases x)
  have "bnd (pc_rest bus sc pd hi lo k stb) (\<lambda>r. ret (Some r)) u = (Inr (Some r), t)"
    using x(2) q by simp
  then have "\<exists>v. pc_rest bus sc pd hi lo k stb u = (Inr r, v)" by (rule bnd_InrE) (simp add: ret_def)
  then show ?thesis using x(1) q pc_rest_fields [of hi lo k stb bus sc pd] unfolding yields_def by blast
qed

lemma halves_eq:
  fixes h l v :: int
  assumes "0 \<le> l" "l < 2 ^ 32"
  shows "push_bit 32 h OR l = v \<longleftrightarrow> v div 2 ^ 32 = h \<and> v mod 2 ^ 32 = l"
proof -
  have "push_bit 32 h OR l = h * 2 ^ 32 + l"
  proof -
    have "push_bit 32 h AND take_bit 32 l = 0" by (rule bit_eqI) (auto simp: bit_simps)
    moreover have "take_bit 32 l = l" using assms by (simp add: take_bit_eq_mod)
    ultimately show ?thesis using plus_and_or [of "push_bit 32 h" l] by (simp add: push_bit_eq_mult)
  qed
  moreover have "(h * 2 ^ 32 + l) div 2 ^ 32 = h" "(h * 2 ^ 32 + l) mod 2 ^ 32 = l" using assms by simp_all
  ultimately show ?thesis using div_mult_mod_eq [of v "2 ^ 32"] by metis
qed

text \<open>C39: What the hardware program counter shows: the reading is stable exactly when fewer than four retries were
  needed, it is marked torn exactly when the high word moved between the first two readings of it; and a
  stable value is the counter at the moment its low word was read if and only if the counter had the same
  high word then as before and after, in particular when it has only grown meanwhile.\<close>

theorem core_pc_exact:
  assumes "shows_pc bus o_lo o_hi pc nxt" "co sc (pd_lo pd) = Some o_lo" "co sc (pd_hi pd) = Some o_hi"
    and "read_core_pc bus sc (Some pd) s = (Inr (Some r), t)"
  shows "let p = pc_at pc nxt s; k = pc_retries r in
     (pc_stable r \<longleftrightarrow> k < 4) \<and> (pc_torn r \<longleftrightarrow> p 0 div 2 ^ 32 \<noteq> p 2 div 2 ^ 32) \<and>
     (pc_stable r \<longrightarrow>
        (pc_value r = p (2 * k + 1) \<longleftrightarrow> p (2 * k + 1) div 2 ^ 32 = p (2 * k) div 2 ^ 32) \<and>
        (p (2 * k) \<le> p (2 * k + 1) \<and> p (2 * k + 1) \<le> p (2 * k + 2) \<longrightarrow> pc_value r = p (2 * k + 1)))"
proof -
  obtain hi lo k stb u where r: "read_pc_pair bus o_lo o_hi s = (Inr (hi, lo, k, stb), u)"
    "pc_value r = push_bit 32 hi OR lo" "pc_torn r = (0 < k)" "pc_retries r = k" "pc_stable r = stb"
    using read_core_pc_cases [OF assms(4,2,3)] by blast
  let ?p = "pc_at pc nxt s"
  have loop: "read_pc_pair bus o_lo o_hi s = pair_loop bus o_lo o_hi 4 (pc s div 2 ^ 32) 0 0 (nxt s)"
    using shows_pcD(2,3) [OF assms(1), of s] by (simp add: read_pc_pair_def bnd_def)
  have l: "k \<le> 4" "stb \<longleftrightarrow> k < 4" "\<forall>j<k. ?p (2 * j) div 2 ^ 32 \<noteq> ?p (2 * j + 2) div 2 ^ 32"
    "stb \<longrightarrow> hi = ?p (2 * k) div 2 ^ 32 \<and> ?p (2 * k + 2) div 2 ^ 32 = hi \<and> lo = ?p (2 * k + 1) mod 2 ^ 32"
  proof -
    obtain hi' lo' m stb' t' where m: "pair_loop bus o_lo o_hi 4 (pc s div 2 ^ 32) 0 0 (nxt s) = (Inr (hi', lo', 0 + m, stb'), t')"
      "m \<le> 4" "stb' \<longleftrightarrow> m < 4" "\<forall>j<m. ?p (2 * j) div 2 ^ 32 \<noteq> ?p (2 * j + 2) div 2 ^ 32"
      "stb' \<longrightarrow> hi' = ?p (2 * m) div 2 ^ 32 \<and> ?p (2 * m + 2) div 2 ^ 32 = hi' \<and> lo' = ?p (2 * m + 1) mod 2 ^ 32"
      using pc_loop_exact [OF assms(1), of 4 s 0 0] by blast
    with r(1) loop have "hi' = hi" "lo' = lo" "m = k" "stb' = stb" by simp_all
    with m(2-5) show "k \<le> 4" "stb \<longleftrightarrow> k < 4" "\<forall>j<k. ?p (2 * j) div 2 ^ 32 \<noteq> ?p (2 * j + 2) div 2 ^ 32"
      "stb \<longrightarrow> hi = ?p (2 * k) div 2 ^ 32 \<and> ?p (2 * k + 2) div 2 ^ 32 = hi \<and> lo = ?p (2 * k + 1) mod 2 ^ 32"
      by blast+
  qed
  have torn: "0 < k \<longleftrightarrow> ?p 0 div 2 ^ 32 \<noteq> ?p 2 div 2 ^ 32"
  proof (cases k)
    case 0
    then have "stb" using l(2) by simp
    then show ?thesis using l(4) 0 by (simp add: numeral_2_eq_2)
  next
    case (Suc j)
    then have "?p (2 * 0) div 2 ^ 32 \<noteq> ?p (2 * 0 + 2) div 2 ^ 32" using l(3) by blast
    then show ?thesis using Suc by (simp add: numeral_2_eq_2)
  qed
  have exact: "pc_value r = ?p (2 * k + 1) \<longleftrightarrow> ?p (2 * k + 1) div 2 ^ 32 = ?p (2 * k) div 2 ^ 32" if "stb"
    using l(4) that r(2) halves_eq [of lo hi "?p (2 * k + 1)"] by auto
  have grown: "pc_value r = ?p (2 * k + 1)"
    if "stb" "?p (2 * k) \<le> ?p (2 * k + 1)" "?p (2 * k + 1) \<le> ?p (2 * k + 2)"
    using zdiv_mono1 [OF that(2), of "2 ^ 32"] zdiv_mono1 [OF that(3), of "2 ^ 32"] l(4) that(1) exact by simp
  show ?thesis unfolding Let_def r(3-5)
  proof (intro conjI impI)
    show "stb \<longleftrightarrow> k < 4" by (rule l(2))
    show "0 < k \<longleftrightarrow> ?p 0 div 2 ^ 32 \<noteq> ?p 2 div 2 ^ 32" by (rule torn)
    show "pc_value r = ?p (2 * k + 1) \<longleftrightarrow> ?p (2 * k + 1) div 2 ^ 32 = ?p (2 * k) div 2 ^ 32" if "stb" by (rule exact [OF that])
    show "pc_value r = ?p (2 * k + 1)" if "stb" "?p (2 * k) \<le> ?p (2 * k + 1) \<and> ?p (2 * k + 1) \<le> ?p (2 * k + 2)"
      using that grown by blast
  qed
qed

section \<open>A channel that shows a list of moments\<close>

definition obs_bus :: "int list dash_bus" where
  "obs_bus = \<lparr> db_read = (\<lambda>region off n ps. let p = (case ps of [] \<Rightarrow> 0 | q # _ \<Rightarrow> q mod 2 ^ 64) in
       (Inr [if off = 4 then p div 2 ^ 32 else p mod 2 ^ 32], tl ps)),
     db_write = (\<lambda>region off v. ret ()), db_write_block = (\<lambda>region off bs. ret ()), db_demo = False \<rparr>"

definition obs_pc :: "int list \<Rightarrow> int" where
  "obs_pc ps = (case ps of [] \<Rightarrow> 0 | q # _ \<Rightarrow> q mod 2 ^ 64)"

definition obs_sc :: scenario where
  "obs_sc = mini_sc\<lparr>sc_ctrl := [(''pc_lo'', 0), (''pc_hi'', 4)]\<rparr>"

definition obs_doc :: core_pc_doc where
  "obs_doc = \<lparr> pd_lo = ''pc_lo'', pd_hi = ''pc_hi'', pd_retires = [], pd_priv_bits = 0, pd_priv_lsb = None,
     pd_obs_bits = 0, pd_obs_lsb = None, pd_obs_names = [], pd_win_err = None \<rparr>"

lemma obs_facts:
  "shows_pc obs_bus 0 4 obs_pc tl" "co obs_sc (pd_lo obs_doc) = Some 0" "co obs_sc (pd_hi obs_doc) = Some 4"
  by (auto simp: shows_pc_def obs_bus_def obs_pc_def read1_def bnd_def ret_def obs_sc_def obs_doc_def co_def dict_get_def
      split: list.splits)

lemma core_pc_exact_witness:
  "\<exists>r t. read_core_pc obs_bus obs_sc (Some obs_doc) [0x1FFFFFFFE, 0x200000000, 0x200000002, 0x200000004, 0x200000006] =
      (Inr (Some r), t) \<and> pc_torn r \<and> pc_stable r \<and> pc_value r = 0x200000004"
proof -
  let ?ps = "[0x1FFFFFFFE, 0x200000000, 0x200000002, 0x200000004, 0x200000006] :: int list"
  obtain r t where r: "read_core_pc obs_bus obs_sc (Some obs_doc) ?ps = (Inr (Some r), t)" "pc_retries r = 1"
    by (simp add: read_core_pc_def read_pc_pair_def pc_rest_def read_if_def status_field_def obs_bus_def obs_sc_def
        obs_doc_def co_def dict_get_def bnd_def ret_def read1_def lift_exn_def eval_nat_numeral)
  show ?thesis using core_pc_exact [OF obs_facts r(1)] r by (auto simp: pc_at_def obs_pc_def Let_def eval_nat_numeral)
qed

text \<open>A counter is not a program counter: between two readings of the high word a core may enter the kernel and
  return. The reading is then stable and not marked torn, and its value is none the core ever had.\<close>

lemma torn_unseen:
  "\<exists>r t. read_core_pc obs_bus obs_sc (Some obs_doc) [0x1000, 0xFFFFFFC000002000, 0x1004] = (Inr (Some r), t) \<and>
     pc_stable r \<and> \<not> pc_torn r \<and> pc_value r \<notin> {0x1000, 0xFFFFFFC000002000, 0x1004}"
  by (simp add: read_core_pc_def read_pc_pair_def pc_rest_def read_if_def status_field_def obs_bus_def obs_sc_def
      obs_doc_def co_def dict_get_def bnd_def ret_def read1_def lift_exn_def eval_nat_numeral)

end
