(* ===== verification/Coverage_Map.thy ===== *)
theory Coverage_Map
  imports Insight Scenario Py_Printf
begin

text \<open>
  The hierarchy of the coverage map (\<open>coverage_tree\<close> of \<open>server.py\<close>): address region, name prefix, function.
  The area of a function is its size in the symbol table, its colour the number of its executed
  instructions. The properties say that nothing is lost or counted twice on the way.
\<close>

section \<open>The map\<close>

record code_region_doc =
  kr_name :: string
  kr_base :: addr_doc
  kr_size :: addr_doc

record cov_func =
  cf_name :: string
  cf_addr :: int
  cf_size :: int
  cf_instr :: nat

record cov_group =
  cg_name :: string
  cg_size :: int
  cg_instr :: nat
  cg_seen :: nat
  cg_funcs :: "cov_func list"

record cov_region =
  cr_name :: string
  cr_lo :: int
  cr_hi :: int
  cr_groups :: "(string, cov_group) dict"
  cr_size :: int
  cr_instr :: nat
  cr_seen :: nat
  cr_funcs :: nat

record cov_state =
  cs_regions :: "cov_region list"
  cs_clamped :: nat
  cs_outside :: nat

record cov_out =
  co_name :: string
  co_size :: int
  co_instr :: nat
  co_funcs :: nat
  co_seen :: nat
  co_groups :: "cov_group list"

record coverage_map =
  cm_regions :: "cov_out list"
  cm_total_instr :: nat
  cm_windows :: nat
  cm_clamped :: nat
  cm_outside :: nat

datatype cov_result = No_Symbols | Cov_Map coverage_map

text \<open>Without regions of the scenario, the whole address space of 64 bits.\<close>

definition whole_space :: "code_region_doc list" where
  "whole_space = [\<lparr> kr_name = ''Code'', kr_base = A_Int 0, kr_size = A_Int (push_bit 64 1) \<rparr>]"

definition open_region :: "code_region_doc \<Rightarrow> exn + cov_region" where
  "open_region d = (case addr_of (kr_base d) of Inl e \<Rightarrow> Inl e | Inr b \<Rightarrow>
     (case addr_of (kr_size d) of Inl e \<Rightarrow> Inl e | Inr n \<Rightarrow>
        Inr \<lparr> cr_name = kr_name d, cr_lo = b, cr_hi = b + n, cr_groups = [], cr_size = 0, cr_instr = 0, cr_seen = 0,
              cr_funcs = 0 \<rparr>))"

fun open_regions :: "code_region_doc list \<Rightarrow> exn + cov_region list" where
  "open_regions [] = Inr []"
| "open_regions (d # ds) = (case open_region d of Inl e \<Rightarrow> Inl e | Inr r \<Rightarrow>
     (case open_regions ds of Inl e \<Rightarrow> Inl e | Inr rs \<Rightarrow> Inr (r # rs)))"

text \<open>\<open>name.split("_")[0]\<close>: the name itself where it has no underscore.\<close>

definition name_prefix :: "string \<Rightarrow> string" where
  "name_prefix name = takeWhile (\<lambda>c. c \<noteq> CHR ''_'') name"

definition empty_group :: "string \<Rightarrow> cov_group" where
  "empty_group pfx = \<lparr> cg_name = pfx, cg_size = 0, cg_instr = 0, cg_seen = 0, cg_funcs = [] \<rparr>"

definition add_to_group :: "cov_func \<Rightarrow> cov_group \<Rightarrow> cov_group" where
  "add_to_group f g = g\<lparr> cg_size := cg_size g + cf_size f, cg_instr := cg_instr g + cf_instr f,
     cg_funcs := cg_funcs g @ [f], cg_seen := cg_seen g + (if cf_instr f \<noteq> 0 then 1 else 0) \<rparr>"

definition add_to_region :: "cov_func \<Rightarrow> cov_region \<Rightarrow> cov_region" where
  "add_to_region f r =
     (let pfx = name_prefix (cf_name f); g = (case dict_get (cr_groups r) pfx of None \<Rightarrow> empty_group pfx | Some g \<Rightarrow> g) in
      r\<lparr> cr_groups := dict_set pfx (add_to_group f g) (cr_groups r), cr_size := cr_size r + cf_size f,
         cr_instr := cr_instr r + cf_instr f, cr_funcs := cr_funcs r + 1,
         cr_seen := cr_seen r + (if cf_instr f \<noteq> 0 then 1 else 0) \<rparr>)"

definition holds_addr :: "int \<Rightarrow> cov_region \<Rightarrow> bool" where
  "holds_addr a r \<longleftrightarrow> cr_lo r \<le> a \<and> a < cr_hi r"

text \<open>The first region that holds the address takes the function.\<close>

fun place :: "cov_func \<Rightarrow> cov_region list \<Rightarrow> cov_region list" where
  "place f [] = []"
| "place f (r # rs) = (if holds_addr (cf_addr f) r then add_to_region f r # rs else r # place f rs)"

definition add_symbol :: "(int, nat) dict \<Rightarrow> string \<times> int \<times> int \<times> bool \<Rightarrow> cov_state \<Rightarrow> cov_state" where
  "add_symbol counts row s = (case row of (name, addr, sz, was_clamped) \<Rightarrow>
     if sz \<le> 0 then s
     else if \<not> list_ex (holds_addr addr) (cs_regions s) then s\<lparr>cs_outside := cs_outside s + 1\<rparr>
     else s\<lparr> cs_clamped := cs_clamped s + (if was_clamped then 1 else 0),
             cs_regions := place \<lparr> cf_name = name, cf_addr = addr, cf_size = sz,
               cf_instr = dict_get_or counts addr 0 \<rparr> (cs_regions s) \<rparr>)"

definition by_size :: "cov_group list \<Rightarrow> cov_group list" where
  "by_size = sort_key (\<lambda>g. - cg_size g)"

text \<open>The prefixes beyond the largest are one group of their own.\<close>

definition merge_rest :: "cov_group list \<Rightarrow> cov_group" where
  "merge_rest rest = \<lparr> cg_name = ''other ('' @ str_d (int (length rest)) @ '')'', cg_size = sum_list (map cg_size rest),
     cg_instr = sum_list (map cg_instr rest), cg_seen = sum_list (map cg_seen rest),
     cg_funcs = concat (map cg_funcs rest) \<rparr>"

definition trim_group :: "cov_group \<Rightarrow> cov_group" where
  "trim_group g = g\<lparr>cg_funcs := take 512 (sort_key (\<lambda>f. - cf_size f) (cg_funcs g))\<rparr>"

definition kept_groups :: "nat \<Rightarrow> cov_group list \<Rightarrow> cov_group list" where
  "kept_groups keep gs = (let sorted_gs = by_size gs; rest = drop keep sorted_gs in
     map trim_group (take keep sorted_gs @ (if rest = [] then [] else [merge_rest rest])))"

definition close_region :: "nat \<Rightarrow> cov_region \<Rightarrow> cov_out" where
  "close_region keep r = \<lparr> co_name = cr_name r, co_size = cr_size r, co_instr = cr_instr r, co_funcs = cr_funcs r,
     co_seen = cr_seen r, co_groups = kept_groups keep (map snd (cr_groups r)) \<rparr>"

definition coverage_tree :: "insight_state \<Rightarrow> code_region_doc list \<Rightarrow> nat \<Rightarrow> exn + cov_result" where
  "coverage_tree ins docs keep =
     (if st_addrs (is_symbols ins) = [] then Inr No_Symbols
      else case open_regions (if docs = [] then whole_space else docs) of
          Inl e \<Rightarrow> Inl e
        | Inr regions \<Rightarrow>
            let s = fold (add_symbol (is_func_counts ins)) (sym_sizes (is_symbols ins))
                      \<lparr> cs_regions = regions, cs_clamped = 0, cs_outside = 0 \<rparr> in
            Inr (Cov_Map \<lparr> cm_regions = map (close_region keep) (filter (\<lambda>r. cr_size r \<noteq> 0) (cs_regions s)),
              cm_total_instr = is_total_instr ins, cm_windows = is_windows ins, cm_clamped = cs_clamped s,
              cm_outside = cs_outside s \<rparr>))"

section \<open>What the map should show\<close>

definition size_of :: "cov_func list \<Rightarrow> int" where
  "size_of fs = sum_list (map cf_size fs)"

definition instr_of :: "cov_func list \<Rightarrow> nat" where
  "instr_of fs = sum_list (map cf_instr fs)"

definition seen_of :: "cov_func list \<Rightarrow> nat" where
  "seen_of fs = length (filter (\<lambda>f. cf_instr f \<noteq> 0) fs)"

definition func_prefix :: "cov_func \<Rightarrow> string" where
  "func_prefix f = name_prefix (cf_name f)"

text \<open>A group shows its part of the functions: their sums, and the 512 largest by name.\<close>

definition shows_part :: "cov_func list \<Rightarrow> cov_group \<Rightarrow> bool" where
  "shows_part fs g \<longleftrightarrow> cg_size g = size_of fs \<and> cg_instr g = instr_of fs \<and> cg_seen g = seen_of fs \<and>
     cg_funcs g = take 512 (sort_key (\<lambda>f. - cf_size f) fs)"

text \<open>The groups of a region: its functions are divided among them with none left over, the first ones hold
  all functions of one prefix each, in falling size, and no prefix outside them is larger.\<close>

definition shows_groups :: "nat \<Rightarrow> cov_func list \<Rightarrow> cov_group list \<Rightarrow> bool" where
  "shows_groups keep fs gs \<longleftrightarrow> length gs \<le> keep + 1 \<and>
     (\<exists>parts. list_all2 shows_part parts gs \<and> mset (concat parts) = mset fs \<and>
        take keep parts = map (\<lambda>g. filter (\<lambda>f. func_prefix f = cg_name g) fs) (take keep gs)) \<and>
     sorted (map (\<lambda>g. - cg_size g) (take keep gs)) \<and>
     (\<forall>f\<in>set fs. func_prefix f \<notin> cg_name ` set (take keep gs) \<longrightarrow>
        (\<forall>g\<in>set (take keep gs). size_of (filter (\<lambda>h. func_prefix h = func_prefix f) fs) \<le> cg_size g))"

definition shows_region :: "nat \<Rightarrow> string \<times> cov_func list \<Rightarrow> cov_out \<Rightarrow> bool" where
  "shows_region keep nf r \<longleftrightarrow> co_name r = fst nf \<and> co_size r = size_of (snd nf) \<and> co_instr r = instr_of (snd nf) \<and>
     co_seen r = seen_of (snd nf) \<and> co_funcs r = length (snd nf) \<and> shows_groups keep (snd nf) (co_groups r)"

text \<open>The rows of the symbol table: those of a positive size, the region that comes first for their address.\<close>

definition sized :: "string \<times> int \<times> int \<times> bool \<Rightarrow> bool" where
  "sized row \<longleftrightarrow> 0 < fst (snd (snd row))"

definition inside :: "cov_region list \<Rightarrow> string \<times> int \<times> int \<times> bool \<Rightarrow> bool" where
  "inside rs row \<longleftrightarrow> sized row \<and> list_ex (holds_addr (fst (snd row))) rs"

definition row_size :: "string \<times> int \<times> int \<times> bool \<Rightarrow> int" where
  "row_size row = fst (snd (snd row))"

definition row_instr :: "(int, nat) dict \<Rightarrow> string \<times> int \<times> int \<times> bool \<Rightarrow> nat" where
  "row_instr counts row = dict_get_or counts (fst (snd row)) 0"

definition row_func :: "(int, nat) dict \<Rightarrow> string \<times> int \<times> int \<times> bool \<Rightarrow> cov_func" where
  "row_func counts row = \<lparr> cf_name = fst row, cf_addr = fst (snd row), cf_size = row_size row, cf_instr = row_instr counts row \<rparr>"

definition first_region :: "cov_region list \<Rightarrow> int \<Rightarrow> nat" where
  "first_region rs a = length (takeWhile (\<lambda>r. \<not> holds_addr a r) rs)"

definition region_funcs :: "(int, nat) dict \<Rightarrow> cov_region list \<Rightarrow> (string \<times> int \<times> int \<times> bool) list \<Rightarrow> nat \<Rightarrow> cov_func list" where
  "region_funcs counts rs rows i =
     map (row_func counts) (filter (\<lambda>row. first_region rs (fst (snd row)) = i) (filter sized rows))"

section \<open>Sorting into regions and groups\<close>

text \<open>Elements divided by a key: nothing is lost, nothing counted twice.\<close>

lemma mset_filter_disj: "(\<And>x. x \<in> set xs \<Longrightarrow> \<not> (P x \<and> Q x)) \<Longrightarrow>
    mset (filter P xs) + mset (filter Q xs) = mset (filter (\<lambda>x. P x \<or> Q x) xs)"
  by (induction xs) auto

lemma mset_by_key:
  "distinct ps \<Longrightarrow> mset (concat (map (\<lambda>p. filter (\<lambda>x. key x = p) xs) ps)) = mset (filter (\<lambda>x. key x \<in> set ps) xs)"
proof (induction ps)
  case (Cons p ps)
  then show ?case using mset_filter_disj [of xs "\<lambda>x. key x = p" "\<lambda>x. key x \<in> set ps"] by auto
qed simp

lemma sums_of_mset: "mset fs = mset fs' \<Longrightarrow> size_of fs = size_of fs' \<and> instr_of fs = instr_of fs' \<and> seen_of fs = seen_of fs' \<and> length fs = length fs'"
proof (intro conjI)
  assume m: "mset fs = mset fs'"
  then have i: "image_mset h (mset fs) = image_mset h (mset fs')" for h :: "cov_func \<Rightarrow> 'x" by simp
  show "size_of fs = size_of fs'" unfolding size_of_def sum_mset_sum_list [symmetric] mset_map i ..
  show "instr_of fs = instr_of fs'" unfolding instr_of_def sum_mset_sum_list [symmetric] mset_map i ..
  show "seen_of fs = seen_of fs'" unfolding seen_of_def size_mset [symmetric] mset_filter m ..
  show "length fs = length fs'" using m by (rule mset_eq_length)
qed

lemma sums_append [simp]:
  "size_of [] = 0" "instr_of [] = 0" "seen_of [] = 0" "size_of (xs @ ys) = size_of xs + size_of ys"
  "instr_of (xs @ ys) = instr_of xs + instr_of ys" "seen_of (xs @ ys) = seen_of xs + seen_of ys"
  by (simp_all add: size_of_def instr_of_def seen_of_def)

lemma sums_concat:
  "size_of (concat xss) = sum_list (map size_of xss)" "instr_of (concat xss) = sum_list (map instr_of xss)"
  "seen_of (concat xss) = sum_list (map seen_of xss)"
  by (induction xss) simp_all

text \<open>The groups of a list of functions, in the order of their first function.\<close>

definition cov_prefixes :: "cov_func list \<Rightarrow> string list" where
  "cov_prefixes fs = rev (remdups (rev (map func_prefix fs)))"

definition group_of :: "cov_func list \<Rightarrow> string \<Rightarrow> cov_group" where
  "group_of fs p = (let gf = filter (\<lambda>f. func_prefix f = p) fs in
     \<lparr> cg_name = p, cg_size = size_of gf, cg_instr = instr_of gf, cg_seen = seen_of gf, cg_funcs = gf \<rparr>)"

definition region_holds :: "cov_func list \<Rightarrow> cov_region \<Rightarrow> bool" where
  "region_holds fs r \<longleftrightarrow> cr_groups r = map (\<lambda>p. (p, group_of fs p)) (cov_prefixes fs) \<and> cr_size r = size_of fs \<and>
     cr_instr r = instr_of fs \<and> cr_seen r = seen_of fs \<and> cr_funcs r = length fs"

lemma prefixes_facts:
  "distinct (cov_prefixes fs)" "set (cov_prefixes fs) = func_prefix ` set fs"
  "cov_prefixes (fs @ [f]) = (if func_prefix f \<in> set (cov_prefixes fs) then cov_prefixes fs else cov_prefixes fs @ [func_prefix f])"
  by (auto simp: cov_prefixes_def)

lemma dict_set_map:
  "distinct ps \<Longrightarrow> dict_set p v (map (\<lambda>q. (q, h q)) ps) =
     (if p \<in> set ps then map (\<lambda>q. (q, if q = p then v else h q)) ps else map (\<lambda>q. (q, h q)) ps @ [(p, v)])"
  by (induction ps) auto

lemma group_of_snoc:
  "group_of (fs @ [f]) p = (if p = func_prefix f then add_to_group f (group_of fs p) else group_of fs p)"
  by (simp add: group_of_def add_to_group_def Let_def size_of_def instr_of_def seen_of_def)

lemma group_of_none: "p \<notin> set (cov_prefixes fs) \<Longrightarrow> group_of fs p = empty_group p"
proof -
  assume "p \<notin> set (cov_prefixes fs)"
  then have "filter (\<lambda>f. func_prefix f = p) fs = []" by (auto simp: prefixes_facts(2) filter_empty_conv)
  then show ?thesis by (simp add: group_of_def empty_group_def size_of_def instr_of_def seen_of_def)
qed

lemma region_holds_add:
  assumes "region_holds fs r"
  shows "region_holds (fs @ [f]) (add_to_region f r)"
proof -
  let ?p = "func_prefix f" and ?h = "group_of fs"
  have g: "cr_groups r = map (\<lambda>p. (p, ?h p)) (cov_prefixes fs)" using assms by (simp add: region_holds_def)
  have "(case dict_get (cr_groups r) ?p of None \<Rightarrow> empty_group ?p | Some g \<Rightarrow> g) = ?h ?p"
    using group_of_none [of ?p fs] by (auto simp: g dict_get_def map_of_map_restrict restrict_map_def)
  then have "cr_groups (add_to_region f r) = dict_set ?p (add_to_group f (?h ?p)) (map (\<lambda>p. (p, ?h p)) (cov_prefixes fs))"
    by (simp add: add_to_region_def Let_def g flip: func_prefix_def)
  also have "\<dots> = map (\<lambda>p. (p, group_of (fs @ [f]) p)) (cov_prefixes (fs @ [f]))"
    unfolding dict_set_map [OF prefixes_facts(1)] prefixes_facts(3) group_of_snoc by (auto intro: map_cong)
  finally show ?thesis
    using assms by (simp add: region_holds_def add_to_region_def Let_def size_of_def instr_of_def seen_of_def)
qed

lemma region_holds_new: "region_holds [] r \<longleftrightarrow> cr_groups r = [] \<and> cr_size r = 0 \<and> cr_instr r = 0 \<and> cr_seen r = 0 \<and> cr_funcs r = 0"
  by (simp add: region_holds_def cov_prefixes_def size_of_def instr_of_def seen_of_def)

text \<open>The symbols one by one.\<close>

lemma place_first: "place f rs = (let i = first_region rs (cf_addr f) in if i < length rs then rs[i := add_to_region f (rs ! i)] else rs)"
  by (induction rs) (auto simp: first_region_def Let_def)

lemma first_region_ex: "list_ex (holds_addr a) rs \<longleftrightarrow> first_region rs a < length rs"
  by (induction rs) (auto simp: first_region_def)

definition bounds :: "cov_region \<Rightarrow> string \<times> int \<times> int" where
  "bounds r = (cr_name r, cr_lo r, cr_hi r)"

lemma first_region_bounds: "map bounds rs = map bounds rs' \<Longrightarrow> first_region rs a = first_region rs' a"
proof -
  assume e: "map bounds rs = map bounds rs'"
  have "takeWhile (\<lambda>(n, lo, hi). \<not> (lo \<le> a \<and> a < hi)) (map bounds rs) = map bounds (takeWhile (\<lambda>r. \<not> holds_addr a r) rs)" for rs
    by (simp add: takeWhile_map comp_def bounds_def holds_addr_def)
  then show ?thesis unfolding first_region_def by (metis e length_map)
qed

definition state_holds :: "(int, nat) dict \<Rightarrow> cov_region list \<Rightarrow> (string \<times> int \<times> int \<times> bool) list \<Rightarrow> cov_state \<Rightarrow> bool" where
  "state_holds counts rs rows s \<longleftrightarrow> map bounds (cs_regions s) = map bounds rs \<and>
     (\<forall>i<length rs. region_holds (region_funcs counts rs rows i) (cs_regions s ! i)) \<and>
     cs_clamped s = length (filter (\<lambda>row. inside rs row \<and> snd (snd (snd row))) rows) \<and>
     cs_outside s = length (filter (\<lambda>row. sized row \<and> \<not> inside rs row) rows)"

lemma state_holds_add:
  assumes "state_holds counts rs rows s"
  shows "state_holds counts rs (rows @ [row]) (add_symbol counts row s)"
proof -
  obtain name addr sz cl where row: "row = (name, addr, sz, cl)" by (cases row)
  have b: "map bounds (cs_regions s) = map bounds rs" and len: "length (cs_regions s) = length rs"
    using assms by (simp add: state_holds_def) (metis assms length_map state_holds_def)
  note fr = first_region_bounds [OF b]
  show ?thesis
  proof (cases "inside rs row")
    case False
    then have "add_symbol counts row s = (if sized row then s\<lparr>cs_outside := cs_outside s + 1\<rparr> else s)"
      by (auto simp: add_symbol_def row inside_def sized_def first_region_ex fr len)
    moreover have "region_funcs counts rs (rows @ [row]) i = region_funcs counts rs rows i" if "i < length rs" for i
      using False that by (auto simp: region_funcs_def inside_def first_region_ex)
    ultimately show ?thesis using assms False by (auto simp: state_holds_def)
  next
    case True
    let ?f = "row_func counts row" and ?i = "first_region rs addr"
    have i: "?i < length rs" "sized row" using True by (simp_all add: inside_def first_region_ex row)
    have a: "add_symbol counts row s = s\<lparr> cs_clamped := cs_clamped s + (if cl then 1 else 0),
        cs_regions := (cs_regions s)[?i := add_to_region ?f (cs_regions s ! ?i)] \<rparr>"
      using i by (simp add: add_symbol_def row sized_def first_region_ex fr len place_first row_func_def row_size_def
          row_instr_def Let_def)
    have "bounds (add_to_region ?f r) = bounds r" for r by (simp add: bounds_def add_to_region_def Let_def)
    then have "map bounds ((cs_regions s)[?i := add_to_region ?f (cs_regions s ! ?i)]) = map bounds rs"
      using i(1) len unfolding map_update \<open>\<And>r. bounds (add_to_region ?f r) = bounds r\<close> b [symmetric] by (metis list_update_id nth_map)
    moreover have "region_holds (region_funcs counts rs (rows @ [row]) j) ((cs_regions s)[?i := add_to_region ?f (cs_regions s ! ?i)] ! j)"
      if "j < length rs" for j
    proof (cases "j = ?i")
      case True
      then have "region_funcs counts rs (rows @ [row]) j = region_funcs counts rs rows j @ [?f]"
        using i(2) by (simp add: region_funcs_def row)
      then show ?thesis using assms that True len region_holds_add by (simp add: state_holds_def)
    next
      case False
      then show ?thesis using assms that by (simp add: state_holds_def region_funcs_def row)
    qed
    ultimately show ?thesis
      using assms True i(2) unfolding a by (simp add: state_holds_def) (simp add: row)
  qed
qed

lemma state_holds_fold:
  "state_holds counts rs done s \<Longrightarrow> state_holds counts rs (done @ rows) (fold (add_symbol counts) rows s)"
proof (induction rows arbitrary: "done" s)
  case (Cons row rows)
  from Cons.IH [OF state_holds_add [OF Cons.prems, of row]] show ?case by simp
qed simp

lemma open_regions_new: "open_regions ds = Inr rs \<Longrightarrow> \<forall>r\<in>set rs. region_holds [] r"
proof (induction ds arbitrary: rs)
  case (Cons d ds)
  then show ?case by (auto simp: open_region_def region_holds_new split: sum.splits)
qed simp

section \<open>The groups shown\<close>

lemma sum_by_size: "sum_list (map h (by_size gs)) = sum_list (map (h :: _ \<Rightarrow> 'a :: comm_monoid_add) gs)"
proof -
  have "sum_mset (mset (map h (by_size gs))) = sum_mset (mset (map h gs))" by (simp add: by_size_def)
  then show ?thesis by (simp only: sum_mset_sum_list)
qed

lemma kept_groups_show:
  "shows_groups keep fs (kept_groups keep (map (group_of fs) (cov_prefixes fs)))"
proof -
  let ?gs = "map (group_of fs) (cov_prefixes fs)"
  define sg where "sg = by_size ?gs"
  define rest where "rest = drop keep sg"
  define parts where "parts = map cg_funcs (take keep sg) @ (if rest = [] then [] else [concat (map cg_funcs rest)])"
  have out: "kept_groups keep ?gs = map trim_group (take keep sg @ (if rest = [] then [] else [merge_rest rest]))"
    by (simp add: kept_groups_def Let_def sg_def rest_def)
  have set_sg: "set sg = group_of fs ` set (cov_prefixes fs)" by (simp add: sg_def by_size_def)
  have sums: "cg_size g = size_of (cg_funcs g)" "cg_instr g = instr_of (cg_funcs g)" "cg_seen g = seen_of (cg_funcs g)"
    "cg_funcs g = filter (\<lambda>f. func_prefix f = cg_name g) fs" if "g \<in> set sg" for g
    using that by (auto simp: set_sg group_of_def Let_def)
  have few: "rest \<noteq> [] \<Longrightarrow> keep \<le> length sg" by (simp add: rest_def)
  have tk: "take keep (kept_groups keep ?gs) = map trim_group (take keep sg)"
    using few by (simp add: out take_map)
  have tp: "take keep parts = map cg_funcs (take keep sg)" using few by (simp add: parts_def)
  have trim: "shows_part xs (trim_group g)" if "cg_size g = size_of xs" "cg_instr g = instr_of xs" "cg_seen g = seen_of xs" "cg_funcs g = xs" for g xs
    using that by (simp add: shows_part_def trim_group_def)
  have one: "shows_part (cg_funcs g) (trim_group g)" if "g \<in> set sg" for g
    by (rule trim [OF sums(1-3) [OF that] refl])
  have kept: "list_all2 shows_part (map cg_funcs gs) (map trim_group gs)" if "set gs \<subseteq> set sg" for gs
    using that by (induction gs) (simp_all add: one)
  have s: "set (take keep sg) \<subseteq> set sg" "set rest \<subseteq> set sg" by (auto simp: rest_def dest: in_set_takeD in_set_dropD)
  have m: "map cg_size rest = map (size_of \<circ> cg_funcs) rest" "map cg_instr rest = map (instr_of \<circ> cg_funcs) rest"
      "map cg_seen rest = map (seen_of \<circ> cg_funcs) rest"
    using sums s(2) by auto
  have "shows_part (concat (map cg_funcs rest)) (trim_group (merge_rest rest))"
    by (rule trim) (simp_all add: merge_rest_def sums_concat m)
  then have all: "list_all2 shows_part parts (kept_groups keep ?gs)"
    using kept [OF s(1)] by (simp add: parts_def out list_all2_appendI)
  have "concat parts = concat (map cg_funcs (take keep sg @ rest))" by (simp add: parts_def)
  also have "\<dots> = concat (map cg_funcs sg)" by (simp add: rest_def)
  finally have "mset (concat parts) = sum_list (map (mset \<circ> cg_funcs) sg)" by (simp add: mset_concat)
  also have "\<dots> = sum_list (map (mset \<circ> cg_funcs) ?gs)" unfolding sg_def by (rule sum_by_size)
  also have "\<dots> = mset (concat (map (\<lambda>p. filter (\<lambda>f. func_prefix f = p) fs) (cov_prefixes fs)))"
    by (simp add: mset_concat comp_def group_of_def Let_def)
  also have "\<dots> = mset (filter (\<lambda>f. func_prefix f \<in> set (cov_prefixes fs)) fs)" by (rule mset_by_key [OF prefixes_facts(1)])
  also have "filter (\<lambda>f. func_prefix f \<in> set (cov_prefixes fs)) fs = fs" by (simp add: prefixes_facts(2))
  finally have ms: "mset (concat parts) = mset fs" .
  have names: "take keep parts = map (\<lambda>g. filter (\<lambda>f. func_prefix f = cg_name g) fs) (take keep (kept_groups keep ?gs))"
    unfolding tk tp using sums(4) s(1) by (auto simp: trim_group_def)
  have srt: "sorted (map (\<lambda>g. - cg_size g) (take keep sg @ rest))"
    by (simp add: rest_def sg_def by_size_def)
  have cut: "cg_size g' \<le> cg_size g" if "g \<in> set (take keep sg)" "g' \<in> set rest" for g g'
    using srt that by (auto simp: sorted_append)
  have small: "size_of (filter (\<lambda>h. func_prefix h = func_prefix f) fs) \<le> cg_size g"
    if f: "f \<in> set fs" "func_prefix f \<notin> cg_name ` set (take keep (kept_groups keep ?gs))" "g \<in> set (take keep (kept_groups keep ?gs))" for f g
  proof -
    let ?g = "group_of fs (func_prefix f)"
    have n: "cg_name ?g = func_prefix f" "cg_size ?g = size_of (filter (\<lambda>h. func_prefix h = func_prefix f) fs)"
      by (simp_all add: group_of_def Let_def)
    have "?g \<in> set sg" using f(1) by (simp add: set_sg prefixes_facts(2))
    moreover have "set sg = set (take keep sg) \<union> set rest" unfolding rest_def by (metis append_take_drop_id set_append)
    moreover have "?g \<notin> set (take keep sg)" using f(2) n(1) unfolding tk by (force simp: trim_group_def)
    ultimately have "?g \<in> set rest" by blast
    moreover obtain g0 where "g0 \<in> set (take keep sg)" "cg_size g = cg_size g0"
      using f(3) unfolding tk by (auto simp: trim_group_def)
    ultimately show ?thesis using cut n(2) by metis
  qed
  have "sorted (map (\<lambda>g. - cg_size g) (take keep (kept_groups keep ?gs)))"
    using srt unfolding tk by (simp add: sorted_append comp_def trim_group_def)
  moreover have "length (kept_groups keep ?gs) \<le> keep + 1" by (simp add: out min_def)
  ultimately show ?thesis unfolding shows_groups_def using all ms names small by blast
qed

lemma close_region_shows: "region_holds fs r \<Longrightarrow> shows_region keep (cr_name r, fs) (close_region keep r)"
  using kept_groups_show [of keep fs] by (simp add: shows_region_def close_region_def region_holds_def comp_def)

text \<open>What is shown adds up.\<close>

lemma shows_part_sums:
  "list_all2 shows_part parts gs \<Longrightarrow> sum_list (map cg_size gs) = size_of (concat parts) \<and>
     sum_list (map cg_instr gs) = instr_of (concat parts) \<and> sum_list (map cg_seen gs) = seen_of (concat parts)"
  by (induction rule: list_all2_induct) (simp_all add: shows_part_def sums_concat)

lemma shows_region_sums:
  assumes "shows_region keep nf r"
  shows "sum_list (map cg_size (co_groups r)) = co_size r \<and> sum_list (map cg_instr (co_groups r)) = co_instr r \<and>
    sum_list (map cg_seen (co_groups r)) = co_seen r \<and> length (co_groups r) \<le> keep + 1"
proof -
  obtain parts where p: "list_all2 shows_part parts (co_groups r)" "mset (concat parts) = mset (snd nf)"
    using assms by (auto simp: shows_region_def shows_groups_def)
  show ?thesis
    using shows_part_sums [OF p(1)] sums_of_mset [OF p(2)] assms by (simp add: shows_region_def shows_groups_def)
qed

lemma shows_regions_sums:
  "list_all2 (shows_region keep) nfs rs \<Longrightarrow> sum_list (map co_funcs rs) = length (concat (map snd nfs)) \<and>
     sum_list (map co_size rs) = size_of (concat (map snd nfs)) \<and> sum_list (map co_instr rs) = instr_of (concat (map snd nfs))"
  by (induction rule: list_all2_induct) (simp_all add: shows_region_def sums_concat)

lemma shows_regions_each:
  "list_all2 (shows_region keep) nfs rs \<Longrightarrow> \<forall>r\<in>set rs. sum_list (map cg_size (co_groups r)) = co_size r \<and>
     sum_list (map cg_instr (co_groups r)) = co_instr r \<and> sum_list (map cg_seen (co_groups r)) = co_seen r \<and>
     length (co_groups r) \<le> keep + 1"
  by (induction rule: list_all2_induct) (auto dest!: shows_region_sums)

lemma concat_nonempty: "concat (map snd (filter (\<lambda>nf. snd nf \<noteq> []) nfs)) = concat (map snd nfs)"
  by (induction nfs) auto

lemma region_funcs_all:
  "mset (concat (map (region_funcs counts rs rows) [0..<length rs])) = mset (map (row_func counts) (filter (inside rs) rows))"
proof -
  let ?k = "\<lambda>row :: string \<times> int \<times> int \<times> bool. first_region rs (fst (snd row))"
  have f: "region_funcs counts rs rows = (\<lambda>i. map (row_func counts) (filter (\<lambda>row. ?k row = i) (filter sized rows)))"
    by (rule ext) (simp only: region_funcs_def)
  have "concat (map (region_funcs counts rs rows) [0..<length rs]) =
      map (row_func counts) (concat (map (\<lambda>i. filter (\<lambda>row. ?k row = i) (filter sized rows)) [0..<length rs]))"
    by (simp only: f map_concat list.map_comp comp_def)
  moreover have "mset (concat (map (\<lambda>i. filter (\<lambda>row. ?k row = i) (filter sized rows)) [0..<length rs]))
      = mset (filter (\<lambda>row. ?k row \<in> set [0..<length rs]) (filter sized rows))"
    by (rule mset_by_key) simp
  moreover have "filter (\<lambda>row. ?k row \<in> set [0..<length rs]) (filter sized rows) = filter (inside rs) rows"
    unfolding filter_filter by (rule filter_cong) (auto simp: inside_def first_region_ex)
  ultimately show ?thesis by (simp only: mset_map)
qed

lemma size_pos: "\<forall>f\<in>set fs. 0 < cf_size f \<Longrightarrow> size_of fs \<noteq> 0 \<longleftrightarrow> fs \<noteq> []"
proof -
  assume p: "\<forall>f\<in>set fs. 0 < cf_size f"
  then have "int (length fs) \<le> size_of fs" by (induction fs) (auto simp: size_of_def)
  then show ?thesis by (cases fs) (auto simp: size_of_def)
qed

lemma list_all2_filter:
  "length xs = length ys \<Longrightarrow> (\<And>i. i < length xs \<Longrightarrow> P (xs ! i) = Q (ys ! i) \<and> (P (xs ! i) \<longrightarrow> R (xs ! i) (f (ys ! i)))) \<Longrightarrow>
     list_all2 R (filter P xs) (map f (filter Q ys))"
proof (induction xs ys rule: list_induct2)
  case (Cons x xs y ys)
  have "list_all2 R (filter P xs) (map f (filter Q ys))" by (rule Cons.IH) (use Cons.prems [of "Suc _"] in auto)
  then show ?case using Cons.prems [of 0] by auto
qed simp

lemma coverage_tree_shows:
  assumes "coverage_tree ins docs keep = Inr (Cov_Map m)"
  shows "\<exists>rs. open_regions (if docs = [] then whole_space else docs) = Inr rs \<and>
     list_all2 (shows_region keep)
       (filter (\<lambda>nf. snd nf \<noteq> []) (map (\<lambda>i. (cr_name (rs ! i), region_funcs (is_func_counts ins) rs (sym_sizes (is_symbols ins)) i)) [0..<length rs]))
       (cm_regions m) \<and>
     cm_clamped m = length (filter (\<lambda>row. inside rs row \<and> snd (snd (snd row))) (sym_sizes (is_symbols ins))) \<and>
     cm_outside m = length (filter (\<lambda>row. sized row \<and> \<not> inside rs row) (sym_sizes (is_symbols ins)))"
proof -
  let ?rows = "sym_sizes (is_symbols ins)" and ?counts = "is_func_counts ins"
  obtain rs where rs: "open_regions (if docs = [] then whole_space else docs) = Inr rs"
    using assms by (auto simp: coverage_tree_def split: if_splits sum.splits)
  let ?s0 = "\<lparr> cs_regions = rs, cs_clamped = 0, cs_outside = 0 \<rparr>"
  define s where "s = fold (add_symbol ?counts) ?rows ?s0"
  have "state_holds ?counts rs [] ?s0"
    using open_regions_new [OF rs] by (simp add: state_holds_def region_funcs_def)
  from state_holds_fold [OF this] have s: "state_holds ?counts rs ?rows s" unfolding s_def by (metis append_Nil)
  have m: "cm_regions m = map (close_region keep) (filter (\<lambda>r. cr_size r \<noteq> 0) (cs_regions s))"
    "cm_clamped m = cs_clamped s" "cm_outside m = cs_outside s"
    using assms rs by (auto simp: coverage_tree_def s_def Let_def split: if_splits)
  have len: "length (cs_regions s) = length rs" using s unfolding state_holds_def by (metis length_map)
  have each: "((region_funcs ?counts rs ?rows i \<noteq> []) = (cr_size (cs_regions s ! i) \<noteq> 0)) \<and>
      shows_region keep (cr_name (rs ! i), region_funcs ?counts rs ?rows i) (close_region keep (cs_regions s ! i))" if i: "i < length rs" for i
  proof -
    have h: "region_holds (region_funcs ?counts rs ?rows i) (cs_regions s ! i)" using s i by (simp add: state_holds_def)
    have "map bounds (cs_regions s) ! i = map bounds rs ! i" using s by (simp add: state_holds_def)
    then have "cr_name (cs_regions s ! i) = cr_name (rs ! i)" using i len by (simp add: bounds_def)
    moreover have "\<forall>f\<in>set (region_funcs ?counts rs ?rows i). 0 < cf_size f"
      by (auto simp: region_funcs_def row_func_def sized_def row_size_def)
    ultimately show ?thesis using h close_region_shows [OF h, of keep] size_pos by (simp add: region_holds_def)
  qed
  have "list_all2 (shows_region keep)
       (filter (\<lambda>nf. snd nf \<noteq> []) (map (\<lambda>i. (cr_name (rs ! i), region_funcs ?counts rs ?rows i)) [0..<length rs]))
       (cm_regions m)"
    unfolding m(1) by (rule list_all2_filter) (use each len in simp_all)
  then show ?thesis using rs s m(2,3) by (auto simp: state_holds_def)
qed

section \<open>Properties\<close>

text \<open>C40: The coverage map withholds nothing: each region with code in it is shown, in order, with exactly the
  sized symbols whose address it is the first to hold; its groups divide these functions with none left over,
  the first ones by one prefix each and the largest first, the last one the rest; every group carries the sums
  of all its functions and lists the 512 largest of them. Over all regions the functions, their sizes and
  their instructions are exactly those of the sized symbols inside some code region, the clamped ones and the
  sized symbols outside are counted.\<close>

theorem coverage_conserves:
  assumes "coverage_tree ins docs keep = Inr (Cov_Map m)"
  shows "\<exists>rs. open_regions (if docs = [] then whole_space else docs) = Inr rs \<and>
    (let rows = sym_sizes (is_symbols ins); ins_rows = filter (inside rs) rows;
         parts = map (\<lambda>i. (cr_name (rs ! i), region_funcs (is_func_counts ins) rs rows i)) [0..<length rs] in
     list_all2 (shows_region keep) (filter (\<lambda>nf. snd nf \<noteq> []) parts) (cm_regions m) \<and>
     mset (concat (map snd parts)) = mset (map (row_func (is_func_counts ins)) ins_rows) \<and>
     (\<forall>r\<in>set (cm_regions m). sum_list (map cg_size (co_groups r)) = co_size r \<and>
        sum_list (map cg_instr (co_groups r)) = co_instr r \<and> sum_list (map cg_seen (co_groups r)) = co_seen r \<and>
        length (co_groups r) \<le> keep + 1) \<and>
     sum_list (map co_funcs (cm_regions m)) = length ins_rows \<and>
     sum_list (map co_size (cm_regions m)) = sum_list (map row_size ins_rows) \<and>
     sum_list (map co_instr (cm_regions m)) = sum_list (map (row_instr (is_func_counts ins)) ins_rows) \<and>
     cm_clamped m = length (filter (\<lambda>row. snd (snd (snd row))) ins_rows) \<and>
     length ins_rows + cm_outside m = length (filter sized rows))"
proof -
  let ?rows = "sym_sizes (is_symbols ins)" and ?counts = "is_func_counts ins"
  obtain rs where rs: "open_regions (if docs = [] then whole_space else docs) = Inr rs"
    "list_all2 (shows_region keep)
       (filter (\<lambda>nf. snd nf \<noteq> []) (map (\<lambda>i. (cr_name (rs ! i), region_funcs ?counts rs ?rows i)) [0..<length rs])) (cm_regions m)"
    "cm_clamped m = length (filter (\<lambda>row. inside rs row \<and> snd (snd (snd row))) ?rows)"
    "cm_outside m = length (filter (\<lambda>row. sized row \<and> \<not> inside rs row) ?rows)"
    using coverage_tree_shows [OF assms] by blast
  let ?all = "concat (map (region_funcs ?counts rs ?rows) [0..<length rs])"
  have cc: "concat (map snd (filter (\<lambda>nf. snd nf \<noteq> []) (map (\<lambda>i. (cr_name (rs ! i), region_funcs ?counts rs ?rows i)) [0..<length rs]))) = ?all"
    unfolding concat_nonempty by (simp add: comp_def)
  note ms = region_funcs_all [of ?counts rs ?rows]
  note tot = shows_regions_sums [OF rs(2), unfolded cc] sums_of_mset [OF ms]
  have each: "\<forall>r\<in>set (cm_regions m). sum_list (map cg_size (co_groups r)) = co_size r \<and>
        sum_list (map cg_instr (co_groups r)) = co_instr r \<and> sum_list (map cg_seen (co_groups r)) = co_seen r \<and>
        length (co_groups r) \<le> keep + 1"
    by (rule shows_regions_each [OF rs(2)])
  have split: "length (filter (inside rs) xs) + length (filter (\<lambda>row. sized row \<and> \<not> inside rs row) xs) = length (filter sized xs)" for xs
    by (induction xs) (auto simp: inside_def)
  have sums: "size_of (map (row_func ?counts) xs) = sum_list (map row_size xs)"
    "instr_of (map (row_func ?counts) xs) = sum_list (map (row_instr ?counts) xs)" for xs
    by (simp_all add: size_of_def instr_of_def row_func_def comp_def)
  have cl: "filter (\<lambda>row. snd (snd (snd row))) (filter (inside rs) ?rows) = filter (\<lambda>row. inside rs row \<and> snd (snd (snd row))) ?rows"
    by (simp add: conj_commute)
  show ?thesis
    unfolding Let_def
    by (intro exI [of _ rs] conjI)
       (use rs ms tot each split [of ?rows] in \<open>simp_all add: sums cl comp_def\<close>)
qed

definition cover_insight :: insight_state where
  "cover_insight = insight_init\<lparr> is_symbols := \<lparr> st_addrs = [0x100, 0x180, 0x200, 0x9000], st_names = [''fdt_a'', ''fdt_b'', ''main'', ''far''],
     st_ends = [0x180, 0x200, 0x240, 0xA000], st_source = None \<rparr>, is_func_counts := [(0x180, 7), (0x200, 5)] \<rparr>"

definition cover_docs :: "code_region_doc list" where
  "cover_docs = [\<lparr> kr_name = ''ram'', kr_base = A_Int 0x100, kr_size = A_Int 0x1000 \<rparr>]"

lemma cover_facts:
  "\<exists>m. coverage_tree cover_insight cover_docs 1 = Inr (Cov_Map m) \<and> map co_size (cm_regions m) = [0x140] \<and>
     map co_instr (cm_regions m) = [12] \<and> map (map cg_size \<circ> co_groups) (cm_regions m) = [[0x100, 0x40]] \<and> cm_outside m = 1"
  by (rule exI [of _ "(case projr (coverage_tree cover_insight cover_docs 1) of Cov_Map m \<Rightarrow> m)"]) code_simp

lemma coverage_conserves_witness:
  "\<exists>m. coverage_tree cover_insight cover_docs 1 = Inr (Cov_Map m) \<and>
     (\<forall>r\<in>set (cm_regions m). sum_list (map cg_size (co_groups r)) = co_size r) \<and>
     length (filter sized (sym_sizes (is_symbols cover_insight))) = sum_list (map co_funcs (cm_regions m)) + 1"
  using cover_facts coverage_conserves [of cover_insight cover_docs 1] by (fastforce simp: Let_def)

end
