(* ===== verification/Guest_Console.thy ===== *)
theory Guest_Console
  imports Console_Reader
begin

unbundle bit_operations_syntax

text \<open>
  The console endpoint of the dashboard: what a browser is sent that asks for the text behind the position it
  was given last (\<open>/api/console\<close>), and the characters typed for the guest (\<open>_console_tx\<close>).
\<close>

section \<open>The text for the browser\<close>

record console_reply =
  cv_since :: int
  cv_total :: nat
  cv_held :: nat
  cv_drops :: int
  cv_next :: nat
  cv_lost :: nat
  cv_trimmed :: nat
  cv_text :: "byte list"
  cv_interactive :: bool
  cv_capacity :: int

text \<open>\<open>raw[since:]\<close>, a negative position counting from the end.\<close>

definition slice_from :: "int \<Rightarrow> 'a list \<Rightarrow> 'a list" where
  "slice_from since xs = drop (nat (if since < 0 then int (length xs) + since else since)) xs"

definition console_view :: "bool \<Rightarrow> scenario \<Rightarrow> int \<Rightarrow> con_reader \<Rightarrow> console_reply" where
  "console_view demo sc since r =
     \<lparr> cv_since = since, cv_total = cr_total r, cv_held = length (cr_buf r), cv_drops = cr_drops r,
       cv_next = length (cr_buf r), cv_lost = cr_lost r, cv_trimmed = cr_dropped_head r,
       cv_text = (if since < int (length (cr_buf r)) then slice_from since (cr_buf r) else []),
       cv_interactive = interactive_now demo sc r,
       cv_capacity = (case sd_console (sc_raw sc) of None \<Rightarrow> 0 | Some c \<Rightarrow> opt_or (cd_size c) 0) \<rparr>"

definition api_console :: "'b trace_bus \<Rightarrow> scenario \<Rightarrow> int \<Rightarrow> ('b con_state, console_reply) act" where
  "api_console tb sc since =
     andthen (con_poll tb sc) (bnd get_state (\<lambda>(r, b). ret (console_view (db_demo (tb_bus tb)) sc since r)))"

section \<open>Input for the guest\<close>

record tx_reply =
  tx_sent :: nat
  tx_dropped :: nat

text \<open>The fill level first: a character written into a full FIFO would be gone.\<close>

fun tx_loop :: "'b dash_bus \<Rightarrow> int \<Rightarrow> nat \<Rightarrow> nat \<Rightarrow> byte list \<Rightarrow> ('b, tx_reply) act" where
  "tx_loop bus off len sent [] = ret \<lparr> tx_sent = sent, tx_dropped = 0 \<rparr>"
| "tx_loop bus off len sent (ch # chs) =
     bnd (read1 bus ''ctrl'' off) (\<lambda>w.
       if 250 \<le> w AND 0xFFFF then ret \<lparr> tx_sent = sent, tx_dropped = len - sent \<rparr>
       else andthen (db_write bus ''ctrl'' off (0x100 OR int (unat ch))) (tx_loop bus off len (sent + 1) chs))"

definition console_tx :: "'b dash_bus \<Rightarrow> scenario \<Rightarrow> string option \<Rightarrow> con_reader \<Rightarrow> byte list \<Rightarrow> ('b, tx_reply) act" where
  "console_tx bus sc tx_reg r encoded =
     (if sd_console (sc_raw sc) = None then raise (Exn ValueError ''scenario has no console'' [AS (sc_id sc)])
      else if \<not> interactive_now (db_demo bus) sc r then raise (Exn ValueError ''input not possible'' [])
      else case co sc (opt_or tx_reg []) of
          None \<Rightarrow> raise (Exn ValueError ''scenario has no CON_TX register'' [])
        | Some off \<Rightarrow> let payload = take 4096 encoded in tx_loop bus off (length payload) 0 payload)"

section \<open>Properties\<close>

lemma drop_last_n_append:
  assumes "length xs \<le> m"
  shows "drop (length xs) (last_n m (xs @ ys)) = last_n (min (length ys) (m - length xs)) ys"
proof -
  have k: "length ys - min (length ys) (m - length xs) = length (xs @ ys) - m" using assms by simp
  have "drop (length xs) (drop k (xs @ ys)) = drop k ys" for k
  proof -
    have "drop (length xs) (drop k (xs @ ys)) = drop (length xs + k) (xs @ ys)" by (simp only: drop_drop)
    then show ?thesis by simp
  qed
  then show ?thesis unfolding last_n_def k .
qed

lemma last_n_last_n: "last_n m (last_n n xs) = last_n (min m n) xs"
proof -
  have "length xs - n + (min n (length xs) - m) = length xs - min m n" by arith
  then show ?thesis by (simp add: last_n_def add.commute min_def split: if_splits)
qed

lemma view_text:
  "cv_text (console_view demo sc (int n) r) = drop n (cr_buf r)"
  by (simp add: console_view_def slice_from_def)

text \<open>What a browser that asks behind its last position is sent for the new characters of a poll: all of
  them while the recording holds at most its four MiB; of the characters that overflow it, only as many as
  there was room for; so nothing at all, ever, once it is full.\<close>

lemma console_text_exact:
  assumes "con_inv region cap s S" "reader_ok r S0" "prefix S0 S" "cr_total r = length S0"
    "length S - length S0 \<le> cap" "con_record hw_trace_bus region cap (length S) (r, s) = (q, (r', s'))"
  shows "cv_text (console_view demo sc (int (cv_next (console_view demo sc since r))) r') =
     last_n (min (length S - length S0) (MAX_BUF - length (cr_buf r))) S"
proof -
  let ?n = "length S - length S0" and ?b = "length (cr_buf r)"
  have r': "cr_buf r' = last_n MAX_BUF (cr_buf r @ last_n ?n S)"
    using con_record_step [OF assms(1-4)] assms(5,6) by (auto simp: min_def)
  have b: "?b \<le> MAX_BUF" using assms(2) by (simp add: reader_ok_def)
  have n: "?n \<le> length S" by simp
  have "drop ?b (last_n MAX_BUF (cr_buf r @ last_n ?n S)) = last_n (min ?n (MAX_BUF - ?b)) S"
    using drop_last_n_append [OF b, of "last_n ?n S"] by (simp add: last_n_last_n min.commute)
  then show ?thesis by (simp add: view_text r' console_view_def [of _ _ since])
qed

text \<open>The input FIFO of the guest, of which only this is known: reading its level says how many characters it
  holds, or more when the guest has taken some since; writing a character into it appends it while there is
  room.\<close>

definition rx_fifo :: "'b dash_bus \<Rightarrow> int \<Rightarrow> ('b \<Rightarrow> nat) \<Rightarrow> ('b \<Rightarrow> byte list) \<Rightarrow> bool" where
  "rx_fifo bus off level got \<longleftrightarrow>
     (\<forall>s. \<exists>w t. read1 bus ''ctrl'' off s = (Inr w, t) \<and> got t = got s \<and> int (level t) \<le> w AND 0xFFFF) \<and>
     (\<forall>s ch. \<exists>t. db_write bus ''ctrl'' off (0x100 OR int (unat ch)) s = (Inr (), t) \<and>
        (level s < 256 \<longrightarrow> got t = got s @ [ch]))"

lemma tx_loop_exact:
  assumes "rx_fifo bus off level got"
  shows "\<exists>k t. tx_loop bus off (sent + length chs) sent chs s =
       (Inr \<lparr> tx_sent = sent + k, tx_dropped = length chs - k \<rparr>, t) \<and> k \<le> length chs \<and> got t = got s @ take k chs"
proof (induction chs arbitrary: sent s)
  case Nil
  show ?case by (auto simp: ret_def)
next
  case (Cons ch chs)
  obtain w t where rd: "read1 bus ''ctrl'' off s = (Inr w, t)" "got t = got s" "int (level t) \<le> w AND 0xFFFF"
    using assms unfolding rx_fifo_def by blast
  show ?case
  proof (cases "250 \<le> w AND 0xFFFF")
    case True
    then show ?thesis using rd by (intro exI [of _ 0] exI [of _ t]) (simp add: bnd_def ret_def)
  next
    case False
    have "level t < 256" using rd(3) False by linarith
    moreover have "\<exists>u. db_write bus ''ctrl'' off (0x100 OR int (unat ch)) t = (Inr (), u) \<and>
        (level t < 256 \<longrightarrow> got u = got t @ [ch])"
      using assms unfolding rx_fifo_def by blast
    ultimately obtain u where wr: "db_write bus ''ctrl'' off (0x100 OR int (unat ch)) t = (Inr (), u)" "got u = got t @ [ch]"
      by blast
    obtain k v where ih: "tx_loop bus off (Suc sent + length chs) (Suc sent) chs u =
        (Inr \<lparr> tx_sent = Suc sent + k, tx_dropped = length chs - k \<rparr>, v)" "k \<le> length chs" "got v = got u @ take k chs"
      using Cons.IH [of "Suc sent" u] by blast
    show ?thesis
      using rd wr ih False by (intro exI [of _ "Suc k"] exI [of _ v]) (simp add: bnd_def andthen_def)
  qed
qed

text \<open>Typed characters are not lost silently: the guest's FIFO gets, in order, exactly the first \<open>sent\<close> of the
  (at most 4096) encoded characters, and the reply counts the rest as dropped.\<close>

lemma console_tx_exact:
  assumes "console_tx bus sc reg r encoded s = (Inr a, t)" "co sc (opt_or reg []) = Some off" "rx_fifo bus off level got"
  shows "got t = got s @ take (tx_sent a) encoded \<and> tx_sent a + tx_dropped a = min 4096 (length encoded)"
proof -
  let ?p = "take 4096 encoded"
  have l: "tx_loop bus off (0 + length ?p) 0 ?p s = (Inr a, t)"
    using assms(1,2) by (auto simp: console_tx_def Let_def raise_def split: if_splits)
  obtain k u where "tx_loop bus off (0 + length ?p) 0 ?p s = (Inr \<lparr> tx_sent = 0 + k, tx_dropped = length ?p - k \<rparr>, u)"
    "k \<le> length ?p" "got u = got s @ take k ?p"
    using tx_loop_exact [OF assms(3), of 0 ?p s] by blast
  with l show ?thesis by (auto simp: min_def split: if_splits)
qed

section \<open>Concrete inputs\<close>

text \<open>A FIFO that never fills because the guest takes every character at once.\<close>

definition eager_bus :: "byte list dash_bus" where
  "eager_bus = \<lparr> db_read = (\<lambda>region off n s. (Inr [0], s)),
     db_write = (\<lambda>region off v s. (Inr (), s @ [word_of_int v])),
     db_write_block = (\<lambda>region off bs. ret ()), db_demo = False \<rparr>"

lemma low_of_valid_char: "word_of_int (256 OR uint ch) = (ch :: 8 word)"
proof (rule bit_word_eqI)
  fix n
  assume "n < LENGTH(8)"
  then show "bit (word_of_int (256 OR uint ch) :: 8 word) n \<longleftrightarrow> bit ch n"
    using bit_exp_iff [where ?'a = int, of 8 n] by (simp add: bit_word_of_int_iff bit_or_iff bit_uint_iff)
qed

lemma eager_fifo: "rx_fifo eager_bus off (\<lambda>_. 0) id"
  by (auto simp: rx_fifo_def eager_bus_def read1_def bnd_def ret_def low_of_valid_char)

definition con_seen5 :: con_reader where
  "con_seen5 = con_reader0\<lparr>cr_buf := [0, 1, 2, 3, 4], cr_total := 5\<rparr>"

lemma console_text_exact_witness:
  "cv_text (console_view False con_sc 5 (fst (snd (con_record hw_trace_bus ''con'' 8 13 (con_seen5, con_hw))))) =
     [5, 6, 7, 8, 9, 10, 11, 12]"
proof -
  let ?S = "map word_of_nat [0..<13] :: byte list" and ?Told = "map word_of_nat [0..<5] :: byte list"
  obtain q r' s' where e: "con_record hw_trace_bus ''con'' 8 13 (con_seen5, con_hw) = (q, (r', s'))" by (metis prod.collapse)
  have b: "con_inv ''con'' 8 con_hw ?S" using con_ring_image by (simp add: con_inv_def con_hw_def dict_get_def)
  have d: "reader_ok con_seen5 ?Told" "cr_total con_seen5 = length ?Told"
    by (simp_all add: reader_ok_def con_seen5_def con_reader0_def MAX_BUF_def)
  have p: "prefix ?Told ?S" by (rule prefixI [of _ _ "map word_of_nat [5..<13]"]) code_simp
  have l: "last_n 8 ?S = [5, 6, 7, 8, 9, 10, 11, 12]" by code_simp
  have v: "cv_next (console_view False con_sc 0 con_seen5) = 5" by (simp add: console_view_def con_seen5_def con_reader0_def)
  have "length ?S = 13" "length ?S - length ?Told \<le> 8" "min (length ?S - length ?Told) (MAX_BUF - length (cr_buf con_seen5)) = 8"
    by (simp_all add: con_seen5_def con_reader0_def MAX_BUF_def)
  with v l e show ?thesis
    using console_text_exact [OF b d(1) p d(2), of q r' s' False con_sc 0] by simp
qed

lemma console_tx_exact_witness:
  "snd (console_tx eager_bus (con_sc\<lparr>sc_ctrl := [(''con_tx'', 8)]\<rparr>) (Some ''con_tx'') (con_seen5\<lparr>cr_rptr_ok := Some True\<rparr>) [72, 105] []) = [72, 105]"
proof -
  let ?sc = "con_sc\<lparr>sc_ctrl := [(''con_tx'', 8)]\<rparr>" and ?r = "con_seen5\<lparr>cr_rptr_ok := Some True\<rparr>"
  have e: "console_tx eager_bus ?sc (Some ''con_tx'') ?r [72, 105] [] = (Inr \<lparr> tx_sent = 2, tx_dropped = 0 \<rparr>, [72, 105])"
    by code_simp
  have o: "co ?sc (opt_or (Some ''con_tx'') []) = Some 8" by code_simp
  show ?thesis using console_tx_exact [OF e o eager_fifo] by (simp add: e)
qed

end
