(* ===== verification/Trio_Demux.thy ===== *)
theory Trio_Demux
  imports Etrace_Paths Py_Printf
begin

text \<open>
  The demultiplexer of the merged trace container (\<open>trio/tools/etrace_trio_demux.py\<close>): source tags and packets
  in one byte stream, one raw stream per source out of it. The model follows the scan byte by byte; the
  properties relate it to the container format and to the decoder, which reads the separated streams.
\<close>

section \<open>The scan\<close>

record demux_state =
  dx_streams :: "(nat, byte list) dict"
  dx_counts :: "(nat, nat) dict"
  dx_mtypes :: "(nat, (nat, nat) dict) dict"
  dx_tags :: nat
  dx_src :: "nat option"

datatype demux_error =
    No_Source nat
  | Cut_Packet nat nat nat

record demux_stats =
  dt_tags :: nat
  dt_packets :: "(nat, nat) dict"
  dt_mtypes :: "(nat, (nat, nat) dict) dict"
  dt_bytes :: int

definition demux_start :: demux_state where
  "demux_start = \<lparr> dx_streams = [], dx_counts = [], dx_mtypes = [], dx_tags = 0, dx_src = None \<rparr>"

definition count_up :: "'k \<Rightarrow> ('k, nat) dict \<Rightarrow> ('k, nat) dict" where
  "count_up k d = dict_set k (dict_get_or d k 0 + 1) d"

definition add_packet :: "nat \<Rightarrow> nat \<Rightarrow> byte list \<Rightarrow> demux_state \<Rightarrow> demux_state" where
  "add_packet src mtype pkt s =
     s\<lparr> dx_streams := dict_set src (dict_get_or (dx_streams s) src [] @ pkt) (dx_streams s),
        dx_counts := count_up src (dx_counts s),
        dx_mtypes := dict_set src (count_up mtype (dict_get_or (dx_mtypes s) src [])) (dx_mtypes s) \<rparr>"

definition take_tag :: "byte \<Rightarrow> demux_state \<Rightarrow> demux_state" where
  "take_tag b s = s\<lparr> dx_src := Some (unat (b AND 0x7F)), dx_tags := dx_tags s + 1 \<rparr>"

text \<open>The scan of the bytes from offset \<open>i\<close> on.\<close>

fun demux_loop :: "nat \<Rightarrow> byte list \<Rightarrow> demux_state \<Rightarrow> demux_state \<times> demux_error option" where
  "demux_loop i [] s = (s, None)"
| "demux_loop i (b # rest) s =
     (if b AND 0x80 \<noteq> 0 then demux_loop (i + 1) rest (take_tag b s)
      else case dx_src s of
             None \<Rightarrow> (s, Some (No_Source i))
           | Some src \<Rightarrow>
               let n = unat (b AND 0x1F); mtype = unat (drop_bit 5 b AND 3) in
               if length rest < n then (s, Some (Cut_Packet i n (length rest)))
               else demux_loop (i + 1 + n) (drop n rest) (add_packet src mtype (b # take n rest) s))"

text \<open>An offset behind the first byte; the empty statistics of an error are \<open>None\<close>.\<close>

definition demux :: "byte list \<Rightarrow> nat \<Rightarrow> (nat, byte list) dict \<times> demux_stats option \<times> demux_error option" where
  "demux data start =
     (case demux_loop start (drop start data) demux_start of
        (s, Some e) \<Rightarrow> (dx_streams s, None, Some e)
      | (s, None) \<Rightarrow> (dx_streams s,
          Some \<lparr> dt_tags = dx_tags s, dt_packets = dx_counts s, dt_mtypes = dx_mtypes s,
                 dt_bytes = int (length data) - int start \<rparr>, None))"

section \<open>The command\<close>

definition MSG_TYPES :: "(nat, string) dict" where
  "MSG_TYPES = [(0, ''TE_SUPPORT?''), (1, ''vendor/DAQ''), (2, ''TE_INST''), (3, ''TE_DATA?'')]"

definition stream_path :: "string \<Rightarrow> nat \<Rightarrow> string" where
  "stream_path out src = sprintf ''%s.src%d.te_inst_raw'' [AS out, AI (int src)]"

text \<open>The part of the line of a source that lists its message types.\<close>

definition mtypes_text :: "(nat, nat) dict \<Rightarrow> string" where
  "mtypes_text mt = join_with '', ''
     (map (\<lambda>(k, v). sprintf ''%s=%d'' [AS (dict_get_or MSG_TYPES k (str_d (int k))), AI (int v)]) (sort_key fst mt))"

text \<open>Exit code, files in the order they are written, and the sources that delivered nothing.\<close>

definition demux_main :: "byte list \<Rightarrow> string \<Rightarrow> nat \<Rightarrow> int \<Rightarrow> int \<times> (string \<times> byte list) list \<times> nat list" where
  "demux_main data out skip sources =
     (case demux data skip of
        (streams, _, Some e) \<Rightarrow> (1, [], [])
      | (streams, _, None) \<Rightarrow>
          let files = map (\<lambda>(src, bs). (stream_path out src, bs)) (sort_key fst streams);
              missing = filter (\<lambda>s. dict_get streams s = None) [0..<nat sources] in
          (if sources \<noteq> 0 \<and> missing \<noteq> [] then 1 else 0, files, missing))"

section \<open>The container\<close>

text \<open>A container is a sequence of tags and packets; a packet has a type and at most 31 bytes.\<close>

datatype piece =
    Tag nat
  | Pack nat "byte list"

definition header :: "nat \<Rightarrow> nat \<Rightarrow> byte" where
  "header mtype n = word_of_nat n OR push_bit 5 (word_of_nat mtype)"

fun piece_ok :: "piece \<Rightarrow> bool" where
  "piece_ok (Tag s) \<longleftrightarrow> s < 128"
| "piece_ok (Pack mtype pl) \<longleftrightarrow> mtype < 4 \<and> length pl < 32"

fun piece_bytes :: "piece \<Rightarrow> byte list" where
  "piece_bytes (Tag s) = [0x80 OR word_of_nat s]"
| "piece_bytes (Pack mtype pl) = header mtype (length pl) # pl"

definition container :: "piece list \<Rightarrow> byte list" where
  "container ps = concat (map piece_bytes ps)"

text \<open>The packets with their sources; \<open>None\<close> where a packet has none.\<close>

fun sourced :: "nat option \<Rightarrow> piece list \<Rightarrow> (nat \<times> nat \<times> byte list) list option" where
  "sourced c [] = Some []"
| "sourced c (Tag s # ps) = sourced (Some s) ps"
| "sourced None (Pack mtype pl # ps) = None"
| "sourced (Some s) (Pack mtype pl # ps) = map_option (Cons (s, mtype, pl)) (sourced (Some s) ps)"

fun is_tag :: "piece \<Rightarrow> bool" where
  "is_tag (Tag s) = True"
| "is_tag (Pack mtype pl) = False"

text \<open>The funnel: a tag on a change of the source, or before every packet.\<close>

fun funnel :: "bool \<Rightarrow> nat option \<Rightarrow> (nat \<times> nat \<times> byte list) list \<Rightarrow> piece list" where
  "funnel always c [] = []"
| "funnel always c ((s, mtype, pl) # qs) =
     (if always \<or> c \<noteq> Some s then [Tag s] else []) @ Pack mtype pl # funnel always (Some s) qs"

definition packet_bytes :: "nat \<times> nat \<times> byte list \<Rightarrow> byte list" where
  "packet_bytes q = header (fst (snd q)) (length (snd (snd q))) # snd (snd q)"

definition of_source :: "nat \<Rightarrow> (nat \<times> nat \<times> byte list) list \<Rightarrow> (nat \<times> nat \<times> byte list) list" where
  "of_source s = filter (\<lambda>q. fst q = s)"

definition packet_ok :: "nat \<times> nat \<times> byte list \<Rightarrow> bool" where
  "packet_ok q \<longleftrightarrow> fst q < 128 \<and> fst (snd q) < 4 \<and> length (snd (snd q)) < 32"

lemma container_simps [simp]:
  "container [] = []" "container (p # ps) = piece_bytes p @ container ps"
  by (simp_all add: container_def)

lemma sourced_funnel: "sourced c (funnel always c qs) = Some qs"
  by (induction always c qs rule: funnel.induct) auto

lemma funnel_ok: "list_all packet_ok qs \<Longrightarrow> list_all piece_ok (funnel always c qs)"
  by (induction always c qs rule: funnel.induct) (auto simp: packet_ok_def)

section \<open>Bytes of tags and headers\<close>

lemma header_output: "header mtype (length bs div 8) = word_of_nat (length bs div 8) OR push_bit 5 (word_of_nat mtype)"
  by (simp add: header_def)

lemma header_fields:
  assumes "mtype < 4" "n < 32"
  shows "unat (header mtype n AND 0x1F) = n" "unat (drop_bit 5 (header mtype n) AND 3) = mtype"
  using output_header [of mtype "replicate (8 * n) False"] assms by (simp_all add: header_def)

lemma top_bit: "(b :: byte) AND 0x80 \<noteq> 0 \<longleftrightarrow> bit b 7"
proof -
  have "b AND 0x80 = b AND push_bit 7 1" by simp
  then show ?thesis by (simp add: bit_iff_and_push_bit_not_eq_0 del: push_bit_of_1)
qed

lemma small_bits:
  assumes "m < 2 ^ k" "bit (word_of_nat m :: byte) i"
  shows "i < k"
proof -
  have "take_bit k (int m) = int m" using assms(1) by (simp add: take_bit_int_eq_self)
  moreover have "bit (word_of_int (int m) :: byte) i" using assms(2) by simp
  ultimately show ?thesis by (metis bit_word_of_int_iff bit_take_bit_iff)
qed

lemma header_top:
  assumes "mtype < 4" "n < 32"
  shows "header mtype n AND 0x80 = 0"
proof -
  have "\<not> bit (word_of_nat n :: byte) 7" "\<not> bit (word_of_nat mtype :: byte) 2"
    using small_bits [of n 5 7] small_bits [of mtype 2 2] assms by auto
  then have "\<not> bit (header mtype n) 7" by (simp add: header_def bit_or_iff bit_push_bit_iff)
  then show ?thesis using top_bit by blast
qed

lemma tag_byte:
  assumes "s < 128"
  shows "(0x80 OR word_of_nat s :: byte) AND 0x80 \<noteq> 0" "unat ((0x80 OR word_of_nat s :: byte) AND 0x7F) = s"
proof -
  have seven: "bit (0x80 :: byte) i \<longleftrightarrow> i = 7" for i
    using bit_exp_iff [where ?'a = "8 word", of 7 i] by auto
  then show "(0x80 OR word_of_nat s :: byte) AND 0x80 \<noteq> 0" unfolding top_bit by (simp add: bit_or_iff)
  have "(0x80 OR word_of_nat s :: byte) AND 0x7F = take_bit 7 (0x80 OR word_of_nat s)"
    by (simp add: take_bit_eq_mask mask_eq_exp_minus_1)
  also have "\<dots> = word_of_nat s"
    by (rule bit_word_eqI) (use small_bits [of s 7] assms in \<open>auto simp: bit_take_bit_iff bit_or_iff seven\<close>)
  finally show "unat ((0x80 OR word_of_nat s :: byte) AND 0x7F) = s" using assms by (simp add: unat_of_nat take_bit_nat_eq_self)
qed

text \<open>A byte is a tag or the header of a packet, by its top bit.\<close>

lemma tag_rebuilt:
  assumes "(b :: byte) AND 0x80 \<noteq> 0"
  shows "b = 0x80 OR word_of_nat (unat (b AND 0x7F))" "unat (b AND 0x7F) < 128"
proof -
  have seven: "bit (0x80 :: byte) i \<longleftrightarrow> i = 7" for i
    using bit_exp_iff [where ?'a = "8 word", of 7 i] by auto
  have low: "b AND 0x7F = take_bit 7 b" by (simp add: take_bit_eq_mask mask_eq_exp_minus_1)
  show "b = 0x80 OR word_of_nat (unat (b AND 0x7F))"
    by (rule bit_word_eqI) (use assms top_bit in \<open>auto simp: low seven bit_or_iff bit_take_bit_iff less_Suc_eq numeral_eq_Suc\<close>)
  show "unat (b AND 0x7F) < 128" unfolding low unsigned_take_bit_eq using take_bit_nat_less_exp [of 7 "unat b"] by simp
qed

lemma header_rebuilt:
  assumes "(b :: byte) AND 0x80 = 0"
  shows "b = header (unat (drop_bit 5 b AND 3)) (unat (b AND 0x1F))" "unat (drop_bit 5 b AND 3) < 4" "unat (b AND 0x1F) < 32"
proof -
  have low: "b AND 0x1F = take_bit 5 b" "drop_bit 5 b AND 3 = take_bit 2 (drop_bit 5 b)"
    by (simp_all add: take_bit_eq_mask mask_eq_exp_minus_1)
  show "b = header (unat (drop_bit 5 b AND 3)) (unat (b AND 0x1F))" unfolding header_def low
  proof (rule bit_word_eqI)
    fix i
    assume "i < LENGTH(8)"
    then consider "i < 5" | "5 \<le> i" "i < 7" | "i = 7" by fastforce
    then show "bit b i \<longleftrightarrow> bit (word_of_nat (unat (take_bit 5 b)) OR push_bit 5 (word_of_nat (unat (take_bit 2 (drop_bit 5 b)))) :: byte) i"
    proof cases
      case 1
      then show ?thesis by (simp add: bit_or_iff bit_take_bit_iff bit_push_bit_iff)
    next
      case 2
      then show ?thesis by (auto simp: bit_or_iff bit_take_bit_iff bit_push_bit_iff bit_drop_bit_eq)
    next
      case 3
      then show ?thesis using assms top_bit [of b] by (auto simp: bit_or_iff bit_take_bit_iff bit_push_bit_iff)
    qed
  qed
  show "unat (drop_bit 5 b AND 3) < 4" "unat (b AND 0x1F) < 32"
    unfolding low unsigned_take_bit_eq
    using take_bit_nat_less_exp [of 5 "unat b"] take_bit_nat_less_exp [of 2 "unat (drop_bit 5 b)"] by simp_all
qed

section \<open>What the scan has found\<close>

text \<open>The state holds exactly the packets \<open>qs\<close>, each in the stream of its source.\<close>

definition holds_packets :: "(nat \<times> nat \<times> byte list) list \<Rightarrow> (nat, byte list) dict \<Rightarrow> (nat, nat) dict \<Rightarrow> (nat, (nat, nat) dict) dict \<Rightarrow> bool" where
  "holds_packets qs st cs ms \<longleftrightarrow> distinct (map fst st) \<and>
     (\<forall>s. dict_get st s = (if of_source s qs = [] then None else Some (concat (map packet_bytes (of_source s qs))))) \<and>
     (\<forall>s. dict_get_or cs s 0 = length (of_source s qs)) \<and>
     (\<forall>s m. dict_get_or (dict_get_or ms s []) m 0 = length (filter (\<lambda>q. fst (snd q) = m) (of_source s qs)))"

definition found :: "(nat \<times> nat \<times> byte list) list \<Rightarrow> demux_state \<Rightarrow> bool" where
  "found qs s = holds_packets qs (dx_streams s) (dx_counts s) (dx_mtypes s)"

lemma of_source_snoc: "of_source s (qs @ [q]) = of_source s qs @ (if fst q = s then [q] else [])"
  by (simp add: of_source_def)

lemma dict_get_or_set: "dict_get_or (dict_set k v d) k' x = (if k' = k then v else dict_get_or d k' x)"
  by (simp add: dict_get_or_def)

lemma found_start: "found [] demux_start"
  by (simp add: found_def holds_packets_def demux_start_def of_source_def dict_get_def dict_get_or_def)

lemma found_tag: "found qs s \<Longrightarrow> found qs (take_tag b s)"
  by (simp add: found_def take_tag_def)

lemma found_packet:
  assumes "found qs s"
  shows "found (qs @ [(src, m, pl)]) (add_packet src m (header m (length pl) # pl) s)"
proof -
  have "dict_get_or (dx_streams s) src [] = concat (map packet_bytes (of_source src qs))"
    using assms unfolding found_def holds_packets_def dict_get_def dict_get_or_def by (auto split: option.splits if_splits)
  then show ?thesis
    using assms unfolding found_def holds_packets_def
    by (auto simp: add_packet_def count_up_def dict_get_set dict_get_or_set of_source_snoc packet_bytes_def distinct_dict_set)
qed

lemma loop_container:
  assumes "list_all piece_ok ps" "sourced (dx_src s) ps = Some qs" "found qs0 s"
  shows "\<exists>t. demux_loop i (container ps) s = (t, None) \<and> found (qs0 @ qs) t \<and> dx_tags t = dx_tags s + length (filter is_tag ps)"
  using assms
proof (induction ps arbitrary: i s qs qs0)
  case (Cons p ps)
  show ?case
  proof (cases p)
    case (Tag x)
    then have x: "x < 128" using Cons.prems(1) by simp
    let ?s = "take_tag (0x80 OR word_of_nat x) s"
    have "dx_src ?s = Some x" by (simp add: take_tag_def tag_byte [OF x])
    then have "\<exists>t. demux_loop (i + 1) (container ps) ?s = (t, None) \<and> found (qs0 @ qs) t \<and>
        dx_tags t = dx_tags ?s + length (filter is_tag ps)"
      using Cons.prems Tag by (intro Cons.IH) (auto intro: found_tag)
    then show ?thesis using Tag tag_byte(1) [OF x] by (auto simp: take_tag_def)
  next
    case (Pack m pl)
    then have ok: "m < 4" "length pl < 32" using Cons.prems(1) by simp_all
    obtain src qs' where src: "dx_src s = Some src" "sourced (Some src) ps = Some qs'" "qs = (src, m, pl) # qs'"
      using Cons.prems(2) Pack by (cases "dx_src s") auto
    let ?s = "add_packet src m (header m (length pl) # pl) s"
    have "dx_src ?s = Some src" "dx_tags ?s = dx_tags s" by (simp_all add: add_packet_def src)
    then have "\<exists>t. demux_loop (i + 1 + length pl) (container ps) ?s = (t, None) \<and> found ((qs0 @ [(src, m, pl)]) @ qs') t \<and>
        dx_tags t = dx_tags ?s + length (filter is_tag ps)"
      using Cons.prems src by (intro Cons.IH) (auto intro: found_packet)
    then show ?thesis using Pack src \<open>dx_tags ?s = dx_tags s\<close>
      by (auto simp: header_top [OF ok] header_fields [OF ok])
  qed
qed simp

text \<open>A scan without error has read a container.\<close>

lemma loop_sound:
  assumes "demux_loop i bs s = (t, None)"
  shows "\<exists>ps qs. list_all piece_ok ps \<and> sourced (dx_src s) ps = Some qs \<and> bs = container ps"
  using assms
proof (induction i bs s rule: demux_loop.induct)
  case (1 i s)
  show ?case by (rule exI [of _ "[]"]) simp
next
  case (2 i b rest s)
  show ?case
  proof (cases "b AND 0x80 = 0")
    case False
    then have "demux_loop (i + 1) rest (take_tag b s) = (t, None)" using 2(3) by simp
    from 2(1) [OF False this] obtain ps qs where ih: "list_all piece_ok ps" "sourced (Some (unat (b AND 0x7F))) ps = Some qs" "rest = container ps"
      by (auto simp: take_tag_def)
    then show ?thesis using tag_rebuilt [OF False] by (intro exI [of _ "Tag (unat (b AND 0x7F)) # ps"]) auto
  next
    case True
    let ?n = "unat (b AND 0x1F)" and ?m = "unat (drop_bit 5 b AND 3)"
    obtain src where src: "dx_src s = Some src" using 2(3) True by (cases "dx_src s") auto
    then have go: "\<not> length rest < ?n" "demux_loop (i + 1 + ?n) (drop ?n rest) (add_packet src ?m (b # take ?n rest) s) = (t, None)"
      using 2(3) True by (simp_all add: Let_def split: if_splits)
    have "\<exists>ps qs. list_all piece_ok ps \<and> sourced (dx_src (add_packet src ?m (b # take ?n rest) s)) ps = Some qs \<and> drop ?n rest = container ps"
      using 2(2) True src go by simp
    then obtain ps qs where ih: "list_all piece_ok ps" "sourced (Some src) ps = Some qs" "drop ?n rest = container ps"
      by (auto simp: add_packet_def src)
    have "rest = take ?n rest @ container ps" using ih(3) by (metis append_take_drop_id)
    moreover have "length (take ?n rest) = ?n" using go(1) by simp
    ultimately show ?thesis using header_rebuilt [OF True] ih src
      by (intro exI [of _ "Pack ?m (take ?n rest) # ps"]) auto
  qed
qed

section \<open>Properties\<close>

definition is_container :: "piece list \<Rightarrow> (nat \<times> nat \<times> byte list) list \<Rightarrow> byte list \<Rightarrow> bool" where
  "is_container ps qs bs \<longleftrightarrow> list_all piece_ok ps \<and> sourced None ps = Some qs \<and> bs = container ps"

text \<open>What is reported of a container: its streams, its tags, its counts of packets and of types.\<close>

definition report_of :: "piece list \<Rightarrow> (nat \<times> nat \<times> byte list) list \<Rightarrow> (nat, byte list) dict \<Rightarrow> demux_stats \<Rightarrow> bool" where
  "report_of ps qs st stats \<longleftrightarrow> holds_packets qs st (dt_packets stats) (dt_mtypes stats) \<and> dt_tags stats = length (filter is_tag ps)"

lemma demux_container:
  assumes "is_container ps qs (drop start data)"
  shows "\<exists>st stats. demux data start = (st, Some stats, None) \<and> report_of ps qs st stats"
proof -
  have "\<exists>t. demux_loop start (container ps) demux_start = (t, None) \<and> found ([] @ qs) t \<and>
      dx_tags t = dx_tags demux_start + length (filter is_tag ps)"
    using assms by (intro loop_container) (auto simp: is_container_def demux_start_def intro: found_start [unfolded demux_start_def])
  then obtain t where "demux_loop start (drop start data) demux_start = (t, None)" "found qs t" "dx_tags t = length (filter is_tag ps)"
    using assms by (auto simp: is_container_def demux_start_def)
  then show ?thesis by (simp add: demux_def report_of_def found_def)
qed

text \<open>C28: The demultiplexer accepts exactly the containers: sequences of tags and packets that start with a tag
  before any packet and end at the end of a packet. Of each it returns, source by source, exactly the packets
  behind the tags of that source, in order, and the true counts; no source without a packet has a stream.\<close>

theorem demux_exact:
  "((\<exists>st stats. demux data start = (st, Some stats, None)) \<longleftrightarrow> (\<exists>ps qs. is_container ps qs (drop start data))) \<and>
   (\<forall>ps qs. is_container ps qs (drop start data) \<longrightarrow>
      (\<exists>st stats. demux data start = (st, Some stats, None) \<and> report_of ps qs st stats))"
proof -
  have "\<exists>ps qs. is_container ps qs (drop start data)" if d: "demux data start = (st, Some stats, None)" for st stats
  proof -
    obtain t where "demux_loop start (drop start data) demux_start = (t, None)"
      using d by (cases "demux_loop start (drop start data) demux_start") (auto simp: demux_def split: option.splits)
    from loop_sound [OF this] show ?thesis by (auto simp: is_container_def demux_start_def)
  qed
  with demux_container show ?thesis by blast
qed

lemma demux_exact_witness:
  "\<exists>st stats. demux [0x80, 0x41, 0xFF, 0x82, 0x20] 0 = (st, Some stats, None) \<and>
     report_of [Tag 0, Pack 2 [0xFF], Tag 2, Pack 1 []] [(0, 2, [0xFF]), (2, 1, [])] st stats"
proof -
  have "is_container [Tag 0, Pack 2 [0xFF], Tag 2, Pack 1 []] [(0, 2, [0xFF]), (2, 1, [])] (drop 0 [0x80, 0x41, 0xFF, 0x82, 0x20])"
    by (simp add: is_container_def header_def)
  then show ?thesis using demux_exact by blast
qed

text \<open>The demultiplexer undoes the funnel, whether it tags every packet or every change of the source: the
  stream of a source is byte for byte the capture of that source alone.\<close>

lemma funnel_container: "list_all packet_ok qs \<Longrightarrow> is_container (funnel always None qs) qs (container (funnel always None qs))"
  by (simp add: is_container_def sourced_funnel funnel_ok)

lemma demux_funnel:
  assumes "list_all packet_ok qs"
  shows "\<exists>st stats. demux (container (funnel always None qs)) 0 = (st, Some stats, None) \<and>
     (\<forall>s. dict_get_or st s [] = concat (map packet_bytes (of_source s qs)))"
proof -
  obtain st stats where "demux (container (funnel always None qs)) 0 = (st, Some stats, None)" "report_of (funnel always None qs) qs st stats"
    using demux_container [of "funnel always None qs" qs 0 "container (funnel always None qs)"] funnel_container [OF assms, of always] by auto
  then show ?thesis by (auto simp: report_of_def holds_packets_def dict_get_def dict_get_or_def split: if_splits)
qed

text \<open>The packets of one core as the encoder emits them.\<close>

definition emitted :: "nat \<Rightarrow> item \<Rightarrow> nat \<times> nat \<times> byte list" where
  "emitted c it = (c, item_type it, item_payload it)"

lemma emitted_packet:
  "packet_bytes (emitted c it) = output_packet (item_type it) (compress_packet (flds (item_fields it)))"
proof -
  have "8 dvd length (compress_packet bs)" for bs
    by (simp only: compress_packet_def Let_def length_append length_replicate pad_dvd)
  from length_payload_bytes [OF this] show ?thesis
    by (simp only: packet_bytes_def emitted_def item_payload_def output_packet_def header_def fst_conv snd_conv)
qed

lemma emitted_bytes: "concat (map packet_bytes (map (emitted c) its)) = item_stream its"
  by (simp only: item_stream_def map_map comp_def emitted_packet)

text \<open>C2: End to end: in whatever order the funnel merges the packets of several cores, and with either tagging,
  the separated stream of a core makes the decoder write exactly the addresses of that core's execution.\<close>

theorem merged_trace_reconstructs:
  assumes "list_all packet_ok qs"
    and "of_source c qs = map (emitted c) (map Item_Inst (trace_packets qual ir jt p taken gs))"
    and "restarts qual s" "we_program E p = Some i" "even p" "0 \<le> p" "p < 2 ^ 32"
    and "run_end E ir (start_cfg E p taken) gs = Some d" "list_all (\<lambda>(os, ps, t). length ps < n) gs"
  shows "\<exists>st stats t. demux (container (funnel always None qs)) 0 = (st, Some stats, None) \<and>
     etrace_decode n E (dict_get_or st c []) s = (Inr True, t) \<and> d_out t = d_out s @ p # run_pcs gs"
proof -
  obtain st stats where st: "demux (container (funnel always None qs)) 0 = (st, Some stats, None)"
    "dict_get_or st c [] = concat (map packet_bytes (of_source c qs))"
    using demux_funnel [OF assms(1), of always] by blast
  then have "dict_get_or st c [] = item_stream (map Item_Inst (trace_packets qual ir jt p taken gs))"
    unfolding assms(2) emitted_bytes by blast
  with st etrace_run [OF assms(3-9)] show ?thesis by metis
qed

text \<open>Two cores: the packets of the traced one with a packet of the other among them.\<close>

definition sample_segments :: "segment list" where
  "sample_segments = [([True], [0x14, 0x20, 0x40, 0x24], 0x10), ([True], [0x14, 0x20, 0x40, 0x24], 0x10)]"

definition sample_queue :: "(nat \<times> nat \<times> byte list) list" where
  "sample_queue = (let own = map (emitted 0) (map Item_Inst (trace_packets 2 True True 0x10 False sample_segments)) in
     take 2 own @ [(1, 1, [0xAA])] @ drop 2 own)"

lemma sample_queue_ok: "list_all packet_ok sample_queue"
  by code_simp

lemma sample_queue_own: "of_source 0 sample_queue = map (emitted 0) (map Item_Inst (trace_packets 2 True True 0x10 False sample_segments))"
proof -
  have own: "filter (\<lambda>q. fst q = 0) (map (emitted 0) its) = map (emitted 0) its" for its
    by (simp add: filter_id_conv emitted_def)
  show ?thesis
    by (simp only: sample_queue_def Let_def of_source_def filter_append take_map drop_map own flip: map_append)
      (simp only: filter.simps fst_conv zero_neq_one one_neq_zero if_False append_Nil flip: map_append, simp only: append_take_drop_id)
qed

lemma merged_trace_reconstructs_witness:
  "\<exists>st stats t. demux (container (funnel False None sample_queue)) 0 = (st, Some stats, None) \<and>
     etrace_decode 9 sample_env (dict_get_or st 0 []) new_decoder = (Inr True, t) \<and>
     d_out t = d_out new_decoder @ 0x10 # run_pcs sample_segments"
  by (rule merged_trace_reconstructs [where ir = True and i = "sample_instr 0x10 ''addi'' (Some 0) (Some 0) (Some 0) False"
        and d = "\<lparr> c_pc = 0x10, c_last = Some 0x24, c_stack = [], c_outs = [] \<rparr>", OF sample_queue_ok sample_queue_own])
     (simp_all add: sample_segments_def restarts_def sample_env_def sample_instr_def start_cfg_def segment_fits_def segment_end_def silent_step_def
        silent_move_def quiet_def inside_def reports_def arrive_def pushed_def folds_def is_inferable_jump_def
        is_uninferable_discon_def is_uninferable_jump_def is_sequential_jump_def is_call_def is_return_def branch_limit_def)

end
