(* ===== verification/Text_Lines.thy ===== *)
theory Text_Lines
  imports Insight Py_Printf
begin

text \<open>
  Lemmas on reading back what the command line tools print: the lines of a text, the hexadecimal digits at
  the head of a string, and numbers of at least eight digits.
\<close>

section \<open>Lines\<close>

definition one_line :: "string \<Rightarrow> bool" where
  "one_line l \<longleftrightarrow> (\<forall>c\<in>set l. \<not> is_line_end c)"

lemma one_line_simps [simp]:
  "one_line []" "one_line (c # l) \<longleftrightarrow> \<not> is_line_end c \<and> one_line l" "one_line (k @ l) \<longleftrightarrow> one_line k \<and> one_line l"
  by (auto simp: one_line_def)

lemma lines_acc_line: "one_line l \<Longrightarrow> lines_acc False cur (l @ NL # rest) = (rev cur @ l) # lines_acc False [] rest"
proof (induction l arbitrary: cur)
  case Nil
  show ?case by (simp add: is_line_end_def NL_def code_of_def)
qed simp

lemma splitlines_unlines: "list_all one_line ls \<Longrightarrow> splitlines (unlines ls) = ls"
proof -
  have "list_all one_line ls \<Longrightarrow> lines_acc False [] (unlines ls) = ls"
    by (induction ls) (simp_all add: lines_acc_line)
  then show "list_all one_line ls \<Longrightarrow> splitlines (unlines ls) = ls" by (simp add: splitlines_def)
qed

lemma space_ends_line: "is_line_end c \<Longrightarrow> is_space c"
  by (auto simp: is_line_end_def is_space_def Let_def)

lemma plain_one_line: "plain_word w \<Longrightarrow> one_line w"
  using space_ends_line by (auto simp: plain_word_def one_line_def)

section \<open>Hexadecimal digits\<close>

lemma is_hex_digit_char: "d < 16 \<Longrightarrow> is_hex (digit_char d)"
  by (simp add: is_hex_def digit_of_char)

lemma is_hex_zero [simp]: "is_hex (CHR ''0'')"
  by (simp add: is_hex_def digit_of_def code_of_def)

lemma hex8_of_digits: "0 \<le> n \<Longrightarrow> c \<in> set (hex8_of n) \<Longrightarrow> is_hex c"
proof -
  assume n: "0 \<le> n" and c: "c \<in> set (hex8_of n)"
  then consider "c = CHR ''0''" | "c \<in> set (digits_text 16 (nat n))" by (auto simp: hex8_of_form)
  then show "is_hex c"
  proof cases
    case 2
    then obtain d where "d < 16" "c = digit_char d" using digits_text_chars [of c 16 "nat n"] by auto
    then show ?thesis by (simp add: is_hex_digit_char)
  qed simp
qed

lemma hex8_of_nonempty [simp]: "hex8_of n \<noteq> []"
  using hex8_of_word [of n] by (simp add: plain_word_def)

lemma hex_prefix:
  assumes "\<forall>c\<in>set h. is_hex c" "rest = [] \<or> \<not> is_hex (hd rest)"
  shows "takeWhile is_hex (h @ rest) = h" "dropWhile is_hex (h @ rest) = rest"
  using assms by (auto simp: takeWhile_append2 dropWhile_append2 takeWhile_eq_Nil_iff dropWhile_eq_self_iff)

lemma hex8_of_prefix:
  assumes "0 \<le> n" "rest = [] \<or> \<not> is_hex (hd rest)"
  shows "takeWhile is_hex (hex8_of n @ rest) = hex8_of n" "dropWhile is_hex (hex8_of n @ rest) = rest"
  using hex_prefix [of "hex8_of n" rest] hex8_of_digits assms by auto

lemma hex8_of_value [simp]: "0 \<le> n \<Longrightarrow> hex_value (hex8_of n) = n"
  using zero_prefix_digits [of 16] by (simp add: hex_value_def hex8_of_form opt_or_def)

lemma length_digits_16: "n < 16 ^ k \<Longrightarrow> 0 < k \<Longrightarrow> length (digits_text 16 n) \<le> k"
proof (induction k arbitrary: n)
  case (Suc k)
  show ?case
  proof (cases "n < 16")
    case True
    then show ?thesis by (simp add: digits_text.simps [of 16 n])
  next
    case False
    have "n div 16 < 16 ^ k" using Suc.prems by (simp add: less_mult_imp_div_less)
    moreover have "0 < k" using False Suc.prems by (cases k) auto
    ultimately have "length (digits_text 16 (n div 16)) \<le> k" by (rule Suc.IH)
    then show ?thesis using False by (simp add: digits_text.simps [of 16 n])
  qed
qed simp

lemma length_hex8_of: "0 \<le> n \<Longrightarrow> n < 2 ^ 64 \<Longrightarrow> 8 \<le> length (hex8_of n) \<and> length (hex8_of n) \<le> 16"
proof -
  assume n: "0 \<le> n" "n < 2 ^ 64"
  then have "length (digits_text 16 (nat n)) \<le> 16" using length_digits_16 [of "nat n" 16] by (simp add: nat_less_iff)
  then show "8 \<le> length (hex8_of n) \<and> length (hex8_of n) \<le> 16" using n by (auto simp: hex8_of_form)
qed

lemma not_hex [simp]: "\<not> is_hex (CHR '' '')" "\<not> is_hex (CHR '','')" "\<not> is_hex (CHR ''x'')" "\<not> is_hex NL"
  by (simp_all add: is_hex_def digit_of_def code_of_def NL_def)

lemma line_end_chars [simp]:
  "\<not> is_line_end (CHR '' '')" "\<not> is_line_end (CHR '','')" "\<not> is_line_end (CHR ''0'')" "\<not> is_line_end (CHR ''x'')"
  by (simp_all add: is_line_end_def code_of_def)

lemma map_filter_written: "(\<And>a. a \<in> set xs \<Longrightarrow> f (g a) = Some (h a)) \<Longrightarrow> List.map_filter f (map g xs) = map h xs"
  by (induction xs) (simp_all add: map_filter_simps)

end
