(* ===== verification/Pc_Compare.thy ===== *)
theory Pc_Compare
  imports Text_Lines
begin

text \<open>
  The gate that compares a decoded sequence of program counters with the sequence a core really retired
  (\<open>scripts/check_pcout_vs_retired.py\<close>): the reading of both files, the search for the offset, the verdict and
  the diagnosis of a failure. The printed lines are the constructors of the outcome.
\<close>

section \<open>Reading the files\<close>

text \<open>The first \<open>0x\<close> that a hexadecimal digit follows, with all the digits behind it.\<close>

fun pc_search :: "string \<Rightarrow> int option" where
  "pc_search [] = None"
| "pc_search (c # cs) =
     (let h = takeWhile is_hex (drop 1 cs) in
      if c = CHR ''0'' \<and> startswith cs ''x'' \<and> h \<noteq> [] then Some (hex_value h) else pc_search cs)"

definition pc_of_line :: "bool \<Rightarrow> string \<Rightarrow> int option" where
  "pc_of_line first_field_only line0 =
     (let line = strip line0 in
      if line = [] \<or> startswith line ''#'' then None
      else pc_search (if first_field_only then hd (split_on (CHR '','') line) else line))"

definition read_pcs :: "bool \<Rightarrow> string \<Rightarrow> int list" where
  "read_pcs first_field_only text = List.map_filter (pc_of_line first_field_only) (splitlines text)"

section \<open>The comparison\<close>

definition find_alignments :: "int list \<Rightarrow> int list \<Rightarrow> nat list" where
  "find_alignments decoded retired =
     (if decoded = [] \<or> length retired < length decoded then []
      else filter (\<lambda>i. retired ! i = hd decoded \<and> take (length decoded) (drop i retired) = decoded)
             [0..<length retired - length decoded + 1])"

text \<open>The first position that differs, with both counters; \<open>-1\<close> stands for the end of the reference.\<close>

fun mismatch_from :: "nat \<Rightarrow> int list \<Rightarrow> int list \<Rightarrow> nat \<Rightarrow> (nat \<times> int \<times> int) option" where
  "mismatch_from k [] retired off = None"
| "mismatch_from k (pc # pcs) retired off =
     (if length retired \<le> off + k then Some (k, pc, -1)
      else if retired ! (off + k) \<noteq> pc then Some (k, pc, retired ! (off + k))
      else mismatch_from (k + 1) pcs retired off)"

definition first_mismatch :: "int list \<Rightarrow> int list \<Rightarrow> nat \<Rightarrow> (nat \<times> int \<times> int) option" where
  "first_mismatch decoded retired off = mismatch_from 0 decoded retired off"

definition match_depth :: "int list \<Rightarrow> int list \<Rightarrow> nat \<Rightarrow> nat" where
  "match_depth decoded retired off =
     (case first_mismatch decoded retired off of None \<Rightarrow> length decoded | Some (k, _, _) \<Rightarrow> k)"

text \<open>The first of the candidates with the greatest depth.\<close>

definition better :: "int list \<Rightarrow> int list \<Rightarrow> nat \<Rightarrow> (nat \<times> nat) option \<Rightarrow> (nat \<times> nat) option" where
  "better decoded retired off best =
     (let depth = match_depth decoded retired off in
      case best of None \<Rightarrow> Some (depth, off)
      | Some (d, o') \<Rightarrow> if d < depth then Some (depth, off) else best)"

definition best_start :: "int list \<Rightarrow> int list \<Rightarrow> nat list \<Rightarrow> (nat \<times> nat) option" where
  "best_start decoded retired cands = fold (better decoded retired) cands None"

datatype gate_result =
    No_Decoded
  | No_Reference
  | Too_Few nat
  | Reference_Contained nat nat
  | Aligned_At nat nat
  | First_Unknown int
  | Diverges_After nat nat "(nat \<times> int \<times> int) option"

definition candidates :: "int list \<Rightarrow> int list \<Rightarrow> nat list" where
  "candidates decoded retired = filter (\<lambda>i. retired ! i = hd decoded) [0..<length retired]"

definition compare_pcs :: "bool \<Rightarrow> int \<Rightarrow> int list \<Rightarrow> int list \<Rightarrow> gate_result" where
  "compare_pcs ref_prefix_ok min_pcs decoded retired =
     (if decoded = [] then No_Decoded
      else if retired = [] then No_Reference
      else if int (length decoded) < min_pcs then Too_Few (length decoded)
      else if ref_prefix_ok \<and> length retired \<le> length decoded \<and> take (length retired) decoded = retired
        then Reference_Contained (length retired) (length decoded)
      else case find_alignments decoded retired of
          off # hits \<Rightarrow> Aligned_At off (length (off # hits))
        | [] \<Rightarrow>
            (case best_start decoded retired (candidates decoded retired) of
               None \<Rightarrow> First_Unknown (hd decoded)
             | Some (depth, off) \<Rightarrow> Diverges_After off depth (first_mismatch decoded retired off)))"

fun exit_code :: "gate_result \<Rightarrow> int" where
  "exit_code (Reference_Contained _ _) = 0"
| "exit_code (Aligned_At _ _) = 0"
| "exit_code _ = 1"

text \<open>The command on the texts of the two files.\<close>

definition gate_main :: "bool \<Rightarrow> int \<Rightarrow> string option \<Rightarrow> string option \<Rightarrow> int" where
  "gate_main ref_prefix_ok min_pcs pcout retired =
     (case (pcout, retired) of
        (Some d, Some r) \<Rightarrow> exit_code (compare_pcs ref_prefix_ok min_pcs (read_pcs True d) (read_pcs True r))
      | _ \<Rightarrow> 1)"

section \<open>Offsets and depths\<close>

lemma prefix_take: "prefix xs ys \<longleftrightarrow> take (length xs) ys = xs"
  by (metis append_eq_conv_conj prefix_def take_is_prefix)

lemma find_alignments_set:
  assumes "decoded \<noteq> []"
  shows "set (find_alignments decoded retired) = {i. prefix decoded (drop i retired)}"
proof -
  have "i < length retired - length decoded + 1 \<and> length decoded \<le> length retired \<and> retired ! i = hd decoded"
    if "take (length decoded) (drop i retired) = decoded" for i
  proof -
    have l: "length decoded \<le> length retired - i" using that by (metis length_drop length_take min.absorb_iff1 min.commute order.refl)
    moreover have "0 < length decoded" using assms by simp
    ultimately have i: "i < length retired" by linarith
    have "retired ! i = hd (drop i retired)" using i by (simp add: hd_drop_conv_nth)
    also have "\<dots> = hd (take (length decoded) (drop i retired))" using assms by (cases "drop i retired"; cases decoded) auto
    finally have "retired ! i = hd decoded" using that by simp
    moreover have "i < length retired - length decoded + 1" "length decoded \<le> length retired" using l i by linarith+
    ultimately show ?thesis by simp
  qed
  then show ?thesis unfolding find_alignments_def prefix_take using assms by (auto simp del: upt_Suc)
qed

lemma find_alignments_sorted: "sorted_wrt (<) (find_alignments decoded retired)"
proof -
  have "sorted_wrt (<) (filter P [0..<n])" for P n by (rule sorted_wrt_filter) (simp add: sorted_wrt_upt)
  then show ?thesis by (simp only: find_alignments_def sorted_wrt.simps(1) split: if_splits) simp
qed

lemma find_alignments_least:
  assumes "find_alignments decoded retired = off # hits" "decoded \<noteq> []"
  shows "prefix decoded (drop off retired)" "\<And>i. prefix decoded (drop i retired) \<Longrightarrow> off \<le> i"
    "length (off # hits) = card {i. prefix decoded (drop i retired)}"
proof -
  have s: "set (off # hits) = {i. prefix decoded (drop i retired)}" "sorted_wrt (<) (off # hits)"
    using find_alignments_set [OF assms(2)] find_alignments_sorted assms(1) by metis+
  then show "prefix decoded (drop off retired)" by auto
  show "off \<le> i" if "prefix decoded (drop i retired)" for i
    using that s by (metis (mono_tags, lifting) mem_Collect_eq set_ConsD order.refl less_imp_le sorted_wrt.simps(2))
  have "distinct (off # hits)" using s(2) by (metis strict_sorted_iff)
  then show "length (off # hits) = card {i. prefix decoded (drop i retired)}" using s(1) by (metis distinct_card)
qed

lemma sublist_offset: "sublist xs ys \<longleftrightarrow> (\<exists>i. prefix xs (drop i ys))"
proof
  assume "sublist xs ys"
  then obtain a b where "ys = a @ xs @ b" by (auto simp: sublist_def)
  then show "\<exists>i. prefix xs (drop i ys)" by (intro exI [of _ "length a"]) simp
qed (metis append_take_drop_id prefix_def sublist_appendI)

fun common :: "'a list \<Rightarrow> 'a list \<Rightarrow> nat" where
  "common (x # xs) (y # ys) = (if x = y then Suc (common xs ys) else 0)"
| "common _ _ = 0"

lemma common_le: "common xs ys \<le> length xs" "common xs ys \<le> length ys"
  by (induction xs ys rule: common.induct) auto

lemma common_all: "common xs ys = length xs \<longleftrightarrow> prefix xs ys"
  by (induction xs ys rule: common.induct) auto

lemma common_take: "take (common xs ys) xs = take (common xs ys) ys"
  by (induction xs ys rule: common.induct) auto

lemma common_hd: "0 < common xs ys \<Longrightarrow> xs \<noteq> [] \<and> ys \<noteq> [] \<and> hd xs = hd ys"
  by (cases "(xs, ys)" rule: common.cases) (auto split: if_splits)

lemma mismatch_from_exact:
  "mismatch_from k pcs retired off =
     (let n = common pcs (drop (off + k) retired) in
      if n = length pcs then None
      else Some (k + n, pcs ! n, if off + k + n < length retired then retired ! (off + k + n) else -1))"
proof (induction k pcs retired off rule: mismatch_from.induct)
  case (2 k pc pcs retired off)
  show ?case
  proof (cases "length retired \<le> off + k")
    case False
    then have d: "drop (off + k) retired = retired ! (off + k) # drop (off + Suc k) retired"
      by (simp add: Cons_nth_drop_Suc)
    show ?thesis using False 2 by (auto simp: d Let_def)
  qed simp
qed simp

lemma match_depth_common: "match_depth decoded retired off = common decoded (drop off retired)"
  using mismatch_from_exact [of 0 decoded retired off]
  by (auto simp: match_depth_def first_mismatch_def Let_def split: option.splits if_splits)

lemma mismatch_differs:
  assumes "common xs ys < length xs" "common xs ys < length ys"
  shows "xs ! common xs ys \<noteq> ys ! common xs ys"
  using assms by (induction xs ys rule: common.induct) auto

text \<open>The search keeps the first of the best.\<close>

lemma best_start_fold:
  assumes "fold (better decoded retired) cands (Some (d0, o0)) = Some (d, off)"
  shows "d0 \<le> d \<and> (\<forall>i\<in>set cands. match_depth decoded retired i \<le> d) \<and>
     (d = d0 \<and> off = o0 \<or> d0 < d \<and> off \<in> set cands \<and> match_depth decoded retired off = d)"
  using assms
proof (induction cands arbitrary: d0 o0)
  case (Cons c cs)
  show ?case
  proof (cases "d0 < match_depth decoded retired c")
    case True
    then show ?thesis using Cons.IH [of "match_depth decoded retired c" c] Cons.prems by (auto simp: better_def)
  next
    case False
    then show ?thesis using Cons.IH [of d0 o0] Cons.prems by (auto simp: better_def)
  qed
qed simp

lemma best_start_some:
  assumes "best_start decoded retired cands = Some (d, off)"
  shows "off \<in> set cands" "match_depth decoded retired off = d" "\<And>i. i \<in> set cands \<Longrightarrow> match_depth decoded retired i \<le> d"
proof -
  obtain c cs where c: "cands = c # cs" using assms by (cases cands) (auto simp: best_start_def)
  then have "fold (better decoded retired) cs (Some (match_depth decoded retired c, c)) = Some (d, off)"
    using assms by (simp add: best_start_def better_def)
  from best_start_fold [OF this] c
  show "off \<in> set cands" "match_depth decoded retired off = d" "\<And>i. i \<in> set cands \<Longrightarrow> match_depth decoded retired i \<le> d"
    by auto
qed

lemma best_start_none: "best_start decoded retired cands = None \<Longrightarrow> cands = []"
proof -
  have keep: "fold (better decoded retired) cs (Some p) \<noteq> None" for cs p
  proof (induction cs arbitrary: p)
    case (Cons c cs)
    then show ?case by (cases p) (auto simp: better_def Let_def)
  qed simp
  show "best_start decoded retired cands = None \<Longrightarrow> cands = []"
    using keep by (cases cands) (auto simp: best_start_def better_def)
qed

lemma compare_early:
  "decoded = [] \<Longrightarrow> compare_pcs pre m decoded retired = No_Decoded"
  "decoded \<noteq> [] \<Longrightarrow> retired = [] \<Longrightarrow> compare_pcs pre m decoded retired = No_Reference"
  "decoded \<noteq> [] \<Longrightarrow> retired \<noteq> [] \<Longrightarrow> int (length decoded) < m \<Longrightarrow> compare_pcs pre m decoded retired = Too_Few (length decoded)"
  "decoded \<noteq> [] \<Longrightarrow> retired \<noteq> [] \<Longrightarrow> \<not> int (length decoded) < m \<Longrightarrow> pre \<Longrightarrow> prefix retired decoded \<Longrightarrow>
     compare_pcs pre m decoded retired = Reference_Contained (length retired) (length decoded)"
  unfolding compare_pcs_def prefix_take by (simp_all add: prefix_length_le prefix_take [symmetric] if_cancel del: length_greater_0_conv)

section \<open>Properties\<close>

lemma compare_pcs_facts:
  "(exit_code (compare_pcs pre min_pcs decoded retired) = 0 \<longleftrightarrow>
      decoded \<noteq> [] \<and> retired \<noteq> [] \<and> min_pcs \<le> int (length decoded) \<and>
      (sublist decoded retired \<or> pre \<and> prefix retired decoded)) \<and>
   (\<forall>off n. compare_pcs pre min_pcs decoded retired = Aligned_At off n \<longrightarrow>
      prefix decoded (drop off retired) \<and> (\<forall>i. prefix decoded (drop i retired) \<longrightarrow> off \<le> i) \<and>
      n = card {i. prefix decoded (drop i retired)}) \<and>
   (\<forall>off d mm. compare_pcs pre min_pcs decoded retired = Diverges_After off d mm \<longrightarrow>
      take d decoded = take d (drop off retired) \<and> (\<forall>i. common decoded (drop i retired) \<le> d) \<and> d < length decoded \<and>
      (\<exists>r. mm = Some (d, decoded ! d, r) \<and>
         (if off + d < length retired then r = retired ! (off + d) \<and> r \<noteq> decoded ! d else r = -1)))"
proof (cases "decoded = [] \<or> retired = [] \<or> int (length decoded) < min_pcs \<or>
    pre \<and> length retired \<le> length decoded \<and> take (length retired) decoded = retired")
  case True
  then consider "decoded = []" | "decoded \<noteq> []" "retired = []"
    | "decoded \<noteq> []" "retired \<noteq> []" "int (length decoded) < min_pcs"
    | "decoded \<noteq> []" "retired \<noteq> []" "\<not> int (length decoded) < min_pcs" "pre" "prefix retired decoded"
    by (auto simp: prefix_take)
  then show ?thesis
    by cases (simp_all add: compare_early)
next
  case False
  then have ne: "decoded \<noteq> []" by blast
  have pre: "\<not> (pre \<and> prefix retired decoded)" using False prefix_take prefix_length_le by blast
  have c: "compare_pcs pre min_pcs decoded retired = (case find_alignments decoded retired of
          off # hits \<Rightarrow> Aligned_At off (length (off # hits))
        | [] \<Rightarrow> (case best_start decoded retired (candidates decoded retired) of
               None \<Rightarrow> First_Unknown (hd decoded)
             | Some (depth, off) \<Rightarrow> Diverges_After off depth (first_mismatch decoded retired off)))"
    using False unfolding compare_pcs_def by (simp only: de_Morgan_disj not_False_eq_True if_False if_not_P simp_thms)
  show ?thesis
  proof (cases "find_alignments decoded retired")
    case (Cons off hits)
    note least = find_alignments_least [OF Cons ne]
    have "sublist decoded retired" using least(1) sublist_offset by blast
    then show ?thesis using False c Cons least by simp
  next
    case Nil
    then have no: "\<not> prefix decoded (drop i retired)" for i using find_alignments_set [OF ne, of retired] by auto
    then have "\<not> sublist decoded retired" using sublist_offset by blast
    moreover have "exit_code (compare_pcs pre min_pcs decoded retired) = 1"
      using c Nil by (auto split: option.splits)
    moreover have "take d decoded = take d (drop off retired) \<and> (\<forall>i. common decoded (drop i retired) \<le> d) \<and> d < length decoded \<and>
      (\<exists>r. mm = Some (d, decoded ! d, r) \<and> (if off + d < length retired then r = retired ! (off + d) \<and> r \<noteq> decoded ! d else r = -1))"
      if e: "compare_pcs pre min_pcs decoded retired = Diverges_After off d mm" for off d mm
    proof -
      have b: "best_start decoded retired (candidates decoded retired) = Some (d, off)" "mm = first_mismatch decoded retired off"
        using e c Nil by (auto split: option.splits)
      note best = best_start_some [OF b(1), unfolded match_depth_common]
      have "common decoded (drop i retired) \<le> d" for i
      proof (cases "i \<in> set (candidates decoded retired)")
        case False
        have "\<not> 0 < common decoded (drop i retired)"
        proof
          assume "0 < common decoded (drop i retired)"
          then have "i < length retired" "hd decoded = hd (drop i retired)" using common_hd [of decoded "drop i retired"] by auto
          then show False using False by (simp add: candidates_def hd_drop_conv_nth)
        qed
        then show ?thesis by simp
      qed (use best in simp)
      moreover have lt: "d < length decoded"
        using best(2) no [of off] common_all [of decoded "drop off retired"] common_le(1) [of decoded "drop off retired"] by linarith
      moreover have "mm = Some (d, decoded ! d, if off + d < length retired then retired ! (off + d) else -1)"
        using b(2) lt best(2) by (simp add: first_mismatch_def mismatch_from_exact)
      moreover have "retired ! (off + d) \<noteq> decoded ! d" if less: "off + d < length retired"
      proof -
        have "d < length (drop off retired)" using less by simp
        then show ?thesis using mismatch_differs [of decoded "drop off retired"] lt best(2) less by auto
      qed
      moreover have "take d decoded = take d (drop off retired)" using common_take best(2) by metis
      ultimately show ?thesis by auto
    qed
    ultimately show ?thesis using c Nil pre by (auto split: option.splits)
  qed
qed

text \<open>C27: The gate passes exactly when there are enough decoded counters and they are a contiguous part of the
  reference, or, where that is asked for, the reference is their prefix; there is no approximate match. The
  reported offset is the least one that fits, beside the true number of offsets. A failure names the longest
  match there is, and the position behind it at which the two sequences really differ.\<close>

theorem pc_gate_exact:
  "(exit_code (compare_pcs pre min_pcs decoded retired) = 0 \<longleftrightarrow>
      decoded \<noteq> [] \<and> retired \<noteq> [] \<and> min_pcs \<le> int (length decoded) \<and>
      (sublist decoded retired \<or> pre \<and> prefix retired decoded)) \<and>
   (\<forall>off n. compare_pcs pre min_pcs decoded retired = Aligned_At off n \<longrightarrow>
      prefix decoded (drop off retired) \<and> (\<forall>i. prefix decoded (drop i retired) \<longrightarrow> off \<le> i) \<and>
      n = card {i. prefix decoded (drop i retired)}) \<and>
   (\<forall>off d mm. compare_pcs pre min_pcs decoded retired = Diverges_After off d mm \<longrightarrow>
      take d decoded = take d (drop off retired) \<and> (\<forall>i. common decoded (drop i retired) \<le> d) \<and> d < length decoded \<and>
      (\<exists>r. mm = Some (d, decoded ! d, r) \<and>
         (if off + d < length retired then r = retired ! (off + d) \<and> r \<noteq> decoded ! d else r = -1)))"
  by (rule compare_pcs_facts)

lemma pc_gate_exact_witness:
  "compare_pcs False 2 [8, 12, 20] [0, 4, 8, 12, 16, 8, 12] = Diverges_After 2 2 (Some (2, 20, 16)) \<and>
   take 2 [8, 12, 20 :: int] = take 2 (drop 2 [0, 4, 8, 12, 16, 8, 12])"
proof -
  have "compare_pcs False 2 [8, 12, 20] [0, 4, 8, 12, 16, 8, 12] = Diverges_After 2 2 (Some (2, 20, 16))" by code_simp
  then show ?thesis using pc_gate_exact [of False 2 "[8, 12, 20]" "[0, 4, 8, 12, 16, 8, 12]"] by blast
qed

text \<open>The least number of counters does not bound the reference: where its containment is asked for, a
  reference of one counter passes.\<close>

lemma short_reference_passes:
  "decoded \<noteq> [] \<Longrightarrow> min_pcs \<le> int (length decoded) \<Longrightarrow> exit_code (compare_pcs True min_pcs decoded [hd decoded]) = 0"
  by (cases decoded) (simp_all add: compare_pcs_def)

text \<open>On files that list their counters as both tools print them, one \<open>0x%08x\<close> a line with more fields behind
  a comma, the exit code of the command is that of the comparison of the listed counters.\<close>

definition pc_line :: "int \<times> string \<Rightarrow> string" where
  "pc_line p = ''0x'' @ hex8_of (fst p) @ snd p"

definition line_ok :: "int \<times> string \<Rightarrow> bool" where
  "line_ok p \<longleftrightarrow> 0 \<le> fst p \<and> (\<forall>c\<in>set (snd p). \<not> is_space c) \<and> (snd p = [] \<or> hd (snd p) = CHR '','')"

lemma pc_of_pc_line:
  assumes "line_ok p"
  shows "one_line (pc_line p)" "pc_of_line True (pc_line p) = Some (fst p)"
proof -
  have plain: "\<forall>c\<in>set (pc_line p). \<not> is_space c"
    using assms hex8_of_word [of "fst p"] by (auto simp: pc_line_def line_ok_def plain_word_def is_space_def code_of_def)
  then show "one_line (pc_line p)" using space_ends_line by (auto simp: one_line_def)
  have no: "CHR '','' \<notin> set (''0x'' @ hex8_of (fst p))"
    using assms hex8_of_digits [of "fst p" "CHR '',''"] by (auto simp: line_ok_def)
  have "hd (split_on (CHR '','') (pc_line p)) = ''0x'' @ hex8_of (fst p)"
  proof (cases "snd p")
    case Nil
    then show ?thesis using no by (simp only: pc_line_def append_Nil2 split_on_no_sep list.sel(1) not_False_eq_True)
  next
    case (Cons c cs)
    then have "pc_line p = (''0x'' @ hex8_of (fst p)) @ CHR '','' # cs" using assms by (simp add: pc_line_def line_ok_def)
    then show ?thesis using split_on_append [OF no] by simp
  qed
  moreover have t: "takeWhile is_hex (hex8_of (fst p)) = hex8_of (fst p)"
    using assms hex8_of_digits [of "fst p"] by (simp add: takeWhile_eq_all_conv line_ok_def)
  have "pc_search (''0x'' @ hex8_of (fst p)) = Some (fst p)"
    using assms by (simp add: t line_ok_def startswith_def Let_def)
  moreover have "strip (pc_line p) = pc_line p" using plain by (rule strip_plain)
  ultimately show "pc_of_line True (pc_line p) = Some (fst p)"
    by (simp add: pc_of_line_def) (simp add: pc_line_def startswith_def)
qed

lemma read_pcs_lines:
  assumes "list_all line_ok ps"
  shows "read_pcs True (unlines (map pc_line ps)) = map fst ps"
proof -
  have "List.map_filter (pc_of_line True) (map pc_line ps) = map fst ps"
    using assms by (induction ps) (simp_all add: map_filter_simps pc_of_pc_line)
  moreover have "list_all one_line (map pc_line ps)" using assms by (auto simp: list_all_iff pc_of_pc_line)
  ultimately show ?thesis by (simp add: read_pcs_def splitlines_unlines)
qed

lemma gate_on_files:
  assumes "list_all line_ok ds" "list_all line_ok rs"
  shows "gate_main pre m (Some (unlines (map pc_line ds))) (Some (unlines (map pc_line rs))) = 0 \<longleftrightarrow>
     ds \<noteq> [] \<and> rs \<noteq> [] \<and> m \<le> int (length ds) \<and>
     (sublist (map fst ds) (map fst rs) \<or> pre \<and> prefix (map fst rs) (map fst ds))"
  using compare_pcs_facts [of pre m "map fst ds" "map fst rs"] assms by (simp add: gate_main_def read_pcs_lines)

end
