(* ===== verification/Dfs_Order.thy ===== *)
theory Dfs_Order
  imports Prelude
begin

text \<open>
  Depth-first search that tolerates cycles, as the file list tools do it: a node that is finished or on the
  current path is skipped, and a node is appended behind its successors. The recursion takes fuel. The
  lemmas say that enough fuel is one more than the number of nodes, that the result is exactly what can be
  reached, and that a successor comes before its predecessor wherever the two lie on no common cycle.
\<close>

fun fold_opt :: "('a \<Rightarrow> 's \<Rightarrow> 's option) \<Rightarrow> 'a list \<Rightarrow> 's \<Rightarrow> 's option" where
  "fold_opt f [] s = Some s"
| "fold_opt f (x # xs) s = (case f x s of None \<Rightarrow> None | Some t \<Rightarrow> fold_opt f xs t)"

lemma fold_opt_append: "fold_opt f (xs @ ys) s = Option.bind (fold_opt f xs s) (fold_opt f ys)"
  by (induction xs arbitrary: s) (auto split: option.splits)

text \<open>What every round establishes of its own element and keeps of the earlier ones.\<close>

lemma fold_opt_induct:
  assumes "fold_opt f xs s = Some t" "P [] s"
    and "\<And>ys x u w. set (ys @ [x]) \<subseteq> set xs \<Longrightarrow> P ys u \<Longrightarrow> f x u = Some w \<Longrightarrow> P (ys @ [x]) w"
  shows "P xs t"
proof -
  have "fold_opt f zs u = Some t \<Longrightarrow> P ys u \<Longrightarrow> set (ys @ zs) \<subseteq> set xs \<Longrightarrow> P (ys @ zs) t" for ys zs u
  proof (induction zs arbitrary: ys u)
    case (Cons z zs)
    then obtain w where w: "f z u = Some w" "fold_opt f zs w = Some t" by (auto split: option.splits)
    have "P (ys @ [z]) w" using Cons.prems w(1) by (intro assms(3)) auto
    with Cons.IH [OF w(2), of "ys @ [z]"] Cons.prems show ?case by simp
  qed simp
  from this [of xs s "[]"] assms show ?thesis by simp
qed

lemma fold_opt_total:
  assumes "\<And>x u. x \<in> set xs \<Longrightarrow> P u \<Longrightarrow> \<exists>w. f x u = Some w \<and> P w" "P s"
  shows "\<exists>t. fold_opt f xs s = Some t \<and> P t"
  using assms
proof (induction xs arbitrary: s)
  case (Cons x xs)
  obtain w where "f x s = Some w" "P w" using Cons.prems by (metis list.set_intros(1))
  then show ?case using Cons.IH [of w] Cons.prems(1) by auto
qed simp

primrec dfs :: "nat \<Rightarrow> ('a \<Rightarrow> 'a list) \<Rightarrow> 'a list \<Rightarrow> 'a \<Rightarrow> 'a list \<Rightarrow> 'a list option" where
  "dfs 0 next stack v fin = None"
| "dfs (Suc n) next stack v fin =
     (if v \<in> set fin \<or> v \<in> set stack then Some fin
      else map_option (\<lambda>d. d @ [v]) (fold_opt (dfs n next (v # stack)) (next v) fin))"

section \<open>Reachability and order\<close>

definition leads :: "('a \<Rightarrow> 'a list) \<Rightarrow> 'a \<Rightarrow> 'a \<Rightarrow> bool" where
  "leads next = (\<lambda>a b. b \<in> set (next a))\<^sup>*\<^sup>*"

lemma leads_refl [simp]: "leads next a a"
  by (simp add: leads_def)

lemma leads_step: "leads next a b \<Longrightarrow> c \<in> set (next b) \<Longrightarrow> leads next a c"
  unfolding leads_def by (rule rtranclp.rtrancl_into_rtrancl)

lemma leads_next: "c \<in> set (next a) \<Longrightarrow> leads next a c"
  unfolding leads_def by (rule r_into_rtranclp)

lemma leads_trans: "leads next a b \<Longrightarrow> leads next b c \<Longrightarrow> leads next a c"
  unfolding leads_def by (rule rtranclp_trans)

definition comes_before :: "'a list \<Rightarrow> 'a \<Rightarrow> 'a \<Rightarrow> bool" where
  "comes_before d g f \<longleftrightarrow> (\<exists>xs ys. d = xs @ f # ys \<and> g \<in> set xs)"

lemma comes_before_append: "comes_before d g f \<Longrightarrow> comes_before (d @ e) g f"
  unfolding comes_before_def by fastforce

lemma comes_before_last: "g \<in> set d \<Longrightarrow> comes_before (d @ [f]) g f"
  unfolding comes_before_def by blast

text \<open>The state of a search: finished nodes and the current path.\<close>

definition search_ok :: "('a \<Rightarrow> 'a list) \<Rightarrow> 'a list \<Rightarrow> 'a list \<Rightarrow> bool" where
  "search_ok next stack fin \<longleftrightarrow> distinct fin \<and> set fin \<inter> set stack = {} \<and>
     (\<forall>f\<in>set fin. set (next f) \<subseteq> set fin \<union> set stack) \<and>
     (\<forall>f\<in>set fin. \<forall>g\<in>set (next f). comes_before fin g f \<or> leads next g f)"

definition grows_from :: "('a \<Rightarrow> 'a list) \<Rightarrow> 'a \<Rightarrow> 'a list \<Rightarrow> 'a list \<Rightarrow> bool" where
  "grows_from next v fin d \<longleftrightarrow> prefix fin d \<and> (\<forall>a\<in>set d - set fin. leads next v a)"

lemma grows_from_refl [simp]: "grows_from next v fin fin"
  by (simp add: grows_from_def)

lemma grows_from_trans: "grows_from next v a b \<Longrightarrow> grows_from next v b c \<Longrightarrow> grows_from next v a c"
  by (auto simp: grows_from_def)

lemma grows_from_step: "grows_from next w a b \<Longrightarrow> leads next v w \<Longrightarrow> grows_from next v a b"
  by (auto simp: grows_from_def intro: leads_trans)

lemma dfs_facts:
  assumes "dfs n next stack v fin = Some d" "search_ok next stack fin" "\<forall>s\<in>set stack. leads next s v"
  shows "search_ok next stack d \<and> grows_from next v fin d \<and> v \<in> set d \<union> set stack"
  using assms
proof (induction n arbitrary: stack v fin d)
  case (Suc n)
  show ?case
  proof (cases "v \<in> set fin \<or> v \<in> set stack")
    case True
    then show ?thesis using Suc.prems by auto
  next
    case new: False
    then obtain e where e: "fold_opt (dfs n next (v # stack)) (next v) fin = Some e" and d: "d = e @ [v]"
      using Suc.prems(1) by auto
    let ?P = "\<lambda>ys u. search_ok next (v # stack) u \<and> grows_from next v fin u \<and> set ys \<subseteq> set u \<union> set (v # stack)"
    have "?P (next v) e"
    proof (rule fold_opt_induct [where P = ?P, OF e])
      show "?P [] fin" using Suc.prems(2) new by (auto simp: search_ok_def)
      fix ys x u w
      assume x: "set (ys @ [x]) \<subseteq> set (next v)" and P: "?P ys u" and w: "dfs n next (v # stack) x u = Some w"
      have vx: "leads next v x" using x by (auto intro: leads_next)
      have "\<forall>s\<in>set (v # stack). leads next s x" using Suc.prems(3) vx by (auto intro: leads_trans)
      from Suc.IH [OF w _ this] P have w': "search_ok next (v # stack) w" "grows_from next x u w" "x \<in> set w \<union> set (v # stack)"
        by auto
      moreover have "grows_from next v fin w" using P w'(2) vx by (blast intro: grows_from_trans grows_from_step)
      moreover have "set u \<subseteq> set w" using w'(2) by (auto simp: grows_from_def dest: set_mono_prefix)
      ultimately show "?P (ys @ [x]) w" using P by auto
    qed
    then have P: "search_ok next (v # stack) e" "grows_from next v fin e" "set (next v) \<subseteq> set e \<union> set (v # stack)"
      by auto
    have "search_ok next stack (e @ [v])"
      unfolding search_ok_def
    proof (intro conjI ballI)
      show "distinct (e @ [v])" using P(1) by (auto simp: search_ok_def)
      show "set (e @ [v]) \<inter> set stack = {}" using P(1) new by (auto simp: search_ok_def)
      fix f
      assume f: "f \<in> set (e @ [v])"
      show "set (next f) \<subseteq> set (e @ [v]) \<union> set stack" using f P(1,3) by (auto simp: search_ok_def)
      fix g
      assume g: "g \<in> set (next f)"
      show "comes_before (e @ [v]) g f \<or> leads next g f"
      proof (cases "f = v")
        case True
        then show ?thesis using g P(3) Suc.prems(3) by (auto intro: comes_before_last)
      next
        case False
        then have "f \<in> set e" using f by simp
        then have "comes_before e g f \<or> leads next g f" using g P(1) unfolding search_ok_def by blast
        then show ?thesis using comes_before_append [of e g f "[v]"] by blast
      qed
    qed
    moreover have "grows_from next v fin (e @ [v])" using P(2) by (auto simp: grows_from_def)
    ultimately show ?thesis using d by simp
  qed
qed simp

text \<open>Enough fuel: more than there are nodes off the current path.\<close>

lemma dfs_fuel:
  assumes "finite U" "\<forall>u\<in>U. set (next u) \<subseteq> U" "v \<in> U" "set stack \<subseteq> U" "distinct stack" "card U - length stack < n"
  shows "\<exists>d. dfs n next stack v fin = Some d"
  using assms(3-)
proof (induction n arbitrary: stack v fin)
  case (Suc n)
  show ?case
  proof (cases "v \<in> set fin \<or> v \<in> set stack")
    case new: False
    have "set (v # stack) \<subseteq> U" "distinct (v # stack)" using Suc.prems new by auto
    moreover have "card (set (v # stack)) \<le> card U" using \<open>set (v # stack) \<subseteq> U\<close> assms(1) by (rule card_mono [rotated])
    ultimately have "card U - length (v # stack) < n" using Suc.prems by (simp add: distinct_card)
    then have "\<exists>w. dfs n next (v # stack) x u = Some w" if "x \<in> set (next v)" for x u
      using that Suc.IH [of x "v # stack" u] Suc.prems assms(2) new by (auto simp: subset_iff)
    then have "\<exists>e. fold_opt (dfs n next (v # stack)) (next v) fin = Some e \<and> True"
      by (intro fold_opt_total) auto
    then show ?thesis using new by auto
  qed auto
qed simp

section \<open>From several roots\<close>

definition dfs_all :: "nat \<Rightarrow> ('a \<Rightarrow> 'a list) \<Rightarrow> 'a list \<Rightarrow> 'a list option" where
  "dfs_all n next roots = fold_opt (dfs n next []) roots []"

lemma search_ok_Nil [simp]: "search_ok next [] []"
  by (simp add: search_ok_def)

lemma dfs_all_facts:
  assumes "dfs_all n next roots = Some d"
  shows "search_ok next [] d" "set d = {a. \<exists>r\<in>set roots. leads next r a}"
proof -
  let ?P = "\<lambda>ys u. search_ok next [] u \<and> set ys \<subseteq> set u \<and> (\<forall>a\<in>set u. \<exists>r\<in>set roots. leads next r a)"
  have P: "?P roots d"
  proof (rule fold_opt_induct [where P = ?P, OF assms [unfolded dfs_all_def]])
    fix ys x u w
    assume x: "set (ys @ [x]) \<subseteq> set roots" and P: "?P ys u" and w: "dfs n next [] x u = Some w"
    have w': "search_ok next [] w \<and> grows_from next x u w \<and> x \<in> set w" using dfs_facts [OF w] P by auto
    then have "set u \<subseteq> set w" by (auto simp: grows_from_def dest: set_mono_prefix)
    moreover have "\<exists>r\<in>set roots. leads next r a" if "a \<in> set w" for a
      using that P w' x by (cases "a \<in> set u") (auto simp: grows_from_def)
    ultimately show "?P (ys @ [x]) w" using P w' by auto
  qed simp
  then show "search_ok next [] d" by simp
  have "b \<in> set d" if "leads next a b" "a \<in> set d" for a b
    using that unfolding leads_def
    by (induction rule: rtranclp_induct) (use P in \<open>auto simp: search_ok_def\<close>)
  then show "set d = {a. \<exists>r\<in>set roots. leads next r a}" using P by blast
qed

lemma dfs_all_fuel:
  assumes "finite U" "\<forall>u\<in>U. set (next u) \<subseteq> U" "set roots \<subseteq> U" "card U < n"
  shows "\<exists>d. dfs_all n next roots = Some d"
proof -
  have "\<exists>w. dfs n next [] x u = Some w" if "x \<in> set roots" for x u
    using dfs_fuel [OF assms(1,2), of x "[]" n] assms that by auto
  then have "\<exists>d. fold_opt (dfs n next []) roots [] = Some d \<and> True" by (intro fold_opt_total) auto
  then show ?thesis by (simp add: dfs_all_def)
qed

end
