(* ===== verification/File_List.thy ===== *)
theory File_List
  imports Text_Lines Dfs_Order
begin

text \<open>
  The resolution of the encoder's \<open>.abc\<close> dependencies into a compile order
  (\<open>kv260/duo/fpga/abc_filelist.py\<close> and its copies): the lines of an \<open>.abc\<close> file, the closure of the graph,
  the packages a source defines and uses, the order. Texts are ASCII; the tree of files is an input. A path
  is the list of its components below the root.
\<close>

section \<open>Packages of a source\<close>

text \<open>The text behind the first end of a block comment.\<close>

fun after_close :: "string \<Rightarrow> string option" where
  "after_close [] = None"
| "after_close (c # cs) = (if c = CHR ''*'' \<and> startswith cs ''/'' then Some (drop 1 cs) else after_close cs)"

lemma after_close_shorter: "after_close s = Some t \<Longrightarrow> length t < length s"
  by (induction s) (auto split: if_splits)

function strip_blocks :: "string \<Rightarrow> string" where
  "strip_blocks [] = []"
| "strip_blocks (c # cs) =
     (if c = CHR ''/'' \<and> startswith cs ''*'' then
        (case after_close (drop 1 cs) of None \<Rightarrow> c # strip_blocks cs | Some rest \<Rightarrow> CHR '' '' # strip_blocks rest)
      else c # strip_blocks cs)"
  by pat_completeness auto
termination strip_blocks
proof (relation "measure length")
  fix c :: char and cs rest :: string
  assume "after_close (drop 1 cs) = Some rest"
  then have "length rest < length (drop 1 cs)" by (rule after_close_shorter)
  then show "(rest, c # cs) \<in> measure length" by simp
qed simp_all

fun strip_line_comments :: "bool \<Rightarrow> string \<Rightarrow> string" where
  "strip_line_comments inside [] = []"
| "strip_line_comments inside (c # cs) =
     (if inside then (if c = NL then NL # strip_line_comments False cs else strip_line_comments True cs)
      else if c = CHR ''/'' \<and> startswith cs ''/'' then CHR '' '' # strip_line_comments True cs
      else c # strip_line_comments False cs)"

definition is_word_char :: "char \<Rightarrow> bool" where
  "is_word_char c \<longleftrightarrow> (let n = code_of c in 48 \<le> n \<and> n \<le> 57 \<or> 65 \<le> n \<and> n \<le> 90 \<or> 97 \<le> n \<and> n \<le> 122 \<or> n = 95)"

text \<open>\<open>^\s*package\s+(\w+)\s*;\<close> at the start of a line.\<close>

definition package_at :: "string \<Rightarrow> string option" where
  "package_at s =
     (let r = lstrip s; q = drop 7 r; t = lstrip q; w = takeWhile is_word_char t in
      if startswith r ''package'' \<and> q \<noteq> [] \<and> is_space (hd q) \<and> w \<noteq> [] \<and>
         startswith (lstrip (dropWhile is_word_char t)) '';''
      then Some w else None)"

fun line_starts :: "string \<Rightarrow> string list" where
  "line_starts [] = []"
| "line_starts (c # cs) = (if c = NL then cs # line_starts cs else line_starts cs)"

definition pkg_defs :: "string \<Rightarrow> string list" where
  "pkg_defs txt = List.map_filter package_at (txt # line_starts txt)"

text \<open>\<open>\b(\w+)\s*::\<close>; the flag says whether the character before belongs to a word.\<close>

fun pkg_uses :: "bool \<Rightarrow> string \<Rightarrow> string list" where
  "pkg_uses inside [] = []"
| "pkg_uses inside (c # cs) =
     ((if is_word_char c \<and> \<not> inside \<and> startswith (lstrip (dropWhile is_word_char cs)) ''::''
       then [c # takeWhile is_word_char cs] else [])
      @ pkg_uses (is_word_char c) cs)"

text \<open>What a source defines and what it uses of others; a file that cannot be read has neither.\<close>

definition sv_pkg_edges :: "string option \<Rightarrow> string list \<times> string list" where
  "sv_pkg_edges file = (case file of None \<Rightarrow> ([], [])
     | Some txt0 \<Rightarrow>
         let txt = strip_line_comments False (strip_blocks txt0); defs = pkg_defs txt in
         (remdups defs, filter (\<lambda>u. u \<notin> set defs) (remdups (pkg_uses False txt))))"

section \<open>The order\<close>

type_synonym path = "string list"

type_synonym tree = "path \<Rightarrow> string option"

definition defs_of :: "tree \<Rightarrow> path \<Rightarrow> string list" where
  "defs_of tr f = fst (sv_pkg_edges (tr f))"

definition uses_of :: "tree \<Rightarrow> path \<Rightarrow> string list" where
  "uses_of tr f = snd (sv_pkg_edges (tr f))"

text \<open>The first file that defines a package provides it.\<close>

definition provider :: "tree \<Rightarrow> path list \<Rightarrow> string \<Rightarrow> path option" where
  "provider tr files p = List.find (\<lambda>f. p \<in> set (defs_of tr f)) files"

fun place_pkgs :: "tree \<Rightarrow> path list \<Rightarrow> (path \<Rightarrow> path list \<Rightarrow> path list option) \<Rightarrow> path \<Rightarrow> string list \<Rightarrow> path list \<Rightarrow> path list option" where
  "place_pkgs tr files rec f [] placed = Some placed"
| "place_pkgs tr files rec f (pkg # pkgs) placed =
     (case provider tr files pkg of
        None \<Rightarrow> place_pkgs tr files rec f pkgs placed
      | Some src \<Rightarrow>
          if src = f then place_pkgs tr files rec f pkgs placed
          else (case rec src placed of None \<Rightarrow> None | Some placed' \<Rightarrow> place_pkgs tr files rec f pkgs placed'))"

primrec place_file :: "nat \<Rightarrow> tree \<Rightarrow> path list \<Rightarrow> path list \<Rightarrow> path \<Rightarrow> path list \<Rightarrow> path list option" where
  "place_file 0 tr files visiting f placed = None"
| "place_file (Suc n) tr files visiting f placed =
     (if f \<in> set placed \<or> f \<in> set visiting then Some placed
      else case place_pkgs tr files (place_file n tr files (f # visiting)) f (sorted_strs (uses_of tr f)) placed of
          None \<Rightarrow> None
        | Some placed' \<Rightarrow> Some (if f \<in> set placed' then placed' else placed' @ [f]))"

definition package_files_first :: "tree \<Rightarrow> path list \<Rightarrow> path list" where
  "package_files_first tr files = filter (\<lambda>f. defs_of tr f \<noteq> []) files @ filter (\<lambda>f. defs_of tr f = []) files"

text \<open>Packages that no file of the set provides, with the file that uses them.\<close>

definition missing_packages :: "tree \<Rightarrow> path list \<Rightarrow> (string list \<times> path) list" where
  "missing_packages tr files = filter (\<lambda>w. fst w \<noteq> [])
     (map (\<lambda>f. (sorted_strs (filter (\<lambda>p. provider tr files p = None \<and> p \<notin> {''std'', ''$unit''}) (uses_of tr f)), f)) files)"

definition order_by_packages :: "nat \<Rightarrow> tree \<Rightarrow> path list \<Rightarrow> (path list \<times> (string list \<times> path) list) option" where
  "order_by_packages fuel tr files =
     (case fold_opt (place_file fuel tr files []) (package_files_first tr files) [] of
        None \<Rightarrow> None | Some ordered \<Rightarrow> Some (ordered, missing_packages tr files))"

section \<open>The graph of the .abc files\<close>

text \<open>\<open>Path(...)\<close> drops empty components and \<open>.\<close>.\<close>

definition components :: "string \<Rightarrow> path" where
  "components s = filter (\<lambda>c. c \<noteq> [] \<and> c \<noteq> ''.'') (split_on (CHR ''/'') s)"

definition posix :: "path \<Rightarrow> string" where
  "posix p = (if p = [] then ''.'' else join_with ''/'' p)"

text \<open>Directory and names of \<open>import @<dir> : <names>\<close>: the directory reaches as far as a colon behind it allows.\<close>

definition import_qualified :: "string \<Rightarrow> (string \<times> string list) option" where
  "import_qualified line =
     (let r = lstrip line; q = drop 6 r; s = lstrip q in
      if startswith r ''import'' \<and> q \<noteq> [] \<and> is_space (hd q) \<and> startswith s ''@'' then
        (let t = drop 1 s; tok = takeWhile (\<lambda>c. \<not> is_space c) t; after = lstrip (dropWhile (\<lambda>c. \<not> is_space c) t) in
         if tok \<noteq> [] \<and> startswith after '':'' \<and> drop 1 after \<noteq> [] then Some (tok, split_ws (drop 1 after))
         else case List.find (\<lambda>k. tok ! k = CHR '':'' \<and> drop (k + 1) t \<noteq> []) (rev [1..<length tok]) of
             None \<Rightarrow> None | Some k \<Rightarrow> Some (take k tok, split_ws (drop (k + 1) t)))
      else None)"

definition import_local :: "string \<Rightarrow> string option" where
  "import_local line = (case split_ws line of
     [kw, n] \<Rightarrow> if kw = ''import'' \<and> CHR ''@'' \<notin> set n \<and> CHR '':'' \<notin> set n then Some n else None
   | _ \<Rightarrow> None)"

definition read_src :: "string \<Rightarrow> string option" where
  "read_src line = (case split_ws line of
     [kw, f] \<Rightarrow> if kw \<in> {''read_sv'', ''read_sim'', ''read_vhdl''} then Some f else None
   | _ \<Rightarrow> None)"

definition ABC_GAPS :: "(string, (string \<times> string) list) dict" where
  "ABC_GAPS = [(''rtl/external/stream/cvs_fifo2.abc'', [(''rtl/external/stream'', ''cvsource_if'')])]"

type_synonym abc_lists = "(string \<times> string) list \<times> path list"

definition abc_line :: "path \<Rightarrow> string \<Rightarrow> abc_lists \<Rightarrow> abc_lists" where
  "abc_line dir line0 acc =
     (let line = takeWhile (\<lambda>c. c \<noteq> CHR ''#'') line0 in
      if strip line = [] then acc
      else case import_qualified line of
          Some (d, names) \<Rightarrow> (fst acc @ map (Pair d) names, snd acc)
        | None \<Rightarrow> (case import_local line of
            Some n \<Rightarrow> (fst acc @ [(posix dir, n)], snd acc)
          | None \<Rightarrow> (case read_src line of
              Some f \<Rightarrow> (fst acc, snd acc @ [dir @ components f])
            | None \<Rightarrow> acc)))"

definition parse_abc :: "tree \<Rightarrow> path \<Rightarrow> abc_lists" where
  "parse_abc tr abc =
     (case fold (abc_line (butlast abc)) (splitlines (opt_or (tr abc) [])) ([], []) of
        (deps, srcs) \<Rightarrow> (deps @ dict_get_or ABC_GAPS (posix abc) [], srcs))"

definition abc_for :: "tree \<Rightarrow> string \<Rightarrow> string \<Rightarrow> path option" where
  "abc_for tr dir name = (let p = components dir @ components (name @ ''.abc'') in if tr p = None then None else Some p)"

section \<open>The closure\<close>

datatype list_warning =
    Unresolved string string path
  | Source_Missing path

record abc_closure =
  cl_seen :: "path list"
  cl_files :: "path list"
  cl_warnings :: "list_warning list"

definition add_source :: "tree \<Rightarrow> path \<Rightarrow> abc_closure \<Rightarrow> abc_closure" where
  "add_source tr s c =
     (if tr s = None then c\<lparr>cl_warnings := cl_warnings c @ [Source_Missing s]\<rparr>
      else if s \<in> set (cl_files c) then c else c\<lparr>cl_files := cl_files c @ [s]\<rparr>)"

fun visit_deps :: "tree \<Rightarrow> (path \<Rightarrow> abc_closure \<Rightarrow> abc_closure option) \<Rightarrow> path \<Rightarrow> (string \<times> string) list \<Rightarrow> abc_closure \<Rightarrow> abc_closure option" where
  "visit_deps tr rec abc [] c = Some c"
| "visit_deps tr rec abc ((d, n) # deps) c =
     (case abc_for tr d n of
        None \<Rightarrow> visit_deps tr rec abc deps (c\<lparr>cl_warnings := cl_warnings c @ [Unresolved n d abc]\<rparr>)
      | Some child \<Rightarrow> (case rec child c of None \<Rightarrow> None | Some c' \<Rightarrow> visit_deps tr rec abc deps c'))"

primrec visit_abc :: "nat \<Rightarrow> tree \<Rightarrow> path list \<Rightarrow> path \<Rightarrow> abc_closure \<Rightarrow> abc_closure option" where
  "visit_abc 0 tr stack abc c = None"
| "visit_abc (Suc n) tr stack abc c =
     (if abc \<in> set (cl_seen c) \<or> abc \<in> set stack then Some c
      else case visit_deps tr (visit_abc n tr (abc # stack)) abc (fst (parse_abc tr abc)) c of
          None \<Rightarrow> None
        | Some c' \<Rightarrow> Some (fold (add_source tr) (snd (parse_abc tr abc)) (c'\<lparr>cl_seen := cl_seen c' @ [abc]\<rparr>)))"

definition collect_files :: "nat \<Rightarrow> tree \<Rightarrow> path list \<Rightarrow> abc_closure option" where
  "collect_files fuel tr roots =
     fold_opt (visit_abc fuel tr []) roots \<lparr> cl_seen = [], cl_files = [], cl_warnings = [] \<rparr>"

record resolved =
  rs_order :: "path list"
  rs_warnings :: "list_warning list"
  rs_missing :: "(string list \<times> path) list"

definition resolve_list :: "nat \<Rightarrow> tree \<Rightarrow> path list \<Rightarrow> resolved option" where
  "resolve_list fuel tr roots =
     (case collect_files fuel tr roots of None \<Rightarrow> None
      | Some c \<Rightarrow> (case order_by_packages (length (cl_files c) + 1) tr (cl_files c) of None \<Rightarrow> None
         | Some (order, missing) \<Rightarrow> Some \<lparr> rs_order = order, rs_warnings = cl_warnings c, rs_missing = missing \<rparr>))"

text \<open>The command: exit code 2 without the roots, otherwise one path per line.\<close>

definition file_list_main :: "nat \<Rightarrow> tree \<Rightarrow> path list \<Rightarrow> (int \<times> string list) option" where
  "file_list_main fuel tr roots =
     (if \<exists>r\<in>set roots. tr r = None then Some (2, [])
      else case resolve_list fuel tr roots of None \<Rightarrow> None | Some r \<Rightarrow> Some (0, map posix (rs_order r)))"

section \<open>Both recursions are the search\<close>

text \<open>The files a source depends on, and the \<open>.abc\<close> files an \<open>.abc\<close> file imports.\<close>

definition pkg_next :: "tree \<Rightarrow> path list \<Rightarrow> path \<Rightarrow> path list" where
  "pkg_next tr files f = filter (\<lambda>g. g \<noteq> f) (List.map_filter (provider tr files) (sorted_strs (uses_of tr f)))"

definition abc_next :: "tree \<Rightarrow> path \<Rightarrow> path list" where
  "abc_next tr a = List.map_filter (\<lambda>(d, n). abc_for tr d n) (fst (parse_abc tr a))"

lemma place_pkgs_fold:
  "place_pkgs tr files rec f pkgs placed =
     fold_opt rec (filter (\<lambda>g. g \<noteq> f) (List.map_filter (provider tr files) pkgs)) placed"
  by (induction pkgs arbitrary: placed) (auto simp: map_filter_simps split: option.splits)

lemma place_file_dfs:
  assumes "search_ok (pkg_next tr files) visiting placed" "\<forall>s\<in>set visiting. leads (pkg_next tr files) s f"
  shows "place_file n tr files visiting f placed = dfs n (pkg_next tr files) visiting f placed"
  using assms
proof (induction n arbitrary: visiting f placed)
  case (Suc n)
  let ?next = "pkg_next tr files"
  show ?case
  proof (cases "f \<in> set placed \<or> f \<in> set visiting")
    case new: False
    have path: "\<forall>s\<in>set (f # visiting). leads ?next s x" if "x \<in> set (?next f)" for x
      using that Suc.prems(2) by (auto intro: leads_step leads_next)
    have start: "search_ok ?next (f # visiting) placed" using Suc.prems(1) new by (auto simp: search_ok_def)
    have fold: "fold_opt (place_file n tr files (f # visiting)) xs u = fold_opt (dfs n ?next (f # visiting)) xs u \<and>
        (\<forall>e. fold_opt (dfs n ?next (f # visiting)) xs u = Some e \<longrightarrow> search_ok ?next (f # visiting) e)"
      if "set xs \<subseteq> set (?next f)" "search_ok ?next (f # visiting) u" for xs u
      using that
    proof (induction xs arbitrary: u)
      case (Cons x xs)
      have x: "place_file n tr files (f # visiting) x u = dfs n ?next (f # visiting) x u"
        using Suc.IH [OF Cons.prems(2)] path Cons.prems(1) by simp
      show ?case
      proof (cases "dfs n ?next (f # visiting) x u")
        case (Some w)
        have "search_ok ?next (f # visiting) w"
          using dfs_facts [OF Some Cons.prems(2)] path Cons.prems(1) by simp
        from Cons.IH [OF _ this] Cons.prems(1) x Some show ?thesis by simp
      qed (simp add: x)
    qed simp
    have "\<forall>e. fold_opt (dfs n ?next (f # visiting)) (?next f) placed = Some e \<longrightarrow> f \<notin> set e"
      using fold [OF subset_refl start] by (auto simp: search_ok_def)
    with fold [OF subset_refl start] new show ?thesis
      by (auto simp: place_pkgs_fold pkg_next_def [symmetric] split: option.splits)
  qed simp
qed simp

lemma order_dfs: "fold_opt (place_file n tr files []) fs [] = dfs_all n (pkg_next tr files) fs"
proof -
  have "search_ok (pkg_next tr files) [] u \<Longrightarrow>
      fold_opt (place_file n tr files []) xs u = fold_opt (dfs n (pkg_next tr files) []) xs u" for xs u
  proof (induction xs arbitrary: u)
    case (Cons x xs)
    have x: "place_file n tr files [] x u = dfs n (pkg_next tr files) [] x u"
      using place_file_dfs [OF Cons.prems] by simp
    show ?case
    proof (cases "dfs n (pkg_next tr files) [] x u")
      case (Some w)
      then show ?thesis using x Cons.IH dfs_facts [OF Some Cons.prems] by simp
    qed (simp add: x)
  qed simp
  then show ?thesis by (simp add: dfs_all_def)
qed

text \<open>What the closure holds of the finished \<open>.abc\<close> files.\<close>

definition sources_of :: "tree \<Rightarrow> path list \<Rightarrow> path set" where
  "sources_of tr seen = (\<Union>a\<in>set seen. set (snd (parse_abc tr a)))"

definition unresolved :: "tree \<Rightarrow> path \<Rightarrow> (string \<times> string) list \<Rightarrow> list_warning set" where
  "unresolved tr abc deps = (\<lambda>(d, n). Unresolved n d abc) ` {(d, n). (d, n) \<in> set deps \<and> abc_for tr d n = None}"

definition complaints :: "tree \<Rightarrow> path \<Rightarrow> list_warning set" where
  "complaints tr a = unresolved tr a (fst (parse_abc tr a)) \<union> Source_Missing ` {s. s \<in> set (snd (parse_abc tr a)) \<and> tr s = None}"

definition closure_ok :: "tree \<Rightarrow> abc_closure \<Rightarrow> bool" where
  "closure_ok tr c \<longleftrightarrow> distinct (cl_files c) \<and>
     set (cl_files c) = {s. s \<in> sources_of tr (cl_seen c) \<and> tr s \<noteq> None} \<and>
     (\<forall>a\<in>set (cl_seen c). complaints tr a \<subseteq> set (cl_warnings c))"

lemma add_source_fields:
  "cl_seen (fold (add_source tr) ss c) = cl_seen c"
  "set (cl_files (fold (add_source tr) ss c)) = set (cl_files c) \<union> {s. s \<in> set ss \<and> tr s \<noteq> None}"
  "set (cl_warnings (fold (add_source tr) ss c)) = set (cl_warnings c) \<union> Source_Missing ` {s. s \<in> set ss \<and> tr s = None}"
  "distinct (cl_files c) \<Longrightarrow> distinct (cl_files (fold (add_source tr) ss c))"
  by (induction ss arbitrary: c) (auto simp: add_source_def)

text \<open>A step of the closure follows a step of the search and adds the complaints \<open>W\<close>.\<close>

definition follows :: "tree \<Rightarrow> list_warning set \<Rightarrow> abc_closure \<Rightarrow> path list option \<Rightarrow> abc_closure option \<Rightarrow> bool" where
  "follows tr W c d r \<longleftrightarrow> (case d of None \<Rightarrow> r = None
     | Some s \<Rightarrow> \<exists>c'. r = Some c' \<and> cl_seen c' = s \<and> (closure_ok tr c \<longrightarrow> closure_ok tr c') \<and>
         set (cl_warnings c) \<union> W \<subseteq> set (cl_warnings c'))"

lemma follows_mono:
  assumes "follows tr W c1 d r" "closure_ok tr c \<longrightarrow> closure_ok tr c1" "set (cl_warnings c) \<union> V \<subseteq> set (cl_warnings c1) \<union> W"
  shows "follows tr V c d r"
proof (cases d)
  case None
  then show ?thesis using assms(1) by (simp add: follows_def)
next
  case (Some s)
  then obtain c' where "r = Some c'" "cl_seen c' = s" "closure_ok tr c1 \<longrightarrow> closure_ok tr c'"
    "set (cl_warnings c1) \<union> W \<subseteq> set (cl_warnings c')" using assms(1) by (auto simp: follows_def)
  then show ?thesis using Some assms(2,3) by (simp add: follows_def) blast
qed

lemma unresolved_Cons:
  "unresolved tr abc ((d, n) # deps) = (if abc_for tr d n = None then {Unresolved n d abc} else {}) \<union> unresolved tr abc deps"
  by (auto simp: unresolved_def)

lemma visit_deps_fold:
  assumes "\<And>a u. a \<in> set (List.map_filter (\<lambda>(d, n). abc_for tr d n) deps) \<Longrightarrow> follows tr {} u (rel a (cl_seen u)) (rec a u)"
  shows "follows tr (unresolved tr abc deps) c (fold_opt rel (List.map_filter (\<lambda>(d, n). abc_for tr d n) deps) (cl_seen c))
     (visit_deps tr rec abc deps c)"
  using assms
proof (induction deps arbitrary: c)
  case Nil
  show ?case by (simp add: follows_def map_filter_simps unresolved_def)
next
  case (Cons p deps)
  obtain d n where p: "p = (d, n)" by (cases p)
  have IH: "follows tr (unresolved tr abc deps) u (fold_opt rel (List.map_filter (\<lambda>(d, n). abc_for tr d n) deps) (cl_seen u))
     (visit_deps tr rec abc deps u)" for u
    using Cons.prems p by (intro Cons.IH) (auto simp: map_filter_simps split: option.splits)
  show ?case
  proof (cases "abc_for tr d n")
    case None
    let ?c = "c\<lparr>cl_warnings := cl_warnings c @ [Unresolved n d abc]\<rparr>"
    have "closure_ok tr c \<longrightarrow> closure_ok tr ?c" by (auto simp: closure_ok_def)
    then have "follows tr (unresolved tr abc (p # deps)) c
        (fold_opt rel (List.map_filter (\<lambda>(d, n). abc_for tr d n) deps) (cl_seen ?c)) (visit_deps tr rec abc deps ?c)"
      by (rule follows_mono [OF IH]) (use None p in \<open>auto simp: unresolved_Cons\<close>)
    then show ?thesis using None p by (simp add: map_filter_simps)
  next
    case (Some child)
    have child: "follows tr {} c (rel child (cl_seen c)) (rec child c)"
      using Some p by (intro Cons.prems) (simp add: map_filter_simps)
    show ?thesis
    proof (cases "rel child (cl_seen c)")
      case None
      then show ?thesis using child Some p by (simp add: map_filter_simps follows_def)
    next
      case e: (Some e)
      then obtain u where u: "rec child c = Some u" "cl_seen u = e" "closure_ok tr c \<longrightarrow> closure_ok tr u"
        "set (cl_warnings c) \<subseteq> set (cl_warnings u)" using child by (auto simp: follows_def)
      have "follows tr (unresolved tr abc (p # deps)) c
        (fold_opt rel (List.map_filter (\<lambda>(d, n). abc_for tr d n) deps) (cl_seen u)) (visit_deps tr rec abc deps u)"
        by (rule follows_mono [OF IH u(3)]) (use u(4) Some p in \<open>auto simp: unresolved_Cons\<close>)
      then show ?thesis using e u Some p by (simp add: map_filter_simps)
    qed
  qed
qed

lemma finish_ok:
  assumes "closure_ok tr c" "unresolved tr a (fst (parse_abc tr a)) \<subseteq> set (cl_warnings c)"
  shows "closure_ok tr (fold (add_source tr) (snd (parse_abc tr a)) (c\<lparr>cl_seen := cl_seen c @ [a]\<rparr>))"
proof -
  let ?d = "fold (add_source tr) (snd (parse_abc tr a)) (c\<lparr>cl_seen := cl_seen c @ [a]\<rparr>)"
  have "distinct (cl_files ?d)" using assms(1) by (simp add: closure_ok_def add_source_fields)
  moreover have "set (cl_files ?d) = {s. s \<in> sources_of tr (cl_seen ?d) \<and> tr s \<noteq> None}"
    using assms(1) by (auto simp: closure_ok_def add_source_fields sources_of_def)
  moreover have "complaints tr b \<subseteq> set (cl_warnings ?d)" if "b \<in> set (cl_seen ?d)" for b
  proof (cases "b \<in> set (cl_seen c)")
    case True
    then have "complaints tr b \<subseteq> set (cl_warnings c)" using assms(1) by (simp add: closure_ok_def)
    then show ?thesis by (auto simp: add_source_fields)
  next
    case False
    then have "b = a" using that by (simp add: add_source_fields)
    then show ?thesis using assms(2) by (auto simp: complaints_def add_source_fields)
  qed
  ultimately show ?thesis by (simp add: closure_ok_def)
qed

lemma visit_follows: "follows tr {} c (dfs n (abc_next tr) stack a (cl_seen c)) (visit_abc n tr stack a c)"
proof (induction n arbitrary: stack a c)
  case 0
  show ?case by (simp add: follows_def)
next
  case (Suc n)
  show ?case
  proof (cases "a \<in> set (cl_seen c) \<or> a \<in> set stack")
    case True
    then show ?thesis by (simp add: follows_def)
  next
    case False
    have "follows tr (unresolved tr a (fst (parse_abc tr a))) c
        (fold_opt (dfs n (abc_next tr) (a # stack)) (abc_next tr a) (cl_seen c))
        (visit_deps tr (visit_abc n tr (a # stack)) a (fst (parse_abc tr a)) c)"
      unfolding abc_next_def [of tr a] by (rule visit_deps_fold) (rule Suc.IH)
    then show ?thesis using False
      by (auto simp: follows_def add_source_fields split: option.splits intro: finish_ok)
  qed
qed

lemma collect_follows:
  "follows tr {} c (fold_opt (dfs n (abc_next tr) []) roots (cl_seen c)) (fold_opt (visit_abc n tr []) roots c)"
proof (induction roots arbitrary: c)
  case (Cons r roots)
  note v = visit_follows [of tr c n "[]" r]
  show ?case
  proof (cases "dfs n (abc_next tr) [] r (cl_seen c)")
    case None
    then show ?thesis using v by (simp add: follows_def)
  next
    case (Some s)
    then obtain u where u: "visit_abc n tr [] r c = Some u" "cl_seen u = s" "closure_ok tr c \<longrightarrow> closure_ok tr u"
      "set (cl_warnings c) \<subseteq> set (cl_warnings u)" using v by (auto simp: follows_def)
    have "follows tr {} c (fold_opt (dfs n (abc_next tr) []) roots (cl_seen u)) (fold_opt (visit_abc n tr []) roots u)"
      by (rule follows_mono [OF Cons.IH u(3)]) (use u(4) in auto)
    then show ?thesis using Some u by simp
  qed
qed (simp add: follows_def)

section \<open>The order of the packages\<close>

lemma provider_in: "provider tr files p = Some g \<Longrightarrow> g \<in> set files \<and> p \<in> set (defs_of tr g)"
  unfolding provider_def by (metis find_Some_iff nth_mem)

lemma pkg_next_in: "set (pkg_next tr files f) \<subseteq> set files"
  using provider_in by (fastforce simp: pkg_next_def map_filter_def)

lemma pkg_next_provides:
  "p \<in> set (uses_of tr f) \<Longrightarrow> provider tr files p = Some g \<Longrightarrow> g \<noteq> f \<Longrightarrow> g \<in> set (pkg_next tr files f)"
  by (force simp: pkg_next_def map_filter_def)

lemma leads_stays:
  assumes "leads next a b" "a \<in> U" "\<And>u. u \<in> U \<Longrightarrow> set (next u) \<subseteq> U"
  shows "b \<in> U"
  using assms unfolding leads_def by (induction rule: rtranclp_induct) auto

lemma package_files_first_set: "set (package_files_first tr files) = set files"
  by (auto simp: package_files_first_def)

definition packages_ordered :: "tree \<Rightarrow> path list \<Rightarrow> path list \<Rightarrow> bool" where
  "packages_ordered tr files order \<longleftrightarrow>
     (\<forall>f\<in>set files. \<forall>p\<in>set (uses_of tr f). \<forall>g. provider tr files p = Some g \<and> g \<noteq> f \<longrightarrow>
        comes_before order g f \<or> leads (pkg_next tr files) g f)"

lemma order_facts:
  assumes "order_by_packages n tr files = Some (order, missing)"
  shows "distinct order" "set order = set files" "packages_ordered tr files order" "missing = missing_packages tr files"
proof -
  let ?next = "pkg_next tr files"
  have d: "dfs_all n ?next (package_files_first tr files) = Some order" "missing = missing_packages tr files"
    using assms by (auto simp: order_by_packages_def order_dfs split: option.splits)
  then show "missing = missing_packages tr files" by simp
  note facts = dfs_all_facts [OF d(1)]
  show "distinct order" using facts(1) by (simp add: search_ok_def)
  show files: "set order = set files"
  proof
    show "set order \<subseteq> set files" unfolding facts(2) package_files_first_set
      using leads_stays [of ?next _ _ "set files"] pkg_next_in by fast
    show "set files \<subseteq> set order" unfolding facts(2) package_files_first_set using leads_refl by fast
  qed
  show "packages_ordered tr files order"
    using facts(1) pkg_next_provides unfolding packages_ordered_def search_ok_def files by blast
qed

lemma order_total: "\<exists>order missing. order_by_packages (length files + 1) tr files = Some (order, missing)"
proof -
  have "card (set files) < length files + 1" using card_length [of files] by simp
  then have "\<exists>d. dfs_all (length files + 1) (pkg_next tr files) (package_files_first tr files) = Some d"
    using pkg_next_in by (intro dfs_all_fuel [where U = "set files"]) (auto simp: package_files_first_set)
  then show ?thesis by (auto simp: order_by_packages_def order_dfs)
qed

lemma collect_facts:
  assumes "collect_files n tr roots = Some c"
  shows "dfs_all n (abc_next tr) roots = Some (cl_seen c)" "closure_ok tr c"
proof -
  let ?c = "\<lparr> cl_seen = [], cl_files = [], cl_warnings = [] \<rparr>"
  have "closure_ok tr ?c" by (simp add: closure_ok_def sources_of_def)
  with collect_follows [of tr ?c n roots] assms
  show "dfs_all n (abc_next tr) roots = Some (cl_seen c)" "closure_ok tr c"
    by (auto simp: follows_def collect_files_def dfs_all_def split: option.splits)
qed

lemma abc_next_exists: "b \<in> set (abc_next tr a) \<Longrightarrow> tr b \<noteq> None"
  by (auto simp: abc_next_def map_filter_def abc_for_def Let_def split: if_splits)

section \<open>Properties\<close>

definition reached :: "tree \<Rightarrow> path list \<Rightarrow> path set" where
  "reached tr roots = {a. \<exists>q\<in>set roots. leads (abc_next tr) q a}"

text \<open>C24: The file list is the closure, in an order a compiler accepts: each existing source of every \<open>.abc\<close> file
  that the roots reach is listed exactly once and nothing else is; a source that uses a package stands behind
  the file that provides it, unless the two depend on each other; and every import that cannot be resolved,
  every source that is missing and every package without a provider is in the warnings.\<close>

theorem file_list_exact:
  assumes "resolve_list fuel tr roots = Some r"
  shows "distinct (rs_order r) \<and>
    set (rs_order r) = {s. s \<in> (\<Union>a\<in>reached tr roots. set (snd (parse_abc tr a))) \<and> tr s \<noteq> None} \<and>
    (\<exists>files. set files = set (rs_order r) \<and> packages_ordered tr files (rs_order r) \<and>
       rs_missing r = missing_packages tr files) \<and>
    (\<forall>a\<in>reached tr roots. complaints tr a \<subseteq> set (rs_warnings r))"
proof -
  obtain c order missing where c: "collect_files fuel tr roots = Some c"
    and o: "order_by_packages (length (cl_files c) + 1) tr (cl_files c) = Some (order, missing)"
    and r: "r = \<lparr> rs_order = order, rs_warnings = cl_warnings c, rs_missing = missing \<rparr>"
    using assms by (auto simp: resolve_list_def split: option.splits)
  have seen: "set (cl_seen c) = reached tr roots"
    using dfs_all_facts(2) [OF collect_facts(1) [OF c]] by (simp add: reached_def)
  have "set (cl_files c) = {s. s \<in> (\<Union>a\<in>reached tr roots. set (snd (parse_abc tr a))) \<and> tr s \<noteq> None}"
    "\<forall>a\<in>reached tr roots. complaints tr a \<subseteq> set (cl_warnings c)"
    using collect_facts(2) [OF c] unfolding closure_ok_def sources_of_def seen by auto
  moreover note order_facts [OF o]
  ultimately show ?thesis using r by auto
qed

text \<open>C32: The resolution ends, also where the graph of the \<open>.abc\<close> files or that of the packages is cyclic: fuel
  beyond the number of files is enough.\<close>

theorem file_list_ends:
  assumes "finite {p. tr p \<noteq> None}" "card {p. tr p \<noteq> None} < fuel"
  shows "\<exists>rc out. file_list_main fuel tr roots = Some (rc, out)"
proof (cases "\<exists>r\<in>set roots. tr r = None")
  case False
  have "\<exists>d. dfs_all fuel (abc_next tr) roots = Some d"
    using False abc_next_exists assms by (intro dfs_all_fuel [where U = "{p. tr p \<noteq> None}"]) auto
  then obtain c where "collect_files fuel tr roots = Some c"
    using collect_follows [of tr "\<lparr> cl_seen = [], cl_files = [], cl_warnings = [] \<rparr>" fuel roots]
    by (auto simp: follows_def collect_files_def dfs_all_def)
  then show ?thesis using order_total [of "cl_files c" tr] False by (auto simp: file_list_main_def resolve_list_def)
qed (simp add: file_list_main_def)

section \<open>Concrete inputs\<close>

text \<open>Two \<open>.abc\<close> files that import each other; the source of the first uses the package of the second.\<close>

definition duo_tree :: tree where
  "duo_tree = map_of
     [([''rtl'', ''a.abc''], ''import b'' @ [NL] @ ''read_sv a.sv''),
      ([''rtl'', ''b.abc''], ''import @rtl : a none'' @ [NL] @ ''read_sv b.sv  # the package''),
      ([''rtl'', ''a.sv''], ''module a; b_pkg::t x; endmodule''),
      ([''rtl'', ''b.sv''], ''package b_pkg;'' @ [NL] @ ''endpackage'')]"

lemma duo_resolved: "resolve_list 9 duo_tree [[''rtl'', ''a.abc'']] =
    Some \<lparr> rs_order = [[''rtl'', ''b.sv''], [''rtl'', ''a.sv'']],
           rs_warnings = [Unresolved ''none'' ''rtl'' [''rtl'', ''b.abc'']], rs_missing = [] \<rparr>"
  by code_simp

lemma file_list_exact_witness:
  "set [[''rtl'', ''b.sv''], [''rtl'', ''a.sv'']] =
     {s. s \<in> (\<Union>a\<in>reached duo_tree [[''rtl'', ''a.abc'']]. set (snd (parse_abc duo_tree a))) \<and> duo_tree s \<noteq> None}"
  using file_list_exact [OF duo_resolved] by simp

lemma file_list_ends_witness: "\<exists>rc out. file_list_main 9 duo_tree [[''rtl'', ''a.abc'']] = Some (rc, out)"
proof (rule file_list_ends)
  have sub: "{p. duo_tree p \<noteq> None} \<subseteq> {[''rtl'', ''a.abc''], [''rtl'', ''b.abc''], [''rtl'', ''a.sv''], [''rtl'', ''b.sv'']}"
    by (auto simp: duo_tree_def split: if_splits)
  then show "finite {p. duo_tree p \<noteq> None}" by (rule finite_subset) simp
  show "card {p. duo_tree p \<noteq> None} < 9" using card_mono [OF _ sub] by simp
qed

text \<open>Block comments are removed before line comments: a line comment with \<open>/*\<close> in it swallows the code up to
  the next end of a block comment, here a package.\<close>

lemma line_comment_swallows:
  "sv_pkg_edges (Some (''// see rtl/*.sv'' @ [NL] @ ''package p;'' @ [NL] @ ''/* end */ endpackage'')) = ([], [])"
  by code_simp

end
