(* ===== verification/Replay_Gen.thy ===== *)
theory Replay_Gen
  imports Text_Lines
begin

text \<open>
  The generator of replay tasks (\<open>scripts/gen_replay.py\<close>): from the program counters a board retired and the
  classification of the program it writes the statements that drive the CPU model of the test bench through
  exactly that sequence. The tasks of the CPU model that the statements call (\<open>tests/lib/cpu_model.sv\<close>) are
  modelled as far as the sequence of retired addresses goes.
\<close>

section \<open>Inputs\<close>

type_synonym pc_class = "string \<times> int \<times> int option"

definition read_u32 :: "byte list \<Rightarrow> int list" where
  "read_u32 raw = unpack_words (take (length raw div 4 * 4) raw)"

definition int_literal_error :: exn where
  "int_literal_error = Exn ValueError ''invalid literal for int()'' []"

text \<open>A line of the classification; lines of less than two fields or without an address are skipped.\<close>

definition pcinfo_entry :: "string \<Rightarrow> exn + (int \<times> pc_class) option" where
  "pcinfo_entry line =
     (case map strip (split_on (CHR '','') line) of
        a # t # tgt \<Rightarrow>
          if \<not> startswith a ''0x'' then Inr None
          else (case py_int 16 a of None \<Rightarrow> Inl int_literal_error
            | Some addr \<Rightarrow>
               if t = [] then Inl (Exn IndexError ''string index out of range'' [])
               else (case py_int 10 [last t] of None \<Rightarrow> Inl int_literal_error
                 | Some sz \<Rightarrow> (case tgt of
                      [] \<Rightarrow> Inr (Some (addr, butlast t, sz, None))
                    | x # _ \<Rightarrow> if x = [] then Inr (Some (addr, butlast t, sz, None))
                        else (case py_int 16 x of None \<Rightarrow> Inl int_literal_error
                          | Some target \<Rightarrow> Inr (Some (addr, butlast t, sz, Some target))))))
      | _ \<Rightarrow> Inr None)"

fun read_pcinfo_lines :: "string list \<Rightarrow> (int, pc_class) dict \<Rightarrow> exn + (int, pc_class) dict" where
  "read_pcinfo_lines [] info = Inr info"
| "read_pcinfo_lines (l # ls) info =
     (case pcinfo_entry l of Inl e \<Rightarrow> Inl e
      | Inr None \<Rightarrow> read_pcinfo_lines ls info
      | Inr (Some (a, c)) \<Rightarrow> read_pcinfo_lines ls (dict_set a c info))"

definition read_pcinfo :: "string \<Rightarrow> exn + (int, pc_class) dict" where
  "read_pcinfo text = read_pcinfo_lines (splitlines text) []"

section \<open>Statements\<close>

datatype stmt =
    Run int
  | Branch_Not_Taken int
  | Branch_Taken int
  | Jump_To int
  | Call_To int
  | Uninferable_Jump int
  | Ret

text \<open>The exit code of a refusal, or the exception that ends the generator.\<close>

datatype gen_failure =
    Gen_Exit int
  | Gen_Exn exn

definition no_target :: gen_failure where
  "no_target = Gen_Exn (Exn TypeError ''unsupported format string passed to NoneType'' [])"

definition flush_run :: "stmt list \<Rightarrow> int \<Rightarrow> stmt list" where
  "flush_run stmts run_bytes = (if run_bytes \<noteq> 0 then stmts @ [Run run_bytes] else stmts)"

text \<open>The statement of a branch with the successor that was retired.\<close>

definition branch_stmt :: "int \<Rightarrow> int option \<Rightarrow> int option \<Rightarrow> gen_failure + stmt" where
  "branch_stmt seq target nxt =
     (case target of
        None \<Rightarrow> Inl (Gen_Exn (Exn AssertionError [] []))
      | Some t \<Rightarrow>
          if nxt = None \<or> nxt = Some seq then Inr (Branch_Not_Taken t)
          else if nxt = Some t then Inr (Branch_Taken t) else Inl (Gen_Exit 3))"

definition target_stmt :: "(int \<Rightarrow> stmt) \<Rightarrow> int option \<Rightarrow> gen_failure + stmt" where
  "target_stmt f target = (case target of None \<Rightarrow> Inl no_target | Some t \<Rightarrow> Inr (f t))"

definition control_stmt :: "string \<Rightarrow> int \<Rightarrow> int option \<Rightarrow> int option \<Rightarrow> gen_failure + stmt" where
  "control_stmt kind seq target nxt =
     (if kind = ''BD'' then branch_stmt seq target nxt
      else if kind = ''JD'' then target_stmt Jump_To target
      else if kind = ''CD'' then target_stmt Call_To target
      else if kind = ''JI'' then target_stmt Uninferable_Jump nxt
      else if kind = ''R'' then Inr Ret
      else Inl (Gen_Exit 3))"

fun gen_stmts :: "(int, pc_class) dict \<Rightarrow> int list \<Rightarrow> stmt list \<Rightarrow> int \<Rightarrow> gen_failure + stmt list" where
  "gen_stmts info [] stmts run_bytes = Inr (flush_run stmts run_bytes)"
| "gen_stmts info (pc # pcs) stmts run_bytes =
     (let nxt = (case pcs of [] \<Rightarrow> None | q # _ \<Rightarrow> Some q) in
      case dict_get info pc of
        None \<Rightarrow> Inl (Gen_Exit 3)
      | Some (kind, sz, target) \<Rightarrow>
          if kind = ''L'' then
            (if nxt \<noteq> None \<and> nxt \<noteq> Some (pc + sz) then Inl (Gen_Exit 3) else gen_stmts info pcs stmts (run_bytes + sz))
          else
            let flushed = flush_run stmts run_bytes in
            if kind = ''JI'' \<and> nxt = None then Inr flushed
            else (case control_stmt kind (pc + sz) target nxt of
                Inl e \<Rightarrow> Inl e
              | Inr st \<Rightarrow> gen_stmts info pcs (flushed @ [st]) 0))"

section \<open>The written file\<close>

definition zero_pad :: "nat \<Rightarrow> string \<Rightarrow> string" where
  "zero_pad n s = replicate (n - length s) (CHR ''0'') @ s"

definition addr_literal :: "nat \<Rightarrow> int \<Rightarrow> string" where
  "addr_literal xlen v = str_d (int xlen) @ [CHR 0x27] @ ''h'' @ zero_pad (xlen div 4) (format_x v)"

fun stmt_text :: "nat \<Rightarrow> stmt \<Rightarrow> string" where
  "stmt_text xlen (Run n) = ''env.cpu.run('' @ str_d n @ '');''"
| "stmt_text xlen (Branch_Not_Taken t) = ''env.cpu.branch_not_taken(.target('' @ addr_literal xlen t @ ''));''"
| "stmt_text xlen (Branch_Taken t) = ''env.cpu.branch_taken(.target('' @ addr_literal xlen t @ ''));''"
| "stmt_text xlen (Jump_To t) = ''env.cpu.jump_to(.target('' @ addr_literal xlen t @ ''));''"
| "stmt_text xlen (Call_To t) = ''env.cpu.call_to(.target('' @ addr_literal xlen t @ ''));''"
| "stmt_text xlen (Uninferable_Jump t) = ''env.cpu.uninferable_jump(.target('' @ addr_literal xlen t @ ''));''"
| "stmt_text xlen Ret = ''env.cpu.ret();''"

text \<open>Blocks of at most \<open>chunk\<close> statements.\<close>

function blocks :: "nat \<Rightarrow> 'a list \<Rightarrow> 'a list list" where
  "blocks chunk xs = (if xs = [] \<or> chunk = 0 then [] else take chunk xs # blocks chunk (drop chunk xs))"
  by auto
termination blocks by (relation "measure (length \<circ> snd)") auto

declare blocks.simps [simp del]

definition block_task :: "nat \<Rightarrow> string \<Rightarrow> nat \<times> stmt list \<Rightarrow> string list" where
  "block_task xlen task p =
     [''task automatic '' @ task @ ''_c'' @ str_d (int (fst p)) @ ''();'']
     @ map (\<lambda>s. HT # stmt_text xlen s) (snd p) @ [''endtask'']"

definition main_task :: "nat \<Rightarrow> string \<Rightarrow> int \<Rightarrow> nat \<Rightarrow> string list" where
  "main_task xlen task start n =
     [''task automatic '' @ task @ ''();'', HT # ''env.cpu.enter(.start_pc('' @ addr_literal xlen start @ ''));'']
     @ map (\<lambda>i. HT # task @ ''_c'' @ str_d (int i) @ ''();'') [0..<n] @ [''endtask'']"

definition replay_text :: "string \<Rightarrow> nat \<Rightarrow> nat \<Rightarrow> string \<Rightarrow> nat \<Rightarrow> int list \<Rightarrow> stmt list \<Rightarrow> string" where
  "replay_text oracle start xlen task chunk pcs stmts =
     (let cs = blocks chunk stmts in unlines
       (sprintf ''// AUTO-GENERATED by scripts/gen_replay.py -- %s [%d:%d] (%d instructions from PC 0x%08x)''
          [AS oracle, AI (int start), AI (int (start + length pcs)), AI (int (length pcs)), AI (hd pcs)]
        # concat (map (block_task xlen task) (List.enumerate 0 cs)) @ main_task xlen task (hd pcs) (length cs)))"

record replay_args =
  ra_start :: nat
  ra_count :: nat
  ra_task :: string
  ra_chunk :: nat
  ra_xlen :: nat

text \<open>The statements and the text, or the refusal.\<close>

definition gen_replay :: "replay_args \<Rightarrow> string \<Rightarrow> byte list \<Rightarrow> string \<Rightarrow> gen_failure + (int list \<times> stmt list \<times> string)" where
  "gen_replay a oracle raw pcinfo =
     (let pcs = take (ra_count a) (drop (ra_start a) (read_u32 raw)) in
      case read_pcinfo pcinfo of
        Inl e \<Rightarrow> Inl (Gen_Exn e)
      | Inr info \<Rightarrow>
          if pcs = [] then Inl (Gen_Exit 2)
          else (case gen_stmts info pcs [] 0 of
              Inl e \<Rightarrow> Inl e
            | Inr stmts \<Rightarrow>
                if ra_chunk a = 0 then Inl (Gen_Exn (Exn ValueError ''range() arg 3 must not be zero'' []))
                else Inr (pcs, stmts, replay_text oracle (ra_start a) (ra_xlen a) (ra_task a) (ra_chunk a) pcs stmts)))"

section \<open>The CPU model\<close>

text \<open>The current address, the call stack and the addresses retired so far; \<open>ret\<close> on an empty stack reports
  an error and retires nothing.\<close>

record cpu =
  cpu_pc :: int
  cpu_stack :: "int list"
  cpu_retired :: "int list"
  cpu_errors :: nat

text \<open>The model as it is created, and the entry at an address; the call stack is left as it is.\<close>

definition cpu_new :: cpu where
  "cpu_new = \<lparr> cpu_pc = 0, cpu_stack = [], cpu_retired = [], cpu_errors = 0 \<rparr>"

definition cpu_enter :: "int \<Rightarrow> cpu \<Rightarrow> cpu" where
  "cpu_enter start c = c\<lparr>cpu_pc := start\<rparr>"

definition retire_to :: "int \<Rightarrow> cpu \<Rightarrow> cpu" where
  "retire_to nxt c = c\<lparr>cpu_retired := cpu_retired c @ [cpu_pc c], cpu_pc := nxt\<rparr>"

definition next_addr :: "nat \<Rightarrow> cpu \<Rightarrow> int" where
  "next_addr xlen c = (cpu_pc c + 4) mod 2 ^ xlen"

definition retire_next :: "nat \<Rightarrow> cpu \<Rightarrow> cpu" where
  "retire_next xlen c = retire_to (next_addr xlen c) c"

fun cpu_step :: "nat \<Rightarrow> stmt \<Rightarrow> cpu \<Rightarrow> cpu" where
  "cpu_step xlen (Run n) c = (retire_next xlen ^^ nat ((n + 3) div 4)) c"
| "cpu_step xlen (Branch_Not_Taken t) c = retire_next xlen c"
| "cpu_step xlen (Branch_Taken t) c = retire_to t c"
| "cpu_step xlen (Jump_To t) c = retire_to t c"
| "cpu_step xlen (Call_To t) c = retire_to t (c\<lparr>cpu_stack := next_addr xlen c # cpu_stack c\<rparr>)"
| "cpu_step xlen (Uninferable_Jump t) c = retire_to t c"
| "cpu_step xlen Ret c =
     (case cpu_stack c of [] \<Rightarrow> c\<lparr>cpu_errors := cpu_errors c + 1\<rparr> | r # rs \<Rightarrow> retire_to r (c\<lparr>cpu_stack := rs\<rparr>))"

definition cpu_exec :: "nat \<Rightarrow> stmt list \<Rightarrow> cpu \<Rightarrow> cpu" where
  "cpu_exec xlen stmts = fold (cpu_step xlen) stmts"

text \<open>The main task runs the blocks in order.\<close>

definition cpu_replay :: "nat \<Rightarrow> stmt list list \<Rightarrow> int \<Rightarrow> cpu" where
  "cpu_replay xlen bs start = fold (cpu_exec xlen) bs (cpu_enter start cpu_new)"

section \<open>The sequence is reproduced\<close>

lemma concat_blocks: "0 < chunk \<Longrightarrow> concat (blocks chunk xs) = xs"
proof (induction chunk xs rule: blocks.induct)
  case (1 chunk xs)
  then show ?case by (subst blocks.simps) auto
qed

lemma cpu_replay_blocks: "0 < chunk \<Longrightarrow> cpu_replay xlen (blocks chunk stmts) start = cpu_exec xlen stmts (cpu_enter start cpu_new)"
proof -
  have "fold (cpu_exec xlen) bs c = cpu_exec xlen (concat bs) c" for bs c
    by (induction bs arbitrary: c) (simp_all add: cpu_exec_def)
  then show "0 < chunk \<Longrightarrow> ?thesis" by (simp add: cpu_replay_def concat_blocks)
qed

text \<open>A sequence that is one: every instruction has four bytes, direct jumps and calls go to their target,
  returns go where the calls came from.\<close>

fun flows :: "nat \<Rightarrow> (int, pc_class) dict \<Rightarrow> int list \<Rightarrow> int list \<Rightarrow> bool" where
  "flows xlen info stack [] \<longleftrightarrow> True"
| "flows xlen info stack (pc # pcs) \<longleftrightarrow>
     (case dict_get info pc of
        None \<Rightarrow> False
      | Some (kind, sz, target) \<Rightarrow>
          sz = 4 \<and> 0 \<le> pc \<and> pc < 2 ^ xlen \<and>
          (if kind = ''CD'' then (pcs = [] \<or> target = Some (hd pcs)) \<and> flows xlen info ((pc + 4) mod 2 ^ xlen # stack) pcs
           else if kind = ''R'' then stack \<noteq> [] \<and> (pcs = [] \<or> hd pcs = hd stack) \<and> flows xlen info (tl stack) pcs
           else (kind = ''JD'' \<longrightarrow> pcs = [] \<or> target = Some (hd pcs)) \<and> flows xlen info stack pcs))"

definition ends_indirect :: "(int, pc_class) dict \<Rightarrow> int list \<Rightarrow> bool" where
  "ends_indirect info pcs \<longleftrightarrow> (\<exists>sz t. dict_get info (last pcs) = Some (''JI'', sz, t))"

lemma retire_simps [simp]:
  "cpu_pc (retire_to a c) = a" "cpu_stack (retire_to a c) = cpu_stack c" "cpu_errors (retire_to a c) = cpu_errors c"
  "cpu_retired (retire_to a c) = cpu_retired c @ [cpu_pc c]"
  "cpu_pc (retire_next xlen c) = next_addr xlen c" "cpu_stack (retire_next xlen c) = cpu_stack c"
  "cpu_errors (retire_next xlen c) = cpu_errors c" "cpu_retired (retire_next xlen c) = cpu_retired c @ [cpu_pc c]"
  by (simp_all add: retire_to_def retire_next_def)

lemma exec_flush: "0 \<le> k \<Longrightarrow> cpu_exec xlen (flush_run stmts (4 * k)) c = (retire_next xlen ^^ nat k) (cpu_exec xlen stmts c)"
proof -
  assume "0 \<le> k"
  have "(4 * k + 3) div 4 = k" by simp
  then show ?thesis by (simp add: flush_run_def cpu_exec_def)
qed

lemma exec_longer: "0 \<le> k \<Longrightarrow> cpu_exec xlen (flush_run stmts (4 * k + 4)) c = retire_next xlen (cpu_exec xlen (flush_run stmts (4 * k)) c)"
proof -
  assume k: "0 \<le> k"
  have "4 * k + 4 = 4 * (k + 1)" by simp
  then show ?thesis using k exec_flush [of k] exec_flush [of "k + 1"] by (simp add: nat_add_distrib)
qed

text \<open>With the pending run executed, the model stands at the next address of the sequence.\<close>

definition at_seq :: "int list \<Rightarrow> int list \<Rightarrow> cpu \<Rightarrow> bool" where
  "at_seq pcs stack c \<longleftrightarrow> (pcs = [] \<or> cpu_pc c = hd pcs) \<and> cpu_stack c = stack"

text \<open>The statement of an instruction retires it and leads to the next address of the sequence.\<close>

lemma control_step:
  assumes "control_stmt kind (pc + 4) target (case pcs of [] \<Rightarrow> None | q # _ \<Rightarrow> Some q) = Inr st"
    and "dict_get info pc = Some (kind, 4, target)" "flows xlen info stack (pc # pcs)" "at_seq (pc # pcs) stack c"
    and "pcs \<noteq> [] \<Longrightarrow> 0 \<le> hd pcs \<and> hd pcs < 2 ^ xlen"
  shows "\<exists>stack'. at_seq pcs stack' (cpu_step xlen st c) \<and> flows xlen info stack' pcs \<and>
     cpu_retired (cpu_step xlen st c) = cpu_retired c @ [pc] \<and> cpu_errors (cpu_step xlen st c) = cpu_errors c"
proof -
  have here: "cpu_pc c = pc" "cpu_stack c = stack" using assms(4) by (auto simp: at_seq_def)
  consider (b) "kind = ''BD''" | (j) "kind = ''JD''" | (c) "kind = ''CD''" | (i) "kind = ''JI''" | (r) "kind = ''R''"
    using assms(1) by (auto simp: control_stmt_def split: if_splits)
  then show ?thesis
  proof cases
    case b
    have fl: "flows xlen info stack pcs" using assms(2,3) b by simp
    have "branch_stmt (pc + 4) target (case pcs of [] \<Rightarrow> None | q # _ \<Rightarrow> Some q) = Inr st"
      using assms(1) b by (simp add: control_stmt_def)
    then obtain t where "st = Branch_Not_Taken t \<and> (pcs = [] \<or> hd pcs = pc + 4) \<or> st = Branch_Taken t \<and> pcs \<noteq> [] \<and> hd pcs = t"
      by (cases pcs) (auto simp: branch_stmt_def split: option.splits if_splits)
    moreover have "pcs = [] \<or> hd pcs \<noteq> pc + 4 \<or> (pc + 4) mod 2 ^ xlen = pc + 4" using assms(5) by (cases "pcs = []") auto
    ultimately show ?thesis using fl here by (intro exI [of _ stack]) (auto simp: at_seq_def next_addr_def)
  next
    case j
    have fl: "flows xlen info stack pcs" "pcs = [] \<or> target = Some (hd pcs)" using assms(2,3) j by simp_all
    obtain t where "st = Jump_To t" "target = Some t"
      using assms(1) j by (auto simp: control_stmt_def target_stmt_def split: option.splits)
    then show ?thesis using fl here by (intro exI [of _ stack]) (auto simp: at_seq_def)
  next
    case c
    have fl: "flows xlen info ((pc + 4) mod 2 ^ xlen # stack) pcs" "pcs = [] \<or> target = Some (hd pcs)"
      using assms(2,3) c by simp_all
    obtain t where "st = Call_To t" "target = Some t"
      using assms(1) c by (auto simp: control_stmt_def target_stmt_def split: option.splits)
    then show ?thesis using fl here
      by (intro exI [of _ "(pc + 4) mod 2 ^ xlen # stack"]) (auto simp: at_seq_def next_addr_def)
  next
    case i
    have fl: "flows xlen info stack pcs" using assms(2,3) i by simp
    obtain q where "st = Uninferable_Jump q" "pcs \<noteq> []" "q = hd pcs"
      using assms(1) i by (cases pcs) (auto simp: control_stmt_def target_stmt_def)
    then show ?thesis using fl here by (intro exI [of _ stack]) (auto simp: at_seq_def)
  next
    case r
    have fl: "stack \<noteq> []" "pcs = [] \<or> hd pcs = hd stack" "flows xlen info (tl stack) pcs" using assms(2,3) r by simp_all
    have "st = Ret" using assms(1) r by (simp add: control_stmt_def)
    then show ?thesis using fl here by (cases stack) (auto simp: at_seq_def)
  qed
qed

lemma flows_range: "flows xlen info s pcs \<Longrightarrow> pcs \<noteq> [] \<Longrightarrow> 0 \<le> hd pcs \<and> hd pcs < 2 ^ xlen"
  by (cases pcs) (auto split: option.splits)

lemma flows_head:
  assumes "flows xlen info stack (pc # pcs)"
  obtains kind target where "dict_get info pc = Some (kind, 4, target)" "\<exists>s. flows xlen info s pcs"
    "kind = ''L'' \<longrightarrow> flows xlen info stack pcs"
  using assms by (auto split: option.splits if_splits)

lemma gen_reproduces:
  assumes "gen_stmts info pcs stmts (4 * k) = Inr out" "0 \<le> k" "flows xlen info stack pcs"
    and "at_seq pcs stack (cpu_exec xlen (flush_run stmts (4 * k)) c)"
  shows "cpu_retired (cpu_exec xlen out c) =
      cpu_retired (cpu_exec xlen (flush_run stmts (4 * k)) c) @ (if pcs \<noteq> [] \<and> ends_indirect info pcs then butlast pcs else pcs) \<and>
    cpu_errors (cpu_exec xlen out c) = cpu_errors (cpu_exec xlen (flush_run stmts (4 * k)) c)"
  using assms
proof (induction pcs arbitrary: stmts k stack)
  case Nil
  then show ?case by simp
next
  case (Cons pc pcs)
  let ?nxt = "case pcs of [] \<Rightarrow> None | q # _ \<Rightarrow> Some q" and ?c = "cpu_exec xlen (flush_run stmts (4 * k)) c"
  obtain kind target where e: "dict_get info pc = Some (kind, 4, target)" and rest: "\<exists>s. flows xlen info s pcs"
    and lin: "kind = ''L'' \<longrightarrow> flows xlen info stack pcs"
    using flows_head [OF Cons.prems(3)] .
  have range: "pcs \<noteq> [] \<Longrightarrow> 0 \<le> hd pcs \<and> hd pcs < 2 ^ xlen" using rest flows_range by blast
  have ends: "ends_indirect info (pc # pcs) \<longleftrightarrow> (if pcs = [] then kind = ''JI'' else ends_indirect info pcs)"
    using e by (auto simp: ends_indirect_def)
  have here: "cpu_pc ?c = pc" "cpu_stack ?c = stack" using Cons.prems(4) by (auto simp: at_seq_def)
  show ?case
  proof (cases "kind = ''L''")
    case True
    have g: "gen_stmts info pcs stmts (4 * k + 4) = Inr out" and seq: "?nxt = None \<or> ?nxt = Some (pc + 4)"
      using Cons.prems(1) e True by (auto simp: Let_def split: if_splits)
    have k1: "4 * k + 4 = 4 * (k + 1)" "0 \<le> k + 1" using Cons.prems(2) by simp_all
    note step = exec_longer [OF Cons.prems(2), of xlen stmts c]
    have "at_seq pcs stack (cpu_exec xlen (flush_run stmts (4 * (k + 1))) c)"
      using seq here range by (cases pcs) (auto simp: at_seq_def step next_addr_def k1(1) [symmetric] simp del: distrib_left_numeral)
    from Cons.IH [OF g [unfolded k1(1)] k1(2) _ this] lin True
    show ?thesis using here ends True by (auto simp: step k1(1) [symmetric] simp del: distrib_left_numeral)
  next
    case nonlinear: False
    show ?thesis
    proof (cases "kind = ''JI'' \<and> ?nxt = None")
      case True
      then have "out = flush_run stmts (4 * k)" "pcs = []"
        using Cons.prems(1) e by (auto simp: Let_def split: list.splits)
      then show ?thesis using True ends by simp
    next
      case False
      obtain st where st: "control_stmt kind (pc + 4) target ?nxt = Inr st"
        "gen_stmts info pcs (flush_run stmts (4 * k) @ [st]) (4 * 0) = Inr out"
        using Cons.prems(1) e nonlinear False by (auto simp: Let_def split: sum.splits if_splits)
      obtain stack' where s: "at_seq pcs stack' (cpu_step xlen st ?c)" "flows xlen info stack' pcs"
        "cpu_retired (cpu_step xlen st ?c) = cpu_retired ?c @ [pc]" "cpu_errors (cpu_step xlen st ?c) = cpu_errors ?c"
        using control_step [OF st(1) e Cons.prems(3,4) range] by blast
      have x: "cpu_exec xlen (flush_run (flush_run stmts (4 * k) @ [st]) (4 * 0)) c = cpu_step xlen st ?c"
        by (simp add: cpu_exec_def flush_run_def)
      from Cons.IH [OF st(2) _ s(2)] s x
      have "cpu_retired (cpu_exec xlen out c) = cpu_retired ?c @ [pc] @ (if pcs \<noteq> [] \<and> ends_indirect info pcs then butlast pcs else pcs)
         \<and> cpu_errors (cpu_exec xlen out c) = cpu_errors ?c" by simp
      moreover have "pcs = [] \<Longrightarrow> kind \<noteq> ''JI''" using False by auto
      ultimately show ?thesis using ends by auto
    qed
  qed
qed

section \<open>Properties\<close>

text \<open>C26: What the generator accepts, the test bench repeats: where the oracle sequence is one of four-byte
  instructions along the direct targets and the calls, the written blocks, run in order, make the CPU model
  retire exactly that sequence without an error; only an indirect jump at its very end is left out.\<close>

theorem replay_reproduces:
  assumes "gen_replay a oracle raw pcinfo = Inr (pcs, stmts, text)" "read_pcinfo pcinfo = Inr info"
    and "flows xlen info [] pcs"
  shows "let c = cpu_replay xlen (blocks (ra_chunk a) stmts) (hd pcs) in
     cpu_retired c = (if ends_indirect info pcs then butlast pcs else pcs) \<and> cpu_errors c = 0"
proof -
  have g: "gen_stmts info pcs [] (4 * 0) = Inr stmts" "pcs \<noteq> []" "0 < ra_chunk a"
    using assms(1,2) by (auto simp: gen_replay_def Let_def split: sum.splits if_splits)
  have "at_seq pcs [] (cpu_exec xlen (flush_run [] (4 * 0)) (cpu_enter (hd pcs) cpu_new))"
    by (simp add: at_seq_def cpu_exec_def flush_run_def cpu_enter_def cpu_new_def)
  from gen_reproduces [OF g(1) _ assms(3) this] g(2,3) show ?thesis
    by (simp add: cpu_replay_blocks) (simp add: cpu_exec_def flush_run_def cpu_enter_def cpu_new_def)
qed

section \<open>Concrete inputs\<close>

definition demo_args :: replay_args where
  "demo_args = \<lparr> ra_start = 0, ra_count = 9, ra_task = ''t'', ra_chunk = 2, ra_xlen = 32 \<rparr>"

definition demo_info :: "(int, pc_class) dict" where
  "demo_info = [(0, ''L'', 4, None), (4, ''BD'', 4, Some 0), (8, ''CD'', 4, Some 16), (16, ''R'', 4, None), (12, ''JI'', 4, None)]"

definition demo_pcinfo :: string where
  "demo_pcinfo = unlines [''0x0,L4'', ''0x4,BD4,0x0'', ''0x8,CD4,0x10'', ''0x10,R4'', ''0xc,JI4'']"

definition demo_stmts :: "stmt list" where
  "demo_stmts = [Run 4, Branch_Taken 0, Run 4, Branch_Not_Taken 0, Call_To 16, Ret]"

lemma demo_read: "read_pcinfo demo_pcinfo = Inr demo_info"
  by code_simp

lemma demo_gen: "gen_stmts demo_info [0, 4, 0, 4, 8, 16, 12] [] 0 = Inr demo_stmts"
  by code_simp

lemma demo_u32: "read_u32 (pack_words [0, 4, 0, 4, 8, 16, 12]) = [0, 4, 0, 4, 8, 16, 12]"
proof -
  have "length (pack_words ws) div 4 * 4 = length (pack_words ws)" for ws by simp
  then show ?thesis
    unfolding read_u32_def using unpack_pack_words [of "[0, 4, 0, 4, 8, 16, 12]"] by (simp add: is_u32_def del: pack_words_simps)
qed

lemma replay_reproduces_witness:
  "cpu_retired (cpu_replay 32 (blocks 2 demo_stmts) 0) = [0, 4, 0, 4, 8, 16]"
proof -
  let ?pcs = "[0, 4, 0, 4, 8, 16, 12] :: int list"
  have "\<exists>text. gen_replay demo_args [] (pack_words ?pcs) demo_pcinfo = Inr (?pcs, demo_stmts, text)"
    by (simp add: gen_replay_def demo_u32 demo_read demo_gen demo_args_def Let_def del: pack_words_simps gen_stmts.simps)
  then obtain body where g: "gen_replay demo_args [] (pack_words ?pcs) demo_pcinfo = Inr (?pcs, demo_stmts, body)" ..
  have f: "flows 32 demo_info [] ?pcs" by code_simp
  have e: "ends_indirect demo_info ?pcs" by (simp add: ends_indirect_def demo_info_def dict_get_def)
  show ?thesis using replay_reproduces [OF g demo_read f] e by (simp add: demo_args_def Let_def)
qed

text \<open>The CPU model advances by four bytes whatever the size: a program with compressed instructions is accepted
  and replayed as another sequence.\<close>

lemma compressed_replayed_wrong:
  "gen_stmts [(0, ''L'', 2, None), (2, ''L'', 2, None), (4, ''L'', 4, None)] [0, 2, 4] [] 0 = Inr [Run 8] \<and>
   cpu_retired (cpu_exec 32 [Run 8] (cpu_enter 0 cpu_new)) = [0, 4]"
  by code_simp

text \<open>Only the successor of a linear instruction and of a branch is compared with the sequence: behind a direct
  jump another address than its target passes.\<close>

lemma jump_successor_unchecked:
  "gen_stmts [(0, ''JD'', 4, Some 16), (8, ''L'', 4, None)] [0, 8] [] 0 = Inr [Jump_To 16, Run 4] \<and>
   cpu_retired (cpu_exec 32 [Jump_To 16, Run 4] (cpu_enter 0 cpu_new)) = [0, 16]"
  by code_simp

end
