(* ===== verification/Image_Tools.thy ===== *)
theory Image_Tools
  imports Text_Lines
begin

text \<open>
  Two converters: \<open>dashboard/dis_to_symbols.py\<close>, from listings to the symbol table and the call and return
  sites the dashboard loads, and \<open>scripts/bin_to_memh.py\<close>, from a program image to the initialisation of a
  memory of 32-bit words.
\<close>

section \<open>Symbols and sites of a listing\<close>

text \<open>\<open>^([0-9a-fA-F]{8,16})\s+<([^>]+)>:\s*$\<close>.\<close>

definition label_match :: "string \<Rightarrow> (int \<times> string) option" where
  "label_match line =
     (let h = takeWhile is_hex line; r = dropWhile is_hex line; s = lstrip r;
          name = takeWhile (\<lambda>c. c \<noteq> CHR ''>'') (drop 1 s); t = dropWhile (\<lambda>c. c \<noteq> CHR ''>'') (drop 1 s) in
      if 8 \<le> length h \<and> length h \<le> 16 \<and> r \<noteq> s \<and> startswith s ''<'' \<and> name \<noteq> [] \<and> startswith t ''>:''
         \<and> lstrip (drop 2 t) = []
      then Some (hex_value h, name) else None)"

text \<open>\<open>^\s*([0-9a-fA-F]+):\s+[0-9a-fA-F]+\s+(\S+)\<close>.\<close>

definition insn_match :: "string \<Rightarrow> (int \<times> string) option" where
  "insn_match line =
     (let s = lstrip line; h = takeWhile is_hex s; r = dropWhile is_hex s; q = lstrip (drop 1 r);
          w = takeWhile is_hex q; t = dropWhile is_hex q; mn = takeWhile (\<lambda>c. \<not> is_space c) (lstrip t) in
      if h \<noteq> [] \<and> startswith r '':'' \<and> q \<noteq> drop 1 r \<and> w \<noteq> [] \<and> lstrip t \<noteq> t \<and> mn \<noteq> []
      then Some (hex_value h, mn) else None)"

record extracted =
  ex_syms :: "(int, string) dict"
  ex_calls :: "int list"
  ex_rets :: "int list"

definition extract_line :: "string \<Rightarrow> extracted \<Rightarrow> extracted" where
  "extract_line line x =
     (case label_match line of
        Some (a, n) \<Rightarrow> if dict_get (ex_syms x) a = None then x\<lparr>ex_syms := ex_syms x @ [(a, n)]\<rparr> else x
      | None \<Rightarrow> (case insn_match line of
          None \<Rightarrow> x
        | Some (a, mn) \<Rightarrow>
            if mn \<in> {''jal'', ''jalr''} then x\<lparr>ex_calls := List.insert a (ex_calls x)\<rparr>
            else if mn = ''ret'' then x\<lparr>ex_rets := List.insert a (ex_rets x)\<rparr> else x))"

text \<open>All listings, one after the other.\<close>

definition extract_listings :: "string list \<Rightarrow> extracted" where
  "extract_listings files =
     fold (\<lambda>text x. fold extract_line (file_lines text) x) files \<lparr> ex_syms = [], ex_calls = [], ex_rets = [] \<rparr>"

definition symbol_text :: "(int, string) dict \<Rightarrow> string" where
  "symbol_text syms = unlines (map (\<lambda>a. sprintf ''%08x T %s'' [AI a, AS (dict_get_or syms a [])]) (sort (map fst syms)))"

definition site_text :: "int list \<Rightarrow> int list \<Rightarrow> string" where
  "site_text calls rets = unlines (map (\<lambda>a. sprintf ''C %08x'' [AI a]) (sort calls))
     @ unlines (map (\<lambda>a. sprintf ''R %08x'' [AI a]) (sort rets))"

text \<open>Exit code, symbol table and sites; nothing is written without a symbol.\<close>

definition dis_to_symbols :: "string list \<Rightarrow> int \<times> (string \<times> string) option" where
  "dis_to_symbols files =
     (let x = extract_listings files in
      if ex_syms x = [] then (1, None) else (0, Some (symbol_text (ex_syms x), site_text (ex_calls x) (ex_rets x))))"

section \<open>The image of a memory\<close>

definition pad_words :: "byte list \<Rightarrow> byte list" where
  "pad_words data = (if length data mod 4 \<noteq> 0 then data @ replicate (4 - length data mod 4) 0 else data)"

definition memh_values :: "byte list \<Rightarrow> int option \<Rightarrow> string list" where
  "memh_values data0 depth_arg =
     (let data = pad_words data0; words = length data div 4;
          depth = (case depth_arg of Some d \<Rightarrow> nat d | None \<Rightarrow> words) in
      map (\<lambda>i. if i < words then hex8_of (le_int (take 4 (drop (4 * i) data))) else ''00000000'') [0..<depth])"

definition memh_text :: "bool \<Rightarrow> byte list \<Rightarrow> int option \<Rightarrow> string" where
  "memh_text coe data depth =
     (let vals = memh_values data depth in
      if coe then unlines [''memory_initialization_radix=16;'', ''memory_initialization_vector='']
                    @ join_with ('','' @ [NL]) vals @ '';'' @ [NL]
      else join_lines vals @ [NL])"

section \<open>The dashboard reads the tables back\<close>

lemma label_range:
  assumes "label_match line = Some (a, n)"
  shows "0 \<le> a" "a < 2 ^ 64"
proof -
  let ?h = "takeWhile is_hex line"
  have h: "\<forall>c\<in>set ?h. is_hex c" "?h \<noteq> []" "length ?h \<le> 16" "a = hex_value ?h"
    using assms by (auto simp: label_match_def Let_def dest: set_takeWhileD split: if_splits)
  have step: "digits_after 16 acc t = Some (acc * 16 ^ length t + v) \<and> 0 \<le> v \<and> v < 16 ^ length t"
    if "\<forall>c\<in>set t. is_hex c" "v = the (digits_after 16 0 t)" for acc t v
    using that
  proof (induction t arbitrary: acc v)
    case (Cons c t)
    obtain d where d: "digit_of 16 c = Some d" using Cons.prems(1) by (auto simp: is_hex_def)
    then have dr: "0 \<le> d" "d < 16" using digit_of_range by force+
    have us: "c \<noteq> CHR ''_''" using d by (auto simp: digit_of_def code_of_def)
    note t = Cons.IH [OF _ refl]
    obtain v' where v': "v' = the (digits_after 16 0 t)" by simp
    have a: "digits_after 16 x t = Some (x * 16 ^ length t + v')" "0 \<le> v'" "v' < 16 ^ length t" for x
      using t [of x] Cons.prems(1) v' by simp_all
    have "v = d * 16 ^ length t + v'" using Cons.prems(2) d us a(1) [of d] by simp
    moreover have "d * 16 ^ length t + v' < 16 * 16 ^ length t"
    proof -
      have "d * 16 ^ length t \<le> 15 * 16 ^ length t" using dr by (intro mult_right_mono) auto
      then show ?thesis using a(3) by linarith
    qed
    ultimately show ?case using d us a dr by (simp add: algebra_simps)
  qed simp
  obtain c t where c: "?h = c # t" using h(2) by (cases ?h) auto
  then obtain d where d: "digit_of 16 c = Some d" using h(1) by (auto simp: is_hex_def)
  then have dr: "0 \<le> d" "d < 16" using digit_of_range by force+
  have t: "\<forall>c\<in>set t. is_hex c" "length t \<le> 15" using h c by auto
  from step [OF t(1) refl, of d] d have "a = d * 16 ^ length t + the (digits_after 16 0 t)"
    using h(4) c by (simp add: hex_value_def digits_def opt_or_def)
  moreover note step [OF t(1) refl, of 0]
  moreover have "(16 :: int) ^ length t \<le> 16 ^ 15" using t(2) by (intro power_increasing) auto
  ultimately have "0 \<le> a" "a < (d + 1) * 16 ^ length t" using dr by (auto simp: algebra_simps)
  moreover have "(d + 1) * 16 ^ length t \<le> 16 * 16 ^ 15"
    using dr \<open>(16 :: int) ^ length t \<le> 16 ^ 15\<close> by (intro mult_mono) auto
  ultimately show "0 \<le> a" "a < 2 ^ 64" by simp_all
qed

section \<open>Lines read back\<close>

lemma letter_T [simp]: "is_letter (CHR ''T'')"
  by (simp add: is_letter_def code_of_def)

lemma lstrip_space [simp]: "lstrip (CHR '' '' # s) = lstrip s"
  by (simp add: lstrip_def)

lemma lstrip_plain: "plain_word w \<Longrightarrow> lstrip (w @ s) = w @ s"
  by (cases w) (auto simp: lstrip_def plain_word_def)

lemma symbol_line_written:
  assumes "0 \<le> a" "a < 2 ^ 64" "plain_word n"
  shows "symbol_line (sprintf ''%08x T %s'' [AI a, AS n]) = Some (a, CHR ''T'', n)"
proof -
  have f: "sprintf ''%08x T %s'' [AI a, AS n] = hex8_of a @ CHR '' '' # CHR ''T'' # CHR '' '' # n" by simp
  have l: "lstrip (hex8_of a @ s) = hex8_of a @ s" for s by (rule lstrip_plain) simp
  have h: "takeWhile is_hex (hex8_of a @ CHR '' '' # s) = hex8_of a" "dropWhile is_hex (hex8_of a @ CHR '' '' # s) = CHR '' '' # s" for s
    using hex8_of_prefix [OF assms(1), of "CHR '' '' # s"] by simp_all
  have n: "takeWhile (\<lambda>c. \<not> is_space c) n = n" "lstrip n = n" "n \<noteq> []"
    using assms(3) lstrip_plain [OF assms(3), of "[]"] by (auto simp: plain_word_def takeWhile_eq_all_conv)
  have T: "lstrip (CHR ''T'' # s) = CHR ''T'' # s" for s by (simp add: lstrip_def is_space_def code_of_def)
  show ?thesis using length_hex8_of [OF assms(1,2)] assms(1) n
    by (simp add: f symbol_line_def l h T Let_def del: takeWhile_eq_all_conv)
qed

lemma site_line_written:
  assumes "0 \<le> a"
  shows "site_line (sprintf ''C %08x'' [AI a]) = Some (True, a)" "site_line (sprintf ''R %08x'' [AI a]) = Some (False, a)"
proof -
  have l: "lstrip (hex8_of a) = hex8_of a" using lstrip_plain [of "hex8_of a" "[]"] by simp
  have t: "takeWhile is_hex (hex8_of a) = hex8_of a" "dropWhile is_hex (hex8_of a) = []"
    using hex8_of_prefix [OF assms, of "[]"] by simp_all
  show "site_line (sprintf ''C %08x'' [AI a]) = Some (True, a)" "site_line (sprintf ''R %08x'' [AI a]) = Some (False, a)"
    using assms by (simp_all add: site_line_def l t Let_def del: takeWhile_eq_all_conv dropWhile_eq_Nil_conv) (simp_all add: lstrip_def)
qed

lemma written_one_line:
  "plain_word n \<Longrightarrow> one_line (sprintf ''%08x T %s'' [AI a, AS n])"
  "one_line (sprintf ''C %08x'' [AI a])" "one_line (sprintf ''R %08x'' [AI a])"
  using plain_one_line [of n] plain_one_line [OF hex8_of_word, of a]
  by (simp_all add: is_line_end_def code_of_def)

lemma sort_rows_sorted: "sorted_wrt (<) (map fst rows) \<Longrightarrow> sort_rows rows = rows"
proof (induction rows)
  case (Cons r rows)
  then have "sort_rows rows = rows" by simp
  moreover have "insert_row r rows = r # rows" using Cons.prems by (cases rows) (auto simp: row_less_def)
  ultimately show ?case by (simp add: sort_rows_def)
qed (simp add: sort_rows_def)

lemma first_rows_sorted: "sorted_wrt (<) (map fst rows) \<Longrightarrow> (case p of None \<Rightarrow> True | Some a \<Rightarrow> \<forall>r\<in>set rows. a < fst r) \<Longrightarrow> first_rows p rows = rows"
  by (induction rows arbitrary: p) (auto split: option.splits)

definition extracted_ok :: "extracted \<Rightarrow> bool" where
  "extracted_ok x \<longleftrightarrow> distinct (map fst (ex_syms x)) \<and> (\<forall>a\<in>fst ` set (ex_syms x). 0 \<le> a \<and> a < 2 ^ 64) \<and>
     (\<forall>a\<in>set (ex_calls x) \<union> set (ex_rets x). 0 \<le> a)"

lemma extract_line_ok:
  assumes P: "extracted_ok x"
  shows "extracted_ok (extract_line l x)"
proof -
  have hex: "0 \<le> hex_value s" for s
  proof (cases "digits 16 s")
    case (Some v)
    then have "0 \<le> v" by (auto simp: digits_def intro: digits_after_nonneg dest: digit_of_range split: list.splits option.splits)
    then show ?thesis using Some by (simp add: hex_value_def opt_or_def)
  qed (simp add: hex_value_def opt_or_def)
  have ins: "0 \<le> a" if "insn_match line = Some (a, mn)" for line a mn
    using that hex by (auto simp: insn_match_def Let_def split: if_splits)
  show ?thesis
  proof (cases "label_match l")
    case (Some p)
    obtain a n where p: "p = (a, n)" by (cases p)
    then have "0 \<le> a \<and> a < 2 ^ 64" using label_range [of l a n] Some by simp
    then show ?thesis using P Some p by (auto simp: extracted_ok_def extract_line_def dict_get_def map_of_eq_None_iff)
  next
    case None
    show ?thesis
    proof (cases "insn_match l")
      case e: (Some q)
      obtain a mn where q: "q = (a, mn)" by (cases q)
      then have "0 \<le> a" using ins e by blast
      then show ?thesis using P None e q by (simp add: extracted_ok_def extract_line_def)
    next
      case e: None
      then show ?thesis using P None by (simp add: extract_line_def)
    qed
  qed
qed

lemma extract_ok: "extracted_ok (extract_listings files)"
proof -
  have ls: "extracted_ok x \<Longrightarrow> extracted_ok (fold extract_line ls x)" for ls x
    by (induction ls arbitrary: x) (simp_all add: extract_line_ok)
  have files: "extracted_ok x \<Longrightarrow> extracted_ok (fold (\<lambda>text. fold extract_line (file_lines text)) files x)" for x
    by (induction files arbitrary: x) (simp_all add: ls)
  show ?thesis unfolding extract_listings_def by (rule files) (simp add: extracted_ok_def)
qed

lemma sites_read:
  assumes "\<forall>a\<in>set calls \<union> set rets. 0 \<le> a"
  shows "set (cs_calls (sites_from_text (site_text calls rets) src)) = set calls"
    "set (cs_rets (sites_from_text (site_text calls rets) src)) = set rets"
proof -
  let ?C = "\<lambda>a. sprintf ''C %08x'' [AI a]" and ?R = "\<lambda>a. sprintf ''R %08x'' [AI a]"
  have lines: "splitlines (site_text calls rets) = map ?C (sort calls) @ map ?R (sort rets)"
  proof -
    have "list_all one_line (map ?C (sort calls) @ map ?R (sort rets))"
      by (simp only: list_all_iff set_append set_map) (use written_one_line in blast)
    from splitlines_unlines [OF this] show ?thesis by (simp only: site_text_def unlines_append)
  qed
  have "List.map_filter site_line (map ?C cs) = map (Pair True) cs" if "\<forall>a\<in>set cs. 0 \<le> a" for cs
    using that by (intro map_filter_written site_line_written) simp
  moreover have "List.map_filter site_line (map ?R cs) = map (Pair False) cs" if "\<forall>a\<in>set cs. 0 \<le> a" for cs
    using that by (intro map_filter_written site_line_written) simp
  moreover have "List.map_filter f (xs @ ys) = List.map_filter f xs @ List.map_filter f ys" for f :: "string \<Rightarrow> (bool \<times> int) option" and xs ys
    by (simp add: map_filter_def)
  ultimately have sites: "List.map_filter site_line (splitlines (site_text calls rets)) = map (Pair True) (sort calls) @ map (Pair False) (sort rets)"
    using assms unfolding lines by simp
  have f: "set (cs_calls (foldl add_site cs ps)) = set (cs_calls cs) \<union> {a. (True, a) \<in> set ps}"
    "set (cs_rets (foldl add_site cs ps)) = set (cs_rets cs) \<union> {a. (False, a) \<in> set ps}" for cs ps
    by (induction ps arbitrary: cs) (auto simp: add_site_def split: if_splits)
  show "set (cs_calls (sites_from_text (site_text calls rets) src)) = set calls"
    "set (cs_rets (sites_from_text (site_text calls rets) src)) = set rets"
    by (auto simp: sites_from_text_def sites f empty_sites_def)
qed

text \<open>Looking up a listed address in the table of an ascending list.\<close>

lemma bisect_nth:
  assumes "sorted_wrt (<) xs" "i < length xs"
  shows "bisect_right xs (xs ! i) = Suc i"
  using assms unfolding bisect_right_def
proof (induction xs arbitrary: i)
  case (Cons x xs)
  show ?case
  proof (cases i)
    case 0
    have "takeWhile (\<lambda>a. a \<le> x) xs = []" using Cons.prems by (cases xs) auto
    then show ?thesis using 0 by simp
  next
    case (Suc j)
    then have "x \<le> xs ! j" using Cons.prems by (auto simp: less_imp_le)
    then show ?thesis using Cons Suc by simp
  qed
qed simp

lemma symbols_read:
  assumes "distinct (map fst syms)" "\<forall>a\<in>fst ` set syms. 0 \<le> a \<and> a < 2 ^ 64" "\<forall>n\<in>snd ` set syms. plain_word n"
  shows "symbol_rows (symbol_text syms) = map (\<lambda>a. (a, dict_get_or syms a [])) (sort (map fst syms))"
proof -
  let ?l = "\<lambda>a. sprintf ''%08x T %s'' [AI a, AS (dict_get_or syms a [])]"
  have name: "plain_word (dict_get_or syms a [])" if ain: "a \<in> fst ` set syms" for a
  proof -
    obtain n where n: "(a, n) \<in> set syms" using ain by auto
    then have "dict_get_or syms a [] = n" using assms(1) by (simp add: dict_get_or_def)
    then show ?thesis using assms(3) n by force
  qed
  have "one_line (?l a)" if "a \<in> fst ` set syms" for a by (rule written_one_line(1)) (rule name [OF that])
  then have "list_all one_line (map ?l (sort (map fst syms)))" unfolding list_all_iff set_map set_sort by blast
  from splitlines_unlines [OF this] have "splitlines (symbol_text syms) = map ?l (sort (map fst syms))"
    by (simp only: symbol_text_def)
  moreover have "symbol_line (?l a) = Some (a, CHR ''T'', dict_get_or syms a [])" if "a \<in> fst ` set syms" for a
    using that assms(2) name by (intro symbol_line_written) auto
  then have "List.map_filter (\<lambda>l. case symbol_line l of
      Some (a, t, n) \<Rightarrow> if t \<in> set TEXT_TYPES then Some (a, n) else None | None \<Rightarrow> None) (map ?l (sort (map fst syms)))
    = map (\<lambda>a. (a, dict_get_or syms a [])) (sort (map fst syms))"
    by (intro map_filter_written) (simp add: TEXT_TYPES_def)
  ultimately show ?thesis by (simp only: symbol_rows_def)
qed

section \<open>Properties\<close>

text \<open>C21: The dashboard reads back what the converter wrote: its symbol table holds, in ascending order, exactly the
  labels of the listings, each with its first name, so that looking up a label answers that name at offset
  zero; and the sites are exactly the calls and the returns of the listings.\<close>

theorem dashboard_reads_listings:
  assumes "dis_to_symbols files = (rc, Some (syms, sites))" "\<forall>n\<in>snd ` set (ex_syms (extract_listings files)). plain_word n"
  shows "let x = extract_listings files; st = symbols_from_text syms src in
     rc = 0 \<and> st_addrs st = sort (map fst (ex_syms x)) \<and>
     (\<forall>(a, n)\<in>set (ex_syms x). sym_lookup st a = Some (n, a, 0)) \<and>
     set (cs_calls (sites_from_text sites src)) = set (ex_calls x) \<and>
     set (cs_rets (sites_from_text sites src)) = set (ex_rets x)"
proof -
  let ?x = "extract_listings files"
  let ?addrs = "sort (map fst (ex_syms ?x))"
  have w: "rc = 0" "syms = symbol_text (ex_syms ?x)" "sites = site_text (ex_calls ?x) (ex_rets ?x)" "ex_syms ?x \<noteq> []"
    using assms(1) by (auto simp: dis_to_symbols_def Let_def split: if_splits)
  note ok = extract_ok [of files, unfolded extracted_ok_def]
  have asc: "sorted_wrt (<) ?addrs" using ok by (simp add: strict_sorted_iff)
  let ?rows = "map (\<lambda>a. (a, dict_get_or (ex_syms ?x) a [])) ?addrs"
  have fst_rows: "map fst ?rows = ?addrs" by (simp add: comp_def)
  have "first_rows None (sort_rows (symbol_rows syms)) = ?rows"
    using symbols_read [of "ex_syms ?x"] ok assms(2) w(2) sort_rows_sorted [of ?rows] first_rows_sorted [of ?rows None] asc
    unfolding fst_rows by simp
  moreover have ne: "?addrs \<noteq> []" using w(4) by (metis length_sort length_map length_0_conv)
  ultimately have st: "symbols_from_text syms src = \<lparr> st_addrs = ?addrs, st_names = map (\<lambda>a. dict_get_or (ex_syms ?x) a []) ?addrs,
      st_ends = drop 1 ?addrs @ [last ?addrs + 0x1000], st_source = src \<rparr>"
    using ne by (simp add: symbols_from_text_def Let_def comp_def)
  have "sym_lookup (symbols_from_text syms src) a = Some (n, a, 0)" if an: "(a, n) \<in> set (ex_syms ?x)" for a n
  proof -
    have "a \<in> set ?addrs" using an by force
    then obtain i where i: "i < length ?addrs" "?addrs ! i = a" by (metis in_set_conv_nth)
    have b: "bisect_right ?addrs a = Suc i" using bisect_nth [OF asc i(1)] i(2) by simp
    have n: "dict_get_or (ex_syms ?x) a [] = n" using an ok by (simp add: dict_get_or_def)
    have "a < (drop 1 ?addrs @ [last ?addrs + 0x1000]) ! i"
    proof (cases "Suc i < length ?addrs")
      case True
      then have "?addrs ! i < ?addrs ! Suc i" using asc by (simp add: sorted_wrt_nth_less)
      moreover have "(drop 1 ?addrs @ [last ?addrs + 0x1000]) ! i = drop 1 ?addrs ! i"
        by (rule nth_append_left) (use True in simp)
      moreover have "drop 1 ?addrs ! i = ?addrs ! Suc i" using True by simp
      ultimately show ?thesis using i(2) by simp
    next
      case False
      then have "i = length ?addrs - 1" using i(1) by linarith
      moreover have "last ?addrs = ?addrs ! (length ?addrs - 1)" using ne by (rule last_conv_nth)
      ultimately have "last ?addrs = a" "i = length (drop 1 ?addrs)" using i(2) by simp_all
      then show ?thesis by (simp only: nth_append_length)
    qed
    then show ?thesis using i b n ne unfolding sym_lookup_def st by (auto simp: Let_def)
  qed
  moreover have "set (cs_calls (sites_from_text sites src)) = set (ex_calls ?x)" "set (cs_rets (sites_from_text sites src)) = set (ex_rets ?x)"
    using sites_read [of "ex_calls ?x" "ex_rets ?x" src] ok w(3) by simp_all
  ultimately show ?thesis using w(1) st by (auto simp: Let_def)
qed

definition boot_listing :: string where
  "boot_listing = unlines [''64000008 <_start>:'', ''64000008:'' @ HT # ''0f'' @ HT # ''jal'' @ HT # ''64000010 <f>'',
     ''6400000c:'' @ HT # ''13'' @ HT # ''ret'', ''64000010 <f>:'']"

lemma boot_extracted: "extract_listings [boot_listing] =
    \<lparr> ex_syms = [(0x64000008, ''_start''), (0x64000010, ''f'')], ex_calls = [0x64000008], ex_rets = [0x6400000c] \<rparr>"
  by code_simp

lemma dashboard_reads_listings_witness:
  "\<exists>rc syms sites. dis_to_symbols [boot_listing] = (rc, Some (syms, sites)) \<and>
     sym_lookup (symbols_from_text syms None) 0x64000010 = Some (''f'', 0x64000010, 0)"
proof -
  obtain rc syms sites where d: "dis_to_symbols [boot_listing] = (rc, Some (syms, sites))"
    by (simp add: dis_to_symbols_def boot_extracted)
  have "\<forall>n\<in>snd ` set (ex_syms (extract_listings [boot_listing])). plain_word n"
    by (simp add: boot_extracted plain_word_def is_space_def code_of_def)
  from dashboard_reads_listings [OF d this, of None] d show ?thesis by (auto simp: boot_extracted Let_def)
qed

section \<open>The memory image\<close>

lemma unpacked_nth: "i < length bs div 4 \<Longrightarrow> unpack_words bs ! i = le_int (take 4 (drop (4 * i) bs))"
proof (induction i arbitrary: bs)
  case 0
  then obtain a b c d rest where "bs = a # b # c # d # rest"
    by (cases bs rule: unpack_words.cases) auto
  then show ?case by simp
next
  case (Suc i)
  then obtain a b c d rest where "bs = a # b # c # d # rest"
    by (cases bs rule: unpack_words.cases) auto
  moreover have "drop (4 * Suc i) bs = drop (4 * i) (drop 4 bs)" by (simp add: add.commute)
  ultimately show ?case using Suc by simp
qed

lemma memh_values_words:
  assumes "length (pad_words data) div 4 \<le> d"
  shows "memh_values data (Some (int d)) = map hex8_of (unpack_words (pad_words data) @ replicate (d - length (pad_words data) div 4) 0)"
proof (rule nth_equalityI)
  show "length (memh_values data (Some (int d))) =
      length (map hex8_of (unpack_words (pad_words data) @ replicate (d - length (pad_words data) div 4) 0))"
    using assms by (simp add: memh_values_def Let_def)
  fix i
  assume "i < length (memh_values data (Some (int d)))"
  then have i: "i < d" by (simp add: memh_values_def Let_def)
  have zero: "''00000000'' = hex8_of 0" by code_simp
  show "memh_values data (Some (int d)) ! i =
      map hex8_of (unpack_words (pad_words data) @ replicate (d - length (pad_words data) div 4) 0) ! i"
    using i assms by (auto simp: memh_values_def Let_def nth_append unpacked_nth zero)
qed

lemma join_lines_split: "list_all one_line ls \<Longrightarrow> ls \<noteq> [] \<Longrightarrow> splitlines (join_lines ls @ [NL]) = ls"
proof -
  assume "list_all one_line ls" "ls \<noteq> []"
  moreover have "join_lines ls @ [NL] = unlines ls"
  proof -
    have "concat (map (\<lambda>m. NL # m) ms) @ [NL] = NL # unlines ms" for ms by (induction ms) (simp_all add: unlines_def)
    then show ?thesis using \<open>ls \<noteq> []\<close> by (cases ls) (simp_all add: join_lines_def)
  qed
  ultimately show ?thesis using splitlines_unlines by simp
qed

text \<open>A memory of \<open>d\<close> words that the image fits into is initialised with exactly the bytes of the image, and
  zeros behind them.\<close>

lemma memory_image_exact:
  assumes "length data \<le> 4 * d" "0 < d"
  shows "pack_words (map hex_value (splitlines (memh_text False data (Some (int d))))) = data @ replicate (4 * d - length data) 0"
proof -
  let ?p = "pad_words data" let ?n = "length ?p div 4"
  let ?ws = "unpack_words ?p @ replicate (d - ?n) 0"
  have p: "?p = data @ replicate (4 * ?n - length data) 0" "4 dvd length ?p" "?n \<le> d" "length data \<le> 4 * ?n"
  proof -
    have m: "length data + (4 - length data mod 4) = 4 * ((length data + (4 - length data mod 4)) div 4)"
      "4 dvd length data + (4 - length data mod 4)" by presburger+
    show "?p = data @ replicate (4 * ?n - length data) 0" "4 dvd length ?p" "length data \<le> 4 * ?n"
      using m by (auto simp: pad_words_def mod_eq_0_iff_dvd)
    show "?n \<le> d" using assms(1) by (auto simp: pad_words_def)
  qed
  have u: "\<forall>w\<in>set ?ws. 0 \<le> w" using unpack_words_u32 [of _ ?p] by (auto simp: is_u32_def)
  have "one_line (hex8_of w)" for w by (rule plain_one_line) simp
  then have "list_all one_line (map hex8_of ?ws)" unfolding list_all_iff set_map by blast
  moreover have "map hex8_of ?ws \<noteq> []"
  proof -
    have "length (map hex8_of ?ws) = d" using p(3) by simp
    then have "0 < length (map hex8_of ?ws)" using assms(2) by simp
    then show ?thesis by (metis length_greater_0_conv)
  qed
  ultimately have "splitlines (memh_text False data (Some (int d))) = map hex8_of ?ws"
    unfolding memh_text_def Let_def memh_values_words [OF p(3)] by (simp add: join_lines_split del: map_append)
  then have "map hex_value (splitlines (memh_text False data (Some (int d)))) = ?ws"
    by (simp only: map_map) (rule map_idI, use u in simp)
  moreover have "pack_words ?ws = data @ replicate (4 * d - length data) 0"
  proof -
    have z: "pack_words (replicate k 0) = replicate (4 * k) 0" for k
      by (induction k) (simp_all add: pack_word_def eval_nat_numeral)
    have "pack_words ?ws = ?p @ replicate (4 * (d - ?n)) 0" using pack_unpack_words [OF p(2)] z by simp
    also have "\<dots> = data @ replicate (4 * ?n - length data + 4 * (d - ?n)) 0"
      by (subst p(1)) (simp add: replicate_add)
    also have "4 * ?n - length data + 4 * (d - ?n) = 4 * d - length data" using p(3,4) by linarith
    finally show ?thesis .
  qed
  ultimately show ?thesis by simp
qed

lemma memory_image_exact_witness:
  "pack_words (map hex_value (splitlines (memh_text False [1, 2, 3, 4, 5] (Some (int 3))))) = [1, 2, 3, 4, 5, 0, 0, 0, 0, 0, 0, 0]"
proof -
  have z: "[1, 2, 3, 4, 5 :: byte] @ replicate (4 * 3 - length [1, 2, 3, 4, 5 :: byte]) 0 = [1, 2, 3, 4, 5, 0, 0, 0, 0, 0, 0, 0]"
    by (simp add: replicate_eqI eval_nat_numeral)
  show ?thesis by (rule memory_image_exact [of "[1, 2, 3, 4, 5]" 3, unfolded z]) simp_all
qed

text \<open>A depth below the image cuts it without a message.\<close>

lemma image_cut_silently: "memh_values [1, 2, 3, 4, 5, 6, 7, 8] (Some 1) = [hex8_of 0x04030201]"
  by (simp add: memh_values_def pad_words_def)

end
