(* ===== verification/Board_Check.thy ===== *)
theory Board_Check
  imports Wp_Oracle Text_Lines
begin

text \<open>
  The verdicts over the logs of the two board runs (\<open>tgc5b2_axis_wp/board/wp_check.py\<close>). Every search pattern of
  the tool is a sequence of literals, spaces and numbers, matched by one function; the logs are inputs, and a
  finding is a constructor where the tool prints a sentence.
\<close>

section \<open>Patterns\<close>

datatype pat =
    Lit string
  | Spaces
  | Num nat

definition digit_in :: "nat \<Rightarrow> char \<Rightarrow> bool" where
  "digit_in b c \<longleftrightarrow> digit_of b c \<noteq> None"

definition num_value :: "nat \<Rightarrow> string \<Rightarrow> int" where
  "num_value b h = opt_or (digits b h) 0"

text \<open>A number takes all its digits; in the patterns no digit follows one.\<close>

fun match_pat :: "pat list \<Rightarrow> string \<Rightarrow> int list option" where
  "match_pat [] s = Some []"
| "match_pat (Lit l # ps) s = (if startswith s l then match_pat ps (drop (length l) s) else None)"
| "match_pat (Spaces # ps) s = (if lstrip s = s then None else match_pat ps (lstrip s))"
| "match_pat (Num b # ps) s =
     (let h = takeWhile (digit_in b) s in
      if h = [] then None else map_option (Cons (num_value b h)) (match_pat ps (dropWhile (digit_in b) s)))"

fun search_pat :: "pat list \<Rightarrow> string \<Rightarrow> int list option" where
  "search_pat ps [] = match_pat ps []"
| "search_pat ps (c # cs) = (case match_pat ps (c # cs) of Some r \<Rightarrow> Some r | None \<Rightarrow> search_pat ps cs)"

definition REC_PAT :: "pat list" where
  "REC_PAT = [Lit ''Record(#'', Num 10, Lit '' core='', Num 10, Lit '' pc=0x'', Num 16, Lit '' direct=0x'', Num 16,
     Lit '' ts=0x'', Num 16, Lit '' tid=0x'', Num 16, Lit '' tstrb=0x'', Num 16, Lit '')'']"

definition COUNTS_PAT :: "pat list" where
  "COUNTS_PAT = [Lit ''COUNTS'', Spaces, Lit ''records='', Num 10, Lit '' valid='', Num 10, Lit '' invalid='', Num 10,
     Lit '' malformed_words='', Num 10, Lit '' malformed_bytes='', Num 10, Lit '' wraps='', Num 10,
     Lit '' misses='', Num 10, Lit '' unmatched='', Num 10]"

definition STATE_PAT :: "pat list" where
  "STATE_PAT = [Lit ''RUN_STATE drops0='', Num 10, Lit '' drops1='', Num 10, Lit '' ovf0='', Num 10, Lit '' ovf1='', Num 10,
     Lit '' fill0='', Num 10, Lit '' fill1='', Num 10, Lit '' phase0='', Num 10, Lit '' phase1='', Num 10]"

definition RESULT_PAT :: "pat list" where
  "RESULT_PAT = [Lit ''RESULT'', Spaces, Lit ''PASS'']"

record rec_line =
  rl_core :: int
  rl_pc :: int
  rl_direct :: int
  rl_ts :: int
  rl_tid :: int
  rl_tstrb :: int

record counts =
  ct_records :: int
  ct_invalid :: int
  ct_malformed_words :: int
  ct_malformed_bytes :: int
  ct_wraps :: int
  ct_misses :: int
  ct_unmatched :: int

record run_state =
  st_drops :: "int \<times> int"
  st_ovf :: "int \<times> int"
  st_phase :: "int \<times> int"

definition rec_of :: "string \<Rightarrow> rec_line option" where
  "rec_of line = (case search_pat REC_PAT line of
     Some [i, core, pc, direct, ts, tid, tstrb] \<Rightarrow>
       Some \<lparr> rl_core = core, rl_pc = pc, rl_direct = direct, rl_ts = ts, rl_tid = tid, rl_tstrb = tstrb \<rparr>
   | _ \<Rightarrow> None)"

definition parse_raw :: "string \<Rightarrow> rec_line list" where
  "parse_raw out = List.map_filter rec_of (file_lines out)"

text \<open>The first line that matches, anywhere or at its start.\<close>

definition grep_first :: "(string \<Rightarrow> 'a option) \<Rightarrow> string \<Rightarrow> 'a option" where
  "grep_first f out = (case List.map_filter f (file_lines out) of [] \<Rightarrow> None | x # _ \<Rightarrow> Some x)"

definition counts_of :: "string \<Rightarrow> counts option" where
  "counts_of out = (case grep_first (match_pat COUNTS_PAT) out of
     Some [nr, nv, ni, mw, mb, nw, nm, nu] \<Rightarrow>
       Some \<lparr> ct_records = nr, ct_invalid = ni, ct_malformed_words = mw, ct_malformed_bytes = mb,
              ct_wraps = nw, ct_misses = nm, ct_unmatched = nu \<rparr>
   | _ \<Rightarrow> None)"

definition run_state_of :: "string \<Rightarrow> run_state option" where
  "run_state_of out = (case grep_first (search_pat STATE_PAT) out of
     Some [d0, d1, o0, o1, f0, f1, p0, p1] \<Rightarrow> Some \<lparr> st_drops = (d0, d1), st_ovf = (o0, o1), st_phase = (p0, p1) \<rparr>
   | _ \<Rightarrow> None)"

definition passed :: "string \<Rightarrow> bool" where
  "passed out \<longleftrightarrow> grep_first (match_pat RESULT_PAT) out \<noteq> None"

text \<open>\<open>SCRATCH core<c> .*end-of-walk marker\<close> in one line.\<close>

fun marker_line :: "string \<Rightarrow> string \<Rightarrow> bool" where
  "marker_line head [] \<longleftrightarrow> False"
| "marker_line head (c # cs) \<longleftrightarrow>
     startswith (c # cs) head \<and> search_pat [Lit ''end-of-walk marker''] (drop (length head) (c # cs)) \<noteq> None
     \<or> marker_line head cs"

definition has_marker :: "nat \<Rightarrow> string \<Rightarrow> bool" where
  "has_marker c out \<longleftrightarrow> list_ex (marker_line (''SCRATCH core'' @ str_d (int c) @ '' '')) (file_lines out)"

definition expected_count :: "string \<Rightarrow> nat" where
  "expected_count text = length (filter (\<lambda>l. strip l \<noteq> []) (file_lines text))"

section \<open>Run A\<close>

datatype finding =
    No_Run_State
  | Run_Drops
  | Phase_Not_64
  | No_Marker nat
  | No_Counts nat
  | Count_Differs nat
  | Not_Clean nat
  | Reader_Failed nat
  | Meta_Violations nat nat
  | Not_Increasing nat nat
  | Cross_Delta int
  | Merge_Violations nat
  | Balance_Off nat
  | Balance_Differs

definition clean_counts :: "counts \<Rightarrow> bool" where
  "clean_counts n \<longleftrightarrow> ct_invalid n = 0 \<and> ct_malformed_words n = 0 \<and> ct_malformed_bytes n = 0 \<and> ct_misses n = 0 \<and> ct_unmatched n = 0"

definition meta_ok :: "(int \<rightharpoonup> int) \<Rightarrow> nat \<Rightarrow> rec_line \<Rightarrow> bool" where
  "meta_ok slots c r \<longleftrightarrow> rl_core r = int c \<and> slots (rl_pc r) = Some (rl_direct r) \<and> rl_tid r = 1 \<and> rl_tstrb r = 0xFFF"

fun not_increasing :: "int list \<Rightarrow> nat" where
  "not_increasing (a # b # ts) = (if b \<le> a then 1 else 0) + not_increasing (b # ts)"
| "not_increasing _ = 0"

text \<open>The two-pointer merge of both streams, counting the steps backwards.\<close>

fun merge_bad :: "int \<Rightarrow> int list \<Rightarrow> int list \<Rightarrow> nat" where
  "merge_bad prev [] [] = 0"
| "merge_bad prev (x # xs) [] = (if x < prev then 1 else 0) + merge_bad x xs []"
| "merge_bad prev [] (y # ys) = (if y < prev then 1 else 0) + merge_bad y [] ys"
| "merge_bad prev (x # xs) (y # ys) =
     (if x \<le> y then (if x < prev then 1 else 0) + merge_bad x xs (y # ys)
      else (if y < prev then 1 else 0) + merge_bad y (x # xs) ys)"

definition max_delta :: "int list \<Rightarrow> int list \<Rightarrow> int" where
  "max_delta xs ys = fold (\<lambda>(x, y) m. max m \<bar>x - y\<bar>) (zip xs ys) 0"

definition report_if :: "bool \<Rightarrow> finding \<Rightarrow> finding list" where
  "report_if b f = (if b then [f] else [])"

definition board_findings :: "string \<Rightarrow> finding list" where
  "board_findings board =
     (case run_state_of board of
        None \<Rightarrow> [No_Run_State]
      | Some s \<Rightarrow> report_if (st_drops s \<noteq> (0, 0) \<or> st_ovf s \<noteq> (0, 0)) Run_Drops @ report_if (st_phase s \<noteq> (64, 64)) Phase_Not_64)
     @ concat (map (\<lambda>c. report_if (\<not> has_marker c board) (No_Marker c)) [0, 1])"

definition stream_findings :: "(int \<rightharpoonup> int) \<Rightarrow> nat \<Rightarrow> nat \<Rightarrow> string \<Rightarrow> finding list" where
  "stream_findings slots nexp c out =
     (let recs = parse_raw out in
      case counts_of out of
        None \<Rightarrow> [No_Counts c]
      | Some n \<Rightarrow>
          let bad_meta = length (filter (\<lambda>r. \<not> meta_ok slots c r) recs); bad_ts = not_increasing (map rl_ts recs) in
          report_if (ct_records n \<noteq> int nexp \<or> length recs \<noteq> nexp) (Count_Differs c)
          @ report_if (\<not> clean_counts n) (Not_Clean c)
          @ report_if (\<not> passed out) (Reader_Failed c)
          @ report_if (bad_meta \<noteq> 0) (Meta_Violations c bad_meta)
          @ report_if (bad_ts \<noteq> 0) (Not_Increasing c bad_ts))"

definition cross_findings :: "nat \<Rightarrow> string \<Rightarrow> string \<Rightarrow> finding list" where
  "cross_findings nexp out0 out1 =
     (let t0 = map rl_ts (parse_raw out0); t1 = map rl_ts (parse_raw out1) in
      if length t0 = nexp \<and> length t1 = nexp then
        let xmax = max_delta t0 t1; bad = merge_bad (-1) t0 t1 in
        report_if (64 < xmax) (Cross_Delta xmax) @ report_if (bad \<noteq> 0) (Merge_Violations bad)
      else [])"

definition run_a :: "(int \<rightharpoonup> int) \<Rightarrow> string \<Rightarrow> string \<Rightarrow> string \<Rightarrow> string \<Rightarrow> finding list" where
  "run_a slots expected board out0 out1 =
     (let nexp = expected_count expected in
      board_findings board @ stream_findings slots nexp 0 out0 @ stream_findings slots nexp 1 out1
      @ cross_findings nexp out0 out1)"

section \<open>Run B\<close>

record leg_logs =
  lg_flush :: string
  lg_leg :: string
  lg_rest :: string

definition leg_counts :: "leg_logs \<Rightarrow> (counts \<times> counts \<times> counts) option" where
  "leg_counts l = (case (counts_of (lg_flush l), counts_of (lg_leg l), counts_of (lg_rest l)) of
     (Some a, Some b, Some c) \<Rightarrow> Some (a, b, c) | _ \<Rightarrow> None)"

text \<open>The findings of a core, and what it has delivered and dropped (zero without counters).\<close>

definition core_balance :: "nat \<Rightarrow> nat \<Rightarrow> leg_logs \<Rightarrow> int \<Rightarrow> int \<Rightarrow> finding list \<times> int" where
  "core_balance nexp c l drops phase =
     (case leg_counts l of
        None \<Rightarrow> ([No_Counts c], 0)
      | Some (f, g, r) \<Rightarrow>
          let total = ct_records f + ct_records g + ct_records r + drops;
              produced = (of_int (phase * int nexp) / 64 :: rat) in
          (concat (map (\<lambda>n. report_if (\<not> clean_counts n) (Not_Clean c)) [f, g, r])
           @ concat (map (\<lambda>out. report_if (\<not> passed out) (Reader_Failed c)) [lg_leg l, lg_rest l])
           @ report_if (of_nat nexp < \<bar>of_int total - produced\<bar>) (Balance_Off c), total))"

definition run_b :: "string \<Rightarrow> string \<Rightarrow> leg_logs \<Rightarrow> leg_logs \<Rightarrow> finding list" where
  "run_b expected board l0 l1 =
     (case run_state_of board of
        None \<Rightarrow> [No_Run_State]
      | Some s \<Rightarrow>
          let nexp = expected_count expected;
              b0 = core_balance nexp 0 l0 (fst (st_drops s)) (fst (st_phase s));
              b1 = core_balance nexp 1 l1 (snd (st_drops s)) (snd (st_phase s)) in
          fst b0 @ fst b1 @ report_if (int nexp < \<bar>snd b0 - snd b1\<bar>) Balance_Differs)"

definition check_verdict :: "finding list \<Rightarrow> int" where
  "check_verdict fs = (if fs = [] then 0 else 1)"

section \<open>What the verdicts mean\<close>

lemma report_if_Nil [simp]: "report_if b f = [] \<longleftrightarrow> \<not> b"
  by (simp add: report_if_def)

lemma not_increasing_zero: "not_increasing ts = 0 \<longleftrightarrow> sorted_wrt (<) ts"
  by (induction ts rule: not_increasing.induct) (fastforce split: if_splits)+

lemma merge_bad_zero: "merge_bad p xs ys = 0 \<longleftrightarrow> sorted (p # xs) \<and> sorted (p # ys)"
  by (induction p xs ys rule: merge_bad.induct) (fastforce split: if_splits)+

lemma max_delta_le:
  assumes "length xs = length ys" "0 \<le> b"
  shows "max_delta xs ys \<le> b \<longleftrightarrow> (\<forall>i < length xs. \<bar>xs ! i - ys ! i\<bar> \<le> b)"
proof -
  have "fold (\<lambda>(x, y) m. max m \<bar>x - y\<bar>) ps m \<le> b \<longleftrightarrow> m \<le> b \<and> (\<forall>(x, y)\<in>set ps. \<bar>x - y\<bar> \<le> b)" for ps m
    by (induction ps arbitrary: m) auto
  then have "max_delta xs ys \<le> b \<longleftrightarrow> (\<forall>(x, y)\<in>set (zip xs ys). \<bar>x - y\<bar> \<le> b)" using assms(2) by (simp add: max_delta_def)
  also have "\<dots> \<longleftrightarrow> (\<forall>i < length xs. \<bar>xs ! i - ys ! i\<bar> \<le> b)" unfolding set_zip using assms(1) by fastforce
  finally show ?thesis .
qed

lemma num_value_nonneg: "0 \<le> num_value b h"
proof (cases "digits b h")
  case (Some v)
  then have "0 \<le> v" by (auto simp: digits_def intro: digits_after_nonneg dest: digit_of_range split: list.splits option.splits)
  then show ?thesis using Some by (simp add: num_value_def opt_or_def)
qed (simp add: num_value_def opt_or_def)

lemma match_nonneg: "match_pat ps s = Some ns \<Longrightarrow> n \<in> set ns \<Longrightarrow> 0 \<le> n"
  by (induction ps s arbitrary: ns rule: match_pat.induct) (auto simp: num_value_nonneg Let_def split: if_splits)

lemma search_nonneg: "search_pat ps s = Some ns \<Longrightarrow> n \<in> set ns \<Longrightarrow> 0 \<le> n"
proof (induction ps s rule: search_pat.induct)
  case (1 ps)
  then show ?case using match_nonneg [of ps "[]"] by simp
next
  case (2 ps c cs)
  then show ?case using match_nonneg [of ps "c # cs"] by (cases "match_pat ps (c # cs)") auto
qed

lemma raw_ts_nonneg: "r \<in> set (parse_raw out) \<Longrightarrow> 0 \<le> rl_ts r"
proof -
  assume "r \<in> set (parse_raw out)"
  then obtain line where "rec_of line = Some r" by (auto simp: parse_raw_def map_filter_def)
  then obtain i core pc direct ts tid tstrb where
    "search_pat REC_PAT line = Some [i, core, pc, direct, ts, tid, tstrb]" "rl_ts r = ts"
    by (auto simp: rec_of_def split: option.splits list.splits)
  then show "0 \<le> rl_ts r" using search_nonneg [of REC_PAT line _ ts] by simp
qed

text \<open>A stream that is exactly the expected one: as many records as expected, each of core \<open>c\<close> with the slot of
  its address, in strictly increasing time.\<close>

definition exact_stream :: "(int \<rightharpoonup> int) \<Rightarrow> nat \<Rightarrow> nat \<Rightarrow> rec_line list \<Rightarrow> bool" where
  "exact_stream slots nexp c recs \<longleftrightarrow> length recs = nexp \<and> list_all (meta_ok slots c) recs \<and> sorted_wrt (<) (map rl_ts recs)"

definition clean_log :: "nat \<Rightarrow> string \<Rightarrow> bool" where
  "clean_log nexp out \<longleftrightarrow> passed out \<and> (\<exists>n. counts_of out = Some n \<and> ct_records n = int nexp \<and> clean_counts n)"

definition clean_board :: "string \<Rightarrow> bool" where
  "clean_board board \<longleftrightarrow> has_marker 0 board \<and> has_marker 1 board \<and>
     (\<exists>s. run_state_of board = Some s \<and> st_drops s = (0, 0) \<and> st_ovf s = (0, 0) \<and> st_phase s = (64, 64))"

lemma board_findings_Nil: "board_findings board = [] \<longleftrightarrow> clean_board board"
  by (auto simp: board_findings_def clean_board_def split: option.splits)

lemma stream_findings_Nil:
  "stream_findings slots nexp c out = [] \<longleftrightarrow> clean_log nexp out \<and> exact_stream slots nexp c (parse_raw out)"
  by (auto simp: stream_findings_def clean_log_def exact_stream_def not_increasing_zero filter_empty_conv list_all_iff
      Let_def split: option.splits)

lemma cross_findings_Nil:
  assumes "exact_stream s0 nexp c0 (parse_raw out0)" "exact_stream s1 nexp c1 (parse_raw out1)"
  shows "cross_findings nexp out0 out1 = [] \<longleftrightarrow>
     (\<forall>i < nexp. \<bar>rl_ts (parse_raw out0 ! i) - rl_ts (parse_raw out1 ! i)\<bar> \<le> 64)"
proof -
  let ?t0 = "map rl_ts (parse_raw out0)" and ?t1 = "map rl_ts (parse_raw out1)"
  have l: "length ?t0 = nexp" "length ?t1 = nexp" using assms by (simp_all add: exact_stream_def)
  have "sorted ?t0" "sorted ?t1" using assms by (auto simp: exact_stream_def strict_sorted_iff)
  moreover have "\<forall>t\<in>set ?t0 \<union> set ?t1. -1 \<le> t" using raw_ts_nonneg by force
  ultimately have "merge_bad (-1) ?t0 ?t1 = 0" unfolding merge_bad_zero by simp
  moreover have "\<not> 64 < max_delta ?t0 ?t1 \<longleftrightarrow> (\<forall>i < nexp. \<bar>?t0 ! i - ?t1 ! i\<bar> \<le> 64)"
    using max_delta_le [of ?t0 ?t1 64] l by (simp only: not_less)
  ultimately show ?thesis using l by (auto simp: cross_findings_def Let_def)
qed

section \<open>Properties\<close>

text \<open>C25: Run A passes exactly when the board lost nothing and both cores delivered the whole expected walk: as many
  records as expected, each from its core, with the slot of its address and the meta words of the build, in
  strictly increasing time, and the records of the two cores at most 64 ticks apart position by position. The
  merge of the two streams by time then never steps back: that check adds nothing to the others.\<close>

theorem run_a_exact:
  "check_verdict (run_a slots expected board out0 out1) = 0 \<longleftrightarrow>
     (let n = expected_count expected; r0 = parse_raw out0; r1 = parse_raw out1 in
      clean_board board \<and> clean_log n out0 \<and> clean_log n out1 \<and> exact_stream slots n 0 r0 \<and> exact_stream slots n 1 r1 \<and>
      (\<forall>i < n. \<bar>rl_ts (r0 ! i) - rl_ts (r1 ! i)\<bar> \<le> 64))"
  using cross_findings_Nil [of slots "expected_count expected" 0 out0 slots 1 out1]
  by (auto simp: check_verdict_def run_a_def Let_def board_findings_Nil stream_findings_Nil)

text \<open>One record per core, four ticks apart.\<close>

definition sample_board :: string where
  "sample_board = unlines
     [''RUN_STATE drops0=0 drops1=0 ovf0=0 ovf1=0 fill0=0 fill1=0 phase0=64 phase1=64'',
      ''SCRATCH core0 = end-of-walk marker'', ''SCRATCH core1 = end-of-walk marker'']"

definition sample_log :: "string \<Rightarrow> string" where
  "sample_log rec = unlines
     [rec, ''COUNTS records=1 valid=1 invalid=0 malformed_words=0 malformed_bytes=0 wraps=0 misses=0 unmatched=0'', ''RESULT PASS'']"

definition sample_out :: "nat \<Rightarrow> string" where
  "sample_out c = sample_log (if c = 0
     then ''Record(#0 core=0 pc=0x100 direct=0x3 ts=0x10 tid=0x01 tstrb=0xFFF)''
     else ''Record(#0 core=1 pc=0x100 direct=0x3 ts=0x14 tid=0x01 tstrb=0xFFF)'')"

lemma sample_run_passes: "check_verdict (run_a [0x100 \<mapsto> 3] (unlines [''0x100'']) sample_board (sample_out 0) (sample_out 1)) = 0"
  by code_simp

lemma run_a_exact_witness:
  "clean_board sample_board \<and> exact_stream [0x100 \<mapsto> 3] 1 0 (parse_raw (sample_out 0)) \<and>
   \<bar>rl_ts (parse_raw (sample_out 0) ! 0) - rl_ts (parse_raw (sample_out 1) ! 0)\<bar> \<le> 64"
proof -
  have n: "expected_count (unlines [''0x100'']) = 1" by code_simp
  show ?thesis using sample_run_passes unfolding run_a_exact Let_def n by simp
qed

lemma balance_scale:
  "(of_nat n < \<bar>of_int t - of_int z / (64 :: rat)\<bar>) \<longleftrightarrow> 64 * int n < \<bar>64 * t - z\<bar>"
proof -
  have "of_int t - of_int z / (64 :: rat) = of_int (64 * t - z) / 64" by (simp add: field_simps)
  then have "\<bar>of_int t - of_int z / (64 :: rat)\<bar> = of_int \<bar>64 * t - z\<bar> / 64"
    by (simp only: abs_divide of_int_abs abs_numeral)
  then have "(of_nat n < \<bar>of_int t - of_int z / (64 :: rat)\<bar>) \<longleftrightarrow> (of_int (64 * int n) :: rat) < of_int \<bar>64 * t - z\<bar>"
    by (simp add: field_simps)
  then show ?thesis by (simp only: of_int_less_iff)
qed

definition leg_total :: "leg_logs \<Rightarrow> int \<Rightarrow> int" where
  "leg_total l drops = (case leg_counts l of None \<Rightarrow> 0 | Some (f, g, r) \<Rightarrow> ct_records f + ct_records g + ct_records r + drops)"

text \<open>A core's two legs are in order: all their counts are there and clean, both reader runs passed, and records
  plus drops are what the phases run so far produce, up to one sweep.\<close>

definition balanced :: "nat \<Rightarrow> leg_logs \<Rightarrow> int \<Rightarrow> int \<Rightarrow> bool" where
  "balanced n l drops phase \<longleftrightarrow>
     (case leg_counts l of None \<Rightarrow> False | Some (f, g, r) \<Rightarrow> list_all clean_counts [f, g, r]) \<and>
     passed (lg_leg l) \<and> passed (lg_rest l) \<and> \<bar>64 * leg_total l drops - phase * int n\<bar> \<le> 64 * int n"

lemma core_balance_exact:
  "fst (core_balance n c l drops phase) = [] \<longleftrightarrow> balanced n l drops phase"
  "snd (core_balance n c l drops phase) = leg_total l drops"
proof -
  have "fst (core_balance n c l drops phase) = [] \<longleftrightarrow> balanced n l drops phase \<and> True" if h: "leg_counts l = Some (f, g, r)" for f g r
    unfolding core_balance_def balanced_def leg_total_def h option.case prod.case Let_def balance_scale fst_conv append_is_Nil_conv
      report_if_Nil not_less by simp
  then show "fst (core_balance n c l drops phase) = [] \<longleftrightarrow> balanced n l drops phase"
    by (cases "leg_counts l") (auto simp: core_balance_def balanced_def)
  show "snd (core_balance n c l drops phase) = leg_total l drops"
    by (simp add: core_balance_def leg_total_def Let_def split: option.splits)
qed

lemma run_b_exact:
  "check_verdict (run_b expected board l0 l1) = 0 \<longleftrightarrow>
     (case run_state_of board of
        None \<Rightarrow> False
      | Some s \<Rightarrow>
          let n = expected_count expected in
          balanced n l0 (fst (st_drops s)) (fst (st_phase s)) \<and> balanced n l1 (snd (st_drops s)) (snd (st_phase s)) \<and>
          \<bar>leg_total l0 (fst (st_drops s)) - leg_total l1 (snd (st_drops s))\<bar> \<le> int n)"
  by (simp add: check_verdict_def run_b_def Let_def core_balance_exact not_less split: option.splits)

end
