(* ===== verification/Spec2Isabelle.thy ===== *)
theory Spec2Isabelle
  imports Wp_Reader Wp_Indirect Wp_View Console_Reader Guest_Boot App_Load Etrace_Predict Etrace_Mirrors
    Etrace_Listing Rv_Sites Wp_Oracle Ctl_Actions Api_Regs Scenario_Switch Core_Pc
    Coverage_Map Guest_Console Trio_Demux Pc_Compare File_List Replay_Gen Image_Tools Board_Check
begin

text \<open>
  A verification library for the Python host software of the TraceEncoder repository: the readers
  of the AXI-Stream watchpoint unit (\<open>tools/axis_wp_host\<close>), the server of the trace dashboard
  (\<open>examples/dashboard\<close>), the E-Trace decoder (\<open>tools/etrace\<close>), the generators of the two demo
  programs with their watchpoint tables (\<open>examples/kv260\<close>), and the converters and gates between the tools. The hardware itself (SystemVerilog) is outside; what the software relies
  on of it stands in the locales and in the hypotheses of the properties.

  \<^bold>\<open>How the program is modelled.\<close> A Python \<open>int\<close> is an \<open>int\<close>, a byte of a \<open>bytes\<close> object an
  \<open>8 word\<close>, a \<open>dict\<close> an association list that keeps insertion order, an optional key an \<open>option\<close>, a
  float a rational. Code that touches a bus, a file or a process is an action
  \<open>'s \<Rightarrow> (exn + 'a) \<times> 's\<close>: the state is kept when an exception is raised, so what was already written
  stays written. An exception is \<open>Exn kind template args\<close>: the leading text of its message and the
  values formatted into it. Threads are step relations or sequences of atomic operations.

  \<^bold>\<open>Theories, in the order of the code.\<close>

  \<^item> Prelude, Py_Bytes, Py_Strings, Frames: exceptions and actions, 32-bit masking, dictionaries,
    \<open>struct\<close> packing, the string and number parsing of Python, frame reasoning for actions.
  \<^item> Wp_Records (\<open>wp_records.py\<close>), Wp_Checks (\<open>checks.py\<close>): the four-word records, their validity,
    grouping by core, the timestamp check and its unwrapping, membership and sequence checks, merging.
  \<^item> Fifo_MM (\<open>fifo_mm_s.py\<close>), Wp_Indirect (\<open>wp_load_indirect.py\<close>), Wp_Reader
    (\<open>read_wp_stream.py\<close>): the receive driver over a bus, the loading of the watchpoint table with its
    read-back, the command line reader and its verdict.
  \<^item> Scenario (\<open>scenario.py\<close>), Dash_Bus, Reg_Access, Demo_Bus, Core_Run, Hw_Bus, Ring_Dump,
    Console_Reader, Elf_Load, Guest_Boot, Trace_Sinks, Board_State, App_Load (\<open>server.py\<close>): scenarios
    and their run masks; Bus_Log, a bus under watch, on which what a routine writes, how often and in which
    order can be stated; word access and the register map; the write gates and the discovery; the
    register simulation; starting and stopping a core with the interlock of the protocols; the live
    bus over mapped memory; the dumps of the trace ring and of the DDR window; the recording of the
    guest console; the loading of a program; the boot of a guest; the arming of the sinks; what the
    board has loaded; the loading of a bitstream.
  \<^item> Wp_View (\<open>wp_view.py\<close>), Insight (\<open>insight.py\<close>): the live view of the watchpoint stream with its
    resynchronisation, and the analysis of the decoded PC stream.
  \<^item> Etrace_Packets, Etrace_Decoder, Etrace_Listing (\<open>etrace_common.py\<close>, \<open>etrace_decode.py\<close>,
    \<open>etrace_data_check.py\<close>, \<open>pcinfo2listing.py\<close>, \<open>objdump2listing.py\<close>, with the vendored base classes
    they extend): the bit reader and the packet parsers, the walk along the program, the instructions
    from a listing. Py_Format: numbers as text. Etrace_Paths, Etrace_Predict, Etrace_Mirrors: the
    executions of a program, their reconstruction with branch maps, folded returns, the jump target
    cache and counted predictions, and the invariant of the mirrored state.

  \<^item> Ctl_Actions, Api_Regs (\<open>server.py\<close>): the actions of the control endpoint (run, stop, single cores,
    trace on and off, sinks, preload, clear, flush, interrupts) with their hints and report; the endpoints
    that read and write registers, the trace tail and the histogram. Scenario_Switch: the pair of buses, the
    symbol files and the selection of a scenario. Core_Pc: the program counter read in two halves.
    Coverage_Map: the tree of code regions, prefixes and functions. Guest_Console: the console endpoint and
    the input for the guest.
  \<^item> Py_Printf: \<open>%\<close>-formatting and lines of text. Rv_Program, Rv_Sites (\<open>tgc5b2_rvcfi/sw/gen_program.py\<close>,
    \<open>gen_sites.py\<close>): the generated instrumented program with its manifest, the tags and the site tables.
    Wp_Program, Wp_Set, Wp_Oracle (\<open>tgc5b2_axis_wp/sw\<close> and \<open>board\<close>): the generated walk with its random
    numbers, the disassembly parser and the choice of the watchpoints, the consistency gate, the table and
    expectation files and their readers.
  \<^item> Trio_Demux (\<open>trio/tools/etrace_trio_demux.py\<close>): the merged container of several cores taken apart, and the
    funnel that makes it. Text_Lines: lines of a text written and split again. Pc_Compare
    (\<open>scripts/check_pcout_vs_retired.py\<close>): decoded counters against retired ones. Dfs_Order, File_List
    (\<open>duo/fpga/abc_filelist.py\<close>): a depth-first search that tolerates cycles, and the file lists made with it.
    Replay_Gen (\<open>scripts/gen_replay.py\<close>): the replay tasks, run on the tasks of \<open>tests/lib/cpu_model.sv\<close>.
    Image_Tools (\<open>dashboard/dis_to_symbols.py\<close>, \<open>scripts/bin_to_memh.py\<close>): symbol tables, sites and memory
    images. Board_Check (\<open>tgc5b2_axis_wp/board/wp_check.py\<close>): the verdicts on the two board runs.

  \<^bold>\<open>Interfaces.\<close> A locale states what a client relies on, and is interpreted on the model's own
  definitions: the receive port of the FIFO (on the fake register bus of the repository's tests), the
  run port of \<open>set_core_run\<close> (on the register simulation), the encoder and
  control ports of the control actions (on the register simulation, plain and under watch, with the
  sinks of the simulation as a port of their own), the ports of the trace ring, of the DDR
  window and of the console ring (on the mapped memory of the live bus).

  \<^bold>\<open>What the properties and the other main lemmas show.\<close> The watchpoint tools: parsing inverts writing, the checks report exactly
  what their description says, unwrapping recovers the true time as long as neighbours are less than
  half a period apart, a drain loses no word, the reader's exit code is the conjunction of its checks.
  The server: which writes are refused and that a refused write is lost; that a read-modify-write
  identity changes nothing; that starting a core starts that core only and never mixes protocols;
  that the dumps return the newest bytes in capture order; that the console recording counts what it
  cannot keep; that a program load changes nothing but CONTROL and its window and puts every byte of the image at its
  address, where no padding of a later segment reaches into an earlier one, and that the ELF
  reader inverts a writer after the ELF specification; that the boot thread refines the machine idle, booting, ended, is
  alone, and comes to its end; that arming the sinks is one write of the right bits, touches no pulse bit, no unreserved memory and
  nothing else, and is not repeated;
  that the commands of an app load come in the one safe order; that a control action arms, stops and
  restarts what it says, with the words it writes in between, and one that fails on the register simulation
  changes nothing; that the trace window cannot be moved from
  outside; that every switch leaves both buses on the selected scenario and opens the hardware only where it may,
  and that a selection starts every recording afresh; which moment a program counter read
  in halves stands for; that the coverage map puts every function in exactly one group and its sums lose none; that typed characters arrive or are counted. The generators: tables, walk and expectation files read back as what they were made from, the tag of a site
  as long as its index fits the field, and a
  gate that passes means what the test bench relies on. The tools between them: separating a merged container
  gives back each core's capture, and with it each core's execution; the comparison of counters passes only on
  a contiguous part; a file list is the closure in compile order; a replay retires the sequence it was made
  from; what the dashboard reads from the written tables is what the listings hold; run A of the board passes
  exactly on two complete streams in step. The views: the ring and the counters
  stay consistent over every tick, a healthy FIFO is never reset, and the analysis agrees with an ideal
  call stack. The E-Trace decoder: every packet is read back as it was packed; the bytes of the trace of
  an execution make the decoder write exactly the addresses of that execution; no packet breaks the
  mirrored predictor and cache; the listings lose nothing the walk depends on.

  \<^bold>\<open>Bounds and fuel.\<close> The drain of the FIFO takes fuel; one more than the number of packets present is
  enough, as the termination property shows. The searches of the file lists take fuel; one more than the number
  of files is enough, on cyclic graphs too, as their termination property shows. A walk of the E-Trace decoder takes fuel and answers whether
  it has ended: one more than the number of instructions passed is enough, as the reconstruction shows;
  on a program that loops without a branch the code does not end either. The polling of a slot ends after five readings as in the
  code. Every other recursion is structural or has a proved measure. Addresses and lengths read from
  hardware are 32-bit; ELF64 fields are 64-bit; Python integers are unbounded.

  \<^bold>\<open>What is not modelled, and why.\<close> Waiting times, log files, the JSON rendering and the rounding of
  displayed numbers; opening and closing devices and files (their content, and their failure where the
  code handles it, are inputs); the HTTP handlers; the sampler threads; the external decoder and what
  drives it. The other gates of the repository (\<open>scripts/check_*.py\<close>), the generators of
  packages, the recorders of the web demo and the layout tools scan or print text and
  carry no logic of the trace system. SystemVerilog, the vendored models and the browser pages are in
  other languages or third-party code.
\<close>

end
